(* ===== verification/Prelude.thy ===== *)
theory Prelude
  imports Main "HOL-Library.Word" "HOL-Library.List_Lexorder" "HOL-Library.Code_Target_Numeral"
begin

text \<open>
  Shared vocabulary of the development: Rust strings as lists of Unicode scalar values (with
  \<open>blen\<close> for the UTF-8 byte length that \<open>str::len\<close> counts), the string operations of the
  standard library the sources call (\<open>trim\<close>, \<open>split_once\<close>, \<open>strip_prefix\<close>,
  \<open>to_ascii_lowercase\<close>, \<open>char::is_control\<close>, \<dots>), machine integers with saturating
  arithmetic, the outcome of an awaited call, and the rule collections of the later theories.
\<close>

named_theorems str_simps \<open>rewrite rules for string operations\<close>
named_theorems sat_simps \<open>rewrite rules for saturating machine arithmetic\<close>

section \<open>Strings\<close>

text \<open>
  A Rust \<open>str\<close> is a sequence of Unicode scalar values stored as UTF-8. Equality and ordering of
  the byte sequences agree with equality and lexicographic ordering of the scalar values, so a
  string is the list of its scalar values and only lengths have to mention the encoding.
\<close>

type_synonym ustr = "nat list"

definition lit :: "string \<Rightarrow> ustr" where
  "lit s = map of_char s"

definition utf8_width :: "nat \<Rightarrow> nat" where
  "utf8_width c = (if c < 0x80 then 1 else if c < 0x800 then 2 else if c < 0x10000 then 3 else 4)"

definition blen :: "ustr \<Rightarrow> nat" where
  "blen s = sum_list (map utf8_width s)"

definition is_control :: "nat \<Rightarrow> bool" where
  "is_control c \<longleftrightarrow> c < 0x20 \<or> (0x7F \<le> c \<and> c < 0xA0)"

definition is_whitespace :: "nat \<Rightarrow> bool" where
  "is_whitespace c \<longleftrightarrow>
     (9 \<le> c \<and> c \<le> 13) \<or> c = 0x20 \<or> c = 0x85 \<or> c = 0xA0 \<or> c = 0x1680 \<or>
     (0x2000 \<le> c \<and> c \<le> 0x200A) \<or> c = 0x2028 \<or> c = 0x2029 \<or> c = 0x202F \<or> c = 0x205F \<or> c = 0x3000"

definition is_ascii :: "nat \<Rightarrow> bool" where
  "is_ascii c \<longleftrightarrow> c < 0x80"

definition is_ascii_digit :: "nat \<Rightarrow> bool" where
  "is_ascii_digit c \<longleftrightarrow> 48 \<le> c \<and> c \<le> 57"

definition is_ascii_lowercase :: "nat \<Rightarrow> bool" where
  "is_ascii_lowercase c \<longleftrightarrow> 97 \<le> c \<and> c \<le> 122"

definition is_ascii_uppercase :: "nat \<Rightarrow> bool" where
  "is_ascii_uppercase c \<longleftrightarrow> 65 \<le> c \<and> c \<le> 90"

definition is_ascii_alphanumeric :: "nat \<Rightarrow> bool" where
  "is_ascii_alphanumeric c \<longleftrightarrow> is_ascii_digit c \<or> is_ascii_lowercase c \<or> is_ascii_uppercase c"

definition ascii_lower :: "nat \<Rightarrow> nat" where
  "ascii_lower c = (if is_ascii_uppercase c then c + 32 else c)"

definition to_ascii_lowercase :: "ustr \<Rightarrow> ustr" where
  "to_ascii_lowercase s = map ascii_lower s"

definition trim_start :: "ustr \<Rightarrow> ustr" where
  "trim_start s = dropWhile is_whitespace s"

definition trim_end :: "ustr \<Rightarrow> ustr" where
  "trim_end s = rev (dropWhile is_whitespace (rev s))"

definition trim :: "ustr \<Rightarrow> ustr" where
  "trim s = trim_end (trim_start s)"

definition starts_with :: "ustr \<Rightarrow> ustr \<Rightarrow> bool" where
  "starts_with p s \<longleftrightarrow> take (length p) s = p"

definition strip_prefix :: "ustr \<Rightarrow> ustr \<Rightarrow> ustr option" where
  "strip_prefix p s = (if starts_with p s then Some (drop (length p) s) else None)"

definition ends_with :: "ustr \<Rightarrow> ustr \<Rightarrow> bool" where
  "ends_with p s \<longleftrightarrow> starts_with (rev p) (rev s)"

definition strip_suffix :: "ustr \<Rightarrow> ustr \<Rightarrow> ustr option" where
  "strip_suffix p s = (if ends_with p s then Some (take (length s - length p) s) else None)"

text \<open>\<open>str::split_once\<close> with a character predicate: the first match separates the two parts.\<close>

fun split_once :: "(nat \<Rightarrow> bool) \<Rightarrow> ustr \<Rightarrow> (ustr \<times> ustr) option" where
  "split_once P [] = None"
| "split_once P (c # s) =
     (if P c then Some ([], s)
      else map_option (\<lambda>(a, b). (c # a, b)) (split_once P s))"

text \<open>\<open>str::split\<close> with a separator character: always at least one part.\<close>

fun split_char :: "nat \<Rightarrow> ustr \<Rightarrow> ustr list" where
  "split_char d [] = [[]]"
| "split_char d (c # s) =
     (if c = d then [] # split_char d s
      else (case split_char d s of [] \<Rightarrow> [[c]] | p # ps \<Rightarrow> (c # p) # ps))"

lemma lit_Nil [simp]: "lit [] = []"
  and lit_Cons [simp]: "lit (c # s) = of_char c # lit s"
  by (simp_all add: lit_def)

lemma inj_of_char_nat: "inj (of_char :: char \<Rightarrow> nat)"
  by (auto intro!: injI)

lemma lit_eq_iff [str_simps]: "lit a = lit b \<longleftrightarrow> a = b"
  by (simp add: lit_def inj_map_eq_map [OF inj_of_char_nat])

lemma utf8_width_bounds: "1 \<le> utf8_width c" "utf8_width c \<le> 4"
  by (simp_all add: utf8_width_def)

lemma blen_Nil [simp]: "blen [] = 0"
  and blen_Cons [simp]: "blen (c # s) = utf8_width c + blen s"
  and blen_append [simp]: "blen (s @ t) = blen s + blen t"
  by (simp_all add: blen_def)

lemma length_le_blen: "length s \<le> blen s"
proof (induction s)
  case Nil
  then show ?case by simp
next
  case (Cons c s)
  then show ?case using utf8_width_bounds(1) [of c] by simp
qed

lemma blen_le: "blen s \<le> 4 * length s"
proof (induction s)
  case Nil
  then show ?case by simp
next
  case (Cons c s)
  then show ?case using utf8_width_bounds(2) [of c] by simp
qed

lemma blen_eq_0 [simp]: "blen s = 0 \<longleftrightarrow> s = []"
  using length_le_blen [of s] by auto

lemma blen_ascii: "list_all is_ascii s \<Longrightarrow> blen s = length s"
  by (induction s) (auto simp: is_ascii_def utf8_width_def)

lemma starts_with_append [simp]: "starts_with p (p @ s)"
  by (simp add: starts_with_def)

lemma starts_with_iff: "starts_with p s \<longleftrightarrow> (\<exists>t. s = p @ t)"
  by (metis append_take_drop_id starts_with_append starts_with_def)

lemma strip_prefix_Some: "strip_prefix p s = Some t \<longleftrightarrow> s = p @ t"
  by (auto simp: strip_prefix_def starts_with_iff)

lemma strip_suffix_Some: "strip_suffix p s = Some t \<longleftrightarrow> s = t @ p"
proof -
  have "ends_with p s \<longleftrightarrow> (\<exists>t. s = t @ p)"
    by (auto simp: ends_with_def starts_with_iff rev_eq_append_conv)
       (metis rev_append rev_rev_ident)
  then show ?thesis by (auto simp: strip_suffix_def)
qed

lemma ascii_lower_idem [simp]: "ascii_lower (ascii_lower c) = ascii_lower c"
  by (auto simp: ascii_lower_def is_ascii_uppercase_def)

lemma to_ascii_lowercase_idem [simp]:
  "to_ascii_lowercase (to_ascii_lowercase s) = to_ascii_lowercase s"
  by (simp add: to_ascii_lowercase_def)

lemma blen_to_ascii_lowercase [simp]: "blen (to_ascii_lowercase s) = blen s"
  by (induction s)
     (auto simp: to_ascii_lowercase_def ascii_lower_def is_ascii_uppercase_def utf8_width_def)

lemma split_once_Some:
  "split_once P s = Some (a, b) \<Longrightarrow> \<exists>c. P c \<and> s = a @ c # b \<and> (\<forall>x\<in>set a. \<not> P x)"
  by (induction s arbitrary: a) (auto split: if_splits)

lemma split_once_None: "split_once P s = None \<longleftrightarrow> (\<forall>x\<in>set s. \<not> P x)"
  by (induction s) auto

lemma split_once_skip: "\<forall>x\<in>set a. \<not> P x \<Longrightarrow> P c \<Longrightarrow> split_once P (a @ c # b) = Some (a, b)"
  by (induction a) auto

lemma split_char_ne [simp]: "split_char d s \<noteq> []"
  by (cases s) (auto split: list.splits)

text \<open>\<open>join\<close> undoes \<open>split\<close>.\<close>

fun join_char :: "nat \<Rightarrow> ustr list \<Rightarrow> ustr" where
  "join_char d [] = []"
| "join_char d [p] = p"
| "join_char d (p # q # ps) = p @ d # join_char d (q # ps)"

lemma join_split_char: "join_char d (split_char d s) = s"
proof (induction s)
  case Nil
  then show ?case by simp
next
  case (Cons c s)
  obtain p ps where ps: "split_char d s = p # ps"
    using split_char_ne [of d s] by (cases "split_char d s") auto
  with Cons show ?case by (cases ps) auto
qed

lemma dropWhile_fixed: "dropWhile P xs = xs \<longleftrightarrow> (xs = [] \<or> \<not> P (hd xs))"
proof (cases xs)
  case (Cons x xs')
  have "length (dropWhile P xs') \<le> length xs'"
    by (rule length_dropWhile_le)
  then have "dropWhile P xs' \<noteq> x # xs'" by auto
  with Cons show ?thesis by simp
qed simp

lemma trim_end_ends: "trim_end s = [] \<or> \<not> is_whitespace (last (trim_end s))"
  using hd_dropWhile [of is_whitespace "rev s"]
  by (auto simp: trim_end_def last_rev)

lemma trim_end_prefix: "\<exists>w. s = trim_end s @ w \<and> list_all is_whitespace w"
proof
  let ?w = "rev (takeWhile is_whitespace (rev s))"
  have "rev s = takeWhile is_whitespace (rev s) @ dropWhile is_whitespace (rev s)" by simp
  then have "s = trim_end s @ ?w"
    by (metis rev_append rev_rev_ident trim_end_def)
  moreover have "list_all is_whitespace ?w"
    by (auto simp: list_all_iff dest: set_takeWhileD)
  ultimately show "s = trim_end s @ ?w \<and> list_all is_whitespace ?w" by blast
qed

lemma trim_idem [simp]: "trim (trim s) = trim s"
proof -
  let ?t = "trim_end (trim_start s)"
  have hd: "?t = [] \<or> \<not> is_whitespace (hd ?t)"
  proof (cases "?t = []")
    case False
    from trim_end_prefix obtain w where w: "trim_start s = ?t @ w" by blast
    from False w have "hd (trim_start s) = hd ?t"
      by (metis hd_append2)
    moreover from False w have "trim_start s \<noteq> []" by (metis append_is_Nil_conv)
    ultimately show ?thesis
      using hd_dropWhile [of is_whitespace s] by (auto simp: trim_start_def)
  qed simp
  then have "trim_start ?t = ?t" by (simp add: trim_start_def dropWhile_fixed)
  moreover have "trim_end ?t = ?t"
    using trim_end_ends [of "trim_start s"]
    by (auto simp: trim_end_def dropWhile_fixed hd_rev)
  ultimately show ?thesis by (simp add: trim_def)
qed

lemma split_char_append: "split_char d (a @ d # b) = split_char d a @ split_char d b"
proof (induction a)
  case (Cons c a)
  then show ?case using split_char_ne [of d a] by (cases "split_char d a") auto
qed simp

lemma join_char_append:
  "ps \<noteq> [] \<Longrightarrow> qs \<noteq> [] \<Longrightarrow> join_char d (ps @ qs) = join_char d ps @ d # join_char d qs"
proof (induction ps)
  case (Cons p ps)
  then show ?case by (cases ps; cases qs) auto
qed simp

lemma split_char_none: "d \<notin> set s \<Longrightarrow> split_char d s = [s]"
  by (induction s) auto

lemma split_join_char:
  "ps \<noteq> [] \<Longrightarrow> \<forall>p\<in>set ps. d \<notin> set p \<Longrightarrow> split_char d (join_char d ps) = ps"
proof (induction ps rule: induct_list012)
  case (3 p q ps)
  then show ?case by (simp add: split_char_append split_char_none)
qed (simp_all add: split_char_none)

text \<open>Decimal numerals, as \<open>Display\<close> prints unsigned integers.\<close>

fun decimal :: "nat \<Rightarrow> ustr" where
  "decimal n = (if n < 10 then [48 + n] else decimal (n div 10) @ [48 + n mod 10])"

declare decimal.simps [simp del]

definition undecimal :: "ustr \<Rightarrow> nat" where
  "undecimal s = foldl (\<lambda>v c. 10 * v + (c - 48)) 0 s"

lemma undecimal_decimal: "undecimal (decimal n) = n"
proof (induction n rule: decimal.induct)
  case (1 n)
  then show ?case by (subst decimal.simps) (auto simp: undecimal_def)
qed

lemma decimal_inj: "decimal a = decimal b \<longleftrightarrow> a = b"
  by (metis undecimal_decimal)

lemma decimal_digits: "c \<in> set (decimal n) \<Longrightarrow> is_ascii_digit c"
proof (induction n rule: decimal.induct)
  case (1 n)
  then show ?case
    by (subst (asm) decimal.simps) (auto simp: is_ascii_digit_def split: if_splits)
qed

text \<open>Signed integers as \<open>Display\<close> prints them, and the integer that a numeral of this form stands for.\<close>

definition int_text :: "int \<Rightarrow> ustr" where
  "int_text n = (if n < 0 then 45 # decimal (nat (- n)) else decimal (nat n))"

definition is_numeral :: "ustr \<Rightarrow> bool" where
  "is_numeral s \<longleftrightarrow> s \<noteq> [] \<and> list_all is_ascii_digit s"

definition text_int :: "ustr \<Rightarrow> int option" where
  "text_int s =
     (if is_numeral s then Some (int (undecimal s))
      else (case s of
          c # t \<Rightarrow> if c = 45 \<and> is_numeral t then Some (- int (undecimal t)) else None
        | [] \<Rightarrow> None))"

lemma decimal_ne [simp]: "decimal n \<noteq> []"
  by (subst decimal.simps) simp

lemma is_numeral_decimal [simp]: "is_numeral (decimal n)"
  by (simp add: is_numeral_def list_all_iff decimal_digits)

lemma text_int_text [simp]: "text_int (int_text n) = Some n"
proof -
  have "\<not> is_numeral (45 # s)" for s by (simp add: is_numeral_def is_ascii_digit_def)
  then show ?thesis by (simp add: text_int_def int_text_def undecimal_decimal)
qed

section \<open>Machine integers\<close>

type_synonym u16 = "16 word"
type_synonym u32 = "32 word"
type_synonym u64 = "64 word"

definition sat_add :: "'a::len word \<Rightarrow> 'a word \<Rightarrow> 'a word" where
  "sat_add a b = (if unat a + unat b < 2 ^ LENGTH('a) then a + b else - 1)"

definition sat_sub :: "'a::len word \<Rightarrow> 'a word \<Rightarrow> 'a word" where
  "sat_sub a b = (if b \<le> a then a - b else 0)"

lemma unat_minus_one_max: "unat (- 1 :: 'a::len word) = 2 ^ LENGTH('a) - 1"
  by (simp add: unsigned_minus_1_eq_mask mask_eq_exp_minus_1)

lemma unat_sat_add [sat_simps]:
  "unat (sat_add a b :: 'a::len word) = min (unat a + unat b) (2 ^ LENGTH('a) - 1)"
  by (auto simp: sat_add_def unat_word_ariths unat_minus_one_max min_def)

lemma unat_sat_sub [sat_simps]: "unat (sat_sub a b) = unat a - unat b"
  by (auto simp: sat_sub_def unat_sub word_le_nat_alt)

lemma sat_add_mono: "a \<le> sat_add a b"
proof -
  have "unat a < 2 ^ LENGTH('a)" by (rule unsigned_less)
  then have "unat a \<le> 2 ^ LENGTH('a) - 1" by linarith
  then show ?thesis by (simp add: word_le_nat_alt unat_sat_add)
qed

text \<open>
  A \<open>usize\<close> counter of a 64-bit target is a natural number below \<open>usize_max\<close>;
  its \<open>saturating_sub\<close> is subtraction on \<open>nat\<close>.
\<close>

definition usize_max :: nat where
  "usize_max = 2 ^ 64 - 1"

definition usize_sat_add :: "nat \<Rightarrow> nat \<Rightarrow> nat" where
  "usize_sat_add a b = min (a + b) usize_max"

lemma usize_sat_add_exact [sat_simps]: "a + b \<le> usize_max \<Longrightarrow> usize_sat_add a b = a + b"
  by (simp add: usize_sat_add_def)

section \<open>Awaited calls\<close>

text \<open>
  What an \<open>await\<close> inside \<open>catch_unwind\<close> can give: the value of the future, a panic, or
  nothing at all because the awaiting future itself was dropped (cancelled) at this point.
\<close>

datatype 'a async = Ready 'a | Panicked | Dropped

text \<open>What \<open>tokio::time::timeout\<close> gives: the value, or the deadline passed first.\<close>

datatype 'a timed = Completed 'a | Elapsed

section \<open>Bounded enumeration\<close>

lemma length_filter_le1_distinct:
  "distinct (map f xs) \<Longrightarrow> length (filter (\<lambda>x. f x = k) xs) \<le> 1"
proof (induction xs)
  case (Cons x xs)
  show ?case
  proof (cases "f x = k")
    case True
    with Cons.prems have "filter (\<lambda>x. f x = k) xs = []"
      by (auto simp: filter_empty_conv) (metis imageI)
    with True show ?thesis by simp
  qed (use Cons in simp)
qed simp

end
