(* ===== verification/Containers.thy ===== *)
theory Containers
  imports Prelude "HOL-Library.AList"
begin

text \<open>
  The two map types of the sources. A \<open>HashMap\<close> is an association list with distinct keys (the
  sources never depend on its iteration order); a \<open>BTreeMap\<close> is an association list with strictly
  increasing keys, so that listing it is iterating it. The locale \<open>kv_map\<close> is the interface the
  components use: what a lookup gives after an insertion or a removal, and what \<open>len\<close> counts.
  Both map types interpret it, so that its lemmas hold for both.
\<close>

named_theorems map_simps \<open>lookup and length of the container operations\<close>

section \<open>The interface\<close>

locale kv_map =
  fixes wf :: "'m \<Rightarrow> bool"
    and empty :: "'m"
    and get :: "'m \<Rightarrow> 'k \<Rightarrow> 'v option"
    and put :: "'k \<Rightarrow> 'v \<Rightarrow> 'm \<Rightarrow> 'm"
    and del :: "'k \<Rightarrow> 'm \<Rightarrow> 'm"
    and len :: "'m \<Rightarrow> nat"
  assumes wf_empty: "wf empty"
    and wf_put: "wf m \<Longrightarrow> wf (put k v m)"
    and wf_del: "wf m \<Longrightarrow> wf (del k m)"
    and get_empty: "get empty k = None"
    and get_put: "wf m \<Longrightarrow> get (put k v m) = (get m)(k \<mapsto> v)"
    and get_del: "wf m \<Longrightarrow> get (del k m) = (get m)(k := None)"
    and finite_dom: "finite (dom (get m))"
    and len_card: "wf m \<Longrightarrow> len m = card (dom (get m))"
begin

lemma get_put_same: "wf m \<Longrightarrow> get (put k v m) k = Some v"
  by (simp add: get_put)

lemma get_put_other: "wf m \<Longrightarrow> k' \<noteq> k \<Longrightarrow> get (put k v m) k' = get m k'"
  by (simp add: get_put)

lemma get_del_same: "wf m \<Longrightarrow> get (del k m) k = None"
  by (simp add: get_del)

lemma get_del_other: "wf m \<Longrightarrow> k' \<noteq> k \<Longrightarrow> get (del k m) k' = get m k'"
  by (simp add: get_del)

lemma len_empty: "len empty = 0"
  by (simp add: len_card wf_empty get_empty dom_def)

lemma len_put_new: "wf m \<Longrightarrow> get m k = None \<Longrightarrow> len (put k v m) = Suc (len m)"
  using card_insert_disjoint [OF finite_dom, of k m]
  by (simp add: len_card wf_put get_put domIff)

lemma len_put_old: "wf m \<Longrightarrow> get m k = Some w \<Longrightarrow> len (put k v m) = len m"
  using insert_absorb [of k "dom (get m)"] by (simp add: len_card wf_put get_put domIff)

lemma len_del_present: "wf m \<Longrightarrow> get m k = Some w \<Longrightarrow> Suc (len (del k m)) = len m"
proof -
  assume m: "wf m" "get m k = Some w"
  then have "k \<in> dom (get m)" by auto
  then show ?thesis
    using card.remove [OF finite_dom, of k m] m by (simp add: len_card wf_del get_del)
qed

lemma len_del_le: "wf m \<Longrightarrow> len (del k m) \<le> len m"
  using card_mono [OF finite_dom, of "dom (get m) - {k}" m]
  by (simp add: len_card wf_del get_del)

lemma len_pos: "wf m \<Longrightarrow> get m k = Some v \<Longrightarrow> 0 < len m"
  using len_del_present [of m k v] by simp

end

section \<open>HashMap\<close>

type_synonym ('k, 'v) hmap = "('k \<times> 'v) list"

definition hm_wf :: "('k, 'v) hmap \<Rightarrow> bool" where
  "hm_wf m \<longleftrightarrow> distinct (map fst m)"

definition hm_get :: "('k, 'v) hmap \<Rightarrow> 'k \<Rightarrow> 'v option" where
  "hm_get m = map_of m"

definition hm_put :: "'k \<Rightarrow> 'v \<Rightarrow> ('k, 'v) hmap \<Rightarrow> ('k, 'v) hmap" where
  "hm_put k v m = AList.update k v m"

definition hm_del :: "'k \<Rightarrow> ('k, 'v) hmap \<Rightarrow> ('k, 'v) hmap" where
  "hm_del k m = AList.delete k m"

definition hm_len :: "('k, 'v) hmap \<Rightarrow> nat" where
  "hm_len m = length m"

definition hm_contains :: "('k, 'v) hmap \<Rightarrow> 'k \<Rightarrow> bool" where
  "hm_contains m k \<longleftrightarrow> hm_get m k \<noteq> None"

lemma distinct_keys_length: "distinct (map fst m) \<Longrightarrow> length m = card (dom (map_of m))"
  by (metis distinct_card dom_map_of_conv_image_fst length_map set_map)

interpretation hm: kv_map hm_wf "[] :: ('k, 'v) hmap" hm_get hm_put hm_del hm_len
proof
  fix m :: "('k, 'v) hmap" and k v
  show "hm_get (hm_put k v m) = (hm_get m)(k \<mapsto> v)"
    by (simp add: hm_get_def hm_put_def update_conv')
  show "hm_get (hm_del k m) = (hm_get m)(k := None)"
    by (simp add: hm_get_def hm_del_def delete_conv')
  show "finite (dom (hm_get m))"
    by (simp add: hm_get_def finite_dom_map_of)
  show "hm_wf m \<Longrightarrow> hm_len m = card (dom (hm_get m))"
    by (simp add: hm_wf_def hm_len_def hm_get_def distinct_keys_length)
qed (simp_all add: hm_wf_def hm_get_def hm_put_def hm_del_def hm_len_def
      distinct_update distinct_delete distinct_keys_length)

lemmas hm_simps [map_simps] =
  hm.wf_empty hm.wf_put hm.wf_del hm.get_empty hm.get_put hm.get_del hm.len_empty

lemmas hm_eval = hm_get_def hm_put_def hm_del_def hm_len_def hm_wf_def hm_contains_def

lemma hm_get_None_iff: "hm_get m k = None \<longleftrightarrow> k \<notin> fst ` set m"
  by (simp add: hm_get_def map_of_eq_None_iff)

lemma hm_put_fresh: "hm_get m k = None \<Longrightarrow> hm_put k v m = m @ [(k, v)]"
  by (induction m) (auto simp: hm_eval split: if_splits)

text \<open>The number of entries whose value satisfies a predicate.\<close>

definition hm_count :: "('v \<Rightarrow> bool) \<Rightarrow> ('k, 'v) hmap \<Rightarrow> nat" where
  "hm_count P m = length (filter (\<lambda>p. P (snd p)) m)"

lemma hm_count_Nil [simp]: "hm_count P [] = 0"
  by (simp add: hm_count_def)

lemma hm_count_le_len: "hm_count P m \<le> hm_len m"
  by (simp add: hm_count_def hm_len_def)

lemma hm_count_put_new:
  "hm_get m k = None \<Longrightarrow> hm_count P (hm_put k v m) = hm_count P m + of_bool (P v)"
  unfolding hm_eval hm_count_def by (induction m) auto

lemma hm_count_put_old:
  "hm_wf m \<Longrightarrow> hm_get m k = Some w \<Longrightarrow>
   hm_count P (hm_put k v m) + of_bool (P w) = hm_count P m + of_bool (P v)"
  unfolding hm_eval hm_count_def by (induction m) auto

lemma hm_count_del:
  "hm_wf m \<Longrightarrow> hm_get m k = Some w \<Longrightarrow>
   hm_count P (hm_del k m) + of_bool (P w) = hm_count P m"
proof (unfold hm_eval hm_count_def, induction m)
  case (Cons p m)
  show ?case
  proof (cases "fst p = k")
    case True
    with Cons.prems(1) have "AList.delete k m = m"
      by (auto intro: delete_id)
    with True Cons.prems show ?thesis by auto
  next
    case False
    with Cons show ?thesis by auto
  qed
qed simp

lemma hm_del_absent: "hm_get m k = None \<Longrightarrow> hm_del k m = m"
  unfolding hm_eval by (auto simp: map_of_eq_None_iff intro: delete_id)

lemma hm_count_put:
  "hm_wf m \<Longrightarrow> hm_count P (hm_put k v m) = hm_count P (hm_del k m) + of_bool (P v)"
proof (cases "hm_get m k")
  case None
  then show ?thesis by (simp add: hm_count_put_new hm_del_absent)
next
  case (Some w)
  assume "hm_wf m"
  from hm_count_put_old [OF this Some, of P v] hm_count_del [OF this Some, of P] show ?thesis
    by simp
qed

lemma hm_len_put: "hm_wf m \<Longrightarrow> hm_len (hm_put k v m) = Suc (hm_len (hm_del k m))"
  using hm.len_put_new [of m k v] hm.len_put_old [of m k _ v] hm.len_del_present [of m k]
  by (cases "hm_get m k") (auto simp: hm_del_absent)

lemma hm_count_not_all:
  "hm_wf m \<Longrightarrow> hm_get m k = Some w \<Longrightarrow> \<not> P w \<Longrightarrow> hm_count P m < hm_len m"
  using hm_count_del [of m k w P] hm_count_le_len [of P "hm_del k m"]
    hm.len_del_present [of m k w] by simp

lemma hm_count_pos: "hm_get m k = Some w \<Longrightarrow> P w \<Longrightarrow> 0 < hm_count P m"
  unfolding hm_eval hm_count_def
  by (force simp: filter_empty_conv dest!: map_of_SomeD)

lemma hm_count_cong: "(\<And>v. P v = Q v) \<Longrightarrow> hm_count P m = hm_count Q m"
  by (simp add: hm_count_def)

section \<open>BTreeMap\<close>

type_synonym ('k, 'v) btmap = "('k \<times> 'v) list"

definition bt_wf :: "('k::linorder, 'v) btmap \<Rightarrow> bool" where
  "bt_wf m \<longleftrightarrow> sorted_wrt (<) (map fst m)"

definition bt_get :: "('k::linorder, 'v) btmap \<Rightarrow> 'k \<Rightarrow> 'v option" where
  "bt_get m = map_of m"

fun bt_put :: "'k::linorder \<Rightarrow> 'v \<Rightarrow> ('k, 'v) btmap \<Rightarrow> ('k, 'v) btmap" where
  "bt_put k v [] = [(k, v)]"
| "bt_put k v ((k', v') # m) =
     (if k < k' then (k, v) # (k', v') # m
      else if k = k' then (k, v) # m
      else (k', v') # bt_put k v m)"

definition bt_del :: "'k::linorder \<Rightarrow> ('k, 'v) btmap \<Rightarrow> ('k, 'v) btmap" where
  "bt_del k m = filter (\<lambda>p. fst p \<noteq> k) m"

definition bt_len :: "('k::linorder, 'v) btmap \<Rightarrow> nat" where
  "bt_len m = length m"

definition bt_contains :: "('k::linorder, 'v) btmap \<Rightarrow> 'k \<Rightarrow> bool" where
  "bt_contains m k \<longleftrightarrow> bt_get m k \<noteq> None"

lemma keys_bt_put: "fst ` set (bt_put k v m) = insert k (fst ` set m)"
  by (induction k v m rule: bt_put.induct) auto

lemma sorted_bt_put: "sorted_wrt (<) (map fst m) \<Longrightarrow> sorted_wrt (<) (map fst (bt_put k v m))"
proof (induction k v m rule: bt_put.induct)
  case (2 k v k' v' m)
  then show ?case
    using keys_bt_put [of k v m] by (auto simp flip: set_map)
qed simp

lemma map_of_bt_put: "map_of (bt_put k v m) = (map_of m)(k \<mapsto> v)"
  by (induction k v m rule: bt_put.induct) auto

lemma map_of_bt_del: "map_of (bt_del k m) = (map_of m)(k := None)"
  by (induction m) (auto simp: bt_del_def)

lemma strict_sorted_distinct: "sorted_wrt (<) (xs :: 'k::linorder list) \<Longrightarrow> distinct xs"
  by (simp add: strict_sorted_iff)

interpretation bt: kv_map bt_wf "[] :: ('k::linorder, 'v) btmap" bt_get bt_put bt_del bt_len
proof
  fix m :: "('k, 'v) btmap" and k v
  show "bt_wf m \<Longrightarrow> bt_wf (bt_put k v m)"
    by (simp add: bt_wf_def sorted_bt_put)
  show "bt_wf m \<Longrightarrow> bt_wf (bt_del k m)"
    by (auto simp: bt_wf_def bt_del_def sorted_wrt_map intro: sorted_wrt_filter)
  show "bt_get (bt_put k v m) = (bt_get m)(k \<mapsto> v)"
    by (simp add: bt_get_def map_of_bt_put)
  show "bt_get (bt_del k m) = (bt_get m)(k := None)"
    by (simp add: bt_get_def map_of_bt_del)
  show "finite (dom (bt_get m))"
    by (simp add: bt_get_def finite_dom_map_of)
  show "bt_wf m \<Longrightarrow> bt_len m = card (dom (bt_get m))"
    by (simp add: bt_wf_def bt_len_def bt_get_def distinct_keys_length strict_sorted_distinct)
qed (simp_all add: bt_wf_def bt_get_def)

lemmas bt_simps [map_simps] =
  bt.wf_empty bt.wf_put bt.wf_del bt.get_empty bt.get_put bt.get_del bt.len_empty

lemmas bt_eval = bt_get_def bt_del_def bt_len_def bt_wf_def bt_contains_def

text \<open>A \<open>BTreeMap\<close> is determined by its lookups: two well-formed maps that agree are equal.\<close>

lemma bt_ext:
  assumes "bt_wf m" "bt_wf m'" "bt_get m = bt_get m'"
  shows "m = m'"
proof -
  have d: "distinct (map fst m)" "distinct (map fst m')"
    and o: "sorted (map fst m)" "sorted (map fst m')"
    using assms(1,2) by (simp_all add: bt_wf_def strict_sorted_iff)
  have "set m = set m'"
    using assms(3) map_of_inject_set [OF d] by (simp add: bt_get_def)
  moreover from d(1) have "inj_on fst (set m)" by (simp add: distinct_map)
  ultimately show ?thesis
    using map_sorted_distinct_set_unique [of fst m m'] d o by simp
qed

end
