(* ===== verification/BotModel.thy ===== *)
theory BotModel
  imports Containers
begin

text \<open>
  The platform-independent event and action model of the bot core
  (\<open>crates/bot-core/src/model.rs\<close>), the adapter identifiers of \<open>adapter.rs\<close> and the per-event
  context of \<open>context.rs\<close>. JSON payloads (\<open>serde_json::Value\<close>) are values of a type parameter
  \<open>'j\<close>: no function modelled here looks inside them.
\<close>

section \<open>Events and messages\<close>

text \<open>\<open>AdapterId\<close> and \<open>EventId\<close> are opaque strings.\<close>

type_synonym adapter_id = ustr
type_synonym event_id = ustr

datatype message_scope = Scope_Group | Scope_Private | Scope_Channel

datatype message_target =
    Target_Group ustr
  | Target_Private ustr
  | Target_Channel ustr
  | Target_GuildDirect ustr

fun target_scope :: "message_target \<Rightarrow> message_scope" where
  "target_scope (Target_Group _) = Scope_Group"
| "target_scope (Target_Private _) = Scope_Private"
| "target_scope (Target_GuildDirect _) = Scope_Private"
| "target_scope (Target_Channel _) = Scope_Channel"

record sender =
  sender_id :: ustr
  display_name :: "ustr option"

datatype 'j message_segment = Segment_Text ustr | Segment_Platform ustr 'j

record 'j common_message =
  message_id :: ustr
  target :: message_target
  msg_sender :: sender
  msg_text :: ustr
  segments :: "'j message_segment list"
  reply_to :: "ustr option"

definition message_scope_of :: "'j common_message \<Rightarrow> message_scope" where
  "message_scope_of m = target_scope (target m)"

datatype 'j event =
    Event_Message "'j common_message"
  | Event_Notice 'j
  | Event_Request 'j
  | Event_Lifecycle 'j
  | Event_Platform ustr 'j

text \<open>\<open>timestamp\<close> is kept as its Unix milliseconds, the only form the sources read it in.\<close>

record 'j event_envelope =
  env_id :: event_id
  env_adapter :: adapter_id
  delivery_id :: "u64 option"
  timestamp :: "int option"
  env_event :: "'j event"
  raw :: 'j

section \<open>Media attachments\<close>

type_synonym bytes = "8 word list"

record media_attachment =
  mime_type :: ustr
  filename :: "ustr option"
  media_data :: bytes

definition max_media_attachment_bytes :: nat where
  "max_media_attachment_bytes = 8 * 1024 * 1024"

definition ascii_bytes :: "string \<Rightarrow> bytes" where
  "ascii_bytes s = map of_char s"

definition bytes_start :: "bytes \<Rightarrow> bytes \<Rightarrow> bool" where
  "bytes_start p d \<longleftrightarrow> take (length p) d = p"

definition png_magic :: bytes where
  "png_magic = [0x89] @ ascii_bytes ''PNG'' @ [0x0D, 0x0A, 0x1A, 0x0A]"

definition eq_ignore_ascii_case :: "ustr \<Rightarrow> ustr \<Rightarrow> bool" where
  "eq_ignore_ascii_case a b \<longleftrightarrow> to_ascii_lowercase a = to_ascii_lowercase b"

text \<open>\<open>data.get(8..12) == Some(b"WEBP")\<close>: out of range is \<open>None\<close>.\<close>

definition webp_tag :: "bytes \<Rightarrow> bool" where
  "webp_tag d \<longleftrightarrow> 12 \<le> length d \<and> take 4 (drop 8 d) = ascii_bytes ''WEBP''"

definition validated_image_mime :: "media_attachment \<Rightarrow> ustr option" where
  "validated_image_mime a =
     (let d = media_data a;
          m = trim (hd (split_char (of_char CHR '';'') (mime_type a)))
      in if d = [] \<or> length d > max_media_attachment_bytes then None
         else if eq_ignore_ascii_case m (lit ''image/png'') \<and> bytes_start png_magic d
         then Some (lit ''image/png'')
         else if eq_ignore_ascii_case m (lit ''image/jpeg'') \<and> bytes_start [0xFF, 0xD8, 0xFF] d
         then Some (lit ''image/jpeg'')
         else if eq_ignore_ascii_case m (lit ''image/gif'') \<and>
                 (bytes_start (ascii_bytes ''GIF87a'') d \<or> bytes_start (ascii_bytes ''GIF89a'') d)
         then Some (lit ''image/gif'')
         else if eq_ignore_ascii_case m (lit ''image/webp'') \<and>
                 bytes_start (ascii_bytes ''RIFF'') d \<and> webp_tag d
         then Some (lit ''image/webp'')
         else None)"

text \<open>The constructor \<open>MediaAttachment::image\<close>; its one error message is the unit error.\<close>

definition image_attachment :: "ustr \<Rightarrow> ustr option \<Rightarrow> bytes \<Rightarrow> unit + media_attachment" where
  "image_attachment mime name d =
     (let a = \<lparr>mime_type = mime, filename = name, media_data = d\<rparr>
      in case validated_image_mime a of None \<Rightarrow> Inl () | Some _ \<Rightarrow> Inr a)"

text \<open>
  The streaming decoder of the attachment's bytes (\<open>visit_seq\<close>): it stops with an error as soon
  as a byte arrives after the limit is reached. \<open>None\<close> is that error.
\<close>

fun visit_bytes_seq :: "nat \<Rightarrow> bytes \<Rightarrow> bytes \<Rightarrow> bytes option" where
  "visit_bytes_seq limit acc [] = Some acc"
| "visit_bytes_seq limit acc (b # bs) =
     (if length acc = limit then None else visit_bytes_seq limit (acc @ [b]) bs)"

lemma visit_bytes_seq_eq:
  "length acc \<le> limit \<Longrightarrow>
   visit_bytes_seq limit acc bs =
     (if length acc + length bs \<le> limit then Some (acc @ bs) else None)"
  by (induction bs arbitrary: acc) auto

lemma validated_image_mime_bounds:
  "validated_image_mime a = Some m \<Longrightarrow>
   media_data a \<noteq> [] \<and> length (media_data a) \<le> max_media_attachment_bytes"
  by (auto simp: validated_image_mime_def Let_def split: if_splits)

lemma image_attachment_Inr:
  "image_attachment mime name d = Inr a \<longleftrightarrow>
   a = \<lparr>mime_type = mime, filename = name, media_data = d\<rparr> \<and> validated_image_mime a \<noteq> None"
  by (auto simp: image_attachment_def Let_def split: option.splits)

section \<open>Actions\<close>

record reply_action =
  ra_target :: message_target
  ra_source_message_id :: ustr
  ra_content :: ustr

record send_message_action =
  sm_target :: message_target
  sm_content :: ustr

record reply_media_action =
  rm_target :: message_target
  rm_source_message_id :: ustr
  rm_attachment :: media_attachment
  rm_caption :: "ustr option"

record send_media_action =
  sd_target :: message_target
  sd_attachment :: media_attachment
  sd_caption :: "ustr option"

datatype 'j action =
    Action_Reply reply_action
  | Action_SendMessage send_message_action
  | Action_ReplyMedia reply_media_action
  | Action_SendMedia send_media_action
  | Action_Recall message_target ustr bool
  | Action_Platform ustr 'j

record 'j action_result =
  result_message_id :: "ustr option"
  result_raw :: 'j

section \<open>Adapter identifiers and errors\<close>

definition max_adapter_id_bytes :: nat where
  "max_adapter_id_bytes = 128"

definition is_valid_adapter_id :: "adapter_id \<Rightarrow> bool" where
  "is_valid_adapter_id a \<longleftrightarrow>
     a \<noteq> [] \<and> blen a \<le> max_adapter_id_bytes \<and> \<not> list_ex is_control a"

datatype adapter_error =
    AE_Configuration ustr
  | AE_Transport ustr
  | AE_Action ustr
  | AE_ActionUnknown ustr
  | AE_EventQueueClosed
  | AE_EventAdapterMismatch adapter_id adapter_id

section \<open>The per-event context\<close>

datatype context_error = CE_MissingReplyTarget | CE_Adapter adapter_error

record 'j event_context =
  ctx_adapter_id :: adapter_id
  ctx_platform :: ustr
  ctx_event_id :: event_id
  ctx_occurred_at_ms :: "int option"
  ctx_raw_event :: 'j
  ctx_source_message_id :: "ustr option"
  ctx_reply_target :: "message_target option"

text \<open>
  The adapter a context holds is its platform name and its \<open>execute\<close> call, which acts on the
  world outside the program.
\<close>

record ('j, 'w) adapter =
  adapter_id_of :: adapter_id
  platform_of :: ustr
  execute :: "'j action \<Rightarrow> 'w \<Rightarrow> (adapter_error + 'j action_result) \<times> 'w"

definition new_context :: "'j event_envelope \<Rightarrow> ('j, 'w) adapter \<Rightarrow> 'j event_context" where
  "new_context e ad =
     (let (src, tgt) =
        (case env_event e of
           Event_Message m \<Rightarrow> (Some (message_id m), Some (target m))
         | _ \<Rightarrow> (None, None))
      in \<lparr>ctx_adapter_id = env_adapter e,
          ctx_platform = platform_of ad,
          ctx_event_id = env_id e,
          ctx_occurred_at_ms = timestamp e,
          ctx_raw_event = raw e,
          ctx_source_message_id = src,
          ctx_reply_target = tgt\<rparr>)"

definition context_execute ::
    "('j, 'w) adapter \<Rightarrow> 'j action \<Rightarrow> 'w \<Rightarrow> (context_error + 'j action_result) \<times> 'w" where
  "context_execute ad a w =
     (case execute ad a w of
        (Inl e, w') \<Rightarrow> (Inl (CE_Adapter e), w')
      | (Inr r, w') \<Rightarrow> (Inr r, w'))"

definition context_reply ::
    "'j event_context \<Rightarrow> ('j, 'w) adapter \<Rightarrow> ustr \<Rightarrow> 'w \<Rightarrow> (context_error + 'j action_result) \<times> 'w" where
  "context_reply c ad content w =
     (case ctx_reply_target c of
        None \<Rightarrow> (Inl CE_MissingReplyTarget, w)
      | Some t \<Rightarrow>
          (case ctx_source_message_id c of
             None \<Rightarrow> (Inl CE_MissingReplyTarget, w)
           | Some s \<Rightarrow>
               context_execute ad
                 (Action_Reply \<lparr>ra_target = t, ra_source_message_id = s, ra_content = content\<rparr>) w))"

text \<open>
  A reply on the context of a message goes to the message it answers; on any other event it fails
  without touching the world.
\<close>

lemma context_reply_new:
  "context_reply (new_context e ad) ad content w =
     (case env_event e of
        Event_Message m \<Rightarrow>
          context_execute ad
            (Action_Reply \<lparr>ra_target = target m, ra_source_message_id = message_id m,
                            ra_content = content\<rparr>) w
      | _ \<Rightarrow> (Inl CE_MissingReplyTarget, w))"
  by (cases "env_event e") (simp_all add: context_reply_def new_context_def)

end
