(* ===== verification/Dedup.thy ===== *)
theory Dedup
  imports BotModel
begin

text \<open>
  Event deduplication (\<open>crates/bot-core/src/dedup.rs\<close>): keys, claims and errors, the bounded
  in-memory store \<open>MemoryDedupStore\<close> with every operation that runs under its mutex as a function
  on the guarded state, its invariant, and the contract of the \<open>DedupStore\<close> trait as a locale
  that the in-memory store interprets.
\<close>

section \<open>Keys, claims, errors\<close>

record dedup_key =
  dk_adapter :: adapter_id
  dk_event :: event_id

text \<open>A claim's token is a random UUID, only ever compared; it is an argument of the operations.\<close>

type_synonym uuid = nat

record dedup_claim =
  claim_key :: dedup_key
  claim_token :: uuid

datatype dedup_error_kind = Retryable | Permanent

record dedup_error =
  err_kind :: dedup_error_kind
  err_message :: ustr

definition dedup_retryable :: "ustr \<Rightarrow> dedup_error" where
  "dedup_retryable msg = \<lparr>err_kind = Retryable, err_message = msg\<rparr>"

definition dedup_permanent :: "ustr \<Rightarrow> dedup_error" where
  "dedup_permanent msg = \<lparr>err_kind = Permanent, err_message = msg\<rparr>"

definition is_retryable :: "dedup_error \<Rightarrow> bool" where
  "is_retryable e \<longleftrightarrow> err_kind e = Retryable"

lemma is_retryable_simps [simp]:
  "is_retryable (dedup_retryable m)" "\<not> is_retryable (dedup_permanent m)"
  by (simp_all add: is_retryable_def dedup_retryable_def dedup_permanent_def)

definition max_dedup_key_bytes :: nat where
  "max_dedup_key_bytes = 1024"

section \<open>The guarded state\<close>

text \<open>
  Each in-flight entry owns a \<open>watch\<close> channel, named here by the token of its claim; the store has
  one more for its capacity. \<open>signals\<close> counts the sends on a channel: a receiver is notified when
  the count differs from the one it saw when it subscribed.
\<close>

datatype watch_id = Key_Changed uuid | Capacity_Changed

datatype memory_entry = InFlight uuid | Committed uuid

primrec entry_token :: "memory_entry \<Rightarrow> uuid" where
  "entry_token (InFlight t) = t"
| "entry_token (Committed t) = t"

record memory_state =
  entries :: "(dedup_key, memory_entry) hmap"
  waiters :: "(dedup_key, nat) hmap"
  pending_claims :: nat
  evictable :: "(dedup_key \<times> uuid) list"
  signals :: "watch_id \<Rightarrow> nat"

definition empty_memory :: memory_state where
  "empty_memory = \<lparr>entries = [], waiters = [], pending_claims = 0, evictable = [],
                   signals = (\<lambda>_. 0)\<rparr>"

definition memory_try_new :: "nat \<Rightarrow> dedup_error + memory_state" where
  "memory_try_new capacity =
     (if capacity = 0
      then Inl (dedup_permanent (lit ''deduplication capacity must be at least one''))
      else Inr empty_memory)"

definition signal :: "watch_id \<Rightarrow> memory_state \<Rightarrow> memory_state" where
  "signal c s = s\<lparr>signals := (signals s)(c := Suc (signals s c))\<rparr>"

definition entry_at :: "memory_state \<Rightarrow> dedup_key \<Rightarrow> memory_entry option" where
  "entry_at s k = hm_get (entries s) k"

section \<open>Operations under the lock\<close>

definition pin_waiter :: "dedup_key \<Rightarrow> memory_state \<Rightarrow> memory_state" where
  "pin_waiter k s =
     (let n = (case hm_get (waiters s) k of None \<Rightarrow> 0 | Some n \<Rightarrow> n)
      in s\<lparr>waiters := hm_put k (usize_sat_add n 1) (waiters s)\<rparr>)"

definition unpin_waiter :: "dedup_key \<Rightarrow> memory_state \<Rightarrow> memory_state" where
  "unpin_waiter k s =
     (case hm_get (waiters s) k of
        None \<Rightarrow> s
      | Some n \<Rightarrow>
          if n - 1 \<noteq> 0 then s\<lparr>waiters := hm_put k (n - 1) (waiters s)\<rparr>
          else
            (let s1 = s\<lparr>waiters := hm_del k (waiters s)\<rparr>;
                 s2 = (case hm_get (entries s1) k of
                         Some (Committed t) \<Rightarrow> s1\<lparr>evictable := evictable s1 @ [(k, t)]\<rparr>
                       | _ \<Rightarrow> s1)
             in signal Capacity_Changed s2))"

definition release_pending :: "memory_state \<Rightarrow> memory_state" where
  "release_pending s = s\<lparr>pending_claims := pending_claims s - 1\<rparr>"

text \<open>The loop pops the queue from the front until there is room or the queue is empty.\<close>

fun evict_loop ::
    "nat \<Rightarrow> (dedup_key, memory_entry) hmap \<Rightarrow> (dedup_key \<times> uuid) list \<Rightarrow>
     (dedup_key, memory_entry) hmap \<times> (dedup_key \<times> uuid) list" where
  "evict_loop capacity es [] = (es, [])"
| "evict_loop capacity es ((k, t) # q) =
     (if hm_len es < capacity then (es, (k, t) # q)
      else evict_loop capacity
             (if hm_get es k = Some (Committed t) then hm_del k es else es) q)"

definition evict_committed :: "nat \<Rightarrow> memory_state \<Rightarrow> memory_state" where
  "evict_committed capacity s =
     (let (es, q) = evict_loop capacity (entries s) (evictable s)
      in s\<lparr>entries := es, evictable := q\<rparr>)"

text \<open>
  The locals of one \<open>claim\<close> future: whether it holds a \<open>PendingClaimGuard\<close> and a \<open>WaiterPin\<close>.
\<close>

record claim_locals =
  guarded :: bool
  pinned :: bool

definition no_locals :: claim_locals where
  "no_locals = \<lparr>guarded = False, pinned = False\<rparr>"

definition admit_pending_claim ::
    "nat \<Rightarrow> claim_locals \<Rightarrow> memory_state \<Rightarrow> dedup_error + (claim_locals \<times> memory_state)" where
  "admit_pending_claim capacity l s =
     (if guarded l then Inr (l, s)
      else if capacity \<le> pending_claims s
      then Inl (dedup_retryable (lit ''deduplication claim wait capacity is saturated''))
      else Inr (l\<lparr>guarded := True\<rparr>, s\<lparr>pending_claims := pending_claims s + 1\<rparr>))"

text \<open>
  Releasing what a future holds: on completion (\<open>guard.release\<close>, \<open>unpin_waiter\<close>, \<open>disarm\<close>) and,
  in the same order, by the \<open>Drop\<close> guards when it is cancelled or returns an error.
\<close>

definition release_locals :: "dedup_key \<Rightarrow> claim_locals \<Rightarrow> memory_state \<Rightarrow> memory_state" where
  "release_locals k l s =
     (let s1 = (if guarded l then release_pending s else s)
      in if pinned l then unpin_waiter k s1 else s1)"

datatype claim_result =
    Claim_Done "dedup_error + dedup_claim option"
  | Claim_Wait watch_id

text \<open>
  One iteration of the loop of \<open>claim\<close>: the critical section and, when the result is a wait, the
  channel the future subscribed to. \<open>t\<close> is the token a new claim would get.
\<close>

definition claim_poll ::
    "nat \<Rightarrow> uuid \<Rightarrow> dedup_key \<Rightarrow> claim_locals \<Rightarrow> memory_state \<Rightarrow>
     claim_result \<times> claim_locals \<times> memory_state" where
  "claim_poll capacity t k l s =
     (case hm_get (entries s) k of
        Some (Committed _) \<Rightarrow> (Claim_Done (Inr None), no_locals, release_locals k l s)
      | Some (InFlight u) \<Rightarrow>
          (case admit_pending_claim capacity l s of
             Inl e \<Rightarrow> (Claim_Done (Inl e), no_locals, release_locals k l s)
           | Inr (l1, s1) \<Rightarrow>
               (Claim_Wait (Key_Changed u), l1\<lparr>pinned := True\<rparr>,
                if pinned l1 then s1 else pin_waiter k s1))
      | None \<Rightarrow>
          (let s0 = evict_committed capacity s
           in if capacity \<le> hm_len (entries s0)
              then (case admit_pending_claim capacity l s0 of
                      Inl e \<Rightarrow> (Claim_Done (Inl e), no_locals, release_locals k l s0)
                    | Inr (l1, s1) \<Rightarrow> (Claim_Wait Capacity_Changed, l1, s1))
              else
                (let s1 = release_locals k l s0
                 in (Claim_Done (Inr (Some \<lparr>claim_key = k, claim_token = t\<rparr>)), no_locals,
                     s1\<lparr>entries := hm_put k (InFlight t) (entries s1)\<rparr>))))"

definition dedup_key_ok :: "dedup_key \<Rightarrow> bool" where
  "dedup_key_ok k \<longleftrightarrow> blen (dk_adapter k) + blen (dk_event k) \<le> max_dedup_key_bytes"

text \<open>The entry of \<open>claim\<close>: the key check and the first iteration of the loop.\<close>

definition claim_start ::
    "nat \<Rightarrow> uuid \<Rightarrow> dedup_key \<Rightarrow> memory_state \<Rightarrow> claim_result \<times> claim_locals \<times> memory_state" where
  "claim_start capacity t k s =
     (if dedup_key_ok k then claim_poll capacity t k no_locals s
      else (Claim_Done (Inl (dedup_permanent (lit ''deduplication key exceeds 1024 bytes''))),
            no_locals, s))"

definition memory_commit :: "dedup_claim \<Rightarrow> memory_state \<Rightarrow> (dedup_error + unit) \<times> memory_state" where
  "memory_commit c s =
     (let k = claim_key c; t = claim_token c
      in case hm_get (entries s) k of
           None \<Rightarrow> (Inl (dedup_permanent (lit ''cannot commit an event without a claim'')), s)
         | Some (InFlight u) \<Rightarrow>
             if u = t then
               (let s1 = s\<lparr>entries := hm_put k (Committed t) (entries s)\<rparr>;
                    s2 = (if (case hm_get (waiters s1) k of None \<Rightarrow> 0 | Some n \<Rightarrow> n) = 0
                          then s1\<lparr>evictable := evictable s1 @ [(k, t)]\<rparr> else s1)
                in (Inr (), signal Capacity_Changed (signal (Key_Changed t) s2)))
             else (Inl (dedup_permanent (lit ''deduplication claim is stale'')), s)
         | Some (Committed u) \<Rightarrow>
             if u = t then (Inr (), s)
             else (Inl (dedup_permanent (lit ''deduplication claim is stale'')), s))"

text \<open>
  \<open>release\<close> removes the entry under the lock and sends its two signals after unlocking:
  \<open>release_locked\<close> is the critical section with the sends still owed.
\<close>

definition release_locked ::
    "dedup_claim \<Rightarrow> memory_state \<Rightarrow> (dedup_error + watch_id list) \<times> memory_state" where
  "release_locked c s =
     (let k = claim_key c; t = claim_token c
      in case hm_get (entries s) k of
           None \<Rightarrow> (Inr [], s)
         | Some (InFlight u) \<Rightarrow>
             if u = t then (Inr [Key_Changed t, Capacity_Changed],
                            s\<lparr>entries := hm_del k (entries s)\<rparr>)
             else (Inl (dedup_permanent (lit ''deduplication claim is stale'')), s)
         | Some (Committed u) \<Rightarrow>
             if u = t then (Inr [], s)
             else (Inl (dedup_permanent (lit ''deduplication claim is stale'')), s))"

definition memory_release :: "dedup_claim \<Rightarrow> memory_state \<Rightarrow> (dedup_error + unit) \<times> memory_state" where
  "memory_release c s =
     (case release_locked c s of
        (Inl e, s') \<Rightarrow> (Inl e, s')
      | (Inr cs, s') \<Rightarrow> (Inr (), fold signal cs s'))"

section \<open>The store invariant\<close>

text \<open>
  Every operation keeps it: the maps have distinct keys, no waiter count is zero, and the
  eviction queue lists, once each and with its current token, exactly the committed keys that no
  waiting duplicate pins.
\<close>

definition memory_wf :: "memory_state \<Rightarrow> bool" where
  "memory_wf s \<longleftrightarrow>
     hm_wf (entries s) \<and> hm_wf (waiters s) \<and> (\<forall>k. hm_get (waiters s) k \<noteq> Some 0) \<and>
     distinct (map fst (evictable s)) \<and>
     (\<forall>k t. (k, t) \<in> set (evictable s) \<longleftrightarrow>
        hm_get (entries s) k = Some (Committed t) \<and> hm_get (waiters s) k = None)"

lemma memory_wfD:
  assumes "memory_wf s"
  shows "hm_wf (entries s)" "hm_wf (waiters s)" "hm_get (waiters s) k \<noteq> Some 0"
    "distinct (map fst (evictable s))"
    "(k, t) \<in> set (evictable s) \<longleftrightarrow>
       hm_get (entries s) k = Some (Committed t) \<and> hm_get (waiters s) k = None"
  using assms by (auto simp: memory_wf_def)

lemma memory_wfI:
  assumes "hm_wf (entries s)" "hm_wf (waiters s)" "\<And>k. hm_get (waiters s) k \<noteq> Some 0"
    "distinct (map fst (evictable s))"
    "\<And>k t. (k, t) \<in> set (evictable s) \<longleftrightarrow>
       hm_get (entries s) k = Some (Committed t) \<and> hm_get (waiters s) k = None"
  shows "memory_wf s"
  using assms by (auto simp: memory_wf_def)

lemma fst_notin_iff: "k \<notin> fst ` set q \<longleftrightarrow> (\<forall>t. (k, t) \<notin> set q)"
  by force

lemma evictable_key_iff:
  assumes "memory_wf s"
  shows "k \<in> fst ` set (evictable s) \<longleftrightarrow>
    (\<exists>t. hm_get (entries s) k = Some (Committed t)) \<and> hm_get (waiters s) k = None"
  using memory_wfD(5) [OF assms, of k] fst_notin_iff [of k "evictable s"] by auto

lemma memory_wf_empty: "memory_wf empty_memory"
  by (simp add: memory_wf_def empty_memory_def map_simps)

lemma signal_sel [simp]:
  "entries (signal c s) = entries s" "waiters (signal c s) = waiters s"
  "pending_claims (signal c s) = pending_claims s" "evictable (signal c s) = evictable s"
  "signals (signal c s) d = (if d = c then Suc (signals s d) else signals s d)"
  by (auto simp: signal_def)

lemma memory_wf_signal [simp]: "memory_wf (signal c s) \<longleftrightarrow> memory_wf s"
  by (simp add: memory_wf_def)

lemma memory_wf_pending [simp]: "memory_wf (s\<lparr>pending_claims := n\<rparr>) \<longleftrightarrow> memory_wf s"
  by (simp add: memory_wf_def)

lemma release_pending_sel [simp]:
  "entries (release_pending s) = entries s" "waiters (release_pending s) = waiters s"
  "evictable (release_pending s) = evictable s" "signals (release_pending s) = signals s"
  "pending_claims (release_pending s) = pending_claims s - 1"
  by (simp_all add: release_pending_def)

lemma memory_wf_release_pending [simp]: "memory_wf (release_pending s) \<longleftrightarrow> memory_wf s"
  by (simp add: release_pending_def)

subsection \<open>Eviction\<close>

lemma evict_loop_spec:
  assumes "hm_wf es" "distinct (map fst q)"
    "\<And>k t. (k, t) \<in> set q \<Longrightarrow> hm_get es k = Some (Committed t)"
  obtains n es' where "evict_loop capacity es q = (es', drop n q)" "hm_wf es'"
    "\<And>k. hm_get es' k = (if k \<in> fst ` set (take n q) then None else hm_get es k)"
    "hm_len es' < capacity \<or> drop n q = []" "hm_len es' \<le> hm_len es"
    "hm_len es < capacity \<longrightarrow> n = 0"
proof -
  have "\<exists>n es'. evict_loop capacity es q = (es', drop n q) \<and> hm_wf es' \<and>
    (\<forall>k. hm_get es' k = (if k \<in> fst ` set (take n q) then None else hm_get es k)) \<and>
    (hm_len es' < capacity \<or> drop n q = []) \<and> hm_len es' \<le> hm_len es \<and>
    (hm_len es < capacity \<longrightarrow> n = 0)"
    using assms
  proof (induction q arbitrary: es)
    case Nil
    then show ?case by simp
  next
    case (Cons p q)
    obtain k t where p: "p = (k, t)" by (cases p)
    show ?case
    proof (cases "hm_len es < capacity")
      case True
      with p Cons.prems(1) show ?thesis
        by (intro exI [of _ "0::nat"] exI [of _ es]) simp
    next
      case False
      let ?es = "hm_del k es"
      have kt: "hm_get es k = Some (Committed t)" using Cons.prems(3) p by simp
      have "hm_get ?es k' = Some (Committed t')" if "(k', t') \<in> set q" for k' t'
      proof -
        from that Cons.prems(2) p have "k' \<noteq> k" by force
        with that Cons.prems show ?thesis by (simp add: map_simps)
      qed
      with Cons.IH [of ?es] Cons.prems(1,2) obtain n es' where
        IH: "evict_loop capacity ?es q = (es', drop n q)" "hm_wf es'"
          "\<And>k'. hm_get es' k' = (if k' \<in> fst ` set (take n q) then None else hm_get ?es k')"
          "hm_len es' < capacity \<or> drop n q = []" "hm_len es' \<le> hm_len ?es"
        by (auto simp: map_simps)
      show ?thesis
        using False p kt IH Cons.prems(1) hm.len_del_le [of es k]
        by (intro exI [of _ "Suc n"] exI [of _ es']) (auto simp: map_simps)
    qed
  qed
  then show thesis using that by blast
qed

lemma in_drop_iff:
  assumes "distinct (map fst q)"
  shows "p \<in> set (drop n q) \<longleftrightarrow> p \<in> set q \<and> fst p \<notin> fst ` set (take n q)"
proof -
  have q: "q = take n q @ drop n q" by simp
  with assms have "distinct (map fst (take n q) @ map fst (drop n q))"
    by (metis map_append)
  then have "fst ` set (take n q) \<inter> fst ` set (drop n q) = {}" by simp
  moreover have "set q = set (take n q) \<union> set (drop n q)"
    by (metis q set_append)
  ultimately show ?thesis by blast
qed

text \<open>Eviction only ever removes committed, unpinned keys, and makes room unless none is left.\<close>

lemma evict_committed_spec:
  fixes capacity s
  defines "s' \<equiv> evict_committed capacity s"
  assumes wf: "memory_wf s"
  shows "memory_wf s'" "hm_len (entries s') \<le> hm_len (entries s)"
    "hm_len (entries s') < capacity \<or> evictable s' = []"
    "waiters s' = waiters s" "pending_claims s' = pending_claims s" "signals s' = signals s"
    "hm_get (entries s') k = hm_get (entries s) k \<or>
       hm_get (entries s') k = None \<and> hm_get (waiters s) k = None \<and>
       (\<exists>t. hm_get (entries s) k = Some (Committed t))"
    "hm_len (entries s) < capacity \<or> evictable s = [] \<Longrightarrow> s' = s"
proof -
  obtain n es' where ev: "evict_loop capacity (entries s) (evictable s) = (es', drop n (evictable s))"
    and es': "hm_wf es'"
      "\<And>k. hm_get es' k =
        (if k \<in> fst ` set (take n (evictable s)) then None else hm_get (entries s) k)"
    and room: "hm_len es' < capacity \<or> drop n (evictable s) = []"
    and le: "hm_len es' \<le> hm_len (entries s)"
    using evict_loop_spec [of "entries s" "evictable s" capacity] memory_wfD [OF wf] by metis
  have s': "s' = s\<lparr>entries := es', evictable := drop n (evictable s)\<rparr>"
    by (simp add: s'_def evict_committed_def ev)
  show "memory_wf s'"
  proof (rule memory_wfI)
    fix k t
    show "(k, t) \<in> set (evictable s') \<longleftrightarrow>
        hm_get (entries s') k = Some (Committed t) \<and> hm_get (waiters s') k = None"
      using memory_wfD(5) [OF wf, of k t] es'(2) [of k]
        in_drop_iff [OF memory_wfD(4) [OF wf], of "(k, t)" n]
      by (auto simp: s')
  qed (use wf es' in \<open>auto simp: s' memory_wfD drop_map [symmetric]
        intro: distinct_drop\<close>)
  show "hm_get (entries s') k = hm_get (entries s) k \<or>
       hm_get (entries s') k = None \<and> hm_get (waiters s) k = None \<and>
       (\<exists>t. hm_get (entries s) k = Some (Committed t))"
    using es'(2) [of k] evictable_key_iff [OF wf, of k] set_take_subset [of n "evictable s"]
    by (auto simp: s')
  show "s' = s" if "hm_len (entries s) < capacity \<or> evictable s = []"
  proof -
    have "evict_loop capacity (entries s) (evictable s) = (entries s, evictable s)"
      using that by (cases "evictable s") auto
    then show ?thesis by (simp add: s'_def evict_committed_def)
  qed
  show "hm_len (entries s') \<le> hm_len (entries s)"
    "hm_len (entries s') < capacity \<or> evictable s' = []"
    "waiters s' = waiters s" "pending_claims s' = pending_claims s" "signals s' = signals s"
    using room le by (simp_all add: s')
qed

subsection \<open>Pins\<close>

lemma pin_waiter_sel [simp]:
  "entries (pin_waiter k s) = entries s" "pending_claims (pin_waiter k s) = pending_claims s"
  "evictable (pin_waiter k s) = evictable s" "signals (pin_waiter k s) = signals s"
  by (simp_all add: pin_waiter_def Let_def)

lemma waiters_pin_waiter:
  "hm_wf (waiters s) \<Longrightarrow> hm_get (waiters (pin_waiter k s)) k' =
     (if k' = k then Some (usize_sat_add (case hm_get (waiters s) k of None \<Rightarrow> 0 | Some n \<Rightarrow> n) 1)
      else hm_get (waiters s) k')"
  by (simp add: pin_waiter_def Let_def map_simps)

lemma memory_wf_pin_waiter:
  assumes "memory_wf s" "hm_get (entries s) k = Some (InFlight u)"
  shows "memory_wf (pin_waiter k s)"
proof (rule memory_wfI)
  show "hm_wf (waiters (pin_waiter k s))"
    using assms by (simp add: pin_waiter_def Let_def map_simps memory_wfD)
qed (use assms in \<open>auto simp: waiters_pin_waiter memory_wfD usize_sat_add_def usize_max_def\<close>)

lemma unpin_waiter_sel [simp]:
  "entries (unpin_waiter k s) = entries s" "pending_claims (unpin_waiter k s) = pending_claims s"
  "signals (unpin_waiter k s) (Key_Changed t) = signals s (Key_Changed t)"
  by (auto simp: unpin_waiter_def Let_def split: option.splits memory_entry.splits)

lemma waiters_unpin_waiter:
  "hm_wf (waiters s) \<Longrightarrow> hm_get (waiters (unpin_waiter k s)) k' =
     (if k' = k then (case hm_get (waiters s) k of None \<Rightarrow> None
                      | Some n \<Rightarrow> if n - 1 = 0 then None else Some (n - 1))
      else hm_get (waiters s) k')"
  by (auto simp: unpin_waiter_def Let_def map_simps split: option.splits memory_entry.splits)

lemma signals_unpin_le: "signals s c \<le> signals (unpin_waiter k s) c"
  by (auto simp: unpin_waiter_def Let_def split: option.splits memory_entry.splits)

lemma evictable_unpin:
  "signals (unpin_waiter k s) Capacity_Changed = signals s Capacity_Changed \<Longrightarrow>
   evictable (unpin_waiter k s) = evictable s"
  by (auto simp: unpin_waiter_def Let_def split: option.splits memory_entry.splits if_splits)

lemma evictable_unpin_eq:
  "evictable (unpin_waiter k s) =
     (case (hm_get (waiters s) k, hm_get (entries s) k) of
        (Some n, Some (Committed t)) \<Rightarrow>
          if n - 1 = 0 then evictable s @ [(k, t)] else evictable s
      | _ \<Rightarrow> evictable s)"
  by (auto simp: unpin_waiter_def Let_def split: option.splits memory_entry.splits if_splits)

lemma memory_wf_unpin_waiter:
  assumes wf: "memory_wf s"
  shows "memory_wf (unpin_waiter k s)"
proof (rule memory_wfI)
  show "hm_wf (waiters (unpin_waiter k s))"
    using memory_wfD [OF wf]
    by (auto simp: unpin_waiter_def Let_def map_simps split: option.splits memory_entry.splits)
  show "distinct (map fst (evictable (unpin_waiter k s)))"
    using memory_wfD(4) [OF wf] evictable_key_iff [OF wf, of k]
    by (auto simp: evictable_unpin_eq split: option.splits memory_entry.splits)
  show "(k', t') \<in> set (evictable (unpin_waiter k s)) \<longleftrightarrow>
      hm_get (entries (unpin_waiter k s)) k' = Some (Committed t') \<and>
      hm_get (waiters (unpin_waiter k s)) k' = None" for k' t'
    using memory_wfD(2) [OF wf] memory_wfD(5) [OF wf, of k' t']
    by (auto simp: evictable_unpin_eq waiters_unpin_waiter
        split: option.splits memory_entry.splits if_splits)
qed (use memory_wfD [OF wf] in \<open>auto simp: waiters_unpin_waiter split: option.splits if_splits\<close>)

lemma release_locals_sel [simp]:
  "entries (release_locals k l s) = entries s"
  "pending_claims (release_locals k l s) = pending_claims s - of_bool (guarded l)"
  "signals (release_locals k l s) (Key_Changed t) = signals s (Key_Changed t)"
  by (simp_all add: release_locals_def Let_def)

lemma waiters_release_locals:
  "hm_wf (waiters s) \<Longrightarrow> hm_get (waiters (release_locals k l s)) k' =
     (if pinned l \<and> k' = k then (case hm_get (waiters s) k of None \<Rightarrow> None
                      | Some n \<Rightarrow> if n - 1 = 0 then None else Some (n - 1))
      else hm_get (waiters s) k')"
  by (simp add: release_locals_def Let_def waiters_unpin_waiter)

lemma signals_release_locals_le: "signals s c \<le> signals (release_locals k l s) c"
  using signals_unpin_le [of "release_pending s" c k] signals_unpin_le [of s c k]
  by (simp add: release_locals_def Let_def)

lemma evictable_release_locals:
  "signals (release_locals k l s) Capacity_Changed = signals s Capacity_Changed \<Longrightarrow>
   evictable (release_locals k l s) = evictable s"
  using evictable_unpin [of k "release_pending s"] evictable_unpin [of k s]
  by (auto simp: release_locals_def Let_def split: if_splits)

lemma memory_wf_release_locals: "memory_wf s \<Longrightarrow> memory_wf (release_locals k l s)"
  by (simp add: release_locals_def Let_def memory_wf_unpin_waiter)

subsection \<open>Claims\<close>

lemma admit_cases:
  "(\<exists>e. admit_pending_claim capacity l s = Inl e \<and> \<not> guarded l \<and> capacity \<le> pending_claims s
      \<and> is_retryable e) \<or>
   (admit_pending_claim capacity l s =
      Inr (l\<lparr>guarded := True\<rparr>, s\<lparr>pending_claims := pending_claims s + of_bool (\<not> guarded l)\<rparr>) \<and>
    (guarded l \<or> pending_claims s < capacity))"
  by (cases l) (auto simp: admit_pending_claim_def)

text \<open>
  The five ways one iteration of \<open>claim\<close> can end, with the exact successor state: answered as a
  duplicate, refused admission, waiting for the owner of the key, waiting for capacity, owned.
\<close>

lemma claim_poll_cases:
  obtains
    (Duplicate) u where "hm_get (entries s) k = Some (Committed u)"
      "claim_poll capacity t k l s = (Claim_Done (Inr None), no_locals, release_locals k l s)"
  | (Refused) e s0 where "s0 = s \<and> (\<exists>u. hm_get (entries s) k = Some (InFlight u)) \<or>
        s0 = evict_committed capacity s \<and> hm_get (entries s) k = None \<and>
        capacity \<le> hm_len (entries s0)"
      "\<not> guarded l" "capacity \<le> pending_claims s0" "is_retryable e"
      "claim_poll capacity t k l s = (Claim_Done (Inl e), no_locals, release_locals k l s0)"
  | (Wait_Owner) u where "hm_get (entries s) k = Some (InFlight u)"
      "guarded l \<or> pending_claims s < capacity"
      "claim_poll capacity t k l s =
        (Claim_Wait (Key_Changed u), \<lparr>guarded = True, pinned = True\<rparr>,
         (if pinned l then id else pin_waiter k)
           (s\<lparr>pending_claims := pending_claims s + of_bool (\<not> guarded l)\<rparr>))"
  | (Wait_Capacity) s0 where "s0 = evict_committed capacity s" "hm_get (entries s) k = None"
      "capacity \<le> hm_len (entries s0)" "guarded l \<or> pending_claims s0 < capacity"
      "claim_poll capacity t k l s =
        (Claim_Wait Capacity_Changed, l\<lparr>guarded := True\<rparr>,
         s0\<lparr>pending_claims := pending_claims s0 + of_bool (\<not> guarded l)\<rparr>)"
  | (Owned) s0 where "s0 = evict_committed capacity s" "hm_get (entries s) k = None"
      "hm_len (entries s0) < capacity"
      "claim_poll capacity t k l s =
        (Claim_Done (Inr (Some \<lparr>claim_key = k, claim_token = t\<rparr>)), no_locals,
         (release_locals k l s0)\<lparr>entries := hm_put k (InFlight t) (entries s0)\<rparr>)"
proof (cases "hm_get (entries s) k")
  case None
  define s0 where "s0 = evict_committed capacity s"
  show thesis
  proof (cases "capacity \<le> hm_len (entries s0)")
    case True
    from admit_cases [of capacity l s0] show thesis
      using None True Refused [of s0] Wait_Capacity [of s0]
      by (auto simp: claim_poll_def s0_def [symmetric])
  next
    case False
    with None Owned [of s0] show thesis
      by (simp add: claim_poll_def s0_def [symmetric])
  qed
next
  case (Some e)
  show thesis
  proof (cases e)
    case (InFlight u)
    from admit_cases [of capacity l s] show thesis
      using Some InFlight Refused [of s] Wait_Owner [of u]
      by (cases l) (auto simp: claim_poll_def)
  next
    case (Committed u)
    with Some Duplicate [of u] show thesis by (simp add: claim_poll_def)
  qed
qed

subsection \<open>Preservation\<close>

lemma hm_len_release_locals [simp]:
  "hm_len (entries (release_locals k l s)) = hm_len (entries s)"
  by simp

lemma memory_wf_insert_inflight:
  assumes "memory_wf s" "hm_get (entries s) k = None"
  shows "memory_wf (s\<lparr>entries := hm_put k (InFlight t) (entries s)\<rparr>)"
  using assms by (auto simp: memory_wf_def map_simps)

lemma claim_poll_wf:
  assumes wf: "memory_wf s" and len: "hm_len (entries s) \<le> capacity"
    and poll: "claim_poll capacity t k l s = (r, l', s')"
  shows "memory_wf s'" "hm_len (entries s') \<le> capacity"
proof -
  note ev = evict_committed_spec [OF wf, of capacity]
  have "memory_wf s' \<and> hm_len (entries s') \<le> capacity"
  proof (cases rule: claim_poll_cases [of s k capacity t l])
    case (Wait_Owner u)
    with wf len poll show ?thesis
      by (auto simp: memory_wf_pin_waiter)
  next
    case (Owned s0)
    let ?s1 = "release_locals k l s0"
    have wf1: "memory_wf ?s1"
      using ev(1) Owned(1) by (simp add: memory_wf_release_locals)
    have none: "hm_get (entries s0) k = None"
      using ev(7) [of k] Owned(1,2) by auto
    have "hm_len (hm_put k (InFlight t) (entries s0)) \<le> capacity"
      using hm.len_put_new [of "entries s0" k] memory_wfD(1) [OF ev(1)] none Owned(1,3) by simp
    with memory_wf_insert_inflight [OF wf1, of k t] none Owned(4) poll show ?thesis by simp
  qed (use ev wf len poll in \<open>auto simp: memory_wf_release_locals\<close>)
  then show "memory_wf s'" "hm_len (entries s') \<le> capacity" by auto
qed

lemma claim_start_wf:
  "memory_wf s \<Longrightarrow> hm_len (entries s) \<le> capacity \<Longrightarrow> claim_start capacity t k s = (r, l', s') \<Longrightarrow>
   memory_wf s' \<and> hm_len (entries s') \<le> capacity"
  using claim_poll_wf [of s capacity t k no_locals] by (auto simp: claim_start_def split: if_splits)

text \<open>What a commit does, branch by branch.\<close>

lemma memory_commit_cases:
  obtains
    (Missing) "hm_get (entries s) (claim_key c) = None"
      "\<exists>e. memory_commit c s = (Inl e, s) \<and> \<not> is_retryable e"
  | (Stale) e where "hm_get (entries s) (claim_key c) = Some e" "entry_token e \<noteq> claim_token c"
      "\<exists>e. memory_commit c s = (Inl e, s) \<and> \<not> is_retryable e"
  | (Again) "hm_get (entries s) (claim_key c) = Some (Committed (claim_token c))"
      "memory_commit c s = (Inr (), s)"
  | (Fresh) s' where "hm_get (entries s) (claim_key c) = Some (InFlight (claim_token c))"
      "memory_commit c s = (Inr (), s')"
      "entries s' = hm_put (claim_key c) (Committed (claim_token c)) (entries s)"
      "waiters s' = waiters s" "pending_claims s' = pending_claims s"
      "evictable s' = evictable s @
         (if (case hm_get (waiters s) (claim_key c) of None \<Rightarrow> 0 | Some n \<Rightarrow> n) = 0
          then [(claim_key c, claim_token c)] else [])"
      "signals s' = (signals s)
         (Key_Changed (claim_token c) := Suc (signals s (Key_Changed (claim_token c))),
          Capacity_Changed := Suc (signals s Capacity_Changed))"
proof (cases "hm_get (entries s) (claim_key c)")
  case None
  then show thesis using Missing by (auto simp: memory_commit_def)
next
  case (Some e)
  show thesis
  proof (cases "entry_token e = claim_token c")
    case False
    with Some show thesis using Stale [of e]
      by (cases e) (auto simp: memory_commit_def)
  next
    case True
    show thesis
    proof (cases e)
      case (InFlight u)
      show thesis
        by (rule Fresh [of "snd (memory_commit c s)"])
           (use Some True InFlight in \<open>auto simp: memory_commit_def Let_def fun_eq_iff\<close>)
    next
      case (Committed u)
      with Some True Again show thesis by (simp add: memory_commit_def)
    qed
  qed
qed

lemma memory_commit_wf:
  assumes wf: "memory_wf s"
  shows "memory_wf (snd (memory_commit c s))"
    "hm_len (entries (snd (memory_commit c s))) = hm_len (entries s)"
proof -
  have "memory_wf (snd (memory_commit c s)) \<and>
    hm_len (entries (snd (memory_commit c s))) = hm_len (entries s)"
  proof (cases rule: memory_commit_cases [of s c])
    case (Fresh s')
    have "memory_wf s'"
    proof (rule memory_wfI)
      show "distinct (map fst (evictable s'))"
        using memory_wfD(4) [OF wf] evictable_key_iff [OF wf, of "claim_key c"] Fresh(1)
        by (simp add: Fresh(6))
      show "(k, t) \<in> set (evictable s') \<longleftrightarrow>
          hm_get (entries s') k = Some (Committed t) \<and> hm_get (waiters s') k = None" for k t
        using memory_wfD(1) [OF wf] memory_wfD(3) [OF wf, of k] memory_wfD(5) [OF wf, of k t] Fresh(1)
        by (auto simp: Fresh(3,4,6) map_simps split: option.splits)
    qed (use memory_wfD [OF wf] in \<open>auto simp: Fresh(3,4) map_simps\<close>)
    moreover have "hm_len (entries s') = hm_len (entries s)"
      using hm.len_put_old [OF memory_wfD(1) [OF wf] Fresh(1)] by (simp add: Fresh(3))
    ultimately show ?thesis by (simp add: Fresh(2))
  qed (use wf in auto)
  then show "memory_wf (snd (memory_commit c s))"
    "hm_len (entries (snd (memory_commit c s))) = hm_len (entries s)" by auto
qed

text \<open>What the critical section of a release does, branch by branch.\<close>

lemma release_locked_cases:
  obtains
    (Gone) "hm_get (entries s) (claim_key c) = None" "release_locked c s = (Inr [], s)"
  | (Stale) e where "hm_get (entries s) (claim_key c) = Some e" "entry_token e \<noteq> claim_token c"
      "\<exists>e. release_locked c s = (Inl e, s) \<and> \<not> is_retryable e"
  | (Kept) "hm_get (entries s) (claim_key c) = Some (Committed (claim_token c))"
      "release_locked c s = (Inr [], s)"
  | (Freed) "hm_get (entries s) (claim_key c) = Some (InFlight (claim_token c))"
      "release_locked c s = (Inr [Key_Changed (claim_token c), Capacity_Changed],
         s\<lparr>entries := hm_del (claim_key c) (entries s)\<rparr>)"
proof (cases "hm_get (entries s) (claim_key c)")
  case None
  then show thesis using Gone by (simp add: release_locked_def)
next
  case (Some e)
  show thesis
  proof (cases "entry_token e = claim_token c")
    case False
    with Some show thesis using Stale [of e]
      by (cases e) (auto simp: release_locked_def)
  next
    case True
    with Some show thesis using Kept Freed
      by (cases e) (auto simp: release_locked_def Let_def)
  qed
qed

lemma release_locked_wf:
  assumes wf: "memory_wf s" and rel: "release_locked c s = (r, s')"
  shows "memory_wf s'" "hm_len (entries s') \<le> hm_len (entries s)"
proof -
  have "memory_wf s' \<and> hm_len (entries s') \<le> hm_len (entries s)"
  proof (cases rule: release_locked_cases [of s c])
    case Freed
    have "memory_wf (s\<lparr>entries := hm_del (claim_key c) (entries s)\<rparr>)"
      using wf Freed(1) by (auto simp: memory_wf_def map_simps)
    with Freed(2) rel hm.len_del_le [OF memory_wfD(1) [OF wf]] show ?thesis by auto
  qed (use wf rel in auto)
  then show "memory_wf s'" "hm_len (entries s') \<le> hm_len (entries s)" by auto
qed

lemma memory_release_wf:
  assumes "memory_wf s"
  shows "memory_wf (snd (memory_release c s))"
    "hm_len (entries (snd (memory_release c s))) \<le> hm_len (entries s)"
proof -
  have fold: "memory_wf (fold signal cs m) = memory_wf m \<and> entries (fold signal cs m) = entries m"
    for cs m by (induction cs arbitrary: m) auto
  obtain r s' where r: "release_locked c s = (r, s')" by (cases "release_locked c s")
  show "memory_wf (snd (memory_release c s))"
    "hm_len (entries (snd (memory_release c s))) \<le> hm_len (entries s)"
    using release_locked_wf [OF assms r] fold
    by (auto simp: memory_release_def r split: sum.splits)
qed

section \<open>The contract of \<open>DedupStore\<close>\<close>

text \<open>
  What the runtime relies on, as the trait's documentation states it. \<open>status\<close> is the store's
  record of a key: nothing, in flight under a token, committed under a token. \<open>try_claim\<close> is a
  \<open>claim\<close> call that is polled once: \<open>None\<close> while it would have to wait. A store may forget committed
  keys of other events (its retention window), never a claim in flight.
\<close>

locale dedup_store =
  fixes inv :: "'s \<Rightarrow> bool"
    and status :: "'s \<Rightarrow> dedup_key \<Rightarrow> memory_entry option"
    and try_claim :: "uuid \<Rightarrow> dedup_key \<Rightarrow> 's \<Rightarrow> (dedup_error + dedup_claim option) option \<times> 's"
    and commit :: "dedup_claim \<Rightarrow> 's \<Rightarrow> (dedup_error + unit) \<times> 's"
    and release :: "dedup_claim \<Rightarrow> 's \<Rightarrow> (dedup_error + unit) \<times> 's"
  assumes claim_inv: "inv s \<Longrightarrow> try_claim t k s = (r, s') \<Longrightarrow> inv s'"
    and claim_owned: "inv s \<Longrightarrow> try_claim t k s = (Some (Inr (Some c)), s') \<Longrightarrow>
      c = \<lparr>claim_key = k, claim_token = t\<rparr> \<and> status s k = None \<and> status s' k = Some (InFlight t)"
    and claim_duplicate: "inv s \<Longrightarrow> try_claim t k s = (Some (Inr None), s') \<Longrightarrow>
      (\<exists>u. status s k = Some (Committed u)) \<and> status s' k = status s k"
    and claim_committed: "inv s \<Longrightarrow> status s k = Some (Committed u) \<Longrightarrow> dedup_key_ok k \<Longrightarrow>
      fst (try_claim t k s) = Some (Inr None)"
    and claim_frame: "inv s \<Longrightarrow> try_claim t k s = (r, s') \<Longrightarrow>
      status s' k' = status s k' \<or>
      status s' k' = None \<and> (\<exists>u. status s k' = Some (Committed u)) \<or>
      k' = k \<and> r = Some (Inr (Some \<lparr>claim_key = k, claim_token = t\<rparr>)) \<and> status s k = None"
    and commit_inv: "inv s \<Longrightarrow> commit c s = (rc, s') \<Longrightarrow> inv s'"
    and commit_own: "inv s \<Longrightarrow>
      status s (claim_key c) \<in> {Some (InFlight (claim_token c)), Some (Committed (claim_token c))} \<Longrightarrow>
      \<exists>s'. commit c s = (Inr (), s') \<and>
        status s' = (status s)(claim_key c \<mapsto> Committed (claim_token c))"
    and commit_other: "inv s \<Longrightarrow>
      status s (claim_key c) \<notin> {Some (InFlight (claim_token c)), Some (Committed (claim_token c))} \<Longrightarrow>
      \<exists>e. commit c s = (Inl e, s) \<and> \<not> is_retryable e"
    and release_inv: "inv s \<Longrightarrow> release c s = (rr, s') \<Longrightarrow> inv s'"
    and release_own: "inv s \<Longrightarrow> status s (claim_key c) = Some (InFlight (claim_token c)) \<Longrightarrow>
      \<exists>s'. release c s = (Inr (), s') \<and> status s' = (status s)(claim_key c := None)"
    and release_done: "inv s \<Longrightarrow>
      status s (claim_key c) \<in> {None, Some (Committed (claim_token c))} \<Longrightarrow> release c s = (Inr (), s)"
    and release_other: "inv s \<Longrightarrow> status s (claim_key c) = Some e \<Longrightarrow> entry_token e \<noteq> claim_token c \<Longrightarrow>
      \<exists>e. release c s = (Inl e, s) \<and> \<not> is_retryable e"
begin

text \<open>Finalization is idempotent.\<close>

lemma commit_twice:
  assumes "inv s" "commit c s = (Inr (), s')"
  shows "\<exists>s''. commit c s' = (Inr (), s'') \<and> status s'' = status s'"
proof -
  have own: "status s (claim_key c) \<in> {Some (InFlight (claim_token c)), Some (Committed (claim_token c))}"
    using commit_other [OF assms(1), of c] assms(2) by fastforce
  from commit_own [OF assms(1) this] assms(2)
  have st: "status s' = (status s)(claim_key c \<mapsto> Committed (claim_token c))" by auto
  then have "status s' (claim_key c) \<in> {Some (InFlight (claim_token c)), Some (Committed (claim_token c))}"
    by simp
  from commit_own [OF commit_inv [OF assms] this] st show ?thesis by auto
qed

text \<open>Releasing after a commit never reopens the key.\<close>

lemma release_after_commit:
  assumes "inv s" "commit c s = (Inr (), s')"
  shows "release c s' = (Inr (), s')"
proof -
  have "status s' (claim_key c) = Some (Committed (claim_token c))"
    using commit_own [OF assms(1), of c] commit_other [OF assms(1), of c] assms(2) by fastforce
  then show ?thesis using release_done [OF commit_inv [OF assms]] by simp
qed

text \<open>A claim on a committed key is answered as a duplicate.\<close>

lemma claim_after_commit:
  assumes "inv s" "commit c s = (Inr (), s')" "dedup_key_ok (claim_key c)"
  shows "fst (try_claim t (claim_key c) s') = Some (Inr None)"
proof -
  have "status s' (claim_key c) = Some (Committed (claim_token c))"
    using commit_own [OF assms(1), of c] commit_other [OF assms(1), of c] assms(2) by fastforce
  then show ?thesis using claim_committed [OF commit_inv [OF assms(1,2)]] assms(3) by simp
qed

text \<open>While a claim is in flight nobody else owns its key, whatever is claimed meanwhile.\<close>

lemma claim_exclusive:
  assumes "inv s" "status s k = Some (InFlight u)" "try_claim t k' s = (r, s')"
  shows "status s' k = Some (InFlight u)"
    and "k' = k \<Longrightarrow> r \<noteq> Some (Inr (Some c)) \<and> r \<noteq> Some (Inr None)"
proof -
  show "k' = k \<Longrightarrow> r \<noteq> Some (Inr (Some c)) \<and> r \<noteq> Some (Inr None)"
    using claim_owned [OF assms(1), of t k] claim_duplicate [OF assms(1), of t k] assms(2,3)
    by fastforce
  show "status s' k = Some (InFlight u)"
    using claim_frame [OF assms(1,3), of k] assms(2) by auto
qed

end

text \<open>A \<open>claim\<close> future on the in-memory store that is polled once and dropped if it has to wait.\<close>

definition memory_try_claim ::
    "nat \<Rightarrow> uuid \<Rightarrow> dedup_key \<Rightarrow> memory_state \<Rightarrow>
     (dedup_error + dedup_claim option) option \<times> memory_state" where
  "memory_try_claim capacity t k s =
     (case claim_start capacity t k s of
        (Claim_Done r, l, s') \<Rightarrow> (Some r, s')
      | (Claim_Wait c, l, s') \<Rightarrow> (None, release_locals k l s'))"

definition memory_inv :: "nat \<Rightarrow> memory_state \<Rightarrow> bool" where
  "memory_inv capacity s \<longleftrightarrow> memory_wf s \<and> hm_len (entries s) \<le> capacity"

lemma memory_try_claim_cases:
  assumes "memory_try_claim capacity t k s = (r, s')"
  obtains (Bad_Key) e where "\<not> dedup_key_ok k" "r = Some (Inl e)" "s' = s"
  | (Done) d l m where "dedup_key_ok k" "claim_poll capacity t k no_locals s = (Claim_Done d, l, m)"
      "r = Some d" "s' = m"
  | (Pending) c l m where "dedup_key_ok k" "claim_poll capacity t k no_locals s = (Claim_Wait c, l, m)"
      "r = None" "s' = release_locals k l m"
  using assms
  by (auto simp: memory_try_claim_def claim_start_def split: if_splits prod.splits claim_result.splits)

lemma claim_poll_status:
  assumes wf: "memory_wf s" and poll: "claim_poll capacity t k l s = (r, l', s')"
  shows "entry_at s' k' = entry_at s k' \<or>
    entry_at s' k' = None \<and> (\<exists>u. entry_at s k' = Some (Committed u)) \<or>
    k' = k \<and> r = Claim_Done (Inr (Some \<lparr>claim_key = k, claim_token = t\<rparr>)) \<and>
      entry_at s k = None \<and> entry_at s' k = Some (InFlight t)"
proof (cases rule: claim_poll_cases [of s k capacity t l])
  note ev = evict_committed_spec [OF wf, of capacity]
  {
    case (Owned s0)
    with poll ev(7) [of k'] memory_wfD(1) [OF ev(1)] show ?thesis
      by (auto simp: entry_at_def map_simps)
  next
    case (Wait_Capacity s0)
    with poll ev(7) [of k'] show ?thesis by (auto simp: entry_at_def)
  next
    case (Refused e s0)
    with poll ev(7) [of k'] show ?thesis by (auto simp: entry_at_def)
  }
qed (use poll in \<open>auto simp: entry_at_def\<close>)

lemma claim_poll_done:
  assumes wf: "memory_wf s" and poll: "claim_poll capacity t k l s = (Claim_Done (Inr d), l', s')"
  shows "d = None \<and> (\<exists>u. entry_at s k = Some (Committed u)) \<and> entry_at s' k = entry_at s k \<or>
    d = Some \<lparr>claim_key = k, claim_token = t\<rparr> \<and> entry_at s k = None \<and>
      entry_at s' k = Some (InFlight t)"
proof (cases rule: claim_poll_cases [of s k capacity t l])
  case (Owned s0)
  with poll memory_wfD(1) [OF evict_committed_spec(1) [OF wf]] show ?thesis
    by (auto simp: entry_at_def map_simps)
qed (use poll in \<open>auto simp: entry_at_def\<close>)

lemma memory_try_claim_frame:
  assumes "memory_inv capacity s" "memory_try_claim capacity t k s = (r, s')"
  shows "memory_inv capacity s'"
    "entry_at s' k' = entry_at s k' \<or>
     entry_at s' k' = None \<and> (\<exists>u. entry_at s k' = Some (Committed u)) \<or>
     k' = k \<and> r = Some (Inr (Some \<lparr>claim_key = k, claim_token = t\<rparr>)) \<and>
       entry_at s k = None \<and> entry_at s' k = Some (InFlight t)"
proof -
  have wf: "memory_wf s" "hm_len (entries s) \<le> capacity"
    using assms(1) by (auto simp: memory_inv_def)
  have "memory_inv capacity s' \<and>
    (entry_at s' k' = entry_at s k' \<or>
     entry_at s' k' = None \<and> (\<exists>u. entry_at s k' = Some (Committed u)) \<or>
     k' = k \<and> r = Some (Inr (Some \<lparr>claim_key = k, claim_token = t\<rparr>)) \<and>
       entry_at s k = None \<and> entry_at s' k = Some (InFlight t))"
    using assms(2)
  proof (cases rule: memory_try_claim_cases)
    case (Done d l m)
    with claim_poll_wf [OF wf Done(2)] claim_poll_status [OF wf(1) Done(2), of k'] show ?thesis
      by (auto simp: memory_inv_def)
  next
    case (Pending c l m)
    with claim_poll_wf [OF wf Pending(2)] claim_poll_status [OF wf(1) Pending(2), of k'] show ?thesis
      by (auto simp: memory_inv_def memory_wf_release_locals entry_at_def)
  qed (use assms(1) in auto)
  then show "memory_inv capacity s'"
    "entry_at s' k' = entry_at s k' \<or>
     entry_at s' k' = None \<and> (\<exists>u. entry_at s k' = Some (Committed u)) \<or>
     k' = k \<and> r = Some (Inr (Some \<lparr>claim_key = k, claim_token = t\<rparr>)) \<and>
       entry_at s k = None \<and> entry_at s' k = Some (InFlight t)" by auto
qed

lemma memory_try_claim_done:
  assumes "memory_wf s" "memory_try_claim capacity t k s = (Some (Inr d), s')"
  shows "d = None \<and> (\<exists>u. entry_at s k = Some (Committed u)) \<and> entry_at s' k = entry_at s k \<or>
    d = Some \<lparr>claim_key = k, claim_token = t\<rparr> \<and> entry_at s k = None \<and>
      entry_at s' k = Some (InFlight t)"
  using assms(2)
  by (cases rule: memory_try_claim_cases) (auto dest: claim_poll_done [OF assms(1)])

lemma memory_commit_own:
  assumes "memory_wf s"
    and "entry_at s (claim_key c) \<in> {Some (InFlight (claim_token c)), Some (Committed (claim_token c))}"
  shows "\<exists>s'. memory_commit c s = (Inr (), s') \<and>
      entry_at s' = (entry_at s)(claim_key c \<mapsto> Committed (claim_token c))"
  using memory_wfD(1) [OF assms(1)] assms(2)
  by (cases rule: memory_commit_cases [of s c]) (auto simp: entry_at_def map_simps fun_eq_iff)

lemma memory_commit_other:
  assumes "entry_at s (claim_key c) \<notin>
      {Some (InFlight (claim_token c)), Some (Committed (claim_token c))}"
  shows "\<exists>e. memory_commit c s = (Inl e, s) \<and> \<not> is_retryable e"
  using assms by (cases rule: memory_commit_cases [of s c]) (auto simp: entry_at_def)

lemma entries_fold_signal [simp]: "entries (fold signal cs m) = entries m"
  by (induction cs arbitrary: m) auto

interpretation memory: dedup_store "memory_inv capacity" entry_at "memory_try_claim capacity"
  memory_commit memory_release
proof
  fix s s' :: memory_state and c :: dedup_claim and k k' :: dedup_key and e :: memory_entry
    and r t u rc rr
  assume inv: "memory_inv capacity s"
  then have wf: "memory_wf s" by (simp add: memory_inv_def)
  {
    assume cl: "memory_try_claim capacity t k s = (r, s')"
    note F = memory_try_claim_frame [OF inv cl]
    show "memory_inv capacity s'" by (rule F(1))
    show "entry_at s' k' = entry_at s k' \<or>
      entry_at s' k' = None \<and> (\<exists>u. entry_at s k' = Some (Committed u)) \<or>
      k' = k \<and> r = Some (Inr (Some \<lparr>claim_key = k, claim_token = t\<rparr>)) \<and> entry_at s k = None"
      using F(2) [of k'] by blast
  }
  {
    assume cl: "memory_try_claim capacity t k s = (Some (Inr (Some c)), s')"
    from memory_try_claim_done [OF wf cl]
    show "c = \<lparr>claim_key = k, claim_token = t\<rparr> \<and> entry_at s k = None \<and>
        entry_at s' k = Some (InFlight t)" by auto
  }
  {
    assume cl: "memory_try_claim capacity t k s = (Some (Inr None), s')"
    from memory_try_claim_done [OF wf cl]
    show "(\<exists>u. entry_at s k = Some (Committed u)) \<and> entry_at s' k = entry_at s k" by auto
  }
  {
    assume "entry_at s k = Some (Committed u)" "dedup_key_ok k"
    then show "fst (memory_try_claim capacity t k s) = Some (Inr None)"
      by (simp add: memory_try_claim_def claim_start_def claim_poll_def entry_at_def)
  }
  {
    assume "memory_commit c s = (rc, s')"
    with memory_commit_wf [OF wf, of c] inv show "memory_inv capacity s'"
      by (auto simp: memory_inv_def)
  }
  {
    assume "memory_release c s = (rr, s')"
    with memory_release_wf [OF wf, of c] inv show "memory_inv capacity s'"
      by (auto simp: memory_inv_def)
  }
  {
    assume "entry_at s (claim_key c) = Some (InFlight (claim_token c))"
    then show "\<exists>s'. memory_release c s = (Inr (), s') \<and> entry_at s' = (entry_at s)(claim_key c := None)"
      using memory_wfD(1) [OF wf]
      by (auto simp: memory_release_def release_locked_def entry_at_def map_simps fun_eq_iff)
  }
  {
    assume "entry_at s (claim_key c) \<in> {None, Some (Committed (claim_token c))}"
    then show "memory_release c s = (Inr (), s)"
      by (auto simp: memory_release_def release_locked_def entry_at_def)
  }
  {
    assume "entry_at s (claim_key c) = Some e" "entry_token e \<noteq> claim_token c"
    then show "\<exists>e. memory_release c s = (Inl e, s) \<and> \<not> is_retryable e"
      by (cases e) (auto simp: memory_release_def release_locked_def entry_at_def)
  }
qed (auto simp: memory_inv_def intro: memory_commit_own memory_commit_other)

end
