(* ===== verification/DedupSystem.thy ===== *)
theory DedupSystem
  imports Dedup
begin

text \<open>
  Any number of concurrent \<open>claim\<close> futures on one in-memory deduplication store
  (\<open>crates/bot-core/src/dedup.rs\<close>): the steps of starting, waking, cancelling and dropping a future
  and of committing and releasing a claim, the invariant of every reachable state, and what it
  gives: bounds, exclusive ownership, pinned duplicates, no lost wake-up.
\<close>

section \<open>Concurrent claims\<close>

text \<open>
  A waiting \<open>claim\<close> future: its key, its guards, the channel it waits on and the send count it
  has seen; \<open>None\<close> for a future that was cancelled and has dropped its \<open>PendingClaimGuard\<close> but not
  yet its \<open>WaiterPin\<close> (the two \<open>Drop\<close> implementations take the lock separately).
\<close>

record claim_task =
  tk_key :: dedup_key
  tk_locals :: claim_locals
  tk_wait :: "(watch_id \<times> nat) option"

record dedup_sys =
  store :: memory_state
  tasks :: "(nat, claim_task) hmap"
  owed :: "watch_id list"
  used_tokens :: "uuid set"

definition dedup_init :: dedup_sys where
  "dedup_init = \<lparr>store = empty_memory, tasks = [], owed = [], used_tokens = {}\<rparr>"

definition settle ::
    "nat \<Rightarrow> dedup_key \<Rightarrow> uuid \<Rightarrow> claim_result \<times> claim_locals \<times> memory_state \<Rightarrow>
     dedup_sys \<Rightarrow> dedup_sys" where
  "settle i k t out s =
     (case out of
        (Claim_Wait c, l, m) \<Rightarrow>
          s\<lparr>store := m,
            tasks := hm_put i \<lparr>tk_key = k, tk_locals = l, tk_wait = Some (c, signals m c)\<rparr> (tasks s)\<rparr>
      | (Claim_Done r, l, m) \<Rightarrow>
          s\<lparr>store := m, tasks := hm_del i (tasks s),
            used_tokens := (if r = Inr (Some \<lparr>claim_key = k, claim_token = t\<rparr>)
                            then insert t (used_tokens s) else used_tokens s)\<rparr>)"

inductive dedup_step :: "nat \<Rightarrow> dedup_sys \<Rightarrow> dedup_sys \<Rightarrow> bool" for capacity :: nat where
  Start: "hm_get (tasks s) i = None \<Longrightarrow> hm_len (tasks s) < usize_max \<Longrightarrow> t \<notin> used_tokens s \<Longrightarrow>
     dedup_step capacity s (settle i k t (claim_start capacity t k (store s)) s)"
| Wake: "hm_get (tasks s) i = Some tk \<Longrightarrow> tk_wait tk = Some (c, seen) \<Longrightarrow>
     signals (store s) c \<noteq> seen \<Longrightarrow> t \<notin> used_tokens s \<Longrightarrow>
     dedup_step capacity s
       (settle i (tk_key tk) t (claim_poll capacity t (tk_key tk) (tk_locals tk) (store s)) s)"
| Cancel: "hm_get (tasks s) i = Some tk \<Longrightarrow> tk_wait tk = Some w \<Longrightarrow>
     dedup_step capacity s
       (s\<lparr>store := (if guarded (tk_locals tk) then release_pending (store s) else store s),
          tasks := hm_put i (tk\<lparr>tk_locals := (tk_locals tk)\<lparr>guarded := False\<rparr>, tk_wait := None\<rparr>)
                     (tasks s)\<rparr>)"
| Dropped_Task: "hm_get (tasks s) i = Some tk \<Longrightarrow> tk_wait tk = None \<Longrightarrow>
     dedup_step capacity s
       (s\<lparr>store := (if pinned (tk_locals tk) then unpin_waiter (tk_key tk) (store s) else store s),
          tasks := hm_del i (tasks s)\<rparr>)"
| Commit: "dedup_step capacity s (s\<lparr>store := snd (memory_commit c (store s))\<rparr>)"
| Release: "release_locked c (store s) = (r, m) \<Longrightarrow>
     dedup_step capacity s
       (s\<lparr>store := m, owed := owed s @ (case r of Inl _ \<Rightarrow> [] | Inr cs \<Rightarrow> cs)\<rparr>)"
| Send: "owed s = cs @ c # cs' \<Longrightarrow>
     dedup_step capacity s (s\<lparr>store := signal c (store s), owed := cs @ cs'\<rparr>)"

inductive dedup_reachable :: "nat \<Rightarrow> dedup_sys \<Rightarrow> bool" for capacity :: nat where
  Init: "dedup_reachable capacity dedup_init"
| Step: "dedup_reachable capacity s \<Longrightarrow> dedup_step capacity s s' \<Longrightarrow> dedup_reachable capacity s'"

section \<open>Notification\<close>

text \<open>
  The condition a future waits out: the claim whose channel it subscribed to still owns the key;
  or there is no room, nothing to evict, and its own key is not committed.
\<close>

definition blocked :: "nat \<Rightarrow> memory_state \<Rightarrow> dedup_key \<Rightarrow> watch_id \<Rightarrow> bool" where
  "blocked capacity m k c \<longleftrightarrow>
     (case c of
        Key_Changed u \<Rightarrow> hm_get (entries m) k = Some (InFlight u)
      | Capacity_Changed \<Rightarrow> capacity \<le> hm_len (entries m) \<and> evictable m = [] \<and>
          (\<forall>u. hm_get (entries m) k \<noteq> Some (Committed u)))"

lemma blocked_simps [simp]:
  "blocked capacity m k (Key_Changed u) \<longleftrightarrow> hm_get (entries m) k = Some (InFlight u)"
  "blocked capacity m k Capacity_Changed \<longleftrightarrow>
     capacity \<le> hm_len (entries m) \<and> evictable m = [] \<and>
     (\<forall>u. hm_get (entries m) k \<noteq> Some (Committed u))"
  by (simp_all add: blocked_def)

text \<open>
  A change of the store is announced when whatever unblocks a waiter also sends on its channel.
\<close>

definition announced :: "nat \<Rightarrow> memory_state \<Rightarrow> memory_state \<Rightarrow> bool" where
  "announced capacity m m' \<longleftrightarrow>
     (\<forall>c. signals m c \<le> signals m' c \<and>
       (signals m c = signals m' c \<longrightarrow> (\<forall>k. blocked capacity m k c \<longrightarrow> blocked capacity m' k c)))"

lemma announced_refl [simp]: "announced capacity m m"
  by (simp add: announced_def)

lemma announced_trans:
  assumes "announced capacity m m'" "announced capacity m' m''"
  shows "announced capacity m m''"
  unfolding announced_def
proof (intro allI conjI impI)
  fix c k
  have le: "signals m c \<le> signals m' c" "signals m' c \<le> signals m'' c"
    using assms by (auto simp: announced_def)
  then show "signals m c \<le> signals m'' c" by simp
  assume "signals m c = signals m'' c" "blocked capacity m k c"
  with le assms show "blocked capacity m'' k c"
    unfolding announced_def by (metis le_antisym)
qed

lemma announced_pending [simp]: "announced capacity m (m\<lparr>pending_claims := n\<rparr>)"
  by (auto simp: announced_def blocked_def split: watch_id.splits)

lemma announced_release_pending [simp]: "announced capacity m (release_pending m)"
  by (simp add: release_pending_def)

lemma announced_signal [simp]: "announced capacity m (signal c m)"
  by (auto simp: announced_def blocked_def split: watch_id.splits if_splits)

lemma announced_pin [simp]: "announced capacity m (pin_waiter k m)"
  by (auto simp: announced_def blocked_def split: watch_id.splits)

lemma announced_unpin: "announced capacity m (unpin_waiter k m)"
  unfolding announced_def
proof (intro allI conjI impI)
  fix c k'
  show "signals m c \<le> signals (unpin_waiter k m) c" by (rule signals_unpin_le)
  assume "signals m c = signals (unpin_waiter k m) c" "blocked capacity m k' c"
  then show "blocked capacity (unpin_waiter k m) k' c"
    by (cases c) (auto simp: evictable_unpin)
qed

lemma announced_release_locals: "announced capacity m (release_locals k l m)"
proof -
  let ?m1 = "if guarded l then release_pending m else m"
  have "announced capacity m ?m1" by simp
  moreover have "release_locals k l m = (if pinned l then unpin_waiter k ?m1 else ?m1)"
    by (simp add: release_locals_def Let_def)
  ultimately show ?thesis
    using announced_trans [OF _ announced_unpin [of capacity ?m1 k]] by simp
qed

lemma announced_evict:
  assumes wf: "memory_wf m"
  shows "announced capacity m (evict_committed capacity m)"
  unfolding announced_def
proof (intro allI conjI impI)
  note ev = evict_committed_spec [OF wf, of capacity]
  fix c k
  show "signals m c \<le> signals (evict_committed capacity m) c" by (simp add: ev)
  assume "blocked capacity m k c"
  then show "blocked capacity (evict_committed capacity m) k c"
    using ev(7) [of k] ev(8) by (cases c) auto
qed

lemma announced_insert:
  "hm_wf (entries m) \<Longrightarrow> hm_get (entries m) k = None \<Longrightarrow> hm_len (entries m) < capacity \<Longrightarrow>
   announced capacity m (m\<lparr>entries := hm_put k (InFlight t) (entries m)\<rparr>)"
  by (auto simp: announced_def blocked_def map_simps split: watch_id.splits)

lemma announced_claim_poll:
  assumes wf: "memory_wf m" and poll: "claim_poll capacity t k l m = (r, l', m')"
  shows "announced capacity m m'"
proof (cases rule: claim_poll_cases [of m k capacity t l])
  note ev = evict_committed_spec [OF wf, of capacity]
  {
    case (Owned s0)
    let ?s1 = "release_locals k l s0"
    have "announced capacity m ?s1"
      using Owned(1) announced_evict [OF wf] announced_release_locals announced_trans by blast
    moreover have "hm_get (entries s0) k = None" using ev(7) [of k] Owned(1,2) by auto
    then have "announced capacity ?s1 (?s1\<lparr>entries := hm_put k (InFlight t) (entries ?s1)\<rparr>)"
      using Owned(1,3) memory_wfD(1) [OF ev(1)] by (intro announced_insert) auto
    ultimately show ?thesis using poll Owned(4) announced_trans by fastforce
  next
    case (Refused e s0)
    have "announced capacity m s0" using Refused(1) announced_evict [OF wf] by auto
    with Refused(5) poll announced_release_locals announced_trans show ?thesis by fastforce
  next
    case (Wait_Owner u)
    let ?m1 = "m\<lparr>pending_claims := pending_claims m + of_bool (\<not> guarded l)\<rparr>"
    have "announced capacity m ?m1" by (rule announced_pending)
    moreover have "m' = ?m1 \<or> m' = pin_waiter k ?m1" using Wait_Owner(3) poll by auto
    ultimately show ?thesis
      using announced_trans [OF _ announced_pin [of capacity ?m1 k]] by blast
  next
    case (Wait_Capacity s0)
    have "announced capacity s0 m'" using Wait_Capacity(5) poll by auto
    with Wait_Capacity(1) announced_evict [OF wf] announced_trans show ?thesis by blast
  next
    case (Duplicate u)
    with poll announced_release_locals show ?thesis by auto
  }
qed

lemma announced_commit:
  assumes wf: "memory_wf m"
  shows "announced capacity m (snd (memory_commit c m))"
proof (cases rule: memory_commit_cases [of m c])
  case (Fresh m')
  show ?thesis
    unfolding announced_def
  proof (intro allI conjI impI)
    fix d k
    show "signals m d \<le> signals (snd (memory_commit c m)) d" by (auto simp: Fresh(2,7))
    assume "signals m d = signals (snd (memory_commit c m)) d" "blocked capacity m k d"
    then show "blocked capacity (snd (memory_commit c m)) k d"
      using Fresh(1) memory_wfD(1) [OF wf]
      by (cases d) (auto simp: Fresh(2,3,7) map_simps split: if_splits)
  qed
qed auto

text \<open>A wait always starts on a condition that holds when the future subscribes.\<close>

lemma claim_poll_wait_blocked:
  assumes wf: "memory_wf m" and poll: "claim_poll capacity t k l m = (Claim_Wait c, l', m')"
  shows "blocked capacity m' k c" "guarded l'"
proof -
  have "blocked capacity m' k c \<and> guarded l'"
  proof (cases rule: claim_poll_cases [of m k capacity t l])
    case (Wait_Capacity s0)
    note ev = evict_committed_spec [OF wf, of capacity]
    from Wait_Capacity(1,3) ev(3) have "evictable s0 = []" by auto
    with Wait_Capacity ev(7) [of k] poll show ?thesis by auto
  qed (use poll in auto)
  then show "blocked capacity m' k c" "guarded l'" by auto
qed

section \<open>The system invariant\<close>

text \<open>\<open>W k\<close> is the number of futures that hold a pin on \<open>k\<close>: the waiter map records it exactly.\<close>

definition waiters_ok :: "(dedup_key \<Rightarrow> nat) \<Rightarrow> memory_state \<Rightarrow> bool" where
  "waiters_ok W m \<longleftrightarrow> (\<forall>k. hm_get (waiters m) k = (if W k = 0 then None else Some (W k)))"

lemma waiters_ok_cong: "waiters m = waiters m' \<Longrightarrow> waiters_ok W m = waiters_ok W m'"
  by (simp add: waiters_ok_def)

lemma waiters_ok_pin:
  "hm_wf (waiters m) \<Longrightarrow> waiters_ok W m \<Longrightarrow> W k < usize_max \<Longrightarrow>
   waiters_ok (\<lambda>k'. W k' + of_bool (k' = k)) (pin_waiter k m)"
  by (auto simp: waiters_ok_def waiters_pin_waiter usize_sat_add_def)

lemma waiters_ok_unpin:
  "hm_wf (waiters m) \<Longrightarrow> waiters_ok (\<lambda>k'. W k' + of_bool (k' = k)) m \<Longrightarrow>
   waiters_ok W (unpin_waiter k m)"
  by (auto simp: waiters_ok_def waiters_unpin_waiter split: if_splits)

lemma waiters_ok_release_locals:
  "hm_wf (waiters m) \<Longrightarrow> waiters_ok (\<lambda>k'. W k' + of_bool (pinned l \<and> k' = k)) m \<Longrightarrow>
   waiters_ok W (release_locals k l m)"
  by (auto simp: waiters_ok_def waiters_release_locals split: if_splits)

text \<open>Tokens identify entries: every stored token was handed out, and for one key only.\<close>

definition tokens_ok :: "uuid set \<Rightarrow> memory_state \<Rightarrow> bool" where
  "tokens_ok U m \<longleftrightarrow>
     (\<forall>k e. hm_get (entries m) k = Some e \<longrightarrow> entry_token e \<in> U) \<and>
     (\<forall>k k' e e'. hm_get (entries m) k = Some e \<longrightarrow> hm_get (entries m) k' = Some e' \<longrightarrow>
        entry_token e = entry_token e' \<longrightarrow> k = k')"

lemma tokens_ok_sub:
  assumes "tokens_ok U m"
    and "\<And>k e'. hm_get (entries m') k = Some e' \<Longrightarrow>
      \<exists>e. hm_get (entries m) k = Some e \<and> entry_token e = entry_token e'"
  shows "tokens_ok U m'"
  unfolding tokens_ok_def
proof (intro conjI allI impI)
  fix k e'
  assume "hm_get (entries m') k = Some e'"
  from assms(2) [OF this] assms(1) show "entry_token e' \<in> U"
    unfolding tokens_ok_def by metis
next
  fix k k' e e'
  assume "hm_get (entries m') k = Some e" "hm_get (entries m') k' = Some e'"
    and "entry_token e = entry_token e'"
  with assms(2) [of k e] assms(2) [of k' e'] assms(1) show "k = k'"
    unfolding tokens_ok_def by metis
qed

lemma tokens_ok_insert:
  "hm_wf (entries m) \<Longrightarrow> tokens_ok U m \<Longrightarrow> t \<notin> U \<Longrightarrow>
   tokens_ok (insert t U) (m\<lparr>entries := hm_put k (InFlight t) (entries m)\<rparr>)"
  by (auto simp: tokens_ok_def map_simps split: if_splits)

lemma tokens_ok_evict: "memory_wf m \<Longrightarrow> tokens_ok U m \<Longrightarrow> tokens_ok U (evict_committed capacity m)"
  by (rule tokens_ok_sub, assumption)
     (use evict_committed_spec(7) [of m capacity] in \<open>metis option.distinct(1)\<close>)

text \<open>
  A task that waits holds a guard, has seen no send it has not, and unless a send to it is still
  owed it is notified or its condition still holds; a task that is being dropped holds no guard.
\<close>

definition task_ok :: "nat \<Rightarrow> watch_id list \<Rightarrow> memory_state \<Rightarrow> claim_task \<Rightarrow> bool" where
  "task_ok capacity cs m tk \<longleftrightarrow>
     (case tk_wait tk of
        None \<Rightarrow> \<not> guarded (tk_locals tk)
      | Some (c, seen) \<Rightarrow> guarded (tk_locals tk) \<and> seen \<le> signals m c \<and>
          (seen = signals m c \<and> c \<notin> set cs \<longrightarrow> blocked capacity m (tk_key tk) c))"

lemma task_ok_announced:
  assumes "announced capacity m m'" "task_ok capacity cs m tk"
  shows "task_ok capacity cs m' tk"
proof (cases "tk_wait tk")
  case None
  with assms(2) show ?thesis by (simp add: task_ok_def)
next
  case (Some w)
  obtain c seen where w: "tk_wait tk = Some (c, seen)" using Some by (cases w) auto
  have le: "signals m c \<le> signals m' c"
    and keep: "signals m c = signals m' c \<Longrightarrow> blocked capacity m (tk_key tk) c \<Longrightarrow>
      blocked capacity m' (tk_key tk) c"
    using assms(1) by (auto simp: announced_def)
  have seen: "guarded (tk_locals tk)" "seen \<le> signals m c"
    and wait: "seen = signals m c \<and> c \<notin> set cs \<Longrightarrow> blocked capacity m (tk_key tk) c"
    using assms(2) by (auto simp: task_ok_def w)
  show ?thesis
    unfolding task_ok_def w using seen wait le keep by auto
qed

definition pins :: "dedup_key \<Rightarrow> (nat, claim_task) hmap \<Rightarrow> nat" where
  "pins k = hm_count (\<lambda>tk. pinned (tk_locals tk) \<and> k = tk_key tk)"

definition guards :: "(nat, claim_task) hmap \<Rightarrow> nat" where
  "guards = hm_count (\<lambda>tk. guarded (tk_locals tk))"

definition dedup_inv :: "nat \<Rightarrow> dedup_sys \<Rightarrow> bool" where
  "dedup_inv capacity s \<longleftrightarrow>
     memory_wf (store s) \<and> hm_len (entries (store s)) \<le> capacity \<and>
     hm_wf (tasks s) \<and> hm_len (tasks s) \<le> usize_max \<and>
     pending_claims (store s) = guards (tasks s) \<and> guards (tasks s) \<le> capacity \<and>
     waiters_ok (\<lambda>k. pins k (tasks s)) (store s) \<and>
     (\<forall>i tk. hm_get (tasks s) i = Some tk \<longrightarrow> task_ok capacity (owed s) (store s) tk) \<and>
     tokens_ok (used_tokens s) (store s)"

lemma dedup_invD:
  assumes "dedup_inv capacity s"
  shows "memory_wf (store s)" "hm_len (entries (store s)) \<le> capacity"
    "hm_wf (tasks s)" "hm_len (tasks s) \<le> usize_max"
    "pending_claims (store s) = guards (tasks s)" "guards (tasks s) \<le> capacity"
    "waiters_ok (\<lambda>k. pins k (tasks s)) (store s)"
    "hm_get (tasks s) i = Some tk \<Longrightarrow> task_ok capacity (owed s) (store s) tk"
    "tokens_ok (used_tokens s) (store s)"
  using assms by (auto simp: dedup_inv_def)

lemma dedup_inv_init: "dedup_inv capacity dedup_init"
  using memory_wf_empty
  by (simp add: dedup_inv_def dedup_init_def empty_memory_def map_simps
      pins_def guards_def waiters_ok_def tokens_ok_def)

lemma task_counts:
  assumes "hm_wf T"
    and "hm_get T i = None \<and> l = no_locals \<or>
      (\<exists>tk. hm_get T i = Some tk \<and> tk_key tk = k \<and> tk_locals tk = l)"
  shows "pins k' T = pins k' (hm_del i T) + of_bool (pinned l \<and> k' = k)"
    "guards T = guards (hm_del i T) + of_bool (guarded l)"
proof -
  have "hm_count (\<lambda>tk. pinned (tk_locals tk) \<and> k' = tk_key tk) T =
      hm_count (\<lambda>tk. pinned (tk_locals tk) \<and> k' = tk_key tk) (hm_del i T) +
      of_bool (pinned l \<and> k' = k) \<and>
    hm_count (\<lambda>tk. guarded (tk_locals tk)) T =
      hm_count (\<lambda>tk. guarded (tk_locals tk)) (hm_del i T) + of_bool (guarded l)"
    using assms(2)
  proof (elim disjE exE conjE)
    fix tk
    assume "hm_get T i = Some tk" "tk_key tk = k" "tk_locals tk = l"
    with hm_count_del [OF assms(1), of i tk "\<lambda>tk. pinned (tk_locals tk) \<and> k' = tk_key tk"]
      hm_count_del [OF assms(1), of i tk "\<lambda>tk. guarded (tk_locals tk)"]
    show ?thesis by auto
  qed (simp add: hm_del_absent no_locals_def)
  then show "pins k' T = pins k' (hm_del i T) + of_bool (pinned l \<and> k' = k)"
    "guards T = guards (hm_del i T) + of_bool (guarded l)"
    by (simp_all add: pins_def guards_def)
qed

lemma task_counts_put:
  assumes "hm_wf T"
  shows "pins k' (hm_put i tk T) = pins k' (hm_del i T) + of_bool (pinned (tk_locals tk) \<and> k' = tk_key tk)"
    "guards (hm_put i tk T) = guards (hm_del i T) + of_bool (guarded (tk_locals tk))"
  using assms by (simp_all add: pins_def guards_def hm_count_put)

subsection \<open>One iteration of a claim keeps the invariant\<close>

lemma pins_le_len: "pins k T \<le> hm_len T"
  by (simp add: pins_def hm_count_le_len)

text \<open>The counters after one iteration, with \<open>W\<close> and \<open>G\<close> the pins and guards of the other tasks.\<close>

lemma claim_poll_counts:
  assumes wf: "memory_wf m" and poll: "claim_poll capacity t k l m = (r, l', m')"
    and W: "waiters_ok (\<lambda>k'. W k' + of_bool (pinned l \<and> k' = k)) m" "W k < usize_max"
    and G: "pending_claims m = G + of_bool (guarded l)" "pending_claims m \<le> capacity"
  shows "waiters_ok (\<lambda>k'. W k' + of_bool (pinned l' \<and> k' = k)) m'"
    "pending_claims m' = G + of_bool (guarded l')" "pending_claims m' \<le> capacity"
proof -
  note ev = evict_committed_spec [OF wf, of capacity]
  note wwf = memory_wfD(2) [OF wf]
  have ev_W: "waiters_ok (\<lambda>k'. W k' + of_bool (pinned l \<and> k' = k)) (evict_committed capacity m)"
    using W(1) waiters_ok_cong [OF ev(4)] by blast
  have "waiters_ok (\<lambda>k'. W k' + of_bool (pinned l' \<and> k' = k)) m' \<and>
    pending_claims m' = G + of_bool (guarded l') \<and> pending_claims m' \<le> capacity"
  proof (cases rule: claim_poll_cases [of m k capacity t l])
    case (Duplicate u)
    with poll W(1) G waiters_ok_release_locals [OF wwf, of W l k] show ?thesis
      by (auto simp: no_locals_def)
  next
    case (Refused e s0)
    have "waiters_ok (\<lambda>k'. W k' + of_bool (pinned l \<and> k' = k)) s0" "hm_wf (waiters s0)"
        "pending_claims s0 = pending_claims m"
      using Refused(1) W(1) ev_W wwf ev by auto
    with Refused(5) poll G waiters_ok_release_locals [of s0 W l k] show ?thesis
      by (auto simp: no_locals_def)
  next
    case (Wait_Owner u)
    let ?m1 = "m\<lparr>pending_claims := pending_claims m + of_bool (\<not> guarded l)\<rparr>"
    have pend: "pending_claims ?m1 = G + 1" "pending_claims ?m1 \<le> capacity"
      using G Wait_Owner(2) by auto
    show ?thesis
    proof (cases "pinned l")
      case True
      with W(1) have "waiters_ok (\<lambda>k'. W k' + of_bool (k' = k)) ?m1"
        by (simp add: waiters_ok_def)
      with True Wait_Owner(3) poll pend show ?thesis by auto
    next
      case False
      with W have "waiters_ok W ?m1" by (simp add: waiters_ok_def)
      from waiters_ok_pin [OF _ this W(2)] wwf
      have "waiters_ok (\<lambda>k'. W k' + of_bool (k' = k)) (pin_waiter k ?m1)" by simp
      with False Wait_Owner(3) poll pend show ?thesis by auto
    qed
  next
    case (Wait_Capacity s0)
    let ?m1 = "s0\<lparr>pending_claims := pending_claims s0 + of_bool (\<not> guarded l)\<rparr>"
    have "waiters_ok (\<lambda>k'. W k' + of_bool (pinned l \<and> k' = k)) ?m1"
      using ev_W Wait_Capacity(1) by (simp add: waiters_ok_def)
    with Wait_Capacity ev(5) poll G show ?thesis by auto
  next
    case (Owned s0)
    let ?m1 = "release_locals k l s0"
    have "waiters_ok W ?m1"
      using ev_W Owned(1) wwf ev(4) by (intro waiters_ok_release_locals) auto
    with Owned(1,4) ev(5) poll G show ?thesis
      by (auto simp: waiters_ok_def no_locals_def)
  qed
  then show "waiters_ok (\<lambda>k'. W k' + of_bool (pinned l' \<and> k' = k)) m'"
    "pending_claims m' = G + of_bool (guarded l')" "pending_claims m' \<le> capacity" by auto
qed

lemma claim_poll_tokens:
  assumes wf: "memory_wf m" and poll: "claim_poll capacity t k l m = (r, l', m')"
    and U: "tokens_ok U m" "t \<notin> U"
  shows "tokens_ok (if r = Claim_Done (Inr (Some \<lparr>claim_key = k, claim_token = t\<rparr>))
    then insert t U else U) m'"
proof (cases rule: claim_poll_cases [of m k capacity t l])
  note ev = evict_committed_spec [OF wf, of capacity] tokens_ok_evict [OF wf U(1), of capacity]
  {
    case (Owned s0)
    let ?m1 = "release_locals k l s0"
    have "tokens_ok U ?m1"
      using tokens_ok_sub [of U s0 ?m1] ev(9) Owned(1) by auto
    with tokens_ok_insert [of ?m1 U t k] memory_wfD(1) [OF ev(1)] U(2) Owned(1,4) poll
    show ?thesis by auto
  next
    case (Wait_Owner u)
    then show ?thesis using tokens_ok_sub [OF U(1), of m'] poll by auto
  next
    case (Wait_Capacity s0)
    then show ?thesis using tokens_ok_sub [OF ev(9), of m'] poll by auto
  next
    case (Refused e s0)
    then have "tokens_ok U s0" using U(1) ev(9) by auto
    with Refused show ?thesis using tokens_ok_sub [of U s0 m'] poll by auto
  next
    case (Duplicate u)
    then show ?thesis using tokens_ok_sub [OF U(1), of m'] poll by auto
  }
qed

subsection \<open>Every step keeps the invariant\<close>

lemma settle_inv:
  assumes inv: "dedup_inv capacity s" and fresh: "t \<notin> used_tokens s"
    and task: "hm_get (tasks s) i = None \<and> l = no_locals \<and> hm_len (tasks s) < usize_max \<or>
      (\<exists>tk. hm_get (tasks s) i = Some tk \<and> tk_key tk = k \<and> tk_locals tk = l)"
    and poll: "claim_poll capacity t k l (store s) = (r, l', m')"
  shows "dedup_inv capacity (settle i k t (r, l', m') s)"
proof -
  note I = dedup_invD [OF inv]
  let ?T = "hm_del i (tasks s)"
  have task': "hm_get (tasks s) i = None \<and> l = no_locals \<or>
      (\<exists>tk. hm_get (tasks s) i = Some tk \<and> tk_key tk = k \<and> tk_locals tk = l)"
    using task by auto
  note cnt = task_counts [OF I(3) task']
  have lenT: "hm_len ?T < usize_max"
    using task I(4) hm.len_del_present [OF I(3), of i] by (auto simp: hm_del_absent)
  have P: "waiters_ok (\<lambda>k'. pins k' ?T + of_bool (pinned l' \<and> k' = k)) m'"
    "pending_claims m' = guards ?T + of_bool (guarded l')" "pending_claims m' \<le> capacity"
    using claim_poll_counts [OF I(1) poll, of "\<lambda>k. pins k ?T" "guards ?T"]
      I(5,6,7) pins_le_len [of k ?T] lenT by (simp_all add: cnt)
  have wf': "memory_wf m'" "hm_len (entries m') \<le> capacity"
    using claim_poll_wf [OF I(1,2) poll] by auto
  have ann: "announced capacity (store s) m'" by (rule announced_claim_poll [OF I(1) poll])
  have old: "task_ok capacity (owed s) m' tk" if "hm_get ?T j = Some tk" for j tk
    using that I(3,8) task_ok_announced [OF ann] by (auto simp: map_simps split: if_splits)
  note tok = claim_poll_tokens [OF I(1) poll I(9) fresh]
  show ?thesis
  proof (cases r)
    case (Claim_Done d)
    then have "l' = no_locals"
      using poll by (cases rule: claim_poll_cases [of "store s" k capacity t l]) auto
    with Claim_Done P wf' old tok I(3) lenT show ?thesis
      unfolding dedup_inv_def by (auto simp: settle_def no_locals_def map_simps)
  next
    case (Claim_Wait c)
    have new: "task_ok capacity (owed s) m' \<lparr>tk_key = k, tk_locals = l', tk_wait = Some (c, signals m' c)\<rparr>"
      using claim_poll_wait_blocked [OF I(1), of capacity t k l c l' m'] poll Claim_Wait
      by (simp add: task_ok_def)
    have all: "task_ok capacity (owed s) m' tk"
      if "hm_get (hm_put i \<lparr>tk_key = k, tk_locals = l', tk_wait = Some (c, signals m' c)\<rparr> (tasks s)) j
        = Some tk" for j tk
      using that old [of j tk] new I(3) by (auto simp: map_simps split: if_splits)
    show ?thesis
      using Claim_Wait P wf' tok I(3) lenT all unfolding dedup_inv_def
      by (auto simp: settle_def task_counts_put hm_len_put map_simps)
  qed
qed

lemma start_inv:
  assumes "dedup_inv capacity s" "hm_get (tasks s) i = None" "hm_len (tasks s) < usize_max"
    "t \<notin> used_tokens s"
  shows "dedup_inv capacity (settle i k t (claim_start capacity t k (store s)) s)"
proof (cases "dedup_key_ok k")
  case True
  obtain r l' m' where "claim_poll capacity t k no_locals (store s) = (r, l', m')"
    by (cases "claim_poll capacity t k no_locals (store s)")
  with settle_inv [of capacity s t i no_locals k] assms True show ?thesis
    by (simp add: claim_start_def)
next
  case False
  with assms show ?thesis
    by (auto simp: claim_start_def settle_def hm_del_absent)
qed

lemma task_gone_inv:
  assumes inv: "dedup_inv capacity s" and tk: "hm_get (tasks s) i = Some tk" "tk_wait tk = None"
  shows "dedup_inv capacity
    (s\<lparr>store := (if pinned (tk_locals tk) then unpin_waiter (tk_key tk) (store s) else store s),
       tasks := hm_del i (tasks s)\<rparr>)"
proof -
  note I = dedup_invD [OF inv]
  let ?m = "if pinned (tk_locals tk) then unpin_waiter (tk_key tk) (store s) else store s"
  let ?T = "hm_del i (tasks s)"
  have g: "\<not> guarded (tk_locals tk)" using I(8) [OF tk(1)] tk(2) by (simp add: task_ok_def)
  have cnt: "pins k (tasks s) = pins k ?T + of_bool (pinned (tk_locals tk) \<and> k = tk_key tk)"
    "guards (tasks s) = guards ?T" for k
    using task_counts [OF I(3), of i "tk_locals tk" "tk_key tk"] tk g by auto
  have W: "waiters_ok (\<lambda>k. pins k ?T) ?m"
    using I(7) waiters_ok_unpin [OF memory_wfD(2) [OF I(1)], of "\<lambda>k. pins k ?T" "tk_key tk"]
    by (auto simp: cnt)
  have ann: "announced capacity (store s) ?m" by (simp add: announced_unpin)
  have ok: "task_ok capacity (owed s) ?m tk'" if "hm_get ?T j = Some tk'" for j tk'
    using that I(3,8) task_ok_announced [OF ann] by (auto simp: map_simps split: if_splits)
  have "memory_wf ?m" using I(1) by (simp add: memory_wf_unpin_waiter)
  moreover have "tokens_ok (used_tokens s) ?m"
    using tokens_ok_sub [OF I(9), of ?m] by (auto split: if_splits)
  ultimately show ?thesis
    using I W ok cnt(2) hm.len_del_le [OF I(3), of i] unfolding dedup_inv_def
    by (auto simp: map_simps)
qed

lemma cancel_inv:
  assumes inv: "dedup_inv capacity s" and tk: "hm_get (tasks s) i = Some tk" "tk_wait tk = Some w"
  shows "dedup_inv capacity
    (s\<lparr>store := (if guarded (tk_locals tk) then release_pending (store s) else store s),
       tasks := hm_put i (tk\<lparr>tk_locals := (tk_locals tk)\<lparr>guarded := False\<rparr>, tk_wait := None\<rparr>)
                  (tasks s)\<rparr>)"
proof -
  note I = dedup_invD [OF inv]
  let ?tk = "tk\<lparr>tk_locals := (tk_locals tk)\<lparr>guarded := False\<rparr>, tk_wait := None\<rparr>"
  let ?m = "release_pending (store s)"
  have g: "guarded (tk_locals tk)"
    using I(8) [OF tk(1)] tk(2) by (cases w) (simp add: task_ok_def)
  note cnt = task_counts [OF I(3), of i "tk_locals tk" "tk_key tk"]
  have ok: "task_ok capacity (owed s) ?m tk'" if "hm_get (hm_put i ?tk (tasks s)) j = Some tk'" for j tk'
    using that I(3) task_ok_announced [OF announced_release_pending I(8) [of j tk']]
    by (auto simp: map_simps task_ok_def split: if_splits)
  have W: "waiters_ok (\<lambda>k. pins k (hm_put i ?tk (tasks s))) ?m"
    using I(7) cnt(1) tk(1) by (auto simp: waiters_ok_def task_counts_put [OF I(3)])
  have G: "guards (tasks s) = Suc (guards (hm_put i ?tk (tasks s)))"
    using cnt(2) g tk(1) by (auto simp: task_counts_put [OF I(3)])
  have "tokens_ok (used_tokens s) ?m" using tokens_ok_sub [OF I(9), of ?m] by auto
  with I W G ok g hm.len_put_old [OF I(3) tk(1)] show ?thesis
    unfolding dedup_inv_def by (auto simp: map_simps)
qed

lemma commit_inv:
  assumes inv: "dedup_inv capacity s"
  shows "dedup_inv capacity (s\<lparr>store := snd (memory_commit c (store s))\<rparr>)"
proof -
  note I = dedup_invD [OF inv]
  let ?m = "snd (memory_commit c (store s))"
  have "task_ok capacity (owed s) ?m tk" if "hm_get (tasks s) i = Some tk" for i tk
    using task_ok_announced [OF announced_commit [OF I(1)]] I(8) [OF that] by blast
  moreover have "waiters ?m = waiters (store s)" "pending_claims ?m = pending_claims (store s)"
    by (cases rule: memory_commit_cases [of "store s" c]; auto)+
  moreover have "tokens_ok (used_tokens s) ?m"
  proof (rule tokens_ok_sub [OF I(9)])
    fix k e'
    assume "hm_get (entries ?m) k = Some e'"
    then show "\<exists>e. hm_get (entries (store s)) k = Some e \<and> entry_token e = entry_token e'"
      using memory_wfD(1) [OF I(1)]
      by (cases rule: memory_commit_cases [of "store s" c]) (auto simp: map_simps split: if_splits)
  qed
  ultimately show ?thesis
    using I memory_commit_wf [OF I(1), of c] waiters_ok_cong [of ?m "store s"]
    unfolding dedup_inv_def by auto
qed

lemma release_inv:
  assumes inv: "dedup_inv capacity s" and rel: "release_locked c (store s) = (r, m)"
  shows "dedup_inv capacity
    (s\<lparr>store := m, owed := owed s @ (case r of Inl _ \<Rightarrow> [] | Inr cs \<Rightarrow> cs)\<rparr>)"
proof -
  note I = dedup_invD [OF inv]
  let ?cs = "owed s @ (case r of Inl _ \<Rightarrow> [] | Inr cs \<Rightarrow> cs)"
  have same: "waiters m = waiters (store s)" "pending_claims m = pending_claims (store s)"
    "evictable m = evictable (store s)" "signals m = signals (store s)"
    using rel by (cases rule: release_locked_cases [of "store s" c]; auto)+
  have sub: "hm_get (entries m) k = Some e \<Longrightarrow> hm_get (entries (store s)) k = Some e" for k e
    using rel memory_wfD(1) [OF I(1)]
    by (cases rule: release_locked_cases [of "store s" c]) (auto simp: map_simps split: if_splits)
  have "task_ok capacity ?cs m tk" if "hm_get (tasks s) i = Some tk" for i tk
  proof (cases rule: release_locked_cases [of "store s" c])
    case Freed
    with rel I(8) [OF that] memory_wfD(1) [OF I(1)] show ?thesis
      by (auto simp: task_ok_def blocked_def map_simps split: option.splits watch_id.splits)
  qed (use rel I(8) [OF that] in auto)
  moreover have "tokens_ok (used_tokens s) m"
    using tokens_ok_sub [OF I(9), of m] sub by blast
  ultimately show ?thesis
    using I release_locked_wf [OF I(1) rel] same waiters_ok_cong [of m "store s"]
    unfolding dedup_inv_def by auto
qed

lemma send_inv:
  assumes inv: "dedup_inv capacity s" and ow: "owed s = cs @ c # cs'"
  shows "dedup_inv capacity (s\<lparr>store := signal c (store s), owed := cs @ cs'\<rparr>)"
proof -
  note I = dedup_invD [OF inv]
  have "task_ok capacity (cs @ cs') (signal c (store s)) tk" if "hm_get (tasks s) i = Some tk" for i tk
    using I(8) [OF that] ow
    by (auto simp: task_ok_def blocked_def split: option.splits watch_id.splits if_splits)
  moreover have "tokens_ok (used_tokens s) (signal c (store s))"
    using tokens_ok_sub [OF I(9), of "signal c (store s)"] by auto
  ultimately show ?thesis
    using I waiters_ok_cong [of "signal c (store s)" "store s"]
    unfolding dedup_inv_def by auto
qed

lemma dedup_step_inv: "dedup_step capacity s s' \<Longrightarrow> dedup_inv capacity s \<Longrightarrow> dedup_inv capacity s'"
proof (induction rule: dedup_step.induct)
  case (Wake s i tk c seen t)
  obtain r l' m' where "claim_poll capacity t (tk_key tk) (tk_locals tk) (store s) = (r, l', m')"
    by (cases "claim_poll capacity t (tk_key tk) (tk_locals tk) (store s)")
  with Wake settle_inv [of capacity s t i "tk_locals tk" "tk_key tk"] show ?case by auto
qed (simp_all add: start_inv cancel_inv task_gone_inv commit_inv release_inv send_inv)

lemma dedup_reachable_inv: "dedup_reachable capacity s \<Longrightarrow> dedup_inv capacity s"
  by (induction rule: dedup_reachable.induct) (auto intro: dedup_inv_init dedup_step_inv)

section \<open>Properties of every reachable state\<close>

text \<open>A run used by the witnesses: one event claimed by a first future, awaited by a second.\<close>

definition demo_key :: dedup_key where
  "demo_key = \<lparr>dk_adapter = lit ''qq'', dk_event = lit ''e1''\<rparr>"

definition demo_owner :: dedup_sys where
  "demo_owner = settle 0 demo_key 10 (claim_start 1 10 demo_key (store dedup_init)) dedup_init"

definition demo_waiting :: dedup_sys where
  "demo_waiting = settle 1 demo_key 11 (claim_start 1 11 demo_key (store demo_owner)) demo_owner"

definition demo_committed :: dedup_sys where
  "demo_committed = demo_waiting\<lparr>store :=
     snd (memory_commit \<lparr>claim_key = demo_key, claim_token = 10\<rparr> (store demo_waiting))\<rparr>"

lemma demo_key_ok: "dedup_key_ok demo_key"
  by (simp add: dedup_key_ok_def demo_key_def utf8_width_def max_dedup_key_bytes_def)

lemma demo_owner_eq:
  "demo_owner = \<lparr>store = \<lparr>entries = [(demo_key, InFlight 10)], waiters = [], pending_claims = 0,
      evictable = [], signals = (\<lambda>_. 0)\<rparr>, tasks = [], owed = [], used_tokens = {10}\<rparr>"
  by (simp add: demo_owner_def demo_key_ok claim_start_def claim_poll_def dedup_init_def
      empty_memory_def evict_committed_def release_locals_def no_locals_def settle_def hm_eval)

lemma demo_waiting_eq:
  "demo_waiting = \<lparr>store = \<lparr>entries = [(demo_key, InFlight 10)], waiters = [(demo_key, 1)],
      pending_claims = 1, evictable = [], signals = (\<lambda>_. 0)\<rparr>,
      tasks = [(1, \<lparr>tk_key = demo_key, tk_locals = \<lparr>guarded = True, pinned = True\<rparr>,
                    tk_wait = Some (Key_Changed 10, 0)\<rparr>)],
      owed = [], used_tokens = {10}\<rparr>"
  by (simp add: demo_waiting_def demo_owner_eq demo_key_ok claim_start_def claim_poll_def
      admit_pending_claim_def pin_waiter_def no_locals_def settle_def usize_sat_add_def
      usize_max_def hm_eval)

lemma demo_reachable:
  "dedup_reachable 1 demo_owner" "dedup_reachable 1 demo_waiting" "dedup_reachable 1 demo_committed"
proof -
  have "dedup_step 1 dedup_init demo_owner"
    unfolding demo_owner_def by (rule Start) (simp_all add: dedup_init_def hm_eval usize_max_def)
  with Init show o: "dedup_reachable 1 demo_owner" by (rule Step)
  have "dedup_step 1 demo_owner demo_waiting"
    unfolding demo_waiting_def by (rule Start) (simp_all add: demo_owner_eq hm_eval usize_max_def)
  with o show w: "dedup_reachable 1 demo_waiting" by (rule Step)
  have "dedup_step 1 demo_waiting demo_committed"
    unfolding demo_committed_def by (rule Commit)
  with w show "dedup_reachable 1 demo_committed" by (rule Step)
qed

text \<open>In every reachable state the store is bounded: at most \<open>capacity\<close> entries, at most
  \<open>capacity\<close> futures admitted to wait, the pending counter is exactly the number of futures that
  hold a guard, and each key's waiter count is exactly the number of futures that pin it.\<close>

theorem dedup_store_bounded:
  assumes "dedup_reachable capacity s"
  shows "hm_len (entries (store s)) \<le> capacity \<and>
    pending_claims (store s) = guards (tasks s) \<and> pending_claims (store s) \<le> capacity \<and>
    hm_get (waiters (store s)) k = (if pins k (tasks s) = 0 then None else Some (pins k (tasks s)))"
  using dedup_invD [OF dedup_reachable_inv [OF assms]] by (auto simp: waiters_ok_def)

theorem dedup_store_bounded_witness:
  "hm_len (entries (store demo_waiting)) \<le> 1 \<and>
   pending_claims (store demo_waiting) = guards (tasks demo_waiting) \<and>
   pending_claims (store demo_waiting) \<le> 1 \<and> hm_get (waiters (store demo_waiting)) demo_key = Some 1"
  using dedup_store_bounded [OF demo_reachable(2), of demo_key]
  by (simp add: demo_waiting_eq hm_eval pins_def hm_count_def)

text \<open>[C2] No wake-up is lost: in every reachable state, a future that waits, that has seen every
  send on its channel and to which no send is still owed, would only wait again if it were polled.
  (A future whose condition has been met has been or is about to be notified.)\<close>

theorem dedup_no_lost_wakeup:
  assumes "dedup_reachable capacity s" "hm_get (tasks s) i = Some tk"
    and "tk_wait tk = Some (c, signals (store s) c)" "c \<notin> set (owed s)"
  shows "\<exists>c' l' m'. claim_poll capacity t (tk_key tk) (tk_locals tk) (store s) =
    (Claim_Wait c', l', m')"
proof -
  note I = dedup_invD [OF dedup_reachable_inv [OF assms(1)]]
  have g: "guarded (tk_locals tk)" and b: "blocked capacity (store s) (tk_key tk) c"
    using I(8) [OF assms(2)] assms(3,4) by (auto simp: task_ok_def)
  show ?thesis
  proof (cases c)
    case (Key_Changed u)
    with b g show ?thesis by (simp add: claim_poll_def admit_pending_claim_def)
  next
    case Capacity_Changed
    with b have "evict_committed capacity (store s) = store s"
      using evict_committed_spec(8) [OF I(1)] by simp
    with b g Capacity_Changed show ?thesis
      by (auto simp: claim_poll_def admit_pending_claim_def split: option.splits memory_entry.splits)
  qed
qed

theorem dedup_no_lost_wakeup_witness:
  "\<exists>c' l' m'. claim_poll 1 12 demo_key \<lparr>guarded = True, pinned = True\<rparr> (store demo_waiting) =
     (Claim_Wait c', l', m')"
proof -
  let ?tk = "\<lparr>tk_key = demo_key, tk_locals = \<lparr>guarded = True, pinned = True\<rparr>,
    tk_wait = Some (Key_Changed 10, 0)\<rparr>"
  have "hm_get (tasks demo_waiting) 1 = Some ?tk"
    "tk_wait ?tk = Some (Key_Changed 10, signals (store demo_waiting) (Key_Changed 10))"
    "Key_Changed 10 \<notin> set (owed demo_waiting)"
    by (simp_all add: demo_waiting_eq hm_eval)
  from dedup_no_lost_wakeup [OF demo_reachable(2) this, of 12] show ?thesis by simp
qed

text \<open>Ownership is exclusive: whatever step is taken in a reachable state, a claim in flight
  stays in flight unless the step is the commit of exactly that claim or the release of exactly
  that claim. No other claim, eviction, cancellation, or forged or stale token can end it.\<close>

theorem dedup_ownership_exclusive:
  assumes "dedup_reachable capacity s" "entry_at (store s) k = Some (InFlight u)"
    and "dedup_step capacity s s'"
  shows "entry_at (store s') k = Some (InFlight u) \<or>
    entry_at (store s') k = Some (Committed u) \<and>
      store s' = snd (memory_commit \<lparr>claim_key = k, claim_token = u\<rparr> (store s)) \<or>
    entry_at (store s') k = None \<and>
      (\<exists>cs. release_locked \<lparr>claim_key = k, claim_token = u\<rparr> (store s) = (Inr cs, store s'))"
  using assms(3)
proof cases
  note I = dedup_invD [OF dedup_reachable_inv [OF assms(1)]]
  have poll: "entry_at (store (settle i k' t (claim_poll capacity t k' l (store s)) s)) k =
      Some (InFlight u)" for i k' t l
  proof -
    obtain r l' m' where p: "claim_poll capacity t k' l (store s) = (r, l', m')"
      by (cases "claim_poll capacity t k' l (store s)")
    have "store (settle i k' t (r, l', m') s) = m'" by (cases r) (simp_all add: settle_def)
    with claim_poll_status [OF I(1) p, of k] assms(2) p show ?thesis by auto
  qed
  {
    case (Start i t k')
    with poll [of i k' t no_locals] assms(2) show ?thesis
      by (auto simp: claim_start_def settle_def split: if_splits)
  next
    case (Wake i tk c seen t)
    with poll show ?thesis by auto
  next
    case (Commit c)
    show ?thesis
    proof (cases rule: memory_commit_cases [of "store s" c])
      case (Fresh m)
      with Commit assms(2) memory_wfD(1) [OF I(1)] show ?thesis
        by (cases c) (auto simp: entry_at_def map_simps)
    qed (use Commit assms(2) in auto)
  next
    case (Release c r m)
    show ?thesis
    proof (cases rule: release_locked_cases [of "store s" c])
      case Freed
      with Release assms(2) memory_wfD(1) [OF I(1)] show ?thesis
        by (cases c) (auto simp: entry_at_def map_simps)
    qed (use Release assms(2) in auto)
  }
qed (use assms(2) in \<open>auto simp: entry_at_def\<close>)

theorem dedup_ownership_exclusive_witness:
  "entry_at (store demo_owner) demo_key = Some (InFlight 10) \<and>
   entry_at (store demo_waiting) demo_key = Some (InFlight 10)"
proof -
  have step: "dedup_step 1 demo_owner demo_waiting"
    unfolding demo_waiting_def by (rule Start) (simp_all add: demo_owner_eq hm_eval usize_max_def)
  have own: "entry_at (store demo_owner) demo_key = Some (InFlight 10)"
    by (simp add: demo_owner_eq entry_at_def hm_eval)
  from dedup_ownership_exclusive [OF demo_reachable(1) own step] own show ?thesis
    by (auto simp: demo_waiting_eq entry_at_def hm_eval)
qed

text \<open>A committed key stays in the store as long as a waiting duplicate pins it: whatever step
  is taken in a reachable state, the key is still committed under the same token afterwards, so
  every duplicate that waited for the owner is answered as a duplicate, never handed the event.\<close>

theorem dedup_pinned_commit_retained:
  assumes "dedup_reachable capacity s" "entry_at (store s) k = Some (Committed u)"
    and "0 < pins k (tasks s)" "dedup_step capacity s s'"
  shows "entry_at (store s') k = Some (Committed u) \<and>
    fst (claim_poll capacity t k l (store s')) = Claim_Done (Inr None)"
proof -
  note I = dedup_invD [OF dedup_reachable_inv [OF assms(1)]]
  have pinned_k: "hm_get (waiters (store s)) k \<noteq> None"
    using I(7) assms(3) by (auto simp: waiters_ok_def)
  have poll: "entry_at (store (settle i k' t (claim_poll capacity t k' l (store s)) s)) k =
      Some (Committed u)" for i k' t l
  proof -
    obtain r l' m' where p: "claim_poll capacity t k' l (store s) = (r, l', m')"
      by (cases "claim_poll capacity t k' l (store s)")
    have "entry_at m' k = Some (Committed u)"
    proof (cases rule: claim_poll_cases [of "store s" k' capacity t l])
      note ev = evict_committed_spec [OF I(1), of capacity]
      {
        case (Owned s0)
        with p ev(7) [of k] pinned_k assms(2) memory_wfD(1) [OF ev(1)] show ?thesis
          by (auto simp: entry_at_def map_simps)
      next
        case (Wait_Capacity s0)
        with p ev(7) [of k] pinned_k assms(2) show ?thesis by (auto simp: entry_at_def)
      next
        case (Refused e s0)
        with p ev(7) [of k] pinned_k assms(2) show ?thesis by (auto simp: entry_at_def)
      }
    qed (use p assms(2) in \<open>auto simp: entry_at_def\<close>)
    moreover have "store (settle i k' t (r, l', m') s) = m'" by (cases r) (simp_all add: settle_def)
    ultimately show ?thesis by (simp add: p)
  qed
  from assms(4) have "entry_at (store s') k = Some (Committed u)"
  proof cases
    case (Start i t k')
    with poll [of i k' t no_locals] assms(2) show ?thesis
      by (auto simp: claim_start_def settle_def split: if_splits)
  next
    case (Commit c)
    show ?thesis
      by (cases rule: memory_commit_cases [of "store s" c])
         (use Commit assms(2) memory_wfD(1) [OF I(1)] in \<open>auto simp: entry_at_def map_simps\<close>)
  next
    case (Release c r m)
    show ?thesis
      by (cases rule: release_locked_cases [of "store s" c])
         (use Release assms(2) memory_wfD(1) [OF I(1)] in \<open>auto simp: entry_at_def map_simps\<close>)
  qed (use poll assms(2) in \<open>auto simp: entry_at_def\<close>)
  then show ?thesis by (simp add: claim_poll_def entry_at_def)
qed

theorem dedup_pinned_commit_retained_witness:
  "entry_at (store (demo_committed\<lparr>store := snd (memory_commit
       \<lparr>claim_key = demo_key, claim_token = 99\<rparr> (store demo_committed))\<rparr>)) demo_key =
     Some (Committed 10)"
proof -
  have c: "entry_at (store demo_committed) demo_key = Some (Committed 10)"
    "0 < pins demo_key (tasks demo_committed)"
    by (simp_all add: demo_committed_def demo_waiting_eq memory_commit_def entry_at_def hm_eval
        pins_def hm_count_def signal_def)
  from dedup_pinned_commit_retained [OF demo_reachable(3) c Commit] show ?thesis by blast
qed

end
