(* ===== verification/EventRouter.thy ===== *)
theory EventRouter
  imports BotModel "HOL-Library.Multiset"
begin

text \<open>
  Event routes, filters and middleware (\<open>crates/bot-core/src/router.rs\<close>, the \<open>EventRouter\<close> half).
  Filters, middleware hooks and handlers are supplied by users of the crate, so they are parameters:
  functions of the context, the event and the world outside. An asynchronous hook can return, panic,
  or be dropped together with the routing future (\<open>'a async\<close>); a synchronous hook can panic. The
  model records every hook that runs in a log, and the theorems say how hooks are paired.
\<close>

section \<open>Filters, middleware, routes\<close>

datatype handler_error = Handler_Failed ustr

datatype middleware_control = Control_Continue | Control_Stop

datatype route_outcome = Outcome_Success | Outcome_Failure | Outcome_Skipped

text \<open>\<open>matches\<close> of a filter: \<open>None\<close> is a panic.\<close>

type_synonym 'j event_filter = "'j event_context \<Rightarrow> 'j event \<Rightarrow> bool option"

record ('j, 'w) event_middleware =
  mw_before :: "'j event_context \<Rightarrow> 'j event \<Rightarrow> 'w \<Rightarrow> (handler_error + middleware_control) async \<times> 'w"
  mw_after :: "'j event_context \<Rightarrow> 'j event \<Rightarrow> route_outcome \<Rightarrow> 'w \<Rightarrow> (handler_error + unit) async \<times> 'w"
  mw_failed :: "'j event_context \<Rightarrow> 'j event \<Rightarrow> 'w \<Rightarrow> 'w"
  mw_cancelled :: "'j event_context \<Rightarrow> 'j event \<Rightarrow> 'w \<Rightarrow> 'w"

text \<open>The synchronous hooks \<open>failed\<close> and \<open>cancelled\<close> give nothing back and their panics are
  swallowed, so they only change the world.\<close>

type_synonym ('j, 'w) event_handler =
  "'j event_context \<Rightarrow> 'j event \<Rightarrow> 'w \<Rightarrow> (handler_error + unit) async \<times> 'w"

record ('j, 'w) event_route =
  priority :: int
  stop_after_match :: bool
  handler :: "('j, 'w) event_handler"
  filters :: "'j event_filter list"
  middleware :: "('j, 'w) event_middleware list"

record ('j, 'w) event_router =
  router_name :: ustr
  routes :: "('j, 'w) event_route list"

definition max_event_routes :: nat where "max_event_routes = 256"
definition max_route_filters :: nat where "max_route_filters = 32"
definition max_route_middleware :: nat where "max_route_middleware = 32"

datatype router_error =
    RE_InvalidCommand ustr
  | RE_DuplicateCommand ustr
  | RE_TooManyRoutes
  | RE_TooManyRouteFilters
  | RE_TooManyRouteMiddleware
  | RE_TooManyCommands
  | RE_TooManyPrefixes
  | RE_TooManyMentions
  | RE_InvalidCommandTrigger ustr ustr

definition new_route :: "('j, 'w) event_handler \<Rightarrow> ('j, 'w) event_route" where
  "new_route h = \<lparr>priority = 0, stop_after_match = False, handler = h, filters = [], middleware = []\<rparr>"

definition route_filter ::
    "'j event_filter \<Rightarrow> ('j, 'w) event_route \<Rightarrow> router_error + ('j, 'w) event_route" where
  "route_filter f r =
     (if length (filters r) \<ge> max_route_filters then Inl RE_TooManyRouteFilters
      else Inr (r\<lparr>filters := filters r @ [f]\<rparr>))"

definition route_middleware ::
    "('j, 'w) event_middleware \<Rightarrow> ('j, 'w) event_route \<Rightarrow> router_error + ('j, 'w) event_route" where
  "route_middleware m r =
     (if length (middleware r) \<ge> max_route_middleware then Inl RE_TooManyRouteMiddleware
      else Inr (r\<lparr>middleware := middleware r @ [m]\<rparr>))"

definition new_router :: "('j, 'w) event_router" where
  "new_router = \<lparr>router_name = lit ''event-router'', routes = []\<rparr>"

text \<open>\<open>sort_by_key\<close> is a stable sort, as \<open>sort_key\<close> is.\<close>

definition add_route ::
    "('j, 'w) event_route \<Rightarrow> ('j, 'w) event_router \<Rightarrow> router_error + ('j, 'w) event_router" where
  "add_route r rt =
     (if length (routes rt) \<ge> max_event_routes then Inl RE_TooManyRoutes
      else Inr (rt\<lparr>routes := sort_key priority (routes rt @ [r])\<rparr>))"

section \<open>Running the routes\<close>

text \<open>
  The log: the hook calls, by the position of the middleware in its route. \<open>After i\<close> is an
  \<open>after\<close> hook that ran to its end (or panicked); one that was dropped half-way is followed by
  \<open>Cancelled i\<close> only.
\<close>

datatype hook_call =
    Before nat
  | After nat route_outcome
  | Failed nat
  | Cancelled nat
  | Handler_Called

type_synonym 'w run_state = "'w \<times> hook_call list"

type_synonym ('j, 'w) entered = "(nat \<times> ('j, 'w) event_middleware) list"

text \<open>How a piece of the routing future ends: with a value, or dropped.\<close>

datatype 'a outcome = Finished 'a | Cancelled_Run

fun eval_filters :: "'j event_context \<Rightarrow> 'j event \<Rightarrow> 'j event_filter list \<Rightarrow> bool option" where
  "eval_filters c e [] = Some True"
| "eval_filters c e (f # fs) =
     (case f c e of
        None \<Rightarrow> None
      | Some False \<Rightarrow> Some False
      | Some True \<Rightarrow> eval_filters c e fs)"

definition panicked :: "string \<Rightarrow> handler_error" where
  "panicked operation = Handler_Failed (lit (operation @ '' panicked''))"

text \<open>\<open>Drop\<close> of a stack of entered middleware: \<open>cancelled\<close> for each, the last entered first. The
  stack is kept with its top at the head of the list.\<close>

fun drop_entered ::
    "'j event_context \<Rightarrow> 'j event \<Rightarrow> ('j, 'w) entered \<Rightarrow> 'w run_state \<Rightarrow> 'w run_state" where
  "drop_entered c e [] s = s"
| "drop_entered c e ((i, m) # ms) (w, log) =
     drop_entered c e ms (mw_cancelled m c e w, log @ [Cancelled i])"

definition first_of :: "'a option \<Rightarrow> 'a \<Rightarrow> 'a option" where
  "first_of old new = (case old of None \<Rightarrow> Some new | Some x \<Rightarrow> Some x)"

fun run_after ::
    "'j event_context \<Rightarrow> 'j event \<Rightarrow> route_outcome \<Rightarrow> ('j, 'w) entered \<Rightarrow> handler_error option \<Rightarrow>
     'w run_state \<Rightarrow> handler_error option outcome \<times> 'w run_state" where
  "run_after c e out [] first_error s = (Finished first_error, s)"
| "run_after c e out ((i, m) # ms) first_error (w, log) =
     (case mw_after m c e out w of
        (Dropped, w') \<Rightarrow> (Cancelled_Run, drop_entered c e ((i, m) # ms) (w', log))
      | (Panicked, w') \<Rightarrow>
          run_after c e out ms (first_of first_error (panicked ''route middleware after hook''))
            (w', log @ [After i out])
      | (Ready (Inl err), w') \<Rightarrow>
          run_after c e out ms (first_of first_error err) (w', log @ [After i out])
      | (Ready (Inr _), w') \<Rightarrow>
          run_after c e out ms first_error (w', log @ [After i out]))"

text \<open>What entering the middleware of a route leads to.\<close>

datatype ('j, 'w) entry_result =
    All_Entered "('j, 'w) entered"
  | Stopped_By "('j, 'w) entered"
  | Before_Failed handler_error "('j, 'w) entered"

fun enter_middleware ::
    "'j event_context \<Rightarrow> 'j event \<Rightarrow> nat \<Rightarrow> ('j, 'w) event_middleware list \<Rightarrow> ('j, 'w) entered \<Rightarrow>
     'w run_state \<Rightarrow> ('j, 'w) entry_result outcome \<times> 'w run_state" where
  "enter_middleware c e i [] entered s = (Finished (All_Entered entered), s)"
| "enter_middleware c e i (m # ms) entered (w, log) =
     (case mw_before m c e w of
        (Dropped, w') \<Rightarrow>
          (Cancelled_Run, drop_entered c e ((i, m) # entered) (w', log @ [Before i]))
      | (Panicked, w') \<Rightarrow>
          (Finished (Before_Failed (panicked ''route middleware before hook'') entered),
           (mw_failed m c e w', log @ [Before i, Failed i]))
      | (Ready (Inl err), w') \<Rightarrow>
          (Finished (Before_Failed err entered), (mw_failed m c e w', log @ [Before i, Failed i]))
      | (Ready (Inr Control_Stop), w') \<Rightarrow>
          (Finished (Stopped_By ((i, m) # entered)), (w', log @ [Before i]))
      | (Ready (Inr Control_Continue), w') \<Rightarrow>
          enter_middleware c e (Suc i) ms ((i, m) # entered) (w', log @ [Before i]))"

text \<open>
  One iteration of the loop over the routes. \<open>Next_Route\<close> goes on, \<open>Break_Routes\<close> leaves the loop
  with \<open>Ok(())\<close>, \<open>Return_Error\<close> leaves the handler.
\<close>

datatype route_step = Next_Route | Break_Routes | Return_Error handler_error

definition after_route :: "('j, 'w) event_route \<Rightarrow> route_step" where
  "after_route r = (if stop_after_match r then Break_Routes else Next_Route)"

definition call_handler ::
    "'j event_context \<Rightarrow> 'j event \<Rightarrow> ('j, 'w) event_route \<Rightarrow> ('j, 'w) entered \<Rightarrow> 'w run_state \<Rightarrow>
     route_step outcome \<times> 'w run_state" where
  "call_handler c e r entered s =
     (let (w, log) = s; log' = log @ [Handler_Called]
      in case handler r c e w of
           (Dropped, w') \<Rightarrow> (Cancelled_Run, drop_entered c e entered (w', log'))
         | (res, w') \<Rightarrow>
             (let result = (case res of Ready x \<Rightarrow> x | _ \<Rightarrow> Inl (panicked ''route handler''));
                  out = (case result of Inr _ \<Rightarrow> Outcome_Success | Inl _ \<Rightarrow> Outcome_Failure)
              in case run_after c e out entered None (w', log') of
                   (Cancelled_Run, s') \<Rightarrow> (Cancelled_Run, s')
                 | (Finished mw_error, s') \<Rightarrow>
                     (Finished
                       (case result of
                          Inl err \<Rightarrow> Return_Error err
                        | Inr _ \<Rightarrow>
                            (case mw_error of
                               Some err \<Rightarrow> Return_Error err
                             | None \<Rightarrow> after_route r)), s')))"

definition run_route ::
    "'j event_context \<Rightarrow> 'j event \<Rightarrow> ('j, 'w) event_route \<Rightarrow> 'w run_state \<Rightarrow>
     route_step outcome \<times> 'w run_state" where
  "run_route c e r s =
     (case eval_filters c e (filters r) of
        None \<Rightarrow> (Finished (Return_Error (panicked ''route filter'')), s)
      | Some False \<Rightarrow> (Finished Next_Route, s)
      | Some True \<Rightarrow>
          (case enter_middleware c e 0 (middleware r) [] s of
             (Cancelled_Run, s') \<Rightarrow> (Cancelled_Run, s')
           | (Finished (Before_Failed err entered), s') \<Rightarrow>
               (case run_after c e Outcome_Failure entered None s' of
                  (Cancelled_Run, s'') \<Rightarrow> (Cancelled_Run, s'')
                | (Finished _, s'') \<Rightarrow> (Finished (Return_Error err), s''))
           | (Finished (Stopped_By entered), s') \<Rightarrow>
               (case run_after c e Outcome_Skipped entered None s' of
                  (Cancelled_Run, s'') \<Rightarrow> (Cancelled_Run, s'')
                | (Finished (Some err), s'') \<Rightarrow> (Finished (Return_Error err), s'')
                | (Finished None, s'') \<Rightarrow> (Finished (after_route r), s''))
           | (Finished (All_Entered entered), s') \<Rightarrow> call_handler c e r entered s'))"

fun run_routes ::
    "'j event_context \<Rightarrow> 'j event \<Rightarrow> ('j, 'w) event_route list \<Rightarrow> 'w run_state \<Rightarrow>
     (handler_error + unit) outcome \<times> 'w run_state" where
  "run_routes c e [] s = (Finished (Inr ()), s)"
| "run_routes c e (r # rs) s =
     (case run_route c e r s of
        (Cancelled_Run, s') \<Rightarrow> (Cancelled_Run, s')
      | (Finished Next_Route, s') \<Rightarrow> run_routes c e rs s'
      | (Finished Break_Routes, s') \<Rightarrow> (Finished (Inr ()), s')
      | (Finished (Return_Error err), s') \<Rightarrow> (Finished (Inl err), s'))"

definition router_handle ::
    "('j, 'w) event_router \<Rightarrow> 'j event_context \<Rightarrow> 'j event \<Rightarrow> 'w \<Rightarrow>
     (handler_error + unit) outcome \<times> 'w run_state" where
  "router_handle rt c e w = run_routes c e (routes rt) (w, [])"

section \<open>Built-in filters\<close>

datatype event_kind = Kind_Message | Kind_Notice | Kind_Request | Kind_Lifecycle | Kind_Platform

fun event_kind_matches :: "event_kind \<Rightarrow> 'j event \<Rightarrow> bool" where
  "event_kind_matches Kind_Message (Event_Message _) = True"
| "event_kind_matches Kind_Notice (Event_Notice _) = True"
| "event_kind_matches Kind_Request (Event_Request _) = True"
| "event_kind_matches Kind_Lifecycle (Event_Lifecycle _) = True"
| "event_kind_matches Kind_Platform (Event_Platform _ _) = True"
| "event_kind_matches _ _ = False"

fun message_scope_matches :: "message_scope \<Rightarrow> 'j event \<Rightarrow> bool" where
  "message_scope_matches sc (Event_Message m) = (message_scope_of m = sc)"
| "message_scope_matches sc _ = False"

section \<open>Every entered middleware is left exactly once, last entered first\<close>

text \<open>
  Reading a log as brackets: \<open>Before i\<close> opens, and \<open>After i\<close>, \<open>Failed i\<close> or \<open>Cancelled i\<close> closes
  the bracket that was opened last. \<open>None\<close> is a hook out of place.
\<close>

fun leave :: "nat \<Rightarrow> nat list \<Rightarrow> nat list option" where
  "leave i [] = None"
| "leave i (j # st) = (if i = j then Some st else None)"

fun unwind :: "nat list \<Rightarrow> hook_call list \<Rightarrow> nat list option" where
  "unwind st [] = Some st"
| "unwind st (Before i # l) = unwind (i # st) l"
| "unwind st (After i _ # l) = Option.bind (leave i st) (\<lambda>st'. unwind st' l)"
| "unwind st (Failed i # l) = Option.bind (leave i st) (\<lambda>st'. unwind st' l)"
| "unwind st (Cancelled i # l) = Option.bind (leave i st) (\<lambda>st'. unwind st' l)"
| "unwind st (Handler_Called # l) = unwind st l"

lemma unwind_append: "unwind st (a @ b) = Option.bind (unwind st a) (\<lambda>st'. unwind st' b)"
  by (induction st a rule: unwind.induct) (auto split: bind_split)

text \<open>\<open>s'\<close> extends the log of \<open>s\<close> by calls that take the stack \<open>st\<close> to \<open>st'\<close>.\<close>

definition moves :: "nat list \<Rightarrow> nat list \<Rightarrow> 'w run_state \<Rightarrow> 'w run_state \<Rightarrow> bool" where
  "moves st st' s s' \<longleftrightarrow> (\<exists>seg. snd s' = snd s @ seg \<and> unwind st seg = Some st')"

lemma moves_refl [simp]: "moves st st s s"
  by (simp add: moves_def)

lemma moves_trans: "moves st st' s s' \<Longrightarrow> moves st' st'' s' s'' \<Longrightarrow> moves st st'' s s''"
  unfolding moves_def by (metis append.assoc bind.bind_lunit unwind_append)

lemma moves_step: "unwind st [h] = Some st' \<Longrightarrow> moves st st' (w, log) (w', log @ [h])"
  by (simp add: moves_def)

lemma moves_steps: "unwind st hs = Some st' \<Longrightarrow> moves st st' (w, log) (w', log @ hs)"
  by (simp add: moves_def)

lemma drop_entered_moves: "moves (map fst ms @ st) st s (drop_entered c e ms s)"
proof (induction c e ms s rule: drop_entered.induct)
  case (2 c e i m ms w log)
  show ?case
    using moves_trans [OF moves_step [of "i # map fst ms @ st" "Cancelled i" "map fst ms @ st"] "2.IH"]
    by simp
qed simp

lemma run_after_moves: "moves (map fst ms @ st) st s (snd (run_after c e out ms err s))"
proof (induction ms arbitrary: err s)
  case (Cons im ms)
  obtain i m where im: "im = (i, m)" by (cases im)
  obtain w log where s: "s = (w, log)" by (cases s)
  have step: "moves (i # map fst ms @ st) (map fst ms @ st) s (w', log @ [After i out])" for w'
    by (simp add: moves_def s)
  note go = moves_trans [OF step Cons.IH]
  obtain a w' where a: "mw_after m c e out w = (a, w')" by (cases "mw_after m c e out w")
  show ?case
  proof (cases a)
    case (Ready x)
    with a go show ?thesis by (cases x) (simp_all add: im s)
  next
    case Panicked
    with a go show ?thesis by (simp add: im s)
  next
    case Dropped
    have "moves (i # map fst ms @ st) st (w', log) (drop_entered c e ((i, m) # ms) (w', log))"
      using drop_entered_moves [of "(i, m) # ms" st "(w', log)" c e] by simp
    with Dropped a show ?thesis by (simp add: moves_def im s)
  qed
qed simp

fun stack_of :: "('j, 'w) entry_result outcome \<Rightarrow> ('j, 'w) entered" where
  "stack_of (Finished (All_Entered ms)) = ms"
| "stack_of (Finished (Stopped_By ms)) = ms"
| "stack_of (Finished (Before_Failed _ ms)) = ms"
| "stack_of Cancelled_Run = []"

lemma enter_middleware_moves:
  "moves (map fst entered @ st)
     (map fst (stack_of (fst (enter_middleware c e i ms entered s))) @ st) s
     (snd (enter_middleware c e i ms entered s))"
proof (induction ms arbitrary: i entered s)
  case (Cons m ms)
  obtain w log where s: "s = (w, log)" by (cases s)
  have step: "moves (map fst entered @ st) (i # map fst entered @ st) s (w', log @ [Before i])" for w'
    by (simp add: moves_def s)
  have fail: "moves (map fst entered @ st) (map fst entered @ st) s (w', log @ [Before i, Failed i])"
    for w' by (simp add: moves_def s)
  obtain b w' where b: "mw_before m c e w = (b, w')" by (cases "mw_before m c e w")
  show ?case
  proof (cases b)
    case (Ready x)
    show ?thesis
    proof (cases x)
      case (Inl err)
      with Ready b fail show ?thesis by (simp add: s)
    next
      case (Inr ctl)
      with Ready b step moves_trans [OF step Cons.IH [of "(i, m) # entered" "Suc i", simplified]]
      show ?thesis by (cases ctl) (simp_all add: s)
    qed
  next
    case Panicked
    with b fail show ?thesis by (simp add: s)
  next
    case Dropped
    have "moves (i # map fst entered @ st) st (w', log @ [Before i])
        (drop_entered c e ((i, m) # entered) (w', log @ [Before i]))"
      using drop_entered_moves [of "(i, m) # entered" st "(w', log @ [Before i])" c e]
      by (simp del: drop_entered.simps)
    from moves_trans [OF step this] Dropped b show ?thesis by (simp del: drop_entered.simps add: s)
  qed
qed simp

lemma call_handler_moves:
  "moves (map fst entered @ st) st s (snd (call_handler c e r entered s))"
proof -
  obtain w log where s: "s = (w, log)" by (cases s)
  obtain res w' where h: "handler r c e w = (res, w')" by (cases "handler r c e w")
  let ?s1 = "(w', log @ [Handler_Called])"
  have hc: "moves (map fst entered @ st) (map fst entered @ st) s ?s1"
    by (simp add: s moves_def)
  have "(\<exists>out. snd (call_handler c e r entered s) = snd (run_after c e out entered None ?s1)) \<or>
      snd (call_handler c e r entered s) = drop_entered c e entered ?s1"
    by (cases res)
       (auto simp: call_handler_def s h Let_def case_prod_beta split: outcome.split)
  with drop_entered_moves run_after_moves
  have "moves (map fst entered @ st) st ?s1 (snd (call_handler c e r entered s))"
    by metis
  with hc show ?thesis by (rule moves_trans)
qed

lemma run_route_moves: "moves [] [] s (snd (run_route c e r s))"
proof (cases "eval_filters c e (filters r) = Some True")
  case True
  let ?en = "enter_middleware c e 0 (middleware r) [] s"
  let ?st = "stack_of (fst ?en)"
  have "(\<exists>out. snd (run_route c e r s) = snd (run_after c e out ?st None (snd ?en))) \<or>
      snd (run_route c e r s) = snd (call_handler c e r ?st (snd ?en)) \<or>
      snd (run_route c e r s) = snd ?en \<and> ?st = []"
    using True
    by (cases ?en)
       (auto simp: run_route_def case_prod_beta
         split: outcome.split entry_result.split option.split)
  then have "moves (map fst ?st @ []) [] (snd ?en) (snd (run_route c e r s))"
    using run_after_moves [of ?st "[]"] call_handler_moves [of ?st "[]"] by (metis append.right_neutral moves_refl list.map(1))
  with enter_middleware_moves [of "[]" "[]" c e 0 "middleware r" s] show ?thesis
    using moves_trans by fastforce
next
  case False
  then show ?thesis by (auto simp: run_route_def split: option.split bool.split)
qed

lemma run_routes_moves: "moves [] [] s (snd (run_routes c e rs s))"
proof (induction c e rs s rule: run_routes.induct)
  case (2 c e r rs s)
  have "moves [] [] s (snd (run_route c e r s))" by (rule run_route_moves)
  with "2.IH" show ?case
    by (cases "run_route c e r s")
       (auto split: outcome.split route_step.split intro: moves_trans)
qed simp

text \<open>[C4] Whatever the filters, hooks and handlers do (succeed, fail, panic, stop the route, or
  the whole future being dropped in the middle of any await), every middleware whose \<open>before\<close> hook
  was started is left exactly once, by its completed \<open>after\<close>, its \<open>failed\<close> or its \<open>cancelled\<close> hook,
  in the reverse order of entry: the log of the run is a balanced bracketing.\<close>

theorem middleware_balanced: "unwind [] (snd (snd (router_handle rt c e w))) = Some []"
  using run_routes_moves [of "(w, [])" c e "routes rt"] by (auto simp: router_handle_def moves_def)

section \<open>The hook protocol of a route\<close>

lemma run_after_log:
  "run_after c e out ms err (w, log) = (Finished x, w', log') \<Longrightarrow>
   log' = log @ map (\<lambda>p. After (fst p) out) ms"
proof (induction ms arbitrary: err w log)
  case (Cons im ms)
  obtain i m where im: "im = (i, m)" by (cases im)
  obtain a w1 where a: "mw_after m c e out w = (a, w1)" by (cases "mw_after m c e out w")
  obtain err' where "run_after c e out ms err' (w1, log @ [After i out]) = (Finished x, w', log')"
    using Cons.prems a by (auto simp: im split: async.splits sum.splits)
  from Cons.IH [OF this] show ?case by (simp add: im)
qed simp

definition entry_log :: "nat \<Rightarrow> nat \<Rightarrow> ('j, 'w) entered \<Rightarrow> ('j, 'w) entry_result \<Rightarrow>
    hook_call list \<Rightarrow> bool" where
  "entry_log i n entered res seg \<longleftrightarrow>
     (case res of
        All_Entered st \<Rightarrow>
          map fst st = rev [i..<i + n] @ map fst entered \<and> seg = map Before [i..<i + n]
      | Stopped_By st \<Rightarrow> (\<exists>m<n. map fst st = rev [i..<Suc (i + m)] @ map fst entered \<and>
          seg = map Before [i..<Suc (i + m)])
      | Before_Failed _ st \<Rightarrow> (\<exists>m<n. map fst st = rev [i..<i + m] @ map fst entered \<and>
          seg = map Before [i..<Suc (i + m)] @ [Failed (i + m)]))"

lemma entry_log_Cons:
  assumes "entry_log (Suc i) n ((i, m) # entered) res seg"
  shows "entry_log i (Suc n) entered res (Before i # seg)"
proof -
  have up: "[i..<i + Suc k] = i # [Suc i..<Suc i + k]" for k
    by (simp add: upt_conv_Cons del: upt_Suc)
  show ?thesis
  proof (cases res)
    case (All_Entered st)
    with assms show ?thesis by (simp add: entry_log_def up del: upt_Suc add_Suc add_Suc_right)
  next
    case (Stopped_By st)
    with assms obtain k where "k < n" "map fst st = rev [Suc i..<Suc (Suc i + k)] @ i # map fst entered"
        "seg = map Before [Suc i..<Suc (Suc i + k)]"
      by (auto simp: entry_log_def simp del: upt_Suc)
    moreover have "[i..<Suc (i + Suc k)] = i # [Suc i..<Suc (Suc i + k)]"
      using up [of "Suc k"] by (simp del: upt_Suc)
    ultimately show ?thesis
      unfolding Stopped_By entry_log_def entry_result.simps
      by (intro exI [of _ "Suc k"]) (simp del: upt_Suc)
  next
    case (Before_Failed err st)
    with assms obtain k where "k < n" "map fst st = rev [Suc i..<Suc i + k] @ i # map fst entered"
        "seg = map Before [Suc i..<Suc (Suc i + k)] @ [Failed (Suc i + k)]"
      by (auto simp: entry_log_def simp del: upt_Suc)
    moreover have "[i..<Suc (i + Suc k)] = i # [Suc i..<Suc (Suc i + k)]"
      "[i..<i + Suc k] = i # [Suc i..<Suc i + k]"
      using up [of "Suc k"] up [of k] by (simp_all del: upt_Suc)
    ultimately show ?thesis
      unfolding Before_Failed entry_log_def entry_result.simps
      by (intro exI [of _ "Suc k"]) (simp del: upt_Suc)
  qed
qed

lemma enter_middleware_log:
  "enter_middleware c e i ms entered (w, log) = (Finished res, w', log') \<Longrightarrow>
   \<exists>seg. log' = log @ seg \<and> entry_log i (length ms) entered res seg"
proof (induction ms arbitrary: i entered w log)
  case Nil
  then show ?case by (auto simp: entry_log_def)
next
  case (Cons m ms)
  obtain b w1 where b: "mw_before m c e w = (b, w1)" by (cases "mw_before m c e w")
  consider (go) "enter_middleware c e (Suc i) ms ((i, m) # entered) (w1, log @ [Before i]) =
        (Finished res, w', log')"
    | (stop) "res = Stopped_By ((i, m) # entered)" "log' = log @ [Before i]"
    | (fail) err where "res = Before_Failed err entered" "log' = log @ [Before i, Failed i]"
    using Cons.prems b by (auto split: async.splits sum.splits middleware_control.splits)
  then show ?case
  proof cases
    case go
    from Cons.IH [OF this] obtain seg where
      "log' = log @ Before i # seg" "entry_log (Suc i) (length ms) ((i, m) # entered) res seg" by auto
    with entry_log_Cons show ?thesis by fastforce
  qed (auto simp: entry_log_def intro!: exI [of _ "0::nat"])
qed

text \<open>The hook protocol of a matched route that runs to its end is one of three: all
  middleware entered in order, the handler called once, all \<open>after\<close> hooks in reverse order with one
  outcome, which is \<open>Success\<close> whenever the route does not return an error; or a \<open>before\<close> hook stops
  the route: the handler is not called and everything entered, the stopping hook included, is left
  with \<open>Skipped\<close>; or a \<open>before\<close> hook fails: its own \<open>failed\<close> hook runs, everything entered before it
  is left with \<open>Failure\<close>, and the route returns an error.\<close>

theorem route_hook_protocol:
  assumes "eval_filters c e (filters r) = Some True"
    and "run_route c e r (w, log) = (Finished x, w', log')"
  shows "let n = length (middleware r) in
    (\<exists>out \<in> {Outcome_Success, Outcome_Failure}.
       log' = log @ map Before [0..<n] @ [Handler_Called] @ map (\<lambda>i. After i out) (rev [0..<n]) \<and>
       (out = Outcome_Failure \<longrightarrow> (\<exists>err. x = Return_Error err))) \<or>
    (\<exists>m<n. log' = log @ map Before [0..<Suc m] @
       map (\<lambda>i. After i Outcome_Skipped) (rev [0..<Suc m])) \<or>
    (\<exists>m<n. log' = log @ map Before [0..<Suc m] @ [Failed m] @
       map (\<lambda>i. After i Outcome_Failure) (rev [0..<m]) \<and> (\<exists>err. x = Return_Error err))"
proof -
  let ?n = "length (middleware r)"
  obtain en w1 log1 where en: "enter_middleware c e 0 (middleware r) [] (w, log) = (en, w1, log1)"
    by (cases "enter_middleware c e 0 (middleware r) [] (w, log)")
  obtain res where res: "en = Finished res"
    using assms en by (cases en) (auto simp: run_route_def)
  obtain seg where seg: "log1 = log @ seg" "entry_log 0 ?n [] res seg"
    using enter_middleware_log [of c e 0 "middleware r" "[]" w log res w1 log1] en res by auto
  have after: "log2 = l @ map (\<lambda>i. After i out) is"
    if "run_after c e out ms None (w2, l) = (Finished y, w3, log2)" "map fst ms = is"
    for out ms w2 l y w3 log2 "is"
    using run_after_log [OF that(1)] that(2) by (auto simp: comp_def)
  show ?thesis
  proof (cases res)
    case (Before_Failed err ms)
    with assms en res obtain y where ra: "run_after c e Outcome_Failure ms None (w1, log1) = (Finished y, w', log')"
        and "x = Return_Error err"
      by (auto simp: run_route_def split: outcome.splits prod.splits)
    obtain m where m: "m < ?n" "map fst ms = rev [0..<m]"
        "seg = map Before [0..<Suc m] @ [Failed m]"
      using seg(2) Before_Failed by (auto simp: entry_log_def simp del: upt_Suc)
    have "log' = log @ map Before [0..<Suc m] @ [Failed m] @
        map (\<lambda>i. After i Outcome_Failure) (rev [0..<m])"
      using after [OF ra m(2)] seg(1) m(3) by (simp del: upt_Suc)
    with m(1) \<open>x = Return_Error err\<close> show ?thesis by (auto simp: Let_def simp del: upt_Suc)
  next
    case (Stopped_By ms)
    with assms en res obtain y where ra: "run_after c e Outcome_Skipped ms None (w1, log1) = (Finished y, w', log')"
      by (auto simp: run_route_def split: outcome.splits prod.splits option.splits)
    obtain m where m: "m < ?n" "map fst ms = rev [0..<Suc m]" "seg = map Before [0..<Suc m]"
      using seg(2) Stopped_By by (auto simp: entry_log_def simp del: upt_Suc)
    have "log' = log @ map Before [0..<Suc m] @
        map (\<lambda>i. After i Outcome_Skipped) (rev [0..<Suc m])"
      using after [OF ra m(2)] seg(1) m(3) by (simp del: upt_Suc)
    with m(1) show ?thesis by (auto simp: Let_def simp del: upt_Suc)
  next
    case (All_Entered ms)
    obtain h w2 where h: "handler r c e w1 = (h, w2)" by (cases "handler r c e w1")
    from All_Entered assms en res h obtain y out where
      ra: "run_after c e out ms None (w2, log1 @ [Handler_Called]) = (Finished y, w', log')" and
      "out = Outcome_Success \<or> out = Outcome_Failure \<and> (\<exists>err. x = Return_Error err)"
      by (cases h) (auto simp: run_route_def call_handler_def Let_def
          split: outcome.splits prod.splits option.splits sum.splits)
    have ms: "map fst ms = rev [0..<?n]" "seg = map Before [0..<?n]"
      using seg(2) All_Entered by (auto simp: entry_log_def)
    have "log' = log @ map Before [0..<?n] @ [Handler_Called] @
        map (\<lambda>i. After i out) (rev [0..<?n])"
      using after [OF ra ms(1)] seg(1) ms(2) by simp
    with \<open>out = Outcome_Success \<or> _\<close> show ?thesis by (auto simp: Let_def)
  qed
qed

text \<open>A concrete route: one middleware that lets the event pass, and a handler that succeeds.\<close>

definition demo_context :: "unit event_context" where
  "demo_context = \<lparr>ctx_adapter_id = lit ''a'', ctx_platform = lit ''p'', ctx_event_id = lit ''e'',
     ctx_occurred_at_ms = None, ctx_raw_event = (), ctx_source_message_id = None,
     ctx_reply_target = None\<rparr>"

definition demo_event :: "unit event" where
  "demo_event = Event_Platform (lit ''ready'') ()"

definition passing_middleware :: "(unit, nat) event_middleware" where
  "passing_middleware = \<lparr>mw_before = (\<lambda>c e w. (Ready (Inr Control_Continue), w + 1)),
     mw_after = (\<lambda>c e out w. (Ready (Inr ()), w + 10)), mw_failed = (\<lambda>c e w. w),
     mw_cancelled = (\<lambda>c e w. w)\<rparr>"

definition demo_route :: "(unit, nat) event_route" where
  "demo_route = \<lparr>priority = 5, stop_after_match = True, handler = (\<lambda>c e w. (Ready (Inr ()), w * 2)),
     filters = [\<lambda>c e. Some (event_kind_matches Kind_Platform e)],
     middleware = [passing_middleware, passing_middleware]\<rparr>"

lemmas demo_defs = demo_context_def demo_event_def passing_middleware_def demo_route_def

lemma demo_route_matches: "eval_filters demo_context demo_event (filters demo_route) = Some True"
  by (simp add: demo_defs)

lemma demo_route_runs:
  "run_route demo_context demo_event demo_route (0, []) =
   (Finished Break_Routes, 24,
    [Before 0, Before 1, Handler_Called, After 1 Outcome_Success, After 0 Outcome_Success])"
  by (simp add: demo_defs run_route_def call_handler_def after_route_def)

lemma route_hook_protocol_witness:
  "\<exists>out \<in> {Outcome_Success, Outcome_Failure}.
     [Before 0, Before 1, Handler_Called, After 1 Outcome_Success, After 0 Outcome_Success] =
       map Before [0..<2] @ [Handler_Called] @ map (\<lambda>i. After i out) (rev [0..<2]) \<and>
     out = Outcome_Success"
  using route_hook_protocol [OF demo_route_matches demo_route_runs]
  by (auto simp: demo_route_def Let_def numeral_2_eq_2 less_Suc_eq)

section \<open>Registering routes\<close>

fun add_routes ::
    "('j, 'w) event_route list \<Rightarrow> ('j, 'w) event_router \<Rightarrow> router_error + ('j, 'w) event_router" where
  "add_routes [] rt = Inr rt"
| "add_routes (r # rs) rt = (case add_route r rt of Inl err \<Rightarrow> Inl err | Inr rt' \<Rightarrow> add_routes rs rt')"

lemma sort_key_append_sorted: "sort_key f (sort_key f xs @ ys) = sort_key f (xs @ ys)"
proof (rule sym, rule properties_for_sort_key)
  fix k
  show "filter (\<lambda>x. f k = f x) (sort_key f (sort_key f xs @ ys)) = filter (\<lambda>x. f k = f x) (xs @ ys)"
    using sort_key_stable [of f "f k"] by (simp add: eq_commute)
qed simp_all

lemma add_routes_eq:
  "routes rt = sort_key priority ps \<Longrightarrow> length ps \<le> max_event_routes \<Longrightarrow>
   add_routes rs rt =
     (if length ps + length rs \<le> max_event_routes
      then Inr (rt\<lparr>routes := sort_key priority (ps @ rs)\<rparr>) else Inl RE_TooManyRoutes)"
proof (induction rs arbitrary: rt ps)
  case (Cons r rs)
  show ?case
  proof (cases "length ps < max_event_routes")
    case True
    have "routes (rt\<lparr>routes := sort_key priority (ps @ [r])\<rparr>) = sort_key priority (ps @ [r])" by simp
    from Cons.IH [OF this] True show ?thesis
      by (simp add: add_route_def Cons.prems(1) sort_key_append_sorted)
  qed (use Cons.prems in \<open>auto simp: add_route_def\<close>)
qed auto

text \<open>Building a router route by route, re-sorting after each one, gives the routes stably sorted
  by priority: lower values first, equal priorities in the order of registration, no route lost or
  duplicated; and the build fails exactly when there are more than \<open>MAX_EVENT_ROUTES\<close> routes.\<close>

theorem add_routes_stable_sort:
  "add_routes rs new_router =
     (if length rs \<le> max_event_routes
      then Inr (new_router\<lparr>routes := sort_key priority rs\<rparr>) else Inl RE_TooManyRoutes)"
  using add_routes_eq [of "new_router :: ('a, 'b) event_router" "[]" rs] by (simp add: new_router_def)

section \<open>Matching a stop route ends routing\<close>

lemma run_route_stops:
  "eval_filters c e (filters r) = Some True \<Longrightarrow> stop_after_match r \<Longrightarrow>
   run_route c e r s \<noteq> (Finished Next_Route, s')"
  by (auto simp: run_route_def call_handler_def after_route_def Let_def
      split: outcome.splits prod.splits entry_result.splits option.splits async.splits sum.splits)

text \<open>A matched route with \<open>stop_after_match\<close> ends the routing whatever its middleware and handler
  do: the routes registered behind it have no influence on the result, on the hooks that run and on
  the world. This holds also when a middleware stops the route before its handler.\<close>

theorem stop_route_cuts:
  assumes "eval_filters c e (filters r) = Some True" and "stop_after_match r"
  shows "run_routes c e (before @ r # behind) s = run_routes c e (before @ [r]) s"
proof (induction before arbitrary: s)
  case Nil
  obtain x s' where x: "run_route c e r s = (x, s')" by (cases "run_route c e r s")
  with run_route_stops [OF assms, of s s'] show ?case
    by (auto split: outcome.splits route_step.splits)
next
  case (Cons b before)
  then show ?case by (auto split: outcome.splits prod.splits route_step.splits)
qed

lemma stop_route_cuts_witness:
  "run_routes demo_context demo_event [demo_route, demo_route] (0, []) =
   run_routes demo_context demo_event [demo_route] (0, [])"
  using stop_route_cuts [OF demo_route_matches, of "[]" "[demo_route]" "(0, [])"]
  by (simp add: demo_route_def)

text \<open>A route whose filters reject the event is passed over without any effect.\<close>

lemma unmatched_route_skipped:
  "eval_filters c e (filters r) = Some False \<Longrightarrow> run_routes c e (r # rs) s = run_routes c e rs s"
  by (simp add: run_route_def)

end
