(* ===== verification/CommandRouter.thy ===== *)
theory CommandRouter
  imports EventRouter Containers
begin

text \<open>
  Commands (\<open>crates/bot-core/src/router.rs\<close>, the \<open>CommandRouter\<close> half): the registry of names and
  aliases, the triggers (prefixes and mentions), the parser of a message text, and the handler that
  dispatches to the registered command. The lemmas show when a registration succeeds and what it
  adds, that a registry built by the operations is always well formed, and what the parser accepts.
\<close>

section \<open>State\<close>

definition max_command_keys :: nat where "max_command_keys = 1024"
definition max_command_prefixes :: nat where "max_command_prefixes = 32"
definition max_command_mentions :: nat where "max_command_mentions = 32"
definition max_command_trigger_bytes :: nat where "max_command_trigger_bytes = 256"
definition max_command_name_bytes :: nat where "max_command_name_bytes = 64"
definition max_command_text_bytes :: nat where "max_command_text_bytes = 4096"

record command_invocation =
  inv_name :: ustr
  inv_arguments :: ustr
  inv_raw :: ustr

record 'h registered_command =
  canonical_name :: ustr
  cmd_handler :: 'h

record 'h command_router =
  cr_name :: ustr
  prefixes :: "ustr list"
  mentions :: "ustr list"
  commands :: "(ustr, 'h registered_command) btmap"

definition new_command_router :: "'h command_router" where
  "new_command_router =
     \<lparr>cr_name = lit ''command-router'', prefixes = [lit ''/''], mentions = [], commands = []\<rparr>"

definition command_router_named :: "ustr \<Rightarrow> 'h command_router \<Rightarrow> 'h command_router" where
  "command_router_named n r = r\<lparr>cr_name := n\<rparr>"

section \<open>Names and triggers\<close>

definition is_command_char :: "nat \<Rightarrow> bool" where
  "is_command_char c \<longleftrightarrow> is_ascii_alphanumeric c \<or> c = of_char CHR ''-'' \<or> c = of_char CHR ''_''"

definition normalize_command :: "ustr \<Rightarrow> router_error + ustr" where
  "normalize_command value =
     (let v = to_ascii_lowercase (trim value)
      in if v = [] \<or> blen v > max_command_name_bytes \<or> \<not> list_all is_command_char v
         then Inl (RE_InvalidCommand v) else Inr v)"

definition valid_trigger :: "ustr \<Rightarrow> bool" where
  "valid_trigger v \<longleftrightarrow>
     trim v \<noteq> [] \<and> v = trim v \<and> blen v \<le> max_command_trigger_bytes \<and> \<not> list_ex is_control v"

fun collect_triggers ::
    "ustr \<Rightarrow> router_error \<Rightarrow> nat \<Rightarrow> ustr list \<Rightarrow> ustr list \<Rightarrow> router_error + ustr list" where
  "collect_triggers kind too_many limit collected [] = Inr collected"
| "collect_triggers kind too_many limit collected (v # vs) =
     (if length collected \<ge> limit then Inl too_many
      else if \<not> valid_trigger v then Inl (RE_InvalidCommandTrigger kind v)
      else collect_triggers kind too_many limit (collected @ [v]) vs)"

text \<open>\<open>sort_by_key(Reverse(len))\<close>: stable, the longest first.\<close>

definition longest_first :: "ustr list \<Rightarrow> ustr list" where
  "longest_first vs = sort_key (\<lambda>v. - int (blen v)) vs"

definition set_prefixes :: "ustr list \<Rightarrow> 'h command_router \<Rightarrow> router_error + 'h command_router" where
  "set_prefixes vs r =
     (case collect_triggers (lit ''prefix'') RE_TooManyPrefixes max_command_prefixes [] vs of
        Inl err \<Rightarrow> Inl err
      | Inr ts \<Rightarrow> Inr (r\<lparr>prefixes := longest_first ts\<rparr>))"

definition set_mentions :: "ustr list \<Rightarrow> 'h command_router \<Rightarrow> router_error + 'h command_router" where
  "set_mentions vs r =
     (case collect_triggers (lit ''mention'') RE_TooManyMentions max_command_mentions [] vs of
        Inl err \<Rightarrow> Inl err
      | Inr ts \<Rightarrow> Inr (r\<lparr>mentions := longest_first ts\<rparr>))"

section \<open>Registration\<close>

fun normalize_aliases :: "nat \<Rightarrow> ustr list \<Rightarrow> ustr list \<Rightarrow> router_error + ustr list" where
  "normalize_aliases n acc [] = Inr acc"
| "normalize_aliases n acc (a # as) =
     (if usize_sat_add (usize_sat_add n (length acc)) 2 > max_command_keys then Inl RE_TooManyCommands
      else case normalize_command a of
             Inl err \<Rightarrow> Inl err
           | Inr v \<Rightarrow> normalize_aliases n (acc @ [v]) as)"

text \<open>The first key that is already in the set \<open>unique\<close> or already registered.\<close>

fun find_duplicate :: "(ustr, 'v) btmap \<Rightarrow> ustr list \<Rightarrow> ustr list \<Rightarrow> ustr option" where
  "find_duplicate m unique [] = None"
| "find_duplicate m unique (k # ks) =
     (if k \<in> set unique \<or> bt_contains m k then Some k else find_duplicate m (k # unique) ks)"

fun insert_keys :: "ustr list \<Rightarrow> 'v \<Rightarrow> (ustr, 'v) btmap \<Rightarrow> (ustr, 'v) btmap" where
  "insert_keys [] v m = m"
| "insert_keys (k # ks) v m = insert_keys ks v (bt_put k v m)"

definition register_command ::
    "ustr \<Rightarrow> ustr list \<Rightarrow> 'h \<Rightarrow> 'h command_router \<Rightarrow> router_error + 'h command_router" where
  "register_command name aliases h r =
     (case normalize_command name of
        Inl err \<Rightarrow> Inl err
      | Inr n \<Rightarrow>
          if bt_len (commands r) \<ge> max_command_keys then Inl RE_TooManyCommands
          else (case normalize_aliases (bt_len (commands r)) [] aliases of
                  Inl err \<Rightarrow> Inl err
                | Inr as \<Rightarrow>
                    (case find_duplicate (commands r) [] (n # as) of
                       Some k \<Rightarrow> Inl (RE_DuplicateCommand k)
                     | None \<Rightarrow>
                         Inr (r\<lparr>commands := insert_keys (n # as)
                                  \<lparr>canonical_name = n, cmd_handler = h\<rparr> (commands r)\<rparr>))))"

section \<open>Parsing and dispatch\<close>

definition mention_matches :: "ustr \<Rightarrow> ustr \<Rightarrow> bool" where
  "mention_matches t m \<longleftrightarrow>
     (case strip_prefix m t of
        None \<Rightarrow> False
      | Some rest \<Rightarrow> rest = [] \<or> is_whitespace (hd rest))"

definition strip_mention :: "ustr list \<Rightarrow> ustr \<Rightarrow> ustr" where
  "strip_mention ms t =
     (case find (mention_matches t) ms of
        None \<Rightarrow> t
      | Some m \<Rightarrow> trim_start (drop (length m) t))"

definition split_command :: "ustr \<Rightarrow> ustr \<times> ustr" where
  "split_command cmd =
     (case split_once is_whitespace cmd of
        None \<Rightarrow> (cmd, [])
      | Some (n, as) \<Rightarrow> (n, trim as))"

definition parse_command :: "'h command_router \<Rightarrow> ustr \<Rightarrow> command_invocation option" where
  "parse_command r text =
     (if blen text > max_command_text_bytes then None
      else
        let t = strip_mention (mentions r) (trim text)
        in case find (\<lambda>p. starts_with p t) (prefixes r) of
             None \<Rightarrow> None
           | Some p \<Rightarrow>
               (let (n, as) = split_command (trim_start (drop (length p) t))
                in case bt_get (commands r) (to_ascii_lowercase n) of
                     None \<Rightarrow> None
                   | Some rc \<Rightarrow>
                       Some \<lparr>inv_name = canonical_name rc, inv_arguments = as, inv_raw = text\<rparr>))"

text \<open>A command handler acts on the world; the future of the router can be dropped in it.\<close>

type_synonym ('j, 'w) command_handler =
  "'j event_context \<Rightarrow> command_invocation \<Rightarrow> 'w \<Rightarrow> (handler_error + unit) async \<times> 'w"

definition command_handle ::
    "('j, 'w) command_handler command_router \<Rightarrow> 'j event_context \<Rightarrow> 'j event \<Rightarrow> 'w \<Rightarrow>
     (handler_error + unit) outcome \<times> 'w" where
  "command_handle r c e w =
     (case e of
        Event_Message m \<Rightarrow>
          (case parse_command r (msg_text m) of
             None \<Rightarrow> (Finished (Inr ()), w)
           | Some cmd \<Rightarrow>
               (case bt_get (commands r) (inv_name cmd) of
                  None \<Rightarrow> (Finished (Inr ()), w)
                | Some rc \<Rightarrow>
                    (case cmd_handler rc c cmd w of
                       (Ready res, w') \<Rightarrow> (Finished res, w')
                     | (Panicked, w') \<Rightarrow> (Finished (Inl (panicked ''command handler'')), w')
                     | (Dropped, w') \<Rightarrow> (Cancelled_Run, w'))))
      | _ \<Rightarrow> (Finished (Inr ()), w))"

section \<open>Normalised names\<close>

lemma ascii_lower_whitespace [simp]: "is_whitespace (ascii_lower c) = is_whitespace c"
  by (auto simp: ascii_lower_def is_ascii_uppercase_def is_whitespace_def)

lemma command_char_not_whitespace: "is_command_char c \<Longrightarrow> \<not> is_whitespace c"
  by (auto simp: is_command_char_def is_ascii_alphanumeric_def is_ascii_digit_def
      is_ascii_lowercase_def is_ascii_uppercase_def is_whitespace_def)

lemma command_char_lower: "is_command_char c \<Longrightarrow> is_command_char (ascii_lower c)"
  by (auto simp: ascii_lower_def is_command_char_def is_ascii_alphanumeric_def
      is_ascii_uppercase_def is_ascii_lowercase_def)

lemma dropWhile_none: "list_all (\<lambda>c. \<not> P c) s \<Longrightarrow> dropWhile P s = s"
  by (cases s) auto

lemma trim_no_whitespace: "list_all (\<lambda>c. \<not> is_whitespace c) s \<Longrightarrow> trim s = s"
  by (simp add: trim_def trim_start_def trim_end_def dropWhile_none)

definition normalized :: "ustr \<Rightarrow> bool" where
  "normalized v \<longleftrightarrow> v \<noteq> [] \<and> blen v \<le> max_command_name_bytes \<and> list_all is_command_char v \<and>
     to_ascii_lowercase v = v"

definition norm_name :: "ustr \<Rightarrow> ustr" where
  "norm_name s = to_ascii_lowercase (trim s)"

lemma normalized_trim: "normalized v \<Longrightarrow> trim v = v"
  by (rule trim_no_whitespace) (auto simp: normalized_def list_all_iff command_char_not_whitespace)

lemma normalize_command_eq:
  "normalize_command s =
     (if normalized (norm_name s) then Inr (norm_name s) else Inl (RE_InvalidCommand (norm_name s)))"
  by (simp add: normalize_command_def normalized_def norm_name_def Let_def)

lemma norm_name_normalized: "normalized v \<Longrightarrow> norm_name v = v"
  using normalized_trim [of v] by (simp add: norm_name_def normalized_def)

section \<open>What a registration does\<close>

definition name_keys :: "ustr \<Rightarrow> ustr list \<Rightarrow> ustr list" where
  "name_keys name aliases = map norm_name (name # aliases)"

lemma usize_room [simp]:
  "max_command_keys < usize_sat_add (usize_sat_add n l) 2 \<longleftrightarrow> max_command_keys < n + l + 2"
  by (auto simp: usize_sat_add_def usize_max_def max_command_keys_def min_def)

lemma normalize_aliases_Inr:
  "normalize_aliases n acc as = Inr r \<longleftrightarrow>
   r = acc @ map norm_name as \<and> list_all normalized (map norm_name as) \<and>
   (as = [] \<or> n + length acc + length as + 1 \<le> max_command_keys)"
proof (induction as arbitrary: acc)
  case (Cons a as)
  show ?case
    using Cons.IH [of "acc @ [norm_name a]"] by (auto simp: normalize_command_eq)
qed auto

lemma find_duplicate_None:
  "find_duplicate m unique ks = None \<longleftrightarrow>
   distinct ks \<and> set ks \<inter> (set unique \<union> dom (bt_get m)) = {}"
  by (induction m unique ks rule: find_duplicate.induct) (auto simp: bt_contains_def domIff)

lemma insert_keys_wf: "bt_wf m \<Longrightarrow> bt_wf (insert_keys ks v m)"
  by (induction ks v m rule: insert_keys.induct) (simp_all add: map_simps)

lemma get_insert_keys:
  "bt_wf m \<Longrightarrow>
   bt_get (insert_keys ks v m) = (\<lambda>k. if k \<in> set ks then Some v else bt_get m k)"
  by (induction ks v m rule: insert_keys.induct) (auto simp: map_simps)

lemma len_insert_keys:
  "bt_wf m \<Longrightarrow> distinct ks \<Longrightarrow> set ks \<inter> dom (bt_get m) = {} \<Longrightarrow>
   bt_len (insert_keys ks v m) = bt_len m + length ks"
  by (induction ks v m rule: insert_keys.induct) (auto simp: map_simps bt.len_put_new domIff)

definition registrable :: "ustr \<Rightarrow> ustr list \<Rightarrow> 'h command_router \<Rightarrow> bool" where
  "registrable name aliases r \<longleftrightarrow>
     (let ks = name_keys name aliases
      in list_all normalized ks \<and> distinct ks \<and> list_all (\<lambda>k. \<not> bt_contains (commands r) k) ks \<and>
         bt_len (commands r) + length ks \<le> max_command_keys)"

text \<open>Exactly when a registration succeeds and what it stores: every name and alias must be a
  valid command name after trimming and lower-casing, all of them distinct and new, and the total
  must fit into \<open>MAX_COMMAND_KEYS\<close>; then all of them, and nothing else, are bound to one
  registration under the canonical name. The bound holds exactly, although the code checks it while
  it is still collecting the aliases.\<close>

theorem register_command_spec:
  "register_command name aliases h r = Inr r' \<longleftrightarrow>
     registrable name aliases r \<and>
     r' = r\<lparr>commands := insert_keys (name_keys name aliases)
              \<lparr>canonical_name = norm_name name, cmd_handler = h\<rparr> (commands r)\<rparr>"
proof -
  have "(case normalize_aliases (bt_len (commands r)) [] aliases of Inl err \<Rightarrow> Inl err | Inr as \<Rightarrow> f as) =
      Inr x \<longleftrightarrow>
      list_all normalized (map norm_name aliases) \<and>
      (aliases = [] \<or> bt_len (commands r) + length aliases + 1 \<le> max_command_keys) \<and>
      f (map norm_name aliases) = Inr x" for f and x :: "'a command_router"
  proof (cases "normalize_aliases (bt_len (commands r)) [] aliases")
    case (Inl err)
    with normalize_aliases_Inr [of "bt_len (commands r)" "[]" aliases "map norm_name aliases"]
    show ?thesis by simp
  next
    case (Inr as)
    with normalize_aliases_Inr [of "bt_len (commands r)" "[]" aliases as] show ?thesis by simp
  qed
  note as = this
  have dup: "(case find_duplicate m [] ks of Some k \<Rightarrow> Inl (RE_DuplicateCommand k) | None \<Rightarrow> Inr y) = Inr x \<longleftrightarrow>
      distinct ks \<and> list_all (\<lambda>k. \<not> bt_contains m k) ks \<and> y = x"
    for m :: "(ustr, 'a registered_command) btmap" and ks and x y :: "'a command_router"
  proof -
    have "set ks \<inter> dom (bt_get m) = {} \<longleftrightarrow> list_all (\<lambda>k. \<not> bt_contains m k) ks"
      by (auto simp: bt_contains_def list_all_iff)
    then show ?thesis
      using find_duplicate_None [of m "[]" ks] by (cases "find_duplicate m [] ks") auto
  qed
  let ?n = "bt_len (commands r)"
  show ?thesis
  proof (cases "normalized (norm_name name) \<and> ?n < max_command_keys")
    case True
    then have "(aliases = [] \<or> ?n + length aliases + 1 \<le> max_command_keys) \<longleftrightarrow>
        ?n + length (name_keys name aliases) \<le> max_command_keys"
      by (auto simp: name_keys_def)
    with True show ?thesis
      by (simp add: register_command_def normalize_command_eq as dup registrable_def Let_def
            name_keys_def list_all_iff del: find_duplicate.simps insert_keys.simps) blast
  next
    case False
    then show ?thesis
      by (auto simp: register_command_def normalize_command_eq registrable_def Let_def name_keys_def)
  qed
qed

section \<open>Well-formed routers\<close>

definition triggers_ok :: "nat \<Rightarrow> ustr list \<Rightarrow> bool" where
  "triggers_ok limit ts \<longleftrightarrow>
     list_all valid_trigger ts \<and> length ts \<le> limit \<and> sorted (map (\<lambda>v. - int (blen v)) ts)"

definition registry_ok :: "(ustr, 'h registered_command) btmap \<Rightarrow> bool" where
  "registry_ok m \<longleftrightarrow>
     bt_wf m \<and> bt_len m \<le> max_command_keys \<and>
     (\<forall>k rc. bt_get m k = Some rc \<longrightarrow> normalized k \<and> bt_get m (canonical_name rc) = Some rc)"

definition command_router_ok :: "'h command_router \<Rightarrow> bool" where
  "command_router_ok r \<longleftrightarrow>
     registry_ok (commands r) \<and> triggers_ok max_command_prefixes (prefixes r) \<and>
     triggers_ok max_command_mentions (mentions r)"

datatype 'h router_op =
    Op_Named ustr
  | Op_Prefixes "ustr list"
  | Op_Mentions "ustr list"
  | Op_Command ustr "ustr list" 'h

fun apply_op :: "'h router_op \<Rightarrow> 'h command_router \<Rightarrow> router_error + 'h command_router" where
  "apply_op (Op_Named n) r = Inr (command_router_named n r)"
| "apply_op (Op_Prefixes vs) r = set_prefixes vs r"
| "apply_op (Op_Mentions vs) r = set_mentions vs r"
| "apply_op (Op_Command n as h) r = register_command n as h r"

fun apply_ops :: "'h router_op list \<Rightarrow> 'h command_router \<Rightarrow> router_error + 'h command_router" where
  "apply_ops [] r = Inr r"
| "apply_ops (x # xs) r = (case apply_op x r of Inl err \<Rightarrow> Inl err | Inr r' \<Rightarrow> apply_ops xs r')"

lemma collect_triggers_Inr:
  "collect_triggers kind err limit acc vs = Inr ts \<longleftrightarrow>
   ts = acc @ vs \<and> list_all valid_trigger vs \<and> (vs = [] \<or> length acc + length vs \<le> limit)"
  by (induction kind err limit acc vs rule: collect_triggers.induct) auto

lemma triggers_ok_collected:
  "collect_triggers kind err limit [] vs = Inr ts \<Longrightarrow> triggers_ok limit (longest_first ts)"
  by (auto simp: collect_triggers_Inr triggers_ok_def longest_first_def list_all_iff)

lemma registry_ok_insert:
  assumes "registry_ok m" and "\<forall>k\<in>set ks. normalized k \<and> bt_get m k = None" and "distinct ks"
    and "n \<in> set ks" and "bt_len m + length ks \<le> max_command_keys"
  shows "registry_ok (insert_keys ks \<lparr>canonical_name = n, cmd_handler = h\<rparr> m)"
proof -
  have m: "bt_wf m" using assms(1) by (simp add: registry_ok_def)
  have "set ks \<inter> dom (bt_get m) = {}" using assms(2) by auto
  then have "bt_len (insert_keys ks \<lparr>canonical_name = n, cmd_handler = h\<rparr> m) \<le> max_command_keys"
    using len_insert_keys [OF m assms(3)] assms(5) by simp
  moreover have "canonical_name rc \<notin> set ks" if "bt_get m k = Some rc" for k rc
    using assms(1,2) that by (auto simp: registry_ok_def)
  ultimately show ?thesis
    using assms m by (auto simp: registry_ok_def insert_keys_wf get_insert_keys)
qed

lemma register_command_ok:
  assumes "command_router_ok r" and "register_command name aliases h r = Inr r'"
  shows "command_router_ok r'"
proof -
  let ?ks = "name_keys name aliases"
  have "registrable name aliases r"
    and r': "r' = r\<lparr>commands := insert_keys ?ks \<lparr>canonical_name = norm_name name, cmd_handler = h\<rparr> (commands r)\<rparr>"
    using assms(2) by (simp_all add: register_command_spec)
  then have "registry_ok (commands r')"
    using assms(1) unfolding r'
    by (auto simp: command_router_ok_def registrable_def Let_def list_all_iff bt_contains_def
        name_keys_def simp del: insert_keys.simps intro!: registry_ok_insert)
  with assms(1) r' show ?thesis by (simp add: command_router_ok_def)
qed

lemma apply_op_ok:
  assumes "command_router_ok r" and "apply_op x r = Inr r'"
  shows "command_router_ok r'"
proof (cases x)
  case (Op_Command n as h)
  with assms show ?thesis by (auto intro: register_command_ok)
qed (use assms in \<open>auto simp: command_router_named_def set_prefixes_def set_mentions_def
      command_router_ok_def dest: triggers_ok_collected split: sum.splits\<close>)

lemma apply_ops_ok: "command_router_ok r \<Longrightarrow> apply_ops xs r = Inr r' \<Longrightarrow> command_router_ok r'"
  by (induction xs arbitrary: r) (auto dest: apply_op_ok split: sum.splits)

lemma new_command_router_ok: "command_router_ok new_command_router"
  by (simp add: command_router_ok_def new_command_router_def registry_ok_def map_simps triggers_ok_def
      valid_trigger_def trim_def trim_start_def trim_end_def is_whitespace_def is_control_def
      max_command_trigger_bytes_def max_command_prefixes_def utf8_width_def)

text \<open>Every router that any sequence of builder calls produces is well formed: at most
  \<open>MAX_COMMAND_KEYS\<close> keys, all of them normalised names; the canonical name of every registration is
  itself a key bound to that same registration; and the triggers are valid, bounded in number and
  sorted longest first.\<close>

theorem built_router_ok:
  assumes "apply_ops ops new_command_router = Inr r"
  shows "command_router_ok r"
  using apply_ops_ok [OF new_command_router_ok assms] .

text \<open>A concrete router: two prefixes, one mention, one command with an alias.\<close>

definition demo_ops :: "nat router_op list" where
  "demo_ops = [Op_Mentions [lit ''@bot''], Op_Prefixes [lit ''!'', lit ''!!''],
     Op_Command (lit '' Help'') [lit ''h''] 7]"

definition demo_router :: "nat command_router" where
  "demo_router = \<lparr>cr_name = lit ''command-router'', prefixes = [lit ''!!'', lit ''!''],
     mentions = [lit ''@bot''],
     commands = [(lit ''h'', \<lparr>canonical_name = lit ''help'', cmd_handler = 7\<rparr>),
       (lit ''help'', \<lparr>canonical_name = lit ''help'', cmd_handler = 7\<rparr>)]\<rparr>"

lemma demo_router_built: "apply_ops demo_ops new_command_router = Inr demo_router"
  by code_simp

lemma built_router_ok_witness: "command_router_ok demo_router"
  by (rule built_router_ok [OF demo_router_built])

lemma demo_router_ok: "command_router_ok demo_router"
  using apply_ops_ok [OF new_command_router_ok demo_router_built] .

section \<open>What the parser accepts\<close>

lemma same_start_same_length:
  "starts_with a t \<Longrightarrow> starts_with b t \<Longrightarrow> blen a = blen b \<Longrightarrow> a = b"
proof (induction t arbitrary: a b)
  case Nil
  then show ?case by (simp add: starts_with_def)
next
  case (Cons c t)
  have pos: "0 < utf8_width c" using utf8_width_bounds(1) [of c] by simp
  show ?case
  proof (cases "a = [] \<or> b = []")
    case True
    with Cons.prems(3) show ?thesis by auto
  next
    case False
    then obtain x a' y b' where "a = x # a'" "b = y # b'" by (meson list.exhaust)
    moreover from this Cons.prems have "x = c" "y = c" "starts_with a' t" "starts_with b' t"
      by (simp_all add: starts_with_def)
    ultimately have "a = c # a'" "b = c # b'" "starts_with a' t" "starts_with b' t" by simp_all
    with Cons.IH [of a' b'] Cons.prems(3) show ?thesis by simp
  qed
qed

text \<open>Searching a list that is sorted longest first finds a longest match.\<close>

lemma find_longest:
  assumes "sorted (map (\<lambda>v. - int (blen v)) ts)" and "p \<in> set ts" and "P p"
    and "\<And>q. q \<in> set ts \<Longrightarrow> P q \<Longrightarrow> blen q \<le> blen p"
    and "\<And>q. P q \<Longrightarrow> starts_with q t"
  shows "find P ts = Some p"
  using assms
proof (induction ts)
  case (Cons v ts)
  show ?case
  proof (cases "P v")
    case True
    have "blen p \<le> blen v" using Cons.prems(1,2) by auto
    with Cons.prems(4) [of v] True have "blen v = blen p" by simp
    with True Cons.prems show ?thesis by (auto intro: same_start_same_length [of _ t])
  next
    case False
    with Cons show ?thesis by auto
  qed
qed simp

lemma mention_matches_start: "mention_matches t q \<Longrightarrow> starts_with q t"
  by (auto simp: mention_matches_def strip_prefix_def split: if_splits)

lemma trim_Cons_whitespace: "is_whitespace c \<Longrightarrow> trim (c # s) = trim s"
  by (simp add: trim_def trim_start_def)

lemma trim_end_append:
  "trim_end (a @ b) = (if trim_end b = [] then trim_end a else a @ trim_end b)"
  by (auto simp: trim_end_def dropWhile_append)

lemma trim_end_Nil_iff: "trim_end s = [] \<longleftrightarrow> list_all is_whitespace s"
  by (simp add: trim_end_def list_all_iff)

lemma trim_end_fixed: "s = [] \<or> \<not> is_whitespace (last s) \<Longrightarrow> trim_end s = s"
  by (auto simp: trim_end_def dropWhile_fixed hd_rev rev_swap)

lemma trim_start_fixed: "s = [] \<or> \<not> is_whitespace (hd s) \<Longrightarrow> trim_start s = s"
  by (simp add: trim_start_def dropWhile_fixed)

lemma trim_trim_end [simp]: "trim (trim_end s) = trim s"
proof (cases "list_all is_whitespace s")
  case True
  then have e: "trim_end s = []" "trim_start s = []"
    by (simp_all add: trim_end_Nil_iff trim_start_def list_all_iff)
  have "trim_start [] = []" by (simp add: trim_start_def)
  with e show ?thesis by (simp add: trim_def)
next
  case False
  then obtain c where "c \<in> set s" "\<not> is_whitespace c" by (auto simp: list_all_iff)
  then have ne: "trim_start s \<noteq> []" by (auto simp: trim_start_def)
  obtain u where s: "s = u @ trim_start s" "list_all is_whitespace u"
    using takeWhile_dropWhile_id [of is_whitespace s] set_takeWhileD [of _ is_whitespace s]
    by (metis Ball_set trim_start_def)
  have hd: "\<not> is_whitespace (hd (trim_start s))"
    using hd_dropWhile [of is_whitespace s] ne by (simp add: trim_start_def)
  then have "trim_end (trim_start s) \<noteq> []"
    using ne by (auto simp: trim_end_Nil_iff list_all_iff)
  then have e: "trim_end s = u @ trim_end (trim_start s)"
    using trim_end_append [of u "trim_start s"] s(1) by simp
  have "trim_start (u @ v) = trim_start v" for v
    using s(2) by (simp add: trim_start_def list_all_iff)
  moreover have "trim_start (trim_end (trim_start s)) = trim_end (trim_start s)"
    using hd trim_end_prefix [of "trim_start s"] \<open>trim_end (trim_start s) \<noteq> []\<close>
    by (metis hd_append2 trim_start_fixed)
  ultimately show ?thesis
    using trim_idem [of s] by (simp add: e trim_def)
qed

lemma valid_trigger_hd: "valid_trigger v \<Longrightarrow> v \<noteq> [] \<and> \<not> is_whitespace (hd v)"
proof
  assume v: "valid_trigger v"
  then show ne: "v \<noteq> []" by (auto simp: valid_trigger_def trim_def trim_start_def trim_end_def)
  show "\<not> is_whitespace (hd v)"
  proof
    assume "is_whitespace (hd v)"
    with ne obtain c u where "v = c # u" "is_whitespace c" by (cases v) auto
    moreover have len: "length (trim u) \<le> length u"
      using length_dropWhile_le [of is_whitespace "rev (trim_start u)"]
        length_dropWhile_le [of is_whitespace u]
      by (simp add: trim_def trim_end_def trim_start_def)
    ultimately have "c # u = trim u"
      using v trim_Cons_whitespace [of c u] by (simp add: valid_trigger_def)
    then have "length (trim u) = Suc (length u)" by (metis length_Cons)
    with len show False by simp
  qed
qed

lemma trim_hd: "s \<noteq> [] \<Longrightarrow> \<not> is_whitespace (hd s) \<Longrightarrow> trim s = trim_end s"
  by (simp add: trim_def trim_start_fixed)

lemma normalized_chars:
  "normalized (to_ascii_lowercase n) \<Longrightarrow> n \<noteq> [] \<and> list_all (\<lambda>c. \<not> is_whitespace c) n"
  using command_char_not_whitespace
  by (fastforce simp: normalized_def to_ascii_lowercase_def list_all_iff)

lemma split_command_name:
  assumes "list_all (\<lambda>c. \<not> is_whitespace c) n" and "is_whitespace c"
  shows "split_command n = (n, [])" "split_command (n @ c # as) = (n, trim as)"
  using assms split_once_None [of is_whitespace n] split_once_skip [of n is_whitespace c as]
  by (simp_all add: split_command_def list_all_iff)

text \<open>Completeness of the parser: a message that consists of a prefix, a registered name or alias
  in any mixture of cases, and arguments after white space is parsed into the canonical name and the
  trimmed arguments, provided the prefix is the longest one the message starts with (\<open>!!\<close> before
  \<open>!\<close>) and no mention is to be stripped first.\<close>

theorem parse_command_complete:
  assumes "command_router_ok r" and "text = p @ n @ c # as" and "is_whitespace c"
    and "p \<in> set (prefixes r)" and "bt_get (commands r) (to_ascii_lowercase n) = Some rc"
    and "\<forall>q\<in>set (prefixes r). starts_with q (trim text) \<longrightarrow> blen q \<le> blen p"
    and "\<forall>m\<in>set (mentions r). \<not> mention_matches (trim text) m"
    and "blen text \<le> max_command_text_bytes"
  shows "parse_command r text =
    Some \<lparr>inv_name = canonical_name rc, inv_arguments = trim as, inv_raw = text\<rparr>"
proof -
  have p: "p \<noteq> []" "\<not> is_whitespace (hd p)" and sorted: "sorted (map (\<lambda>v. - int (blen v)) (prefixes r))"
    using assms(1,4) by (auto simp: command_router_ok_def triggers_ok_def list_all_iff dest: valid_trigger_hd)
  have n: "n \<noteq> []" "list_all (\<lambda>c. \<not> is_whitespace c) n"
    using assms(1,5) by (auto simp: command_router_ok_def registry_ok_def dest: normalized_chars)
  then have last: "\<not> is_whitespace (last n)" and hd: "\<not> is_whitespace (hd n)"
    by (auto simp: list_all_iff)
  define tail where "tail = (if list_all is_whitespace as then [] else c # trim_end as)"
  have "trim text = trim_end text"
    using p assms(2) by (intro trim_hd) auto
  also have "\<dots> = p @ n @ tail"
    using n(1) last p(1) assms(3)
    by (auto simp: assms(2) tail_def trim_end_append trim_end_fixed trim_end_Nil_iff
        trim_end_append [of "[c]" as, simplified])
  finally have t: "trim text = p @ n @ tail" .
  have "find (mention_matches (trim text)) (mentions r) = None"
    using assms(7) by (simp add: find_None_iff)
  then have m: "strip_mention (mentions r) (trim text) = p @ n @ tail"
    by (simp add: strip_mention_def t)
  have f: "find (\<lambda>q. starts_with q (p @ n @ tail)) (prefixes r) = Some p"
    using sorted assms(4,6) by (intro find_longest [where t = "p @ n @ tail"]) (simp_all add: t)
  have "trim_start (n @ tail) = n @ tail"
    using n(1) hd by (simp add: trim_start_fixed)
  moreover have "split_command (n @ tail) = (n, trim as)"
  proof (cases "list_all is_whitespace as")
    case True
    then have "trim as = trim []"
      by (metis trim_end_Nil_iff trim_trim_end)
    then have "trim as = []" by (simp add: trim_no_whitespace)
    with True show ?thesis
      using split_command_name(1) [OF n(2) assms(3)] by (simp add: tail_def)
  next
    case False
    then show ?thesis
      using split_command_name(2) [OF n(2) assms(3), of "trim_end as"] by (simp add: tail_def)
  qed
  ultimately show ?thesis
    using assms(5,8) by (simp add: parse_command_def m f)
qed

lemma parse_command_complete_witness:
  "parse_command demo_router (lit ''!!HELP  me please '') =
     Some \<lparr>inv_name = lit ''help'', inv_arguments = lit ''me please'', inv_raw = lit ''!!HELP  me please ''\<rparr>"
proof -
  let ?text = "lit ''!!HELP  me please ''"
  let ?rc = "\<lparr>canonical_name = lit ''help'', cmd_handler = 7 :: nat\<rparr>"
  have "?text = lit ''!!'' @ lit ''HELP'' @ 32 # lit '' me please ''" "is_whitespace 32"
    "lit ''!!'' \<in> set (prefixes demo_router)"
    "bt_get (commands demo_router) (to_ascii_lowercase (lit ''HELP'')) = Some ?rc"
    "\<forall>q\<in>set (prefixes demo_router). starts_with q (trim ?text) \<longrightarrow> blen q \<le> blen (lit ''!!'')"
    "\<forall>m\<in>set (mentions demo_router). \<not> mention_matches (trim ?text) m"
    "blen ?text \<le> max_command_text_bytes"
    by code_simp+
  note parse = parse_command_complete [OF demo_router_ok this]
  have "trim (lit '' me please '') = lit ''me please''" by code_simp
  with parse show ?thesis by (simp only: registered_command.simps)
qed

text \<open>A leading mention is transparent: with the longest mention that matches, followed by white
  space, in front of it, a message is parsed like the rest of it is by a router without mentions.\<close>

theorem parse_command_mention:
  assumes "command_router_ok r" and "m \<in> set (mentions r)" and "is_whitespace c"
    and "\<forall>q\<in>set (mentions r). mention_matches (trim (m @ c # body)) q \<longrightarrow> blen q \<le> blen m"
    and "blen (m @ c # body) \<le> max_command_text_bytes"
  shows "parse_command r (m @ c # body) =
    map_option (inv_raw_update (\<lambda>_. m @ c # body)) (parse_command (r\<lparr>mentions := []\<rparr>) body)"
proof -
  let ?t = "trim (m @ c # body)"
  have m: "m \<noteq> []" "\<not> is_whitespace (hd m)" "valid_trigger m"
    and sorted: "sorted (map (\<lambda>v. - int (blen v)) (mentions r))"
    using assms(1,2) by (auto simp: command_router_ok_def triggers_ok_def list_all_iff dest: valid_trigger_hd)
  then have "trim_end m = m" using trim_hd [of m] by (simp add: valid_trigger_def)
  then have t: "?t = m @ (if list_all is_whitespace body then [] else c # trim_end body)"
    using m trim_hd [of "m @ c # body"] assms(3) trim_end_append [of m "c # body"]
      trim_end_append [of "[c]" body]
    by (auto simp: trim_end_Nil_iff)
  then have match: "mention_matches ?t m"
    using assms(3) by (simp add: mention_matches_def strip_prefix_def)
  have "find (mention_matches ?t) (mentions r) = Some m"
    using sorted assms(2,4) match
    by (intro find_longest [where t = ?t]) (simp_all add: mention_matches_start)
  moreover have "trim_start (if list_all is_whitespace body then [] else c # trim_end body) = trim body"
  proof (cases "list_all is_whitespace body")
    case True
    then have "trim body = trim []" by (metis trim_end_Nil_iff trim_trim_end)
    with True show ?thesis by (simp add: trim_def trim_start_def trim_end_def)
  next
    case False
    have "trim_start (trim_end body) = trim body"
    proof -
      have "trim_start (trim_end body) = trim_end (trim_start (trim_end body))"
      proof (cases "trim_start (trim_end body) = []")
        case False
        then have "last (trim_start (trim_end body)) = last (trim_end body)"
          by (metis last_appendR takeWhile_dropWhile_id trim_start_def)
        moreover have "trim_end body \<noteq> []" using False by (auto simp: trim_start_def)
        ultimately show ?thesis
          using trim_end_ends [of body] by (simp add: trim_end_fixed)
      qed (simp add: trim_end_def)
      then show ?thesis using trim_trim_end [of body] by (simp add: trim_def)
    qed
    with False assms(3) show ?thesis by (simp add: trim_start_def)
  qed
  ultimately have strip: "strip_mention (mentions r) ?t = trim body"
    using t by (simp add: strip_mention_def)
  have "blen body \<le> max_command_text_bytes" using assms(5) by simp
  with assms(5) show ?thesis
    by (auto simp: parse_command_def strip strip_mention_def [of "[]"] Let_def
        split: option.splits prod.splits)
qed

lemma parse_command_mention_witness:
  "parse_command demo_router (lit ''@bot !h x'') =
     map_option (inv_raw_update (\<lambda>_. lit ''@bot !h x''))
       (parse_command (demo_router\<lparr>mentions := []\<rparr>) (lit ''!h x''))"
proof -
  have "lit ''@bot'' \<in> set (mentions demo_router)" "is_whitespace 32"
    "\<forall>q\<in>set (mentions demo_router). mention_matches (trim (lit ''@bot'' @ 32 # lit ''!h x'')) q \<longrightarrow>
       blen q \<le> blen (lit ''@bot'')"
    "blen (lit ''@bot'' @ 32 # lit ''!h x'') \<le> max_command_text_bytes"
    by code_simp+
  from parse_command_mention [OF demo_router_ok this] show ?thesis by simp
qed

text \<open>Soundness of the parser, and why dispatch cannot miss: whatever is parsed names a canonical
  command that is registered, under the trigger and a name written in the message, and the second
  lookup that the dispatcher does by the canonical name finds the very registration the parser found;
  the message is within the size limit and the arguments carry no outer white space.\<close>

theorem parse_command_sound:
  assumes "command_router_ok r" and "parse_command r text = Some cmd"
  shows "\<exists>p\<in>set (prefixes r). \<exists>key rc.
    starts_with p (strip_mention (mentions r) (trim text)) \<and>
    bt_get (commands r) key = Some rc \<and> inv_name cmd = canonical_name rc \<and>
    bt_get (commands r) (inv_name cmd) = Some rc \<and>
    inv_raw cmd = text \<and> blen text \<le> max_command_text_bytes \<and> trim (inv_arguments cmd) = inv_arguments cmd"
proof -
  let ?t = "strip_mention (mentions r) (trim text)"
  obtain p n as rc where p: "find (\<lambda>p. starts_with p ?t) (prefixes r) = Some p"
    "split_command (trim_start (drop (length p) ?t)) = (n, as)"
    "bt_get (commands r) (to_ascii_lowercase n) = Some rc"
    "cmd = \<lparr>inv_name = canonical_name rc, inv_arguments = as, inv_raw = text\<rparr>"
    "blen text \<le> max_command_text_bytes"
    using assms(2) by (auto simp: parse_command_def Let_def split: if_splits option.splits prod.splits)
  have "p \<in> set (prefixes r)" "starts_with p ?t"
    using p(1) by (auto simp: find_Some_iff)
  moreover have "trim as = as"
    using p(2) by (auto simp: split_command_def trim_no_whitespace split: option.splits)
  moreover have "bt_get (commands r) (canonical_name rc) = Some rc"
    using assms(1) p(3) by (auto simp: command_router_ok_def registry_ok_def)
  ultimately show ?thesis using p by auto
qed

lemma parse_command_sound_witness:
  "\<exists>p\<in>set (prefixes demo_router). \<exists>key rc.
    starts_with p (strip_mention (mentions demo_router) (trim (lit ''!h x''))) \<and>
    bt_get (commands demo_router) key = Some rc \<and> lit ''help'' = canonical_name rc \<and>
    bt_get (commands demo_router) (lit ''help'') = Some rc"
proof -
  have "parse_command demo_router (lit ''!h x'') =
      Some \<lparr>inv_name = lit ''help'', inv_arguments = lit ''x'', inv_raw = lit ''!h x''\<rparr>" by code_simp
  from parse_command_sound [OF demo_router_ok this] show ?thesis by fastforce
qed

end
