(* ===== verification/Metrics.thy ===== *)
theory Metrics
  imports BotModel
begin

text \<open>
  Runtime metrics and health (\<open>crates/bot-core/src/metrics.rs\<close>). The atomics and mutexes of
  \<open>ObserverInner\<close> are the fields of one record: every operation here is one atomic update of each
  field it touches, and the theorems speak about sequences of operations. Counters are 64-bit words
  that saturate; \<open>usize\<close> gauges are natural numbers. \<open>Duration::as_micros\<close> (a \<open>u128\<close>) is a natural
  number.
\<close>

section \<open>State\<close>

definition max_adapter_metric_series :: nat where "max_adapter_metric_series = 256"

datatype runtime_phase = Phase_Starting | Phase_Running | Phase_ShuttingDown | Phase_Stopped | Phase_Failed

fun phase_code :: "runtime_phase \<Rightarrow> 8 word" where
  "phase_code Phase_Starting = 0"
| "phase_code Phase_Running = 1"
| "phase_code Phase_ShuttingDown = 2"
| "phase_code Phase_Stopped = 3"
| "phase_code Phase_Failed = 4"

definition phase_from_code :: "8 word \<Rightarrow> runtime_phase" where
  "phase_from_code c =
     (if c = 0 then Phase_Starting else if c = 1 then Phase_Running
      else if c = 2 then Phase_ShuttingDown else if c = 3 then Phase_Stopped else Phase_Failed)"

datatype adapter_failure_kind =
    AF_Configuration | AF_Transport | AF_Action | AF_ActionUnknown | AF_EventQueueClosed
  | AF_EventAdapterMismatch

record adapter_metrics =
  am_online :: bool
  am_events_received :: u64
  am_events_rejected :: u64
  am_enqueue_wait_micros :: u64
  am_enqueue_wait_micros_max :: u64
  am_failures :: u64
  am_last_failure :: "adapter_failure_kind option"

definition default_adapter_metrics :: adapter_metrics where
  "default_adapter_metrics = \<lparr>am_online = False, am_events_received = 0, am_events_rejected = 0,
     am_enqueue_wait_micros = 0, am_enqueue_wait_micros_max = 0, am_failures = 0,
     am_last_failure = None\<rparr>"

record handler_metrics =
  hm_invocations :: u64
  hm_successes :: u64
  hm_failures :: u64
  hm_timeouts :: u64
  hm_duration_micros :: u64

definition default_handler_metrics :: handler_metrics where
  "default_handler_metrics = \<lparr>hm_invocations = 0, hm_successes = 0, hm_failures = 0,
     hm_timeouts = 0, hm_duration_micros = 0\<rparr>"

record runtime_observer =
  active_run :: bool
  phase_atomic :: "8 word"
  queue_capacity :: nat
  queue_depth :: nat
  queue_high_watermark :: nat
  active_events :: nat
  events_received :: u64
  events_completed :: u64
  duplicate_events :: u64
  rejected_events :: u64
  enqueue_wait_micros :: u64
  enqueue_wait_micros_max :: u64
  ob_adapters :: "(ustr, adapter_metrics) btmap"
  ob_handlers :: "(ustr, handler_metrics) btmap"

definition new_observer :: runtime_observer where
  "new_observer = \<lparr>active_run = False, phase_atomic = phase_code Phase_Stopped, queue_capacity = 0,
     queue_depth = 0, queue_high_watermark = 0, active_events = 0, events_received = 0,
     events_completed = 0, duplicate_events = 0, rejected_events = 0, enqueue_wait_micros = 0,
     enqueue_wait_micros_max = 0, ob_adapters = [], ob_handlers = []\<rparr>"

definition observer_phase :: "runtime_observer \<Rightarrow> runtime_phase" where
  "observer_phase ob = phase_from_code (phase_atomic ob)"

definition set_phase :: "runtime_phase \<Rightarrow> runtime_observer \<Rightarrow> runtime_observer" where
  "set_phase p ob = ob\<lparr>phase_atomic := phase_code p\<rparr>"

section \<open>Runs\<close>

text \<open>\<open>entry(id).or_default()\<close> for each configured adapter.\<close>

fun default_entries :: "ustr list \<Rightarrow> (ustr, adapter_metrics) btmap \<Rightarrow> (ustr, adapter_metrics) btmap" where
  "default_entries [] m = m"
| "default_entries (a # as) m =
     default_entries as (if bt_contains m a then m else bt_put a default_adapter_metrics m)"

definition configure :: "nat \<Rightarrow> adapter_id list \<Rightarrow> runtime_observer \<Rightarrow> runtime_observer" where
  "configure capacity adapters ob =
     ob\<lparr>queue_capacity := capacity, queue_depth := 0, queue_high_watermark := 0, active_events := 0,
        events_received := 0, events_completed := 0, duplicate_events := 0, rejected_events := 0,
        enqueue_wait_micros := 0, enqueue_wait_micros_max := 0,
        ob_adapters := default_entries adapters [], ob_handlers := []\<rparr>"

definition begin_run :: "nat \<Rightarrow> adapter_id list \<Rightarrow> runtime_observer \<Rightarrow> bool \<times> runtime_observer" where
  "begin_run capacity adapters ob =
     (if active_run ob then (False, ob)
      else (True, configure capacity adapters (ob\<lparr>active_run := True\<rparr>)))"

definition end_run :: "runtime_observer \<Rightarrow> runtime_observer" where
  "end_run ob =
     (let ob' = (if observer_phase ob \<in> {Phase_Starting, Phase_Running, Phase_ShuttingDown}
                 then set_phase Phase_Stopped ob else ob)
      in ob'\<lparr>active_run := False\<rparr>)"

section \<open>Recording\<close>

definition micros_u64 :: "nat \<Rightarrow> u64" where
  "micros_u64 d = (if d < 2 ^ 64 then of_nat d else - 1)"

definition update_adapter_metrics ::
    "adapter_id \<Rightarrow> (adapter_metrics \<Rightarrow> adapter_metrics) \<Rightarrow> runtime_observer \<Rightarrow> runtime_observer" where
  "update_adapter_metrics a f ob =
     (case bt_get (ob_adapters ob) a of
        Some m \<Rightarrow> ob\<lparr>ob_adapters := bt_put a (f m) (ob_adapters ob)\<rparr>
      | None \<Rightarrow>
          if bt_len (ob_adapters ob) < max_adapter_metric_series
          then ob\<lparr>ob_adapters := bt_put a (f default_adapter_metrics) (ob_adapters ob)\<rparr>
          else ob)"

definition set_adapter_online :: "adapter_id \<Rightarrow> bool \<Rightarrow> runtime_observer \<Rightarrow> runtime_observer" where
  "set_adapter_online a online ob = update_adapter_metrics a (\<lambda>m. m\<lparr>am_online := online\<rparr>) ob"

fun failure_kind :: "adapter_error \<Rightarrow> adapter_failure_kind" where
  "failure_kind (AE_Configuration _) = AF_Configuration"
| "failure_kind (AE_Transport _) = AF_Transport"
| "failure_kind (AE_Action _) = AF_Action"
| "failure_kind (AE_ActionUnknown _) = AF_ActionUnknown"
| "failure_kind AE_EventQueueClosed = AF_EventQueueClosed"
| "failure_kind (AE_EventAdapterMismatch _ _) = AF_EventAdapterMismatch"

definition record_adapter_failure :: "adapter_id \<Rightarrow> adapter_error \<Rightarrow> runtime_observer \<Rightarrow> runtime_observer" where
  "record_adapter_failure a err ob =
     update_adapter_metrics a
       (\<lambda>m. m\<lparr>am_online := False, am_failures := sat_add (am_failures m) 1,
              am_last_failure := Some (failure_kind err)\<rparr>) ob"

definition record_event_enqueued ::
    "adapter_id \<Rightarrow> nat \<Rightarrow> nat \<Rightarrow> runtime_observer \<Rightarrow> runtime_observer" where
  "record_event_enqueued a wait depth ob =
     (let w = micros_u64 wait
      in update_adapter_metrics a
           (\<lambda>m. m\<lparr>am_events_received := sat_add (am_events_received m) 1,
                  am_enqueue_wait_micros := sat_add (am_enqueue_wait_micros m) w,
                  am_enqueue_wait_micros_max := max (am_enqueue_wait_micros_max m) w\<rparr>)
           (ob\<lparr>events_received := sat_add (events_received ob) 1,
               enqueue_wait_micros := sat_add (enqueue_wait_micros ob) w,
               enqueue_wait_micros_max := max (enqueue_wait_micros_max ob) w,
               queue_depth := depth,
               queue_high_watermark := max (queue_high_watermark ob) depth\<rparr>))"

definition record_queue_depth :: "nat \<Rightarrow> runtime_observer \<Rightarrow> runtime_observer" where
  "record_queue_depth depth ob = ob\<lparr>queue_depth := depth\<rparr>"

definition record_event_started :: "runtime_observer \<Rightarrow> runtime_observer" where
  "record_event_started ob = ob\<lparr>active_events := usize_sat_add (active_events ob) 1\<rparr>"

definition record_event_completed :: "runtime_observer \<Rightarrow> runtime_observer" where
  "record_event_completed ob =
     ob\<lparr>active_events := active_events ob - 1, events_completed := sat_add (events_completed ob) 1\<rparr>"

definition record_duplicate :: "runtime_observer \<Rightarrow> runtime_observer" where
  "record_duplicate ob = ob\<lparr>duplicate_events := sat_add (duplicate_events ob) 1\<rparr>"

definition record_event_rejected :: "adapter_id \<Rightarrow> runtime_observer \<Rightarrow> runtime_observer" where
  "record_event_rejected a ob =
     update_adapter_metrics a (\<lambda>m. m\<lparr>am_events_rejected := sat_add (am_events_rejected m) 1\<rparr>)
       (ob\<lparr>rejected_events := sat_add (rejected_events ob) 1\<rparr>)"

definition record_unattributed_rejection :: "runtime_observer \<Rightarrow> runtime_observer" where
  "record_unattributed_rejection ob = ob\<lparr>rejected_events := sat_add (rejected_events ob) 1\<rparr>"

datatype handler_outcome = HO_Success | HO_Failure | HO_Timeout

definition record_handler :: "ustr \<Rightarrow> nat \<Rightarrow> handler_outcome \<Rightarrow> runtime_observer \<Rightarrow> runtime_observer" where
  "record_handler name duration outcome ob =
     (let m0 = (case bt_get (ob_handlers ob) name of Some m \<Rightarrow> m | None \<Rightarrow> default_handler_metrics);
          m1 = m0\<lparr>hm_invocations := sat_add (hm_invocations m0) 1,
                  hm_duration_micros := sat_add (hm_duration_micros m0) (micros_u64 duration)\<rparr>;
          m2 = (case outcome of
                  HO_Success \<Rightarrow> m1\<lparr>hm_successes := sat_add (hm_successes m1) 1\<rparr>
                | HO_Failure \<Rightarrow> m1\<lparr>hm_failures := sat_add (hm_failures m1) 1\<rparr>
                | HO_Timeout \<Rightarrow> m1\<lparr>hm_timeouts := sat_add (hm_timeouts m1) 1\<rparr>)
      in ob\<lparr>ob_handlers := bt_put name m2 (ob_handlers ob)\<rparr>)"

section \<open>Health\<close>

datatype health_status = Healthy | Degraded | Unhealthy

record runtime_health =
  rh_status :: health_status
  rh_phase :: runtime_phase
  rh_online_adapters :: nat
  rh_configured_adapters :: nat

definition health :: "runtime_observer \<Rightarrow> runtime_health" where
  "health ob =
     (let online = length (filter (\<lambda>p. am_online (snd p)) (ob_adapters ob));
          configured = bt_len (ob_adapters ob);
          ph = observer_phase ob
      in \<lparr>rh_status =
            (case ph of
               Phase_Running \<Rightarrow> if configured > 0 \<and> online = configured then Healthy else Degraded
             | Phase_Starting \<Rightarrow> Degraded
             | Phase_ShuttingDown \<Rightarrow> Degraded
             | _ \<Rightarrow> Unhealthy),
          rh_phase = ph, rh_online_adapters = online, rh_configured_adapters = configured\<rparr>)"

section \<open>The Prometheus text\<close>

text \<open>\<open>str::replace\<close> of one character by a string, and the escaping of a label value: first the
  backslashes, then the quotes, then the line feeds.\<close>

definition replace_char :: "nat \<Rightarrow> ustr \<Rightarrow> ustr \<Rightarrow> ustr" where
  "replace_char c r s = concat (map (\<lambda>x. if x = c then r else [x]) s)"

definition ch_backslash :: nat where "ch_backslash = 92"
definition ch_quote :: nat where "ch_quote = 34"
definition ch_newline :: nat where "ch_newline = 10"
definition ch_n :: nat where "ch_n = 110"

lemmas ch_defs = ch_backslash_def ch_quote_def ch_newline_def ch_n_def

definition prometheus_label :: "ustr \<Rightarrow> ustr" where
  "prometheus_label s =
     replace_char ch_newline [ch_backslash, ch_n]
       (replace_char ch_quote [ch_backslash, ch_quote]
         (replace_char ch_backslash [ch_backslash, ch_backslash] s))"

definition metric_line :: "string \<Rightarrow> nat \<Rightarrow> ustr" where
  "metric_line name v = lit name @ [32] @ decimal v @ [ch_newline]"

definition labelled_line :: "string \<Rightarrow> string \<Rightarrow> ustr \<Rightarrow> nat \<Rightarrow> ustr" where
  "labelled_line name key label v =
     lit name @ lit ''{'' @ lit key @ lit ''='' @ [ch_quote] @ label @ [ch_quote] @ lit ''} '' @
     decimal v @ [ch_newline]"

definition help_lines :: ustr where
  "help_lines =
     lit ''# HELP bkm_runtime_queue_depth Queue depth sampled after enqueue and dequeue operations.'' @
     [ch_newline] @
     lit ''# HELP bkm_runtime_queue_depth_observed_high_watermark Highest sampled queue depth; concurrent receives can make it lower than instantaneous occupancy.'' @
     [ch_newline]"

definition render_adapter :: "ustr \<times> adapter_metrics \<Rightarrow> ustr" where
  "render_adapter p =
     (let a = prometheus_label (fst p); m = snd p; ln = (\<lambda>name v. labelled_line name ''adapter'' a v)
      in ln ''bkm_runtime_adapter_online'' (if am_online m then 1 else 0) @
         ln ''bkm_runtime_adapter_events_total'' (unat (am_events_received m)) @
         ln ''bkm_runtime_adapter_rejected_events_total'' (unat (am_events_rejected m)) @
         ln ''bkm_runtime_adapter_enqueue_wait_microseconds_total'' (unat (am_enqueue_wait_micros m)) @
         ln ''bkm_runtime_adapter_enqueue_wait_microseconds_max'' (unat (am_enqueue_wait_micros_max m)) @
         ln ''bkm_runtime_adapter_failures_total'' (unat (am_failures m)))"

definition render_handler :: "ustr \<times> handler_metrics \<Rightarrow> ustr" where
  "render_handler p =
     (let h = prometheus_label (fst p); m = snd p; ln = (\<lambda>name v. labelled_line name ''handler'' h v)
      in ln ''bkm_runtime_handler_invocations_total'' (unat (hm_invocations m)) @
         ln ''bkm_runtime_handler_successes_total'' (unat (hm_successes m)) @
         ln ''bkm_runtime_handler_failures_total'' (unat (hm_failures m)) @
         ln ''bkm_runtime_handler_timeouts_total'' (unat (hm_timeouts m)) @
         ln ''bkm_runtime_handler_duration_microseconds_total'' (unat (hm_duration_micros m)))"

definition render_prometheus :: "runtime_observer \<Rightarrow> ustr" where
  "render_prometheus ob =
     help_lines @
     metric_line ''bkm_runtime_queue_capacity'' (queue_capacity ob) @
     metric_line ''bkm_runtime_queue_depth'' (queue_depth ob) @
     metric_line ''bkm_runtime_queue_depth_observed_high_watermark'' (queue_high_watermark ob) @
     metric_line ''bkm_runtime_enqueue_wait_microseconds_total'' (unat (enqueue_wait_micros ob)) @
     metric_line ''bkm_runtime_enqueue_wait_microseconds_max'' (unat (enqueue_wait_micros_max ob)) @
     metric_line ''bkm_runtime_active_events'' (active_events ob) @
     metric_line ''bkm_runtime_events_received_total'' (unat (events_received ob)) @
     metric_line ''bkm_runtime_events_completed_total'' (unat (events_completed ob)) @
     metric_line ''bkm_runtime_duplicate_events_total'' (unat (duplicate_events ob)) @
     metric_line ''bkm_runtime_rejected_events_total'' (unat (rejected_events ob)) @
     concat (map render_adapter (ob_adapters ob)) @
     concat (map render_handler (ob_handlers ob))"

section \<open>Escaping cannot be broken out of\<close>

fun escape_char :: "nat \<Rightarrow> ustr" where
  "escape_char c =
     (if c = ch_backslash then [ch_backslash, ch_backslash]
      else if c = ch_quote then [ch_backslash, ch_quote]
      else if c = ch_newline then [ch_backslash, ch_n] else [c])"

lemma prometheus_label_eq: "prometheus_label s = concat (map escape_char s)"
  by (induction s) (auto simp: prometheus_label_def replace_char_def ch_defs)

text \<open>A reader of the text format: the label value ends at the first quote that is not escaped, and
  may not contain a line feed. It gives the value and the rest of the line.\<close>

fun read_label :: "ustr \<Rightarrow> (ustr \<times> ustr) option" where
  "read_label [] = None"
| "read_label (c # s) =
     (if c = ch_quote then Some ([], s)
      else if c = ch_newline then None
      else if c = ch_backslash
      then (case s of
              [] \<Rightarrow> None
            | d # s' \<Rightarrow>
                if d = ch_backslash \<or> d = ch_quote
                then map_option (\<lambda>(v, r). (d # v, r)) (read_label s')
                else if d = ch_n then map_option (\<lambda>(v, r). (ch_newline # v, r)) (read_label s')
                else None)
      else map_option (\<lambda>(v, r). (c # v, r)) (read_label s))"

text \<open>Escaping and reading a label value are inverse, whatever bytes the adapter identifier or
  handler name holds and whatever follows: a name can neither end its label early nor start a new
  line of the exposition.\<close>

theorem prometheus_label_roundtrip:
  "read_label (prometheus_label s @ ch_quote # rest) = Some (s, rest)"
  by (induction s) (auto simp: prometheus_label_eq ch_defs)

lemma newline_decimal: "count_list (decimal n) ch_newline = 0"
proof (induction n rule: decimal.induct)
  case (1 n)
  then show ?case by (subst decimal.simps) (auto simp: ch_defs count_list_append)
qed

lemma newline_label: "count_list (prometheus_label s) ch_newline = 0"
  by (induction s) (auto simp: prometheus_label_eq ch_defs count_list_append)

lemma newline_labelled:
  "count_list (labelled_line name key (prometheus_label s) v) ch_newline =
     count_list (lit name) ch_newline + count_list (lit key) ch_newline + 1"
  by (simp add: labelled_line_def count_list_append newline_decimal newline_label)
     (simp add: ch_defs)

lemma newline_render_adapter: "count_list (render_adapter p) ch_newline = 6"
  unfolding render_adapter_def Let_def count_list_append newline_labelled by (simp add: ch_defs)

lemma newline_render_handler: "count_list (render_handler p) ch_newline = 5"
  unfolding render_handler_def Let_def count_list_append newline_labelled by (simp add: ch_defs)

text \<open>The exposition has exactly 12 fixed lines, six for every adapter and five for every
  handler: no name adds a line of its own.\<close>

theorem render_prometheus_lines:
  "count_list (render_prometheus ob) ch_newline =
     12 + 6 * length (ob_adapters ob) + 5 * length (ob_handlers ob)"
proof -
  have "count_list (concat (map f xs)) ch_newline = k * length xs"
    if "\<And>p. count_list (f p) ch_newline = k" for f :: "'a \<Rightarrow> ustr" and xs k
    using that by (induction xs) (simp_all add: count_list_append)
  note rows = this [of render_adapter 6, OF newline_render_adapter]
    this [of render_handler 5, OF newline_render_handler]
  have fixed: "count_list (metric_line name v) ch_newline = count_list (lit name) ch_newline + 1" for name v
    by (simp add: metric_line_def count_list_append newline_decimal) (simp add: ch_defs)
  have hl: "count_list help_lines ch_newline = 2"
    by (simp add: help_lines_def ch_defs)
  show ?thesis
    unfolding render_prometheus_def count_list_append rows fixed hl by (simp add: ch_defs)
qed

section \<open>Counters count\<close>

text \<open>The operations that happen during a run, and the sequence of them.\<close>

datatype metric_op =
    M_Phase runtime_phase
  | M_Online adapter_id bool
  | M_Failure adapter_id adapter_error
  | M_Enqueued adapter_id nat nat
  | M_Depth nat
  | M_Started
  | M_Completed
  | M_Duplicate
  | M_Rejected adapter_id
  | M_Unattributed
  | M_Handler ustr nat handler_outcome

fun apply_metric :: "metric_op \<Rightarrow> runtime_observer \<Rightarrow> runtime_observer" where
  "apply_metric (M_Phase p) ob = set_phase p ob"
| "apply_metric (M_Online a b) ob = set_adapter_online a b ob"
| "apply_metric (M_Failure a err) ob = record_adapter_failure a err ob"
| "apply_metric (M_Enqueued a w d) ob = record_event_enqueued a w d ob"
| "apply_metric (M_Depth d) ob = record_queue_depth d ob"
| "apply_metric M_Started ob = record_event_started ob"
| "apply_metric M_Completed ob = record_event_completed ob"
| "apply_metric M_Duplicate ob = record_duplicate ob"
| "apply_metric (M_Rejected a) ob = record_event_rejected a ob"
| "apply_metric M_Unattributed ob = record_unattributed_rejection ob"
| "apply_metric (M_Handler n d out) ob = record_handler n d out ob"

definition apply_metrics :: "metric_op list \<Rightarrow> runtime_observer \<Rightarrow> runtime_observer" where
  "apply_metrics ops ob = foldl (\<lambda>o' x. apply_metric x o') ob ops"

lemma apply_metrics_Nil [simp]: "apply_metrics [] ob = ob"
  and apply_metrics_snoc [simp]: "apply_metrics (ops @ [x]) ob = apply_metric x (apply_metrics ops ob)"
  by (simp_all add: apply_metrics_def)

definition count_ops :: "(metric_op \<Rightarrow> bool) \<Rightarrow> metric_op list \<Rightarrow> nat" where
  "count_ops P ops = length (filter P ops)"

lemma count_ops_Nil [simp]: "count_ops P [] = 0"
  and count_ops_snoc [simp]: "count_ops P (ops @ [x]) = count_ops P ops + of_bool (P x)"
  by (simp_all add: count_ops_def)

definition u64_max :: nat where "u64_max = 2 ^ 64 - 1"

lemma unat_sat_add_u64:
  "unat (a :: u64) = min x u64_max \<Longrightarrow> unat (sat_add a b) = min (x + unat b) u64_max"
  by (simp add: unat_sat_add u64_max_def)

fun is_enqueued :: "metric_op \<Rightarrow> bool" where
  "is_enqueued (M_Enqueued _ _ _) = True"
| "is_enqueued _ = False"

fun is_rejection :: "metric_op \<Rightarrow> bool" where
  "is_rejection (M_Rejected _) = True"
| "is_rejection M_Unattributed = True"
| "is_rejection _ = False"

fun op_wait :: "metric_op \<Rightarrow> nat" where
  "op_wait (M_Enqueued _ w _) = unat (micros_u64 w)"
| "op_wait _ = 0"

lemma update_adapter_metrics_fields [simp]:
  "events_received (update_adapter_metrics a f ob) = events_received ob"
  "events_completed (update_adapter_metrics a f ob) = events_completed ob"
  "duplicate_events (update_adapter_metrics a f ob) = duplicate_events ob"
  "rejected_events (update_adapter_metrics a f ob) = rejected_events ob"
  "enqueue_wait_micros (update_adapter_metrics a f ob) = enqueue_wait_micros ob"
  "enqueue_wait_micros_max (update_adapter_metrics a f ob) = enqueue_wait_micros_max ob"
  "queue_depth (update_adapter_metrics a f ob) = queue_depth ob"
  "queue_high_watermark (update_adapter_metrics a f ob) = queue_high_watermark ob"
  "active_events (update_adapter_metrics a f ob) = active_events ob"
  "active_run (update_adapter_metrics a f ob) = active_run ob"
  "phase_atomic (update_adapter_metrics a f ob) = phase_atomic ob"
  "ob_handlers (update_adapter_metrics a f ob) = ob_handlers ob"
  by (simp_all add: update_adapter_metrics_def split: option.splits)

lemmas recorder_defs =
  set_phase_def set_adapter_online_def record_adapter_failure_def record_event_enqueued_def
  record_queue_depth_def record_event_started_def record_event_completed_def record_duplicate_def
  record_event_rejected_def record_unattributed_rejection_def record_handler_def Let_def

lemma unat_one_u64 [simp]: "unat (1 :: u64) = 1"
  by simp

text \<open>The global counters of a run count: after any sequence of recordings, in any order, each
  counter is the number of the operations of its kind, clamped at the largest 64-bit number instead
  of wrapping round; the accumulated waiting time likewise.\<close>

theorem metrics_counters_exact:
  "let ob = apply_metrics ops (configure capacity adapters ob0)
   in unat (events_received ob) = min (count_ops is_enqueued ops) u64_max \<and>
      unat (events_completed ob) = min (count_ops (\<lambda>x. x = M_Completed) ops) u64_max \<and>
      unat (duplicate_events ob) = min (count_ops (\<lambda>x. x = M_Duplicate) ops) u64_max \<and>
      unat (rejected_events ob) = min (count_ops is_rejection ops) u64_max \<and>
      unat (enqueue_wait_micros ob) = min (sum_list (map op_wait ops)) u64_max"
proof (induction ops rule: rev_induct)
  case Nil
  then show ?case by (simp add: configure_def)
next
  case (snoc x ops)
  note IH = snoc [unfolded Let_def]
  show ?case
    using IH unat_sat_add_u64 [OF IH [THEN conjunct1]]
      unat_sat_add_u64 [OF IH [THEN conjunct2, THEN conjunct1]]
      unat_sat_add_u64 [OF IH [THEN conjunct2, THEN conjunct2, THEN conjunct1]]
      unat_sat_add_u64 [OF IH [THEN conjunct2, THEN conjunct2, THEN conjunct2, THEN conjunct1]]
      unat_sat_add_u64 [OF IH [THEN conjunct2, THEN conjunct2, THEN conjunct2, THEN conjunct2]]
    by (cases x) (simp_all add: recorder_defs)
qed

text \<open>The tally of one handler, as unbounded numbers.\<close>

fun handler_op :: "ustr \<Rightarrow> handler_outcome set \<Rightarrow> metric_op \<Rightarrow> bool" where
  "handler_op n outs (M_Handler n' d out) \<longleftrightarrow> n' = n \<and> out \<in> outs"
| "handler_op n outs _ \<longleftrightarrow> False"

fun handler_duration :: "ustr \<Rightarrow> metric_op \<Rightarrow> nat" where
  "handler_duration n (M_Handler n' d out) = (if n' = n then unat (micros_u64 d) else 0)"
| "handler_duration n _ = 0"

definition handler_series :: "runtime_observer \<Rightarrow> ustr \<Rightarrow> handler_metrics" where
  "handler_series ob n =
     (case bt_get (ob_handlers ob) n of Some m \<Rightarrow> m | None \<Rightarrow> default_handler_metrics)"

definition handler_tally :: "ustr \<Rightarrow> metric_op list \<Rightarrow> handler_metrics \<Rightarrow> bool" where
  "handler_tally n ops m \<longleftrightarrow>
     unat (hm_invocations m) = min (count_ops (handler_op n UNIV) ops) u64_max \<and>
     unat (hm_successes m) = min (count_ops (handler_op n {HO_Success}) ops) u64_max \<and>
     unat (hm_failures m) = min (count_ops (handler_op n {HO_Failure}) ops) u64_max \<and>
     unat (hm_timeouts m) = min (count_ops (handler_op n {HO_Timeout}) ops) u64_max \<and>
     unat (hm_duration_micros m) = min (sum_list (map (handler_duration n) ops)) u64_max"

lemma ob_handlers_wf:
  "bt_wf (ob_handlers (apply_metrics ops (configure capacity adapters ob0)))"
proof (induction ops rule: rev_induct)
  case Nil
  then show ?case by (simp add: configure_def map_simps)
next
  case (snoc x ops)
  then show ?case by (cases x) (simp_all add: recorder_defs map_simps)
qed

definition bump :: "nat \<Rightarrow> handler_outcome \<Rightarrow> handler_metrics \<Rightarrow> handler_metrics" where
  "bump d out m =
     m\<lparr>hm_invocations := sat_add (hm_invocations m) 1,
       hm_duration_micros := sat_add (hm_duration_micros m) (micros_u64 d),
       hm_successes := sat_add (hm_successes m) (if out = HO_Success then 1 else 0),
       hm_failures := sat_add (hm_failures m) (if out = HO_Failure then 1 else 0),
       hm_timeouts := sat_add (hm_timeouts m) (if out = HO_Timeout then 1 else 0)\<rparr>"

lemma sat_add_zero [simp]: "sat_add a 0 = a"
  using sat_add_mono [of a 0] by (simp add: sat_add_def)

lemma handler_series_record:
  "bt_wf (ob_handlers ob) \<Longrightarrow>
   handler_series (record_handler n' d out ob) n =
     (if n' = n then bump d out (handler_series ob n) else handler_series ob n)"
  by (cases out)
     (simp_all add: handler_series_def record_handler_def Let_def map_simps bump_def)

lemma handler_tally_step:
  assumes "handler_tally n ops (handler_series ob n)" and "bt_wf (ob_handlers ob)"
  shows "handler_tally n (ops @ [x]) (handler_series (apply_metric x ob) n)"
proof (cases x)
  case (M_Handler n' d out)
  have t: "unat (hm_invocations (handler_series ob n)) = min (count_ops (handler_op n UNIV) ops) u64_max"
    "unat (hm_successes (handler_series ob n)) = min (count_ops (handler_op n {HO_Success}) ops) u64_max"
    "unat (hm_failures (handler_series ob n)) = min (count_ops (handler_op n {HO_Failure}) ops) u64_max"
    "unat (hm_timeouts (handler_series ob n)) = min (count_ops (handler_op n {HO_Timeout}) ops) u64_max"
    "unat (hm_duration_micros (handler_series ob n)) = min (sum_list (map (handler_duration n) ops)) u64_max"
    using assms(1) by (simp_all add: handler_tally_def)
  note sat = t [THEN unat_sat_add_u64]
  show ?thesis
  proof (cases "n' = n")
    case True
    with M_Handler t sat show ?thesis
      by (cases out) (simp_all add: handler_tally_def handler_series_record [OF assms(2)] bump_def)
  next
    case False
    with M_Handler assms show ?thesis
      by (simp add: handler_tally_def handler_series_record)
  qed
qed (use assms(1) in \<open>simp_all add: handler_tally_def handler_series_def recorder_defs\<close>)

text \<open>Per handler, after any sequence of recordings: invocations, successes, failures, timeouts
  and the accumulated duration of the series under a name are the tallies of the recordings under
  that name, saturating; another handler's recordings do not touch them.\<close>

theorem handler_metrics_exact:
  "handler_tally n ops (handler_series (apply_metrics ops (configure capacity adapters ob0)) n)"
proof (induction ops rule: rev_induct)
  case Nil
  then show ?case
    by (simp add: handler_tally_def handler_series_def configure_def map_simps default_handler_metrics_def)
next
  case (snoc x ops)
  then show ?case using handler_tally_step ob_handlers_wf by simp
qed

section \<open>Bounded series, and health\<close>

lemma default_entries_get:
  "bt_wf m \<Longrightarrow> bt_wf (default_entries as m) \<and>
   (\<forall>a. bt_get (default_entries as m) a =
      (case bt_get m a of Some v \<Rightarrow> Some v | None \<Rightarrow> if a \<in> set as then Some default_adapter_metrics else None))"
  by (induction as m rule: default_entries.induct)
     (auto simp: map_simps bt_contains_def split: option.splits)

lemma default_entries_len: "bt_wf m \<Longrightarrow> bt_len (default_entries as m) \<le> bt_len m + length as"
proof (induction as m rule: default_entries.induct)
  case (2 a as m)
  then show ?case
    by (auto simp: bt_contains_def map_simps bt.len_put_new dest: bt.wf_put)
qed simp

text \<open>What an update does to the map of series.\<close>

definition update_series ::
    "adapter_id \<Rightarrow> (adapter_metrics \<Rightarrow> adapter_metrics) \<Rightarrow> (ustr, adapter_metrics) btmap \<Rightarrow>
     (ustr, adapter_metrics) btmap" where
  "update_series a f m =
     (case bt_get m a of
        Some v \<Rightarrow> bt_put a (f v) m
      | None \<Rightarrow> if bt_len m < max_adapter_metric_series then bt_put a (f default_adapter_metrics) m else m)"

lemma ob_adapters_update [simp]:
  "ob_adapters (update_adapter_metrics a f ob) = update_series a f (ob_adapters ob)"
  by (simp add: update_adapter_metrics_def update_series_def split: option.splits)

definition series_ok :: "adapter_id list \<Rightarrow> (ustr, adapter_metrics) btmap \<Rightarrow> bool" where
  "series_ok adapters m \<longleftrightarrow>
     bt_wf m \<and> bt_len m \<le> max max_adapter_metric_series (length adapters) \<and>
     (\<forall>a\<in>set adapters. bt_get m a \<noteq> None)"

lemma update_series_ok: "series_ok adapters m \<Longrightarrow> series_ok adapters (update_series a f m)"
  by (auto simp: series_ok_def update_series_def map_simps bt.len_put_new bt.len_put_old
      split: option.splits)

lemma apply_metric_series:
  "series_ok adapters (ob_adapters ob) \<Longrightarrow> series_ok adapters (ob_adapters (apply_metric x ob))"
  by (cases x) (simp_all add: recorder_defs update_series_ok)

lemma configure_series: "series_ok adapters (ob_adapters (configure capacity adapters ob0))"
proof -
  have wf: "bt_wf ([] :: (ustr, adapter_metrics) btmap)" by (simp add: map_simps)
  show ?thesis
    using default_entries_get [OF wf, of adapters] default_entries_len [OF wf, of adapters]
    by (auto simp: series_ok_def configure_def map_simps)
qed

lemma apply_metrics_series:
  "series_ok adapters (ob_adapters (apply_metrics ops (configure capacity adapters ob0)))"
  by (induction ops rule: rev_induct) (simp_all add: apply_metric_series configure_series)

text \<open>Adapter identifiers that come with events cannot grow the metrics without bound: after any
  sequence of recordings there are at most \<open>MAX_ADAPTER_METRIC_SERIES\<close> series, or as many as there are
  configured adapters if those are more, and every configured adapter still has its series.\<close>

theorem adapter_series_bounded:
  "let ob = apply_metrics ops (configure capacity adapters ob0)
   in bt_wf (ob_adapters ob) \<and>
      bt_len (ob_adapters ob) \<le> max max_adapter_metric_series (length adapters) \<and>
      set adapters \<subseteq> dom (bt_get (ob_adapters ob))"
  using apply_metrics_series [of adapters ops capacity ob0] by (auto simp: series_ok_def Let_def)

lemma filter_all_length: "length (filter P xs) = length xs \<longleftrightarrow> (\<forall>x\<in>set xs. P x)"
proof (induction xs)
  case (Cons x xs)
  have "length (filter P xs) \<noteq> Suc (length xs)"
    by (metis length_filter_le not_less_eq_eq order_refl)
  with Cons show ?case by simp
qed simp

lemma phase_roundtrip [simp]: "phase_from_code (phase_code p) = p"
  by (cases p) (simp_all add: phase_from_code_def)

lemma observer_phase_set [simp]: "observer_phase (set_phase p ob) = p"
  by (simp add: observer_phase_def set_phase_def)

lemma observer_phase_run [simp]: "observer_phase (ob\<lparr>active_run := b\<rparr>) = observer_phase ob"
  by (simp add: observer_phase_def)

text \<open>The series of an adapter after its latest report: the other recordings leave \<open>online\<close> alone.\<close>

fun report :: "adapter_id \<Rightarrow> metric_op \<Rightarrow> bool option" where
  "report a (M_Online a' b) = (if a' = a then Some b else None)"
| "report a (M_Failure a' err) = (if a' = a then Some False else None)"
| "report a _ = None"

fun last_report :: "adapter_id \<Rightarrow> metric_op list \<Rightarrow> bool" where
  "last_report a [] = False"
| "last_report a (x # xs) = (case report a x of Some b \<Rightarrow> b | None \<Rightarrow> last_report a xs)"

definition online_of :: "(ustr, adapter_metrics) btmap \<Rightarrow> adapter_id \<Rightarrow> bool option" where
  "online_of m a = map_option am_online (bt_get m a)"

lemma online_of_update:
  assumes "bt_wf m" and "online_of m a = Some b" and "\<And>v. am_online (f v) = g (am_online v)"
  shows "online_of (update_series a' f m) a = Some (if a' = a then g b else b)"
proof -
  obtain v where v: "bt_get m a = Some v" "am_online v = b"
    using assms(2) by (auto simp: online_of_def)
  show ?thesis
  proof (cases "a' = a")
    case True
    with v show ?thesis by (simp add: online_of_def update_series_def bt.get_put [OF assms(1)] assms(3))
  next
    case False
    with v show ?thesis
      by (simp add: online_of_def update_series_def bt.get_put [OF assms(1)] split: option.splits)
  qed
qed

lemma online_of_step:
  assumes "bt_wf (ob_adapters ob)" and "online_of (ob_adapters ob) a = Some b"
  shows "online_of (ob_adapters (apply_metric x ob)) a =
    Some (case report a x of Some b' \<Rightarrow> b' | None \<Rightarrow> b)"
proof (cases x)
  case (M_Online a' b')
  then show ?thesis
    by (simp add: recorder_defs online_of_update [OF assms, where g = "\<lambda>_. b'"])
next
  case (M_Failure a' err)
  then show ?thesis
    by (simp add: recorder_defs online_of_update [OF assms, where g = "\<lambda>_. False"])
qed (use assms(2) in \<open>simp_all add: recorder_defs online_of_update [OF assms, where g = id]\<close>)

lemma online_of_run:
  assumes "a \<in> set adapters"
  shows "online_of (ob_adapters (apply_metrics ops (configure capacity adapters ob0))) a =
    Some (last_report a (rev ops))"
proof (induction ops rule: rev_induct)
  case Nil
  have wf: "bt_wf ([] :: (ustr, adapter_metrics) btmap)" by (simp add: map_simps)
  show ?case
    using default_entries_get [OF wf, of adapters] assms
    by (simp add: online_of_def configure_def map_simps default_adapter_metrics_def)
next
  case (snoc x ops)
  let ?ob = "apply_metrics ops (configure capacity adapters ob0)"
  have "bt_wf (ob_adapters ?ob)"
    using apply_metrics_series by (auto simp: series_ok_def)
  from online_of_step [OF this snoc] show ?case by (simp split: option.splits)
qed

text \<open>The health of a run is \<open>Healthy\<close> only if the runtime is in the \<open>Running\<close> phase, adapters are
  configured, and the latest report on every one of them was that it is online: an adapter whose last
  report is a failure, or that never reported, makes the run at most \<open>Degraded\<close>.\<close>

theorem healthy_run:
  assumes "rh_status (health (apply_metrics ops (configure capacity adapters ob0))) = Healthy"
  shows "observer_phase (apply_metrics ops (configure capacity adapters ob0)) = Phase_Running \<and>
    (\<forall>a\<in>set adapters. last_report a (rev ops))"
proof -
  let ?ob = "apply_metrics ops (configure capacity adapters ob0)"
  have wf: "bt_wf (ob_adapters ?ob)"
    using apply_metrics_series by (auto simp: series_ok_def)
  have "\<forall>p\<in>set (ob_adapters ?ob). am_online (snd p)" and phase: "observer_phase ?ob = Phase_Running"
    using assms filter_all_length [of "\<lambda>p. am_online (snd p)" "ob_adapters ?ob"]
    by (auto simp: health_def Let_def bt_len_def split: runtime_phase.splits if_splits)
  then have "am_online m" if "bt_get (ob_adapters ?ob) a = Some m" for a m
    using that map_of_SomeD [of "ob_adapters ?ob" a m] by (auto simp: bt_get_def)
  then have "last_report a (rev ops)" if "a \<in> set adapters" for a
    using online_of_run [OF that, of ops capacity ob0] by (auto simp: online_of_def)
  with phase show ?thesis by blast
qed

lemma healthy_run_witness:
  "last_report (lit ''a'') (rev [M_Phase Phase_Running, M_Failure (lit ''a'') AE_EventQueueClosed,
     M_Online (lit ''a'') True])"
  using healthy_run [of "[M_Phase Phase_Running, M_Failure (lit ''a'') AE_EventQueueClosed,
      M_Online (lit ''a'') True]" 1 "[lit ''a'']" new_observer]
  by (simp add: apply_metrics_def health_def configure_def new_observer_def recorder_defs
      update_adapter_metrics_def bt_eval bt_contains_def observer_phase_def default_adapter_metrics_def
      map_of_eq_None_iff)

text \<open>Runs exclude each other: while a run is active a second \<open>begin_run\<close> is refused and changes
  nothing, whatever has been recorded in between; \<open>end_run\<close> frees the observer and leaves no phase
  that looks alive, keeping \<open>Failed\<close>.\<close>

theorem runs_exclude:
  "fst (begin_run capacity adapters ob) = (\<not> active_run ob) \<and>
   (let ob1 = apply_metrics ops (snd (begin_run capacity adapters ob))
    in begin_run capacity' adapters' ob1 = (False, ob1) \<and>
       \<not> active_run (end_run ob1) \<and>
       observer_phase (end_run ob1) =
         (if observer_phase ob1 = Phase_Failed then Phase_Failed else Phase_Stopped))"
proof -
  have step: "active_run (apply_metric x ob) = active_run ob" for x ob
    by (cases x) (simp_all add: recorder_defs)
  have "active_run (apply_metrics ops ob) = active_run ob" for ob
    by (induction ops rule: rev_induct) (simp_all add: step)
  then have "active_run (apply_metrics ops (snd (begin_run capacity adapters ob)))"
    by (simp add: begin_run_def configure_def)
  then show ?thesis
    by (cases "observer_phase (apply_metrics ops (snd (begin_run capacity adapters ob)))")
       (simp_all add: begin_run_def [of capacity'] end_run_def Let_def, simp_all add: begin_run_def)
qed

end
