(* ===== verification/EventQueue.thy ===== *)
theory EventQueue
  imports Metrics
begin

text \<open>
  The adapter side of the runtime's event queue (\<open>crates/bot-core/src/adapter.rs\<close>: \<open>EventSender\<close> and
  \<open>EventPermit\<close>). The bounded channel itself is tokio's \<open>mpsc\<close> and so a parameter: \<open>channel\<close> is what the
  senders call of it and \<open>channel_laws\<close> what tokio documents of those calls. An awaited reservation
  is one step at the moment it completes; \<open>Instant\<close> readings are microseconds handed in by the clock.
\<close>

section \<open>The channel the senders rely on\<close>

datatype try_send_error = TS_Full | TS_Closed

text \<open>Where \<open>reserve\<close> fails, the channel is closed.\<close>

record ('e, 'q) channel =
  ch_reserve :: "'q \<Rightarrow> bool \<times> 'q"
  ch_permit_send :: "'e \<Rightarrow> 'q \<Rightarrow> 'q"
  ch_permit_drop :: "'q \<Rightarrow> 'q"
  ch_try_send :: "'e \<Rightarrow> 'q \<Rightarrow> (try_send_error + unit) \<times> 'q"
  ch_recv :: "'q \<Rightarrow> 'e option \<times> 'q"
  ch_capacity :: "'q \<Rightarrow> nat"
  ch_max_capacity :: nat

section \<open>Senders and permits\<close>

datatype event_send_error =
    ES_AdapterMismatch adapter_id adapter_id
  | ES_QueueFull
  | ES_QueueClosed

record 'q sender_state =
  sq_channel :: 'q
  sq_observer :: runtime_observer

text \<open>A sender is the adapter it is bound to; a permit also knows when its reservation began.\<close>

type_synonym event_sender = adapter_id

definition new_event_sender :: "adapter_id \<Rightarrow> (unit + event_sender)" where
  "new_event_sender a = (if \<not> is_valid_adapter_id a then Inl () else Inr a)"

definition new_event_sender_unchecked :: "adapter_id \<Rightarrow> event_sender" where
  "new_event_sender_unchecked a = a"

record event_permit =
  pm_sender :: event_sender
  pm_started :: nat

definition sender_queue_depth :: "('e, 'q) channel \<Rightarrow> 'q \<Rightarrow> nat" where
  "sender_queue_depth ch q = ch_max_capacity ch - ch_capacity ch q"

definition observed :: "(runtime_observer \<Rightarrow> runtime_observer) \<Rightarrow> 'q sender_state \<Rightarrow> 'q sender_state" where
  "observed f s = s\<lparr>sq_observer := f (sq_observer s)\<rparr>"

text \<open>\<open>EventPermit::send\<close>: on a mismatch the permit is dropped with \<open>self\<close>, which gives its slot back.\<close>

definition permit_send ::
    "('j event_envelope, 'q) channel \<Rightarrow> event_permit \<Rightarrow> nat \<Rightarrow> 'j event_envelope \<Rightarrow> 'q sender_state \<Rightarrow>
     (event_send_error + unit) \<times> 'q sender_state" where
  "permit_send ch p now e s =
     (if env_adapter e \<noteq> pm_sender p
      then (Inl (ES_AdapterMismatch (pm_sender p) (env_adapter e)),
            (observed (record_event_rejected (pm_sender p)) s)
              \<lparr>sq_channel := ch_permit_drop ch (sq_channel s)\<rparr>)
      else
        (let q = ch_permit_send ch e (sq_channel s)
         in (Inr (),
             observed (record_event_enqueued (pm_sender p) (now - pm_started p) (sender_queue_depth ch q))
               (s\<lparr>sq_channel := q\<rparr>))))"

definition sender_reserve ::
    "('e, 'q) channel \<Rightarrow> event_sender \<Rightarrow> nat \<Rightarrow> 'q sender_state \<Rightarrow>
     (event_send_error + event_permit) \<times> 'q sender_state" where
  "sender_reserve ch a started s =
     (case ch_reserve ch (sq_channel s) of
        (False, q) \<Rightarrow> (Inl ES_QueueClosed, observed (record_event_rejected a) (s\<lparr>sq_channel := q\<rparr>))
      | (True, q) \<Rightarrow> (Inr \<lparr>pm_sender = a, pm_started = started\<rparr>, s\<lparr>sq_channel := q\<rparr>))"

definition sender_send ::
    "('j event_envelope, 'q) channel \<Rightarrow> event_sender \<Rightarrow> nat \<Rightarrow> nat \<Rightarrow> 'j event_envelope \<Rightarrow> 'q sender_state \<Rightarrow>
     (event_send_error + unit) \<times> 'q sender_state" where
  "sender_send ch a started now e s =
     (if env_adapter e \<noteq> a
      then (Inl (ES_AdapterMismatch a (env_adapter e)), observed (record_event_rejected a) s)
      else
        (case sender_reserve ch a started s of
           (Inl err, s') \<Rightarrow> (Inl err, s')
         | (Inr p, s') \<Rightarrow> permit_send ch p now e s'))"

definition sender_try_send ::
    "('j event_envelope, 'q) channel \<Rightarrow> event_sender \<Rightarrow> nat \<Rightarrow> nat \<Rightarrow> 'j event_envelope \<Rightarrow> 'q sender_state \<Rightarrow>
     (event_send_error + unit) \<times> 'q sender_state" where
  "sender_try_send ch a started now e s =
     (if env_adapter e \<noteq> a
      then (Inl (ES_AdapterMismatch a (env_adapter e)), observed (record_event_rejected a) s)
      else
        (case ch_try_send ch e (sq_channel s) of
           (Inr _, q) \<Rightarrow>
             (Inr (),
              observed (record_event_enqueued a (now - started) (sender_queue_depth ch q)) (s\<lparr>sq_channel := q\<rparr>))
         | (Inl err, q) \<Rightarrow>
             (Inl (case err of TS_Full \<Rightarrow> ES_QueueFull | TS_Closed \<Rightarrow> ES_QueueClosed),
              observed (record_event_rejected a) (s\<lparr>sq_channel := q\<rparr>))))"

definition sender_mark_ready :: "event_sender \<Rightarrow> 'q sender_state \<Rightarrow> 'q sender_state" where
  "sender_mark_ready a s = observed (set_adapter_online a True) s"

definition sender_mark_not_ready :: "event_sender \<Rightarrow> 'q sender_state \<Rightarrow> 'q sender_state" where
  "sender_mark_not_ready a s = observed (set_adapter_online a False) s"

section \<open>Histories of all senders of one queue\<close>

text \<open>Permits that are reserved and neither sent nor dropped yet are held in a list.\<close>

datatype 'j queue_op =
    Q_Send event_sender nat nat "'j event_envelope"
  | Q_TrySend event_sender nat nat "'j event_envelope"
  | Q_Reserve event_sender nat
  | Q_PermitSend nat nat "'j event_envelope"
  | Q_PermitDrop nat
  | Q_Ready event_sender bool
  | Q_Recv

record ('j, 'q) queue_run =
  qr_state :: "'q sender_state"
  qr_held :: "event_permit list"
  qr_received :: "'j event_envelope list"
  qr_results :: "('j event_envelope option \<times> (event_send_error + unit)) list"

definition remove_nth :: "nat \<Rightarrow> 'a list \<Rightarrow> 'a list" where
  "remove_nth n xs = take n xs @ drop (Suc n) xs"

definition finished_send ::
    "'j event_envelope option \<Rightarrow> (event_send_error + unit) \<times> 'q sender_state \<Rightarrow> ('j, 'q) queue_run \<Rightarrow>
     ('j, 'q) queue_run" where
  "finished_send e r x = x\<lparr>qr_state := snd r, qr_results := qr_results x @ [(e, fst r)]\<rparr>"

fun queue_step ::
    "('j event_envelope, 'q) channel \<Rightarrow> 'j queue_op \<Rightarrow> ('j, 'q) queue_run \<Rightarrow> ('j, 'q) queue_run" where
  "queue_step ch (Q_Send a t0 t1 e) x = finished_send (Some e) (sender_send ch a t0 t1 e (qr_state x)) x"
| "queue_step ch (Q_TrySend a t0 t1 e) x = finished_send (Some e) (sender_try_send ch a t0 t1 e (qr_state x)) x"
| "queue_step ch (Q_Reserve a t0) x =
     (case sender_reserve ch a t0 (qr_state x) of
        (Inr p, s) \<Rightarrow> x\<lparr>qr_state := s, qr_held := qr_held x @ [p]\<rparr>
      | (Inl err, s) \<Rightarrow> finished_send None (Inl err, s) x)"
| "queue_step ch (Q_PermitSend n t1 e) x =
     (if n < length (qr_held x)
      then finished_send (Some e) (permit_send ch (qr_held x ! n) t1 e (qr_state x))
             (x\<lparr>qr_held := remove_nth n (qr_held x)\<rparr>)
      else x)"
| "queue_step ch (Q_PermitDrop n) x =
     (if n < length (qr_held x)
      then x\<lparr>qr_held := remove_nth n (qr_held x),
             qr_state := (qr_state x)\<lparr>sq_channel := ch_permit_drop ch (sq_channel (qr_state x))\<rparr>\<rparr>
      else x)"
| "queue_step ch (Q_Ready a b) x =
     x\<lparr>qr_state := (if b then sender_mark_ready a else sender_mark_not_ready a) (qr_state x)\<rparr>"
| "queue_step ch Q_Recv x =
     (case ch_recv ch (sq_channel (qr_state x)) of
        (None, q) \<Rightarrow> x\<lparr>qr_state := (qr_state x)\<lparr>sq_channel := q\<rparr>\<rparr>
      | (Some e, q) \<Rightarrow> x\<lparr>qr_state := (qr_state x)\<lparr>sq_channel := q\<rparr>, qr_received := qr_received x @ [e]\<rparr>)"

definition queue_history ::
    "('j event_envelope, 'q) channel \<Rightarrow> 'q \<Rightarrow> runtime_observer \<Rightarrow> 'j queue_op list \<Rightarrow> ('j, 'q) queue_run" where
  "queue_history ch q0 ob ops =
     foldl (\<lambda>x p. queue_step ch p x)
       \<lparr>qr_state = \<lparr>sq_channel = q0, sq_observer = ob\<rparr>, qr_held = [], qr_received = [], qr_results = []\<rparr> ops"

text \<open>
  What tokio documents of a bounded channel, over the queued messages \<open>items\<close> and the number of
  outstanding \<open>permits\<close>: both together never exceed the capacity it was made with, a reservation takes
  a slot that sending or dropping the permit uses or returns, and messages arrive in order.
\<close>

definition channel_laws :: "('e, 'q) channel \<Rightarrow> ('q \<Rightarrow> 'e list) \<Rightarrow> ('q \<Rightarrow> nat) \<Rightarrow> bool" where
  "channel_laws ch items permits \<longleftrightarrow>
     (\<forall>q ok q'. ch_reserve ch q = (ok, q') \<longrightarrow>
        (if ok then items q' = items q \<and> permits q' = Suc (permits q) \<and>
                    length (items q) + permits q < ch_max_capacity ch
         else items q' = items q \<and> permits q' = permits q)) \<and>
     (\<forall>q e. 0 < permits q \<longrightarrow>
        items (ch_permit_send ch e q) = items q @ [e] \<and> permits (ch_permit_send ch e q) = permits q - 1) \<and>
     (\<forall>q. 0 < permits q \<longrightarrow>
        items (ch_permit_drop ch q) = items q \<and> permits (ch_permit_drop ch q) = permits q - 1) \<and>
     (\<forall>q e r q'. ch_try_send ch e q = (r, q') \<longrightarrow>
        permits q' = permits q \<and>
        (case r of
           Inr _ \<Rightarrow> items q' = items q @ [e] \<and> length (items q) + permits q < ch_max_capacity ch
         | Inl _ \<Rightarrow> items q' = items q)) \<and>
     (\<forall>q r q'. ch_recv ch q = (r, q') \<longrightarrow>
        permits q' = permits q \<and>
        (case r of Some e \<Rightarrow> items q = e # items q' | None \<Rightarrow> items q = [] \<and> items q' = [])) \<and>
     (\<forall>q. length (items q) + permits q \<le> ch_max_capacity ch \<longrightarrow>
        ch_capacity ch q = ch_max_capacity ch - (length (items q) + permits q))"

section \<open>What the histories keep\<close>

definition accepted_events :: "('j event_envelope option \<times> (event_send_error + unit)) list \<Rightarrow> 'j event_envelope list" where
  "accepted_events rs = concat (map (\<lambda>r. case r of (Some e, Inr _) \<Rightarrow> [e] | _ \<Rightarrow> []) rs)"

definition failed_sends :: "('j event_envelope option \<times> (event_send_error + unit)) list \<Rightarrow> nat" where
  "failed_sends rs = length (filter (\<lambda>r. \<exists>err. snd r = Inl err) rs)"

lemma accepted_events_simps [simp]:
  "accepted_events [] = []"
  "accepted_events (rs @ [(Some e, Inr u)]) = accepted_events rs @ [e]"
  "accepted_events (rs @ [(oe, Inl err)]) = accepted_events rs"
  by (simp_all add: accepted_events_def split: option.splits)

lemma length_accepted_events:
  "length (accepted_events rs) = length (filter (\<lambda>r. fst r \<noteq> None \<and> snd r = Inr ()) rs)"
  by (induction rs) (auto simp: accepted_events_def split: option.splits sum.splits)

lemma failed_sends_simps [simp]:
  "failed_sends [] = 0"
  "failed_sends (rs @ [(oe, Inr u)]) = failed_sends rs"
  "failed_sends (rs @ [(oe, Inl err)]) = Suc (failed_sends rs)"
  by (simp_all add: failed_sends_def)

fun op_senders :: "'j queue_op \<Rightarrow> adapter_id set" where
  "op_senders (Q_Send a _ _ _) = {a}"
| "op_senders (Q_TrySend a _ _ _) = {a}"
| "op_senders (Q_Reserve a _) = {a}"
| "op_senders _ = {}"

definition queue_inv ::
    "('j event_envelope, 'q) channel \<Rightarrow> ('q \<Rightarrow> 'j event_envelope list) \<Rightarrow> ('q \<Rightarrow> nat) \<Rightarrow> adapter_id set \<Rightarrow>
     ('j, 'q) queue_run \<Rightarrow> bool" where
  "queue_inv ch items permits as x \<longleftrightarrow>
     (let q = sq_channel (qr_state x); ob = sq_observer (qr_state x) in
      qr_received x @ items q = accepted_events (qr_results x) \<and>
      permits q = length (qr_held x) \<and>
      length (items q) + permits q \<le> ch_max_capacity ch \<and>
      queue_high_watermark ob \<le> ch_max_capacity ch \<and>
      unat (events_received ob) = min (length (accepted_events (qr_results x))) u64_max \<and>
      unat (rejected_events ob) = min (failed_sends (qr_results x)) u64_max \<and>
      (\<forall>p\<in>set (qr_held x). pm_sender p \<in> as) \<and>
      env_adapter ` set (accepted_events (qr_results x)) \<subseteq> as)"

lemma set_remove_nth: "set (remove_nth n xs) \<subseteq> set xs"
  by (auto simp: remove_nth_def dest: in_set_takeD in_set_dropD)

lemma length_remove_nth: "n < length xs \<Longrightarrow> Suc (length (remove_nth n xs)) = length xs"
  by (simp add: remove_nth_def)

lemma remove_nth_pos: "n < length xs \<Longrightarrow> 0 < length xs"
  by linarith

lemma record_event_rejected_queue [simp]:
  "events_received (record_event_rejected a ob) = events_received ob"
  "queue_high_watermark (record_event_rejected a ob) = queue_high_watermark ob"
  "rejected_events (record_event_rejected a ob) = sat_add (rejected_events ob) 1"
  by (simp_all add: record_event_rejected_def)

lemma record_event_enqueued_queue [simp]:
  "events_received (record_event_enqueued a w d ob) = sat_add (events_received ob) 1"
  "queue_high_watermark (record_event_enqueued a w d ob) = max (queue_high_watermark ob) d"
  "rejected_events (record_event_enqueued a w d ob) = rejected_events ob"
  by (simp_all add: record_event_enqueued_def Let_def)

lemma set_adapter_online_queue [simp]:
  "events_received (set_adapter_online a b ob) = events_received ob"
  "queue_high_watermark (set_adapter_online a b ob) = queue_high_watermark ob"
  "rejected_events (set_adapter_online a b ob) = rejected_events ob"
  by (simp_all add: set_adapter_online_def)

lemma channel_lawsD:
  assumes "channel_laws ch items permits"
  shows law_reserve_ok: "ch_reserve ch q = (True, q') \<Longrightarrow>
      items q' = items q \<and> permits q' = Suc (permits q) \<and> length (items q) + permits q < ch_max_capacity ch"
    and law_reserve_closed: "ch_reserve ch q = (False, q') \<Longrightarrow> items q' = items q \<and> permits q' = permits q"
    and law_permit_send: "0 < permits q \<Longrightarrow>
      items (ch_permit_send ch e q) = items q @ [e] \<and> permits (ch_permit_send ch e q) = permits q - 1"
    and law_permit_drop: "0 < permits q \<Longrightarrow>
      items (ch_permit_drop ch q) = items q \<and> permits (ch_permit_drop ch q) = permits q - 1"
    and law_try_ok: "ch_try_send ch e q = (Inr u, q') \<Longrightarrow>
      items q' = items q @ [e] \<and> permits q' = permits q \<and> length (items q) + permits q < ch_max_capacity ch"
    and law_try_fail: "ch_try_send ch e q = (Inl err, q') \<Longrightarrow> items q' = items q \<and> permits q' = permits q"
    and law_recv_some: "ch_recv ch q = (Some e, q') \<Longrightarrow> items q = e # items q' \<and> permits q' = permits q"
    and law_recv_none: "ch_recv ch q = (None, q') \<Longrightarrow>
      items q = [] \<and> items q' = [] \<and> permits q' = permits q"
  using assms unfolding channel_laws_def by (auto split: if_splits; fastforce)+

lemma unat_count_step:
  "unat (c :: u64) = min n u64_max \<Longrightarrow> unat (sat_add c 1) = min (Suc n) u64_max"
  using unat_sat_add_u64 [of c n 1] by simp

text \<open>The ways in which one step changes a run.\<close>

lemma queue_inv_reject:
  assumes "queue_inv ch items permits as x"
    and "items q' = items (sq_channel (qr_state x))" "permits q' = length held'"
    and "length held' \<le> length (qr_held x)" "set held' \<subseteq> set (qr_held x)"
  shows "queue_inv ch items permits as
     (x\<lparr>qr_state := \<lparr>sq_channel = q', sq_observer = record_event_rejected a (sq_observer (qr_state x))\<rparr>,
        qr_held := held', qr_results := qr_results x @ [(oe, Inl err)]\<rparr>)"
  using assms unat_count_step unfolding queue_inv_def Let_def by auto

lemma queue_inv_accept:
  assumes "queue_inv ch items permits as x" "channel_laws ch items permits"
    and "items q' = items (sq_channel (qr_state x)) @ [e]" "permits q' = length held'"
    and "length (items q') + permits q' \<le> ch_max_capacity ch"
    and "set held' \<subseteq> set (qr_held x)" "env_adapter e \<in> as"
  shows "queue_inv ch items permits as
     (x\<lparr>qr_state := \<lparr>sq_channel = q', sq_observer =
          record_event_enqueued a w (sender_queue_depth ch q') (sq_observer (qr_state x))\<rparr>,
        qr_held := held', qr_results := qr_results x @ [(Some e, Inr ())]\<rparr>)"
proof -
  have "sender_queue_depth ch q' \<le> ch_max_capacity ch" by (simp add: sender_queue_depth_def)
  with assms unat_count_step show ?thesis unfolding queue_inv_def Let_def by auto
qed

lemma queue_inv_channel:
  assumes "queue_inv ch items permits as x" "items q' = items (sq_channel (qr_state x))"
    and "permits q' = length held'" "length (items q') + permits q' \<le> ch_max_capacity ch"
    and "\<forall>p\<in>set held'. pm_sender p \<in> as"
  shows "queue_inv ch items permits as
     (x\<lparr>qr_state := (qr_state x)\<lparr>sq_channel := q'\<rparr>, qr_held := held'\<rparr>)"
  using assms unfolding queue_inv_def Let_def by auto

lemma qr_update_same [simp]:
  "x\<lparr>qr_state := s, qr_held := qr_held x\<rparr> = x\<lparr>qr_state := s\<rparr>"
  "x\<lparr>qr_state := s, qr_held := qr_held x, qr_results := r\<rparr> = x\<lparr>qr_state := s, qr_results := r\<rparr>"
  by simp_all

lemma qr_update_order: "x\<lparr>qr_held := h, qr_state := s\<rparr> = x\<lparr>qr_state := s, qr_held := h\<rparr>"
  by simp

lemma observed_expand:
  "observed f (s\<lparr>sq_channel := q\<rparr>) = \<lparr>sq_channel = q, sq_observer = f (sq_observer s)\<rparr>"
  "(observed f s)\<lparr>sq_channel := q\<rparr> = \<lparr>sq_channel = q, sq_observer = f (sq_observer s)\<rparr>"
  "observed f s = \<lparr>sq_channel = sq_channel s, sq_observer = f (sq_observer s)\<rparr>"
  by (simp_all add: observed_def)

lemma queue_inv_reserve:
  assumes inv: "queue_inv ch items permits as x" and laws: "channel_laws ch items permits"
    and a: "a \<in> as" and r: "sender_reserve ch a t (qr_state x) = (r, s')"
  shows "case r of
      Inl err \<Rightarrow> queue_inv ch items permits as (finished_send oe (Inl err, s') x)
    | Inr p \<Rightarrow> pm_sender p = a \<and>
        queue_inv ch items permits as (x\<lparr>qr_state := s', qr_held := qr_held x @ [p]\<rparr>)"
proof -
  obtain ok q' where q: "ch_reserve ch (sq_channel (qr_state x)) = (ok, q')" by fastforce
  show ?thesis
  proof (cases ok)
    case True
    then have new: "items q' = items (sq_channel (qr_state x))"
        "permits q' = Suc (permits (sq_channel (qr_state x)))"
        "length (items (sq_channel (qr_state x))) + permits (sq_channel (qr_state x)) < ch_max_capacity ch"
      using law_reserve_ok [OF laws] q by auto
    from inv have "permits (sq_channel (qr_state x)) = length (qr_held x)" "\<forall>p\<in>set (qr_held x). pm_sender p \<in> as"
      by (simp_all add: queue_inv_def Let_def)
    with new a True q r queue_inv_channel [OF inv, of q' "qr_held x @ [\<lparr>pm_sender = a, pm_started = t\<rparr>]"]
    show ?thesis by (auto simp: sender_reserve_def)
  next
    case False
    then have "items q' = items (sq_channel (qr_state x))" "permits q' = permits (sq_channel (qr_state x))"
      using law_reserve_closed [OF laws] q by auto
    with inv False q r queue_inv_reject [OF inv, of q' "qr_held x"] show ?thesis
      by (auto simp: sender_reserve_def finished_send_def observed_expand queue_inv_def Let_def)
  qed
qed

lemma queue_inv_permit_send:
  assumes inv: "queue_inv ch items permits as x" and laws: "channel_laws ch items permits"
    and n: "n < length (qr_held x)"
  shows "queue_inv ch items permits as
    (finished_send (Some e) (permit_send ch (qr_held x ! n) t e (qr_state x))
       (x\<lparr>qr_held := remove_nth n (qr_held x)\<rparr>))"
proof -
  let ?q = "sq_channel (qr_state x)" and ?p = "qr_held x ! n"
  let ?held = "remove_nth n (qr_held x)"
  from inv have p: "permits ?q = length (qr_held x)" "length (items ?q) + permits ?q \<le> ch_max_capacity ch"
      "\<forall>p\<in>set (qr_held x). pm_sender p \<in> as"
    by (simp_all add: queue_inv_def Let_def)
  with n have pos: "0 < permits ?q" by linarith
  note len = length_remove_nth [OF n]
  show ?thesis
  proof (cases "env_adapter e = pm_sender ?p")
    case True
    from p n True have "env_adapter e \<in> as" by auto
    with law_permit_send [OF laws pos, of e] p len
    have "queue_inv ch items permits as
     (x\<lparr>qr_state := \<lparr>sq_channel = ch_permit_send ch e ?q, sq_observer =
          record_event_enqueued (pm_sender ?p) (t - pm_started ?p)
            (sender_queue_depth ch (ch_permit_send ch e ?q)) (sq_observer (qr_state x))\<rparr>,
        qr_held := ?held, qr_results := qr_results x @ [(Some e, Inr ())]\<rparr>)"
      by (intro queue_inv_accept [OF inv laws]) (auto simp: set_remove_nth)
    with True show ?thesis
      by (simp add: finished_send_def permit_send_def observed_expand qr_update_order Let_def)
  next
    case False
    from law_permit_drop [OF laws pos] p len
    have "queue_inv ch items permits as
     (x\<lparr>qr_state := \<lparr>sq_channel = ch_permit_drop ch ?q, sq_observer =
          record_event_rejected (pm_sender ?p) (sq_observer (qr_state x))\<rparr>,
        qr_held := ?held,
        qr_results := qr_results x @ [(Some e, Inl (ES_AdapterMismatch (pm_sender ?p) (env_adapter e)))]\<rparr>)"
      by (intro queue_inv_reject [OF inv]) (auto simp: set_remove_nth)
    with False show ?thesis
      by (simp add: finished_send_def permit_send_def observed_expand qr_update_order)
  qed
qed

lemma remove_nth_snoc [simp]: "remove_nth (length xs) (xs @ [y]) = xs"
  by (simp add: remove_nth_def)

lemma queue_inv_send:
  assumes inv: "queue_inv ch items permits as x" and laws: "channel_laws ch items permits" and a: "a \<in> as"
  shows "queue_inv ch items permits as (finished_send (Some e) (sender_send ch a t0 t1 e (qr_state x)) x)"
proof (cases "env_adapter e = a")
  case True
  obtain r s' where r: "sender_reserve ch a t0 (qr_state x) = (r, s')" by fastforce
  note res = queue_inv_reserve [OF inv laws a r, of "Some e"]
  show ?thesis
  proof (cases r)
    case (Inl err)
    with True r res show ?thesis by (simp add: sender_send_def)
  next
    case (Inr p)
    let ?y = "x\<lparr>qr_state := s', qr_held := qr_held x @ [p]\<rparr>"
    from res Inr have "queue_inv ch items permits as ?y" by simp
    from queue_inv_permit_send [OF this laws, of "length (qr_held x)" e t1] True r Inr
    show ?thesis by (simp add: sender_send_def finished_send_def)
  qed
next
  case False
  with inv queue_inv_reject [OF inv, of "sq_channel (qr_state x)" "qr_held x"] show ?thesis
    by (simp add: sender_send_def finished_send_def observed_expand queue_inv_def Let_def)
qed

lemma queue_inv_try_send:
  assumes inv: "queue_inv ch items permits as x" and laws: "channel_laws ch items permits" and a: "a \<in> as"
  shows "queue_inv ch items permits as (finished_send (Some e) (sender_try_send ch a t0 t1 e (qr_state x)) x)"
proof (cases "env_adapter e = a")
  case True
  let ?q = "sq_channel (qr_state x)"
  obtain r q' where r: "ch_try_send ch e ?q = (r, q')" by fastforce
  from inv have p: "permits ?q = length (qr_held x)" by (simp add: queue_inv_def Let_def)
  show ?thesis
  proof (cases r)
    case (Inl err)
    with p r law_try_fail [OF laws] queue_inv_reject [OF inv, of q' "qr_held x"]
    show ?thesis using True
      by (simp add: sender_try_send_def finished_send_def observed_expand)
  next
    case (Inr u)
    with p r a law_try_ok [OF laws, of e "sq_channel (qr_state x)" u q'] queue_inv_accept [OF inv laws, of q' e "qr_held x" a "t1 - t0"]
    show ?thesis using True
      by (simp add: sender_try_send_def finished_send_def observed_expand)
  qed
next
  case False
  with inv queue_inv_reject [OF inv, of "sq_channel (qr_state x)" "qr_held x"] show ?thesis
    by (simp add: sender_try_send_def finished_send_def observed_expand queue_inv_def Let_def)
qed

lemma queue_inv_ready:
  "queue_inv ch items permits as x \<Longrightarrow>
   queue_inv ch items permits as (x\<lparr>qr_state := observed (set_adapter_online a b) (qr_state x)\<rparr>)"
  by (simp add: queue_inv_def Let_def observed_def)

lemma queue_inv_recv:
  assumes inv: "queue_inv ch items permits as x" and laws: "channel_laws ch items permits"
  shows "queue_inv ch items permits as (queue_step ch Q_Recv x)"
proof -
  obtain r q' where r: "ch_recv ch (sq_channel (qr_state x)) = (r, q')" by fastforce
  with inv law_recv_some [OF laws, of "sq_channel (qr_state x)" _ q']
    law_recv_none [OF laws, of "sq_channel (qr_state x)" q']
  show ?thesis by (cases r) (auto simp: queue_inv_def Let_def)
qed

lemma queue_inv_step:
  assumes inv: "queue_inv ch items permits as x" and laws: "channel_laws ch items permits"
    and as: "op_senders p \<subseteq> as"
  shows "queue_inv ch items permits as (queue_step ch p x)"
proof (cases p)
  case (Q_Reserve a t)
  obtain r s' where r: "sender_reserve ch a t (qr_state x) = (r, s')" by fastforce
  with queue_inv_reserve [OF inv laws _ r, of None] as Q_Reserve show ?thesis
    by (cases r) auto
next
  case (Q_PermitDrop n)
  let ?q = "sq_channel (qr_state x)"
  show ?thesis
  proof (cases "n < length (qr_held x)")
    case True
    from inv have p: "permits ?q = length (qr_held x)" "length (items ?q) + permits ?q \<le> ch_max_capacity ch"
        "\<forall>p\<in>set (qr_held x). pm_sender p \<in> as"
      by (simp_all add: queue_inv_def Let_def)
    with True have "0 < permits ?q" by linarith
    with p law_permit_drop [OF laws, of ?q] length_remove_nth [OF True]
      set_remove_nth [of n "qr_held x"]
    have "queue_inv ch items permits as
        (x\<lparr>qr_state := (qr_state x)\<lparr>sq_channel := ch_permit_drop ch ?q\<rparr>, qr_held := remove_nth n (qr_held x)\<rparr>)"
      by (intro queue_inv_channel [OF inv]) auto
    with True Q_PermitDrop show ?thesis by (simp add: qr_update_order)
  qed (use inv Q_PermitDrop in simp)
qed (use inv laws as in \<open>auto simp: sender_mark_ready_def sender_mark_not_ready_def
        simp del: queue_step.simps(7) intro: queue_inv_send queue_inv_try_send queue_inv_permit_send queue_inv_ready queue_inv_recv\<close>)

definition fresh_observer :: "runtime_observer \<Rightarrow> bool" where
  "fresh_observer ob \<longleftrightarrow> events_received ob = 0 \<and> rejected_events ob = 0 \<and> queue_high_watermark ob = 0"

lemma queue_history_inv:
  assumes "channel_laws ch items permits" "items q0 = []" "permits q0 = 0" "fresh_observer ob"
    and "\<Union> (op_senders ` set ops) \<subseteq> as"
  shows "queue_inv ch items permits as (queue_history ch q0 ob ops)"
  using assms(5)
proof (induction ops rule: rev_induct)
  case Nil
  with assms show ?case by (simp add: queue_history_def queue_inv_def fresh_observer_def)
next
  case (snoc p ops)
  then show ?case using queue_inv_step [OF _ assms(1)] by (simp add: queue_history_def)
qed

lemma configure_fresh: "fresh_observer (configure n as ob)"
  by (simp add: configure_def fresh_observer_def)

text \<open>A channel with the documented behaviour: the queued messages, the number of permits, and whether
  it is open.\<close>

definition list_channel :: "nat \<Rightarrow> ('e, 'e list \<times> nat \<times> bool) channel" where
  "list_channel n = \<lparr>
     ch_reserve = (\<lambda>(xs, p, open). if open \<and> length xs + p < n then (True, (xs, Suc p, open))
                                   else (False, (xs, p, open))),
     ch_permit_send = (\<lambda>e (xs, p, open). (xs @ [e], p - 1, open)),
     ch_permit_drop = (\<lambda>(xs, p, open). (xs, p - 1, open)),
     ch_try_send = (\<lambda>e (xs, p, open). if \<not> open then (Inl TS_Closed, (xs, p, open))
                      else if length xs + p < n then (Inr (), (xs @ [e], p, open))
                      else (Inl TS_Full, (xs, p, open))),
     ch_recv = (\<lambda>(xs, p, open). case xs of [] \<Rightarrow> (None, (xs, p, open)) | x # xs' \<Rightarrow> (Some x, (xs', p, open))),
     ch_capacity = (\<lambda>(xs, p, open). n - (length xs + p)),
     ch_max_capacity = n\<rparr>"

lemma list_channel_laws: "channel_laws (list_channel n) fst (\<lambda>q. fst (snd q))"
  by (auto simp: channel_laws_def list_channel_def split: if_splits list.splits)

text \<open>[C30] The queue keeps what it accepts and nothing else: in any history of sends, reservations,
  permits and receptions by any number of senders, the events received and still queued are, in order,
  exactly the events whose send reported success. Each of them carries the identifier of the adapter
  that one of the senders is bound to, and queued events and open permits together never exceed the
  capacity, not even after sends that failed with a permit in hand.\<close>

theorem queue_fifo_no_loss:
  assumes "channel_laws ch items permits" "items q0 = []" "permits q0 = 0"
  shows "let x = queue_history ch q0 (configure n as ob) ops; q = sq_channel (qr_state x)
    in qr_received x @ items q = accepted_events (qr_results x) \<and>
       env_adapter ` set (qr_received x @ items q) \<subseteq> \<Union> (op_senders ` set ops) \<and>
       permits q = length (qr_held x) \<and>
       length (items q) + length (qr_held x) \<le> ch_max_capacity ch"
  using queue_history_inv [OF assms configure_fresh order_refl]
  unfolding Let_def queue_inv_def by metis

definition demo_event :: "string \<Rightarrow> unit event_envelope" where
  "demo_event a = \<lparr>env_id = lit ''e'', env_adapter = lit a, delivery_id = None, timestamp = None,
     env_event = Event_Notice (), raw = ()\<rparr>"

definition demo_queue_ops :: "unit queue_op list" where
  "demo_queue_ops =
    [Q_Send (lit ''a'') 0 5 (demo_event ''a''), Q_TrySend (lit ''a'') 6 6 (demo_event ''b''),
     Q_Reserve (lit ''b'') 7, Q_TrySend (lit ''a'') 8 8 (demo_event ''a''),
     Q_PermitSend 0 9 (demo_event ''a''), Q_Recv, Q_Send (lit ''b'') 9 9 (demo_event ''b'')]"

definition demo_queue_run :: "(unit, unit event_envelope list \<times> nat \<times> bool) queue_run" where
  "demo_queue_run = queue_history (list_channel 2) ([], 0, True) (configure 2 [lit ''a'', lit ''b''] new_observer) demo_queue_ops"

lemma demo_queue_results:
  "qr_results demo_queue_run =
     [(Some (demo_event ''a''), Inr ()),
      (Some (demo_event ''b''), Inl (ES_AdapterMismatch (lit ''a'') (lit ''b''))),
      (Some (demo_event ''a''), Inl ES_QueueFull),
      (Some (demo_event ''a''), Inl (ES_AdapterMismatch (lit ''b'') (lit ''a''))),
      (Some (demo_event ''b''), Inr ())]"
  by code_simp

lemma queue_fifo_no_loss_witness:
  "(let q = sq_channel (qr_state demo_queue_run)
    in qr_received demo_queue_run @ fst q = accepted_events (qr_results demo_queue_run) \<and>
       env_adapter ` set (qr_received demo_queue_run @ fst q) \<subseteq> \<Union> (op_senders ` set demo_queue_ops) \<and>
       fst (snd q) = length (qr_held demo_queue_run) \<and>
       length (fst q) + length (qr_held demo_queue_run) \<le> ch_max_capacity (list_channel 2 :: (unit event_envelope, unit event_envelope list \<times> nat \<times> bool) channel)) \<and>
   accepted_events (qr_results demo_queue_run) = [demo_event ''a'', demo_event ''b'']"
  using queue_fifo_no_loss [OF list_channel_laws [of 2], of "([], 0, True)" 2 "[lit ''a'', lit ''b'']"
      new_observer demo_queue_ops, folded demo_queue_run_def]
  by (simp add: Let_def demo_queue_results accepted_events_def del: lit_Cons lit_Nil)

text \<open>The metrics tell the truth about the queue: over any history from a freshly configured
  observer, the number of received events is the number of successful sends and the number of rejected
  events is the number of failed sends and reservations (both clamped at the 64-bit maximum), and the
  recorded high watermark never exceeds the capacity of the channel.\<close>

theorem queue_observed_exactly:
  assumes "channel_laws ch items permits" "items q0 = []" "permits q0 = 0"
  shows "let x = queue_history ch q0 (configure n as ob) ops; ob' = sq_observer (qr_state x)
    in unat (events_received ob') = min (length (filter (\<lambda>r. fst r \<noteq> None \<and> snd r = Inr ()) (qr_results x))) u64_max \<and>
       unat (rejected_events ob') = min (failed_sends (qr_results x)) u64_max \<and>
       queue_high_watermark ob' \<le> ch_max_capacity ch"
  using queue_history_inv [OF assms configure_fresh order_refl]
  by (simp add: Let_def queue_inv_def length_accepted_events)

lemma queue_observed_exactly_witness:
  "(let ob' = sq_observer (qr_state demo_queue_run)
    in unat (events_received ob') = min 2 u64_max \<and> unat (rejected_events ob') = min 3 u64_max \<and>
       queue_high_watermark ob' \<le> 2)"
  using queue_observed_exactly [OF list_channel_laws [of 2], of "([], 0, True)" 2 "[lit ''a'', lit ''b'']"
      new_observer demo_queue_ops, folded demo_queue_run_def]
  by (simp add: Let_def demo_queue_results failed_sends_def) (simp add: list_channel_def eval_nat_numeral)

end
