(* ===== verification/RuntimeBuild.thy ===== *)
theory RuntimeBuild
  imports EventRouter Metrics
begin

text \<open>
  Building a runtime (\<open>crates/bot-core/src/runtime.rs\<close>: \<open>HandlerPolicy\<close>, \<open>RuntimeBuilder\<close>,
  \<open>RuntimeBuilder::build\<close>) and the outcome of an awaited call as the dispatcher sees it. The limit
  \<open>Semaphore::MAX_PERMITS\<close> of the tokio library is a parameter. Durations are milliseconds.
\<close>

section \<open>Awaited calls with a deadline\<close>

text \<open>
  A call under \<open>tokio::time::timeout\<close> answers, runs into its deadline, or never gives control back:
  the task that awaits it is aborted or the call panics. Either way the task is torn down and its
  \<open>Drop\<close> guards run.
\<close>

datatype 'a answer = Answered 'a | Timed_Out | Torn_Down

section \<open>Handlers and policies\<close>

text \<open>\<open>eh_handle budget\<close> is the handler under a deadline: how the time \<open>budget\<close>, in which it also
  waits for a permit of its own semaphore, works out is up to the world outside.\<close>

record ('j, 'w) event_handler_object =
  eh_name :: ustr
  eh_handle :: "nat \<Rightarrow> 'j event_context \<Rightarrow> 'j event \<Rightarrow> 'w \<Rightarrow> (handler_error + unit) answer \<times> 'w"

record handler_policy =
  policy_timeout :: "nat option"
  policy_max_concurrency :: "nat option"

definition default_policy :: handler_policy where
  "default_policy = \<lparr>policy_timeout = None, policy_max_concurrency = None\<rparr>"

definition policy_with_timeout :: "nat \<Rightarrow> handler_policy \<Rightarrow> handler_policy" where
  "policy_with_timeout d p = p\<lparr>policy_timeout := Some d\<rparr>"

definition policy_with_concurrency :: "nat \<Rightarrow> handler_policy \<Rightarrow> handler_policy" where
  "policy_with_concurrency n p = p\<lparr>policy_max_concurrency := Some (max n 1)\<rparr>"

text \<open>\<open>rh_permits\<close> is the size of the handler's semaphore, if it has one.\<close>

record ('j, 'w) registered_handler =
  reg_name :: ustr
  reg_handler :: "('j, 'w) event_handler_object"
  reg_policy :: handler_policy
  reg_permits :: "nat option"

section \<open>The builder\<close>

definition max_registered_handlers :: nat where "max_registered_handlers = 4096"
definition max_handler_name_bytes :: nat where "max_handler_name_bytes = 128"
definition max_runtime_queue_capacity :: nat where "max_runtime_queue_capacity = 16384"

datatype runtime_error =
    RT_DuplicateAdapter adapter_id
  | RT_InvalidAdapterId nat
  | RT_NoAdapters
  | RT_TooManyAdapters
  | RT_ObserverInUse
  | RT_TooManyHandlers
  | RT_InvalidHandlerName nat
  | RT_DuplicateHandler ustr
  | RT_AllAdaptersStopped
  | RT_AdapterJoin
  | RT_AdapterStopped adapter_id adapter_error
  | RT_EventJoin
  | RT_EventDrainTimeout
  | RT_AdapterDrainTimeout
  | RT_AdapterShutdownTimeout
  | RT_EventConcurrencyTooLarge
  | RT_QueueCapacityTooLarge
  | RT_HandlerConcurrencyTooLarge nat
  | RT_DedupFinalization nat
  | RT_DedupRecoveryJoin
  | RT_DedupRecoveryTimeout

record ('j, 'w) runtime_builder =
  rb_queue_capacity :: nat
  rb_handler_timeout :: nat
  rb_shutdown_timeout :: nat
  rb_event_concurrency :: nat
  rb_adapters :: "('j, 'w) adapter list"
  rb_handlers :: "(('j, 'w) event_handler_object \<times> handler_policy) list"

text \<open>The dedup store and the observer of the builder are chosen by the caller and passed through;
  the model keeps them outside the record.\<close>

definition new_builder :: "('j, 'w) runtime_builder" where
  "new_builder = \<lparr>rb_queue_capacity = 32, rb_handler_timeout = 30000, rb_shutdown_timeout = 20000,
     rb_event_concurrency = 32, rb_adapters = [], rb_handlers = []\<rparr>"

definition set_queue_capacity :: "nat \<Rightarrow> ('j, 'w) runtime_builder \<Rightarrow> ('j, 'w) runtime_builder" where
  "set_queue_capacity n b = b\<lparr>rb_queue_capacity := max n 1\<rparr>"

definition set_handler_timeout :: "nat \<Rightarrow> ('j, 'w) runtime_builder \<Rightarrow> ('j, 'w) runtime_builder" where
  "set_handler_timeout d b = b\<lparr>rb_handler_timeout := d\<rparr>"

definition set_shutdown_timeout :: "nat \<Rightarrow> ('j, 'w) runtime_builder \<Rightarrow> ('j, 'w) runtime_builder" where
  "set_shutdown_timeout d b = b\<lparr>rb_shutdown_timeout := d\<rparr>"

definition set_event_concurrency :: "nat \<Rightarrow> ('j, 'w) runtime_builder \<Rightarrow> ('j, 'w) runtime_builder" where
  "set_event_concurrency n b = b\<lparr>rb_event_concurrency := max n 1\<rparr>"

definition add_adapter :: "('j, 'w) adapter \<Rightarrow> ('j, 'w) runtime_builder \<Rightarrow> ('j, 'w) runtime_builder" where
  "add_adapter a b = b\<lparr>rb_adapters := rb_adapters b @ [a]\<rparr>"

definition add_handler ::
    "('j, 'w) event_handler_object \<Rightarrow> handler_policy \<Rightarrow> ('j, 'w) runtime_builder \<Rightarrow> ('j, 'w) runtime_builder" where
  "add_handler h p b = b\<lparr>rb_handlers := rb_handlers b @ [(h, p)]\<rparr>"

section \<open>Build\<close>

record ('j, 'w) runtime =
  rt_queue_capacity :: nat
  rt_handler_timeout :: nat
  rt_shutdown_timeout :: nat
  rt_event_concurrency :: nat
  rt_adapters :: "('j, 'w) adapter list"
  rt_handlers :: "('j, 'w) registered_handler list"

fun check_adapters :: "nat \<Rightarrow> adapter_id list \<Rightarrow> ('j, 'w) adapter list \<Rightarrow> runtime_error option" where
  "check_adapters i ids [] = None"
| "check_adapters i ids (a # as) =
     (if \<not> is_valid_adapter_id (adapter_id_of a) then Some (RT_InvalidAdapterId i)
      else if adapter_id_of a \<in> set ids then Some (RT_DuplicateAdapter (adapter_id_of a))
      else check_adapters (Suc i) (adapter_id_of a # ids) as)"

definition is_valid_handler_name :: "ustr \<Rightarrow> bool" where
  "is_valid_handler_name n \<longleftrightarrow> n \<noteq> [] \<and> blen n \<le> max_handler_name_bytes \<and> \<not> list_ex is_control n"

definition registered ::
    "('j, 'w) event_handler_object \<times> handler_policy \<Rightarrow> ('j, 'w) registered_handler" where
  "registered hp = \<lparr>reg_name = eh_name (fst hp), reg_handler = fst hp, reg_policy = snd hp,
     reg_permits = policy_max_concurrency (snd hp)\<rparr>"

fun register_handlers ::
    "nat \<Rightarrow> nat \<Rightarrow> ustr list \<Rightarrow> (('j, 'w) event_handler_object \<times> handler_policy) list \<Rightarrow>
     runtime_error + ('j, 'w) registered_handler list" where
  "register_handlers max_permits i names [] = Inr []"
| "register_handlers max_permits i names (hp # hps) =
     (if \<not> is_valid_handler_name (eh_name (fst hp)) then Inl (RT_InvalidHandlerName i)
      else if eh_name (fst hp) \<in> set names then Inl (RT_DuplicateHandler (eh_name (fst hp)))
      else if (case policy_max_concurrency (snd hp) of None \<Rightarrow> False | Some l \<Rightarrow> l > max_permits)
      then Inl (RT_HandlerConcurrencyTooLarge i)
      else (case register_handlers max_permits (Suc i) (eh_name (fst hp) # names) hps of
              Inl err \<Rightarrow> Inl err
            | Inr rs \<Rightarrow> Inr (registered hp # rs)))"

definition runtime_build ::
    "nat \<Rightarrow> ('j, 'w) runtime_builder \<Rightarrow> runtime_error + ('j, 'w) runtime" where
  "runtime_build max_permits b =
     (if rb_adapters b = [] then Inl RT_NoAdapters
      else if length (rb_adapters b) > max_adapter_metric_series then Inl RT_TooManyAdapters
      else case check_adapters 0 [] (rb_adapters b) of
             Some err \<Rightarrow> Inl err
           | None \<Rightarrow>
               if length (rb_handlers b) > max_registered_handlers then Inl RT_TooManyHandlers
               else if rb_event_concurrency b > max_permits then Inl RT_EventConcurrencyTooLarge
               else if rb_queue_capacity b > max_runtime_queue_capacity then Inl RT_QueueCapacityTooLarge
               else (case register_handlers max_permits 0 [] (rb_handlers b) of
                       Inl err \<Rightarrow> Inl err
                     | Inr hs \<Rightarrow>
                         Inr \<lparr>rt_queue_capacity = rb_queue_capacity b,
                              rt_handler_timeout = rb_handler_timeout b,
                              rt_shutdown_timeout = rb_shutdown_timeout b,
                              rt_event_concurrency = rb_event_concurrency b,
                              rt_adapters = rb_adapters b, rt_handlers = hs\<rparr>))"

section \<open>What a build guarantees\<close>

definition permits_ok :: "nat \<Rightarrow> handler_policy \<Rightarrow> bool" where
  "permits_ok max_permits p \<longleftrightarrow>
     (case policy_max_concurrency p of None \<Rightarrow> True | Some l \<Rightarrow> l \<le> max_permits)"

definition buildable :: "nat \<Rightarrow> ('j, 'w) runtime_builder \<Rightarrow> bool" where
  "buildable max_permits b \<longleftrightarrow>
     (let ids = map adapter_id_of (rb_adapters b);
          names = map (eh_name \<circ> fst) (rb_handlers b)
      in ids \<noteq> [] \<and> length ids \<le> max_adapter_metric_series \<and> list_all is_valid_adapter_id ids \<and>
         distinct ids \<and> length names \<le> max_registered_handlers \<and> list_all is_valid_handler_name names \<and>
         distinct names \<and> list_all (permits_ok max_permits \<circ> snd) (rb_handlers b) \<and>
         rb_event_concurrency b \<le> max_permits \<and> rb_queue_capacity b \<le> max_runtime_queue_capacity)"

lemma check_adapters_None:
  "check_adapters i ids as = None \<longleftrightarrow>
   list_all (is_valid_adapter_id \<circ> adapter_id_of) as \<and> distinct (map adapter_id_of as) \<and>
   set ids \<inter> adapter_id_of ` set as = {}"
  by (induction i ids as rule: check_adapters.induct) auto

lemma register_handlers_Inr:
  "register_handlers mp i names hps = Inr rs \<longleftrightarrow>
   rs = map registered hps \<and> (\<forall>hp\<in>set hps. is_valid_handler_name (eh_name (fst hp))) \<and>
   distinct (map (\<lambda>hp. eh_name (fst hp)) hps) \<and>
   (\<forall>hp\<in>set hps. eh_name (fst hp) \<notin> set names) \<and> (\<forall>hp\<in>set hps. permits_ok mp (snd hp))"
proof (induction hps arbitrary: i names rs)
  case (Cons hp hps)
  have permits: "(case policy_max_concurrency (snd hp) of None \<Rightarrow> False | Some l \<Rightarrow> l > mp) \<longleftrightarrow>
      \<not> permits_ok mp (snd hp)"
    by (auto simp: permits_ok_def split: option.splits)
  have sums: "(case x of Inl err \<Rightarrow> Inl err | Inr y \<Rightarrow> Inr (f y)) = Inr z \<longleftrightarrow> (\<exists>y. x = Inr y \<and> f y = z)"
    for x :: "'e + 'y" and f :: "'y \<Rightarrow> 'z" and z by (cases x) auto
  show ?case
    by (simp add: permits sums Cons.IH image_iff eq_commute [of _ rs] eq_commute [of "eh_name (fst hp)"]) blast
qed auto

lemma runtime_build_Inr:
  "runtime_build max_permits b = Inr rt \<longleftrightarrow>
     buildable max_permits b \<and>
     rt = \<lparr>rt_queue_capacity = rb_queue_capacity b, rt_handler_timeout = rb_handler_timeout b,
           rt_shutdown_timeout = rb_shutdown_timeout b, rt_event_concurrency = rb_event_concurrency b,
           rt_adapters = rb_adapters b, rt_handlers = map registered (rb_handlers b)\<rparr>"
proof -
  have sums: "(case x of Inl err \<Rightarrow> Inl err | Inr y \<Rightarrow> Inr (f y)) = Inr z \<longleftrightarrow> (\<exists>y. x = Inr y \<and> f y = z)"
    for x :: "'e + 'y" and f :: "'y \<Rightarrow> 'z" and z by (cases x) auto
  have opts: "(case x of None \<Rightarrow> y | Some err \<Rightarrow> Inl err) = Inr z \<longleftrightarrow> x = None \<and> y = Inr z"
    for x :: "'e option" and y :: "'e + 'z" and z by (cases x) auto
  show ?thesis
    unfolding runtime_build_def buildable_def Let_def
    by (auto simp: sums opts check_adapters_None register_handlers_Inr list_all_iff not_less comp_def)
qed

text \<open>Exactly when a builder builds, and what it builds: at least one and at most
  \<open>MAX_ADAPTER_METRIC_SERIES\<close> adapters with valid, pairwise different identifiers, at most
  \<open>MAX_REGISTERED_HANDLERS\<close> handlers with valid, pairwise different names, and every limit within
  what the semaphores and the queue accept; the handlers keep their order of registration.\<close>

theorem runtime_build_spec:
  "runtime_build max_permits b = Inr rt \<longleftrightarrow>
     buildable max_permits b \<and>
     rt = \<lparr>rt_queue_capacity = rb_queue_capacity b, rt_handler_timeout = rb_handler_timeout b,
           rt_shutdown_timeout = rb_shutdown_timeout b, rt_event_concurrency = rb_event_concurrency b,
           rt_adapters = rb_adapters b, rt_handlers = map registered (rb_handlers b)\<rparr>"
  by (rule runtime_build_Inr)

lemma check_adapters_InvalidId:
  "check_adapters i ids as = Some (RT_InvalidAdapterId n) \<Longrightarrow>
   i \<le> n \<and> n - i < length as \<and> \<not> is_valid_adapter_id (adapter_id_of (as ! (n - i))) \<and>
   (\<forall>j < n - i. is_valid_adapter_id (adapter_id_of (as ! j)))"
proof (induction as arbitrary: i ids)
  case (Cons a as)
  show ?case
  proof (cases "is_valid_adapter_id (adapter_id_of a)")
    case True
    with Cons.prems have "check_adapters (Suc i) (adapter_id_of a # ids) as = Some (RT_InvalidAdapterId n)"
      by (simp split: if_splits)
    note IH = Cons.IH [OF this]
    then obtain m where n: "n = Suc i + m" by (auto dest: le_Suc_ex)
    with IH True show ?thesis by (auto simp: less_Suc_eq_0_disj)
  qed (use Cons.prems in auto)
qed simp

text \<open>The index in the error names the culprit: a build that fails with \<open>InvalidAdapterId\<close> names
  the first adapter, in the order of registration, whose identifier is invalid.\<close>

theorem runtime_build_invalid_adapter:
  assumes "runtime_build max_permits b = Inl (RT_InvalidAdapterId n)"
  shows "n < length (rb_adapters b) \<and> \<not> is_valid_adapter_id (adapter_id_of (rb_adapters b ! n)) \<and>
    (\<forall>j<n. is_valid_adapter_id (adapter_id_of (rb_adapters b ! j)))"
proof -
  have handlers: "register_handlers mp i names hps \<noteq> Inl (RT_InvalidAdapterId n)" for mp i names hps
    by (induction mp i names hps rule: register_handlers.induct) (auto split: sum.splits)
  have "check_adapters 0 [] (rb_adapters b) = Some (RT_InvalidAdapterId n)"
    using assms by (auto simp: runtime_build_def handlers split: if_splits option.splits sum.splits)
  from check_adapters_InvalidId [OF this] show ?thesis by simp
qed

definition demo_adapter :: "string \<Rightarrow> (unit, nat) adapter" where
  "demo_adapter name = \<lparr>adapter_id_of = lit name, platform_of = lit ''demo'',
     execute = (\<lambda>a w. (Inr \<lparr>result_message_id = None, result_raw = ()\<rparr>, w))\<rparr>"

lemma runtime_build_invalid_adapter_witness:
  "\<not> is_valid_adapter_id (adapter_id_of ([demo_adapter ''a'', demo_adapter []] ! 1))"
proof -
  have "runtime_build 9 (add_adapter (demo_adapter []) (add_adapter (demo_adapter ''a'') new_builder)) =
      Inl (RT_InvalidAdapterId 1)"
    by (simp add: runtime_build_def add_adapter_def new_builder_def demo_adapter_def
        is_valid_adapter_id_def is_control_def max_adapter_metric_series_def max_adapter_id_bytes_def
        utf8_width_def)
  from runtime_build_invalid_adapter [OF this] show ?thesis
    by (simp add: add_adapter_def new_builder_def)
qed

section \<open>Configured through the setters\<close>

text \<open>What a caller does with a builder and with the policies it hands over.\<close>

datatype policy_step = Policy_Timeout nat | Policy_Concurrency nat

fun policy_step_apply :: "policy_step \<Rightarrow> handler_policy \<Rightarrow> handler_policy" where
  "policy_step_apply (Policy_Timeout d) p = policy_with_timeout d p"
| "policy_step_apply (Policy_Concurrency n) p = policy_with_concurrency n p"

datatype ('j, 'w) builder_step =
    Build_QueueCapacity nat
  | Build_HandlerTimeout nat
  | Build_ShutdownTimeout nat
  | Build_EventConcurrency nat
  | Build_Adapter "('j, 'w) adapter"
  | Build_Handler "('j, 'w) event_handler_object" "policy_step list"

fun builder_step_apply ::
    "('j, 'w) builder_step \<Rightarrow> ('j, 'w) runtime_builder \<Rightarrow> ('j, 'w) runtime_builder" where
  "builder_step_apply (Build_QueueCapacity n) b = set_queue_capacity n b"
| "builder_step_apply (Build_HandlerTimeout d) b = set_handler_timeout d b"
| "builder_step_apply (Build_ShutdownTimeout d) b = set_shutdown_timeout d b"
| "builder_step_apply (Build_EventConcurrency n) b = set_event_concurrency n b"
| "builder_step_apply (Build_Adapter a) b = add_adapter a b"
| "builder_step_apply (Build_Handler h ps) b = add_handler h (fold policy_step_apply ps default_policy) b"

definition limits_positive :: "('j, 'w) runtime_builder \<Rightarrow> bool" where
  "limits_positive b \<longleftrightarrow>
     0 < rb_queue_capacity b \<and> 0 < rb_event_concurrency b \<and>
     list_all (\<lambda>hp. policy_max_concurrency (snd hp) \<noteq> Some 0) (rb_handlers b)"

lemma policy_steps_positive:
  "policy_max_concurrency p \<noteq> Some 0 \<Longrightarrow> policy_max_concurrency (fold policy_step_apply ps p) \<noteq> Some 0"
proof (induction ps arbitrary: p)
  case (Cons x ps)
  then show ?case
    by (cases x) (simp_all add: policy_with_timeout_def policy_with_concurrency_def)
qed simp

lemma builder_steps_positive: "limits_positive b \<Longrightarrow> limits_positive (fold builder_step_apply xs b)"
proof (induction xs arbitrary: b)
  case (Cons x xs)
  have "limits_positive (builder_step_apply x b)"
    using Cons.prems policy_steps_positive [of default_policy]
    by (cases x) (auto simp: limits_positive_def set_queue_capacity_def set_handler_timeout_def
        set_shutdown_timeout_def set_event_concurrency_def add_adapter_def add_handler_def
        default_policy_def)
  with Cons.IH show ?case by simp
qed simp

text \<open>No runtime deadlocks on an empty limit: whatever sequence of setters configured the builder,
  a runtime that is built has a queue capacity between 1 and \<open>MAX_RUNTIME_QUEUE_CAPACITY\<close> (a bounded
  channel of capacity 0 would panic), at least one permit for events, and at least one permit for
  every handler with a semaphore.\<close>

theorem built_limits_positive:
  assumes "runtime_build max_permits (fold builder_step_apply steps new_builder) = Inr rt"
  shows "0 < rt_queue_capacity rt \<and> rt_queue_capacity rt \<le> max_runtime_queue_capacity \<and>
    0 < rt_event_concurrency rt \<and> rt_event_concurrency rt \<le> max_permits \<and>
    list_all (\<lambda>h. case reg_permits h of None \<Rightarrow> True | Some n \<Rightarrow> 0 < n \<and> n \<le> max_permits) (rt_handlers rt)"
proof -
  let ?b = "fold builder_step_apply steps new_builder"
  have pos: "limits_positive ?b"
    by (rule builder_steps_positive) (simp add: limits_positive_def new_builder_def)
  have "buildable max_permits ?b" "rt_handlers rt = map registered (rb_handlers ?b)"
    "rt_queue_capacity rt = rb_queue_capacity ?b" "rt_event_concurrency rt = rb_event_concurrency ?b"
    using assms by (simp_all add: runtime_build_Inr)
  with pos show ?thesis
    by (auto simp: limits_positive_def buildable_def Let_def list_all_iff permits_ok_def registered_def
        split: option.splits)
qed

lemma built_limits_positive_witness:
  "\<exists>rt :: (unit, nat) runtime.
     runtime_build 9 (fold builder_step_apply
       [Build_QueueCapacity 0, Build_EventConcurrency 5, Build_Adapter (demo_adapter ''a''),
        Build_Handler \<lparr>eh_name = lit ''h'', eh_handle = (\<lambda>d c e w. (Answered (Inr ()), w))\<rparr>
          [Policy_Concurrency 0]] new_builder) = Inr rt \<and>
     0 < rt_queue_capacity rt"
    (is "\<exists>rt. ?build = Inr rt \<and> _")
proof -
  have "\<exists>rt. ?build = Inr rt"
    by (simp add: runtime_build_def set_queue_capacity_def set_event_concurrency_def add_adapter_def
        add_handler_def new_builder_def demo_adapter_def is_valid_adapter_id_def is_control_def
        max_adapter_metric_series_def max_adapter_id_bytes_def utf8_width_def
        max_registered_handlers_def max_runtime_queue_capacity_def is_valid_handler_name_def
        max_handler_name_bytes_def policy_with_concurrency_def default_policy_def)
  then obtain rt where "?build = Inr rt" by blast
  with built_limits_positive [OF this] show ?thesis by blast
qed

end
