(* ===== verification/Dispatch.thy ===== *)
theory Dispatch
  imports RuntimeBuild Dedup
begin

text \<open>
  Dispatch of one event (\<open>crates/bot-core/src/runtime.rs\<close>): claiming it in the deduplication store,
  running the handlers, committing or releasing the claim, acknowledging the event at its source, the
  background retries, the recovery of claims whose task was torn down, and the finalization at
  shutdown. The store, the adapters, the handlers, the clock and the scheduler are the environment:
  every awaited call may answer, time out, or tear the task down. Loops without a bound of their own
  take fuel; \<open>Unfinished\<close> means still running after that many rounds, so that a statement for all fuel
  speaks about every moment of the run. One task runs at a time; others only touch claims of their own.
\<close>

section \<open>State and environment\<close>

datatype claim_state = Processing | CommitPending | AcknowledgementPending

record 'j outstanding_claim =
  oc_state :: claim_state
  oc_event :: "'j event_envelope"
  oc_adapter :: adapter_id

text \<open>The calls to the outside, in order: what was called, for which claim, and whether it is known to
  have succeeded. A claim is named by the value the store granted.\<close>

datatype dispatch_call =
    Claim_Granted dedup_claim
  | Handler_Call dedup_claim ustr bool
  | Commit_Call dedup_claim bool
  | Release_Call dedup_claim bool
  | Ack_Call "dedup_claim option" bool
  | Slept nat

record ('j, 'w) dispatch =
  d_world :: 'w
  d_outstanding :: "(dedup_claim, 'j outstanding_claim) hmap"
  d_observer :: runtime_observer
  d_recovery :: "dedup_claim list"
  d_calls :: "dispatch_call list"

record ('j, 'w) dispatch_env =
  ev_claim :: "dedup_key \<Rightarrow> 'w \<Rightarrow> (dedup_error + dedup_claim option) answer \<times> 'w"
  ev_commit :: "dedup_claim \<Rightarrow> 'w \<Rightarrow> (dedup_error + unit) answer \<times> 'w"
  ev_release :: "dedup_claim \<Rightarrow> 'w \<Rightarrow> (dedup_error + unit) answer \<times> 'w"
  ev_ack :: "adapter_id \<Rightarrow> 'j event_envelope \<Rightarrow> 'w \<Rightarrow> (adapter_error + unit) answer \<times> 'w"
  ev_sleep :: "nat \<Rightarrow> 'w \<Rightarrow> unit answer \<times> 'w"
  ev_permit :: "'w \<Rightarrow> unit answer \<times> 'w"
  ev_elapsed :: "'w \<Rightarrow> nat"
  ev_deadline :: "'w \<Rightarrow> bool"

text \<open>A piece of a task returns, is torn down, or is still running when the fuel is used up.\<close>

datatype 'a run = Returned 'a | Torn | Unfinished

type_synonym ('j, 'w, 'a) task = "('j, 'w) dispatch \<Rightarrow> 'a run \<times> ('j, 'w) dispatch"

definition ret :: "'a \<Rightarrow> ('j, 'w, 'a) task" where
  "ret x s = (Returned x, s)"

definition bindR :: "('j, 'w, 'a) task \<Rightarrow> ('a \<Rightarrow> ('j, 'w, 'b) task) \<Rightarrow> ('j, 'w, 'b) task" where
  "bindR m f s =
     (case m s of
        (Returned x, s') \<Rightarrow> f x s'
      | (Torn, s') \<Rightarrow> (Torn, s')
      | (Unfinished, s') \<Rightarrow> (Unfinished, s'))"

definition modify :: "(('j, 'w) dispatch \<Rightarrow> ('j, 'w) dispatch) \<Rightarrow> ('j, 'w, unit) task" where
  "modify f s = (Returned (), f s)"

definition observe :: "(runtime_observer \<Rightarrow> runtime_observer) \<Rightarrow> ('j, 'w) dispatch \<Rightarrow> ('j, 'w) dispatch" where
  "observe f s = s\<lparr>d_observer := f (d_observer s)\<rparr>"

definition note_call :: "dispatch_call \<Rightarrow> 'w \<Rightarrow> ('j, 'w) dispatch \<Rightarrow> ('j, 'w) dispatch" where
  "note_call x w s = s\<lparr>d_world := w, d_calls := d_calls s @ [x]\<rparr>"

section \<open>Tracking claims\<close>

definition track_claim ::
    "dedup_claim \<Rightarrow> 'j event_envelope \<Rightarrow> adapter_id \<Rightarrow> ('j, 'w) dispatch \<Rightarrow> ('j, 'w) dispatch" where
  "track_claim c e a s =
     s\<lparr>d_outstanding := hm_put c \<lparr>oc_state = Processing, oc_event = e, oc_adapter = a\<rparr> (d_outstanding s)\<rparr>"

definition set_claim_state :: "claim_state \<Rightarrow> dedup_claim \<Rightarrow> ('j, 'w) dispatch \<Rightarrow> ('j, 'w) dispatch" where
  "set_claim_state st c s =
     (case hm_get (d_outstanding s) c of
        None \<Rightarrow> s
      | Some oc \<Rightarrow> s\<lparr>d_outstanding := hm_put c (oc\<lparr>oc_state := st\<rparr>) (d_outstanding s)\<rparr>)"

definition mark_commit_pending :: "dedup_claim \<Rightarrow> ('j, 'w) dispatch \<Rightarrow> ('j, 'w) dispatch" where
  "mark_commit_pending c s = set_claim_state CommitPending c s"

definition mark_acknowledgement_pending :: "dedup_claim \<Rightarrow> ('j, 'w) dispatch \<Rightarrow> ('j, 'w) dispatch" where
  "mark_acknowledgement_pending c s = set_claim_state AcknowledgementPending c s"

definition untrack_claim :: "dedup_claim \<Rightarrow> ('j, 'w) dispatch \<Rightarrow> ('j, 'w) dispatch" where
  "untrack_claim c s = s\<lparr>d_outstanding := hm_del c (d_outstanding s)\<rparr>"

definition outstanding_claim_count :: "('j, 'w) dispatch \<Rightarrow> nat" where
  "outstanding_claim_count s = hm_len (d_outstanding s)"

section \<open>Bounded retries\<close>

definition dedup_max_attempts :: nat where "dedup_max_attempts = 4"
definition dedup_initial_backoff :: nat where "dedup_initial_backoff = 25"
definition dedup_background_retry_delay :: nat where "dedup_background_retry_delay = 1000"
definition event_ack_max_attempts :: nat where "event_ack_max_attempts = 4"
definition event_ack_initial_backoff :: nat where "event_ack_initial_backoff = 25"

definition sleep :: "('j, 'w) dispatch_env \<Rightarrow> nat \<Rightarrow> ('j, 'w, unit) task" where
  "sleep env d s =
     (case ev_sleep env d (d_world s) of
        (Torn_Down, w) \<Rightarrow> (Torn, s\<lparr>d_world := w\<rparr>)
      | (_, w) \<Rightarrow> (Returned (), note_call (Slept d) w s))"

datatype finalization = Succeeded | RetryableFailure | PermanentFailure

text \<open>
  The loop of \<open>commit_claim_with_retry\<close> and of \<open>release_claim_with_retry\<close>: \<open>n\<close> attempts are left; a
  timeout and a retryable error go on after a backoff that doubles, except after the last attempt.
\<close>

fun attempts ::
    "('j, 'w) dispatch_env \<Rightarrow> ('w \<Rightarrow> (dedup_error + unit) answer \<times> 'w) \<Rightarrow> (bool \<Rightarrow> dispatch_call) \<Rightarrow>
     nat \<Rightarrow> nat \<Rightarrow> ('j, 'w, finalization) task" where
  "attempts env act ev 0 backoff s = (Returned RetryableFailure, s)"
| "attempts env act ev (Suc n) backoff s =
     (case act (d_world s) of
        (Torn_Down, w) \<Rightarrow> (Torn, note_call (ev False) w s)
      | (Answered (Inr _), w) \<Rightarrow> (Returned Succeeded, note_call (ev True) w s)
      | (Answered (Inl err), w) \<Rightarrow>
          if \<not> is_retryable err then (Returned PermanentFailure, note_call (ev False) w s)
          else if n = 0 then (Returned RetryableFailure, note_call (ev False) w s)
          else bindR (sleep env backoff) (\<lambda>_. attempts env act ev n (2 * backoff)) (note_call (ev False) w s)
      | (Timed_Out, w) \<Rightarrow>
          if n = 0 then (Returned RetryableFailure, note_call (ev False) w s)
          else bindR (sleep env backoff) (\<lambda>_. attempts env act ev n (2 * backoff)) (note_call (ev False) w s))"

definition commit_claim_with_retry ::
    "('j, 'w) dispatch_env \<Rightarrow> dedup_claim \<Rightarrow> ('j, 'w, finalization) task" where
  "commit_claim_with_retry env c =
     attempts env (ev_commit env c) (Commit_Call c) dedup_max_attempts dedup_initial_backoff"

definition release_claim_with_retry ::
    "('j, 'w) dispatch_env \<Rightarrow> dedup_claim \<Rightarrow> ('j, 'w, finalization) task" where
  "release_claim_with_retry env c =
     attempts env (ev_release env c) (Release_Call c) dedup_max_attempts dedup_initial_backoff"

fun ack_attempts ::
    "('j, 'w) dispatch_env \<Rightarrow> dedup_claim option \<Rightarrow> adapter_id \<Rightarrow> 'j event_envelope \<Rightarrow> nat \<Rightarrow> nat \<Rightarrow>
     ('j, 'w, bool) task" where
  "ack_attempts env co a e 0 backoff s = (Returned False, s)"
| "ack_attempts env co a e (Suc n) backoff s =
     (case ev_ack env a e (d_world s) of
        (Torn_Down, w) \<Rightarrow> (Torn, note_call (Ack_Call co False) w s)
      | (Answered (Inr _), w) \<Rightarrow> (Returned True, note_call (Ack_Call co True) w s)
      | (_, w) \<Rightarrow>
          if n = 0 then (Returned False, note_call (Ack_Call co False) w s)
          else bindR (sleep env backoff) (\<lambda>_. ack_attempts env co a e n (2 * backoff))
                 (note_call (Ack_Call co False) w s))"

text \<open>The claim, if any, that the acknowledgement belongs to is only noted in the log.\<close>

definition acknowledge_event_with_retry ::
    "('j, 'w) dispatch_env \<Rightarrow> dedup_claim option \<Rightarrow> adapter_id \<Rightarrow> 'j event_envelope \<Rightarrow> ('j, 'w, bool) task" where
  "acknowledge_event_with_retry env co a e =
     ack_attempts env co a e event_ack_max_attempts event_ack_initial_backoff"

section \<open>Claiming\<close>

datatype claimed = Claim_Rejected | Claim_Duplicate | Claim_Owned dedup_claim

definition event_key :: "'j event_envelope \<Rightarrow> dedup_key" where
  "event_key e = \<lparr>dk_adapter = env_adapter e, dk_event = env_id e\<rparr>"

fun claim_event ::
    "('j, 'w) dispatch_env \<Rightarrow> nat \<Rightarrow> 'j event_envelope \<Rightarrow> adapter_id \<Rightarrow> ('j, 'w, claimed) task" where
  "claim_event env 0 e a s = (Unfinished, s)"
| "claim_event env (Suc fuel) e a s =
     (case ev_claim env (event_key e) (d_world s) of
        (Torn_Down, w) \<Rightarrow> (Torn, s\<lparr>d_world := w\<rparr>)
      | (Answered (Inr None), w) \<Rightarrow>
          (Returned Claim_Duplicate, observe record_duplicate (s\<lparr>d_world := w\<rparr>))
      | (Answered (Inr (Some c)), w) \<Rightarrow>
          (Returned (Claim_Owned c), track_claim c e a (note_call (Claim_Granted c) w s))
      | (Answered (Inl err), w) \<Rightarrow>
          if is_retryable err
          then bindR (sleep env dedup_background_retry_delay) (\<lambda>_. claim_event env fuel e a)
                 (s\<lparr>d_world := w\<rparr>)
          else (Returned Claim_Rejected, observe (record_event_rejected (env_adapter e)) (s\<lparr>d_world := w\<rparr>))
      | (Timed_Out, w) \<Rightarrow>
          bindR (sleep env dedup_background_retry_delay) (\<lambda>_. claim_event env fuel e a)
            (s\<lparr>d_world := w\<rparr>))"

section \<open>Handlers\<close>

definition run_handler ::
    "('j, 'w) dispatch_env \<Rightarrow> dedup_claim \<Rightarrow> ('j, 'w) registered_handler \<Rightarrow> 'j event_context \<Rightarrow>
     'j event_envelope \<Rightarrow> nat \<Rightarrow> ('j, 'w, bool) task" where
  "run_handler env c r ctx e default_timeout s =
     (let budget = (case policy_timeout (reg_policy r) of None \<Rightarrow> default_timeout | Some d \<Rightarrow> d)
      in case eh_handle (reg_handler r) budget ctx (env_event e) (d_world s) of
           (Torn_Down, w) \<Rightarrow> (Torn, note_call (Handler_Call c (reg_name r) False) w s)
         | (Answered (Inr _), w) \<Rightarrow>
             (Returned True,
              observe (record_handler (reg_name r) (ev_elapsed env w) HO_Success)
                (note_call (Handler_Call c (reg_name r) True) w s))
         | (Answered (Inl _), w) \<Rightarrow>
             (Returned False,
              observe (record_handler (reg_name r) (ev_elapsed env w) HO_Failure)
                (note_call (Handler_Call c (reg_name r) False) w s))
         | (Timed_Out, w) \<Rightarrow>
             (Returned False,
              observe (record_handler (reg_name r) (ev_elapsed env w) HO_Timeout)
                (note_call (Handler_Call c (reg_name r) False) w s)))"

fun run_handlers ::
    "('j, 'w) dispatch_env \<Rightarrow> dedup_claim \<Rightarrow> ('j, 'w) registered_handler list \<Rightarrow> 'j event_context \<Rightarrow>
     'j event_envelope \<Rightarrow> nat \<Rightarrow> ('j, 'w, bool) task" where
  "run_handlers env c [] ctx e timeout s = (Returned True, s)"
| "run_handlers env c (r # rs) ctx e timeout s =
     bindR (run_handler env c r ctx e timeout)
       (\<lambda>ok. if ok then run_handlers env c rs ctx e timeout else ret False) s"

section \<open>Processing a claimed event\<close>

text \<open>What is left to retry in the background when the bounded attempts are used up.\<close>

datatype pending_retry =
    Pending_Dedup dedup_claim claim_state
  | Pending_Acknowledgement "dedup_claim option"

definition process_claimed_event ::
    "('j, 'w) dispatch_env \<Rightarrow> ('j, 'w) registered_handler list \<Rightarrow> nat \<Rightarrow> 'j event_context \<Rightarrow>
     'j event_envelope \<Rightarrow> adapter_id \<Rightarrow> dedup_claim \<Rightarrow> ('j, 'w, pending_retry option) task" where
  "process_claimed_event env handlers timeout ctx e a c =
     bindR (run_handlers env c handlers ctx e timeout) (\<lambda>handled.
       if \<not> handled then
         bindR (release_claim_with_retry env c) (\<lambda>res.
           case res of
             Succeeded \<Rightarrow> bindR (modify (untrack_claim c)) (\<lambda>_. ret None)
           | PermanentFailure \<Rightarrow> ret None
           | RetryableFailure \<Rightarrow> ret (Some (Pending_Dedup c Processing)))
       else
         bindR (modify (mark_commit_pending c)) (\<lambda>_.
         bindR (commit_claim_with_retry env c) (\<lambda>res.
           case res of
             RetryableFailure \<Rightarrow> ret (Some (Pending_Dedup c CommitPending))
           | PermanentFailure \<Rightarrow> ret None
           | Succeeded \<Rightarrow>
               bindR (modify (mark_acknowledgement_pending c)) (\<lambda>_.
               bindR (acknowledge_event_with_retry env (Some c) a e) (\<lambda>acked.
                 if acked then bindR (modify (untrack_claim c)) (\<lambda>_. ret None)
                 else ret (Some (Pending_Acknowledgement (Some c))))))))"

definition process_duplicate_event ::
    "('j, 'w) dispatch_env \<Rightarrow> 'j event_envelope \<Rightarrow> adapter_id \<Rightarrow> ('j, 'w, pending_retry option) task" where
  "process_duplicate_event env e a =
     bindR (acknowledge_event_with_retry env None a e) (\<lambda>acked.
       ret (if acked then None else Some (Pending_Acknowledgement None)))"

section \<open>Background retries\<close>

text \<open>\<open>while !acknowledge \<open>{\<close> sleep \<open>}\<close>\<close>\<close>

fun ack_until ::
    "('j, 'w) dispatch_env \<Rightarrow> nat \<Rightarrow> dedup_claim option \<Rightarrow> adapter_id \<Rightarrow> 'j event_envelope \<Rightarrow>
     ('j, 'w, unit) task" where
  "ack_until env 0 co a e s = (Unfinished, s)"
| "ack_until env (Suc fuel) co a e s =
     bindR (acknowledge_event_with_retry env co a e) (\<lambda>acked.
       if acked then ret ()
       else bindR (sleep env dedup_background_retry_delay) (\<lambda>_. ack_until env fuel co a e)) s"

fun retry_dedup ::
    "('j, 'w) dispatch_env \<Rightarrow> nat \<Rightarrow> dedup_claim \<Rightarrow> claim_state \<Rightarrow> adapter_id \<Rightarrow> 'j event_envelope \<Rightarrow>
     ('j, 'w, unit) task" where
  "retry_dedup env 0 c st a e s = (Unfinished, s)"
| "retry_dedup env (Suc fuel) c st a e s =
     bindR (sleep env dedup_background_retry_delay) (\<lambda>_.
     bindR (case st of
              Processing \<Rightarrow> release_claim_with_retry env c
            | CommitPending \<Rightarrow> commit_claim_with_retry env c
            | AcknowledgementPending \<Rightarrow> (\<lambda>s. (Torn, s))) (\<lambda>res.
       case res of
         RetryableFailure \<Rightarrow> retry_dedup env fuel c st a e
       | PermanentFailure \<Rightarrow> ret ()
       | Succeeded \<Rightarrow>
           if st = CommitPending then
             bindR (modify (mark_acknowledgement_pending c)) (\<lambda>_.
             bindR (ack_until env fuel (Some c) a e) (\<lambda>_. modify (untrack_claim c)))
           else modify (untrack_claim c))) s"

fun retry_acknowledgement ::
    "('j, 'w) dispatch_env \<Rightarrow> nat \<Rightarrow> dedup_claim option \<Rightarrow> adapter_id \<Rightarrow> 'j event_envelope \<Rightarrow>
     ('j, 'w, unit) task" where
  "retry_acknowledgement env 0 co a e s = (Unfinished, s)"
| "retry_acknowledgement env (Suc fuel) co a e s =
     bindR (sleep env dedup_background_retry_delay) (\<lambda>_.
     bindR (acknowledge_event_with_retry env co a e) (\<lambda>acked.
       if acked then (case co of None \<Rightarrow> ret () | Some c \<Rightarrow> modify (untrack_claim c))
       else retry_acknowledgement env fuel co a e)) s"

fun retry_pending ::
    "('j, 'w) dispatch_env \<Rightarrow> nat \<Rightarrow> pending_retry \<Rightarrow> adapter_id \<Rightarrow> 'j event_envelope \<Rightarrow>
     ('j, 'w, unit) task" where
  "retry_pending env fuel (Pending_Dedup c st) a e = retry_dedup env fuel c st a e"
| "retry_pending env fuel (Pending_Acknowledgement co) a e = retry_acknowledgement env fuel co a e"

section \<open>The task of one event\<close>

text \<open>The drop of \<open>ClaimCancellationGuard\<close>: a claim that is still tracked goes to the recovery
  supervisor. It runs when the task ends, in whatever way.\<close>

definition drop_cancellation_guard :: "dedup_claim \<Rightarrow> ('j, 'w) dispatch \<Rightarrow> ('j, 'w) dispatch" where
  "drop_cancellation_guard c s =
     (if hm_contains (d_outstanding s) c then s\<lparr>d_recovery := d_recovery s @ [c]\<rparr> else s)"

text \<open>Running a part of a task under a drop guard: the guard runs unless the part is still running.\<close>

definition with_guard ::
    "(('j, 'w) dispatch \<Rightarrow> ('j, 'w) dispatch) \<Rightarrow> ('j, 'w, 'a) task \<Rightarrow> ('j, 'w, 'a) task" where
  "with_guard g m s =
     (case m s of
        (Unfinished, s') \<Rightarrow> (Unfinished, s')
      | (res, s') \<Rightarrow> (res, g s'))"

definition wait_permit :: "('j, 'w) dispatch_env \<Rightarrow> ('j, 'w, unit) task" where
  "wait_permit env s =
     (case ev_permit env (d_world s) of
        (Torn_Down, w) \<Rightarrow> (Torn, s\<lparr>d_world := w\<rparr>)
      | (_, w) \<Rightarrow> (Returned (), s\<lparr>d_world := w\<rparr>))"

definition retry_if_pending ::
    "('j, 'w) dispatch_env \<Rightarrow> nat \<Rightarrow> adapter_id \<Rightarrow> 'j event_envelope \<Rightarrow> pending_retry option \<Rightarrow>
     ('j, 'w, unit) task" where
  "retry_if_pending env fuel a e pr =
     (case pr of None \<Rightarrow> ret () | Some p \<Rightarrow> retry_pending env fuel p a e)"

definition process_owned ::
    "('j, 'w) dispatch_env \<Rightarrow> nat \<Rightarrow> ('j, 'w) registered_handler list \<Rightarrow> nat \<Rightarrow> 'j event_context \<Rightarrow>
     'j event_envelope \<Rightarrow> adapter_id \<Rightarrow> dedup_claim \<Rightarrow> ('j, 'w, unit) task" where
  "process_owned env fuel handlers timeout ctx e a c =
     with_guard (drop_cancellation_guard c)
       (bindR (wait_permit env) (\<lambda>_.
        bindR (process_claimed_event env handlers timeout ctx e a c)
          (retry_if_pending env fuel a e)))"

definition handle_claimed ::
    "('j, 'w) dispatch_env \<Rightarrow> nat \<Rightarrow> ('j, 'w) registered_handler list \<Rightarrow> nat \<Rightarrow> ('j, 'w) adapter \<Rightarrow>
     'j event_envelope \<Rightarrow> claimed \<Rightarrow> ('j, 'w, unit) task" where
  "handle_claimed env fuel handlers timeout ad e claimed =
     (let a = adapter_id_of ad
      in case claimed of
           Claim_Rejected \<Rightarrow> ret ()
         | Claim_Duplicate \<Rightarrow> bindR (process_duplicate_event env e a) (retry_if_pending env fuel a e)
         | Claim_Owned c \<Rightarrow> process_owned env fuel handlers timeout (new_context e ad) e a c)"

text \<open>\<open>spawn_event\<close>'s task after its predecessor in the partition has finished.\<close>

definition event_task ::
    "('j, 'w) dispatch_env \<Rightarrow> nat \<Rightarrow> ('j, 'w) registered_handler list \<Rightarrow> nat \<Rightarrow> ('j, 'w) adapter \<Rightarrow>
     'j event_envelope \<Rightarrow> ('j, 'w, unit) task" where
  "event_task env fuel handlers timeout ad e =
     bindR (wait_permit env) (\<lambda>_.
     bindR (modify (observe record_event_started)) (\<lambda>_.
     with_guard (observe record_event_completed)
       (bindR (claim_event env fuel e (adapter_id_of ad))
          (handle_claimed env fuel handlers timeout ad e))))"

section \<open>Recovery and finalization\<close>

text \<open>What recovery and finalization do with a claim, by the state it was left in.\<close>

definition finish_claim ::
    "('j, 'w) dispatch_env \<Rightarrow> dedup_claim \<Rightarrow> 'j outstanding_claim \<Rightarrow> ('j, 'w, finalization) task" where
  "finish_claim env c oc =
     (case oc_state oc of
        Processing \<Rightarrow> release_claim_with_retry env c
      | CommitPending \<Rightarrow>
          bindR (commit_claim_with_retry env c) (\<lambda>res.
            case res of
              Succeeded \<Rightarrow>
                bindR (modify (mark_acknowledgement_pending c)) (\<lambda>_.
                bindR (acknowledge_event_with_retry env (Some c) (oc_adapter oc) (oc_event oc)) (\<lambda>acked.
                  ret (if acked then Succeeded else RetryableFailure)))
            | failure \<Rightarrow> ret failure)
      | AcknowledgementPending \<Rightarrow>
          bindR (acknowledge_event_with_retry env (Some c) (oc_adapter oc) (oc_event oc)) (\<lambda>acked.
            ret (if acked then Succeeded else RetryableFailure)))"

text \<open>The result says whether the supervisor has to schedule the claim again.\<close>

definition recover_cancelled_claim :: "('j, 'w) dispatch_env \<Rightarrow> dedup_claim \<Rightarrow> ('j, 'w, bool) task" where
  "recover_cancelled_claim env c s =
     (case hm_get (d_outstanding s) c of
        None \<Rightarrow> (Returned False, s)
      | Some oc \<Rightarrow>
          bindR (finish_claim env c oc) (\<lambda>recovered.
            bindR (if recovered = Succeeded then modify (untrack_claim c) else ret ()) (\<lambda>_.
              ret (recovered = RetryableFailure))) s)"

definition finalize_outstanding_claim ::
    "('j, 'w) dispatch_env \<Rightarrow> dedup_claim \<Rightarrow> 'j outstanding_claim \<Rightarrow> ('j, 'w, finalization) task" where
  "finalize_outstanding_claim env c oc = finish_claim env c oc"

text \<open>
  The loop over the snapshot of the tracked claims: only a success untracks, a torn down finalization
  is skipped, and when the deadline has passed no further one is started.
\<close>

definition finalize_one ::
    "('j, 'w) dispatch_env \<Rightarrow> dedup_claim \<Rightarrow> 'j outstanding_claim \<Rightarrow> ('j, 'w) dispatch \<Rightarrow> ('j, 'w) dispatch" where
  "finalize_one env c oc s =
     (case finalize_outstanding_claim env c oc s of
        (Returned Succeeded, s') \<Rightarrow> untrack_claim c s'
      | (_, s') \<Rightarrow> s')"

fun finalize_loop ::
    "('j, 'w) dispatch_env \<Rightarrow> (dedup_claim \<times> 'j outstanding_claim) list \<Rightarrow> ('j, 'w) dispatch \<Rightarrow>
     ('j, 'w) dispatch" where
  "finalize_loop env [] s = s"
| "finalize_loop env ((c, oc) # cs) s =
     (if ev_deadline env (d_world s) then s
      else finalize_loop env cs (finalize_one env c oc s))"

definition finalize_outstanding_claims ::
    "('j, 'w) dispatch_env \<Rightarrow> ('j, 'w) dispatch \<Rightarrow> (runtime_error + unit) \<times> ('j, 'w) dispatch" where
  "finalize_outstanding_claims env s =
     (let s' = finalize_loop env (d_outstanding s) s;
          remaining = outstanding_claim_count s'
      in (if remaining = 0 then Inr () else Inl (RT_DedupFinalization remaining), s'))"

end
