(* ===== verification/DispatchProps.thy ===== *)
theory DispatchProps
  imports Dispatch
begin

text \<open>
  What the dispatch of events guarantees: a small Hoare logic for tasks that may be torn down or still
  be running, the invariant that ties the state of a tracked claim to the calls made so far, and the
  properties: no claim whose handlers have completed is ever released, nothing is acknowledged before
  it is committed, no claim is lost, retries are bounded, and finalization empties the table when the
  outside answers.
\<close>

section \<open>Hoare triples for tasks\<close>

text \<open>\<open>P\<close> before, \<open>Q\<close> of the result when the task returns, \<open>R\<close> when it is torn down or still runs.\<close>

definition post ::
    "('a \<Rightarrow> ('j, 'w) dispatch \<Rightarrow> bool) \<Rightarrow> (('j, 'w) dispatch \<Rightarrow> bool) \<Rightarrow> 'a run \<times> ('j, 'w) dispatch \<Rightarrow> bool" where
  "post Q R r \<longleftrightarrow> (case r of (Returned x, s') \<Rightarrow> Q x s' | (_, s') \<Rightarrow> R s')"

lemma post_simps [simp]:
  "post Q R (Returned x, s) = Q x s" "post Q R (Torn, s) = R s" "post Q R (Unfinished, s) = R s"
  by (simp_all add: post_def)

definition triple ::
    "(('j, 'w) dispatch \<Rightarrow> bool) \<Rightarrow> ('j, 'w, 'a) task \<Rightarrow> ('a \<Rightarrow> ('j, 'w) dispatch \<Rightarrow> bool) \<Rightarrow>
     (('j, 'w) dispatch \<Rightarrow> bool) \<Rightarrow> bool" where
  "triple P m Q R \<longleftrightarrow> (\<forall>s. P s \<longrightarrow> post Q R (m s))"

lemma tripleI: "(\<And>s. P s \<Longrightarrow> post Q R (m s)) \<Longrightarrow> triple P m Q R"
  by (simp add: triple_def)

lemma triple_post: "triple P m Q R \<Longrightarrow> P s \<Longrightarrow> post Q R (m s)"
  by (simp add: triple_def)

lemma tripleD:
  assumes "triple P m Q R" and "P s"
  shows "m s = (Returned x, s') \<Longrightarrow> Q x s'" and "m s = (Torn, s') \<Longrightarrow> R s'"
    and "m s = (Unfinished, s') \<Longrightarrow> R s'"
  using triple_post [OF assms] by simp_all

lemma post_mono:
  "post Q R r \<Longrightarrow> (\<And>x s. Q x s \<Longrightarrow> Q' x s) \<Longrightarrow> (\<And>s. R s \<Longrightarrow> R' s) \<Longrightarrow> post Q' R' r"
  by (cases r; cases "fst r") auto

lemma triple_ret: "(\<And>s. P s \<Longrightarrow> Q x s) \<Longrightarrow> triple P (ret x) Q R"
  by (simp add: triple_def ret_def)

lemma triple_modify: "(\<And>s. P s \<Longrightarrow> Q () (f s)) \<Longrightarrow> triple P (modify f) Q R"
  by (simp add: triple_def modify_def)

lemma triple_bind:
  assumes "triple P m M R" and "\<And>x. triple (M x) (f x) Q R"
  shows "triple P (bindR m f) Q R"
proof (rule tripleI)
  fix s assume P: "P s"
  obtain r s1 where r: "m s = (r, s1)" by (cases "m s")
  show "post Q R (bindR m f s)"
    using triple_post [OF assms(1) P] triple_post [OF assms(2)]
    by (cases r) (simp_all add: r bindR_def)
qed

lemma triple_weaken:
  "triple P m Q R \<Longrightarrow> (\<And>s. P' s \<Longrightarrow> P s) \<Longrightarrow> (\<And>x s. Q x s \<Longrightarrow> Q' x s) \<Longrightarrow> (\<And>s. R s \<Longrightarrow> R' s) \<Longrightarrow>
   triple P' m Q' R'"
  by (rule tripleI, rule post_mono [where Q = Q and R = R]) (auto intro: triple_post)

lemma triple_pre: "triple P m Q R \<Longrightarrow> (\<And>s. P' s \<Longrightarrow> P s) \<Longrightarrow> triple P' m Q R"
  by (simp add: triple_def)

lemma triple_guard:
  assumes "triple P m Q R" and "\<And>x s. Q x s \<Longrightarrow> Q' x (g s)" and "\<And>s. R s \<Longrightarrow> R' (g s)"
    and "\<And>s. R s \<Longrightarrow> R' s"
  shows "triple P (with_guard g m) Q' R'"
proof (rule tripleI)
  fix s assume P: "P s"
  obtain r s1 where r: "m s = (r, s1)" by (cases "m s")
  show "post Q' R' (with_guard g m s)"
    using triple_post [OF assms(1) P] assms(2-4) by (cases r) (simp_all add: r with_guard_def)
qed

text \<open>What every world step and every pause keeps.\<close>

definition stable :: "(('j, 'w) dispatch \<Rightarrow> bool) \<Rightarrow> bool" where
  "stable P \<longleftrightarrow>
     (\<forall>s w. P s \<longrightarrow> P (s\<lparr>d_world := w\<rparr>)) \<and> (\<forall>s w d. P s \<longrightarrow> P (note_call (Slept d) w s))"

lemma triple_sleep: "stable P \<Longrightarrow> triple P (sleep env d) (\<lambda>_. P) P"
  unfolding stable_def sleep_def by (intro tripleI) (auto split: prod.splits answer.splits)

lemma triple_wait_permit: "stable P \<Longrightarrow> triple P (wait_permit env) (\<lambda>_. P) P"
  unfolding stable_def wait_permit_def by (intro tripleI) (auto split: prod.splits answer.splits)

lemma triple_attempts:
  assumes "stable P" and "\<And>s w b. P s \<Longrightarrow> P (note_call (ev b) w s)"
    and "\<And>s w. P s \<Longrightarrow> S (note_call (ev True) w s)"
  shows "triple P (attempts env act ev n backoff) (\<lambda>r s. if r = Succeeded then S s else P s) P"
proof (induction n arbitrary: backoff)
  case 0
  then show ?case by (intro tripleI) auto
next
  case (Suc n)
  have pause: "triple P (bindR (sleep env backoff) (\<lambda>_. attempts env act ev n (2 * backoff)))
      (\<lambda>r s. if r = Succeeded then S s else P s) P"
    by (rule triple_bind [OF triple_sleep [OF assms(1)]]) (rule Suc.IH)
  show ?case
  proof (rule tripleI)
    fix s assume P: "P s"
    obtain a w where a: "act (d_world s) = (a, w)" by (cases "act (d_world s)")
    note logged = assms(2) [OF P] and ok = assms(3) [OF P]
    show "post (\<lambda>r s. if r = Succeeded then S s else P s) P (attempts env act ev (Suc n) backoff s)"
    proof (cases a)
      case (Answered x)
      then show ?thesis
        using logged ok triple_post [OF pause logged] by (cases x) (simp_all add: a)
    qed (use logged triple_post [OF pause logged] in \<open>simp_all add: a\<close>)
  qed
qed

lemma triple_ack_attempts:
  assumes "stable P" and "\<And>s w b. P s \<Longrightarrow> P (note_call (Ack_Call co b) w s)"
  shows "triple P (ack_attempts env co a e n backoff) (\<lambda>_. P) P"
proof (induction n arbitrary: backoff)
  case 0
  then show ?case by (intro tripleI) auto
next
  case (Suc n)
  have pause: "triple P (bindR (sleep env backoff) (\<lambda>_. ack_attempts env co a e n (2 * backoff))) (\<lambda>_. P) P"
    by (rule triple_bind [OF triple_sleep [OF assms(1)]]) (rule Suc.IH)
  show ?case
  proof (rule tripleI)
    fix s assume P: "P s"
    obtain x w where x: "ev_ack env a e (d_world s) = (x, w)" by (cases "ev_ack env a e (d_world s)")
    note logged = assms(2) [OF P]
    show "post (\<lambda>_. P) P (ack_attempts env co a e (Suc n) backoff s)"
    proof (cases x)
      case (Answered y)
      then show ?thesis
        using logged triple_post [OF pause logged] by (cases y) (simp_all add: x)
    qed (use logged triple_post [OF pause logged] in \<open>simp_all add: x\<close>)
  qed
qed

lemma triple_acknowledge:
  "stable P \<Longrightarrow> (\<And>s w b. P s \<Longrightarrow> P (note_call (Ack_Call co b) w s)) \<Longrightarrow>
   triple P (acknowledge_event_with_retry env co a e) (\<lambda>_. P) P"
  unfolding acknowledge_event_with_retry_def by (rule triple_ack_attempts)

section \<open>What the tasks of one claim leave alone\<close>

text \<open>A predicate that survives everything a task of the claim \<open>c\<close> does to the state.\<close>

definition closed_under :: "dedup_claim \<Rightarrow> (('j, 'w) dispatch \<Rightarrow> bool) \<Rightarrow> bool" where
  "closed_under c P \<longleftrightarrow>
     (\<forall>s w. P s \<longrightarrow> P (s\<lparr>d_world := w\<rparr>)) \<and>
     (\<forall>s x w. P s \<longrightarrow> P (note_call x w s)) \<and>
     (\<forall>s f. P s \<longrightarrow> P (observe f s)) \<and>
     (\<forall>s oc. P s \<longrightarrow> P (s\<lparr>d_outstanding := hm_put c oc (d_outstanding s)\<rparr>)) \<and>
     (\<forall>s. P s \<longrightarrow> P (untrack_claim c s)) \<and>
     (\<forall>s r. P s \<longrightarrow> P (s\<lparr>d_recovery := r\<rparr>))"

lemma closed_underD:
  assumes "closed_under c P"
  shows "stable P" "P s \<Longrightarrow> P (s\<lparr>d_world := w\<rparr>)" "P s \<Longrightarrow> P (note_call x w s)" "P s \<Longrightarrow> P (observe f s)"
    "P s \<Longrightarrow> P (s\<lparr>d_outstanding := hm_put c oc (d_outstanding s)\<rparr>)" "P s \<Longrightarrow> P (untrack_claim c s)"
    "P s \<Longrightarrow> P (set_claim_state st c s)" "P s \<Longrightarrow> P (track_claim c e a s)"
    "P s \<Longrightarrow> P (drop_cancellation_guard c s)"
  using assms
  by (auto simp: closed_under_def stable_def set_claim_state_def track_claim_def
      drop_cancellation_guard_def split: option.splits)

abbreviation keeps :: "(('j, 'w) dispatch \<Rightarrow> bool) \<Rightarrow> ('j, 'w, 'a) task \<Rightarrow> bool" where
  "keeps P m \<equiv> triple P m (\<lambda>_. P) P"

lemma keeps_ret: "keeps P (ret x)"
  by (simp add: triple_ret)

lemma keeps_bind: "keeps P m \<Longrightarrow> (\<And>x. keeps P (f x)) \<Longrightarrow> keeps P (bindR m f)"
  by (rule triple_bind)

lemma keeps_attempts: "closed_under c P \<Longrightarrow> keeps P (attempts env act ev n backoff)"
  by (rule triple_weaken [OF triple_attempts [where P = P and S = P]]) (auto dest: closed_underD)

lemma keeps_finalize_calls:
  assumes "closed_under c P"
  shows "keeps P (commit_claim_with_retry env c)" "keeps P (release_claim_with_retry env c)"
    "keeps P (acknowledge_event_with_retry env co a e)" "keeps P (sleep env d)" "keeps P (wait_permit env)"
    "keeps P (modify (untrack_claim c))" "keeps P (modify (mark_commit_pending c))"
    "keeps P (modify (mark_acknowledgement_pending c))"
  using closed_underD [OF assms]
  by (auto simp: commit_claim_with_retry_def release_claim_with_retry_def mark_commit_pending_def
      mark_acknowledgement_pending_def
      intro!: keeps_attempts [OF assms] triple_acknowledge triple_sleep triple_wait_permit triple_modify)

lemma keeps_run_handler:
  assumes "closed_under c P"
  shows "keeps P (run_handler env c r ctx e t)"
proof (rule tripleI)
  fix s assume P: "P s"
  obtain b where b: "b = (case policy_timeout (reg_policy r) of None \<Rightarrow> t | Some d \<Rightarrow> d)" by simp
  obtain x w where x: "eh_handle (reg_handler r) b ctx (env_event e) (d_world s) = (x, w)"
    by (cases "eh_handle (reg_handler r) b ctx (env_event e) (d_world s)")
  note more = closed_underD(3) [OF assms P] closed_underD(4) [OF assms closed_underD(3) [OF assms P]]
  show "post (\<lambda>_. P) P (run_handler env c r ctx e t s)"
    by (cases x) (simp_all add: run_handler_def Let_def x [unfolded b] more split: sum.splits)
qed

lemma keeps_run_handlers: "closed_under c P \<Longrightarrow> keeps P (run_handlers env c rs ctx e t)"
proof (induction rs)
  case (Cons r rs)
  have "keeps P (bindR (run_handler env c r ctx e t)
      (\<lambda>ok. if ok then run_handlers env c rs ctx e t else ret False))"
    by (intro keeps_bind keeps_run_handler Cons.prems) (simp add: Cons.IH [OF Cons.prems] keeps_ret)
  then show ?case by (simp add: triple_def)
qed (simp add: triple_def)

text \<open>The retries that a task for the claim \<open>c\<close> hands out are about \<open>c\<close>.\<close>

fun retry_about :: "dedup_claim \<Rightarrow> pending_retry option \<Rightarrow> bool" where
  "retry_about c None \<longleftrightarrow> True"
| "retry_about c (Some (Pending_Dedup c' st)) \<longleftrightarrow> c' = c \<and> st \<noteq> AcknowledgementPending"
| "retry_about c (Some (Pending_Acknowledgement co)) \<longleftrightarrow> co = None \<or> co = Some c"

lemma keeps_process_claimed:
  assumes "closed_under c P"
  shows "triple P (process_claimed_event env hs t ctx e a c) (\<lambda>pr s. P s \<and> retry_about c pr) P"
  unfolding process_claimed_event_def
proof (rule triple_bind [OF keeps_run_handlers [OF assms]])
  note calls = keeps_finalize_calls [OF assms]
  have fin: "triple P (ret pr) (\<lambda>pr s. P s \<and> retry_about c pr) P" if "retry_about c pr" for pr
    using that by (simp add: triple_ret)
  fix handled
  show "triple P (if \<not> handled then bindR (release_claim_with_retry env c) (\<lambda>res. case res of
             Succeeded \<Rightarrow> bindR (modify (untrack_claim c)) (\<lambda>_. ret None)
           | RetryableFailure \<Rightarrow> ret (Some (Pending_Dedup c Processing))
           | PermanentFailure \<Rightarrow> ret None)
      else bindR (modify (mark_commit_pending c)) (\<lambda>_.
         bindR (commit_claim_with_retry env c) (\<lambda>res. case res of
             Succeeded \<Rightarrow> bindR (modify (mark_acknowledgement_pending c)) (\<lambda>_.
               bindR (acknowledge_event_with_retry env (Some c) a e) (\<lambda>acked.
                 if acked then bindR (modify (untrack_claim c)) (\<lambda>_. ret None)
                 else ret (Some (Pending_Acknowledgement (Some c)))))
           | RetryableFailure \<Rightarrow> ret (Some (Pending_Dedup c CommitPending))
           | PermanentFailure \<Rightarrow> ret None)))
      (\<lambda>pr s. P s \<and> retry_about c pr) P"
    by (auto intro!: triple_bind [OF calls(1)] triple_bind [OF calls(2)] triple_bind [OF calls(3)]
        triple_bind [OF calls(6)] triple_bind [OF calls(7)] triple_bind [OF calls(8)] fin
        split: finalization.splits)
qed

lemma keeps_ack_until: "closed_under c P \<Longrightarrow> keeps P (ack_until env fuel co a e)"
proof (induction fuel)
  case (Suc fuel)
  have "keeps P (bindR (acknowledge_event_with_retry env co a e) (\<lambda>acked.
       if acked then ret ()
       else bindR (sleep env dedup_background_retry_delay) (\<lambda>_. ack_until env fuel co a e)))"
    by (auto intro!: keeps_bind keeps_finalize_calls [OF Suc.prems] keeps_ret Suc.IH [OF Suc.prems])
  then show ?case by (simp add: triple_def)
qed (simp add: triple_def)

lemma keeps_retry_dedup: "closed_under c P \<Longrightarrow> keeps P (retry_dedup env fuel c st a e)"
proof (induction fuel)
  case (Suc fuel)
  note calls = keeps_finalize_calls [OF Suc.prems]
  have torn: "keeps P (\<lambda>s. (Torn, s))" by (simp add: triple_def)
  have "keeps P (bindR (sleep env dedup_background_retry_delay) (\<lambda>_.
     bindR (case st of
              Processing \<Rightarrow> release_claim_with_retry env c
            | CommitPending \<Rightarrow> commit_claim_with_retry env c
            | AcknowledgementPending \<Rightarrow> (\<lambda>s. (Torn, s))) (\<lambda>res.
       case res of
         RetryableFailure \<Rightarrow> retry_dedup env fuel c st a e
       | PermanentFailure \<Rightarrow> ret ()
       | Succeeded \<Rightarrow>
           if st = CommitPending then
             bindR (modify (mark_acknowledgement_pending c)) (\<lambda>_.
             bindR (ack_until env fuel (Some c) a e) (\<lambda>_. modify (untrack_claim c)))
           else modify (untrack_claim c))))"
    using Suc.IH [OF Suc.prems]
    by (intro keeps_bind calls)
       (auto intro!: keeps_bind calls keeps_ret keeps_ack_until Suc.prems torn
          split: claim_state.splits finalization.splits)
  then show ?case by (simp add: triple_def)
qed (simp add: triple_def)

lemma keeps_retry_acknowledgement:
  "closed_under c P \<Longrightarrow> co = None \<or> co = Some c \<Longrightarrow> keeps P (retry_acknowledgement env fuel co a e)"
proof (induction fuel)
  case (Suc fuel)
  note calls = keeps_finalize_calls [OF Suc.prems(1)]
  have "keeps P (bindR (sleep env dedup_background_retry_delay) (\<lambda>_.
     bindR (acknowledge_event_with_retry env co a e) (\<lambda>acked.
       if acked then (case co of None \<Rightarrow> ret () | Some c \<Rightarrow> modify (untrack_claim c))
       else retry_acknowledgement env fuel co a e)))"
    using Suc.prems(2) Suc.IH [OF Suc.prems]
    by (intro keeps_bind calls) (auto intro!: calls keeps_ret split: option.splits)
  then show ?case by (simp add: triple_def)
qed (simp add: triple_def)

lemma keeps_retry_if_pending:
  assumes "closed_under c P" and "retry_about c pr"
  shows "keeps P (retry_if_pending env fuel a e pr)"
proof (cases pr)
  case None
  then show ?thesis by (simp add: retry_if_pending_def keeps_ret)
next
  case (Some p)
  with assms(2) show ?thesis
    by (cases p)
       (auto simp: retry_if_pending_def
          intro: keeps_retry_dedup [OF assms(1)] keeps_retry_acknowledgement [OF assms(1)])
qed

lemma keeps_process_duplicate:
  "closed_under c P \<Longrightarrow> triple P (process_duplicate_event env e a) (\<lambda>pr s. P s \<and> retry_about c pr) P"
  unfolding process_duplicate_event_def
  by (rule triple_bind [OF keeps_finalize_calls(3)]) (auto intro: triple_ret)

lemma triple_fact: "(F \<Longrightarrow> triple P m Q R) \<Longrightarrow> triple (\<lambda>s. P s \<and> F) m Q R"
  by (simp add: triple_def)

lemma keeps_duplicate:
  "closed_under c P \<Longrightarrow> keeps P (bindR (process_duplicate_event env e a) (retry_if_pending env fuel a e))"
  by (rule triple_bind [OF keeps_process_duplicate]) (auto intro: triple_fact keeps_retry_if_pending)

lemma keeps_process_owned:
  assumes "closed_under c P"
  shows "keeps P (process_owned env fuel hs t ctx e a c)"
  unfolding process_owned_def
proof (rule triple_guard)
  show "keeps P (bindR (wait_permit env) (\<lambda>_. bindR (process_claimed_event env hs t ctx e a c)
      (retry_if_pending env fuel a e)))"
    by (intro keeps_bind keeps_finalize_calls(5) [OF assms] triple_bind [OF keeps_process_claimed [OF assms]]
        triple_fact keeps_retry_if_pending [OF assms])
qed (auto dest: closed_underD(9) [OF assms])

lemma keeps_claim_event:
  assumes "\<And>c. closed_under c P"
  shows "keeps P (claim_event env fuel e a)"
proof (induction fuel)
  case (Suc fuel)
  have pause: "keeps P (bindR (sleep env dedup_background_retry_delay) (\<lambda>_. claim_event env fuel e a))"
    by (intro keeps_bind keeps_finalize_calls(4) [OF assms] Suc.IH)
  show ?case
  proof (rule tripleI)
    fix s assume P: "P s"
    obtain x w where x: "ev_claim env (event_key e) (d_world s) = (x, w)"
      by (cases "ev_claim env (event_key e) (d_world s)")
    note cl = closed_underD [OF assms]
    have w: "P (s\<lparr>d_world := w\<rparr>)" "P (note_call y w s)" for y using cl P by blast+
    have go: "post (\<lambda>_. P) P (bindR (sleep env dedup_background_retry_delay) (\<lambda>_. claim_event env fuel e a)
        (s\<lparr>d_world := w\<rparr>))"
      using triple_post [OF pause] w by blast
    show "post (\<lambda>_. P) P (claim_event env (Suc fuel) e a s)"
    proof (cases x)
      case (Answered y)
      then show ?thesis
        using w go cl(4) cl(8) by (auto simp: x split: sum.splits option.splits)
    qed (use w go in \<open>simp_all add: x\<close>)
  qed
qed (simp add: triple_def)

lemma keeps_event_task:
  assumes "\<And>c. closed_under c P"
  shows "keeps P (event_task env fuel hs t ad e)"
proof -
  have branch: "keeps P (handle_claimed env fuel hs t ad e claimed)" for claimed
    by (cases claimed)
       (auto simp: handle_claimed_def Let_def
          intro: keeps_ret keeps_process_owned [OF assms] keeps_duplicate [OF assms])
  have inner: "keeps P (with_guard (observe record_event_completed)
      (bindR (claim_event env fuel e a) (handle_claimed env fuel hs t ad e)))" for a
    by (rule triple_guard [where Q = "\<lambda>_. P" and R = P])
       (auto intro: keeps_bind keeps_claim_event [OF assms] branch closed_underD(4) [OF assms])
  show ?thesis
    unfolding event_task_def
    by (intro keeps_bind keeps_finalize_calls(5) [OF assms] triple_modify closed_underD(4) [OF assms] inner)
qed

lemma keeps_finish_claim: "closed_under c P \<Longrightarrow> keeps P (finish_claim env c oc)"
  unfolding finish_claim_def
  by (cases "oc_state oc")
     (auto intro!: keeps_bind keeps_finalize_calls keeps_ret split: finalization.splits)

lemma keeps_recover: "closed_under c P \<Longrightarrow> keeps P (recover_cancelled_claim env c)"
proof (rule tripleI)
  fix s assume c: "closed_under c P" and P: "P s"
  have "keeps P (bindR (finish_claim env c oc) (\<lambda>recovered.
            bindR (if recovered = Succeeded then modify (untrack_claim c) else ret ()) (\<lambda>_.
              ret (recovered = RetryableFailure))))" for oc
    using c by (auto intro!: keeps_bind keeps_finish_claim keeps_finalize_calls keeps_ret)
  from triple_post [OF this P] P show "post (\<lambda>_. P) P (recover_cancelled_claim env c s)"
    by (auto simp: recover_cancelled_claim_def split: option.splits)
qed

section \<open>No claim is lost\<close>

text \<open>Only the entry of \<open>c\<close> may differ from the table \<open>m\<close>.\<close>

definition same_but ::
    "dedup_claim \<Rightarrow> (dedup_claim, 'j outstanding_claim) hmap \<Rightarrow> ('j, 'w) dispatch \<Rightarrow> bool" where
  "same_but c m s \<longleftrightarrow>
     hm_wf (d_outstanding s) \<and> (\<forall>c'. c' \<noteq> c \<longrightarrow> hm_get (d_outstanding s) c' = hm_get m c')"

lemma closed_same_but: "closed_under c (same_but c m)"
  by (auto simp: closed_under_def same_but_def note_call_def observe_def untrack_claim_def map_simps)

lemma bindR_eq:
  "bindR m f s = (res, s') \<longleftrightarrow>
     (\<exists>x s1. m s = (Returned x, s1) \<and> f x s1 = (res, s')) \<or>
     m s = (Torn, s') \<and> res = Torn \<or> m s = (Unfinished, s') \<and> res = Unfinished"
  by (auto simp: bindR_def split: prod.splits run.splits)

lemma with_guard_eq:
  "with_guard g m s = (res, s') \<Longrightarrow> res \<noteq> Unfinished \<Longrightarrow> \<exists>s1. m s = (res, s1) \<and> s' = g s1"
  by (auto simp: with_guard_def split: prod.splits run.splits)

lemma sleep_outstanding: "sleep env d s = (r, s') \<Longrightarrow> d_outstanding s' = d_outstanding s"
  by (auto simp: sleep_def note_call_def split: prod.splits answer.splits)

definition tracked_after ::
    "'j event_envelope \<Rightarrow> adapter_id \<Rightarrow> claimed run \<Rightarrow> (dedup_claim, 'j outstanding_claim) hmap \<Rightarrow>
     (dedup_claim, 'j outstanding_claim) hmap" where
  "tracked_after e a r m =
     (case r of
        Returned (Claim_Owned c) \<Rightarrow> hm_put c \<lparr>oc_state = Processing, oc_event = e, oc_adapter = a\<rparr> m
      | _ \<Rightarrow> m)"

lemma tracked_after_simps [simp]:
  "tracked_after e a (Returned (Claim_Owned c)) m =
     hm_put c \<lparr>oc_state = Processing, oc_event = e, oc_adapter = a\<rparr> m"
  "\<nexists>c. r = Returned (Claim_Owned c) \<Longrightarrow> tracked_after e a r m = m"
  by (auto simp: tracked_after_def split: run.splits claimed.splits)

lemma claim_event_outstanding:
  "claim_event env fuel e a s = (r, s') \<Longrightarrow> d_outstanding s' = tracked_after e a r (d_outstanding s)"
proof (induction fuel arbitrary: s)
  case (Suc fuel)
  obtain x w where x: "ev_claim env (event_key e) (d_world s) = (x, w)"
    by (cases "ev_claim env (event_key e) (d_world s)")
  have pause: ?case if "bindR (sleep env dedup_background_retry_delay) (\<lambda>_. claim_event env fuel e a)
        (s\<lparr>d_world := w\<rparr>) = (r, s')"
    using that Suc.IH sleep_outstanding [of env dedup_background_retry_delay "s\<lparr>d_world := w\<rparr>"]
    by (fastforce simp: bindR_eq)
  show ?case
  proof (cases x)
    case (Answered y)
    with Suc.prems pause show ?thesis
      by (auto simp: x observe_def track_claim_def note_call_def split: sum.splits option.splits if_splits)
  qed (use Suc.prems pause in \<open>auto simp: x\<close>)
qed simp

lemma event_task_inner:
  assumes "event_task env fuel hs t ad e s = (res, s')"
  shows "(\<exists>w. s' = s\<lparr>d_world := w\<rparr>) \<or>
    (\<exists>s1. d_outstanding s1 = d_outstanding s \<and> d_calls s1 = d_calls s \<and>
       with_guard (observe record_event_completed)
         (bindR (claim_event env fuel e (adapter_id_of ad)) (handle_claimed env fuel hs t ad e)) s1 = (res, s'))"
proof -
  obtain x w where x: "ev_permit env (d_world s) = (x, w)" by (cases "ev_permit env (d_world s)")
  let ?s1 = "observe record_event_started (s\<lparr>d_world := w\<rparr>)"
  have "d_outstanding ?s1 = d_outstanding s" "d_calls ?s1 = d_calls s" by (simp_all add: observe_def)
  with assms show ?thesis
    unfolding event_task_def by (cases x) (auto simp: bindR_def wait_permit_def modify_def x)
qed

text \<open>No claim is lost: when the task of an event has ended, whether it returned or was torn down at
  any await (by a panic or by an abort), a claim that it has taken and that is still tracked has been
  handed to the recovery supervisor.\<close>

theorem event_task_no_leak:
  assumes "event_task env fuel hs t ad e s = (res, s')" and "res \<noteq> Unfinished"
    and "hm_wf (d_outstanding s)" and "\<not> hm_contains (d_outstanding s) c"
    and "hm_contains (d_outstanding s') c"
  shows "c \<in> set (d_recovery s')"
proof -
  let ?a = "adapter_id_of ad"
  have "\<nexists>w. s' = s\<lparr>d_world := w\<rparr>" using assms(4,5) by auto
  with event_task_inner [OF assms(1)] obtain s1 where s1: "d_outstanding s1 = d_outstanding s"
    "with_guard (observe record_event_completed)
      (bindR (claim_event env fuel e ?a) (handle_claimed env fuel hs t ad e)) s1 = (res, s')" by auto
  from with_guard_eq [OF s1(2) assms(2)] obtain s2 where
    s2: "bindR (claim_event env fuel e ?a) (handle_claimed env fuel hs t ad e) s1 = (res, s2)"
      "s' = observe record_event_completed s2"
    by blast
  then have c2: "hm_contains (d_outstanding s2) c" and goal: "c \<in> set (d_recovery s2) \<Longrightarrow> ?thesis"
    using assms(5) by (auto simp: observe_def)
  obtain r s3 where r: "claim_event env fuel e ?a s1 = (r, s3)" by (cases "claim_event env fuel e ?a s1")
  note out = claim_event_outstanding [OF r, unfolded s1(1)]
  show ?thesis
  proof (cases "\<exists>c0. r = Returned (Claim_Owned c0)")
    case False
    obtain c1 :: dedup_claim where c1: "c1 \<noteq> c" by (metis dedup_claim.select_convs(2) n_not_Suc_n)
    have "same_but c1 (d_outstanding s) s3"
      using out False assms(3) by (simp add: same_but_def)
    moreover have "keeps (same_but c1 (d_outstanding s)) (handle_claimed env fuel hs t ad e cl)"
      if "\<nexists>c0. cl = Claim_Owned c0" for cl
      using that by (cases cl) (auto simp: handle_claimed_def Let_def intro: keeps_ret keeps_duplicate [OF closed_same_but])
    ultimately have "same_but c1 (d_outstanding s) s2"
      using s2(1) r False by (cases r; cases res) (auto simp: bindR_def dest: tripleD)
    with c1 c2 assms(4) show ?thesis by (simp add: same_but_def hm_contains_def)
  next
    case True
    then obtain c0 where c0: "r = Returned (Claim_Owned c0)" by blast
    then have run: "process_owned env fuel hs t (new_context e ad) e ?a c0 s3 = (res, s2)"
      using s2(1) r by (simp add: bindR_def handle_claimed_def)
    have "same_but c0 (d_outstanding s) s3"
      using out c0 assms(3) by (simp add: same_but_def map_simps)
    from triple_post [OF keeps_process_owned [OF closed_same_but] this] run
    have "same_but c0 (d_outstanding s) s2" by (cases res) (metis post_simps)+
    with c2 assms(4) have "c = c0" by (auto simp: same_but_def hm_contains_def)
    moreover from with_guard_eq [OF run [unfolded process_owned_def] assms(2)]
    obtain s4 where "s2 = drop_cancellation_guard c0 s4" by blast
    ultimately show ?thesis
      using c2 goal by (auto simp: drop_cancellation_guard_def split: if_splits)
  qed
qed

text \<open>An environment for concrete runs: the world counts the calls, the store grants one claim, the
  handlers and finalization calls answer as given, and tasks are torn down at their \<open>n\<close>-th permit.\<close>

definition demo_env ::
    "nat \<Rightarrow> (dedup_error + unit) answer \<Rightarrow> (adapter_error + unit) answer \<Rightarrow> (unit, nat) dispatch_env" where
  "demo_env n fin ack = \<lparr>ev_claim = (\<lambda>k w. (Answered (Inr (Some \<lparr>claim_key = k, claim_token = w\<rparr>)), w + 1)),
     ev_commit = (\<lambda>c w. (fin, w + 1)), ev_release = (\<lambda>c w. (fin, w + 1)),
     ev_ack = (\<lambda>a e w. (ack, w + 1)), ev_sleep = (\<lambda>d w. (Answered (), w + 1)),
     ev_permit = (\<lambda>w. (if w < n then Answered () else Torn_Down, w + 1)),
     ev_elapsed = (\<lambda>w. 0), ev_deadline = (\<lambda>w. False)\<rparr>"

definition demo_state :: "(unit, nat) dispatch" where
  "demo_state = \<lparr>d_world = 0, d_outstanding = [], d_observer = new_observer, d_recovery = [], d_calls = []\<rparr>"

definition demo_envelope :: "unit event_envelope" where
  "demo_envelope = \<lparr>env_id = lit ''e1'', env_adapter = lit ''a'', delivery_id = None, timestamp = None,
     env_event = Event_Lifecycle (), raw = ()\<rparr>"

definition demo_claim :: dedup_claim where
  "demo_claim = \<lparr>claim_key = event_key demo_envelope, claim_token = 1\<rparr>"

lemmas demo_dispatch_defs = demo_env_def demo_state_def demo_envelope_def demo_claim_def demo_adapter_def

lemma event_task_no_leak_witness:
  "demo_claim \<in> set (d_recovery (snd (event_task (demo_env 1 Timed_Out Timed_Out) (Suc 0) [] 9 (demo_adapter ''a'')
     demo_envelope demo_state)))"
proof -
  let ?run = "event_task (demo_env 1 Timed_Out Timed_Out) (Suc 0) [] 9 (demo_adapter ''a'') demo_envelope demo_state"
  have run: "?run = (Torn, snd ?run) \<and> hm_contains (d_outstanding (snd ?run)) demo_claim"
    by (simp add: event_task_def bindR_def wait_permit_def modify_def observe_def with_guard_def
        handle_claimed_def process_owned_def track_claim_def note_call_def drop_cancellation_guard_def
        demo_dispatch_defs hm_eval Let_def)
  have "hm_wf (d_outstanding demo_state)" "\<not> hm_contains (d_outstanding demo_state) demo_claim"
    by (simp_all add: demo_state_def hm_eval)
  with event_task_no_leak [of "demo_env 1 Timed_Out Timed_Out" "Suc 0" "[]" 9 "demo_adapter ''a''" demo_envelope
      demo_state Torn "snd ?run" demo_claim] run
  show ?thesis by simp
qed

section \<open>Which calls are legal\<close>

fun claim_of :: "dispatch_call \<Rightarrow> dedup_claim option" where
  "claim_of (Claim_Granted c) = Some c"
| "claim_of (Handler_Call c n ok) = Some c"
| "claim_of (Commit_Call c ok) = Some c"
| "claim_of (Release_Call c ok) = Some c"
| "claim_of (Ack_Call co ok) = co"
| "claim_of (Slept d) = None"

definition granted :: "dedup_claim \<Rightarrow> dispatch_call list \<Rightarrow> bool" where
  "granted c L \<longleftrightarrow> Claim_Granted c \<in> set L"

definition mentioned :: "dedup_claim \<Rightarrow> dispatch_call list \<Rightarrow> bool" where
  "mentioned c L \<longleftrightarrow> (\<exists>x\<in>set L. claim_of x = Some c)"

definition committing :: "dedup_claim \<Rightarrow> dispatch_call list \<Rightarrow> bool" where
  "committing c L \<longleftrightarrow> Commit_Call c True \<in> set L \<or> Commit_Call c False \<in> set L"

definition releasing :: "dedup_claim \<Rightarrow> dispatch_call list \<Rightarrow> bool" where
  "releasing c L \<longleftrightarrow> Release_Call c True \<in> set L \<or> Release_Call c False \<in> set L"

definition called :: "dedup_claim \<Rightarrow> ustr \<Rightarrow> dispatch_call list \<Rightarrow> bool" where
  "called c n L \<longleftrightarrow> Handler_Call c n True \<in> set L \<or> Handler_Call c n False \<in> set L"

definition handled :: "ustr list \<Rightarrow> dedup_claim \<Rightarrow> dispatch_call list \<Rightarrow> bool" where
  "handled names c L \<longleftrightarrow> (\<forall>n\<in>set names. Handler_Call c n True \<in> set L)"

text \<open>
  When a call may be made, given the calls before it: a handler runs once per claim and only before
  the claim is finalized; a commit needs all handlers to have completed and no release before it; a
  release is out of the question once a commit was tried or all handlers have completed; the event is
  acknowledged at its source only after a successful commit.
\<close>

fun legal :: "ustr list \<Rightarrow> dispatch_call list \<Rightarrow> dispatch_call \<Rightarrow> bool" where
  "legal names L (Handler_Call c n ok) \<longleftrightarrow>
     granted c L \<and> \<not> called c n L \<and> \<not> committing c L \<and> \<not> releasing c L"
| "legal names L (Commit_Call c ok) \<longleftrightarrow> granted c L \<and> handled names c L \<and> \<not> releasing c L"
| "legal names L (Release_Call c ok) \<longleftrightarrow>
     granted c L \<and> \<not> committing c L \<and> (names = [] \<or> \<not> handled names c L)"
| "legal names L (Ack_Call (Some c) ok) \<longleftrightarrow> Commit_Call c True \<in> set L"
| "legal names L _ \<longleftrightarrow> True"

definition legal_trace :: "ustr list \<Rightarrow> dispatch_call list \<Rightarrow> bool" where
  "legal_trace names L \<longleftrightarrow> (\<forall>i<length L. legal names (take i L) (L ! i))"

lemma legal_trace_Nil [simp]: "legal_trace names []"
  by (simp add: legal_trace_def)

lemma legal_trace_snoc [simp]: "legal_trace names (L @ [x]) \<longleftrightarrow> legal_trace names L \<and> legal names L x"
  by (auto simp: legal_trace_def less_Suc_eq nth_append)

lemmas call_defs = granted_def mentioned_def committing_def releasing_def called_def handled_def

section \<open>The invariant of the tracked claims\<close>

definition state_of :: "('j, 'w) dispatch \<Rightarrow> dedup_claim \<Rightarrow> claim_state option" where
  "state_of s c = map_option oc_state (hm_get (d_outstanding s) c)"

definition claim_ok :: "ustr list \<Rightarrow> dispatch_call list \<Rightarrow> dedup_claim \<Rightarrow> claim_state option \<Rightarrow> bool" where
  "claim_ok names L c st \<longleftrightarrow>
     (mentioned c L \<or> st \<noteq> None \<longrightarrow> granted c L) \<and>
     (st = Some Processing \<longrightarrow> \<not> committing c L \<and> (names = [] \<or> \<not> handled names c L)) \<and>
     (st = Some CommitPending \<longrightarrow> handled names c L \<and> \<not> releasing c L) \<and>
     (st = Some AcknowledgementPending \<longrightarrow> Commit_Call c True \<in> set L)"

text \<open>The invariant for all claims but one, and for all.\<close>

definition others_ok :: "ustr list \<Rightarrow> dedup_claim \<Rightarrow> ('j, 'w) dispatch \<Rightarrow> bool" where
  "others_ok names c s \<longleftrightarrow>
     hm_wf (d_outstanding s) \<and> legal_trace names (d_calls s) \<and>
     (\<forall>c'. c' \<noteq> c \<longrightarrow> claim_ok names (d_calls s) c' (state_of s c'))"

definition sys_ok :: "ustr list \<Rightarrow> ('j, 'w) dispatch \<Rightarrow> bool" where
  "sys_ok names s \<longleftrightarrow>
     hm_wf (d_outstanding s) \<and> legal_trace names (d_calls s) \<and>
     (\<forall>c. claim_ok names (d_calls s) c (state_of s c))"

lemma sys_ok_split:
  "sys_ok names s \<longleftrightarrow> others_ok names c s \<and> claim_ok names (d_calls s) c (state_of s c)"
  by (auto simp: sys_ok_def others_ok_def)

lemma note_call_sel [simp]:
  "d_calls (note_call x w s) = d_calls s @ [x]" "d_outstanding (note_call x w s) = d_outstanding s"
  "state_of (note_call x w s) c = state_of s c" "d_world (note_call x w s) = w"
  "d_recovery (note_call x w s) = d_recovery s"
  by (simp_all add: note_call_def state_of_def)

lemma observe_sel [simp]:
  "d_calls (observe f s) = d_calls s" "d_outstanding (observe f s) = d_outstanding s"
  "state_of (observe f s) c = state_of s c"
  by (simp_all add: observe_def state_of_def)

lemma world_sel [simp]: "state_of (s\<lparr>d_world := w\<rparr>) c = state_of s c"
  by (simp add: state_of_def)

lemma claim_ok_other: "claim_of x \<noteq> Some c \<Longrightarrow> claim_ok names (L @ [x]) c st = claim_ok names L c st"
  by (cases x) (auto simp: claim_ok_def call_defs)

lemma others_ok_note:
  "others_ok names c s \<Longrightarrow> legal names (d_calls s) x \<Longrightarrow> claim_of x \<in> {None, Some c} \<Longrightarrow>
   others_ok names c (note_call x w s)"
  by (auto simp: others_ok_def claim_ok_other)

lemma sys_ok_note:
  "sys_ok names s \<Longrightarrow> legal names (d_calls s) x \<Longrightarrow> claim_of x = Some c \<Longrightarrow>
   claim_ok names (d_calls s @ [x]) c (state_of s c) \<Longrightarrow> sys_ok names (note_call x w s)"
  by (auto simp: sys_ok_split [of _ _ c] others_ok_note)

lemma sys_ok_note_none:
  "sys_ok names s \<Longrightarrow> legal names (d_calls s) x \<Longrightarrow> claim_of x = None \<Longrightarrow> sys_ok names (note_call x w s)"
  by (auto simp: sys_ok_def claim_ok_other)

lemma others_ok_simps [simp]:
  "others_ok names c (s\<lparr>d_world := w\<rparr>) = others_ok names c s"
  "others_ok names c (observe f s) = others_ok names c s"
  by (simp_all add: others_ok_def)

lemma sys_ok_simps [simp]:
  "sys_ok names (s\<lparr>d_world := w\<rparr>) = sys_ok names s"
  "sys_ok names (observe f s) = sys_ok names s"
  "sys_ok names (s\<lparr>d_recovery := r\<rparr>) = sys_ok names s"
  by (simp_all add: sys_ok_def state_of_def)

lemma sys_ok_guard [simp]: "sys_ok names (drop_cancellation_guard c s) = sys_ok names s"
  by (simp add: drop_cancellation_guard_def)

lemma sys_ok_slept [simp]: "sys_ok names s \<Longrightarrow> sys_ok names (note_call (Slept d) w s)"
  by (simp add: sys_ok_note_none)

definition in_state :: "ustr list \<Rightarrow> dedup_claim \<Rightarrow> claim_state \<Rightarrow> ('j, 'w) dispatch \<Rightarrow> bool" where
  "in_state names c st s \<longleftrightarrow> sys_ok names s \<and> state_of s c = Some st"

lemma in_state_sys: "in_state names c st s \<Longrightarrow> sys_ok names s"
  by (simp add: in_state_def)

lemma stable_in_state: "stable (in_state names c st)" "stable (sys_ok names)"
  by (simp_all add: stable_def in_state_def)

lemma in_state_claim: "in_state names c st s \<Longrightarrow> claim_ok names (d_calls s) c (Some st)"
  unfolding in_state_def sys_ok_def by metis

lemma in_state_release:
  "in_state names c Processing s \<Longrightarrow> in_state names c Processing (note_call (Release_Call c b) w s)"
  using in_state_claim [of names c Processing s]
  by (auto simp: in_state_def claim_ok_def call_defs intro!: sys_ok_note [where c = c])

lemma in_state_commit:
  "in_state names c CommitPending s \<Longrightarrow> in_state names c CommitPending (note_call (Commit_Call c b) w s)"
  using in_state_claim [of names c CommitPending s]
  by (auto simp: in_state_def claim_ok_def call_defs intro!: sys_ok_note [where c = c])

lemma in_state_ack:
  "in_state names c AcknowledgementPending s \<Longrightarrow>
   in_state names c AcknowledgementPending (note_call (Ack_Call (Some c) b) w s)"
  using in_state_claim [of names c AcknowledgementPending s]
  by (auto simp: in_state_def claim_ok_def call_defs intro!: sys_ok_note [where c = c])

lemma state_of_set: "hm_wf (d_outstanding s) \<Longrightarrow>
   state_of (set_claim_state st c s) c' = (if c' = c \<and> state_of s c \<noteq> None then Some st else state_of s c')"
  by (auto simp: state_of_def set_claim_state_def map_simps split: option.splits)

lemma set_claim_state_sel [simp]:
  "d_calls (set_claim_state st c s) = d_calls s" "d_recovery (set_claim_state st c s) = d_recovery s"
  by (simp_all add: set_claim_state_def split: option.splits)

lemma set_claim_state_wf: "hm_wf (d_outstanding s) \<Longrightarrow> hm_wf (d_outstanding (set_claim_state st c s))"
  by (simp add: set_claim_state_def map_simps split: option.splits)

lemma in_state_set:
  assumes "others_ok names c s" and "state_of s c \<noteq> None" and "claim_ok names (d_calls s) c (Some st)"
  shows "in_state names c st (set_claim_state st c s)"
  using assms
  by (auto simp: in_state_def sys_ok_split [of _ _ c] others_ok_def state_of_set set_claim_state_wf)

lemma sys_ok_untrack: "sys_ok names s \<Longrightarrow> sys_ok names (untrack_claim c s)"
proof -
  assume s: "sys_ok names s"
  then have "state_of (untrack_claim c s) c' = (if c' = c then None else state_of s c')" for c'
    by (auto simp: state_of_def untrack_claim_def sys_ok_def map_simps)
  moreover have "claim_ok names L c' st \<Longrightarrow> claim_ok names L c' None" for L c' st
    by (auto simp: claim_ok_def)
  then have "claim_ok names (d_calls s) c None" using s by (auto simp: sys_ok_def)
  ultimately show ?thesis
    using s by (auto simp: sys_ok_def untrack_claim_def map_simps)
qed

section \<open>Every part of a task keeps the invariant\<close>

lemma triple_release:
  "triple (in_state names c Processing) (release_claim_with_retry env c)
     (\<lambda>_. in_state names c Processing) (sys_ok names)"
  unfolding release_claim_with_retry_def
  by (rule triple_weaken [OF triple_attempts [where P = "in_state names c Processing"
          and S = "in_state names c Processing"]])
     (auto intro: in_state_release stable_in_state in_state_sys split: if_splits)

definition committed_state :: "ustr list \<Rightarrow> dedup_claim \<Rightarrow> ('j, 'w) dispatch \<Rightarrow> bool" where
  "committed_state names c s \<longleftrightarrow> in_state names c CommitPending s \<and> Commit_Call c True \<in> set (d_calls s)"

lemma triple_commit:
  "triple (in_state names c CommitPending) (commit_claim_with_retry env c)
     (\<lambda>r s. if r = Succeeded then committed_state names c s else in_state names c CommitPending s)
     (sys_ok names)"
  unfolding commit_claim_with_retry_def
  by (rule triple_weaken [OF triple_attempts [where P = "in_state names c CommitPending"
          and S = "committed_state names c"]])
     (auto intro: in_state_commit stable_in_state in_state_sys simp: committed_state_def)

lemma triple_mark_ack:
  "triple (committed_state names c) (modify (mark_acknowledgement_pending c))
     (\<lambda>_. in_state names c AcknowledgementPending) (sys_ok names)"
proof (rule triple_modify)
  fix s :: "('a, 'b) dispatch"
  assume s: "committed_state names c s"
  then have c: "claim_ok names (d_calls s) c (Some CommitPending)" "state_of s c = Some CommitPending"
    by (auto simp: committed_state_def in_state_claim) (simp add: in_state_def)
  with s show "in_state names c AcknowledgementPending (mark_acknowledgement_pending c s)"
    unfolding mark_acknowledgement_pending_def
    by (intro in_state_set) (auto simp: committed_state_def in_state_def sys_ok_split [of _ _ c] claim_ok_def)
qed

lemma triple_ack_claim:
  "triple (in_state names c AcknowledgementPending) (acknowledge_event_with_retry env (Some c) a e)
     (\<lambda>_. in_state names c AcknowledgementPending) (sys_ok names)"
  by (rule triple_weaken [OF triple_acknowledge [where P = "in_state names c AcknowledgementPending"]])
     (auto intro: in_state_ack stable_in_state in_state_sys)

lemma triple_ack_duplicate:
  "triple (sys_ok names) (acknowledge_event_with_retry env None a e) (\<lambda>_. sys_ok names) (sys_ok names)"
  by (rule triple_acknowledge) (auto intro: stable_in_state sys_ok_note_none)

lemma triple_untrack: "triple (in_state names c st) (modify (untrack_claim c)) (\<lambda>_. sys_ok names) (sys_ok names)"
  by (rule triple_modify) (auto intro: sys_ok_untrack dest: in_state_sys)

lemma triple_sleep_sys: "triple (sys_ok names) (sleep env d) (\<lambda>_. sys_ok names) (sys_ok names)"
  by (rule triple_sleep) (rule stable_in_state)

lemma triple_sleep_state: "triple (in_state names c st) (sleep env d) (\<lambda>_. in_state names c st) (sys_ok names)"
  by (rule triple_weaken [OF triple_sleep [OF stable_in_state(1)]]) (auto dest: in_state_sys)

lemma triple_ret_sys: "(\<And>s. P s \<Longrightarrow> sys_ok names s) \<Longrightarrow> triple P (ret x) (\<lambda>_. sys_ok names) (sys_ok names)"
  by (simp add: triple_ret)

lemma triple_finish_claim:
  "triple (in_state names c (oc_state oc)) (finish_claim env c oc)
     (\<lambda>_. sys_ok names) (sys_ok names)"
proof (cases "oc_state oc")
  case Processing
  show ?thesis
    unfolding finish_claim_def Processing claim_state.simps
    by (rule triple_weaken [OF triple_release]) (auto dest: in_state_sys)
next
  case CommitPending
  show ?thesis
    unfolding finish_claim_def CommitPending claim_state.simps
  proof (rule triple_bind [OF triple_commit], goal_cases)
    case (1 res)
    show ?case
      by (cases res)
         (auto intro!: triple_bind [OF triple_mark_ack] triple_bind [OF triple_ack_claim] triple_ret_sys
            dest: in_state_sys)
  qed
next
  case AcknowledgementPending
  show ?thesis
    unfolding finish_claim_def AcknowledgementPending claim_state.simps
    by (rule triple_bind [OF triple_ack_claim]) (auto intro!: triple_ret_sys dest: in_state_sys)
qed

text \<open>Handlers: \<open>fresh\<close> is a claim that was granted and about which nothing else was called yet.\<close>

definition fresh :: "ustr list \<Rightarrow> dedup_claim \<Rightarrow> ('j, 'w) dispatch \<Rightarrow> bool" where
  "fresh names c s \<longleftrightarrow> in_state names c Processing s \<and>
     (\<forall>n. \<not> called c n (d_calls s)) \<and> \<not> committing c (d_calls s) \<and> \<not> releasing c (d_calls s)"

definition between_handlers ::
    "ustr list \<Rightarrow> dedup_claim \<Rightarrow> ustr list \<Rightarrow> ustr list \<Rightarrow> ('j, 'w) dispatch \<Rightarrow> bool" where
  "between_handlers names c before behind s \<longleftrightarrow>
     names = before @ behind \<and> others_ok names c s \<and> state_of s c = Some Processing \<and>
     granted c (d_calls s) \<and> handled before c (d_calls s) \<and>
     (\<forall>n\<in>set behind. \<not> called c n (d_calls s)) \<and>
     \<not> committing c (d_calls s) \<and> \<not> releasing c (d_calls s)"

lemma stable_fresh: "stable (fresh names c)"
proof -
  have "in_state names c Processing s \<Longrightarrow> in_state names c Processing (s\<lparr>d_world := w\<rparr>)"
    "in_state names c Processing s \<Longrightarrow> in_state names c Processing (note_call (Slept d) w s)"
    for s :: "('a, 'b) dispatch" and w d
    using stable_in_state(1) [of names c Processing] by (auto simp: stable_def)
  then show ?thesis by (simp add: stable_def fresh_def call_defs)
qed

lemma fresh_between: "fresh names c s \<Longrightarrow> between_handlers names c [] names s"
  using in_state_claim [of names c Processing s]
  by (auto simp: fresh_def between_handlers_def in_state_def sys_ok_split [of _ _ c] claim_ok_def handled_def)

lemma between_sys_ok:
  assumes "between_handlers names c before behind s" and "\<not> handled names c (d_calls s)"
  shows "in_state names c Processing s"
  using assms
  by (auto simp: between_handlers_def in_state_def sys_ok_split [of _ _ c] claim_ok_def)

lemma between_handler_ok:
  assumes "between_handlers names c before (n # behind) s" and "distinct names"
  shows "between_handlers names c (before @ [n]) behind (note_call (Handler_Call c n True) w s)"
    and "in_state names c Processing (note_call (Handler_Call c n False) w s)"
proof -
  have legal: "legal names (d_calls s) (Handler_Call c n b)" for b
    using assms(1) by (auto simp: between_handlers_def)
  have ok: "others_ok names c (note_call (Handler_Call c n b) w s)" for b
    using assms(1) by (intro others_ok_note legal) (auto simp: between_handlers_def)
  show "between_handlers names c (before @ [n]) behind (note_call (Handler_Call c n True) w s)"
    using assms ok by (auto simp: between_handlers_def call_defs)
  have "\<not> handled names c (d_calls s @ [Handler_Call c n False])"
    using assms(1) by (auto simp: between_handlers_def call_defs)
  then show "in_state names c Processing (note_call (Handler_Call c n False) w s)"
    using assms(1) ok
    by (auto simp: between_handlers_def in_state_def sys_ok_split [of _ _ c] claim_ok_def call_defs)
qed

lemma between_observe [simp]:
  "between_handlers names c b1 b2 (observe f s) = between_handlers names c b1 b2 s"
  "in_state names c st (observe f s) = in_state names c st s"
  by (simp_all add: between_handlers_def in_state_def)

lemma triple_run_handlers:
  fixes env :: "('j, 'w) dispatch_env"
  assumes "distinct names"
  shows "triple (between_handlers names c before (map reg_name rs)) (run_handlers env c rs ctx e t)
    (\<lambda>ok. if ok then between_handlers names c names [] else in_state names c Processing) (sys_ok names)"
proof (induction rs arbitrary: before)
  case Nil
  then show ?case by (auto intro!: tripleI simp: between_handlers_def)
next
  case (Cons r rs)
  let ?n = "reg_name r"
  have step: "triple (between_handlers names c before (?n # map reg_name rs)) (run_handler env c r ctx e t)
      (\<lambda>ok. if ok then between_handlers names c (before @ [?n]) (map reg_name rs)
            else in_state names c Processing) (sys_ok names)"
  proof (rule tripleI)
    fix s :: "('j, 'w) dispatch"
    assume s: "between_handlers names c before (?n # map reg_name rs) s"
    note ok = between_handler_ok [OF s assms]
    obtain b where b: "b = (case policy_timeout (reg_policy r) of None \<Rightarrow> t | Some d \<Rightarrow> d)" by simp
    obtain x w where x: "eh_handle (reg_handler r) b ctx (env_event e) (d_world s) = (x, w)"
      by (cases "eh_handle (reg_handler r) b ctx (env_event e) (d_world s)")
    show "post (\<lambda>ok. if ok then between_handlers names c (before @ [?n]) (map reg_name rs)
            else in_state names c Processing) (sys_ok names) (run_handler env c r ctx e t s)"
      using ok in_state_sys [OF ok(2)]
      by (cases x) (simp_all add: run_handler_def Let_def x [unfolded b] split: sum.splits)
  qed
  have "triple (between_handlers names c before (?n # map reg_name rs))
      (bindR (run_handler env c r ctx e t) (\<lambda>ok. if ok then run_handlers env c rs ctx e t else ret False))
      (\<lambda>ok. if ok then between_handlers names c names [] else in_state names c Processing) (sys_ok names)"
    by (rule triple_bind [OF step]) (auto intro: Cons.IH triple_ret)
  then show ?case by (simp add: triple_def)
qed

text \<open>What the state has to be for a background retry to go on.\<close>

fun retry_ready :: "ustr list \<Rightarrow> pending_retry option \<Rightarrow> ('j, 'w) dispatch \<Rightarrow> bool" where
  "retry_ready names None s \<longleftrightarrow> sys_ok names s"
| "retry_ready names (Some (Pending_Dedup c st)) s \<longleftrightarrow> in_state names c st s"
| "retry_ready names (Some (Pending_Acknowledgement (Some c))) s \<longleftrightarrow> in_state names c AcknowledgementPending s"
| "retry_ready names (Some (Pending_Acknowledgement None)) s \<longleftrightarrow> sys_ok names s"

lemma triple_mark_commit:
  "triple (between_handlers names c names []) (modify (mark_commit_pending c))
     (\<lambda>_. in_state names c CommitPending) R"
  unfolding mark_commit_pending_def
  by (rule triple_modify, rule in_state_set) (auto simp: between_handlers_def claim_ok_def)

lemma triple_process_claimed:
  fixes env :: "('j, 'w) dispatch_env"
  assumes names: "names = map reg_name hs" and "distinct names"
  shows "triple (fresh names c) (process_claimed_event env hs t ctx e a c) (retry_ready names) (sys_ok names)"
  unfolding process_claimed_event_def
proof (rule triple_bind [where M = "\<lambda>ok. if ok then between_handlers names c names [] else in_state names c Processing"],
    goal_cases)
  case 1
  show ?case
    using triple_run_handlers [OF assms(2), of c "[]" hs env ctx e t]
    by (rule triple_weaken) (auto dest: fresh_between simp: names)
next
  case (2 handled)
  note commit = triple_bind [OF triple_commit]
  have after_commit: "triple (\<lambda>s. if res = Succeeded then committed_state names c s else in_state names c CommitPending s)
      (case res of
         Succeeded \<Rightarrow> bindR (modify (mark_acknowledgement_pending c)) (\<lambda>_.
           bindR (acknowledge_event_with_retry env (Some c) a e) (\<lambda>acked.
             if acked then bindR (modify (untrack_claim c)) (\<lambda>_. ret None)
             else ret (Some (Pending_Acknowledgement (Some c)))))
       | RetryableFailure \<Rightarrow> ret (Some (Pending_Dedup c CommitPending))
       | PermanentFailure \<Rightarrow> ret None) (retry_ready names) (sys_ok names)" for res
    by (cases res)
       (auto intro!: triple_bind [OF triple_mark_ack] triple_bind [OF triple_ack_claim]
          triple_bind [OF triple_untrack] triple_ret dest: in_state_sys)
  have after_release: "triple (in_state names c Processing)
      (case res of
         Succeeded \<Rightarrow> bindR (modify (untrack_claim c)) (\<lambda>_. ret None)
       | RetryableFailure \<Rightarrow> ret (Some (Pending_Dedup c Processing))
       | PermanentFailure \<Rightarrow> ret None) (retry_ready names) (sys_ok names)" for res
    by (cases res) (auto intro!: triple_bind [OF triple_untrack] triple_ret dest: in_state_sys)
  show ?case
    by (auto intro!: triple_bind [OF triple_mark_commit] commit triple_bind [OF triple_release]
        after_commit after_release)
qed

lemma triple_ack_until:
  "triple (in_state names c AcknowledgementPending) (ack_until env fuel (Some c) a e)
     (\<lambda>_. in_state names c AcknowledgementPending) (sys_ok names)"
proof (induction fuel)
  case 0
  then show ?case by (auto intro!: tripleI dest: in_state_sys)
next
  case (Suc fuel)
  have "triple (in_state names c AcknowledgementPending)
      (bindR (acknowledge_event_with_retry env (Some c) a e) (\<lambda>acked.
         if acked then ret ()
         else bindR (sleep env dedup_background_retry_delay) (\<lambda>_. ack_until env fuel (Some c) a e)))
     (\<lambda>_. in_state names c AcknowledgementPending) (sys_ok names)"
    by (rule triple_bind [OF triple_ack_claim])
       (auto intro!: triple_ret triple_bind [OF triple_sleep_state] Suc.IH)
  then show ?case by (simp add: triple_def)
qed

lemma triple_retry_dedup:
  "st \<noteq> AcknowledgementPending \<Longrightarrow>
   triple (in_state names c st) (retry_dedup env fuel c st a e) (\<lambda>_. sys_ok names) (sys_ok names)"
proof (induction fuel)
  case 0
  then show ?case by (auto intro!: tripleI dest: in_state_sys)
next
  case (Suc fuel)
  note IH = Suc.IH [OF Suc.prems]
  let ?next = "\<lambda>res. case res of
         RetryableFailure \<Rightarrow> retry_dedup env fuel c st a e
       | PermanentFailure \<Rightarrow> ret ()
       | Succeeded \<Rightarrow>
           if st = CommitPending then
             bindR (modify (mark_acknowledgement_pending c)) (\<lambda>_.
             bindR (ack_until env fuel (Some c) a e) (\<lambda>_. modify (untrack_claim c)))
           else modify (untrack_claim c)"
  have "triple (in_state names c st)
      (bindR (case st of
              Processing \<Rightarrow> release_claim_with_retry env c
            | CommitPending \<Rightarrow> commit_claim_with_retry env c
            | AcknowledgementPending \<Rightarrow> (\<lambda>s. (Torn, s))) ?next) (\<lambda>_. sys_ok names) (sys_ok names)"
  proof (cases st)
    case Processing
    have "triple (in_state names c Processing) (?next res) (\<lambda>_. sys_ok names) (sys_ok names)" for res
      using IH Processing by (cases res) (auto intro!: triple_ret triple_untrack dest: in_state_sys)
    then have "triple (in_state names c Processing) (bindR (release_claim_with_retry env c) ?next)
        (\<lambda>_. sys_ok names) (sys_ok names)"
      by (rule triple_bind [OF triple_release])
    with Processing show ?thesis by simp
  next
    case CommitPending
    have "triple (\<lambda>s. if res = Succeeded then committed_state names c s else in_state names c CommitPending s)
        (?next res) (\<lambda>_. sys_ok names) (sys_ok names)" for res
      using IH CommitPending
      by (cases res)
         (auto intro!: triple_bind [OF triple_mark_ack] triple_bind [OF triple_ack_until] triple_untrack
            triple_ret dest: in_state_sys)
    then have "triple (in_state names c CommitPending) (bindR (commit_claim_with_retry env c) ?next)
        (\<lambda>_. sys_ok names) (sys_ok names)"
      by (rule triple_bind [OF triple_commit])
    with CommitPending show ?thesis by simp
  qed (use Suc.prems in simp)
  from triple_bind [OF triple_sleep_state this] show ?case by (simp add: triple_def)
qed

lemma triple_retry_acknowledgement:
  "triple (retry_ready names (Some (Pending_Acknowledgement co))) (retry_acknowledgement env fuel co a e)
     (\<lambda>_. sys_ok names) (sys_ok names)"
proof (induction fuel)
  case 0
  then show ?case by (cases co) (auto intro!: tripleI dest: in_state_sys)
next
  case (Suc fuel)
  let ?next = "\<lambda>acked. if acked then (case co of None \<Rightarrow> ret () | Some c \<Rightarrow> modify (untrack_claim c))
       else retry_acknowledgement env fuel co a e"
  show ?case
  proof (cases co)
    case None
    have "triple (sys_ok names) (?next acked) (\<lambda>_. sys_ok names) (sys_ok names)" for acked
      using Suc.IH None by (simp add: triple_ret)
    then have "triple (sys_ok names) (bindR (sleep env dedup_background_retry_delay) (\<lambda>_.
        bindR (acknowledge_event_with_retry env None a e) ?next)) (\<lambda>_. sys_ok names) (sys_ok names)"
      by (intro triple_bind [OF triple_sleep_sys] triple_bind [OF triple_ack_duplicate])
    then show ?thesis unfolding None by (simp add: triple_def)
  next
    case (Some c)
    have "triple (in_state names c AcknowledgementPending) (?next acked) (\<lambda>_. sys_ok names) (sys_ok names)" for acked
      using Suc.IH Some by (simp add: triple_untrack)
    then have "triple (in_state names c AcknowledgementPending)
       (bindR (sleep env dedup_background_retry_delay) (\<lambda>_.
        bindR (acknowledge_event_with_retry env (Some c) a e) ?next)) (\<lambda>_. sys_ok names) (sys_ok names)"
      by (intro triple_bind [OF triple_sleep_state] triple_bind [OF triple_ack_claim])
    then show ?thesis unfolding Some by (simp add: triple_def)
  qed
qed

lemma retry_ready_eqs:
  "retry_ready names None = sys_ok names"
  "retry_ready names (Some (Pending_Dedup c st)) = in_state names c st"
  "retry_ready names (Some (Pending_Acknowledgement None)) = sys_ok names"
  by (auto intro!: ext)

lemma triple_retry_if_pending:
  "retry_about c pr \<Longrightarrow>
   triple (retry_ready names pr) (retry_if_pending env fuel a e pr) (\<lambda>_. sys_ok names) (sys_ok names)"
proof (cases pr)
  case None
  then show ?thesis by (simp add: retry_if_pending_def triple_def ret_def)
next
  case (Some p)
  assume about: "retry_about c pr"
  show ?thesis
  proof (cases p)
    case (Pending_Dedup c' st)
    with about Some have "st \<noteq> AcknowledgementPending" by simp
    from triple_retry_dedup [OF this] show ?thesis
      unfolding Some Pending_Dedup retry_ready_eqs by (simp add: retry_if_pending_def)
  next
    case (Pending_Acknowledgement co)
    from triple_retry_acknowledgement show ?thesis
      unfolding Some Pending_Acknowledgement by (simp add: retry_if_pending_def)
  qed
qed

lemma triple_and:
  assumes "triple P m Q R" and "triple P' m Q' R'"
  shows "triple (\<lambda>s. P s \<and> P' s) m (\<lambda>x s. Q x s \<and> Q' x s) R"
proof (rule tripleI)
  fix s assume "P s \<and> P' s"
  with triple_post [OF assms(1)] triple_post [OF assms(2)]
  have "post Q R (m s)" "post Q' R' (m s)" by blast+
  then show "post (\<lambda>x s. Q x s \<and> Q' x s) R (m s)"
    by (cases "m s"; cases "fst (m s)") auto
qed

lemma closed_under_True: "closed_under c (\<lambda>_. True)"
  by (simp add: closed_under_def)

lemma triple_process_owned:
  fixes env :: "('j, 'w) dispatch_env"
  assumes "names = map reg_name hs" and "distinct names"
  shows "triple (fresh names c) (process_owned env fuel hs t ctx e a c) (\<lambda>_. sys_ok names) (sys_ok names)"
  unfolding process_owned_def
proof (rule triple_guard [where Q = "\<lambda>_. sys_ok names" and R = "sys_ok names"])
  have permit: "triple (fresh names c) (wait_permit env) (\<lambda>_. fresh names c) (sys_ok names)"
    by (rule triple_weaken [OF triple_wait_permit [OF stable_fresh]]) (auto simp: fresh_def in_state_def)
  have process: "triple (fresh names c) (process_claimed_event env hs t ctx e a c)
      (\<lambda>pr s. retry_ready names pr s \<and> retry_about c pr) (sys_ok names)"
    using triple_and [OF triple_process_claimed [OF assms] keeps_process_claimed [OF closed_under_True]]
    by (rule triple_weaken) auto
  show "triple (fresh names c) (bindR (wait_permit env) (\<lambda>_. bindR (process_claimed_event env hs t ctx e a c)
      (retry_if_pending env fuel a e))) (\<lambda>_. sys_ok names) (sys_ok names)"
    by (intro triple_bind [OF permit] triple_bind [OF process] triple_fact triple_retry_if_pending)
qed auto

lemma triple_duplicate:
  "triple (sys_ok names) (bindR (process_duplicate_event env e a) (retry_if_pending env fuel a e))
     (\<lambda>_. sys_ok names) (sys_ok names)"
proof (rule triple_bind)
  show "triple (sys_ok names) (process_duplicate_event env e a)
      (\<lambda>pr s. sys_ok names s \<and> (\<exists>co. pr = None \<or> pr = Some (Pending_Acknowledgement None))) (sys_ok names)"
    unfolding process_duplicate_event_def by (rule triple_bind [OF triple_ack_duplicate]) (auto intro: triple_ret)
  fix pr
  show "triple (\<lambda>s. sys_ok names s \<and> (\<exists>co. pr = None \<or> pr = Some (Pending_Acknowledgement None)))
      (retry_if_pending env fuel a e pr) (\<lambda>_. sys_ok names) (sys_ok names)"
  proof (rule triple_fact)
    assume "\<exists>co. pr = None \<or> pr = Some (Pending_Acknowledgement None)"
    then consider "pr = None" | "pr = Some (Pending_Acknowledgement None)" by blast
    then show "triple (sys_ok names) (retry_if_pending env fuel a e pr) (\<lambda>_. sys_ok names) (sys_ok names)"
    proof cases
      case 1
      then show ?thesis by (simp add: retry_if_pending_def triple_ret)
    next
      case 2
      have "retry_about undefined (Some (Pending_Acknowledgement None))" by simp
      from triple_retry_if_pending [OF this] show ?thesis
        unfolding 2 retry_ready_eqs .
    qed
  qed
qed

section \<open>Histories of the dispatcher\<close>

text \<open>The claims the store granted, in order. It must never grant the same claim twice: a claim
  carries a fresh random token.\<close>

fun grants :: "dispatch_call list \<Rightarrow> dedup_claim list" where
  "grants [] = []"
| "grants (Claim_Granted c # L) = c # grants L"
| "grants (_ # L) = grants L"

lemma grants_append [simp]: "grants (L @ L') = grants L @ grants L'"
  by (induction L rule: grants.induct) auto

lemma granted_iff: "granted c L \<longleftrightarrow> c \<in> set (grants L)"
  by (induction L rule: grants.induct) (auto simp: granted_def)

definition sys_inv :: "ustr list \<Rightarrow> ('j, 'w) dispatch \<Rightarrow> bool" where
  "sys_inv names s \<longleftrightarrow> (distinct (grants (d_calls s)) \<longrightarrow> sys_ok names s)"

text \<open>The log only grows, so the hypothesis on the grants may be assumed for the whole log.\<close>

definition grown :: "dispatch_call list \<Rightarrow> ('j, 'w) dispatch \<Rightarrow> bool" where
  "grown L s \<longleftrightarrow> (\<exists>L'. d_calls s = L @ L')"

lemma closed_grown: "closed_under c (grown L)"
  by (auto simp: closed_under_def grown_def note_call_def observe_def untrack_claim_def)

lemma triple_distinct:
  assumes "triple P m (\<lambda>_. sys_ok names) (sys_ok names)" and "\<And>L. keeps (grown L) m"
  shows "triple (\<lambda>s. distinct (grants (d_calls s)) \<longrightarrow> P s) m (\<lambda>_. sys_inv names) (sys_inv names)"
proof (rule tripleI)
  fix s assume s: "distinct (grants (d_calls s)) \<longrightarrow> P s"
  obtain r s' where r: "m s = (r, s')" by (cases "m s")
  have "grown (d_calls s) s" by (simp add: grown_def)
  from triple_post [OF assms(2) this] r have "grown (d_calls s) s'" by (cases r) auto
  then have "distinct (grants (d_calls s')) \<Longrightarrow> distinct (grants (d_calls s))" by (auto simp: grown_def)
  with s triple_post [OF assms(1), of s] r have "sys_inv names s'"
    unfolding sys_inv_def by (cases r) auto
  with r show "post (\<lambda>_. sys_inv names) (sys_inv names) (m s)" by (cases r) auto
qed

lemma fresh_after_grant:
  assumes "sys_ok names s" and "distinct (grants (d_calls s @ [Claim_Granted c]))"
  shows "fresh names c (track_claim c e a (note_call (Claim_Granted c) w s))"
proof -
  let ?s = "track_claim c e a (note_call (Claim_Granted c) w s)"
  have calls: "d_calls ?s = d_calls s @ [Claim_Granted c]" by (simp add: track_claim_def)
  have "\<not> granted c (d_calls s)" using assms(2) by (simp add: granted_iff)
  then have new: "\<not> mentioned c (d_calls s)" using assms(1) by (auto simp: sys_ok_def claim_ok_def)
  then have none: "Commit_Call c b \<notin> set (d_calls s)" "Release_Call c b \<notin> set (d_calls s)"
    "Handler_Call c n b \<notin> set (d_calls s)" for b n by (force simp: mentioned_def)+
  then have unused: "\<not> committing c (d_calls ?s)" "\<not> releasing c (d_calls ?s)" "\<not> called c n (d_calls ?s)"
    "names = [] \<or> \<not> handled names c (d_calls ?s)" for n
    unfolding calls by (auto simp: call_defs none)
  have "others_ok names c (note_call (Claim_Granted c) w s)"
    using assms(1) by (intro others_ok_note) (auto simp: sys_ok_split [of _ _ c])
  then have others: "others_ok names c ?s"
    by (auto simp: others_ok_def track_claim_def state_of_def map_simps)
  have st: "state_of ?s c = Some Processing"
    using assms(1) by (simp add: state_of_def track_claim_def map_simps sys_ok_def)
  have "claim_ok names (d_calls ?s) c (Some Processing)"
    using unused calls by (auto simp: claim_ok_def granted_def)
  with others st unused show ?thesis
    by (simp add: fresh_def in_state_def sys_ok_split [of _ _ c])
qed

lemma triple_claim_event:
  fixes env :: "('j, 'w) dispatch_env"
  shows "triple (sys_inv names) (claim_event env fuel e a)
    (\<lambda>r s. case r of Claim_Owned c \<Rightarrow> distinct (grants (d_calls s)) \<longrightarrow> fresh names c s | _ \<Rightarrow> sys_inv names s)
    (sys_inv names)"
proof (induction fuel)
  case 0
  then show ?case by (auto intro!: tripleI)
next
  case (Suc fuel)
  let ?Q = "\<lambda>r s. case r of Claim_Owned c \<Rightarrow> distinct (grants (d_calls s)) \<longrightarrow> fresh names c s | _ \<Rightarrow> sys_inv names s"
  have "stable (sys_inv names)" by (simp add: stable_def sys_inv_def)
  then have pause: "triple (sys_inv names) (bindR (sleep env dedup_background_retry_delay)
      (\<lambda>_. claim_event env fuel e a)) ?Q (sys_inv names)"
    by (intro triple_bind [OF triple_sleep] Suc.IH)
  show ?case
  proof (rule tripleI)
    fix s :: "('j, 'w) dispatch"
    assume s: "sys_inv names s"
    obtain x w where x: "ev_claim env (event_key e) (d_world s) = (x, w)"
      by (cases "ev_claim env (event_key e) (d_world s)")
    have w: "sys_inv names (s\<lparr>d_world := w\<rparr>)" using s by (simp add: sys_inv_def)
    have "fresh names c (track_claim c e a (note_call (Claim_Granted c) w s))"
      if "distinct (grants (d_calls s @ [Claim_Granted c]))" for c
      using that s by (intro fresh_after_grant) (simp_all add: sys_inv_def)
    then have "distinct (grants (d_calls (track_claim c e a (note_call (Claim_Granted c) w s)))) \<longrightarrow>
        fresh names c (track_claim c e a (note_call (Claim_Granted c) w s))" for c
      by (simp add: track_claim_def)
    moreover have "sys_inv names (observe f (s\<lparr>d_world := w\<rparr>))" for f using w by (simp add: sys_inv_def)
    ultimately show "post ?Q (sys_inv names) (claim_event env (Suc fuel) e a s)"
      using w triple_post [OF pause w]
      by (cases x) (auto simp: x split: sum.splits option.splits)
  qed
qed

lemma triple_event_task:
  fixes env :: "('j, 'w) dispatch_env"
  assumes "names = map reg_name hs" and "distinct names"
  shows "triple (sys_inv names) (event_task env fuel hs t ad e) (\<lambda>_. sys_inv names) (sys_inv names)"
proof -
  let ?a = "adapter_id_of ad"
  let ?Q = "\<lambda>r s. case r of Claim_Owned c \<Rightarrow> distinct (grants (d_calls s)) \<longrightarrow> fresh names c s | _ \<Rightarrow> sys_inv names s"
  have inv: "sys_inv names = (\<lambda>s :: ('j, 'w) dispatch. distinct (grants (d_calls s)) \<longrightarrow> sys_ok names s)"
    by (auto simp: sys_inv_def)
  have branch: "triple (?Q claimed) (handle_claimed env fuel hs t ad e claimed) (\<lambda>_. sys_inv names) (sys_inv names)"
    for claimed
  proof (cases claimed)
    case (Claim_Owned c)
    show ?thesis
      using triple_distinct [OF triple_process_owned [OF assms] keeps_process_owned [OF closed_grown]]
      by (simp add: Claim_Owned handle_claimed_def)
  next
    case Claim_Duplicate
    have "triple (\<lambda>s. distinct (grants (d_calls s)) \<longrightarrow> sys_ok names s)
        (bindR (process_duplicate_event env e ?a) (retry_if_pending env fuel ?a e))
        (\<lambda>_. sys_inv names) (sys_inv names)"
      by (rule triple_distinct [OF triple_duplicate keeps_duplicate [OF closed_grown]])
    then show ?thesis
      by (simp add: Claim_Duplicate handle_claimed_def Let_def inv)
  next
    case Claim_Rejected
    then show ?thesis by (simp add: handle_claimed_def triple_ret)
  qed
  have closed: "stable (sys_inv names)" "sys_inv names s \<Longrightarrow> sys_inv names (observe f s)" for s f
    by (auto simp: stable_def sys_inv_def)
  have "triple (sys_inv names) (with_guard (observe record_event_completed)
      (bindR (claim_event env fuel e ?a) (handle_claimed env fuel hs t ad e))) (\<lambda>_. sys_inv names) (sys_inv names)"
    by (rule triple_guard [where Q = "\<lambda>_. sys_inv names" and R = "sys_inv names"])
       (auto intro: triple_bind [OF triple_claim_event] branch closed(2))
  then show ?thesis
    unfolding event_task_def
    by (intro triple_bind [OF triple_wait_permit [OF closed(1)]] triple_bind [OF triple_modify])
       (auto intro: closed(2))
qed

lemma recover_sys_ok: "sys_ok names s \<Longrightarrow> sys_ok names (snd (recover_cancelled_claim env c s))"
proof (cases "hm_get (d_outstanding s) c")
  case None
  then show "sys_ok names s \<Longrightarrow> ?thesis" by (simp add: recover_cancelled_claim_def)
next
  case (Some oc)
  assume "sys_ok names s"
  with Some have s: "in_state names c (oc_state oc) s" by (simp add: in_state_def state_of_def)
  have "triple (in_state names c (oc_state oc)) (bindR (finish_claim env c oc) (\<lambda>recovered.
            bindR (if recovered = Succeeded then modify (untrack_claim c) else ret ()) (\<lambda>_.
              ret (recovered = RetryableFailure)))) (\<lambda>_. sys_ok names) (sys_ok names)"
  proof (rule triple_bind [OF triple_finish_claim])
    fix recovered
    have "triple (sys_ok names) (if recovered = Succeeded then modify (untrack_claim c) else ret ())
        (\<lambda>_. sys_ok names) (sys_ok names)"
      by (auto intro: triple_modify sys_ok_untrack triple_ret)
    then show "triple (sys_ok names) (bindR (if recovered = Succeeded then modify (untrack_claim c) else ret ())
        (\<lambda>_. ret (recovered = RetryableFailure))) (\<lambda>_. sys_ok names) (sys_ok names)"
      by (rule triple_bind) (simp add: triple_ret)
  qed
  note post = triple_post [OF this s]
  obtain r s' where r: "recover_cancelled_claim env c s = (r, s')"
    by (cases "recover_cancelled_claim env c s")
  with post Some show ?thesis
    by (cases r) (simp_all add: recover_cancelled_claim_def)
qed

lemma finalize_one_cases:
  obtains r s1 where "finish_claim env c oc s = (r, s1)"
    "finalize_one env c oc s = s1 \<or> r = Returned Succeeded \<and> finalize_one env c oc s = untrack_claim c s1"
proof -
  obtain r s1 where r: "finish_claim env c oc s = (r, s1)" by (cases "finish_claim env c oc s")
  then have "finalize_one env c oc s = s1 \<or> r = Returned Succeeded \<and> finalize_one env c oc s = untrack_claim c s1"
    by (cases r) (auto simp: finalize_one_def finalize_outstanding_claim_def split: finalization.splits)
  with r show thesis by (rule that)
qed

lemma keeps_finalize_one: "closed_under c P \<Longrightarrow> P s \<Longrightarrow> P (finalize_one env c oc s)"
proof (rule finalize_one_cases [of env c oc s])
  fix r s1
  assume c: "closed_under c P" and "P s" and r: "finish_claim env c oc s = (r, s1)"
    and fin: "finalize_one env c oc s = s1 \<or> r = Returned Succeeded \<and> finalize_one env c oc s = untrack_claim c s1"
  then have "P s1" using triple_post [OF keeps_finish_claim [OF c], of s env oc] by (cases r) auto
  with fin closed_underD(6) [OF c, of s1] show "P (finalize_one env c oc s)" by auto
qed

lemma finalize_one_ok:
  assumes "sys_ok names s" and "state_of s c = Some (oc_state oc)"
  shows "sys_ok names (finalize_one env c oc s)"
    and "c' \<noteq> c \<Longrightarrow> state_of (finalize_one env c oc s) c' = state_of s c'"
proof -
  obtain r s1 where r: "finish_claim env c oc s = (r, s1)"
    "finalize_one env c oc s = s1 \<or> r = Returned Succeeded \<and> finalize_one env c oc s = untrack_claim c s1"
    by (rule finalize_one_cases)
  have start: "in_state names c (oc_state oc) s" "same_but c (d_outstanding s) s"
    using assms by (simp_all add: in_state_def same_but_def sys_ok_def)
  have "sys_ok names s1"
    using triple_post [OF triple_finish_claim start(1), of env] r(1) by (cases r) auto
  with r(2) show "sys_ok names (finalize_one env c oc s)" by (auto simp: sys_ok_untrack)
  show "state_of (finalize_one env c oc s) c' = state_of s c'" if "c' \<noteq> c"
    using keeps_finalize_one [OF closed_same_but start(2), of env oc] that
    by (simp add: same_but_def state_of_def)
qed

lemma finalize_loop_grown: "grown L s \<Longrightarrow> grown L (finalize_loop env cs s)"
  by (induction env cs s rule: finalize_loop.induct) (auto intro: keeps_finalize_one [OF closed_grown])

lemma finalize_loop_ok:
  assumes "sys_ok names s" and "distinct (map fst cs)"
    and "\<forall>(c, oc) \<in> set cs. state_of s c = Some (oc_state oc)"
  shows "sys_ok names (finalize_loop env cs s)"
  using assms
proof (induction cs arbitrary: s)
  case (Cons p cs)
  obtain c oc where p: "p = (c, oc)" by (cases p)
  have step: "sys_ok names (finalize_one env c oc s)"
    "c' \<noteq> c \<Longrightarrow> state_of (finalize_one env c oc s) c' = state_of s c'" for c'
    using finalize_one_ok [of names s c oc] Cons.prems by (auto simp: p)
  have "\<forall>(c', oc') \<in> set cs. state_of (finalize_one env c oc s) c' = Some (oc_state oc')"
    using Cons.prems step(2) by (force simp: p)
  with Cons.IH [of "finalize_one env c oc s"] step(1) Cons.prems show ?case by (simp add: p)
qed simp

lemma finalize_ok:
  assumes "sys_ok names s"
  shows "sys_ok names (snd (finalize_outstanding_claims env s))"
proof -
  have wf: "distinct (map fst (d_outstanding s))" using assms by (simp add: sys_ok_def hm_wf_def)
  then have "\<forall>(c, oc) \<in> set (d_outstanding s). state_of s c = Some (oc_state oc)"
    by (auto simp: state_of_def hm_get_def)
  from finalize_loop_ok [OF assms wf this] show ?thesis
    by (simp add: finalize_outstanding_claims_def Let_def)
qed

text \<open>Whatever the dispatcher does, one step after the other: the task of an event with some fuel, one
  recovery of a claim by the supervisor, or the finalization at shutdown.\<close>

datatype ('j, 'w) dispatch_op =
    Run_Event nat "('j, 'w) adapter" "'j event_envelope"
  | Run_Recovery dedup_claim
  | Run_Finalization

fun run_op ::
    "('j, 'w) dispatch_env \<Rightarrow> ('j, 'w) registered_handler list \<Rightarrow> nat \<Rightarrow> ('j, 'w) dispatch_op \<Rightarrow>
     ('j, 'w) dispatch \<Rightarrow> ('j, 'w) dispatch" where
  "run_op env hs t (Run_Event fuel ad e) s = snd (event_task env fuel hs t ad e s)"
| "run_op env hs t (Run_Recovery c) s = snd (recover_cancelled_claim env c s)"
| "run_op env hs t Run_Finalization s = snd (finalize_outstanding_claims env s)"

lemma grown_mono: "grown (d_calls s) s' \<Longrightarrow> sys_ok names s' \<or> \<not> distinct (grants (d_calls s)) \<Longrightarrow> sys_inv names s'"
  by (auto simp: grown_def sys_inv_def)

lemma run_op_inv:
  assumes "names = map reg_name hs" and "distinct names" and s: "sys_inv names s"
  shows "sys_inv names (run_op env hs t x s)"
proof (cases x)
  case (Run_Event fuel ad e)
  obtain r s' where r: "event_task env fuel hs t ad e s = (r, s')" by (cases "event_task env fuel hs t ad e s")
  with triple_post [OF triple_event_task [OF assms(1,2)] s, of env fuel t ad e] show ?thesis
    by (cases r) (simp_all add: Run_Event)
next
  case (Run_Recovery c)
  have "grown (d_calls s) (snd (recover_cancelled_claim env c s))"
    using triple_post [OF keeps_recover [OF closed_grown], of "d_calls s" s env c]
    by (cases "recover_cancelled_claim env c s"; cases "fst (recover_cancelled_claim env c s)")
       (auto simp: grown_def)
  with s recover_sys_ok [of names s env c] show ?thesis
    by (intro grown_mono [of s]) (auto simp: sys_inv_def Run_Recovery)
next
  case Run_Finalization
  show ?thesis
  proof (cases "distinct (grants (d_calls s))")
    case True
    with s finalize_ok [of names s env] show ?thesis by (simp add: sys_inv_def Run_Finalization)
  next
    case False
    with finalize_loop_grown [of "d_calls s" s env "d_outstanding s"] show ?thesis
      by (intro grown_mono [of s])
         (auto simp: Run_Finalization finalize_outstanding_claims_def Let_def grown_def)
  qed
qed

lemma run_ops_inv:
  "names = map reg_name hs \<Longrightarrow> distinct names \<Longrightarrow> sys_inv names s \<Longrightarrow>
   sys_inv names (fold (run_op env hs t) ops s)"
  by (induction ops arbitrary: s) (auto simp del: run_op.simps intro: run_op_inv)

text \<open>[C1] The life of a claim: in every history of event tasks, recoveries and finalizations, with any
  answers, timeouts and tear-downs in any place, every call is legal. In particular each handler runs at
  most once per claim; a claim whose handlers have all completed is never released, not even when its
  task was aborted right after the last handler; commit and release are never both attempted for one
  claim; and the event is acknowledged at its source only after the claim was committed. This needs
  handlers with different names, and a store that never grants the same claim twice.\<close>

theorem claim_lifecycle_legal:
  assumes "distinct (map reg_name hs)" and "d_calls s0 = []" and "d_outstanding s0 = []"
    and "distinct (grants (d_calls (fold (run_op env hs t) ops s0)))"
  shows "legal_trace (map reg_name hs) (d_calls (fold (run_op env hs t) ops s0))"
proof -
  have "sys_inv (map reg_name hs) s0"
    using assms(2,3) by (simp add: sys_inv_def sys_ok_def claim_ok_def state_of_def map_simps mentioned_def)
  from run_ops_inv [OF refl assms(1) this, of env t ops] assms(4) show ?thesis
    by (simp add: sys_inv_def sys_ok_def)
qed

definition demo_handler :: "(unit, nat) registered_handler" where
  "demo_handler = registered (\<lparr>eh_name = lit ''h'', eh_handle = (\<lambda>d c e w. (Answered (Inr ()), w + 1))\<rparr>, default_policy)"

text \<open>An event that is handled, committed and acknowledged; then a late recovery, then shutdown.\<close>

definition demo_history :: "(unit, nat) dispatch" where
  "demo_history = fold (run_op (demo_env 3 (Answered (Inr ())) (Answered (Inr ()))) [demo_handler] 9)
     [Run_Event 1 (demo_adapter ''a'') demo_envelope, Run_Recovery demo_claim, Run_Finalization] demo_state"

lemma claim_lifecycle_legal_witness:
  "legal_trace [lit ''h''] (d_calls demo_history) \<and> Commit_Call demo_claim True \<in> set (d_calls demo_history)"
proof -
  have calls: "d_calls demo_history =
      [Claim_Granted demo_claim, Handler_Call demo_claim (lit ''h'') True, Commit_Call demo_claim True,
       Ack_Call (Some demo_claim) True]"
    by (simp add: demo_history_def event_task_def bindR_def ret_def wait_permit_def modify_def observe_def
        with_guard_def handle_claimed_def process_owned_def process_claimed_event_def run_handler_def
        track_claim_def untrack_claim_def note_call_def drop_cancellation_guard_def retry_if_pending_def
        commit_claim_with_retry_def acknowledge_event_with_retry_def dedup_max_attempts_def
        event_ack_max_attempts_def mark_commit_pending_def mark_acknowledgement_pending_def
        set_claim_state_def recover_cancelled_claim_def finalize_outstanding_claims_def
        demo_handler_def registered_def default_policy_def demo_dispatch_defs hm_eval Let_def
        eval_nat_numeral(3) numeral_eq_Suc)
  have "distinct (map reg_name [demo_handler])" "d_calls demo_state = []" "d_outstanding demo_state = []"
    "map reg_name [demo_handler] = [lit ''h'']"
    by (simp_all add: demo_state_def demo_handler_def registered_def)
  with claim_lifecycle_legal [of "[demo_handler]" demo_state "demo_env 3 (Answered (Inr ())) (Answered (Inr ()))" 9
      "[Run_Event 1 (demo_adapter ''a'') demo_envelope, Run_Recovery demo_claim, Run_Finalization]"] calls
  show ?thesis by (simp add: demo_history_def)
qed

section \<open>Retries are bounded\<close>

fun slept :: "dispatch_call list \<Rightarrow> nat" where
  "slept [] = 0"
| "slept (Slept d # L) = d + slept L"
| "slept (_ # L) = slept L"

lemma slept_append [simp]: "slept (L @ L') = slept L + slept L'"
  by (induction L rule: slept.induct) auto

text \<open>The log of a retry loop that gives up after \<open>n\<close> failed calls: a pause, doubling each time, between
  every two of them.\<close>

fun attempt_log :: "(bool \<Rightarrow> dispatch_call) \<Rightarrow> nat \<Rightarrow> nat \<Rightarrow> dispatch_call list" where
  "attempt_log ev 0 backoff = []"
| "attempt_log ev (Suc 0) backoff = [ev False]"
| "attempt_log ev (Suc (Suc n)) backoff = ev False # Slept backoff # attempt_log ev (Suc n) (2 * backoff)"

lemma attempts_log:
  assumes "attempts env act ev n backoff s = (Returned r, s')"
  shows "(r = RetryableFailure \<and> d_calls s' = d_calls s @ attempt_log ev n backoff) \<or>
    (\<exists>k<n. \<exists>ok. r = (if ok then Succeeded else PermanentFailure) \<and>
       d_calls s' =
         d_calls s @ concat (map (\<lambda>i. [ev False, Slept (backoff * 2 ^ i)]) [0..<k]) @ [ev ok])"
  using assms
proof (induction n arbitrary: backoff s)
  case (Suc n)
  obtain a w where a: "act (d_world s) = (a, w)" by (cases "act (d_world s)")
  have pause: ?case if n: "n \<noteq> 0" and go: "bindR (sleep env backoff) (\<lambda>_. attempts env act ev n (2 * backoff))
      (note_call (ev False) w s) = (Returned r, s')"
  proof -
    from go obtain w2 where "attempts env act ev n (2 * backoff)
        (note_call (Slept backoff) w2 (note_call (ev False) w s)) = (Returned r, s')"
      by (auto simp: bindR_eq sleep_def split: prod.splits answer.splits)
    moreover define s1 where "s1 = note_call (Slept backoff) w2 (note_call (ev False) w s)"
    ultimately have s1: "d_calls s1 = d_calls s @ [ev False, Slept backoff]"
      "attempts env act ev n (2 * backoff) s1 = (Returned r, s')" by simp_all
    from n obtain m where m: "n = Suc m" by (cases n) auto
    from Suc.IH [OF s1(2)] show ?thesis
    proof (elim disjE exE conjE)
      assume "r = RetryableFailure" "d_calls s' = d_calls s1 @ attempt_log ev n (2 * backoff)"
      then show ?thesis by (simp add: s1 m)
    next
      fix k ok
      assume k: "k < n" "r = (if ok then Succeeded else PermanentFailure)"
        "d_calls s' = d_calls s1 @
           concat (map (\<lambda>i. [ev False, Slept (2 * backoff * 2 ^ i)]) [0..<k]) @ [ev ok]"
      have up: "[0..<Suc k] = 0 # map Suc [0..<k]" by (simp add: map_Suc_upt upt_conv_Cons)
      have "concat (map (\<lambda>i. [ev False, Slept (backoff * 2 ^ i)]) [0..<Suc k]) =
          [ev False, Slept backoff] @ concat (map (\<lambda>i. [ev False, Slept (2 * backoff * 2 ^ i)]) [0..<k])"
        unfolding up by (simp add: comp_def mult.assoc mult.left_commute)
      with k s1 show ?thesis
        by (intro disjI2 exI [of _ "Suc k"] conjI exI [of _ ok]) (simp_all del: upt_Suc)
    qed
  qed
  have ended: ?case if "r = (if ok then Succeeded else PermanentFailure)" "d_calls s' = d_calls s @ [ev ok]" for ok
    using that by (intro disjI2 exI [of _ "0 :: nat"] conjI exI [of _ ok]) auto
  have failed: ?case if "(if n = 0 then (Returned RetryableFailure, note_call (ev False) w s)
      else bindR (sleep env backoff) (\<lambda>_. attempts env act ev n (2 * backoff)) (note_call (ev False) w s)) =
      (Returned r, s')"
  proof (cases "n = 0")
    case True
    with that show ?thesis by (intro disjI1) auto
  next
    case False
    with that pause show ?thesis by simp
  qed
  show ?case
  proof (cases a)
    case (Answered x)
    show ?thesis
    proof (cases x)
      case (Inl err)
      show ?thesis
      proof (cases "is_retryable err")
        case True
        with Suc.prems show ?thesis by (intro failed) (simp add: a Answered Inl)
      next
        case False
        with Suc.prems show ?thesis by (intro ended [of False]) (auto simp: a Answered Inl)
      qed
    next
      case (Inr u)
      with Suc.prems show ?thesis by (intro ended [of True]) (auto simp: a Answered)
    qed
  next
    case Timed_Out
    with Suc.prems show ?thesis by (intro failed) (simp add: a)
  qed (use Suc.prems in \<open>simp add: a\<close>)
qed simp

text \<open>Committing a claim ends after at most \<open>DEDUP_COMMIT_MAX_ATTEMPTS\<close> calls. It gives up with
  \<open>RetryableFailure\<close> exactly after four calls without success, separated by pauses of 25, 50 and 100
  milliseconds; it succeeds with a successful call, and fails permanently with an unsuccessful one, after
  fewer than four failures before it. So a single commit never waits longer than 175 milliseconds between
  its calls.\<close>

theorem commit_retry_schedule:
  assumes "commit_claim_with_retry env c s = (Returned r, s')"
  shows "\<exists>seg. d_calls s' = d_calls s @ seg \<and>
    (r = RetryableFailure \<longrightarrow> seg = [Commit_Call c False, Slept 25, Commit_Call c False, Slept 50,
       Commit_Call c False, Slept 100, Commit_Call c False]) \<and>
    (r \<noteq> RetryableFailure \<longrightarrow> last seg = Commit_Call c (r = Succeeded) \<and>
       length (filter (\<lambda>x. x = Commit_Call c False) (butlast seg)) < 4) \<and>
    length (filter (\<lambda>x. claim_of x = Some c) seg) \<le> 4 \<and> slept seg \<le> 175"
proof -
  have give_up: "attempt_log (Commit_Call c) 4 25 =
      [Commit_Call c False, Slept 25, Commit_Call c False, Slept 50, Commit_Call c False, Slept 100,
       Commit_Call c False]"
    by (simp add: eval_nat_numeral)
  from attempts_log [OF assms [unfolded commit_claim_with_retry_def dedup_max_attempts_def dedup_initial_backoff_def]]
  show ?thesis
  proof (elim disjE exE conjE)
    assume "r = RetryableFailure" "d_calls s' = d_calls s @ attempt_log (Commit_Call c) 4 25"
    then show ?thesis unfolding give_up by simp
  next
    fix k ok
    assume k: "k < (4::nat)" "r = (if ok then Succeeded else PermanentFailure)"
      "d_calls s' = d_calls s @ concat (map (\<lambda>i. [Commit_Call c False, Slept (25 * 2 ^ i)]) [0..<k]) @ [Commit_Call c ok]"
    then consider "k = 0" | "k = 1" | "k = 2" | "k = 3" by linarith
    then show ?thesis
      by cases (use k in \<open>auto simp: eval_nat_numeral butlast_append\<close>)
  qed
qed

lemma commit_retry_schedule_witness:
  "\<exists>s'. commit_claim_with_retry (demo_env 9 Timed_Out Timed_Out) demo_claim demo_state = (Returned RetryableFailure, s') \<and>
     slept (d_calls s') \<le> 175"
proof -
  let ?run = "commit_claim_with_retry (demo_env 9 Timed_Out Timed_Out) demo_claim demo_state"
  have run: "fst ?run = Returned RetryableFailure"
    by (simp add: commit_claim_with_retry_def dedup_max_attempts_def dedup_initial_backoff_def bindR_def
        sleep_def demo_env_def eval_nat_numeral(3) numeral_eq_Suc)
  then have "?run = (Returned RetryableFailure, snd ?run)" by (metis prod.collapse)
  moreover from commit_retry_schedule [OF this] have "slept (d_calls (snd ?run)) \<le> 175"
    by (auto simp: demo_state_def)
  ultimately show ?thesis by blast
qed

section \<open>Finalization\<close>

text \<open>A store and adapters that answer every finalization call at once, within the deadline.\<close>

definition responsive :: "('j, 'w) dispatch_env \<Rightarrow> bool" where
  "responsive env \<longleftrightarrow>
     (\<forall>c w. fst (ev_commit env c w) = Answered (Inr ())) \<and>
     (\<forall>c w. fst (ev_release env c w) = Answered (Inr ())) \<and>
     (\<forall>a e w. fst (ev_ack env a e w) = Answered (Inr ())) \<and> (\<forall>w. \<not> ev_deadline env w)"

text \<open>The calls that settle a claim left in a given state.\<close>

fun settling_calls :: "dedup_claim \<times> 'j outstanding_claim \<Rightarrow> dispatch_call list" where
  "settling_calls (c, oc) =
     (case oc_state oc of
        Processing \<Rightarrow> [Release_Call c True]
      | CommitPending \<Rightarrow> [Commit_Call c True, Ack_Call (Some c) True]
      | AcknowledgementPending \<Rightarrow> [Ack_Call (Some c) True])"

lemma responsive_calls:
  assumes "responsive env"
  shows "\<exists>w. commit_claim_with_retry env c s = (Returned Succeeded, note_call (Commit_Call c True) w s)"
    and "\<exists>w. release_claim_with_retry env c s = (Returned Succeeded, note_call (Release_Call c True) w s)"
    and "\<exists>w. acknowledge_event_with_retry env co a e s = (Returned True, note_call (Ack_Call co True) w s)"
proof -
  obtain w1 w2 w3 where "ev_commit env c (d_world s) = (Answered (Inr ()), w1)"
    "ev_release env c (d_world s) = (Answered (Inr ()), w2)"
    "ev_ack env a e (d_world s) = (Answered (Inr ()), w3)"
    using assms unfolding responsive_def by (metis prod.collapse)
  then show "\<exists>w. commit_claim_with_retry env c s = (Returned Succeeded, note_call (Commit_Call c True) w s)"
    and "\<exists>w. release_claim_with_retry env c s = (Returned Succeeded, note_call (Release_Call c True) w s)"
    and "\<exists>w. acknowledge_event_with_retry env co a e s = (Returned True, note_call (Ack_Call co True) w s)"
    by (simp_all add: commit_claim_with_retry_def release_claim_with_retry_def
        acknowledge_event_with_retry_def dedup_max_attempts_def event_ack_max_attempts_def
        eval_nat_numeral(3) numeral_eq_Suc) blast+
qed

lemma responsive_finish:
  assumes "responsive env" and "hm_wf (d_outstanding s)"
  shows "d_calls (finalize_one env c oc s) = d_calls s @ settling_calls (c, oc) \<and>
    hm_wf (d_outstanding (finalize_one env c oc s)) \<and>
    hm_get (d_outstanding (finalize_one env c oc s)) = (hm_get (d_outstanding s))(c := None)"
proof -
  have "\<exists>s1. finish_claim env c oc s = (Returned Succeeded, s1) \<and> d_calls s1 = d_calls s @ settling_calls (c, oc) \<and>
      same_but c (d_outstanding s) s1"
  proof (cases "oc_state oc")
    case Processing
    with responsive_calls(2) [OF assms(1), of c s] assms(2) show ?thesis
      by (auto simp: finish_claim_def same_but_def)
  next
    case CommitPending
    obtain w1 where c1: "commit_claim_with_retry env c s = (Returned Succeeded, note_call (Commit_Call c True) w1 s)"
      using responsive_calls(1) [OF assms(1)] by blast
    define s1 where "s1 = mark_acknowledgement_pending c (note_call (Commit_Call c True) w1 s)"
    obtain w2 where c2: "acknowledge_event_with_retry env (Some c) (oc_adapter oc) (oc_event oc) s1 =
        (Returned True, note_call (Ack_Call (Some c) True) w2 s1)"
      using responsive_calls(3) [OF assms(1)] by blast
    have "same_but c (d_outstanding s) (note_call (Commit_Call c True) w1 s)"
      using assms(2) by (simp add: same_but_def)
    from closed_underD(7) [OF closed_same_but this] have "same_but c (d_outstanding s) s1"
      by (simp add: s1_def mark_acknowledgement_pending_def)
    moreover have "d_calls s1 = d_calls s @ [Commit_Call c True]"
      by (simp add: s1_def mark_acknowledgement_pending_def)
    ultimately show ?thesis
      using c1 c2 by (simp add: finish_claim_def CommitPending bindR_def modify_def ret_def same_but_def flip: s1_def)
  next
    case AcknowledgementPending
    with responsive_calls(3) [OF assms(1), of "Some c" "oc_adapter oc" "oc_event oc" s] assms(2) show ?thesis
      by (auto simp: finish_claim_def same_but_def bindR_def ret_def)
  qed
  then show ?thesis
    by (auto simp: finalize_one_def finalize_outstanding_claim_def untrack_claim_def same_but_def map_simps)
qed

lemma responsive_loop:
  assumes "responsive env" and "hm_wf (d_outstanding s)"
  shows "d_calls (finalize_loop env cs s) = d_calls s @ concat (map settling_calls cs) \<and>
    hm_wf (d_outstanding (finalize_loop env cs s)) \<and>
    (\<forall>c. hm_get (d_outstanding (finalize_loop env cs s)) c =
       (if c \<in> fst ` set cs then None else hm_get (d_outstanding s) c))"
  using assms(2)
proof (induction cs arbitrary: s)
  case (Cons p cs)
  obtain c oc where p: "p = (c, oc)" by (cases p)
  note step = responsive_finish [OF assms(1) Cons.prems, of c oc]
  have "\<not> ev_deadline env (d_world s)" using assms(1) by (simp add: responsive_def)
  with step Cons.IH [of "finalize_one env c oc s"] show ?case by (auto simp: p)
qed simp

text \<open>Shutdown settles everything when the outside answers: with a responsive store and responsive
  adapters, the finalization reports success, leaves no claim tracked, and makes for every tracked claim
  exactly the calls its state asks for: a release while processing, a commit and then the acknowledgement
  when the commit was pending, the acknowledgement alone when only that was missing.\<close>

theorem finalize_settles_all:
  assumes "responsive env" and "hm_wf (d_outstanding s)"
  shows "\<exists>s'. finalize_outstanding_claims env s = (Inr (), s') \<and> d_outstanding s' = [] \<and>
    d_calls s' = d_calls s @ concat (map settling_calls (d_outstanding s))"
proof -
  let ?s = "finalize_loop env (d_outstanding s) s"
  note loop = responsive_loop [OF assms, of "d_outstanding s"]
  have "hm_get (d_outstanding ?s) c = None" for c
    using loop by (auto simp: hm_get_def map_of_eq_None_iff)
  then have "hm_get (d_outstanding ?s) = (\<lambda>_. None)" by (auto intro!: ext)
  then have "dom (hm_get (d_outstanding ?s)) = {}" by simp
  with loop hm.len_card [of "d_outstanding ?s"] have "d_outstanding ?s = []"
    by (simp add: hm_len_def)
  with loop show ?thesis
    by (simp add: finalize_outstanding_claims_def outstanding_claim_count_def hm_len_def Let_def)
qed

lemma finalize_settles_all_witness:
  "fst (finalize_outstanding_claims (demo_env 9 (Answered (Inr ())) (Answered (Inr ())))
     (track_claim demo_claim demo_envelope (lit ''a'') demo_state)) = Inr ()"
proof -
  have "responsive (demo_env 9 (Answered (Inr ())) (Answered (Inr ())))"
    by (simp add: responsive_def demo_env_def)
  moreover have "hm_wf (d_outstanding (track_claim demo_claim demo_envelope (lit ''a'') demo_state))"
    by (simp add: track_claim_def demo_state_def hm_eval)
  ultimately show ?thesis by (auto dest: finalize_settles_all)
qed

end
