(* ===== verification/Partition.thy ===== *)
theory Partition
  imports Metrics
begin

text \<open>
  Spawning the tasks of events (\<open>crates/bot-core/src/runtime.rs\<close>: \<open>runtime_partition_key\<close> and
  \<open>EventDispatcher::spawn_event\<close>). The events of one conversation form a partition: each task awaits the
  one-shot channel of the task before it, and the map \<open>partition_tails\<close> holds the last task of each
  partition under a wrapping generation number. A step system interleaves spawns, starts, ends and
  tear-downs; what a started task does is the subject of theory \<open>Dispatch\<close>.
\<close>

section \<open>Partition keys\<close>

definition partition_label :: "adapter_id \<Rightarrow> string \<Rightarrow> ustr \<Rightarrow> ustr" where
  "partition_label a kind x = a @ lit '':'' @ lit kind @ lit '':'' @ x"

definition runtime_partition_key :: "'j event_envelope \<Rightarrow> ustr" where
  "runtime_partition_key e =
     (case env_event e of
        Event_Message m \<Rightarrow>
          (case target m of
             Target_Group g \<Rightarrow> partition_label (env_adapter e) ''group'' g
           | Target_Private u \<Rightarrow> partition_label (env_adapter e) ''private'' u
           | Target_Channel c \<Rightarrow> partition_label (env_adapter e) ''channel'' c
           | Target_GuildDirect g \<Rightarrow> partition_label (env_adapter e) ''guild-direct'' g)
      | _ \<Rightarrow> partition_label (env_adapter e) ''event'' (env_id e))"

text \<open>What a key stands for: a conversation, or for other events the event alone.\<close>

definition conversation :: "'j event_envelope \<Rightarrow> message_target + event_id" where
  "conversation e = (case env_event e of Event_Message m \<Rightarrow> Inl (target m) | _ \<Rightarrow> Inr (env_id e))"

lemma partition_label_eq:
  "partition_label a kind x = partition_label a kind' x' \<longleftrightarrow>
   lit kind @ lit '':'' @ x = lit kind' @ lit '':'' @ x'"
  by (simp add: partition_label_def)

text \<open>Within one adapter the partitions are exactly the conversations: two events get the same key
  iff they are messages to the same target, or are both not messages and have the same identifier,
  whatever characters (also colons) the identifiers contain.\<close>

theorem partition_key_exact:
  assumes "env_adapter e = env_adapter e'"
  shows "runtime_partition_key e = runtime_partition_key e' \<longleftrightarrow> conversation e = conversation e'"
  using assms
  by (auto simp: runtime_partition_key_def conversation_def partition_label_eq
      split: event.splits message_target.splits)

definition demo_message :: "string \<Rightarrow> unit event_envelope" where
  "demo_message g = \<lparr>env_id = lit ''e'', env_adapter = lit ''a'', delivery_id = None, timestamp = None,
     env_event = Event_Message \<lparr>message_id = lit ''m'', target = Target_Group (lit g),
       msg_sender = \<lparr>sender_id = lit ''u'', display_name = None\<rparr>, msg_text = [], segments = [],
       reply_to = None\<rparr>, raw = ()\<rparr>"

lemma partition_key_exact_witness:
  "runtime_partition_key (demo_message ''b:group:c'') \<noteq> runtime_partition_key (demo_message ''b'')"
proof -
  have "env_adapter (demo_message ''b:group:c'') = env_adapter (demo_message ''b'')"
    by (simp add: demo_message_def)
  from partition_key_exact [OF this] show ?thesis
    by (simp add: conversation_def demo_message_def)
qed

section \<open>Tasks\<close>

text \<open>
  A task first awaits its predecessor, then runs, then sends on its channel, then takes its entry out of
  the map. \<open>Torn_Task\<close> is a task that was aborted or panicked: its sender is dropped, which resolves the
  receiver of its successor too, but its map entry stays.
\<close>

datatype task_phase = Waiting_Task | Running_Task | Signalled_Task | Finished_Task | Torn_Task

record part_task =
  pt_key :: ustr
  pt_previous :: "nat option"
  pt_generation :: u64
  pt_phase :: task_phase

text \<open>Tasks are numbered in the order of their spawning; a one-shot channel is named by its task.\<close>

record part_sys =
  ps_tails :: "(ustr, u64 \<times> nat) hmap"
  ps_generation :: u64
  ps_tasks :: "part_task list"
  ps_observer :: runtime_observer
  ps_aborting :: bool

definition spawn_event :: "adapter_id list \<Rightarrow> 'j event_envelope \<Rightarrow> part_sys \<Rightarrow> part_sys" where
  "spawn_event adapters e s =
     (if env_adapter e \<notin> set adapters
      then s\<lparr>ps_observer := record_unattributed_rejection (ps_observer s)\<rparr>
      else
        (let key = runtime_partition_key e;
             g = ps_generation s + 1;
             t = length (ps_tasks s);
             previous = map_option snd (hm_get (ps_tails s) key)
         in s\<lparr>ps_generation := g,
              ps_tails := hm_put key (g, t) (hm_del key (ps_tails s)),
              ps_tasks := ps_tasks s @
                [\<lparr>pt_key = key, pt_previous = previous, pt_generation = g, pt_phase = Waiting_Task\<rparr>]\<rparr>))"

definition task_ended :: "part_task \<Rightarrow> bool" where
  "task_ended t \<longleftrightarrow> pt_phase t \<in> {Signalled_Task, Finished_Task, Torn_Task}"

text \<open>\<open>previous.await\<close> has returned: there is none, or its sender has sent or was dropped.\<close>

definition may_start :: "part_sys \<Rightarrow> part_task \<Rightarrow> bool" where
  "may_start s t \<longleftrightarrow>
     pt_phase t = Waiting_Task \<and>
     (case pt_previous t of None \<Rightarrow> True | Some i \<Rightarrow> task_ended (ps_tasks s ! i))"

definition set_phase_of :: "nat \<Rightarrow> task_phase \<Rightarrow> part_sys \<Rightarrow> part_sys" where
  "set_phase_of i p s = s\<lparr>ps_tasks := (ps_tasks s)[i := (ps_tasks s ! i)\<lparr>pt_phase := p\<rparr>]\<rparr>"

definition clear_tail :: "ustr \<Rightarrow> u64 \<Rightarrow> part_sys \<Rightarrow> part_sys" where
  "clear_tail key g s =
     (case hm_get (ps_tails s) key of
        Some (g', _) \<Rightarrow> if g' = g then s\<lparr>ps_tails := hm_del key (ps_tails s)\<rparr> else s
      | None \<Rightarrow> s)"

definition finish_task :: "nat \<Rightarrow> part_sys \<Rightarrow> part_sys" where
  "finish_task i s =
     set_phase_of i Finished_Task (clear_tail (pt_key (ps_tasks s ! i)) (pt_generation (ps_tasks s ! i)) s)"

text \<open>
  A running task may panic at any time; a waiting one is torn down only by \<open>abort_all\<close>. The runtime
  issues \<open>abort_all\<close> when it gives up, and the flag remembers that it did.
\<close>

inductive part_step :: "adapter_id list \<Rightarrow> part_sys \<Rightarrow> part_sys \<Rightarrow> bool" for adapters where
  Spawn: "part_step adapters s (spawn_event adapters (e :: unit event_envelope) s)"
| Start: "\<lbrakk>i < length (ps_tasks s); may_start s (ps_tasks s ! i)\<rbrakk> \<Longrightarrow>
    part_step adapters s (set_phase_of i Running_Task s)"
| Signal: "\<lbrakk>i < length (ps_tasks s); pt_phase (ps_tasks s ! i) = Running_Task\<rbrakk> \<Longrightarrow>
    part_step adapters s (set_phase_of i Signalled_Task s)"
| Clear: "\<lbrakk>i < length (ps_tasks s); pt_phase (ps_tasks s ! i) = Signalled_Task\<rbrakk> \<Longrightarrow>
    part_step adapters s (finish_task i s)"
| Panic: "\<lbrakk>i < length (ps_tasks s); pt_phase (ps_tasks s ! i) = Running_Task\<rbrakk> \<Longrightarrow>
    part_step adapters s (set_phase_of i Torn_Task s)"
| Abort_All: "part_step adapters s (s\<lparr>ps_aborting := True\<rparr>)"
| Aborted: "\<lbrakk>ps_aborting s; i < length (ps_tasks s); pt_phase (ps_tasks s ! i) \<in> {Waiting_Task, Running_Task}\<rbrakk> \<Longrightarrow>
    part_step adapters s (set_phase_of i Torn_Task s)"

definition new_partitions :: "runtime_observer \<Rightarrow> part_sys" where
  "new_partitions ob = \<lparr>ps_tails = [], ps_generation = 0, ps_tasks = [], ps_observer = ob, ps_aborting = False\<rparr>"

inductive part_reachable :: "adapter_id list \<Rightarrow> part_sys \<Rightarrow> bool" for adapters where
  Init: "part_reachable adapters (new_partitions ob)"
| Step: "\<lbrakk>part_reachable adapters s; part_step adapters s s'\<rbrakk> \<Longrightarrow> part_reachable adapters s'"

section \<open>Invariants\<close>

text \<open>What holds without any condition: generations count the tasks, predecessors are older tasks of
  the same partition, and the map refers to unfinished tasks.\<close>

definition part_wf :: "part_sys \<Rightarrow> bool" where
  "part_wf s \<longleftrightarrow>
     (let ts = ps_tasks s in
      ps_generation s = of_nat (length ts) \<and>
      hm_wf (ps_tails s) \<and>
      (\<forall>i<length ts. pt_generation (ts ! i) = of_nat (Suc i)) \<and>
      (\<forall>j<length ts. \<forall>i. pt_previous (ts ! j) = Some i \<longrightarrow> i < j \<and> pt_key (ts ! i) = pt_key (ts ! j)) \<and>
      (\<forall>k g i. hm_get (ps_tails s) k = Some (g, i) \<longrightarrow>
         i < length ts \<and> pt_key (ts ! i) = k \<and> pt_generation (ts ! i) = g \<and> pt_phase (ts ! i) \<noteq> Finished_Task))"

text \<open>The order within a partition.\<close>

definition part_ordered :: "part_sys \<Rightarrow> bool" where
  "part_ordered s \<longleftrightarrow>
     (let ts = ps_tasks s in
      (\<forall>j<length ts. \<forall>i<j. pt_key (ts ! i) = pt_key (ts ! j) \<longrightarrow>
         (pt_phase (ts ! j) \<noteq> Waiting_Task \<longrightarrow> task_ended (ts ! i)) \<and>
         (pt_previous (ts ! j) = None \<longrightarrow> task_ended (ts ! i)) \<and>
         (\<forall>p. pt_previous (ts ! j) = Some p \<longrightarrow> \<not> p < i)) \<and>
      (\<forall>i<length ts. (hm_get (ps_tails s) (pt_key (ts ! i)) = None \<longrightarrow> task_ended (ts ! i)) \<and>
         (\<forall>g p. hm_get (ps_tails s) (pt_key (ts ! i)) = Some (g, p) \<longrightarrow> \<not> p < i)))"

lemma part_wfD:
  assumes "part_wf s"
  shows "ps_generation s = of_nat (length (ps_tasks s))" "hm_wf (ps_tails s)"
    and "i < length (ps_tasks s) \<Longrightarrow> pt_generation (ps_tasks s ! i) = of_nat (Suc i)"
    and "j < length (ps_tasks s) \<Longrightarrow> pt_previous (ps_tasks s ! j) = Some i \<Longrightarrow>
      i < j \<and> pt_key (ps_tasks s ! i) = pt_key (ps_tasks s ! j)"
    and "hm_get (ps_tails s) k = Some (g, i) \<Longrightarrow>
      i < length (ps_tasks s) \<and> pt_key (ps_tasks s ! i) = k \<and> pt_generation (ps_tasks s ! i) = g \<and>
      pt_phase (ps_tasks s ! i) \<noteq> Finished_Task"
  using assms unfolding part_wf_def Let_def by blast+

lemma part_wf_cong [simp]:
  "part_wf (s\<lparr>ps_aborting := b\<rparr>) = part_wf s" "part_wf (s\<lparr>ps_observer := ob\<rparr>) = part_wf s"
  by (simp_all add: part_wf_def)

lemma set_phase_simps [simp]:
  "ps_tails (set_phase_of i p s) = ps_tails s"
  "ps_generation (set_phase_of i p s) = ps_generation s"
  "ps_observer (set_phase_of i p s) = ps_observer s"
  "ps_aborting (set_phase_of i p s) = ps_aborting s"
  "length (ps_tasks (set_phase_of i p s)) = length (ps_tasks s)"
  by (simp_all add: set_phase_of_def)

lemma set_phase_nth [simp]:
  "j < length (ps_tasks s) \<Longrightarrow>
   ps_tasks (set_phase_of i p s) ! j = (ps_tasks s ! j)\<lparr>pt_phase := if i = j then p else pt_phase (ps_tasks s ! j)\<rparr>"
  by (cases "i = j") (simp_all add: set_phase_of_def)

lemma clear_tail_simps [simp]:
  "ps_generation (clear_tail k g s) = ps_generation s"
  "ps_tasks (clear_tail k g s) = ps_tasks s"
  "ps_observer (clear_tail k g s) = ps_observer s"
  "ps_aborting (clear_tail k g s) = ps_aborting s"
  by (simp_all add: clear_tail_def split: option.splits)

lemma clear_tail_get:
  "hm_wf (ps_tails s) \<Longrightarrow> hm_get (ps_tails (clear_tail k g s)) k' =
     (if k' = k \<and> map_option fst (hm_get (ps_tails s) k) = Some g then None else hm_get (ps_tails s) k')"
  by (auto simp: clear_tail_def map_simps split: option.splits)

lemma clear_tail_wf: "hm_wf (ps_tails s) \<Longrightarrow> hm_wf (ps_tails (clear_tail k g s))"
  by (auto simp: clear_tail_def map_simps split: option.splits)

lemma part_wf_transfer:
  assumes wf: "part_wf s" and tails: "hm_wf (ps_tails s')"
    and gen: "ps_generation s' = ps_generation s" and len: "length (ps_tasks s') = length (ps_tasks s)"
    and same: "\<And>j. j < length (ps_tasks s) \<Longrightarrow>
      pt_key (ps_tasks s' ! j) = pt_key (ps_tasks s ! j) \<and>
      pt_previous (ps_tasks s' ! j) = pt_previous (ps_tasks s ! j) \<and>
      pt_generation (ps_tasks s' ! j) = pt_generation (ps_tasks s ! j)"
    and sub: "\<And>k g i. hm_get (ps_tails s') k = Some (g, i) \<Longrightarrow>
      hm_get (ps_tails s) k = Some (g, i) \<and> pt_phase (ps_tasks s' ! i) \<noteq> Finished_Task"
  shows "part_wf s'"
proof -
  note D = part_wfD [OF wf]
  have "i < j \<and> pt_key (ps_tasks s' ! i) = pt_key (ps_tasks s' ! j)"
    if "j < length (ps_tasks s)" "pt_previous (ps_tasks s' ! j) = Some i" for i j
    using that D(4) [of j i] same [of j] same [of i] by simp
  moreover have "i < length (ps_tasks s) \<and> pt_key (ps_tasks s' ! i) = k \<and>
      pt_generation (ps_tasks s' ! i) = g \<and> pt_phase (ps_tasks s' ! i) \<noteq> Finished_Task"
    if "hm_get (ps_tails s') k = Some (g, i)" for k g i
    using sub [OF that] D(5) [of k g i] same [of i] by simp
  ultimately show ?thesis
    unfolding part_wf_def Let_def len gen using D(1,3) tails same by metis
qed

lemma part_wf_phase:
  assumes "part_wf s" "i < length (ps_tasks s)" "p \<noteq> Finished_Task"
  shows "part_wf (set_phase_of i p s)"
proof (rule part_wf_transfer [OF assms(1)])
  fix k g j
  assume "hm_get (ps_tails (set_phase_of i p s)) k = Some (g, j)"
  with part_wfD(5) [OF assms(1), of k g j] assms(3)
  show "hm_get (ps_tails s) k = Some (g, j) \<and> pt_phase (ps_tasks (set_phase_of i p s) ! j) \<noteq> Finished_Task"
    by simp
qed (use part_wfD(2) [OF assms(1)] in simp_all)

lemma part_wf_finish:
  assumes wf: "part_wf s" and i: "i < length (ps_tasks s)"
  shows "part_wf (finish_task i s)"
proof (rule part_wf_transfer [OF wf])
  let ?s = "clear_tail (pt_key (ps_tasks s ! i)) (pt_generation (ps_tasks s ! i)) s"
  fix k g j
  assume "hm_get (ps_tails (finish_task i s)) k = Some (g, j)"
  then have j: "hm_get (ps_tails s) k = Some (g, j)"
    and kept: "\<not> (k = pt_key (ps_tasks s ! i) \<and> g = pt_generation (ps_tasks s ! i))"
    by (auto simp: finish_task_def clear_tail_get part_wfD(2) [OF wf] split: if_splits)
  from part_wfD(5) [OF wf j] kept
  show "hm_get (ps_tails s) k = Some (g, j) \<and> pt_phase (ps_tasks (finish_task i s) ! j) \<noteq> Finished_Task"
    by (auto simp: finish_task_def j)
qed (use part_wfD(2) [OF wf] clear_tail_wf in \<open>simp_all add: finish_task_def\<close>)

lemma spawn_event_simps:
  "env_adapter e \<in> set adapters \<Longrightarrow> ps_tasks (spawn_event adapters e s) = ps_tasks s @
     [\<lparr>pt_key = runtime_partition_key e,
       pt_previous = map_option snd (hm_get (ps_tails s) (runtime_partition_key e)),
       pt_generation = ps_generation s + 1, pt_phase = Waiting_Task\<rparr>]"
  "env_adapter e \<in> set adapters \<Longrightarrow> hm_wf (ps_tails s) \<Longrightarrow>
     hm_get (ps_tails (spawn_event adapters e s)) k =
       (if k = runtime_partition_key e then Some (ps_generation s + 1, length (ps_tasks s))
        else hm_get (ps_tails s) k)"
  "ps_aborting (spawn_event adapters e s) = ps_aborting s"
  "ps_generation (spawn_event adapters e s) = ps_generation s + of_bool (env_adapter e \<in> set adapters)"
  "hm_wf (ps_tails s) \<Longrightarrow> hm_wf (ps_tails (spawn_event adapters e s))"
  by (simp_all add: spawn_event_def Let_def map_simps)

lemma spawn_unknown:
  "env_adapter e \<notin> set adapters \<Longrightarrow>
   spawn_event adapters e s = s\<lparr>ps_observer := record_unattributed_rejection (ps_observer s)\<rparr>"
  by (simp add: spawn_event_def)

lemma part_wf_spawn:
  assumes wf: "part_wf s"
  shows "part_wf (spawn_event adapters e s)"
proof (cases "env_adapter e \<in> set adapters")
  case True
  note D = part_wfD [OF wf]
  let ?k = "runtime_partition_key e" and ?n = "length (ps_tasks s)" and ?s = "spawn_event adapters e s"
  note tasks = spawn_event_simps(1) [OF True, of s] and tails = spawn_event_simps(2) [OF True D(2)]
  have prev: "i < j \<and> pt_key (ps_tasks ?s ! i) = pt_key (ps_tasks ?s ! j)"
    if "j < Suc ?n" "pt_previous (ps_tasks ?s ! j) = Some i" for i j
  proof (cases "j = ?n")
    case True
    with that(2) obtain g where "hm_get (ps_tails s) ?k = Some (g, i)" by (auto simp: tasks)
    from D(5) [OF this] True show ?thesis by (simp add: tasks nth_append)
  next
    case False
    with that have "j < ?n" "pt_previous (ps_tasks s ! j) = Some i" by (simp_all add: tasks nth_append)
    with D(4) [OF this] show ?thesis by (simp add: tasks nth_append)
  qed
  have tail: "i < Suc ?n \<and> pt_key (ps_tasks ?s ! i) = k \<and> pt_generation (ps_tasks ?s ! i) = g \<and>
      pt_phase (ps_tasks ?s ! i) \<noteq> Finished_Task"
    if "hm_get (ps_tails ?s) k = Some (g, i)" for k g i
    using that D(5) [of k g i] by (auto simp: tails tasks nth_append split: if_splits)
  have gen: "pt_generation (ps_tasks ?s ! i) = of_nat (Suc i)" if "i < Suc ?n" for i
    using that D(1,3) by (auto simp: tasks nth_append less_Suc_eq)
  have "ps_generation ?s = of_nat (Suc ?n)" using True D(1) by (simp add: spawn_event_simps(4))
  moreover have "length (ps_tasks ?s) = Suc ?n" by (simp add: tasks)
  ultimately show ?thesis
    unfolding part_wf_def Let_def using prev tail gen spawn_event_simps(5) [OF D(2)] by metis
next
  case False
  with wf show ?thesis by (simp add: spawn_unknown)
qed

lemma part_wf_step: "part_step adapters s s' \<Longrightarrow> part_wf s \<Longrightarrow> part_wf s'"
  by (induction rule: part_step.induct)
     (auto intro: part_wf_spawn part_wf_phase part_wf_finish)

lemma part_reachable_wf: "part_reachable adapters s \<Longrightarrow> part_wf s"
proof (induction rule: part_reachable.induct)
  case (Init ob)
  show ?case by (simp add: part_wf_def new_partitions_def map_simps)
next
  case (Step s s')
  then show ?case by (simp add: part_wf_step)
qed

lemma part_orderedD:
  assumes "part_ordered s"
  shows "j < length (ps_tasks s) \<Longrightarrow> pt_phase (ps_tasks s ! j) \<noteq> Waiting_Task \<Longrightarrow> i < j \<Longrightarrow>
      pt_key (ps_tasks s ! i) = pt_key (ps_tasks s ! j) \<Longrightarrow> task_ended (ps_tasks s ! i)"
    and "j < length (ps_tasks s) \<Longrightarrow> pt_previous (ps_tasks s ! j) = None \<Longrightarrow> i < j \<Longrightarrow>
      pt_key (ps_tasks s ! i) = pt_key (ps_tasks s ! j) \<Longrightarrow> task_ended (ps_tasks s ! i)"
    and "j < length (ps_tasks s) \<Longrightarrow> pt_previous (ps_tasks s ! j) = Some p \<Longrightarrow> i < j \<Longrightarrow> p < i \<Longrightarrow>
      pt_key (ps_tasks s ! i) \<noteq> pt_key (ps_tasks s ! j)"
    and "hm_get (ps_tails s) k = None \<Longrightarrow> i < length (ps_tasks s) \<Longrightarrow> pt_key (ps_tasks s ! i) = k \<Longrightarrow>
      task_ended (ps_tasks s ! i)"
    and "hm_get (ps_tails s) k = Some (g, p) \<Longrightarrow> i < length (ps_tasks s) \<Longrightarrow> p < i \<Longrightarrow>
      pt_key (ps_tasks s ! i) \<noteq> k"
  using assms unfolding part_ordered_def Let_def by blast+

lemma part_orderedI:
  assumes "\<And>i j. j < length (ps_tasks s) \<Longrightarrow> pt_phase (ps_tasks s ! j) \<noteq> Waiting_Task \<Longrightarrow> i < j \<Longrightarrow>
      pt_key (ps_tasks s ! i) = pt_key (ps_tasks s ! j) \<Longrightarrow> task_ended (ps_tasks s ! i)"
    and "\<And>i j. j < length (ps_tasks s) \<Longrightarrow> pt_previous (ps_tasks s ! j) = None \<Longrightarrow> i < j \<Longrightarrow>
      pt_key (ps_tasks s ! i) = pt_key (ps_tasks s ! j) \<Longrightarrow> task_ended (ps_tasks s ! i)"
    and "\<And>i j p. j < length (ps_tasks s) \<Longrightarrow> pt_previous (ps_tasks s ! j) = Some p \<Longrightarrow> i < j \<Longrightarrow> p < i \<Longrightarrow>
      pt_key (ps_tasks s ! i) \<noteq> pt_key (ps_tasks s ! j)"
    and "\<And>k i. hm_get (ps_tails s) k = None \<Longrightarrow> i < length (ps_tasks s) \<Longrightarrow> pt_key (ps_tasks s ! i) = k \<Longrightarrow>
      task_ended (ps_tasks s ! i)"
    and "\<And>k g p i. hm_get (ps_tails s) k = Some (g, p) \<Longrightarrow> i < length (ps_tasks s) \<Longrightarrow> p < i \<Longrightarrow>
      pt_key (ps_tasks s ! i) \<noteq> k"
  shows "part_ordered s"
  unfolding part_ordered_def Let_def by (intro conjI allI impI notI) (use assms in \<open>blast+\<close>)

lemma task_ended_phase: "task_ended (t\<lparr>pt_phase := p\<rparr>) \<longleftrightarrow> p \<in> {Signalled_Task, Finished_Task, Torn_Task}"
  by (simp add: task_ended_def)

lemma part_ordered_phase:
  assumes o: "part_ordered s" and i: "i < length (ps_tasks s)" and p: "p \<noteq> Waiting_Task"
    and keep: "task_ended (ps_tasks s ! i) \<Longrightarrow> p \<in> {Signalled_Task, Finished_Task, Torn_Task}"
    and prior: "\<And>i'. i' < i \<Longrightarrow> pt_key (ps_tasks s ! i') = pt_key (ps_tasks s ! i) \<Longrightarrow> task_ended (ps_tasks s ! i')"
  shows "part_ordered (set_phase_of i p s)"
proof -
  note D = part_orderedD [OF o]
  have ended: "task_ended (ps_tasks (set_phase_of i p s) ! j)"
    if "task_ended (ps_tasks s ! j)" "j < length (ps_tasks s)" for j
    using that keep by (cases "i = j") (auto simp: task_ended_def)
  show ?thesis
  proof (rule part_orderedI)
    fix i' j
    assume a: "j < length (ps_tasks (set_phase_of i p s))"
      "pt_phase (ps_tasks (set_phase_of i p s) ! j) \<noteq> Waiting_Task" "i' < j"
      "pt_key (ps_tasks (set_phase_of i p s) ! i') = pt_key (ps_tasks (set_phase_of i p s) ! j)"
    then have "task_ended (ps_tasks s ! i')"
      using D(1) [of j i'] prior [of i'] by (cases "i = j") auto
    with ended a show "task_ended (ps_tasks (set_phase_of i p s) ! i')" by simp
  qed (use D ended in auto)
qed

lemma part_ordered_started:
  assumes o: "part_ordered s" and i: "i < length (ps_tasks s)" and ph: "pt_phase (ps_tasks s ! i) \<noteq> Waiting_Task"
    and p: "p \<in> {Signalled_Task, Finished_Task, Torn_Task}"
  shows "part_ordered (set_phase_of i p s)"
  using part_ordered_phase [OF o i, of p] part_orderedD(1) [OF o i ph] p by blast

text \<open>A task that may start has seen all older tasks of its partition end.\<close>

lemma may_start_prior:
  assumes wf: "part_wf s" and o: "part_ordered s" and j: "j < length (ps_tasks s)"
    and start: "may_start s (ps_tasks s ! j)" and i: "i < j" "pt_key (ps_tasks s ! i) = pt_key (ps_tasks s ! j)"
  shows "task_ended (ps_tasks s ! i)"
proof (cases "pt_previous (ps_tasks s ! j)")
  case None
  with part_orderedD(2) [OF o j] i show ?thesis by blast
next
  case (Some p)
  from part_wfD(4) [OF wf j Some] have p: "p < j" "pt_key (ps_tasks s ! p) = pt_key (ps_tasks s ! j)" by auto
  from start Some have e: "task_ended (ps_tasks s ! p)" by (simp add: may_start_def)
  then have np: "pt_phase (ps_tasks s ! p) \<noteq> Waiting_Task" by (auto simp: task_ended_def)
  consider "i < p" | "i = p" | "p < i" by linarith
  then show ?thesis
  proof cases
    case 1
    with part_orderedD(1) [OF o, of p i] np p i j show ?thesis by simp
  next
    case 3
    with part_orderedD(3) [OF o j Some] i show ?thesis by blast
  qed (use e in simp)
qed

lemma generation_inj:
  assumes "part_wf s" "length (ps_tasks s) < 2 ^ 64" "i < length (ps_tasks s)" "j < length (ps_tasks s)"
    and "pt_generation (ps_tasks s ! i) = pt_generation (ps_tasks s ! j)"
  shows "i = j"
proof -
  from assms have "(of_nat (Suc i) :: u64) = of_nat (Suc j)"
    using part_wfD(3) [OF assms(1)] by metis
  then have "unat (of_nat (Suc i) :: u64) = unat (of_nat (Suc j) :: u64)" by simp
  with assms(2-4) show ?thesis by (simp add: unat_of_nat take_bit_nat_eq_self del: of_nat_Suc)
qed

lemma part_ordered_finish:
  assumes wf: "part_wf s" and o: "part_ordered s" and i: "i < length (ps_tasks s)"
    and ph: "pt_phase (ps_tasks s ! i) = Signalled_Task" and len: "length (ps_tasks s) < 2 ^ 64"
  shows "part_ordered (finish_task i s)"
proof -
  let ?k = "pt_key (ps_tasks s ! i)"
  let ?s = "clear_tail ?k (pt_generation (ps_tasks s ! i)) s"
  have "part_ordered ?s"
  proof (rule part_orderedI)
    fix k j
    assume a: "hm_get (ps_tails ?s) k = None" "j < length (ps_tasks ?s)" "pt_key (ps_tasks ?s ! j) = k"
    show "task_ended (ps_tasks ?s ! j)"
    proof (cases "hm_get (ps_tails s) k")
      case None
      with part_orderedD(4) [OF o] a show ?thesis by simp
    next
      case (Some x)
      with a have k: "k = ?k" and x: "hm_get (ps_tails s) ?k = Some (pt_generation (ps_tasks s ! i), snd x)"
        by (auto simp: clear_tail_get part_wfD(2) [OF wf] split: if_splits)
      from part_wfD(5) [OF wf x] generation_inj [OF wf len i] have "snd x = i" by metis
      with x have "\<not> i < j" using part_orderedD(5) [OF o, of ?k _ i j] a k by auto
      then consider "j < i" | "j = i" by linarith
      then show ?thesis
        using part_orderedD(1) [OF o i] ph a k by cases (auto simp: task_ended_def)
    qed
  next
    fix k g p j
    assume a: "hm_get (ps_tails ?s) k = Some (g, p)" "j < length (ps_tasks ?s)" "p < j"
    then show "pt_key (ps_tasks ?s ! j) \<noteq> k"
      using part_orderedD(5) [OF o, of k g p j]
      by (simp add: clear_tail_get part_wfD(2) [OF wf] split: if_splits)
  qed (use part_orderedD(1-3) [OF o] in simp_all)
  from part_ordered_started [OF this] i ph show ?thesis by (simp add: finish_task_def)
qed

lemma part_ordered_spawn:
  assumes wf: "part_wf s" and o: "part_ordered s"
  shows "part_ordered (spawn_event adapters e s)"
proof (cases "env_adapter e \<in> set adapters")
  case True
  note tasks = spawn_event_simps(1) [OF True, of s]
    and tails = spawn_event_simps(2) [OF True part_wfD(2) [OF wf]]
  note D = part_orderedD [OF o]
  let ?s = "spawn_event adapters e s" and ?n = "length (ps_tasks s)" and ?k = "runtime_partition_key e"
  show ?thesis
  proof (rule part_orderedI)
    fix i j
    assume a: "j < length (ps_tasks ?s)" "pt_phase (ps_tasks ?s ! j) \<noteq> Waiting_Task" "i < j"
      "pt_key (ps_tasks ?s ! i) = pt_key (ps_tasks ?s ! j)"
    then have "j < ?n" by (auto simp: tasks nth_append less_Suc_eq)
    with a D(1) [of j i] show "task_ended (ps_tasks ?s ! i)" by (simp add: tasks nth_append)
  next
    fix i j
    assume a: "j < length (ps_tasks ?s)" "pt_previous (ps_tasks ?s ! j) = None" "i < j"
      "pt_key (ps_tasks ?s ! i) = pt_key (ps_tasks ?s ! j)"
    then show "task_ended (ps_tasks ?s ! i)"
      using D(2) [of j i] D(4) [of ?k i] by (cases "j = ?n") (auto simp: tasks nth_append)
  next
    fix i j p
    assume a: "j < length (ps_tasks ?s)" "pt_previous (ps_tasks ?s ! j) = Some p" "i < j" "p < i"
    then show "pt_key (ps_tasks ?s ! i) \<noteq> pt_key (ps_tasks ?s ! j)"
      using D(3) [of j p i] D(5) [of ?k _ p i] by (cases "j = ?n") (auto simp: tasks nth_append)
  next
    fix k i
    assume a: "hm_get (ps_tails ?s) k = None" "i < length (ps_tasks ?s)" "pt_key (ps_tasks ?s ! i) = k"
    then show "task_ended (ps_tasks ?s ! i)"
      using D(4) [of k i] by (cases "i = ?n") (auto simp: tasks tails nth_append split: if_splits)
  next
    fix k g p i
    assume a: "hm_get (ps_tails ?s) k = Some (g, p)" "i < length (ps_tasks ?s)" "p < i"
    then show "pt_key (ps_tasks ?s ! i) \<noteq> k"
      using D(5) [of k g p i] by (cases "i = ?n") (auto simp: tasks tails nth_append split: if_splits)
  qed
next
  case False
  with o show ?thesis by (simp add: spawn_unknown part_ordered_def)
qed

lemma part_step_length: "part_step adapters s s' \<Longrightarrow> length (ps_tasks s) \<le> length (ps_tasks s')"
  by (induction rule: part_step.induct) (auto simp: spawn_event_def Let_def finish_task_def)

lemma part_step_ordered:
  assumes "part_step adapters s s'" "part_wf s" "length (ps_tasks s) < 2 ^ 64" "\<not> ps_aborting s'"
    and "part_ordered s"
  shows "part_ordered s'"
  using assms
proof (induction rule: part_step.induct)
  case (Start i s)
  then show ?case
    using part_ordered_phase [of s i Running_Task] may_start_prior [of s i]
    by (auto simp: may_start_def task_ended_def)
qed (auto intro: part_ordered_spawn part_ordered_started part_ordered_finish)

lemma part_step_aborting: "part_step adapters s s' \<Longrightarrow> ps_aborting s \<Longrightarrow> ps_aborting s'"
  by (induction rule: part_step.induct) (auto simp: spawn_event_def Let_def finish_task_def)

lemma part_reachable_ordered:
  assumes "part_reachable adapters s" "length (ps_tasks s) < 2 ^ 64" "\<not> ps_aborting s"
  shows "part_ordered s"
  using assms
proof (induction rule: part_reachable.induct)
  case (Init ob)
  show ?case by (simp add: part_ordered_def new_partitions_def map_simps)
next
  case (Step s s')
  then show ?case
    using part_step_ordered [OF Step.hyps(2) part_reachable_wf [OF Step.hyps(1)]]
      part_step_length [OF Step.hyps(2)] part_step_aborting [OF Step.hyps(2)] by fastforce
qed

section \<open>Properties\<close>

text \<open>[C3] Events of one conversation are handled one at a time and in the order in which they were taken
  from the queue: in every reachable state, once the task of an event has left its waiting state, every
  older task of the same partition has ended, also when tasks panic. This holds as long as the runtime
  has not called \<open>abort_all\<close>, and before the 64-bit generation counter wraps round.\<close>

theorem partition_serial:
  assumes "part_reachable adapters s" "\<not> ps_aborting s" "length (ps_tasks s) < 2 ^ 64"
    and "i < j" "j < length (ps_tasks s)" "pt_key (ps_tasks s ! i) = pt_key (ps_tasks s ! j)"
    and "pt_phase (ps_tasks s ! j) \<noteq> Waiting_Task"
  shows "task_ended (ps_tasks s ! i)"
  using part_orderedD(1) [OF part_reachable_ordered] assms by blast

definition demo_partitions :: part_sys where
  "demo_partitions =
     set_phase_of 1 Running_Task (set_phase_of 0 Signalled_Task (set_phase_of 0 Running_Task
       (spawn_event [lit ''a''] (demo_message ''g'') (spawn_event [lit ''a''] (demo_message ''g'')
         (new_partitions new_observer)))))"

lemma demo_spawned:
  "spawn_event [lit ''a''] (demo_message ''g'') (spawn_event [lit ''a''] (demo_message ''g'')
     (new_partitions ob)) =
   \<lparr>ps_tails = [(lit ''a:group:g'', 2, 1)], ps_generation = 2,
    ps_tasks = [\<lparr>pt_key = lit ''a:group:g'', pt_previous = None, pt_generation = 1, pt_phase = Waiting_Task\<rparr>,
                \<lparr>pt_key = lit ''a:group:g'', pt_previous = Some 0, pt_generation = 2, pt_phase = Waiting_Task\<rparr>],
    ps_observer = ob, ps_aborting = False\<rparr>"
  by (simp add: spawn_event_def new_partitions_def demo_message_def runtime_partition_key_def
      partition_label_def hm_eval Let_def)

lemma demo_partitions_eq:
  "demo_partitions =
   \<lparr>ps_tails = [(lit ''a:group:g'', 2, 1)], ps_generation = 2,
    ps_tasks = [\<lparr>pt_key = lit ''a:group:g'', pt_previous = None, pt_generation = 1, pt_phase = Signalled_Task\<rparr>,
                \<lparr>pt_key = lit ''a:group:g'', pt_previous = Some 0, pt_generation = 2, pt_phase = Running_Task\<rparr>],
    ps_observer = new_observer, ps_aborting = False\<rparr>"
  unfolding demo_partitions_def demo_spawned by (simp add: set_phase_of_def)

lemma demo_spawned_reachable:
  "part_reachable [lit ''a''] (spawn_event [lit ''a''] (demo_message ''g'')
     (spawn_event [lit ''a''] (demo_message ''g'') (new_partitions ob)))"
  by (rule part_reachable.Step [OF part_reachable.Step [OF part_reachable.Init part_step.Spawn] part_step.Spawn])

lemma demo_partitions_reachable: "part_reachable [lit ''a''] demo_partitions"
proof -
  let ?s = "spawn_event [lit ''a''] (demo_message ''g'') (spawn_event [lit ''a''] (demo_message ''g'')
     (new_partitions new_observer))"
  have "part_reachable [lit ''a''] (set_phase_of 0 Running_Task ?s)"
    by (rule part_reachable.Step [OF demo_spawned_reachable part_step.Start])
       (simp_all add: demo_spawned may_start_def del: lit_Cons)
  then have "part_reachable [lit ''a''] (set_phase_of 0 Signalled_Task (set_phase_of 0 Running_Task ?s))"
    by (rule part_reachable.Step [OF _ part_step.Signal]) (simp_all add: demo_spawned set_phase_of_def del: lit_Cons)
  then show ?thesis
    unfolding demo_partitions_def
    by (rule part_reachable.Step [OF _ part_step.Start])
       (simp_all add: demo_spawned set_phase_of_def may_start_def task_ended_def del: lit_Cons)
qed

lemma partition_serial_witness:
  "task_ended (ps_tasks demo_partitions ! 0) \<and> pt_phase (ps_tasks demo_partitions ! 1) = Running_Task"
  using partition_serial [OF demo_partitions_reachable, of 0 1]
  by (simp add: demo_partitions_eq del: lit_Cons)

text \<open>No partition can hang on its own bookkeeping: in every reachable state, also during an
  \<open>abort_all\<close>, if a task waits then some task of the same partition, not younger than it, is running or
  may start now.\<close>

theorem partition_progress:
  assumes "part_reachable adapters s" "j < length (ps_tasks s)" "pt_phase (ps_tasks s ! j) = Waiting_Task"
  shows "\<exists>i\<le>j. pt_key (ps_tasks s ! i) = pt_key (ps_tasks s ! j) \<and>
    (pt_phase (ps_tasks s ! i) = Running_Task \<or> may_start s (ps_tasks s ! i))"
  using assms(2,3)
proof (induction j rule: less_induct)
  case (less j)
  note wf = part_reachable_wf [OF assms(1)]
  show ?case
  proof (cases "may_start s (ps_tasks s ! j)")
    case False
    with less.prems obtain p where p: "pt_previous (ps_tasks s ! j) = Some p" "\<not> task_ended (ps_tasks s ! p)"
      by (auto simp: may_start_def split: option.splits)
    with part_wfD(4) [OF wf less.prems(1)]
    have pj: "p < j" "pt_key (ps_tasks s ! p) = pt_key (ps_tasks s ! j)" by auto
    have "pt_phase (ps_tasks s ! p) = Running_Task \<or> pt_phase (ps_tasks s ! p) = Waiting_Task"
      using p(2) by (cases "pt_phase (ps_tasks s ! p)") (auto simp: task_ended_def)
    with less.IH [of p] less.prems(1) pj show ?thesis by (metis less_imp_le order.trans order.strict_trans)
  qed auto
qed

definition demo_waiting :: part_sys where
  "demo_waiting = spawn_event [lit ''a''] (demo_message ''g'') (spawn_event [lit ''a''] (demo_message ''g'')
     (new_partitions new_observer))"

lemma demo_waiting_reachable: "part_reachable [lit ''a''] demo_waiting"
  unfolding demo_waiting_def by (rule demo_spawned_reachable)

lemma demo_waiting_tasks:
  "ps_tasks demo_waiting =
    [\<lparr>pt_key = lit ''a:group:g'', pt_previous = None, pt_generation = 1, pt_phase = Waiting_Task\<rparr>,
     \<lparr>pt_key = lit ''a:group:g'', pt_previous = Some 0, pt_generation = 2, pt_phase = Waiting_Task\<rparr>]"
  unfolding demo_waiting_def demo_spawned by (rule part_sys.simps)

lemma partition_progress_witness:
  "\<exists>i\<le>1. pt_key (ps_tasks demo_waiting ! i) = lit ''a:group:g'' \<and>
    (pt_phase (ps_tasks demo_waiting ! i) = Running_Task \<or> may_start demo_waiting (ps_tasks demo_waiting ! i))"
  using partition_progress [OF demo_waiting_reachable, of 1]
  by (simp add: demo_waiting_tasks del: lit_Cons)

text \<open>The map of partition tails cannot grow without bound: in every reachable state it has at most
  one entry per task that has not cleaned up after itself, so it is empty again when all tasks have
  finished. (Only the entry of a torn down task stays, until the next event of its partition replaces
  it.)\<close>

theorem partition_tails_bounded:
  assumes "part_reachable adapters s"
  shows "hm_len (ps_tails s) \<le> length (filter (\<lambda>t. pt_phase t \<noteq> Finished_Task) (ps_tasks s))"
proof -
  note wf = part_reachable_wf [OF assms]
  let ?I = "{i. i < length (ps_tasks s) \<and> pt_phase (ps_tasks s ! i) \<noteq> Finished_Task}"
  let ?D = "dom (hm_get (ps_tails s))" and ?f = "\<lambda>k. snd (the (hm_get (ps_tails s) k))"
  have entry: "?f k \<in> ?I \<and> pt_key (ps_tasks s ! ?f k) = k" if "k \<in> ?D" for k
  proof -
    from that obtain g i where "hm_get (ps_tails s) k = Some (g, i)" by auto
    with part_wfD(5) [OF wf this] show ?thesis by simp
  qed
  have "inj_on ?f ?D"
  proof (rule inj_onI)
    fix k k'
    assume k: "k \<in> ?D" "k' \<in> ?D" and eq: "?f k = ?f k'"
    show "k = k'"
      by (rule box_equals [OF _ entry [OF k(1), THEN conjunct2] entry [OF k(2), THEN conjunct2]])
         (simp only: eq)
  qed
  moreover from entry have "?f ` ?D \<subseteq> ?I" by blast
  ultimately have "card ?D \<le> card ?I" by (rule card_inj_on_le) simp
  then show ?thesis
    using hm.len_card [OF part_wfD(2) [OF wf]] by (simp add: length_filter_conv_card)
qed

lemma partition_tails_bounded_witness:
  "hm_len (ps_tails demo_partitions) \<le> 2 \<and> hm_len (ps_tails demo_partitions) = 1"
  using partition_tails_bounded [OF demo_partitions_reachable]
  by (simp add: demo_partitions_eq hm_len_def del: lit_Cons)

end
