(* ===== verification/RuntimeLoop.thy ===== *)
theory RuntimeLoop
  imports DispatchProps Partition
begin

text \<open>
  The life of a runtime (\<open>crates/bot-core/src/runtime.rs\<close>): the select loop of \<open>EventDispatcher::run\<close>,
  \<open>prepare_shutdown\<close> with \<open>drain_adapters\<close>, \<open>RuntimeShutdown::finish\<close> and \<open>Runtime::run\<close>. Which branch of a
  \<open>select!\<close> fires, and with which value, is the choice of the environment: the loops run over the list of
  its choices, and a branch whose precondition is false cannot fire. An unjoined task is one unit of a
  \<open>JoinSet\<close>.
\<close>

section \<open>Joined tasks\<close>

datatype event_join = Event_Joined | Event_Panicked

datatype adapter_join = Adapter_Joined adapter_id "adapter_error + unit" | Adapter_Panicked

fun check_event_join :: "event_join option \<Rightarrow> runtime_error option" where
  "check_event_join (Some Event_Panicked) = Some RT_EventJoin"
| "check_event_join _ = None"

fun check_adapter_join :: "adapter_join option \<Rightarrow> runtime_error option" where
  "check_adapter_join None = None"
| "check_adapter_join (Some Adapter_Panicked) = Some RT_AdapterJoin"
| "check_adapter_join (Some (Adapter_Joined a (Inr _))) = None"
| "check_adapter_join (Some (Adapter_Joined a (Inl err))) = Some (RT_AdapterStopped a err)"

fun check_adapter_joins :: "adapter_join list \<Rightarrow> runtime_error option" where
  "check_adapter_joins [] = None"
| "check_adapter_joins (j # js) =
     (case check_adapter_join (Some j) of Some err \<Rightarrow> Some err | None \<Rightarrow> check_adapter_joins js)"

section \<open>The dispatch loop\<close>

record 'j loop_state =
  lp_event_tasks :: nat
  lp_adapter_tasks :: nat
  lp_parts :: part_sys
  lp_taken :: "'j event_envelope list"

text \<open>\<open>B_Recv e n\<close>: the queue gave event \<open>e\<close> and has \<open>n\<close> left; \<open>B_Closed\<close>: all senders are gone.\<close>

datatype 'j branch =
    B_Shutdown
  | B_Event event_join
  | B_Adapter adapter_join
  | B_Recv "'j event_envelope" nat
  | B_Closed bool "adapter_join list"

definition take_event :: "adapter_id list \<Rightarrow> 'j event_envelope \<Rightarrow> nat \<Rightarrow> 'j loop_state \<Rightarrow> 'j loop_state" where
  "take_event ids e depth st =
     st\<lparr>lp_taken := lp_taken st @ [e],
        lp_event_tasks := lp_event_tasks st + of_bool (env_adapter e \<in> set ids),
        lp_parts := spawn_event ids e
          ((lp_parts st)\<lparr>ps_observer := record_queue_depth depth (ps_observer (lp_parts st))\<rparr>)\<rparr>"

definition join_event_task :: "'j loop_state \<Rightarrow> 'j loop_state" where
  "join_event_task st = st\<lparr>lp_event_tasks := lp_event_tasks st - 1\<rparr>"

definition join_adapter_task :: "'j loop_state \<Rightarrow> 'j loop_state" where
  "join_adapter_task st = st\<lparr>lp_adapter_tasks := lp_adapter_tasks st - 1\<rparr>"

text \<open>How the loop is left: for a shutdown, with an error, or because the queue was closed after one.\<close>

datatype loop_exit = Exit_Shutdown | Exit_Error runtime_error | Exit_Closed

fun loop_step :: "nat \<Rightarrow> adapter_id list \<Rightarrow> 'j branch \<Rightarrow> 'j loop_state \<Rightarrow> loop_exit option \<times> 'j loop_state" where
  "loop_step cap ids B_Shutdown st = (Some Exit_Shutdown, st)"
| "loop_step cap ids (B_Event j) st =
     (if lp_event_tasks st = 0 then (None, st)
      else (map_option Exit_Error (check_event_join (Some j)), join_event_task st))"
| "loop_step cap ids (B_Adapter j) st =
     (if lp_adapter_tasks st = 0 then (None, st)
      else (map_option Exit_Error (check_adapter_join (Some j)), join_adapter_task st))"
| "loop_step cap ids (B_Recv e depth) st =
     (if cap \<le> lp_event_tasks st then (None, st) else (None, take_event ids e depth st))"
| "loop_step cap ids (B_Closed is_shutdown joins) st =
     (if cap \<le> lp_event_tasks st then (None, st)
      else if is_shutdown then (Some Exit_Closed, st)
      else (Some (Exit_Error (case check_adapter_joins joins of Some err \<Rightarrow> err | None \<Rightarrow> RT_AllAdaptersStopped)),
            st\<lparr>lp_adapter_tasks := lp_adapter_tasks st - length joins\<rparr>))"

text \<open>The loop over the choices; what is left of them when it is left, or \<open>None\<close> while it still runs.\<close>

fun dispatcher_loop ::
    "nat \<Rightarrow> adapter_id list \<Rightarrow> 'j branch list \<Rightarrow> 'j loop_state \<Rightarrow> loop_exit option \<times> 'j branch list \<times> 'j loop_state" where
  "dispatcher_loop cap ids [] st = (None, [], st)"
| "dispatcher_loop cap ids (b # bs) st =
     (case loop_step cap ids b st of
        (None, st') \<Rightarrow> dispatcher_loop cap ids bs st'
      | (Some ex, st') \<Rightarrow> (Some ex, bs, st'))"

section \<open>Preparing the shutdown\<close>

text \<open>
  \<open>drain_adapters\<close> within its share of the deadline. When the choices end before the adapters have, the
  deadline has passed. The two awaits of the saturated case and the three of the other one differ only in
  whether an event may be received.
\<close>

fun drain_adapters ::
    "nat \<Rightarrow> adapter_id list \<Rightarrow> bool \<Rightarrow> 'j branch list \<Rightarrow> 'j loop_state \<Rightarrow> (runtime_error option) option \<times> 'j loop_state" where
  "drain_adapters cap ids opened [] st = (if lp_adapter_tasks st = 0 then Some None else None, st)"
| "drain_adapters cap ids opened (b # bs) st =
     (if lp_adapter_tasks st = 0 then (Some None, st)
      else
        (case b of
           B_Adapter j \<Rightarrow>
             (case check_adapter_join (Some j) of
                Some err \<Rightarrow> (Some (Some err), join_adapter_task st)
              | None \<Rightarrow> drain_adapters cap ids opened bs (join_adapter_task st))
         | B_Event j \<Rightarrow>
             if lp_event_tasks st = 0 then drain_adapters cap ids opened bs st
             else
               (case check_event_join (Some j) of
                  Some err \<Rightarrow> (Some (Some err), join_event_task st)
                | None \<Rightarrow> drain_adapters cap ids opened bs (join_event_task st))
         | B_Recv e depth \<Rightarrow>
             if cap \<le> lp_event_tasks st \<or> \<not> opened then drain_adapters cap ids opened bs st
             else drain_adapters cap ids opened bs (take_event ids e depth st)
         | B_Closed _ _ \<Rightarrow>
             if cap \<le> lp_event_tasks st \<or> \<not> opened then drain_adapters cap ids opened bs st
             else drain_adapters cap ids False bs st
         | B_Shutdown \<Rightarrow> drain_adapters cap ids opened bs st))"

text \<open>The inner loop that frees a slot for the next event: joins until there is one, \<open>None\<close> when the
  deadline passed first.\<close>

fun free_slot ::
    "nat \<Rightarrow> event_join list \<Rightarrow> 'j loop_state \<Rightarrow> (runtime_error option) \<times> event_join list \<times> 'j loop_state" where
  "free_slot cap js st =
     (if lp_event_tasks st < cap then (None, js, st)
      else
        (case js of
           [] \<Rightarrow> (Some RT_EventDrainTimeout, [], st)
         | j # js' \<Rightarrow>
             (case check_event_join (if lp_event_tasks st = 0 then None else Some j) of
                Some err \<Rightarrow> (Some err, js', join_event_task st)
              | None \<Rightarrow> free_slot cap js' (join_event_task st))))"

declare free_slot.simps [simp del]

fun drain_queue ::
    "nat \<Rightarrow> adapter_id list \<Rightarrow> event_join list \<Rightarrow> 'j event_envelope list \<Rightarrow> 'j loop_state \<Rightarrow>
     runtime_error option \<times> 'j loop_state" where
  "drain_queue cap ids js [] st = (None, st)"
| "drain_queue cap ids js (e # es) st =
     (case free_slot cap js st of
        (Some err, _, st') \<Rightarrow> (Some err, st')
      | (None, js', st') \<Rightarrow> drain_queue cap ids js' es (take_event ids e (length es) st'))"

text \<open>The shares of the shutdown deadline (in nanoseconds).\<close>

definition dispatch_reserve :: "nat \<Rightarrow> nat" where "dispatch_reserve timeout = timeout div 2"

definition adapter_budget :: "nat \<Rightarrow> nat \<Rightarrow> nat" where
  "adapter_budget timeout elapsed = timeout - elapsed - dispatch_reserve timeout"

definition finalization_reserve :: "nat \<Rightarrow> nat" where "finalization_reserve timeout = timeout div 4"

text \<open>
  The drain of the adapters ends in the first half of the deadline, and when it does, the event tasks
  have at least a quarter of it before the last quarter, which is for recovery and finalization.
\<close>

lemma shutdown_shares:
  assumes "elapsed \<le> timeout - dispatch_reserve timeout"
  shows "elapsed + adapter_budget timeout elapsed + dispatch_reserve timeout = timeout"
    and "finalization_reserve timeout \<le> dispatch_reserve timeout - finalization_reserve timeout"
  using assms by (auto simp: adapter_budget_def dispatch_reserve_def finalization_reserve_def)

definition prepare_shutdown ::
    "nat \<Rightarrow> adapter_id list \<Rightarrow> 'j branch list \<Rightarrow> event_join list \<Rightarrow> 'j event_envelope list \<Rightarrow> 'j loop_state \<Rightarrow>
     runtime_error option \<times> 'j loop_state" where
  "prepare_shutdown cap ids bs js queued st =
     (let (err, st1) =
        (case drain_adapters cap ids True bs st of
           (Some e, st') \<Rightarrow> (e, st')
         | (None, st') \<Rightarrow> (Some RT_AdapterDrainTimeout, st'\<lparr>lp_adapter_tasks := 0\<rparr>))
      in case drain_queue cap ids js queued st1 of
           (Some e, st2) \<Rightarrow> (Some e, st2)
         | (None, st2) \<Rightarrow> (err, st2))"

text \<open>\<open>EventDispatcher::run\<close>: the error it ends with, and whether it set a shutdown deadline.\<close>

definition dispatcher_run ::
    "nat \<Rightarrow> adapter_id list \<Rightarrow> 'j branch list \<Rightarrow> event_join list \<Rightarrow> 'j event_envelope list \<Rightarrow> 'j loop_state \<Rightarrow>
     (runtime_error option \<times> bool) option \<times> 'j loop_state" where
  "dispatcher_run cap ids bs js queued st =
     (case dispatcher_loop cap ids bs st of
        (None, _, st') \<Rightarrow> (None, st')
      | (Some Exit_Shutdown, bs', st') \<Rightarrow>
          (case prepare_shutdown cap ids bs' js queued st' of (err, st'') \<Rightarrow> (Some (err, True), st''))
      | (Some (Exit_Error err), _, st') \<Rightarrow> (Some (Some err, False), st')
      | (Some Exit_Closed, _, st') \<Rightarrow> (Some (None, False), st'))"

section \<open>Finishing\<close>

text \<open>
  A \<open>JoinSet\<close> that is being joined is the list of the outcomes of its tasks in the order of their
  completion, and \<open>n\<close> of them complete before the deadline. Aborting empties it.
\<close>

fun finish_adapter_tasks :: "nat \<Rightarrow> adapter_join list \<Rightarrow> runtime_error option \<times> adapter_join list" where
  "finish_adapter_tasks n [] = (None, [])"
| "finish_adapter_tasks 0 (j # js) = (Some RT_AdapterShutdownTimeout, [])"
| "finish_adapter_tasks (Suc n) (j # js) =
     (case j of
        Adapter_Panicked \<Rightarrow> (Some RT_AdapterJoin, [])
      | Adapter_Joined a (Inl err) \<Rightarrow> (Some (RT_AdapterStopped a err), [])
      | Adapter_Joined a (Inr _) \<Rightarrow> finish_adapter_tasks n js)"

fun finish_event_tasks :: "nat \<Rightarrow> event_join list \<Rightarrow> runtime_error option \<times> event_join list" where
  "finish_event_tasks n [] = (None, [])"
| "finish_event_tasks 0 (j # js) = (Some RT_EventDrainTimeout, [])"
| "finish_event_tasks (Suc n) (j # js) =
     (case j of Event_Panicked \<Rightarrow> (Some RT_EventJoin, []) | Event_Joined \<Rightarrow> finish_event_tasks n js)"

text \<open>How the stop of the recovery supervisor ends, by what happens to its channel and its task first.\<close>

datatype supervisor_stop = Stop_Confirmed | Stop_Join_Error | Stop_Timed_Out

fun stop_supervisor :: "supervisor_stop \<Rightarrow> runtime_error option" where
  "stop_supervisor Stop_Confirmed = None"
| "stop_supervisor Stop_Join_Error = Some RT_DedupRecoveryJoin"
| "stop_supervisor Stop_Timed_Out = Some RT_DedupRecoveryTimeout"

record ('j, 'w) shutdown_state =
  sd_event_tasks :: "event_join list"
  sd_adapter_tasks :: "adapter_join list"
  sd_dispatch :: "('j, 'w) dispatch"
  sd_error :: "runtime_error option"

text \<open>
  The environment of a shutdown: how many tasks complete before their deadlines, what the event tasks
  and the recovery tasks still do to the dispatch state until they have ended or were aborted, and how
  the supervisor stops.
\<close>

record ('j, 'w) shutdown_env =
  se_dispatch :: "('j, 'w) dispatch_env"
  se_events_in_time :: nat
  se_adapters_in_time :: nat
  se_event_work :: "('j, 'w) dispatch \<Rightarrow> ('j, 'w) dispatch"
  se_recovery_work :: "('j, 'w) dispatch \<Rightarrow> ('j, 'w) dispatch"
  se_stop :: supervisor_stop

definition get_or_insert :: "runtime_error option \<Rightarrow> runtime_error option \<Rightarrow> runtime_error option" where
  "get_or_insert new old = (case old of None \<Rightarrow> new | Some e \<Rightarrow> Some e)"

definition finish_events :: "('j, 'w) shutdown_env \<Rightarrow> ('j, 'w) shutdown_state \<Rightarrow> ('j, 'w) shutdown_state" where
  "finish_events env s =
     (let worked = s\<lparr>sd_dispatch := se_event_work env (sd_dispatch s)\<rparr>
      in if sd_error s \<noteq> None then worked\<lparr>sd_event_tasks := [], sd_adapter_tasks := []\<rparr>
         else
           (case finish_event_tasks (se_events_in_time env) (sd_event_tasks s) of
              (None, js) \<Rightarrow> worked\<lparr>sd_event_tasks := js\<rparr>
            | (Some err, js) \<Rightarrow>
                worked\<lparr>sd_event_tasks := js, sd_error := get_or_insert (Some err) (sd_error s),
                       sd_adapter_tasks := []\<rparr>))"

definition stop_recovery :: "('j, 'w) shutdown_env \<Rightarrow> ('j, 'w) shutdown_state \<Rightarrow> ('j, 'w) shutdown_state" where
  "stop_recovery env s =
     s\<lparr>sd_dispatch := se_recovery_work env (sd_dispatch s),
       sd_error := get_or_insert (stop_supervisor (se_stop env)) (sd_error s)\<rparr>"

definition finalize_claims :: "('j, 'w) shutdown_env \<Rightarrow> ('j, 'w) shutdown_state \<Rightarrow> ('j, 'w) shutdown_state" where
  "finalize_claims env s =
     (case finalize_outstanding_claims (se_dispatch env) (sd_dispatch s) of
        (Inr _, d) \<Rightarrow> s\<lparr>sd_dispatch := d\<rparr>
      | (Inl err, d) \<Rightarrow> s\<lparr>sd_dispatch := d, sd_error := get_or_insert (Some err) (sd_error s)\<rparr>)"

definition finish_adapters ::
    "('j, 'w) shutdown_env \<Rightarrow> adapter_id list \<Rightarrow> ('j, 'w) shutdown_state \<Rightarrow> ('j, 'w) shutdown_state" where
  "finish_adapters env ids s =
     (let s1 = s\<lparr>sd_dispatch := observe (fold (\<lambda>a. set_adapter_online a False) ids) (sd_dispatch s)\<rparr>;
          tasks = (if sd_error s1 \<noteq> None then [] else sd_adapter_tasks s1);
          (err, left) = finish_adapter_tasks (se_adapters_in_time env) tasks
      in s1\<lparr>sd_adapter_tasks := left, sd_error := get_or_insert err (sd_error s1)\<rparr>)"

definition report_phase :: "('j, 'w) shutdown_state \<Rightarrow> ('j, 'w) shutdown_state" where
  "report_phase s =
     s\<lparr>sd_dispatch := observe (set_phase (if sd_error s \<noteq> None then Phase_Failed else Phase_Stopped)) (sd_dispatch s)\<rparr>"

definition runtime_finish ::
    "('j, 'w) shutdown_env \<Rightarrow> adapter_id list \<Rightarrow> ('j, 'w) shutdown_state \<Rightarrow>
     (runtime_error + unit) \<times> ('j, 'w) shutdown_state" where
  "runtime_finish env ids s =
     (let s' = report_phase (finish_adapters env ids (finalize_claims env (stop_recovery env (finish_events env
            (s\<lparr>sd_dispatch := observe (set_phase Phase_ShuttingDown) (sd_dispatch s)\<rparr>)))))
      in (case sd_error s' of None \<Rightarrow> Inr () | Some err \<Rightarrow> Inl err, s'))"

section \<open>A run\<close>

text \<open>
  \<open>Runtime::run\<close>. The dispatch loop works on the observer through the partition state; the tasks it
  spawned, the adapters and the recovery have worked on the dispatch state in the meantime
  (\<open>run_work\<close>), and its unjoined tasks are joined by \<open>runtime_finish\<close>.
\<close>

record ('j, 'w) run_env =
  re_branches :: "'j branch list"
  re_joins :: "event_join list"
  re_queued :: "'j event_envelope list"
  re_work :: "('j, 'w) dispatch \<Rightarrow> ('j, 'w) dispatch"
  re_event_tasks :: "event_join list"
  re_adapter_tasks :: "adapter_join list"
  re_shutdown :: "('j, 'w) shutdown_env"

definition initial_loop_state :: "adapter_id list \<Rightarrow> runtime_observer \<Rightarrow> 'j loop_state" where
  "initial_loop_state ids ob =
     \<lparr>lp_event_tasks = 0, lp_adapter_tasks = length ids, lp_parts = new_partitions ob, lp_taken = []\<rparr>"

definition new_dispatch :: "'w \<Rightarrow> runtime_observer \<Rightarrow> ('j, 'w) dispatch" where
  "new_dispatch w ob =
     \<lparr>d_world = w, d_outstanding = [], d_observer = ob, d_recovery = [], d_calls = []\<rparr>"

text \<open>\<open>None\<close> is a run whose loop has not ended.\<close>

definition runtime_run ::
    "('j, 'w) run_env \<Rightarrow> ('j, 'w) runtime \<Rightarrow> 'w \<Rightarrow> runtime_observer \<Rightarrow>
     (runtime_error + unit) option \<times> runtime_observer" where
  "runtime_run env rt w ob =
     (let ids = map adapter_id_of (rt_adapters rt)
      in case begin_run (rt_queue_capacity rt) ids ob of
           (False, ob1) \<Rightarrow> (Some (Inl RT_ObserverInUse), ob1)
         | (True, ob1) \<Rightarrow>
             (let ob2 = set_phase Phase_Running (set_phase Phase_Starting ob1)
              in case dispatcher_run (rt_queue_capacity rt) ids (re_branches env) (re_joins env) (re_queued env)
                        (initial_loop_state ids ob2) of
                   (None, st) \<Rightarrow> (None, ps_observer (lp_parts st))
                 | (Some (err, _), st) \<Rightarrow>
                     (let d = re_work env (new_dispatch w (ps_observer (lp_parts st)));
                          (res, s') = runtime_finish (re_shutdown env) ids
                            \<lparr>sd_event_tasks = re_event_tasks env, sd_adapter_tasks = re_adapter_tasks env,
                             sd_dispatch = d, sd_error = err\<rparr>
                      in (Some res, end_run (d_observer (sd_dispatch s'))))))"

section \<open>Bounded memory\<close>

lemma take_event_tasks [simp]:
  "lp_event_tasks (take_event ids e n st) = lp_event_tasks st + of_bool (env_adapter e \<in> set ids)"
  "lp_adapter_tasks (take_event ids e n st) = lp_adapter_tasks st"
  "lp_taken (take_event ids e n st) = lp_taken st @ [e]"
  by (simp_all add: take_event_def)

lemma join_task_simps [simp]:
  "lp_event_tasks (join_event_task st) = lp_event_tasks st - 1"
  "lp_adapter_tasks (join_event_task st) = lp_adapter_tasks st"
  "lp_taken (join_event_task st) = lp_taken st"
  "lp_event_tasks (join_adapter_task st) = lp_event_tasks st"
  "lp_adapter_tasks (join_adapter_task st) = lp_adapter_tasks st - 1"
  "lp_taken (join_adapter_task st) = lp_taken st"
  by (simp_all add: join_event_task_def join_adapter_task_def)

lemma loop_step_bounded:
  "lp_event_tasks st \<le> cap \<Longrightarrow> lp_event_tasks (snd (loop_step cap ids b st)) \<le> cap"
  by (cases b) auto

lemma dispatcher_loop_bounded:
  "lp_event_tasks st \<le> cap \<Longrightarrow> lp_event_tasks (snd (snd (dispatcher_loop cap ids bs st))) \<le> cap"
proof (induction bs arbitrary: st)
  case (Cons b bs)
  from loop_step_bounded [OF Cons.prems, of ids b] Cons.IH show ?case
    by (auto split: prod.splits option.splits)
qed simp

lemma drain_adapters_bounded:
  "lp_event_tasks st \<le> cap \<Longrightarrow> lp_event_tasks (snd (drain_adapters cap ids opened bs st)) \<le> cap"
proof (induction bs arbitrary: opened st)
  case (Cons b bs)
  then show ?case by (cases b) (auto split: option.splits)
qed simp

lemma free_slot_bounded:
  "lp_event_tasks st \<le> cap \<Longrightarrow> free_slot cap js st = (r, js', st') \<Longrightarrow>
   lp_event_tasks st' \<le> cap \<and> (r = None \<longrightarrow> lp_event_tasks st' < cap) \<and>
   lp_adapter_tasks st' = lp_adapter_tasks st \<and> lp_taken st' = lp_taken st"
proof (induction js arbitrary: st)
  case Nil
  then show ?case by (auto simp: free_slot.simps split: if_splits)
next
  case (Cons j js)
  show ?case
  proof (cases "lp_event_tasks st < cap \<or> check_event_join (if lp_event_tasks st = 0 then None else Some j) \<noteq> None")
    case True
    with Cons.prems show ?thesis by (auto simp: free_slot.simps [of cap "j # js"] split: if_splits)
  next
    case False
    with Cons.prems have "free_slot cap js (join_event_task st) = (r, js', st')"
      by (auto simp: free_slot.simps [of cap "j # js"])
    with Cons.IH [of "join_event_task st"] Cons.prems(1) show ?thesis by simp
  qed
qed

lemma drain_queue_bounded:
  "lp_event_tasks st \<le> cap \<Longrightarrow> lp_event_tasks (snd (drain_queue cap ids js es st)) \<le> cap"
proof (induction es arbitrary: js st)
  case (Cons e es)
  obtain r js' st' where f: "free_slot cap js st = (r, js', st')" by (cases "free_slot cap js st")
  from free_slot_bounded [OF Cons.prems f] Cons.IH show ?case
    by (auto simp: f Suc_le_eq split: option.splits)
qed simp

lemma prepare_shutdown_bounded:
  "lp_event_tasks st \<le> cap \<Longrightarrow> lp_event_tasks (snd (prepare_shutdown cap ids bs js es st)) \<le> cap"
proof -
  assume le: "lp_event_tasks st \<le> cap"
  obtain r st1 where d: "drain_adapters cap ids True bs st = (r, st1)" by fastforce
  with drain_adapters_bounded [OF le, of ids True bs] have "lp_event_tasks st1 \<le> cap" by simp
  then show ?thesis
    using drain_queue_bounded [of st1 cap ids js es]
      drain_queue_bounded [of "st1\<lparr>lp_adapter_tasks := 0\<rparr>" cap ids js es]
    by (auto simp: prepare_shutdown_def d Let_def split: option.splits prod.splits)
qed

text \<open>Dispatch needs bounded memory: whatever the environment does, in whatever order tasks end and
  events arrive, before and during the drain of a shutdown, there are never more event tasks than the
  queue capacity. (Together with the bound of the queue itself this is the \<open>2 * queue_capacity\<close> that the
  comment in \<open>EventDispatcher::run\<close> promises.)\<close>

theorem dispatch_tasks_bounded:
  "lp_event_tasks (snd (dispatcher_run cap ids bs js queued (initial_loop_state ids ob))) \<le> cap"
proof -
  let ?st = "initial_loop_state ids ob :: 'a loop_state"
  have le: "lp_event_tasks ?st \<le> cap" by (simp add: initial_loop_state_def)
  obtain r bs' st' where l: "dispatcher_loop cap ids bs ?st = (r, bs', st')"
    by (cases "dispatcher_loop cap ids bs ?st")
  with dispatcher_loop_bounded [OF le, of ids bs] have le': "lp_event_tasks st' \<le> cap" by simp
  from prepare_shutdown_bounded [OF le', of ids bs' js queued] le' show ?thesis
    by (auto simp: dispatcher_run_def l split: option.splits loop_exit.splits prod.splits)
qed

section \<open>Nothing accepted is dropped\<close>

lemma drain_adapters_ended:
  "drain_adapters cap ids opened bs st = (Some None, st') \<Longrightarrow>
   lp_adapter_tasks st' = 0 \<and> (\<exists>es. lp_taken st' = lp_taken st @ es)"
proof (induction bs arbitrary: opened st)
  case (Cons b bs)
  then show ?case by (cases b) (fastforce split: option.splits if_splits)+
qed (auto split: if_splits)

lemma drain_queue_taken:
  "lp_event_tasks st \<le> cap \<Longrightarrow> drain_queue cap ids js es st = (None, st') \<Longrightarrow>
   lp_taken st' = lp_taken st @ es \<and> lp_adapter_tasks st' = lp_adapter_tasks st"
proof (induction es arbitrary: js st)
  case (Cons e es)
  obtain r js' st1 where f: "free_slot cap js st = (r, js', st1)" by (cases "free_slot cap js st")
  note fs = free_slot_bounded [OF Cons.prems(1) f]
  from Cons.prems(2) f have r: "r = None" and d: "drain_queue cap ids js' es (take_event ids e (length es) st1) = (None, st')"
    by (auto split: option.splits)
  from fs r have "lp_event_tasks (take_event ids e (length es) st1) \<le> cap" by auto
  from Cons.IH [OF this d] fs show ?case by simp
qed simp

text \<open>A clean shutdown drops nothing that was accepted: when the preparation ends without an error,
  every adapter task has ended, and every event that was still in the queue when it was closed has been
  handed to an event task, in order, after those received during the drain.\<close>

theorem prepare_shutdown_complete:
  assumes "lp_event_tasks st \<le> cap" "prepare_shutdown cap ids bs js queued st = (None, st')"
  shows "lp_adapter_tasks st' = 0 \<and> (\<exists>drained. lp_taken st' = lp_taken st @ drained @ queued)"
proof -
  obtain r st1 where d: "drain_adapters cap ids True bs st = (r, st1)" by fastforce
  with drain_adapters_bounded [OF assms(1), of ids True bs] have le: "lp_event_tasks st1 \<le> cap" by simp
  from assms(2) d have r: "r = Some None" and q: "drain_queue cap ids js queued st1 = (None, st')"
    by (auto simp: prepare_shutdown_def split: option.splits prod.splits)
  from drain_adapters_ended [OF d [unfolded r]] drain_queue_taken [OF le q] show ?thesis by auto
qed

definition demo_loop_state :: "unit loop_state" where
  "demo_loop_state = \<lparr>lp_event_tasks = 1, lp_adapter_tasks = 1, lp_parts = new_partitions new_observer,
     lp_taken = []\<rparr>"

lemma prepare_shutdown_complete_witness:
  "\<exists>st'. prepare_shutdown 1 [lit ''a''] [B_Recv (demo_message ''g'') 0, B_Event Event_Joined,
        B_Recv (demo_message ''h'') 1, B_Adapter (Adapter_Joined (lit ''a'') (Inr ()))]
      [Event_Joined] [demo_message ''i''] demo_loop_state = (None, st') \<and>
    lp_adapter_tasks st' = 0 \<and> (\<exists>drained. lp_taken st' = [] @ drained @ [demo_message ''i''])"
proof -
  let ?r = "prepare_shutdown 1 [lit ''a''] [B_Recv (demo_message ''g'') 0, B_Event Event_Joined,
        B_Recv (demo_message ''h'') 1, B_Adapter (Adapter_Joined (lit ''a'') (Inr ()))]
      [Event_Joined] [demo_message ''i''] demo_loop_state"
  have "fst ?r = None"
    by (simp add: prepare_shutdown_def demo_loop_state_def free_slot.simps take_event_def demo_message_def
        join_event_task_def join_adapter_task_def)
  then obtain st' where st': "?r = (None, st')" by (cases ?r) simp
  from prepare_shutdown_complete [OF _ this] st' show ?thesis by (simp add: demo_loop_state_def)
qed

section \<open>How a run ends\<close>

lemma get_or_insert_simps [simp]:
  "get_or_insert new None = new" "get_or_insert new (Some e) = Some e"
  "get_or_insert new old = None \<longleftrightarrow> new = None \<and> old = None"
  by (simp_all add: get_or_insert_def split: option.splits)

lemma get_or_insert_first: "old = Some e \<Longrightarrow> get_or_insert new old = Some e"
  by simp

lemma finish_adapter_tasks_empty: "snd (finish_adapter_tasks n js) = []"
  by (induction n js rule: finish_adapter_tasks.induct) (auto split: adapter_join.splits sum.splits)

lemma finish_event_tasks_empty: "snd (finish_event_tasks n js) = []"
  by (induction n js rule: finish_event_tasks.induct) (auto split: event_join.splits)

lemma finish_adapter_tasks_ok:
  "fst (finish_adapter_tasks n js) = None \<longleftrightarrow>
   length js \<le> n \<and> (\<forall>j\<in>set js. \<exists>a. j = Adapter_Joined a (Inr ()))"
  by (induction n js rule: finish_adapter_tasks.induct) (auto split: adapter_join.splits sum.splits)

lemma finish_event_tasks_ok:
  "fst (finish_event_tasks n js) = None \<longleftrightarrow> length js \<le> n \<and> Event_Panicked \<notin> set js"
  by (induction n js rule: finish_event_tasks.induct) (auto split: event_join.splits)

lemma finish_events_fields:
  "sd_event_tasks (finish_events env s) = []"
  "sd_error (finish_events env s) = None \<longleftrightarrow>
     sd_error s = None \<and> length (sd_event_tasks s) \<le> se_events_in_time env \<and> Event_Panicked \<notin> set (sd_event_tasks s)"
  "sd_error s = Some e \<Longrightarrow> sd_error (finish_events env s) = Some e"
  "sd_error (finish_events env s) = None \<Longrightarrow> sd_adapter_tasks (finish_events env s) = sd_adapter_tasks s"
  "sd_dispatch (finish_events env s) = se_event_work env (sd_dispatch s)"
  using finish_event_tasks_ok [of "se_events_in_time env" "sd_event_tasks s"]
    finish_event_tasks_empty [of "se_events_in_time env" "sd_event_tasks s"]
  by (cases "finish_event_tasks (se_events_in_time env) (sd_event_tasks s)";
      auto simp: finish_events_def Let_def split: option.splits prod.splits)+

lemma stop_recovery_fields:
  "sd_event_tasks (stop_recovery env s) = sd_event_tasks s"
  "sd_adapter_tasks (stop_recovery env s) = sd_adapter_tasks s"
  "sd_error (stop_recovery env s) = None \<longleftrightarrow> sd_error s = None \<and> se_stop env = Stop_Confirmed"
  "sd_error s = Some e \<Longrightarrow> sd_error (stop_recovery env s) = Some e"
  "sd_dispatch (stop_recovery env s) = se_recovery_work env (sd_dispatch s)"
  by (cases "se_stop env"; auto simp: stop_recovery_def)+

lemma finalize_claims_fields:
  "sd_event_tasks (finalize_claims env s) = sd_event_tasks s"
  "sd_adapter_tasks (finalize_claims env s) = sd_adapter_tasks s"
  "sd_error (finalize_claims env s) = None \<longleftrightarrow>
     sd_error s = None \<and> d_outstanding (snd (finalize_outstanding_claims (se_dispatch env) (sd_dispatch s))) = []"
  "sd_error s = Some e \<Longrightarrow> sd_error (finalize_claims env s) = Some e"
  by (auto simp: finalize_claims_def finalize_outstanding_claims_def Let_def outstanding_claim_count_def
      hm_len_def split: sum.splits prod.splits if_splits)

lemma finish_adapters_fields:
  "sd_event_tasks (finish_adapters env ids s) = sd_event_tasks s"
  "sd_adapter_tasks (finish_adapters env ids s) = []"
  "sd_error (finish_adapters env ids s) = None \<longleftrightarrow>
     sd_error s = None \<and> length (sd_adapter_tasks s) \<le> se_adapters_in_time env \<and>
     (\<forall>j\<in>set (sd_adapter_tasks s). \<exists>a. j = Adapter_Joined a (Inr ()))"
  "sd_error s = Some e \<Longrightarrow> sd_error (finish_adapters env ids s) = Some e"
  using finish_adapter_tasks_ok [of "se_adapters_in_time env" "sd_adapter_tasks s"]
    finish_adapter_tasks_empty [of "se_adapters_in_time env" "sd_adapter_tasks s"]
  by (cases "finish_adapter_tasks (se_adapters_in_time env) (sd_adapter_tasks s)";
      auto simp: finish_adapters_def Let_def split: prod.splits)+

lemma report_phase_fields:
  "sd_event_tasks (report_phase s) = sd_event_tasks s"
  "sd_adapter_tasks (report_phase s) = sd_adapter_tasks s"
  "sd_error (report_phase s) = sd_error s"
  "observer_phase (d_observer (sd_dispatch (report_phase s))) =
     (if sd_error s = None then Phase_Stopped else Phase_Failed)"
  by (simp_all add: report_phase_def observe_def)

lemmas shutdown_fields =
  finish_events_fields(1,2) stop_recovery_fields(1-3,5) finalize_claims_fields(1-3)
  finish_adapters_fields(1-3) report_phase_fields

definition all_event_tasks_ended :: "('j, 'w) shutdown_env \<Rightarrow> event_join list \<Rightarrow> bool" where
  "all_event_tasks_ended env js \<longleftrightarrow> length js \<le> se_events_in_time env \<and> Event_Panicked \<notin> set js"

definition all_adapter_tasks_ended :: "('j, 'w) shutdown_env \<Rightarrow> adapter_join list \<Rightarrow> bool" where
  "all_adapter_tasks_ended env js \<longleftrightarrow>
     length js \<le> se_adapters_in_time env \<and> (\<forall>j\<in>set js. \<exists>a. j = Adapter_Joined a (Inr ()))"

lemma finish_phase:
  "observer_phase (d_observer (sd_dispatch (snd (runtime_finish env ids s)))) =
     (if fst (runtime_finish env ids s) = Inr () then Phase_Stopped else Phase_Failed)"
  by (simp add: runtime_finish_def Let_def report_phase_fields split: option.splits)

text \<open>How a run ends, exactly: \<open>finish\<close> succeeds iff no error came before it, all event tasks and all
  adapter tasks ended well within their deadlines, the recovery supervisor confirmed its stop, and no
  claim is outstanding after the finalization. An error that came before it is the one reported. The
  phase is \<open>Stopped\<close> after a success and \<open>Failed\<close> after an error, and in every case no task is left.\<close>

theorem runtime_finish_outcome:
  "let (res, s') = runtime_finish env ids s;
       d = se_recovery_work env (se_event_work env (observe (set_phase Phase_ShuttingDown) (sd_dispatch s)))
   in (res = Inr () \<longleftrightarrow> sd_error s = None \<and> all_event_tasks_ended env (sd_event_tasks s) \<and>
          all_adapter_tasks_ended env (sd_adapter_tasks s) \<and> se_stop env = Stop_Confirmed \<and>
          d_outstanding (snd (finalize_outstanding_claims (se_dispatch env) d)) = []) \<and>
      (case sd_error s of None \<Rightarrow> True | Some e \<Rightarrow> res = Inl e) \<and>
      sd_event_tasks s' = [] \<and> sd_adapter_tasks s' = [] \<and>
      observer_phase (d_observer (sd_dispatch s')) = (if res = Inr () then Phase_Stopped else Phase_Failed)"
proof -
  let ?s0 = "s\<lparr>sd_dispatch := observe (set_phase Phase_ShuttingDown) (sd_dispatch s)\<rparr>"
  let ?s1 = "finish_events env ?s0"
  let ?s2 = "stop_recovery env ?s1" let ?s3 = "finalize_claims env ?s2"
  let ?s4 = "finish_adapters env ids ?s3"
  have tasks: "sd_error ?s1 = None \<Longrightarrow> sd_adapter_tasks ?s1 = sd_adapter_tasks s"
    using finish_events_fields(4) [of env ?s0] by simp
  have ok: "sd_error ?s4 = None \<longleftrightarrow> sd_error s = None \<and> all_event_tasks_ended env (sd_event_tasks s) \<and>
      all_adapter_tasks_ended env (sd_adapter_tasks s) \<and> se_stop env = Stop_Confirmed \<and>
      d_outstanding (snd (finalize_outstanding_claims (se_dispatch env) (sd_dispatch ?s2))) = []"
    using tasks by (auto simp: shutdown_fields all_event_tasks_ended_def all_adapter_tasks_ended_def)
  have first: "sd_error s = Some e \<Longrightarrow> sd_error ?s4 = Some e" for e
    by (simp add: finish_adapters_fields(4) finalize_claims_fields(4) stop_recovery_fields(4) finish_events_fields(3))
  have d: "sd_dispatch ?s2 = se_recovery_work env (se_event_work env (observe (set_phase Phase_ShuttingDown) (sd_dispatch s)))"
    by (simp add: stop_recovery_fields finish_events_fields)
  have "fst (runtime_finish env ids s) = (case sd_error ?s4 of None \<Rightarrow> Inr () | Some err \<Rightarrow> Inl err)"
    and s': "snd (runtime_finish env ids s) = report_phase ?s4"
    by (simp_all add: runtime_finish_def Let_def report_phase_fields)
  then show ?thesis
    using ok [unfolded d] first
    by (cases "sd_error ?s4")
       (auto simp: case_prod_beta Let_def s' report_phase_fields shutdown_fields split: option.splits)
qed

text \<open>A run gives its observer back: when \<open>Runtime::run\<close> has returned, the observer is free for the next
  run and its phase is \<open>Stopped\<close> or \<open>Failed\<close>, as the result says, unless the run was refused
  because another one was active, which leaves the observer untouched.\<close>

theorem runtime_run_observer:
  assumes "runtime_run env rt w ob = (Some res, ob')"
  shows "if active_run ob then res = Inl RT_ObserverInUse \<and> ob' = ob
    else \<not> active_run ob' \<and>
      observer_phase ob' = (if res = Inr () then Phase_Stopped else Phase_Failed)"
proof -
  let ?ids = "map adapter_id_of (rt_adapters rt)"
  show ?thesis
  proof (cases "active_run ob")
    case True
    with assms show ?thesis by (simp add: runtime_run_def begin_run_def)
  next
    case False
    let ?ob2 = "set_phase Phase_Running (set_phase Phase_Starting
        (configure (rt_queue_capacity rt) ?ids (ob\<lparr>active_run := True\<rparr>)))"
    obtain r st where r: "dispatcher_run (rt_queue_capacity rt) ?ids (re_branches env) (re_joins env) (re_queued env)
        (initial_loop_state ?ids ?ob2) = (r, st)" by fastforce
    from assms False r obtain err b where "r = Some (err, b)"
      by (cases r) (auto simp: runtime_run_def begin_run_def Let_def)
    let ?s = "\<lparr>sd_event_tasks = re_event_tasks env, sd_adapter_tasks = re_adapter_tasks env,
        sd_dispatch = re_work env (new_dispatch w (ps_observer (lp_parts st))), sd_error = err\<rparr>"
    obtain res' s' where f: "runtime_finish (re_shutdown env) ?ids ?s = (res', s')" by fastforce
    with assms False r \<open>r = Some (err, b)\<close> have "res = res'" "ob' = end_run (d_observer (sd_dispatch s'))"
      by (simp_all add: runtime_run_def begin_run_def Let_def)
    moreover have "observer_phase (d_observer (sd_dispatch s')) = (if res' = Inr () then Phase_Stopped else Phase_Failed)"
      using finish_phase [of "re_shutdown env" ?ids ?s] by (simp add: f)
    ultimately show ?thesis using False by (auto simp: end_run_def Let_def)
  qed
qed

definition demo_run_env :: "(unit, nat) run_env" where
  "demo_run_env = \<lparr>re_branches = [B_Shutdown, B_Adapter (Adapter_Joined (lit ''a'') (Inr ()))],
     re_joins = [], re_queued = [], re_work = id, re_event_tasks = [], re_adapter_tasks = [],
     re_shutdown = \<lparr>se_dispatch = demo_env 9 (Answered (Inr ())) (Answered (Inr ())), se_events_in_time = 0,
       se_adapters_in_time = 0, se_event_work = id, se_recovery_work = id, se_stop = Stop_Confirmed\<rparr>\<rparr>"

definition demo_runtime :: "(unit, nat) runtime" where
  "demo_runtime = \<lparr>rt_queue_capacity = 1, rt_handler_timeout = 1, rt_shutdown_timeout = 1,
     rt_event_concurrency = 1,
     rt_adapters = [\<lparr>adapter_id_of = lit ''a'', platform_of = [], execute = (\<lambda>_ w. (Inl AE_EventQueueClosed, w))\<rparr>],
     rt_handlers = []\<rparr>"

lemma demo_run_result: "fst (runtime_run demo_run_env demo_runtime 0 new_observer) = Some (Inr ())"
  by (simp add: runtime_run_def demo_run_env_def demo_runtime_def begin_run_def new_observer_def Let_def
      dispatcher_run_def prepare_shutdown_def initial_loop_state_def join_adapter_task_def
      runtime_finish_def finish_events_def stop_recovery_def finalize_claims_def finish_adapters_def
      report_phase_def finalize_outstanding_claims_def outstanding_claim_count_def new_dispatch_def
      observe_def hm_len_def split: prod.splits)

lemma runtime_run_observer_witness:
  "\<not> active_run (snd (runtime_run demo_run_env demo_runtime 0 new_observer)) \<and>
   observer_phase (snd (runtime_run demo_run_env demo_runtime 0 new_observer)) = Phase_Stopped"
proof -
  obtain ob' where r: "runtime_run demo_run_env demo_runtime 0 new_observer = (Some (Inr ()), ob')"
    using demo_run_result by (cases "runtime_run demo_run_env demo_runtime 0 new_observer") simp
  have "\<not> active_run new_observer" by (simp add: new_observer_def)
  with runtime_run_observer [OF r] show ?thesis by (simp add: r)
qed

end
