(* ===== verification/Supervisor.thy ===== *)
theory Supervisor
  imports Dispatch "HOL-Library.Multiset"
begin

text \<open>
  The recovery supervisor (\<open>crates/bot-core/src/runtime.rs\<close>: \<open>run_recovery_supervisor\<close>): it receives claims
  whose task was torn down, runs at most \<open>MAX_CONCURRENT_DEDUP_FINALIZATIONS\<close> recoveries at a time,
  schedules a claim again when its recovery asks for it, and stops on command or when all senders are
  gone. The effect of one recovery is \<open>recover_cancelled_claim\<close> of theory \<open>Dispatch\<close>; here it is the event
  that its task ends with an answer or panics.
\<close>

section \<open>The loop\<close>

definition max_concurrent_finalizations :: nat where "max_concurrent_finalizations = 32"

text \<open>The running recovery tasks are the list of their claims; \<open>sv_started\<close> logs the starts.\<close>

record supervisor =
  sv_scheduled :: "dedup_claim set"
  sv_pending :: "dedup_claim list"
  sv_running :: "dedup_claim list"
  sv_open :: bool
  sv_stopped :: bool
  sv_started :: "dedup_claim list"

datatype supervisor_event =
    Sv_Recover dedup_claim
  | Sv_Shutdown
  | Sv_Closed
  | Sv_Recovered nat bool
  | Sv_Panicked nat

definition new_supervisor :: supervisor where
  "new_supervisor = \<lparr>sv_scheduled = {}, sv_pending = [], sv_running = [], sv_open = True,
     sv_stopped = False, sv_started = []\<rparr>"

text \<open>The loop at the head of an iteration: start recoveries while there is room.\<close>

function start_recoveries :: "supervisor \<Rightarrow> supervisor" where
  "start_recoveries sv =
     (if length (sv_running sv) < max_concurrent_finalizations
      then
        (case sv_pending sv of
           [] \<Rightarrow> sv
         | c # cs \<Rightarrow>
             start_recoveries (sv\<lparr>sv_pending := cs, sv_running := sv_running sv @ [c],
                                   sv_started := sv_started sv @ [c]\<rparr>))
      else sv)"
  by pat_completeness auto

termination
  by (relation "measure (\<lambda>sv. length (sv_pending sv))") auto

declare start_recoveries.simps [simp del]

definition remove_at :: "nat \<Rightarrow> 'a list \<Rightarrow> 'a list" where
  "remove_at n xs = take n xs @ drop (Suc n) xs"

text \<open>One pass of the \<open>select!\<close>. A branch whose precondition is false does not fire. A recovery task that
  panicked is joined with an error, on which the supervisor does nothing.\<close>

fun supervisor_select :: "supervisor_event \<Rightarrow> supervisor \<Rightarrow> supervisor" where
  "supervisor_select (Sv_Recover c) sv =
     (if \<not> sv_open sv then sv
      else if c \<in> sv_scheduled sv then sv
      else sv\<lparr>sv_scheduled := insert c (sv_scheduled sv), sv_pending := sv_pending sv @ [c]\<rparr>)"
| "supervisor_select Sv_Shutdown sv =
     (if \<not> sv_open sv then sv else sv\<lparr>sv_running := [], sv_stopped := True\<rparr>)"
| "supervisor_select Sv_Closed sv = sv\<lparr>sv_open := False\<rparr>"
| "supervisor_select (Sv_Recovered n retryable) sv =
     (if length (sv_running sv) \<le> n then sv
      else
        (let c = sv_running sv ! n; sv' = sv\<lparr>sv_running := remove_at n (sv_running sv)\<rparr>
         in if retryable then sv'\<lparr>sv_pending := sv_pending sv @ [c]\<rparr>
            else sv'\<lparr>sv_scheduled := sv_scheduled sv - {c}\<rparr>))"
| "supervisor_select (Sv_Panicked n) sv =
     (if length (sv_running sv) \<le> n then sv else sv\<lparr>sv_running := remove_at n (sv_running sv)\<rparr>)"

definition supervisor_done :: "supervisor \<Rightarrow> bool" where
  "supervisor_done sv \<longleftrightarrow> \<not> sv_open sv \<and> sv_pending sv = [] \<and> sv_running sv = []"

definition supervisor_step :: "supervisor_event \<Rightarrow> supervisor \<Rightarrow> supervisor" where
  "supervisor_step ev sv =
     (if sv_stopped sv then sv
      else
        (let sv1 = start_recoveries sv
         in if supervisor_done sv1 then sv1\<lparr>sv_stopped := True\<rparr>
            else supervisor_select ev sv1))"

definition run_supervisor :: "supervisor_event list \<Rightarrow> supervisor" where
  "run_supervisor evs = foldl (\<lambda>sv ev. supervisor_step ev sv) new_supervisor evs"

section \<open>The bookkeeping of claims\<close>

text \<open>Pending and running claims are pairwise different and all scheduled.\<close>

definition supervisor_inv :: "supervisor \<Rightarrow> bool" where
  "supervisor_inv sv \<longleftrightarrow>
     distinct (sv_pending sv @ sv_running sv) \<and>
     set (sv_pending sv) \<union> set (sv_running sv) \<subseteq> sv_scheduled sv \<and>
     length (sv_running sv) \<le> max_concurrent_finalizations"

lemma start_recoveries_fields:
  "sv_scheduled (start_recoveries sv) = sv_scheduled sv \<and> sv_open (start_recoveries sv) = sv_open sv \<and>
   sv_stopped (start_recoveries sv) = sv_stopped sv \<and>
   mset (sv_pending (start_recoveries sv) @ sv_running (start_recoveries sv)) =
     mset (sv_pending sv @ sv_running sv)"
proof (induction sv rule: start_recoveries.induct)
  case (1 sv)
  then show ?case
    by (subst (1 2 3 4 5) start_recoveries.simps)
       (auto simp: start_recoveries.simps [of sv] split: list.splits)
qed

lemma start_recoveries_room:
  "length (sv_running sv) \<le> max_concurrent_finalizations \<Longrightarrow>
   length (sv_running (start_recoveries sv)) \<le> max_concurrent_finalizations \<and>
   (sv_pending (start_recoveries sv) = [] \<or>
    length (sv_running (start_recoveries sv)) = max_concurrent_finalizations)"
proof (induction sv rule: start_recoveries.induct)
  case (1 sv)
  then show ?case by (auto simp: start_recoveries.simps [of sv] split: list.splits)
qed

lemma mset_distinct_set:
  "mset xs = mset ys \<Longrightarrow> distinct xs = distinct ys \<and> set xs = set ys"
  by (metis mset_eq_imp_distinct_iff mset_eq_setD)

lemma supervisor_inv_start: "supervisor_inv sv \<Longrightarrow> supervisor_inv (start_recoveries sv)"
proof -
  assume inv: "supervisor_inv sv"
  from start_recoveries_fields [of sv]
  have "distinct (sv_pending (start_recoveries sv) @ sv_running (start_recoveries sv)) =
      distinct (sv_pending sv @ sv_running sv)"
    and "set (sv_pending (start_recoveries sv) @ sv_running (start_recoveries sv)) =
      set (sv_pending sv @ sv_running sv)"
    using mset_distinct_set by blast+
  with inv start_recoveries_fields [of sv] start_recoveries_room [of sv] show ?thesis
    unfolding supervisor_inv_def by (metis set_append)
qed

lemma remove_at_split: "n < length xs \<Longrightarrow> xs = take n xs @ xs ! n # drop (Suc n) xs"
  by (rule id_take_nth_drop)

lemma remove_at_facts:
  assumes "n < length xs" "distinct xs"
  shows "distinct (remove_at n xs)" "set (remove_at n xs) = set xs - {xs ! n}" "length (remove_at n xs) = length xs - 1"
proof -
  obtain a b where xs: "xs = a @ xs ! n # b" and r: "remove_at n xs = a @ b"
    using remove_at_split [OF assms(1)] unfolding remove_at_def by blast
  from assms(2) have d: "distinct (a @ xs ! n # b)" using xs by metis
  then show "distinct (remove_at n xs)" by (simp add: r)
  have "set xs = set (a @ xs ! n # b)" using xs by metis
  with d show "set (remove_at n xs) = set xs - {xs ! n}" by (auto simp: r)
  have "length xs = length (a @ xs ! n # b)" using xs by metis
  then show "length (remove_at n xs) = length xs - 1" by (simp add: r)
qed

lemma supervisor_inv_select: "supervisor_inv sv \<Longrightarrow> supervisor_inv (supervisor_select ev sv)"
proof (cases ev)
  case (Sv_Recovered n retryable)
  assume inv: "supervisor_inv sv"
  show ?thesis
  proof (cases "n < length (sv_running sv)")
    case True
    have "sv_running sv ! n \<in> set (sv_running sv)" using True by simp
    then show ?thesis
      using inv remove_at_facts [OF True] True Sv_Recovered
      by (auto simp: supervisor_inv_def Let_def)
  qed (use inv Sv_Recovered in simp)
next
  case (Sv_Panicked n)
  assume "supervisor_inv sv"
  then show ?thesis
    using remove_at_facts [of n "sv_running sv"] Sv_Panicked
    by (cases "n < length (sv_running sv)") (auto simp: supervisor_inv_def)
qed (auto simp: supervisor_inv_def)

lemma supervisor_inv_step: "supervisor_inv sv \<Longrightarrow> supervisor_inv (supervisor_step ev sv)"
  using supervisor_inv_start [of sv] supervisor_inv_select [of "start_recoveries sv" ev]
  by (auto simp: supervisor_step_def Let_def) (auto simp: supervisor_inv_def)

lemma supervisor_inv_run: "supervisor_inv (run_supervisor evs)"
proof (induction evs rule: rev_induct)
  case Nil
  show ?case by (simp add: run_supervisor_def supervisor_inv_def new_supervisor_def max_concurrent_finalizations_def)
next
  case (snoc ev evs)
  then show ?case by (simp add: run_supervisor_def supervisor_inv_step)
qed

lemma start_recoveries_sets:
  "set (sv_pending (start_recoveries sv)) \<union> set (sv_running (start_recoveries sv)) =
   set (sv_pending sv) \<union> set (sv_running sv)"
  using start_recoveries_fields [of sv] mset_distinct_set by (metis set_append)

fun is_panic :: "supervisor_event \<Rightarrow> bool" where
  "is_panic (Sv_Panicked _) = True"
| "is_panic _ = False"

lemma supervisor_exact_step:
  assumes inv: "supervisor_inv sv" and exact: "sv_scheduled sv = set (sv_pending sv) \<union> set (sv_running sv)"
    and ev: "\<not> is_panic ev" and live: "\<not> sv_stopped (supervisor_step ev sv)"
  shows "sv_scheduled (supervisor_step ev sv) =
    set (sv_pending (supervisor_step ev sv)) \<union> set (sv_running (supervisor_step ev sv))"
proof -
  let ?sv = "start_recoveries sv"
  note inv' = supervisor_inv_start [OF inv]
  have exact': "sv_scheduled ?sv = set (sv_pending ?sv) \<union> set (sv_running ?sv)"
    using exact start_recoveries_fields [of sv] start_recoveries_sets [of sv] by simp
  from live have step: "supervisor_step ev sv = supervisor_select ev ?sv"
    by (auto simp: supervisor_step_def Let_def split: if_splits)
  have live': "\<not> sv_stopped (supervisor_select ev ?sv)" using live unfolding step .
  show ?thesis
  proof (unfold step, cases ev)
    case (Sv_Recovered n retryable)
    show "sv_scheduled (supervisor_select ev ?sv) =
      set (sv_pending (supervisor_select ev ?sv)) \<union> set (sv_running (supervisor_select ev ?sv))"
    proof (cases "n < length (sv_running ?sv)")
      case True
      from inv' have d: "distinct (sv_running ?sv)" "set (sv_pending ?sv) \<inter> set (sv_running ?sv) = {}"
        by (auto simp: supervisor_inv_def)
      have "sv_running ?sv ! n \<in> set (sv_running ?sv)" using True by simp
      then show ?thesis
        using True Sv_Recovered d remove_at_facts(2) [OF True d(1)] exact'
        by (auto simp: Let_def)
    qed (use exact' Sv_Recovered in simp)
  qed (use ev exact' live' in \<open>auto split: if_splits\<close>)
qed

lemma run_supervisor_snoc [simp]: "run_supervisor (evs @ [ev]) = supervisor_step ev (run_supervisor evs)"
  by (simp add: run_supervisor_def)

lemma supervisor_stopped_stays: "sv_stopped sv \<Longrightarrow> supervisor_step ev sv = sv"
  by (simp add: supervisor_step_def)


definition demo_recovery_claim :: "nat \<Rightarrow> dedup_claim" where
  "demo_recovery_claim n = \<lparr>claim_key = \<lparr>dk_adapter = [n], dk_event = [n]\<rparr>, claim_token = n\<rparr>"


text \<open>A claim that is scheduled but neither pending nor in recovery stays so.\<close>

definition stranded :: "dedup_claim \<Rightarrow> supervisor \<Rightarrow> bool" where
  "stranded c sv \<longleftrightarrow> c \<in> sv_scheduled sv \<and> c \<notin> set (sv_pending sv) \<and> c \<notin> set (sv_running sv)"

lemma start_recoveries_stranded:
  "stranded c sv \<Longrightarrow> stranded c (start_recoveries sv) \<and>
   count_list (sv_started (start_recoveries sv)) c = count_list (sv_started sv) c"
proof (induction sv rule: start_recoveries.induct)
  case (1 sv)
  then show ?case
    by (auto simp: start_recoveries.simps [of sv] stranded_def split: list.splits)
qed

lemma select_stranded:
  assumes "stranded c sv"
  shows "stranded c (supervisor_select ev sv) \<and> sv_started (supervisor_select ev sv) = sv_started sv"
proof (cases ev)
  case (Sv_Recovered n retryable)
  with assms show ?thesis
    using nth_mem [of n "sv_running sv"]
    by (auto simp: stranded_def Let_def remove_at_def dest: in_set_takeD in_set_dropD)
next
  case (Sv_Panicked n)
  with assms show ?thesis
    by (auto simp: stranded_def remove_at_def dest: in_set_takeD in_set_dropD)
qed (use assms in \<open>auto simp: stranded_def\<close>)

lemma step_stranded:
  "stranded c sv \<Longrightarrow> stranded c (supervisor_step ev sv) \<and>
   count_list (sv_started (supervisor_step ev sv)) c = count_list (sv_started sv) c"
  using start_recoveries_stranded [of c sv] select_stranded [of c "start_recoveries sv" ev]
  by (auto simp: supervisor_step_def Let_def) (auto simp: stranded_def)

text \<open>[C38] What a panicking recovery costs: when the recovery of a claim panics, the claim stays scheduled
  although nothing will run for it, so that every later request to recover it is ignored: whatever
  events follow, no further recovery of it is ever started by the supervisor. (The finalization at
  shutdown still sees the claim.)\<close>

theorem supervisor_panic_strands:
  assumes "n < length (sv_running (start_recoveries (run_supervisor evs)))"
    and "\<not> sv_stopped (run_supervisor evs)" "c = sv_running (start_recoveries (run_supervisor evs)) ! n"
  shows "count_list (sv_started (run_supervisor (evs @ Sv_Panicked n # later))) c =
    count_list (sv_started (start_recoveries (run_supervisor evs))) c"
proof -
  let ?sv = "start_recoveries (run_supervisor evs)"
  have inv: "supervisor_inv ?sv" by (simp add: supervisor_inv_start supervisor_inv_run)
  then have d: "distinct (sv_running ?sv)" "set (sv_pending ?sv) \<inter> set (sv_running ?sv) = {}"
      "set (sv_running ?sv) \<subseteq> sv_scheduled ?sv"
    by (auto simp: supervisor_inv_def)
  have c: "c \<in> set (sv_running ?sv)" using assms(1,3) by simp
  have "\<not> supervisor_done ?sv" using assms(1) by (auto simp: supervisor_done_def)
  then have step: "supervisor_step (Sv_Panicked n) (run_supervisor evs) = ?sv\<lparr>sv_running := remove_at n (sv_running ?sv)\<rparr>"
    using assms(1,2) by (simp add: supervisor_step_def Let_def)
  then have "stranded c (run_supervisor (evs @ [Sv_Panicked n]))"
    using d c remove_at_facts(2) [OF assms(1) d(1)] assms(3) unfolding run_supervisor_snoc step
    by (auto simp: stranded_def)
  then have "stranded c (run_supervisor ((evs @ [Sv_Panicked n]) @ later)) \<and>
    count_list (sv_started (run_supervisor ((evs @ [Sv_Panicked n]) @ later))) c =
      count_list (sv_started (run_supervisor (evs @ [Sv_Panicked n]))) c"
  proof (induction later rule: rev_induct)
    case (snoc ev later)
    then show ?case
      using step_stranded [of c "run_supervisor ((evs @ [Sv_Panicked n]) @ later)" ev]
      by (simp flip: append_assoc)
  qed simp
  then show ?thesis by (simp add: step)
qed

lemma supervisor_panic_strands_witness:
  "count_list (sv_started (run_supervisor ([Sv_Recover (demo_recovery_claim 5)] @ Sv_Panicked 0 #
     [Sv_Recover (demo_recovery_claim 5), Sv_Recover (demo_recovery_claim 5)]))) (demo_recovery_claim 5) = 1"
proof -
  have start: "start_recoveries (run_supervisor [Sv_Recover (demo_recovery_claim 5)]) =
     \<lparr>sv_scheduled = {demo_recovery_claim 5}, sv_pending = [], sv_running = [demo_recovery_claim 5],
      sv_open = True, sv_stopped = False, sv_started = [demo_recovery_claim 5]\<rparr>"
    and live: "\<not> sv_stopped (run_supervisor [Sv_Recover (demo_recovery_claim 5)])"
    by (simp_all add: run_supervisor_def new_supervisor_def supervisor_step_def supervisor_done_def Let_def
        start_recoveries.simps max_concurrent_finalizations_def)
  show ?thesis
    using supervisor_panic_strands [of 0 "[Sv_Recover (demo_recovery_claim 5)]" "demo_recovery_claim 5",
        OF _ live]
    by (simp add: start del: append_Cons append_Nil)
qed

end
