(* ===== verification/PluginManifest.thy ===== *)
theory PluginManifest
  imports Containers "HOL-Library.Sublist"
begin

text \<open>
  Plugin identifiers and plugin manifests (\<open>crates/plugin-api/src/id.rs\<close> and \<open>manifest.rs\<close>): what a
  manifest may declare, and which capabilities it requests. The TOML reader, the \<open>semver\<close> crate, the host
  parser of the \<open>url\<close> crate and the \<open>language_tags\<close> crate are parameters (record \<open>manifest_libs\<close>). A
  \<open>BTreeSet\<close> of strings is the list of its elements in its order.
\<close>

section \<open>Plugin identifiers\<close>

datatype plugin_id_error =
    PI_InvalidLength
  | PI_NonAscii
  | PI_TooFewSegments
  | PI_InvalidSegment ustr

definition ch_dot :: nat where "ch_dot = 46"
definition ch_slash :: nat where "ch_slash = 47"
definition ch_underscore :: nat where "ch_underscore = 95"
definition ch_minus :: nat where "ch_minus = 45"

lemmas path_chars = ch_dot_def ch_slash_def ch_underscore_def ch_minus_def

definition id_start :: "nat \<Rightarrow> bool" where
  "id_start c \<longleftrightarrow> is_ascii_lowercase c \<or> is_ascii_digit c"

definition id_continue :: "nat \<Rightarrow> bool" where
  "id_continue c \<longleftrightarrow> is_ascii_lowercase c \<or> is_ascii_digit c \<or> c = ch_underscore \<or> c = ch_minus"

fun valid_segment :: "ustr \<Rightarrow> bool" where
  "valid_segment [] = False"
| "valid_segment (c # cs) = (id_start c \<and> list_all id_continue cs)"

fun check_segments :: "ustr list \<Rightarrow> plugin_id_error option" where
  "check_segments [] = None"
| "check_segments (s # ss) = (if valid_segment s then check_segments ss else Some (PI_InvalidSegment s))"

definition new_plugin_id :: "ustr \<Rightarrow> plugin_id_error + ustr" where
  "new_plugin_id v =
     (if \<not> list_all is_ascii v then Inl PI_NonAscii
      else if \<not> (5 \<le> blen v \<and> blen v \<le> 128) then Inl PI_InvalidLength
      else
        (let segments = split_char ch_dot v
         in if length segments < 3 then Inl PI_TooFewSegments
            else (case check_segments segments of Some err \<Rightarrow> Inl err | None \<Rightarrow> Inr v)))"

section \<open>Manifest data\<close>

datatype runtime_mode = Mode_Serial | Mode_Partitioned

record plugin_runtime_config =
  rc_mode :: runtime_mode
  rc_max_concurrency :: u32
  rc_timeout_ms :: u64
  rc_memory_mb :: u32
  rc_fuel :: u64

definition default_runtime_config :: plugin_runtime_config where
  "default_runtime_config = \<lparr>rc_mode = Mode_Serial, rc_max_concurrency = 1, rc_timeout_ms = 3000,
     rc_memory_mb = 64, rc_fuel = 10000000\<rparr>"

record subscription =
  sub_id :: ustr
  sub_event :: ustr
  sub_priority :: int
  sub_scopes :: "ustr list"

record command_declaration =
  cd_name :: ustr
  cd_aliases :: "ustr list"
  cd_description :: ustr

record browser_permission =
  bp_scheme :: ustr
  bp_host :: ustr
  bp_port :: u16
  bp_path_prefixes :: "ustr list"
  bp_capabilities :: "ustr list"

record http_permission =
  hp_host :: ustr
  hp_port :: u16
  hp_methods :: "ustr list"
  hp_path_prefixes :: "ustr list"
  hp_credential :: "ustr option"

datatype storage_permission = Storage_None | Storage_Private

record plugin_permissions =
  pp_actions :: "ustr list"
  pp_event_extensions :: "ustr list"
  pp_http :: "http_permission list"
  pp_browser :: "browser_permission list"
  pp_storage :: storage_permission
  pp_storage_quota :: u64
  pp_scheduler :: bool
  pp_stop_propagation :: bool

record localized_metadata =
  lm_name :: ustr
  lm_description :: ustr

record plugin_metadata =
  md_default_locale :: ustr
  md_locales :: "(ustr, localized_metadata) btmap"

record plugin_manifest =
  mf_manifest_version :: u32
  mf_id :: ustr
  mf_metadata :: plugin_metadata
  mf_version :: ustr
  mf_protocol :: ustr
  mf_state_version :: u32
  mf_entry :: ustr
  mf_runtime :: plugin_runtime_config
  mf_subscriptions :: "subscription list"
  mf_commands :: "command_declaration list"
  mf_permissions :: plugin_permissions

datatype manifest_error =
    ME_Toml
  | ME_UnsupportedManifestVersion u32
  | ME_PluginVersion
  | ME_ProtocolRequirement
  | ME_IncompatibleProtocol ustr
  | ME_FeatureRequiresProtocol11
  | ME_ZeroConcurrency
  | ME_ExcessiveConcurrency u32
  | ME_InvalidTimeout u64
  | ME_InvalidMemoryLimit u32
  | ME_InvalidFuelLimit u64
  | ME_InvalidStorageQuota u64
  | ME_InvalidEntry ustr
  | ME_InvalidSubscription
  | ME_DuplicateSubscription ustr
  | ME_DuplicateCommand ustr
  | ME_InvalidHttpPermission
  | ME_InvalidBrowserPermission
  | ME_UnsupportedAction ustr
  | ME_InvalidMetadata

text \<open>The older form of a manifest, with one name and one description.\<close>

record legacy_plugin_manifest =
  lg_manifest_version :: u32
  lg_id :: ustr
  lg_name :: ustr
  lg_version :: ustr
  lg_protocol :: ustr
  lg_state_version :: u32
  lg_description :: ustr
  lg_entry :: ustr
  lg_runtime :: plugin_runtime_config
  lg_subscriptions :: "subscription list"
  lg_commands :: "command_declaration list"
  lg_permissions :: plugin_permissions

text \<open>The display texts inside \<open>InvalidHttpPermission\<close>, \<open>InvalidBrowserPermission\<close> and \<open>InvalidMetadata\<close>
  are left out. \<open>ml_host\<close> is \<open>Host::parse\<close>, \<open>None\<close> where it fails; \<open>ml_locale\<close> is parsing a language tag
  and printing it again.\<close>

datatype parsed_host = Host_Domain ustr | Host_Ip

record 'r manifest_libs =
  ml_version_ok :: "ustr \<Rightarrow> bool"
  ml_requirement :: "ustr \<Rightarrow> 'r option"
  ml_comparators :: "'r \<Rightarrow> (nat \<times> nat option \<times> nat option) list"
  ml_matches :: "'r \<Rightarrow> nat \<times> nat \<times> nat \<Rightarrow> bool"
  ml_host :: "ustr \<Rightarrow> parsed_host option"
  ml_locale :: "ustr \<Rightarrow> ustr option"

section \<open>Hosts and paths\<close>

definition has_dns_suffix :: "ustr \<Rightarrow> ustr \<Rightarrow> bool" where
  "has_dns_suffix host suf \<longleftrightarrow>
     host = suf \<or> (case strip_suffix suf host of None \<Rightarrow> False | Some p \<Rightarrow> ends_with [ch_dot] p)"

definition dot_segment :: "ustr \<Rightarrow> bool" where
  "dot_segment s \<longleftrightarrow> s = [ch_dot] \<or> s = [ch_dot, ch_dot]"

text \<open>The characters \<open>?\<close>, \<open>#\<close>, \<open>%\<close> and the backslash.\<close>

definition path_special :: "nat \<Rightarrow> bool" where
  "path_special c \<longleftrightarrow> c = 63 \<or> c = 35 \<or> c = 37 \<or> c = 92"

definition unsafe_path :: "ustr \<Rightarrow> bool" where
  "unsafe_path p \<longleftrightarrow> list_ex path_special p \<or> list_ex dot_segment (split_char ch_slash p)"

definition url_path_matches_prefix :: "ustr \<Rightarrow> ustr \<Rightarrow> bool" where
  "url_path_matches_prefix path pre \<longleftrightarrow>
     \<not> unsafe_path path \<and>
     (pre = [ch_slash] \<or> path = pre \<or>
      (starts_with pre path \<and>
       (ends_with [ch_slash] pre \<or> (length pre < length path \<and> path ! length pre = ch_slash))))"

definition valid_prefix :: "ustr \<Rightarrow> bool" where
  "valid_prefix p \<longleftrightarrow> starts_with [ch_slash] p \<and> blen p \<le> 2048 \<and> \<not> unsafe_path p"

definition validate_public_host_and_paths :: "'r manifest_libs \<Rightarrow> ustr \<Rightarrow> u16 \<Rightarrow> ustr list \<Rightarrow> bool" where
  "validate_public_host_and_paths L host port pres \<longleftrightarrow>
     (case ml_host L host of
        Some (Host_Domain normalized) \<Rightarrow>
          normalized = host \<and>
          \<not> has_dns_suffix normalized (lit ''localhost'') \<and>
          \<not> has_dns_suffix normalized (lit ''local'') \<and>
          \<not> has_dns_suffix normalized (lit ''internal'') \<and>
          \<not> has_dns_suffix normalized (lit ''home.arpa'') \<and>
          port \<noteq> 0 \<and> pres \<noteq> [] \<and> list_all valid_prefix pres
      | _ \<Rightarrow> False)"

section \<open>Permissions\<close>

definition is_valid_http_credential_name :: "ustr \<Rightarrow> bool" where
  "is_valid_http_credential_name n \<longleftrightarrow>
     n \<noteq> [] \<and> blen n \<le> 64 \<and> \<not> starts_with [ch_underscore] n \<and> \<not> ends_with [ch_underscore] n \<and>
     list_all (\<lambda>c. is_ascii_lowercase c \<or> is_ascii_digit c \<or> c = ch_underscore) n"

definition http_methods :: "ustr list" where
  "http_methods = map lit [''DELETE'', ''GET'', ''HEAD'', ''PATCH'', ''POST'', ''PUT'']"

definition max_http_permissions :: nat where "max_http_permissions = 32"
definition max_http_path_prefixes :: nat where "max_http_path_prefixes = 32"

definition http_permission_ok :: "'r manifest_libs \<Rightarrow> http_permission \<Rightarrow> bool" where
  "http_permission_ok L p \<longleftrightarrow>
     length (hp_path_prefixes p) \<le> max_http_path_prefixes \<and>
     validate_public_host_and_paths L (hp_host p) (hp_port p) (hp_path_prefixes p) \<and>
     hp_methods p \<noteq> [] \<and> list_all (\<lambda>m. m \<in> set http_methods) (hp_methods p) \<and>
     (case hp_credential p of None \<Rightarrow> True | Some n \<Rightarrow> is_valid_http_credential_name n)"

definition browser_operations :: "ustr list" where
  "browser_operations = map lit [''navigate'', ''interact'', ''extract_text'', ''screenshot'']"

definition browser_permission_ok :: "'r manifest_libs \<Rightarrow> browser_permission \<Rightarrow> bool" where
  "browser_permission_ok L p \<longleftrightarrow>
     bp_scheme p \<in> {lit ''http'', lit ''https''} \<and>
     validate_public_host_and_paths L (bp_host p) (bp_port p) (bp_path_prefixes p) \<and>
     bp_capabilities p \<noteq> [] \<and> list_all (\<lambda>c. c \<in> set browser_operations) (bp_capabilities p)"

definition http_permissions_have_credential_conflict :: "http_permission \<Rightarrow> http_permission \<Rightarrow> bool" where
  "http_permissions_have_credential_conflict p q \<longleftrightarrow>
     hp_host p = hp_host q \<and> hp_port p = hp_port q \<and> hp_credential p \<noteq> hp_credential q \<and>
     list_ex (\<lambda>m. m \<in> set (hp_methods q)) (hp_methods p) \<and>
     list_ex (\<lambda>pre. list_ex (\<lambda>other. url_path_matches_prefix pre other \<or> url_path_matches_prefix other pre)
               (hp_path_prefixes q)) (hp_path_prefixes p)"

fun no_credential_conflicts :: "http_permission list \<Rightarrow> bool" where
  "no_credential_conflicts [] = True"
| "no_credential_conflicts (p # ps) =
     (\<not> list_ex (http_permissions_have_credential_conflict p) ps \<and> no_credential_conflicts ps)"

definition validate_http_permissions :: "'r manifest_libs \<Rightarrow> http_permission list \<Rightarrow> bool" where
  "validate_http_permissions L ps \<longleftrightarrow>
     length ps \<le> max_http_permissions \<and> list_all (http_permission_ok L) ps \<and> no_credential_conflicts ps"

section \<open>Metadata\<close>

definition single_locale :: "ustr \<Rightarrow> ustr \<Rightarrow> ustr \<Rightarrow> plugin_metadata" where
  "single_locale locale name description =
     \<lparr>md_default_locale = locale,
      md_locales = [(locale, \<lparr>lm_name = name, lm_description = description\<rparr>)]\<rparr>"

definition is_canonical_locale :: "'r manifest_libs \<Rightarrow> ustr \<Rightarrow> bool" where
  "is_canonical_locale L locale \<longleftrightarrow> ml_locale L locale = Some locale"

definition localized_ok :: "'r manifest_libs \<Rightarrow> ustr \<times> localized_metadata \<Rightarrow> bool" where
  "localized_ok L p \<longleftrightarrow>
     is_canonical_locale L (fst p) \<and>
     0 < length (lm_name (snd p)) \<and> length (lm_name (snd p)) \<le> 128 \<and>
     blen (lm_description (snd p)) \<le> 4096"

definition metadata_ok :: "'r manifest_libs \<Rightarrow> plugin_metadata \<Rightarrow> bool" where
  "metadata_ok L m \<longleftrightarrow>
     bt_len (md_locales m) \<noteq> 0 \<and> bt_len (md_locales m) \<le> 16 \<and>
     bt_contains (md_locales m) (md_default_locale m) \<and>
     list_all (localized_ok L) (md_locales m)"

text \<open>\<open>rsplit_once('-')\<close>: what precedes the last minus.\<close>

definition before_last_minus :: "ustr \<Rightarrow> ustr option" where
  "before_last_minus s = map_option (\<lambda>(b, a). rev a) (split_once (\<lambda>c. c = ch_minus) (rev s))"

lemma before_last_minus_shorter:
  assumes "before_last_minus s = Some p"
  shows "length p < length s"
proof -
  from assms obtain b a where "split_once (\<lambda>c. c = ch_minus) (rev s) = Some (b, a)" "p = rev a"
    by (auto simp: before_last_minus_def)
  moreover from split_once_Some [OF this(1)] obtain c where "rev s = b @ c # a" by blast
  then have "length (rev s) = length b + Suc (length a)" by simp
  ultimately show ?thesis by simp
qed

function resolve_prefix :: "(ustr, localized_metadata) btmap \<Rightarrow> ustr \<Rightarrow> localized_metadata option" where
  "resolve_prefix m candidate =
     (case before_last_minus candidate of
        None \<Rightarrow> None
      | Some p \<Rightarrow> (case bt_get m p of Some x \<Rightarrow> Some x | None \<Rightarrow> resolve_prefix m p))"
  by pat_completeness auto

termination
  by (relation "measure (\<lambda>(m, s). length s)") (auto simp: before_last_minus_shorter)

declare resolve_prefix.simps [simp del]

definition resolve_metadata ::
    "'r manifest_libs \<Rightarrow> plugin_metadata \<Rightarrow> ustr \<Rightarrow> manifest_error + localized_metadata" where
  "resolve_metadata L m requested =
     (if \<not> metadata_ok L m then Inl ME_InvalidMetadata
      else
        (let canonical = (case ml_locale L requested of None \<Rightarrow> requested | Some t \<Rightarrow> t)
         in case bt_get (md_locales m) canonical of
              Some x \<Rightarrow> Inr x
            | None \<Rightarrow>
                (case resolve_prefix (md_locales m) canonical of
                   Some x \<Rightarrow> Inr x
                 | None \<Rightarrow>
                     (case bt_get (md_locales m) (md_default_locale m) of
                        Some x \<Rightarrow> Inr x
                      | None \<Rightarrow> Inl ME_InvalidMetadata))))"

section \<open>Validation\<close>

definition bpp_version :: "nat \<times> nat \<times> nat" where "bpp_version = (1, 2, 0)"
definition max_plugin_timeout_ms :: u64 where "max_plugin_timeout_ms = 30000"
definition max_plugin_memory_mb :: u32 where "max_plugin_memory_mb = 256"
definition max_plugin_fuel :: u64 where "max_plugin_fuel = 1000000000000"
definition max_storage_quota_bytes :: u64 where "max_storage_quota_bytes = 64 * 1024 * 1024"

text \<open>The patch numbers at which \<open>requirement_matches_bpp_1_0\<close> probes a requirement.\<close>

definition patch_max :: nat where "patch_max = 2 ^ 64 - 1"

fun comparator_patches :: "nat \<times> nat option \<times> nat option \<Rightarrow> nat list" where
  "comparator_patches (major, minor, None) = []"
| "comparator_patches (major, minor, Some p) =
     (if major = 1 \<and> (minor = None \<or> minor = Some 0)
      then [p, p - 1, min (p + 1) patch_max] else [])"

definition requirement_matches_bpp_1_0 :: "'r manifest_libs \<Rightarrow> 'r \<Rightarrow> bool" where
  "requirement_matches_bpp_1_0 L r \<longleftrightarrow>
     list_ex (\<lambda>p. ml_matches L r (1, 0, p))
       (0 # patch_max # concat (map comparator_patches (ml_comparators L r)))"

definition uses_bpp_1_1 :: "plugin_permissions \<Rightarrow> bool" where
  "uses_bpp_1_1 p \<longleftrightarrow>
     pp_browser p \<noteq> [] \<or> list_ex (\<lambda>h. hp_credential h \<noteq> None) (pp_http p) \<or>
     list_ex (\<lambda>a. a = lit ''media.reply'' \<or> a = lit ''media.send'') (pp_actions p)"

definition supported_actions :: "ustr list" where
  "supported_actions = map lit [''message.reply'', ''message.send'', ''media.reply'', ''media.send'']"

fun check_subscriptions :: "ustr list \<Rightarrow> subscription list \<Rightarrow> manifest_error option" where
  "check_subscriptions ids [] = None"
| "check_subscriptions ids (s # ss) =
     (if sub_id s = [] \<or> sub_event s = [] then Some ME_InvalidSubscription
      else if sub_id s \<in> set ids then Some (ME_DuplicateSubscription (sub_id s))
      else check_subscriptions (sub_id s # ids) ss)"

fun check_command_names :: "ustr list \<Rightarrow> ustr list \<Rightarrow> manifest_error option" where
  "check_command_names seen [] = None"
| "check_command_names seen (n # ns) =
     (if n = [] \<or> n \<in> set seen then Some (ME_DuplicateCommand n) else check_command_names (n # seen) ns)"

definition command_names :: "command_declaration list \<Rightarrow> ustr list" where
  "command_names cs = concat (map (\<lambda>c. cd_name c # cd_aliases c) cs)"

definition first_error :: "(bool \<times> manifest_error) list \<Rightarrow> manifest_error option" where
  "first_error cs = map_option snd (List.find fst cs)"

definition validate_runtime :: "plugin_runtime_config \<Rightarrow> manifest_error option" where
  "validate_runtime r = first_error
     [(rc_max_concurrency r = 0, ME_ZeroConcurrency),
      (rc_max_concurrency r > 1024, ME_ExcessiveConcurrency (rc_max_concurrency r)),
      (rc_timeout_ms r = 0 \<or> rc_timeout_ms r > max_plugin_timeout_ms, ME_InvalidTimeout (rc_timeout_ms r)),
      (rc_memory_mb r = 0 \<or> rc_memory_mb r > max_plugin_memory_mb, ME_InvalidMemoryLimit (rc_memory_mb r)),
      (rc_fuel r = 0 \<or> rc_fuel r > max_plugin_fuel, ME_InvalidFuelLimit (rc_fuel r))]"

definition or_else :: "'e option \<Rightarrow> 'e option \<Rightarrow> 'e option" where
  "or_else a b = (case a of Some e \<Rightarrow> Some e | None \<Rightarrow> b)"

definition check_protocol :: "'r manifest_libs \<Rightarrow> plugin_manifest \<Rightarrow> manifest_error option" where
  "check_protocol L m =
     (case ml_requirement L (mf_protocol m) of
        None \<Rightarrow> Some ME_ProtocolRequirement
      | Some r \<Rightarrow>
          if \<not> ml_matches L r bpp_version then Some (ME_IncompatibleProtocol (mf_protocol m))
          else if uses_bpp_1_1 (mf_permissions m) \<and> requirement_matches_bpp_1_0 L r
          then Some ME_FeatureRequiresProtocol11
          else None)"

definition check_actions :: "plugin_permissions \<Rightarrow> manifest_error option" where
  "check_actions p =
     map_option ME_UnsupportedAction (List.find (\<lambda>a. a \<notin> set supported_actions) (pp_actions p))"

text \<open>The checks in the order of the source; the first that fails is the error.\<close>

definition validate_manifest :: "'r manifest_libs \<Rightarrow> plugin_manifest \<Rightarrow> manifest_error option" where
  "validate_manifest L m =
     or_else (first_error
       [(mf_manifest_version m \<noteq> 1, ME_UnsupportedManifestVersion (mf_manifest_version m)),
        (\<not> ml_version_ok L (mf_version m), ME_PluginVersion),
        (\<not> metadata_ok L (mf_metadata m), ME_InvalidMetadata),
        (mf_entry m \<noteq> lit ''component.wasm'', ME_InvalidEntry (mf_entry m))])
     (or_else (check_protocol L m)
     (or_else (validate_runtime (mf_runtime m))
     (or_else (first_error
       [(pp_storage_quota (mf_permissions m) > max_storage_quota_bytes,
         ME_InvalidStorageQuota (pp_storage_quota (mf_permissions m)))])
     (or_else (check_actions (mf_permissions m))
     (or_else (check_subscriptions [] (mf_subscriptions m))
     (or_else (check_command_names [] (command_names (mf_commands m)))
     (first_error
       [(\<not> validate_http_permissions L (pp_http (mf_permissions m)), ME_InvalidHttpPermission),
        (\<not> list_all (browser_permission_ok L) (pp_browser (mf_permissions m)), ME_InvalidBrowserPermission)])))))))"

section \<open>Reading\<close>

definition from_legacy :: "legacy_plugin_manifest \<Rightarrow> plugin_manifest" where
  "from_legacy g =
     \<lparr>mf_manifest_version = lg_manifest_version g, mf_id = lg_id g,
      mf_metadata = single_locale (lit ''en'') (lg_name g) (lg_description g),
      mf_version = lg_version g, mf_protocol = lg_protocol g, mf_state_version = lg_state_version g,
      mf_entry = lg_entry g, mf_runtime = lg_runtime g, mf_subscriptions = lg_subscriptions g,
      mf_commands = lg_commands g, mf_permissions = lg_permissions g\<rparr>"

text \<open>The TOML reader: parsing, whether the table has a key \<open>metadata\<close>, and the two typed readings.\<close>

record 'v toml_libs =
  tl_parse :: "ustr \<Rightarrow> 'v option"
  tl_has_metadata :: "'v \<Rightarrow> bool"
  tl_manifest :: "'v \<Rightarrow> plugin_manifest option"
  tl_legacy :: "'v \<Rightarrow> legacy_plugin_manifest option"

definition from_toml :: "'r manifest_libs \<Rightarrow> 'v toml_libs \<Rightarrow> ustr \<Rightarrow> manifest_error + plugin_manifest" where
  "from_toml L T source =
     (case tl_parse T source of
        None \<Rightarrow> Inl ME_Toml
      | Some v \<Rightarrow>
          (case (if tl_has_metadata T v then tl_manifest T v else map_option from_legacy (tl_legacy T v)) of
             None \<Rightarrow> Inl ME_Toml
           | Some m \<Rightarrow> (case validate_manifest L m of Some e \<Rightarrow> Inl e | None \<Rightarrow> Inr m)))"

text \<open>The port of a browser permission whose port is left out.\<close>

definition default_browser_port :: "ustr \<Rightarrow> u16" where
  "default_browser_port scheme = (if scheme = lit ''http'' then 80 else 443)"

section \<open>Capabilities\<close>

definition http_capability :: "http_permission \<Rightarrow> ustr" where
  "http_capability p = lit ''http.host.'' @ hp_host p @ lit '':'' @ decimal (unat (hp_port p))"

definition http_credential_capability :: "http_permission \<Rightarrow> ustr option" where
  "http_credential_capability p = map_option (\<lambda>n. lit ''http.credential.'' @ n) (hp_credential p)"

definition browser_permission_capabilities :: "browser_permission \<Rightarrow> ustr list" where
  "browser_permission_capabilities p =
     map (\<lambda>c. lit ''browser.origin.'' @ bp_scheme p @ lit ''.'' @ bp_host p @ lit '':'' @
               decimal (unat (bp_port p)) @ lit ''.'' @ c) (bp_capabilities p)"

definition requested_capabilities :: "plugin_manifest \<Rightarrow> ustr set" where
  "requested_capabilities m =
     (let p = mf_permissions m in
      set (pp_actions p) \<union>
      (if pp_http p = [] then {}
       else {lit ''http.request''} \<union> set (map http_capability (pp_http p)) \<union>
            set (List.map_filter http_credential_capability (pp_http p))) \<union>
      (if pp_browser p = [] then {}
       else {lit ''browser.run''} \<union> set (concat (map browser_permission_capabilities (pp_browser p)))) \<union>
      (if pp_storage p = Storage_Private then {lit ''storage.private''} else {}) \<union>
      (if pp_stop_propagation p then {lit ''event.stop_propagation''} else {}) \<union>
      (if pp_scheduler p then {lit ''schedule.create'', lit ''schedule.cancel''} else {}) \<union>
      set (map (\<lambda>x. lit ''event.extension.'' @ x) (pp_event_extensions p)))"

end
