(* ===== verification/PluginManifestProps.thy ===== *)
theory PluginManifestProps
  imports PluginManifest
begin

text \<open>
  What plugin identifiers, path prefixes, permissions and manifests guarantee: the string tests of
  \<open>crates/plugin-api/src/manifest.rs\<close> are equivalent to tests on path segments and DNS labels, a valid
  manifest leaves no choice between credentials, and the requested capabilities are exactly the declared
  permissions.
\<close>

section \<open>Plugin identifiers\<close>

lemma check_segments_None: "check_segments ss = None \<longleftrightarrow> list_all valid_segment ss"
  by (induction ss) auto

lemma valid_segment_chars: "valid_segment s \<Longrightarrow> c \<in> set s \<Longrightarrow> id_continue c"
  by (cases s) (auto simp: id_start_def id_continue_def list_all_iff)

lemma id_continue_ascii: "id_continue c \<Longrightarrow> is_ascii c \<and> c \<noteq> ch_dot \<and> c \<noteq> ch_slash"
  by (auto simp: id_continue_def is_ascii_def is_ascii_lowercase_def is_ascii_digit_def path_chars)

lemma set_join_char: "c \<in> set (join_char d ps) \<Longrightarrow> c = d \<or> (\<exists>p\<in>set ps. c \<in> set p)"
  by (induction ps rule: induct_list012) auto

text \<open>The grammar of plugin identifiers: a string is accepted iff it is 5 to 128 characters long and
  consists of at least three segments joined by dots, each a lower-case letter or digit followed by
  lower-case letters, digits, underscores and minuses. In particular an accepted identifier is a single
  safe path component: it has no slash and no empty or hidden segment.\<close>

theorem plugin_id_grammar:
  "new_plugin_id v = Inr w \<longleftrightarrow>
     w = v \<and> 5 \<le> length v \<and> length v \<le> 128 \<and>
     (\<exists>segments. 3 \<le> length segments \<and> list_all valid_segment segments \<and> v = join_char ch_dot segments)"
proof
  assume acc: "new_plugin_id v = Inr w"
  then have "list_all is_ascii v" "5 \<le> blen v" "blen v \<le> 128" "\<not> length (split_char ch_dot v) < 3"
    "check_segments (split_char ch_dot v) = None" "w = v"
    by (auto simp: new_plugin_id_def Let_def split: if_splits option.splits)
  then show "w = v \<and> 5 \<le> length v \<and> length v \<le> 128 \<and>
     (\<exists>segments. 3 \<le> length segments \<and> list_all valid_segment segments \<and> v = join_char ch_dot segments)"
    using join_split_char [of ch_dot v] by (auto simp: blen_ascii check_segments_None not_less)
next
  assume "w = v \<and> 5 \<le> length v \<and> length v \<le> 128 \<and>
     (\<exists>segments. 3 \<le> length segments \<and> list_all valid_segment segments \<and> v = join_char ch_dot segments)"
  then obtain ss where w: "w = v" and len: "5 \<le> length v" "length v \<le> 128"
    and ss: "3 \<le> length ss" "list_all valid_segment ss" "v = join_char ch_dot ss" by blast
  have chars: "id_continue c" if "p \<in> set ss" "c \<in> set p" for p c
    using that ss(2) valid_segment_chars by (auto simp: list_all_iff)
  then have split: "split_char ch_dot v = ss"
    using ss(1) id_continue_ascii unfolding ss(3) by (intro split_join_char) fastforce+
  have "is_ascii c" if "c \<in> set v" for c
    using set_join_char [OF that [unfolded ss(3)]] chars id_continue_ascii
    by (auto simp: is_ascii_def ch_dot_def)
  then have ascii: "list_all is_ascii v" by (simp add: list_all_iff)
  with blen_ascii len w ss split show "new_plugin_id v = Inr w"
    by (simp add: new_plugin_id_def Let_def check_segments_None [THEN iffD2])
qed

section \<open>Paths\<close>

lemma ends_with_single: "ends_with [c] s \<longleftrightarrow> (\<exists>a. s = a @ [c])"
proof -
  have "ends_with [c] s \<longleftrightarrow> (\<exists>t. rev s = c # t)" by (simp add: ends_with_def starts_with_iff)
  then show ?thesis by (metis rev_eq_Cons_iff rev_rev_ident)
qed

lemma prefix_split_iff:
  "prefix (split_char d a) (split_char d s) \<longleftrightarrow> s = a \<or> (\<exists>b. s = a @ d # b)"
proof
  assume "prefix (split_char d a) (split_char d s)"
  then obtain ts where ts: "split_char d s = split_char d a @ ts" by (auto simp: prefix_def)
  show "s = a \<or> (\<exists>b. s = a @ d # b)"
  proof (cases "ts = []")
    case True
    with ts show ?thesis by (metis append_Nil2 join_split_char)
  next
    case False
    with ts have "s = join_char d (split_char d a) @ d # join_char d ts"
      by (metis join_char_append join_split_char split_char_ne)
    then show ?thesis by (auto simp: join_split_char)
  qed
qed (auto simp: split_char_append)

lemma strict_prefix_split_iff:
  "strict_prefix (split_char d a) (split_char d s) \<longleftrightarrow> (\<exists>b. s = a @ d # b)"
proof -
  have "split_char d a = split_char d (a @ d # b) \<Longrightarrow> False" for b
    using split_char_ne [of d b] by (simp add: split_char_append)
  then show ?thesis
    unfolding strict_prefix_def prefix_split_iff by (metis join_split_char)
qed

lemma suffix_split_iff:
  "suffix (split_char d a) (split_char d s) \<longleftrightarrow> s = a \<or> (\<exists>b. s = b @ d # a)"
proof
  assume "suffix (split_char d a) (split_char d s)"
  then obtain ts where ts: "split_char d s = ts @ split_char d a" by (auto simp: suffix_def)
  show "s = a \<or> (\<exists>b. s = b @ d # a)"
  proof (cases "ts = []")
    case True
    with ts show ?thesis by (metis append_Nil join_split_char)
  next
    case False
    with ts have "s = join_char d ts @ d # join_char d (split_char d a)"
      by (metis join_char_append join_split_char split_char_ne)
    then show ?thesis by (auto simp: join_split_char)
  qed
qed (auto simp: split_char_append suffix_def)

text \<open>The specification by segments: a prefix that ends with a slash stands for what lies strictly below
  its directory, any other prefix for the path itself and what lies below it.\<close>

definition segments :: "ustr \<Rightarrow> ustr list" where
  "segments p = split_char ch_slash p"

definition below_prefix :: "ustr \<Rightarrow> ustr \<Rightarrow> bool" where
  "below_prefix path pre \<longleftrightarrow>
     (if pre = [ch_slash] then True
      else if ends_with [ch_slash] pre then strict_prefix (butlast (segments pre)) (segments path)
      else prefix (segments pre) (segments path))"

lemma starts_at_boundary:
  "starts_with pre path \<and> length pre < length path \<and> path ! length pre = c \<longleftrightarrow> (\<exists>b. path = pre @ c # b)"
proof
  assume l: "starts_with pre path \<and> length pre < length path \<and> path ! length pre = c"
  then have "take (length pre) path = pre" by (simp add: starts_with_def)
  with l show "\<exists>b. path = pre @ c # b" by (metis id_take_nth_drop)
qed auto

lemma matches_by_segments:
  "url_path_matches_prefix path pre \<longleftrightarrow> \<not> unsafe_path path \<and> below_prefix path pre"
proof (cases "ends_with [ch_slash] pre")
  case True
  then obtain a where a: "pre = a @ [ch_slash]" by (auto simp: ends_with_single)
  have "segments pre = segments a @ [[]]"
    using split_char_append [of ch_slash a "[]"] by (simp add: segments_def a)
  then have "strict_prefix (butlast (segments pre)) (segments path) \<longleftrightarrow> (\<exists>b. path = a @ ch_slash # b)"
    by (simp add: segments_def strict_prefix_split_iff)
  moreover have "path = pre \<or> starts_with pre path \<longleftrightarrow> (\<exists>b. path = a @ ch_slash # b)"
    by (auto simp: a starts_with_iff)
  ultimately show ?thesis
    using True unfolding url_path_matches_prefix_def below_prefix_def by auto
next
  case False
  have "path = pre \<or> (starts_with pre path \<and> length pre < length path \<and> path ! length pre = ch_slash) \<longleftrightarrow>
      prefix (segments pre) (segments path)"
    unfolding starts_at_boundary segments_def prefix_split_iff ..
  with False show ?thesis
    unfolding url_path_matches_prefix_def below_prefix_def by auto
qed

text \<open>Path prefixes work on whole segments: a path matches a prefix iff it contains no query,
  fragment, escape or backslash character and no dot segment, and its segments continue those of the
  prefix. So the prefix \<open>/api\<close> covers \<open>/api\<close> and \<open>/api/x\<close> but neither \<open>/apix\<close> nor
  \<open>/api/../x\<close>.\<close>

theorem url_prefix_by_segments:
  "url_path_matches_prefix path pre \<longleftrightarrow> \<not> unsafe_path path \<and> below_prefix path pre"
  by (rule matches_by_segments)

text \<open>The host test works on whole DNS labels: a host has a DNS suffix iff its list of labels ends
  with the labels of the suffix, so that \<open>evil-localhost\<close> is not taken for a local name and
  \<open>a.localhost\<close> is.\<close>

theorem dns_suffix_by_labels:
  "has_dns_suffix host suf \<longleftrightarrow> suffix (split_char ch_dot suf) (split_char ch_dot host)"
proof -
  have "(case strip_suffix suf host of None \<Rightarrow> False | Some p \<Rightarrow> ends_with [ch_dot] p) \<longleftrightarrow>
      (\<exists>b. host = b @ ch_dot # suf)"
  proof (cases "strip_suffix suf host")
    case None
    then have "host \<noteq> t @ suf" for t using strip_suffix_Some [of suf host t] by auto
    then have "host \<noteq> b @ ch_dot # suf" for b by (metis append.assoc append_Cons append_Nil)
    with None show ?thesis by auto
  next
    case (Some p)
    then have p: "host = p @ suf" by (simp add: strip_suffix_Some)
    have "(\<exists>a. p = a @ [ch_dot]) \<longleftrightarrow> (\<exists>b. p @ suf = b @ ch_dot # suf)"
      by (metis append.assoc append_Cons append_Nil append_same_eq)
    with Some p show ?thesis by (simp add: ends_with_single)
  qed
  then show ?thesis by (simp add: has_dns_suffix_def suffix_split_iff)
qed

section \<open>Credentials\<close>

text \<open>A permission that covers a request, as the HTTP executor looks for it.\<close>

definition permission_covers :: "ustr \<Rightarrow> u16 \<Rightarrow> ustr \<Rightarrow> ustr \<Rightarrow> http_permission \<Rightarrow> bool" where
  "permission_covers host port meth path p \<longleftrightarrow>
     hp_host p = host \<and> hp_port p = port \<and> meth \<in> set (hp_methods p) \<and>
     list_ex (url_path_matches_prefix path) (hp_path_prefixes p)"

lemma nested_prefixes:
  assumes "\<not> unsafe_path a" "\<not> unsafe_path b" "below_prefix path a" "below_prefix path b"
  shows "url_path_matches_prefix a b \<or> url_path_matches_prefix b a"
proof -
  define dir where "dir x = (if ends_with [ch_slash] x then butlast (segments x) else segments x)" for x
  have seg: "segments x = (if ends_with [ch_slash] x then dir x @ [[]] else dir x)" for x
  proof (cases "ends_with [ch_slash] x")
    case True
    then obtain y where "x = y @ [ch_slash]" by (auto simp: ends_with_single)
    then have "segments x = segments y @ [[]]"
      using split_char_append [of ch_slash y "[]"] by (simp add: segments_def)
    with True show ?thesis by (simp add: dir_def)
  qed (simp add: dir_def)
  have below: "below_prefix x y \<longleftrightarrow> y = [ch_slash] \<or>
      (if ends_with [ch_slash] y then strict_prefix (dir y) (segments x) else prefix (dir y) (segments x))" for x y
    by (auto simp: below_prefix_def dir_def)
  have le: "prefix (dir x) (segments path)" if "below_prefix path x" "x \<noteq> [ch_slash]" for x
    using that unfolding below by (auto split: if_splits)
  have nest: "below_prefix x y \<or> below_prefix y x" if "prefix (dir y) (dir x)" "below_prefix path y" for x y
  proof (cases "ends_with [ch_slash] y \<and> \<not> ends_with [ch_slash] x \<and> dir x = dir y \<and> y \<noteq> [ch_slash]")
    case False
    with that show ?thesis
      unfolding below seg [of x] by (auto simp: strict_prefix_def split: if_splits intro: prefix_order.trans)
  next
    case True
    then show ?thesis unfolding below seg [of y] by auto
  qed
  have root: "below_prefix x [ch_slash]" for x by (simp add: below_prefix_def)
  show ?thesis
  proof (cases "a = [ch_slash] \<or> b = [ch_slash]")
    case True
    with root assms(1,2) show ?thesis unfolding matches_by_segments by auto
  next
    case False
    with le assms(3,4) have "prefix (dir a) (segments path)" "prefix (dir b) (segments path)" by auto
    then have "prefix (dir a) (dir b) \<or> prefix (dir b) (dir a)" using prefix_same_cases by blast
    with nest assms show ?thesis unfolding matches_by_segments by blast
  qed
qed

lemma conflict_sym:
  "http_permissions_have_credential_conflict p q \<longleftrightarrow> http_permissions_have_credential_conflict q p"
  unfolding http_permissions_have_credential_conflict_def list_ex_iff by (auto; metis)

lemma no_conflictsD:
  "no_credential_conflicts ps \<Longrightarrow> p \<in> set ps \<Longrightarrow> q \<in> set ps \<Longrightarrow>
   p = q \<or> \<not> http_permissions_have_credential_conflict p q"
proof (induction ps)
  case (Cons r ps)
  then show ?case using conflict_sym by (auto simp: list_ex_iff)
qed simp

lemma validated_prefix_safe:
  "http_permission_ok L p \<Longrightarrow> pre \<in> set (hp_path_prefixes p) \<Longrightarrow> \<not> unsafe_path pre"
  by (auto simp: http_permission_ok_def validate_public_host_and_paths_def valid_prefix_def list_all_iff
      split: option.splits parsed_host.splits)

lemma covering_credentials_agree:
  assumes v: "validate_http_permissions L ps" and p: "p \<in> set ps" "permission_covers host port meth path p"
    and q: "q \<in> set ps" "permission_covers host port meth path q"
  shows "hp_credential p = hp_credential q"
proof (rule ccontr)
  assume ne: "hp_credential p \<noteq> hp_credential q"
  obtain a b where a: "a \<in> set (hp_path_prefixes p)" "url_path_matches_prefix path a"
    and b: "b \<in> set (hp_path_prefixes q)" "url_path_matches_prefix path b"
    using p(2) q(2) by (auto simp: permission_covers_def list_ex_iff)
  have "\<not> unsafe_path a" "\<not> unsafe_path b"
    using v p(1) q(1) a(1) b(1) validated_prefix_safe [of L]
    by (auto simp: validate_http_permissions_def list_all_iff)
  then have "url_path_matches_prefix a b \<or> url_path_matches_prefix b a"
    using a(2) b(2) nested_prefixes unfolding matches_by_segments by blast
  then have "http_permissions_have_credential_conflict p q"
    using p(2) q(2) ne a(1) b(1)
    by (auto simp: http_permissions_have_credential_conflict_def permission_covers_def list_ex_iff)
  with no_conflictsD [of ps p q] v p(1) q(1) ne show False
    by (auto simp: validate_http_permissions_def)
qed

text \<open>Which credential goes with a request is never ambiguous: when the HTTP permissions of a
  manifest have passed validation, any two of them that cover the same request (host, port, method and
  path) name the same credential. The pairwise overlap test of the validation, which compares prefixes
  with each other, is therefore complete for all paths.\<close>

theorem validated_credentials_unambiguous:
  assumes "validate_http_permissions L ps" "p \<in> set ps" "q \<in> set ps"
    and "permission_covers host port meth path p" "permission_covers host port meth path q"
  shows "hp_credential p = hp_credential q"
  using covering_credentials_agree [OF assms(1,2,4,3,5)] .

definition demo_libs :: "unit manifest_libs" where
  "demo_libs = \<lparr>ml_version_ok = (\<lambda>v. v \<noteq> []), ml_requirement = (\<lambda>r. if r = [] then None else Some ()),
     ml_comparators = (\<lambda>_. [(1, Some 1, None)]), ml_matches = (\<lambda>_ (a, b, c). a = 1 \<and> 1 \<le> b),
     ml_host = (\<lambda>h. if h = [] then None else Some (Host_Domain h)), ml_locale = Some\<rparr>"

definition demo_permission :: "string \<Rightarrow> http_permission" where
  "demo_permission pre = \<lparr>hp_host = lit ''api.example.com'', hp_port = 443, hp_methods = [lit ''GET''],
     hp_path_prefixes = [lit pre], hp_credential = Some (lit ''token'')\<rparr>"

lemma validated_credentials_unambiguous_witness:
  "permission_covers (lit ''api.example.com'') 443 (lit ''GET'') (lit ''/v1/users'') (demo_permission ''/v1'') \<and>
   permission_covers (lit ''api.example.com'') 443 (lit ''GET'') (lit ''/v1/users'') (demo_permission ''/v1/'') \<and>
   hp_credential (demo_permission ''/v1'') = hp_credential (demo_permission ''/v1/'')"
proof -
  let ?ps = "[demo_permission ''/v1'', demo_permission ''/v1/'']"
  have "validate_http_permissions demo_libs ?ps" by code_simp
  moreover have "permission_covers (lit ''api.example.com'') 443 (lit ''GET'') (lit ''/v1/users'') (demo_permission ''/v1'')"
    "permission_covers (lit ''api.example.com'') 443 (lit ''GET'') (lit ''/v1/users'') (demo_permission ''/v1/'')"
    by code_simp+
  ultimately show ?thesis
    using validated_credentials_unambiguous [of demo_libs ?ps "demo_permission ''/v1''" "demo_permission ''/v1/''"]
    by simp
qed

section \<open>Protocol requirements\<close>

text \<open>
  What \<open>semver\<close> documents of a requirement, for the releases \<open>1.0.p\<close>: every operator compares the
  version with the comparator's own, so whether \<open>1.0.p\<close> matches depends only on how \<open>p\<close> compares with the
  patch numbers of the comparators for major 1 and minor 0 or any.
\<close>

definition same_side :: "nat \<times> nat option \<times> nat option \<Rightarrow> nat \<Rightarrow> nat \<Rightarrow> bool" where
  "same_side c p p' \<longleftrightarrow>
     (case c of (major, minor, patch) \<Rightarrow>
        (case patch of
           Some q \<Rightarrow> major = 1 \<and> (minor = None \<or> minor = Some 0) \<longrightarrow> (p < q \<longleftrightarrow> p' < q) \<and> (p = q \<longleftrightarrow> p' = q)
         | None \<Rightarrow> True))"

definition semver_laws :: "'r manifest_libs \<Rightarrow> bool" where
  "semver_laws L \<longleftrightarrow>
     (\<forall>r p p'. (\<forall>c\<in>set (ml_comparators L r). same_side c p p') \<longrightarrow>
        ml_matches L r (1, 0, p) = ml_matches L r (1, 0, p')) \<and>
     (\<forall>r a b q. (a, b, Some q) \<in> set (ml_comparators L r) \<longrightarrow> q \<le> patch_max)"

definition relevant_patches :: "(nat \<times> nat option \<times> nat option) list \<Rightarrow> nat set" where
  "relevant_patches cs = {q. \<exists>n. (1, n, Some q) \<in> set cs \<and> (n = None \<or> n = Some 0)}"

lemma same_side_iff:
  "(\<forall>c\<in>set cs. same_side c p p') \<longleftrightarrow>
   (\<forall>q\<in>relevant_patches cs. (p < q \<longleftrightarrow> p' < q) \<and> (p = q \<longleftrightarrow> p' = q))"
  by (fastforce simp: same_side_def relevant_patches_def split: option.splits)

lemma finite_relevant: "finite (relevant_patches cs)"
proof -
  have "relevant_patches cs \<subseteq> (\<lambda>c. the (snd (snd c))) ` set cs"
    by (force simp: relevant_patches_def)
  then show ?thesis by (rule finite_subset) simp
qed

lemma relevant_probed:
  "q \<in> relevant_patches cs \<Longrightarrow>
   q \<in> set (concat (map comparator_patches cs)) \<and> min (q + 1) patch_max \<in> set (concat (map comparator_patches cs))"
proof -
  assume "q \<in> relevant_patches cs"
  then obtain n where c: "(1, n, Some q) \<in> set cs" "n = None \<or> n = Some 0"
    by (auto simp: relevant_patches_def)
  from c(2) have eq: "comparator_patches (1, n, Some q) = [q, q - 1, min (q + 1) patch_max]"
    by auto
  have "set (comparator_patches (1, n, Some q)) \<subseteq> set (concat (map comparator_patches cs))"
    using c(1) unfolding set_concat set_map by blast
  then show ?thesis unfolding eq by simp
qed

text \<open>Each patch number has a probe on the same side of all comparators: itself, or the successor of the
  largest comparator patch below it, or 0.\<close>

lemma probe_exists:
  assumes "p \<le> patch_max"
  shows "\<exists>p'\<in>set (0 # patch_max # concat (map comparator_patches cs)). \<forall>c\<in>set cs. same_side c p p'"
proof -
  let ?Q = "relevant_patches cs"
  consider "p \<in> ?Q" | "p \<notin> ?Q" "\<forall>q\<in>?Q. p < q" | q where "p \<notin> ?Q" "q \<in> ?Q" "q < p"
    by (metis linorder_neqE_nat)
  then show ?thesis
  proof cases
    case 1
    then have "p \<in> set (concat (map comparator_patches cs))" using relevant_probed by blast
    moreover have "\<forall>c\<in>set cs. same_side c p p" by (simp add: same_side_iff)
    ultimately show ?thesis by (metis list.set_intros(2))
  next
    case 2
    then have "\<forall>c\<in>set cs. same_side c p 0" unfolding same_side_iff by fastforce
    then show ?thesis by auto
  next
    case (3 q)
    let ?below = "{q \<in> ?Q. q < p}"
    have fin: "finite ?below" using finite_relevant [of cs] by simp
    define m where "m = Max ?below"
    have "?below \<noteq> {}" using 3 by auto
    from Max_in [OF fin this] have m: "m \<in> ?Q" "m < p" unfolding m_def by simp_all
    have top: "q' \<le> m" if "q' \<in> ?Q" "q' < p" for q'
      unfolding m_def using that fin by (intro Max_ge) auto
    have "min (m + 1) patch_max = m + 1" using m(2) assms by simp
    with relevant_probed [OF m(1)] have probe: "m + 1 \<in> set (concat (map comparator_patches cs))" by simp
    have "(p < q' \<longleftrightarrow> m + 1 < q') \<and> (p = q' \<longleftrightarrow> m + 1 = q')" if "q' \<in> ?Q" for q'
    proof (cases "q' < p")
      case True
      with top [OF that] show ?thesis by auto
    next
      case False
      moreover have "q' \<noteq> p" using that 3(1) by auto
      ultimately show ?thesis using m(2) top [OF that] by (cases "m + 1 = q'") auto
    qed
    then have "\<forall>c\<in>set cs. same_side c p (m + 1)" by (simp add: same_side_iff)
    with probe show ?thesis by (metis list.set_intros(2))
  qed
qed

text \<open>The test for BPP 1.0 misses nothing: although it probes only finitely many patch numbers, a
  requirement matches it iff it matches some release \<open>1.0.p\<close> that a 64-bit patch number can name, given
  the documented behaviour of \<open>semver\<close> comparators. So a manifest that uses features of BPP 1.1 cannot
  slip past the check with a requirement that also admits a 1.0 host.\<close>

theorem bpp_1_0_probe_complete:
  assumes "semver_laws L"
  shows "requirement_matches_bpp_1_0 L r \<longleftrightarrow> (\<exists>p\<le>patch_max. ml_matches L r (1, 0, p))"
proof
  assume "requirement_matches_bpp_1_0 L r"
  then obtain p where p: "ml_matches L r (1, 0, p)"
    and probe: "p \<in> set (0 # patch_max # concat (map comparator_patches (ml_comparators L r)))"
    unfolding requirement_matches_bpp_1_0_def list_ex_iff by blast
  have "q' \<le> patch_max" if "c \<in> set (ml_comparators L r)" "q' \<in> set (comparator_patches c)" for c q'
  proof -
    obtain a b x where c: "c = (a, b, x)" by (cases c) auto
    show ?thesis
    proof (cases x)
      case (Some q)
      with that(1) c assms have "q \<le> patch_max" unfolding semver_laws_def by blast
      with that(2) c Some show ?thesis by (auto split: if_splits)
    qed (use that(2) c in simp)
  qed
  then have "p \<le> patch_max"
    using probe unfolding list.set set_concat set_map by (auto simp only: insert_iff UN_iff image_iff)
  with p show "\<exists>p\<le>patch_max. ml_matches L r (1, 0, p)" by blast
next
  assume "\<exists>p\<le>patch_max. ml_matches L r (1, 0, p)"
  then obtain p where p: "p \<le> patch_max" "ml_matches L r (1, 0, p)" by blast
  from probe_exists [OF p(1), of "ml_comparators L r"] obtain p' where
    p': "p' \<in> set (0 # patch_max # concat (map comparator_patches (ml_comparators L r)))"
    "\<forall>c\<in>set (ml_comparators L r). same_side c p p'" by blast
  with assms p(2) have "ml_matches L r (1, 0, p')" by (auto simp: semver_laws_def)
  with p'(1) show "requirement_matches_bpp_1_0 L r" unfolding requirement_matches_bpp_1_0_def list_ex_iff by blast
qed

text \<open>The requirement \<open>>=1.0.7, <1.0.9\<close>, which no patch number 0 meets.\<close>

definition demo_semver :: "unit manifest_libs" where
  "demo_semver = demo_libs\<lparr>ml_comparators := (\<lambda>_. [(1, Some 0, Some 7), (1, Some 0, Some 9)]),
     ml_matches := (\<lambda>_ (a, b, c). a = 1 \<and> b = 0 \<and> 7 \<le> c \<and> c < 9)\<rparr>"

lemma bpp_1_0_probe_complete_witness:
  "requirement_matches_bpp_1_0 demo_semver () \<longleftrightarrow> (\<exists>p\<le>patch_max. ml_matches demo_semver () (1, 0, p))"
proof -
  have "semver_laws demo_semver"
    by (auto simp: semver_laws_def demo_semver_def same_side_def patch_max_def)
  from bpp_1_0_probe_complete [OF this] show ?thesis .
qed

section \<open>Manifests\<close>

lemma first_error_None: "first_error cs = None \<longleftrightarrow> (\<forall>p\<in>set cs. \<not> fst p)"
  by (induction cs) (auto simp: first_error_def)

lemma or_else_None [simp]: "or_else a b = None \<longleftrightarrow> a = None \<and> b = None"
  by (auto simp: or_else_def split: option.splits)

lemma find_None: "List.find P xs = None \<longleftrightarrow> (\<forall>x\<in>set xs. \<not> P x)"
  by (induction xs) auto

lemma check_subscriptions_None:
  "check_subscriptions ids ss = None \<longleftrightarrow>
   (\<forall>s\<in>set ss. sub_id s \<noteq> [] \<and> sub_event s \<noteq> [] \<and> sub_id s \<notin> set ids) \<and> distinct (map sub_id ss)"
proof (induction ids ss rule: check_subscriptions.induct)
  case (2 ids s ss)
  have "sub_id s \<notin> sub_id ` set ss \<longleftrightarrow> (\<forall>t\<in>set ss. sub_id t \<noteq> sub_id s)" by (metis image_iff)
  with 2 show ?case by auto
qed simp

lemma check_command_names_None:
  "check_command_names seen ns = None \<longleftrightarrow> [] \<notin> set ns \<and> set ns \<inter> set seen = {} \<and> distinct ns"
  by (induction seen ns rule: check_command_names.induct) auto

definition runtime_within_limits :: "plugin_runtime_config \<Rightarrow> bool" where
  "runtime_within_limits r \<longleftrightarrow>
     0 < rc_max_concurrency r \<and> rc_max_concurrency r \<le> 1024 \<and>
     0 < rc_timeout_ms r \<and> rc_timeout_ms r \<le> 30000 \<and>
     0 < rc_memory_mb r \<and> rc_memory_mb r \<le> 256 \<and>
     0 < rc_fuel r \<and> rc_fuel r \<le> 1000000000000"

lemma validate_runtime_None: "validate_runtime r = None \<longleftrightarrow> runtime_within_limits r"
  by (auto simp: validate_runtime_def first_error_None runtime_within_limits_def max_plugin_timeout_ms_def
      max_plugin_memory_mb_def max_plugin_fuel_def not_less word_gt_0)

lemma check_actions_None: "check_actions p = None \<longleftrightarrow> set (pp_actions p) \<subseteq> set supported_actions"
  by (auto simp: check_actions_def find_None)

definition protocol_fits :: "'r manifest_libs \<Rightarrow> plugin_manifest \<Rightarrow> bool" where
  "protocol_fits L m \<longleftrightarrow>
     (\<exists>r. ml_requirement L (mf_protocol m) = Some r \<and> ml_matches L r (1, 2, 0) \<and>
          (uses_bpp_1_1 (mf_permissions m) \<longrightarrow> \<not> requirement_matches_bpp_1_0 L r))"

lemma check_protocol_None: "check_protocol L m = None \<longleftrightarrow> protocol_fits L m"
  by (auto simp: check_protocol_def protocol_fits_def bpp_version_def split: option.splits)

lemma validate_manifest_None:
  "validate_manifest L m = None \<longleftrightarrow>
     mf_manifest_version m = 1 \<and> ml_version_ok L (mf_version m) \<and> metadata_ok L (mf_metadata m) \<and>
     mf_entry m = lit ''component.wasm'' \<and> protocol_fits L m \<and> runtime_within_limits (mf_runtime m) \<and>
     pp_storage_quota (mf_permissions m) \<le> 64 * 1024 * 1024 \<and>
     set (pp_actions (mf_permissions m)) \<subseteq> set supported_actions \<and>
     (\<forall>s\<in>set (mf_subscriptions m). sub_id s \<noteq> [] \<and> sub_event s \<noteq> []) \<and>
     distinct (map sub_id (mf_subscriptions m)) \<and>
     [] \<notin> set (command_names (mf_commands m)) \<and> distinct (command_names (mf_commands m)) \<and>
     validate_http_permissions L (pp_http (mf_permissions m)) \<and>
     list_all (browser_permission_ok L) (pp_browser (mf_permissions m))"
  unfolding validate_manifest_def or_else_None check_protocol_None validate_runtime_None check_actions_None
    check_subscriptions_None check_command_names_None
  by (simp add: first_error_None max_storage_quota_bytes_def not_less conj_ac ball_conj_distrib)

text \<open>Exactly which manifests are valid: version 1 with a valid plugin version, valid metadata and the
  fixed entry; a protocol requirement that admits this host, and none of BPP 1.0 where features of 1.1 are
  used; non-zero runtime limits within the maxima of the host; only supported actions; non-empty and
  pairwise different subscription identifiers; non-empty names and aliases that are pairwise different over
  all commands; valid HTTP permissions without credential conflicts and valid browser permissions.\<close>

theorem validate_manifest_spec:
  "(case validate_manifest L m of None \<Rightarrow> True | Some _ \<Rightarrow> False) =
     (mf_manifest_version m = 1 \<and> ml_version_ok L (mf_version m) \<and> metadata_ok L (mf_metadata m) \<and>
     mf_entry m = lit ''component.wasm'' \<and> protocol_fits L m \<and> runtime_within_limits (mf_runtime m) \<and>
     pp_storage_quota (mf_permissions m) \<le> 64 * 1024 * 1024 \<and>
     set (pp_actions (mf_permissions m)) \<subseteq> set supported_actions \<and>
     list_all (\<lambda>s. sub_id s \<noteq> [] \<and> sub_event s \<noteq> []) (mf_subscriptions m) \<and>
     distinct (map sub_id (mf_subscriptions m)) \<and>
     [] \<notin> set (command_names (mf_commands m)) \<and> distinct (command_names (mf_commands m)) \<and>
     validate_http_permissions L (pp_http (mf_permissions m)) \<and>
     list_all (browser_permission_ok L) (pp_browser (mf_permissions m)))"
  using validate_manifest_None [of L m] by (cases "validate_manifest L m") (simp_all add: list_all_iff)

section \<open>Capabilities\<close>

lemma last_colon:
  "a @ c # d = a' @ c # d' \<Longrightarrow> c \<notin> set d \<Longrightarrow> c \<notin> set d' \<Longrightarrow> a = a' \<and> d = d'"
proof (induction a arbitrary: a')
  case Nil
  then show ?case by (cases a') auto
next
  case (Cons x a)
  then show ?case by (cases a') auto
qed

lemma colon_decimal: "58 \<notin> set (decimal n)"
  using decimal_digits [of 58 n] by (auto simp: is_ascii_digit_def)

lemma http_capability_inj:
  "http_capability p = http_capability q \<longleftrightarrow> hp_host p = hp_host q \<and> hp_port p = hp_port q"
proof
  assume "http_capability p = http_capability q"
  then have "hp_host p @ 58 # decimal (unat (hp_port p)) = hp_host q @ 58 # decimal (unat (hp_port q))"
    by (simp add: http_capability_def)
  from last_colon [OF this colon_decimal colon_decimal]
  show "hp_host p = hp_host q \<and> hp_port p = hp_port q" by (simp add: decimal_inj word_unat_eq_iff)
qed (simp add: http_capability_def)

lemma in_map_filter: "c \<in> set (List.map_filter f xs) \<longleftrightarrow> (\<exists>x\<in>set xs. f x = Some c)"
  by (induction xs) (auto simp: map_filter_simps split: option.splits)

lemma in_if: "c \<in> (if b then A else B) \<longleftrightarrow> b \<and> c \<in> A \<or> \<not> b \<and> c \<in> B"
  by simp

lemma requested_unfold:
  "c \<in> requested_capabilities m \<longleftrightarrow>
     c \<in> set (pp_actions (mf_permissions m)) \<or>
     pp_http (mf_permissions m) \<noteq> [] \<and> c = lit ''http.request'' \<or>
     c \<in> http_capability ` set (pp_http (mf_permissions m)) \<or>
     (\<exists>h\<in>set (pp_http (mf_permissions m)). http_credential_capability h = Some c) \<or>
     pp_browser (mf_permissions m) \<noteq> [] \<and> c = lit ''browser.run'' \<or>
     (\<exists>b\<in>set (pp_browser (mf_permissions m)). c \<in> set (browser_permission_capabilities b)) \<or>
     pp_storage (mf_permissions m) = Storage_Private \<and> c = lit ''storage.private'' \<or>
     pp_stop_propagation (mf_permissions m) \<and> c = lit ''event.stop_propagation'' \<or>
     pp_scheduler (mf_permissions m) \<and> (c = lit ''schedule.create'' \<or> c = lit ''schedule.cancel'') \<or>
     c \<in> (\<lambda>x. lit ''event.extension.'' @ x) ` set (pp_event_extensions (mf_permissions m))"
  unfolding requested_capabilities_def Let_def Un_iff in_if set_map in_map_filter set_concat
  by (cases "pp_http (mf_permissions m) = []"; cases "pp_browser (mf_permissions m) = []")
    (simp_all only: empty_iff insert_iff UN_iff set_map image_iff bex_simps simp_thms list.set, blast+)

text \<open>The kinds of capabilities are told apart by their first characters.\<close>

lemma browser_capability_split:
  "c \<in> set (browser_permission_capabilities b) \<longleftrightarrow>
   (\<exists>k\<in>set (bp_capabilities b). c = lit ''browser.origin.'' @ bp_scheme b @ lit ''.'' @ bp_host b @ lit '':'' @
      decimal (unat (bp_port b)) @ lit ''.'' @ k)"
  by (auto simp: browser_permission_capabilities_def simp del: lit_Cons)

definition supported :: "plugin_manifest \<Rightarrow> bool" where
  "supported m \<longleftrightarrow> set (pp_actions (mf_permissions m)) \<subseteq> set supported_actions"

lemma not_action: "supported m \<Longrightarrow> c \<notin> set supported_actions \<Longrightarrow> c \<notin> set (pp_actions (mf_permissions m))"
  by (auto simp: supported_def)

lemma capability_texts:
  "lit ''http.request'' =
     [104, 116, 116, 112, 46, 114, 101, 113, 117, 101, 115, 116]"
  "lit ''browser.run'' =
     [98, 114, 111, 119, 115, 101, 114, 46, 114, 117, 110]"
  "lit ''storage.private'' =
     [115, 116, 111, 114, 97, 103, 101, 46, 112, 114, 105, 118, 97, 116, 101]"
  "lit ''event.stop_propagation'' =
     [101, 118, 101, 110, 116, 46, 115, 116, 111, 112, 95, 112, 114, 111, 112, 97, 103, 97, 116, 105, 111, 110]"
  "lit ''schedule.create'' =
     [115, 99, 104, 101, 100, 117, 108, 101, 46, 99, 114, 101, 97, 116, 101]"
  "lit ''schedule.cancel'' =
     [115, 99, 104, 101, 100, 117, 108, 101, 46, 99, 97, 110, 99, 101, 108]"
  "lit ''message.reply'' =
     [109, 101, 115, 115, 97, 103, 101, 46, 114, 101, 112, 108, 121]"
  "lit ''message.send'' =
     [109, 101, 115, 115, 97, 103, 101, 46, 115, 101, 110, 100]"
  "lit ''media.reply'' =
     [109, 101, 100, 105, 97, 46, 114, 101, 112, 108, 121]"
  "lit ''media.send'' =
     [109, 101, 100, 105, 97, 46, 115, 101, 110, 100]"
  "lit ''http.host.'' =
     [104, 116, 116, 112, 46, 104, 111, 115, 116, 46]"
  "lit ''http.credential.'' =
     [104, 116, 116, 112, 46, 99, 114, 101, 100, 101, 110, 116, 105, 97, 108, 46]"
  "lit ''browser.origin.'' =
     [98, 114, 111, 119, 115, 101, 114, 46, 111, 114, 105, 103, 105, 110, 46]"
  "lit ''event.extension.'' =
     [101, 118, 101, 110, 116, 46, 101, 120, 116, 101, 110, 115, 105, 111, 110, 46]"
  by simp_all

lemmas capability_kinds = capability_texts requested_unfold browser_capability_split supported_actions_def http_capability_def
  http_credential_capability_def image_iff

lemma fixed_capabilities:
  assumes "supported m"
  shows "lit ''http.request'' \<in> requested_capabilities m \<longleftrightarrow> pp_http (mf_permissions m) \<noteq> []"
    and "lit ''browser.run'' \<in> requested_capabilities m \<longleftrightarrow> pp_browser (mf_permissions m) \<noteq> []"
    and "lit ''storage.private'' \<in> requested_capabilities m \<longleftrightarrow> pp_storage (mf_permissions m) = Storage_Private"
    and "lit ''event.stop_propagation'' \<in> requested_capabilities m \<longleftrightarrow> pp_stop_propagation (mf_permissions m)"
    and "lit ''schedule.create'' \<in> requested_capabilities m \<longleftrightarrow> pp_scheduler (mf_permissions m)"
    and "lit ''schedule.cancel'' \<in> requested_capabilities m \<longleftrightarrow> pp_scheduler (mf_permissions m)"
  using not_action [OF assms] by (simp_all add: capability_kinds del: lit_Cons)

lemma action_capability:
  "lit ''message.reply'' \<in> requested_capabilities m \<longleftrightarrow> lit ''message.reply'' \<in> set (pp_actions (mf_permissions m))"
  "lit ''message.send'' \<in> requested_capabilities m \<longleftrightarrow> lit ''message.send'' \<in> set (pp_actions (mf_permissions m))"
  "lit ''media.reply'' \<in> requested_capabilities m \<longleftrightarrow> lit ''media.reply'' \<in> set (pp_actions (mf_permissions m))"
  "lit ''media.send'' \<in> requested_capabilities m \<longleftrightarrow> lit ''media.send'' \<in> set (pp_actions (mf_permissions m))"
  by (simp_all add: capability_kinds del: lit_Cons)

lemma action_capabilities:
  assumes "supported m"
  shows "requested_capabilities m \<inter> set supported_actions = set (pp_actions (mf_permissions m))"
proof -
  have "a \<in> requested_capabilities m \<longleftrightarrow> a \<in> set (pp_actions (mf_permissions m))"
    if "a \<in> set supported_actions" for a
    using that unfolding supported_actions_def list.map list.set insert_iff empty_iff
    using action_capability [of m] by metis
  with assms show ?thesis unfolding supported_def by blast
qed

lemma host_capabilities:
  assumes "supported m"
  shows "http_capability q \<in> requested_capabilities m \<longleftrightarrow>
    (\<exists>p\<in>set (pp_http (mf_permissions m)). hp_host p = hp_host q \<and> hp_port p = hp_port q)"
proof -
  obtain r where r: "http_capability q = lit ''http.host.'' @ r"
    by (simp add: http_capability_def del: lit_Cons)
  have "lit ''http.host.'' @ r \<in> requested_capabilities m \<longleftrightarrow>
      (\<exists>p\<in>set (pp_http (mf_permissions m)). http_capability p = lit ''http.host.'' @ r)"
    using not_action [OF assms] by (simp add: capability_kinds del: lit_Cons) blast
  then show ?thesis by (simp only: http_capability_inj flip: r)
qed

lemma credential_capabilities:
  assumes "supported m"
  shows "lit ''http.credential.'' @ n \<in> requested_capabilities m \<longleftrightarrow>
    (\<exists>p\<in>set (pp_http (mf_permissions m)). hp_credential p = Some n)"
  using not_action [OF assms] by (simp add: capability_kinds del: lit_Cons)

lemma extension_capabilities:
  assumes "supported m"
  shows "lit ''event.extension.'' @ x \<in> requested_capabilities m \<longleftrightarrow>
    x \<in> set (pp_event_extensions (mf_permissions m))"
  using not_action [OF assms] by (simp add: capability_kinds del: lit_Cons)

text \<open>What the capabilities requested by a valid manifest mean: \<open>http.request\<close>, \<open>browser.run\<close>,
  \<open>storage.private\<close>, \<open>event.stop_propagation\<close> and the two schedule capabilities are requested exactly when
  the manifest declares them; the capability of a host and port exactly when some HTTP permission names that
  host and port, whatever the texts of the other hosts are; a credential exactly when some permission uses it;
  an event extension and an action exactly when declared. No text of a declaration is taken for another
  capability.\<close>

theorem capabilities_declared:
  assumes "validate_manifest L m = None"
  shows "(lit ''http.request'' \<in> requested_capabilities m) = (pp_http (mf_permissions m) \<noteq> []) \<and>
    (lit ''browser.run'' \<in> requested_capabilities m) = (pp_browser (mf_permissions m) \<noteq> []) \<and>
    (lit ''storage.private'' \<in> requested_capabilities m) = (pp_storage (mf_permissions m) = Storage_Private) \<and>
    (lit ''event.stop_propagation'' \<in> requested_capabilities m) = pp_stop_propagation (mf_permissions m) \<and>
    (lit ''schedule.create'' \<in> requested_capabilities m) = pp_scheduler (mf_permissions m) \<and>
    (lit ''schedule.cancel'' \<in> requested_capabilities m) = pp_scheduler (mf_permissions m) \<and>
    (http_capability q \<in> requested_capabilities m) =
      (\<exists>p\<in>set (pp_http (mf_permissions m)). hp_host p = hp_host q \<and> hp_port p = hp_port q) \<and>
    (lit ''http.credential.'' @ n \<in> requested_capabilities m) =
      (\<exists>p\<in>set (pp_http (mf_permissions m)). hp_credential p = Some n) \<and>
    (lit ''event.extension.'' @ x \<in> requested_capabilities m) = (x \<in> set (pp_event_extensions (mf_permissions m))) \<and>
    requested_capabilities m \<inter> set supported_actions = set (pp_actions (mf_permissions m))"
proof -
  from assms have "supported m" by (simp add: validate_manifest_None supported_def)
  then show ?thesis
    by (simp only: fixed_capabilities host_capabilities credential_capabilities extension_capabilities
        action_capabilities)
qed

definition demo_manifest :: plugin_manifest where
  "demo_manifest = \<lparr>mf_manifest_version = 1, mf_id = lit ''org.example.demo'',
     mf_metadata = single_locale (lit ''en-US'') (lit ''Demo'') (lit ''A demo''),
     mf_version = lit ''0.1.0'', mf_protocol = lit ''^1.1'', mf_state_version = 1,
     mf_entry = lit ''component.wasm'', mf_runtime = default_runtime_config,
     mf_subscriptions = [], mf_commands = [],
     mf_permissions = \<lparr>pp_actions = [lit ''message.send''], pp_event_extensions = [lit ''stop_propagation''],
       pp_http = [demo_permission ''/v1''], pp_browser = [], pp_storage = Storage_Private,
       pp_storage_quota = 1024, pp_scheduler = False, pp_stop_propagation = False\<rparr>\<rparr>"

lemma capabilities_declared_witness:
  "(lit ''event.stop_propagation'' \<in> requested_capabilities demo_manifest) = False \<and>
   (lit ''event.extension.'' @ lit ''stop_propagation'' \<in> requested_capabilities demo_manifest)"
proof -
  have "validate_manifest demo_libs demo_manifest = None" by code_simp
  from capabilities_declared [OF this, where q = "demo_permission ''/v1''" and n = "[]" and x = "lit ''stop_propagation''"]
  show ?thesis by (simp add: demo_manifest_def del: lit_Cons)
qed

section \<open>Locales\<close>

text \<open>The tag itself, then what is left when its last subtags are dropped one by one.\<close>

definition locale_candidates :: "ustr \<Rightarrow> ustr list" where
  "locale_candidates tag =
     (let subtags = split_char ch_minus tag
      in map (\<lambda>k. join_char ch_minus (take k subtags)) (rev [1..<Suc (length subtags)]))"

fun first_entry :: "(ustr, 'a) btmap \<Rightarrow> ustr list \<Rightarrow> 'a option" where
  "first_entry m [] = None"
| "first_entry m (c # cs) = (case bt_get m c of Some x \<Rightarrow> Some x | None \<Rightarrow> first_entry m cs)"

lemma before_last_minus_None:
  assumes "before_last_minus s = None"
  shows "locale_candidates s = [s]"
proof -
  from assms have "ch_minus \<notin> set s" by (auto simp: before_last_minus_def split_once_None)
  then show ?thesis by (simp add: locale_candidates_def split_char_none)
qed

lemma before_last_minus_Some:
  assumes "before_last_minus s = Some p"
  shows "locale_candidates s = s # locale_candidates p"
proof -
  have "ch_minus \<in> set s"
    using assms split_once_None [of "\<lambda>c. c = ch_minus" "rev s"] by (auto simp: before_last_minus_def)
  then obtain a b where s: "s = a @ ch_minus # b" and b: "ch_minus \<notin> set b"
    using split_list_last by fastforce
  have "split_once (\<lambda>c. c = ch_minus) (rev b @ ch_minus # rev a) = Some (rev b, rev a)"
    using b by (intro split_once_skip) auto
  with assms s have p: "p = a" by (simp add: before_last_minus_def)
  have "split_char ch_minus s = split_char ch_minus p @ [b]"
    unfolding s p split_char_append by (simp add: split_char_none [OF b])
  then show ?thesis
    using join_split_char [of ch_minus s] by (auto simp: locale_candidates_def Let_def)
qed

lemma locale_candidates_own: "bt_get m s = Some x \<Longrightarrow> first_entry m (locale_candidates s) = Some x"
  by (cases "before_last_minus s") (simp_all add: before_last_minus_None before_last_minus_Some)

lemma resolve_prefix_candidates:
  "first_entry m (locale_candidates s) =
   (case bt_get m s of Some x \<Rightarrow> Some x | None \<Rightarrow> resolve_prefix m s)"
proof (induction m s rule: resolve_prefix.induct)
  case (1 m s)
  show ?case
  proof (cases "before_last_minus s")
    case None
    then show ?thesis
      by (simp add: before_last_minus_None resolve_prefix.simps [of m s] split: option.split)
  next
    case (Some p)
    show ?thesis
      unfolding before_last_minus_Some [OF Some] resolve_prefix.simps [of m s]
      using 1 [OF Some] locale_candidates_own [of m p] by (simp add: Some split: option.split)
  qed
qed

text \<open>With valid metadata the display text for a locale is always found, whatever tag is asked for: the
  entry of the canonical tag, else of the longest tag that is left when subtags are dropped from its end, else
  the entry of the default locale.\<close>

theorem resolve_metadata_nearest:
  assumes "metadata_ok L m"
  shows "resolve_metadata L m requested = Inr
    (case first_entry (md_locales m)
            (locale_candidates (case ml_locale L requested of None \<Rightarrow> requested | Some t \<Rightarrow> t)) of
       Some x \<Rightarrow> x
     | None \<Rightarrow> the (bt_get (md_locales m) (md_default_locale m)))"
proof -
  from assms obtain d where "bt_get (md_locales m) (md_default_locale m) = Some d"
    by (auto simp: metadata_ok_def bt_contains_def)
  then show ?thesis
    unfolding resolve_metadata_def resolve_prefix_candidates Let_def
    using assms by (auto split: option.split)
qed

lemma resolve_metadata_nearest_witness:
  "resolve_metadata demo_libs (single_locale (lit ''zh-Hant'') (lit ''N'') (lit ''D'')) (lit ''zh-Hant-TW'') =
   Inr \<lparr>lm_name = lit ''N'', lm_description = lit ''D''\<rparr>"
proof -
  have "metadata_ok demo_libs (single_locale (lit ''zh-Hant'') (lit ''N'') (lit ''D''))" by code_simp
  from resolve_metadata_nearest [OF this, of "lit ''zh-Hant-TW''"] show ?thesis by (simp only:) code_simp
qed

end
