(* ===== verification/HttpExec.thy ===== *)
theory HttpExec
  imports PluginManifestProps "HOL-Library.Word"
begin

unbundle bit_operations_syntax

text \<open>
  The HTTP executor of the plugin host (\<open>crates/plugin-host/src/http.rs\<close>): the limits of a request, the
  target that a manifest and its grants authorize, named bearer credentials, the public addresses a name may
  resolve to, the redirect loop and the limits of the response. The crates \<open>url\<close>, \<open>http\<close> and \<open>reqwest\<close> are
  parameters (record \<open>http_libs\<close>); the resolver, the clock and the server are the rounds of the environment
  (record \<open>hop\<close>), one for each turn of the loop. The texts inside errors are replaced by a reason.
\<close>

section \<open>Data\<close>

type_synonym byte = "8 word"

datatype http_reason =
    R_TimeoutRange
  | R_ResponseRange
  | R_BodyTooLarge
  | R_Headers
  | R_HeadersAfterInjection
  | R_Method
  | R_Url
  | R_NoPort
  | R_Location
  | R_HeaderName
  | R_HeaderValue
  | R_CredentialName
  | R_CredentialEmpty
  | R_CredentialTooLong
  | R_CredentialHeader
  | R_NotUnicode

datatype http_denial =
    D_NotPlainHttps
  | D_NotDomain
  | D_OutsideAllowlist
  | D_ConflictingCredentials
  | D_TargetNotGranted
  | D_CredentialNotGranted
  | D_CredentialUnavailable
  | D_HostHeader
  | D_RedirectLimit

datatype transport_reason = T_TimedOut | T_DnsTimedOut | T_Client | T_Send | T_Chunk

datatype dns_reason = N_Failed | N_NoAddress | N_TooMany

datatype http_error =
    InvalidRequest http_reason
  | Denied http_denial
  | Dns dns_reason
  | NonPublicAddress
  | Transport transport_reason
  | ResponseTooLarge

record http_request =
  rq_method :: ustr
  rq_url :: ustr
  rq_headers :: "(ustr, ustr) btmap"
  rq_body :: "byte list option"
  rq_timeout_ms :: u64
  rq_max_response_bytes :: u64

record http_response =
  rs_status :: u16
  rs_final_url :: ustr
  rs_headers :: "(ustr, ustr) btmap"
  rs_body :: "byte list"

text \<open>What the accessors of \<open>url::Url\<close> return: \<open>hu_port\<close> is \<open>port_or_known_default\<close>, \<open>hu_text\<close> the serialization.\<close>

record http_url =
  hu_scheme :: ustr
  hu_username :: ustr
  hu_password :: "ustr option"
  hu_fragment :: "ustr option"
  hu_host :: "parsed_host option"
  hu_port :: "u16 option"
  hu_path :: ustr
  hu_text :: ustr

text \<open>\<open>Method::from_bytes\<close>, \<open>Url::parse\<close>, \<open>Url::join\<close>, \<open>HeaderName::from_bytes\<close>, \<open>HeaderValue::from_str\<close> and
  \<open>HeaderValue::to_str\<close>. A method that is accepted keeps its text.\<close>

record http_libs =
  hl_method :: "ustr \<Rightarrow> bool"
  hl_parse :: "ustr \<Rightarrow> http_url option"
  hl_join :: "http_url \<Rightarrow> ustr \<Rightarrow> http_url option"
  hl_name :: "ustr \<Rightarrow> ustr option"
  hl_value :: "ustr \<Rightarrow> byte list option"
  hl_to_str :: "byte list \<Rightarrow> ustr option"

definition max_request_body_bytes :: nat where "max_request_body_bytes = 256 * 1024"
definition max_request_headers :: nat where "max_request_headers = 64"
definition max_request_header_bytes :: nat where "max_request_header_bytes = 32 * 1024"
definition max_bearer_credential_bytes :: nat where "max_bearer_credential_bytes = 8 * 1024"
definition max_response_bytes :: u64 where "max_response_bytes = 1024 * 1024"
definition max_timeout_ms :: u64 where "max_timeout_ms = 15000"
definition max_redirects :: nat where "max_redirects = 3"
definition max_response_headers :: nat where "max_response_headers = 64"
definition max_response_header_bytes :: nat where "max_response_header_bytes = 32 * 1024"

lemmas http_limits = max_request_body_bytes_def max_request_headers_def max_request_header_bytes_def
  max_bearer_credential_bytes_def max_response_bytes_def max_timeout_ms_def max_redirects_def
  max_response_headers_def max_response_header_bytes_def

definition http_bearer_env_prefix :: ustr where
  "http_bearer_env_prefix = lit ''BKMQB_PLUGIN_HTTP_BEARER_''"

definition bind_ok :: "'e + 'a \<Rightarrow> ('a \<Rightarrow> 'e + 'b) \<Rightarrow> 'e + 'b" where
  "bind_ok r f = (case r of Inl e \<Rightarrow> Inl e | Inr x \<Rightarrow> f x)"

lemma bind_ok_Inr: "bind_ok r f = Inr y \<longleftrightarrow> (\<exists>x. r = Inr x \<and> f x = Inr y)"
  by (cases r) (auto simp: bind_ok_def)

definition ok_or :: "'e \<Rightarrow> 'a option \<Rightarrow> 'e + 'a" where
  "ok_or e x = (case x of None \<Rightarrow> Inl e | Some v \<Rightarrow> Inr v)"

lemma ok_or_Inr [simp]: "ok_or e x = Inr v \<longleftrightarrow> x = Some v"
  by (auto simp: ok_or_def split: option.splits)

section \<open>Bearer credentials\<close>

definition validate_bearer_credential_value :: "http_libs \<Rightarrow> ustr \<Rightarrow> http_error + unit" where
  "validate_bearer_credential_value L value =
     (if trim value = [] then Inl (InvalidRequest R_CredentialEmpty)
      else if blen value > max_bearer_credential_bytes then Inl (InvalidRequest R_CredentialTooLong)
      else if hl_value L (lit ''Bearer '' @ value) = None then Inl (InvalidRequest R_CredentialHeader)
      else Inr ())"

definition credential_suffix_ok :: "ustr \<Rightarrow> bool" where
  "credential_suffix_ok s \<longleftrightarrow>
     s \<noteq> [] \<and> list_all (\<lambda>c. is_ascii_uppercase c \<or> is_ascii_digit c \<or> c = ch_underscore) s \<and>
     is_valid_http_credential_name (to_ascii_lowercase s)"

text \<open>The environment is the list of its variables; a name or a value that is no Unicode text is \<open>None\<close>.\<close>

fun read_environment ::
    "http_libs \<Rightarrow> (ustr, ustr) btmap \<Rightarrow> (ustr option \<times> ustr option) list \<Rightarrow> http_error + (ustr, ustr) btmap" where
  "read_environment L creds [] = Inr creds"
| "read_environment L creds ((None, v) # vs) = read_environment L creds vs"
| "read_environment L creds ((Some name, v) # vs) =
     (case strip_prefix http_bearer_env_prefix name of
        None \<Rightarrow> read_environment L creds vs
      | Some s \<Rightarrow>
          if \<not> credential_suffix_ok s then Inl (InvalidRequest R_CredentialName)
          else (case v of
                  None \<Rightarrow> Inl (InvalidRequest R_NotUnicode)
                | Some value \<Rightarrow>
                    bind_ok (validate_bearer_credential_value L value)
                      (\<lambda>_. read_environment L (bt_put (to_ascii_lowercase s) value creds) vs)))"

definition from_environment ::
    "http_libs \<Rightarrow> (ustr option \<times> ustr option) list \<Rightarrow> http_error + (ustr, ustr) btmap" where
  "from_environment L vars = read_environment L [] vars"

definition with_bearer_credential ::
    "http_libs \<Rightarrow> (ustr, ustr) btmap \<Rightarrow> ustr \<Rightarrow> ustr \<Rightarrow> http_error + (ustr, ustr) btmap" where
  "with_bearer_credential L creds name value =
     (if \<not> is_valid_http_credential_name name then Inl (InvalidRequest R_CredentialName)
      else bind_ok (validate_bearer_credential_value L value) (\<lambda>_. Inr (bt_put name value creds)))"

definition bearer_authorization_value ::
    "http_libs \<Rightarrow> (ustr, ustr) btmap \<Rightarrow> ustr \<Rightarrow> http_error + byte list" where
  "bearer_authorization_value L creds credential =
     bind_ok (ok_or (Denied D_CredentialUnavailable) (bt_get creds credential))
       (\<lambda>secret. ok_or (InvalidRequest R_CredentialHeader) (hl_value L (lit ''Bearer '' @ secret)))"

section \<open>Limits of a request\<close>

definition header_bytes :: "nat \<Rightarrow> (ustr, ustr) btmap \<Rightarrow> nat" where
  "header_bytes start hs =
     fold (\<lambda>(name, value) total. usize_sat_add (usize_sat_add total (blen name)) (blen value)) hs start"

definition validate_credential_injection_limits :: "http_request \<Rightarrow> byte list \<Rightarrow> http_error + unit" where
  "validate_credential_injection_limits request authorization =
     (if bt_len (rq_headers request) \<ge> max_request_headers \<or>
         header_bytes (usize_sat_add (blen (lit ''authorization'')) (length authorization)) (rq_headers request)
           > max_request_header_bytes
      then Inl (InvalidRequest R_HeadersAfterInjection) else Inr ())"

definition validate_request_limits :: "http_request \<Rightarrow> http_error + unit" where
  "validate_request_limits request =
     (if rq_timeout_ms request = 0 \<or> rq_timeout_ms request > max_timeout_ms then Inl (InvalidRequest R_TimeoutRange)
      else if rq_max_response_bytes request = 0 \<or> rq_max_response_bytes request > max_response_bytes
      then Inl (InvalidRequest R_ResponseRange)
      else if (case rq_body request of None \<Rightarrow> False | Some b \<Rightarrow> length b > max_request_body_bytes)
      then Inl (InvalidRequest R_BodyTooLarge)
      else if bt_len (rq_headers request) > max_request_headers \<or>
              header_bytes 0 (rq_headers request) > max_request_header_bytes
      then Inl (InvalidRequest R_Headers)
      else Inr ())"

definition host_controlled_headers :: "ustr list" where
  "host_controlled_headers = map lit [''authorization'', ''connection'', ''content-length'', ''cookie'', ''host'',
     ''proxy-authorization'', ''proxy-connection'', ''te'', ''trailer'', ''transfer-encoding'', ''upgrade'']"

definition validate_request_header :: "ustr \<Rightarrow> http_error + unit" where
  "validate_request_header name =
     (if to_ascii_lowercase name \<in> set host_controlled_headers then Inl (Denied D_HostHeader) else Inr ())"

fun request_headers :: "http_libs \<Rightarrow> (ustr, ustr) btmap \<Rightarrow> http_error + (ustr \<times> byte list) list" where
  "request_headers L [] = Inr []"
| "request_headers L ((name, value) # hs) =
     bind_ok (validate_request_header name)
       (\<lambda>_. bind_ok (ok_or (InvalidRequest R_HeaderName) (hl_name L name))
       (\<lambda>n. bind_ok (ok_or (InvalidRequest R_HeaderValue) (hl_value L value))
       (\<lambda>v. bind_ok (request_headers L hs) (\<lambda>rest. Inr ((n, v) # rest)))))"

section \<open>Targets\<close>

definition authorized_target ::
    "http_url \<Rightarrow> ustr \<Rightarrow> http_permission list \<Rightarrow> ustr set \<Rightarrow> http_error + ustr \<times> u16 \<times> http_permission" where
  "authorized_target url meth permissions granted =
     (if hu_scheme url \<noteq> lit ''https'' \<or> hu_username url \<noteq> [] \<or> hu_password url \<noteq> None \<or> hu_fragment url \<noteq> None
      then Inl (Denied D_NotPlainHttps)
      else
        (case hu_host url of
           Some (Host_Domain host) \<Rightarrow>
             (case hu_port url of
                None \<Rightarrow> Inl (InvalidRequest R_NoPort)
              | Some port \<Rightarrow>
                  (case filter (permission_covers host port meth (hu_path url)) permissions of
                     [] \<Rightarrow> Inl (Denied D_OutsideAllowlist)
                   | p # others \<Rightarrow>
                       if list_ex (\<lambda>other. hp_credential other \<noteq> hp_credential p) others
                       then Inl (Denied D_ConflictingCredentials)
                       else if lit ''http.request'' \<notin> granted \<or> http_capability p \<notin> granted
                       then Inl (Denied D_TargetNotGranted)
                       else if (case http_credential_capability p of None \<Rightarrow> False | Some c \<Rightarrow> c \<notin> granted)
                       then Inl (Denied D_CredentialNotGranted)
                       else Inr (host, port, p)))
         | _ \<Rightarrow> Inl (Denied D_NotDomain)))"

section \<open>Public addresses\<close>

datatype ip_addr =
    V4 byte byte byte byte
  | V6 u16 u16 u16 u16 u16 u16 u16 u16

fun is_public_ipv4 :: "byte \<Rightarrow> byte \<Rightarrow> byte \<Rightarrow> byte \<Rightarrow> bool" where
  "is_public_ipv4 a b c d \<longleftrightarrow>
     \<not> (a = 0 \<or> a = 10 \<or> a = 127 \<or> (a = 100 \<and> 64 \<le> b \<and> b \<le> 127) \<or> (a = 169 \<and> b = 254) \<or>
        (a = 172 \<and> 16 \<le> b \<and> b \<le> 31) \<or> (a = 192 \<and> b = 0 \<and> c = 0) \<or> (a = 192 \<and> b = 88 \<and> c = 99) \<or>
        (a = 192 \<and> b = 0 \<and> c = 2) \<or> (a = 192 \<and> b = 168) \<or> (a = 198 \<and> (b = 18 \<or> b = 19)) \<or>
        (a = 198 \<and> b = 51 \<and> c = 100) \<or> (a = 203 \<and> b = 0 \<and> c = 113) \<or> a \<ge> 224)"

text \<open>\<open>Ipv6Addr::to_ipv4\<close>: the addresses \<open>::a.b.c.d\<close> and \<open>::ffff:a.b.c.d\<close>.\<close>

definition high_byte :: "u16 \<Rightarrow> byte" where "high_byte w = ucast (drop_bit 8 w)"
definition low_byte :: "u16 \<Rightarrow> byte" where "low_byte w = ucast w"

fun is_public_ipv6 :: "u16 \<Rightarrow> u16 \<Rightarrow> u16 \<Rightarrow> u16 \<Rightarrow> u16 \<Rightarrow> u16 \<Rightarrow> u16 \<Rightarrow> u16 \<Rightarrow> bool" where
  "is_public_ipv6 s0 s1 s2 s3 s4 s5 s6 s7 =
     (if s0 = 0 \<and> s1 = 0 \<and> s2 = 0 \<and> s3 = 0 \<and> s4 = 0 \<and> (s5 = 0 \<or> s5 = 0xffff)
      then is_public_ipv4 (high_byte s6) (low_byte s6) (high_byte s7) (low_byte s7)
      else
        \<not> ((s0 = 0 \<and> s1 = 0 \<and> s2 = 0 \<and> s3 = 0 \<and> s4 = 0 \<and> s5 = 0 \<and> s6 = 0 \<and> s7 = 0) \<or>
           (s0 = 0 \<and> s1 = 0 \<and> s2 = 0 \<and> s3 = 0 \<and> s4 = 0 \<and> s5 = 0 \<and> s6 = 0 \<and> s7 = 1) \<or>
           s0 AND 0xff00 = 0xff00 \<or>
           s0 AND 0xfe00 = 0xfc00 \<or>
           s0 AND 0xffc0 = 0xfe80 \<or>
           s0 AND 0xffc0 = 0xfec0 \<or>
           (s0 = 0x0064 \<and> s1 = 0xff9b \<and> (s2 = 0 \<or> s2 = 1)) \<or>
           (s0 = 0x2001 \<and> s1 \<le> 0x01ff) \<or>
           (s0 = 0x2001 \<and> s1 = 0x0db8) \<or>
           s0 = 0x2002 \<or>
           s0 AND 0xfff0 = 0x3ff0))"

fun is_public_ip :: "ip_addr \<Rightarrow> bool" where
  "is_public_ip (V4 a b c d) = is_public_ipv4 a b c d"
| "is_public_ip (V6 s0 s1 s2 s3 s4 s5 s6 s7) = is_public_ipv6 s0 s1 s2 s3 s4 s5 s6 s7"

text \<open>The answer of the resolver: it failed, or it gave addresses and ports.\<close>

datatype lookup = Lookup_Failed | Lookup_Addresses "(ip_addr \<times> u16) list"

fun resolve_public_addresses :: "lookup \<Rightarrow> http_error + (ip_addr \<times> u16) list" where
  "resolve_public_addresses Lookup_Failed = Inl (Dns N_Failed)"
| "resolve_public_addresses (Lookup_Addresses xs) =
     (let addresses = take 17 xs in
      if addresses = [] then Inl (Dns N_NoAddress)
      else if length addresses > 16 then Inl (Dns N_TooMany)
      else if list_ex (\<lambda>a. \<not> is_public_ip (fst a)) addresses then Inl NonPublicAddress
      else Inr addresses)"

section \<open>Responses\<close>

record http_reply =
  rp_status :: u16
  rp_headers :: "(ustr \<times> byte list) list"
  rp_length :: "u64 option"
  rp_url :: ustr
  rp_chunks :: "byte list option list"

fun collect_headers ::
    "http_libs \<Rightarrow> nat \<Rightarrow> (ustr, ustr) btmap \<Rightarrow> (ustr \<times> byte list) list \<Rightarrow> http_error + (ustr, ustr) btmap" where
  "collect_headers L bytes hs [] = Inr hs"
| "collect_headers L bytes hs ((name, value) # rest) =
     (let bytes = usize_sat_add (usize_sat_add bytes (blen name)) (length value) in
      if bytes > max_response_header_bytes then Inl ResponseTooLarge
      else collect_headers L bytes (case hl_to_str L value of None \<Rightarrow> hs | Some v \<Rightarrow> bt_put name v hs) rest)"

definition response_headers :: "http_libs \<Rightarrow> (ustr \<times> byte list) list \<Rightarrow> http_error + (ustr, ustr) btmap" where
  "response_headers L source =
     (if length source > max_response_headers then Inl ResponseTooLarge else collect_headers L 0 [] source)"

fun read_body :: "nat \<Rightarrow> byte list \<Rightarrow> byte list option list \<Rightarrow> http_error + byte list" where
  "read_body limit body [] = Inr body"
| "read_body limit body (None # cs) = Inl (Transport T_Chunk)"
| "read_body limit body (Some chunk # cs) =
     (if usize_sat_add (length body) (length chunk) > limit then Inl ResponseTooLarge
      else read_body limit (body @ chunk) cs)"

definition finish_response :: "http_libs \<Rightarrow> http_request \<Rightarrow> http_reply \<Rightarrow> http_error + http_response" where
  "finish_response L request reply =
     (let limit = min (rq_max_response_bytes request) max_response_bytes in
      if (case rp_length reply of None \<Rightarrow> False | Some n \<Rightarrow> n > limit) then Inl ResponseTooLarge
      else bind_ok (response_headers L (rp_headers reply))
        (\<lambda>hs. bind_ok (read_body (unat limit) [] (rp_chunks reply))
        (\<lambda>body. Inr \<lparr>rs_status = rp_status reply, rs_final_url = rp_url reply, rs_headers = hs, rs_body = body\<rparr>)))"

section \<open>The redirect loop\<close>

text \<open>What the environment does in one turn: the two readings of the clock, the resolver (\<open>None\<close> when the time
  runs out first), whether the client could be built, and the answer of the server.\<close>

record hop =
  ho_now :: nat
  ho_lookup :: "lookup option"
  ho_later :: nat
  ho_client :: bool
  ho_reply :: "http_reply option"

record sent_request =
  sr_url :: http_url
  sr_method :: ustr
  sr_host :: ustr
  sr_addresses :: "(ip_addr \<times> u16) list"
  sr_headers :: "(ustr \<times> byte list) list"
  sr_authorization :: "byte list option"
  sr_body :: "byte list option"

record http_call =
  hc_credentials :: "(ustr, ustr) btmap"
  hc_permissions :: "http_permission list"
  hc_granted :: "ustr set"
  hc_request :: http_request
  hc_deadline :: nat

definition authorization_for ::
    "http_libs \<Rightarrow> http_call \<Rightarrow> http_permission \<Rightarrow> http_error + byte list option" where
  "authorization_for L call permission =
     (case hp_credential permission of
        None \<Rightarrow> Inr None
      | Some credential \<Rightarrow>
          bind_ok (bearer_authorization_value L (hc_credentials call) credential)
            (\<lambda>value. bind_ok (validate_credential_injection_limits (hc_request call) value)
            (\<lambda>_. Inr (Some value))))"

text \<open>One turn up to \<open>send\<close>.\<close>

definition prepare_hop :: "http_libs \<Rightarrow> http_call \<Rightarrow> http_url \<Rightarrow> hop \<Rightarrow> http_error + sent_request" where
  "prepare_hop L call url h =
     (if ho_now h > hc_deadline call then Inl (Transport T_TimedOut)
      else bind_ok (authorized_target url (rq_method (hc_request call)) (hc_permissions call) (hc_granted call))
        (\<lambda>(host, port, permission). bind_ok (case ho_lookup h of None \<Rightarrow> Inl (Transport T_DnsTimedOut) | Some l \<Rightarrow> resolve_public_addresses l)
        (\<lambda>addresses.
           if ho_later h > hc_deadline call then Inl (Transport T_TimedOut)
           else if \<not> ho_client h then Inl (Transport T_Client)
           else bind_ok (request_headers L (rq_headers (hc_request call)))
             (\<lambda>headers. bind_ok (authorization_for L call permission)
             (\<lambda>authorization. Inr \<lparr>sr_url = url, sr_method = rq_method (hc_request call), sr_host = host,
                sr_addresses = addresses, sr_headers = headers, sr_authorization = authorization,
                sr_body = rq_body (hc_request call)\<rparr>)))))"

datatype hop_end = Hop_Return "http_error + http_response" | Hop_Redirect http_url

definition follows_redirect :: "http_request \<Rightarrow> http_reply \<Rightarrow> bool" where
  "follows_redirect request reply \<longleftrightarrow>
     (rq_method request = lit ''GET'' \<or> rq_method request = lit ''HEAD'') \<and>
     300 \<le> rp_status reply \<and> rp_status reply < 400"

definition after_reply :: "http_libs \<Rightarrow> http_request \<Rightarrow> http_url \<Rightarrow> nat \<Rightarrow> http_reply \<Rightarrow> hop_end" where
  "after_reply L request url redirects reply =
     (case (if follows_redirect request reply then map_of (rp_headers reply) (lit ''location'') else None) of
        None \<Rightarrow> Hop_Return (finish_response L request reply)
      | Some location \<Rightarrow>
          if redirects \<ge> max_redirects then Hop_Return (Inl (Denied D_RedirectLimit))
          else (case hl_to_str L location of
                  None \<Rightarrow> Hop_Return (Inl (InvalidRequest R_Location))
                | Some text \<Rightarrow>
                    (case hl_join L url text of
                       None \<Rightarrow> Hop_Return (Inl (InvalidRequest R_Url))
                     | Some target \<Rightarrow> Hop_Redirect target)))"

lemma after_reply_Redirect: "after_reply L request url redirects reply = Hop_Redirect u \<Longrightarrow> redirects < max_redirects"
  by (auto simp: after_reply_def split: option.splits if_splits)

text \<open>The loop returns the requests it sent, in order, with its result.\<close>

function execute_loop ::
    "http_libs \<Rightarrow> http_call \<Rightarrow> (nat \<Rightarrow> hop) \<Rightarrow> nat \<Rightarrow> http_url \<Rightarrow> sent_request list \<times> (http_error + http_response)" where
  "execute_loop L call hops redirects url =
     (case prepare_hop L call url (hops redirects) of
        Inl e \<Rightarrow> ([], Inl e)
      | Inr sent \<Rightarrow>
          (case ho_reply (hops redirects) of
             None \<Rightarrow> ([sent], Inl (Transport T_Send))
           | Some reply \<Rightarrow>
               (case after_reply L (hc_request call) url redirects reply of
                  Hop_Return r \<Rightarrow> ([sent], r)
                | Hop_Redirect target \<Rightarrow>
                    (let (log, r) = execute_loop L call hops (redirects + 1) target in (sent # log, r)))))"
  by pat_completeness auto

termination
  by (relation "measure (\<lambda>(L, call, hops, redirects, url). max_redirects - redirects)")
    (auto dest: after_reply_Redirect)

declare execute_loop.simps [simp del]

definition execute ::
    "http_libs \<Rightarrow> (ustr, ustr) btmap \<Rightarrow> http_permission list \<Rightarrow> ustr set \<Rightarrow> http_request \<Rightarrow> nat \<Rightarrow> (nat \<Rightarrow> hop) \<Rightarrow>
     sent_request list \<times> (http_error + http_response)" where
  "execute L credentials permissions granted request now hops =
     (case validate_request_limits request of
        Inl e \<Rightarrow> ([], Inl e)
      | Inr _ \<Rightarrow>
          if \<not> hl_method L (rq_method request) then ([], Inl (InvalidRequest R_Method))
          else (case hl_parse L (rq_url request) of
                  None \<Rightarrow> ([], Inl (InvalidRequest R_Url))
                | Some url \<Rightarrow>
                    execute_loop L \<lparr>hc_credentials = credentials, hc_permissions = permissions, hc_granted = granted,
                      hc_request = request, hc_deadline = now + unat (rq_timeout_ms request)\<rparr> hops 0 url))"

end
