(* ===== verification/HttpExecProps.thy ===== *)
theory HttpExecProps
  imports HttpExec
begin

text \<open>
  Properties of the HTTP executor: which addresses are public, what every request on the wire satisfies
  however servers redirect, that the redirect loop ends, the limits of responses, and the credentials read
  from the environment.
\<close>

section \<open>Public addresses\<close>

text \<open>The reserved blocks of IPv4 and, by their first 48 bits, of IPv6.\<close>

definition ipv4_number :: "nat \<Rightarrow> nat \<Rightarrow> nat \<Rightarrow> nat \<Rightarrow> nat" where
  "ipv4_number a b c d = ((a * 256 + b) * 256 + c) * 256 + d"

definition reserved_ipv4 :: "(nat \<times> nat) list" where
  "reserved_ipv4 =
     [(ipv4_number 0 0 0 0, 8), (ipv4_number 10 0 0 0, 8), (ipv4_number 127 0 0 0, 8),
      (ipv4_number 100 64 0 0, 10), (ipv4_number 169 254 0 0, 16), (ipv4_number 172 16 0 0, 12),
      (ipv4_number 192 0 0 0, 24), (ipv4_number 192 88 99 0, 24), (ipv4_number 192 0 2 0, 24),
      (ipv4_number 192 168 0 0, 16), (ipv4_number 198 18 0 0, 15), (ipv4_number 198 51 100 0, 24),
      (ipv4_number 203 0 113 0, 24), (ipv4_number 224 0 0 0, 3)]"

definition in_block :: "nat \<Rightarrow> nat \<Rightarrow> nat \<times> nat \<Rightarrow> bool" where
  "in_block width n blk \<longleftrightarrow> n div 2 ^ (width - snd blk) = fst blk div 2 ^ (width - snd blk)"

lemma ipv4_divs:
  assumes "b < 256" "c < 256" "d < (256 :: nat)"
  shows "ipv4_number a b c d div 16777216 = a"
    and "ipv4_number a b c d div 65536 = a * 256 + b"
    and "ipv4_number a b c d div 256 = (a * 256 + b) * 256 + c"
    and "ipv4_number a b c d div 4194304 = (a * 256 + b) div 64"
    and "ipv4_number a b c d div 1048576 = (a * 256 + b) div 16"
    and "ipv4_number a b c d div 131072 = (a * 256 + b) div 2"
    and "ipv4_number a b c d div 536870912 = a div 32"
proof -
  let ?n = "ipv4_number a b c d"
  show 1: "?n div 256 = (a * 256 + b) * 256 + c" using assms by (simp add: ipv4_number_def)
  have "?n div 65536 = ?n div 256 div 256" by (simp add: div_mult2_eq [of ?n 256 256, simplified])
  then show 2: "?n div 65536 = a * 256 + b" using assms by (simp add: 1)
  have "?n div 16777216 = ?n div 65536 div 256" by (simp add: div_mult2_eq [of ?n 65536 256, simplified])
  then show 3: "?n div 16777216 = a" using assms by (simp add: 2)
  show "?n div 4194304 = (a * 256 + b) div 64"
    unfolding 2 [symmetric] by (simp add: div_mult2_eq [of ?n 65536 64, simplified])
  show "?n div 1048576 = (a * 256 + b) div 16"
    unfolding 2 [symmetric] by (simp add: div_mult2_eq [of ?n 65536 16, simplified])
  show "?n div 131072 = (a * 256 + b) div 2"
    unfolding 2 [symmetric] by (simp add: div_mult2_eq [of ?n 65536 2, simplified])
  show "?n div 536870912 = a div 32"
    using 3 by (simp add: div_mult2_eq [of ?n 16777216 32, simplified])
qed

lemma div_eq_range: "0 < (k::nat) \<Longrightarrow> n div k = m \<longleftrightarrow> m * k \<le> n \<and> n < m * k + k"
  by (metis add.commute div_less_iff_less_mult less_eq_div_iff_mult_less_eq mult_Suc nat_less_le not_less_eq order.order_iff_strict le_antisym linorder_not_less less_Suc_eq_le)

lemma radix_eq:
  assumes "b < k" "y < (k :: nat)"
  shows "a * k + b = x * k + y \<longleftrightarrow> a = x \<and> b = y"
proof
  assume e: "a * k + b = x * k + y"
  have "a = (a * k + b) div k" "x = (x * k + y) div k" using assms by simp_all
  with e have "a = x" by simp
  with e show "a = x \<and> b = y" by simp
qed simp

lemma radix_between:
  assumes "b < k" "hi < (k :: nat)"
  shows "x * k + lo \<le> a * k + b \<and> a * k + b < x * k + Suc hi \<longleftrightarrow> a = x \<and> lo \<le> b \<and> b \<le> hi"
proof (cases a x rule: linorder_cases)
  case less
  then have "Suc a * k \<le> x * k" by (intro mult_le_mono1) simp
  with assms less show ?thesis by auto
next
  case greater
  then have "Suc x * k \<le> a * k" by (intro mult_le_mono1) simp
  with assms greater show ?thesis by auto
qed auto

lemma triple_divs: "n div 2 ^ (32 - 24) = n div (256 :: nat)" "ipv4_number x y z 0 div 256 = (x * 256 + y) * 256 + z"
  by (simp_all add: ipv4_number_def)

lemma ipv4_blocks:
  assumes "b < 256" "c < 256" "d < (256 :: nat)"
  shows "in_block 32 (ipv4_number a b c d) (ipv4_number x 0 0 0, 8) \<longleftrightarrow> a = x"
    and "y < 256 \<Longrightarrow> in_block 32 (ipv4_number a b c d) (ipv4_number x y 0 0, 16) \<longleftrightarrow> a = x \<and> b = y"
    and "y < 256 \<Longrightarrow> z < 256 \<Longrightarrow>
      in_block 32 (ipv4_number a b c d) (ipv4_number x y z 0, 24) \<longleftrightarrow> a = x \<and> b = y \<and> c = z"
    and "in_block 32 (ipv4_number a b c d) (ipv4_number 100 64 0 0, 10) \<longleftrightarrow> a = 100 \<and> 64 \<le> b \<and> b \<le> 127"
    and "in_block 32 (ipv4_number a b c d) (ipv4_number 172 16 0 0, 12) \<longleftrightarrow> a = 172 \<and> 16 \<le> b \<and> b \<le> 31"
    and "in_block 32 (ipv4_number a b c d) (ipv4_number 198 18 0 0, 15) \<longleftrightarrow> a = 198 \<and> 18 \<le> b \<and> b \<le> 19"
    and "in_block 32 (ipv4_number a b c d) (ipv4_number 224 0 0 0, 3) \<longleftrightarrow> a div 32 = 7"
proof -
  show "in_block 32 (ipv4_number a b c d) (ipv4_number x 0 0 0, 8) \<longleftrightarrow> a = x"
    and "y < 256 \<Longrightarrow> in_block 32 (ipv4_number a b c d) (ipv4_number x y 0 0, 16) \<longleftrightarrow> a = x \<and> b = y"
    and "in_block 32 (ipv4_number a b c d) (ipv4_number 224 0 0 0, 3) \<longleftrightarrow> a div 32 = 7"
    using assms by (simp_all add: in_block_def ipv4_divs radix_eq)
  show "y < 256 \<Longrightarrow> z < 256 \<Longrightarrow>
      in_block 32 (ipv4_number a b c d) (ipv4_number x y z 0, 24) \<longleftrightarrow> a = x \<and> b = y \<and> c = z"
    using assms by (simp only: in_block_def ipv4_divs radix_eq fst_conv snd_conv triple_divs conj_assoc)
  show "in_block 32 (ipv4_number a b c d) (ipv4_number 100 64 0 0, 10) \<longleftrightarrow> a = 100 \<and> 64 \<le> b \<and> b \<le> 127"
    using radix_between [OF assms(1), of 127 100 64 a] assms
    by (simp add: in_block_def ipv4_divs div_eq_range)
  show "in_block 32 (ipv4_number a b c d) (ipv4_number 172 16 0 0, 12) \<longleftrightarrow> a = 172 \<and> 16 \<le> b \<and> b \<le> 31"
    using radix_between [OF assms(1), of 31 172 16 a] assms
    by (simp add: in_block_def ipv4_divs div_eq_range)
  show "in_block 32 (ipv4_number a b c d) (ipv4_number 198 18 0 0, 15) \<longleftrightarrow> a = 198 \<and> 18 \<le> b \<and> b \<le> 19"
    using radix_between [OF assms(1), of 19 198 18 a] assms
    by (simp add: in_block_def ipv4_divs div_eq_range)
qed

lemma reserved_ipv4_octets:
  assumes "a < 256" "b < 256" "c < 256" "d < (256 :: nat)"
  shows "list_ex (in_block 32 (ipv4_number a b c d)) reserved_ipv4 \<longleftrightarrow>
    a = 0 \<or> a = 10 \<or> a = 127 \<or> (a = 100 \<and> 64 \<le> b \<and> b \<le> 127) \<or> (a = 169 \<and> b = 254) \<or>
    (a = 172 \<and> 16 \<le> b \<and> b \<le> 31) \<or> (a = 192 \<and> b = 0 \<and> c = 0) \<or> (a = 192 \<and> b = 88 \<and> c = 99) \<or>
    (a = 192 \<and> b = 0 \<and> c = 2) \<or> (a = 192 \<and> b = 168) \<or> (a = 198 \<and> (b = 18 \<or> b = 19)) \<or>
    (a = 198 \<and> b = 51 \<and> c = 100) \<or> (a = 203 \<and> b = 0 \<and> c = 113) \<or> a \<ge> 224"
proof -
  have top: "a div 32 = 7 \<longleftrightarrow> 224 \<le> a" using assms(1) by (simp add: div_eq_range)
  have two: "18 \<le> b \<and> b \<le> 19 \<longleftrightarrow> b = 18 \<or> b = 19" by auto
  have small: "(0::nat) < 256" "(2::nat) < 256" "(254::nat) < 256" "(88::nat) < 256" "(99::nat) < 256"
    "(168::nat) < 256" "(51::nat) < 256" "(100::nat) < 256" "(113::nat) < 256" by simp_all
  show ?thesis
    unfolding reserved_ipv4_def list_ex_Nil_iff list_ex_Cons_iff
    unfolding ipv4_blocks(1,4-7) [OF assms(2-4)]
    unfolding ipv4_blocks(2) [OF assms(2-4) small(3)] ipv4_blocks(2) [OF assms(2-4) small(6)]
    unfolding  ipv4_blocks(3) [OF assms(2-4) small(1) small(1)] ipv4_blocks(3) [OF assms(2-4) small(1) small(2)]
      ipv4_blocks(3) [OF assms(2-4) small(4) small(5)] ipv4_blocks(3) [OF assms(2-4) small(7) small(8)]
      ipv4_blocks(3) [OF assms(2-4) small(1) small(9)] 
    unfolding top two
    by (simp only: simp_thms)
qed

lemma byte_numerals:
  "unat (0 :: byte) = 0" "unat (10 :: byte) = 10" "unat (127 :: byte) = 127" "unat (100 :: byte) = 100" "unat (64 :: byte) = 64" "unat (169 :: byte) = 169"
  "unat (254 :: byte) = 254" "unat (172 :: byte) = 172" "unat (16 :: byte) = 16" "unat (31 :: byte) = 31" "unat (192 :: byte) = 192"
  "unat (88 :: byte) = 88" "unat (99 :: byte) = 99" "unat (2 :: byte) = 2" "unat (168 :: byte) = 168" "unat (198 :: byte) = 198"
  "unat (18 :: byte) = 18" "unat (19 :: byte) = 19" "unat (51 :: byte) = 51" "unat (203 :: byte) = 203" "unat (113 :: byte) = 113"
  "unat (224 :: byte) = 224"
  by simp_all

lemma public_ipv4_eq:
  "is_public_ipv4 a b c d =
   (\<not> list_ex (in_block 32 (ipv4_number (unat a) (unat b) (unat c) (unat d))) reserved_ipv4)"
proof -
  have lt: "unat w < 256" for w :: byte using unsigned_less [of w] by simp
  show ?thesis
    unfolding reserved_ipv4_octets [OF lt lt lt lt] is_public_ipv4.simps
    by (simp only: word_unat_eq_iff word_le_nat_alt byte_numerals)
qed

text \<open>An IPv4 address is public for the executor exactly when it lies in none of the fourteen reserved
  blocks, given as a network and a prefix length: the octet comparisons of \<open>is_public_ipv4\<close> are the block
  memberships.\<close>

theorem public_ipv4_blocks:
  "is_public_ipv4 a b c d =
   (\<not> list_ex (in_block 32 (ipv4_number (unat a) (unat b) (unat c) (unat d))) reserved_ipv4)"
  by (rule public_ipv4_eq)

section \<open>IPv6\<close>

definition reserved_ipv6 :: "(nat \<times> nat) list" where
  "reserved_ipv6 = map (\<lambda>(s0, s1, s2, len). ((s0 * 65536 + s1) * 65536 + s2, len))
     [(0x0064, 0xff9b, 0, 48), (0x0064, 0xff9b, 1, 48), (0x2001, 0, 0, 23), (0x2001, 0x0db8, 0, 32),
      (0x2002, 0, 0, 16), (0x3ff0, 0, 0, 12), (0xfc00, 0, 0, 7), (0xfe80, 0, 0, 10), (0xfec0, 0, 0, 10),
      (0xff00, 0, 0, 8)]"

lemma masked_word:
  fixes w :: u16
  shows "w AND 0xff00 = 0xff00 \<longleftrightarrow> unat w div 256 = 255"
    and "w AND 0xfe00 = 0xfc00 \<longleftrightarrow> unat w div 512 = 126"
    and "w AND 0xffc0 = 0xfe80 \<longleftrightarrow> unat w div 64 = 1018"
    and "w AND 0xffc0 = 0xfec0 \<longleftrightarrow> unat w div 64 = 1019"
    and "w AND 0xfff0 = 0x3ff0 \<longleftrightarrow> unat w div 16 = 1023"
proof -
  have high: "w AND m = x \<longleftrightarrow> unat w div 2 ^ k = unat x div 2 ^ k"
    if "m = NOT (mask k)" "x AND m = x" for m x :: u16 and k
  proof -
    have "w AND NOT (mask k) = push_bit k (drop_bit k w)" "x AND NOT (mask k) = push_bit k (drop_bit k x)"
      by (auto intro!: bit_word_eqI simp: bit_simps)
    moreover have "drop_bit k (push_bit k (drop_bit k v)) = drop_bit k v" for v :: u16
      by (rule bit_word_eqI) (auto simp: bit_simps dest: bit_imp_le_length)
    ultimately have "w AND m = x \<longleftrightarrow> drop_bit k w = drop_bit k x" using that by metis
    moreover have "drop_bit k w = drop_bit k x \<longleftrightarrow> unat w div 2 ^ k = unat x div 2 ^ k"
      unfolding word_unat_eq_iff [of "drop_bit k w"] unat_drop_bit_eq by (simp only: drop_bit_eq_div)
    ultimately show ?thesis by blast
  qed
  show "w AND 0xff00 = 0xff00 \<longleftrightarrow> unat w div 256 = 255" using high [of "0xff00" 8 "0xff00"] by (simp add: mask_eq_decr_exp)
  show "w AND 0xfe00 = 0xfc00 \<longleftrightarrow> unat w div 512 = 126" using high [of "0xfe00" 9 "0xfc00"] by (simp add: mask_eq_decr_exp)
  show "w AND 0xffc0 = 0xfe80 \<longleftrightarrow> unat w div 64 = 1018" using high [of "0xffc0" 6 "0xfe80"] by (simp add: mask_eq_decr_exp)
  show "w AND 0xffc0 = 0xfec0 \<longleftrightarrow> unat w div 64 = 1019" using high [of "0xffc0" 6 "0xfec0"] by (simp add: mask_eq_decr_exp)
  show "w AND 0xfff0 = 0x3ff0 \<longleftrightarrow> unat w div 16 = 1023" using high [of "0xfff0" 4 "0x3ff0"] by (simp add: mask_eq_decr_exp)
qed

lemma ipv6_blocks:
  assumes "b < 65536" "c < (65536 :: nat)"
  shows "in_block 48 ((a * 65536 + b) * 65536 + c) ((0x0064 * 65536 + 0xff9b) * 65536 + z, 48) \<longleftrightarrow>
      (a * 65536 + b) * 65536 + c = (0x0064 * 65536 + 0xff9b) * 65536 + z"
    and "in_block 48 ((a * 65536 + b) * 65536 + c) ((0x2001 * 65536 + 0) * 65536 + 0, 23) \<longleftrightarrow>
      (a * 65536 + b) div 512 = 0x2001 * 128"
    and "in_block 48 ((a * 65536 + b) * 65536 + c) ((0x2001 * 65536 + 0x0db8) * 65536 + 0, 32) \<longleftrightarrow>
      a * 65536 + b = 0x2001 * 65536 + 0x0db8"
    and "in_block 48 ((a * 65536 + b) * 65536 + c) ((0x2002 * 65536 + 0) * 65536 + 0, 16) \<longleftrightarrow> a = 0x2002"
    and "in_block 48 ((a * 65536 + b) * 65536 + c) ((0x3ff0 * 65536 + 0) * 65536 + 0, 12) \<longleftrightarrow> a div 16 = 1023"
    and "in_block 48 ((a * 65536 + b) * 65536 + c) ((0xfc00 * 65536 + 0) * 65536 + 0, 7) \<longleftrightarrow> a div 512 = 126"
    and "in_block 48 ((a * 65536 + b) * 65536 + c) ((0xfe80 * 65536 + 0) * 65536 + 0, 10) \<longleftrightarrow> a div 64 = 1018"
    and "in_block 48 ((a * 65536 + b) * 65536 + c) ((0xfec0 * 65536 + 0) * 65536 + 0, 10) \<longleftrightarrow> a div 64 = 1019"
    and "in_block 48 ((a * 65536 + b) * 65536 + c) ((0xff00 * 65536 + 0) * 65536 + 0, 8) \<longleftrightarrow> a div 256 = 255"
proof -
  let ?n = "(a * 65536 + b) * 65536 + c"
  have d16: "?n div 65536 = a * 65536 + b" using assms by simp
  have d32: "?n div (65536 * 65536) = a" unfolding div_mult2_eq d16 using assms by simp
  have deep: "?n div (65536 * 65536 * k) = a div k" for k
    unfolding div_mult2_eq [of ?n "65536 * 65536" k] d32 ..
  have mid: "?n div (65536 * k) = (a * 65536 + b) div k" for k
    unfolding div_mult2_eq [of ?n 65536 k] d16 ..
  show "in_block 48 ?n ((0x0064 * 65536 + 0xff9b) * 65536 + z, 48) \<longleftrightarrow> ?n = (0x0064 * 65536 + 0xff9b) * 65536 + z"
    by (simp add: in_block_def)
  show "in_block 48 ?n ((0x2001 * 65536 + 0) * 65536 + 0, 23) \<longleftrightarrow> (a * 65536 + b) div 512 = 0x2001 * 128"
    using mid [of 512] by (simp add: in_block_def)
  show "in_block 48 ?n ((0x2001 * 65536 + 0x0db8) * 65536 + 0, 32) \<longleftrightarrow> a * 65536 + b = 0x2001 * 65536 + 0x0db8"
    using d16 by (simp add: in_block_def)
  show "in_block 48 ?n ((0x2002 * 65536 + 0) * 65536 + 0, 16) \<longleftrightarrow> a = 0x2002"
    using d32 by (simp add: in_block_def)
  show "in_block 48 ?n ((0x3ff0 * 65536 + 0) * 65536 + 0, 12) \<longleftrightarrow> a div 16 = 1023"
    using deep [of 16] by (simp add: in_block_def)
  show "in_block 48 ?n ((0xfc00 * 65536 + 0) * 65536 + 0, 7) \<longleftrightarrow> a div 512 = 126"
    using deep [of 512] by (simp add: in_block_def)
  show "in_block 48 ?n ((0xfe80 * 65536 + 0) * 65536 + 0, 10) \<longleftrightarrow> a div 64 = 1018"
    using deep [of 64] by (simp add: in_block_def)
  show "in_block 48 ?n ((0xfec0 * 65536 + 0) * 65536 + 0, 10) \<longleftrightarrow> a div 64 = 1019"
    using deep [of 64] by (simp add: in_block_def)
  show "in_block 48 ?n ((0xff00 * 65536 + 0) * 65536 + 0, 8) \<longleftrightarrow> a div 256 = 255"
    using deep [of 256] by (simp add: in_block_def)
qed

lemma reserved_ipv6_segments:
  assumes "b < 65536" "c < (65536 :: nat)"
  shows "list_ex (in_block 48 ((a * 65536 + b) * 65536 + c)) reserved_ipv6 \<longleftrightarrow>
    (a = 0x0064 \<and> b = 0xff9b \<and> c = 0) \<or> (a = 0x0064 \<and> b = 0xff9b \<and> c = 1) \<or> (a = 0x2001 \<and> b \<le> 0x01ff) \<or>
    (a = 0x2001 \<and> b = 0x0db8) \<or> a = 0x2002 \<or> a div 16 = 1023 \<or> a div 512 = 126 \<or> a div 64 = 1018 \<or>
    a div 64 = 1019 \<or> a div 256 = 255"
proof -
  have "(a * 65536 + b) div 512 = 0x2001 * 128 \<longleftrightarrow> a = 0x2001 \<and> b \<le> 0x01ff"
    using radix_between [OF assms(1), of "0x01ff" "0x2001" 0 a] by (simp add: div_eq_range)
  moreover have "a * 65536 + b = x * 65536 + y \<longleftrightarrow> a = x \<and> b = y" if "y < 65536" for x y
    using radix_eq [OF assms(1) that] .
  moreover have "(a * 65536 + b) * 65536 + c = (x * 65536 + y) * 65536 + z \<longleftrightarrow> a = x \<and> b = y \<and> c = z"
    if "y < 65536" "z < 65536" for x y z
    unfolding radix_eq [OF assms(2) that(2)] radix_eq [OF assms(1) that(1)] by (rule conj_assoc)
  ultimately show ?thesis
    unfolding reserved_ipv6_def list.map prod.case list_ex_Nil_iff list_ex_Cons_iff ipv6_blocks [OF assms]
    by (simp only: simp_thms)
qed

lemma segment_numerals:
  "unat (0 :: u16) = 0" "unat (1 :: u16) = 1" "unat (0x0064 :: u16) = 0x0064" "unat (0xff9b :: u16) = 0xff9b"
  "unat (0x2001 :: u16) = 0x2001" "unat (0x01ff :: u16) = 0x01ff" "unat (0x0db8 :: u16) = 0x0db8"
  "unat (0x2002 :: u16) = 0x2002" "unat (0xffff :: u16) = 0xffff"
  by simp_all

text \<open>An IPv6 address is public for the executor exactly when none of the reserved blocks contains it.
  An address that embeds an IPv4 address (\<open>::a.b.c.d\<close> and \<open>::ffff:a.b.c.d\<close>) is judged by that address, so
  no such writing makes a reserved IPv4 address public; every other address by the ten IPv6 blocks.\<close>

theorem public_ipv6_blocks:
  "is_public_ip (V6 s0 s1 s2 s3 s4 s5 s6 s7) =
   (if s0 = 0 \<and> s1 = 0 \<and> s2 = 0 \<and> s3 = 0 \<and> s4 = 0 \<and> (s5 = 0 \<or> s5 = 0xffff)
    then \<not> list_ex (in_block 32 (unat s6 * 65536 + unat s7)) reserved_ipv4
    else \<not> list_ex (in_block 48 ((unat s0 * 65536 + unat s1) * 65536 + unat s2)) reserved_ipv6)"
proof -
  have lt: "unat w < 65536" for w :: u16 using unsigned_less [of w] by simp
  have bytes: "unat (high_byte w) * 256 + unat (low_byte w) = unat w" for w
  proof -
    have d: "unat (drop_bit 8 w) = unat w div 256" unfolding unat_drop_bit_eq by (simp add: drop_bit_eq_div)
    have "unat w div 256 < 256" using lt [of w] by (simp add: less_mult_imp_div_less)
    then have "unat (high_byte w) = unat w div 256"
      unfolding high_byte_def unsigned_ucast_eq d by (simp add: take_bit_eq_mod)
    moreover have "unat (low_byte w) = unat w mod 256"
      unfolding low_byte_def unsigned_ucast_eq by (simp add: take_bit_eq_mod)
    ultimately show ?thesis by simp
  qed
  have v4: "ipv4_number (unat (high_byte s6)) (unat (low_byte s6)) (unat (high_byte s7)) (unat (low_byte s7)) =
      unat s6 * 65536 + unat s7"
    using bytes [of s6] bytes [of s7] unfolding ipv4_number_def by simp
  show ?thesis
  proof (cases "s0 = 0 \<and> s1 = 0 \<and> s2 = 0 \<and> s3 = 0 \<and> s4 = 0 \<and> (s5 = 0 \<or> s5 = 0xffff)")
    case True
    show ?thesis
      unfolding is_public_ip.simps is_public_ipv6.simps if_P [OF True] public_ipv4_eq v4 by (rule refl)
  next
    case False
    have "\<not> (s0 = 0 \<and> s1 = 0 \<and> s2 = 0 \<and> s3 = 0 \<and> s4 = 0 \<and> s5 = 0 \<and> s6 = 0 \<and> s7 = x)" for x
      using False by blast
    moreover have "list_ex (in_block 48 ((unat s0 * 65536 + unat s1) * 65536 + unat s2)) reserved_ipv6 \<longleftrightarrow>
        (s0 = 0x0064 \<and> s1 = 0xff9b \<and> s2 = 0) \<or> (s0 = 0x0064 \<and> s1 = 0xff9b \<and> s2 = 1) \<or> (s0 = 0x2001 \<and> s1 \<le> 0x01ff) \<or>
        (s0 = 0x2001 \<and> s1 = 0x0db8) \<or> s0 = 0x2002 \<or> s0 AND 0xfff0 = 0x3ff0 \<or> s0 AND 0xfe00 = 0xfc00 \<or>
        s0 AND 0xffc0 = 0xfe80 \<or> s0 AND 0xffc0 = 0xfec0 \<or> s0 AND 0xff00 = 0xff00"
      unfolding reserved_ipv6_segments [OF lt lt] masked_word
      by (simp only: word_unat_eq_iff word_le_nat_alt segment_numerals)
    ultimately show ?thesis
      unfolding is_public_ip.simps is_public_ipv6.simps if_not_P [OF False] by blast
  qed
qed

section \<open>What is sent\<close>

definition request_authorized ::
    "http_libs \<Rightarrow> (ustr, ustr) btmap \<Rightarrow> http_permission list \<Rightarrow> ustr set \<Rightarrow> http_request \<Rightarrow> sent_request \<Rightarrow> bool" where
  "request_authorized L creds perms granted request s \<longleftrightarrow>
     hu_scheme (sr_url s) = lit ''https'' \<and> hu_username (sr_url s) = [] \<and> hu_password (sr_url s) = None \<and>
     hu_fragment (sr_url s) = None \<and> hu_host (sr_url s) = Some (Host_Domain (sr_host s)) \<and>
     (\<exists>p port. p \<in> set perms \<and> hu_port (sr_url s) = Some port \<and>
        permission_covers (sr_host s) port (rq_method request) (hu_path (sr_url s)) p \<and>
        lit ''http.request'' \<in> granted \<and> http_capability p \<in> granted \<and>
        (case hp_credential p of
           None \<Rightarrow> sr_authorization s = None
         | Some n \<Rightarrow> lit ''http.credential.'' @ n \<in> granted \<and>
             (\<exists>secret value. bt_get creds n = Some secret \<and> hl_value L (lit ''Bearer '' @ secret) = Some value \<and>
                sr_authorization s = Some value))) \<and>
     sr_addresses s \<noteq> [] \<and> length (sr_addresses s) \<le> 16 \<and> list_all (\<lambda>a. is_public_ip (fst a)) (sr_addresses s) \<and>
     sr_method s = rq_method request \<and> sr_body s = rq_body request \<and>
     list_all (\<lambda>h. to_ascii_lowercase (fst h) \<notin> set host_controlled_headers) (rq_headers request)"

lemma authorized_target_Inr:
  assumes "authorized_target url meth perms granted = Inr (host, port, p)"
  shows "hu_scheme url = lit ''https''" "hu_username url = []" "hu_password url = None" "hu_fragment url = None"
    and "hu_host url = Some (Host_Domain host)" "hu_port url = Some port" "p \<in> set perms"
    and "permission_covers host port meth (hu_path url) p"
    and "lit ''http.request'' \<in> granted" "http_capability p \<in> granted"
    and "hp_credential p = Some n \<Longrightarrow> lit ''http.credential.'' @ n \<in> granted"
proof -
  have "p \<in> set (filter (permission_covers host port meth (hu_path url)) perms)"
    using assms
    by (auto simp: authorized_target_def simp del: lit_Cons set_filter split: if_splits option.splits
        parsed_host.splits list.splits)
  then show "p \<in> set perms" "permission_covers host port meth (hu_path url) p" by simp_all
  show "hu_scheme url = lit ''https''" "hu_username url = []" "hu_password url = None" "hu_fragment url = None"
    "hu_host url = Some (Host_Domain host)" "hu_port url = Some port"
    "lit ''http.request'' \<in> granted" "http_capability p \<in> granted"
    using assms
    by (auto simp: authorized_target_def simp del: lit_Cons split: if_splits option.splits
        parsed_host.splits list.splits)
  show "lit ''http.credential.'' @ n \<in> granted" if "hp_credential p = Some n"
    using assms that
    by (auto simp: authorized_target_def http_credential_capability_def simp del: lit_Cons split: if_splits
        option.splits parsed_host.splits list.splits)
qed

lemma resolve_public_addresses_Inr:
  assumes "resolve_public_addresses l = Inr xs"
  shows "xs \<noteq> [] \<and> length xs \<le> 16 \<and> list_all (\<lambda>a. is_public_ip (fst a)) xs"
  using assms by (cases l) (auto simp: Let_def list_all_iff list_ex_iff split: if_splits)

lemma request_headers_Inr:
  "request_headers L hs = Inr out \<Longrightarrow> list_all (\<lambda>h. to_ascii_lowercase (fst h) \<notin> set host_controlled_headers) hs"
  by (induction L hs arbitrary: out rule: request_headers.induct)
    (auto simp: bind_ok_Inr validate_request_header_def split: if_splits)

lemma authorization_for_Inr:
  "authorization_for L call p = Inr a \<Longrightarrow>
   (case hp_credential p of
      None \<Rightarrow> a = None
    | Some n \<Rightarrow> \<exists>secret value. bt_get (hc_credentials call) n = Some secret \<and>
        hl_value L (lit ''Bearer '' @ secret) = Some value \<and> a = Some value)"
  by (auto simp: authorization_for_def bearer_authorization_value_def bind_ok_Inr simp del: lit_Cons
      split: option.splits)

lemma prepare_hop_parts:
  assumes "prepare_hop L call url h = Inr s"
  obtains port p where
    "authorized_target url (rq_method (hc_request call)) (hc_permissions call) (hc_granted call) = Inr (sr_host s, port, p)"
    "resolve_public_addresses (the (ho_lookup h)) = Inr (sr_addresses s)"
    "request_headers L (rq_headers (hc_request call)) = Inr (sr_headers s)"
    "authorization_for L call p = Inr (sr_authorization s)"
    "sr_url s = url" "sr_method s = rq_method (hc_request call)" "sr_body s = rq_body (hc_request call)"
  using assms by (auto simp: prepare_hop_def bind_ok_Inr split: if_splits option.splits)

lemma prepare_hop_authorized:
  assumes "prepare_hop L call url h = Inr s"
  shows "request_authorized L (hc_credentials call) (hc_permissions call) (hc_granted call) (hc_request call) s"
proof -
  from assms obtain port p where
    t: "authorized_target url (rq_method (hc_request call)) (hc_permissions call) (hc_granted call) = Inr (sr_host s, port, p)"
    and a: "resolve_public_addresses (the (ho_lookup h)) = Inr (sr_addresses s)"
    and h: "request_headers L (rq_headers (hc_request call)) = Inr (sr_headers s)"
    and c: "authorization_for L call p = Inr (sr_authorization s)"
    and u: "sr_url s = url" "sr_method s = rq_method (hc_request call)" "sr_body s = rq_body (hc_request call)"
    by (rule prepare_hop_parts)
  have "case hp_credential p of
           None \<Rightarrow> sr_authorization s = None
         | Some n \<Rightarrow> lit ''http.credential.'' @ n \<in> hc_granted call \<and>
             (\<exists>secret value. bt_get (hc_credentials call) n = Some secret \<and>
                hl_value L (lit ''Bearer '' @ secret) = Some value \<and> sr_authorization s = Some value)"
    using authorization_for_Inr [OF c] authorized_target_Inr(11) [OF t] by (cases "hp_credential p") auto
  with authorized_target_Inr(1-10) [OF t] resolve_public_addresses_Inr [OF a] request_headers_Inr [OF h] u
  show ?thesis unfolding request_authorized_def by blast
qed

text \<open>Rule induction over the turns of the loop: a property of the turn number, the address and the outcome.\<close>

lemma execute_loop_rule [case_names fail lost return redirect]:
  assumes fail: "\<And>r url e. prepare_hop L call url (hops r) = Inl e \<Longrightarrow> P r url ([], Inl e)"
    and lost: "\<And>r url s. prepare_hop L call url (hops r) = Inr s \<Longrightarrow> ho_reply (hops r) = None \<Longrightarrow>
      P r url ([s], Inl (Transport T_Send))"
    and return: "\<And>r url s reply out. prepare_hop L call url (hops r) = Inr s \<Longrightarrow> ho_reply (hops r) = Some reply \<Longrightarrow>
      after_reply L (hc_request call) url r reply = Hop_Return out \<Longrightarrow> P r url ([s], out)"
    and redirect: "\<And>r url s reply target log out. prepare_hop L call url (hops r) = Inr s \<Longrightarrow>
      ho_reply (hops r) = Some reply \<Longrightarrow> after_reply L (hc_request call) url r reply = Hop_Redirect target \<Longrightarrow>
      r < max_redirects \<Longrightarrow> execute_loop L call hops (Suc r) target = (log, out) \<Longrightarrow>
      P (Suc r) target (log, out) \<Longrightarrow> P r url (s # log, out)"
  shows "P r url (execute_loop L call hops r url)"
proof (induction "max_redirects - r" arbitrary: r url rule: less_induct)
  case less
  show ?case
  proof (cases "prepare_hop L call url (hops r)")
    case (Inl e)
    then show ?thesis using fail by (simp add: execute_loop.simps)
  next
    case s: (Inr s)
    show ?thesis
    proof (cases "ho_reply (hops r)")
      case None
      then show ?thesis using lost s by (simp add: execute_loop.simps)
    next
      case reply: (Some reply)
      show ?thesis
      proof (cases "after_reply L (hc_request call) url r reply")
        case (Hop_Return out)
        then show ?thesis using return s reply by (simp add: execute_loop.simps)
      next
        case target: (Hop_Redirect target)
        obtain log out where sub: "execute_loop L call hops (Suc r) target = (log, out)" by fastforce
        from after_reply_Redirect [OF target] have r: "r < max_redirects" .
        with less [of "Suc r" target] have "P (Suc r) target (log, out)" by (simp add: sub)
        from redirect [OF s reply target r sub this] show ?thesis
          using s reply target sub by (simp add: execute_loop.simps [of L call hops r])
      qed
    qed
  qed
qed

lemma execute_loop_authorized:
  "list_all (request_authorized L (hc_credentials call) (hc_permissions call) (hc_granted call) (hc_request call))
     (fst (execute_loop L call hops redirects url))"
  by (rule execute_loop_rule) (auto dest: prepare_hop_authorized)

definition redirectable :: "http_request \<Rightarrow> bool" where
  "redirectable request \<longleftrightarrow> rq_method request = lit ''GET'' \<or> rq_method request = lit ''HEAD''"

lemma after_reply_redirectable:
  "after_reply L request url redirects reply = Hop_Redirect u \<Longrightarrow> redirectable request"
  by (auto simp: after_reply_def follows_redirect_def redirectable_def simp del: lit_Cons split: option.splits if_splits)

lemma execute_loop_length:
  "length (fst (execute_loop L call hops redirects url)) \<le>
     (if redirectable (hc_request call) then Suc (max_redirects - redirects) else 1)"
proof (rule execute_loop_rule [where P = "\<lambda>r url out. length (fst out) \<le>
     (if redirectable (hc_request call) then Suc (max_redirects - r) else 1)"])
  fix r url s reply target log out
  assume "after_reply L (hc_request call) url r reply = Hop_Redirect target" "r < max_redirects"
    and "length (fst (log, out :: http_error + http_response)) \<le>
      (if redirectable (hc_request call) then Suc (max_redirects - Suc r) else 1)"
  then show "length (fst (s # log, out)) \<le> (if redirectable (hc_request call) then Suc (max_redirects - r) else 1)"
    using after_reply_redirectable by fastforce
qed simp_all

lemma execute_cases:
  obtains (refused) e where "execute L creds perms granted request now hops = ([], Inl e)"
      "\<And>d. e \<noteq> Denied d"
  | (run) url where "validate_request_limits request = Inr ()"
      "execute L creds perms granted request now hops =
        execute_loop L \<lparr>hc_credentials = creds, hc_permissions = perms, hc_granted = granted, hc_request = request,
          hc_deadline = now + unat (rq_timeout_ms request)\<rparr> hops 0 url"
proof (cases "validate_request_limits request")
  case (Inl e)
  then have "e \<noteq> Denied d" for d by (auto simp: validate_request_limits_def split: if_splits)
  with Inl refused [of e] show thesis by (simp add: execute_def)
next
  case (Inr u)
  then show thesis using refused [of "InvalidRequest R_Method"] refused [of "InvalidRequest R_Url"] run
    by (cases "hl_method L (rq_method request)"; cases "hl_parse L (rq_url request)") (simp_all add: execute_def)
qed

text \<open>[C5] Whatever the servers answer and the resolver returns, every request that leaves the executor, the
  first one and each one after a redirect, goes by HTTPS to a URL without user information or fragment, to a
  domain, port, method and path that a permission of the manifest covers and that the administrator granted;
  it is connected to one to sixteen addresses that are all public; it carries exactly the bearer credential
  that the permission names (granted, and configured at the host) or none; and no header of the plugin is one
  the host controls. There are at most four requests, and one for a method other than GET and HEAD.\<close>

theorem http_requests_authorized:
  "list_all (request_authorized L creds perms granted request) (fst (execute L creds perms granted request now hops)) \<and>
   length (fst (execute L creds perms granted request now hops)) \<le> (if redirectable request then 4 else 1)"
proof (cases rule: execute_cases [of L creds perms granted request now hops])
  case (run url)
  show ?thesis
    unfolding run(2)
    using execute_loop_authorized [of L "\<lparr>hc_credentials = creds, hc_permissions = perms, hc_granted = granted,
        hc_request = request, hc_deadline = now + unat (rq_timeout_ms request)\<rparr>" hops 0 url]
      execute_loop_length [of L "\<lparr>hc_credentials = creds, hc_permissions = perms, hc_granted = granted,
        hc_request = request, hc_deadline = now + unat (rq_timeout_ms request)\<rparr>" hops 0 url]
    by (auto simp: max_redirects_def)
qed simp

section \<open>The loop ends\<close>

lemma execute_loop_hops:
  "(\<And>i. r \<le> i \<Longrightarrow> i \<le> max_redirects \<Longrightarrow> hops i = hops' i) \<Longrightarrow> r \<le> max_redirects \<Longrightarrow>
   execute_loop L call hops r url = execute_loop L call hops' r url"
proof -
  have "(\<forall>i. r \<le> i \<and> i \<le> max_redirects \<longrightarrow> hops i = hops' i) \<and> r \<le> max_redirects \<longrightarrow>
      execute_loop L call hops' r url = execute_loop L call hops r url"
  proof (rule execute_loop_rule [where P = "\<lambda>r url out. (\<forall>i. r \<le> i \<and> i \<le> max_redirects \<longrightarrow> hops i = hops' i) \<and>
        r \<le> max_redirects \<longrightarrow> execute_loop L call hops' r url = out"])
    fix r url e
    assume "prepare_hop L call url (hops r) = Inl e"
    then show "(\<forall>i. r \<le> i \<and> i \<le> max_redirects \<longrightarrow> hops i = hops' i) \<and> r \<le> max_redirects \<longrightarrow>
        execute_loop L call hops' r url = ([], Inl e)"
      by (auto simp: execute_loop.simps [of L call hops' r])
  next
    fix r url s reply target log out
    assume *: "prepare_hop L call url (hops r) = Inr s" "ho_reply (hops r) = Some reply"
      "after_reply L (hc_request call) url r reply = Hop_Redirect target" "r < max_redirects"
      "(\<forall>i. Suc r \<le> i \<and> i \<le> max_redirects \<longrightarrow> hops i = hops' i) \<and> Suc r \<le> max_redirects \<longrightarrow>
        execute_loop L call hops' (Suc r) target = (log, out)"
    show "(\<forall>i. r \<le> i \<and> i \<le> max_redirects \<longrightarrow> hops i = hops' i) \<and> r \<le> max_redirects \<longrightarrow>
        execute_loop L call hops' r url = (s # log, out)"
    proof
      assume "(\<forall>i. r \<le> i \<and> i \<le> max_redirects \<longrightarrow> hops i = hops' i) \<and> r \<le> max_redirects"
      then have "hops' r = hops r" "execute_loop L call hops' (Suc r) target = (log, out)" using *(4,5) by auto
      with *(1-3) show "execute_loop L call hops' r url = (s # log, out)"
        by (simp add: execute_loop.simps [of L call hops' r])
    qed
  qed (auto simp: execute_loop.simps [of L call hops'])
  then show "(\<And>i. r \<le> i \<Longrightarrow> i \<le> max_redirects \<Longrightarrow> hops i = hops' i) \<Longrightarrow> r \<le> max_redirects \<Longrightarrow> ?thesis" by auto
qed

text \<open>The executor always returns, after at most four turns of its loop: with the same clock, resolver and
  server in the first four turns the outcome is the same, whatever later turns would have been. A server that
  redirects for ever is cut off.\<close>

theorem http_execute_ends:
  "execute L creds perms granted request now (\<lambda>i. if i \<le> 3 then hops i else later i) =
   execute L creds perms granted request now hops"
  unfolding execute_def
  by (auto simp: max_redirects_def intro!: execute_loop_hops split: sum.split option.split)

section \<open>Responses\<close>

lemma read_body_Inr:
  "read_body limit body cs = Inr out \<Longrightarrow> length body \<le> limit \<Longrightarrow> limit < usize_max \<Longrightarrow>
   None \<notin> set cs \<and> out = body @ concat (map the cs) \<and> length out \<le> limit"
  by (induction limit body cs rule: read_body.induct) (auto simp: usize_sat_add_def min_def split: if_splits)

lemma bt_wf_put: "bt_wf m \<Longrightarrow> bt_wf (bt_put k v m)"
  by (simp add: bt_wf_def sorted_bt_put)

lemma length_bt_put: "length (bt_put k v m) \<le> Suc (length m)"
  by (induction k v m rule: bt_put.induct) auto

lemma collect_headers_Inr:
  "collect_headers L n hs src = Inr out \<Longrightarrow> bt_wf hs \<Longrightarrow> bt_wf out \<and> length out \<le> length hs + length src"
proof (induction L n hs src arbitrary: out rule: collect_headers.induct)
  case (2 L n hs name val rest)
  let ?hs = "case hl_to_str L val of None \<Rightarrow> hs | Some v \<Rightarrow> bt_put name v hs"
  have "bt_wf ?hs" "length ?hs \<le> Suc (length hs)"
    using 2(3) bt_wf_put length_bt_put [of name _ hs] by (auto split: option.splits)
  with 2(1) [OF refl _ _ \<open>bt_wf ?hs\<close>] 2(2) show ?case by (fastforce simp: Let_def split: if_splits)
qed simp

definition response_of :: "http_request \<Rightarrow> http_reply \<Rightarrow> http_response \<Rightarrow> bool" where
  "response_of request reply resp \<longleftrightarrow>
     rs_status resp = rp_status reply \<and> rs_final_url resp = rp_url reply \<and>
     None \<notin> set (rp_chunks reply) \<and> rs_body resp = concat (map the (rp_chunks reply)) \<and>
     length (rs_body resp) \<le> unat (rq_max_response_bytes request) \<and> length (rs_body resp) \<le> 1024 * 1024 \<and>
     bt_wf (rs_headers resp) \<and> length (rs_headers resp) \<le> 64"

lemma finish_response_Inr:
  assumes "finish_response L request reply = Inr resp"
  shows "response_of request reply resp"
proof -
  let ?m = "min (rq_max_response_bytes request) max_response_bytes"
  from assms obtain hs body where hs: "response_headers L (rp_headers reply) = Inr hs"
    and b: "read_body (unat ?m) [] (rp_chunks reply) = Inr body"
    and r: "resp = \<lparr>rs_status = rp_status reply, rs_final_url = rp_url reply, rs_headers = hs, rs_body = body\<rparr>"
    by (auto simp: finish_response_def Let_def bind_ok_Inr split: if_splits)
  from hs have "bt_wf hs \<and> length hs \<le> 64"
    using collect_headers_Inr [of L 0 "[]" "rp_headers reply" hs]
    by (auto simp: response_headers_def max_response_headers_def bt_wf_def split: if_splits)
  moreover have "unat ?m \<le> unat (rq_max_response_bytes request)" "unat ?m \<le> unat max_response_bytes"
    by (simp_all add: min_def word_le_nat_alt)
  moreover from this have "unat ?m < usize_max" by (simp add: max_response_bytes_def usize_max_def)
  ultimately show ?thesis using read_body_Inr [OF b] r
    by (auto simp: response_of_def max_response_bytes_def)
qed

lemma after_reply_Inr:
  "after_reply L request url r reply = Hop_Return (Inr resp) \<Longrightarrow> response_of request reply resp"
  by (auto simp: after_reply_def finish_response_Inr split: option.splits if_splits)

lemma execute_loop_response:
  "case execute_loop L call hops r url of
     (log, Inl e) \<Rightarrow> True
   | (log, Inr resp) \<Rightarrow> log \<noteq> [] \<and>
       (case ho_reply (hops (r + length log - 1)) of
          None \<Rightarrow> False
        | Some reply \<Rightarrow> response_of (hc_request call) reply resp)"
  by (rule execute_loop_rule [where P = "\<lambda>r url out. case out of
     (log, Inl e) \<Rightarrow> True
   | (log, Inr resp) \<Rightarrow> log \<noteq> [] \<and>
       (case ho_reply (hops (r + length log - 1)) of
          None \<Rightarrow> False
        | Some reply \<Rightarrow> response_of (hc_request call) reply resp)"])
    (auto simp: after_reply_Inr split: sum.splits option.splits)

text \<open>A response that the plugin gets is the whole answer to the last request sent: its status and its
  complete body, never a truncated one, within the limit that the request asks for and one mebibyte, with at
  most 64 headers in strictly ascending order of their names.\<close>

theorem http_response_whole:
  "case execute L creds perms granted request now hops of
     (log, Inl e) \<Rightarrow> True
   | (log, Inr resp) \<Rightarrow> log \<noteq> [] \<and>
       (case ho_reply (hops (length log - 1)) of
          None \<Rightarrow> False
        | Some reply \<Rightarrow> response_of request reply resp)"
proof (cases rule: execute_cases [of L creds perms granted request now hops])
  case (run url)
  from execute_loop_response [where L = L and r = 0 and url = url and hops = hops and call = "\<lparr>hc_credentials = creds, hc_permissions = perms, hc_granted = granted,
        hc_request = request, hc_deadline = now + unat (rq_timeout_ms request)\<rparr>"]
  show ?thesis unfolding run(2) add_0 http_call.select_convs .
qed simp

section \<open>Credentials\<close>

lemma authorized_target_no_conflict:
  assumes "validate_http_permissions V perms"
  shows "authorized_target url meth perms granted \<noteq> Inl (Denied D_ConflictingCredentials)"
proof
  assume c: "authorized_target url meth perms granted = Inl (Denied D_ConflictingCredentials)"
  obtain host port p others where
    f: "filter (permission_covers host port meth (hu_path url)) perms = p # others"
    and "list_ex (\<lambda>other. hp_credential other \<noteq> hp_credential p) others"
    using c by (auto simp: authorized_target_def simp del: lit_Cons split: if_splits option.splits
        parsed_host.splits list.splits)
  then obtain q where "q \<in> set others" "hp_credential q \<noteq> hp_credential p" by (auto simp: list_ex_iff)
  moreover have "set (p # others) = {x \<in> set perms. permission_covers host port meth (hu_path url) x}"
    using f by (metis set_filter)
  ultimately show False
    using covering_credentials_agree [OF assms, of q host port meth "hu_path url" p] by auto
qed

lemma bind_ok_Inl: "bind_ok r f = Inl e \<longleftrightarrow> r = Inl e \<or> (\<exists>x. r = Inr x \<and> f x = Inl e)"
  by (cases r) (auto simp: bind_ok_def)

lemma ok_or_Inl [simp]: "ok_or e x = Inl d \<longleftrightarrow> x = None \<and> d = e"
  by (auto simp: ok_or_def split: option.splits)

abbreviation conflict :: http_error where "conflict \<equiv> Denied D_ConflictingCredentials"

lemma request_headers_no_conflict: "request_headers L hs \<noteq> Inl conflict"
  by (induction L hs rule: request_headers.induct) (auto simp: bind_ok_Inl validate_request_header_def)

lemma authorization_for_no_conflict: "authorization_for L call p \<noteq> Inl conflict"
  by (auto simp: authorization_for_def bearer_authorization_value_def validate_credential_injection_limits_def
      bind_ok_Inl simp del: lit_Cons split: option.splits if_splits)

lemma resolve_no_conflict: "resolve_public_addresses l \<noteq> Inl conflict"
  by (cases l) (auto simp: Let_def)

lemma collect_headers_no_conflict: "collect_headers L n hs src \<noteq> Inl conflict"
  by (induction L n hs src rule: collect_headers.induct) (auto simp: Let_def)

lemma read_body_no_conflict: "read_body limit body cs \<noteq> Inl conflict"
  by (induction limit body cs rule: read_body.induct) auto

lemma finish_response_no_conflict: "finish_response L request reply \<noteq> Inl conflict"
  using collect_headers_no_conflict read_body_no_conflict
  by (auto simp: finish_response_def response_headers_def Let_def bind_ok_Inl)

lemma prepare_hop_no_conflict:
  "validate_http_permissions V (hc_permissions call) \<Longrightarrow> prepare_hop L call url h \<noteq> Inl conflict"
  by (auto simp: prepare_hop_def bind_ok_Inl authorized_target_no_conflict request_headers_no_conflict
      authorization_for_no_conflict resolve_no_conflict split: if_splits option.splits)

lemma after_reply_no_conflict: "after_reply L request url r reply \<noteq> Hop_Return (Inl conflict)"
  using finish_response_no_conflict by (auto simp: after_reply_def split: option.splits if_splits)

lemma execute_loop_no_conflict:
  "validate_http_permissions V (hc_permissions call) \<Longrightarrow> snd (execute_loop L call hops r url) \<noteq> Inl conflict"
  by (rule execute_loop_rule [where P = "\<lambda>r url out. snd out \<noteq> Inl conflict"])
    (auto dest: prepare_hop_no_conflict after_reply_no_conflict [THEN notE])

definition bearer_value :: "http_libs \<Rightarrow> (ustr, ustr) btmap \<Rightarrow> ustr option \<Rightarrow> byte list option" where
  "bearer_value L creds credential =
     Option.bind credential (\<lambda>n. Option.bind (bt_get creds n) (\<lambda>secret. hl_value L (lit ''Bearer '' @ secret)))"

definition credential_of_every_cover ::
    "http_libs \<Rightarrow> (ustr, ustr) btmap \<Rightarrow> http_permission list \<Rightarrow> sent_request \<Rightarrow> bool" where
  "credential_of_every_cover L creds perms s \<longleftrightarrow>
     list_all (\<lambda>p. case hu_port (sr_url s) of
        None \<Rightarrow> False
      | Some port \<Rightarrow>
          permission_covers (sr_host s) port (sr_method s) (hu_path (sr_url s)) p \<longrightarrow>
          sr_authorization s = bearer_value L creds (hp_credential p)) perms"

lemma authorized_credential_of_every_cover:
  assumes v: "validate_http_permissions V perms" and a: "request_authorized L creds perms granted request s"
  shows "credential_of_every_cover L creds perms s"
proof -
  from a obtain p port where p: "p \<in> set perms" "hu_port (sr_url s) = Some port"
      "permission_covers (sr_host s) port (rq_method request) (hu_path (sr_url s)) p"
    and c: "case hp_credential p of None \<Rightarrow> sr_authorization s = None
        | Some n \<Rightarrow> lit ''http.credential.'' @ n \<in> granted \<and>
            (\<exists>secret value. bt_get creds n = Some secret \<and> hl_value L (lit ''Bearer '' @ secret) = Some value \<and>
               sr_authorization s = Some value)"
    and m: "sr_method s = rq_method request"
    unfolding request_authorized_def by blast
  have "sr_authorization s = bearer_value L creds (hp_credential p)"
    using c by (auto simp: bearer_value_def simp del: lit_Cons split: option.splits)
  then show ?thesis
    unfolding credential_of_every_cover_def list_all_iff
    using covering_credentials_agree [OF v p(1,3)] p(2) m by auto
qed

text \<open>With a validated manifest a request never fails because several permissions cover it with different
  credentials: that branch of the executor cannot be reached. The authorization header of every request sent is
  the one of each permission that covers it, so the order of the permissions does not matter.\<close>

theorem http_credentials_consistent:
  assumes "validate_http_permissions V perms"
  shows "snd (execute L creds perms granted request now hops) \<noteq> Inl (Denied D_ConflictingCredentials) \<and>
    list_all (credential_of_every_cover L creds perms) (fst (execute L creds perms granted request now hops))"
proof (cases rule: execute_cases [of L creds perms granted request now hops])
  case (run url)
  let ?call = "\<lparr>hc_credentials = creds, hc_permissions = perms, hc_granted = granted, hc_request = request,
        hc_deadline = now + unat (rq_timeout_ms request)\<rparr>"
  have "list_all (request_authorized L creds perms granted request) (fst (execute_loop L ?call hops 0 url))"
    using execute_loop_authorized [of L ?call] by simp
  then show ?thesis
    unfolding run(2)
    using execute_loop_no_conflict [of V ?call L hops 0 url] assms authorized_credential_of_every_cover [OF assms]
    by (auto simp: list_all_iff)
qed simp

text \<open>A run with one redirect: the first answer sends the request on to a path of the same host.\<close>

definition demo_http_libs :: http_libs where
  "demo_http_libs = \<lparr>hl_method = (\<lambda>m. m \<noteq> []),
     hl_parse = (\<lambda>t. Some \<lparr>hu_scheme = lit ''https'', hu_username = [], hu_password = None, hu_fragment = None,
       hu_host = Some (Host_Domain (lit ''api.example.com'')), hu_port = Some 443, hu_path = t, hu_text = t\<rparr>),
     hl_join = (\<lambda>u t. Some (u\<lparr>hu_path := t, hu_text := t\<rparr>)),
     hl_name = (\<lambda>n. Some (to_ascii_lowercase n)), hl_value = (\<lambda>v. Some (map of_nat v)),
     hl_to_str = (\<lambda>b. Some (map unat b))\<rparr>"

definition demo_http_request :: http_request where
  "demo_http_request = \<lparr>rq_method = lit ''GET'', rq_url = lit ''/v1/a'', rq_headers = [], rq_body = None,
     rq_timeout_ms = 1000, rq_max_response_bytes = 100\<rparr>"

definition demo_hops :: "nat \<Rightarrow> hop" where
  "demo_hops i = \<lparr>ho_now = i, ho_lookup = Some (Lookup_Addresses [(V4 93 184 216 34, 443)]), ho_later = i, ho_client = True,
     ho_reply = Some (if i = 0
       then \<lparr>rp_status = 302, rp_headers = [(lit ''location'', map of_nat (lit ''/v1/b''))], rp_length = None,
              rp_url = lit ''/v1/a'', rp_chunks = []\<rparr>
       else \<lparr>rp_status = 200, rp_headers = [], rp_length = Some 2, rp_url = lit ''/v1/b'',
              rp_chunks = [Some [111], Some [107]]\<rparr>)\<rparr>"

definition demo_execute :: "sent_request list \<times> (http_error + http_response)" where
  "demo_execute = execute demo_http_libs [(lit ''token'', lit ''secret'')] [demo_permission ''/v1'']
     {lit ''http.request'', http_capability (demo_permission ''/v1''), lit ''http.credential.token''}
     demo_http_request 0 demo_hops"

lemma demo_execute_runs:
  "map (hu_path \<circ> sr_url) (fst demo_execute) = [lit ''/v1/a'', lit ''/v1/b'']"
  "map_sum (\<lambda>_. ()) rs_body (snd demo_execute) = Inr [111, 107]"
  by code_simp+

lemma http_credentials_consistent_witness:
  "snd demo_execute \<noteq> Inl (Denied D_ConflictingCredentials) \<and>
   list_all (credential_of_every_cover demo_http_libs [(lit ''token'', lit ''secret'')] [demo_permission ''/v1''])
     (fst demo_execute)"
proof -
  have "validate_http_permissions demo_libs [demo_permission ''/v1'']" by code_simp
  from http_credentials_consistent [OF this] show ?thesis unfolding demo_execute_def by blast
qed

section \<open>Credentials of the environment\<close>

definition ascii_upper :: "nat \<Rightarrow> nat" where
  "ascii_upper c = (if is_ascii_lowercase c then c - 32 else c)"

definition credential_variable :: "ustr \<Rightarrow> ustr" where
  "credential_variable n = http_bearer_env_prefix @ map ascii_upper n"

lemma lower_upper: "is_ascii_lowercase c \<or> is_ascii_digit c \<or> c = ch_underscore \<Longrightarrow> ascii_lower (ascii_upper c) = c"
  by (auto simp: ascii_lower_def ascii_upper_def is_ascii_lowercase_def is_ascii_uppercase_def is_ascii_digit_def path_chars)

lemma upper_lower: "is_ascii_uppercase c \<or> is_ascii_digit c \<or> c = ch_underscore \<Longrightarrow> ascii_upper (ascii_lower c) = c"
  by (auto simp: ascii_lower_def ascii_upper_def is_ascii_lowercase_def is_ascii_uppercase_def is_ascii_digit_def path_chars)

lemma credential_suffix_of:
  assumes "is_valid_http_credential_name n" "credential_suffix_ok s"
  shows "to_ascii_lowercase s = n \<longleftrightarrow> s = map ascii_upper n"
proof
  assume "to_ascii_lowercase s = n"
  then have "n = map ascii_lower s" by (simp add: to_ascii_lowercase_def)
  moreover have "map (ascii_upper \<circ> ascii_lower) s = s"
    using assms(2) upper_lower by (auto simp: credential_suffix_ok_def list_all_iff intro!: map_idI)
  ultimately show "s = map ascii_upper n" by simp
next
  assume s: "s = map ascii_upper n"
  have "map (ascii_lower \<circ> ascii_upper) n = n"
    using assms(1) lower_upper by (auto simp: is_valid_http_credential_name_def list_all_iff intro!: map_idI)
  with s show "to_ascii_lowercase s = n" by (simp add: to_ascii_lowercase_def)
qed

definition last_value :: "(ustr option \<times> ustr option) list \<Rightarrow> ustr \<Rightarrow> ustr option \<Rightarrow> ustr option" where
  "last_value vars name v0 = fold (\<lambda>(k, v) acc. if k = Some name then v else acc) vars v0"

lemma bt_get_put: "bt_wf m \<Longrightarrow> bt_get (bt_put k v m) n = (if n = k then Some v else bt_get m n)"
  by (auto simp: bt_get_def map_of_bt_put)

lemma read_environment_get:
  "read_environment L creds vars = Inr out \<Longrightarrow> bt_wf creds \<Longrightarrow> is_valid_http_credential_name n \<Longrightarrow>
   bt_get out n = last_value vars (credential_variable n) (bt_get creds n)"
proof (induction L creds vars rule: read_environment.induct)
  case (3 L creds name v vs)
  show ?case
  proof (cases "strip_prefix http_bearer_env_prefix name")
    case None
    then have "name \<noteq> credential_variable n"
      using strip_prefix_Some [of http_bearer_env_prefix name] by (auto simp: credential_variable_def)
    with 3 None show ?thesis by (simp add: last_value_def)
  next
    case (Some s)
    with 3(3) obtain val where ok: "credential_suffix_ok s" and v: "v = Some val"
      and val: "validate_bearer_credential_value L val = Inr ()"
      and rest: "read_environment L (bt_put (to_ascii_lowercase s) val creds) vs = Inr out"
      by (auto simp: bind_ok_Inr split: if_splits option.splits)
    have name: "name = credential_variable n \<longleftrightarrow> to_ascii_lowercase s = n"
      using Some credential_suffix_of [OF 3(5) ok] by (auto simp: strip_prefix_Some credential_variable_def)
    have "bt_get out n = last_value vs (credential_variable n) (bt_get (bt_put (to_ascii_lowercase s) val creds) n)"
      using 3(2) [OF Some _ v rest bt_wf_put [OF 3(4)] 3(5)] ok by blast
    also have "bt_get (bt_put (to_ascii_lowercase s) val creds) n =
        (if name = credential_variable n then v else bt_get creds n)"
      using bt_get_put [OF 3(4), of "to_ascii_lowercase s" val n] v unfolding name by (simp only: eq_commute)
    finally show ?thesis by (simp add: last_value_def)
  qed
qed (simp_all add: last_value_def)

definition usable :: "http_libs \<Rightarrow> ustr \<Rightarrow> bool" where
  "usable L secret \<longleftrightarrow> validate_bearer_credential_value L secret = Inr ()"

lemma set_bt_put: "set (bt_put k v m) \<subseteq> insert (k, v) (set m)"
  by (induction k v m rule: bt_put.induct) auto

lemma suffix_ok_name: "credential_suffix_ok s \<Longrightarrow> is_valid_http_credential_name (to_ascii_lowercase s)"
  by (simp add: credential_suffix_ok_def)

lemma read_environment_usable:
  "read_environment L creds vars = Inr out \<Longrightarrow>
   (\<forall>(n, secret)\<in>set creds. is_valid_http_credential_name n \<and> usable L secret) \<Longrightarrow>
   (\<forall>(n, secret)\<in>set out. is_valid_http_credential_name n \<and> usable L secret)"
proof (induction L creds vars rule: read_environment.induct)
  case (3 L creds name v vs)
  show ?case
  proof (cases "strip_prefix http_bearer_env_prefix name")
    case None
    with 3 show ?thesis by simp
  next
    case (Some s)
    with 3(3) obtain val where ok: "credential_suffix_ok s" and v: "v = Some val"
      and val: "validate_bearer_credential_value L val = Inr ()"
      and rest: "read_environment L (bt_put (to_ascii_lowercase s) val creds) vs = Inr out"
      by (auto simp: bind_ok_Inr split: if_splits option.splits)
    have "\<forall>(n, secret)\<in>set (bt_put (to_ascii_lowercase s) val creds). is_valid_http_credential_name n \<and> usable L secret"
      using 3(4) set_bt_put [of "to_ascii_lowercase s" val creds] suffix_ok_name [OF ok] val
      by (auto simp: usable_def)
    with 3(2) [OF Some _ v rest] ok show ?thesis by blast
  qed
qed simp_all

text \<open>What \<open>from_environment\<close> reads: the credential of a valid name is the value of the last variable whose
  name is the prefix followed by the name in capitals, and nothing else; only valid names are stored; and for
  every stored credential the authorization header can be built, so that no request fails later because of
  an unusable value.\<close>

theorem environment_credentials:
  assumes "from_environment L vars = Inr creds" and "is_valid_http_credential_name n"
  shows "bt_get creds n = last_value vars (credential_variable n) None \<and>
    list_all (\<lambda>(name, _). is_valid_http_credential_name name) creds \<and>
    (case bt_get creds n of
       None \<Rightarrow> bearer_authorization_value L creds n = Inl (Denied D_CredentialUnavailable)
     | Some secret \<Rightarrow> (case bearer_authorization_value L creds n of
         Inl _ \<Rightarrow> False
       | Inr v \<Rightarrow> hl_value L (lit ''Bearer '' @ secret) = Some v))"
proof -
  from assms(1) have r: "read_environment L [] vars = Inr creds" by (simp add: from_environment_def)
  have get: "bt_get creds n = last_value vars (credential_variable n) None"
    using read_environment_get [OF r _ assms(2)] by (simp add: bt_wf_def bt_get_def)
  have use: "\<forall>(m, secret)\<in>set creds. is_valid_http_credential_name m \<and> usable L secret"
    using read_environment_usable [OF r] by simp
  have "case bt_get creds n of
       None \<Rightarrow> bearer_authorization_value L creds n = Inl (Denied D_CredentialUnavailable)
     | Some secret \<Rightarrow> (case bearer_authorization_value L creds n of
         Inl _ \<Rightarrow> False
       | Inr v \<Rightarrow> hl_value L (lit ''Bearer '' @ secret) = Some v)"
  proof (cases "bt_get creds n")
    case None
    then show ?thesis by (simp add: bearer_authorization_value_def bind_ok_def ok_or_def)
  next
    case (Some secret)
    then have "(n, secret) \<in> set creds" by (auto simp: bt_get_def dest: map_of_SomeD)
    with use have "hl_value L (lit ''Bearer '' @ secret) \<noteq> None"
      by (auto simp: usable_def validate_bearer_credential_value_def simp del: lit_Cons split: if_splits)
    with Some show ?thesis
      by (auto simp: bearer_authorization_value_def bind_ok_def ok_or_def simp del: lit_Cons)
  qed
  with get use show ?thesis by (auto simp: list_all_iff)
qed

lemma environment_credentials_witness:
  "\<exists>creds. from_environment demo_http_libs
      [(Some (lit ''PATH''), Some (lit ''/bin'')), (Some (credential_variable (lit ''api_token'')), Some (lit ''s3''))] = Inr creds \<and>
    bt_get creds (lit ''api_token'') = Some (lit ''s3'')"
proof -
  let ?vars = "[(Some (lit ''PATH''), Some (lit ''/bin'')),
     (Some (credential_variable (lit ''api_token'')), Some (lit ''s3''))]"
  have "from_environment demo_http_libs ?vars = Inr [(lit ''api_token'', lit ''s3'')]" by code_simp
  moreover have "is_valid_http_credential_name (lit ''api_token'')" by code_simp
  moreover have "last_value ?vars (credential_variable (lit ''api_token'')) None = Some (lit ''s3'')" by code_simp
  ultimately show ?thesis using environment_credentials [of demo_http_libs ?vars] by (metis (no_types, lifting))
qed

end
