(* ===== verification/Assets.thy ===== *)
theory Assets
  imports Containers
begin

text \<open>
  The store of short-lived binary assets of plugin instances (\<open>crates/plugin-host/src/assets.rs\<close>): its
  records, the usage counters of each instance, and every operation that runs under its lock. Instants and
  durations are natural numbers of nanoseconds; the clock, the fresh identifier of an asset and the SHA-256
  digest come from outside. A \<open>HashMap\<close> iterates in the order of its list.
\<close>

section \<open>State\<close>

record stored_asset =
  sa_mime_type :: ustr
  sa_data :: "8 word list"

record asset_record =
  ar_instance :: ustr
  ar_asset :: stored_asset
  ar_accounted :: nat
  ar_deadline :: nat

record asset_usage =
  au_count :: nat
  au_bytes :: nat

record asset_state =
  as_records :: "(ustr, asset_record) hmap"
  as_usage :: "(ustr, asset_usage) hmap"
  as_total :: nat
  as_poisoned :: bool

record asset_limits =
  al_ttl :: nat
  al_asset_bytes :: nat
  al_instance_assets :: nat
  al_instance_bytes :: nat
  al_store_assets :: nat
  al_store_bytes :: nat

record asset_reference =
  rf_asset_id :: ustr
  rf_mime_type :: ustr
  rf_size_bytes :: nat
  rf_sha256 :: ustr
  rf_expires_at_ms :: int

datatype asset_error =
    TooLarge
  | QuotaExceeded
  | InvalidMimeType
  | InvalidInstanceId
  | NotFound
  | Poisoned

definition new_asset_state :: asset_state where
  "new_asset_state = \<lparr>as_records = [], as_usage = [], as_total = 0, as_poisoned = False\<rparr>"

definition default_asset_limits :: asset_limits where
  "default_asset_limits = \<lparr>al_ttl = 10 * 60 * 1000000000, al_asset_bytes = 8 * 1024 * 1024,
     al_instance_assets = 32, al_instance_bytes = 32 * 1024 * 1024, al_store_assets = 256,
     al_store_bytes = 256 * 1024 * 1024\<rparr>"

definition max_mime_type_bytes :: nat where "max_mime_type_bytes = 127"
definition max_instance_id_bytes :: nat where "max_instance_id_bytes = 256"

section \<open>Requests\<close>

text \<open>The punctuation that a token may have, besides ASCII letters and digits.\<close>

definition mime_punctuation :: "nat list" where
  "mime_punctuation = [33, 35, 36, 37, 38, 39, 42, 43, 45, 46, 94, 95, 96, 124, 126]"

definition is_mime_token_byte :: "nat \<Rightarrow> bool" where
  "is_mime_token_byte c \<longleftrightarrow> is_ascii_alphanumeric c \<or> c \<in> set mime_punctuation"

definition validate_mime_type :: "ustr \<Rightarrow> asset_error option" where
  "validate_mime_type mime =
     (case split_once (\<lambda>c. c = 47) mime of
        None \<Rightarrow> Some InvalidMimeType
      | Some (kind, subtype) \<Rightarrow>
          if mime = [] \<or> blen mime > max_mime_type_bytes \<or> 47 \<in> set subtype \<or> kind = [] \<or> subtype = [] \<or>
             \<not> list_all is_mime_token_byte kind \<or> \<not> list_all is_mime_token_byte subtype
          then Some InvalidMimeType else None)"

definition validate_insert_request ::
    "asset_limits \<Rightarrow> ustr \<Rightarrow> ustr \<Rightarrow> 8 word list \<Rightarrow> asset_error + nat" where
  "validate_insert_request limits instance_id mime data =
     (if length data > al_asset_bytes limits then Inl TooLarge
      else if instance_id = [] \<or> blen instance_id > max_instance_id_bytes \<or> list_ex is_control instance_id
      then Inl InvalidInstanceId
      else (case validate_mime_type mime of
              Some e \<Rightarrow> Inl e
            | None \<Rightarrow> Inr (usize_sat_add (usize_sat_add (length data) (blen mime)) (blen instance_id))))"

section \<open>Under the lock\<close>

definition usage_of :: "asset_state \<Rightarrow> ustr \<Rightarrow> asset_usage" where
  "usage_of s i = (case hm_get (as_usage s) i of None \<Rightarrow> \<lparr>au_count = 0, au_bytes = 0\<rparr> | Some u \<Rightarrow> u)"

definition has_capacity :: "asset_state \<Rightarrow> asset_limits \<Rightarrow> ustr \<Rightarrow> nat \<Rightarrow> bool" where
  "has_capacity s limits i accounted \<longleftrightarrow>
     au_count (usage_of s i) < al_instance_assets limits \<and>
     usize_sat_add (au_bytes (usage_of s i)) accounted \<le> al_instance_bytes limits \<and>
     hm_len (as_records s) < al_store_assets limits \<and>
     usize_sat_add (as_total s) accounted \<le> al_store_bytes limits"

definition remove_record :: "ustr \<Rightarrow> asset_state \<Rightarrow> asset_state" where
  "remove_record a s =
     (case hm_get (as_records s) a of
        None \<Rightarrow> s
      | Some r \<Rightarrow>
          let s1 = s\<lparr>as_records := hm_del a (as_records s), as_total := as_total s - ar_accounted r\<rparr>
          in (case hm_get (as_usage s1) (ar_instance r) of
                None \<Rightarrow> s1
              | Some u \<Rightarrow>
                  let u1 = \<lparr>au_count = au_count u - 1, au_bytes = au_bytes u - ar_accounted r\<rparr>
                  in s1\<lparr>as_usage := (if au_count u1 = 0 then hm_del (ar_instance r) (as_usage s1)
                                     else hm_put (ar_instance r) u1 (as_usage s1))\<rparr>))"

definition remove_records :: "ustr list \<Rightarrow> asset_state \<Rightarrow> asset_state" where
  "remove_records ids s = fold remove_record ids s"

definition purge_expired :: "nat \<Rightarrow> asset_state \<Rightarrow> asset_state" where
  "purge_expired now s =
     remove_records (map fst (filter (\<lambda>p. ar_deadline (snd p) \<le> now) (as_records s))) s"

section \<open>Operations\<close>

definition preflight ::
    "asset_limits \<Rightarrow> nat \<Rightarrow> ustr \<Rightarrow> ustr \<Rightarrow> 8 word list \<Rightarrow> asset_state \<Rightarrow> asset_state \<times> (asset_error + unit)" where
  "preflight limits now i mime data s =
     (case validate_insert_request limits i mime data of
        Inl e \<Rightarrow> (s, Inl e)
      | Inr accounted \<Rightarrow>
          if as_poisoned s then (s, Inl Poisoned)
          else
            (let s1 = purge_expired now s
             in if has_capacity s1 limits i accounted then (s1, Inr ()) else (s1, Inl QuotaExceeded)))"

definition i64_max :: int where "i64_max = 2 ^ 63 - 1"

definition now_ms :: "nat \<Rightarrow> int" where
  "now_ms millis = min (int millis) i64_max"

text \<open>\<open>wall\<close> is the time of the system clock in milliseconds, \<open>a\<close> the fresh identifier, \<open>digest\<close> the digest in
  hexadecimal digits.\<close>

definition insert_prehashed ::
    "asset_limits \<Rightarrow> nat \<Rightarrow> nat \<Rightarrow> ustr \<Rightarrow> ustr \<Rightarrow> ustr \<Rightarrow> 8 word list \<Rightarrow> ustr \<Rightarrow> asset_state \<Rightarrow>
     asset_state \<times> (asset_error + asset_reference)" where
  "insert_prehashed limits now wall a i mime data digest s =
     (case validate_insert_request limits i mime data of
        Inl e \<Rightarrow> (s, Inl e)
      | Inr accounted \<Rightarrow>
          if as_poisoned s then (s, Inl Poisoned)
          else
            (let s1 = purge_expired now s
             in if \<not> has_capacity s1 limits i accounted then (s1, Inl QuotaExceeded)
                else
                  (let ttl_ms = min (int (al_ttl limits div 1000000)) i64_max;
                       expires = min (now_ms wall + ttl_ms) i64_max;
                       u = usage_of s1 i
                   in (s1\<lparr>as_records := hm_put a
                            \<lparr>ar_instance = i, ar_asset = \<lparr>sa_mime_type = mime, sa_data = data\<rparr>,
                             ar_accounted = accounted, ar_deadline = now + al_ttl limits\<rparr> (as_records s1),
                          as_total := usize_sat_add (as_total s1) accounted,
                          as_usage := hm_put i
                            \<lparr>au_count = usize_sat_add (au_count u) 1, au_bytes = usize_sat_add (au_bytes u) accounted\<rparr>
                            (as_usage s1)\<rparr>,
                       Inr \<lparr>rf_asset_id = a, rf_mime_type = mime, rf_size_bytes = length data, rf_sha256 = digest,
                            rf_expires_at_ms = expires\<rparr>))))"

text \<open>\<open>insert\<close>: the two locked parts at two times with the digest between them; other threads may run between
  them, which the histories below allow.\<close>

definition asset_insert ::
    "(8 word list \<Rightarrow> ustr) \<Rightarrow> asset_limits \<Rightarrow> nat \<Rightarrow> nat \<Rightarrow> nat \<Rightarrow> ustr \<Rightarrow> ustr \<Rightarrow> ustr \<Rightarrow> 8 word list \<Rightarrow>
     (asset_state \<Rightarrow> asset_state) \<Rightarrow> asset_state \<Rightarrow> asset_state \<times> (asset_error + asset_reference)" where
  "asset_insert sha256 limits now later wall a i mime data others s =
     (case preflight limits now i mime data s of
        (s1, Inl e) \<Rightarrow> (s1, Inl e)
      | (s1, Inr _) \<Rightarrow> insert_prehashed limits later wall a i mime data (sha256 data) (others s1))"

definition asset_get :: "nat \<Rightarrow> ustr \<Rightarrow> ustr \<Rightarrow> asset_state \<Rightarrow> asset_state \<times> (asset_error + stored_asset)" where
  "asset_get now i a s =
     (if as_poisoned s then (s, Inl Poisoned)
      else
        (let s1 = purge_expired now s
         in (s1, case hm_get (as_records s1) a of
                   None \<Rightarrow> Inl NotFound
                 | Some r \<Rightarrow> if ar_instance r = i then Inr (ar_asset r) else Inl NotFound)))"

definition asset_remove :: "ustr \<Rightarrow> ustr \<Rightarrow> asset_state \<Rightarrow> asset_state \<times> (asset_error + unit)" where
  "asset_remove i a s =
     (if as_poisoned s then (s, Inl Poisoned)
      else (case hm_get (as_records s) a of
              None \<Rightarrow> (s, Inl NotFound)
            | Some r \<Rightarrow> if ar_instance r = i then (remove_record a s, Inr ()) else (s, Inl NotFound)))"

text \<open>\<open>remove_instance\<close> and the sweeper take the state out of a poisoned lock.\<close>

definition remove_instance :: "ustr \<Rightarrow> asset_state \<Rightarrow> asset_state" where
  "remove_instance i s = remove_records (map fst (filter (\<lambda>p. ar_instance (snd p) = i) (as_records s))) s"

definition sweep :: "nat \<Rightarrow> asset_state \<Rightarrow> asset_state" where
  "sweep now s = purge_expired now s"

definition sweep_interval :: "nat \<Rightarrow> nat" where
  "sweep_interval ttl = max (min ttl 1000000000) 1000000"

end
