(* ===== verification/AssetsProps.thy ===== *)
theory AssetsProps
  imports Assets
begin

text \<open>
  Properties of the asset store: its counters are those of its records, it refines a store that keeps only
  the records and computes usage from them, quotas hold in every history, and an asset is there, for its own
  instance only, until it expires or is removed.
\<close>

section \<open>Sums over the records\<close>

definition hm_sum :: "('v \<Rightarrow> nat) \<Rightarrow> ('k, 'v) hmap \<Rightarrow> nat" where
  "hm_sum f m = sum_list (map (f \<circ> snd) m)"

lemma hm_sum_Nil [simp]: "hm_sum f [] = 0"
  by (simp add: hm_sum_def)

lemma hm_sum_put_new: "hm_get m k = None \<Longrightarrow> hm_sum f (hm_put k v m) = hm_sum f m + f v"
  unfolding hm_eval hm_sum_def by (induction m) auto

lemma hm_sum_del: "hm_wf m \<Longrightarrow> hm_get m k = Some w \<Longrightarrow> hm_sum f (hm_del k m) + f w = hm_sum f m"
proof (unfold hm_eval hm_sum_def, induction m)
  case (Cons p m)
  show ?case
  proof (cases "fst p = k")
    case True
    with Cons.prems(1) have "AList.delete k m = m" by (auto intro: delete_id)
    with True Cons.prems show ?thesis by auto
  next
    case False
    with Cons show ?thesis by auto
  qed
qed simp

lemma hm_sum_count:
  assumes "hm_count P m = 0" and "\<And>v. \<not> P v \<Longrightarrow> f v = 0"
  shows "hm_sum f m = 0"
proof -
  have "\<forall>p\<in>set m. \<not> P (snd p)" using assms(1) by (simp add: hm_count_def filter_empty_conv)
  with assms(2) show ?thesis by (simp add: hm_sum_def)
qed

section \<open>The counters\<close>

definition of_instance :: "ustr \<Rightarrow> asset_record \<Rightarrow> bool" where
  "of_instance i r \<longleftrightarrow> ar_instance r = i"

definition instance_count :: "ustr \<Rightarrow> (ustr, asset_record) hmap \<Rightarrow> nat" where
  "instance_count i m = hm_count (of_instance i) m"

definition instance_bytes :: "ustr \<Rightarrow> (ustr, asset_record) hmap \<Rightarrow> nat" where
  "instance_bytes i m = hm_sum (\<lambda>r. if of_instance i r then ar_accounted r else 0) m"

definition store_bytes :: "(ustr, asset_record) hmap \<Rightarrow> nat" where
  "store_bytes m = hm_sum ar_accounted m"

definition asset_inv :: "asset_state \<Rightarrow> bool" where
  "asset_inv s \<longleftrightarrow>
     hm_wf (as_records s) \<and> hm_wf (as_usage s) \<and> as_total s = store_bytes (as_records s) \<and>
     (\<forall>i. hm_get (as_usage s) i =
        (if instance_count i (as_records s) = 0 then None
         else Some \<lparr>au_count = instance_count i (as_records s), au_bytes = instance_bytes i (as_records s)\<rparr>))"

lemma usage_of_exact:
  assumes "asset_inv s"
  shows "usage_of s i = \<lparr>au_count = instance_count i (as_records s), au_bytes = instance_bytes i (as_records s)\<rparr>"
proof -
  have "instance_bytes i (as_records s) = 0" if "instance_count i (as_records s) = 0"
    using that unfolding instance_bytes_def instance_count_def
    by (rule hm_sum_count) simp
  then show ?thesis using assms by (simp add: usage_of_def asset_inv_def)
qed

lemma remove_record_inv:
  assumes inv: "asset_inv s"
  shows "asset_inv (remove_record a s) \<and> as_records (remove_record a s) = hm_del a (as_records s) \<and>
    as_poisoned (remove_record a s) = as_poisoned s"
proof (cases "hm_get (as_records s) a")
  case None
  with inv show ?thesis by (simp add: remove_record_def hm_del_absent)
next
  case (Some r)
  let ?m = "as_records s" and ?m' = "hm_del a (as_records s)" and ?i = "ar_instance r"
  have wf: "hm_wf ?m" "hm_wf (as_usage s)" and total: "as_total s = store_bytes ?m" using inv by (simp_all add: asset_inv_def)
  have count: "instance_count j ?m' + of_bool (?i = j) = instance_count j ?m" for j
    using hm_count_del [OF wf(1) Some, of "of_instance j"] by (simp add: instance_count_def of_instance_def)
  have bytes: "instance_bytes j ?m' + (if ?i = j then ar_accounted r else 0) = instance_bytes j ?m" for j
    using hm_sum_del [OF wf(1) Some, of "\<lambda>r. if of_instance j r then ar_accounted r else 0"]
    by (simp add: instance_bytes_def of_instance_def)
  have sum: "store_bytes ?m' + ar_accounted r = store_bytes ?m"
    using hm_sum_del [OF wf(1) Some, of ar_accounted] by (simp add: store_bytes_def)
  have "instance_count ?i ?m \<noteq> 0" using count [of ?i] by simp
  then have u: "hm_get (as_usage s) ?i = Some \<lparr>au_count = instance_count ?i ?m, au_bytes = instance_bytes ?i ?m\<rparr>"
    using inv by (simp add: asset_inv_def)
  have own: "instance_count ?i ?m = Suc (instance_count ?i ?m')" "instance_bytes ?i ?m - ar_accounted r = instance_bytes ?i ?m'"
    using count [of ?i] bytes [of ?i] by simp_all
  have other: "instance_count j ?m' = instance_count j ?m" "instance_bytes j ?m' = instance_bytes j ?m" if "j \<noteq> ?i" for j
    using count [of j] bytes [of j] that by simp_all
  have get: "hm_get (as_usage s) j = (if instance_count j ?m = 0 then None
      else Some \<lparr>au_count = instance_count j ?m, au_bytes = instance_bytes j ?m\<rparr>)" for j
    using inv by (simp add: asset_inv_def)
  define w where "w = (if instance_count ?i ?m' = 0 then hm_del ?i (as_usage s)
      else hm_put ?i \<lparr>au_count = instance_count ?i ?m', au_bytes = instance_bytes ?i ?m'\<rparr> (as_usage s))"
  have s': "remove_record a s = s\<lparr>as_records := ?m', as_total := as_total s - ar_accounted r, as_usage := w\<rparr>"
    unfolding remove_record_def Some by (simp add: Let_def u own w_def)
  have "hm_get w j = (if instance_count j ?m' = 0 then None
       else Some \<lparr>au_count = instance_count j ?m', au_bytes = instance_bytes j ?m'\<rparr>)" for j
  proof (cases "j = ?i")
    case True
    with wf(2) show ?thesis by (simp add: w_def hm_simps)
  next
    case False
    then have "hm_get w j = hm_get (as_usage s) j" using wf(2) by (simp add: w_def hm_simps)
    with get [of j] other [OF False] show ?thesis by simp
  qed
  moreover have "hm_wf w" using wf(2) by (simp add: w_def hm_simps)
  ultimately show ?thesis
    unfolding s' asset_inv_def using wf(1) total sum by (simp add: hm_simps)
qed

lemma delete_eq_filter: "AList.delete k m = filter (\<lambda>p. fst p \<noteq> k) m"
  by (induction m) auto

lemma remove_records_inv:
  "asset_inv s \<Longrightarrow> asset_inv (remove_records ids s) \<and>
   as_records (remove_records ids s) = filter (\<lambda>p. fst p \<notin> set ids) (as_records s) \<and>
   as_poisoned (remove_records ids s) = as_poisoned s"
  unfolding remove_records_def
proof (induction ids arbitrary: s)
  case (Cons a ids)
  from remove_record_inv [OF Cons.prems, of a] Cons.IH [of "remove_record a s"]
  show ?case by (auto simp: hm_del_def delete_eq_filter intro!: filter_cong)
qed simp

lemma wf_filter_keys:
  "hm_wf m \<Longrightarrow> filter (\<lambda>p. fst p \<notin> set (map fst (filter (\<lambda>p. P (snd p)) m))) m = filter (\<lambda>p. \<not> P (snd p)) m"
proof (rule filter_cong [OF refl])
  fix p assume wf: "hm_wf m" and p: "p \<in> set m"
  have "q = p" if "q \<in> set m" "fst q = fst p" for q
    using wf p that unfolding hm_wf_def by (metis eq_key_imp_eq_value prod.collapse)
  with p show "(fst p \<notin> set (map fst (filter (\<lambda>p. P (snd p)) m))) = (\<not> P (snd p))" by force
qed

lemma purge_expired_inv:
  assumes "asset_inv s"
  shows "asset_inv (purge_expired now s)"
    and "as_records (purge_expired now s) = filter (\<lambda>p. \<not> ar_deadline (snd p) \<le> now) (as_records s)"
    and "as_poisoned (purge_expired now s) = as_poisoned s"
proof -
  let ?ids = "map fst (filter (\<lambda>p. ar_deadline (snd p) \<le> now) (as_records s))"
  have "hm_wf (as_records s)" using assms by (simp add: asset_inv_def)
  from wf_filter_keys [OF this, of "\<lambda>r. ar_deadline r \<le> now"] remove_records_inv [OF assms, of ?ids]
  show "asset_inv (purge_expired now s)"
    and "as_records (purge_expired now s) = filter (\<lambda>p. \<not> ar_deadline (snd p) \<le> now) (as_records s)"
    and "as_poisoned (purge_expired now s) = as_poisoned s"
    unfolding purge_expired_def by (metis (no_types, lifting))+
qed

section \<open>Histories\<close>

datatype asset_op =
    Preflight_Op nat ustr ustr "8 word list"
  | Insert_Op nat nat ustr ustr ustr "8 word list" ustr
  | Get_Op nat ustr ustr
  | Remove_Op ustr ustr
  | Remove_Instance_Op ustr
  | Sweep_Op nat

datatype asset_outcome =
    Checked "asset_error + unit"
  | Inserted "asset_error + asset_reference"
  | Got "asset_error + stored_asset"
  | Removed "asset_error + unit"
  | Silent

fun asset_step :: "asset_limits \<Rightarrow> asset_op \<Rightarrow> asset_state \<Rightarrow> asset_state \<times> asset_outcome" where
  "asset_step L (Preflight_Op now i mime data) s = map_prod id Checked (preflight L now i mime data s)"
| "asset_step L (Insert_Op now wall a i mime data digest) s =
     map_prod id Inserted (insert_prehashed L now wall a i mime data digest s)"
| "asset_step L (Get_Op now i a) s = map_prod id Got (asset_get now i a s)"
| "asset_step L (Remove_Op i a) s = map_prod id Removed (asset_remove i a s)"
| "asset_step L (Remove_Instance_Op i) s = (remove_instance i s, Silent)"
| "asset_step L (Sweep_Op now) s = (sweep now s, Silent)"

text \<open>The specification keeps the records only. Sizes are exact sums, not counters that saturate.\<close>

type_synonym asset_spec = "(ustr, asset_record) hmap"

definition spec_live :: "nat \<Rightarrow> asset_spec \<Rightarrow> asset_spec" where
  "spec_live now m = filter (\<lambda>p. now < ar_deadline (snd p)) m"

definition spec_fits :: "asset_limits \<Rightarrow> ustr \<Rightarrow> nat \<Rightarrow> asset_spec \<Rightarrow> bool" where
  "spec_fits L i n m \<longleftrightarrow>
     instance_count i m + 1 \<le> al_instance_assets L \<and> instance_bytes i m + n \<le> al_instance_bytes L \<and>
     length m + 1 \<le> al_store_assets L \<and> store_bytes m + n \<le> al_store_bytes L"

definition asset_size :: "ustr \<Rightarrow> ustr \<Rightarrow> 8 word list \<Rightarrow> nat" where
  "asset_size i mime data = length data + blen mime + blen i"

definition request_error :: "asset_limits \<Rightarrow> ustr \<Rightarrow> ustr \<Rightarrow> 8 word list \<Rightarrow> asset_error option" where
  "request_error L i mime data = (case validate_insert_request L i mime data of Inl e \<Rightarrow> Some e | Inr _ \<Rightarrow> None)"

definition spec_admit :: "asset_limits \<Rightarrow> nat \<Rightarrow> ustr \<Rightarrow> ustr \<Rightarrow> 8 word list \<Rightarrow> asset_spec \<Rightarrow> asset_spec \<times> asset_error option" where
  "spec_admit L now i mime data m =
     (case request_error L i mime data of
        Some e \<Rightarrow> (m, Some e)
      | None \<Rightarrow> (spec_live now m,
          if spec_fits L i (asset_size i mime data) (spec_live now m) then None else Some QuotaExceeded))"

definition new_record :: "asset_limits \<Rightarrow> nat \<Rightarrow> ustr \<Rightarrow> ustr \<Rightarrow> 8 word list \<Rightarrow> asset_record" where
  "new_record L now i mime data =
     \<lparr>ar_instance = i, ar_asset = \<lparr>sa_mime_type = mime, sa_data = data\<rparr>,
      ar_accounted = asset_size i mime data, ar_deadline = now + al_ttl L\<rparr>"

definition new_reference :: "asset_limits \<Rightarrow> nat \<Rightarrow> ustr \<Rightarrow> ustr \<Rightarrow> 8 word list \<Rightarrow> ustr \<Rightarrow> asset_reference" where
  "new_reference L wall a mime data digest =
     \<lparr>rf_asset_id = a, rf_mime_type = mime, rf_size_bytes = length data, rf_sha256 = digest,
      rf_expires_at_ms = min (min (int wall) i64_max + min (int (al_ttl L div 1000000)) i64_max) i64_max\<rparr>"

definition result_of :: "asset_error option \<Rightarrow> 'a \<Rightarrow> asset_error + 'a" where
  "result_of e x = (case e of Some err \<Rightarrow> Inl err | None \<Rightarrow> Inr x)"

definition spec_lookup :: "ustr \<Rightarrow> ustr \<Rightarrow> asset_spec \<Rightarrow> asset_record option" where
  "spec_lookup i a m = (case map_of m a of None \<Rightarrow> None | Some r \<Rightarrow> if of_instance i r then Some r else None)"

fun spec_step :: "asset_limits \<Rightarrow> asset_op \<Rightarrow> asset_spec \<Rightarrow> asset_spec \<times> asset_outcome" where
  "spec_step L (Preflight_Op now i mime data) m =
     (let (m', e) = spec_admit L now i mime data m in (m', Checked (result_of e ())))"
| "spec_step L (Insert_Op now wall a i mime data digest) m =
     (let (m', e) = spec_admit L now i mime data m
      in (if e = None then m' @ [(a, new_record L now i mime data)] else m',
          Inserted (result_of e (new_reference L wall a mime data digest))))"
| "spec_step L (Get_Op now i a) m =
     (let m' = spec_live now m
      in (m', Got (case spec_lookup i a m' of None \<Rightarrow> Inl NotFound | Some r \<Rightarrow> Inr (ar_asset r))))"
| "spec_step L (Remove_Op i a) m =
     (case spec_lookup i a m of
        None \<Rightarrow> (m, Removed (Inl NotFound))
      | Some _ \<Rightarrow> (filter (\<lambda>p. fst p \<noteq> a) m, Removed (Inr ())))"
| "spec_step L (Remove_Instance_Op i) m = (filter (\<lambda>p. \<not> of_instance i (snd p)) m, Silent)"
| "spec_step L (Sweep_Op now) m = (spec_live now m, Silent)"

definition limits_ok :: "asset_limits \<Rightarrow> bool" where
  "limits_ok L \<longleftrightarrow>
     al_asset_bytes L + max_mime_type_bytes + max_instance_id_bytes \<le> usize_max \<and>
     al_instance_assets L \<le> usize_max \<and> al_instance_bytes L < usize_max \<and> al_store_bytes L < usize_max"

lemma default_limits_ok: "limits_ok default_asset_limits"
  by (simp add: limits_ok_def default_asset_limits_def max_mime_type_bytes_def max_instance_id_bytes_def usize_max_def)

section \<open>Refinement\<close>

lemma validate_insert_exact:
  assumes "limits_ok L" "validate_insert_request L i mime data = Inr n"
  shows "n = asset_size i mime data"
proof -
  have "length data \<le> al_asset_bytes L" "blen mime \<le> max_mime_type_bytes" "blen i \<le> max_instance_id_bytes"
    and n: "n = usize_sat_add (usize_sat_add (length data) (blen mime)) (blen i)"
    using assms(2) by (auto simp: validate_insert_request_def validate_mime_type_def split: if_splits option.splits)
  with assms(1) show ?thesis by (simp add: limits_ok_def asset_size_def usize_sat_add_def)
qed

lemma sat_le: "k < usize_max \<Longrightarrow> usize_sat_add a b \<le> k \<longleftrightarrow> a + b \<le> k"
  by (auto simp: usize_sat_add_def)

lemma has_capacity_spec:
  assumes "asset_inv s" "limits_ok L"
  shows "has_capacity s L i n \<longleftrightarrow> spec_fits L i n (as_records s)"
proof -
  have "as_total s = store_bytes (as_records s)" using assms(1) by (simp add: asset_inv_def)
  then show ?thesis
    using assms(2) by (auto simp: has_capacity_def spec_fits_def usage_of_exact [OF assms(1)] sat_le limits_ok_def hm_len_def)
qed

lemma purge_spec: "asset_inv s \<Longrightarrow> as_records (purge_expired now s) = spec_live now (as_records s)"
  by (simp add: purge_expired_inv spec_live_def not_le)

lemma insert_record_inv:
  assumes inv: "asset_inv s" and fresh: "a \<notin> fst ` set (as_records s)" and L: "limits_ok L"
    and fits: "spec_fits L i n (as_records s)" and r: "ar_instance r = i" "ar_accounted r = n"
  shows "asset_inv (s\<lparr>as_records := hm_put a r (as_records s), as_total := usize_sat_add (as_total s) n,
      as_usage := hm_put i \<lparr>au_count = usize_sat_add (au_count (usage_of s i)) 1,
        au_bytes = usize_sat_add (au_bytes (usage_of s i)) n\<rparr> (as_usage s)\<rparr>)"
proof -
  let ?m = "as_records s"
  have none: "hm_get ?m a = None" using fresh by (simp add: hm_get_def map_of_eq_None_iff)
  have wf: "hm_wf ?m" "hm_wf (as_usage s)" using inv by (simp_all add: asset_inv_def)
  have count: "instance_count j (hm_put a r ?m) = instance_count j ?m + of_bool (i = j)" for j
    using hm_count_put_new [OF none] r by (simp add: instance_count_def of_instance_def)
  have bytes: "instance_bytes j (hm_put a r ?m) = instance_bytes j ?m + (if i = j then n else 0)" for j
    using hm_sum_put_new [OF none] r by (simp add: instance_bytes_def of_instance_def)
  have sum: "store_bytes (hm_put a r ?m) = store_bytes ?m + n"
    using hm_sum_put_new [OF none] r by (simp add: store_bytes_def)
  have exact: "usize_sat_add (as_total s) n = store_bytes ?m + n"
    "usize_sat_add (instance_count i ?m) (Suc 0) = Suc (instance_count i ?m)"
    "usize_sat_add (instance_bytes i ?m) n = instance_bytes i ?m + n"
    using fits L inv by (auto simp: spec_fits_def limits_ok_def asset_inv_def usize_sat_add_def)
  have get: "hm_get (as_usage s) j = (if instance_count j ?m = 0 then None
      else Some \<lparr>au_count = instance_count j ?m, au_bytes = instance_bytes j ?m\<rparr>)" for j
    using inv by (simp add: asset_inv_def)
  show ?thesis
    unfolding asset_inv_def usage_of_exact [OF inv]
    using wf get by (simp add: exact hm_simps count bytes sum)
qed

lemma preflight_spec:
  assumes inv: "asset_inv s" and L: "limits_ok L" and p: "\<not> as_poisoned s"
  shows "preflight L now i mime data s =
    (let e = snd (spec_admit L now i mime data (as_records s)) in
     (if request_error L i mime data = None then purge_expired now s else s, result_of e ()))"
  using p has_capacity_spec [OF purge_expired_inv(1) [OF inv] L] validate_insert_exact [OF L]
  by (auto simp: preflight_def spec_admit_def request_error_def result_of_def Let_def purge_spec [OF inv] split: sum.split)

lemma spec_admit_records:
  "asset_inv s \<Longrightarrow> fst (spec_admit L now i mime data (as_records s)) =
     as_records (if request_error L i mime data = None then purge_expired now s else s)"
  by (simp add: spec_admit_def purge_spec split: option.split)

lemma insert_spec:
  assumes inv: "asset_inv s" and L: "limits_ok L" and p: "\<not> as_poisoned s" and fresh: "a \<notin> fst ` set (as_records s)"
  shows "let (s', r) = insert_prehashed L now wall a i mime data digest s;
      (m', e) = spec_admit L now i mime data (as_records s)
    in asset_inv s' \<and> \<not> as_poisoned s' \<and>
       as_records s' = (if e = None then m' @ [(a, new_record L now i mime data)] else m') \<and>
       r = result_of e (new_reference L wall a mime data digest)"
proof (cases "validate_insert_request L i mime data")
  case (Inl e)
  then show ?thesis using inv p by (simp add: insert_prehashed_def spec_admit_def request_error_def result_of_def Let_def)
next
  case (Inr n)
  let ?s1 = "purge_expired now s"
  have n: "n = asset_size i mime data" using validate_insert_exact [OF L Inr] .
  have e: "request_error L i mime data = None" by (simp add: request_error_def Inr)
  note s1 = purge_expired_inv [OF inv, of now]
  have cap: "has_capacity ?s1 L i n \<longleftrightarrow> spec_fits L i n (spec_live now (as_records s))"
    using has_capacity_spec [OF s1(1) L] purge_spec [OF inv] by simp
  show ?thesis
  proof (cases "spec_fits L i n (spec_live now (as_records s))")
    case False
    with cap s1 p Inr e n show ?thesis
      by (simp add: insert_prehashed_def spec_admit_def result_of_def Let_def purge_spec [OF inv])
  next
    case True
    have fresh1: "a \<notin> fst ` set (as_records ?s1)" using fresh by (auto simp: purge_spec [OF inv] spec_live_def)
    have fits: "spec_fits L i n (as_records ?s1)" using True by (simp add: purge_spec [OF inv])
    let ?r = "new_record L now i mime data"
    have "asset_inv (?s1\<lparr>as_records := hm_put a ?r (as_records ?s1), as_total := usize_sat_add (as_total ?s1) n,
      as_usage := hm_put i \<lparr>au_count = usize_sat_add (au_count (usage_of ?s1 i)) 1,
        au_bytes = usize_sat_add (au_bytes (usage_of ?s1 i)) n\<rparr> (as_usage ?s1)\<rparr>)"
      by (rule insert_record_inv [OF s1(1) fresh1 L fits]) (simp_all add: new_record_def n)
    moreover have "hm_put a ?r (as_records ?s1) = spec_live now (as_records s) @ [(a, ?r)]"
      using fresh1 by (simp add: purge_spec [OF inv] hm_put_fresh hm_get_None_iff)
    ultimately show ?thesis
      using cap True s1 p Inr e n
      by (simp add: insert_prehashed_def spec_admit_def result_of_def Let_def new_record_def new_reference_def now_ms_def)
  qed
qed

definition op_id :: "asset_op \<Rightarrow> ustr list" where
  "op_id op = (case op of Insert_Op _ _ a _ _ _ _ \<Rightarrow> [a] | _ \<Rightarrow> [])"

lemma asset_step_spec:
  assumes inv: "asset_inv s" and L: "limits_ok L" and p: "\<not> as_poisoned s"
    and fresh: "set (op_id op) \<inter> fst ` set (as_records s) = {}"
    and step: "asset_step L op s = (s', r)"
  shows "asset_inv s' \<and> \<not> as_poisoned s' \<and> spec_step L op (as_records s) = (as_records s', r)"
proof (cases op)
  case (Preflight_Op now i mime data)
  with step preflight_spec [OF inv L p] spec_admit_records [OF inv, of L now i mime data] inv p
    purge_expired_inv [OF inv]
  show ?thesis by (auto simp: Let_def split: prod.splits if_splits)
next
  case (Insert_Op now wall a i mime data digest)
  with fresh have "a \<notin> fst ` set (as_records s)" by (simp add: op_id_def)
  from insert_spec [OF inv L p this, of now wall i mime data digest] step Insert_Op
  show ?thesis by (auto simp: Let_def split: prod.splits)
next
  case (Get_Op now i a)
  with step p purge_expired_inv [OF inv, of now]
  show ?thesis
    by (auto simp: asset_get_def spec_lookup_def of_instance_def hm_get_def Let_def purge_spec [OF inv] split: option.splits)
next
  case (Remove_Op i a)
  with step p inv remove_record_inv [OF inv, of a]
  show ?thesis
    by (auto simp: asset_remove_def spec_lookup_def of_instance_def hm_get_def hm_del_def delete_eq_filter
        split: option.splits if_splits)
next
  case (Remove_Instance_Op i)
  let ?ids = "map fst (filter (\<lambda>p. ar_instance (snd p) = i) (as_records s))"
  have "hm_wf (as_records s)" using inv by (simp add: asset_inv_def)
  from wf_filter_keys [OF this, of "\<lambda>r. ar_instance r = i"] remove_records_inv [OF inv, of ?ids] step Remove_Instance_Op p
  show ?thesis by (auto simp: remove_instance_def of_instance_def)
next
  case (Sweep_Op now)
  with step p purge_expired_inv [OF inv, of now] purge_spec [OF inv, of now]
  show ?thesis by (auto simp: sweep_def)
qed

fun run_assets :: "asset_limits \<Rightarrow> asset_op list \<Rightarrow> asset_state \<Rightarrow> asset_state \<times> asset_outcome list" where
  "run_assets L [] s = (s, [])"
| "run_assets L (op # ops) s =
     (let (s1, r) = asset_step L op s; (s2, rs) = run_assets L ops s1 in (s2, r # rs))"

fun run_spec :: "asset_limits \<Rightarrow> asset_op list \<Rightarrow> asset_spec \<Rightarrow> asset_spec \<times> asset_outcome list" where
  "run_spec L [] m = (m, [])"
| "run_spec L (op # ops) m =
     (let (m1, r) = spec_step L op m; (m2, rs) = run_spec L ops m1 in (m2, r # rs))"

definition inserted_ids :: "asset_op list \<Rightarrow> ustr list" where
  "inserted_ids ops = concat (map op_id ops)"

lemma spec_step_keys: "fst ` set (fst (spec_step L op m)) \<subseteq> fst ` set m \<union> set (op_id op)"
  by (cases op) (auto simp: spec_admit_def spec_live_def op_id_def Let_def split: option.splits prod.splits if_splits)

lemma run_assets_spec:
  "asset_inv s \<Longrightarrow> limits_ok L \<Longrightarrow> \<not> as_poisoned s \<Longrightarrow> distinct (inserted_ids ops) \<Longrightarrow>
   set (inserted_ids ops) \<inter> fst ` set (as_records s) = {} \<Longrightarrow> run_assets L ops s = (s', rs) \<Longrightarrow>
   asset_inv s' \<and> \<not> as_poisoned s' \<and> run_spec L ops (as_records s) = (as_records s', rs)"
proof (induction ops arbitrary: s rs s')
  case (Cons op ops)
  obtain s1 r where s1: "asset_step L op s = (s1, r)" by fastforce
  obtain s2 rs2 where s2: "run_assets L ops s1 = (s2, rs2)" by fastforce
  have ids: "inserted_ids (op # ops) = op_id op @ inserted_ids ops" by (simp add: inserted_ids_def)
  from asset_step_spec [OF Cons.prems(1-3) _ s1] Cons.prems(5) ids
  have step: "asset_inv s1" "\<not> as_poisoned s1" "spec_step L op (as_records s) = (as_records s1, r)" by auto
  have "fst ` set (as_records s1) \<subseteq> fst ` set (as_records s) \<union> set (op_id op)"
    using spec_step_keys [of L op "as_records s"] step(3) by simp
  then have "set (inserted_ids ops) \<inter> fst ` set (as_records s1) = {}"
    using Cons.prems(4,5) ids by auto
  from Cons.IH [OF step(1) Cons.prems(2) step(2) _ this s2] Cons.prems(4,6) ids s1 s2 step(3)
  show ?case by (auto simp: Let_def)
qed simp

lemma new_asset_inv: "asset_inv new_asset_state" "\<not> as_poisoned new_asset_state" "as_records new_asset_state = []"
  by (simp_all add: new_asset_state_def asset_inv_def store_bytes_def instance_count_def hm_simps)

text \<open>[C29] The asset store refines a store that keeps only the records: in every history of operations, with any
  clock and pairwise different new identifiers, each operation answers what the specification answers, which
  computes usage by exact sums over the live records; the counters of the code, updated one by one with
  saturating arithmetic, never drift from the records.\<close>

theorem asset_store_refines:
  assumes "limits_ok L" and "distinct (inserted_ids ops)"
    and "run_assets L ops new_asset_state = (s, outcomes)"
  shows "run_spec L ops [] = (as_records s, outcomes) \<and> as_total s = store_bytes (as_records s) \<and>
    usage_of s i = \<lparr>au_count = instance_count i (as_records s), au_bytes = instance_bytes i (as_records s)\<rparr>"
proof -
  from run_assets_spec [OF new_asset_inv(1) assms(1) new_asset_inv(2) assms(2) _ assms(3)]
  have s: "asset_inv s" "run_spec L ops [] = (as_records s, outcomes)" by (simp_all add: new_asset_inv(3))
  from usage_of_exact [OF s(1)] s show ?thesis by (simp add: asset_inv_def)
qed

section \<open>Quotas\<close>

definition within_quotas :: "asset_limits \<Rightarrow> asset_spec \<Rightarrow> bool" where
  "within_quotas L m \<longleftrightarrow>
     length m \<le> al_store_assets L \<and> store_bytes m \<le> al_store_bytes L \<and>
     (\<forall>i. instance_count i m \<le> al_instance_assets L \<and> instance_bytes i m \<le> al_instance_bytes L) \<and>
     (\<forall>p\<in>set m. length (sa_data (ar_asset (snd p))) \<le> al_asset_bytes L)"

lemma sum_list_filter_le: "sum_list (map f (filter P xs)) \<le> (sum_list (map f xs) :: nat)"
  by (induction xs) auto

lemma within_quotas_filter: "within_quotas L m \<Longrightarrow> within_quotas L (filter P m)"
  unfolding within_quotas_def store_bytes_def instance_count_def instance_bytes_def hm_count_def hm_sum_def
proof (intro conjI allI ballI)
  fix i
  assume q: "length m \<le> al_store_assets L \<and> sum_list (map (ar_accounted \<circ> snd) m) \<le> al_store_bytes L \<and>
    (\<forall>i. length (filter (\<lambda>p. of_instance i (snd p)) m) \<le> al_instance_assets L \<and>
         sum_list (map ((\<lambda>r. if of_instance i r then ar_accounted r else 0) \<circ> snd) m) \<le> al_instance_bytes L) \<and>
    (\<forall>p\<in>set m. length (sa_data (ar_asset (snd p))) \<le> al_asset_bytes L)"
  show "length (filter P m) \<le> al_store_assets L" using q length_filter_le le_trans by blast
  show "sum_list (map (ar_accounted \<circ> snd) (filter P m)) \<le> al_store_bytes L"
    using q sum_list_filter_le le_trans by blast
  have "length (filter (\<lambda>p. of_instance i (snd p)) (filter P m)) \<le> length (filter (\<lambda>p. of_instance i (snd p)) m)"
    by (induction m) auto
  then show "length (filter (\<lambda>p. of_instance i (snd p)) (filter P m)) \<le> al_instance_assets L" using q le_trans by blast
  show "sum_list (map ((\<lambda>r. if of_instance i r then ar_accounted r else 0) \<circ> snd) (filter P m)) \<le> al_instance_bytes L"
    using q sum_list_filter_le le_trans by blast
qed simp

lemma request_error_size: "request_error L i mime data = None \<Longrightarrow> length data \<le> al_asset_bytes L"
  by (auto simp: request_error_def validate_insert_request_def split: if_splits sum.splits)

lemma within_quotas_insert:
  assumes "within_quotas L m" "spec_fits L i (asset_size i mime data) m" "length data \<le> al_asset_bytes L"
  shows "within_quotas L (m @ [(a, new_record L now i mime data)])"
  using assms
  by (auto simp: within_quotas_def spec_fits_def store_bytes_def instance_count_def instance_bytes_def hm_count_def
      hm_sum_def new_record_def of_instance_def)

lemma within_quotas_step: "within_quotas L m \<Longrightarrow> within_quotas L (fst (spec_step L op m))"
proof (cases op)
  case (Insert_Op now wall a i mime data digest)
  assume q: "within_quotas L m"
  with Insert_Op within_quotas_insert [of L "spec_live now m" i mime data a now] request_error_size [of L i mime data]
  show ?thesis
    by (auto simp: spec_admit_def spec_live_def Let_def within_quotas_filter split: option.splits)
qed (auto simp: spec_admit_def spec_live_def Let_def within_quotas_filter split: option.splits prod.splits)

lemma within_quotas_run: "within_quotas L m \<Longrightarrow> within_quotas L (fst (run_spec L ops m))"
proof (induction ops arbitrary: m)
  case (Cons op ops)
  from Cons.IH [OF within_quotas_step [OF Cons.prems, of op]] show ?case by (auto simp: Let_def split: prod.splits)
qed simp

lemma within_quotas_Nil: "within_quotas L []"
  by (simp add: within_quotas_def store_bytes_def instance_count_def instance_bytes_def)

text \<open>No history of operations exceeds a quota: the number and the accounted bytes of the assets, of the
  whole store and of each instance, and the size of each asset stay within their limits.\<close>

theorem asset_quotas_kept:
  assumes "limits_ok L" and "distinct (inserted_ids ops)"
    and "run_assets L ops new_asset_state = (s, outcomes)"
  shows "within_quotas L (as_records s)"
proof -
  from run_assets_spec [OF new_asset_inv(1) assms(1) new_asset_inv(2) assms(2) _ assms(3)]
  have "run_spec L ops [] = (as_records s, outcomes)" by (simp add: new_asset_inv(3))
  with within_quotas_run [OF within_quotas_Nil, of L ops] show ?thesis by simp
qed

section \<open>Availability and isolation\<close>

text \<open>Operations that leave the asset \<open>a\<close> of instance \<open>i\<close> with deadline \<open>d\<close> alone.\<close>

fun leaves_asset :: "nat \<Rightarrow> ustr \<Rightarrow> ustr \<Rightarrow> asset_op \<Rightarrow> bool" where
  "leaves_asset d i a (Preflight_Op now _ _ _) \<longleftrightarrow> now < d"
| "leaves_asset d i a (Insert_Op now _ _ _ _ _ _) \<longleftrightarrow> now < d"
| "leaves_asset d i a (Get_Op now _ _) \<longleftrightarrow> now < d"
| "leaves_asset d i a (Remove_Op j b) \<longleftrightarrow> j \<noteq> i \<or> b \<noteq> a"
| "leaves_asset d i a (Remove_Instance_Op j) \<longleftrightarrow> j \<noteq> i"
| "leaves_asset d i a (Sweep_Op now) \<longleftrightarrow> now < d"

lemma spec_step_leaves:
  assumes "(a, r) \<in> set m" "distinct (map fst m)" "ar_instance r = i" "ar_deadline r = d" "leaves_asset d i a op"
  shows "(a, r) \<in> set (fst (spec_step L op m))"
proof (cases op)
  case (Remove_Op j b)
  have "map_of m a = Some r" using assms(1,2) by (simp add: map_of_is_SomeI)
  then have "spec_lookup j a m = None" if "j \<noteq> i" using that assms(3) by (simp add: spec_lookup_def of_instance_def)
  then show ?thesis using assms(1,5) Remove_Op by (cases "b = a") (auto split: option.splits)
qed (use assms in \<open>auto simp: spec_admit_def spec_live_def of_instance_def Let_def split: option.splits prod.splits\<close>)

lemma run_assets_leaves:
  "asset_inv s \<Longrightarrow> limits_ok L \<Longrightarrow> \<not> as_poisoned s \<Longrightarrow> distinct (inserted_ids ops) \<Longrightarrow>
   set (inserted_ids ops) \<inter> fst ` set (as_records s) = {} \<Longrightarrow> run_assets L ops s = (s', rs) \<Longrightarrow>
   (a, r) \<in> set (as_records s) \<Longrightarrow> ar_instance r = i \<Longrightarrow> ar_deadline r = d \<Longrightarrow> list_all (leaves_asset d i a) ops \<Longrightarrow>
   (a, r) \<in> set (as_records s')"
proof (induction ops arbitrary: s rs s')
  case (Cons op ops)
  obtain s1 r1 where s1: "asset_step L op s = (s1, r1)" by fastforce
  obtain s2 rs2 where s2: "run_assets L ops s1 = (s2, rs2)" by fastforce
  have ids: "inserted_ids (op # ops) = op_id op @ inserted_ids ops" by (simp add: inserted_ids_def)
  from asset_step_spec [OF Cons.prems(1-3) _ s1] Cons.prems(5) ids
  have step: "asset_inv s1" "\<not> as_poisoned s1" "spec_step L op (as_records s) = (as_records s1, r1)" by auto
  have "fst ` set (as_records s1) \<subseteq> fst ` set (as_records s) \<union> set (op_id op)"
    using spec_step_keys [of L op "as_records s"] step(3) by simp
  then have disj: "set (inserted_ids ops) \<inter> fst ` set (as_records s1) = {}"
    using Cons.prems(4,5) ids by auto
  have "distinct (map fst (as_records s))" using Cons.prems(1) by (simp add: asset_inv_def hm_wf_def)
  from spec_step_leaves [OF Cons.prems(7) this Cons.prems(8,9), of op L] Cons.prems(10) step(3)
  have "(a, r) \<in> set (as_records s1)" by simp
  from Cons.IH [OF step(1) Cons.prems(2) step(2) _ disj s2 this Cons.prems(8,9)] Cons.prems(4,6,10) ids s1 s2
  show ?case by (auto simp: Let_def)
qed simp

lemma inserted_record:
  assumes inv: "asset_inv s" "limits_ok L" "\<not> as_poisoned s" "a \<notin> fst ` set (as_records s)"
    and step: "asset_step L (Insert_Op now wall a i mime data digest) s = (s', Inserted (Inr ref))"
  shows "(a, new_record L now i mime data) \<in> set (as_records s')"
  using insert_spec [OF inv, of now wall i mime data digest] step
  by (auto simp: Let_def result_of_def split: prod.splits option.splits)

lemma asset_get_exact:
  assumes "asset_inv s" "\<not> as_poisoned s" "(a, r) \<in> set (as_records s)"
  shows "snd (asset_get now j a s) =
    (if j = ar_instance r \<and> now < ar_deadline r then Inr (ar_asset r) else Inl NotFound)"
proof -
  have d: "distinct (map fst (as_records s))" using assms(1) by (simp add: asset_inv_def hm_wf_def)
  have "map_of (spec_live now (as_records s)) a = (if now < ar_deadline r then Some r else None)"
  proof (cases "now < ar_deadline r")
    case True
    moreover have "distinct (map fst (spec_live now (as_records s)))"
      using d by (simp add: spec_live_def distinct_map_filter)
    ultimately show ?thesis using assms(3) by (simp add: spec_live_def map_of_is_SomeI)
  next
    case False
    have "q = (a, r)" if "q \<in> set (as_records s)" "fst q = a" for q
      using d assms(3) that by (metis eq_key_imp_eq_value prod.collapse)
    with False have "a \<notin> fst ` set (spec_live now (as_records s))" by (force simp: spec_live_def)
    with False show ?thesis by (simp add: map_of_eq_None_iff)
  qed
  then show ?thesis using assms(1,2)
    by (auto simp: asset_get_def Let_def hm_get_def purge_spec)
qed

lemma run_spec_keys: "fst ` set (fst (run_spec L ops m)) \<subseteq> fst ` set m \<union> set (inserted_ids ops)"
proof (induction ops arbitrary: m)
  case (Cons op ops)
  obtain m1 r where 1: "spec_step L op m = (m1, r)" by fastforce
  obtain m2 rs where 2: "run_spec L ops m1 = (m2, rs)" by fastforce
  have "fst ` set m2 \<subseteq> fst ` set m1 \<union> set (inserted_ids ops)" using Cons.IH [of m1] 2 by simp
  moreover have "fst ` set m1 \<subseteq> fst ` set m \<union> set (op_id op)" using spec_step_keys [of L op m] 1 by simp
  ultimately have "fst ` set m2 \<subseteq> fst ` set m \<union> (set (op_id op) \<union> set (inserted_ids ops))" by blast
  with 1 2 show ?case by (simp add: inserted_ids_def)
qed simp

text \<open>An asset that was stored is there for the instance that stored it, whatever other instances do and
  however full the store becomes: until its deadline passes at some operation or its own instance removes it
  (or is removed), \<open>get\<close> returns exactly the data and the type that were stored. For every other instance, and
  from the deadline on, it does not exist.\<close>

theorem asset_available:
  assumes "limits_ok L"
    and "distinct (inserted_ids (before @ Insert_Op now wall a i mime data digest # after))"
    and "run_assets L before new_asset_state = (s0, rs0)"
    and "asset_step L (Insert_Op now wall a i mime data digest) s0 = (s1, Inserted (Inr ref))"
    and "list_all (leaves_asset (now + al_ttl L) i a) after"
    and "run_assets L after s1 = (s2, rs2)"
  shows "snd (asset_get later j a s2) =
    (if j = i \<and> later < now + al_ttl L then Inr \<lparr>sa_mime_type = mime, sa_data = data\<rparr> else Inl NotFound)"
proof -
  let ?op = "Insert_Op now wall a i mime data digest"
  have ids: "inserted_ids (before @ ?op # after) = inserted_ids before @ a # inserted_ids after"
    by (simp add: inserted_ids_def op_id_def)
  from run_assets_spec [OF new_asset_inv(1) assms(1) new_asset_inv(2) _ _ assms(3)] assms(2) ids
  have s0: "asset_inv s0" "\<not> as_poisoned s0" and r0: "run_spec L before [] = (as_records s0, rs0)"
    by (simp_all add: new_asset_inv(3))
  from run_spec_keys [of L before "[]"] r0 assms(2) ids have fresh: "a \<notin> fst ` set (as_records s0)" by auto
  from asset_step_spec [OF s0(1) assms(1) s0(2) _ assms(4)] fresh
  have s1: "asset_inv s1" "\<not> as_poisoned s1" "spec_step L ?op (as_records s0) = (as_records s1, Inserted (Inr ref))"
    by (simp_all add: op_id_def)
  have in1: "(a, new_record L now i mime data) \<in> set (as_records s1)"
    by (rule inserted_record [OF s0(1) assms(1) s0(2) fresh assms(4)])
  have "fst ` set (as_records s1) \<subseteq> insert a (fst ` set (as_records s0))"
    using spec_step_keys [of L ?op "as_records s0"] s1(3) by (simp add: op_id_def)
  then have disj: "set (inserted_ids after) \<inter> fst ` set (as_records s1) = {}" and dist: "distinct (inserted_ids after)"
    using run_spec_keys [of L before "[]"] r0 assms(2) ids by auto
  have d: "ar_instance (new_record L now i mime data) = i" "ar_deadline (new_record L now i mime data) = now + al_ttl L"
    by (simp_all add: new_record_def)
  have in2: "(a, new_record L now i mime data) \<in> set (as_records s2)"
    by (rule run_assets_leaves [OF s1(1) assms(1) s1(2) dist disj assms(6) in1 d assms(5)])
  from run_assets_spec [OF s1(1) assms(1) s1(2) dist disj assms(6)] have "asset_inv s2" "\<not> as_poisoned s2" by auto
  from asset_get_exact [OF this in2] show ?thesis by (simp add: new_record_def)
qed

definition demo_limits :: asset_limits where
  "demo_limits = \<lparr>al_ttl = 1000, al_asset_bytes = 8, al_instance_assets = 2, al_instance_bytes = 64,
     al_store_assets = 3, al_store_bytes = 128\<rparr>"

definition demo_insert :: "nat \<Rightarrow> string \<Rightarrow> string \<Rightarrow> asset_op" where
  "demo_insert now a i = Insert_Op now 0 (lit a) (lit i) (lit ''image/png'') [1, 2, 3] (lit ''digest'')"

definition demo_ops :: "asset_op list" where
  "demo_ops = [demo_insert 0 ''a1'' ''p/a'', demo_insert 5 ''b1'' ''p/b'', demo_insert 6 ''b2'' ''p/b'',
     demo_insert 7 ''b3'' ''p/b'', Remove_Op (lit ''p/b'') (lit ''a1''), Get_Op 8 (lit ''p/a'') (lit ''a1'')]"

lemma demo_limits_ok: "limits_ok demo_limits"
  by (simp add: limits_ok_def demo_limits_def max_mime_type_bytes_def max_instance_id_bytes_def usize_max_def)

definition demo_run :: "asset_state \<times> asset_outcome list" where
  "demo_run = run_assets demo_limits demo_ops new_asset_state"

lemma demo_run_outcomes:
  "map (\<lambda>r. case r of Inserted (Inr _) \<Rightarrow> ''stored'' | Inserted (Inl QuotaExceeded) \<Rightarrow> ''quota''
      | Removed (Inl _) \<Rightarrow> ''missing'' | Got (Inr _) \<Rightarrow> ''got'' | _ \<Rightarrow> ''other'') (snd demo_run) =
   [''stored'', ''stored'', ''stored'', ''quota'', ''missing'', ''got'']"
  by code_simp

lemma asset_store_refines_witness:
  "run_spec demo_limits demo_ops [] = (as_records (fst demo_run), snd demo_run) \<and>
   au_count (usage_of (fst demo_run) (lit ''p/b'')) = instance_count (lit ''p/b'') (as_records (fst demo_run))"
proof -
  have "distinct (inserted_ids demo_ops)" by code_simp
  from asset_store_refines [OF demo_limits_ok this, of "fst demo_run" "snd demo_run" "lit ''p/b''"]
  show ?thesis by (simp add: demo_run_def)
qed

lemma asset_quotas_kept_witness: "within_quotas demo_limits (as_records (fst demo_run))"
proof -
  have "distinct (inserted_ids demo_ops)" by code_simp
  from asset_quotas_kept [OF demo_limits_ok this, of "fst demo_run" "snd demo_run"]
  show ?thesis by (simp add: demo_run_def)
qed

lemma asset_available_witness:
  "\<exists>s. snd (asset_get 900 (lit ''p/a'') (lit ''a1'') s) =
     Inr \<lparr>sa_mime_type = lit ''image/png'', sa_data = [1, 2, 3]\<rparr> \<and>
   snd (asset_get 1000 (lit ''p/a'') (lit ''a1'') s) = Inl NotFound"
proof -
  let ?op = "Insert_Op 0 0 (lit ''a1'') (lit ''p/a'') (lit ''image/png'') [1, 2, 3] (lit ''digest'')"
  let ?after = "[demo_insert 5 ''b1'' ''p/b'', Remove_Op (lit ''p/b'') (lit ''a1'')]"
  obtain s1 r where s1: "asset_step demo_limits ?op new_asset_state = (s1, r)" by fastforce
  have "case r of Inserted (Inr _) \<Rightarrow> True | _ \<Rightarrow> False"
  proof -
    have "case snd (asset_step demo_limits ?op new_asset_state) of Inserted (Inr _) \<Rightarrow> True | _ \<Rightarrow> False" by code_simp
    then show ?thesis unfolding s1 snd_conv .
  qed
  then obtain ref where r: "r = Inserted (Inr ref)" by (auto split: asset_outcome.splits sum.splits)
  obtain s2 rs where s2: "run_assets demo_limits ?after s1 = (s2, rs)" by fastforce
  have ids: "distinct (inserted_ids ([] @ ?op # ?after))" by code_simp
  have leaves: "list_all (leaves_asset (0 + al_ttl demo_limits) (lit ''p/a'') (lit ''a1'')) ?after" by code_simp
  have run: "run_assets demo_limits [] new_asset_state = (new_asset_state, [])" by simp
  note available = asset_available [OF demo_limits_ok ids run s1 [unfolded r] leaves s2]
  have "al_ttl demo_limits = 1000" by (simp add: demo_limits_def)
  with available [of 900 "lit ''p/a''"] available [of 1000 "lit ''p/a''"] show ?thesis by auto
qed

end
