(* ===== verification/PluginTypes.thy ===== *)
theory PluginTypes
  imports Containers
begin

text \<open>
  The protocol between the host and its plugins (\<open>crates/plugin-api/src/protocol.rs\<close>): event envelopes,
  handler output, state operations, commands, completions and errors. A JSON value is a \<open>serde_json::Value\<close>;
  a number is kept as its text. Timestamps (\<open>i64\<close>) are integers.
\<close>

section \<open>JSON\<close>

datatype json =
    J_Null
  | J_Bool bool
  | J_Number ustr
  | J_String ustr
  | J_Array "json list"
  | J_Object "(ustr \<times> json) list"

section \<open>Events\<close>

record extension_payload =
  xp_namespace :: ustr
  xp_schema_version :: ustr
  xp_content_type :: ustr
  xp_data :: "8 word list"

record plugin_event =
  pe_protocol_version :: ustr
  pe_event_id :: ustr
  pe_delivery_id :: ustr
  pe_invocation_id :: ustr
  pe_occurred_at_ms :: "int option"
  pe_received_at_ms :: int
  pe_adapter_id :: ustr
  pe_event_type :: ustr
  pe_trace_id :: "ustr option"
  pe_payload :: json
  pe_extensions :: "extension_payload list"

section \<open>Handler output\<close>

datatype disposition = Continue | Stop | Ignore

datatype state_op =
    Put ustr "8 word list" "nat option"
  | Delete ustr "nat option"

record plugin_command =
  pc_command_id :: ustr
  pc_kind :: ustr
  pc_idempotency_key :: "ustr option"
  pc_deadline_ms :: "nat option"
  pc_payload :: json

record plugin_diagnostic =
  pd_level :: ustr
  pd_code :: ustr
  pd_message :: ustr

record handler_output =
  ho_disposition :: disposition
  ho_state_ops :: "state_op list"
  ho_commands :: "plugin_command list"
  ho_diagnostics :: "plugin_diagnostic list"

record state_value =
  sv_value :: "8 word list"
  sv_revision :: nat

section \<open>Completions and errors\<close>

datatype action_status =
    Action_Succeeded
  | Action_Failed
  | Action_Denied
  | Action_Timed_Out
  | Action_Unknown
  | Action_Cancelled

record action_completed =
  ac_source_event_id :: ustr
  ac_source_invocation_id :: ustr
  ac_command_id :: ustr
  ac_kind :: ustr
  ac_status :: action_status
  ac_retryable :: bool
  ac_result :: "json option"
  ac_error_code :: "ustr option"
  ac_error_message :: "ustr option"

text \<open>The display texts inside are kept, since a completion carries them.\<close>

datatype plugin_error =
    InvalidConfig ustr
  | PermissionDenied ustr
  | ResourceExhausted ustr
  | ResourceExhaustedTrap ustr
  | GuestTrap ustr
  | Transient ustr
  | Permanent ustr

end
