(* ===== verification/PluginStore.thy ===== *)
theory PluginStore
  imports PluginTypes BotModel PluginManifest
begin

text \<open>
  The SQLite store of the plugin host (\<open>crates/plugin-host/src/storage.rs\<close>). Each table is a map from its
  primary key to the other columns, in the order of the row identifiers; each SQL statement is the update of
  its table that it describes. A method runs under the lock of the connection in one transaction, so it is one
  step; an error that leaves a method before its commit rolls the transaction back, so that the step changes
  nothing. Columns that hold JSON hold the value itself; encoding a command is a parameter, because the code
  compares and measures encoded bytes. Errors of SQLite itself and a poisoned lock are not modelled.
\<close>

section \<open>Tables\<close>

record outbox_origin =
  oo_source_event_id :: ustr
  oo_adapter_id :: ustr
  oo_reply_target :: "message_target option"
  oo_source_message_id :: "ustr option"

record pending_command =
  pq_instance_id :: ustr
  pq_invocation_id :: ustr
  pq_origin :: outbox_origin
  pq_command :: plugin_command

datatype command_status = Command_Pending | Command_Ended action_status

record ledger_row =
  lr_idempotency_key :: "ustr option"
  lr_kind :: ustr
  lr_payload :: "8 word list"
  lr_status :: command_status
  lr_result :: "action_completed option"

record outbox_row =
  ob_payload :: pending_command
  ob_status :: command_status

datatype delivery_status = Pending | Running | Committed | Delivered | Dead_Letter

record delivery_row =
  dr_delivery_id :: ustr
  dr_invocation_id :: ustr
  dr_attempt :: nat
  dr_envelope :: plugin_event
  dr_origin :: outbox_origin
  dr_status :: delivery_status
  dr_next_attempt_ms :: int
  dr_last_error :: "ustr option"
  dr_health_generation :: nat
  dr_updated_at_ms :: int

record health_row =
  hr_failures :: nat
  hr_circuit_open :: bool
  hr_generation :: nat
  hr_updated_at_ms :: int

datatype schedule_status = Schedule_Pending | Schedule_Firing

record scheduled_task =
  st_instance_id :: ustr
  st_task_id :: ustr
  st_adapter_id :: ustr
  st_run_at_ms :: int
  st_payload :: json

record schedule_row =
  sr_task :: scheduled_task
  sr_payload_bytes :: nat
  sr_status :: schedule_status

record installation =
  in_plugin_id :: ustr
  in_metadata :: plugin_metadata
  in_instance_id :: ustr
  in_version :: ustr
  in_package_path :: ustr
  in_package_sha256 :: ustr
  in_source :: ustr
  in_trust_level :: ustr
  in_signature_status :: ustr
  in_requested_permissions :: "ustr list"
  in_granted_permissions :: "ustr list"
  in_config :: "(ustr, json) btmap"
  in_admins_explicit :: bool
  in_enabled :: bool
  in_installed_at_ms :: int
  in_updated_at_ms :: int

record plugin_db =
  db_state :: "(ustr \<times> ustr, state_value) hmap"
  db_ledger :: "(ustr \<times> ustr \<times> ustr, ledger_row) hmap"
  db_outbox :: "(ustr \<times> ustr \<times> ustr, outbox_row) hmap"
  db_deliveries :: "(ustr \<times> ustr, delivery_row) hmap"
  db_health :: "(ustr, health_row) hmap"
  db_schedules :: "(ustr \<times> ustr, schedule_row) hmap"
  db_installations :: "(ustr, installation) hmap"

definition empty_db :: "plugin_db" where
  "empty_db = \<lparr>db_state = [], db_ledger = [], db_outbox = [], db_deliveries = [], db_health = [],
     db_schedules = [], db_installations = []\<rparr>"

datatype store_error =
    InvalidKey ustr
  | CasConflict ustr
  | StateQuotaExceeded nat nat
  | StateEntryLimit nat
  | ScheduleQuotaExceeded
  | CommandEncoding
  | MissingCommandOrigin
  | IdempotencyConflict
  | InstallationConflict
  | StaleDelivery

text \<open>\<open>serde_json::to_vec\<close> of a command and of a JSON value.\<close>

record store_libs =
  sl_command :: "plugin_command \<Rightarrow> 8 word list option"
  sl_value :: "json \<Rightarrow> 8 word list option"

definition max_state_entries :: nat where "max_state_entries = 4096"
definition max_scheduled_tasks :: nat where "max_scheduled_tasks = 1024"

text \<open>An \<open>UPDATE\<close> with a condition on key and row, and the number of rows it changes.\<close>

definition sql_update :: "('k \<Rightarrow> 'v \<Rightarrow> bool) \<Rightarrow> ('v \<Rightarrow> 'v) \<Rightarrow> ('k, 'v) hmap \<Rightarrow> ('k, 'v) hmap" where
  "sql_update P f m = map (\<lambda>(k, v). (k, if P k v then f v else v)) m"

definition sql_count :: "('k \<Rightarrow> 'v \<Rightarrow> bool) \<Rightarrow> ('k, 'v) hmap \<Rightarrow> nat" where
  "sql_count P m = length (filter (\<lambda>(k, v). P k v) m)"

text \<open>SQLite's \<open>length\<close> of a text: its characters before the first NUL.\<close>

definition sql_length :: "ustr \<Rightarrow> nat" where
  "sql_length s = length (takeWhile (\<lambda>c. c \<noteq> 0) s)"

section \<open>Private state\<close>

definition bad_key_segment :: "ustr \<Rightarrow> bool" where
  "bad_key_segment s \<longleftrightarrow> s = [] \<or> s = [46] \<or> s = [46, 46]"

definition key_ok :: "ustr \<Rightarrow> bool" where
  "key_ok k \<longleftrightarrow> k \<noteq> [] \<and> blen k \<le> 256 \<and> \<not> list_ex bad_key_segment (split_char 47 k)"

type_synonym state_table = "(ustr \<times> ustr, state_value) hmap"

fun apply_state_op :: "ustr \<Rightarrow> state_op \<Rightarrow> state_table \<Rightarrow> store_error + state_table" where
  "apply_state_op i (Put key value expected) t =
     (if \<not> key_ok key then Inl (InvalidKey key)
      else
        (case expected of
           Some r \<Rightarrow>
             (case hm_get t (i, key) of
                None \<Rightarrow> Inl (CasConflict key)
              | Some v \<Rightarrow>
                  if sv_revision v = r then Inr (hm_put (i, key) \<lparr>sv_value = value, sv_revision = r + 1\<rparr> t)
                  else Inl (CasConflict key))
         | None \<Rightarrow>
             (case hm_get t (i, key) of
                None \<Rightarrow> Inr (hm_put (i, key) \<lparr>sv_value = value, sv_revision = 1\<rparr> t)
              | Some v \<Rightarrow> Inr (hm_put (i, key) \<lparr>sv_value = value, sv_revision = sv_revision v + 1\<rparr> t))))"
| "apply_state_op i (Delete key expected) t =
     (if \<not> key_ok key then Inl (InvalidKey key)
      else
        (case expected of
           Some r \<Rightarrow>
             (case hm_get t (i, key) of
                None \<Rightarrow> Inl (CasConflict key)
              | Some v \<Rightarrow> if sv_revision v = r then Inr (hm_del (i, key) t) else Inl (CasConflict key))
         | None \<Rightarrow> Inr (hm_del (i, key) t)))"

fun apply_state_ops :: "ustr \<Rightarrow> state_op list \<Rightarrow> state_table \<Rightarrow> store_error + state_table" where
  "apply_state_ops i [] t = Inr t"
| "apply_state_ops i (op # ops) t =
     (case apply_state_op i op t of Inl e \<Rightarrow> Inl e | Inr t' \<Rightarrow> apply_state_ops i ops t')"

definition state_entries :: "ustr \<Rightarrow> state_table \<Rightarrow> nat" where
  "state_entries i t = length (filter (\<lambda>p. fst (fst p) = i) t)"

definition state_bytes :: "ustr \<Rightarrow> state_table \<Rightarrow> nat" where
  "state_bytes i t =
     sum_list (map (\<lambda>p. sql_length (snd (fst p)) + length (sv_value (snd p))) (filter (\<lambda>p. fst (fst p) = i) t))"

text \<open>\<open>snapshot\<close>: the entries of an instance in the order of their keys.\<close>

definition snapshot :: "ustr \<Rightarrow> plugin_db \<Rightarrow> (ustr, state_value) btmap" where
  "snapshot i db = sort_key fst (map (\<lambda>p. (snd (fst p), snd p)) (filter (\<lambda>p. fst (fst p) = i) (db_state db)))"

fun insert_entries :: "ustr \<Rightarrow> (ustr, state_value) btmap \<Rightarrow> state_table \<Rightarrow> store_error + state_table" where
  "insert_entries i [] t = Inr t"
| "insert_entries i ((k, v) # es) t =
     (if \<not> key_ok k then Inl (InvalidKey k) else insert_entries i es (hm_put (i, k) v t))"

definition replace_state ::
    "ustr \<Rightarrow> (ustr, state_value) btmap \<Rightarrow> plugin_db \<Rightarrow> plugin_db \<times> (store_error + unit)" where
  "replace_state i state db =
     (case insert_entries i state (filter (\<lambda>p. fst (fst p) \<noteq> i) (db_state db)) of
        Inl e \<Rightarrow> (db, Inl e)
      | Inr t \<Rightarrow> (db\<lparr>db_state := t\<rparr>, Inr ()))"

section \<open>Committing an output\<close>

definition ledger_by_key :: "ustr \<Rightarrow> ustr \<Rightarrow> (ustr \<times> ustr \<times> ustr, ledger_row) hmap \<Rightarrow> ledger_row option" where
  "ledger_by_key i key t =
     map_option snd (List.find (\<lambda>p. fst (fst p) = i \<and> lr_idempotency_key (snd p) = Some key) t)"

text \<open>The first loop of \<open>commit\<close>: the number of commands whose idempotency key is in the ledger already.\<close>

fun existing_keys ::
    "store_libs \<Rightarrow> ustr \<Rightarrow> (ustr \<times> ustr \<times> ustr, ledger_row) hmap \<Rightarrow> ustr list \<Rightarrow> plugin_command list \<Rightarrow>
     store_error + nat" where
  "existing_keys L i t seen [] = Inr 0"
| "existing_keys L i t seen (c # cs) =
     (case pc_idempotency_key c of
        None \<Rightarrow> existing_keys L i t seen cs
      | Some key \<Rightarrow>
          (case sl_command L c of
             None \<Rightarrow> Inl CommandEncoding
           | Some bytes \<Rightarrow>
               if key \<in> set seen then Inl IdempotencyConflict
               else
                 (case ledger_by_key i key t of
                    None \<Rightarrow> existing_keys L i t (key # seen) cs
                  | Some row \<Rightarrow>
                      if lr_kind row \<noteq> pc_kind c \<or> lr_payload row \<noteq> bytes then Inl IdempotencyConflict
                      else (case existing_keys L i t (key # seen) cs of Inl e \<Rightarrow> Inl e | Inr n \<Rightarrow> Inr (n + 1)))))"

text \<open>\<open>INSERT OR IGNORE\<close>: a row is ignored when its primary key or its idempotency key is there.\<close>

definition ledger_has :: "ustr \<Rightarrow> ustr \<Rightarrow> plugin_command \<Rightarrow> (ustr \<times> ustr \<times> ustr, ledger_row) hmap \<Rightarrow> bool" where
  "ledger_has i inv_id c t \<longleftrightarrow>
     hm_contains t (i, inv_id, pc_command_id c) \<or>
     (case pc_idempotency_key c of None \<Rightarrow> False | Some key \<Rightarrow> ledger_by_key i key t \<noteq> None)"

fun queue_commands ::
    "store_libs \<Rightarrow> ustr \<Rightarrow> ustr \<Rightarrow> outbox_origin option \<Rightarrow> plugin_command list \<Rightarrow> plugin_db \<Rightarrow>
     store_error + plugin_db \<times> plugin_command list" where
  "queue_commands L i inv_id origin [] db = Inr (db, [])"
| "queue_commands L i inv_id origin (c # cs) db =
     (case origin of
        None \<Rightarrow> Inl MissingCommandOrigin
      | Some o1 \<Rightarrow>
          (case sl_command L c of
             None \<Rightarrow> Inl CommandEncoding
           | Some bytes \<Rightarrow>
               if ledger_has i inv_id c (db_ledger db) then queue_commands L i inv_id origin cs db
               else
                 (let k = (i, inv_id, pc_command_id c);
                      db1 = db\<lparr>db_ledger := hm_put k \<lparr>lr_idempotency_key = pc_idempotency_key c, lr_kind = pc_kind c,
                                  lr_payload = bytes, lr_status = Command_Pending, lr_result = None\<rparr> (db_ledger db),
                                db_outbox := hm_put k \<lparr>ob_payload = \<lparr>pq_instance_id = i, pq_invocation_id = inv_id,
                                  pq_origin = o1, pq_command = c\<rparr>, ob_status = Command_Pending\<rparr> (db_outbox db)\<rparr>
                  in (case queue_commands L i inv_id origin cs db1 of
                        Inl e \<Rightarrow> Inl e
                      | Inr (db2, queued) \<Rightarrow> Inr (db2, c # queued)))))"

definition mark_delivery_committed ::
    "ustr \<Rightarrow> (ustr \<times> ustr) option \<Rightarrow> plugin_db \<Rightarrow> store_error + plugin_db" where
  "mark_delivery_committed i delivery db =
     (case delivery of
        None \<Rightarrow> Inr db
      | Some (e, did) \<Rightarrow>
          let P = (\<lambda>k v. k = (i, e) \<and> dr_delivery_id v = did \<and> dr_status v = Running)
          in if sql_count P (db_deliveries db) \<noteq> 1 then Inl StaleDelivery
             else Inr (db\<lparr>db_deliveries := sql_update P (\<lambda>v. v\<lparr>dr_status := Committed\<rparr>) (db_deliveries db)\<rparr>))"

record commit_options =
  co_quota_bytes :: nat
  co_origin :: "outbox_origin option"
  co_delivery :: "(ustr \<times> ustr) option"

definition commit_fresh ::
    "store_libs \<Rightarrow> ustr \<Rightarrow> ustr \<Rightarrow> state_op list \<Rightarrow> plugin_command list \<Rightarrow> commit_options \<Rightarrow> plugin_db \<Rightarrow>
     store_error + plugin_db \<times> plugin_command list" where
  "commit_fresh L i inv_id ops commands opts db =
     (case apply_state_ops i ops (db_state db) of
        Inl e \<Rightarrow> Inl e
      | Inr t \<Rightarrow>
          if state_entries i t > max_state_entries then Inl (StateEntryLimit (state_entries i t))
          else if state_bytes i t > co_quota_bytes opts then Inl (StateQuotaExceeded (state_bytes i t) (co_quota_bytes opts))
          else
            (case queue_commands L i inv_id (co_origin opts) commands (db\<lparr>db_state := t\<rparr>) of
               Inl e \<Rightarrow> Inl e
             | Inr (db1, queued) \<Rightarrow>
                 (case mark_delivery_committed i (co_delivery opts) db1 of
                    Inl e \<Rightarrow> Inl e
                  | Inr db2 \<Rightarrow> Inr (db2, queued))))"

definition store_commit ::
    "store_libs \<Rightarrow> ustr \<Rightarrow> ustr \<Rightarrow> state_op list \<Rightarrow> plugin_command list \<Rightarrow> commit_options \<Rightarrow> plugin_db \<Rightarrow>
     plugin_db \<times> (store_error + plugin_command list)" where
  "store_commit L i inv_id ops commands opts db =
     (case existing_keys L i (db_ledger db) [] commands of
        Inl e \<Rightarrow> (db, Inl e)
      | Inr n \<Rightarrow>
          if n > 0 then
            (if n = length commands then
               (case mark_delivery_committed i (co_delivery opts) db of
                  Inl e \<Rightarrow> (db, Inl e)
                | Inr db1 \<Rightarrow> (db1, Inr []))
             else (db, Inl IdempotencyConflict))
          else
            (case commit_fresh L i inv_id ops commands opts db of
               Inl e \<Rightarrow> (db, Inl e)
             | Inr (db1, queued) \<Rightarrow> (db1, Inr queued)))"

section \<open>Commands\<close>

definition pending_commands :: "ustr \<Rightarrow> plugin_db \<Rightarrow> pending_command list" where
  "pending_commands i db =
     map (ob_payload \<circ> snd) (filter (\<lambda>p. fst (fst p) = i \<and> ob_status (snd p) = Command_Pending) (db_outbox db))"

definition mark_command ::
    "ustr \<Rightarrow> ustr \<Rightarrow> ustr \<Rightarrow> action_status \<Rightarrow> action_completed \<Rightarrow> plugin_db \<Rightarrow> plugin_db" where
  "mark_command i inv_id c status result db =
     db\<lparr>db_ledger := sql_update (\<lambda>k _. k = (i, inv_id, c))
          (\<lambda>v. v\<lparr>lr_status := Command_Ended status, lr_result := Some result\<rparr>) (db_ledger db),
        db_outbox := sql_update (\<lambda>k _. k = (i, inv_id, c)) (\<lambda>v. v\<lparr>ob_status := Command_Ended status\<rparr>) (db_outbox db)\<rparr>"

definition status_of_command :: "ustr \<Rightarrow> ustr \<Rightarrow> ustr \<Rightarrow> plugin_db \<Rightarrow> command_status option" where
  "status_of_command i inv_id c db = map_option lr_status (hm_get (db_ledger db) (i, inv_id, c))"

definition committed_command_results ::
    "ustr \<Rightarrow> plugin_db \<Rightarrow> (pending_command \<times> action_completed \<times> plugin_event) list" where
  "committed_command_results i db =
     concat (map (\<lambda>(k, o1).
       (case hm_get (db_ledger db) k of
          None \<Rightarrow> []
        | Some l \<Rightarrow>
            (case lr_result l of
               None \<Rightarrow> []
             | Some result \<Rightarrow>
                 map (\<lambda>(_, d). (ob_payload o1, result, dr_envelope d))
                   (filter (\<lambda>(dk, d). fst dk = i \<and> fst k = i \<and> dr_invocation_id d = fst (snd k) \<and>
                      dr_status d = Committed) (db_deliveries db))))) (db_outbox db))"

section \<open>Deliveries\<close>

record pending_delivery =
  pn_instance_id :: ustr
  pn_event_id :: ustr
  pn_delivery_id :: ustr
  pn_invocation_id :: ustr
  pn_attempt :: nat
  pn_next_attempt_ms :: int
  pn_envelope :: plugin_event
  pn_origin :: outbox_origin

definition u32_max :: nat where "u32_max = 2 ^ 32 - 1"
definition store_i64_max :: int where "store_i64_max = 2 ^ 63 - 1"

definition health_generation_of :: "ustr \<Rightarrow> plugin_db \<Rightarrow> nat" where
  "health_generation_of i db = (case hm_get (db_health db) i of None \<Rightarrow> 0 | Some h \<Rightarrow> hr_generation h)"

text \<open>The early returns of \<open>begin_delivery\<close>.\<close>

definition delivery_blocked :: "int \<Rightarrow> delivery_row option \<Rightarrow> bool" where
  "delivery_blocked now row =
     (case row of
        None \<Rightarrow> False
      | Some d \<Rightarrow>
          (case dr_status d of
             Running \<Rightarrow> True
           | Committed \<Rightarrow> True
           | Delivered \<Rightarrow> True
           | Dead_Letter \<Rightarrow> True
           | Pending \<Rightarrow> now < dr_next_attempt_ms d))"

definition begin_delivery ::
    "ustr \<Rightarrow> plugin_event \<Rightarrow> outbox_origin \<Rightarrow> int \<Rightarrow> plugin_db \<Rightarrow> plugin_db \<times> pending_delivery option" where
  "begin_delivery i env orig now db =
     (let row = hm_get (db_deliveries db) (i, pe_event_id env)
      in if delivery_blocked now row then (db, None)
         else
           (let attempt = (case row of None \<Rightarrow> 1 | Some d \<Rightarrow> min (dr_attempt d + 1) u32_max);
                new = \<lparr>dr_delivery_id = pe_delivery_id env, dr_invocation_id = pe_invocation_id env,
                  dr_attempt = attempt, dr_envelope = env, dr_origin = orig, dr_status = Running,
                  dr_next_attempt_ms = now, dr_last_error = None,
                  dr_health_generation = health_generation_of i db, dr_updated_at_ms = now\<rparr>
            in (db\<lparr>db_deliveries := hm_put (i, pe_event_id env) new (db_deliveries db)\<rparr>,
                Some \<lparr>pn_instance_id = i, pn_event_id = pe_event_id env, pn_delivery_id = pe_delivery_id env,
                  pn_invocation_id = pe_invocation_id env, pn_attempt = attempt, pn_next_attempt_ms = now,
                  pn_envelope = env, pn_origin = orig\<rparr>)))"

definition reset_health_if_generation :: "ustr \<Rightarrow> nat \<Rightarrow> int \<Rightarrow> plugin_db \<Rightarrow> plugin_db" where
  "reset_health_if_generation i g now db =
     (case hm_get (db_health db) i of
        None \<Rightarrow>
          db\<lparr>db_health := hm_put i \<lparr>hr_failures = 0, hr_circuit_open = False, hr_generation = g,
            hr_updated_at_ms = now\<rparr> (db_health db)\<rparr>
      | Some h \<Rightarrow>
          if hr_generation h = g then
            db\<lparr>db_health := hm_put i (h\<lparr>hr_failures := 0, hr_circuit_open := False, hr_updated_at_ms := now\<rparr>)
              (db_health db)\<rparr>
          else db)"

definition succeeded_row :: "int \<Rightarrow> delivery_row \<Rightarrow> delivery_row" where
  "succeeded_row now d =
     d\<lparr>dr_status := Delivered, dr_next_attempt_ms := 0, dr_last_error := None, dr_updated_at_ms := now\<rparr>"

definition mark_delivery_succeeded :: "ustr \<Rightarrow> ustr \<Rightarrow> ustr \<Rightarrow> int \<Rightarrow> plugin_db \<Rightarrow> plugin_db \<times> bool" where
  "mark_delivery_succeeded i e did now db =
     (let k = (i, e)
      in (case hm_get (db_deliveries db) k of
            None \<Rightarrow> (db, False)
          | Some d \<Rightarrow>
              if dr_delivery_id d = did \<and> (dr_status d = Running \<or> dr_status d = Committed) then
                (reset_health_if_generation i (dr_health_generation d) now
                   (db\<lparr>db_deliveries := hm_put k (succeeded_row now d) (db_deliveries db)\<rparr>), True)
              else (db, False)))"

record failure_policy =
  fp_next_attempt_ms :: int
  fp_max_attempts :: nat
  fp_circuit_threshold :: nat
  fp_counts_toward_circuit :: bool
  fp_now_ms :: int

record failure_result =
  fr_updated :: bool
  fr_dead_letter :: bool
  fr_circuit_open :: bool

definition circuit_open :: "ustr \<Rightarrow> plugin_db \<Rightarrow> bool" where
  "circuit_open i db = (case hm_get (db_health db) i of None \<Rightarrow> False | Some h \<Rightarrow> hr_circuit_open h)"

text \<open>The failure is counted and, at the threshold, the circuit opened.\<close>

definition count_failure :: "ustr \<Rightarrow> failure_policy \<Rightarrow> plugin_db \<Rightarrow> plugin_db \<times> bool" where
  "count_failure i pol db =
     (let h = (case hm_get (db_health db) i of
                 None \<Rightarrow> \<lparr>hr_failures = 1, hr_circuit_open = False, hr_generation = 1,
                   hr_updated_at_ms = fp_now_ms pol\<rparr>
               | Some h \<Rightarrow> h\<lparr>hr_failures := hr_failures h + 1, hr_generation := hr_generation h + 1,
                   hr_updated_at_ms := fp_now_ms pol\<rparr>);
          opens = fp_circuit_threshold pol \<le> hr_failures h;
          h1 = (if opens then h\<lparr>hr_circuit_open := True\<rparr> else h)
      in (db\<lparr>db_health := hm_put i h1 (db_health db)\<rparr>, opens))"

definition mark_delivery_failed ::
    "ustr \<Rightarrow> ustr \<Rightarrow> ustr \<Rightarrow> ustr \<Rightarrow> failure_policy \<Rightarrow> plugin_db \<Rightarrow> plugin_db \<times> failure_result" where
  "mark_delivery_failed i e did error pol db =
     (let k = (i, e); stale = \<lparr>fr_updated = False, fr_dead_letter = False, fr_circuit_open = False\<rparr>
      in (case hm_get (db_deliveries db) k of
            None \<Rightarrow> (db, stale)
          | Some d \<Rightarrow>
              if dr_delivery_id d = did \<and> dr_status d = Running then
                (let dead = fp_max_attempts pol \<le> dr_attempt d;
                     d1 = d\<lparr>dr_status := (if dead then Dead_Letter else Pending),
                       dr_next_attempt_ms := fp_next_attempt_ms pol, dr_last_error := Some error,
                       dr_updated_at_ms := fp_now_ms pol\<rparr>;
                     db1 = db\<lparr>db_deliveries := hm_put k d1 (db_deliveries db)\<rparr>;
                     (db2, opens) =
                       (if fp_counts_toward_circuit pol then count_failure i pol db1 else (db1, circuit_open i db1))
                 in (db2, \<lparr>fr_updated = True, fr_dead_letter = dead, fr_circuit_open = opens\<rparr>))
              else (db, stale)))"

definition finalize_committed_deliveries :: "ustr \<Rightarrow> int \<Rightarrow> plugin_db \<Rightarrow> plugin_db" where
  "finalize_committed_deliveries i now db =
     (let g = health_generation_of i db;
          P = (\<lambda>k d. fst k = i \<and> dr_status d = Committed);
          can_reset = sql_count (\<lambda>k d. P k d \<and> dr_health_generation d = g) (db_deliveries db) > 0;
          finalized = sql_count P (db_deliveries db);
          db1 = db\<lparr>db_deliveries := sql_update P (succeeded_row now) (db_deliveries db)\<rparr>
      in if finalized > 0 \<and> can_reset then reset_health_if_generation i g now db1 else db1)"

definition finalize_committed_delivery :: "ustr \<Rightarrow> ustr \<Rightarrow> int \<Rightarrow> plugin_db \<Rightarrow> plugin_db \<times> bool" where
  "finalize_committed_delivery i e now db =
     (let k = (i, e)
      in (case hm_get (db_deliveries db) k of
            None \<Rightarrow> (db, False)
          | Some d \<Rightarrow>
              if dr_status d = Committed then
                (reset_health_if_generation i (dr_health_generation d) now
                   (db\<lparr>db_deliveries := hm_put k (succeeded_row now d) (db_deliveries db)\<rparr>), True)
              else (db, False)))"

definition enqueue_delivery :: "ustr \<Rightarrow> plugin_event \<Rightarrow> outbox_origin \<Rightarrow> int \<Rightarrow> plugin_db \<Rightarrow> plugin_db" where
  "enqueue_delivery i env orig now db =
     (let k = (i, pe_event_id env)
      in if hm_contains (db_deliveries db) k then db
         else db\<lparr>db_deliveries := hm_put k \<lparr>dr_delivery_id = pe_delivery_id env,
                dr_invocation_id = pe_invocation_id env, dr_attempt = 0, dr_envelope = env, dr_origin = orig,
                dr_status = Pending, dr_next_attempt_ms = now, dr_last_error = None, dr_health_generation = 0,
                dr_updated_at_ms = now\<rparr> (db_deliveries db)\<rparr>)"

definition requeue_running_deliveries :: "ustr \<Rightarrow> int \<Rightarrow> plugin_db \<Rightarrow> plugin_db" where
  "requeue_running_deliveries i now db =
     db\<lparr>db_deliveries := sql_update (\<lambda>k d. fst k = i \<and> dr_status d = Running)
          (\<lambda>d. d\<lparr>dr_status := Pending, dr_next_attempt_ms := now, dr_updated_at_ms := now\<rparr>)
          (db_deliveries db)\<rparr>"

text \<open>Ordered by \<open>updated_at_ms\<close>, then by event identifier: two stable sorts.\<close>

definition pending_deliveries :: "ustr \<Rightarrow> int \<Rightarrow> plugin_db \<Rightarrow> pending_delivery list" where
  "pending_deliveries i now db =
     map (\<lambda>(k, d). \<lparr>pn_instance_id = i, pn_event_id = snd k, pn_delivery_id = dr_delivery_id d,
            pn_invocation_id = dr_invocation_id d, pn_attempt = dr_attempt d,
            pn_next_attempt_ms = dr_next_attempt_ms d, pn_envelope = dr_envelope d, pn_origin = dr_origin d\<rparr>)
       (sort_key (\<lambda>p. dr_updated_at_ms (snd p)) (sort_key (\<lambda>p. snd (fst p))
          (filter (\<lambda>(k, d). fst k = i \<and> (dr_status d = Pending \<or> dr_status d = Running) \<and>
             dr_next_attempt_ms d \<le> now) (db_deliveries db))))"

record dead_letter =
  dl_instance_id :: ustr
  dl_event_id :: ustr
  dl_attempts :: nat
  dl_last_error :: ustr
  dl_updated_at_ms :: int

definition dead_letter_row :: "(ustr \<times> ustr) \<times> delivery_row \<Rightarrow> dead_letter" where
  "dead_letter_row p =
     \<lparr>dl_instance_id = fst (fst p), dl_event_id = snd (fst p), dl_attempts = dr_attempt (snd p),
      dl_last_error = (case dr_last_error (snd p) of None \<Rightarrow> [] | Some s \<Rightarrow> s),
      dl_updated_at_ms = dr_updated_at_ms (snd p)\<rparr>"

definition dead_letters :: "ustr option \<Rightarrow> plugin_db \<Rightarrow> dead_letter list" where
  "dead_letters who db =
     map dead_letter_row (sort_key (\<lambda>p. - dr_updated_at_ms (snd p))
       (filter (\<lambda>(k, d). dr_status d = Dead_Letter \<and> (case who of None \<Rightarrow> True | Some i \<Rightarrow> fst k = i))
          (db_deliveries db)))"

definition recover_dead_letters :: "ustr \<Rightarrow> int \<Rightarrow> plugin_db \<Rightarrow> plugin_db \<times> nat" where
  "recover_dead_letters i now db =
     (let P = (\<lambda>k d. fst k = i \<and> dr_status d = Dead_Letter);
          h = (case hm_get (db_health db) i of
                 None \<Rightarrow> \<lparr>hr_failures = 0, hr_circuit_open = False, hr_generation = 0, hr_updated_at_ms = now\<rparr>
               | Some h \<Rightarrow> h\<lparr>hr_failures := 0, hr_circuit_open := False, hr_generation := hr_generation h + 1,
                   hr_updated_at_ms := now\<rparr>)
      in (db\<lparr>db_deliveries := sql_update P (\<lambda>d. d\<lparr>dr_status := Pending, dr_attempt := 0,
                dr_next_attempt_ms := now, dr_last_error := None, dr_updated_at_ms := now\<rparr>) (db_deliveries db),
             db_health := hm_put i h (db_health db)\<rparr>,
          sql_count P (db_deliveries db)))"

section \<open>Installations\<close>

definition upsert_installation :: "installation \<Rightarrow> plugin_db \<Rightarrow> plugin_db" where
  "upsert_installation n db =
     (let new = (case hm_get (db_installations db) (in_instance_id n) of
                   None \<Rightarrow> n
                 | Some old \<Rightarrow> n\<lparr>in_installed_at_ms := in_installed_at_ms old\<rparr>)
      in db\<lparr>db_installations := hm_put (in_instance_id n) new (db_installations db)\<rparr>)"

definition write_installation ::
    "installation \<Rightarrow> int option \<Rightarrow> plugin_db \<Rightarrow> plugin_db \<times> (store_error + unit)" where
  "write_installation n expected db =
     (let old = hm_get (db_installations db) (in_instance_id n);
          written = (db\<lparr>db_installations := hm_put (in_instance_id n) n (db_installations db)\<rparr>, Inr ());
          conflict = (db, Inl InstallationConflict)
      in (case expected of
            Some t \<Rightarrow>
              (case old of
                 None \<Rightarrow> conflict
               | Some o1 \<Rightarrow>
                   if in_updated_at_ms o1 = t \<and> in_updated_at_ms o1 < in_updated_at_ms n then written else conflict)
          | None \<Rightarrow> (case old of None \<Rightarrow> written | Some _ \<Rightarrow> conflict)))"

definition installations :: "plugin_db \<Rightarrow> installation list" where
  "installations db = sort_key in_plugin_id (sort_key in_instance_id (map snd (db_installations db)))"

definition enabled_installations :: "plugin_db \<Rightarrow> installation list" where
  "enabled_installations db =
     sort_key in_plugin_id (sort_key in_instance_id (filter in_enabled (map snd (db_installations db))))"

definition installation_of :: "ustr \<Rightarrow> plugin_db \<Rightarrow> installation option" where
  "installation_of i db = hm_get (db_installations db) i"

definition set_installation_enabled :: "ustr \<Rightarrow> bool \<Rightarrow> int \<Rightarrow> plugin_db \<Rightarrow> plugin_db \<times> bool" where
  "set_installation_enabled i enabled now db =
     (case hm_get (db_installations db) i of
        None \<Rightarrow> (db, False)
      | Some n \<Rightarrow>
          (db\<lparr>db_installations := hm_put i (n\<lparr>in_enabled := enabled,
             in_updated_at_ms := max now (min (in_updated_at_ms n + 1) store_i64_max)\<rparr>) (db_installations db)\<rparr>, True))"

definition remove_installation :: "ustr \<Rightarrow> plugin_db \<Rightarrow> plugin_db \<times> bool" where
  "remove_installation i db =
     (db\<lparr>db_installations := hm_del i (db_installations db)\<rparr>, hm_contains (db_installations db) i)"

definition remove_installation_if_updated :: "ustr \<Rightarrow> int \<Rightarrow> plugin_db \<Rightarrow> plugin_db \<times> bool" where
  "remove_installation_if_updated i expected db =
     (case hm_get (db_installations db) i of
        None \<Rightarrow> (db, False)
      | Some n \<Rightarrow>
          if in_updated_at_ms n = expected
          then (db\<lparr>db_installations := hm_del i (db_installations db)\<rparr>, True) else (db, False))"

section \<open>Scheduled tasks\<close>

type_synonym schedule_table = "(ustr \<times> ustr, schedule_row) hmap"

definition schedules_of :: "ustr \<Rightarrow> schedule_table \<Rightarrow> ((ustr \<times> ustr) \<times> schedule_row) list" where
  "schedules_of i t = filter (\<lambda>p. fst (fst p) = i) t"

definition schedule_bytes :: "(ustr \<times> ustr) \<times> schedule_row \<Rightarrow> nat" where
  "schedule_bytes p =
     sql_length (snd (fst p)) + sql_length (st_adapter_id (sr_task (snd p))) + sr_payload_bytes (snd p)"

definition create_schedule ::
    "store_libs \<Rightarrow> scheduled_task \<Rightarrow> nat \<Rightarrow> plugin_db \<Rightarrow> plugin_db \<times> (store_error + bool)" where
  "create_schedule L task quota db =
     (if \<not> key_ok (st_task_id task) then (db, Inl (InvalidKey (st_task_id task)))
      else
        (case sl_value L (st_payload task) of
           None \<Rightarrow> (db, Inl CommandEncoding)
         | Some bytes \<Rightarrow>
             (let k = (st_instance_id task, st_task_id task)
              in if hm_contains (db_schedules db) k then (db, Inr False)
                 else
                   (let t = hm_put k \<lparr>sr_task = task, sr_payload_bytes = length bytes,
                          sr_status = Schedule_Pending\<rparr> (db_schedules db);
                        mine = schedules_of (st_instance_id task) t
                    in if length mine > max_scheduled_tasks \<or> sum_list (map schedule_bytes mine) > quota
                       then (db, Inl ScheduleQuotaExceeded)
                       else (db\<lparr>db_schedules := t\<rparr>, Inr True)))))"

definition cancel_schedule :: "ustr \<Rightarrow> ustr \<Rightarrow> plugin_db \<Rightarrow> plugin_db \<times> (store_error + bool)" where
  "cancel_schedule i task_id db =
     (if \<not> key_ok task_id then (db, Inl (InvalidKey task_id))
      else (db\<lparr>db_schedules := hm_del (i, task_id) (db_schedules db)\<rparr>,
            Inr (hm_contains (db_schedules db) (i, task_id))))"

definition requeue_firing_schedules :: "ustr \<Rightarrow> plugin_db \<Rightarrow> plugin_db" where
  "requeue_firing_schedules i db =
     db\<lparr>db_schedules := sql_update (\<lambda>k s. fst k = i \<and> sr_status s = Schedule_Firing)
          (\<lambda>s. s\<lparr>sr_status := Schedule_Pending\<rparr>) (db_schedules db)\<rparr>"

definition recover_schedules :: "ustr \<Rightarrow> plugin_db \<Rightarrow> plugin_db \<times> scheduled_task list" where
  "recover_schedules i db =
     (let db1 = requeue_firing_schedules i db
      in (db1, sort_key st_run_at_ms (sort_key st_task_id
            (map (sr_task \<circ> snd) (filter (\<lambda>p. sr_status (snd p) = Schedule_Pending)
               (schedules_of i (db_schedules db1)))))))"

definition claim_schedule :: "ustr \<Rightarrow> ustr \<Rightarrow> plugin_db \<Rightarrow> plugin_db \<times> bool" where
  "claim_schedule i task_id db =
     (let k = (i, task_id)
      in (case hm_get (db_schedules db) k of
            None \<Rightarrow> (db, False)
          | Some s \<Rightarrow>
              if sr_status s = Schedule_Pending
              then (db\<lparr>db_schedules := hm_put k (s\<lparr>sr_status := Schedule_Firing\<rparr>) (db_schedules db)\<rparr>, True)
              else (db, False)))"

definition finish_schedule :: "ustr \<Rightarrow> ustr \<Rightarrow> plugin_db \<Rightarrow> plugin_db" where
  "finish_schedule i task_id db =
     (let k = (i, task_id)
      in (case hm_get (db_schedules db) k of
            None \<Rightarrow> db
          | Some s \<Rightarrow>
              if sr_status s = Schedule_Firing
              then db\<lparr>db_schedules := hm_del k (db_schedules db)\<rparr> else db))"

end
