(* ===== verification/PluginStoreProps.thy ===== *)
theory PluginStoreProps
  imports PluginStore
begin

text \<open>
  What the plugin store promises over any sequence of calls: the life of a delivery as an automaton with its
  fencing by delivery identifier, atomic commits, the queue of commands and its idempotency keys, the circuit
  breaker, scheduled tasks, and optimistic writes of installations. A history is a list of calls; the mutex of
  the connection makes each of them one step.
\<close>

named_theorems frame_simps \<open>tables that an operation leaves alone\<close>

section \<open>Histories\<close>

datatype store_call =
    Do_Replace_State ustr "(ustr, state_value) btmap"
  | Do_Commit ustr ustr "state_op list" "plugin_command list" commit_options
  | Do_Mark_Command ustr ustr ustr action_status action_completed
  | Do_Begin ustr plugin_event outbox_origin int
  | Do_Succeeded ustr ustr ustr int
  | Do_Failed ustr ustr ustr ustr failure_policy
  | Do_Finalize_All ustr int
  | Do_Finalize_One ustr ustr int
  | Do_Enqueue ustr plugin_event outbox_origin int
  | Do_Requeue ustr int
  | Do_Recover_Dead ustr int
  | Do_Upsert installation
  | Do_Write installation "int option"
  | Do_Set_Enabled ustr bool int
  | Do_Remove ustr
  | Do_Remove_If ustr int
  | Do_Create_Schedule scheduled_task nat
  | Do_Cancel_Schedule ustr ustr
  | Do_Requeue_Firing ustr
  | Do_Recover_Schedules ustr
  | Do_Claim_Schedule ustr ustr
  | Do_Finish_Schedule ustr ustr

fun store_step :: "store_libs \<Rightarrow> store_call \<Rightarrow> plugin_db \<Rightarrow> plugin_db" where
  "store_step L (Do_Replace_State i st) db = fst (replace_state i st db)"
| "store_step L (Do_Commit i v ops cs opts) db = fst (store_commit L i v ops cs opts db)"
| "store_step L (Do_Mark_Command i v c st res) db = mark_command i v c st res db"
| "store_step L (Do_Begin i env orig now) db = fst (begin_delivery i env orig now db)"
| "store_step L (Do_Succeeded i e did now) db = fst (mark_delivery_succeeded i e did now db)"
| "store_step L (Do_Failed i e did err pol) db = fst (mark_delivery_failed i e did err pol db)"
| "store_step L (Do_Finalize_All i now) db = finalize_committed_deliveries i now db"
| "store_step L (Do_Finalize_One i e now) db = fst (finalize_committed_delivery i e now db)"
| "store_step L (Do_Enqueue i env orig now) db = enqueue_delivery i env orig now db"
| "store_step L (Do_Requeue i now) db = requeue_running_deliveries i now db"
| "store_step L (Do_Recover_Dead i now) db = fst (recover_dead_letters i now db)"
| "store_step L (Do_Upsert n) db = upsert_installation n db"
| "store_step L (Do_Write n t) db = fst (write_installation n t db)"
| "store_step L (Do_Set_Enabled i b now) db = fst (set_installation_enabled i b now db)"
| "store_step L (Do_Remove i) db = fst (remove_installation i db)"
| "store_step L (Do_Remove_If i t) db = fst (remove_installation_if_updated i t db)"
| "store_step L (Do_Create_Schedule task q) db = fst (create_schedule L task q db)"
| "store_step L (Do_Cancel_Schedule i t) db = fst (cancel_schedule i t db)"
| "store_step L (Do_Requeue_Firing i) db = requeue_firing_schedules i db"
| "store_step L (Do_Recover_Schedules i) db = fst (recover_schedules i db)"
| "store_step L (Do_Claim_Schedule i t) db = fst (claim_schedule i t db)"
| "store_step L (Do_Finish_Schedule i t) db = finish_schedule i t db"

fun store_run :: "store_libs \<Rightarrow> store_call list \<Rightarrow> plugin_db \<Rightarrow> plugin_db" where
  "store_run L [] db = db"
| "store_run L (c # cs) db = store_run L cs (store_step L c db)"

text \<open>What the calls of a history show an observer, who sees each call and the database it starts from.\<close>

fun store_trace ::
    "(store_call \<Rightarrow> plugin_db \<Rightarrow> 'o list) \<Rightarrow> store_libs \<Rightarrow> store_call list \<Rightarrow> plugin_db \<Rightarrow> 'o list" where
  "store_trace see L [] db = []"
| "store_trace see L (c # cs) db = see c db @ store_trace see L cs (store_step L c db)"

lemma store_run_append: "store_run L (cs @ ds) db = store_run L ds (store_run L cs db)"
  by (induction cs arbitrary: db) simp_all

lemma store_run_invariant:
  assumes "\<And>c db. I db \<Longrightarrow> I (store_step L c db)" and "I db"
  shows "I (store_run L cs db)"
  using assms(2) by (induction cs arbitrary: db) (simp_all add: assms(1))

section \<open>Updates of tables\<close>

lemma sql_update_keys [simp]: "map fst (sql_update P f m) = map fst m"
  by (induction m) (auto simp: sql_update_def)

lemma sql_update_wf [simp]: "hm_wf (sql_update P f m) = hm_wf m"
  by (simp add: hm_wf_def)

lemma sql_update_get: "hm_get (sql_update P f m) k = map_option (\<lambda>v. if P k v then f v else v) (hm_get m k)"
  by (induction m) (auto simp: sql_update_def hm_get_def)

lemma sql_count_pos: "hm_wf m \<Longrightarrow> 0 < sql_count P m \<longleftrightarrow> (\<exists>k v. hm_get m k = Some v \<and> P k v)"
  by (force simp: sql_count_def hm_get_def hm_wf_def filter_empty_conv)

lemma sql_count_key:
  "hm_wf m \<Longrightarrow> sql_count (\<lambda>k v. k = key \<and> P v) m =
     (case hm_get m key of None \<Rightarrow> 0 | Some v \<Rightarrow> of_bool (P v))"
proof (induction m)
  case Nil
  then show ?case by (simp add: sql_count_def hm_get_def)
next
  case (Cons p m)
  obtain k v where p: "p = (k, v)" by (cases p)
  show ?case
  proof (cases "k = key")
    case True
    then have "filter (\<lambda>(k, v). k = key \<and> P v) m = []"
      using Cons.prems p by (auto simp: filter_empty_conv hm_wf_def) (metis fst_conv imageI)
    with True p show ?thesis by (simp add: sql_count_def hm_get_def)
  next
    case False
    with Cons p show ?thesis by (simp add: sql_count_def hm_get_def hm_wf_def)
  qed
qed

section \<open>Frames\<close>

lemma queue_commands_frame:
  "queue_commands L i v orig cs db = Inr (db', q) \<Longrightarrow>
   db_deliveries db' = db_deliveries db \<and> db_state db' = db_state db \<and> db_health db' = db_health db \<and>
   db_schedules db' = db_schedules db \<and> db_installations db' = db_installations db"
  by (induction cs arbitrary: db q) (auto simp: Let_def split: option.splits if_splits sum.splits)

lemma mark_committed_frame:
  "mark_delivery_committed i dl db = Inr db' \<Longrightarrow>
   db_ledger db' = db_ledger db \<and> db_outbox db' = db_outbox db \<and> db_state db' = db_state db \<and>
   db_health db' = db_health db \<and> db_schedules db' = db_schedules db \<and>
   db_installations db' = db_installations db"
  by (auto simp: mark_delivery_committed_def Let_def split: option.splits if_splits prod.splits)

text \<open>A commit is a replay of a stored output, a fresh output, or nothing at all.\<close>

lemma commit_fresh_Inr:
  "commit_fresh L i v ops cs opts db = Inr (db', q) \<Longrightarrow>
   \<exists>t db1. apply_state_ops i ops (db_state db) = Inr t \<and> state_entries i t \<le> max_state_entries \<and>
     state_bytes i t \<le> co_quota_bytes opts \<and>
     queue_commands L i v (co_origin opts) cs (db\<lparr>db_state := t\<rparr>) = Inr (db1, q) \<and>
     mark_delivery_committed i (co_delivery opts) db1 = Inr db'"
  by (auto simp: commit_fresh_def split: sum.splits if_splits)

lemma store_commit_cases:
  obtains (failed) err where "store_commit L i v ops cs opts db = (db, Inl err)"
  | (replay) db' where "store_commit L i v ops cs opts db = (db', Inr [])"
      and "existing_keys L i (db_ledger db) [] cs = Inr (length cs)" and "cs \<noteq> []"
      and "mark_delivery_committed i (co_delivery opts) db = Inr db'"
  | (fresh) db' q t db1 where "store_commit L i v ops cs opts db = (db', Inr q)"
      and "existing_keys L i (db_ledger db) [] cs = Inr 0"
      and "apply_state_ops i ops (db_state db) = Inr t"
      and "state_entries i t \<le> max_state_entries" and "state_bytes i t \<le> co_quota_bytes opts"
      and "queue_commands L i v (co_origin opts) cs (db\<lparr>db_state := t\<rparr>) = Inr (db1, q)"
      and "mark_delivery_committed i (co_delivery opts) db1 = Inr db'"
proof (cases "existing_keys L i (db_ledger db) [] cs")
  case (Inl e)
  then show ?thesis by (intro failed [of e]) (simp add: store_commit_def)
next
  case (Inr n)
  show ?thesis
  proof (cases "n > 0")
    case True
    then show ?thesis
    proof (cases "n = length cs")
      case False
      with Inr True show ?thesis
        by (intro failed [of IdempotencyConflict]) (simp add: store_commit_def)
    next
      case len: True
      show ?thesis
      proof (cases "mark_delivery_committed i (co_delivery opts) db")
        case (Inl e)
        with Inr True len show ?thesis by (intro failed [of e]) (simp add: store_commit_def)
      next
        case m: (Inr db')
        from True len have "cs \<noteq> []" by auto
        with Inr True len m show ?thesis by (intro replay [of db']) (simp_all add: store_commit_def)
      qed
    qed
  next
    case False
    show ?thesis
    proof (cases "commit_fresh L i v ops cs opts db")
      case (Inl e)
      with Inr False show ?thesis by (intro failed [of e]) (simp add: store_commit_def)
    next
      case f: (Inr r)
      obtain db' q where r: "r = (db', q)" by (cases r)
      from f r have "store_commit L i v ops cs opts db = (db', Inr q)"
        using Inr False by (simp add: store_commit_def)
      moreover have "existing_keys L i (db_ledger db) [] cs = Inr 0" using Inr False by simp
      moreover note commit_fresh_Inr [OF f [unfolded r]]
      ultimately show ?thesis by (elim exE conjE) (rule fresh)
    qed
  qed
qed

section \<open>Well-formed tables\<close>

definition db_wf :: "plugin_db \<Rightarrow> bool" where
  "db_wf db \<longleftrightarrow> hm_wf (db_state db) \<and> hm_wf (db_ledger db) \<and> hm_wf (db_outbox db) \<and> hm_wf (db_deliveries db) \<and>
     hm_wf (db_health db) \<and> hm_wf (db_schedules db) \<and> hm_wf (db_installations db)"

lemma hm_wf_filter: "hm_wf m \<Longrightarrow> hm_wf (filter P m)"
  by (auto simp: hm_wf_def intro: distinct_map_filter)

lemma db_wf_state: "db_wf db \<Longrightarrow> hm_wf t \<Longrightarrow> db_wf (db\<lparr>db_state := t\<rparr>)"
  by (simp add: db_wf_def)

lemma apply_state_op_wf: "hm_wf t \<Longrightarrow> apply_state_op i op t = Inr t' \<Longrightarrow> hm_wf t'"
  by (cases op) (auto simp: hm_simps split: if_splits option.splits)

lemma apply_state_ops_wf: "hm_wf t \<Longrightarrow> apply_state_ops i ops t = Inr t' \<Longrightarrow> hm_wf t'"
  by (induction ops arbitrary: t) (auto split: sum.splits intro: apply_state_op_wf)

lemma insert_entries_wf: "hm_wf t \<Longrightarrow> insert_entries i es t = Inr t' \<Longrightarrow> hm_wf t'"
proof (induction es arbitrary: t)
  case (Cons p es)
  obtain k v where p: "p = (k, v)" by (cases p)
  with Cons.prems(2) have "insert_entries i es (hm_put (i, k) v t) = Inr t'" by (simp split: if_splits)
  then show ?case by (rule Cons.IH [OF hm.wf_put [OF Cons.prems(1)]])
qed simp

lemma queue_commands_wf: "queue_commands L i v orig cs db = Inr (db', q) \<Longrightarrow> db_wf db \<Longrightarrow> db_wf db'"
proof (induction cs arbitrary: db q)
  case (Cons c cs)
  show ?case
  proof (cases "orig = None \<or> sl_command L c = None \<or> ledger_has i v c (db_ledger db)")
    case True
    with Cons show ?thesis by (auto split: option.splits if_splits)
  next
    case False
    then obtain o1 bytes where o: "orig = Some o1" "sl_command L c = Some bytes" by auto
    with False Cons.prems(1) obtain db1 q1 where
      "queue_commands L i v orig cs db1 = Inr (db', q1)"
      "db1 = db\<lparr>db_ledger := hm_put (i, v, pc_command_id c) \<lparr>lr_idempotency_key = pc_idempotency_key c,
         lr_kind = pc_kind c, lr_payload = bytes, lr_status = Command_Pending, lr_result = None\<rparr> (db_ledger db),
         db_outbox := hm_put (i, v, pc_command_id c) \<lparr>ob_payload = \<lparr>pq_instance_id = i, pq_invocation_id = v,
         pq_origin = o1, pq_command = c\<rparr>, ob_status = Command_Pending\<rparr> (db_outbox db)\<rparr>"
      by (auto simp: Let_def split: sum.splits)
    with Cons show ?thesis by (simp add: db_wf_def hm_simps)
  qed
qed simp

lemma mark_committed_wf: "mark_delivery_committed i dl db = Inr db' \<Longrightarrow> db_wf db \<Longrightarrow> db_wf db'"
  by (auto simp: mark_delivery_committed_def Let_def db_wf_def split: option.splits if_splits prod.splits)

lemma store_commit_wf: "db_wf db \<Longrightarrow> db_wf (fst (store_commit L i v ops cs opts db))"
proof (cases rule: store_commit_cases [of L i v ops cs opts db])
  case (fresh db' q t db1)
  assume wf: "db_wf db"
  then have "hm_wf t" using apply_state_ops_wf [OF _ fresh(3)] by (simp add: db_wf_def)
  then have "db_wf (db\<lparr>db_state := t\<rparr>)" by (rule db_wf_state [OF wf])
  then have "db_wf db'" by (rule mark_committed_wf [OF fresh(7) queue_commands_wf [OF fresh(6)]])
  then show ?thesis by (simp add: fresh(1))
qed (auto intro: mark_committed_wf)

lemma reset_health_wf: "db_wf db \<Longrightarrow> db_wf (reset_health_if_generation i g now db)"
  by (auto simp: reset_health_if_generation_def db_wf_def hm_simps split: option.splits)

lemma store_step_wf: "db_wf db \<Longrightarrow> db_wf (store_step L c db)"
proof (cases c)
  case (Do_Commit i v ops cs opts)
  assume "db_wf db"
  with Do_Commit show ?thesis by (simp add: store_commit_wf)
next
  case (Do_Replace_State i st)
  assume "db_wf db"
  with Do_Replace_State show ?thesis
    by (auto simp: replace_state_def db_wf_def split: sum.splits intro: insert_entries_wf hm_wf_filter)
next
  case (Do_Failed i e did err pol)
  assume "db_wf db"
  with Do_Failed show ?thesis
    by (auto simp: mark_delivery_failed_def count_failure_def Let_def db_wf_def hm_simps
        split: option.splits if_splits prod.splits)
qed (auto simp: mark_command_def begin_delivery_def mark_delivery_succeeded_def finalize_committed_deliveries_def
    finalize_committed_delivery_def enqueue_delivery_def requeue_running_deliveries_def recover_dead_letters_def
    upsert_installation_def write_installation_def set_installation_enabled_def remove_installation_def
    remove_installation_if_updated_def create_schedule_def cancel_schedule_def requeue_firing_schedules_def
    recover_schedules_def claim_schedule_def finish_schedule_def Let_def db_wf_def hm_simps
    reset_health_if_generation_def split: option.splits if_splits)

lemma empty_db_wf: "db_wf empty_db"
  by (simp add: db_wf_def empty_db_def hm_simps)

lemma store_run_wf: "db_wf db \<Longrightarrow> db_wf (store_run L cs db)"
  by (rule store_run_invariant [where I = db_wf]) (rule store_step_wf)

section \<open>The life of a delivery\<close>

datatype life =
    Absent
  | Waiting nat
  | Active ustr nat
  | In_Effect ustr
  | Finished
  | Given_Up nat

datatype delivery_sight =
    Saw_Enqueued
  | Saw_Started ustr nat
  | Saw_Committed ustr
  | Saw_Succeeded ustr
  | Saw_Failed ustr bool
  | Saw_Finalized
  | Saw_Finalizing
  | Saw_Requeued
  | Saw_Recovered

definition life_of :: "delivery_row option \<Rightarrow> life" where
  "life_of row =
     (case row of
        None \<Rightarrow> Absent
      | Some d \<Rightarrow>
          (case dr_status d of
             Pending \<Rightarrow> Waiting (dr_attempt d)
           | Running \<Rightarrow> Active (dr_delivery_id d) (dr_attempt d)
           | Committed \<Rightarrow> In_Effect (dr_delivery_id d)
           | Delivered \<Rightarrow> Finished
           | Dead_Letter \<Rightarrow> Given_Up (dr_attempt d)))"

text \<open>
  The automaton of one event at one instance; None is an illegal step. Only the running delivery can commit,
  succeed or fail, named by its identifier; after a commit or a success nothing starts again. The sights that
  concern all deliveries of an instance leave the states alone that they do not name.
\<close>

fun life_step :: "life \<Rightarrow> delivery_sight \<Rightarrow> life option" where
  "life_step Absent (Saw_Started did n) = (if n = 1 then Some (Active did n) else None)"
| "life_step (Waiting m) (Saw_Started did n) = (if n = min (m + 1) u32_max then Some (Active did n) else None)"
| "life_step Absent Saw_Enqueued = Some (Waiting 0)"
| "life_step (Active did n) (Saw_Committed x) = (if x = did then Some (In_Effect did) else None)"
| "life_step (Active did n) (Saw_Succeeded x) = (if x = did then Some Finished else None)"
| "life_step (In_Effect did) (Saw_Succeeded x) = (if x = did then Some Finished else None)"
| "life_step (Active did n) (Saw_Failed x dead) =
     (if x = did then Some (if dead then Given_Up n else Waiting n) else None)"
| "life_step (In_Effect did) Saw_Finalized = Some Finished"
| "life_step (In_Effect did) Saw_Finalizing = Some Finished"
| "life_step (Active did n) Saw_Requeued = Some (Waiting n)"
| "life_step (Given_Up n) Saw_Recovered = Some (Waiting 0)"
| "life_step s Saw_Enqueued = Some s"
| "life_step s Saw_Finalizing = Some s"
| "life_step s Saw_Requeued = Some s"
| "life_step s Saw_Recovered = Some s"
| "life_step s _ = None"

fun life_run :: "life \<Rightarrow> delivery_sight list \<Rightarrow> life option" where
  "life_run s [] = Some s"
| "life_run s (x # xs) = (case life_step s x of None \<Rightarrow> None | Some s' \<Rightarrow> life_run s' xs)"

text \<open>What a call shows of the delivery of an event: read off its result.\<close>

fun see_delivery :: "store_libs \<Rightarrow> ustr \<times> ustr \<Rightarrow> store_call \<Rightarrow> plugin_db \<Rightarrow> delivery_sight list" where
  "see_delivery L k (Do_Commit i v ops cs opts) db =
     (case (snd (store_commit L i v ops cs opts db), co_delivery opts) of
        (Inr _, Some (e, did)) \<Rightarrow> if (i, e) = k then [Saw_Committed did] else []
      | _ \<Rightarrow> [])"
| "see_delivery L k (Do_Begin i env orig now) db =
     (case snd (begin_delivery i env orig now db) of
        None \<Rightarrow> []
      | Some p \<Rightarrow> if (i, pn_event_id p) = k then [Saw_Started (pn_delivery_id p) (pn_attempt p)] else [])"
| "see_delivery L k (Do_Succeeded i e did now) db =
     (if (i, e) = k \<and> snd (mark_delivery_succeeded i e did now db) then [Saw_Succeeded did] else [])"
| "see_delivery L k (Do_Failed i e did err pol) db =
     (let r = snd (mark_delivery_failed i e did err pol db)
      in if (i, e) = k \<and> fr_updated r then [Saw_Failed did (fr_dead_letter r)] else [])"
| "see_delivery L k (Do_Finalize_All i now) db = (if i = fst k then [Saw_Finalizing] else [])"
| "see_delivery L k (Do_Finalize_One i e now) db =
     (if (i, e) = k \<and> snd (finalize_committed_delivery i e now db) then [Saw_Finalized] else [])"
| "see_delivery L k (Do_Enqueue i env orig now) db = (if (i, pe_event_id env) = k then [Saw_Enqueued] else [])"
| "see_delivery L k (Do_Requeue i now) db = (if i = fst k then [Saw_Requeued] else [])"
| "see_delivery L k (Do_Recover_Dead i now) db = (if i = fst k then [Saw_Recovered] else [])"
| "see_delivery L k _ db = []"


lemma see_commit_life:
  assumes "db_wf db"
  shows "life_run (life_of (hm_get (db_deliveries db) k)) (see_delivery L k (Do_Commit i v ops cs opts) db) =
    Some (life_of (hm_get (db_deliveries (fst (store_commit L i v ops cs opts db))) k))"
proof -
  have mark: "life_run (life_of (hm_get (db_deliveries db) k))
      (case co_delivery opts of None \<Rightarrow> [] | Some (e, did) \<Rightarrow> if (i, e) = k then [Saw_Committed did] else []) =
    Some (life_of (hm_get (db_deliveries db') k))"
    if m: "mark_delivery_committed i (co_delivery opts) db1 = Inr db'" and d: "db_deliveries db1 = db_deliveries db"
    for db' db1
  proof (cases "co_delivery opts")
    case None
    with m d show ?thesis by (simp add: mark_delivery_committed_def)
  next
    case (Some p)
    obtain e did where p: "p = (e, did)" by (cases p)
    let ?P = "\<lambda>v. dr_delivery_id v = did \<and> dr_status v = Running"
    from m Some p d have c: "sql_count (\<lambda>k v. k = (i, e) \<and> ?P v) (db_deliveries db) = 1"
      and db': "db_deliveries db' =
        sql_update (\<lambda>k v. k = (i, e) \<and> ?P v) (\<lambda>v. v\<lparr>dr_status := Committed\<rparr>) (db_deliveries db)"
      by (auto simp: mark_delivery_committed_def Let_def split: if_splits)
    from c assms obtain row where "hm_get (db_deliveries db) (i, e) = Some row" "?P row"
      by (auto simp: sql_count_key db_wf_def of_bool_def split: option.splits if_splits)
    with Some p db' show ?thesis
      by (auto simp: sql_update_get life_of_def)
         (cases "hm_get (db_deliveries db) k"; simp)
  qed
  show ?thesis
  proof (cases rule: store_commit_cases [of L i v ops cs opts db])
    case (failed err)
    then show ?thesis by simp
  next
    case (replay db')
    then show ?thesis using mark [OF replay(4) refl] by (simp split: option.splits)
  next
    case (fresh db' q t db1)
    have "db_deliveries db1 = db_deliveries db" using queue_commands_frame [OF fresh(6)] by simp
    with fresh show ?thesis using mark [OF fresh(7)] by (simp split: option.splits)
  qed
qed

lemma reset_health_deliveries [simp]:
  "db_deliveries (reset_health_if_generation i g now db) = db_deliveries db"
  by (simp add: reset_health_if_generation_def split: option.split)

lemma see_delivery_life:
  assumes "db_wf db"
  shows "life_run (life_of (hm_get (db_deliveries db) k)) (see_delivery L k c db) =
    Some (life_of (hm_get (db_deliveries (store_step L c db)) k))"
proof (cases c)
  case (Do_Commit i v ops cs opts)
  then show ?thesis using see_commit_life [OF assms] by simp
next
  case (Do_Begin i env orig now)
  then show ?thesis using assms
    by (auto simp: begin_delivery_def delivery_blocked_def life_of_def Let_def hm_simps db_wf_def
        split: option.splits delivery_status.splits if_splits)
next
  case (Do_Succeeded i e did now)
  then show ?thesis using assms
    by (auto simp: mark_delivery_succeeded_def succeeded_row_def life_of_def Let_def hm_simps db_wf_def
        split: option.splits delivery_status.splits if_splits)
next
  case (Do_Failed i e did err pol)
  then show ?thesis using assms
    by (auto simp: mark_delivery_failed_def count_failure_def life_of_def Let_def hm_simps db_wf_def
        split: option.splits delivery_status.splits if_splits prod.splits)
next
  case (Do_Finalize_One i e now)
  then show ?thesis using assms
    by (auto simp: finalize_committed_delivery_def succeeded_row_def life_of_def Let_def hm_simps db_wf_def
        split: option.splits delivery_status.splits if_splits)
next
  case (Do_Finalize_All i now)
  then show ?thesis using assms
    by (cases "hm_get (db_deliveries db) k"; cases k)
       (auto simp: finalize_committed_deliveries_def succeeded_row_def life_of_def Let_def sql_update_get
        split: delivery_status.splits)
next
  case (Do_Enqueue i env orig now)
  then show ?thesis using assms
    by (auto simp: enqueue_delivery_def hm_contains_def life_of_def Let_def hm_simps db_wf_def
        split: option.splits delivery_status.splits if_splits)
next
  case (Do_Requeue i now)
  then show ?thesis using assms
    by (cases "hm_get (db_deliveries db) k"; cases k)
       (auto simp: requeue_running_deliveries_def life_of_def sql_update_get split: delivery_status.splits)
next
  case (Do_Recover_Dead i now)
  then show ?thesis using assms
    by (cases "hm_get (db_deliveries db) k"; cases k)
       (auto simp: recover_dead_letters_def life_of_def Let_def sql_update_get split: delivery_status.splits)
qed (auto simp: replace_state_def mark_command_def upsert_installation_def write_installation_def
    set_installation_enabled_def remove_installation_def remove_installation_if_updated_def create_schedule_def
    cancel_schedule_def requeue_firing_schedules_def recover_schedules_def claim_schedule_def finish_schedule_def
    Let_def split: option.splits if_splits sum.splits)

lemma life_run_append:
  "life_run s (xs @ ys) = (case life_run s xs of None \<Rightarrow> None | Some s' \<Rightarrow> life_run s' ys)"
  by (induction xs arbitrary: s) (simp_all split: option.split)

lemma delivery_lifecycle_from:
  "db_wf db \<Longrightarrow> life_run (life_of (hm_get (db_deliveries db) k)) (store_trace (see_delivery L k) L cs db) =
     Some (life_of (hm_get (db_deliveries (store_run L cs db)) k))"
  by (induction cs arbitrary: db) (simp_all add: life_run_append see_delivery_life store_step_wf)

text \<open>[C10] In every history of calls to the plugin store, whatever their arguments and order, what the calls
  report of the delivery of one event to one instance is a run of the delivery automaton, and the stored row is
  the state in which the run ends: a delivery starts only from a waiting or absent row, with the next attempt
  number; only the running delivery, named by its identifier, can commit, succeed or fail; a committed or
  finished delivery never starts again, also after a restart that requeues what was running; a dead letter starts
  again only after it was recovered.\<close>

theorem delivery_lifecycle:
  "life_run Absent (store_trace (see_delivery L (i, e)) L calls empty_db) =
   Some (life_of (hm_get (db_deliveries (store_run L calls empty_db)) (i, e)))"
  using delivery_lifecycle_from [OF empty_db_wf, of "(i, e)" L calls]
  by (simp add: empty_db_def life_of_def hm_simps)

text \<open>Sights that may follow a commit or a success: nothing starts, commits or fails.\<close>

fun takes_effect :: "delivery_sight \<Rightarrow> bool" where
  "takes_effect (Saw_Committed did) = True"
| "takes_effect (Saw_Succeeded did) = True"
| "takes_effect _ = False"

fun runs_again :: "delivery_sight \<Rightarrow> bool" where
  "runs_again (Saw_Started did n) = True"
| "runs_again (Saw_Committed did) = True"
| "runs_again (Saw_Failed did dead) = True"
| "runs_again _ = False"

fun quiet_after_effect :: "delivery_sight list \<Rightarrow> bool" where
  "quiet_after_effect [] = True"
| "quiet_after_effect (x # xs) =
     (if takes_effect x then \<not> list_ex runs_again xs else quiet_after_effect xs)"

lemma settled_life_quiet:
  "s = Finished \<or> (\<exists>did. s = In_Effect did) \<Longrightarrow> life_run s xs = Some s' \<Longrightarrow> \<not> list_ex runs_again xs"
proof (induction xs arbitrary: s)
  case (Cons x xs)
  from Cons.prems show ?case
    by (elim disjE exE; cases x) (auto split: if_splits dest: Cons.IH [rotated])
qed simp

lemma effect_settles: "takes_effect x \<Longrightarrow> life_step s x = Some s' \<Longrightarrow> s' = Finished \<or> (\<exists>did. s' = In_Effect did)"
  by (cases s; cases x) (auto split: if_splits)

lemma life_run_quiet: "life_run s xs = Some s' \<Longrightarrow> quiet_after_effect xs"
proof (induction xs arbitrary: s)
  case (Cons x xs)
  then obtain s1 where s1: "life_step s x = Some s1" "life_run s1 xs = Some s'"
    by (auto split: option.splits)
  then show ?case
    using Cons.IH settled_life_quiet [OF effect_settles [OF _ s1(1)] s1(2)] by simp
qed simp

text \<open>[C11] The effects of a handler are stored at most once per event and instance: in every history of calls,
  after the first commit of an output for the event, or its first success, no delivery of that event starts,
  commits or fails any more. Repeated deliveries of the event, retries, requeues after a restart and the
  recovery of dead letters included.\<close>

theorem event_takes_effect_once:
  "quiet_after_effect (store_trace (see_delivery L (i, e)) L calls empty_db)"
  by (rule life_run_quiet [OF delivery_lifecycle_from [OF empty_db_wf]])

end
