(* ===== verification/PluginQueue.thy ===== *)
theory PluginQueue
  imports PluginStoreProps
begin

text \<open>
  What the plugin store promises of commands: a commit stores an output wholly or not at all, and the outbox is
  the list of the commands that were queued, in order, each command and each idempotency key once.
\<close>

section \<open>The queue of commands\<close>

definition outbox_sight :: "store_libs \<Rightarrow> outbox_row \<Rightarrow> ustr option \<times> ustr \<times> 8 word list option \<times> command_status" where
  "outbox_sight L o1 = (let c = pq_command (ob_payload o1)
     in (pc_idempotency_key c, pc_kind c, sl_command L c, ob_status o1))"

definition ledger_sight :: "ledger_row \<Rightarrow> ustr option \<times> ustr \<times> 8 word list option \<times> command_status" where
  "ledger_sight r = (lr_idempotency_key r, lr_kind r, Some (lr_payload r), lr_status r)"

definition row_key :: "pending_command \<Rightarrow> ustr \<times> ustr \<times> ustr" where
  "row_key p = (pq_instance_id p, pq_invocation_id p, pc_command_id (pq_command p))"

definition row_idempotency :: "pending_command \<Rightarrow> (ustr \<times> ustr) option" where
  "row_idempotency p = map_option (Pair (pq_instance_id p)) (pc_idempotency_key (pq_command p))"

definition queued_rows :: "plugin_db \<Rightarrow> pending_command list" where
  "queued_rows db = map (ob_payload \<circ> snd) (db_outbox db)"

definition mirror :: "store_libs \<Rightarrow> plugin_db \<Rightarrow> bool" where
  "mirror L db \<longleftrightarrow>
     map (map_prod id ledger_sight) (db_ledger db) = map (map_prod id (outbox_sight L)) (db_outbox db) \<and>
     map fst (db_outbox db) = map row_key (queued_rows db) \<and>
     distinct (map row_key (queued_rows db)) \<and>
     distinct (List.map_filter row_idempotency (queued_rows db)) \<and>
     list_all (\<lambda>p. lr_result (snd p) = None \<longleftrightarrow> lr_status (snd p) = Command_Pending) (db_ledger db)"

lemma mirror_keys:
  assumes "mirror L db"
  shows "map fst (db_ledger db) = map row_key (queued_rows db)"
proof -
  have "map fst (map (map_prod id ledger_sight) (db_ledger db)) =
      map fst (map (map_prod id (outbox_sight L)) (db_outbox db))"
    using assms by (simp only: mirror_def)
  then show ?thesis using assms by (simp add: mirror_def comp_def)
qed

lemma mirror_cong:
  "db_ledger db' = db_ledger db \<Longrightarrow> db_outbox db' = db_outbox db \<Longrightarrow> mirror L db' = mirror L db"
  by (simp add: mirror_def queued_rows_def)

lemma ledger_idempotency:
  assumes "mirror L db"
  shows "map (\<lambda>p. map_option (Pair (fst (fst p))) (lr_idempotency_key (snd p))) (db_ledger db) =
    map row_idempotency (queued_rows db)"
proof -
  let ?f = "\<lambda>p. map_option (Pair (fst (fst p))) (fst (snd p))"
  have "map ?f (map (map_prod id ledger_sight) (db_ledger db)) =
      map ?f (map (map_prod id (outbox_sight L)) (db_outbox db))"
    using assms by (simp only: mirror_def)
  moreover have "map (fst \<circ> fst) (db_outbox db) = map (pq_instance_id \<circ> ob_payload \<circ> snd) (db_outbox db)"
    using arg_cong [of _ _ "map fst"] assms by (force simp: mirror_def queued_rows_def row_key_def comp_def)
  then have "map ?f (map (map_prod id (outbox_sight L)) (db_outbox db)) = map row_idempotency (queued_rows db)"
    by (simp add: queued_rows_def row_idempotency_def outbox_sight_def Let_def comp_def)
  ultimately show ?thesis by (simp add: ledger_sight_def comp_def)
qed

lemma map_filter_append: "List.map_filter f (xs @ ys) = List.map_filter f xs @ List.map_filter f ys"
  by (simp add: map_filter_def)

lemma sql_update_map:
  "(\<And>x. f (g x) = h (f x)) \<Longrightarrow>
   map (map_prod id f) (sql_update (\<lambda>k _. P k) g t) = sql_update (\<lambda>k _. P k) h (map (map_prod id f) t)"
  by (simp add: sql_update_def comp_def split_beta)

lemma set_map_filter_iff: "y \<in> set (List.map_filter f xs) \<longleftrightarrow> Some y \<in> set (map f xs)"
  by (induction xs) (auto simp: map_filter_simps split: option.splits)

lemma ledger_by_key_None:
  assumes "mirror L db"
  shows "ledger_by_key i key (db_ledger db) = None \<longleftrightarrow>
    (i, key) \<notin> set (List.map_filter row_idempotency (queued_rows db))"
proof -
  have "Some (i, key) \<in> set (map row_idempotency (queued_rows db)) \<longleftrightarrow>
      (\<exists>p\<in>set (db_ledger db). fst (fst p) = i \<and> lr_idempotency_key (snd p) = Some key)"
    unfolding ledger_idempotency [OF assms, symmetric]
    by (auto simp: image_iff eq_commute [of "Some (i, key)"])
  then show ?thesis
    unfolding set_map_filter_iff by (auto simp: ledger_by_key_def find_None_iff)
qed

definition queue_entry ::
    "ustr \<Rightarrow> ustr \<Rightarrow> outbox_origin option \<Rightarrow> plugin_command \<Rightarrow> pending_command" where
  "queue_entry i v orig c = \<lparr>pq_instance_id = i, pq_invocation_id = v, pq_origin = the orig, pq_command = c\<rparr>"

lemma queue_commands_mirror:
  "mirror L db \<Longrightarrow> queue_commands L i v orig cs db = Inr (db', q) \<Longrightarrow>
   mirror L db' \<and> queued_rows db' = queued_rows db @ map (queue_entry i v orig) q"
proof (induction cs arbitrary: db q)
  case Nil
  then show ?case by simp
next
  case (Cons c cs)
  show ?case
  proof (cases "orig = None \<or> sl_command L c = None \<or> ledger_has i v c (db_ledger db)")
    case True
    with Cons show ?thesis by (auto split: option.splits if_splits)
  next
    case False
    then obtain o1 bytes where o: "orig = Some o1" "sl_command L c = Some bytes" by auto
    let ?k = "(i, v, pc_command_id c)"
    from False have new: "hm_get (db_ledger db) ?k = None"
      and idem: "\<And>key. pc_idempotency_key c = Some key \<Longrightarrow> ledger_by_key i key (db_ledger db) = None"
      by (auto simp: ledger_has_def hm_contains_def)
    have nk: "?k \<notin> set (map row_key (queued_rows db))"
      using new by (simp add: hm_get_None_iff mirror_keys [OF Cons.prems(1), symmetric])
    then have new': "hm_get (db_outbox db) ?k = None"
      using Cons.prems(1) by (simp only: mirror_def hm_get_None_iff set_map [symmetric]) simp
    define db1 where "db1 = db\<lparr>db_ledger := hm_put ?k \<lparr>lr_idempotency_key = pc_idempotency_key c,
       lr_kind = pc_kind c, lr_payload = bytes, lr_status = Command_Pending, lr_result = None\<rparr> (db_ledger db),
       db_outbox := hm_put ?k \<lparr>ob_payload = \<lparr>pq_instance_id = i, pq_invocation_id = v,
       pq_origin = o1, pq_command = c\<rparr>, ob_status = Command_Pending\<rparr> (db_outbox db)\<rparr>"
    obtain q1 where q: "queue_commands L i v orig cs db1 = Inr (db', q1)" "q = c # q1"
      using Cons.prems(2) o False by (auto simp: db1_def Let_def split: sum.splits)
    have rows: "queued_rows db1 = queued_rows db @ [queue_entry i v orig c]"
      by (simp add: db1_def queued_rows_def hm_put_fresh new' queue_entry_def o)
    let ?e = "queue_entry i v orig c"
    have "row_idempotency ?e \<notin> Some ` set (List.map_filter row_idempotency (queued_rows db))"
      using idem by (auto simp: row_idempotency_def queue_entry_def ledger_by_key_None [OF Cons.prems(1)])
    then have "distinct (List.map_filter row_idempotency (queued_rows db @ [?e]))"
      using Cons.prems(1) by (auto simp: mirror_def map_filter_append map_filter_simps split: option.splits)
    moreover have "distinct (map row_key (queued_rows db @ [?e]))"
      using Cons.prems(1) nk by (simp add: mirror_def row_key_def queue_entry_def)
    moreover have "map fst (db_outbox db1) = map row_key (queued_rows db @ [?e])"
      using Cons.prems(1) by (simp add: mirror_def db1_def hm_put_fresh [OF new'] row_key_def queue_entry_def)
    moreover have "map (map_prod id ledger_sight) (db_ledger db1) = map (map_prod id (outbox_sight L)) (db_outbox db1)"
      using Cons.prems(1) o
      by (simp add: mirror_def db1_def hm_put_fresh [OF new] hm_put_fresh [OF new'] ledger_sight_def
          outbox_sight_def)
    moreover have "list_all (\<lambda>p. lr_result (snd p) = None \<longleftrightarrow> lr_status (snd p) = Command_Pending) (db_ledger db1)"
      using Cons.prems(1) by (simp add: mirror_def db1_def hm_put_fresh [OF new])
    ultimately have "mirror L db1" by (simp only: mirror_def rows simp_thms)
    from Cons.IH [OF this q(1)] rows q(2) show ?thesis by simp
  qed
qed


lemma mirror_mark_command:
  "mirror L db \<Longrightarrow> mirror L (mark_command i v c st res db) \<and> queued_rows (mark_command i v c st res db) = queued_rows db"
proof -
  assume m: "mirror L db"
  let ?db = "mark_command i v c st res db"
  have rows: "queued_rows ?db = queued_rows db"
    by (simp add: mark_command_def queued_rows_def sql_update_def comp_def split_beta if_distrib cong: if_cong)
  have "map (map_prod id ledger_sight) (db_ledger ?db) = map (map_prod id (outbox_sight L)) (db_outbox ?db)"
    using m by (simp add: mark_command_def mirror_def sql_update_map [where h = "\<lambda>(k, kd, pl, _). (k, kd, pl, Command_Ended st)"] ledger_sight_def outbox_sight_def Let_def)
  moreover have "list_all (\<lambda>p. lr_result (snd p) = None \<longleftrightarrow> lr_status (snd p) = Command_Pending) (db_ledger ?db)"
  proof -
    from m have "list_all (\<lambda>p. lr_result (snd p) = None \<longleftrightarrow> lr_status (snd p) = Command_Pending) (db_ledger db)"
      by (simp add: mirror_def)
    then show ?thesis by (fastforce simp: mark_command_def list_all_iff sql_update_def)
  qed
  moreover have "map fst (db_outbox ?db) = map fst (db_outbox db)" by (simp add: mark_command_def)
  ultimately have "mirror L ?db" using m by (simp add: mirror_def rows)
  with rows show ?thesis by simp
qed

text \<open>What a history shows of queued commands: those that a commit returns.\<close>

fun see_queued :: "store_libs \<Rightarrow> store_call \<Rightarrow> plugin_db \<Rightarrow> pending_command list" where
  "see_queued L (Do_Commit i v ops cs opts) db =
     (case snd (store_commit L i v ops cs opts db) of
        Inl _ \<Rightarrow> []
      | Inr q \<Rightarrow> map (queue_entry i v (co_origin opts)) q)"
| "see_queued L _ db = []"

lemma mirror_commit:
  assumes "mirror L db"
  shows "mirror L (fst (store_commit L i v ops cs opts db)) \<and>
    queued_rows (fst (store_commit L i v ops cs opts db)) =
      queued_rows db @ see_queued L (Do_Commit i v ops cs opts) db"
proof (cases rule: store_commit_cases [of L i v ops cs opts db])
  case (failed err)
  with assms show ?thesis by simp
next
  case (replay db')
  with assms mark_committed_frame [OF replay(4)] mirror_cong [of db' db] show ?thesis
    by (simp add: queued_rows_def)
next
  case (fresh db' q t db1)
  have "mirror L (db\<lparr>db_state := t\<rparr>)" using assms mirror_cong [of "db\<lparr>db_state := t\<rparr>" db] by simp
  from queue_commands_mirror [OF this fresh(6)] mark_committed_frame [OF fresh(7)] mirror_cong [of db' db1] fresh(1)
  show ?thesis by (simp add: queued_rows_def)
qed

lemma queue_frames [simp]:
  "db_ledger (fst (begin_delivery i env orig now db)) = db_ledger db"
  "db_outbox (fst (begin_delivery i env orig now db)) = db_outbox db"
  "db_ledger (reset_health_if_generation i g now db) = db_ledger db"
  "db_outbox (reset_health_if_generation i g now db) = db_outbox db"
  "db_ledger (fst (mark_delivery_failed i e did err pol db)) = db_ledger db"
  "db_outbox (fst (mark_delivery_failed i e did err pol db)) = db_outbox db"
  by (simp_all add: begin_delivery_def reset_health_if_generation_def mark_delivery_failed_def count_failure_def
      Let_def split: option.split prod.split)

lemma mirror_step:
  assumes "mirror L db"
  shows "mirror L (store_step L c db) \<and> queued_rows (store_step L c db) = queued_rows db @ see_queued L c db"
proof (cases "\<exists>i v ops cs opts. c = Do_Commit i v ops cs opts")
  case True
  then show ?thesis using mirror_commit [OF assms] by auto
next
  case False
  show ?thesis
  proof (cases "\<exists>i v x st res. c = Do_Mark_Command i v x st res")
    case True
    then show ?thesis using mirror_mark_command [OF assms] by auto
  next
    case other: False
    have "db_ledger (store_step L c db) = db_ledger db \<and> db_outbox (store_step L c db) = db_outbox db"
      using False other
      by (cases c) (auto simp: replace_state_def mark_delivery_succeeded_def
          finalize_committed_deliveries_def finalize_committed_delivery_def enqueue_delivery_def
          requeue_running_deliveries_def recover_dead_letters_def upsert_installation_def write_installation_def
          set_installation_enabled_def remove_installation_def remove_installation_if_updated_def
          create_schedule_def cancel_schedule_def requeue_firing_schedules_def recover_schedules_def
          claim_schedule_def finish_schedule_def Let_def split: option.splits sum.splits)
    with assms False mirror_cong show ?thesis by (cases c) (simp_all add: queued_rows_def mirror_def)
  qed
qed

lemma mirror_run:
  "mirror L db \<Longrightarrow> mirror L (store_run L calls db) \<and>
   queued_rows (store_run L calls db) = queued_rows db @ store_trace (see_queued L) L calls db"
  by (induction calls arbitrary: db) (simp_all add: mirror_step)

lemma mirror_empty: "mirror L empty_db" "queued_rows empty_db = []"
  by (simp_all add: mirror_def queued_rows_def empty_db_def map_filter_simps)


text \<open>The outbox is exactly what the commits of a history have queued: in order, nothing lost, nothing added,
  each command of an invocation once, and each idempotency key of an instance once, whatever the plugins return
  and however often their outputs are committed again.\<close>

theorem outbox_is_what_was_queued:
  "let queued = store_trace (see_queued L) L calls empty_db
   in queued_rows (store_run L calls empty_db) = queued \<and> distinct (map row_key queued) \<and>
      distinct (List.map_filter row_idempotency queued)"
proof -
  let ?db = "store_run L calls empty_db"
  have "mirror L ?db" and rows: "queued_rows ?db = store_trace (see_queued L) L calls empty_db"
    using mirror_run [OF mirror_empty(1), of L calls] by (simp_all add: mirror_empty)
  then have "distinct (map row_key (queued_rows ?db))"
    and "distinct (List.map_filter row_idempotency (queued_rows ?db))"
    by (simp_all only: mirror_def)
  then show ?thesis by (simp add: Let_def rows)
qed

section \<open>Commits\<close>

lemma ledger_has_iff:
  assumes "mirror L db"
  shows "ledger_has i v c (db_ledger db) \<longleftrightarrow>
    (i, v, pc_command_id c) \<in> set (map row_key (queued_rows db)) \<or>
    row_idempotency (queue_entry i v orig c) \<in> Some ` set (List.map_filter row_idempotency (queued_rows db))"
proof -
  have "hm_contains (db_ledger db) k \<longleftrightarrow> k \<in> set (map row_key (queued_rows db))" for k
    unfolding hm_contains_def mirror_keys [OF assms, symmetric] by (simp add: hm_get_None_iff)
  then show ?thesis
    by (auto simp: ledger_has_def ledger_by_key_None [OF assms] row_idempotency_def queue_entry_def
        split: option.split)
qed

text \<open>A command that the ledger holds under its idempotency key, with the same kind and encoding.\<close>

definition stored_command ::
    "store_libs \<Rightarrow> ustr \<Rightarrow> (ustr \<times> ustr \<times> ustr, ledger_row) hmap \<Rightarrow> plugin_command \<Rightarrow> bool" where
  "stored_command L i t c =
     (case pc_idempotency_key c of
        None \<Rightarrow> False
      | Some key \<Rightarrow>
          (case ledger_by_key i key t of
             None \<Rightarrow> False
           | Some row \<Rightarrow> lr_kind row = pc_kind c \<and> sl_command L c = Some (lr_payload row)))"

lemma existing_keys_count:
  "existing_keys L i t seen cs = Inr n \<Longrightarrow> n = length (filter (stored_command L i t) cs)"
  by (induction cs arbitrary: seen n)
     (auto simp: stored_command_def split: option.splits if_splits sum.splits)

lemma ledger_has_queue:
  assumes "mirror L db" "queue_commands L i v orig cs db = Inr (db', q)" "ledger_has i v c (db_ledger db)"
  shows "ledger_has i v c (db_ledger db')"
proof -
  note q = queue_commands_mirror [OF assms(1,2)]
  from assms(3) q show ?thesis
    unfolding ledger_has_iff [OF assms(1), where orig = orig] ledger_has_iff [OF conjunct1 [OF q], where orig = orig]
    by (auto simp: map_filter_append)
qed


lemma queue_commands_has_all:
  "mirror L db \<Longrightarrow> queue_commands L i v orig cs db = Inr (db', q) \<Longrightarrow> c \<in> set cs \<Longrightarrow>
   ledger_has i v c (db_ledger db')"
proof (induction cs arbitrary: db q)
  case (Cons d cs)
  obtain o1 bytes where o: "orig = Some o1" "sl_command L d = Some bytes"
    using Cons.prems(2) by (auto split: option.splits)
  show ?case
  proof (cases "ledger_has i v d (db_ledger db)")
    case True
    then have "queue_commands L i v orig cs db = Inr (db', q)" using Cons.prems(2) o by simp
    with True Cons show ?thesis by (auto intro: ledger_has_queue)
  next
    case False
    define db1 where "db1 = fst (case queue_commands L i v orig [d] db of Inr r \<Rightarrow> r)"
    have one: "queue_commands L i v orig [d] db = Inr (db1, [d])"
      using False o by (simp add: db1_def Let_def)
    then have m1: "mirror L db1" using queue_commands_mirror [OF Cons.prems(1)] by blast
    have "ledger_has i v d (db_ledger db1)"
      using False o by (simp add: db1_def Let_def ledger_has_def hm_contains_def hm_put_def hm_get_def update_conv')
    moreover obtain q1 where q1: "queue_commands L i v orig cs db1 = Inr (db', q1)"
      using Cons.prems(2) False o by (auto simp: db1_def Let_def split: sum.splits)
    ultimately show ?thesis using Cons.prems(3) Cons.IH [OF m1 q1] ledger_has_queue [OF m1 q1] by auto
  qed
qed simp

lemma stored_command_ledger: "stored_command L i t c \<Longrightarrow> ledger_has i v c t"
  by (auto simp: stored_command_def ledger_has_def split: option.splits)

text \<open>What a commit does to the row of its delivery.\<close>

definition delivery_committed :: "ustr \<Rightarrow> (ustr \<times> ustr) option \<Rightarrow> plugin_db \<Rightarrow> plugin_db \<Rightarrow> bool" where
  "delivery_committed i delivery db db' \<longleftrightarrow>
     (case delivery of
        None \<Rightarrow> db_deliveries db' = db_deliveries db
      | Some (e, did) \<Rightarrow>
          (case life_of (hm_get (db_deliveries db) (i, e)) of
             Active d n \<Rightarrow> d = did \<and> life_of (hm_get (db_deliveries db') (i, e)) = In_Effect did
           | _ \<Rightarrow> False))"

lemma mark_committed_delivery:
  assumes "db_wf db" "mark_delivery_committed i delivery db1 = Inr db'" "db_deliveries db1 = db_deliveries db"
  shows "delivery_committed i delivery db db'"
proof (cases delivery)
  case None
  with assms show ?thesis by (simp add: mark_delivery_committed_def delivery_committed_def)
next
  case (Some p)
  obtain e did where p: "p = (e, did)" by (cases p)
  let ?P = "\<lambda>v. dr_delivery_id v = did \<and> dr_status v = Running"
  from assms Some p have c: "sql_count (\<lambda>k v. k = (i, e) \<and> ?P v) (db_deliveries db) = 1"
    and db': "db_deliveries db' =
      sql_update (\<lambda>k v. k = (i, e) \<and> ?P v) (\<lambda>v. v\<lparr>dr_status := Committed\<rparr>) (db_deliveries db)"
    by (auto simp: mark_delivery_committed_def Let_def split: if_splits)
  from c assms(1) obtain row where "hm_get (db_deliveries db) (i, e) = Some row" "?P row"
    by (auto simp: sql_count_key db_wf_def of_bool_def split: option.splits if_splits)
  with Some p db' show ?thesis by (simp add: delivery_committed_def sql_update_get life_of_def)
qed

text \<open>
  The specification of a commit as a relation of the databases before and after it and its result: an error
  changes nothing; a success commits the delivery, appends the returned commands to the outbox, has every command
  in the ledger, and sets the private state, within the quotas, unless the whole output was stored before.
\<close>

definition commit_spec ::
    "store_libs \<Rightarrow> ustr \<Rightarrow> ustr \<Rightarrow> state_op list \<Rightarrow> plugin_command list \<Rightarrow> commit_options \<Rightarrow> plugin_db \<Rightarrow>
     plugin_db \<times> (store_error + plugin_command list) \<Rightarrow> bool" where
  "commit_spec L i v ops cs opts db out =
     (case out of
        (db', Inl err) \<Rightarrow> db' = db
      | (db', Inr q) \<Rightarrow>
          delivery_committed i (co_delivery opts) db db' \<and>
          queued_rows db' = queued_rows db @ map (queue_entry i v (co_origin opts)) q \<and>
          list_all (\<lambda>c. ledger_has i v c (db_ledger db')) cs \<and>
          (if cs \<noteq> [] \<and> list_all (stored_command L i (db_ledger db)) cs
           then q = [] \<and> db_state db' = db_state db
           else apply_state_ops i ops (db_state db) = Inr (db_state db') \<and>
             state_entries i (db_state db') \<le> max_state_entries \<and>
             state_bytes i (db_state db') \<le> co_quota_bytes opts))"

text \<open>[C12] A commit stores an output wholly or not at all, at whatever point of a history it comes. If it reports
  an error, nothing has changed. Otherwise the delivery it was made for, which had to be the running one, is
  committed; the commands it returns are appended to the outbox in their order; every command of the output is
  in the ledger; and the private state is either that of the output, within the entry and byte quotas, or, when
  every command of the output was stored before with the same data, left alone with nothing queued.\<close>

theorem commit_all_or_nothing:
  "let db = store_run L calls empty_db in commit_spec L i v ops cs opts db (store_commit L i v ops cs opts db)"
proof -
  define db where "db = store_run L calls empty_db"
  have m: "mirror L db" using mirror_run [OF mirror_empty(1), of L calls] by (simp add: db_def)
  have wf: "db_wf db" by (simp add: db_def store_run_wf empty_db_wf)
  have "commit_spec L i v ops cs opts db (store_commit L i v ops cs opts db)"
  proof (cases rule: store_commit_cases [of L i v ops cs opts db])
    case (failed err)
    then show ?thesis by (simp add: commit_spec_def)
  next
    case (replay db')
    note fr = mark_committed_frame [OF replay(4)]
    from existing_keys_count [OF replay(2)] have all: "list_all (stored_command L i (db_ledger db)) cs"
      by (simp add: list_all_iff) (metis length_filter_less less_irrefl)
    then have "list_all (\<lambda>c. ledger_has i v c (db_ledger db')) cs"
      using fr by (auto simp: list_all_iff intro: stored_command_ledger)
    with replay(1,3) all fr mark_committed_delivery [OF wf replay(4) refl]
    show ?thesis by (simp add: commit_spec_def queued_rows_def)
  next
    case (fresh db' q t db1)
    have m1: "mirror L (db\<lparr>db_state := t\<rparr>)" using m mirror_cong [of "db\<lparr>db_state := t\<rparr>" db] by simp
    note fr = mark_committed_frame [OF fresh(7)] queue_commands_frame [OF fresh(6)]
    have "\<not> (cs \<noteq> [] \<and> list_all (stored_command L i (db_ledger db)) cs)"
      using existing_keys_count [OF fresh(2)] by (auto simp: list_all_iff filter_empty_conv)
    moreover have "list_all (\<lambda>c. ledger_has i v c (db_ledger db')) cs"
      using queue_commands_has_all [OF m1 fresh(6)] fr by (simp add: list_all_iff)
    moreover have "queued_rows db' = queued_rows db @ map (queue_entry i v (co_origin opts)) q"
      using queue_commands_mirror [OF m1 fresh(6)] fr by (simp add: queued_rows_def)
    moreover have "delivery_committed i (co_delivery opts) db db'"
      by (rule mark_committed_delivery [OF wf fresh(7)]) (simp add: fr)
    ultimately show ?thesis
      using fresh(1,3,4,5) fr by (simp only: commit_spec_def prod.case sum.case if_False) simp
  qed
  then show ?thesis by (simp add: db_def)
qed

end
