(* ===== verification/PluginGuards.thy ===== *)
theory PluginGuards
  imports PluginStoreProps
begin

text \<open>
  What the plugin store promises of the circuit breaker, of scheduled tasks and of installations, over any
  history of calls.
\<close>

section \<open>The circuit breaker\<close>

definition begins :: "ustr \<Rightarrow> ustr \<Rightarrow> store_call \<Rightarrow> bool" where
  "begins i e c = (case c of Do_Begin j env orig now \<Rightarrow> j = i \<and> pe_event_id env = e | _ \<Rightarrow> False)"

text \<open>Failures of an instance that were recorded and count toward its circuit.\<close>

fun see_counted :: "store_libs \<Rightarrow> ustr \<Rightarrow> store_call \<Rightarrow> plugin_db \<Rightarrow> unit list" where
  "see_counted L i (Do_Failed j e did err pol) db =
     (if j = i \<and> fp_counts_toward_circuit pol \<and> fr_updated (snd (mark_delivery_failed j e did err pol db))
      then [()] else [])"
| "see_counted L i _ db = []"

lemma generation_reset:
  "db_wf db \<Longrightarrow> health_generation_of i db \<le> health_generation_of i (reset_health_if_generation j g now db)"
  by (auto simp: health_generation_of_def reset_health_if_generation_def hm_simps db_wf_def split: option.splits)

lemma health_frames [simp]:
  "db_health (fst (store_commit L i v ops cs opts db)) = db_health db"
  "db_health (fst (replace_state i st db)) = db_health db"
  "db_health (mark_command i v c st2 res db) = db_health db"
  "db_health (fst (begin_delivery i env orig now db)) = db_health db"
  "db_health (enqueue_delivery i env orig now db) = db_health db"
  "db_health (requeue_running_deliveries i now db) = db_health db"
proof -
  show "db_health (fst (store_commit L i v ops cs opts db)) = db_health db"
    by (cases rule: store_commit_cases [of L i v ops cs opts db])
       (auto dest!: mark_committed_frame queue_commands_frame)
qed (auto simp: replace_state_def mark_command_def begin_delivery_def enqueue_delivery_def
    requeue_running_deliveries_def Let_def split: sum.split)

lemma health_updates [simp]:
  "health_generation_of i (db\<lparr>db_deliveries := d\<rparr>) = health_generation_of i db"
  "health_generation_of i (db\<lparr>db_installations := n\<rparr>) = health_generation_of i db"
  "health_generation_of i (db\<lparr>db_schedules := t\<rparr>) = health_generation_of i db"
  by (simp_all add: health_generation_of_def)

lemma health_generation_frames [simp]:
  "health_generation_of i (fst (store_commit L j v ops cs opts db)) = health_generation_of i db"
  "health_generation_of i (fst (replace_state j st db)) = health_generation_of i db"
  "health_generation_of i (mark_command j v c st2 res db) = health_generation_of i db"
  "health_generation_of i (fst (begin_delivery j env orig now db)) = health_generation_of i db"
  "health_generation_of i (enqueue_delivery j env orig now db) = health_generation_of i db"
  "health_generation_of i (requeue_running_deliveries j now db) = health_generation_of i db"
  by (simp_all add: health_generation_of_def)

lemma generation_reset_update:
  assumes "db_wf db" "hm_wf t"
  shows "health_generation_of i db \<le> health_generation_of i (reset_health_if_generation j g now (db\<lparr>db_deliveries := t\<rparr>))"
  using generation_reset [of "db\<lparr>db_deliveries := t\<rparr>" i j g now] assms by (simp add: db_wf_def)

lemma generation_step:
  assumes "db_wf db"
  shows "health_generation_of i db + length (see_counted L i c db) \<le> health_generation_of i (store_step L c db)"
proof (cases c)
  case (Do_Failed j e did err pol)
  then show ?thesis using assms
    by (auto simp: mark_delivery_failed_def count_failure_def health_generation_of_def Let_def db_wf_def hm_simps
        split: option.splits)
next
  case (Do_Recover_Dead j now)
  then show ?thesis using assms
    by (auto simp: recover_dead_letters_def health_generation_of_def Let_def db_wf_def hm_simps
        split: option.splits)
next
  case (Do_Succeeded j e did now)
  then show ?thesis using assms
    by (auto simp: mark_delivery_succeeded_def Let_def db_wf_def hm_simps 
        split: option.split intro!: generation_reset_update)
next
  case (Do_Finalize_All j now)
  then show ?thesis using assms
    by (auto simp: finalize_committed_deliveries_def Let_def db_wf_def intro!: generation_reset_update)
next
  case (Do_Finalize_One j e now)
  then show ?thesis using assms
    by (auto simp: finalize_committed_delivery_def Let_def db_wf_def hm_simps 
        split: option.split intro!: generation_reset_update)
qed (auto simp: upsert_installation_def write_installation_def set_installation_enabled_def
    remove_installation_def remove_installation_if_updated_def create_schedule_def cancel_schedule_def
    requeue_firing_schedules_def recover_schedules_def claim_schedule_def finish_schedule_def Let_def
    split: option.splits)

lemma generation_run:
  "db_wf db \<Longrightarrow> health_generation_of i db + length (store_trace (see_counted L i) L cs db) \<le>
     health_generation_of i (store_run L cs db)"
proof (induction cs arbitrary: db)
  case (Cons c cs)
  from Cons.IH [OF store_step_wf [OF Cons.prems, of L c]] generation_step [OF Cons.prems, of i L c]
  show ?case by simp
qed simp

definition row_generation :: "ustr \<Rightarrow> ustr \<Rightarrow> plugin_db \<Rightarrow> nat option" where
  "row_generation i e db = map_option dr_health_generation (hm_get (db_deliveries db) (i, e))"

lemma row_generation_updates [simp]:
  "row_generation i e (db\<lparr>db_installations := n\<rparr>) = row_generation i e db"
  "row_generation i e (db\<lparr>db_schedules := t\<rparr>) = row_generation i e db"
  "row_generation i e (fst (replace_state j st db)) = row_generation i e db"
  "row_generation i e (mark_command j v c st2 res db) = row_generation i e db"
  by (simp_all add: row_generation_def replace_state_def mark_command_def split: sum.split)

lemma row_generation_commit:
  "db_wf db \<Longrightarrow> row_generation i e (fst (store_commit L j v ops cs opts db)) = row_generation i e db"
proof -
  have mark: "row_generation i e db' = row_generation i e db1"
    if "mark_delivery_committed j dl db1 = Inr db'" for dl db1 db'
    using that by (cases "hm_get (db_deliveries db1) (i, e)")
       (auto simp: mark_delivery_committed_def row_generation_def sql_update_get Let_def
        split: option.splits prod.splits if_splits)
  show ?thesis
    by (cases rule: store_commit_cases [of L j v ops cs opts db])
       (auto dest!: mark queue_commands_frame simp: row_generation_def)
qed

lemma row_generation_step:
  assumes "db_wf db" "\<not> begins i e c" "row_generation i e db = Some g"
  shows "row_generation i e (store_step L c db) = Some g"
proof (cases c)
  case (Do_Commit j v ops cs opts)
  with row_generation_commit [OF assms(1)] assms(3) show ?thesis by simp
next
  case (Do_Begin j env orig now)
  with assms show ?thesis
    by (auto simp: begins_def begin_delivery_def Let_def row_generation_def db_wf_def hm_simps)
next
  case (Do_Succeeded j x did now)
  with assms show ?thesis
    by (auto simp: mark_delivery_succeeded_def succeeded_row_def Let_def row_generation_def db_wf_def hm_simps
        split: option.splits)
next
  case (Do_Failed j x did err pol)
  with assms show ?thesis
    by (auto simp: mark_delivery_failed_def count_failure_def Let_def row_generation_def db_wf_def hm_simps
        split: option.splits)
next
  case (Do_Finalize_All j now)
  with assms show ?thesis
    by (simp add: finalize_committed_deliveries_def succeeded_row_def Let_def row_generation_def sql_update_get
        option.map_comp comp_def if_distrib cong: if_cong)
next
  case (Do_Finalize_One j x now)
  with assms show ?thesis
    by (auto simp: finalize_committed_delivery_def succeeded_row_def Let_def row_generation_def db_wf_def hm_simps
        split: option.splits)
next
  case (Do_Enqueue j env orig now)
  with assms show ?thesis
    by (auto simp: enqueue_delivery_def Let_def row_generation_def hm_contains_def db_wf_def hm_simps)
next
  case (Do_Requeue j now)
  with assms show ?thesis
    by (simp add: requeue_running_deliveries_def row_generation_def sql_update_get option.map_comp comp_def
        if_distrib cong: if_cong)
next
  case (Do_Recover_Dead j now)
  with assms show ?thesis
    by (simp add: recover_dead_letters_def Let_def row_generation_def sql_update_get option.map_comp comp_def
        if_distrib cong: if_cong)
qed (use assms(3) in \<open>auto simp: upsert_installation_def
    write_installation_def set_installation_enabled_def remove_installation_def
    remove_installation_if_updated_def create_schedule_def cancel_schedule_def requeue_firing_schedules_def
    recover_schedules_def claim_schedule_def finish_schedule_def Let_def
    split: option.splits\<close>)

lemma row_generation_run:
  "db_wf db \<Longrightarrow> \<not> list_ex (begins i e) cs \<Longrightarrow> row_generation i e db = Some g \<Longrightarrow>
   row_generation i e (store_run L cs db) = Some g"
  by (induction cs arbitrary: db) (simp_all add: row_generation_step store_step_wf)

lemma stale_reset:
  "db_wf db \<Longrightarrow> g < health_generation_of i db \<Longrightarrow> db_health (reset_health_if_generation i g now db) = db_health db"
  by (simp add: health_generation_of_def reset_health_if_generation_def split: option.splits)

text \<open>The success of a delivery that was started before a failure was counted does not close the circuit or
  forget the failure: if a delivery starts, and before it succeeds (and without being started anew) a failure of
  the same instance is recorded, then recording the success, directly or when a committed delivery is finalized
  after a restart, leaves the health of the instance as it is. So a burst of concurrent deliveries cannot hide
  its failures behind an older success.\<close>

theorem stale_success_keeps_circuit:
  assumes "snd (begin_delivery i env orig now (store_run L before empty_db)) = Some p"
    and "db = store_run L after (fst (begin_delivery i env orig now (store_run L before empty_db)))"
    and "\<not> list_ex (begins i (pe_event_id env)) after"
    and "store_trace (see_counted L i) L after
      (fst (begin_delivery i env orig now (store_run L before empty_db))) \<noteq> []"
  shows "db_health (fst (mark_delivery_succeeded i (pe_event_id env) did later db)) = db_health db \<and>
    db_health (fst (finalize_committed_delivery i (pe_event_id env) later db)) = db_health db"
proof -
  let ?db0 = "store_run L before empty_db"
  let ?db1 = "fst (begin_delivery i env orig now ?db0)"
  let ?e = "pe_event_id env"
  have wf0: "db_wf ?db0" by (simp add: store_run_wf empty_db_wf)
  then have wf1: "db_wf ?db1" using store_step_wf [of ?db0 L "Do_Begin i env orig now"] by simp
  have "row_generation i ?e ?db1 = Some (health_generation_of i ?db0)"
    using assms(1) wf0 by (auto simp: begin_delivery_def Let_def row_generation_def db_wf_def hm_simps
        split: if_splits)
  from row_generation_run [OF wf1 assms(3) this]
  have row: "row_generation i ?e db = Some (health_generation_of i ?db0)" by (simp add: assms(2))
  have "0 < length (store_trace (see_counted L i) L after ?db1)" using assms(4) by simp
  with generation_run [OF wf1, of i L after] have gen: "health_generation_of i ?db0 < health_generation_of i db"
    unfolding assms(2) health_generation_frames by linarith
  have wf: "db_wf db" by (simp add: assms(2) store_run_wf wf1)
  have reset: "db_health (reset_health_if_generation i (health_generation_of i ?db0) later
      (db\<lparr>db_deliveries := t\<rparr>)) = db_health db" for t
    using gen by (simp add: health_generation_of_def reset_health_if_generation_def split: option.splits)
  from row obtain d where "hm_get (db_deliveries db) (i, ?e) = Some d"
    and "dr_health_generation d = health_generation_of i ?db0" by (auto simp: row_generation_def)
  then show ?thesis
    by (simp add: mark_delivery_succeeded_def finalize_committed_delivery_def Let_def reset)
qed

definition demo_store_libs :: store_libs where
  "demo_store_libs = \<lparr>sl_command = (\<lambda>c. Some [of_nat (length (pc_command_id c))]), sl_value = (\<lambda>_. Some [0])\<rparr>"

definition demo_store_event :: "ustr \<Rightarrow> ustr \<Rightarrow> plugin_event" where
  "demo_store_event e did = \<lparr>pe_protocol_version = lit ''1.0.0'', pe_event_id = e, pe_delivery_id = did,
     pe_invocation_id = did, pe_occurred_at_ms = None, pe_received_at_ms = 1, pe_adapter_id = lit ''mock'',
     pe_event_type = lit ''message.created'', pe_trace_id = None, pe_payload = J_Null, pe_extensions = []\<rparr>"

definition demo_origin :: outbox_origin where
  "demo_origin = \<lparr>oo_source_event_id = lit ''e'', oo_adapter_id = lit ''mock'', oo_reply_target = None,
     oo_source_message_id = None\<rparr>"

definition demo_policy :: failure_policy where
  "demo_policy = \<lparr>fp_next_attempt_ms = 9, fp_max_attempts = 3, fp_circuit_threshold = 1,
     fp_counts_toward_circuit = True, fp_now_ms = 5\<rparr>"

definition demo_failure :: "store_call list" where
  "demo_failure = [Do_Begin (lit ''i'') (demo_store_event (lit ''f'') (lit ''d2'')) demo_origin 2,
     Do_Failed (lit ''i'') (lit ''f'') (lit ''d2'') (lit ''boom'') demo_policy]"

lemma stale_success_keeps_circuit_witness:
  "let db = store_run demo_store_libs demo_failure
      (fst (begin_delivery (lit ''i'') (demo_store_event (lit ''e'') (lit ''d1'')) demo_origin 1 empty_db));
      db' = fst (mark_delivery_succeeded (lit ''i'') (lit ''e'') (lit ''d1'') 6 db)
   in circuit_open (lit ''i'') db \<and> circuit_open (lit ''i'') db'"
proof -
  let ?env = "demo_store_event (lit ''e'') (lit ''d1'')"
  let ?db1 = "fst (begin_delivery (lit ''i'') ?env demo_origin 1 empty_db)"
  let ?p = "\<lparr>pn_instance_id = lit ''i'', pn_event_id = lit ''e'', pn_delivery_id = lit ''d1'',
    pn_invocation_id = lit ''d1'', pn_attempt = 1, pn_next_attempt_ms = 1, pn_envelope = ?env,
    pn_origin = demo_origin\<rparr>"
  have 1: "snd (begin_delivery (lit ''i'') ?env demo_origin 1 (store_run demo_store_libs [] empty_db)) = Some ?p"
    by code_simp
  have 3: "\<not> list_ex (begins (lit ''i'') (pe_event_id ?env)) demo_failure" by code_simp
  have 4: "store_trace (see_counted demo_store_libs (lit ''i'')) demo_store_libs demo_failure
      (fst (begin_delivery (lit ''i'') ?env demo_origin 1 (store_run demo_store_libs [] empty_db))) \<noteq> []"
    by code_simp
  have "circuit_open (lit ''i'') (store_run demo_store_libs demo_failure ?db1)" by code_simp
  moreover have "pe_event_id ?env = lit ''e''" by (simp add: demo_store_event_def)
  ultimately show ?thesis
    using stale_success_keeps_circuit [OF 1 refl 3 4, of "lit ''d1''" 6]
    by (simp add: Let_def circuit_open_def)
qed

section \<open>Scheduled tasks\<close>

datatype task_life = No_Task | Task_Pending | Task_Firing

datatype task_sight =
    Saw_Created bool
  | Saw_Cancelled bool
  | Saw_Claimed bool
  | Saw_Finish
  | Saw_Requeue

definition task_life_of :: "schedule_row option \<Rightarrow> task_life" where
  "task_life_of row =
     (case row of
        None \<Rightarrow> No_Task
      | Some s \<Rightarrow> (case sr_status s of Schedule_Pending \<Rightarrow> Task_Pending | Schedule_Firing \<Rightarrow> Task_Firing))"

text \<open>The automaton of a task, with the answers of the calls; None is an answer that cannot be given.\<close>

fun task_step :: "task_life \<Rightarrow> task_sight \<Rightarrow> task_life option" where
  "task_step s (Saw_Created b) =
     (if b = (s = No_Task) then Some (if b then Task_Pending else s) else None)"
| "task_step s (Saw_Cancelled b) = (if b = (s \<noteq> No_Task) then Some No_Task else None)"
| "task_step s (Saw_Claimed b) =
     (if b = (s = Task_Pending) then Some (if b then Task_Firing else s) else None)"
| "task_step s Saw_Finish = Some (if s = Task_Firing then No_Task else s)"
| "task_step s Saw_Requeue = Some (if s = Task_Firing then Task_Pending else s)"

fun task_run :: "task_life \<Rightarrow> task_sight list \<Rightarrow> task_life option" where
  "task_run s [] = Some s"
| "task_run s (x # xs) = (case task_step s x of None \<Rightarrow> None | Some s' \<Rightarrow> task_run s' xs)"

fun see_task :: "store_libs \<Rightarrow> ustr \<times> ustr \<Rightarrow> store_call \<Rightarrow> plugin_db \<Rightarrow> task_sight list" where
  "see_task L k (Do_Create_Schedule task q) db =
     (case snd (create_schedule L task q db) of
        Inl _ \<Rightarrow> []
      | Inr b \<Rightarrow> if (st_instance_id task, st_task_id task) = k then [Saw_Created b] else [])"
| "see_task L k (Do_Cancel_Schedule i t) db =
     (case snd (cancel_schedule i t db) of
        Inl _ \<Rightarrow> []
      | Inr b \<Rightarrow> if (i, t) = k then [Saw_Cancelled b] else [])"
| "see_task L k (Do_Claim_Schedule i t) db =
     (if (i, t) = k then [Saw_Claimed (snd (claim_schedule i t db))] else [])"
| "see_task L k (Do_Finish_Schedule i t) db = (if (i, t) = k then [Saw_Finish] else [])"
| "see_task L k (Do_Requeue_Firing i) db = (if i = fst k then [Saw_Requeue] else [])"
| "see_task L k (Do_Recover_Schedules i) db = (if i = fst k then [Saw_Requeue] else [])"
| "see_task L k _ db = []"

lemma schedule_frames [simp]:
  "db_schedules (fst (store_commit L i v ops cs opts db)) = db_schedules db"
  "db_schedules (fst (replace_state i st db)) = db_schedules db"
  "db_schedules (mark_command i v c st2 res db) = db_schedules db"
  "db_schedules (fst (begin_delivery i env orig now db)) = db_schedules db"
  "db_schedules (reset_health_if_generation i g now db) = db_schedules db"
  "db_schedules (fst (mark_delivery_failed i e did err pol db)) = db_schedules db"
proof -
  show "db_schedules (fst (store_commit L i v ops cs opts db)) = db_schedules db"
    by (cases rule: store_commit_cases [of L i v ops cs opts db])
       (auto dest!: mark_committed_frame queue_commands_frame)
qed (auto simp: replace_state_def mark_command_def begin_delivery_def reset_health_if_generation_def
    mark_delivery_failed_def count_failure_def Let_def split: sum.split option.split prod.split)

lemma see_task_life:
  assumes "db_wf db"
  shows "task_run (task_life_of (hm_get (db_schedules db) k)) (see_task L k c db) =
    Some (task_life_of (hm_get (db_schedules (store_step L c db)) k))"
proof (cases c)
  case (Do_Create_Schedule task q)
  with assms show ?thesis
    by (auto simp: create_schedule_def Let_def hm_contains_def task_life_of_def db_wf_def hm_simps
        split: option.splits schedule_status.splits)
next
  case (Do_Cancel_Schedule i t)
  with assms show ?thesis
    by (auto simp: cancel_schedule_def hm_contains_def task_life_of_def db_wf_def hm_simps
        split: option.splits schedule_status.splits)
next
  case (Do_Claim_Schedule i t)
  with assms show ?thesis
    by (auto simp: claim_schedule_def Let_def task_life_of_def db_wf_def hm_simps
        split: option.splits schedule_status.splits)
next
  case (Do_Finish_Schedule i t)
  with assms show ?thesis
    by (auto simp: finish_schedule_def Let_def task_life_of_def db_wf_def hm_simps
        split: option.splits schedule_status.splits)
next
  case (Do_Requeue_Firing i)
  then show ?thesis
    by (cases "hm_get (db_schedules db) k"; cases k)
       (auto simp: requeue_firing_schedules_def task_life_of_def sql_update_get split: schedule_status.splits)
next
  case (Do_Recover_Schedules i)
  then show ?thesis
    by (cases "hm_get (db_schedules db) k"; cases k)
       (auto simp: recover_schedules_def requeue_firing_schedules_def Let_def task_life_of_def sql_update_get
        split: schedule_status.splits)
qed (auto simp: mark_delivery_succeeded_def finalize_committed_deliveries_def finalize_committed_delivery_def
    enqueue_delivery_def requeue_running_deliveries_def recover_dead_letters_def upsert_installation_def
    write_installation_def set_installation_enabled_def remove_installation_def
    remove_installation_if_updated_def Let_def split: option.splits)

lemma task_run_append:
  "task_run s (xs @ ys) = (case task_run s xs of None \<Rightarrow> None | Some s' \<Rightarrow> task_run s' ys)"
  by (induction xs arbitrary: s) (simp_all split: option.split)

lemma schedule_lifecycle_from:
  "db_wf db \<Longrightarrow> task_run (task_life_of (hm_get (db_schedules db) k)) (store_trace (see_task L k) L cs db) =
     Some (task_life_of (hm_get (db_schedules (store_run L cs db)) k))"
  by (induction cs arbitrary: db) (simp_all add: task_run_append see_task_life store_step_wf)

definition task_count :: "ustr \<Rightarrow> plugin_db \<Rightarrow> nat" where
  "task_count i db = length (schedules_of i (db_schedules db))"

definition key_count :: "ustr \<Rightarrow> (ustr \<times> ustr) list \<Rightarrow> nat" where
  "key_count i ks = length (filter (\<lambda>k. fst k = i) ks)"

lemma task_count_keys: "task_count i db = key_count i (map fst (db_schedules db))"
  by (simp add: task_count_def schedules_of_def key_count_def filter_map comp_def)

lemma key_count_removeAll: "key_count i ks \<le> n \<Longrightarrow> key_count i (removeAll k ks) \<le> n"
proof -
  have "key_count i (removeAll k ks) \<le> key_count i ks" by (induction ks) (auto simp: key_count_def)
  then show "key_count i ks \<le> n \<Longrightarrow> key_count i (removeAll k ks) \<le> n" by simp
qed

lemma put_present_keys: "hm_get m k = Some w \<Longrightarrow> map fst (hm_put k v m) = map fst m"
  by (simp add: hm_put_def hm_get_def update_keys) (metis map_of_SomeD fst_conv image_eqI)

lemma task_count_step:
  assumes "task_count i db \<le> max_scheduled_tasks"
  shows "task_count i (store_step L c db) \<le> max_scheduled_tasks"
proof (cases c)
  case (Do_Create_Schedule task q)
  have "schedules_of i (hm_put (st_instance_id task, st_task_id task) row t) = schedules_of i t"
    if "i \<noteq> st_instance_id task" for row t
    using that by (induction t) (auto simp: hm_put_def schedules_of_def)
  with Do_Create_Schedule assms show ?thesis
    by (cases "i = st_instance_id task")
       (auto simp: create_schedule_def task_count_def Let_def split: option.splits)
qed (use assms in \<open>auto simp: task_count_keys cancel_schedule_def claim_schedule_def finish_schedule_def
    requeue_firing_schedules_def recover_schedules_def put_present_keys hm_del_def delete_keys
    mark_delivery_succeeded_def finalize_committed_deliveries_def finalize_committed_delivery_def
    enqueue_delivery_def requeue_running_deliveries_def recover_dead_letters_def upsert_installation_def
    write_installation_def set_installation_enabled_def remove_installation_def
    remove_installation_if_updated_def Let_def split: option.splits
    intro: key_count_removeAll\<close>)

text \<open>[C13] In every history of calls, what the calls answer about one scheduled task is a run of the task automaton,
  and the stored row is its state: a task can be claimed, that is fired, only while it is pending, so at most
  once between its creation and its requeueing after a restart; it disappears exactly when it is cancelled or
  finished while firing; a name that is taken cannot be scheduled again. And no instance ever has more than
  1024 tasks.\<close>

theorem schedule_lifecycle:
  "task_run No_Task (store_trace (see_task L (i, t)) L calls empty_db) =
     Some (task_life_of (hm_get (db_schedules (store_run L calls empty_db)) (i, t))) \<and>
   task_count i (store_run L calls empty_db) \<le> max_scheduled_tasks"
proof -
  have "task_count i empty_db \<le> max_scheduled_tasks"
    by (simp add: task_count_def schedules_of_def empty_db_def)
  then have "task_count i (store_run L calls empty_db) \<le> max_scheduled_tasks"
    by (rule store_run_invariant [where I = "\<lambda>db. task_count i db \<le> max_scheduled_tasks", rotated])
       (rule task_count_step)
  then show ?thesis
    using schedule_lifecycle_from [OF empty_db_wf, of "(i, t)" L calls]
    by (simp add: empty_db_def task_life_of_def hm_simps)
qed

section \<open>Installations\<close>

text \<open>Calls that replace or remove the installation of an instance without comparing its time of update.\<close>

definition replaces :: "ustr \<Rightarrow> store_call \<Rightarrow> bool" where
  "replaces i c =
     (case c of
        Do_Upsert n \<Rightarrow> in_instance_id n = i
      | Do_Remove j \<Rightarrow> j = i
      | Do_Remove_If j t \<Rightarrow> j = i
      | _ \<Rightarrow> False)"

lemma installation_frames [simp]:
  "db_installations (fst (store_commit L i v ops cs opts db)) = db_installations db"
  "db_installations (fst (replace_state i st db)) = db_installations db"
  "db_installations (mark_command i v c st2 res db) = db_installations db"
  "db_installations (fst (begin_delivery i env orig now db)) = db_installations db"
  "db_installations (reset_health_if_generation i g now db) = db_installations db"
  "db_installations (fst (mark_delivery_failed i e did err pol db)) = db_installations db"
proof -
  show "db_installations (fst (store_commit L i v ops cs opts db)) = db_installations db"
    by (cases rule: store_commit_cases [of L i v ops cs opts db])
       (auto dest!: mark_committed_frame queue_commands_frame)
qed (auto simp: replace_state_def mark_command_def begin_delivery_def reset_health_if_generation_def
    mark_delivery_failed_def count_failure_def Let_def split: sum.split option.split prod.split)

text \<open>The installation is still the one that was read, or a later one.\<close>

definition same_or_later :: "ustr \<Rightarrow> installation \<Rightarrow> plugin_db \<Rightarrow> bool" where
  "same_or_later i n db \<longleftrightarrow>
     (case installation_of i db of
        None \<Rightarrow> False
      | Some cur \<Rightarrow> cur = n \<or> in_updated_at_ms n < in_updated_at_ms cur)"

lemma same_or_later_step:
  assumes "db_wf db" "in_updated_at_ms n < store_i64_max" "\<not> replaces i c" "same_or_later i n db"
  shows "same_or_later i n (store_step L c db)"
proof (cases c)
  case (Do_Write m t)
  with assms show ?thesis
    by (auto simp: write_installation_def Let_def same_or_later_def installation_of_def db_wf_def hm_simps
        split: option.splits)
next
  case (Do_Set_Enabled j b now)
  with assms show ?thesis
    by (auto simp: set_installation_enabled_def Let_def same_or_later_def installation_of_def db_wf_def hm_simps
        split: option.splits)
next
  case (Do_Upsert m)
  with assms show ?thesis
    by (auto simp: upsert_installation_def Let_def replaces_def same_or_later_def installation_of_def db_wf_def
        hm_simps split: option.splits)
next
  case (Do_Remove j)
  with assms show ?thesis
    by (auto simp: remove_installation_def replaces_def same_or_later_def installation_of_def db_wf_def hm_simps)
next
  case (Do_Remove_If j t)
  with assms show ?thesis
    by (auto simp: remove_installation_if_updated_def replaces_def same_or_later_def installation_of_def
        db_wf_def hm_simps split: option.splits)
qed (use assms(4) in \<open>auto simp: same_or_later_def installation_of_def mark_delivery_succeeded_def
    finalize_committed_deliveries_def finalize_committed_delivery_def enqueue_delivery_def
    requeue_running_deliveries_def recover_dead_letters_def create_schedule_def cancel_schedule_def
    requeue_firing_schedules_def recover_schedules_def claim_schedule_def finish_schedule_def Let_def
    split: option.splits\<close>)

lemma same_or_later_run:
  "db_wf db \<Longrightarrow> in_updated_at_ms n < store_i64_max \<Longrightarrow> \<not> list_ex (replaces i) cs \<Longrightarrow> same_or_later i n db \<Longrightarrow>
   same_or_later i n (store_run L cs db)"
  by (induction cs arbitrary: db) (simp_all add: same_or_later_step store_step_wf)

text \<open>Optimistic writes of an installation lose no update: if a writer reads the installation of an instance
  and, after any calls that neither replace it wholesale nor remove it, writes a new version expecting the time
  of update that it has read, then the write succeeds only if the installation is still the one that was read.
  Every other write in between, enabling or disabling included, makes it fail, although clocks may stand still
  or go back.\<close>

theorem installation_update_not_lost:
  assumes "installation_of i (store_run L before empty_db) = Some n"
    and "db = store_run L after (store_run L before empty_db)"
    and "\<not> list_ex (replaces i) after"
    and "in_instance_id m = i" "in_updated_at_ms m \<le> store_i64_max"
    and "write_installation m (Some (in_updated_at_ms n)) db = (db', Inr ())"
  shows "installation_of i db = Some n \<and> installation_of i db' = Some m"
proof -
  let ?db0 = "store_run L before empty_db"
  have wf: "db_wf ?db0" by (simp add: store_run_wf empty_db_wf)
  then have wf': "db_wf db" by (simp add: assms(2) store_run_wf)
  obtain cur where cur: "installation_of i db = Some cur" "in_updated_at_ms cur = in_updated_at_ms n"
    "in_updated_at_ms n < in_updated_at_ms m"
    and db': "db' = db\<lparr>db_installations := hm_put i m (db_installations db)\<rparr>"
    using assms(4,6)
    by (auto simp: write_installation_def Let_def installation_of_def split: option.splits if_splits)
  have "same_or_later i n ?db0" by (simp add: same_or_later_def assms(1))
  with same_or_later_run [OF wf _ assms(3)] cur(3) assms(5) have "same_or_later i n db"
    by (simp add: assms(2))
  with cur have "cur = n" by (simp add: same_or_later_def)
  with cur(1) db' wf' show ?thesis by (simp add: installation_of_def db_wf_def hm_simps)
qed

definition demo_installation :: "int \<Rightarrow> installation" where
  "demo_installation t = \<lparr>in_plugin_id = lit ''p'', in_metadata = \<lparr>md_default_locale = lit ''en'', md_locales = []\<rparr>,
     in_instance_id = lit ''i'', in_version = lit ''1'', in_package_path = [], in_package_sha256 = [],
     in_source = [], in_trust_level = [], in_signature_status = [], in_requested_permissions = [],
     in_granted_permissions = [], in_config = [], in_admins_explicit = True, in_enabled = True,
     in_installed_at_ms = 1, in_updated_at_ms = t\<rparr>"

lemma installation_update_not_lost_witness:
  "let db = store_run demo_store_libs [Do_Requeue (lit ''i'') 4] (store_run demo_store_libs [Do_Write (demo_installation 3) None] empty_db);
      db' = fst (write_installation (demo_installation 7) (Some 3) db)
   in installation_of (lit ''i'') db = Some (demo_installation 3) \<and>
      installation_of (lit ''i'') db' = Some (demo_installation 7)"
proof -
  let ?start = "store_run demo_store_libs [Do_Write (demo_installation 3) None] empty_db"
  let ?db = "store_run demo_store_libs [Do_Requeue (lit ''i'') 4] ?start"
  have 1: "installation_of (lit ''i'') ?start = Some (demo_installation 3)" by code_simp
  have 3: "\<not> list_ex (replaces (lit ''i'')) [Do_Requeue (lit ''i'') 4]" by (simp add: replaces_def)
  have 4: "in_instance_id (demo_installation 7) = lit ''i''" "in_updated_at_ms (demo_installation 7) \<le> store_i64_max"
    by (simp_all add: demo_installation_def store_i64_max_def)
  have t: "in_updated_at_ms (demo_installation 3) = 3" by (simp add: demo_installation_def)
  have "snd (write_installation (demo_installation 7) (Some 3) ?db) = Inr ()" by code_simp
  then have w: "write_installation (demo_installation 7) (Some (in_updated_at_ms (demo_installation 3))) ?db =
      (fst (write_installation (demo_installation 7) (Some 3) ?db), Inr ())"
    unfolding t by (metis prod.collapse)
  from installation_update_not_lost [OF 1 refl 3 4 w] show ?thesis by (simp add: Let_def)
qed

end
