(* ===== verification/PluginOutput.thy ===== *)
theory PluginOutput
  imports PluginTypes PluginManifest BotModel
begin

text \<open>
  The policies of the plugin host on what goes in and out of a plugin (\<open>crates/plugin-host/src/runtime/validation.rs\<close>,
  with the registered plugin and its subscriptions from \<open>runtime/mod.rs\<close>): extensions of events with redacted
  fields, references of configuration schemas, names of an upgraded plugin, and the validation of an output.
  Encoding a value as JSON is a parameter.
\<close>

section \<open>Registered plugins\<close>

datatype platform_query = Qq_Guild_Api_Permission_List

fun action_name :: "platform_query \<Rightarrow> ustr" where
  "action_name Qq_Guild_Api_Permission_List = lit ''qq.guild.api-permission.list''"

fun query_platform :: "platform_query \<Rightarrow> ustr" where
  "query_platform Qq_Guild_Api_Permission_List = lit ''qq.official''"

record registered_plugin =
  rp_manifest :: plugin_manifest
  rp_instance_id :: ustr
  rp_granted :: "ustr set"
  rp_queries :: "platform_query list"

datatype output_problem =
    Ignore_With_Effects
  | Stop_Not_Granted
  | Too_Many_State_Ops
  | Storage_Not_Granted
  | Too_Many_Commands
  | Unsupported_Kind ustr
  | Bad_Command_Id ustr
  | Capability_Not_Granted ustr
  | Bad_Deadline ustr
  | Output_Encoding
  | Output_Too_Large
  | No_Schedule_Subscription

definition max_output_bytes :: nat where "max_output_bytes = 1024 * 1024"
definition max_commands :: nat where "max_commands = 32"
definition max_state_ops :: nat where "max_state_ops = 128"
definition max_command_deadline_ms :: nat where "max_command_deadline_ms = 30000"
definition max_event_extension_bytes :: nat where "max_event_extension_bytes = 256 * 1024"
definition max_state_scan_entries :: nat where "max_state_scan_entries = 1024"

section \<open>Events and subscriptions\<close>

fun event_type_of :: "'j event \<Rightarrow> ustr" where
  "event_type_of (Event_Message m) = lit ''message.created''"
| "event_type_of (Event_Notice j) = lit ''notice.received''"
| "event_type_of (Event_Request j) = lit ''request.received''"
| "event_type_of (Event_Lifecycle j) = lit ''lifecycle.changed''"
| "event_type_of (Event_Platform n j) = lit ''platform.event''"

fun scope_text :: "message_scope \<Rightarrow> ustr" where
  "scope_text Scope_Group = lit ''group''"
| "scope_text Scope_Private = lit ''private''"
| "scope_text Scope_Channel = lit ''channel''"

definition event_scope :: "'j event \<Rightarrow> ustr option" where
  "event_scope e =
     (case e of Event_Message m \<Rightarrow> Some (scope_text (message_scope_of m)) | _ \<Rightarrow> None)"

definition subscribes :: "ustr \<Rightarrow> ustr option \<Rightarrow> subscription \<Rightarrow> bool" where
  "subscribes ty scope s \<longleftrightarrow>
     sub_event s = ty \<and>
     (sub_scopes s = [] \<or> (case scope of None \<Rightarrow> False | Some sc \<Rightarrow> sc \<in> set (sub_scopes s)))"

definition priority_for :: "plugin_manifest \<Rightarrow> ustr \<Rightarrow> ustr option \<Rightarrow> int option" where
  "priority_for m ty scope =
     (case map sub_priority (filter (subscribes ty scope) (mf_subscriptions m)) of
        [] \<Rightarrow> None
      | p # ps \<Rightarrow> Some (fold min ps p))"

definition state_scan :: "(ustr, state_value) btmap \<Rightarrow> ustr \<Rightarrow> nat \<Rightarrow> (ustr \<times> state_value) list" where
  "state_scan state pre limit =
     take (min limit max_state_scan_entries) (filter (\<lambda>p. starts_with pre (fst p)) state)"

fun target_partition_key :: "message_target \<Rightarrow> ustr" where
  "target_partition_key (Target_Group i) = lit ''group:'' @ i"
| "target_partition_key (Target_Private i) = lit ''private:'' @ i"
| "target_partition_key (Target_Channel i) = lit ''channel:'' @ i"
| "target_partition_key (Target_GuildDirect i) = lit ''guild-direct:'' @ i"

definition event_partition_key :: "'j event \<Rightarrow> ustr \<Rightarrow> ustr" where
  "event_partition_key e fallback =
     (case e of Event_Message m \<Rightarrow> target_partition_key (target m) | _ \<Rightarrow> lit ''event:'' @ fallback)"

section \<open>Redaction\<close>

definition sensitive_names :: "ustr list" where
  "sensitive_names = map lit [''accesstoken'', ''apikey'', ''authorization'', ''bottoken'', ''clientsecret'',
     ''cookie'', ''password'', ''secret'', ''setcookie'', ''signature'', ''token'', ''xapikey'']"

definition is_sensitive_field :: "ustr \<Rightarrow> bool" where
  "is_sensitive_field key \<longleftrightarrow>
     to_ascii_lowercase (filter is_ascii_alphanumeric key) \<in> set sensitive_names"

definition redacted :: json where
  "redacted = J_String (lit ''[REDACTED]'')"

fun redact_sensitive_fields :: "json \<Rightarrow> json" where
  "redact_sensitive_fields (J_Object fs) =
     J_Object (map (\<lambda>(k, v). (k, if is_sensitive_field k then redacted else redact_sensitive_fields v)) fs)"
| "redact_sensitive_fields (J_Array values) = J_Array (map redact_sensitive_fields values)"
| "redact_sensitive_fields v = v"

datatype extension_error = XE_Encoding ustr | XE_Too_Large ustr nat

definition raw_namespace :: "ustr \<Rightarrow> ustr" where
  "raw_namespace platform = platform @ lit ''.raw''"

definition event_extensions ::
    "(json \<Rightarrow> 8 word list option) \<Rightarrow> registered_plugin \<Rightarrow> json event_context \<Rightarrow>
     extension_error + extension_payload list" where
  "event_extensions enc p c =
     (let ns = raw_namespace (ctx_platform c)
      in if ns \<notin> set (pp_event_extensions (mf_permissions (rp_manifest p))) \<or>
            lit ''event.extension.'' @ ns \<notin> rp_granted p
         then Inr []
         else
           (case enc (redact_sensitive_fields (ctx_raw_event c)) of
              None \<Rightarrow> Inl (XE_Encoding ns)
            | Some data \<Rightarrow>
                if length data > max_event_extension_bytes then Inl (XE_Too_Large ns (length data))
                else Inr [\<lparr>xp_namespace = ns, xp_schema_version = lit ''1.0'',
                           xp_content_type = lit ''application/json'', xp_data = data\<rparr>]))"

section \<open>Configuration schemas\<close>

definition reference_keywords :: "ustr list" where
  "reference_keywords = map lit [''$ref'', ''$dynamicRef'', ''$recursiveRef'']"

text \<open>The first keyword of an object whose text is not a reference into the same document.\<close>

definition outside_reference :: "(ustr \<times> json) list \<Rightarrow> ustr option" where
  "outside_reference fs =
     (case List.find (\<lambda>k. case map_of fs k of Some (J_String r) \<Rightarrow> \<not> starts_with [35] r | _ \<Rightarrow> False)
        reference_keywords of
        None \<Rightarrow> None
      | Some k \<Rightarrow> (case map_of fs k of Some (J_String r) \<Rightarrow> Some r | _ \<Rightarrow> None))"

fun json_size :: "json \<Rightarrow> nat" where
  "json_size (J_Object fs) = Suc (sum_list (map (\<lambda>p. json_size (snd p)) fs))"
| "json_size (J_Array values) = Suc (sum_list (map json_size values))"
| "json_size v = 1"

lemma json_size_pos: "0 < json_size v"
  by (cases v) simp_all

text \<open>The loop over the stack \<open>pending\<close>, whose top is the end of the list in the code and the head here.\<close>

function scan_references :: "json list \<Rightarrow> ustr option" where
  "scan_references [] = None"
| "scan_references (v # pending) =
     (case v of
        J_Object fs \<Rightarrow>
          (case outside_reference fs of
             Some r \<Rightarrow> Some r
           | None \<Rightarrow> scan_references (rev (map snd fs) @ pending))
      | J_Array values \<Rightarrow> scan_references (rev values @ pending)
      | _ \<Rightarrow> scan_references pending)"
  by pat_completeness auto

termination
  by (relation "measure (\<lambda>vs. sum_list (map json_size vs))")
     (simp_all add: json_size_pos rev_map [symmetric] comp_def sum_list_rev)

definition external_schema_reference :: "json \<Rightarrow> ustr option" where
  "external_schema_reference schema = scan_references [schema]"

section \<open>Names of commands\<close>

definition command_names_of :: "plugin_manifest \<Rightarrow> ustr list" where
  "command_names_of m = concat (map (\<lambda>c. cd_name c # cd_aliases c) (mf_commands m))"

definition validate_upgrade_commands :: "registered_plugin list \<Rightarrow> nat \<Rightarrow> plugin_manifest \<Rightarrow> ustr option" where
  "validate_upgrade_commands plugins replaced m =
     (let existing = concat (map (\<lambda>i. if i = replaced then [] else command_names_of (rp_manifest (plugins ! i)))
        [0..<length plugins])
      in List.find (\<lambda>n. n \<in> set existing) (command_names_of m))"

section \<open>Outputs\<close>

definition baseline_kinds :: "ustr list" where
  "baseline_kinds = map lit [''message.reply'', ''message.send'', ''media.reply'', ''media.send'', ''http.request'',
     ''browser.run'', ''schedule.create'', ''schedule.cancel'']"

definition trusted_kind :: "registered_plugin \<Rightarrow> ustr \<Rightarrow> bool" where
  "trusted_kind p kind \<longleftrightarrow> list_ex (\<lambda>q. action_name q = kind) (rp_queries p)"

fun check_commands :: "registered_plugin \<Rightarrow> ustr list \<Rightarrow> plugin_command list \<Rightarrow> output_problem option" where
  "check_commands p seen [] = None"
| "check_commands p seen (c # cs) =
     (if pc_kind c \<notin> set baseline_kinds \<and> \<not> trusted_kind p (pc_kind c) then Some (Unsupported_Kind (pc_kind c))
      else if pc_command_id c = [] \<or> blen (pc_command_id c) > 128 \<or> pc_command_id c \<in> set seen
      then Some (Bad_Command_Id (pc_command_id c))
      else if \<not> trusted_kind p (pc_kind c) \<and> pc_kind c \<notin> rp_granted p
      then Some (Capability_Not_Granted (pc_kind c))
      else if (case pc_deadline_ms c of None \<Rightarrow> False | Some d \<Rightarrow> d = 0 \<or> d > max_command_deadline_ms)
      then Some (Bad_Deadline (pc_command_id c))
      else check_commands p (pc_command_id c # seen) cs)"

definition validate_output ::
    "(handler_output \<Rightarrow> 8 word list option) \<Rightarrow> registered_plugin \<Rightarrow> handler_output \<Rightarrow> output_problem option" where
  "validate_output enc p out =
     (if ho_disposition out = Ignore \<and> (ho_state_ops out \<noteq> [] \<or> ho_commands out \<noteq> []) then Some Ignore_With_Effects
      else if ho_disposition out = Stop \<and> lit ''event.stop_propagation'' \<notin> rp_granted p then Some Stop_Not_Granted
      else if length (ho_state_ops out) > max_state_ops then Some Too_Many_State_Ops
      else if ho_state_ops out \<noteq> [] \<and> lit ''storage.private'' \<notin> rp_granted p then Some Storage_Not_Granted
      else if length (ho_commands out) > max_commands then Some Too_Many_Commands
      else
        (case check_commands p [] (ho_commands out) of
           Some e \<Rightarrow> Some e
         | None \<Rightarrow>
             (case enc out of
                None \<Rightarrow> Some Output_Encoding
              | Some data \<Rightarrow> if length data > max_output_bytes then Some Output_Too_Large else None)))"

section \<open>What redaction leaves\<close>

text \<open>No field with a sensitive name, at any depth, has a value other than the redaction mark.\<close>

fun json_clean :: "json \<Rightarrow> bool" where
  "json_clean (J_Object fs) =
     list_all (\<lambda>p. if is_sensitive_field (fst p) then snd p = redacted else json_clean (snd p)) fs"
| "json_clean (J_Array values) = list_all json_clean values"
| "json_clean v = True"

text \<open>A value without what its sensitive fields hold.\<close>

fun public_part :: "json \<Rightarrow> json" where
  "public_part (J_Object fs) = J_Object (map (\<lambda>(k, v). (k, if is_sensitive_field k then J_Null else public_part v)) fs)"
| "public_part (J_Array values) = J_Array (map public_part values)"
| "public_part v = v"

lemma redact_clean: "json_clean (redact_sensitive_fields v)"
  by (induction v rule: redact_sensitive_fields.induct) (auto simp: list_all_iff)

lemma clean_redact: "json_clean v \<Longrightarrow> redact_sensitive_fields v = v"
  by (induction v rule: redact_sensitive_fields.induct)
     (auto simp: list_all_iff intro!: map_idI split: if_splits)

lemma redact_public: "public_part (redact_sensitive_fields v) = public_part v"
  by (induction v rule: redact_sensitive_fields.induct) (auto simp: comp_def split_beta)

lemma public_redact: "redact_sensitive_fields v = redact_sensitive_fields w" if "public_part v = public_part w"
  using that
proof (induction v arbitrary: w rule: redact_sensitive_fields.induct)
  case (1 fs)
  then obtain gs where w: "w = J_Object gs" by (cases w) auto
  with "1.prems" have len: "length fs = length gs" by (auto dest: map_eq_imp_length_eq)
  have "(\<lambda>(k, v). (k, if is_sensitive_field k then redacted else redact_sensitive_fields v)) (fs ! n) =
        (\<lambda>(k, v). (k, if is_sensitive_field k then redacted else redact_sensitive_fields v)) (gs ! n)"
    if n: "n < length fs" for n
  proof -
    obtain k v where f: "fs ! n = (k, v)" by (cases "fs ! n")
    obtain k' v' where g: "gs ! n = (k', v')" by (cases "gs ! n")
    have "(k, if is_sensitive_field k then J_Null else public_part v) =
        (k', if is_sensitive_field k' then J_Null else public_part v')"
    proof -
      let ?f = "\<lambda>(k, v). (k, if is_sensitive_field k then J_Null else public_part v)"
      have "map ?f fs = map ?f gs" using "1.prems" w by simp
      then have "map ?f fs ! n = map ?f gs ! n" by (rule arg_cong)
      then have "?f (fs ! n) = ?f (gs ! n)" using n len by simp
      then show ?thesis unfolding f g by (simp only: prod.case)
    qed
    moreover have "(k, v) \<in> set fs" using n f by (metis nth_mem)
    ultimately show ?thesis
    proof (cases "is_sensitive_field k")
      case False
      assume mem: "(k, v) \<in> set fs"
        and eq: "(k, if is_sensitive_field k then J_Null else public_part v) =
          (k', if is_sensitive_field k' then J_Null else public_part v')"
      from eq False have "k' = k" "public_part v = public_part v'" by auto
      with "1.IH" [OF mem refl False] f g show ?thesis by simp
    qed (simp add: f g)
  qed
  with len w show ?case by (simp add: list_eq_iff_nth_eq)
next
  case (2 vs)
  then obtain ws where w: "w = J_Array ws" by (cases w) auto
  with "2.prems" have "map public_part vs = map public_part ws" by simp
  with "2.IH" w show ?case by (auto simp: list_eq_iff_nth_eq)
next
  case "3_1" then show ?case by (cases w) auto
next
  case "3_2" then show ?case by (cases w) auto
next
  case "3_3" then show ?case by (cases w) auto
next
  case "3_4" then show ?case by (cases w) auto
qed

text \<open>What a plugin sees of a raw event tells nothing of its secrets and everything else: every field whose
  name, stripped of punctuation and case, is on the list of sensitive names holds the redaction mark, at any
  depth of objects and arrays; two events that differ only below such names are redacted to the same value; and
  outside of them the event is unchanged.\<close>

theorem redaction_exact:
  "json_clean (redact_sensitive_fields v) \<and> public_part (redact_sensitive_fields v) = public_part v \<and>
   (redact_sensitive_fields v = redact_sensitive_fields w) = (public_part v = public_part w)"
proof -
  have "public_part v = public_part w" if "redact_sensitive_fields v = redact_sensitive_fields w"
    using redact_public [of v] redact_public [of w] that by simp
  then show ?thesis using redact_clean redact_public public_redact by blast
qed

section \<open>Every reference of a schema\<close>

text \<open>The values inside a value, itself included.\<close>

fun json_parts :: "json \<Rightarrow> json list" where
  "json_parts (J_Object fs) = J_Object fs # concat (map (\<lambda>p. json_parts (snd p)) fs)"
| "json_parts (J_Array values) = J_Array values # concat (map json_parts values)"
| "json_parts v = [v]"

fun part_reference :: "json \<Rightarrow> ustr option" where
  "part_reference (J_Object fs) = outside_reference fs"
| "part_reference _ = None"

lemma scan_references_parts:
  "(scan_references vs = None) = list_all (\<lambda>v. part_reference v = None) (concat (map json_parts vs)) \<and>
   (case scan_references vs of None \<Rightarrow> True
      | Some r \<Rightarrow> list_ex (\<lambda>v. part_reference v = Some r) (concat (map json_parts vs)))"
proof (induction vs rule: scan_references.induct)
  case (2 v pending)
  then show ?case
    by (cases v) (auto simp: list_all_iff list_ex_iff rev_map split: option.splits)
qed simp

text \<open>The search for references of a configuration schema to other documents ends on every schema and misses
  none: it finds nothing exactly when no object, at any depth, has a textual reference keyword that does not
  point into the same document, and what it finds is such a reference.\<close>

theorem external_references_found:
  "(external_schema_reference schema = None) = list_all (\<lambda>v. part_reference v = None) (json_parts schema) \<and>
   (case external_schema_reference schema of None \<Rightarrow> True
      | Some r \<Rightarrow> list_ex (\<lambda>v. part_reference v = Some r) (json_parts schema))"
proof -
  have parts: "concat (map json_parts [schema]) = json_parts schema" by simp
  show ?thesis
    using scan_references_parts [of "[schema]"] unfolding parts external_schema_reference_def .
qed

section \<open>Valid outputs\<close>

text \<open>A single command that a plugin may issue.\<close>

definition command_allowed :: "registered_plugin \<Rightarrow> plugin_command \<Rightarrow> bool" where
  "command_allowed p c \<longleftrightarrow>
     (trusted_kind p (pc_kind c) \<or> pc_kind c \<in> set baseline_kinds \<and> pc_kind c \<in> rp_granted p) \<and>
     pc_command_id c \<noteq> [] \<and> blen (pc_command_id c) \<le> 128 \<and>
     (case pc_deadline_ms c of None \<Rightarrow> True | Some d \<Rightarrow> 1 \<le> d \<and> d \<le> max_command_deadline_ms)"

lemma check_commands_None:
  "check_commands p seen cs = None \<longleftrightarrow>
     list_all (command_allowed p) cs \<and> distinct (map pc_command_id cs) \<and>
     set (map pc_command_id cs) \<inter> set seen = {}"
  by (induction cs arbitrary: seen) (auto simp: command_allowed_def split: option.splits)

text \<open>[C14] An output of a plugin is accepted exactly when each of its effects is permitted: an output that ignores
  the event has none; stopping the event, storing state and every command need the capability that the
  administrator granted (or, for a platform query, the trust given to in-process code), with a non-empty
  identifier of at most 128 bytes that no other command of the output has and a deadline of one to thirty
  thousand milliseconds; and the numbers of operations and commands and the encoded size stay within the
  limits.\<close>

theorem accepted_outputs:
  "(validate_output enc p out = None) =
     ((case ho_disposition out of
         Ignore \<Rightarrow> ho_state_ops out = [] \<and> ho_commands out = []
       | Stop \<Rightarrow> lit ''event.stop_propagation'' \<in> rp_granted p
       | Continue \<Rightarrow> True) \<and>
      (if ho_state_ops out = [] then True else lit ''storage.private'' \<in> rp_granted p) \<and>
      length (ho_state_ops out) \<le> max_state_ops \<and> length (ho_commands out) \<le> max_commands \<and>
      list_all (command_allowed p) (ho_commands out) \<and> distinct (map pc_command_id (ho_commands out)) \<and>
      (case enc out of None \<Rightarrow> False | Some data \<Rightarrow> length data \<le> max_output_bytes))"
  using check_commands_None [of p "[]" "ho_commands out"]
  by (cases "check_commands p [] (ho_commands out)"; cases "enc out")
     (auto simp: validate_output_def simp del: lit_Cons split: disposition.splits)

end
