(* ===== verification/PluginCommands.thy ===== *)
theory PluginCommands
  imports PluginOutput PluginStore HttpExec Assets
begin

text \<open>
  The commands of plugins (\<open>crates/plugin-host/src/runtime/command.rs\<close> and \<open>browser.rs\<close>): where a command goes
  and what it does to the assets of its instance, the checks of a browser task, and the errors and completions
  that a plugin sees. Adapters and the HTTP and browser executors act on the world \<open>'w\<close>; JSON decoders are
  parameters, with the text of their error. While an executor is awaited other tasks may act on the asset
  store, as \<open>cl_others\<close> says.
\<close>

section \<open>Browser tasks\<close>

datatype browser_wait_until = Wait_Load | Wait_Dom_Content_Loaded | Wait_Network_Idle
datatype browser_screenshot_format = Format_Png | Format_Jpeg
datatype browser_color_scheme = Scheme_Light | Scheme_Dark | Scheme_No_Preference

record browser_viewport =
  vp_width :: u32
  vp_height :: u32
  vp_device_scale_factor :: "8 word"

datatype browser_step =
    Navigate ustr browser_wait_until u64
  | Click ustr u64
  | Fill ustr ustr u64
  | Wait_For ustr u64
  | Wait_For_Idle u64
  | Wait_Step u64
  | Extract_Text ustr u64
  | Screenshot "ustr option" bool browser_screenshot_format "8 word option"

record browser_run =
  br_steps :: "browser_step list"
  br_viewport :: browser_viewport
  br_user_agent :: "ustr option"
  br_locale :: "ustr option"
  br_timezone :: "ustr option"
  br_color_scheme :: "browser_color_scheme option"
  br_extra_headers :: "(ustr, ustr) btmap"

record browser_artifact =
  ba_mime_type :: ustr
  ba_data :: bytes

record browser_execution =
  bx_final_url :: ustr
  bx_title :: ustr
  bx_extracted_text :: "ustr list"
  bx_artifacts :: "browser_artifact list"

datatype browser_error =
    BE_Unavailable ustr
  | BE_Denied ustr
  | BE_Invalid ustr
  | BE_Exhausted ustr
  | BE_Worker ustr

definition new_artifact :: "ustr \<Rightarrow> bytes \<Rightarrow> browser_error + browser_artifact" where
  "new_artifact mime data =
     (let signature =
        (if mime = lit ''image/png'' then bytes_start png_magic data
         else if mime = lit ''image/jpeg'' then bytes_start [0xFF, 0xD8, 0xFF] data
         else False)
      in if data = [] \<or> \<not> signature then Inl (BE_Invalid (lit ''browser artifact is not a supported image''))
         else if length data > 8 * 1024 * 1024
         then Inl (BE_Exhausted (lit ''browser artifact exceeds the 8 MiB limit''))
         else Inr \<lparr>ba_mime_type = mime, ba_data = data\<rparr>)"

definition new_execution ::
    "ustr \<Rightarrow> ustr \<Rightarrow> ustr list \<Rightarrow> browser_artifact list \<Rightarrow> browser_error + browser_execution" where
  "new_execution url title texts artifacts =
     (if blen url > 2048 \<or> blen title > 64 * 1024 \<or> length texts > 32 \<or> length artifacts > 32
      then Inl (BE_Exhausted (lit ''browser result exceeds Host count or field limits''))
      else if fold (\<lambda>t n. usize_sat_add n (blen t)) texts 0 > 1024 * 1024 \<or>
              fold (\<lambda>a n. usize_sat_add n (length (ba_data a))) artifacts 0 > 32 * 1024 * 1024
      then Inl (BE_Exhausted (lit ''browser result exceeds Host count or byte limits''))
      else Inr \<lparr>bx_final_url = url, bx_title = title, bx_extracted_text = texts, bx_artifacts = artifacts\<rparr>)"

section \<open>Checks of a browser task\<close>

text \<open>What the accessors of \<open>url::Url\<close> return, with \<open>host_str\<close> and \<open>port_or_known_default\<close>.\<close>

record browser_url =
  bu_scheme :: ustr
  bu_username :: ustr
  bu_password :: "ustr option"
  bu_host :: "ustr option"
  bu_port :: "u16 option"
  bu_path :: ustr

record browser_libs =
  bl_parse :: "ustr \<Rightarrow> browser_url option"
  bl_header_name :: "ustr \<Rightarrow> bool"
  bl_header_value :: "ustr \<Rightarrow> bool"

definition browser_origin_capability :: "browser_url \<Rightarrow> ustr \<Rightarrow> u16 \<Rightarrow> ustr \<Rightarrow> ustr" where
  "browser_origin_capability u host port operation =
     lit ''browser.origin.'' @ bu_scheme u @ lit ''.'' @ host @ lit '':'' @ decimal (unat port) @ lit ''.'' @ operation"

definition browser_permits :: "browser_permission \<Rightarrow> browser_url \<Rightarrow> ustr \<Rightarrow> u16 \<Rightarrow> ustr \<Rightarrow> bool" where
  "browser_permits b u host port operation \<longleftrightarrow>
     bp_scheme b = bu_scheme u \<and> bp_host b = host \<and> bp_port b = port \<and> operation \<in> set (bp_capabilities b) \<and>
     list_ex (url_path_matches_prefix (bu_path u)) (bp_path_prefixes b)"

definition authorize_browser_url ::
    "browser_libs \<Rightarrow> plugin_manifest \<Rightarrow> ustr set \<Rightarrow> ustr \<Rightarrow> ustr \<Rightarrow> plugin_error + unit" where
  "authorize_browser_url B m granted text operation =
     (case bl_parse B text of
        None \<Rightarrow> Inl (Permanent (lit ''browser URL must be absolute''))
      | Some u \<Rightarrow>
          if (bu_scheme u \<noteq> lit ''http'' \<and> bu_scheme u \<noteq> lit ''https'') \<or> bu_username u \<noteq> [] \<or> bu_password u \<noteq> None
          then Inl (PermissionDenied (lit ''browser URL scheme or credentials are not allowed''))
          else
            (case bu_host u of
               None \<Rightarrow> Inl (Permanent (lit ''browser URL is missing a host''))
             | Some host \<Rightarrow>
                 (case bu_port u of
                    None \<Rightarrow> Inl (Permanent (lit ''browser URL is missing a port''))
                  | Some port \<Rightarrow>
                      if list_ex (\<lambda>b. browser_permits b u host port operation) (pp_browser (mf_permissions m)) \<and>
                         browser_origin_capability u host port operation \<in> granted
                      then Inr ()
                      else Inl (PermissionDenied (lit ''browser URL is not granted for '' @ operation)))))"

definition forbidden_headers :: "ustr list" where
  "forbidden_headers = map lit [''authorization'', ''cookie'', ''host'', ''proxy-authorization'']"

fun bad_header :: "browser_libs \<Rightarrow> ustr list \<Rightarrow> (ustr \<times> ustr) list \<Rightarrow> bool" where
  "bad_header B seen [] = False"
| "bad_header B seen ((name, v) # hs) =
     (let n = to_ascii_lowercase name
      in if name = [] \<or> blen name > 128 \<or> blen v > 4096 \<or> \<not> bl_header_name B name \<or> \<not> bl_header_value B v
         then True
         else if n \<in> set seen then True
         else if n \<in> set forbidden_headers then True
         else bad_header B (n # seen) hs)"

datatype step_need = Need "ustr option" "ustr option" "u64 option"

text \<open>The capability, selector and timeout of a step, after the checks of its own fields.\<close>

definition step_needs ::
    "browser_libs \<Rightarrow> plugin_manifest \<Rightarrow> ustr set \<Rightarrow> browser_step \<Rightarrow> plugin_error + step_need" where
  "step_needs B m granted step =
     (case step of
        Navigate url w t \<Rightarrow>
          if blen url > 2048 then Inl (Permanent (lit ''browser URL exceeds the 2048 byte limit''))
          else bind_ok (authorize_browser_url B m granted url (lit ''navigate'')) (\<lambda>_. Inr (Need None None (Some t)))
      | Click sel t \<Rightarrow> Inr (Need (Some (lit ''interact'')) (Some sel) (Some t))
      | Wait_For sel t \<Rightarrow> Inr (Need (Some (lit ''interact'')) (Some sel) (Some t))
      | Fill sel v t \<Rightarrow>
          if blen v > 64 * 1024 then Inl (Permanent (lit ''browser fill value is too large''))
          else Inr (Need (Some (lit ''interact'')) (Some sel) (Some t))
      | Wait_For_Idle t \<Rightarrow> Inr (Need None None (Some t))
      | Wait_Step d \<Rightarrow>
          if d = 0 \<or> d > 10000 then Inl (Permanent (lit ''browser wait must be between 1 and 10000 ms''))
          else Inr (Need None None None)
      | Extract_Text sel t \<Rightarrow> Inr (Need (Some (lit ''extract_text'')) (Some sel) (Some t))
      | Screenshot sel full fmt quality \<Rightarrow>
          if (case quality of None \<Rightarrow> False | Some q \<Rightarrow> q = 0 \<or> q > 100 \<or> fmt = Format_Png)
          then Inl (Permanent (lit ''browser screenshot quality is only valid for JPEG and must be 1..=100''))
          else Inr (Need (Some (lit ''screenshot'')) sel None))"

definition next_url :: "browser_step \<Rightarrow> ustr option \<Rightarrow> ustr option" where
  "next_url step current = (case step of Navigate url w t \<Rightarrow> Some url | _ \<Rightarrow> current)"

definition next_wait :: "browser_step \<Rightarrow> u64 \<Rightarrow> u64" where
  "next_wait step n = (case step of Wait_Step d \<Rightarrow> sat_add n d | _ \<Rightarrow> n)"

fun check_steps ::
    "browser_libs \<Rightarrow> plugin_manifest \<Rightarrow> ustr set \<Rightarrow> ustr option \<Rightarrow> u64 \<Rightarrow> browser_step list \<Rightarrow> plugin_error + u64" where
  "check_steps B m granted current waits [] = Inr waits"
| "check_steps B m granted current waits (step # steps) =
     bind_ok (step_needs B m granted step)
       (\<lambda>need. case need of Need cap_ sel t \<Rightarrow>
          if (case sel of None \<Rightarrow> False | Some s \<Rightarrow> s = [] \<or> blen s > 1024)
          then Inl (Permanent (lit ''browser selector must contain 1 to 1024 bytes''))
          else if (case t of None \<Rightarrow> False | Some ms \<Rightarrow> ms = 0 \<or> ms > 15000)
          then Inl (Permanent (lit ''browser step timeout must be between 1 and 15000 ms''))
          else
            bind_ok
              (case cap_ of
                 None \<Rightarrow> Inr ()
               | Some op \<Rightarrow>
                   (case next_url step current of
                      None \<Rightarrow> Inl (Permanent (lit ''browser interaction requires a preceding navigate step''))
                    | Some url \<Rightarrow> authorize_browser_url B m granted url op))
              (\<lambda>_. check_steps B m granted (next_url step current) (next_wait step waits) steps))"

definition validate_browser_request ::
    "browser_libs \<Rightarrow> plugin_manifest \<Rightarrow> ustr set \<Rightarrow> browser_run \<Rightarrow> plugin_error + unit" where
  "validate_browser_request B m granted r =
     (let v = br_viewport r
      in if br_steps r = [] \<or> length (br_steps r) > 32
         then Inl (Permanent (lit ''browser.run requires between 1 and 32 steps''))
         else if vp_width v < 320 \<or> vp_width v > 3840 \<or> vp_height v < 240 \<or> vp_height v > 2160 \<or>
                 \<not> (1 \<le> vp_device_scale_factor v \<and> vp_device_scale_factor v \<le> 3)
         then Inl (Permanent (lit ''browser viewport exceeds Host limits''))
         else if (case br_user_agent r of None \<Rightarrow> False | Some a \<Rightarrow> blen a > 1024) \<or>
                 (case br_locale r of None \<Rightarrow> False | Some l \<Rightarrow> l = [] \<or> blen l > 64) \<or>
                 (case br_timezone r of None \<Rightarrow> False | Some z \<Rightarrow> z = [] \<or> blen z > 128)
         then Inl (Permanent (lit ''browser user-agent, locale, or timezone exceeds Host limits''))
         else if length (br_extra_headers r) > 32 \<or> bad_header B [] (br_extra_headers r)
         then Inl (Permanent (lit ''browser headers exceed limits or contain a forbidden name''))
         else bind_ok (check_steps B m granted None 0 (br_steps r))
           (\<lambda>waits. if waits > 15000 then Inl (Permanent (lit ''browser fixed waits exceed the 15 second task limit''))
                    else Inr ()))"

section \<open>Errors and completions\<close>

text \<open>The texts of the errors of the adapters and the executors: the message that a \<open>Denied\<close> or \<open>InvalidRequest\<close>
  of the HTTP executor holds, the display of any other error.\<close>

record error_texts =
  et_adapter :: "adapter_error \<Rightarrow> ustr"
  et_context :: "context_error \<Rightarrow> ustr"
  et_http :: "http_error \<Rightarrow> ustr"
  et_asset :: "asset_error \<Rightarrow> ustr"
  et_plugin :: "plugin_error \<Rightarrow> ustr"

fun browser_plugin_error :: "browser_error \<Rightarrow> plugin_error" where
  "browser_plugin_error (BE_Unavailable t) = Transient t"
| "browser_plugin_error (BE_Worker t) = Transient t"
| "browser_plugin_error (BE_Denied t) = PermissionDenied t"
| "browser_plugin_error (BE_Invalid t) = Permanent t"
| "browser_plugin_error (BE_Exhausted t) = ResourceExhausted t"

definition adapter_command_error :: "error_texts \<Rightarrow> adapter_error \<Rightarrow> plugin_error" where
  "adapter_command_error T e =
     (case e of
        AE_ActionUnknown _ \<Rightarrow> Transient (et_adapter T e)
      | AE_Transport _ \<Rightarrow> Transient (et_adapter T e)
      | _ \<Rightarrow> Permanent (et_adapter T e))"

definition http_plugin_error :: "error_texts \<Rightarrow> http_error \<Rightarrow> plugin_error" where
  "http_plugin_error T e =
     (case e of
        Denied _ \<Rightarrow> PermissionDenied (et_http T e)
      | InvalidRequest _ \<Rightarrow> Permanent (et_http T e)
      | ResponseTooLarge \<Rightarrow> ResourceExhausted (et_http T e)
      | Dns _ \<Rightarrow> PermissionDenied (et_http T e)
      | NonPublicAddress \<Rightarrow> PermissionDenied (et_http T e)
      | Transport _ \<Rightarrow> Transient (et_http T e))"

definition context_command_error :: "error_texts \<Rightarrow> context_error \<Rightarrow> plugin_error" where
  "context_command_error T e =
     (case e of
        CE_Adapter (AE_ActionUnknown _) \<Rightarrow> Transient (et_context T e)
      | CE_Adapter (AE_Transport _) \<Rightarrow> Transient (et_context T e)
      | _ \<Rightarrow> Permanent (et_context T e))"

fun failure_code :: "plugin_error \<Rightarrow> action_status \<times> bool \<times> ustr" where
  "failure_code (PermissionDenied t) = (Action_Denied, False, lit ''permission_denied'')"
| "failure_code (ResourceExhausted t) = (Action_Failed, False, lit ''resource_exhausted'')"
| "failure_code (ResourceExhaustedTrap t) = (Action_Failed, False, lit ''resource_exhausted'')"
| "failure_code (GuestTrap t) = (Action_Failed, False, lit ''guest_trap'')"
| "failure_code (Transient t) = (Action_Unknown, False, lit ''result_unknown'')"
| "failure_code (InvalidConfig t) = (Action_Failed, False, lit ''invalid_config'')"
| "failure_code (Permanent t) = (Action_Failed, False, lit ''permanent'')"

definition failed_completion ::
    "error_texts \<Rightarrow> ustr \<Rightarrow> ustr \<Rightarrow> plugin_command \<Rightarrow> plugin_error \<Rightarrow> action_completed" where
  "failed_completion T source invocation c e =
     (case failure_code e of (status, retryable, code) \<Rightarrow>
        \<lparr>ac_source_event_id = source, ac_source_invocation_id = invocation, ac_command_id = pc_command_id c,
         ac_kind = pc_kind c, ac_status = status, ac_retryable = retryable, ac_result = None,
         ac_error_code = Some code, ac_error_message = Some (et_plugin T e)\<rparr>)"

section \<open>Running a command\<close>

text \<open>A command acts on the asset store and the world, and ends with an error or a value.\<close>

type_synonym ('w, 'a) cmd = "asset_state \<times> 'w \<Rightarrow> (plugin_error + 'a) \<times> asset_state \<times> 'w"

definition cmd_done :: "plugin_error + 'a \<Rightarrow> ('w, 'a) cmd" where
  "cmd_done r s = (r, s)"

definition cmd_bind :: "('w, 'a) cmd \<Rightarrow> ('a \<Rightarrow> ('w, 'b) cmd) \<Rightarrow> ('w, 'b) cmd" where
  "cmd_bind m f s = (case m s of (Inl e, s') \<Rightarrow> (Inl e, s') | (Inr x, s') \<Rightarrow> f x s')"

definition cmd_assets :: "('e \<Rightarrow> plugin_error) \<Rightarrow> (asset_state \<Rightarrow> asset_state \<times> ('e + 'a)) \<Rightarrow> ('w, 'a) cmd" where
  "cmd_assets err f s =
     (case f (fst s) of
        (a, Inl e) \<Rightarrow> (Inl (err e), a, snd s)
      | (a, Inr x) \<Rightarrow> (Inr x, a, snd s))"

datatype 'w execution_origin =
    From_Event "json event_context" "(json, 'w) adapter"
  | From_Schedule adapter_id
  | From_Recovery outbox_origin

fun origin_adapter_id :: "'w execution_origin \<Rightarrow> adapter_id" where
  "origin_adapter_id (From_Event c ad) = ctx_adapter_id c"
| "origin_adapter_id (From_Schedule a) = a"
| "origin_adapter_id (From_Recovery o1) = oo_adapter_id o1"

fun outbox_origin_of :: "'w execution_origin \<Rightarrow> ustr \<Rightarrow> outbox_origin" where
  "outbox_origin_of (From_Event c ad) source =
     \<lparr>oo_source_event_id = source, oo_adapter_id = ctx_adapter_id c, oo_reply_target = ctx_reply_target c,
      oo_source_message_id = ctx_source_message_id c\<rparr>"
| "outbox_origin_of (From_Schedule a) source =
     \<lparr>oo_source_event_id = source, oo_adapter_id = a, oo_reply_target = None, oo_source_message_id = None\<rparr>"
| "outbox_origin_of (From_Recovery o1) source = o1"

record media_reply =
  mr_asset_id :: ustr
  mr_caption :: "ustr option"
  mr_consume :: bool

record media_send =
  ms_target :: message_target
  ms_asset_id :: ustr
  ms_caption :: "ustr option"
  ms_consume :: bool

record browser_result =
  bz_final_url :: ustr
  bz_title :: ustr
  bz_extracted_text :: "ustr list"
  bz_assets :: "asset_reference list"

text \<open>\<open>serde_json::from_value\<close> and \<open>to_value\<close> with the text of their error.\<close>

record command_codecs =
  cc_content :: "json \<Rightarrow> ustr option"
  cc_send_message :: "json \<Rightarrow> ustr + send_message_action"
  cc_http :: "json \<Rightarrow> ustr + http_request"
  cc_browser :: "json \<Rightarrow> ustr + browser_run"
  cc_media_reply :: "json \<Rightarrow> ustr + media_reply"
  cc_media_send :: "json \<Rightarrow> ustr + media_send"
  cc_action_result :: "json action_result \<Rightarrow> ustr + json"
  cc_http_response :: "http_response \<Rightarrow> ustr + json"
  cc_browser_result :: "browser_result \<Rightarrow> ustr + json"

text \<open>
  The executors, the clocks and the other tasks. \<open>cl_fresh\<close> is a new asset identifier, \<open>cl_hash\<close> the digest
  of the data or the error of the task that computes it.
\<close>

record 'w command_libs =
  cl_browser_libs :: browser_libs
  cl_texts :: error_texts
  cl_codecs :: command_codecs
  cl_http :: "http_permission list \<Rightarrow> ustr set \<Rightarrow> http_request \<Rightarrow> 'w \<Rightarrow> (http_error + http_response) \<times> 'w"
  cl_browser :: "browser_permission list \<Rightarrow> ustr set \<Rightarrow> browser_run \<Rightarrow> 'w \<Rightarrow> (browser_error + browser_execution) \<times> 'w"
  cl_adapters :: "(adapter_id, (json, 'w) adapter) btmap"
  cl_limits :: asset_limits
  cl_now :: "'w \<Rightarrow> nat"
  cl_wall :: "'w \<Rightarrow> nat"
  cl_fresh :: "'w \<Rightarrow> ustr"
  cl_hash :: "8 word list \<Rightarrow> 'w \<Rightarrow> (ustr + ustr) \<times> 'w"
  cl_others :: "'w \<Rightarrow> asset_state \<Rightarrow> asset_state"

text \<open>Awaiting an executor: it acts on the world, other tasks on the asset store.\<close>

definition cmd_await ::
    "'w command_libs \<Rightarrow> ('e \<Rightarrow> plugin_error) \<Rightarrow> ('w \<Rightarrow> ('e + 'a) \<times> 'w) \<Rightarrow> ('w, 'a) cmd" where
  "cmd_await K err f s =
     (case f (snd s) of
        (Inl e, w) \<Rightarrow> (Inl (err e), cl_others K w (fst s), w)
      | (Inr x, w) \<Rightarrow> (Inr x, cl_others K w (fst s), w))"

definition permanent :: "ustr + 'a \<Rightarrow> ('w, 'a) cmd" where
  "permanent r = cmd_done (case r of Inl t \<Rightarrow> Inl (Permanent t) | Inr x \<Rightarrow> Inr x)"

definition find_adapter :: "'w command_libs \<Rightarrow> ustr \<Rightarrow> adapter_id \<Rightarrow> ustr \<Rightarrow> ('w, (json, 'w) adapter) cmd" where
  "find_adapter K what a after =
     cmd_done (case bt_get (cl_adapters K) a of None \<Rightarrow> Inl (Permanent (what @ a @ after)) | Some ad \<Rightarrow> Inr ad)"

definition recovered_adapter :: "'w command_libs \<Rightarrow> outbox_origin \<Rightarrow> ('w, (json, 'w) adapter) cmd" where
  "recovered_adapter K o1 =
     find_adapter K (lit ''recovered event adapter `'') (oo_adapter_id o1) (lit ''` is unavailable'')"

definition adapter_execute ::
    "'w command_libs \<Rightarrow> (json, 'w) adapter \<Rightarrow> json action \<Rightarrow> ('w, json action_result) cmd" where
  "adapter_execute K ad a = cmd_await K (adapter_command_error (cl_texts K)) (BotModel.execute ad a)"

definition context_command ::
    "'w command_libs \<Rightarrow> (json, 'w) adapter \<Rightarrow> json action \<Rightarrow> ('w, json action_result) cmd" where
  "context_command K ad a = cmd_await K (context_command_error (cl_texts K)) (context_execute ad a)"

definition wrong_platform :: "platform_query \<Rightarrow> plugin_error" where
  "wrong_platform q = Permanent (lit ''trusted platform query `'' @ action_name q @ lit ''` requires platform `'' @
     query_platform q @ lit ''`'')"

definition trusted_query ::
    "'w command_libs \<Rightarrow> 'w execution_origin \<Rightarrow> plugin_command \<Rightarrow> platform_query \<Rightarrow> ('w, json action_result) cmd" where
  "trusted_query K orig c q =
     (let a = Action_Platform (pc_kind c) (pc_payload c)
      in (case orig of
            From_Event ctx ad \<Rightarrow>
              if ctx_platform ctx \<noteq> query_platform q then cmd_done (Inl (wrong_platform q))
              else context_command K ad a
          | From_Recovery o1 \<Rightarrow>
              cmd_bind (recovered_adapter K o1)
                (\<lambda>ad. if platform_of ad \<noteq> query_platform q then cmd_done (Inl (wrong_platform q))
                      else adapter_execute K ad a)
          | From_Schedule _ \<Rightarrow>
              cmd_done (Inl (Permanent (lit ''trusted platform queries are unavailable for scheduled events'')))))"

definition some_or :: "plugin_error \<Rightarrow> 'a option \<Rightarrow> ('w, 'a) cmd" where
  "some_or e x = cmd_done (case x of None \<Rightarrow> Inl e | Some v \<Rightarrow> Inr v)"

definition no_recovered_target :: plugin_error where
  "no_recovered_target = Permanent (lit ''recovered event does not provide a reply target'')"

definition no_recovered_message :: plugin_error where
  "no_recovered_message = Permanent (lit ''recovered event does not provide a source message ID'')"

definition message_reply ::
    "'w command_libs \<Rightarrow> 'w execution_origin \<Rightarrow> plugin_command \<Rightarrow> ('w, json action_result) cmd" where
  "message_reply K orig c =
     cmd_bind (some_or (Permanent (lit ''message.reply requires content'')) (cc_content (cl_codecs K) (pc_payload c)))
       (\<lambda>content.
          (case orig of
             From_Event ctx ad \<Rightarrow>
               cmd_await K (context_command_error (cl_texts K)) (context_reply ctx ad content)
           | From_Recovery o1 \<Rightarrow>
               cmd_bind (some_or no_recovered_target (oo_reply_target o1))
                 (\<lambda>t. cmd_bind (some_or no_recovered_message (oo_source_message_id o1))
                 (\<lambda>m. cmd_bind (recovered_adapter K o1)
                 (\<lambda>ad. adapter_execute K ad
                    (Action_Reply \<lparr>ra_target = t, ra_source_message_id = m, ra_content = content\<rparr>))))
           | From_Schedule _ \<Rightarrow>
               cmd_done (Inl (Permanent
                 (lit ''message.reply is unavailable for scheduled events; use message.send'')))))"

definition message_send ::
    "'w command_libs \<Rightarrow> 'w execution_origin \<Rightarrow> plugin_command \<Rightarrow> ('w, json action_result) cmd" where
  "message_send K orig c =
     cmd_bind (permanent (cc_send_message (cl_codecs K) (pc_payload c)))
       (\<lambda>a.
          (case orig of
             From_Event ctx ad \<Rightarrow> context_command K ad (Action_SendMessage a)
           | From_Schedule i \<Rightarrow>
               cmd_bind (find_adapter K (lit ''scheduled event adapter `'') i (lit ''` is unavailable''))
                 (\<lambda>ad. adapter_execute K ad (Action_SendMessage a))
           | From_Recovery o1 \<Rightarrow>
               cmd_bind (recovered_adapter K o1) (\<lambda>ad. adapter_execute K ad (Action_SendMessage a))))"

definition get_asset :: "'w command_libs \<Rightarrow> ustr \<Rightarrow> ustr \<Rightarrow> ('w, stored_asset) cmd" where
  "get_asset K i a s =
     cmd_assets (\<lambda>e. Permanent (et_asset (cl_texts K) e)) (asset_get (cl_now K (snd s)) i a) s"

definition consume_asset :: "'w command_libs \<Rightarrow> ustr \<Rightarrow> ustr \<Rightarrow> bool \<Rightarrow> ('w, unit) cmd" where
  "consume_asset K i a consume =
     (if consume then cmd_assets (\<lambda>e. Permanent (et_asset (cl_texts K) e)) (asset_remove i a)
      else cmd_done (Inr ()))"

definition image_of :: "stored_asset \<Rightarrow> ('w, media_attachment) cmd" where
  "image_of asset = cmd_done
     (case image_attachment (sa_mime_type asset) None (sa_data asset) of
        Inl _ \<Rightarrow> Inl (Permanent (lit ''media attachment must be a supported image of at most 8 MiB''))
      | Inr m \<Rightarrow> Inr m)"

definition media_reply_action ::
    "message_target \<Rightarrow> ustr \<Rightarrow> media_reply \<Rightarrow> stored_asset \<Rightarrow> ('w, json action) cmd" where
  "media_reply_action t m r asset =
     cmd_bind (image_of asset) (\<lambda>img. cmd_done (Inr (Action_ReplyMedia
       \<lparr>rm_target = t, rm_source_message_id = m, rm_attachment = img, rm_caption = mr_caption r\<rparr>)))"

definition media_reply_command ::
    "'w command_libs \<Rightarrow> ustr \<Rightarrow> 'w execution_origin \<Rightarrow> plugin_command \<Rightarrow> ('w, json action_result) cmd" where
  "media_reply_command K i orig c =
     cmd_bind (permanent (cc_media_reply (cl_codecs K) (pc_payload c)))
       (\<lambda>r. cmd_bind (get_asset K i (mr_asset_id r))
       (\<lambda>asset. cmd_bind
          (case orig of
             From_Event ctx ad \<Rightarrow>
               cmd_bind (some_or (Permanent (lit ''event does not provide a reply target'')) (ctx_reply_target ctx))
                 (\<lambda>t. cmd_bind (some_or (Permanent (lit ''event does not provide a source message ID''))
                         (ctx_source_message_id ctx))
                 (\<lambda>m. cmd_bind (media_reply_action t m r asset) (context_command K ad)))
           | From_Recovery o1 \<Rightarrow>
               cmd_bind (some_or no_recovered_target (oo_reply_target o1))
                 (\<lambda>t. cmd_bind (some_or no_recovered_message (oo_source_message_id o1))
                 (\<lambda>m. cmd_bind (recovered_adapter K o1)
                 (\<lambda>ad. cmd_bind (media_reply_action t m r asset) (adapter_execute K ad))))
           | From_Schedule _ \<Rightarrow>
               cmd_done (Inl (Permanent (lit ''media.reply is unavailable for scheduled events; use media.send''))))
          (\<lambda>result. cmd_bind (consume_asset K i (mr_asset_id r) (mr_consume r)) (\<lambda>_. cmd_done (Inr result)))))"

definition media_send_command ::
    "'w command_libs \<Rightarrow> ustr \<Rightarrow> 'w execution_origin \<Rightarrow> plugin_command \<Rightarrow> ('w, json action_result) cmd" where
  "media_send_command K i orig c =
     cmd_bind (permanent (cc_media_send (cl_codecs K) (pc_payload c)))
       (\<lambda>r. cmd_bind (get_asset K i (ms_asset_id r))
       (\<lambda>asset. cmd_bind (find_adapter K (lit ''adapter `'') (origin_adapter_id orig) (lit ''` is unavailable''))
       (\<lambda>ad. cmd_bind (image_of asset)
       (\<lambda>img. cmd_bind (adapter_execute K ad (Action_SendMedia
           \<lparr>sd_target = ms_target r, sd_attachment = img, sd_caption = ms_caption r\<rparr>))
       (\<lambda>result. cmd_bind (consume_asset K i (ms_asset_id r) (ms_consume r)) (\<lambda>_. cmd_done (Inr result)))))))"

definition http_command ::
    "'w command_libs \<Rightarrow> plugin_manifest \<Rightarrow> ustr set \<Rightarrow> plugin_command \<Rightarrow> ('w, http_response) cmd" where
  "http_command K m granted c =
     cmd_bind (permanent (cc_http (cl_codecs K) (pc_payload c)))
       (\<lambda>r. cmd_await K (http_plugin_error (cl_texts K)) (cl_http K (pp_http (mf_permissions m)) granted r))"

definition store_artifact :: "'w command_libs \<Rightarrow> ustr \<Rightarrow> browser_artifact \<Rightarrow> ('w, asset_reference) cmd" where
  "store_artifact K i a =
     (let exhausted = (\<lambda>e. ResourceExhausted (et_asset (cl_texts K) e))
      in cmd_bind (\<lambda>s. cmd_assets exhausted (preflight (cl_limits K) (cl_now K (snd s)) i (ba_mime_type a) (ba_data a)) s)
        (\<lambda>_. cmd_bind (cmd_await K (\<lambda>t. Permanent (lit ''asset hashing task failed: '' @ t)) (cl_hash K (ba_data a)))
        (\<lambda>digest s. cmd_assets exhausted
           (insert_prehashed (cl_limits K) (cl_now K (snd s)) (cl_wall K (snd s)) (cl_fresh K (snd s)) i
             (ba_mime_type a) (ba_data a) digest) s)))"

fun store_artifacts :: "'w command_libs \<Rightarrow> ustr \<Rightarrow> browser_artifact list \<Rightarrow> ('w, asset_reference list) cmd" where
  "store_artifacts K i [] = cmd_done (Inr [])"
| "store_artifacts K i (a # as1) =
     cmd_bind (store_artifact K i a)
       (\<lambda>r. cmd_bind (store_artifacts K i as1) (\<lambda>rs. cmd_done (Inr (r # rs))))"

definition browser_command ::
    "'w command_libs \<Rightarrow> ustr \<Rightarrow> plugin_manifest \<Rightarrow> ustr set \<Rightarrow> plugin_command \<Rightarrow> ('w, browser_result) cmd" where
  "browser_command K i m granted c =
     cmd_bind (permanent (cc_browser (cl_codecs K) (pc_payload c)))
       (\<lambda>r. cmd_bind (cmd_done (validate_browser_request (cl_browser_libs K) m granted r))
       (\<lambda>_. cmd_bind (cmd_await K browser_plugin_error (cl_browser K (pp_browser (mf_permissions m)) granted r))
       (\<lambda>x. cmd_bind (store_artifacts K i (bx_artifacts x))
       (\<lambda>refs. cmd_done (Inr \<lparr>bz_final_url = bx_final_url x, bz_title = bx_title x,
          bz_extracted_text = bx_extracted_text x, bz_assets = refs\<rparr>)))))"

definition execute_context_command ::
    "'w command_libs \<Rightarrow> registered_plugin \<Rightarrow> 'w execution_origin \<Rightarrow> plugin_command \<Rightarrow> ('w, json) cmd" where
  "execute_context_command K p orig c =
     (let i = rp_instance_id p;
          result = (\<lambda>m. cmd_bind m (\<lambda>r. permanent (cc_action_result (cl_codecs K) r)))
      in (case List.find (\<lambda>q. action_name q = pc_kind c) (rp_queries p) of
            Some q \<Rightarrow> result (trusted_query K orig c q)
          | None \<Rightarrow>
              if pc_kind c = lit ''message.reply'' then result (message_reply K orig c)
              else if pc_kind c = lit ''message.send'' then result (message_send K orig c)
              else if pc_kind c = lit ''http.request''
              then cmd_bind (http_command K (rp_manifest p) (rp_granted p) c)
                (\<lambda>r. permanent (cc_http_response (cl_codecs K) r))
              else if pc_kind c = lit ''browser.run''
              then cmd_bind (browser_command K i (rp_manifest p) (rp_granted p) c)
                (\<lambda>r. permanent (cc_browser_result (cl_codecs K) r))
              else if pc_kind c = lit ''media.reply'' then result (media_reply_command K i orig c)
              else if pc_kind c = lit ''media.send'' then result (media_send_command K i orig c)
              else cmd_done (Inl (Permanent (lit ''command executor `'' @ pc_kind c @ lit ''` is not implemented'')))))"

end
