(* ===== verification/PluginDelivery.thy ===== *)
theory PluginDelivery
  imports PluginStoreProps PluginCommands
begin

text \<open>
  The delivery of events to one registered plugin (\<open>crates/plugin-host/src/runtime/mod.rs\<close>): begin a delivery in
  the store, run the handler, commit its output, run the commands, queue their completions, record failures,
  retry; and the recovery of what a stopped host left behind. An operation is a function of the host state, in
  which the plugin's own lifecycle and configuration stand for its locks; other tasks act at every await, by
  calls of the store of their own and by changes of the shared rest. A log keeps which handlers and commands
  ran. A task may be dropped at an await: when it is aborted, or when the runtime drops it; its operation then ends
  with \<open>Task_Dropped\<close>, which no code handles. That a thread panics while it holds one of the locks of the host is
  not modelled.
\<close>

section \<open>State\<close>

datatype host_error =
    Bad_Manifest ustr
  | Duplicate_Instance ustr
  | Duplicate_Command ustr
  | Config_Refused ustr ustr
  | Config_Schema_Refused ustr ustr
  | Init_Failed ustr ustr
  | Invocation_Failed ustr ustr
  | Transient_Invocation ustr ustr
  | Guest_Trapped ustr ustr
  | Resource_Trapped ustr ustr
  | Invocation_Timeout ustr
  | Invocation_Panic ustr
  | Output_Refused ustr output_problem
  | Migration_Failed ustr ustr
  | Lifecycle_Changed ustr
  | Store_Failed store_error
  | Task_Dropped

datatype instance_state = Ready_Instance | Draining | Disabled | Stopped

record lifecycle =
  lc_state :: instance_state
  lc_generation :: u64

datatype host_entry =
    Ran_Handler ustr ustr
  | Ran_Command ustr ustr

text \<open>The workers of scheduled tasks: a spawned worker is a number, the handles name the worker of a task, and an
  aborted worker is dropped at its next await.\<close>

record worker_table =
  wt_handles :: "(ustr \<times> ustr, nat) hmap"
  wt_spawned :: "scheduled_task list"
  wt_aborted :: "nat list"

record 'w host_state =
  h_db :: plugin_db
  h_assets :: asset_state
  h_life :: lifecycle
  h_config :: "(ustr, json) btmap"
  h_workers :: worker_table
  h_self :: "nat option"
  h_log :: "host_entry list"
  h_world :: 'w

definition max_action_completion_chain :: nat where "max_action_completion_chain = 64"
definition max_schedule_ahead_ms :: int where "max_schedule_ahead_ms = 366 * 24 * 60 * 60 * 1000"
definition max_delivery_attempts :: nat where "max_delivery_attempts = 3"
definition circuit_breaker_failures :: nat where "circuit_breaker_failures = 3"
definition delivery_retry_base_ms :: u64 where "delivery_retry_base_ms = 25"
definition action_completion_depth_namespace :: ustr where
  "action_completion_depth_namespace = lit ''dev.bkm.host/action-completion-depth''"

text \<open>A call into the plugin, under its timeout and with panics caught.\<close>

datatype 'a supervised = Guest_Ended "plugin_error + 'a" | Guest_Panicked | Guest_Timed_Out

record invocation_queries =
  iq_config :: "(ustr, json) btmap"
  iq_state :: "(ustr, state_value) btmap"
  iq_granted :: "ustr set"
  iq_time_ms :: int

record schedule_create =
  sc_task_id :: ustr
  sc_run_at_ms :: int
  sc_payload :: json

record schedule_triggered =
  sg_task_id :: ustr
  sg_scheduled_at_ms :: int
  sg_payload :: json

text \<open>
  What the host uses: the store and the command executors; the clock in milliseconds and fresh UUIDs; JSON
  encoding and decoding; the display of errors; what other tasks do to the store, the lifecycle, the
  configuration and the workers while this one waits; \<open>hl_cut\<close>, which says that a command did not get to its end
  and what it had done by then to assets and world; and whether the runtime drops the waiting task, or a wait
  suspends, so that an abort takes effect.
\<close>

record 'w host_libs =
  hl_command :: "'w command_libs"
  hl_store :: store_libs
  hl_clock :: "'w \<Rightarrow> int \<times> 'w"
  hl_uuid :: "'w \<Rightarrow> ustr \<times> 'w"
  hl_completion_json :: "action_completed \<Rightarrow> ustr + json"
  hl_event_json :: "json event \<Rightarrow> ustr + json"
  hl_triggered_json :: "schedule_triggered \<Rightarrow> ustr + json"
  hl_output_bytes :: "handler_output \<Rightarrow> 8 word list option"
  hl_create :: "json \<Rightarrow> ustr + schedule_create"
  hl_cancel :: "json \<Rightarrow> ustr + ustr"
  hl_message_target :: "json \<Rightarrow> message_target option"
  hl_error_text :: "host_error \<Rightarrow> ustr"
  hl_store_text :: "store_error \<Rightarrow> ustr"
  hl_extension_text :: "extension_error \<Rightarrow> ustr"
  hl_cut :: "nat option \<Rightarrow> plugin_command \<Rightarrow> asset_state \<times> 'w \<Rightarrow> (asset_state \<times> 'w) option"
  hl_calls :: "'w \<Rightarrow> store_call list"
  hl_lifecycle :: "'w \<Rightarrow> lifecycle \<Rightarrow> lifecycle"
  hl_configure :: "'w \<Rightarrow> (ustr, json) btmap \<Rightarrow> (ustr, json) btmap"
  hl_workers :: "'w \<Rightarrow> worker_table \<Rightarrow> worker_table"
  hl_drops :: "'w \<Rightarrow> bool"
  hl_suspends :: "'w \<Rightarrow> bool"

record 'w guest =
  g_on_event :: "plugin_event \<Rightarrow> invocation_queries \<Rightarrow> 'w \<Rightarrow> handler_output supervised \<times> 'w"
  g_validate_config :: "(ustr, json) btmap \<Rightarrow> 'w \<Rightarrow> unit supervised \<times> 'w"
  g_init :: "(ustr, json) btmap \<Rightarrow> 'w \<Rightarrow> unit supervised \<times> 'w"
  g_health :: "'w \<Rightarrow> bool supervised \<times> 'w"
  g_migrate_state :: "nat \<Rightarrow> nat \<Rightarrow> (ustr, state_value) btmap \<Rightarrow> 'w \<Rightarrow> state_op list supervised \<times> 'w"
  g_shutdown :: "'w \<Rightarrow> unit supervised \<times> 'w"

section \<open>Operations of the host\<close>

type_synonym ('w, 'a) hop = "'w host_state \<Rightarrow> (host_error + 'a) \<times> 'w host_state"

definition hdone :: "host_error + 'a \<Rightarrow> ('w, 'a) hop" where
  "hdone r h = (r, h)"

definition hbind :: "('w, 'a) hop \<Rightarrow> ('a \<Rightarrow> ('w, 'b) hop) \<Rightarrow> ('w, 'b) hop" where
  "hbind m f h = (case m h of (Inl e, h') \<Rightarrow> (Inl e, h') | (Inr x, h') \<Rightarrow> f x h')"

text \<open>A call of the store that cannot fail, and one whose error ends the operation.\<close>

definition hsql :: "(plugin_db \<Rightarrow> plugin_db \<times> 'a) \<Rightarrow> ('w, 'a) hop" where
  "hsql f h = (case f (h_db h) of (db, x) \<Rightarrow> (Inr x, h\<lparr>h_db := db\<rparr>))"

definition hstore :: "(plugin_db \<Rightarrow> plugin_db \<times> (store_error + 'a)) \<Rightarrow> ('w, 'a) hop" where
  "hstore f h =
     (case f (h_db h) of
        (db, Inl e) \<Rightarrow> (Inl (Store_Failed e), h\<lparr>h_db := db\<rparr>)
      | (db, Inr x) \<Rightarrow> (Inr x, h\<lparr>h_db := db\<rparr>))"

definition hupdate :: "(plugin_db \<Rightarrow> plugin_db) \<Rightarrow> ('w, unit) hop" where
  "hupdate f h = (Inr (), h\<lparr>h_db := f (h_db h)\<rparr>)"

definition hread :: "('w host_state \<Rightarrow> 'a) \<Rightarrow> ('w, 'a) hop" where
  "hread f h = (Inr (f h), h)"

definition hclock :: "'w host_libs \<Rightarrow> ('w, int) hop" where
  "hclock H h = (case hl_clock H (h_world h) of (t, w) \<Rightarrow> (Inr t, h\<lparr>h_world := w\<rparr>))"

definition huuid :: "'w host_libs \<Rightarrow> ('w, ustr) hop" where
  "huuid H h = (case hl_uuid H (h_world h) of (u, w) \<Rightarrow> (Inr u, h\<lparr>h_world := w\<rparr>))"

definition hlog :: "host_entry \<Rightarrow> ('w, unit) hop" where
  "hlog x h = (Inr (), h\<lparr>h_log := h_log h @ [x]\<rparr>)"

text \<open>What other tasks did while this one waited.\<close>

definition others :: "'w host_libs \<Rightarrow> 'w host_state \<Rightarrow> 'w host_state" where
  "others H h =
     h\<lparr>h_db := store_run (hl_store H) (hl_calls H (h_world h)) (h_db h),
       h_assets := cl_others (hl_command H) (h_world h) (h_assets h),
       h_life := hl_lifecycle H (h_world h) (h_life h),
       h_config := hl_configure H (h_world h) (h_config h),
       h_workers := hl_workers H (h_world h) (h_workers h)\<rparr>"

definition dropped :: "'w host_libs \<Rightarrow> 'w host_state \<Rightarrow> bool" where
  "dropped H h \<longleftrightarrow> hl_drops H (h_world h) \<or>
     (case h_self h of None \<Rightarrow> False | Some n \<Rightarrow> n \<in> set (wt_aborted (h_workers h)) \<and> hl_suspends H (h_world h))"

definition hawait :: "'w host_libs \<Rightarrow> ('w \<Rightarrow> 'a \<times> 'w) \<Rightarrow> ('w, 'a) hop" where
  "hawait H f h =
     (case f (h_world h) of (x, w) \<Rightarrow>
        (let h1 = others H (h\<lparr>h_world := w\<rparr>) in (if dropped H h1 then Inl Task_Dropped else Inr x, h1)))"

definition hsleep :: "'w host_libs \<Rightarrow> ('w, unit) hop" where
  "hsleep H = hawait H (\<lambda>w. ((), w))"

definition set_state :: "instance_state \<Rightarrow> ('w, unit) hop" where
  "set_state st h = (Inr (), h\<lparr>h_life := (h_life h)\<lparr>lc_state := st\<rparr>\<rparr>)"

definition begin_draining :: "('w, unit) hop" where
  "begin_draining h =
     (Inr (), h\<lparr>h_life := \<lparr>lc_state = Draining, lc_generation = lc_generation (h_life h) + 1\<rparr>\<rparr>)"

definition ready_generation :: "'w host_state \<Rightarrow> u64 option" where
  "ready_generation h =
     (if lc_state (h_life h) = Ready_Instance then Some (lc_generation (h_life h)) else None)"

definition is_ready_generation :: "u64 \<Rightarrow> 'w host_state \<Rightarrow> bool" where
  "is_ready_generation g h \<longleftrightarrow> lc_state (h_life h) = Ready_Instance \<and> lc_generation (h_life h) = g"

definition remove_assets :: "registered_plugin \<Rightarrow> ('w, unit) hop" where
  "remove_assets p h = (Inr (), h\<lparr>h_assets := remove_instance (rp_instance_id p) (h_assets h)\<rparr>)"

definition disable :: "registered_plugin \<Rightarrow> ('w, unit) hop" where
  "disable p = hbind (set_state Disabled) (\<lambda>_. remove_assets p)"

definition plugin_id_of :: "registered_plugin \<Rightarrow> ustr" where
  "plugin_id_of p = mf_id (rp_manifest p)"

definition encoded :: "ustr \<Rightarrow> ustr + 'a \<Rightarrow> ('w, 'a) hop" where
  "encoded who r = hdone (case r of Inl t \<Rightarrow> Inl (Invocation_Failed who t) | Inr x \<Rightarrow> Inr x)"

section \<open>Scheduled tasks\<close>

text \<open>The worker of a task is spawned unless the task has one; it runs as a task of its own.\<close>

definition launch_schedule :: "scheduled_task \<Rightarrow> ('w, unit) hop" where
  "launch_schedule task h =
     (let k = (st_instance_id task, st_task_id task); t = h_workers h
      in (Inr (), if hm_contains (wt_handles t) k then h
                  else h\<lparr>h_workers := t\<lparr>wt_handles := hm_put k (length (wt_spawned t)) (wt_handles t),
                           wt_spawned := wt_spawned t @ [task]\<rparr>\<rparr>))"

definition abort_schedule :: "ustr \<Rightarrow> ustr \<Rightarrow> ('w, unit) hop" where
  "abort_schedule i task_id h =
     (let k = (i, task_id); t = h_workers h
      in (Inr (), (case hm_get (wt_handles t) k of
                     None \<Rightarrow> h
                   | Some n \<Rightarrow> h\<lparr>h_workers := t\<lparr>wt_handles := hm_del k (wt_handles t),
                                   wt_aborted := n # wt_aborted t\<rparr>\<rparr>)))"

definition schedule_create_command ::
    "'w host_libs \<Rightarrow> registered_plugin \<Rightarrow> 'w execution_origin \<Rightarrow> plugin_command \<Rightarrow> ('w, plugin_error + json) hop" where
  "schedule_create_command H p orig c =
     (case hl_create H (pc_payload c) of
        Inl t \<Rightarrow> hdone (Inr (Inl (Permanent t)))
      | Inr r \<Rightarrow>
          hbind (hclock H) (\<lambda>now.
            if sc_run_at_ms r > min (now + max_schedule_ahead_ms) store_i64_max
            then hdone (Inr (Inl (Permanent (lit ''scheduled task is more than 366 days in the future''))))
            else
              (let task = \<lparr>st_instance_id = rp_instance_id p, st_task_id = sc_task_id r,
                     st_adapter_id = origin_adapter_id orig, st_run_at_ms = sc_run_at_ms r,
                     st_payload = sc_payload r\<rparr>
               in hbind (hsql (create_schedule (hl_store H) task (unat (pp_storage_quota (mf_permissions (rp_manifest p))))))
                 (\<lambda>created.
                   (case created of
                      Inl e \<Rightarrow> hdone (Inr (Inl (Permanent (hl_store_text H e))))
                    | Inr b \<Rightarrow>
                        hbind (if b then launch_schedule task else hdone (Inr ()))
                          (\<lambda>_. hdone (Inr (Inr (J_Object
                             [(lit ''created'', J_Bool b), (lit ''run_at_ms'', J_Number (int_text (st_run_at_ms task))),
                              (lit ''task_id'', J_String (st_task_id task))])))))))))"

definition schedule_cancel_command ::
    "'w host_libs \<Rightarrow> registered_plugin \<Rightarrow> plugin_command \<Rightarrow> ('w, plugin_error + json) hop" where
  "schedule_cancel_command H p c =
     (case hl_cancel H (pc_payload c) of
        Inl t \<Rightarrow> hdone (Inr (Inl (Permanent t)))
      | Inr task_id \<Rightarrow>
          hbind (hsql (cancel_schedule (rp_instance_id p) task_id))
            (\<lambda>cancelled.
              (case cancelled of
                 Inl e \<Rightarrow> hdone (Inr (Inl (Permanent (hl_store_text H e))))
               | Inr b \<Rightarrow>
                   hbind (if b then abort_schedule (rp_instance_id p) task_id else hdone (Inr ()))
                     (\<lambda>_. hdone (Inr (Inr (J_Object
                        [(lit ''cancelled'', J_Bool b), (lit ''task_id'', J_String task_id)])))))))"

definition execute_schedule_command ::
    "'w host_libs \<Rightarrow> registered_plugin \<Rightarrow> 'w execution_origin \<Rightarrow> plugin_command \<Rightarrow> ('w, plugin_error + json) hop" where
  "execute_schedule_command H p orig c =
     (if pc_kind c = lit ''schedule.create'' then schedule_create_command H p orig c
      else if pc_kind c = lit ''schedule.cancel'' then schedule_cancel_command H p c
      else hdone (Inr (Inl (Permanent (lit ''unsupported scheduler command'')))))"

fun launch_all :: "scheduled_task list \<Rightarrow> ('w, unit) hop" where
  "launch_all [] = hdone (Inr ())"
| "launch_all (t # ts) = hbind (launch_schedule t) (\<lambda>_. launch_all ts)"

definition recover_plugin_schedules :: "registered_plugin \<Rightarrow> ('w, unit) hop" where
  "recover_plugin_schedules p = hbind (hsql (recover_schedules (rp_instance_id p))) launch_all"

definition pause_plugin_schedules :: "ustr \<Rightarrow> ('w, unit) hop" where
  "pause_plugin_schedules i h =
     (let t = h_workers h
      in (Inr (), h\<lparr>h_workers := t\<lparr>wt_handles := filter (\<lambda>p. fst (fst p) \<noteq> i) (wt_handles t),
                      wt_aborted := map snd (filter (\<lambda>p. fst (fst p) = i) (wt_handles t)) @ wt_aborted t\<rparr>,
                    h_db := requeue_firing_schedules i (h_db h)\<rparr>))"

definition schedule_partition_key :: "(json \<Rightarrow> message_target option) \<Rightarrow> scheduled_task \<Rightarrow> ustr" where
  "schedule_partition_key dec task =
     (case (case st_payload task of J_Object fs \<Rightarrow> map_of fs (lit ''target'') | _ \<Rightarrow> None) of
        None \<Rightarrow> lit ''schedule:'' @ st_task_id task
      | Some v \<Rightarrow>
          (case dec v of
             None \<Rightarrow> lit ''schedule:'' @ st_task_id task
           | Some t \<Rightarrow> target_partition_key t))"

section \<open>Commands\<close>

text \<open>The result of the command, or that its deadline passed. A command of the scheduler never waits.\<close>

definition run_command ::
    "'w host_libs \<Rightarrow> registered_plugin \<Rightarrow> 'w execution_origin \<Rightarrow> plugin_command \<Rightarrow> ('w, (plugin_error + json) timed) hop" where
  "run_command H p orig c =
     (if pc_kind c = lit ''schedule.create'' \<or> pc_kind c = lit ''schedule.cancel''
      then hbind (execute_schedule_command H p orig c) (\<lambda>r. hdone (Inr (Completed r)))
      else (\<lambda>h.
        let finished =
          (case execute_context_command (hl_command H) p orig c (h_assets h, h_world h) of
             (r, a, w) \<Rightarrow> (Inr (Completed r), others H (h\<lparr>h_assets := a, h_world := w\<rparr>)))
        in (case hl_cut H (pc_deadline_ms c) c (h_assets h, h_world h) of
              None \<Rightarrow> finished
            | Some (a, w) \<Rightarrow>
                (let h1 = others H (h\<lparr>h_assets := a, h_world := w\<rparr>)
                 in if dropped H h1 then (Inl Task_Dropped, h1)
                    else if pc_deadline_ms c \<noteq> None then (Inr Elapsed, h1)
                    else finished))))"

definition completion_of ::
    "error_texts \<Rightarrow> ustr \<Rightarrow> ustr \<Rightarrow> plugin_command \<Rightarrow> (plugin_error + json) timed \<Rightarrow> action_completed" where
  "completion_of T source v c r =
     (case r of
        Elapsed \<Rightarrow>
          \<lparr>ac_source_event_id = source, ac_source_invocation_id = v, ac_command_id = pc_command_id c,
           ac_kind = pc_kind c, ac_status = Action_Unknown, ac_retryable = False, ac_result = None,
           ac_error_code = Some (lit ''deadline_exceeded''),
           ac_error_message = Some (lit ''command execution exceeded its deadline'')\<rparr>
      | Completed (Inr x) \<Rightarrow>
          \<lparr>ac_source_event_id = source, ac_source_invocation_id = v, ac_command_id = pc_command_id c,
           ac_kind = pc_kind c, ac_status = Action_Succeeded, ac_retryable = False, ac_result = Some x,
           ac_error_code = None, ac_error_message = None\<rparr>
      | Completed (Inl e) \<Rightarrow> failed_completion T source v c e)"

definition persist_completion ::
    "'w host_libs \<Rightarrow> registered_plugin \<Rightarrow> ustr \<Rightarrow> ustr \<Rightarrow> ustr \<Rightarrow> action_completed \<Rightarrow> ('w, unit) hop" where
  "persist_completion H p i v cid a =
     hbind (encoded (plugin_id_of p) (hl_completion_json H a))
       (\<lambda>_. hupdate (mark_command i v cid (ac_status a) a))"

definition execute_command ::
    "'w host_libs \<Rightarrow> registered_plugin \<Rightarrow> 'w execution_origin \<Rightarrow> ustr \<Rightarrow> ustr \<Rightarrow> plugin_command \<Rightarrow>
     ('w, action_completed) hop" where
  "execute_command H p orig source v c =
     hbind (hlog (Ran_Command v (pc_command_id c)))
       (\<lambda>_. hbind (run_command H p orig c)
       (\<lambda>r. let a = completion_of (cl_texts (hl_command H)) source v c r
            in hbind (persist_completion H p (rp_instance_id p) v (pc_command_id c) a) (\<lambda>_. hdone (Inr a))))"

fun execute_commands ::
    "'w host_libs \<Rightarrow> registered_plugin \<Rightarrow> 'w execution_origin \<Rightarrow> ustr \<Rightarrow> ustr \<Rightarrow> plugin_command list \<Rightarrow>
     ('w, action_completed list) hop" where
  "execute_commands H p orig source v [] = hdone (Inr [])"
| "execute_commands H p orig source v (c # cs) =
     hbind (execute_command H p orig source v c)
       (\<lambda>a. hbind (execute_commands H p orig source v cs) (\<lambda>as1. hdone (Inr (a # as1))))"

section \<open>Invocation and commit\<close>

definition guest_failure :: "error_texts \<Rightarrow> ustr \<Rightarrow> plugin_error \<Rightarrow> host_error" where
  "guest_failure T who e =
     (case e of
        GuestTrap t \<Rightarrow> Guest_Trapped who t
      | ResourceExhaustedTrap t \<Rightarrow> Resource_Trapped who t
      | Transient t \<Rightarrow> Transient_Invocation who t
      | _ \<Rightarrow> Invocation_Failed who (et_plugin T e))"

definition supervised_result :: "ustr \<Rightarrow> (plugin_error \<Rightarrow> host_error) \<Rightarrow> 'a supervised \<Rightarrow> host_error + 'a" where
  "supervised_result who err r =
     (case r of
        Guest_Timed_Out \<Rightarrow> Inl (Invocation_Timeout who)
      | Guest_Panicked \<Rightarrow> Inl (Invocation_Panic who)
      | Guest_Ended (Inl e) \<Rightarrow> Inl (err e)
      | Guest_Ended (Inr x) \<Rightarrow> Inr x)"

definition invoke_envelope ::
    "'w host_libs \<Rightarrow> registered_plugin \<Rightarrow> 'w guest \<Rightarrow> plugin_event \<Rightarrow> ('w, handler_output) hop" where
  "invoke_envelope H p g env =
     hbind (hread (\<lambda>h. \<lparr>iq_config = h_config h, iq_state = snapshot (rp_instance_id p) (h_db h),
              iq_granted = rp_granted p, iq_time_ms = pe_received_at_ms env\<rparr>))
       (\<lambda>q. hbind (hlog (Ran_Handler (pe_event_id env) (pe_delivery_id env)))
       (\<lambda>_. hbind (hawait H (g_on_event g env q))
       (\<lambda>r. hbind (hdone (supervised_result (plugin_id_of p)
                (guest_failure (cl_texts (hl_command H)) (plugin_id_of p)) r))
       (\<lambda>out. (case validate_output (hl_output_bytes H) p out of
           Some problem \<Rightarrow> hdone (Inl (Output_Refused (plugin_id_of p) problem))
         | None \<Rightarrow> hdone (Inr out))))))"

definition commit_and_execute ::
    "'w host_libs \<Rightarrow> registered_plugin \<Rightarrow> 'w execution_origin \<Rightarrow> ustr \<Rightarrow> ustr \<Rightarrow> ustr \<Rightarrow> handler_output \<Rightarrow>
     ('w, action_completed list) hop" where
  "commit_and_execute H p orig source did v out =
     hbind (hstore (store_commit (hl_store H) (rp_instance_id p) v (ho_state_ops out) (ho_commands out)
         \<lparr>co_quota_bytes = unat (pp_storage_quota (mf_permissions (rp_manifest p))),
          co_origin = Some (outbox_origin_of orig source), co_delivery = Some (source, did)\<rparr>))
       (execute_commands H p orig source v)"

section \<open>Completions\<close>

text \<open>\<open>str::parse::<usize>\<close> of a byte string: digits after an optional plus sign, without overflow.\<close>

definition parse_usize :: "8 word list \<Rightarrow> nat option" where
  "parse_usize data =
     (let s = map unat data;
          digits = (case s of [] \<Rightarrow> [] | c # cs \<Rightarrow> if c = 43 then cs else s)
      in if digits = [] \<or> \<not> list_all is_ascii_digit digits \<or> undecimal digits > usize_max then None
         else Some (undecimal digits))"

definition action_completion_depth :: "plugin_event \<Rightarrow> nat" where
  "action_completion_depth env =
     (case List.find (\<lambda>x. xp_namespace x = action_completion_depth_namespace) (pe_extensions env) of
        None \<Rightarrow> 0
      | Some x \<Rightarrow> (case parse_usize (xp_data x) of None \<Rightarrow> 0 | Some d \<Rightarrow> d))"

definition completed_event :: ustr where "completed_event = lit ''action.completed''"

definition bpp_version_text :: ustr where "bpp_version_text = lit ''1.2.0''"

definition action_completion_envelope ::
    "'w host_libs \<Rightarrow> 'w execution_origin \<Rightarrow> nat \<Rightarrow> action_completed \<Rightarrow> ('w, plugin_event) hop" where
  "action_completion_envelope H orig depth a =
     hbind (hclock H) (\<lambda>now. hbind (huuid H) (\<lambda>did. hbind (huuid H) (\<lambda>v.
       hbind (encoded (lit ''action-completed'') (hl_completion_json H a)) (\<lambda>j. hdone (Inr
         \<lparr>pe_protocol_version = bpp_version_text,
          pe_event_id = lit ''action/'' @ ac_source_invocation_id a @ lit ''/'' @ ac_command_id a,
          pe_delivery_id = did, pe_invocation_id = v, pe_occurred_at_ms = Some now, pe_received_at_ms = now,
          pe_adapter_id = origin_adapter_id orig, pe_event_type = completed_event, pe_trace_id = None,
          pe_payload = j,
          pe_extensions = [\<lparr>xp_namespace = action_completion_depth_namespace, xp_schema_version = lit ''1.0.0'',
            xp_content_type = lit ''text/plain'', xp_data = map of_nat (decimal depth)\<rparr>]\<rparr>)))))"

fun completion_envelopes ::
    "'w host_libs \<Rightarrow> 'w execution_origin \<Rightarrow> nat \<Rightarrow> action_completed list \<Rightarrow> ('w, plugin_event list) hop" where
  "completion_envelopes H orig depth [] = hdone (Inr [])"
| "completion_envelopes H orig depth (a # as1) =
     hbind (action_completion_envelope H orig depth a)
       (\<lambda>e. hbind (completion_envelopes H orig depth as1) (\<lambda>es. hdone (Inr (e # es))))"

definition prepare_action_completion_envelopes ::
    "'w host_libs \<Rightarrow> registered_plugin \<Rightarrow> 'w execution_origin \<Rightarrow> action_completed list \<Rightarrow> nat \<Rightarrow>
     ('w, plugin_event list) hop" where
  "prepare_action_completion_envelopes H p orig completions parent_depth =
     (if priority_for (rp_manifest p) completed_event None = None then hdone (Inr [])
      else completion_envelopes H orig (usize_sat_add parent_depth 1) completions)"

fun enqueue_all :: "registered_plugin \<Rightarrow> 'w execution_origin \<Rightarrow> int \<Rightarrow> plugin_event list \<Rightarrow> ('w, unit) hop" where
  "enqueue_all p orig now [] = hdone (Inr ())"
| "enqueue_all p orig now (e # es) =
     hbind (hupdate (enqueue_delivery (rp_instance_id p) e (outbox_origin_of orig (pe_event_id e)) now))
       (\<lambda>_. enqueue_all p orig now es)"

definition interrupted_completion :: "pending_command \<Rightarrow> action_completed" where
  "interrupted_completion q =
     \<lparr>ac_source_event_id = oo_source_event_id (pq_origin q), ac_source_invocation_id = pq_invocation_id q,
      ac_command_id = pc_command_id (pq_command q), ac_kind = pc_kind (pq_command q),
      ac_status = Action_Unknown, ac_retryable = False, ac_result = None,
      ac_error_code = Some (lit ''interrupted_before_result''),
      ac_error_message = Some (lit ''host restarted before the command result was durably recorded'')\<rparr>"

fun interrupt_commands :: "'w host_libs \<Rightarrow> registered_plugin \<Rightarrow> pending_command list \<Rightarrow> ('w, unit) hop" where
  "interrupt_commands H p [] = hdone (Inr ())"
| "interrupt_commands H p (q # qs) =
     hbind (persist_completion H p (pq_instance_id q) (pq_invocation_id q) (pc_command_id (pq_command q))
         (interrupted_completion q))
       (\<lambda>_. interrupt_commands H p qs)"

text \<open>The completions of committed deliveries, queued in the order of the outbox; each reads the clock again.\<close>

fun enqueue_each :: "'w host_libs \<Rightarrow> registered_plugin \<Rightarrow> 'w execution_origin \<Rightarrow> plugin_event list \<Rightarrow> ('w, unit) hop" where
  "enqueue_each H p orig [] = hdone (Inr ())"
| "enqueue_each H p orig (e # es) =
     hbind (hclock H)
       (\<lambda>now. hbind (enqueue_all p orig now [e]) (\<lambda>_. enqueue_each H p orig es))"

fun queue_results ::
    "'w host_libs \<Rightarrow> registered_plugin \<Rightarrow> (pending_command \<Rightarrow> 'w execution_origin) \<Rightarrow> (plugin_event \<Rightarrow> nat) \<Rightarrow>
     (pending_command \<times> action_completed \<times> plugin_event) list \<Rightarrow> ('w, plugin_event list) hop" where
  "queue_results H p orig depth [] = hdone (Inr [])"
| "queue_results H p orig depth ((q, a, parent) # rs) =
     hbind (prepare_action_completion_envelopes H p (orig q) [a] (depth parent))
       (\<lambda>es. hbind (enqueue_each H p (orig q) es)
       (\<lambda>_. hbind (queue_results H p orig depth rs) (\<lambda>more. hdone (Inr (es @ more)))))"

section \<open>One delivery\<close>

definition delivery_error_retryable :: "host_error \<Rightarrow> bool" where
  "delivery_error_retryable e =
     (case e of Transient_Invocation _ _ \<Rightarrow> True | Invocation_Timeout _ \<Rightarrow> True | Invocation_Panic _ \<Rightarrow> True
      | _ \<Rightarrow> False)"

definition fatal_trap :: "host_error \<Rightarrow> bool" where
  "fatal_trap e = (case e of Guest_Trapped _ _ \<Rightarrow> True | Resource_Trapped _ _ \<Rightarrow> True | _ \<Rightarrow> False)"

text \<open>\<open>BASE.saturating_mul(1 << min(attempt - 1, 10))\<close>.\<close>

definition delivery_retry_delay_ms :: "nat \<Rightarrow> u64" where
  "delivery_retry_delay_ms attempt =
     (let n = unat delivery_retry_base_ms * 2 ^ min (attempt - 1) 10
      in if n \<ge> 2 ^ 64 then - 1 else of_nat n)"

definition failure_policy_of :: "host_error \<Rightarrow> nat \<Rightarrow> int \<Rightarrow> failure_policy" where
  "failure_policy_of e attempt now =
     (let retryable = delivery_error_retryable e
      in \<lparr>fp_next_attempt_ms = min (now + min (uint (delivery_retry_delay_ms attempt)) store_i64_max) store_i64_max,
          fp_max_attempts = (if retryable then max_delivery_attempts else 1),
          fp_circuit_threshold = (if fatal_trap e then 1 else if retryable then circuit_breaker_failures else u32_max),
          fp_counts_toward_circuit = (fatal_trap e \<or> retryable), fp_now_ms = now\<rparr>)"

definition record_delivery_failure ::
    "'w host_libs \<Rightarrow> registered_plugin \<Rightarrow> plugin_event \<Rightarrow> nat \<Rightarrow> host_error \<Rightarrow> ('w, u64 option) hop" where
  "record_delivery_failure H p env attempt e =
     hbind (hclock H) (\<lambda>now.
     hbind (hsql (mark_delivery_failed (rp_instance_id p) (pe_event_id env) (pe_delivery_id env) (hl_error_text H e)
         (failure_policy_of e attempt now)))
       (\<lambda>r. if \<not> fr_updated r then hdone (Inr None)
            else hbind (if fatal_trap e \<or> fr_circuit_open r then disable p else hdone (Inr ()))
              (\<lambda>_. hdone (Inr (if \<not> fr_dead_letter r \<and> \<not> fr_circuit_open r \<and> delivery_error_retryable e
                 then Some (delivery_retry_delay_ms attempt) else None)))))"

definition reject_excessive_action_completion ::
    "'w host_libs \<Rightarrow> registered_plugin \<Rightarrow> plugin_event \<Rightarrow> outbox_origin \<Rightarrow> ('w, bool) hop" where
  "reject_excessive_action_completion H p env orig =
     (if pe_event_type env \<noteq> completed_event \<or> action_completion_depth env \<le> max_action_completion_chain
      then hdone (Inr False)
      else
        hbind (hclock H) (\<lambda>now.
        hbind (hsql (begin_delivery (rp_instance_id p) env orig now))
          (\<lambda>d. hbind
             (case d of
                None \<Rightarrow> hdone (Inr ())
              | Some delivery \<Rightarrow>
                  hbind (hsql (mark_delivery_failed (rp_instance_id p) (pe_event_id env) (pe_delivery_id env)
                      (lit ''action completion chain exceeded limit'')
                      \<lparr>fp_next_attempt_ms = now, fp_max_attempts = pn_attempt delivery, fp_circuit_threshold = 1,
                       fp_counts_toward_circuit = True, fp_now_ms = now\<rparr>))
                    (\<lambda>_. hdone (Inr ())))
             (\<lambda>_. hbind (disable p) (\<lambda>_. hdone (Inr True))))))"

definition recover_committed_delivery ::
    "'w host_libs \<Rightarrow> registered_plugin \<Rightarrow> 'w execution_origin \<Rightarrow> plugin_event \<Rightarrow> ('w, plugin_event list) hop" where
  "recover_committed_delivery H p orig env =
     (let i = rp_instance_id p; v = pe_invocation_id env
      in hbind (hread (\<lambda>h. filter (\<lambda>q. pq_invocation_id q = v) (pending_commands i (h_db h))))
           (\<lambda>qs. hbind (interrupt_commands H p qs)
           (\<lambda>_. hbind (hread (\<lambda>h. filter (\<lambda>r. pq_invocation_id (fst r) = v) (committed_command_results i (h_db h))))
           (\<lambda>rs. hbind (queue_results H p (\<lambda>_. orig) (\<lambda>_. action_completion_depth env) rs)
           (\<lambda>es. hbind (hclock H)
           (\<lambda>now. hbind (hsql (finalize_committed_delivery i (pe_event_id env) now))
           (\<lambda>_. hdone (Inr es))))))))"

text \<open>The handler and the commit, whose error is what the failure of the delivery is recorded with.\<close>

definition handle_delivery ::
    "'w host_libs \<Rightarrow> registered_plugin \<Rightarrow> 'w guest \<Rightarrow> 'w execution_origin \<Rightarrow> plugin_event \<Rightarrow>
     ('w, bool \<times> action_completed list) hop" where
  "handle_delivery H p g orig env =
     hbind (invoke_envelope H p g env)
       (\<lambda>out. hbind (commit_and_execute H p orig (pe_event_id env) (pe_delivery_id env) (pe_invocation_id env) out)
       (\<lambda>completions. hdone (Inr (ho_disposition out = Stop, completions))))"

definition finish_delivery ::
    "'w host_libs \<Rightarrow> registered_plugin \<Rightarrow> 'w execution_origin \<Rightarrow> plugin_event \<Rightarrow> bool \<times> action_completed list \<Rightarrow>
     ('w, bool \<times> plugin_event list) hop" where
  "finish_delivery H p orig env result =
     hbind (prepare_action_completion_envelopes H p orig (snd result) (action_completion_depth env))
       (\<lambda>es. hbind (hclock H)
       (\<lambda>now. hbind (enqueue_all p orig now es)
       (\<lambda>_. hbind (hsql (mark_delivery_succeeded (rp_instance_id p) (pe_event_id env) (pe_delivery_id env) now))
       (\<lambda>owned. hdone (Inr (if owned then (fst result, es) else (False, [])))))))"

datatype delivery_turn = Turn_Done bool "plugin_event list" | Turn_Again u64

definition fail_delivery ::
    "'w host_libs \<Rightarrow> registered_plugin \<Rightarrow> 'w execution_origin \<Rightarrow> plugin_event \<Rightarrow> nat \<Rightarrow> host_error \<Rightarrow>
     ('w, delivery_turn) hop" where
  "fail_delivery H p orig env attempt e =
     hbind (record_delivery_failure H p env attempt e)
       (\<lambda>again.
         (case again of
            Some delay \<Rightarrow> hdone (Inr (Turn_Again delay))
          | None \<Rightarrow>
              hbind (recover_committed_delivery H p orig env) (\<lambda>es. hdone (Inr (Turn_Done False es)))))"

definition attempt_delivery ::
    "'w host_libs \<Rightarrow> registered_plugin \<Rightarrow> 'w guest \<Rightarrow> 'w execution_origin \<Rightarrow> plugin_event \<Rightarrow> nat \<Rightarrow>
     ('w, delivery_turn) hop" where
  "attempt_delivery H p g orig env attempt h =
     (case handle_delivery H p g orig env h of
        (Inr result, h1) \<Rightarrow>
          hbind (finish_delivery H p orig env result) (\<lambda>(stop, es). hdone (Inr (Turn_Done stop es))) h1
      | (Inl e, h1) \<Rightarrow>
          if e = Task_Dropped then (Inl Task_Dropped, h1) else fail_delivery H p orig env attempt e h1)"

text \<open>The envelope of a turn: new identifiers and, for an event of an adapter, its extensions.\<close>

definition turn_envelope ::
    "'w host_libs \<Rightarrow> registered_plugin \<Rightarrow> 'w execution_origin \<Rightarrow> plugin_event \<Rightarrow> ('w, plugin_event) hop" where
  "turn_envelope H p orig env =
     hbind (huuid H) (\<lambda>did. hbind (huuid H) (\<lambda>v.
       (let env1 = env\<lparr>pe_delivery_id := did, pe_invocation_id := v\<rparr>
        in (case orig of
              From_Event ctx ad \<Rightarrow>
                if pe_event_type env = completed_event then hdone (Inr env1)
                else
                  (case event_extensions (sl_value (hl_store H)) p ctx of
                     Inl e \<Rightarrow> hdone (Inl (Invocation_Failed (plugin_id_of p) (hl_extension_text H e)))
                   | Inr xs \<Rightarrow> hdone (Inr (env1\<lparr>pe_extensions := xs\<rparr>)))
            | _ \<Rightarrow> hdone (Inr env1)))))"

text \<open>One turn of the loop of \<open>deliver_single_with_retry\<close>, with the envelope that the next turn starts from.\<close>

definition begin_turn ::
    "'w host_libs \<Rightarrow> registered_plugin \<Rightarrow> 'w guest \<Rightarrow> 'w execution_origin \<Rightarrow> plugin_event \<Rightarrow> ('w, delivery_turn) hop" where
  "begin_turn H p g orig env =
     (let o1 = outbox_origin_of orig (pe_event_id env)
      in hbind (reject_excessive_action_completion H p env o1)
           (\<lambda>rejected. if rejected then hdone (Inr (Turn_Done False []))
              else
                hbind (hclock H) (\<lambda>now.
                hbind (hsql (begin_delivery (rp_instance_id p) env o1 now))
                  (\<lambda>d. (case d of
                     None \<Rightarrow> hdone (Inr (Turn_Done False []))
                   | Some delivery \<Rightarrow> attempt_delivery H p g orig env (pn_attempt delivery))))))"

text \<open>Nothing proves that the loop ends but what the store does, so it may not return.\<close>

partial_function (option) delivery_loop ::
    "'w host_libs \<Rightarrow> registered_plugin \<Rightarrow> 'w guest \<Rightarrow> 'w execution_origin \<Rightarrow> plugin_event \<Rightarrow> 'w host_state \<Rightarrow>
     ((host_error + bool \<times> plugin_event list) \<times> 'w host_state) option" where
  "delivery_loop H p g orig env h =
     (case turn_envelope H p orig env h of
        (Inl e, h1) \<Rightarrow> Some (Inl e, h1)
      | (Inr env1, h1) \<Rightarrow>
          (case begin_turn H p g orig env1 h1 of
             (Inl e, h2) \<Rightarrow> Some (Inl e, h2)
           | (Inr (Turn_Done stop es), h2) \<Rightarrow> Some (Inr (stop, es), h2)
           | (Inr (Turn_Again delay), h2) \<Rightarrow>
               (case hsleep H h2 of
                  (Inl e, h3) \<Rightarrow> Some (Inl e, h3)
                | (Inr _, h3) \<Rightarrow> delivery_loop H p g orig env1 h3)))"

definition deliver_single_with_retry ::
    "'w host_libs \<Rightarrow> registered_plugin \<Rightarrow> 'w guest \<Rightarrow> 'w execution_origin \<Rightarrow> plugin_event \<Rightarrow> 'w host_state \<Rightarrow>
     ((host_error + bool \<times> plugin_event list) \<times> 'w host_state) option" where
  "deliver_single_with_retry H p g orig env h =
     (if circuit_open (rp_instance_id p) (h_db h)
      then Some (hbind (disable p) (\<lambda>_. hdone (Inr (False, []))) h)
      else delivery_loop H p g orig env h)"

partial_function (option) deliver_action_completions ::
    "'w host_libs \<Rightarrow> registered_plugin \<Rightarrow> 'w guest \<Rightarrow> 'w execution_origin \<Rightarrow> plugin_event list \<Rightarrow> 'w host_state \<Rightarrow>
     ((host_error + unit) \<times> 'w host_state) option" where
  "deliver_action_completions H p g orig queue h =
     (case queue of
        [] \<Rightarrow> Some (Inr (), h)
      | env # rest \<Rightarrow>
          (case deliver_single_with_retry H p g orig env h of
             None \<Rightarrow> None
           | Some (Inl e, h1) \<Rightarrow> Some (Inl e, h1)
           | Some (Inr (_, nested), h1) \<Rightarrow>
               if lc_state (h_life h1) = Disabled then Some (Inr (), h1)
               else deliver_action_completions H p g orig (rest @ nested) h1))"

text \<open>An error of the completions is logged; they are recovered later.\<close>

definition deliver_with_retry ::
    "'w host_libs \<Rightarrow> registered_plugin \<Rightarrow> 'w guest \<Rightarrow> 'w execution_origin \<Rightarrow> plugin_event \<Rightarrow> 'w host_state \<Rightarrow>
     ((host_error + bool) \<times> 'w host_state) option" where
  "deliver_with_retry H p g orig env h =
     (case deliver_single_with_retry H p g orig env h of
        None \<Rightarrow> None
      | Some (Inl e, h1) \<Rightarrow> Some (Inl e, h1)
      | Some (Inr (stop, completions), h1) \<Rightarrow>
          map_option (\<lambda>(r, h2). (if r = Inl Task_Dropped then Inl Task_Dropped else Inr stop, h2))
            (deliver_action_completions H p g orig completions h1))"

section \<open>Recovery\<close>

definition recover_pending_commands ::
    "'w host_libs \<Rightarrow> registered_plugin \<Rightarrow> ('w, unit) hop" where
  "recover_pending_commands H p =
     (let i = rp_instance_id p
      in hbind (hread (\<lambda>h. pending_commands i (h_db h)))
           (\<lambda>qs. hbind (interrupt_commands H p qs)
           (\<lambda>_. hbind (hread (\<lambda>h. committed_command_results i (h_db h)))
           (\<lambda>rs. hbind (queue_results H p (\<lambda>q. From_Recovery (pq_origin q)) action_completion_depth rs)
           (\<lambda>_. hbind (hclock H)
           (\<lambda>now. hupdate (finalize_committed_deliveries i now)))))))"

text \<open>How long the recovery of a delivery waits: until its next attempt, but no longer than the usual delay.\<close>

definition recovery_wait_ms :: "pending_delivery \<Rightarrow> int \<Rightarrow> nat" where
  "recovery_wait_ms q now =
     min (nat (pn_next_attempt_ms q - now)) (unat (delivery_retry_delay_ms (max (pn_attempt q) 1)))"

fun recover_deliveries ::
    "'w host_libs \<Rightarrow> registered_plugin \<Rightarrow> 'w guest \<Rightarrow> pending_delivery list \<Rightarrow> 'w host_state \<Rightarrow>
     ((host_error + unit) \<times> 'w host_state) option" where
  "recover_deliveries H p g [] h = Some (Inr (), h)"
| "recover_deliveries H p g (q # qs) h =
     (case hbind (hclock H)
         (\<lambda>now. hbind (if recovery_wait_ms q now > 0 then hsleep H else hdone (Inr ()))
         (\<lambda>_. hbind (huuid H) (\<lambda>did. hbind (huuid H) (\<lambda>v. hdone (Inr
            ((pn_envelope q)\<lparr>pe_delivery_id := did, pe_invocation_id := v\<rparr>)))))) h of
        (Inl e, h1) \<Rightarrow> Some (Inl e, h1)
      | (Inr env, h1) \<Rightarrow>
          (case deliver_with_retry H p g (From_Recovery (pn_origin q)) env h1 of
             None \<Rightarrow> None
           | Some (Inl e, h2) \<Rightarrow> Some (Inl e, h2)
           | Some (Inr _, h2) \<Rightarrow>
               if lc_state (h_life h2) = Disabled then Some (Inr (), h2) else recover_deliveries H p g qs h2))"

definition recover_pending_deliveries ::
    "'w host_libs \<Rightarrow> registered_plugin \<Rightarrow> 'w guest \<Rightarrow> 'w host_state \<Rightarrow> ((host_error + unit) \<times> 'w host_state) option" where
  "recover_pending_deliveries H p g h =
     (let i = rp_instance_id p
      in (case hbind (hclock H)
             (\<lambda>now. hbind (hupdate (requeue_running_deliveries i now))
             (\<lambda>_. hread (\<lambda>h. sort_key (\<lambda>q. pn_next_attempt_ms q) (sort_key (\<lambda>q. pn_event_id q)
                (pending_deliveries i store_i64_max (h_db h)))))) h of
            (Inl e, h1) \<Rightarrow> Some (Inl e, h1)
          | (Inr qs, h1) \<Rightarrow> recover_deliveries H p g qs h1))"

section \<open>Scheduled events\<close>

definition scheduled_envelope ::
    "'w host_libs \<Rightarrow> ustr \<Rightarrow> scheduled_task \<Rightarrow> ('w, plugin_event) hop" where
  "scheduled_envelope H who task =
     hbind (hclock H) (\<lambda>now. hbind (huuid H) (\<lambda>did. hbind (huuid H) (\<lambda>v.
       hbind (encoded who (hl_triggered_json H \<lparr>sg_task_id = st_task_id task,
             sg_scheduled_at_ms = st_run_at_ms task, sg_payload = st_payload task\<rparr>))
         (\<lambda>j. hdone (Inr
           \<lparr>pe_protocol_version = bpp_version_text,
            pe_event_id = lit ''schedule/'' @ st_instance_id task @ lit ''/'' @ st_task_id task,
            pe_delivery_id = did, pe_invocation_id = v, pe_occurred_at_ms = Some (st_run_at_ms task),
            pe_received_at_ms = now, pe_adapter_id = st_adapter_id task,
            pe_event_type = lit ''schedule.triggered'', pe_trace_id = None, pe_payload = j,
            pe_extensions = []\<rparr>)))))"

definition fire_schedule ::
    "'w host_libs \<Rightarrow> registered_plugin \<Rightarrow> 'w guest \<Rightarrow> scheduled_task \<Rightarrow> 'w host_state \<Rightarrow>
     ((host_error + unit) \<times> 'w host_state) option" where
  "fire_schedule H p g task h =
     (if lc_state (h_life h) \<noteq> Ready_Instance
      then Some (Inl (Invocation_Failed (plugin_id_of p)
             (lit ''plugin instance is not ready for scheduled delivery'')), h)
      else if priority_for (rp_manifest p) (lit ''schedule.triggered'') None = None
      then Some (Inl (Output_Refused (plugin_id_of p) No_Schedule_Subscription), h)
      else
        (case scheduled_envelope H (plugin_id_of p) task h of
           (Inl e, h1) \<Rightarrow> Some (Inl e, h1)
         | (Inr env, h1) \<Rightarrow>
             map_option (\<lambda>(r, h2). (case r of Inl e \<Rightarrow> Inl e | Inr _ \<Rightarrow> Inr (), h2))
               (deliver_with_retry H p g (From_Schedule (st_adapter_id task)) env h1)))"

text \<open>The worker with number \<open>n\<close>: it sleeps, claims its task and then waits for its partition; at its end it removes
  the handle that its task has then. A dropped worker does none of what is left.\<close>

definition end_worker :: "scheduled_task \<Rightarrow> 'w host_state \<Rightarrow> 'w host_state" where
  "end_worker task h =
     h\<lparr>h_workers := (h_workers h)\<lparr>wt_handles :=
         hm_del (st_instance_id task, st_task_id task) (wt_handles (h_workers h))\<rparr>\<rparr>"

definition schedule_worker ::
    "'w host_libs \<Rightarrow> registered_plugin \<Rightarrow> 'w guest \<Rightarrow> nat \<Rightarrow> scheduled_task \<Rightarrow> 'w host_state \<Rightarrow>
     ((host_error + unit) \<times> 'w host_state) option" where
  "schedule_worker H p g n task h =
     (let i = st_instance_id task; t = st_task_id task
      in (case hbind (hclock H) (\<lambda>_. hbind (hsleep H) (\<lambda>_. hsql (claim_schedule i t))) (h\<lparr>h_self := Some n\<rparr>) of
            (Inl e, h1) \<Rightarrow> Some (Inl e, h1)
          | (Inr False, h1) \<Rightarrow> Some (Inr (), end_worker task h1)
          | (Inr True, h1) \<Rightarrow>
              (case hsleep H h1 of
                 (Inl e, h2) \<Rightarrow> Some (Inl e, h2)
               | (Inr _, h2) \<Rightarrow>
                   map_option (\<lambda>(r, h3).
                       if r = Inl Task_Dropped then (r, h3)
                       else (r, end_worker task (h3\<lparr>h_db := finish_schedule i t (h_db h3)\<rparr>)))
                     (fire_schedule H p g task h2))))"

end
