(* ===== verification/PluginHost.thy ===== *)
theory PluginHost
  imports PluginDelivery
begin

text \<open>
  The host of all plugins (\<open>StaticPluginHost\<close> of \<open>crates/plugin-host/src/runtime/mod.rs\<close>): registration,
  configuration changes, upgrades with rollback, dispatch of an event to the plugins that subscribe to it, and
  shutdown. The host is the list of registered plugins, each with its lifecycle and configuration, beside the state
  that they share; an operation on one plugin runs with that plugin's lifecycle and configuration in the host state,
  and other tasks change those of the other plugins meanwhile. Waiting for the gate of a plugin is an await like any
  other; what the gate itself guarantees is the theory \<open>PluginGate\<close>.
\<close>

section \<open>State\<close>

text \<open>A plugin as it is registered: its manifest, the schema of its configuration and its code.\<close>

record 'w static_plugin =
  sp_manifest :: plugin_manifest
  sp_schema :: "json option"
  sp_guest :: "'w guest"

record 'w plugin_cell =
  cell_plugin :: registered_plugin
  cell_code :: "'w static_plugin"
  cell_life :: lifecycle
  cell_config :: "(ustr, json) btmap"

record 'w plugin_host =
  ph_cells :: "'w plugin_cell list"
  ph_instances :: "ustr set"
  ph_command_names :: "ustr set"
  ph_host :: "'w host_state"

text \<open>
  What the lifecycle operations use beside \<open>host_libs\<close>: the libraries behind the manifest, the JSON Schema library
  (the serialised size of a schema, its compilation and the validation of a configuration), and what other
  tasks do to the lifecycle and the configuration of the other plugins while one waits.
\<close>

record ('w, 'r) host_env =
  he_libs :: "'w host_libs"
  he_manifest :: "'r manifest_libs"
  he_manifest_text :: "manifest_error \<Rightarrow> ustr"
  he_schema_bytes :: "json \<Rightarrow> ustr + 8 word list"
  he_schema_compile :: "json \<Rightarrow> ustr + (json \<Rightarrow> ustr option)"
  he_peers :: "'w \<Rightarrow> ustr \<Rightarrow> lifecycle \<times> (ustr, json) btmap \<Rightarrow> lifecycle \<times> (ustr, json) btmap"

definition max_config_schema_bytes :: nat where "max_config_schema_bytes = 256 * 1024"

section \<open>Errors that are handled\<close>

definition hraise :: "host_error \<Rightarrow> ('w, 'a) hop" where
  "hraise e = hdone (Inl e)"

text \<open>The code after an error; a dropped task runs none of it.\<close>

definition hcatch :: "('w, 'a) hop \<Rightarrow> (host_error \<Rightarrow> ('w, 'a) hop) \<Rightarrow> ('w, 'a) hop" where
  "hcatch m k h =
     (case m h of
        (Inl e, h1) \<Rightarrow> if e = Task_Dropped then (Inl Task_Dropped, h1) else k e h1
      | (Inr x, h1) \<Rightarrow> (Inr x, h1))"

section \<open>Supervised calls\<close>

definition supervised ::
    "'w host_libs \<Rightarrow> ustr \<Rightarrow> (plugin_error \<Rightarrow> host_error) \<Rightarrow> ('w \<Rightarrow> 'a supervised \<times> 'w) \<Rightarrow> ('w, 'a) hop" where
  "supervised H who err call = hbind (hawait H call) (\<lambda>r. hdone (supervised_result who err r))"

definition plugin_text :: "'w host_libs \<Rightarrow> plugin_error \<Rightarrow> ustr" where
  "plugin_text H = et_plugin (cl_texts (hl_command H))"

definition supervised_shutdown :: "'w host_libs \<Rightarrow> registered_plugin \<Rightarrow> 'w guest \<Rightarrow> ('w, unit) hop" where
  "supervised_shutdown H p g =
     supervised H (plugin_id_of p) (\<lambda>e. Invocation_Failed (plugin_id_of p) (plugin_text H e)) (g_shutdown g)"

definition supervised_init ::
    "'w host_libs \<Rightarrow> registered_plugin \<Rightarrow> 'w guest \<Rightarrow> (ustr, json) btmap \<Rightarrow> ('w, unit) hop" where
  "supervised_init H p g config =
     supervised H (plugin_id_of p) (\<lambda>e. Init_Failed (plugin_id_of p) (plugin_text H e)) (g_init g config)"

definition supervised_validate_config ::
    "'w host_libs \<Rightarrow> plugin_manifest \<Rightarrow> 'w guest \<Rightarrow> (ustr, json) btmap \<Rightarrow> ('w, unit) hop" where
  "supervised_validate_config H m g config =
     supervised H (mf_id m) (\<lambda>e. Config_Refused (mf_id m) (plugin_text H e)) (g_validate_config g config)"

definition supervised_migration ::
    "'w host_libs \<Rightarrow> registered_plugin \<Rightarrow> 'w guest \<Rightarrow> nat \<Rightarrow> nat \<Rightarrow> (ustr, state_value) btmap \<Rightarrow>
     ('w, state_op list) hop" where
  "supervised_migration H p g from to state =
     supervised H (plugin_id_of p) (\<lambda>e. Migration_Failed (plugin_id_of p) (plugin_text H e))
       (g_migrate_state g from to state)"

text \<open>The health is true when it is \<open>HealthStatus::Healthy\<close>.\<close>

definition supervised_health :: "'w host_libs \<Rightarrow> registered_plugin \<Rightarrow> 'w guest \<Rightarrow> ('w, unit) hop" where
  "supervised_health H p g =
     hbind (supervised H (plugin_id_of p) (\<lambda>e. Invocation_Failed (plugin_id_of p) (plugin_text H e)) (g_health g))
       (\<lambda>healthy. if healthy then hdone (Inr ())
          else hraise (Invocation_Failed (plugin_id_of p) (lit ''upgraded plugin reported degraded health'')))"

section \<open>Configurations\<close>

definition validate_config_schema ::
    "('w, 'r) host_env \<Rightarrow> 'w static_plugin \<Rightarrow> ustr \<Rightarrow> (ustr, json) btmap \<Rightarrow> host_error option" where
  "validate_config_schema E sp who config =
     (case sp_schema sp of
        None \<Rightarrow> None
      | Some schema \<Rightarrow>
          (case he_schema_bytes E schema of
             Inl t \<Rightarrow> Some (Config_Schema_Refused who t)
           | Inr bytes \<Rightarrow>
               if length bytes > max_config_schema_bytes
               then Some (Config_Schema_Refused who (lit ''schema size '' @ decimal (length bytes) @
                      lit '' exceeds the Host limit '' @ decimal max_config_schema_bytes))
               else
                 (case external_schema_reference schema of
                    Some r \<Rightarrow> Some (Config_Schema_Refused who
                      (lit ''external schema reference `'' @ r @ lit ''` is not allowed''))
                  | None \<Rightarrow>
                      (case he_schema_compile E schema of
                         Inl t \<Rightarrow> Some (Config_Schema_Refused who t)
                       | Inr validate \<Rightarrow>
                           map_option (\<lambda>t. Config_Refused who (lit ''JSON Schema validation failed: '' @ t))
                             (validate (J_Object config))))))"

definition check_config_schema ::
    "('w, 'r) host_env \<Rightarrow> 'w static_plugin \<Rightarrow> (ustr, json) btmap \<Rightarrow> ('w, unit) hop" where
  "check_config_schema E sp config =
     hdone (case validate_config_schema E sp (mf_id (sp_manifest sp)) config of None \<Rightarrow> Inr () | Some e \<Rightarrow> Inl e)"

definition check_manifest :: "('w, 'r) host_env \<Rightarrow> plugin_manifest \<Rightarrow> host_error option" where
  "check_manifest E m = map_option (\<lambda>e. Bad_Manifest (he_manifest_text E e)) (validate_manifest (he_manifest E) m)"

definition hcheck :: "host_error option \<Rightarrow> ('w, unit) hop" where
  "hcheck r = hdone (case r of None \<Rightarrow> Inr () | Some e \<Rightarrow> Inl e)"

definition validate_plugin_config ::
    "('w, 'r) host_env \<Rightarrow> 'w static_plugin \<Rightarrow> (ustr, json) btmap \<Rightarrow> ('w, unit) hop" where
  "validate_plugin_config E sp config =
     hbind (hcheck (check_manifest E (sp_manifest sp)))
       (\<lambda>_. hbind (check_config_schema E sp config)
       (\<lambda>_. supervised_validate_config (he_libs E) (sp_manifest sp) (sp_guest sp) config))"

text \<open>The error of a change that leaves the plugin in service.\<close>

definition ready_again :: "host_error \<Rightarrow> ('w, 'a) hop" where
  "ready_again e = hbind (set_state Ready_Instance) (\<lambda>_. hraise e)"

definition replace_config :: "(ustr, json) btmap \<Rightarrow> ('w, unit) hop" where
  "replace_config config h = (Inr (), h\<lparr>h_config := config\<rparr>)"

text \<open>The new configuration did not start; the old one is started again.\<close>

definition rollback_config ::
    "'w host_libs \<Rightarrow> registered_plugin \<Rightarrow> 'w guest \<Rightarrow> (ustr, json) btmap \<Rightarrow> host_error \<Rightarrow> ('w, unit) hop" where
  "rollback_config H p g old update_error =
     hbind (hcatch (supervised_init H p g old)
         (\<lambda>e. hbind (disable p) (\<lambda>_. hraise (Init_Failed (plugin_id_of p)
            (lit ''new configuration failed ('' @ hl_error_text H update_error @ lit ''); rollback failed ('' @
             hl_error_text H e @ lit '')'')))))
       (\<lambda>_. ready_again update_error)"

definition start_config ::
    "'w host_libs \<Rightarrow> registered_plugin \<Rightarrow> 'w guest \<Rightarrow> (ustr, json) btmap \<Rightarrow> (ustr, json) btmap \<Rightarrow> ('w, unit) hop" where
  "start_config H p g old config =
     hcatch
       (hbind (supervised_init H p g config)
         (\<lambda>_. hbind (replace_config config) (\<lambda>_. hbind (remove_assets p) (\<lambda>_. set_state Ready_Instance))))
       (rollback_config H p g old)"

definition update_plugin_config ::
    "('w, 'r) host_env \<Rightarrow> registered_plugin \<Rightarrow> 'w static_plugin \<Rightarrow> (ustr, json) btmap \<Rightarrow> ('w, unit) hop" where
  "update_plugin_config E p sp config =
     (let H = he_libs E; g = sp_guest sp
      in hbind begin_draining
           (\<lambda>_. hbind (hsleep H)
           (\<lambda>_. hbind (hread h_config)
           (\<lambda>old. hbind (hcatch (check_config_schema E sp config) ready_again)
           (\<lambda>_. hbind (hcatch (supervised_validate_config H (rp_manifest p) g config) ready_again)
           (\<lambda>_. hbind (hcatch (supervised_shutdown H p g) ready_again)
           (\<lambda>_. start_config H p g old config)))))))"

section \<open>Upgrades\<close>

text \<open>The candidate takes over the private state and starts; a candidate that is not healthy is shut down again.\<close>

definition migrate_candidate ::
    "'w host_libs \<Rightarrow> registered_plugin \<Rightarrow> registered_plugin \<Rightarrow> 'w guest \<Rightarrow> (ustr, state_value) btmap \<Rightarrow> ('w, unit) hop" where
  "migrate_candidate H old cand g state =
     (let from = mf_state_version (rp_manifest old); to = mf_state_version (rp_manifest cand)
      in if to = from then hdone (Inr ())
         else
           hbind (supervised_migration H cand g (unat from) (unat to) state)
             (\<lambda>ops. hbind (hcheck (map_option (Output_Refused (plugin_id_of cand))
                (validate_output (hl_output_bytes H) cand
                  \<lparr>ho_disposition = Continue, ho_state_ops = ops, ho_commands = [], ho_diagnostics = []\<rparr>)))
             (\<lambda>_. hbind (huuid H)
             (\<lambda>u. hbind (hstore (store_commit (hl_store H) (rp_instance_id old) (lit ''migration-'' @ u) ops []
                \<lparr>co_quota_bytes = unat (pp_storage_quota (mf_permissions (rp_manifest cand))),
                 co_origin = None, co_delivery = None\<rparr>))
             (\<lambda>_. hdone (Inr ()))))))"

definition start_candidate ::
    "'w host_libs \<Rightarrow> registered_plugin \<Rightarrow> registered_plugin \<Rightarrow> 'w guest \<Rightarrow> (ustr, json) btmap \<Rightarrow>
     (ustr, state_value) btmap \<Rightarrow> ('w, unit) hop" where
  "start_candidate H old cand g config state =
     hbind (migrate_candidate H old cand g state)
       (\<lambda>_. hbind (supervised_init H cand g config)
       (\<lambda>_. hcatch (supervised_health H cand g)
          (\<lambda>e. hbind (hcatch (supervised_shutdown H cand g) (\<lambda>_. hdone (Inr ()))) (\<lambda>_. hraise e))))"

definition rollback_upgrade ::
    "'w host_libs \<Rightarrow> registered_plugin \<Rightarrow> 'w guest \<Rightarrow> (ustr, state_value) btmap \<Rightarrow> (ustr, json) btmap \<Rightarrow> host_error \<Rightarrow>
     ('w, unit) hop" where
  "rollback_upgrade H old g state config upgrade_error =
     hbind (hstore (replace_state (rp_instance_id old) state))
       (\<lambda>_. hbind (hcatch (supervised_init H old g config)
          (\<lambda>e. hbind (disable old) (\<lambda>_. hraise (Migration_Failed (plugin_id_of old)
             (lit ''upgrade failed ('' @ hl_error_text H upgrade_error @ lit ''); old plugin restart failed ('' @
              hl_error_text H e @ lit '')'')))))
       (\<lambda>_. hbind (set_state Ready_Instance)
       (\<lambda>_. hbind (recover_plugin_schedules old) (\<lambda>_. hraise upgrade_error))))"

text \<open>The part of an upgrade in which the old plugin is out of service.\<close>

definition replace_plugin ::
    "'w host_libs \<Rightarrow> registered_plugin \<Rightarrow> 'w guest \<Rightarrow> registered_plugin \<Rightarrow> 'w guest \<Rightarrow> (ustr, json) btmap \<Rightarrow>
     ('w, unit) hop" where
  "replace_plugin H old og cand cg config =
     (let i = rp_instance_id old
      in hbind begin_draining
           (\<lambda>_. hbind (hsleep H)
           (\<lambda>_. hbind (pause_plugin_schedules i)
           (\<lambda>_. hbind (hread h_config)
           (\<lambda>old_config. hbind (hread (\<lambda>h. snapshot i (h_db h)))
           (\<lambda>old_state. hbind (hcatch (supervised_shutdown H old og)
                (\<lambda>e. hbind (set_state Ready_Instance) (\<lambda>_. hbind (recover_plugin_schedules old) (\<lambda>_. hraise e))))
           (\<lambda>_. hcatch (start_candidate H old cand cg config old_state)
                (rollback_upgrade H old og old_state old_config))))))))"

section \<open>Operations on one of the plugins\<close>

definition see_cell :: "'w plugin_cell \<Rightarrow> 'w plugin_host \<Rightarrow> 'w host_state" where
  "see_cell c s = (ph_host s)\<lparr>h_life := cell_life c, h_config := cell_config c\<rparr>"

text \<open>The cell of the plugin as its operation left it, and the others as other tasks left them.\<close>

definition peer_cell :: "('w, 'r) host_env \<Rightarrow> 'w \<Rightarrow> 'w plugin_cell \<Rightarrow> 'w plugin_cell" where
  "peer_cell E w c =
     (case he_peers E w (rp_instance_id (cell_plugin c)) (cell_life c, cell_config c) of
        (l, config) \<Rightarrow> c\<lparr>cell_life := l, cell_config := config\<rparr>)"

definition leave_cell :: "('w, 'r) host_env \<Rightarrow> nat \<Rightarrow> 'w host_state \<Rightarrow> 'w plugin_host \<Rightarrow> 'w plugin_host" where
  "leave_cell E k h s =
     s\<lparr>ph_host := h,
       ph_cells := (map (peer_cell E (h_world h)) (ph_cells s))
         [k := (ph_cells s ! k)\<lparr>cell_life := h_life h, cell_config := h_config h\<rparr>]\<rparr>"

definition at_cell ::
    "('w, 'r) host_env \<Rightarrow> nat \<Rightarrow> ('w plugin_cell \<Rightarrow> ('w, 'a) hop) \<Rightarrow> 'w plugin_host \<Rightarrow>
     (host_error + 'a) \<times> 'w plugin_host" where
  "at_cell E k m s =
     (let c = ph_cells s ! k
      in (case m c (see_cell c s) of (r, h) \<Rightarrow> (r, leave_cell E k h s)))"

text \<open>\<open>iter().position\<close>.\<close>

fun find_cell :: "ustr \<Rightarrow> 'w plugin_cell list \<Rightarrow> nat option" where
  "find_cell i [] = None"
| "find_cell i (c # cs) =
     (if rp_instance_id (cell_plugin c) = i then Some 0 else map_option Suc (find_cell i cs))"

definition not_registered :: "ustr \<Rightarrow> host_error" where
  "not_registered i = Invocation_Failed i (lit ''plugin instance is not registered'')"

definition update_config ::
    "('w, 'r) host_env \<Rightarrow> ustr \<Rightarrow> (ustr, json) btmap \<Rightarrow> 'w plugin_host \<Rightarrow> (host_error + unit) \<times> 'w plugin_host" where
  "update_config E i config s =
     (case find_cell i (ph_cells s) of
        None \<Rightarrow> (Inl (not_registered i), s)
      | Some k \<Rightarrow> at_cell E k (\<lambda>c. update_plugin_config E (cell_plugin c) (cell_code c) config) s)"

definition instance_state_of :: "ustr \<Rightarrow> 'w plugin_host \<Rightarrow> instance_state option" where
  "instance_state_of i s = map_option (\<lambda>k. lc_state (cell_life (ph_cells s ! k))) (find_cell i (ph_cells s))"

definition instance_manifest :: "ustr \<Rightarrow> 'w plugin_host \<Rightarrow> plugin_manifest option" where
  "instance_manifest i s = map_option (\<lambda>k. rp_manifest (cell_plugin (ph_cells s ! k))) (find_cell i (ph_cells s))"

definition command_declarations :: "'w plugin_host \<Rightarrow> command_declaration list" where
  "command_declarations s = concat (map (\<lambda>c. mf_commands (rp_manifest (cell_plugin c))) (ph_cells s))"

definition all_command_names :: "'w plugin_cell list \<Rightarrow> ustr set" where
  "all_command_names cells = set (concat (map (\<lambda>c. command_names_of (rp_manifest (cell_plugin c))) cells))"

definition rebuild_command_names :: "'w plugin_host \<Rightarrow> 'w plugin_host" where
  "rebuild_command_names s = s\<lparr>ph_command_names := all_command_names (ph_cells s)\<rparr>"

text \<open>The plugin that registration and upgrade make: not yet in service, with the capabilities that it requests and the
  administrator grants.\<close>

definition new_plugin ::
    "'w static_plugin \<Rightarrow> ustr \<Rightarrow> ustr set \<Rightarrow> platform_query list \<Rightarrow> registered_plugin" where
  "new_plugin sp i grants queries =
     \<lparr>rp_manifest = sp_manifest sp, rp_instance_id = i,
      rp_granted = requested_capabilities (sp_manifest sp) \<inter> grants, rp_queries = queries\<rparr>"

definition fresh_life :: lifecycle where
  "fresh_life = \<lparr>lc_state = Draining, lc_generation = 0\<rparr>"

definition run_shared :: "('w, 'a) hop \<Rightarrow> 'w plugin_host \<Rightarrow> (host_error + 'a) \<times> 'w plugin_host" where
  "run_shared m s = (case m (ph_host s) of (r, h) \<Rightarrow> (r, s\<lparr>ph_host := h\<rparr>))"

text \<open>The checks of an upgrade that come before the old plugin is touched.\<close>

definition check_upgrade :: "('w, 'r) host_env \<Rightarrow> nat \<Rightarrow> 'w static_plugin \<Rightarrow> 'w plugin_host \<Rightarrow> host_error option" where
  "check_upgrade E k sp s =
     (let m = sp_manifest sp; old = rp_manifest (cell_plugin (ph_cells s ! k))
      in case check_manifest E m of
           Some e \<Rightarrow> Some e
         | None \<Rightarrow>
             if mf_id m \<noteq> mf_id old then Some (Bad_Manifest (lit ''an upgrade cannot change plugin ID''))
             else if mf_state_version m < mf_state_version old
             then Some (Bad_Manifest (lit ''an upgrade cannot decrease state_version''))
             else map_option Duplicate_Command (validate_upgrade_commands (map cell_plugin (ph_cells s)) k m))"

definition upgrade ::
    "('w, 'r) host_env \<Rightarrow> ustr \<Rightarrow> 'w static_plugin \<Rightarrow> (ustr, json) btmap \<Rightarrow> ustr set \<Rightarrow> platform_query list \<Rightarrow>
     'w plugin_host \<Rightarrow> (host_error + unit) \<times> 'w plugin_host" where
  "upgrade E i sp config grants queries s =
     (let H = he_libs E
      in case find_cell i (ph_cells s) of
           None \<Rightarrow> (Inl (not_registered i), s)
         | Some k \<Rightarrow>
             (let cand = new_plugin sp i grants queries
              in case at_cell E k (\<lambda>c. hbind (hcheck (check_upgrade E k sp s))
                     (\<lambda>_. hbind (check_config_schema E sp config)
                     (\<lambda>_. hbind (supervised_validate_config H (sp_manifest sp) (sp_guest sp) config)
                     (\<lambda>_. replace_plugin H (cell_plugin c) (sp_guest (cell_code c)) cand (sp_guest sp) config)))) s of
                   (Inl e, s1) \<Rightarrow> (Inl e, s1)
                 | (Inr _, s1) \<Rightarrow>
                     run_shared (hbind (remove_assets cand) (\<lambda>_. recover_plugin_schedules cand))
                       (rebuild_command_names
                         (s1\<lparr>ph_cells := (ph_cells s1)
                            [k := \<lparr>cell_plugin = cand, cell_code = sp,
                                  cell_life = fresh_life\<lparr>lc_state := Ready_Instance\<rparr>, cell_config = config\<rparr>]\<rparr>))))"

text \<open>\<open>upgrade_trusted\<close>: every capability that the manifest requests is granted.\<close>

definition upgrade_trusted where
  "upgrade_trusted E i sp config queries = upgrade E i sp config (requested_capabilities (sp_manifest sp)) queries"

section \<open>Registration\<close>

text \<open>A plugin that is being registered is known to no other task.\<close>

definition unshared :: "'w host_libs \<Rightarrow> 'w host_libs" where
  "unshared H = H\<lparr>hl_lifecycle := (\<lambda>_ l. l), hl_configure := (\<lambda>_ c. c)\<rparr>"

definition new_plugin_host :: "'w host_state \<Rightarrow> 'w plugin_host" where
  "new_plugin_host h = \<lparr>ph_cells = [], ph_instances = {}, ph_command_names = {}, ph_host = h\<rparr>"

definition check_registration ::
    "('w, 'r) host_env \<Rightarrow> 'w static_plugin \<Rightarrow> ustr \<Rightarrow> 'w plugin_host \<Rightarrow> host_error option" where
  "check_registration E sp i s =
     (case check_manifest E (sp_manifest sp) of
        Some e \<Rightarrow> Some e
      | None \<Rightarrow>
          if i \<in> ph_instances s then Some (Duplicate_Instance i)
          else map_option Duplicate_Command
            (List.find (\<lambda>n. n \<in> ph_command_names s) (command_names_of (sp_manifest sp))))"

text \<open>The plugin starts, and what a stopped host left of it is recovered, unless its circuit is open.\<close>

definition start_plugin ::
    "'w host_libs \<Rightarrow> registered_plugin \<Rightarrow> 'w guest \<Rightarrow> (ustr, json) btmap \<Rightarrow> 'w host_state \<Rightarrow>
     ((host_error + unit) \<times> 'w host_state) option" where
  "start_plugin H p g config h =
     (if circuit_open (rp_instance_id p) (h_db h) then Some (set_state Disabled h)
      else
        (case hbind (supervised_init H p g config)
             (\<lambda>_. hbind (set_state Ready_Instance) (\<lambda>_. recover_pending_commands H p)) h of
           (Inl e, h1) \<Rightarrow> Some (Inl e, h1)
         | (Inr _, h1) \<Rightarrow>
             (case recover_pending_deliveries H p g h1 of
                None \<Rightarrow> None
              | Some (Inl e, h2) \<Rightarrow> Some (Inl e, h2)
              | Some (Inr _, h2) \<Rightarrow> Some (recover_plugin_schedules p h2))))"

definition register ::
    "('w, 'r) host_env \<Rightarrow> 'w static_plugin \<Rightarrow> ustr \<Rightarrow> (ustr, json) btmap \<Rightarrow> ustr set \<Rightarrow> platform_query list \<Rightarrow>
     'w plugin_host \<Rightarrow> ((host_error + unit) \<times> 'w plugin_host) option" where
  "register E sp i config grants queries s =
     (let H = unshared (he_libs E); p = new_plugin sp i grants queries
      in (case hbind (hcheck (check_registration E sp i s))
             (\<lambda>_. hbind (check_config_schema E sp config)
             (\<lambda>_. supervised_validate_config H (sp_manifest sp) (sp_guest sp) config))
             ((ph_host s)\<lparr>h_life := fresh_life, h_config := config\<rparr>) of
           (Inl e, h1) \<Rightarrow> Some (Inl e, s\<lparr>ph_host := h1\<rparr>)
         | (Inr _, h1) \<Rightarrow>
             (case start_plugin H p (sp_guest sp) config h1 of
                None \<Rightarrow> None
              | Some (Inl e, h2) \<Rightarrow> Some (Inl e, s\<lparr>ph_host := h2\<rparr>)
              | Some (Inr _, h2) \<Rightarrow>
                  Some (Inr (),
                    s\<lparr>ph_instances := insert i (ph_instances s),
                      ph_command_names := ph_command_names s \<union> set (command_names_of (sp_manifest sp)),
                      ph_cells := map (peer_cell E (h_world h2)) (ph_cells s) @
                        [\<lparr>cell_plugin = p, cell_code = sp, cell_life = h_life h2, cell_config = h_config h2\<rparr>],
                      ph_host := h2\<rparr>))))"

definition register_trusted where
  "register_trusted E sp i config queries = register E sp i config (requested_capabilities (sp_manifest sp)) queries"

section \<open>Dispatch\<close>

definition event_envelope ::
    "'w host_libs \<Rightarrow> json event_context \<Rightarrow> json event \<Rightarrow> ('w, plugin_event) hop" where
  "event_envelope H ctx event =
     hbind (huuid H) (\<lambda>v. hbind (hclock H) (\<lambda>now. hbind (huuid H) (\<lambda>did.
       hbind (encoded (lit ''event-envelope'') (hl_event_json H event)) (\<lambda>j. hdone (Inr
         \<lparr>pe_protocol_version = bpp_version_text, pe_event_id = ctx_event_id ctx, pe_delivery_id = did,
          pe_invocation_id = v, pe_occurred_at_ms = ctx_occurred_at_ms ctx, pe_received_at_ms = now,
          pe_adapter_id = ctx_adapter_id ctx, pe_event_type = event_type_of event, pe_trace_id = None,
          pe_payload = j, pe_extensions = []\<rparr>)))))"

text \<open>The plugins that subscribe to the event, by priority and then by identifier.\<close>

definition dispatch_order :: "json event \<Rightarrow> 'w plugin_host \<Rightarrow> nat list" where
  "dispatch_order event s =
     (let asked = List.map_filter
            (\<lambda>k. map_option (\<lambda>pr. (pr, k))
               (priority_for (rp_manifest (cell_plugin (ph_cells s ! k))) (event_type_of event) (event_scope event)))
            [0..<length (ph_cells s)]
      in map snd (sort_key fst (sort_key (\<lambda>x. plugin_id_of (cell_plugin (ph_cells s ! snd x))) asked)))"

text \<open>The delivery to one of them, unless it is out of service or was so while the invocation was queued.\<close>

definition dispatch_plugin ::
    "'w host_libs \<Rightarrow> registered_plugin \<Rightarrow> 'w guest \<Rightarrow> json event_context \<Rightarrow> (json, 'w) adapter \<Rightarrow> json event \<Rightarrow>
     'w host_state \<Rightarrow> ((host_error + bool option) \<times> 'w host_state) option" where
  "dispatch_plugin H p g ctx ad event h =
     (case ready_generation h of
        None \<Rightarrow> Some (Inr None, h)
      | Some n \<Rightarrow>
          (case hsleep H h of
             (Inl e, h1) \<Rightarrow> Some (Inl e, h1)
           | (Inr _, h1) \<Rightarrow>
               if \<not> is_ready_generation n h1 then Some (Inr None, h1)
               else
                 (case event_envelope H ctx event h1 of
                    (Inl e, h2) \<Rightarrow> Some (Inl e, h2)
                  | (Inr env, h2) \<Rightarrow>
                      map_option (\<lambda>(r, h3). (case r of Inl e \<Rightarrow> Inl e | Inr stop \<Rightarrow> Inr (Some stop), h3))
                        (deliver_with_retry H p g (From_Event ctx ad) env h2))))"

definition dispatch_cell ::
    "('w, 'r) host_env \<Rightarrow> json event_context \<Rightarrow> (json, 'w) adapter \<Rightarrow> json event \<Rightarrow> nat \<Rightarrow> 'w plugin_host \<Rightarrow>
     ((host_error + bool option) \<times> 'w plugin_host) option" where
  "dispatch_cell E ctx ad event k s =
     (let c = ph_cells s ! k
      in map_option (\<lambda>(r, h). (r, leave_cell E k h s))
           (dispatch_plugin (he_libs E) (cell_plugin c) (sp_guest (cell_code c)) ctx ad event (see_cell c s)))"

fun dispatch_all ::
    "('w, 'r) host_env \<Rightarrow> json event_context \<Rightarrow> (json, 'w) adapter \<Rightarrow> json event \<Rightarrow> nat list \<Rightarrow> 'w plugin_host \<Rightarrow>
     ((host_error + unit) \<times> 'w plugin_host) option" where
  "dispatch_all E ctx ad event [] s = Some (Inr (), s)"
| "dispatch_all E ctx ad event (k # ks) s =
     (case dispatch_cell E ctx ad event k s of
        None \<Rightarrow> None
      | Some (r, s1) \<Rightarrow>
          if r = Inl Task_Dropped then Some (Inl Task_Dropped, s1)
          else if r = Inr (Some True) then Some (Inr (), s1)
          else dispatch_all E ctx ad event ks s1)"

definition dispatch ::
    "('w, 'r) host_env \<Rightarrow> json event_context \<Rightarrow> (json, 'w) adapter \<Rightarrow> json event \<Rightarrow> 'w plugin_host \<Rightarrow>
     ((host_error + unit) \<times> 'w plugin_host) option" where
  "dispatch E ctx ad event s = dispatch_all E ctx ad event (dispatch_order event s) s"

section \<open>Shutdown\<close>

definition stop_schedulers :: "'w plugin_host \<Rightarrow> 'w plugin_host" where
  "stop_schedulers s =
     (let h = ph_host s; t = h_workers h
      in s\<lparr>ph_host := h\<lparr>h_workers := t\<lparr>wt_handles := [], wt_aborted := map snd (wt_handles t) @ wt_aborted t\<rparr>,
             h_db := fold (\<lambda>c. requeue_firing_schedules (rp_instance_id (cell_plugin c))) (ph_cells s) (h_db h)\<rparr>\<rparr>)"

text \<open>One plugin: the error that it ends with, if it was in service.\<close>

definition shutdown_plugin :: "'w host_libs \<Rightarrow> registered_plugin \<Rightarrow> 'w guest \<Rightarrow> ('w, host_error option) hop" where
  "shutdown_plugin H p g =
     hbind (hread (\<lambda>h. lc_state (h_life h)))
       (\<lambda>st.
         if st = Disabled \<or> st = Stopped then hbind (remove_assets p) (\<lambda>_. hdone (Inr None))
         else
           hbind (if st = Ready_Instance then begin_draining else hdone (Inr ()))
             (\<lambda>_. hbind (hsleep H)
             (\<lambda>_. hbind (hcatch (hbind (supervised_shutdown H p g) (\<lambda>_. hbind (set_state Stopped) (\<lambda>_. hdone (Inr None))))
                    (\<lambda>e. hbind (set_state Disabled) (\<lambda>_. hdone (Inr (Some e)))))
             (\<lambda>r. hbind (remove_assets p) (\<lambda>_. hdone (Inr r))))))"

fun shutdown_cells ::
    "('w, 'r) host_env \<Rightarrow> nat list \<Rightarrow> host_error option \<Rightarrow> 'w plugin_host \<Rightarrow> (host_error + unit) \<times> 'w plugin_host" where
  "shutdown_cells E [] first s = (case first of None \<Rightarrow> Inr () | Some e \<Rightarrow> Inl e, s)"
| "shutdown_cells E (k # ks) first s =
     (case at_cell E k (\<lambda>c. shutdown_plugin (he_libs E) (cell_plugin c) (sp_guest (cell_code c))) s of
        (Inl e, s1) \<Rightarrow> (Inl e, s1)
      | (Inr r, s1) \<Rightarrow> shutdown_cells E ks (if first = None then r else first) s1)"

definition shutdown :: "('w, 'r) host_env \<Rightarrow> 'w plugin_host \<Rightarrow> (host_error + unit) \<times> 'w plugin_host" where
  "shutdown E s = shutdown_cells E [0..<length (ph_cells s)] None (stop_schedulers s)"

end
