(* ===== verification/PluginDeliveryProps.thy ===== *)
theory PluginDeliveryProps
  imports PluginDelivery PluginQueue "HOL-Library.Multiset"
begin

text \<open>
  What the deliveries of the plugin host keep to. Whatever other tasks do between, every operation of the host
  changes the store by calls of the store only, so that the automata of its histories apply; on that rest the
  bound of the retries, the end of the chains of completions and the settling of deliveries and commands.
\<close>

named_theorems evolves_intros \<open>operations change the store by its calls\<close>

section \<open>The store changes by its calls\<close>

fun is_recover :: "store_call \<Rightarrow> bool" where
  "is_recover (Do_Recover_Dead i t) = True"
| "is_recover _ = False"

fun recovers :: "ustr \<Rightarrow> store_call \<Rightarrow> bool" where
  "recovers i (Do_Recover_Dead j t) = (j = i)"
| "recovers i _ = False"

text \<open>A call of the host itself or of another task.\<close>

definition host_call :: "'w host_libs \<Rightarrow> store_call \<Rightarrow> bool" where
  "host_call H c \<longleftrightarrow> \<not> is_recover c \<or> (\<exists>w. c \<in> set (hl_calls H w))"

definition db_evolves :: "'w host_libs \<Rightarrow> plugin_db \<Rightarrow> plugin_db \<Rightarrow> bool" where
  "db_evolves H db db' \<longleftrightarrow> (\<exists>cs. list_all (host_call H) cs \<and> db' = store_run (hl_store H) cs db)"

definition handler_runs :: "'w host_state \<Rightarrow> nat" where
  "handler_runs h = length (filter (\<lambda>x. case x of Ran_Handler e did \<Rightarrow> True | _ \<Rightarrow> False) (h_log h))"

definition evolves :: "'w host_libs \<Rightarrow> nat \<Rightarrow> 'w host_state \<Rightarrow> 'w host_state \<Rightarrow> bool" where
  "evolves H n h h' \<longleftrightarrow> db_evolves H (h_db h) (h_db h') \<and> handler_runs h' \<le> handler_runs h + n"

text \<open>An operation that calls the handler at most \<open>n\<close> times.\<close>

definition hop_evolves :: "'w host_libs \<Rightarrow> nat \<Rightarrow> ('w, 'a) hop \<Rightarrow> bool" where
  "hop_evolves H n m \<longleftrightarrow> (\<forall>h. evolves H n h (snd (m h)))"

lemma db_evolves_refl [simp]: "db_evolves H db db"
  unfolding db_evolves_def by (rule exI [of _ "[]"]) simp

lemma db_evolves_trans: "db_evolves H a b \<Longrightarrow> db_evolves H b c \<Longrightarrow> db_evolves H a c"
  unfolding db_evolves_def by (metis list_all_append store_run_append)

lemma db_evolves_call: "\<not> is_recover c \<Longrightarrow> db_evolves H db (store_step (hl_store H) c db)"
  unfolding db_evolves_def by (rule exI [of _ "[c]"]) (simp add: host_call_def)

lemma db_evolves_others: "db_evolves H (h_db h) (h_db (others H h))"
  unfolding db_evolves_def others_def
  by (rule exI [of _ "hl_calls H (h_world h)"]) (auto simp: host_call_def list_all_iff)

lemma evolves_refl [simp]: "evolves H 0 h h"
  by (simp add: evolves_def)

lemma evolves_trans: "evolves H m a b \<Longrightarrow> evolves H n b c \<Longrightarrow> evolves H (m + n) a c"
  by (auto simp: evolves_def intro: db_evolves_trans)

lemma evolves_weaken: "evolves H m a b \<Longrightarrow> m \<le> n \<Longrightarrow> evolves H n a b"
  by (simp add: evolves_def)

lemma hop_weaken: "hop_evolves H m f \<Longrightarrow> m \<le> n \<Longrightarrow> hop_evolves H n f"
  by (auto simp: hop_evolves_def intro: evolves_weaken)

lemma evolves_others: "evolves H 0 h (others H h)"
  by (simp add: evolves_def db_evolves_others) (simp add: handler_runs_def others_def)

lemma handler_runs_update [simp]:
  "handler_runs (h\<lparr>h_db := db\<rparr>) = handler_runs h" "handler_runs (h\<lparr>h_assets := a\<rparr>) = handler_runs h"
  "handler_runs (h\<lparr>h_life := l\<rparr>) = handler_runs h" "handler_runs (h\<lparr>h_workers := ws\<rparr>) = handler_runs h"
  "handler_runs (h\<lparr>h_config := c\<rparr>) = handler_runs h" "handler_runs (h\<lparr>h_world := w\<rparr>) = handler_runs h"
  "handler_runs (h\<lparr>h_self := x\<rparr>) = handler_runs h"
  by (simp_all add: handler_runs_def)

lemma hop_evolvesD: "hop_evolves H n m \<Longrightarrow> m h = (r, h') \<Longrightarrow> evolves H n h h'"
  unfolding hop_evolves_def by (metis snd_conv)

lemma hop_evolvesI: "(\<And>h. evolves H n h (snd (m h))) \<Longrightarrow> hop_evolves H n m"
  by (simp add: hop_evolves_def)

lemma evolves_done [evolves_intros]: "hop_evolves H 0 (hdone r)"
  by (simp add: hop_evolves_def hdone_def)

lemma evolves_bind_sum:
  assumes "hop_evolves H m f" "\<And>x. hop_evolves H n (g x)"
  shows "hop_evolves H (m + n) (hbind f g)"
proof (rule hop_evolvesI)
  fix h
  obtain r h1 where f: "f h = (r, h1)" by (cases "f h")
  note 1 = hop_evolvesD [OF assms(1) f]
  show "evolves H (m + n) h (snd (hbind f g h))"
  proof (cases r)
    case (Inr x)
    have "evolves H n h1 (snd (g x h1))" using assms(2) [of x] by (simp add: hop_evolves_def)
    with evolves_trans [OF 1] f Inr show ?thesis by (simp add: hbind_def)
  qed (use evolves_weaken [OF 1, of "m + n"] f in \<open>simp add: hbind_def\<close>)
qed

lemmas evolves_bind [evolves_intros] = evolves_bind_sum [where m = 0, unfolded add_0]

lemma evolves_bind_first: "hop_evolves H n f \<Longrightarrow> (\<And>x. hop_evolves H 0 (g x)) \<Longrightarrow> hop_evolves H n (hbind f g)"
  using evolves_bind_sum [of H n f 0 g] by simp

lemma evolves_sql: "\<not> is_recover c \<Longrightarrow> (\<And>db. fst (f db) = store_step (hl_store H) c db) \<Longrightarrow> hop_evolves H 0 (hsql f)"
  by (rule hop_evolvesI) (simp add: evolves_def hsql_def split_beta db_evolves_call)

lemma evolves_store: "\<not> is_recover c \<Longrightarrow> (\<And>db. fst (f db) = store_step (hl_store H) c db) \<Longrightarrow> hop_evolves H 0 (hstore f)"
proof (rule hop_evolvesI)
  fix h :: "'b host_state"
  assume "\<not> is_recover c" and f: "\<And>db. fst (f db) = store_step (hl_store H) c db"
  then have "db_evolves H (h_db h) (fst (f (h_db h)))" by (simp add: db_evolves_call)
  then show "evolves H 0 h (snd (hstore f h))"
    by (simp add: evolves_def hstore_def split_beta split: sum.split)
qed

lemma evolves_update: "\<not> is_recover c \<Longrightarrow> (\<And>db. f db = store_step (hl_store H) c db) \<Longrightarrow> hop_evolves H 0 (hupdate f)"
  by (rule hop_evolvesI) (simp add: evolves_def hupdate_def db_evolves_call)

lemma evolves_same: "(\<And>h. h_db (snd (m h)) = h_db h \<and> handler_runs (snd (m h)) = handler_runs h) \<Longrightarrow> hop_evolves H 0 m"
  by (rule hop_evolvesI) (simp add: evolves_def)

lemma evolves_basic [evolves_intros]:
  "hop_evolves H 0 (hread f)" "hop_evolves H 0 (hclock H')" "hop_evolves H 0 (huuid H')"
  "hop_evolves H 0 (hlog (Ran_Command v c))" "hop_evolves H 0 (set_state st)" "hop_evolves H 0 begin_draining"
  "hop_evolves H 0 (remove_assets p)" "hop_evolves H 0 (launch_schedule task)" "hop_evolves H 0 (abort_schedule i t)"
  by (rule evolves_same; simp add: hread_def hclock_def huuid_def hlog_def set_state_def begin_draining_def
      remove_assets_def launch_schedule_def abort_schedule_def Let_def split: prod.split option.split;
      simp add: handler_runs_def)+

lemma evolves_log: "hop_evolves H 1 (hlog (Ran_Handler e did))"
  by (rule hop_evolvesI) (simp add: evolves_def hlog_def handler_runs_def)

lemma evolves_await [evolves_intros]: "hop_evolves H 0 (hawait H f)"
proof (rule hop_evolvesI)
  fix h :: "'a host_state"
  obtain x w where "f (h_world h) = (x, w)" by (cases "f (h_world h)")
  then show "evolves H 0 h (snd (hawait H f h))"
    using evolves_others [of H "h\<lparr>h_world := w\<rparr>"] by (simp add: hawait_def evolves_def Let_def)
qed

lemma evolves_sleep [evolves_intros]: "hop_evolves H 0 (hsleep H)"
  unfolding hsleep_def by (rule evolves_await)

lemma evolves_calls [evolves_intros]:
  "hop_evolves H 0 (hsql (begin_delivery i env o1 now))"
  "hop_evolves H 0 (hsql (mark_delivery_failed i e did t pol))"
  "hop_evolves H 0 (hsql (mark_delivery_succeeded i e did now))"
  "hop_evolves H 0 (hsql (finalize_committed_delivery i e now))"
  "hop_evolves H 0 (hsql (create_schedule (hl_store H) task q))"
  "hop_evolves H 0 (hsql (cancel_schedule i t))"
  "hop_evolves H 0 (hsql (recover_schedules i))"
  "hop_evolves H 0 (hsql (claim_schedule i t))"
  "hop_evolves H 0 (hupdate (mark_command i v c st a))"
  "hop_evolves H 0 (hupdate (enqueue_delivery i env o1 now))"
  "hop_evolves H 0 (hupdate (requeue_running_deliveries i now))"
  "hop_evolves H 0 (hupdate (finalize_committed_deliveries i now))"
  "hop_evolves H 0 (hstore (store_commit (hl_store H) i v ops cs opts))"
             apply (rule evolves_sql [where c = "Do_Begin i env o1 now"]; simp)
            apply (rule evolves_sql [where c = "Do_Failed i e did t pol"]; simp)
           apply (rule evolves_sql [where c = "Do_Succeeded i e did now"]; simp)
          apply (rule evolves_sql [where c = "Do_Finalize_One i e now"]; simp)
         apply (rule evolves_sql [where c = "Do_Create_Schedule task q"]; simp)
        apply (rule evolves_sql [where c = "Do_Cancel_Schedule i t"]; simp)
       apply (rule evolves_sql [where c = "Do_Recover_Schedules i"]; simp)
      apply (rule evolves_sql [where c = "Do_Claim_Schedule i t"]; simp)
     apply (rule evolves_update [where c = "Do_Mark_Command i v c st a"]; simp)
    apply (rule evolves_update [where c = "Do_Enqueue i env o1 now"]; simp)
   apply (rule evolves_update [where c = "Do_Requeue i now"]; simp)
  apply (rule evolves_update [where c = "Do_Finalize_All i now"]; simp)
  apply (rule evolves_store [where c = "Do_Commit i v ops cs opts"]; simp)
  done

lemma evolves_cases [evolves_intros]:
  "(\<And>x. hop_evolves H 0 (f x)) \<Longrightarrow> hop_evolves H 0 g \<Longrightarrow> hop_evolves H 0 (case y of None \<Rightarrow> g | Some x \<Rightarrow> f x)"
  "(\<And>x. hop_evolves H 0 (f x)) \<Longrightarrow> (\<And>x. hop_evolves H 0 (g' x)) \<Longrightarrow>
     hop_evolves H 0 (case z of Inl x \<Rightarrow> f x | Inr x \<Rightarrow> g' x)"
  "hop_evolves H 0 m \<Longrightarrow> hop_evolves H 0 n \<Longrightarrow> hop_evolves H 0 (if b then m else n)"
  by (simp_all split: option.split sum.split)

lemma evolves_disable [evolves_intros]: "hop_evolves H 0 (disable p)"
  by (simp add: disable_def evolves_intros)

lemma evolves_encoded [evolves_intros]: "hop_evolves H 0 (encoded who r)"
  by (simp add: encoded_def evolves_intros)

lemma evolves_schedule [evolves_intros]: "hop_evolves H 0 (execute_schedule_command H p orig c)"
  by (simp add: execute_schedule_command_def schedule_create_command_def schedule_cancel_command_def Let_def
      evolves_intros)

lemma evolves_assets: "evolves H 0 h (others H (h\<lparr>h_assets := a, h_world := w\<rparr>))"
  using evolves_others [of H "h\<lparr>h_assets := a, h_world := w\<rparr>"] by (simp add: evolves_def)

lemma evolves_run_command [evolves_intros]: "hop_evolves H 0 (run_command H p orig c)"
proof -
  have "hop_evolves H 0 (hbind (execute_schedule_command H p orig c) (\<lambda>r. hdone (Inr (Completed r))))"
    by (intro evolves_intros)
  then show ?thesis
    by (auto simp: run_command_def hop_evolves_def evolves_assets Let_def simp del: lit_Cons split: option.splits prod.splits)
qed

lemma evolves_persist [evolves_intros]: "hop_evolves H 0 (persist_completion H p i v cid a)"
  by (simp add: persist_completion_def evolves_intros)

lemma evolves_execute [evolves_intros]: "hop_evolves H 0 (execute_command H p orig source v c)"
  by (simp add: execute_command_def Let_def evolves_intros)

lemma evolves_execute_all [evolves_intros]: "hop_evolves H 0 (execute_commands H p orig source v cs)"
  by (induction cs) (simp_all add: evolves_intros)

lemma evolves_commit [evolves_intros]: "hop_evolves H 0 (commit_and_execute H p orig source did v out)"
  by (simp add: commit_and_execute_def evolves_intros)

lemma evolves_invoke: "hop_evolves H 1 (invoke_envelope H p g env)"
  unfolding invoke_envelope_def
  by (rule evolves_bind [OF evolves_basic(1)], rule evolves_bind_first [OF evolves_log]) (intro evolves_intros)

lemma evolves_envelope [evolves_intros]: "hop_evolves H 0 (action_completion_envelope H orig depth a)"
  by (simp add: action_completion_envelope_def evolves_intros)

lemma evolves_envelopes [evolves_intros]: "hop_evolves H 0 (completion_envelopes H orig depth cs)"
  by (induction cs) (simp_all add: evolves_intros)

lemma evolves_prepare [evolves_intros]: "hop_evolves H 0 (prepare_action_completion_envelopes H p orig cs d)"
  by (simp add: prepare_action_completion_envelopes_def evolves_intros)

lemma evolves_enqueue_all [evolves_intros]: "hop_evolves H 0 (enqueue_all p orig now es)"
  by (induction es) (simp_all add: evolves_intros)

lemma evolves_interrupt [evolves_intros]: "hop_evolves H 0 (interrupt_commands H p qs)"
  by (induction qs) (simp_all add: evolves_intros)

lemma evolves_enqueue_each [evolves_intros]: "hop_evolves H 0 (enqueue_each H p orig es)"
  by (induction es) (simp_all add: evolves_intros del: enqueue_all.simps)

lemma evolves_queue_results [evolves_intros]: "hop_evolves H 0 (queue_results H p orig depth rs)"
  by (induction rs) (auto simp: evolves_intros)

lemma evolves_record [evolves_intros]: "hop_evolves H 0 (record_delivery_failure H p env attempt e)"
  by (simp add: record_delivery_failure_def evolves_intros)

lemma evolves_reject [evolves_intros]: "hop_evolves H 0 (reject_excessive_action_completion H p env o1)"
  by (simp add: reject_excessive_action_completion_def evolves_intros)

lemma evolves_recover_committed [evolves_intros]: "hop_evolves H 0 (recover_committed_delivery H p orig env)"
  by (simp add: recover_committed_delivery_def Let_def evolves_intros)

lemma evolves_handle: "hop_evolves H 1 (handle_delivery H p g orig env)"
  unfolding handle_delivery_def by (rule evolves_bind_first [OF evolves_invoke]) (intro evolves_intros)

lemma evolves_finish [evolves_intros]: "hop_evolves H 0 (finish_delivery H p orig env r)"
  by (simp add: finish_delivery_def evolves_intros)

lemma evolves_fail [evolves_intros]: "hop_evolves H 0 (fail_delivery H p orig env attempt e)"
  by (simp add: fail_delivery_def evolves_intros)

lemma evolves_turn_envelope [evolves_intros]: "hop_evolves H 0 (turn_envelope H p orig env)"
  by (simp add: turn_envelope_def Let_def evolves_intros split: execution_origin.split)

lemma evolves_attempt: "hop_evolves H 1 (attempt_delivery H p g orig env attempt)"
proof (rule hop_evolvesI)
  fix h :: "'a host_state"
  obtain r h1 where 1: "handle_delivery H p g orig env h = (r, h1)" by (cases "handle_delivery H p g orig env h")
  note 2 = evolves_trans [OF hop_evolvesD [OF evolves_handle 1], where n = 0, unfolded add_0_right]
  show "evolves H 1 h (snd (attempt_delivery H p g orig env attempt h))"
  proof (cases r)
    case (Inl e)
    have "evolves H 0 h1 (snd (fail_delivery H p orig env attempt e h1))"
      using evolves_fail unfolding hop_evolves_def by blast
    with 1 2 [OF evolves_refl] 2 Inl show ?thesis by (simp add: attempt_delivery_def)
  next
    case (Inr result)
    have "hop_evolves H 0 (hbind (finish_delivery H p orig env result) (\<lambda>(stop, es). hdone (Inr (Turn_Done stop es))))"
      by (auto intro!: evolves_intros)
    then have "evolves H 0 h1 (snd (hbind (finish_delivery H p orig env result)
        (\<lambda>(stop, es). hdone (Inr (Turn_Done stop es))) h1))"
      unfolding hop_evolves_def by blast
    with 1 2 Inr show ?thesis by (simp add: attempt_delivery_def)
  qed
qed

lemma evolves_turn: "hop_evolves H 1 (begin_turn H p g orig env)"
proof -
  note quiet = hop_weaken [OF evolves_done, of 1, simplified]
  show ?thesis
    unfolding begin_turn_def Let_def
    by (intro evolves_bind evolves_reject evolves_basic evolves_calls)
       (auto intro!: evolves_bind evolves_basic evolves_calls evolves_attempt [unfolded One_nat_def] quiet split: option.split)
qed

section \<open>The attempts of a delivery\<close>

definition tries :: "ustr \<Rightarrow> ustr \<Rightarrow> plugin_db \<Rightarrow> nat" where
  "tries i e db =
     (case hm_get (db_deliveries db) (i, e) of None \<Rightarrow> 0 | Some d \<Rightarrow> min max_delivery_attempts (dr_attempt d))"

definition no_recovery :: "'w host_libs \<Rightarrow> ustr \<Rightarrow> bool" where
  "no_recovery H i \<longleftrightarrow> (\<forall>w. list_all (\<lambda>c. \<not> recovers i c) (hl_calls H w))"

lemma tries_put:
  assumes "hm_wf (db_deliveries db)"
  shows "tries i e (db\<lparr>db_deliveries := hm_put (j, x) d (db_deliveries db)\<rparr>) =
    (if (j, x) = (i, e) then min max_delivery_attempts (dr_attempt d) else tries i e db)"
  using assms by (simp add: tries_def hm_simps)

lemma tries_update:
  assumes "\<And>d. dr_attempt (f d) = dr_attempt d"
  shows "tries i e (db\<lparr>db_deliveries := sql_update P f (db_deliveries db)\<rparr>) = tries i e db"
  using assms by (simp add: tries_def sql_update_get split: option.split)

lemma tries_cong: "db_deliveries db' = db_deliveries db \<Longrightarrow> tries i e db' = tries i e db"
  by (simp add: tries_def)

lemma tries_commit: "tries i e (fst (store_commit L j v ops cs opts db)) = tries i e db"
proof (cases rule: store_commit_cases [of L j v ops cs opts db])
  case (failed err)
  then show ?thesis by simp
next
  case (replay db')
  then show ?thesis
    by (auto simp: mark_delivery_committed_def Let_def tries_update split: option.splits if_splits)
next
  case (fresh db' q t db1)
  have "tries i e db1 = tries i e db"
    using queue_commands_frame [OF fresh(6)] by (intro tries_cong) simp
  with fresh show ?thesis
    by (auto simp: mark_delivery_committed_def Let_def tries_update split: option.splits if_splits)
qed

lemma tries_step:
  assumes "db_wf db" "\<not> recovers i c"
  shows "tries i e db \<le> tries i e (store_step L c db)"
proof -
  have wf: "hm_wf (db_deliveries db)" using assms(1) by (simp add: db_wf_def)
  show ?thesis
  proof (cases c)
    case (Do_Begin j env o1 now)
    with wf show ?thesis
      by (auto simp: begin_delivery_def Let_def tries_put)
         (auto simp: tries_def u32_max_def max_delivery_attempts_def split: option.splits)
  next
    case (Do_Recover_Dead j t)
    with assms(2) show ?thesis by (auto simp: recover_dead_letters_def tries_def Let_def sql_update_get split: option.splits)
  next
    case (Do_Succeeded j x did now)
    with wf show ?thesis
      by (auto simp: mark_delivery_succeeded_def Let_def tries_put succeeded_row_def split: option.splits)
         (auto simp: tries_def hm_simps)
  next
    case (Do_Failed j x did t pol)
    with wf show ?thesis
      by (auto simp: mark_delivery_failed_def count_failure_def Let_def tries_def hm_simps split: option.splits prod.splits)
  next
    case (Do_Finalize_One j x now)
    with wf show ?thesis
      by (auto simp: finalize_committed_delivery_def Let_def tries_def hm_simps succeeded_row_def split: option.splits)
  next
    case (Do_Finalize_All j now)
    then show ?thesis
      by (auto simp: finalize_committed_deliveries_def Let_def tries_def sql_update_get succeeded_row_def split: option.splits)
  next
    case (Do_Enqueue j env o1 now)
    with wf show ?thesis
      by (auto simp: enqueue_delivery_def Let_def tries_put hm_contains_def) (auto simp: tries_def)
  next
    case (Do_Requeue j now)
    then show ?thesis by (simp add: requeue_running_deliveries_def tries_update)
  next
    case (Do_Commit j v ops cs opts)
    then show ?thesis by (simp add: tries_commit)
  qed (auto simp: mark_command_def replace_state_def upsert_installation_def write_installation_def
      set_installation_enabled_def remove_installation_def remove_installation_if_updated_def create_schedule_def
      cancel_schedule_def requeue_firing_schedules_def recover_schedules_def claim_schedule_def finish_schedule_def
      Let_def tries_def split: option.split sum.split)
qed

lemma tries_evolves:
  assumes "db_evolves H db db'" "db_wf db" "no_recovery H i"
  shows "tries i e db \<le> tries i e db'"
proof -
  obtain cs where cs: "list_all (host_call H) cs" "db' = store_run (hl_store H) cs db"
    using assms(1) by (auto simp: db_evolves_def)
  have "\<not> recovers i c" if "host_call H c" for c
    using that assms(3) by (cases c) (fastforce simp: host_call_def no_recovery_def list_all_iff)+
  then show ?thesis using cs assms(2)
  proof (induction cs arbitrary: db)
    case (Cons c cs)
    from Cons.prems have "tries i e db \<le> tries i e (store_step (hl_store H) c db)"
      by (intro tries_step) simp_all
    also have "\<dots> \<le> tries i e db'"
      using Cons.prems by (intro Cons.IH) (simp_all add: store_step_wf)
    finally show ?case .
  qed simp
qed

lemma db_evolves_wf: "db_evolves H db db' \<Longrightarrow> db_wf db \<Longrightarrow> db_wf db'"
  by (auto simp: db_evolves_def store_run_wf)

lemma hop_wf: "hop_evolves H n m \<Longrightarrow> m h = (r, h') \<Longrightarrow> db_wf (h_db h) \<Longrightarrow> db_wf (h_db h')"
  using hop_evolvesD [of H n m h r h'] by (auto simp: evolves_def intro: db_evolves_wf)

lemma hop_tries:
  "hop_evolves H n m \<Longrightarrow> m h = (r, h') \<Longrightarrow> db_wf (h_db h) \<Longrightarrow> no_recovery H i \<Longrightarrow>
   tries i e (h_db h) \<le> tries i e (h_db h')"
  using hop_evolvesD [of H n m h r h'] by (auto simp: evolves_def intro: tries_evolves)

section \<open>A turn that is repeated\<close>

lemma hbind_Inr:
  assumes "hbind m f h = (Inr y, h2)"
  obtains x h1 where "m h = (Inr x, h1)" "f x h1 = (Inr y, h2)"
  using assms that unfolding hbind_def by (cases "m h"; cases "fst (m h)") auto

lemma hdone_eq [simp]: "hdone r h = (r', h') \<longleftrightarrow> r = r' \<and> h = h'"
  by (simp add: hdone_def)

lemma failed_again:
  assumes "hm_wf (db_deliveries db)" and "mark_delivery_failed i e did t pol db = (db', r)"
    and "fr_updated r" "\<not> fr_dead_letter r" "fp_max_attempts pol = max_delivery_attempts"
  shows "tries i e db' < max_delivery_attempts"
  using assms
  by (auto simp: mark_delivery_failed_def count_failure_def Let_def tries_def hm_simps
      split: option.splits if_splits prod.splits)

lemma again_tries:
  assumes "fail_delivery H p orig env attempt e h = (Inr (Turn_Again d), h')" and "db_wf (h_db h)"
  shows "tries (rp_instance_id p) (pe_event_id env) (h_db h') < max_delivery_attempts"
proof -
  let ?i = "rp_instance_id p"
  from assms(1) obtain again h1 where 1: "record_delivery_failure H p env attempt e h = (Inr again, h1)"
    and 2: "(case again of Some delay \<Rightarrow> hdone (Inr (Turn_Again delay))
       | None \<Rightarrow> hbind (recover_committed_delivery H p orig env) (\<lambda>es. hdone (Inr (Turn_Done False es)))) h1 =
      (Inr (Turn_Again d), h')"
    unfolding fail_delivery_def by (rule hbind_Inr)
  from 2 have h1: "again = Some d" "h1 = h'"
    by (auto split: option.splits elim!: hbind_Inr)
  obtain now w where now: "hl_clock H (h_world h) = (now, w)" by (cases "hl_clock H (h_world h)")
  obtain db r where r: "mark_delivery_failed ?i (pe_event_id env) (pe_delivery_id env) (hl_error_text H e)
      (failure_policy_of e attempt now) (h_db h) = (db, r)"
    by fastforce
  from 1 h1 have "fr_updated r" "\<not> fr_dead_letter r" "delivery_error_retryable e" "h_db h' = db"
    by (auto simp: record_delivery_failure_def hbind_def hclock_def hsql_def now r hdone_def disable_def
        set_state_def remove_assets_def split: if_splits)
  with failed_again [OF _ r] assms(2) show ?thesis
    by (simp add: failure_policy_of_def Let_def db_wf_def)
qed

lemma begin_tries:
  assumes "begin_delivery i env o1 now db = (db', Some q)" and "db_wf db"
  shows "tries i (pe_event_id env) db' = min max_delivery_attempts (tries i (pe_event_id env) db + 1)"
  using assms
  by (auto simp: begin_delivery_def Let_def tries_def hm_simps db_wf_def u32_max_def max_delivery_attempts_def
      split: option.splits if_splits)

lemma turn_again:
  assumes "begin_turn H p g orig env h = (Inr (Turn_Again d), h')" and "db_wf (h_db h)"
    and "no_recovery H (rp_instance_id p)"
  shows "tries (rp_instance_id p) (pe_event_id env) (h_db h) <
      tries (rp_instance_id p) (pe_event_id env) (h_db h') \<and>
    tries (rp_instance_id p) (pe_event_id env) (h_db h') < max_delivery_attempts"
proof -
  let ?i = "rp_instance_id p" and ?e = "pe_event_id env"
  let ?o = "outbox_origin_of orig ?e"
  from assms(1) obtain rej h1 where rej: "reject_excessive_action_completion H p env ?o h = (Inr rej, h1)"
    and rest: "(if rej then hdone (Inr (Turn_Done False []))
        else hbind (hclock H) (\<lambda>now. hbind (hsql (begin_delivery ?i env ?o now))
          (\<lambda>d. case d of None \<Rightarrow> hdone (Inr (Turn_Done False []))
             | Some delivery \<Rightarrow> attempt_delivery H p g orig env (pn_attempt delivery)))) h1 = (Inr (Turn_Again d), h')"
    unfolding begin_turn_def Let_def by (rule hbind_Inr)
  from rest have "\<not> rej" by auto
  with rest obtain now h2 q h3 where 2: "hclock H h1 = (Inr now, h2)"
    and 3: "hsql (begin_delivery ?i env ?o now) h2 = (Inr (Some q), h3)"
    and 4: "attempt_delivery H p g orig env (pn_attempt q) h3 = (Inr (Turn_Again d), h')"
    by (auto elim!: hbind_Inr split: option.splits)
  obtain r h4 where 5: "handle_delivery H p g orig env h3 = (r, h4)" by (cases "handle_delivery H p g orig env h3")
  with 4 obtain e where 6: "fail_delivery H p orig env (pn_attempt q) e h4 = (Inr (Turn_Again d), h')"
    by (cases r) (auto simp: attempt_delivery_def elim!: hbind_Inr split: prod.splits if_splits)
  note wf1 = hop_wf [OF evolves_reject rej assms(2)]
  note wf2 = hop_wf [OF evolves_basic(2) 2 wf1]
  note wf3 = hop_wf [OF evolves_calls(1) 3 wf2]
  note wf4 = hop_wf [OF evolves_handle 5 wf3]
  have le2: "tries ?i ?e (h_db h) \<le> tries ?i ?e (h_db h2)"
    using hop_tries [OF evolves_reject rej assms(2,3)] hop_tries [OF evolves_basic(2) 2 wf1 assms(3)]
    by (rule order_trans)
  obtain db3 where "begin_delivery ?i env ?o now (h_db h2) = (db3, Some q)" "h_db h3 = db3"
    using 3 by (auto simp: hsql_def split: prod.splits)
  with begin_tries [OF _ wf2] have t3: "tries ?i ?e (h_db h3) = min max_delivery_attempts (tries ?i ?e (h_db h2) + 1)"
    by simp
  have "tries ?i ?e (h_db h3) \<le> tries ?i ?e (h_db h')"
    using hop_tries [OF evolves_handle 5 wf3 assms(3)] hop_tries [OF evolves_fail 6 wf4 assms(3)]
    by (rule order_trans)
  with t3 le2 again_tries [OF 6 wf4] show ?thesis by (auto simp: min_def split: if_splits)
qed

section \<open>Every delivery ends\<close>

lemma others_wf: "db_wf (h_db h) \<Longrightarrow> db_wf (h_db (others H h))"
  using db_evolves_wf [OF db_evolves_others] .

lemma others_tries:
  "db_wf (h_db h) \<Longrightarrow> no_recovery H i \<Longrightarrow> tries i e (h_db h) \<le> tries i e (h_db (others H h))"
  by (rule tries_evolves [OF db_evolves_others])

lemma turn_envelope_keeps:
  "turn_envelope H p orig env h = (Inr env1, h1) \<Longrightarrow> pe_event_id env1 = pe_event_id env"
  by (auto simp: turn_envelope_def Let_def elim!: hbind_Inr split: execution_origin.splits if_splits sum.splits)

lemma loop_ends:
  assumes "no_recovery H (rp_instance_id p)"
  shows "db_wf (h_db h) \<Longrightarrow> tries (rp_instance_id p) (pe_event_id env) (h_db h) \<le> max_delivery_attempts \<Longrightarrow>
    \<exists>r h'. delivery_loop H p g orig env h = Some (r, h') \<and> db_wf (h_db h') \<and>
      handler_runs h' \<le> handler_runs h + max 1 (max_delivery_attempts -
        tries (rp_instance_id p) (pe_event_id env) (h_db h))"
proof (induction "max_delivery_attempts - tries (rp_instance_id p) (pe_event_id env) (h_db h)"
    arbitrary: env h rule: less_induct)
  case less
  let ?i = "rp_instance_id p"
  obtain r1 h1 where e: "turn_envelope H p orig env h = (r1, h1)" by (cases "turn_envelope H p orig env h")
  note wf1 = hop_wf [OF evolves_turn_envelope e less.prems(1)]
  note t1 = hop_tries [OF evolves_turn_envelope e less.prems(1) assms]
  have runs1: "handler_runs h1 \<le> handler_runs h"
    using hop_evolvesD [OF evolves_turn_envelope e] by (simp add: evolves_def)
  show ?case
  proof (cases r1)
    case (Inl x)
    with e wf1 runs1 show ?thesis by (simp add: delivery_loop.simps)
  next
    case (Inr env1)
    note same = turn_envelope_keeps [OF e [unfolded Inr]]
    obtain r2 h2 where t: "begin_turn H p g orig env1 h1 = (r2, h2)" by (cases "begin_turn H p g orig env1 h1")
    note wf2 = hop_wf [OF evolves_turn t wf1]
    have runs2: "handler_runs h2 \<le> handler_runs h1 + 1"
      using hop_evolvesD [OF evolves_turn t] by (simp add: evolves_def)
    show ?thesis
    proof (cases "\<exists>d. r2 = Inr (Turn_Again d)")
      case False
      then show ?thesis
        using e Inr t wf2 runs1 runs2 by (auto simp: delivery_loop.simps split: sum.splits delivery_turn.splits)
    next
      case True
      then obtain d where d: "r2 = Inr (Turn_Again d)" by blast
      let ?t = "\<lambda>h. tries ?i (pe_event_id env) (h_db h)"
      have up: "?t h1 < ?t h2" "?t h2 < max_delivery_attempts"
        using turn_again [OF t [unfolded d] wf1 assms] same by simp_all
      obtain r3 h3 where sl: "hsleep H h2 = (r3, h3)" by (cases "hsleep H h2")
      note wf3 = hop_wf [OF evolves_sleep sl wf2]
      have "?t h2 \<le> ?t h3" by (rule hop_tries [OF evolves_sleep sl wf2 assms])
      then have lt: "?t h < ?t h3" using up t1 [of "pe_event_id env"] by linarith
      have bound: "?t h3 \<le> max_delivery_attempts" by (simp add: tries_def split: option.split)
      have runs3: "handler_runs h3 \<le> handler_runs h2"
        using hop_evolvesD [OF evolves_sleep sl] by (simp add: evolves_def)
      show ?thesis
      proof (cases r3)
        case (Inl x)
        with e \<open>r1 = Inr env1\<close> t d sl wf3 runs1 runs2 runs3 show ?thesis by (simp add: delivery_loop.simps)
      next
        case (Inr u)
        have "\<exists>r h'. delivery_loop H p g orig env1 h3 = Some (r, h') \<and> db_wf (h_db h') \<and>
            handler_runs h' \<le> handler_runs h3 + max 1 (max_delivery_attempts - ?t h3)"
          using less.hyps [of env1 h3] lt bound wf3 same up by (simp add: diff_less_mono2)
        then obtain r h' where rec: "delivery_loop H p g orig env1 h3 = Some (r, h')" "db_wf (h_db h')"
          and runs: "handler_runs h' \<le> handler_runs h3 + max 1 (max_delivery_attempts - ?t h3)"
          by blast
        have "max_delivery_attempts - ?t h \<ge> 2" using up t1 [of "pe_event_id env"] by linarith
        moreover have "max_delivery_attempts - ?t h3 < max_delivery_attempts - ?t h"
          using lt up t1 [of "pe_event_id env"] bound by linarith
        ultimately have "handler_runs h' \<le> handler_runs h + max 1 (max_delivery_attempts - ?t h)"
          using runs runs1 runs2 runs3 by (simp add: max_def split: if_splits)
        with e \<open>r1 = Inr env1\<close> t d sl Inr rec show ?thesis by (simp add: delivery_loop.simps)
      qed
    qed
  qed
qed

section \<open>Chains of completions\<close>

lemma parse_decimal: "d \<le> usize_max \<Longrightarrow> parse_usize (map of_nat (decimal d)) = Some d"
proof -
  assume d: "d \<le> usize_max"
  have digits: "map (unat \<circ> (of_nat :: nat \<Rightarrow> 8 word)) (decimal d) = decimal d"
  proof (rule map_idI)
    fix c assume "c \<in> set (decimal d)"
    then have "c < 256" using decimal_digits [of c d] by (simp add: is_ascii_digit_def)
    then show "(unat \<circ> (of_nat :: nat \<Rightarrow> 8 word)) c = c" by (simp add: unat_of_nat take_bit_nat_eq_self)
  qed
  obtain c cs where cs: "decimal d = c # cs" by (cases "decimal d") (simp_all add: decimal.simps [of d] split: if_splits)
  then have "c \<noteq> 43" using decimal_digits [of c d] by (auto simp: is_ascii_digit_def)
  moreover have "list_all is_ascii_digit (c # cs)"
    using decimal_digits [of _ d] cs by (auto simp: list_all_iff)
  moreover have "undecimal (c # cs) = d" using undecimal_decimal [of d] cs by simp
  ultimately show ?thesis using digits cs d by (simp add: parse_usize_def Let_def comp_def)
qed

definition of_depth :: "nat \<Rightarrow> plugin_event \<Rightarrow> bool" where
  "of_depth n e \<longleftrightarrow> pe_event_type e = completed_event \<and> action_completion_depth e = n"

definition child_of :: "nat \<Rightarrow> plugin_event \<Rightarrow> bool" where
  "child_of d = of_depth (usize_sat_add d 1)"

lemma envelope_depth:
  "action_completion_envelope H orig n a h = (Inr e, h') \<Longrightarrow> n \<le> usize_max \<Longrightarrow> of_depth n e"
  by (auto simp: action_completion_envelope_def of_depth_def action_completion_depth_def encoded_def
      parse_decimal simp del: lit_Cons elim!: hbind_Inr split: sum.splits)

lemma envelopes_depth:
  "completion_envelopes H orig n as1 h = (Inr es, h') \<Longrightarrow> n \<le> usize_max \<Longrightarrow> list_all (of_depth n) es"
proof (induction as1 arbitrary: es h)
  case (Cons a as1)
  then show ?case using envelope_depth [of H orig n a] by (fastforce elim!: hbind_Inr)
qed simp

lemma prepare_children:
  "prepare_action_completion_envelopes H p orig as1 d h = (Inr es, h') \<Longrightarrow> list_all (child_of d) es"
  by (auto simp: prepare_action_completion_envelopes_def child_of_def usize_sat_add_def split: if_splits
      dest: envelopes_depth)

lemma results_children:
  "queue_results H p orig (\<lambda>_. d) rs h = (Inr es, h') \<Longrightarrow> list_all (child_of d) es"
proof (induction rs arbitrary: es h)
  case (Cons r rs)
  obtain q a e where "r = (q, a, e)" by (cases r)
  with Cons.prems obtain x y h1 h2 h3 where
    "prepare_action_completion_envelopes H p (orig q) [a] d h = (Inr x, h1)"
    "queue_results H p orig (\<lambda>_. d) rs h2 = (Inr y, h3)" "es = x @ y" "h' = h3"
    by (auto elim!: hbind_Inr)
  with Cons.IH [of h2 y] prepare_children show ?case by auto
qed auto

lemma attempt_children:
  assumes "attempt_delivery H p g orig env n h = (Inr (Turn_Done stop es), h')"
  shows "list_all (child_of (action_completion_depth env)) es"
proof -
  obtain r h1 where r: "handle_delivery H p g orig env h = (r, h1)" by (cases "handle_delivery H p g orig env h")
  show ?thesis
  proof (cases r)
    case (Inl e)
    with assms r show ?thesis
      by (auto simp: attempt_delivery_def fail_delivery_def recover_committed_delivery_def Let_def
          elim!: hbind_Inr split: option.splits if_splits) (drule results_children, simp)
  next
    case (Inr x)
    with assms r show ?thesis
      by (auto simp: attempt_delivery_def finish_delivery_def elim!: hbind_Inr split: prod.splits if_splits
          dest: prepare_children)
  qed
qed

lemma turn_children:
  assumes "begin_turn H p g orig env h = (Inr (Turn_Done stop es), h')"
  shows "list_all (child_of (action_completion_depth env)) es \<and>
    (pe_event_type env = completed_event \<longrightarrow> es \<noteq> [] \<longrightarrow> action_completion_depth env \<le> max_action_completion_chain)"
proof -
  from assms obtain rej h1 where rej: "reject_excessive_action_completion H p env
      (outbox_origin_of orig (pe_event_id env)) h = (Inr rej, h1)"
    and rest: "(if rej then hdone (Inr (Turn_Done False []))
        else hbind (hclock H) (\<lambda>now. hbind (hsql (begin_delivery (rp_instance_id p) env
            (outbox_origin_of orig (pe_event_id env)) now))
          (\<lambda>d. case d of None \<Rightarrow> hdone (Inr (Turn_Done False []))
             | Some delivery \<Rightarrow> attempt_delivery H p g orig env (pn_attempt delivery)))) h1 =
        (Inr (Turn_Done stop es), h')"
    unfolding begin_turn_def Let_def by (rule hbind_Inr)
  have "rej" if "pe_event_type env = completed_event" "\<not> action_completion_depth env \<le> max_action_completion_chain"
    using rej that by (auto simp: reject_excessive_action_completion_def elim!: hbind_Inr)
  moreover have "es = []" if rej using rest that by simp
  moreover have "list_all (child_of (action_completion_depth env)) es"
    using rest by (auto elim!: hbind_Inr split: if_splits option.splits dest: attempt_children)
  ultimately show ?thesis by blast
qed

lemma turn_envelope_completed:
  assumes "turn_envelope H p orig env h = (Inr env1, h1)"
  shows "pe_event_type env1 = pe_event_type env"
    and "pe_event_type env = completed_event \<Longrightarrow> action_completion_depth env1 = action_completion_depth env"
  using assms
  by (auto simp: turn_envelope_def Let_def action_completion_depth_def
      elim!: hbind_Inr split: execution_origin.splits if_splits sum.splits)

lemma loop_children:
  assumes "delivery_loop H p g orig env h = Some (Inr (stop, es), h')"
  shows "(\<exists>d. list_all (child_of d) es) \<and>
    (pe_event_type env = completed_event \<longrightarrow> es \<noteq> [] \<longrightarrow>
      action_completion_depth env \<le> max_action_completion_chain \<and>
      list_all (child_of (action_completion_depth env)) es)"
proof -
  let ?P = "\<lambda>env y. \<forall>stop es h'. y = (Inr (stop, es), h') \<longrightarrow> (\<exists>d. list_all (child_of d) es) \<and>
    (pe_event_type env = completed_event \<longrightarrow> es \<noteq> [] \<longrightarrow>
      action_completion_depth env \<le> max_action_completion_chain \<and>
      list_all (child_of (action_completion_depth env)) es)"
  have "?P env y" if "delivery_loop H p g orig env h = Some y" for y
  proof (rule delivery_loop.raw_induct [where P = "\<lambda>H p g orig env h. ?P env", OF _ that])
    fix loop H p g orig env and h :: "'a host_state" and y
    assume 1: "\<And>H p g orig env (h :: 'a host_state) y. loop H p g orig env h = Some y \<Longrightarrow> ?P env y"
      "(case turn_envelope H p orig env h of
        (Inl e, h1) \<Rightarrow> Some (Inl e, h1)
      | (Inr env1, h1) \<Rightarrow>
          (case begin_turn H p g orig env1 h1 of
             (Inl e, h2) \<Rightarrow> Some (Inl e, h2)
           | (Inr (Turn_Done stop es), h2) \<Rightarrow> Some (Inr (stop, es), h2)
           | (Inr (Turn_Again delay), h2) \<Rightarrow>
               (case hsleep H h2 of
                  (Inl e, h3) \<Rightarrow> Some (Inl e, h3)
                | (Inr _, h3) \<Rightarrow> loop H p g orig env1 h3))) = Some y"
    show "?P env y"
    proof (intro allI impI)
      fix stop es h' assume y: "y = (Inr (stop, es), h')"
      from 1(2) y obtain env1 h1 where e: "turn_envelope H p orig env h = (Inr env1, h1)"
        by (auto split: prod.splits sum.splits)
      note type = turn_envelope_completed [OF e]
      obtain t h2 where t: "begin_turn H p g orig env1 h1 = (Inr t, h2)"
        using 1(2) y e by (auto split: prod.splits sum.splits)
      show "(\<exists>d. list_all (child_of d) es) \<and>
        (pe_event_type env = completed_event \<longrightarrow> es \<noteq> [] \<longrightarrow>
          action_completion_depth env \<le> max_action_completion_chain \<and>
          list_all (child_of (action_completion_depth env)) es)"
      proof (cases t)
        case (Turn_Done stop' es')
        with 1(2) y e t have "es' = es" by simp
        with turn_children [OF t [unfolded Turn_Done]] type show ?thesis by auto
      next
        case (Turn_Again d)
        with 1(2) y e t obtain h3 where "loop H p g orig env1 h3 = Some (Inr (stop, es), h')"
          by (auto split: prod.splits sum.splits)
        from 1(1) [OF this] type show ?thesis by auto
      qed
    qed
  qed
  with assms show ?thesis by blast
qed

definition chain_rank :: "plugin_event \<Rightarrow> nat" where
  "chain_rank e = Suc max_action_completion_chain - action_completion_depth e"

lemma child_rank:
  assumes "child_of d e" "d \<le> max_action_completion_chain"
  shows "chain_rank e < Suc max_action_completion_chain - d"
  using assms
  by (simp add: child_of_def of_depth_def chain_rank_def usize_sat_add_def usize_max_def max_action_completion_chain_def)

lemma disable_evolves: "evolves H 0 h (snd (hbind (disable p) (\<lambda>_. hdone r) h))"
proof -
  have "hop_evolves H 0 (hbind (disable p) (\<lambda>_. hdone r))" by (rule evolves_bind [OF evolves_disable evolves_done])
  then show ?thesis by (simp add: hop_evolves_def)
qed

lemma single_ends:
  assumes "no_recovery H (rp_instance_id p)" "db_wf (h_db h)"
  shows "\<exists>r h'. deliver_single_with_retry H p g orig env h = Some (r, h') \<and> db_wf (h_db h') \<and>
    handler_runs h' \<le> handler_runs h + max_delivery_attempts"
proof (cases "circuit_open (rp_instance_id p) (h_db h)")
  case True
  let ?x = "hbind (disable p) (\<lambda>_. hdone (Inr (False, []))) h :: (host_error + bool \<times> plugin_event list) \<times> _"
  have "evolves H 0 h (snd ?x)" by (rule disable_evolves)
  with assms(2) have "db_wf (h_db (snd ?x))" "handler_runs (snd ?x) \<le> handler_runs h + max_delivery_attempts"
    by (auto simp: evolves_def intro: db_evolves_wf)
  with True show ?thesis
    by (intro exI [of _ "fst ?x"] exI [of _ "snd ?x"]) (simp add: deliver_single_with_retry_def)
next
  case False
  have "tries (rp_instance_id p) (pe_event_id env) (h_db h) \<le> max_delivery_attempts"
    by (simp add: tries_def split: option.split)
  from loop_ends [OF assms this] obtain r h' where
    "delivery_loop H p g orig env h = Some (r, h')" "db_wf (h_db h')"
    "handler_runs h' \<le> handler_runs h + max 1 (max_delivery_attempts - tries (rp_instance_id p) (pe_event_id env) (h_db h))"
    by blast
  with False show ?thesis by (auto simp: deliver_single_with_retry_def max_delivery_attempts_def)
qed

lemma single_children:
  assumes "deliver_single_with_retry H p g orig env h = Some (Inr (stop, es), h')"
  shows "(\<exists>d. list_all (child_of d) es) \<and>
    (pe_event_type env = completed_event \<longrightarrow> es \<noteq> [] \<longrightarrow>
      action_completion_depth env \<le> max_action_completion_chain \<and>
      list_all (child_of (action_completion_depth env)) es)"
  using assms loop_children [of H p g orig env h stop es h']
  by (auto simp: deliver_single_with_retry_def disable_def hbind_def set_state_def remove_assets_def split: if_splits)

lemma queue_ends:
  assumes "no_recovery H (rp_instance_id p)"
  shows "db_wf (h_db h) \<Longrightarrow> list_all (\<lambda>e. pe_event_type e = completed_event) queue \<Longrightarrow>
    \<exists>r h'. deliver_action_completions H p g orig queue h = Some (r, h') \<and> db_wf (h_db h')"
proof (induction "mset (map chain_rank queue)" arbitrary: queue h rule: wf_induct_rule [OF wf_mult [OF wf_less_than]])
  case (1 queue h)
  show ?case
  proof (cases queue)
    case Nil
    with 1(2) show ?thesis by (simp add: deliver_action_completions.simps)
  next
    case (Cons env rest)
    obtain r h1 where s: "deliver_single_with_retry H p g orig env h = Some (r, h1)" and wf: "db_wf (h_db h1)"
      using single_ends [OF assms 1(2)] by blast
    show ?thesis
    proof (cases "\<exists>stop es. r = Inr (stop, es) \<and> lc_state (h_life h1) \<noteq> Disabled")
      case False
      with s wf Cons show ?thesis
        by (cases r) (auto simp: deliver_action_completions.simps)
    next
      case True
      then obtain stop es where r: "r = Inr (stop, es)" "lc_state (h_life h1) \<noteq> Disabled" by blast
      note child = single_children [OF s [unfolded r(1)]]
      have types: "list_all (\<lambda>e. pe_event_type e = completed_event) (rest @ es)"
        using 1(3) Cons child by (auto simp: list_all_iff child_of_def of_depth_def)
      have "\<forall>k\<in># mset (map chain_rank es). k < chain_rank env"
        using child 1(3) Cons child_rank [of "action_completion_depth env"]
        by (auto simp: list_all_iff chain_rank_def)
      then have "(mset (map chain_rank (rest @ es)), mset (map chain_rank queue)) \<in> mult less_than"
        using one_step_implies_mult [of "{#chain_rank env#}" "mset (map chain_rank es)" less_than
            "mset (map chain_rank rest)"] Cons by simp
      from 1(1) [OF this wf types]
      obtain r' h' where "deliver_action_completions H p g orig (rest @ es) h1 = Some (r', h')" "db_wf (h_db h')"
        by blast
      with s r Cons show ?thesis by (simp add: deliver_action_completions.simps)
    qed
  qed
qed


section \<open>What a turn leaves\<close>

definition hop_keeps :: "(plugin_db \<Rightarrow> bool) \<Rightarrow> ('w, 'a) hop \<Rightarrow> bool" where
  "hop_keeps R m \<longleftrightarrow> (\<forall>h. R (h_db h) \<longrightarrow> R (h_db (snd (m h))))"

text \<open>What the bookkeeping of an event does to the store: results, queued completions, finalization.\<close>

definition bookkept :: "ustr \<Rightarrow> ustr \<Rightarrow> (plugin_db \<Rightarrow> bool) \<Rightarrow> bool" where
  "bookkept i e R \<longleftrightarrow> (\<forall>db. R db \<longrightarrow>
     (\<forall>j v c st a. R (mark_command j v c st a db)) \<and>
     (\<forall>j env o1 now. R (enqueue_delivery j env o1 now db)) \<and>
     (\<forall>now. R (fst (finalize_committed_delivery i e now db))))"

named_theorems keeps_intros \<open>operations keep what the bookkeeping keeps\<close>

lemma keepsD: "hop_keeps R m \<Longrightarrow> m h = (r, h') \<Longrightarrow> R (h_db h) \<Longrightarrow> R (h_db h')"
  unfolding hop_keeps_def by (metis snd_conv)

lemma keeps_same: "(\<And>h. h_db (snd (m h)) = h_db h) \<Longrightarrow> hop_keeps R m"
  by (simp add: hop_keeps_def)

lemma hop_keeps_bind [keeps_intros]:
  assumes "hop_keeps R m" "\<And>x. hop_keeps R (f x)"
  shows "hop_keeps R (hbind m f)"
  unfolding hop_keeps_def
proof (intro allI impI)
  fix h :: "'a host_state"
  assume R: "R (h_db h)"
  obtain r h1 where m: "m h = (r, h1)" by (cases "m h")
  note 1 = keepsD [OF assms(1) m R]
  show "R (h_db (snd (hbind m f h)))"
  proof (cases r)
    case (Inr x)
    with 1 m assms(2) [of x] show ?thesis by (simp add: hbind_def hop_keeps_def)
  qed (use 1 m in \<open>simp add: hbind_def\<close>)
qed

lemma keeps_basic [keeps_intros]:
  "hop_keeps R (hdone r)" "hop_keeps R (hread f)" "hop_keeps R (hclock H)" "hop_keeps R (huuid H)"
  "hop_keeps R (set_state st)" "hop_keeps R (remove_assets p)"
  by (rule keeps_same; simp add: hdone_def hread_def hclock_def huuid_def set_state_def remove_assets_def
      split: prod.split)+

lemma keeps_disable [keeps_intros]: "hop_keeps R (disable p)"
  by (simp add: disable_def keeps_intros)

lemma keeps_encoded [keeps_intros]: "hop_keeps R (encoded who r)"
  by (simp add: encoded_def keeps_intros)

lemma keeps_mark: "bookkept i e R \<Longrightarrow> hop_keeps R (hupdate (mark_command j v c st a))"
  by (simp add: hop_keeps_def hupdate_def bookkept_def)

lemma keeps_enqueue: "bookkept i e R \<Longrightarrow> hop_keeps R (hupdate (enqueue_delivery j env o1 now))"
  by (simp add: hop_keeps_def hupdate_def bookkept_def)

lemma keeps_finalize: "bookkept i e R \<Longrightarrow> hop_keeps R (hsql (finalize_committed_delivery i e now))"
  by (simp add: hop_keeps_def hsql_def bookkept_def split: prod.split) (metis fst_conv)

lemma keeps_interrupt: "bookkept i e R \<Longrightarrow> hop_keeps R (interrupt_commands H p qs)"
  by (induction qs) (simp_all add: persist_completion_def keeps_intros keeps_mark)

lemma keeps_envelopes: "hop_keeps R (completion_envelopes H orig n cs)"
  by (induction cs) (simp_all add: action_completion_envelope_def keeps_intros)

lemma keeps_prepare: "hop_keeps R (prepare_action_completion_envelopes H p orig cs d)"
  by (simp add: prepare_action_completion_envelopes_def keeps_envelopes keeps_basic)

lemma keeps_enqueue_all: "bookkept i e R \<Longrightarrow> hop_keeps R (enqueue_all p orig now es)"
  by (induction es) (simp_all add: keeps_intros keeps_enqueue)

lemma keeps_enqueue_each: "bookkept i e R \<Longrightarrow> hop_keeps R (enqueue_each H p orig es)"
  by (induction es) (simp_all add: keeps_intros keeps_enqueue_all del: enqueue_all.simps)

lemma keeps_results: "bookkept i e R \<Longrightarrow> hop_keeps R (queue_results H p orig depth rs)"
  by (induction rs) (auto intro!: keeps_intros keeps_prepare keeps_enqueue_each)

lemma keeps_recover_committed:
  "bookkept (rp_instance_id p) (pe_event_id env) R \<Longrightarrow> hop_keeps R (recover_committed_delivery H p orig env)"
  by (simp add: recover_committed_delivery_def Let_def keeps_intros keeps_interrupt keeps_results keeps_finalize)

definition left_running :: "ustr \<Rightarrow> ustr \<Rightarrow> ustr \<Rightarrow> plugin_db \<Rightarrow> bool" where
  "left_running i e did db \<longleftrightarrow> (\<exists>n. life_of (hm_get (db_deliveries db) (i, e)) = Active did n)"

definition in_effect :: "ustr \<Rightarrow> ustr \<Rightarrow> plugin_db \<Rightarrow> bool" where
  "in_effect i e db \<longleftrightarrow>
     (case life_of (hm_get (db_deliveries db) (i, e)) of Finished \<Rightarrow> True | In_Effect did \<Rightarrow> True | _ \<Rightarrow> False)"

lemma effect_not_running: "in_effect i e db \<Longrightarrow> \<not> left_running i e did db"
  by (auto simp: in_effect_def left_running_def split: life.splits)

lemma life_run_settled:
  "life_run s xs = Some s' \<Longrightarrow> s = Finished \<or> (\<exists>d. s = In_Effect d) \<Longrightarrow> s' = Finished \<or> (\<exists>d. s' = In_Effect d)"
proof (induction xs arbitrary: s)
  case (Cons x xs)
  then obtain s1 where s1: "life_step s x = Some s1" "life_run s1 xs = Some s'"
    by (auto split: option.splits)
  have "s1 = Finished \<or> (\<exists>d. s1 = In_Effect d)"
    using Cons.prems(2) s1(1) by (elim disjE exE; cases x) (auto split: if_splits)
  with Cons.IH s1 show ?case by blast
qed simp

lemma effect_evolves:
  assumes "db_evolves H db db'" "db_wf db" "in_effect i e db"
  shows "in_effect i e db'"
proof -
  obtain cs where "db' = store_run (hl_store H) cs db" using assms(1) by (auto simp: db_evolves_def)
  with delivery_lifecycle_from [OF assms(2), of "(i, e)" "hl_store H" cs] life_run_settled assms(3)
  show ?thesis
    by (fastforce simp: in_effect_def split: life.splits)
qed

lemma effect_hop:
  "hop_evolves H n m \<Longrightarrow> m h = (r, h') \<Longrightarrow> db_wf (h_db h) \<Longrightarrow> in_effect i e (h_db h) \<Longrightarrow> in_effect i e (h_db h')"
  using hop_evolvesD [of H n m h r h'] by (auto simp: evolves_def intro: effect_evolves)

lemma commit_effect:
  assumes "store_commit L i v ops cs opts db = (db', Inr q)" "db_wf db" "co_delivery opts = Some (e, did)"
  shows "in_effect i e db'"
proof -
  have "life_run (life_of (hm_get (db_deliveries db) (i, e))) [Saw_Committed did] =
      Some (life_of (hm_get (db_deliveries db') (i, e)))"
    using see_commit_life [OF assms(2), of "(i, e)" L i v ops cs opts] assms(1,3) by simp
  then have "life_of (hm_get (db_deliveries db') (i, e)) = Finished \<or>
      (\<exists>d. life_of (hm_get (db_deliveries db') (i, e)) = In_Effect d)"
    by (auto split: option.splits dest: effect_settles [of "Saw_Committed did", simplified])
  then show ?thesis by (auto simp: in_effect_def)
qed

lemma handled_effect:
  assumes "handle_delivery H p g orig env h = (Inr x, h')" "db_wf (h_db h)"
  shows "in_effect (rp_instance_id p) (pe_event_id env) (h_db h')"
proof -
  from assms(1) obtain out h1 as1 where inv: "invoke_envelope H p g env h = (Inr out, h1)"
    and com: "commit_and_execute H p orig (pe_event_id env) (pe_delivery_id env) (pe_invocation_id env) out h1 =
      (Inr as1, h')"
    unfolding handle_delivery_def by (auto elim!: hbind_Inr)
  note wf1 = hop_wf [OF evolves_invoke inv assms(2)]
  from com obtain q h2 where st: "hstore (store_commit (hl_store H) (rp_instance_id p) (pe_invocation_id env)
        (ho_state_ops out) (ho_commands out) \<lparr>co_quota_bytes = unat (pp_storage_quota (mf_permissions (rp_manifest p))),
         co_origin = Some (outbox_origin_of orig (pe_event_id env)),
         co_delivery = Some (pe_event_id env, pe_delivery_id env)\<rparr>) h1 = (Inr q, h2)"
    and ex: "execute_commands H p orig (pe_event_id env) (pe_invocation_id env) q h2 = (Inr as1, h')"
    unfolding commit_and_execute_def by (rule hbind_Inr)
  note wf2 = hop_wf [OF evolves_calls(13) st wf1]
  have "in_effect (rp_instance_id p) (pe_event_id env) (h_db h2)"
    using st commit_effect [OF _ wf1] by (fastforce simp: hstore_def split: prod.splits sum.splits)
  then show ?thesis by (rule effect_hop [OF evolves_execute_all ex wf2])
qed

definition not_running :: "ustr \<Rightarrow> ustr \<Rightarrow> ustr \<Rightarrow> plugin_db \<Rightarrow> bool" where
  "not_running i e did db \<longleftrightarrow> db_wf db \<and> \<not> left_running i e did db"

lemma not_running_kept: "bookkept j x (not_running i e did)"
proof -
  have "\<not> left_running i e did (mark_command j v c st a db)" if "\<not> left_running i e did db" for j v c st a db
    using that by (simp add: left_running_def mark_command_def)
  moreover have "\<not> left_running i e did (enqueue_delivery j env o1 now db)"
    if "db_wf db" "\<not> left_running i e did db" for j env o1 now db
    using that by (auto simp: left_running_def enqueue_delivery_def Let_def hm_simps db_wf_def life_of_def)
  moreover have "\<not> left_running i e did (fst (finalize_committed_delivery j x now db))"
    if "db_wf db" "\<not> left_running i e did db" for j x now db
    using that by (auto simp: left_running_def finalize_committed_delivery_def Let_def hm_simps db_wf_def
        life_of_def succeeded_row_def split: option.splits if_splits)
  moreover have "db_wf (mark_command j v c st a db)" if "db_wf db" for j v c st a db
    using store_step_wf [OF that, of _ "Do_Mark_Command j v c st a"] by simp
  moreover have "db_wf (enqueue_delivery j env o1 now db)" if "db_wf db" for j env o1 now db
    using store_step_wf [OF that, of _ "Do_Enqueue j env o1 now"] by simp
  moreover have "db_wf (fst (finalize_committed_delivery j x now db))" if "db_wf db" for j x now db
    using store_step_wf [OF that, of _ "Do_Finalize_One j x now"] by simp
  ultimately show ?thesis by (simp add: bookkept_def not_running_def)
qed

lemma failed_not_running:
  "db_wf db \<Longrightarrow> not_running i e did (fst (mark_delivery_failed i e did t pol db))"
  using store_step_wf [of db _ "Do_Failed i e did t pol"]
  by (auto simp: not_running_def left_running_def mark_delivery_failed_def count_failure_def Let_def hm_simps db_wf_def
      life_of_def split: option.splits delivery_status.splits)

lemma record_not_running:
  assumes "record_delivery_failure H p env attempt e h = (r, h')" "db_wf (h_db h)"
  shows "not_running (rp_instance_id p) (pe_event_id env) (pe_delivery_id env) (h_db h')"
proof -
  let ?R = "not_running (rp_instance_id p) (pe_event_id env) (pe_delivery_id env)"
  obtain now w where now: "hl_clock H (h_world h) = (now, w)" by (cases "hl_clock H (h_world h)")
  let ?f = "mark_delivery_failed (rp_instance_id p) (pe_event_id env) (pe_delivery_id env) (hl_error_text H e)
      (failure_policy_of e attempt now)"
  obtain db x where f: "?f (h_db h) = (db, x)" by (cases "?f (h_db h)")
  have db: "?R db" using failed_not_running [OF assms(2)] f by (metis fst_conv)
  let ?k = "if \<not> fr_updated x then hdone (Inr None)
     else hbind (if fatal_trap e \<or> fr_circuit_open x then disable p else hdone (Inr ()))
      (\<lambda>_. hdone (Inr (if \<not> fr_dead_letter x \<and> \<not> fr_circuit_open x \<and> delivery_error_retryable e
         then Some (delivery_retry_delay_ms attempt) else None)))"
  have "hop_keeps ?R ?k" by (auto intro!: keeps_intros)
  moreover have "?k (h\<lparr>h_world := w, h_db := db\<rparr>) = (r, h')"
    using assms(1) f by (simp add: record_delivery_failure_def hbind_def [of "hclock H"] hbind_def [of "hsql _"]
        hclock_def hsql_def now)
  ultimately show ?thesis using db by (auto dest: keepsD)
qed

lemma fail_not_running:
  assumes "fail_delivery H p orig env attempt e h = (r, h')" "db_wf (h_db h)"
  shows "not_running (rp_instance_id p) (pe_event_id env) (pe_delivery_id env) (h_db h')"
proof -
  let ?R = "not_running (rp_instance_id p) (pe_event_id env) (pe_delivery_id env)"
  obtain x h1 where rec: "record_delivery_failure H p env attempt e h = (x, h1)"
    by (cases "record_delivery_failure H p env attempt e h")
  note 1 = record_not_running [OF rec assms(2)]
  have "hop_keeps ?R (case again of Some delay \<Rightarrow> hdone (Inr (Turn_Again delay))
     | None \<Rightarrow> hbind (recover_committed_delivery H p orig env) (\<lambda>es. hdone (Inr (Turn_Done False es))))" for again
    by (auto intro!: keeps_intros keeps_recover_committed not_running_kept split: option.split)
  then show ?thesis
    using assms(1) rec 1 by (cases x) (auto simp: fail_delivery_def hbind_def hop_keeps_def, metis snd_conv)
qed

lemma attempt_not_running:
  assumes "attempt_delivery H p g orig env attempt h = (r, h')" "db_wf (h_db h)" "r \<noteq> Inl Task_Dropped"
  shows "not_running (rp_instance_id p) (pe_event_id env) (pe_delivery_id env) (h_db h')"
proof -
  obtain x h1 where han: "handle_delivery H p g orig env h = (x, h1)" by (cases "handle_delivery H p g orig env h")
  note wf1 = hop_wf [OF evolves_handle han assms(2)]
  show ?thesis
  proof (cases x)
    case (Inl e)
    with assms han fail_not_running [OF _ wf1] show ?thesis
      by (auto simp: attempt_delivery_def split: if_splits)
  next
    case (Inr y)
    have "hop_evolves H 0 (hbind (finish_delivery H p orig env y) (\<lambda>(stop, es). hdone (Inr (Turn_Done stop es))))"
      by (auto intro!: evolves_intros)
    moreover have "hbind (finish_delivery H p orig env y) (\<lambda>(stop, es). hdone (Inr (Turn_Done stop es))) h1 = (r, h')"
      using assms(1) han Inr by (simp add: attempt_delivery_def)
    ultimately have "in_effect (rp_instance_id p) (pe_event_id env) (h_db h')" "db_wf (h_db h')"
      using effect_hop handled_effect [OF han [unfolded Inr] assms(2)] hop_wf wf1 by blast+
    then show ?thesis by (simp add: not_running_def effect_not_running)
  qed
qed

lemma reject_not_running:
  assumes "reject_excessive_action_completion H p env o1 h = (r, h')" "db_wf (h_db h)"
    and "\<not> left_running (rp_instance_id p) (pe_event_id env) (pe_delivery_id env) (h_db h)"
  shows "not_running (rp_instance_id p) (pe_event_id env) (pe_delivery_id env) (h_db h')"
proof -
  let ?i = "rp_instance_id p" and ?e = "pe_event_id env" and ?did = "pe_delivery_id env"
  let ?R = "not_running ?i ?e ?did"
  have R: "?R (h_db h)" using assms(2,3) by (simp add: not_running_def)
  show ?thesis
  proof (cases "pe_event_type env \<noteq> completed_event \<or> action_completion_depth env \<le> max_action_completion_chain")
    case True
    with assms(1) R show ?thesis by (simp add: reject_excessive_action_completion_def)
  next
    case False
    obtain now w where now: "hl_clock H (h_world h) = (now, w)" by (cases "hl_clock H (h_world h)")
    obtain db d where b: "begin_delivery ?i env o1 now (h_db h) = (db, d)"
      by (cases "begin_delivery ?i env o1 now (h_db h)")
    have wf: "db_wf db" using store_step_wf [OF assms(2), of _ "Do_Begin ?i env o1 now"] b by simp
    have "?R (fst (mark_delivery_failed ?i ?e ?did t pol db))" for t pol by (rule failed_not_running [OF wf])
    moreover have "d = None \<Longrightarrow> db = h_db h" using b by (auto simp: begin_delivery_def Let_def split: if_splits)
    ultimately show ?thesis
      using False assms(1) b R now
      by (auto simp: reject_excessive_action_completion_def hbind_def hclock_def hsql_def hdone_def disable_def
          set_state_def remove_assets_def split: option.splits prod.splits) (metis fst_conv)
  qed
qed

text \<open>[C7] A turn of the delivery loop never leaves its delivery running: when it ends, with a result, an error or a
  retry, and was not dropped at an await, the stored row of the event is no longer in progress under the identifier that the turn took, so that it
  is neither lost nor blocked until a restart. A turn that is to be repeated leaves a row that waits, with fewer
  than three attempts made and more than before.\<close>

theorem turn_settles_delivery:
  assumes "db_wf (h_db h)" "no_recovery H (rp_instance_id p)"
    and "\<not> left_running (rp_instance_id p) (pe_event_id env) (pe_delivery_id env) (h_db h)"
  shows "case begin_turn H p g orig env h of (r, h') \<Rightarrow>
    (r = Inl Task_Dropped \<or>
      \<not> left_running (rp_instance_id p) (pe_event_id env) (pe_delivery_id env) (h_db h')) \<and>
    (case r of
       Inr (Turn_Again d) \<Rightarrow>
         tries (rp_instance_id p) (pe_event_id env) (h_db h) < tries (rp_instance_id p) (pe_event_id env) (h_db h') \<and>
         tries (rp_instance_id p) (pe_event_id env) (h_db h') < 3
     | _ \<Rightarrow> True)"
proof -
  let ?i = "rp_instance_id p" and ?o = "outbox_origin_of orig (pe_event_id env)"
  obtain r h' where t: "begin_turn H p g orig env h = (r, h')" by (cases "begin_turn H p g orig env h")
  obtain x h1 where rej: "reject_excessive_action_completion H p env ?o h = (x, h1)"
    by (cases "reject_excessive_action_completion H p env ?o h")
  note 1 = reject_not_running [OF rej assms(1,3)]
  have "not_running ?i (pe_event_id env) (pe_delivery_id env) (h_db h')" if alive: "r \<noteq> Inl Task_Dropped"
  proof (cases "x = Inr False")
    case False
    with t rej 1 show ?thesis by (cases x) (auto simp: begin_turn_def Let_def hbind_def)
  next
    case True
    obtain now w where now: "hl_clock H (h_world h1) = (now, w)" by (cases "hl_clock H (h_world h1)")
    obtain db d where b: "begin_delivery ?i env ?o now (h_db h1) = (db, d)"
      by (cases "begin_delivery ?i env ?o now (h_db h1)")
    have wf1: "db_wf (h_db h1)" using 1 by (simp add: not_running_def)
    have wf: "db_wf db" using store_step_wf [OF wf1, of _ "Do_Begin ?i env ?o now"] b by simp
    have t': "(case d of None \<Rightarrow> hdone (Inr (Turn_Done False []))
        | Some delivery \<Rightarrow> attempt_delivery H p g orig env (pn_attempt delivery)) (h1\<lparr>h_world := w, h_db := db\<rparr>) = (r, h')"
      using t rej True now b by (simp add: begin_turn_def Let_def hbind_def hclock_def hsql_def)
    show ?thesis
    proof (cases d)
      case None
      then have "db = h_db h1" using b by (auto simp: begin_delivery_def Let_def split: if_splits)
      with t' None 1 show ?thesis by (auto simp: hdone_def)
    next
      case (Some q)
      with t' attempt_not_running [where h = "h1\<lparr>h_world := w, h_db := db\<rparr>"] wf alive show ?thesis by simp
    qed
  qed
  then show ?thesis
    using t turn_again [OF _ assms(1,2)]
    by (auto simp: not_running_def max_delivery_attempts_def split: sum.split delivery_turn.split)
qed

end
