(* ===== verification/PluginCommandsProps.thy ===== *)
theory PluginCommandsProps
  imports PluginCommands
begin

text \<open>
  What the commands of plugins keep to: browser tasks stay on granted URLs, a command that is recovered after a
  restart does what it would have done, and a medium that was sent can be reported as failed.
\<close>

section \<open>Browser tasks\<close>

fun step_operation :: "browser_step \<Rightarrow> ustr option" where
  "step_operation (Navigate url w t) = Some (lit ''navigate'')"
| "step_operation (Click sel t) = Some (lit ''interact'')"
| "step_operation (Fill sel v t) = Some (lit ''interact'')"
| "step_operation (Wait_For sel t) = Some (lit ''interact'')"
| "step_operation (Wait_For_Idle t) = None"
| "step_operation (Wait_Step d) = None"
| "step_operation (Extract_Text sel t) = Some (lit ''extract_text'')"
| "step_operation (Screenshot sel full fmt q) = Some (lit ''screenshot'')"

text \<open>The steps, each with the URL that was navigated to last, by the step itself or before it.\<close>

fun located :: "ustr option \<Rightarrow> browser_step list \<Rightarrow> (browser_step \<times> ustr option) list" where
  "located current [] = []"
| "located current (s # ss) = (s, next_url s current) # located (next_url s current) ss"

definition url_granted :: "browser_libs \<Rightarrow> plugin_manifest \<Rightarrow> ustr set \<Rightarrow> ustr \<Rightarrow> ustr \<Rightarrow> bool" where
  "url_granted B m granted text operation \<longleftrightarrow>
     (case bl_parse B text of
        None \<Rightarrow> False
      | Some u \<Rightarrow>
          bu_scheme u \<in> {lit ''http'', lit ''https''} \<and> bu_username u = [] \<and> bu_password u = None \<and>
          (case (bu_host u, bu_port u) of
             (Some host, Some port) \<Rightarrow>
               list_ex (\<lambda>b. browser_permits b u host port operation) (pp_browser (mf_permissions m)) \<and>
               browser_origin_capability u host port operation \<in> granted
           | _ \<Rightarrow> False))"

lemma authorize_browser_url_iff:
  "authorize_browser_url B m granted text operation = Inr () \<longleftrightarrow> url_granted B m granted text operation"
  by (auto simp: authorize_browser_url_def url_granted_def simp del: lit_Cons split: option.splits)

definition step_granted :: "browser_libs \<Rightarrow> plugin_manifest \<Rightarrow> ustr set \<Rightarrow> browser_step \<times> ustr option \<Rightarrow> bool" where
  "step_granted B m granted p =
     (case step_operation (fst p) of
        None \<Rightarrow> True
      | Some op \<Rightarrow> (case snd p of None \<Rightarrow> False | Some url \<Rightarrow> url_granted B m granted url op))"

fun wait_ms :: "browser_step \<Rightarrow> nat" where
  "wait_ms (Wait_Step d) = unat d"
| "wait_ms _ = 0"

lemma check_steps_Cons:
  assumes "check_steps B m granted current n (s # ss) = Inr n'"
  obtains cp sel t where "step_needs B m granted s = Inr (Need cp sel t)"
    and "(case cp of None \<Rightarrow> Inr () | Some op \<Rightarrow> (case next_url s current of
        None \<Rightarrow> Inl (Permanent (lit ''browser interaction requires a preceding navigate step''))
      | Some url \<Rightarrow> authorize_browser_url B m granted url op)) = Inr ()"
    and "check_steps B m granted (next_url s current) (next_wait s n) ss = Inr n'"
proof (cases "step_needs B m granted s")
  case (Inr need)
  then show ?thesis
    using assms that by (cases need) (simp add: bind_ok_def del: lit_Cons split: if_splits sum.splits)
qed (use assms in \<open>simp add: bind_ok_def\<close>)

lemma check_steps_waits:
  "check_steps B m granted current n steps = Inr n' \<Longrightarrow>
   unat n' = min (unat n + sum_list (map wait_ms steps)) (2 ^ 64 - 1)"
proof (induction steps arbitrary: current n)
  case Nil
  then show ?case using unsigned_less [where ?'a = nat, of n] by (simp add: min_def)
next
  case (Cons s ss)
  from Cons.prems have "check_steps B m granted (next_url s current) (next_wait s n) ss = Inr n'"
    by (rule check_steps_Cons)
  from Cons.IH [OF this] show ?case
    by (cases s) (simp_all add: next_wait_def unat_sat_add)
qed

lemma check_steps_granted:
  "check_steps B m granted current n steps = Inr n' \<Longrightarrow> list_all (step_granted B m granted) (located current steps)"
proof (induction steps arbitrary: current n)
  case (Cons s ss)
  from Cons.prems obtain cp sel t where
    need: "step_needs B m granted s = Inr (Need cp sel t)"
    and op: "(case cp of None \<Rightarrow> Inr () | Some op \<Rightarrow> (case next_url s current of
        None \<Rightarrow> Inl (Permanent (lit ''browser interaction requires a preceding navigate step''))
      | Some url \<Rightarrow> authorize_browser_url B m granted url op)) = Inr ()"
    and rest: "check_steps B m granted (next_url s current) (next_wait s n) ss = Inr n'"
    by (rule check_steps_Cons)
  have "step_granted B m granted (s, next_url s current)"
    using need op
    by (cases s) (auto simp: step_needs_def step_granted_def next_url_def bind_ok_Inr
        authorize_browser_url_iff simp del: lit_Cons split: if_splits option.splits)
  with Cons.IH [OF rest] show ?case by simp
qed simp

text \<open>[C27] A browser task that passes the checks of the host has between one and 32 steps, and every step that
  navigates, interacts, extracts text or takes a picture has the permission for it: the URL that it navigates
  to, or that was navigated to last before it, is an absolute HTTP URL without credentials whose origin and path
  the manifest declares with that operation and whose capability the administrator granted; a task whose
  interaction comes before any navigation is refused. Its fixed waits add up to at most 15 seconds.\<close>

theorem browser_tasks_authorized:
  "case validate_browser_request B m granted r of
     Inl _ \<Rightarrow> True
   | Inr _ \<Rightarrow>
       1 \<le> length (br_steps r) \<and> length (br_steps r) \<le> 32 \<and>
       list_all (step_granted B m granted) (located None (br_steps r)) \<and>
       sum_list (map wait_ms (br_steps r)) \<le> 15000"
proof (cases "validate_browser_request B m granted r")
  case (Inr u)
  then obtain n where steps: "check_steps B m granted None 0 (br_steps r) = Inr n" "n \<le> 15000"
    and len: "br_steps r \<noteq> []" "length (br_steps r) \<le> 32"
    by (auto simp: validate_browser_request_def Let_def bind_ok_Inr simp del: lit_Cons split: if_splits)
  have "unat n \<le> 15000" using steps(2) by (simp add: word_le_nat_alt)
  with check_steps_waits [OF steps(1)] have "sum_list (map wait_ms (br_steps r)) \<le> 15000"
    by (simp add: min_def split: if_splits)
  with Inr len check_steps_granted [OF steps(1)] show ?thesis by (simp add: Suc_le_eq)
qed simp

section \<open>Recovered commands\<close>

lemma await_same_errors:
  assumes "\<And>e. et_context (cl_texts K) (CE_Adapter e) = et_adapter (cl_texts K) e"
  shows "context_command K ad a = adapter_execute K ad a"
proof
  have "context_command_error (cl_texts K) (CE_Adapter e) = adapter_command_error (cl_texts K) e" for e
    using assms by (simp add: context_command_error_def adapter_command_error_def split: adapter_error.split)
  then show "context_command K ad a s = adapter_execute K ad a s" for s
    by (simp add: context_command_def adapter_execute_def cmd_await_def context_execute_def
        split: prod.split sum.split)
qed

lemma reply_is_context_command:
  "ctx_reply_target ctx = Some t \<Longrightarrow> ctx_source_message_id ctx = Some m \<Longrightarrow>
   cmd_await K (context_command_error (cl_texts K)) (context_reply ctx ad content) =
     context_command K ad (Action_Reply \<lparr>ra_target = t, ra_source_message_id = m, ra_content = content\<rparr>)"
  by (simp add: context_command_def context_reply_def cmd_await_def fun_eq_iff)

lemma cmd_bind_Inr [simp]: "cmd_bind (cmd_done (Inr x)) f = f x"
  by (simp add: cmd_bind_def cmd_done_def fun_eq_iff)

lemma some_or_Some [simp]: "some_or e (Some x) = cmd_done (Inr x)"
  by (simp add: some_or_def)


definition demo_media_adapter :: "(json, nat) adapter" where
  "demo_media_adapter = \<lparr>adapter_id_of = [97], platform_of = [112],
     execute = (\<lambda>a w. (Inr \<lparr>result_message_id = Some [109], result_raw = J_Null\<rparr>, w + 1))\<rparr>"

definition demo_reply_context :: "json event_context" where
  "demo_reply_context = \<lparr>ctx_adapter_id = [97], ctx_platform = [112], ctx_event_id = [101], ctx_occurred_at_ms = None,
     ctx_raw_event = J_Null, ctx_source_message_id = Some [109], ctx_reply_target = Some (Target_Group [103])\<rparr>"

definition demo_media_send :: media_send where
  "demo_media_send = \<lparr>ms_target = Target_Group [103], ms_asset_id = [120], ms_caption = None, ms_consume = True\<rparr>"

definition demo_codecs :: command_codecs where
  "demo_codecs = \<lparr>cc_content = (\<lambda>_. Some [104]), cc_send_message = (\<lambda>_. Inl [101]), cc_http = (\<lambda>_. Inl [101]),
     cc_browser = (\<lambda>_. Inl [101]), cc_media_reply = (\<lambda>_. Inl [101]), cc_media_send = (\<lambda>_. Inr demo_media_send),
     cc_action_result = (\<lambda>r. Inr (result_raw r)), cc_http_response = (\<lambda>_. Inl [101]),
     cc_browser_result = (\<lambda>_. Inl [101])\<rparr>"

definition demo_texts :: error_texts where
  "demo_texts = \<lparr>et_adapter = (\<lambda>_. [97]), et_context = (\<lambda>_. [97]), et_http = (\<lambda>_. [104]), et_asset = (\<lambda>_. [115]),
     et_plugin = (\<lambda>_. [112])\<rparr>"

text \<open>A world that counts what adapters did; the other tasks sweep the asset store late.\<close>

definition demo_command_libs :: "nat command_libs" where
  "demo_command_libs = \<lparr>cl_browser_libs = \<lparr>bl_parse = (\<lambda>_. None), bl_header_name = (\<lambda>_. True),
       bl_header_value = (\<lambda>_. True)\<rparr>,
     cl_texts = demo_texts, cl_codecs = demo_codecs, cl_http = (\<lambda>_ _ _ w. (Inl NonPublicAddress, w)),
     cl_browser = (\<lambda>_ _ _ w. (Inl (BE_Unavailable []), w)), cl_adapters = [([97], demo_media_adapter)],
     cl_limits = default_asset_limits, cl_now = (\<lambda>w. 5), cl_wall = (\<lambda>w. 5), cl_fresh = (\<lambda>w. [w]),
     cl_hash = (\<lambda>d w. (Inr [], w)), cl_others = (\<lambda>w s. sweep 100 s)\<rparr>"

definition demo_reply :: plugin_command where
  "demo_reply = \<lparr>pc_command_id = [99], pc_kind = lit ''message.reply'', pc_idempotency_key = None,
     pc_deadline_ms = None, pc_payload = J_Null\<rparr>"

definition demo_plugin :: registered_plugin where
  "demo_plugin = \<lparr>rp_manifest = demo_manifest, rp_instance_id = [105], rp_granted = {lit ''message.reply''},
     rp_queries = []\<rparr>"


section \<open>Sent but reported as failed\<close>

text \<open>A medium that the adapter has sent is reported to the plugin as permanently failed when the asset is gone
  by the time it is consumed, as when the sweeper removed it at its deadline while the adapter was sending. The
  action has been taken; its result is lost, and no retry is asked for.\<close>

theorem media_sent_reported_failed:
  assumes "cc_media_send (cl_codecs K) (pc_payload c) = Inr r" "ms_consume r"
    and "asset_get (cl_now K w) i (ms_asset_id r) s = (s1, Inr asset)"
    and "bt_get (cl_adapters K) (origin_adapter_id orig) = Some ad"
    and "image_attachment (sa_mime_type asset) None (sa_data asset) = Inr img"
    and "BotModel.execute ad (Action_SendMedia \<lparr>sd_target = ms_target r, sd_attachment = img,
      sd_caption = ms_caption r\<rparr>) w = (Inr result, w1)"
    and "hm_get (as_records (cl_others K w1 s1)) (ms_asset_id r) = None"
    and "\<not> as_poisoned (cl_others K w1 s1)"
  shows "media_send_command K i orig c (s, w) =
    (Inl (Permanent (et_asset (cl_texts K) NotFound)), cl_others K w1 s1, w1)"
  using assms
  by (simp add: media_send_command_def permanent_def get_asset_def cmd_assets_def find_adapter_def image_of_def
      adapter_execute_def cmd_await_def consume_asset_def asset_remove_def cmd_bind_def cmd_done_def
      del: lit_Cons)

definition demo_assets :: asset_state where
  "demo_assets = fst (insert_prehashed (default_asset_limits\<lparr>al_ttl := 50\<rparr>) 1 1 [120] [105] (lit ''image/png'')
     (png_magic @ [1]) [] new_asset_state)"

lemma media_sent_reported_failed_witness:
  "media_send_command demo_command_libs [105] (From_Schedule [97]) demo_reply (demo_assets, 0) =
     (Inl (Permanent [115]), sweep 100 demo_assets, 1)"
proof -
  let ?asset = "\<lparr>sa_mime_type = lit ''image/png'', sa_data = png_magic @ [1]\<rparr>"
  let ?img = "\<lparr>mime_type = lit ''image/png'', filename = None, media_data = png_magic @ [1]\<rparr>"
  have 1: "cc_media_send (cl_codecs demo_command_libs) (pc_payload demo_reply) = Inr demo_media_send"
    and 2: "ms_consume demo_media_send"
    by (simp_all add: demo_command_libs_def demo_codecs_def demo_media_send_def)
  have 3: "asset_get (cl_now demo_command_libs 0) [105] (ms_asset_id demo_media_send) demo_assets = (demo_assets, Inr ?asset)"
    by code_simp
  have 4: "bt_get (cl_adapters demo_command_libs) (origin_adapter_id (From_Schedule [97] :: nat execution_origin)) =
      Some demo_media_adapter"
    by (simp add: demo_command_libs_def bt_get_def)
  have 5: "image_attachment (sa_mime_type ?asset) None (sa_data ?asset) = Inr ?img" by code_simp
  have 6: "BotModel.execute demo_media_adapter a 0 = (Inr \<lparr>result_message_id = Some [109], result_raw = J_Null\<rparr>, 1)" for a
    by (simp add: demo_media_adapter_def)
  have 7: "cl_others demo_command_libs 1 demo_assets = sweep 100 demo_assets"
    by (simp add: demo_command_libs_def)
  have 8: "hm_get (as_records (sweep 100 demo_assets)) (ms_asset_id demo_media_send) = None" by code_simp
  have 9: "\<not> as_poisoned (sweep 100 demo_assets)" by code_simp
  from media_sent_reported_failed [OF 1 2 3 4 5 6 [of _] 8 [folded 7] 9 [folded 7]]
  show ?thesis by (simp add: 7) (simp add: demo_command_libs_def demo_texts_def)
qed

end
