(* ===== verification/PluginRecovery.thy ===== *)
theory PluginRecovery
  imports PluginDeliveryProps PluginCommandsProps
begin

text \<open>
  Traps and restarts: a plugin whose code trapped is out of service at once, and what a stopped host left behind
  is settled without running a command again.
\<close>

section \<open>Bookkeeping touches only the store\<close>

definition beside_store where
  "beside_store h = (h_assets h, h_life h, h_log h, h_config h, h_workers h)"

definition hop_bookkeeping :: "('w, 'a) hop \<Rightarrow> bool" where
  "hop_bookkeeping m \<longleftrightarrow> (\<forall>h. beside_store (snd (m h)) = beside_store h)"

named_theorems bookkeeping_intros \<open>operations that touch the store only\<close>

lemma bookkeepingD: "hop_bookkeeping m \<Longrightarrow> m h = (r, h') \<Longrightarrow> beside_store h' = beside_store h"
  unfolding hop_bookkeeping_def by (metis snd_conv)

lemma bookkeeping_bind [bookkeeping_intros]:
  assumes "hop_bookkeeping m" "\<And>x. hop_bookkeeping (f x)"
  shows "hop_bookkeeping (hbind m f)"
  unfolding hop_bookkeeping_def
proof
  fix h
  obtain r h1 where m: "m h = (r, h1)" by (cases "m h")
  note 1 = bookkeepingD [OF assms(1) m]
  show "beside_store (snd (hbind m f h)) = beside_store h"
    using m 1 assms(2) by (cases r) (simp_all add: hbind_def hop_bookkeeping_def)
qed

lemma bookkeeping_basic [bookkeeping_intros]:
  "hop_bookkeeping (hdone r)" "hop_bookkeeping (hread f)" "hop_bookkeeping (hclock H)" "hop_bookkeeping (huuid H)"
  "hop_bookkeeping (hupdate u)" "hop_bookkeeping (hsql q)" "hop_bookkeeping (encoded who x)"
  by (simp_all add: hop_bookkeeping_def beside_store_def hdone_def hread_def hclock_def huuid_def hupdate_def hsql_def encoded_def
      split: prod.split)

lemma bookkeeping_interrupt [bookkeeping_intros]: "hop_bookkeeping (interrupt_commands H p qs)"
  by (induction qs) (simp_all add: persist_completion_def bookkeeping_intros)

lemma bookkeeping_envelopes [bookkeeping_intros]: "hop_bookkeeping (completion_envelopes H orig n cs)"
  by (induction cs) (simp_all add: action_completion_envelope_def bookkeeping_intros)

lemma bookkeeping_prepare [bookkeeping_intros]:
  "hop_bookkeeping (prepare_action_completion_envelopes H p orig cs d)"
  by (simp add: prepare_action_completion_envelopes_def bookkeeping_intros)

lemma bookkeeping_enqueue_all [bookkeeping_intros]: "hop_bookkeeping (enqueue_all p orig now es)"
  by (induction es) (simp_all add: bookkeeping_intros)

lemma bookkeeping_enqueue_each [bookkeeping_intros]: "hop_bookkeeping (enqueue_each H p orig es)"
  by (induction es) (simp_all add: bookkeeping_intros del: enqueue_all.simps)

lemma bookkeeping_results [bookkeeping_intros]: "hop_bookkeeping (queue_results H p orig depth rs)"
  by (induction rs) (auto intro!: bookkeeping_intros)

lemma bookkeeping_recover [bookkeeping_intros]: "hop_bookkeeping (recover_committed_delivery H p orig env)"
  by (simp add: recover_committed_delivery_def Let_def bookkeeping_intros)

section \<open>Traps\<close>

definition assets_of :: "ustr \<Rightarrow> asset_state \<Rightarrow> (ustr \<times> asset_record) list" where
  "assets_of i s = filter (\<lambda>p. ar_instance (snd p) = i) (as_records s)"

lemma remove_record_records: "set (as_records (remove_record a s)) = {p \<in> set (as_records s). fst p \<noteq> a}"
proof (cases "hm_get (as_records s) a")
  case None
  then have "a \<notin> fst ` set (as_records s)" by (simp add: hm_get_None_iff)
  with None show ?thesis by (auto simp: remove_record_def)
next
  case (Some r)
  have "set (hm_del a (as_records s)) = {p \<in> set (as_records s). fst p \<noteq> a}"
    by (auto simp: hm_del_def AList.delete_eq)
  with Some show ?thesis by (auto simp: remove_record_def Let_def split: option.split)
qed

lemma remove_records_records:
  "set (as_records (remove_records ids s)) = {p \<in> set (as_records s). fst p \<notin> set ids}"
  by (induction ids arbitrary: s) (auto simp: remove_records_def remove_record_records)

lemma remove_instance_none: "assets_of i (remove_instance i s) = []"
  by (force simp: assets_of_def remove_instance_def remove_records_records filter_empty_conv)

definition given_up :: "ustr \<Rightarrow> ustr \<Rightarrow> plugin_db \<Rightarrow> bool" where
  "given_up i e db \<longleftrightarrow> db_wf db \<and> circuit_open i db \<and>
     (case hm_get (db_deliveries db) (i, e) of None \<Rightarrow> False | Some d \<Rightarrow> dr_status d = Dead_Letter)"

lemma given_up_kept: "bookkept i e (given_up i e)"
proof -
  have "given_up i e (mark_command j v c st a db)" if "given_up i e db" for j v c st a db
    using that store_step_wf [of db _ "Do_Mark_Command j v c st a"]
    by (simp add: given_up_def circuit_open_def mark_command_def)
  moreover have "given_up i e (enqueue_delivery j env o1 now db)" if "given_up i e db" for j env o1 now db
    using that store_step_wf [of db _ "Do_Enqueue j env o1 now"]
    by (auto simp: given_up_def circuit_open_def enqueue_delivery_def Let_def hm_contains_def hm_simps db_wf_def
        split: option.splits)
  moreover have "given_up i e (fst (finalize_committed_delivery i e now db))" if "given_up i e db" for now db
    using that by (auto simp: given_up_def finalize_committed_delivery_def split: option.splits)
  ultimately show ?thesis by (simp add: bookkept_def)
qed

lemma trap_given_up:
  assumes "db_wf db" "hm_get (db_deliveries db) (i, e) = Some d" "dr_delivery_id d = did" "dr_status d = Running"
    and "fp_max_attempts pol \<le> dr_attempt d" "fp_circuit_threshold pol \<le> 1" "fp_counts_toward_circuit pol"
    and "mark_delivery_failed i e did t pol db = (db', r)"
  shows "given_up i e db' \<and> fr_updated r \<and> fr_dead_letter r \<and> fr_circuit_open r"
  using assms store_step_wf [OF assms(1), of _ "Do_Failed i e did t pol"]
  by (auto simp: given_up_def circuit_open_def mark_delivery_failed_def count_failure_def Let_def hm_simps db_wf_def
      split: option.splits)

lemma disable_gives:
  "disable p h = (Inr (), h\<lparr>h_life := (h_life h)\<lparr>lc_state := Disabled\<rparr>,
     h_assets := remove_instance (rp_instance_id p) (h_assets h)\<rparr>)"
  by (simp add: disable_def hbind_def set_state_def remove_assets_def)

lemma trap_recorded:
  assumes "fatal_trap e" "db_wf (h_db h)" "hm_get (db_deliveries (h_db h)) (rp_instance_id p, pe_event_id env) = Some d"
    and "dr_delivery_id d = pe_delivery_id env" "dr_status d = Running" "1 \<le> dr_attempt d"
    and "record_delivery_failure H p env n e h = (r, h')"
  shows "r = Inr None \<and> given_up (rp_instance_id p) (pe_event_id env) (h_db h') \<and>
    lc_state (h_life h') = Disabled \<and> assets_of (rp_instance_id p) (h_assets h') = [] \<and>
    h_log h' = h_log h"
proof -
  obtain now w where now: "hl_clock H (h_world h) = (now, w)" by (cases "hl_clock H (h_world h)")
  let ?f = "mark_delivery_failed (rp_instance_id p) (pe_event_id env) (pe_delivery_id env) (hl_error_text H e)
      (failure_policy_of e n now)"
  obtain db x where f: "?f (h_db h) = (db, x)" by (cases "?f (h_db h)")
  have "\<not> delivery_error_retryable e" using assms(1) by (cases e) (simp_all add: fatal_trap_def delivery_error_retryable_def)
  moreover from this have "given_up (rp_instance_id p) (pe_event_id env) db \<and> fr_updated x \<and> fr_dead_letter x \<and> fr_circuit_open x"
    using assms(1,6) by (intro trap_given_up [OF assms(2-5) _ _ _ f]) (simp_all add: failure_policy_of_def Let_def)
  ultimately show ?thesis
    using assms(1,7) f
    by (auto simp: record_delivery_failure_def hbind_def hclock_def hsql_def now disable_gives hdone_def
        remove_instance_none)
qed


section \<open>Commands of a stopped host\<close>

definition interrupt_row :: "pending_command \<Rightarrow> plugin_db \<Rightarrow> plugin_db" where
  "interrupt_row q =
     mark_command (pq_instance_id q) (pq_invocation_id q) (pc_command_id (pq_command q)) Action_Unknown
       (interrupted_completion q)"

text \<open>The database in which every pending command of the instance is marked as interrupted.\<close>

definition interrupted :: "ustr \<Rightarrow> plugin_db \<Rightarrow> plugin_db" where
  "interrupted i db = fold interrupt_row (pending_commands i db) db"

definition completion_event_id :: "ustr \<Rightarrow> ustr \<Rightarrow> ustr" where
  "completion_event_id v c = lit ''action/'' @ v @ lit ''/'' @ c"

lemma interrupt_commands_db:
  "interrupt_commands H p qs h = (Inr (), h') \<Longrightarrow> h' = h\<lparr>h_db := fold interrupt_row qs (h_db h)\<rparr>"
proof (induction qs arbitrary: h)
  case (Cons q qs)
  then obtain h1 where 1: "persist_completion H p (pq_instance_id q) (pq_invocation_id q)
      (pc_command_id (pq_command q)) (interrupted_completion q) h = (Inr (), h1)"
    and 2: "interrupt_commands H p qs h1 = (Inr (), h')"
    by (auto elim!: hbind_Inr)
  from 1 have "h1 = h\<lparr>h_db := interrupt_row q (h_db h)\<rparr>"
    by (auto simp: persist_completion_def encoded_def hupdate_def interrupt_row_def interrupted_completion_def
        elim!: hbind_Inr split: sum.splits)
  with Cons.IH [OF 2] show ?case by simp
qed simp

lemma mirror_row_key: "mirror L db \<Longrightarrow> (k, o1) \<in> set (db_outbox db) \<Longrightarrow> k = row_key (ob_payload o1)"
proof -
  assume "mirror L db" and m: "(k, o1) \<in> set (db_outbox db)"
  then have "map fst (db_outbox db) = map (\<lambda>p. row_key (ob_payload (snd p))) (db_outbox db)"
    by (simp add: mirror_def queued_rows_def comp_def)
  with m show ?thesis by (auto simp: map_eq_conv)
qed

lemma pending_after_mark:
  assumes "mirror L db"
  shows "pending_commands i (mark_command j v c st a db) = filter (\<lambda>q. row_key q \<noteq> (j, v, c)) (pending_commands i db)"
proof -
  have "map (ob_payload \<circ> snd) (filter (\<lambda>p. fst (fst p) = i \<and> ob_status (snd p) = Command_Pending)
      (sql_update (\<lambda>k _. k = (j, v, c)) (\<lambda>o1. o1\<lparr>ob_status := Command_Ended st\<rparr>) m)) =
    filter (\<lambda>q. row_key q \<noteq> (j, v, c)) (map (ob_payload \<circ> snd)
      (filter (\<lambda>p. fst (fst p) = i \<and> ob_status (snd p) = Command_Pending) m))"
    if "\<forall>p\<in>set m. fst p = row_key (ob_payload (snd p))" for m
    using that by (induction m) (auto simp: sql_update_def)
  then show ?thesis
    using mirror_row_key [OF assms] by (fastforce simp: pending_commands_def mark_command_def)
qed

lemma pending_after_fold:
  "mirror L db \<Longrightarrow> mirror L (fold interrupt_row qs db) \<and>
   set (pending_commands i (fold interrupt_row qs db)) = {q \<in> set (pending_commands i db). row_key q \<notin> row_key ` set qs}"
proof (induction qs arbitrary: db)
  case (Cons q qs)
  have "mirror L (interrupt_row q db)" using mirror_mark_command [OF Cons.prems] by (simp add: interrupt_row_def)
  from Cons.IH [OF this] pending_after_mark [OF Cons.prems] show ?case
    by (auto simp: interrupt_row_def row_key_def)
qed simp

lemma interrupt_row_get:
  "hm_get (db_ledger (interrupt_row q db)) k =
     map_option (\<lambda>l. if k = row_key q
       then l\<lparr>lr_status := Command_Ended Action_Unknown, lr_result := Some (interrupted_completion q)\<rparr> else l)
     (hm_get (db_ledger db) k)"
  by (cases "hm_get (db_ledger db) k") (simp_all add: interrupt_row_def mark_command_def sql_update_get row_key_def)

lemma fold_interrupt_other:
  "k \<notin> row_key ` set qs \<Longrightarrow> hm_get (db_ledger (fold interrupt_row qs db)) k = hm_get (db_ledger db) k"
  by (induction qs arbitrary: db) (auto simp: interrupt_row_get option.map_ident)

lemma fold_interrupt_result:
  "distinct (map row_key qs) \<Longrightarrow> q \<in> set qs \<Longrightarrow> hm_get (db_ledger db) (row_key q) \<noteq> None \<Longrightarrow>
   \<exists>l. hm_get (db_ledger (fold interrupt_row qs db)) (row_key q) = Some l \<and> lr_result l = Some (interrupted_completion q)"
proof (induction qs arbitrary: db)
  case (Cons q1 qs)
  have some: "hm_get (db_ledger (interrupt_row q1 db)) (row_key q) \<noteq> None"
    using Cons.prems(3) by (simp add: interrupt_row_get)
  show ?case
  proof (cases "q = q1")
    case True
    with Cons.prems have "row_key q \<notin> row_key ` set qs" by auto
    with Cons.prems True show ?thesis
      by (auto simp: fold_interrupt_other interrupt_row_get)
  qed (use Cons some in simp)
qed simp

lemma fold_interrupt_frame:
  "db_deliveries (fold interrupt_row qs db) = db_deliveries db \<and>
   map (\<lambda>p. (fst p, ob_payload (snd p))) (db_outbox (fold interrupt_row qs db)) =
     map (\<lambda>p. (fst p, ob_payload (snd p))) (db_outbox db)"
  by (induction qs arbitrary: db) (auto simp: interrupt_row_def mark_command_def sql_update_def comp_def split_beta)

lemma interrupted_result:
  assumes "mirror L db" "q \<in> set (pending_commands i db)" "(dk, d) \<in> set (db_deliveries db)" "fst dk = i"
    and "dr_invocation_id d = pq_invocation_id q" "dr_status d = Committed"
  shows "(q, interrupted_completion q, dr_envelope d) \<in> set (committed_command_results i (interrupted i db))"
proof -
  let ?qs = "pending_commands i db" and ?db = "interrupted i db"
  from assms(2) obtain k o1 where o: "(k, o1) \<in> set (db_outbox db)" "fst k = i" "q = ob_payload o1"
    by (auto simp: pending_commands_def)
  have k: "k = row_key q" using mirror_row_key [OF assms(1) o(1)] o(3) by simp
  have "(k, q) \<in> set (map (\<lambda>p. (fst p, ob_payload (snd p))) (db_outbox ?db))"
    using o fold_interrupt_frame [of ?qs db] by (force simp: interrupted_def)
  then obtain o2 where o2: "(k, o2) \<in> set (db_outbox ?db)" "ob_payload o2 = q" by auto
  have dist: "distinct (map row_key ?qs)"
    using assms(1) unfolding mirror_def queued_rows_def pending_commands_def
    by (auto simp: comp_def intro: distinct_map_filter)
  have "row_key q \<in> set (map fst (db_ledger db))"
    unfolding mirror_keys [OF assms(1)] using o by (force simp: queued_rows_def)
  then have "hm_get (db_ledger db) (row_key q) \<noteq> None" by (simp add: hm_get_None_iff)
  from fold_interrupt_result [OF dist assms(2) this] obtain l where
    l: "hm_get (db_ledger ?db) k = Some l" "lr_result l = Some (interrupted_completion q)"
    by (auto simp: interrupted_def k)
  have "db_deliveries ?db = db_deliveries db" using fold_interrupt_frame by (simp add: interrupted_def)
  with o2 l assms(3-6) o(2) k show ?thesis
    by (force simp: committed_command_results_def row_key_def)
qed

definition has_delivery :: "ustr \<Rightarrow> ustr \<Rightarrow> plugin_db \<Rightarrow> bool" where
  "has_delivery i e db \<longleftrightarrow> hm_wf (db_deliveries db) \<and> hm_contains (db_deliveries db) (i, e)"

lemma has_delivery_enqueue: "has_delivery i e db \<Longrightarrow> has_delivery i e (enqueue_delivery j env o1 now db)"
  by (auto simp: has_delivery_def enqueue_delivery_def Let_def hm_contains_def hm_simps split: option.splits)

lemma has_delivery_enqueued:
  "hm_wf (db_deliveries db) \<Longrightarrow> has_delivery i (pe_event_id env) (enqueue_delivery i env o1 now db)"
  by (auto simp: has_delivery_def enqueue_delivery_def Let_def hm_contains_def hm_simps split: option.splits)

lemma has_delivery_finalize: "has_delivery i e db \<Longrightarrow> has_delivery i e (finalize_committed_deliveries j now db)"
  by (auto simp: has_delivery_def finalize_committed_deliveries_def Let_def hm_contains_def sql_update_get
      split: option.splits)

lemma enqueue_each_has:
  "enqueue_each H p orig es h = (Inr (), h') \<Longrightarrow> has_delivery i e (h_db h) \<Longrightarrow> has_delivery i e (h_db h')"
proof (induction es arbitrary: h)
  case (Cons x es)
  then obtain now h1 where "hclock H h = (Inr now, h1)"
    "enqueue_each H p orig es (h1\<lparr>h_db := enqueue_delivery (rp_instance_id p) x
       (outbox_origin_of orig (pe_event_id x)) now (h_db h1)\<rparr>) = (Inr (), h')"
    by (auto simp: hupdate_def elim!: hbind_Inr)
  with Cons.IH [OF this(2)] Cons.prems(2) has_delivery_enqueue show ?case
    by (auto simp: hclock_def split: prod.splits)
qed simp

lemma results_has:
  "queue_results H p orig depth rs h = (Inr es, h') \<Longrightarrow> has_delivery i e (h_db h) \<Longrightarrow> has_delivery i e (h_db h')"
proof (induction rs arbitrary: h es)
  case (Cons r rs)
  obtain q a par where r: "r = (q, a, par)" by (cases r)
  with Cons.prems(1) obtain xs h1 h2 ys where
    pre: "prepare_action_completion_envelopes H p (orig q) [a] (depth par) h = (Inr xs, h1)"
    and "enqueue_each H p (orig q) xs h1 = (Inr (), h2)" "queue_results H p orig depth rs h2 = (Inr ys, h')"
    by (auto elim!: hbind_Inr)
  moreover have "h_db h1 = h_db h"
    using keepsD [OF keeps_prepare pre, where R = "\<lambda>db. db = h_db h"] by simp
  ultimately show ?case using Cons.IH Cons.prems(2) enqueue_each_has by metis
qed auto

lemma results_queued:
  assumes "queue_results H p orig depth rs h = (Inr es, h')" "hm_wf (db_deliveries (h_db h))"
    and "priority_for (rp_manifest p) completed_event None \<noteq> None" "(q, a, par) \<in> set rs"
  shows "has_delivery (rp_instance_id p) (completion_event_id (ac_source_invocation_id a) (ac_command_id a)) (h_db h')"
  using assms(1,2,4)
proof (induction rs arbitrary: h es)
  case (Cons r rs)
  obtain q1 a1 par1 where r: "r = (q1, a1, par1)" by (cases r)
  with Cons.prems(1) obtain xs h1 h2 ys where
    pre: "prepare_action_completion_envelopes H p (orig q1) [a1] (depth par1) h = (Inr xs, h1)"
    and enq: "enqueue_each H p (orig q1) xs h1 = (Inr (), h2)"
    and rest: "queue_results H p orig depth rs h2 = (Inr ys, h')"
    by (auto elim!: hbind_Inr)
  have db1: "h_db h1 = h_db h" using keepsD [OF keeps_prepare pre, where R = "\<lambda>db. db = h_db h"] by simp
  from pre assms(3) obtain x where x: "xs = [x]"
    "pe_event_id x = completion_event_id (ac_source_invocation_id a1) (ac_command_id a1)"
    by (auto simp: prepare_action_completion_envelopes_def action_completion_envelope_def completion_event_id_def
        simp del: lit_Cons elim!: hbind_Inr)
  from enq x obtain now where h2: "h_db h2 = enqueue_delivery (rp_instance_id p) x
      (outbox_origin_of (orig q1) (pe_event_id x)) now (h_db h1)"
    by (auto simp: hupdate_def hclock_def elim!: hbind_Inr split: prod.splits)
  note new = has_delivery_enqueued [OF Cons.prems(2) [folded db1], of "rp_instance_id p" x]
  show ?case
  proof (cases "(q, a, par) = r")
    case True
    with new h2 x r have "has_delivery (rp_instance_id p)
        (completion_event_id (ac_source_invocation_id a) (ac_command_id a)) (h_db h2)" by simp
    then show ?thesis by (rule results_has [OF rest])
  next
    case False
    with Cons.IH [OF rest] Cons.prems(3) new h2 show ?thesis by (simp add: has_delivery_def)
  qed
qed simp

lemma none_pending_kept: "bookkept j x (\<lambda>db. mirror L db \<and> pending_commands i db = [])"
proof -
  have "pending_commands i (mark_command j' v c st a db) = []" if "mirror L db" "pending_commands i db = []" for j' v c st a db
    using pending_after_mark [OF that(1), of i j' v c st a] that(2) by simp
  moreover have "mirror L (enqueue_delivery j' env o1 now db) \<and>
      pending_commands i (enqueue_delivery j' env o1 now db) = pending_commands i db" if "mirror L db" for j' env o1 now db
    using that mirror_cong [of "enqueue_delivery j' env o1 now db" db]
    by (simp add: enqueue_delivery_def Let_def pending_commands_def)
  moreover have "mirror L (fst (finalize_committed_delivery j x now db)) \<and>
      pending_commands i (fst (finalize_committed_delivery j x now db)) = pending_commands i db" if "mirror L db" for now db
    using that mirror_cong [of "fst (finalize_committed_delivery j x now db)" db]
    by (auto simp: finalize_committed_delivery_def Let_def pending_commands_def split: option.splits)
  ultimately show ?thesis using mirror_mark_command by (simp add: bookkept_def)
qed


section \<open>A host that runs\<close>

text \<open>The world is a number that the clock and the identifiers count up; other tasks are idle.\<close>

definition demo_host_libs :: "nat host_libs" where
  "demo_host_libs = \<lparr>hl_command = demo_command_libs, hl_store = \<lparr>sl_command = (\<lambda>_. Some []), sl_value = (\<lambda>_. Some [])\<rparr>,
     hl_clock = (\<lambda>w. (int w, w + 1)), hl_uuid = (\<lambda>w. ([w], w + 1)), hl_completion_json = (\<lambda>_. Inr J_Null),
     hl_event_json = (\<lambda>_. Inr J_Null), hl_triggered_json = (\<lambda>_. Inr J_Null), hl_output_bytes = (\<lambda>_. Some []),
     hl_create = (\<lambda>_. Inl []), hl_cancel = (\<lambda>_. Inl []), hl_message_target = (\<lambda>_. None), hl_error_text = (\<lambda>_. []),
     hl_store_text = (\<lambda>_. []), hl_extension_text = (\<lambda>_. []), hl_cut = (\<lambda>_ _ _. None), hl_calls = (\<lambda>_. []),
     hl_lifecycle = (\<lambda>_ l. l), hl_configure = (\<lambda>_ c. c), hl_workers = (\<lambda>_ t. t), hl_drops = (\<lambda>_. False), hl_suspends = (\<lambda>_. False)\<rparr>"

definition demo_trap :: "nat guest" where
  "demo_trap = \<lparr>g_on_event = (\<lambda>_ _ w. (Guest_Ended (Inl (GuestTrap [116])), w)),
     g_validate_config = (\<lambda>_ w. (Guest_Ended (Inr ()), w)), g_init = (\<lambda>_ w. (Guest_Ended (Inr ()), w)),
     g_health = (\<lambda>w. (Guest_Ended (Inr True), w)), g_migrate_state = (\<lambda>_ _ _ w. (Guest_Ended (Inr []), w)),
     g_shutdown = (\<lambda>w. (Guest_Ended (Inr ()), w))\<rparr>"

definition demo_plugin_event :: plugin_event where
  "demo_plugin_event = \<lparr>pe_protocol_version = bpp_version_text, pe_event_id = [101], pe_delivery_id = [100],
     pe_invocation_id = [118], pe_occurred_at_ms = None, pe_received_at_ms = 0, pe_adapter_id = [97],
     pe_event_type = lit ''notice.received'', pe_trace_id = None, pe_payload = J_Null, pe_extensions = []\<rparr>"

definition demo_host :: "plugin_db \<Rightarrow> nat host_state" where
  "demo_host db = \<lparr>h_db = db, h_assets = new_asset_state, h_life = \<lparr>lc_state = Ready_Instance, lc_generation = 0\<rparr>,
     h_config = [], h_workers = \<lparr>wt_handles = [], wt_spawned = [], wt_aborted = []\<rparr>, h_self = None, h_log = [], h_world = 1\<rparr>"

definition demo_begun :: plugin_db where
  "demo_begun = fst (begin_delivery [105] demo_plugin_event
     \<lparr>oo_source_event_id = [101], oo_adapter_id = [97], oo_reply_target = None, oo_source_message_id = None\<rparr> 0 empty_db)"

lemma demo_no_recovery: "no_recovery demo_host_libs i"
  by (simp add: no_recovery_def demo_host_libs_def)

lemma demo_host_wf: "db_wf (h_db (demo_host empty_db))"
  by (simp add: demo_host_def empty_db_wf)


lemma turn_settles_delivery_witness:
  "let run = begin_turn demo_host_libs demo_plugin demo_trap (From_Schedule [97]) demo_plugin_event
     (demo_host empty_db)
   in fst run = Inl Task_Dropped \<or> \<not> left_running [105] [101] [100] (h_db (snd run))"
proof -
  have "\<not> left_running (rp_instance_id demo_plugin) (pe_event_id demo_plugin_event) (pe_delivery_id demo_plugin_event)
      (h_db (demo_host empty_db))"
    by (simp add: left_running_def demo_host_def empty_db_def hm_get_def life_of_def)
  from turn_settles_delivery [OF demo_host_wf demo_no_recovery this, of demo_trap "From_Schedule [97]"]
  have "let run = begin_turn demo_host_libs demo_plugin demo_trap (From_Schedule [97]) demo_plugin_event
     (demo_host empty_db)
   in fst run = Inl Task_Dropped \<or> \<not> left_running (rp_instance_id demo_plugin) (pe_event_id demo_plugin_event)
        (pe_delivery_id demo_plugin_event) (h_db (snd run))"
    by (simp add: split_beta Let_def)
  then show ?thesis by (simp add: Let_def demo_plugin_def demo_plugin_event_def)
qed

lemma demo_begun_row:
  "hm_get (db_deliveries demo_begun) ([105], [101]) =
     Some \<lparr>dr_delivery_id = [100], dr_invocation_id = [118], dr_attempt = 1, dr_envelope = demo_plugin_event,
       dr_origin = \<lparr>oo_source_event_id = [101], oo_adapter_id = [97], oo_reply_target = None,
         oo_source_message_id = None\<rparr>, dr_status = Running, dr_next_attempt_ms = 0, dr_last_error = None,
       dr_health_generation = 0, dr_updated_at_ms = 0\<rparr>"
  by (simp add: demo_begun_def begin_delivery_def demo_plugin_event_def empty_db_def hm_get_def hm_put_def
      delivery_blocked_def health_generation_of_def Let_def)

lemma demo_trap_handled:
  "\<exists>h1. handle_delivery demo_host_libs demo_plugin demo_trap (From_Schedule [97]) demo_plugin_event
      (demo_host demo_begun) = (Inl (Guest_Trapped (plugin_id_of demo_plugin) [116]), h1) \<and> h_db h1 = demo_begun"
  by (simp add: handle_delivery_def invoke_envelope_def hbind_def hread_def hlog_def hawait_def hdone_def demo_trap_def
      supervised_result_def guest_failure_def others_def dropped_def Let_def demo_host_def demo_host_libs_def)


end
