(* ===== verification/PluginHostProps.thy ===== *)
theory PluginHostProps
  imports PluginHost PluginRecovery
begin

text \<open>
  Properties of the host of all plugins: the registry of instances and commands, rollback of a failed upgrade,
  configuration changes, dispatch that no plugin can break, and shutdown.
\<close>

section \<open>Private state\<close>

definition private_state :: "ustr \<Rightarrow> plugin_db \<Rightarrow> ustr \<Rightarrow> state_value option" where
  "private_state i db k = hm_get (db_state db) (i, k)"

definition valid_keys :: "plugin_db \<Rightarrow> bool" where
  "valid_keys db \<longleftrightarrow> list_all (\<lambda>p. key_ok (snd (fst p))) (db_state db)"

lemma state_frames [simp]:
  "db_state (mark_command j v c st2 res db) = db_state db"
  "db_state (fst (begin_delivery j env orig now db)) = db_state db"
  "db_state (fst (mark_delivery_failed j e did err pol db)) = db_state db"
  "db_state (reset_health_if_generation j g now db) = db_state db"
  by (auto simp: mark_command_def begin_delivery_def reset_health_if_generation_def
      mark_delivery_failed_def count_failure_def Let_def split: option.split prod.split)

lemma state_frames_more [simp]:
  "db_state (fst (mark_delivery_succeeded j e did now db)) = db_state db"
  "db_state (finalize_committed_deliveries j now db) = db_state db"
  "db_state (fst (finalize_committed_delivery j e now db)) = db_state db"
  "db_state (enqueue_delivery j env orig now db) = db_state db"
  "db_state (requeue_running_deliveries j now db) = db_state db"
  "db_state (fst (recover_dead_letters j now db)) = db_state db"
  "db_state (upsert_installation n db) = db_state db"
  "db_state (fst (write_installation n t db)) = db_state db"
  "db_state (fst (set_installation_enabled j b now db)) = db_state db"
  "db_state (fst (remove_installation j db)) = db_state db"
  "db_state (fst (remove_installation_if_updated j t2 db)) = db_state db"
  by (auto simp: mark_delivery_succeeded_def finalize_committed_deliveries_def finalize_committed_delivery_def
      enqueue_delivery_def requeue_running_deliveries_def recover_dead_letters_def upsert_installation_def
      write_installation_def set_installation_enabled_def remove_installation_def remove_installation_if_updated_def
      reset_health_if_generation_def Let_def split: option.split prod.split)

lemma state_frames_schedules [simp]:
  "db_state (fst (create_schedule L task q db)) = db_state db"
  "db_state (fst (cancel_schedule j t db)) = db_state db"
  "db_state (requeue_firing_schedules j db) = db_state db"
  "db_state (fst (recover_schedules j db)) = db_state db"
  "db_state (fst (claim_schedule j t db)) = db_state db"
  "db_state (finish_schedule j t db) = db_state db"
  by (auto simp: create_schedule_def cancel_schedule_def requeue_firing_schedules_def recover_schedules_def
      claim_schedule_def finish_schedule_def Let_def split: option.split prod.split)

lemma put_valid: "list_all (\<lambda>p. key_ok (snd (fst p))) t \<Longrightarrow> key_ok (snd k) \<Longrightarrow>
    list_all (\<lambda>p. key_ok (snd (fst p))) (hm_put k v t)"
  by (induction t) (auto simp: hm_put_def)

lemma del_valid: "list_all (\<lambda>p. key_ok (snd (fst p))) t \<Longrightarrow> list_all (\<lambda>p. key_ok (snd (fst p))) (hm_del k t)"
  by (auto simp: hm_del_def list_all_iff AList.delete_eq)

lemma apply_valid:
  "apply_state_ops i ops t = Inr t' \<Longrightarrow> list_all (\<lambda>p. key_ok (snd (fst p))) t \<Longrightarrow>
   list_all (\<lambda>p. key_ok (snd (fst p))) t'"
proof (induction ops arbitrary: t)
  case (Cons op ops)
  then obtain t1 where "apply_state_op i op t = Inr t1" "apply_state_ops i ops t1 = Inr t'"
    by (auto split: sum.splits)
  with Cons show ?case by (cases op) (auto simp: put_valid del_valid split: if_splits option.splits)
qed simp

lemma insert_valid:
  "insert_entries i es t = Inr t' \<Longrightarrow> list_all (\<lambda>p. key_ok (snd (fst p))) t \<Longrightarrow>
   list_all (\<lambda>p. key_ok (snd (fst p))) t'"
  by (induction i es t rule: insert_entries.induct) (auto simp: put_valid split: if_splits)

lemma valid_keys_step: "valid_keys db \<Longrightarrow> valid_keys (store_step L c db)"
proof (cases c)
  case (Do_Replace_State i st)
  assume "valid_keys db"
  then have "list_all (\<lambda>p. key_ok (snd (fst p))) (filter (\<lambda>p. fst (fst p) \<noteq> i) (db_state db))"
    by (auto simp: valid_keys_def list_all_iff)
  with Do_Replace_State \<open>valid_keys db\<close> show ?thesis
    by (auto simp: replace_state_def valid_keys_def dest: insert_valid split: sum.splits)
next
  case (Do_Commit i v ops cs opts)
  assume "valid_keys db"
  with Do_Commit show ?thesis
    by (cases rule: store_commit_cases [of L i v ops cs opts db])
       (auto simp: valid_keys_def dest!: mark_committed_frame queue_commands_frame intro: apply_valid)
qed (simp_all add: valid_keys_def)

definition entries_of :: "ustr \<Rightarrow> state_table \<Rightarrow> (ustr \<times> state_value) list" where
  "entries_of i t = map (\<lambda>p. (snd (fst p), snd p)) (filter (\<lambda>p. fst (fst p) = i) t)"

lemma entries_distinct: "distinct (map fst t) \<Longrightarrow> distinct (map fst (entries_of i t))"
  by (induction t) (auto simp: entries_of_def image_iff prod_eq_iff)

lemma entries_get: "map_of (entries_of i t) k = map_of t (i, k)"
  by (induction t) (auto simp: entries_of_def)

lemma snapshot_entries: "snapshot i db = sort_key fst (entries_of i (db_state db))"
  by (simp add: snapshot_def entries_of_def)

lemma snapshot_distinct: "hm_wf (db_state db) \<Longrightarrow> distinct (map fst (snapshot i db))"
  using entries_distinct [of "db_state db" i] unfolding snapshot_entries hm_wf_def by (simp add: distinct_map)

lemma snapshot_get:
  assumes "hm_wf (db_state db)"
  shows "map_of (snapshot i db) k = private_state i db k"
proof -
  have "map_of (snapshot i db) = map_of (entries_of i (db_state db))"
    using snapshot_distinct [OF assms, of i] entries_distinct [of "db_state db" i] assms
    by (subst map_of_inject_set) (simp_all add: hm_wf_def snapshot_entries)
  then show ?thesis by (simp add: entries_get private_state_def hm_get_def)
qed

lemma insert_entries_all:
  "list_all (\<lambda>p. key_ok (fst p)) es \<Longrightarrow> distinct (map fst es) \<Longrightarrow> hm_wf t \<Longrightarrow>
   \<exists>t'. insert_entries i es t = Inr t' \<and> hm_wf t' \<and>
     (\<forall>j k. hm_get t' (j, k) = (if j = i \<and> map_of es k \<noteq> None then map_of es k else hm_get t (j, k)))"
proof (induction es arbitrary: t)
  case (Cons e es)
  obtain k v where e: "e = (k, v)" by (cases e)
  from Cons.prems have "hm_wf (hm_put (i, k) v t)" by (simp add: hm_simps)
  with Cons.IH [of "hm_put (i, k) v t"] Cons.prems obtain t' where
    "insert_entries i es (hm_put (i, k) v t) = Inr t'" "hm_wf t'"
    "\<forall>j k'. hm_get t' (j, k') = (if j = i \<and> map_of es k' \<noteq> None then map_of es k' else hm_get (hm_put (i, k) v t) (j, k'))"
    by auto
  moreover have "map_of es k = None" using Cons.prems(2) e by (simp add: map_of_eq_None_iff)
  ultimately show ?case
    using Cons.prems(1,3) e by (intro exI [of _ t']) (auto simp: hm_simps)
qed simp

lemma replace_restores:
  assumes "hm_wf (db_state db0)" "valid_keys db0" "hm_wf (db_state db)"
  shows "\<exists>db'. replace_state i (snapshot i db0) db = (db', Inr ()) \<and> private_state i db' = private_state i db0"
proof -
  let ?es = "snapshot i db0"
  have "list_all (\<lambda>p. key_ok (fst p)) ?es"
    using assms(2) by (auto simp: snapshot_def valid_keys_def list_all_iff)
  moreover have "distinct (map fst ?es)" by (rule snapshot_distinct [OF assms(1)])
  moreover have "hm_wf (filter (\<lambda>p. fst (fst p) \<noteq> i) (db_state db))" using assms(3) by (rule hm_wf_filter)
  ultimately obtain t' where t': "insert_entries i ?es (filter (\<lambda>p. fst (fst p) \<noteq> i) (db_state db)) = Inr t'"
    "\<forall>j k. hm_get t' (j, k) = (if j = i \<and> map_of ?es k \<noteq> None then map_of ?es k
       else hm_get (filter (\<lambda>p. fst (fst p) \<noteq> i) (db_state db)) (j, k))"
    using insert_entries_all by metis
  have "hm_get (filter (\<lambda>p. fst (fst p) \<noteq> i) (db_state db)) (i, k) = None" for k
    by (auto simp: hm_get_None_iff)
  with t' have "hm_get t' (i, k) = map_of ?es k" for k by auto
  then have "private_state i (db\<lparr>db_state := t'\<rparr>) = private_state i db0"
    using snapshot_get [OF assms(1)] by (auto simp: private_state_def)
  with t'(1) show ?thesis by (simp add: replace_state_def)
qed

section \<open>Rollback of an upgrade\<close>

definition sound_db :: "plugin_db \<Rightarrow> bool" where
  "sound_db db \<longleftrightarrow> db_wf db \<and> valid_keys db"

definition holds_state :: "ustr \<Rightarrow> (ustr \<Rightarrow> state_value option) \<Rightarrow> plugin_db \<Rightarrow> bool" where
  "holds_state i st db \<longleftrightarrow> sound_db db \<and> private_state i db = st"

text \<open>Other tasks leave the private state of the instance alone, as they do while its gate is held exclusively.\<close>

definition spares :: "'w host_libs \<Rightarrow> ustr \<Rightarrow> bool" where
  "spares H i \<longleftrightarrow>
     (\<forall>w db. private_state i (store_run (hl_store H) (hl_calls H w) db) = private_state i db)"

definition others_keep :: "'w host_libs \<Rightarrow> (plugin_db \<Rightarrow> bool) \<Rightarrow> bool" where
  "others_keep H R \<longleftrightarrow> (\<forall>w db. R db \<longrightarrow> R (store_run (hl_store H) (hl_calls H w) db))"

lemma sound_step: "sound_db db \<Longrightarrow> sound_db (store_step L c db)"
  by (simp add: sound_db_def store_step_wf valid_keys_step)

lemma sound_run: "sound_db db \<Longrightarrow> sound_db (store_run L cs db)"
  by (rule store_run_invariant [where I = sound_db, OF sound_step])

lemma others_keep_sound: "others_keep H sound_db"
  by (simp add: others_keep_def sound_run)

lemma others_keep_state: "spares H i \<Longrightarrow> others_keep H (holds_state i st)"
  by (simp add: others_keep_def holds_state_def spares_def sound_run)

lemma keeps_await: "others_keep H R \<Longrightarrow> hop_keeps R (hawait H f)"
  by (simp add: hop_keeps_def hawait_def others_def others_keep_def Let_def split: prod.split)

lemma keeps_sleep: "others_keep H R \<Longrightarrow> hop_keeps R (hsleep H)"
  unfolding hsleep_def by (rule keeps_await)

lemma keeps_catch:
  assumes "hop_keeps R m" "\<And>e. hop_keeps R (k e)"
  shows "hop_keeps R (hcatch m k)"
  unfolding hop_keeps_def
proof (intro allI impI)
  fix h :: "'a host_state" assume h: "R (h_db h)"
  obtain r h1 where m: "m h = (r, h1)" by (cases "m h")
  note 1 = keepsD [OF assms(1) m h]
  show "R (h_db (snd (hcatch m k h)))"
    using m 1 assms(2) by (cases r) (auto simp: hcatch_def hop_keeps_def)
qed

lemma keeps_supervised: "others_keep H R \<Longrightarrow> hop_keeps R (supervised H who err call)"
  by (simp add: supervised_def keeps_intros keeps_await)

lemma keeps_lifecycle: "hop_keeps R (set_state st)" "hop_keeps R begin_draining" "hop_keeps R (hraise e)" "hop_keeps R (hcheck c)"
  by (simp_all add: hop_keeps_def set_state_def begin_draining_def hraise_def hcheck_def hdone_def)

lemma keeps_step: "(\<And>db. f db = store_step L c db) \<Longrightarrow> (\<And>db. R db \<Longrightarrow> R (store_step L c db)) \<Longrightarrow> hop_keeps R (hupdate f)"
  by (simp add: hop_keeps_def hupdate_def)

lemma keeps_store: "(\<And>db. R db \<Longrightarrow> R (fst (f db))) \<Longrightarrow> hop_keeps R (hstore f)"
  unfolding hop_keeps_def hstore_def by (auto split: prod.split sum.split) (metis fst_conv)+

lemma keeps_launch: "hop_keeps R (launch_all ts)"
proof (induction ts)
  case (Cons t ts)
  have "hop_keeps R (launch_schedule t)" by (simp add: hop_keeps_def launch_schedule_def Let_def)
  with Cons show ?case by (auto intro: hop_keeps_bind)
qed (simp add: keeps_intros)

lemma private_cong: "db_state db' = db_state db \<Longrightarrow> private_state i db' = private_state i db"
  by (simp add: private_state_def fun_eq_iff)

lemma holds_schedules:
  "holds_state i st db \<Longrightarrow> holds_state i st (requeue_firing_schedules j db)"
  "holds_state i st db \<Longrightarrow> holds_state i st (fst (recover_schedules j db))"
  using sound_step [of db undefined "Do_Requeue_Firing j"] sound_step [of db undefined "Do_Recover_Schedules j"]
  by (auto simp: holds_state_def cong: private_cong)

lemma keeps_schedules:
  "hop_keeps (holds_state i st) (pause_plugin_schedules j)"
  "hop_keeps (holds_state i st) (recover_plugin_schedules p)"
proof -
  show "hop_keeps (holds_state i st) (pause_plugin_schedules j)"
    by (simp add: hop_keeps_def pause_plugin_schedules_def holds_schedules Let_def)
  have "hop_keeps (holds_state i st) (hsql (recover_schedules (rp_instance_id p)))"
    using holds_schedules by (auto simp: hop_keeps_def hsql_def split: prod.split) (metis fst_conv)
  then show "hop_keeps (holds_state i st) (recover_plugin_schedules p)"
    by (auto simp: recover_plugin_schedules_def intro: hop_keeps_bind keeps_launch)
qed

lemma hbind_Inl:
  assumes "hbind m f h = (Inl e, h')"
  obtains "m h = (Inl e, h')" | x h1 where "m h = (Inr x, h1)" "f x h1 = (Inl e, h')"
  using assms by (cases "m h") (auto simp: hbind_def split: sum.splits)

lemma hbind_step: "m h = (Inr x, h1) \<Longrightarrow> hbind m f h = f x h1"
  and hbind_stop: "m h = (Inl e, h1) \<Longrightarrow> hbind m f h = (Inl e, h1)"
  by (simp_all add: hbind_def)

lemma hread_gives: "hbind (hread f) g h = g (f h) h"
  by (simp add: hbind_def hread_def)

lemma hsleep_Inl: "hsleep H h = (Inl e, h1) \<Longrightarrow> e = Task_Dropped"
  by (auto simp: hsleep_def hawait_def Let_def split: if_splits)

lemma hcatch_Inl:
  assumes "hcatch m k h = (Inl e, h')" "e \<noteq> Task_Dropped"
  obtains e1 h1 where "m h = (Inl e1, h1)" "e1 \<noteq> Task_Dropped" "k e1 h1 = (Inl e, h')"
  using assms by (cases "m h") (auto simp: hcatch_def split: sum.splits if_splits)

lemma launch_gives: "\<exists>ws. launch_all ts h = (Inr (), h\<lparr>h_workers := ws\<rparr>)"
proof (induction ts arbitrary: h)
  case (Cons t ts)
  have "\<exists>w. launch_schedule t h = (Inr (), h\<lparr>h_workers := w\<rparr>)"
    by (cases "hm_contains (wt_handles (h_workers h)) (st_instance_id t, st_task_id t)")
       (auto simp: launch_schedule_def Let_def intro: exI [of _ "h_workers h"])
  then obtain w where w: "launch_schedule t h = (Inr (), h\<lparr>h_workers := w\<rparr>)" ..
  from Cons.IH [of "h\<lparr>h_workers := w\<rparr>"] w show ?case by (auto simp: hbind_def)
qed (simp, metis host_state.surjective host_state.update_convs(5))

lemma recover_plugin_gives:
  "\<exists>db ws. recover_plugin_schedules p h = (Inr (), h\<lparr>h_db := db, h_workers := ws\<rparr>)"
proof -
  obtain db ts where "recover_schedules (rp_instance_id p) (h_db h) = (db, ts)"
    by (cases "recover_schedules (rp_instance_id p) (h_db h)")
  then show ?thesis
    using launch_gives [of ts "h\<lparr>h_db := db\<rparr>"] by (auto simp: recover_plugin_schedules_def hbind_def hsql_def)
qed

lemma recover_plugin_same: "recover_plugin_schedules p h = (r, h') \<Longrightarrow> r = Inr () \<and> h_life h' = h_life h \<and>
    h_config h' = h_config h \<and> h_assets h' = h_assets h"
  using recover_plugin_gives [of p h] by auto

lemma sound_commit: "sound_db db \<Longrightarrow> sound_db (fst (store_commit L i v ops cs opts db))"
  using sound_step [of db L "Do_Commit i v ops cs opts"] by simp

lemma keeps_candidate: "hop_keeps sound_db (start_candidate H old cand g config state)"
  by (auto simp: start_candidate_def migrate_candidate_def supervised_migration_def supervised_init_def
      supervised_health_def supervised_shutdown_def Let_def sound_commit
      intro!: hop_keeps_bind keeps_catch keeps_supervised keeps_lifecycle keeps_store others_keep_sound keeps_intros
      split: bool.split)

lemma disable_same: "disable p h = (r, h') \<Longrightarrow> r = Inr () \<and> h_db h' = h_db h \<and> lc_state (h_life h') = Disabled \<and>
    h_config h' = h_config h"
  by (auto simp: disable_gives)

lemma supervised_init_holds:
  "spares H i \<Longrightarrow> supervised_init H p g config h = (r, h') \<Longrightarrow> holds_state i st (h_db h) \<Longrightarrow> holds_state i st (h_db h')"
  unfolding supervised_init_def by (rule keepsD [OF keeps_supervised [OF others_keep_state]])

lemma restart_result:
  assumes "hbind (hcatch (supervised_init H old g config) (\<lambda>e. hbind (disable old) (\<lambda>_. hraise (f e))))
      (\<lambda>_. hbind (set_state Ready_Instance) (\<lambda>_. hbind (recover_plugin_schedules old) (\<lambda>_. hraise ue))) h = (Inl e, h')"
    and "e \<noteq> Task_Dropped" "spares H i" "holds_state i st (h_db h)"
  shows "holds_state i st (h_db h') \<and> lc_state (h_life h') \<in> {Ready_Instance, Disabled}"
  using assms(1)
proof (cases rule: hbind_Inl)
  case 1
  from this assms(2) show ?thesis
  proof (cases rule: hcatch_Inl)
    case (1 e1 h1)
    from supervised_init_holds [OF assms(3) 1(1) assms(4)] 1(3) show ?thesis
      by (auto simp: hbind_def disable_gives hraise_def)
  qed
next
  case (2 x h1)
  then have i: "supervised_init H old g config h = (Inr x, h1)"
    by (auto simp: hcatch_def disable_gives hbind_def [of "disable old"] hraise_def split: prod.splits sum.splits if_splits)
  note R1 = supervised_init_holds [OF assms(3) i assms(4)]
  let ?h = "h1\<lparr>h_life := (h_life h1)\<lparr>lc_state := Ready_Instance\<rparr>\<rparr>"
  obtain r h2 where rec: "recover_plugin_schedules old ?h = (r, h2)" by (cases "recover_plugin_schedules old ?h")
  have "holds_state i st (h_db h2)" using keepsD [OF keeps_schedules(2) rec] R1 by simp
  with 2(2) rec recover_plugin_same [OF rec] show ?thesis
    by (auto simp: hbind_def set_state_def hraise_def)
qed

lemma rollback_upgrade_result:
  assumes "rollback_upgrade H old g (snapshot i db0) config ue h = (Inl e, h')" "e \<noteq> Task_Dropped"
    and "i = rp_instance_id old" "sound_db db0" "sound_db (h_db h)" "spares H i"
  shows "holds_state i (private_state i db0) (h_db h') \<and> lc_state (h_life h') \<in> {Ready_Instance, Disabled}"
proof -
  obtain db' where db': "replace_state i (snapshot i db0) (h_db h) = (db', Inr ())"
    and st: "private_state i db' = private_state i db0"
    using replace_restores [of db0 "h_db h" i] assms(4,5) by (auto simp: sound_db_def db_wf_def)
  have "sound_db db'" using sound_step [OF assms(5), of _ "Do_Replace_State i (snapshot i db0)"] db' by simp
  with st have R: "holds_state i (private_state i db0) (h_db (h\<lparr>h_db := db'\<rparr>))" by (simp add: holds_state_def)
  have "hstore (replace_state (rp_instance_id old) (snapshot i db0)) h = (Inr (), h\<lparr>h_db := db'\<rparr>)"
    using db' assms(3) by (simp add: hstore_def)
  with assms(1) have "hbind (hstore (replace_state (rp_instance_id old) (snapshot i db0))) k h = k () (h\<lparr>h_db := db'\<rparr>)" for k
    by (simp add: hbind_def)
  from restart_result [OF assms(1) [unfolded rollback_upgrade_def this] assms(2,6) R] show ?thesis .
qed

lemma replace_plugin_result:
  assumes "replace_plugin H old og cand cg config h = (Inl e, h')" "e \<noteq> Task_Dropped"
    and "i = rp_instance_id old" "sound_db (h_db h)" "spares H i"
  shows "private_state i (h_db h') = private_state i (h_db h) \<and> sound_db (h_db h') \<and>
    lc_state (h_life h') \<in> {Ready_Instance, Disabled}"
proof -
  let ?R = "holds_state i (private_state i (h_db h))"
  note oks = others_keep_state [OF assms(5), of "private_state i (h_db h)"]
  let ?h0 = "snd (begin_draining h)"
  have 0: "begin_draining h = (Inr (), ?h0)" "?R (h_db ?h0)"
    using assms(4) by (simp_all add: begin_draining_def holds_state_def)
  obtain r1 h1 where 1: "hsleep H ?h0 = (r1, h1)" by (cases "hsleep H ?h0")
  have R1: "?R (h_db h1)" using keepsD [OF keeps_sleep [OF oks] 1] 0 by simp
  have r1: "r1 = Inr ()"
  proof (cases r1)
    case (Inl e1)
    with hsleep_Inl 1 have "hsleep H ?h0 = (Inl Task_Dropped, h1)" by blast
    with assms(1,2) 0(1) show ?thesis by (simp add: replace_plugin_def Let_def hbind_step hbind_stop)
  qed simp
  obtain h2 where 2: "pause_plugin_schedules i h1 = (Inr (), h2)" by (simp add: pause_plugin_schedules_def Let_def)
  have R2: "?R (h_db h2)" using keepsD [OF keeps_schedules(1) 2] R1 by simp
  let ?stop = "hcatch (supervised_shutdown H old og)
    (\<lambda>e. hbind (set_state Ready_Instance) (\<lambda>_. hbind (recover_plugin_schedules old) (\<lambda>_. hraise e)))"
  let ?start = "hcatch (start_candidate H old cand cg config (snapshot i (h_db h2)))
    (rollback_upgrade H old og (snapshot i (h_db h2)) (h_config h2))"
  have "hbind ?stop (\<lambda>_. ?start) h2 = (Inl e, h')"
    using assms(1,3) 0(1) 1 r1 2 by (simp add: replace_plugin_def Let_def hbind_step hread_gives)
  then show ?thesis
  proof (cases rule: hbind_Inl)
    case 1
    from this assms(2) show ?thesis
    proof (cases rule: hcatch_Inl)
      case (1 e1 h3)
      have R3: "?R (h_db h3)"
        using keepsD [OF keeps_supervised [OF oks]] 1(1) R2 unfolding supervised_shutdown_def by blast
      let ?h3 = "h3\<lparr>h_life := (h_life h3)\<lparr>lc_state := Ready_Instance\<rparr>\<rparr>"
      obtain r h4 where rec: "recover_plugin_schedules old ?h3 = (r, h4)" by (cases "recover_plugin_schedules old ?h3")
      have "?R (h_db h4)" using keepsD [OF keeps_schedules(2) rec] R3 by simp
      with 1(3) rec recover_plugin_same [OF rec] show ?thesis
        by (auto simp: hbind_def set_state_def hraise_def holds_state_def)
    qed
  next
    case (2 x h3)
    obtain r h4 where sh: "supervised_shutdown H old og h2 = (r, h4)" by (cases "supervised_shutdown H old og h2")
    from 2(1) sh have "h4 = h3"
      by (auto simp: hcatch_def hbind_def hraise_def dest: recover_plugin_same split: sum.splits if_splits prod.splits)
    with sh have R3: "?R (h_db h3)"
      using keepsD [OF keeps_supervised [OF oks]] R2 unfolding supervised_shutdown_def by blast
    from 2(2) assms(2) show ?thesis
    proof (cases rule: hcatch_Inl)
      case (1 ue h5)
      have sound: "sound_db (h_db h5)" using keepsD [OF keeps_candidate 1(1)] R3 by (simp add: holds_state_def)
      have "sound_db (h_db h2)" "private_state i (h_db h2) = private_state i (h_db h)"
        using R2 by (simp_all add: holds_state_def)
      with rollback_upgrade_result [OF 1(3) assms(2,3) _ sound assms(5)] show ?thesis
        by (simp add: holds_state_def)
    qed
  qed
qed

section \<open>Cells\<close>

lemma peer_cell_same [simp]: "cell_plugin (peer_cell E w c) = cell_plugin c" "cell_code (peer_cell E w c) = cell_code c"
  by (simp_all add: peer_cell_def split: prod.split)

lemma leave_cell_same [simp]:
  "ph_instances (leave_cell E k h s) = ph_instances s" "ph_command_names (leave_cell E k h s) = ph_command_names s"
  "ph_host (leave_cell E k h s) = h" "length (ph_cells (leave_cell E k h s)) = length (ph_cells s)"
  by (simp_all add: leave_cell_def)

lemma leave_cell_nth:
  "j < length (ph_cells s) \<Longrightarrow> ph_cells (leave_cell E k h s) ! j =
    (if j = k then (ph_cells s ! k)\<lparr>cell_life := h_life h, cell_config := h_config h\<rparr>
     else peer_cell E (h_world h) (ph_cells s ! j))"
  by (simp add: leave_cell_def nth_list_update)

lemma leave_cell_plugins [simp]:
  "map cell_plugin (ph_cells (leave_cell E k h s)) = map cell_plugin (ph_cells s)"
  "map cell_code (ph_cells (leave_cell E k h s)) = map cell_code (ph_cells s)"
  by (rule nth_equalityI; simp add: leave_cell_nth)+

lemma find_cell_Some:
  "find_cell i cs = Some k \<Longrightarrow> k < length cs \<and> rp_instance_id (cell_plugin (cs ! k)) = i"
  by (induction cs arbitrary: k) (auto split: if_splits)

lemma find_cell_None: "find_cell i cs = None \<longleftrightarrow> i \<notin> rp_instance_id ` cell_plugin ` set cs"
  by (induction cs) auto

lemma find_cell_cong: "map cell_plugin cs = map cell_plugin ds \<Longrightarrow> find_cell i cs = find_cell i ds"
  by (induction cs arbitrary: ds) (auto simp: Cons_eq_map_conv)

lemma state_after:
  assumes "find_cell i (ph_cells s) = Some k"
  shows "instance_state_of i (leave_cell E k h s) = Some (lc_state (h_life h))"
  using assms find_cell_cong [of "ph_cells (leave_cell E k h s)" "ph_cells s" i] find_cell_Some [OF assms]
  by (simp add: instance_state_of_def) (simp add: leave_cell_def)

section \<open>A failed upgrade\<close>

text \<open>Other tasks do not leave a plugin draining.\<close>

definition no_drain :: "'w host_libs \<Rightarrow> bool" where
  "no_drain H \<longleftrightarrow> (\<forall>w l. lc_state l \<noteq> Draining \<longrightarrow> lc_state (hl_lifecycle H w l) \<noteq> Draining)"

lemma supervised_life:
  "supervised H who err call h = (r, h') \<Longrightarrow> no_drain H \<Longrightarrow> lc_state (h_life h) \<noteq> Draining \<Longrightarrow>
   lc_state (h_life h') \<noteq> Draining"
  by (auto simp: supervised_def hbind_def hawait_def others_def no_drain_def Let_def split: prod.splits if_splits)

lemma upgrade_cell_result:
  assumes "hbind (hcheck c) (\<lambda>_. hbind (check_config_schema E sp config)
      (\<lambda>_. hbind (supervised_validate_config H m g config)
      (\<lambda>_. replace_plugin H old og cand cg config))) h = (Inl e, h')"
    and "e \<noteq> Task_Dropped" "i = rp_instance_id old" "sound_db (h_db h)" "spares H i" "no_drain H"
  shows "private_state i (h_db h') = private_state i (h_db h) \<and>
    (lc_state (h_life h) \<noteq> Draining \<longrightarrow> lc_state (h_life h') \<noteq> Draining)"
  using assms(1)
proof (cases rule: hbind_Inl)
  case 1
  then show ?thesis by (simp add: hcheck_def)
next
  case (2 x h1)
  then have 1: "h1 = h" by (simp add: hcheck_def)
  from 2(2) show ?thesis
  proof (cases rule: hbind_Inl)
    case 1
    with \<open>h1 = h\<close> show ?thesis by (simp add: check_config_schema_def)
  next
    case (2 x h2)
    then have "h2 = h" using 1 by (simp add: check_config_schema_def)
    note oks = others_keep_state [OF assms(5), of "private_state i (h_db h)"]
    have R: "holds_state i (private_state i (h_db h)) (h_db h)" using assms(4) by (simp add: holds_state_def)
    have validated: "holds_state i (private_state i (h_db h)) (h_db h3) \<and>
        (lc_state (h_life h) \<noteq> Draining \<longrightarrow> lc_state (h_life h3) \<noteq> Draining)"
      if "supervised_validate_config H m g config h = (y, h3)" for y h3
      using keepsD [OF keeps_supervised [OF oks]] that supervised_life [OF _ assms(6)] R
      unfolding supervised_validate_config_def by blast
    from 2(2) \<open>h2 = h\<close> have "hbind (supervised_validate_config H m g config)
        (\<lambda>_. replace_plugin H old og cand cg config) h = (Inl e, h')" by simp
    then show ?thesis
    proof (cases rule: hbind_Inl)
      case 1
      from validated [OF 1] show ?thesis by (simp add: holds_state_def)
    next
      case (2 x h3)
      from validated [OF 2(1)] have "sound_db (h_db h3)" "private_state i (h_db h3) = private_state i (h_db h)"
        by (simp_all add: holds_state_def)
      with replace_plugin_result [OF 2(2) assms(2,3) _ assms(5)] show ?thesis by auto
    qed
  qed
qed

text \<open>[C16] An upgrade that ends with an error leaves nothing of itself: the private state of the instance is what it
  was, entry for entry and revision for revision, whatever the migration of the candidate had written; the
  registered plugins, their code and their command names are unchanged; and the old plugin is not left draining,
  but in service or disabled. Only an upgrade that is dropped at an await may leave more behind.\<close>

theorem failed_upgrade_rolls_back:
  assumes "upgrade E i sp config grants queries s = (Inl e, s')" "e \<noteq> Task_Dropped"
    and "sound_db (h_db (ph_host s))" "spares (he_libs E) i" "no_drain (he_libs E)"
  shows "private_state i (h_db (ph_host s')) = private_state i (h_db (ph_host s)) \<and>
    map cell_plugin (ph_cells s') = map cell_plugin (ph_cells s) \<and>
    map cell_code (ph_cells s') = map cell_code (ph_cells s) \<and>
    ph_command_names s' = ph_command_names s \<and>
    (instance_state_of i s \<noteq> Some Draining \<longrightarrow> instance_state_of i s' \<noteq> Some Draining)"
proof (cases "find_cell i (ph_cells s)")
  case None
  with assms(1) show ?thesis by (auto simp: upgrade_def Let_def)
next
  case (Some k)
  let ?c = "ph_cells s ! k" and ?cand = "new_plugin sp i grants queries"
  let ?m = "\<lambda>c. hbind (hcheck (check_upgrade E k sp s)) (\<lambda>_. hbind (check_config_schema E sp config)
      (\<lambda>_. hbind (supervised_validate_config (he_libs E) (sp_manifest sp) (sp_guest sp) config)
      (\<lambda>_. replace_plugin (he_libs E) (cell_plugin c) (sp_guest (cell_code c)) ?cand (sp_guest sp) config)))"
  obtain r h where m: "?m ?c (see_cell ?c s) = (r, h)" by (cases "?m ?c (see_cell ?c s)")
  then have at: "at_cell E k ?m s = (r, leave_cell E k h s)" by (simp add: at_cell_def Let_def)
  show ?thesis
  proof (cases r)
    case (Inl e1)
    with assms(1) Some at have e: "e1 = e" "s' = leave_cell E k h s" by (simp_all add: upgrade_def Let_def)
    have "rp_instance_id (cell_plugin ?c) = i" using find_cell_Some [OF Some] by simp
    with upgrade_cell_result [OF m [unfolded Inl e(1)] assms(2) _ _ assms(4,5)] assms(3)
    have "private_state i (h_db h) = private_state i (h_db (ph_host s)) \<and>
        (lc_state (cell_life ?c) \<noteq> Draining \<longrightarrow> lc_state (h_life h) \<noteq> Draining)"
      by (simp add: see_cell_def)
    then show ?thesis
      using e state_after [OF Some, of E h] Some by (simp add: instance_state_of_def [of i s])
  next
    case (Inr u)
    obtain r2 h2 where rec: "recover_plugin_schedules ?cand (h\<lparr>h_assets := remove_instance i (h_assets h)\<rparr>) = (r2, h2)"
      by (cases "recover_plugin_schedules ?cand (h\<lparr>h_assets := remove_instance i (h_assets h)\<rparr>)")
    with recover_plugin_same have "r2 = Inr ()" by blast
    with assms(1) Some at Inr rec show ?thesis
      by (simp add: upgrade_def Let_def run_shared_def remove_assets_def hbind_step rebuild_command_names_def new_plugin_def
          split: prod.splits)
  qed
qed

section \<open>The registry\<close>

text \<open>What no delivery and no change of configuration touches.\<close>

definition registry where
  "registry s = (map cell_plugin (ph_cells s), map cell_code (ph_cells s), ph_instances s, ph_command_names s)"

definition names_of :: "registered_plugin \<Rightarrow> ustr list" where
  "names_of p = command_names_of (rp_manifest p)"

definition registry_ok :: "('w, 'r) host_env \<Rightarrow> 'w plugin_host \<Rightarrow> bool" where
  "registry_ok E s \<longleftrightarrow>
     (let ps = map cell_plugin (ph_cells s)
      in distinct (map rp_instance_id ps) \<and> ph_instances s = set (map rp_instance_id ps) \<and>
         distinct (concat (map names_of ps)) \<and> ph_command_names s = set (concat (map names_of ps)) \<and>
         list_all (\<lambda>p. validate_manifest (he_manifest E) (rp_manifest p) = None \<and>
           rp_granted p \<subseteq> requested_capabilities (rp_manifest p)) ps \<and>
         map (sp_manifest \<circ> cell_code) (ph_cells s) = map rp_manifest ps)"

lemma registry_ok_cong: "registry s' = registry s \<Longrightarrow> registry_ok E s' = registry_ok E s"
  by (simp add: registry_def registry_ok_def flip: map_map)

lemma registry_leave [simp]: "registry (leave_cell E k h s) = registry s"
  by (simp add: registry_def)

lemma registry_host [simp]: "registry (s\<lparr>ph_host := h\<rparr>) = registry s"
  by (simp add: registry_def)

lemma registry_at_cell: "at_cell E k m s = (r, s') \<Longrightarrow> registry s' = registry s"
  by (auto simp: at_cell_def Let_def split: prod.splits)

lemma registry_update: "update_config E i config s = (r, s') \<Longrightarrow> registry s' = registry s"
  by (auto simp: update_config_def split: option.splits dest: registry_at_cell)

lemma registry_dispatch_cell: "dispatch_cell E ctx ad event k s = Some (r, s') \<Longrightarrow> registry s' = registry s"
  by (auto simp: dispatch_cell_def Let_def)

lemma registry_dispatch: "dispatch_all E ctx ad event ks s = Some (r, s') \<Longrightarrow> registry s' = registry s"
proof (induction ks arbitrary: s)
  case (Cons k ks)
  from Cons.prems obtain r1 s1 where 1: "dispatch_cell E ctx ad event k s = Some (r1, s1)"
    by (auto split: option.splits)
  with Cons registry_dispatch_cell [OF 1] show ?case by (auto split: if_splits)
qed simp

lemma registry_shutdown_cells: "shutdown_cells E ks first s = (r, s') \<Longrightarrow> registry s' = registry s"
proof (induction ks arbitrary: s first)
  case (Cons k ks)
  obtain r1 s1 where 1: "at_cell E k (\<lambda>c. shutdown_plugin (he_libs E) (cell_plugin c) (sp_guest (cell_code c))) s = (r1, s1)"
    by (cases "at_cell E k (\<lambda>c. shutdown_plugin (he_libs E) (cell_plugin c) (sp_guest (cell_code c))) s")
  with Cons registry_at_cell [OF 1] show ?case by (auto split: sum.splits)
qed simp

lemma registry_shutdown: "shutdown E s = (r, s') \<Longrightarrow> registry s' = registry s"
  unfolding shutdown_def by (drule registry_shutdown_cells) (simp add: stop_schedulers_def Let_def)

lemma valid_names: "validate_manifest L m = None \<Longrightarrow> distinct (command_names_of m)"
  by (auto simp: validate_manifest_def or_else_None check_command_names_None command_names_def command_names_of_def)

lemma register_registry:
  assumes "register E sp i config grants queries s = Some (r, s')" "registry_ok E s"
  shows "registry_ok E s'"
proof (cases "registry s' = registry s")
  case True
  with assms(2) show ?thesis using registry_ok_cong by blast
next
  case False
  let ?p = "new_plugin sp i grants queries"
  from False assms(1) obtain h1 h2 where
    c: "hbind (hcheck (check_registration E sp i s)) (\<lambda>_. hbind (check_config_schema E sp config)
        (\<lambda>_. supervised_validate_config (unshared (he_libs E)) (sp_manifest sp) (sp_guest sp) config))
        ((ph_host s)\<lparr>h_life := fresh_life, h_config := config\<rparr>) = (Inr (), h1)"
    and s': "s' = s\<lparr>ph_instances := insert i (ph_instances s),
                      ph_command_names := ph_command_names s \<union> set (command_names_of (sp_manifest sp)),
                      ph_cells := map (peer_cell E (h_world h2)) (ph_cells s) @
                        [\<lparr>cell_plugin = ?p, cell_code = sp, cell_life = h_life h2, cell_config = h_config h2\<rparr>],
                      ph_host := h2\<rparr>"
    by (auto simp: register_def Let_def split: sum.splits prod.splits option.splits)
  from c have "check_registration E sp i s = None"
    by (auto simp: hcheck_def hbind_def hdone_def split: option.splits)
  then have 1: "validate_manifest (he_manifest E) (sp_manifest sp) = None" "i \<notin> ph_instances s"
    "set (command_names_of (sp_manifest sp)) \<inter> ph_command_names s = {}"
    by (auto simp: check_registration_def check_manifest_def find_None split: option.splits if_splits)
  have ps: "map cell_plugin (ph_cells s') = map cell_plugin (ph_cells s) @ [?p]"
    "map (sp_manifest \<circ> cell_code) (ph_cells s') = map (sp_manifest \<circ> cell_code) (ph_cells s) @ [sp_manifest sp]"
    by (simp_all add: s' comp_def)
  from 1 assms(2) valid_names [OF 1(1)] show ?thesis
    unfolding registry_ok_def Let_def ps
    by (auto simp: s' names_of_def new_plugin_def)
qed

lemma distinct_concat_update:
  assumes "distinct (concat xss)" "k < length xss" "distinct ys"
    and "\<And>j. j < length xss \<Longrightarrow> j \<noteq> k \<Longrightarrow> set ys \<inter> set (xss ! j) = {}"
  shows "distinct (concat (xss[k := ys]))"
proof -
  define pre where "pre = concat (take k xss)"
  define post where "post = concat (drop (Suc k) xss)"
  have xss: "concat xss = pre @ xss ! k @ post"
    unfolding pre_def post_def using id_take_nth_drop [OF assms(2)] by (metis concat.simps(2) concat_append)
  have "set ys \<inter> set zs = {}" if "zs \<in> set (take k xss)" for zs
  proof -
    from that obtain j where "j < k" "zs = xss ! j" by (auto simp: in_set_conv_nth)
    with assms(2,4) show ?thesis by simp
  qed
  then have pre: "set ys \<inter> set pre = {}" by (auto simp: pre_def)
  have "set ys \<inter> set zs = {}" if "zs \<in> set (drop (Suc k) xss)" for zs
  proof -
    from that obtain j where "j < length (drop (Suc k) xss)" "zs = drop (Suc k) xss ! j" unfolding in_set_conv_nth by blast
    with assms(4) [of "Suc k + j"] show ?thesis by simp
  qed
  then have post: "set ys \<inter> set post = {}" by (auto simp: post_def)
  have "concat (xss[k := ys]) = pre @ ys @ post"
    by (simp add: upd_conv_take_nth_drop [OF assms(2)] pre_def post_def)
  with assms(1,3) pre post xss show ?thesis by auto
qed

lemma registry_ok_replace:
  assumes "registry_ok E s" "k < length (ph_cells s)"
    and "map cell_plugin (ph_cells s') = (map cell_plugin (ph_cells s))[k := p]"
    and "map (sp_manifest \<circ> cell_code) (ph_cells s') = (map (sp_manifest \<circ> cell_code) (ph_cells s))[k := rp_manifest p]"
    and "rp_instance_id p = rp_instance_id (cell_plugin (ph_cells s ! k))"
    and "validate_manifest (he_manifest E) (rp_manifest p) = None" "rp_granted p \<subseteq> requested_capabilities (rp_manifest p)"
    and "validate_upgrade_commands (map cell_plugin (ph_cells s)) k (rp_manifest p) = None"
    and "ph_instances s' = ph_instances s" "ph_command_names s' = all_command_names (ph_cells s')"
  shows "registry_ok E s'"
proof -
  let ?ps = "map cell_plugin (ph_cells s)"
  from assms(1) have ok: "distinct (map rp_instance_id ?ps)" "ph_instances s = set (map rp_instance_id ?ps)"
    "distinct (concat (map names_of ?ps))"
    "list_all (\<lambda>p. validate_manifest (he_manifest E) (rp_manifest p) = None \<and>
           rp_granted p \<subseteq> requested_capabilities (rp_manifest p)) ?ps"
    "map (sp_manifest \<circ> cell_code) (ph_cells s) = map rp_manifest ?ps"
    unfolding registry_ok_def Let_def by blast+
  have ids: "map rp_instance_id (?ps[k := p]) = map rp_instance_id ?ps"
    using assms(2,5) by (simp add: map_update list_update_same_conv)
  have "set (names_of p) \<inter> set (map names_of ?ps ! j) = {}" if "j < length (map names_of ?ps)" "j \<noteq> k" for j
    using assms(8) that unfolding validate_upgrade_commands_def Let_def find_None by (auto simp: names_of_def)
  then have names: "distinct (concat (map names_of (?ps[k := p])))"
    unfolding map_update using assms(2) valid_names [OF assms(6)] ok(3)
    by (intro distinct_concat_update) (simp_all add: names_of_def)
  have all: "list_all P (xs[k := x])" if "list_all P xs" "P x" for P and xs :: "'c list" and x
    using that by (auto simp: list_all_iff dest!: set_update_subset_insert [THEN subsetD])
  show ?thesis
    unfolding registry_ok_def Let_def assms(3)
  proof (intro conjI)
    show "ph_command_names s' = set (concat (map names_of (?ps[k := p])))"
      unfolding assms(10) assms(3) [symmetric] by (simp add: all_command_names_def names_of_def)
    show "map (sp_manifest \<circ> cell_code) (ph_cells s') = map rp_manifest (?ps[k := p])"
      unfolding map_update assms(4) ok(5) ..
    show "list_all (\<lambda>p. validate_manifest (he_manifest E) (rp_manifest p) = None \<and>
           rp_granted p \<subseteq> requested_capabilities (rp_manifest p)) (?ps[k := p])"
      by (rule all [OF ok(4)]) (simp add: assms(6,7))
  qed (simp_all only: ids ok(1,2) names assms(9))
qed

lemma upgrade_registry:
  assumes "upgrade E i sp config grants queries s = (r, s')" "registry_ok E s"
  shows "registry_ok E s'"
proof (cases "find_cell i (ph_cells s)")
  case None
  with assms show ?thesis by (simp add: upgrade_def Let_def)
next
  case (Some k)
  let ?cand = "new_plugin sp i grants queries"
  let ?m = "\<lambda>c. hbind (hcheck (check_upgrade E k sp s)) (\<lambda>_. hbind (check_config_schema E sp config)
      (\<lambda>_. hbind (supervised_validate_config (he_libs E) (sp_manifest sp) (sp_guest sp) config)
      (\<lambda>_. replace_plugin (he_libs E) (cell_plugin c) (sp_guest (cell_code c)) ?cand (sp_guest sp) config)))"
  obtain r1 s1 where at: "at_cell E k ?m s = (r1, s1)" by (cases "at_cell E k ?m s")
  note same = registry_at_cell [OF at]
  show ?thesis
  proof (cases r1)
    case (Inl e)
    with assms Some at show ?thesis
      using registry_ok_cong [OF same, of E] by (simp add: upgrade_def Let_def)
  next
    case (Inr u)
    let ?cell = "\<lparr>cell_plugin = ?cand, cell_code = sp, cell_life = fresh_life\<lparr>lc_state := Ready_Instance\<rparr>, cell_config = config\<rparr>"
    let ?s2 = "rebuild_command_names (s1\<lparr>ph_cells := (ph_cells s1)[k := ?cell]\<rparr>)"
    from assms(1) Some at Inr have reg: "registry s' = registry ?s2"
      by (auto simp: upgrade_def Let_def run_shared_def split: prod.splits)
    have "check_upgrade E k sp s = None"
      using at Inr by (auto simp: at_cell_def Let_def hcheck_def hbind_def hdone_def split: option.splits prod.splits)
    then have "validate_manifest (he_manifest E) (sp_manifest sp) = None"
      "validate_upgrade_commands (map cell_plugin (ph_cells s)) k (sp_manifest sp) = None"
      by (auto simp: check_upgrade_def check_manifest_def Let_def split: option.splits if_splits)
    moreover have "map cell_plugin (ph_cells s1) = map cell_plugin (ph_cells s)"
      "map (sp_manifest \<circ> cell_code) (ph_cells s1) = map (sp_manifest \<circ> cell_code) (ph_cells s)"
      "ph_instances s1 = ph_instances s"
      using same unfolding registry_def by (simp_all, metis map_map)
    ultimately have "registry_ok E ?s2"
      using find_cell_Some [OF Some]
      by (intro registry_ok_replace [OF assms(2), where k = k and p = ?cand])
         (simp_all add: rebuild_command_names_def map_update new_plugin_def)
    with reg show ?thesis using registry_ok_cong by blast
  qed
qed

section \<open>Every operation of the host ends\<close>

lemma evolves_keeps_wf: "hop_evolves H n m \<Longrightarrow> hop_keeps db_wf m"
  by (auto simp: hop_evolves_def hop_keeps_def evolves_def intro: db_evolves_wf)

lemma others_keep_wf: "others_keep H db_wf"
  by (simp add: others_keep_def store_run_wf)

lemma wf_schedules: "hop_keeps db_wf (pause_plugin_schedules i)" "hop_keeps db_wf (recover_plugin_schedules p)"
proof -
  have "db_wf (requeue_firing_schedules i db)" if "db_wf db" for db
    using store_step_wf [OF that, of _ "Do_Requeue_Firing i"] by simp
  then show "hop_keeps db_wf (pause_plugin_schedules i)"
    by (simp add: hop_keeps_def pause_plugin_schedules_def Let_def)
  have "db_wf (fst (recover_schedules j db))" if "db_wf db" for j db
    using store_step_wf [OF that, of _ "Do_Recover_Schedules j"] by simp
  then have "hop_keeps db_wf (hsql (recover_schedules (rp_instance_id p)))"
    by (auto simp: hop_keeps_def hsql_def split: prod.split) (metis fst_conv)
  then show "hop_keeps db_wf (recover_plugin_schedules p)"
    by (auto simp: recover_plugin_schedules_def intro: hop_keeps_bind keeps_launch)
qed

lemma wf_supervised: "hop_keeps db_wf (supervised H who err call)"
  by (rule keeps_supervised [OF others_keep_wf])

lemma wf_replace: "hop_keeps db_wf (hstore (replace_state i st))" "hop_keeps db_wf (hstore (store_commit L i v ops cs opts))"
  using store_step_wf [of _ _ "Do_Replace_State i st"] store_step_wf [of _ L "Do_Commit i v ops cs opts"]
  by (simp_all add: keeps_store)

lemma wf_plain: "hop_keeps db_wf (check_config_schema E sp config)" "hop_keeps db_wf (disable p)"
  "hop_keeps db_wf (remove_assets p)" "hop_keeps db_wf (replace_config config)" "hop_keeps db_wf (hsleep H)"
  by (simp_all add: keeps_intros check_config_schema_def keeps_same remove_assets_def replace_config_def
      keeps_sleep others_keep_wf)

lemmas wf_intros = hop_keeps_bind keeps_catch wf_schedules wf_supervised wf_replace wf_plain keeps_lifecycle keeps_intros

lemma wf_update: "hop_keeps db_wf (update_plugin_config E p sp config)"
  by (auto simp: update_plugin_config_def start_config_def rollback_config_def supervised_init_def
      supervised_shutdown_def supervised_validate_config_def ready_again_def Let_def intro!: wf_intros)

lemma wf_candidate: "hop_keeps db_wf (start_candidate H old cand g config state)"
  by (auto simp: start_candidate_def migrate_candidate_def supervised_migration_def supervised_init_def
      supervised_health_def supervised_shutdown_def Let_def intro!: wf_intros split: bool.split)

lemma wf_upgrade: "hop_keeps db_wf (replace_plugin H old og cand cg config)"
  by (auto simp: replace_plugin_def rollback_upgrade_def supervised_init_def supervised_shutdown_def Let_def
      intro!: wf_intros wf_candidate)

lemma wf_shutdown: "hop_keeps db_wf (shutdown_plugin H p g)"
  by (auto simp: shutdown_plugin_def supervised_shutdown_def intro!: wf_intros split: bool.split)

lemma deliver_ends:
  assumes "no_recovery H (rp_instance_id p)" "db_wf (h_db h)"
  shows "\<exists>r h'. deliver_with_retry H p g orig env h = Some (r, h') \<and> db_wf (h_db h')"
proof -
  obtain r h1 where s: "deliver_single_with_retry H p g orig env h = Some (r, h1)" and wf: "db_wf (h_db h1)"
    using single_ends [OF assms] by blast
  show ?thesis
  proof (cases r)
    case (Inr x)
    obtain stop es where x: "x = (stop, es)" by (cases x)
    have "list_all (\<lambda>e. pe_event_type e = completed_event) es"
      using single_children [OF s [unfolded Inr x]] by (auto simp: list_all_iff child_of_def of_depth_def)
    from queue_ends [OF assms(1) wf this, of g orig] obtain r2 h2 where
      "deliver_action_completions H p g orig es h1 = Some (r2, h2)" "db_wf (h_db h2)" by blast
    with s Inr x show ?thesis by (simp add: deliver_with_retry_def)
  qed (use s wf in \<open>simp add: deliver_with_retry_def\<close>)
qed

lemma recover_deliveries_end:
  assumes "no_recovery H (rp_instance_id p)"
  shows "db_wf (h_db h) \<Longrightarrow> \<exists>r h'. recover_deliveries H p g qs h = Some (r, h') \<and> db_wf (h_db h')"
proof (induction qs arbitrary: h)
  case (Cons q qs)
  let ?pre = "hbind (hclock H)
         (\<lambda>now. hbind (if recovery_wait_ms q now > 0 then hsleep H else hdone (Inr ()))
         (\<lambda>_. hbind (huuid H) (\<lambda>did. hbind (huuid H) (\<lambda>v. hdone (Inr
            ((pn_envelope q)\<lparr>pe_delivery_id := did, pe_invocation_id := v\<rparr>))))))"
  obtain r1 h1 where 1: "?pre h = (r1, h1)" by (cases "?pre h")
  have "hop_keeps db_wf ?pre" by (auto intro!: wf_intros)
  from keepsD [OF this 1 Cons.prems] have wf: "db_wf (h_db h1)" .
  show ?case
  proof (cases r1)
    case (Inr env)
    obtain r2 h2 where 2: "deliver_with_retry H p g (From_Recovery (pn_origin q)) env h1 = Some (r2, h2)" "db_wf (h_db h2)"
      using deliver_ends [OF assms wf] by blast
    with 1 Inr Cons.IH [OF 2(2)] show ?thesis by (cases r2) auto
  qed (use 1 wf in simp)
qed simp

lemma wf_recover_commands: "hop_keeps db_wf (recover_pending_commands H p)"
proof -
  have wf: "db_wf (mark_command j v c st a db)" "db_wf (enqueue_delivery j env o1 now db)"
    "db_wf (finalize_committed_deliveries j now db)" "db_wf (fst (finalize_committed_delivery j e now db))"
    if "db_wf db" for j v c st a env o1 now db e
    using that store_step_wf [of db _ "Do_Mark_Command j v c st a"] store_step_wf [of db _ "Do_Enqueue j env o1 now"]
      store_step_wf [of db _ "Do_Finalize_All j now"] store_step_wf [of db _ "Do_Finalize_One j e now"] by simp_all
  then have kept: "bookkept j e db_wf" for j e by (simp add: bookkept_def)
  have "hop_keeps db_wf (hupdate (finalize_committed_deliveries j now))" for j now
    using wf by (simp add: hop_keeps_def hupdate_def)
  then show ?thesis
    by (auto simp: recover_pending_commands_def Let_def
        intro!: wf_intros keeps_interrupt [OF kept] keeps_results [OF kept])
qed

lemma start_plugin_ends:
  assumes "no_recovery H (rp_instance_id p)" "db_wf (h_db h)"
  shows "\<exists>r h'. start_plugin H p g config h = Some (r, h') \<and> db_wf (h_db h')"
proof (cases "circuit_open (rp_instance_id p) (h_db h)")
  case True
  with assms(2) show ?thesis by (simp add: start_plugin_def set_state_def)
next
  case False
  let ?i = "rp_instance_id p"
  let ?first = "hbind (supervised_init H p g config) (\<lambda>_. hbind (set_state Ready_Instance) (\<lambda>_. recover_pending_commands H p))"
  have "hop_keeps db_wf ?first"
    by (auto simp: supervised_init_def intro!: wf_intros wf_recover_commands)
  moreover obtain r1 h1 where 1: "?first h = (r1, h1)" by (cases "?first h")
  ultimately have wf1: "db_wf (h_db h1)" using keepsD assms(2) by blast
  let ?query = "hbind (hclock H) (\<lambda>now. hbind (hupdate (requeue_running_deliveries ?i now))
     (\<lambda>_. hread (\<lambda>h. sort_key (\<lambda>q. pn_next_attempt_ms q) (sort_key (\<lambda>q. pn_event_id q)
        (pending_deliveries ?i store_i64_max (h_db h))))))"
  have "db_wf (requeue_running_deliveries ?i now db)" if "db_wf db" for now db
    using store_step_wf [OF that, of _ "Do_Requeue ?i now"] by simp
  then have "hop_keeps db_wf (hupdate (requeue_running_deliveries ?i now))" for now
    by (simp add: hop_keeps_def hupdate_def)
  then have "hop_keeps db_wf ?query" by (auto intro!: wf_intros)
  moreover obtain r2 h2 where 2: "?query h1 = (r2, h2)" by (cases "?query h1")
  ultimately have wf2: "db_wf (h_db h2)" using keepsD wf1 by blast
  have deliveries: "\<exists>r h'. recover_pending_deliveries H p g h1 = Some (r, h') \<and> db_wf (h_db h')"
    using 2 wf2 recover_deliveries_end [OF assms(1) wf2]
    by (cases r2) (simp_all add: recover_pending_deliveries_def Let_def)
  show ?thesis
  proof (cases r1)
    case (Inl e)
    with False 1 wf1 show ?thesis by (simp add: start_plugin_def)
  next
    case (Inr u)
    from deliveries obtain r3 h3 where 3: "recover_pending_deliveries H p g h1 = Some (r3, h3)" "db_wf (h_db h3)" by blast
    obtain r4 h4 where 4: "recover_plugin_schedules p h3 = (r4, h4)" by (cases "recover_plugin_schedules p h3")
    have "db_wf (h_db h4)" using keepsD [OF wf_schedules(2) 4 3(2)] .
    with False 1 Inr 3 4 show ?thesis by (cases r3) (auto simp: start_plugin_def)
  qed
qed

lemma dispatch_cell_ends:
  assumes "no_recovery (he_libs E) (rp_instance_id (cell_plugin (ph_cells s ! k)))" "db_wf (h_db (ph_host s))"
  shows "\<exists>r s'. dispatch_cell E ctx ad event k s = Some (r, s') \<and> db_wf (h_db (ph_host s'))"
proof -
  let ?H = "he_libs E" and ?c = "ph_cells s ! k"
  let ?p = "cell_plugin ?c" and ?g = "sp_guest (cell_code ?c)" and ?h = "see_cell ?c s"
  have wf: "db_wf (h_db ?h)" using assms(2) by (simp add: see_cell_def)
  have "\<exists>r h'. dispatch_plugin ?H ?p ?g ctx ad event ?h = Some (r, h') \<and> db_wf (h_db h')"
  proof (cases "ready_generation ?h")
    case (Some n)
    obtain r1 h1 where 1: "hsleep ?H ?h = (r1, h1)" by (cases "hsleep ?H ?h")
    have wf1: "db_wf (h_db h1)" using keepsD [OF keeps_sleep [OF others_keep_wf] 1 wf] .
    obtain r2 h2 where 2: "event_envelope ?H ctx event h1 = (r2, h2)" by (cases "event_envelope ?H ctx event h1")
    have "hop_keeps db_wf (event_envelope ?H ctx event)"
      by (auto simp: event_envelope_def intro!: wf_intros)
    from keepsD [OF this 2 wf1] have wf2: "db_wf (h_db h2)" .
    show ?thesis
    proof (cases "\<exists>u env. r1 = Inr u \<and> r2 = Inr env \<and> is_ready_generation n h1")
      case True
      then obtain env where "r1 = Inr ()" "r2 = Inr env" "is_ready_generation n h1" by auto
      with deliver_ends [OF assms(1) wf2, of ?g "From_Event ctx ad" env] Some 1 2 show ?thesis
        by (auto simp: dispatch_plugin_def)
    next
      case False
      with Some 1 2 wf1 wf2 show ?thesis by (cases r1; cases r2) (auto simp: dispatch_plugin_def)
    qed
  qed (use wf in \<open>simp add: dispatch_plugin_def\<close>)
  then show ?thesis by (auto simp: dispatch_cell_def Let_def)
qed

lemma dispatch_all_ends:
  assumes "\<forall>k\<in>set ks. k < length (ph_cells s)"
    and "\<forall>c\<in>set (ph_cells s). no_recovery (he_libs E) (rp_instance_id (cell_plugin c))" "db_wf (h_db (ph_host s))"
  shows "\<exists>r s'. dispatch_all E ctx ad event ks s = Some (r, s') \<and> db_wf (h_db (ph_host s')) \<and>
    (r = Inr () \<or> r = Inl Task_Dropped)"
  using assms
proof (induction ks arbitrary: s)
  case (Cons k ks)
  have "no_recovery (he_libs E) (rp_instance_id (cell_plugin (ph_cells s ! k)))" using Cons.prems by simp
  from dispatch_cell_ends [OF this Cons.prems(3)] obtain r1 s1 where
    1: "dispatch_cell E ctx ad event k s = Some (r1, s1)" "db_wf (h_db (ph_host s1))" by blast
  have same: "map cell_plugin (ph_cells s1) = map cell_plugin (ph_cells s)"
    using registry_dispatch_cell [OF 1(1)] by (simp add: registry_def)
  have "length (ph_cells s1) = length (ph_cells s)" using same by (metis length_map)
  moreover have "cell_plugin ` set (ph_cells s1) = cell_plugin ` set (ph_cells s)" using same by (metis set_map)
  then have "\<forall>c\<in>set (ph_cells s1). no_recovery (he_libs E) (rp_instance_id (cell_plugin c))"
    using Cons.prems(2) by (metis imageE imageI)
  ultimately show ?case using Cons.IH [of s1] Cons.prems 1 by auto
qed simp

section \<open>Histories of the host\<close>

datatype 'w host_call =
    Call_Register "'w static_plugin" ustr "(ustr, json) btmap" "ustr set" "platform_query list"
  | Call_Upgrade ustr "'w static_plugin" "(ustr, json) btmap" "ustr set" "platform_query list"
  | Call_Update ustr "(ustr, json) btmap"
  | Call_Dispatch "json event_context" "(json, 'w) adapter" "json event"
  | Call_Shutdown

fun host_step :: "('w, 'r) host_env \<Rightarrow> 'w host_call \<Rightarrow> 'w plugin_host \<Rightarrow> 'w plugin_host option" where
  "host_step E (Call_Register sp i config grants queries) s = map_option snd (register E sp i config grants queries s)"
| "host_step E (Call_Upgrade i sp config grants queries) s = Some (snd (upgrade E i sp config grants queries s))"
| "host_step E (Call_Update i config) s = Some (snd (update_config E i config s))"
| "host_step E (Call_Dispatch ctx ad event) s = map_option snd (dispatch E ctx ad event s)"
| "host_step E Call_Shutdown s = Some (snd (shutdown E s))"

fun host_run :: "('w, 'r) host_env \<Rightarrow> 'w host_call list \<Rightarrow> 'w plugin_host \<Rightarrow> 'w plugin_host option" where
  "host_run E [] s = Some s"
| "host_run E (c # cs) s = (case host_step E c s of None \<Rightarrow> None | Some s' \<Rightarrow> host_run E cs s')"

lemma registry_step: "host_step E c s = Some s' \<Longrightarrow> registry_ok E s \<Longrightarrow> registry_ok E s'"
proof (cases c)
  case (Call_Register sp i config grants queries)
  assume "host_step E c s = Some s'" "registry_ok E s"
  with Call_Register show ?thesis by (auto intro: register_registry)
next
  case (Call_Upgrade i sp config grants queries)
  assume "host_step E c s = Some s'" "registry_ok E s"
  with Call_Upgrade upgrade_registry [of E i sp config grants queries s] show ?thesis by (metis host_step.simps(2) option.inject prod.collapse)
next
  case (Call_Update i config)
  assume "host_step E c s = Some s'" "registry_ok E s"
  with Call_Update registry_update [of E i config s] show ?thesis
    by (metis host_step.simps(3) option.inject prod.collapse registry_ok_cong)
next
  case (Call_Dispatch ctx ad event)
  assume "host_step E c s = Some s'" "registry_ok E s"
  with Call_Dispatch show ?thesis
    by (auto simp: dispatch_def) (metis registry_dispatch registry_ok_cong)
next
  case Call_Shutdown
  assume "host_step E c s = Some s'" "registry_ok E s"
  with Call_Shutdown registry_shutdown [of E s] show ?thesis
    by (metis host_step.simps(5) option.inject prod.collapse registry_ok_cong)
qed

lemma registry_run: "host_run E cs s = Some s' \<Longrightarrow> registry_ok E s \<Longrightarrow> registry_ok E s'"
  by (induction cs arbitrary: s) (auto split: option.splits dest: registry_step)

lemma at_cell_wf:
  assumes "\<And>c. hop_keeps db_wf (m c)" "at_cell E k m s = (r, s')" "db_wf (h_db (ph_host s))"
  shows "db_wf (h_db (ph_host s'))"
proof -
  obtain r1 h where m: "m (ph_cells s ! k) (see_cell (ph_cells s ! k) s) = (r1, h)"
    by (cases "m (ph_cells s ! k) (see_cell (ph_cells s ! k) s)")
  have "db_wf (h_db h)" using keepsD [OF assms(1) m] assms(3) by (simp add: see_cell_def)
  with assms(2) m show ?thesis by (auto simp: at_cell_def Let_def)
qed

lemma upgrade_wf: "db_wf (h_db (ph_host s)) \<Longrightarrow> db_wf (h_db (ph_host (snd (upgrade E i sp config grants queries s))))"
proof (cases "find_cell i (ph_cells s)")
  case (Some k)
  assume wf: "db_wf (h_db (ph_host s))"
  let ?cand = "new_plugin sp i grants queries"
  let ?m = "\<lambda>c. hbind (hcheck (check_upgrade E k sp s)) (\<lambda>_. hbind (check_config_schema E sp config)
      (\<lambda>_. hbind (supervised_validate_config (he_libs E) (sp_manifest sp) (sp_guest sp) config)
      (\<lambda>_. replace_plugin (he_libs E) (cell_plugin c) (sp_guest (cell_code c)) ?cand (sp_guest sp) config)))"
  obtain r1 s1 where at: "at_cell E k ?m s = (r1, s1)" by (cases "at_cell E k ?m s")
  have "hop_keeps db_wf (?m c)" for c
    by (auto simp: supervised_validate_config_def intro!: wf_intros wf_upgrade)
  from at_cell_wf [OF this at wf] have wf1: "db_wf (h_db (ph_host s1))" .
  have fin: "hop_keeps db_wf (hbind (remove_assets ?cand) (\<lambda>_. recover_plugin_schedules ?cand))"
    by (auto intro!: wf_intros)
  show ?thesis
    using Some at wf1 keepsD [OF fin]
    by (cases r1) (auto simp: upgrade_def Let_def run_shared_def rebuild_command_names_def split: prod.split)
qed (simp add: upgrade_def Let_def)

lemma shutdown_cells_wf:
  "db_wf (h_db (ph_host s)) \<Longrightarrow> db_wf (h_db (ph_host (snd (shutdown_cells E ks first s))))"
proof (induction ks arbitrary: s first)
  case (Cons k ks)
  let ?m = "\<lambda>c. shutdown_plugin (he_libs E) (cell_plugin c) (sp_guest (cell_code c))"
  obtain r1 s1 where 1: "at_cell E k ?m s = (r1, s1)" by (cases "at_cell E k ?m s")
  from at_cell_wf [OF wf_shutdown 1 Cons.prems] have "db_wf (h_db (ph_host s1))" .
  with 1 Cons.IH show ?case by (cases r1) auto
qed simp

lemma stop_schedulers_wf: "db_wf (h_db (ph_host s)) \<Longrightarrow> db_wf (h_db (ph_host (stop_schedulers s)))"
proof -
  have "db_wf (fold (\<lambda>c. requeue_firing_schedules (rp_instance_id (cell_plugin c))) cs db)" if "db_wf db" for cs db
    using that
  proof (induction cs arbitrary: db)
    case (Cons c cs)
    show ?case using Cons store_step_wf [OF Cons.prems, of _ "Do_Requeue_Firing (rp_instance_id (cell_plugin c))"] by simp
  qed simp
  then show "db_wf (h_db (ph_host s)) \<Longrightarrow> db_wf (h_db (ph_host (stop_schedulers s)))"
    by (simp add: stop_schedulers_def Let_def)
qed

lemma register_ends:
  assumes "no_recovery (he_libs E) i" "db_wf (h_db (ph_host s))"
  shows "\<exists>r s'. register E sp i config grants queries s = Some (r, s') \<and> db_wf (h_db (ph_host s'))"
proof -
  let ?H = "unshared (he_libs E)" and ?p = "new_plugin sp i grants queries"
  let ?check = "hbind (hcheck (check_registration E sp i s)) (\<lambda>_. hbind (check_config_schema E sp config)
        (\<lambda>_. supervised_validate_config ?H (sp_manifest sp) (sp_guest sp) config))"
  let ?h = "(ph_host s)\<lparr>h_life := fresh_life, h_config := config\<rparr>"
  obtain r1 h1 where 1: "?check ?h = (r1, h1)" by (cases "?check ?h")
  have "hop_keeps db_wf ?check" by (auto simp: supervised_validate_config_def intro!: wf_intros)
  from keepsD [OF this 1] assms(2) have wf: "db_wf (h_db h1)" by simp
  have "no_recovery ?H (rp_instance_id ?p)" using assms(1) by (simp add: no_recovery_def unshared_def new_plugin_def)
  from start_plugin_ends [OF this wf] obtain r2 h2 where
    "start_plugin ?H ?p (sp_guest sp) config h1 = Some (r2, h2)" "db_wf (h_db h2)" by blast
  with 1 wf show ?thesis by (cases r1; cases r2) (auto simp: register_def Let_def)
qed

lemma dispatch_order_cells: "\<forall>k\<in>set (dispatch_order event s). k < length (ph_cells s)"
  by (auto simp: dispatch_order_def Let_def map_filter_def)

lemma host_step_ends:
  assumes "\<forall>i. no_recovery (he_libs E) i" "db_wf (h_db (ph_host s))"
  shows "\<exists>s'. host_step E c s = Some s' \<and> db_wf (h_db (ph_host s'))"
proof (cases c)
  case (Call_Register sp i config grants queries)
  with register_ends [of E i s sp config grants queries] assms show ?thesis by auto
next
  case (Call_Upgrade i sp config grants queries)
  with upgrade_wf [OF assms(2)] show ?thesis by simp
next
  case (Call_Update i config)
  have "db_wf (h_db (ph_host (snd (update_config E i config s))))"
  proof (cases "find_cell i (ph_cells s)")
    case (Some k)
    let ?m = "\<lambda>c. update_plugin_config E (cell_plugin c) (cell_code c) config"
    obtain r s1 where 1: "at_cell E k ?m s = (r, s1)" by (cases "at_cell E k ?m s")
    from at_cell_wf [OF wf_update 1 assms(2)] Some 1 show ?thesis by (simp add: update_config_def)
  qed (use assms(2) in \<open>simp add: update_config_def\<close>)
  with Call_Update show ?thesis by simp
next
  case (Call_Dispatch ctx ad event)
  with dispatch_all_ends [OF dispatch_order_cells [of event s], of E ctx ad event] assms show ?thesis
    by (auto simp: dispatch_def)
next
  case Call_Shutdown
  have "db_wf (h_db (ph_host (snd (shutdown E s))))"
    unfolding shutdown_def by (rule shutdown_cells_wf [OF stop_schedulers_wf [OF assms(2)]])
  with Call_Shutdown show ?thesis by simp
qed

lemma host_run_ends:
  assumes "\<forall>i. no_recovery (he_libs E) i" "db_wf (h_db (ph_host s))"
  shows "\<exists>s'. host_run E cs s = Some s'"
  using assms(2)
proof (induction cs arbitrary: s)
  case (Cons c cs)
  from host_step_ends [OF assms(1) Cons.prems] obtain s1 where "host_step E c s = Some s1" "db_wf (h_db (ph_host s1))"
    by blast
  with Cons.IH show ?case by simp
qed simp

text \<open>[C17] In every history of registrations, upgrades, configuration changes, dispatched events and shutdowns, with any
  outcome of each, the registry is consistent: instance identifiers are distinct, no command or alias is declared
  twice, neither by one plugin nor by two, the two sets that the host keeps for its checks are exactly the
  identifiers and names of the registered plugins, every registered manifest is valid, and no plugin holds a
  capability that its manifest does not request. And every such history ends, as long as no administrator
  recovers dead letters meanwhile.\<close>

theorem registry_consistent:
  assumes "\<forall>i. no_recovery (he_libs E) i" "db_wf (h_db h)"
  shows "\<exists>s. host_run E calls (new_plugin_host h) = Some s \<and> registry_ok E s"
proof -
  have "registry_ok E (new_plugin_host h)" by (simp add: registry_ok_def new_plugin_host_def)
  with registry_run host_run_ends [OF assms(1), of "new_plugin_host h" calls] assms(2) show ?thesis
    by (auto simp: new_plugin_host_def)
qed

text \<open>Plugins are isolated from each other: whatever the plugins that subscribe to an event do (errors, panics,
  traps, timeouts, invalid output) and whatever their commands do, the dispatch of the event ends and reports
  success to the router, unless the runtime drops it.\<close>

theorem dispatch_isolates:
  assumes "db_wf (h_db (ph_host s))"
    and "\<forall>c\<in>set (ph_cells s). no_recovery (he_libs E) (rp_instance_id (cell_plugin c))"
  shows "\<exists>s'. dispatch E ctx ad event s = Some (Inr (), s') \<or> dispatch E ctx ad event s = Some (Inl Task_Dropped, s')"
  using dispatch_all_ends [OF dispatch_order_cells assms(2,1)] unfolding dispatch_def by blast

section \<open>Configuration changes\<close>

text \<open>While the gate of the plugin is held, no other task changes its configuration.\<close>

definition config_kept :: "'w host_libs \<Rightarrow> bool" where
  "config_kept H \<longleftrightarrow> (\<forall>w c. hl_configure H w c = c)"

lemma supervised_config:
  "supervised H who err call h = (r, h') \<Longrightarrow> config_kept H \<Longrightarrow> h_config h' = h_config h"
  by (auto simp: supervised_def hbind_def hawait_def others_def config_kept_def Let_def split: prod.splits if_splits)

lemma ready_again_Inl: "ready_again e h = (r, h') \<longleftrightarrow> r = Inl e \<and> h' = h\<lparr>h_life := (h_life h)\<lparr>lc_state := Ready_Instance\<rparr>\<rparr>"
  by (auto simp: ready_again_def hbind_def set_state_def hraise_def)

text \<open>What a change of configuration leaves, by its result.\<close>

definition config_outcome ::
    "registered_plugin \<Rightarrow> (ustr, json) btmap \<Rightarrow> (ustr, json) btmap \<Rightarrow> host_error + unit \<Rightarrow> 'w host_state \<Rightarrow> bool" where
  "config_outcome p old new r h \<longleftrightarrow>
     (case r of
        Inr _ \<Rightarrow> lc_state (h_life h) = Ready_Instance \<and> h_config h = new \<and> assets_of (rp_instance_id p) (h_assets h) = []
      | Inl e \<Rightarrow> e = Task_Dropped \<or>
          h_config h = old \<and>
          (lc_state (h_life h) = Ready_Instance \<or>
           lc_state (h_life h) = Disabled \<and> assets_of (rp_instance_id p) (h_assets h) = []))"

lemma start_config_outcome:
  assumes "start_config H p g old config h = (r, h')" "config_kept H" "h_config h = old"
  shows "config_outcome p old config r h'"
proof -
  obtain r1 h1 where 1: "supervised_init H p g config h = (r1, h1)" by (cases "supervised_init H p g config h")
  have c1: "h_config h1 = old" using supervised_config 1 assms(2,3) unfolding supervised_init_def by metis
  show ?thesis
  proof (cases r1)
    case (Inr u)
    with assms(1) 1 show ?thesis
      by (auto simp: start_config_def hcatch_def hbind_def replace_config_def remove_assets_def set_state_def
          config_outcome_def remove_instance_none)
  next
    case (Inl e)
    obtain r2 h2 where 2: "supervised_init H p g old h1 = (r2, h2)" by (cases "supervised_init H p g old h1")
    have c2: "h_config h2 = old" using supervised_config 2 assms(2) c1 unfolding supervised_init_def by metis
    from assms(1) 1 Inl 2 c1 c2 show ?thesis
      by (cases r2) (auto simp: start_config_def rollback_config_def hcatch_def hbind_def disable_gives hraise_def
          ready_again_Inl config_outcome_def remove_instance_none hdone_def split: if_splits)
  qed
qed

lemma sleep_cases:
  assumes "hsleep H h = (r, h1)"
  shows "(r = Inr () \<or> r = Inl Task_Dropped) \<and> (config_kept H \<longrightarrow> h_config h1 = h_config h)"
  using assms by (auto simp: hsleep_def hawait_def others_def config_kept_def Let_def split: if_splits)

lemma drain_step: "hbind begin_draining f h = f () (h\<lparr>h_life := \<lparr>lc_state = Draining, lc_generation = lc_generation (h_life h) + 1\<rparr>\<rparr>)"
  by (simp add: hbind_def begin_draining_def)

lemma catch_ready:
  assumes "hbind (hcatch m ready_again) f h = (r, h')"
  obtains (ok) x h1 where "m h = (Inr x, h1)" "f x h1 = (r, h')"
  | (refused) e h1 where "m h = (Inl e, h1)" "e \<noteq> Task_Dropped" "r = Inl e"
      "h' = h1\<lparr>h_life := (h_life h1)\<lparr>lc_state := Ready_Instance\<rparr>\<rparr>"
  | (dropped) "r = Inl Task_Dropped"
proof -
  obtain y h1 where m: "m h = (y, h1)" by (cases "m h")
  show ?thesis
  proof (cases y)
    case (Inl e)
    with assms m refused dropped show ?thesis
      by (cases "e = Task_Dropped") (auto simp: hcatch_def hbind_def ready_again_def set_state_def hraise_def hdone_def)
  next
    case (Inr x)
    with assms m ok show ?thesis by (simp add: hcatch_def hbind_def)
  qed
qed

lemma update_plugin_outcome:
  assumes "update_plugin_config E p sp config h = (r, h')" "config_kept (he_libs E)" "h_config h = old"
  shows "config_outcome p old config r h'"
proof -
  let ?H = "he_libs E"
  obtain r1 h1 where 1: "hsleep ?H (h\<lparr>h_life := \<lparr>lc_state = Draining, lc_generation = lc_generation (h_life h) + 1\<rparr>\<rparr>) = (r1, h1)"
    by (cases "hsleep ?H (h\<lparr>h_life := \<lparr>lc_state = Draining, lc_generation = lc_generation (h_life h) + 1\<rparr>\<rparr>)")
  have c1: "h_config h1 = old" using sleep_cases [OF 1] assms(2,3) by simp
  show ?thesis
  proof (cases r1)
    case (Inl e)
    with assms(1) 1 sleep_cases [OF 1] show ?thesis
      by (auto simp: update_plugin_config_def Let_def drain_step hbind_stop config_outcome_def)
  next
    case (Inr u)
    have "hbind (hcatch (check_config_schema E sp config) ready_again)
        (\<lambda>_. hbind (hcatch (supervised_validate_config ?H (rp_manifest p) (sp_guest sp) config) ready_again)
        (\<lambda>_. hbind (hcatch (supervised_shutdown ?H p (sp_guest sp)) ready_again)
        (\<lambda>_. start_config ?H p (sp_guest sp) old config))) h1 = (r, h')"
      using assms(1) 1 Inr c1 by (simp add: update_plugin_config_def Let_def drain_step hbind_step hread_gives)
    then show ?thesis
    proof (cases rule: catch_ready)
      case (ok x h2)
      then have c2: "h_config h2 = old" using c1 by (auto simp: check_config_schema_def)
      from ok(2) show ?thesis
      proof (cases rule: catch_ready)
        case (ok x h3)
        then have c3: "h_config h3 = old"
          using c2 supervised_config [OF _ assms(2)] unfolding supervised_validate_config_def by metis
        from ok(2) show ?thesis
        proof (cases rule: catch_ready)
          case (ok x h4)
          then have "h_config h4 = old"
            using c3 supervised_config [OF _ assms(2)] unfolding supervised_shutdown_def by metis
          from start_config_outcome [OF ok(2) assms(2) this] show ?thesis .
        next
          case (refused e h4)
          then have "h_config h4 = old"
            using c3 supervised_config [OF _ assms(2)] unfolding supervised_shutdown_def by metis
          with refused show ?thesis by (simp add: config_outcome_def)
        qed (simp add: config_outcome_def)
      next
        case (refused e h3)
        then have "h_config h3 = old"
          using c2 supervised_config [OF _ assms(2)] unfolding supervised_validate_config_def by metis
        with refused show ?thesis by (simp add: config_outcome_def)
      qed (simp add: config_outcome_def)
    next
      case (refused e h2)
      then have "h_config h2 = old" using c1 by (auto simp: check_config_schema_def)
      with refused show ?thesis by (simp add: config_outcome_def)
    qed (simp add: config_outcome_def)
  qed
qed

text \<open>A change of configuration is all or nothing: when it succeeds, the plugin is in service with the new
  configuration and without assets of before; when it fails, the old configuration is in force and the plugin is
  in service with it, or, when it could not be started again, disabled and without assets. It is never left
  draining, unless the task is dropped at an await.\<close>

theorem config_change_outcome:
  assumes "update_config E i config s = (r, s')" "find_cell i (ph_cells s) = Some k" "config_kept (he_libs E)"
  shows "config_outcome (cell_plugin (ph_cells s ! k)) (cell_config (ph_cells s ! k)) config r
    (see_cell (ph_cells s' ! k) s')"
proof -
  let ?c = "ph_cells s ! k"
  obtain h where u: "update_plugin_config E (cell_plugin ?c) (cell_code ?c) config (see_cell ?c s) = (r, h)"
    and s': "s' = leave_cell E k h s"
    using assms(1,2) by (auto simp: update_config_def at_cell_def Let_def split: prod.splits)
  have "h_config (see_cell ?c s) = cell_config ?c" by (simp add: see_cell_def)
  from update_plugin_outcome [OF u assms(3) this] find_cell_Some [OF assms(2)] s' show ?thesis
    by (simp add: config_outcome_def see_cell_def leave_cell_nth)
qed

text \<open>[C36] A configuration that its schema refuses puts the plugin into service whatever it was before: an instance
  that is disabled, because it trapped or could not be started, or that was shut down, is ready again after a
  change of configuration that was refused, and events are delivered to it.\<close>

theorem refused_config_revives:
  assumes "update_config E i config s = (r, s')" "find_cell i (ph_cells s) = Some k"
    and "validate_config_schema E (cell_code (ph_cells s ! k)) (mf_id (sp_manifest (cell_code (ph_cells s ! k)))) config = Some e"
    and "r \<noteq> Inl Task_Dropped"
  shows "r = Inl e \<and> instance_state_of i s' = Some Ready_Instance"
proof -
  let ?c = "ph_cells s ! k"
  let ?h = "(see_cell ?c s)\<lparr>h_life := \<lparr>lc_state = Draining, lc_generation = lc_generation (cell_life ?c) + 1\<rparr>\<rparr>"
  have e: "e \<noteq> Task_Dropped"
    using assms(3) by (auto simp: validate_config_schema_def split: option.splits sum.splits if_splits)
  obtain h where u: "update_plugin_config E (cell_plugin ?c) (cell_code ?c) config (see_cell ?c s) = (r, h)"
    and s': "s' = leave_cell E k h s"
    using assms(1,2) by (auto simp: update_config_def at_cell_def Let_def split: prod.splits)
  obtain r1 h1 where 1: "hsleep (he_libs E) ?h = (r1, h1)" by (cases "hsleep (he_libs E) ?h")
  have "r1 = Inr ()"
    using sleep_cases [OF 1] u 1 assms(4)
    by (auto simp: update_plugin_config_def Let_def drain_step hbind_stop see_cell_def)
  with u 1 assms(3) e have "r = Inl e \<and> lc_state (h_life h) = Ready_Instance"
    by (auto simp: update_plugin_config_def Let_def drain_step hbind_step hread_gives see_cell_def hbind_def [of "hcatch _ _"]
        hcatch_def check_config_schema_def ready_again_def hbind_def [of "set_state _"] set_state_def hraise_def hdone_def)
  with s' state_after [OF assms(2), of E h] show ?thesis by simp
qed

section \<open>Shutdown\<close>

text \<open>No other task uses the host.\<close>

definition idle :: "('w, 'r) host_env \<Rightarrow> bool" where
  "idle E \<longleftrightarrow>
     (\<forall>w. hl_calls (he_libs E) w = [] \<and> (\<forall>l. hl_lifecycle (he_libs E) w l = l) \<and>
          (\<forall>t. hl_workers (he_libs E) w t = t) \<and> (\<forall>a. cl_others (hl_command (he_libs E)) w a = a) \<and>
          (\<forall>i x. he_peers E w i x = x))"

lemma idle_others: "idle E \<Longrightarrow> h_db (others (he_libs E) h) = h_db h \<and> h_life (others (he_libs E) h) = h_life h \<and>
    h_workers (others (he_libs E) h) = h_workers h \<and> h_assets (others (he_libs E) h) = h_assets h"
  by (simp add: idle_def others_def)

lemma idle_await:
  "hawait (he_libs E) f h = (r, h') \<Longrightarrow> idle E \<Longrightarrow>
   h_db h' = h_db h \<and> h_life h' = h_life h \<and> h_workers h' = h_workers h \<and> h_assets h' = h_assets h"
  using idle_others [of E] by (auto simp: hawait_def Let_def split: prod.splits if_splits)

lemma idle_supervised:
  "supervised (he_libs E) who err call h = (r, h') \<Longrightarrow> idle E \<Longrightarrow>
   h_db h' = h_db h \<and> h_life h' = h_life h \<and> h_workers h' = h_workers h \<and> h_assets h' = h_assets h"
  unfolding supervised_def hbind_def by (auto split: prod.splits sum.splits dest: idle_await)

lemma idle_sleep:
  "hsleep (he_libs E) h = (r, h') \<Longrightarrow> idle E \<Longrightarrow>
   h_db h' = h_db h \<and> h_life h' = h_life h \<and> h_workers h' = h_workers h \<and> h_assets h' = h_assets h"
  unfolding hsleep_def by (rule idle_await)

definition at_rest :: "lifecycle \<Rightarrow> bool" where
  "at_rest l \<longleftrightarrow> lc_state l = Stopped \<or> lc_state l = Disabled"

text \<open>The error is recorded exactly when a plugin that was in service is not stopped.\<close>

lemma shutdown_plugin_result:
  assumes "shutdown_plugin (he_libs E) p g h = (Inr r, h')" "idle E"
  shows "h_db h' = h_db h \<and> h_workers h' = h_workers h \<and> h_assets h' = remove_instance (rp_instance_id p) (h_assets h) \<and>
    at_rest (h_life h') \<and> r \<noteq> Some Task_Dropped \<and>
    (r = None \<and> \<not> at_rest (h_life h) \<longrightarrow> lc_state (h_life h') = Stopped)"
proof (cases "at_rest (h_life h)")
  case True
  with assms(1) [unfolded shutdown_plugin_def hread_gives] show ?thesis
    by (auto simp: at_rest_def hbind_def remove_assets_def)
next
  case False
  let ?h1 = "snd ((if lc_state (h_life h) = Ready_Instance then begin_draining else hdone (Inr ())) h)"
  have h1: "h_db ?h1 = h_db h" "h_workers ?h1 = h_workers h" "h_assets ?h1 = h_assets h"
    "(if lc_state (h_life h) = Ready_Instance then begin_draining else hdone (Inr ())) h = (Inr (), ?h1)"
    by (simp_all add: begin_draining_def hdone_def)
  obtain r2 h2 where 2: "hsleep (he_libs E) ?h1 = (r2, h2)" by (cases "hsleep (he_libs E) ?h1")
  obtain r3 h3 where 3: "supervised_shutdown (he_libs E) p g h2 = (r3, h3)" by (cases "supervised_shutdown (he_libs E) p g h2")
  note same = idle_sleep [OF 2 assms(2)] idle_supervised [OF 3 [unfolded supervised_shutdown_def] assms(2)] h1(1-3)
  have "hbind (hsleep (he_libs E))
      (\<lambda>_. hbind (hcatch (hbind (supervised_shutdown (he_libs E) p g) (\<lambda>_. hbind (set_state Stopped) (\<lambda>_. hdone (Inr None))))
             (\<lambda>e. hbind (set_state Disabled) (\<lambda>_. hdone (Inr (Some e)))))
      (\<lambda>r. hbind (remove_assets p) (\<lambda>_. hdone (Inr r)))) ?h1 = (Inr r, h')"
    using assms(1) False h1(4) by (simp add: shutdown_plugin_def at_rest_def hread_gives hbind_step)
  with 2 3 same show ?thesis
    by (cases r2; cases r3)
       (auto simp: hbind_def hcatch_def set_state_def remove_assets_def hdone_def at_rest_def split: if_splits)
qed

lemma assets_of_remove: "assets_of j s = [] \<Longrightarrow> assets_of j (remove_instance i s) = []"
  by (force simp: assets_of_def remove_instance_def remove_records_records filter_empty_conv)

lemma idle_leave_nth:
  "idle E \<Longrightarrow> j < length (ph_cells s) \<Longrightarrow> j \<noteq> k \<Longrightarrow> ph_cells (leave_cell E k h s) ! j = ph_cells s ! j"
  by (simp add: leave_cell_nth peer_cell_def idle_def)

definition cell_settled :: "'w plugin_host \<Rightarrow> nat \<Rightarrow> bool" where
  "cell_settled s j \<longleftrightarrow> at_rest (cell_life (ph_cells s ! j)) \<and>
     assets_of (rp_instance_id (cell_plugin (ph_cells s ! j))) (h_assets (ph_host s)) = []"

lemma shutdown_cells_result:
  assumes "idle E"
  shows "shutdown_cells E ks first s = (r, s') \<Longrightarrow> r \<noteq> Inl Task_Dropped \<Longrightarrow> first \<noteq> Some Task_Dropped \<Longrightarrow>
    distinct ks \<Longrightarrow> \<forall>k\<in>set ks. k < length (ph_cells s) \<Longrightarrow>
    \<forall>j<length (ph_cells s). j \<notin> set ks \<longrightarrow> cell_settled s j \<Longrightarrow>
    (\<forall>j<length (ph_cells s). cell_settled s' j \<and> (j \<notin> set ks \<longrightarrow> ph_cells s' ! j = ph_cells s ! j) \<and>
       (j \<in> set ks \<and> r = Inr () \<and> \<not> at_rest (cell_life (ph_cells s ! j)) \<longrightarrow>
          lc_state (cell_life (ph_cells s' ! j)) = Stopped)) \<and>
    h_workers (ph_host s') = h_workers (ph_host s) \<and> h_db (ph_host s') = h_db (ph_host s) \<and>
    (r = Inr () \<longrightarrow> first = None)"
proof (induction ks arbitrary: first s)
  case Nil
  then show ?case by (auto split: option.splits)
next
  case (Cons k ks)
  let ?c = "ph_cells s ! k" and ?m = "\<lambda>c. shutdown_plugin (he_libs E) (cell_plugin c) (sp_guest (cell_code c))"
  obtain r1 h1 where m: "?m ?c (see_cell ?c s) = (r1, h1)" by (cases "?m ?c (see_cell ?c s)")
  let ?s1 = "leave_cell E k h1 s"
  have at: "at_cell E k ?m s = (r1, ?s1)" using m by (simp add: at_cell_def Let_def)
  show ?case
  proof (cases r1)
    case (Inl e)
    have "e = Task_Dropped" if "?m ?c h = (Inl e, h')" for h h'
      using that unfolding shutdown_plugin_def hread_gives
      by (auto simp: hbind_def hcatch_def begin_draining_def set_state_def remove_assets_def
          hdone_def hsleep_def hawait_def Let_def supervised_shutdown_def supervised_def
          split: if_splits prod.splits sum.splits)
    with Inl m at Cons.prems(1,2) show ?thesis by auto
  next
    case (Inr x)
    note res = shutdown_plugin_result [OF m [unfolded Inr] assms]
    have k: "k < length (ph_cells s)" using Cons.prems by simp
    let ?first = "if first = None then x else first"
    have plugin: "cell_plugin (ph_cells ?s1 ! j) = cell_plugin (ph_cells s ! j)" if "j < length (ph_cells s)" for j
      using that by (simp add: leave_cell_nth)
    have rest: "\<forall>j<length (ph_cells ?s1). j \<notin> set ks \<longrightarrow> cell_settled ?s1 j"
    proof (intro allI impI)
      fix j assume j: "j < length (ph_cells ?s1)" "j \<notin> set ks"
      show "cell_settled ?s1 j"
      proof (cases "j = k")
        case True
        with res k show ?thesis by (simp add: cell_settled_def leave_cell_nth remove_instance_none see_cell_def)
      next
        case False
        with j Cons.prems have "cell_settled s j" by simp
        with res j False show ?thesis
          by (simp add: cell_settled_def idle_leave_nth [OF assms] assets_of_remove see_cell_def)
      qed
    qed
    have run: "shutdown_cells E ks ?first ?s1 = (r, s')" using Cons.prems(1) at Inr by simp
    have "?first \<noteq> Some Task_Dropped" using res Cons.prems(3) by auto
    from Cons.IH [OF run Cons.prems(2) this _ _ rest] Cons.prems have ih:
      "\<forall>j<length (ph_cells s). cell_settled s' j \<and> (j \<notin> set ks \<longrightarrow> ph_cells s' ! j = ph_cells ?s1 ! j) \<and>
         (j \<in> set ks \<and> r = Inr () \<and> \<not> at_rest (cell_life (ph_cells ?s1 ! j)) \<longrightarrow>
            lc_state (cell_life (ph_cells s' ! j)) = Stopped)"
      "h_workers (ph_host s') = h_workers h1" "h_db (ph_host s') = h_db h1" "r = Inr () \<longrightarrow> ?first = None" by auto
    have "lc_state (cell_life (ph_cells s' ! k)) = Stopped" if "r = Inr ()" "\<not> at_rest (cell_life ?c)"
      using that ih(1,4) k Cons.prems(4) res by (auto simp: leave_cell_nth see_cell_def split: if_splits)
    then have "cell_settled s' j \<and> (j \<notin> set (k # ks) \<longrightarrow> ph_cells s' ! j = ph_cells s ! j) \<and>
       (j \<in> set (k # ks) \<and> r = Inr () \<and> \<not> at_rest (cell_life (ph_cells s ! j)) \<longrightarrow>
          lc_state (cell_life (ph_cells s' ! j)) = Stopped)" if "j < length (ph_cells s)" for j
      using ih(1) that idle_leave_nth [OF assms that, of k] Cons.prems(4) by (cases "j = k") auto
    with ih(2-4) res show ?thesis by (auto simp: see_cell_def split: if_splits)
  qed
qed

definition no_firing :: "ustr \<Rightarrow> plugin_db \<Rightarrow> bool" where
  "no_firing i db \<longleftrightarrow> list_all (\<lambda>x. fst (fst x) = i \<longrightarrow> sr_status (snd x) \<noteq> Schedule_Firing) (db_schedules db)"

lemma requeue_no_firing:
  "no_firing i (requeue_firing_schedules i db)" "no_firing j db \<Longrightarrow> no_firing j (requeue_firing_schedules i db)"
  by (auto simp: no_firing_def requeue_firing_schedules_def sql_update_def list_all_iff split: if_splits)

lemma requeue_all_no_firing:
  "i \<in> set is \<or> no_firing i db \<Longrightarrow> no_firing i (fold requeue_firing_schedules is db)"
  by (induction "is" arbitrary: db) (auto simp: requeue_no_firing)

text \<open>When no other task uses the host, a shutdown that is not dropped brings everything to rest: every registered
  plugin is stopped or disabled and owns no assets, no scheduled worker has a handle and every one that had is
  aborted, and no task of a registered instance is left as firing, so that the next start finds it pending. It
  reports success only if every plugin that was in service was stopped.\<close>

theorem shutdown_settles:
  assumes "idle E" "shutdown E s = (r, s')" "r \<noteq> Inl Task_Dropped"
  shows "list_all (\<lambda>c. at_rest (cell_life c) \<and>
       assets_of (rp_instance_id (cell_plugin c)) (h_assets (ph_host s')) = []) (ph_cells s') \<and>
    wt_handles (h_workers (ph_host s')) = [] \<and>
    set (map snd (wt_handles (h_workers (ph_host s)))) \<subseteq> set (wt_aborted (h_workers (ph_host s'))) \<and>
    list_all (\<lambda>c. no_firing (rp_instance_id (cell_plugin c)) (h_db (ph_host s'))) (ph_cells s) \<and>
    (r = Inr () \<longrightarrow> list_all2 (\<lambda>c c'. at_rest (cell_life c) \<or> lc_state (cell_life c') = Stopped) (ph_cells s) (ph_cells s'))"
proof -
  let ?s0 = "stop_schedulers s" and ?ks = "[0..<length (ph_cells s)]"
  have cells0: "ph_cells ?s0 = ph_cells s" by (simp add: stop_schedulers_def Let_def)
  have run: "shutdown_cells E ?ks None ?s0 = (r, s')" using assms(2) by (simp add: shutdown_def)
  note res = shutdown_cells_result [OF assms(1) run assms(3), unfolded cells0]
  have len: "length (ph_cells s') = length (ph_cells s)"
    using registry_shutdown [OF assms(2)] unfolding registry_def by (metis length_map prod.inject)
  have "fold (\<lambda>c. requeue_firing_schedules (rp_instance_id (cell_plugin c))) cs db =
      fold requeue_firing_schedules (map (\<lambda>c. rp_instance_id (cell_plugin c)) cs) db" for cs :: "'a plugin_cell list" and db
    by (induction cs arbitrary: db) simp_all
  then have quiet: "no_firing (rp_instance_id (cell_plugin c)) (h_db (ph_host s'))" if "c \<in> set (ph_cells s)" for c
    using res that by (auto simp: stop_schedulers_def Let_def intro!: requeue_all_no_firing)
  show ?thesis
  proof (intro conjI)
    show "list_all (\<lambda>c. at_rest (cell_life c) \<and>
       assets_of (rp_instance_id (cell_plugin c)) (h_assets (ph_host s')) = []) (ph_cells s')"
      using res len by (auto simp: list_all_length cell_settled_def)
    show "list_all (\<lambda>c. no_firing (rp_instance_id (cell_plugin c)) (h_db (ph_host s'))) (ph_cells s)"
      using quiet by (simp add: list_all_iff)
    show "r = Inr () \<longrightarrow> list_all2 (\<lambda>c c'. at_rest (cell_life c) \<or> lc_state (cell_life c') = Stopped) (ph_cells s) (ph_cells s')"
      using res len by (auto simp: list_all2_conv_all_nth)
  qed (use res in \<open>auto simp: stop_schedulers_def Let_def\<close>)
qed

section \<open>A host that runs\<close>

text \<open>One plugin, whose code answers \<open>Inr\<close> or \<open>Inl\<close> as asked; a schema that refuses every configuration.\<close>

definition demo_guest :: "bool \<Rightarrow> nat guest" where
  "demo_guest starts =
     \<lparr>g_on_event = (\<lambda>_ _ w. (Guest_Ended (Inl (GuestTrap [116])), w)),
      g_validate_config = (\<lambda>_ w. (Guest_Ended (Inr ()), w)),
      g_init = (\<lambda>_ w. (Guest_Ended (if starts then Inr () else Inl (Transient [])), w)),
      g_health = (\<lambda>w. (Guest_Ended (Inr True), w)), g_migrate_state = (\<lambda>_ _ _ w. (Guest_Ended (Inr []), w)),
      g_shutdown = (\<lambda>w. (Guest_Ended (Inr ()), w))\<rparr>"

definition quiet_libs :: "nat host_libs" where
  "quiet_libs = demo_host_libs\<lparr>hl_command := demo_command_libs\<lparr>cl_others := (\<lambda>_ a. a)\<rparr>\<rparr>"

definition demo_env :: "(nat, unit) host_env" where
  "demo_env = \<lparr>he_libs = quiet_libs, he_manifest = demo_libs, he_manifest_text = (\<lambda>_. []),
     he_schema_bytes = (\<lambda>_. Inr []), he_schema_compile = (\<lambda>_. Inr (\<lambda>_. Some [])), he_peers = (\<lambda>_ _ x. x)\<rparr>"

definition demo_code :: "bool \<Rightarrow> json option \<Rightarrow> nat static_plugin" where
  "demo_code starts schema = \<lparr>sp_manifest = demo_manifest, sp_schema = schema, sp_guest = demo_guest starts\<rparr>"

definition demo_running :: "json option \<Rightarrow> instance_state \<Rightarrow> nat plugin_host" where
  "demo_running schema st =
     \<lparr>ph_cells = [\<lparr>cell_plugin = new_plugin (demo_code True schema) [105] {} [], cell_code = demo_code True schema,
        cell_life = \<lparr>lc_state = st, lc_generation = 3\<rparr>, cell_config = []\<rparr>],
      ph_instances = {[105]}, ph_command_names = {}, ph_host = demo_host empty_db\<rparr>"

lemma demo_env_idle: "idle demo_env"
  by (simp add: idle_def demo_env_def quiet_libs_def demo_host_libs_def)

lemma demo_env_recovery: "\<forall>i. no_recovery (he_libs demo_env) i"
  by (simp add: no_recovery_def demo_env_def quiet_libs_def demo_host_libs_def)

lemma demo_found: "find_cell [105] (ph_cells (demo_running schema st)) = Some 0"
  by (simp add: demo_running_def new_plugin_def)

lemma quiet_await: "hawait quiet_libs f h = (case f (h_world h) of (x, w) \<Rightarrow> (Inr x, h\<lparr>h_world := w\<rparr>))"
  by (simp add: hawait_def others_def dropped_def Let_def quiet_libs_def demo_host_libs_def split: prod.split option.split)

lemma registry_consistent_witness:
  "\<exists>s. host_run demo_env [Call_Register (demo_code True None) [105] [] {} [], Call_Shutdown]
     (new_plugin_host (demo_host empty_db)) = Some s \<and> registry_ok demo_env s"
  using registry_consistent [OF demo_env_recovery demo_host_wf] .

lemma dispatch_isolates_witness:
  "\<exists>r s'. dispatch demo_env demo_reply_context demo_media_adapter (Event_Notice J_Null)
      (demo_running None Ready_Instance) = Some (r, s') \<and> (r = Inr () \<or> r = Inl Task_Dropped)"
proof -
  have "db_wf (h_db (ph_host (demo_running None Ready_Instance)))" using demo_host_wf by (simp add: demo_running_def)
  from dispatch_isolates [OF this, of demo_env demo_reply_context demo_media_adapter "Event_Notice J_Null"]
  show ?thesis using demo_env_recovery by blast
qed

lemma config_change_outcome_witness:
  "\<exists>r s'. update_config demo_env [105] [([1], J_Null)] (demo_running None Disabled) = (r, s') \<and>
     config_outcome (new_plugin (demo_code True None) [105] {} []) [] [([1], J_Null)] r (see_cell (ph_cells s' ! 0) s')"
proof -
  obtain r s' where run: "update_config demo_env [105] [([1], J_Null)] (demo_running None Disabled) = (r, s')"
    by (cases "update_config demo_env [105] [([1], J_Null)] (demo_running None Disabled)")
  have "config_kept (he_libs demo_env)" by (simp add: config_kept_def demo_env_def quiet_libs_def demo_host_libs_def)
  from config_change_outcome [OF run demo_found this] run show ?thesis by (simp add: demo_running_def)
qed

lemma demo_refusal:
  "validate_config_schema demo_env (demo_code True (Some J_Null)) who [] =
     Some (Config_Refused who (lit ''JSON Schema validation failed: ''))"
  by (simp add: validate_config_schema_def demo_code_def demo_env_def max_config_schema_bytes_def
      external_schema_reference_def scan_references.simps)

lemma refused_config_revives_witness:
  "instance_state_of [105] (demo_running (Some J_Null) Stopped) = Some Stopped \<and>
   instance_state_of [105] (snd (update_config demo_env [105] [] (demo_running (Some J_Null) Stopped))) = Some Ready_Instance"
proof -
  let ?s = "demo_running (Some J_Null) Stopped"
  obtain r s' where run: "update_config demo_env [105] [] ?s = (r, s')" by (cases "update_config demo_env [105] [] ?s")
  have code: "cell_code (ph_cells ?s ! 0) = demo_code True (Some J_Null)" by (simp add: demo_running_def)
  have "r \<noteq> Inl Task_Dropped"
    using run demo_found [of "Some J_Null" Stopped]
    by (auto simp: update_config_def at_cell_def Let_def code update_plugin_config_def drain_step hbind_def hcatch_def
        begin_draining_def hsleep_def demo_env_def quiet_await hread_def check_config_schema_def ready_again_def set_state_def hraise_def
        hdone_def demo_refusal [unfolded demo_env_def] simp del: lit_Cons split: prod.splits)
  from refused_config_revives [OF run demo_found demo_refusal [folded code] this]
  show ?thesis using run by (simp add: instance_state_of_def demo_found) (simp add: demo_running_def)
qed

lemma shutdown_settles_witness:
  "wt_handles (h_workers (ph_host (snd (shutdown demo_env (demo_running None Ready_Instance))))) = []"
proof -
  let ?s = "demo_running None Ready_Instance"
  obtain r s' where run: "shutdown demo_env ?s = (r, s')" by (cases "shutdown demo_env ?s")
  have "r \<noteq> Inl Task_Dropped"
    using run
    by (auto simp: shutdown_def stop_schedulers_def Let_def demo_running_def at_cell_def shutdown_plugin_def hread_def
        hbind_def hcatch_def begin_draining_def hsleep_def demo_env_def quiet_await supervised_shutdown_def supervised_def
        set_state_def remove_assets_def see_cell_def leave_cell_def demo_code_def demo_guest_def hdone_def
        supervised_result_def split: prod.splits)
  from shutdown_settles [OF demo_env_idle run this] run show ?thesis by simp
qed

lemma demo_upgrade_fails:
  "fst (upgrade demo_env [105] (demo_code False None) [] {} [] (demo_running None Ready_Instance)) =
     Inl (Init_Failed (mf_id demo_manifest) (plugin_text quiet_libs (Transient [])))"
proof -
  have valid: "validate_manifest demo_libs demo_manifest = None" by code_simp
  have names: "command_names_of demo_manifest = []" by (simp add: command_names_of_def demo_manifest_def)
  have check: "check_upgrade demo_env 0 (demo_code False None) (demo_running None Ready_Instance) = None"
    by (simp add: check_upgrade_def check_manifest_def demo_env_def demo_code_def demo_running_def new_plugin_def valid
        validate_upgrade_commands_def names Let_def)
  have cell: "cell_plugin (ph_cells (demo_running None Ready_Instance) ! 0) = new_plugin (demo_code True None) [105] {} []"
    "sp_guest (cell_code (ph_cells (demo_running None Ready_Instance) ! 0)) = demo_guest True"
    by (simp_all add: demo_running_def demo_code_def)
  have state: "db_state (h_db (see_cell c (demo_running None Ready_Instance))) = []"
    "db_schedules (h_db (see_cell c (demo_running None Ready_Instance))) = []"
    "wt_handles (h_workers (see_cell c (demo_running None Ready_Instance))) = []" for c
    by (simp_all add: see_cell_def demo_running_def demo_host_def empty_db_def)
  have await: "supervised quiet_libs who err call h =
      (case call (h_world h) of (x, w) \<Rightarrow> (supervised_result who err x, h\<lparr>h_world := w\<rparr>))" for who err h and call :: "nat \<Rightarrow> unit supervised \<times> nat"
    by (simp add: supervised_def hbind_def quiet_await hdone_def split: prod.split)
  have sleep: "hsleep quiet_libs h = (Inr (), h)" for h by (simp add: hsleep_def quiet_await)
  have replaced: "fst (replace_plugin quiet_libs (new_plugin (demo_code True None) [105] {} []) (demo_guest True)
      (new_plugin (demo_code False None) [105] {} []) (demo_guest False) [] h) =
      Inl (Init_Failed (mf_id demo_manifest) (plugin_text quiet_libs (Transient [])))"
    if "db_state (h_db h) = []" "db_schedules (h_db h) = []" for h :: "nat host_state"
    using that
    by (simp add: replace_plugin_def Let_def begin_draining_def sleep hread_def pause_plugin_schedules_def
        hbind_def hcatch_def supervised_shutdown_def supervised_init_def await start_candidate_def migrate_candidate_def
        new_plugin_def demo_code_def demo_guest_def supervised_result_def hdone_def rollback_upgrade_def hstore_def
        replace_state_def snapshot_def requeue_firing_schedules_def sql_update_def set_state_def hraise_def
        recover_plugin_schedules_def hsql_def recover_schedules_def schedules_of_def plugin_id_of_def)
  have parts: "he_libs demo_env = quiet_libs" "sp_guest (demo_code b sc) = demo_guest b"
    "sp_manifest (demo_code b sc) = demo_manifest" "validate_config_schema E (demo_code b None) who c = None"
    for b sc who c and E :: "(nat, 'e) host_env"
    by (simp_all add: demo_env_def demo_code_def validate_config_schema_def)
  let ?s = "demo_running None Ready_Instance"
  let ?h = "see_cell (ph_cells ?s ! 0) ?s"
  have validated: "supervised_validate_config quiet_libs demo_manifest (demo_guest False) [] ?h = (Inr (), ?h)"
    by (simp add: supervised_validate_config_def await demo_guest_def supervised_result_def)
  obtain h where "replace_plugin quiet_libs (new_plugin (demo_code True None) [105] {} []) (demo_guest True)
      (new_plugin (demo_code False None) [105] {} []) (demo_guest False) [] ?h =
      (Inl (Init_Failed (mf_id demo_manifest) (plugin_text quiet_libs (Transient []))), h)"
    using replaced [OF state(1,2)] by (metis prod.collapse)
  with validated show ?thesis
    by (simp add: upgrade_def Let_def demo_found at_cell_def check hcheck_def hbind_def hdone_def check_config_schema_def
        parts cell)
qed

lemma failed_upgrade_rolls_back_witness:
  "\<exists>s'. upgrade demo_env [105] (demo_code False None) [] {} [] (demo_running None Ready_Instance) =
       (Inl (Init_Failed (mf_id demo_manifest) (plugin_text quiet_libs (Transient []))), s') \<and>
     instance_state_of [105] s' \<noteq> Some Draining \<and> private_state [105] (h_db (ph_host s')) = (\<lambda>_. None)"
proof -
  let ?s = "demo_running None Ready_Instance"
  obtain s' where run: "upgrade demo_env [105] (demo_code False None) [] {} [] ?s =
      (Inl (Init_Failed (mf_id demo_manifest) (plugin_text quiet_libs (Transient []))), s')"
    using demo_upgrade_fails by (metis prod.collapse)
  have sound: "sound_db (h_db (ph_host ?s))"
    using demo_host_wf by (simp add: sound_db_def valid_keys_def demo_running_def demo_host_def empty_db_def)
  have spared: "spares (he_libs demo_env) [105]" "no_drain (he_libs demo_env)"
    by (simp_all add: spares_def no_drain_def demo_env_def quiet_libs_def demo_host_libs_def)
  have "instance_state_of [105] ?s = Some Ready_Instance" by (simp add: instance_state_of_def demo_found) (simp add: demo_running_def)
  moreover have "private_state [105] (h_db (ph_host ?s)) = (\<lambda>_. None)"
    by (simp add: private_state_def demo_running_def demo_host_def empty_db_def hm_get_def fun_eq_iff)
  ultimately show ?thesis
    using failed_upgrade_rolls_back [OF run _ sound spared] run by simp
qed

end
