(* ===== verification/PluginGate.thy ===== *)
theory PluginGate
  imports PluginHost PluginManifestProps
begin

text \<open>
  The gate of a plugin (\<open>InvocationGate\<close> of \<open>crates/plugin-host/src/runtime/mod.rs\<close>) and the lifecycle that its
  invocations are checked against. A step system: an invocation asks for the lock of its partition, then for a
  permit, is checked and handled; a change of lifecycle starts draining and asks for all permits; every one of
  them may be dropped at any time. Which waiter gets a free lock or permit is left open, so that nothing rests
  on the fairness of the semaphore.
\<close>

section \<open>State\<close>

text \<open>A lock is a number; an invocation that has the lock of its partition names it.\<close>

datatype gate_phase =
    Waits_Lock nat
  | Waits_Permit "nat option"
  | Entered "nat option"
  | Handling "nat option"
  | Waits_Exclusive
  | Exclusive_Held

text \<open>
  An invocation by \<open>dispatch\<close> remembers the generation it saw; one of a scheduled task does not. How many changes
  of lifecycle had begun when it was queued and when it was admitted is kept beside it, for the statements.
\<close>

record gate_call =
  gc_key :: ustr
  gc_generation :: "u64 option"
  gc_phase :: gate_phase
  gc_queued :: nat
  gc_admitted :: nat

record gate =
  gt_mode :: runtime_mode
  gt_max :: nat
  gt_permits :: nat
  gt_registry :: "(ustr, nat) hmap"
  gt_next_lock :: nat
  gt_life :: lifecycle
  gt_changes :: nat
  gt_calls :: "(nat, gate_call) hmap"

definition new_gate :: "plugin_manifest \<Rightarrow> lifecycle \<Rightarrow> gate" where
  "new_gate m life =
     (let n = (if rc_mode (mf_runtime m) = Mode_Serial then 1 else unat (rc_max_concurrency (mf_runtime m)))
      in \<lparr>gt_mode = rc_mode (mf_runtime m), gt_max = n, gt_permits = n, gt_registry = [], gt_next_lock = 0,
          gt_life = life, gt_changes = 0, gt_calls = []\<rparr>)"

section \<open>Operations\<close>

text \<open>The \<open>Arc\<close> of a lock is held by who waits for it and by who has it.\<close>

fun phase_uses :: "nat \<Rightarrow> gate_phase \<Rightarrow> bool" where
  "phase_uses l (Waits_Lock k) = (k = l)"
| "phase_uses l (Waits_Permit p) = (p = Some l)"
| "phase_uses l (Entered p) = (p = Some l)"
| "phase_uses l (Handling p) = (p = Some l)"
| "phase_uses l _ = False"

definition phase_holds :: "nat \<Rightarrow> gate_phase \<Rightarrow> bool" where
  "phase_holds l ph \<longleftrightarrow> phase_uses l ph \<and> ph \<noteq> Waits_Lock l"

definition lock_used :: "nat \<Rightarrow> gate \<Rightarrow> bool" where
  "lock_used l s \<longleftrightarrow> list_ex (\<lambda>x. phase_uses l (gc_phase (snd x))) (gt_calls s)"

definition lock_held :: "nat \<Rightarrow> gate \<Rightarrow> bool" where
  "lock_held l s \<longleftrightarrow> list_ex (\<lambda>x. phase_holds l (gc_phase (snd x))) (gt_calls s)"

text \<open>The lock of a partition: locks that nobody uses are forgotten, the one of the key is found or made.\<close>

definition partition_lock :: "ustr \<Rightarrow> gate \<Rightarrow> nat \<times> gate" where
  "partition_lock key s =
     (let live = filter (\<lambda>x. lock_used (snd x) s) (gt_registry s)
      in case hm_get live key of
           Some l \<Rightarrow> (l, s\<lparr>gt_registry := live\<rparr>)
         | None \<Rightarrow>
             (gt_next_lock s,
              s\<lparr>gt_registry := hm_put key (gt_next_lock s) live, gt_next_lock := gt_next_lock s + 1\<rparr>))"

definition put_call :: "nat \<Rightarrow> gate_call \<Rightarrow> gate \<Rightarrow> gate" where
  "put_call n c s = s\<lparr>gt_calls := hm_put n c (gt_calls s)\<rparr>"

text \<open>\<open>acquire\<close> up to its first await.\<close>

definition gate_acquire :: "nat \<Rightarrow> ustr \<Rightarrow> u64 option \<Rightarrow> gate \<Rightarrow> gate" where
  "gate_acquire n key g s =
     (let c = \<lparr>gc_key = key, gc_generation = g, gc_phase = Waits_Permit None, gc_queued = gt_changes s, gc_admitted = 0\<rparr>
      in if gt_mode s = Mode_Partitioned
         then (case partition_lock key s of (l, s1) \<Rightarrow> put_call n (c\<lparr>gc_phase := Waits_Lock l\<rparr>) s1)
         else put_call n c s)"

definition gate_begin_change :: "nat \<Rightarrow> gate \<Rightarrow> gate" where
  "gate_begin_change n s =
     put_call n \<lparr>gc_key = [], gc_generation = None, gc_phase = Waits_Exclusive, gc_queued = gt_changes s + 1, gc_admitted = 0\<rparr>
       (s\<lparr>gt_life := \<lparr>lc_state = Draining, lc_generation = lc_generation (gt_life s) + 1\<rparr>,
          gt_changes := gt_changes s + 1\<rparr>)"

text \<open>The check after the gate: of the generation for \<open>dispatch\<close>, of the state for a scheduled task.\<close>

definition gate_admits :: "gate_call \<Rightarrow> gate \<Rightarrow> bool" where
  "gate_admits c s \<longleftrightarrow>
     lc_state (gt_life s) = Ready_Instance \<and>
     (case gc_generation c of None \<Rightarrow> True | Some g \<Rightarrow> lc_generation (gt_life s) = g)"

text \<open>A future or a guard is dropped: its permits are given back.\<close>

definition phase_permits :: "nat \<Rightarrow> gate_phase \<Rightarrow> nat" where
  "phase_permits all ph =
     (case ph of Entered _ \<Rightarrow> 1 | Handling _ \<Rightarrow> 1 | Exclusive_Held \<Rightarrow> all | _ \<Rightarrow> 0)"

definition gate_drop :: "nat \<Rightarrow> gate_call \<Rightarrow> gate \<Rightarrow> gate" where
  "gate_drop n c s =
     s\<lparr>gt_calls := hm_del n (gt_calls s), gt_permits := gt_permits s + phase_permits (gt_max s) (gc_phase c)\<rparr>"

section \<open>Steps\<close>

inductive gate_step :: "gate \<Rightarrow> gate \<Rightarrow> bool" where
  queue_event: "\<lbrakk>hm_get (gt_calls s) n = None; lc_state (gt_life s) = Ready_Instance\<rbrakk> \<Longrightarrow>
     gate_step s (gate_acquire n key (Some (lc_generation (gt_life s))) s)"
| queue_schedule: "hm_get (gt_calls s) n = None \<Longrightarrow> gate_step s (gate_acquire n key None s)"
| get_lock: "\<lbrakk>hm_get (gt_calls s) n = Some c; gc_phase c = Waits_Lock l; \<not> lock_held l s\<rbrakk> \<Longrightarrow>
     gate_step s (put_call n (c\<lparr>gc_phase := Waits_Permit (Some l)\<rparr>) s)"
| get_permit: "\<lbrakk>hm_get (gt_calls s) n = Some c; gc_phase c = Waits_Permit p; 1 \<le> gt_permits s\<rbrakk> \<Longrightarrow>
     gate_step s (put_call n (c\<lparr>gc_phase := Entered p\<rparr>) (s\<lparr>gt_permits := gt_permits s - 1\<rparr>))"
| handle: "\<lbrakk>hm_get (gt_calls s) n = Some c; gc_phase c = Entered p; gate_admits c s\<rbrakk> \<Longrightarrow>
     gate_step s (put_call n (c\<lparr>gc_phase := Handling p, gc_admitted := gt_changes s\<rparr>) s)"
| begin_change: "hm_get (gt_calls s) n = None \<Longrightarrow> gate_step s (gate_begin_change n s)"
| get_exclusive: "\<lbrakk>hm_get (gt_calls s) n = Some c; gc_phase c = Waits_Exclusive; gt_max s \<le> gt_permits s\<rbrakk> \<Longrightarrow>
     gate_step s (put_call n (c\<lparr>gc_phase := Exclusive_Held\<rparr>) (s\<lparr>gt_permits := gt_permits s - gt_max s\<rparr>))"
| set_lifecycle: "st = Disabled \<or> (\<exists>n c. hm_get (gt_calls s) n = Some c \<and> gc_phase c = Exclusive_Held) \<Longrightarrow>
     gate_step s (s\<lparr>gt_life := (gt_life s)\<lparr>lc_state := st\<rparr>\<rparr>)"
| drop_call: "hm_get (gt_calls s) n = Some c \<Longrightarrow> gate_step s (gate_drop n c s)"

inductive gate_reachable :: "gate \<Rightarrow> gate \<Rightarrow> bool" for s0 where
  gate_initial: "gate_reachable s0 s0"
| gate_next: "gate_reachable s0 s \<Longrightarrow> gate_step s s' \<Longrightarrow> gate_reachable s0 s'"

section \<open>The invariant\<close>

inductive_cases gate_stepE: "gate_step s s'"

definition permits_taken :: "nat \<Rightarrow> (nat, gate_call) hmap \<Rightarrow> nat" where
  "permits_taken all calls = sum_list (map (\<lambda>x. phase_permits all (gc_phase (snd x))) calls)"

lemma taken_put_new: "hm_get m n = None \<Longrightarrow> permits_taken all (hm_put n c m) = permits_taken all m + phase_permits all (gc_phase c)"
  by (simp add: permits_taken_def hm_put_fresh)

lemma taken_put_old:
  "hm_get m n = Some c \<Longrightarrow> permits_taken all (hm_put n c' m) + phase_permits all (gc_phase c) =
     permits_taken all m + phase_permits all (gc_phase c')"
  by (induction m) (auto simp: hm_eval permits_taken_def)

lemma taken_del: "hm_wf m \<Longrightarrow> hm_get m n = Some c \<Longrightarrow> permits_taken all (hm_del n m) + phase_permits all (gc_phase c) = permits_taken all m"
proof (induction m)
  case (Cons x m)
  show ?case
  proof (cases "fst x = n")
    case True
    with Cons.prems have "hm_get m n = None" by (auto simp: hm_wf_def hm_get_None_iff)
    then have "hm_del n m = m" by (rule hm_del_absent)
    with Cons.prems True show ?thesis by (cases x) (simp add: hm_del_def hm_get_def permits_taken_def)
  next
    case False
    with Cons show ?thesis by (cases x) (simp add: hm_del_def hm_get_def hm_wf_def permits_taken_def)
  qed
qed (simp add: hm_get_def)

definition call_ok :: "u64 \<Rightarrow> gate \<Rightarrow> gate_call \<Rightarrow> bool" where
  "call_ok g0 s c \<longleftrightarrow>
     (\<forall>l. phase_uses l (gc_phase c) \<longrightarrow> hm_get (gt_registry s) (gc_key c) = Some l) \<and>
     (gt_mode s = Mode_Partitioned \<longrightarrow>
        (case gc_phase c of Waits_Permit p \<Rightarrow> p \<noteq> None | Entered p \<Rightarrow> p \<noteq> None | Handling p \<Rightarrow> p \<noteq> None | _ \<Rightarrow> True)) \<and>
     gc_queued c \<le> gt_changes s \<and>
     (case gc_generation c of None \<Rightarrow> True | Some g \<Rightarrow> g = g0 + of_nat (gc_queued c)) \<and>
     (case gc_phase c of
        Handling _ \<Rightarrow> gc_queued c \<le> gc_admitted c \<and> gc_admitted c \<le> gt_changes s \<and>
          (case gc_generation c of None \<Rightarrow> True | Some g \<Rightarrow> g = g0 + of_nat (gc_admitted c))
      | _ \<Rightarrow> True)"

text \<open>No two calls have the same lock.\<close>

definition locks_excl :: "(nat, gate_call) hmap \<Rightarrow> bool" where
  "locks_excl calls \<longleftrightarrow>
     (\<forall>n m c d l. hm_get calls n = Some c \<longrightarrow> hm_get calls m = Some d \<longrightarrow> m \<noteq> n \<longrightarrow>
        phase_holds l (gc_phase c) \<longrightarrow> \<not> phase_holds l (gc_phase d))"

definition locks_distinct :: "(ustr, nat) hmap \<Rightarrow> nat \<Rightarrow> bool" where
  "locks_distinct r n \<longleftrightarrow>
     (\<forall>k l. hm_get r k = Some l \<longrightarrow> l < n) \<and>
     (\<forall>k k' l. hm_get r k = Some l \<longrightarrow> hm_get r k' = Some l \<longrightarrow> k' = k)"

definition gate_inv :: "u64 \<Rightarrow> gate \<Rightarrow> bool" where
  "gate_inv g0 s \<longleftrightarrow>
     hm_wf (gt_calls s) \<and> hm_wf (gt_registry s) \<and>
     gt_permits s + permits_taken (gt_max s) (gt_calls s) = gt_max s \<and>
     locks_distinct (gt_registry s) (gt_next_lock s) \<and>
     (\<forall>n c. hm_get (gt_calls s) n = Some c \<longrightarrow> call_ok g0 s c) \<and>
     locks_excl (gt_calls s) \<and>
     (gt_mode s = Mode_Serial \<longrightarrow> gt_max s = 1) \<and>
     lc_generation (gt_life s) = g0 + of_nat (gt_changes s)"

lemma used_iff: "hm_wf (gt_calls s) \<Longrightarrow>
    lock_used l s \<longleftrightarrow> (\<exists>n c. hm_get (gt_calls s) n = Some c \<and> phase_uses l (gc_phase c))"
  by (force simp: lock_used_def list_ex_iff hm_get_def hm_wf_def)

lemma held_iff: "hm_wf (gt_calls s) \<Longrightarrow>
    lock_held l s \<longleftrightarrow> (\<exists>n c. hm_get (gt_calls s) n = Some c \<and> phase_holds l (gc_phase c))"
  by (force simp: lock_held_def list_ex_iff hm_get_def hm_wf_def)

lemma get_filter: "hm_wf m \<Longrightarrow> hm_get (filter (\<lambda>x. P (snd x)) m) k =
    (case hm_get m k of None \<Rightarrow> None | Some v \<Rightarrow> if P v then Some v else None)"
proof (induction m)
  case (Cons x m)
  show ?case
  proof (cases "fst x = k")
    case True
    with Cons.prems have "hm_get m k = None" by (auto simp: hm_wf_def hm_get_None_iff)
    with Cons True show ?thesis by (cases x) (auto simp: hm_get_def hm_wf_def)
  next
    case False
    with Cons show ?thesis by (cases x) (auto simp: hm_get_def hm_wf_def)
  qed
qed (simp add: hm_get_def)

lemma gate_inv_new:
  "gate_inv (lc_generation life) (new_gate m life)"
  by (auto simp: gate_inv_def new_gate_def hm_simps hm_wf_def hm_get_def permits_taken_def locks_distinct_def
      locks_excl_def Let_def)

lemma put_frame [simp]:
  "gt_mode (put_call n c s) = gt_mode s" "gt_max (put_call n c s) = gt_max s" "gt_permits (put_call n c s) = gt_permits s"
  "gt_registry (put_call n c s) = gt_registry s" "gt_next_lock (put_call n c s) = gt_next_lock s"
  "gt_life (put_call n c s) = gt_life s" "gt_changes (put_call n c s) = gt_changes s"
  "gt_calls (put_call n c s) = hm_put n c (gt_calls s)"
  by (simp_all add: put_call_def)

lemma locks_excl_put:
  assumes "hm_wf m" "locks_excl m" "\<And>k d l. hm_get m k = Some d \<Longrightarrow> k \<noteq> n \<Longrightarrow> phase_holds l (gc_phase c) \<Longrightarrow> \<not> phase_holds l (gc_phase d)"
  shows "locks_excl (hm_put n c m)"
  using assms unfolding locks_excl_def by (auto simp: hm_simps split: if_splits)

lemma locks_excl_del: "locks_excl m \<Longrightarrow> hm_wf m \<Longrightarrow> locks_excl (hm_del n m)"
  unfolding locks_excl_def by (auto simp: hm_simps split: if_splits)

text \<open>What a call needs of the gate only grows.\<close>

definition gate_grows :: "gate \<Rightarrow> gate \<Rightarrow> bool" where
  "gate_grows s s' \<longleftrightarrow> gt_mode s' = gt_mode s \<and> gt_changes s \<le> gt_changes s' \<and>
     (\<forall>l k. lock_used l s \<longrightarrow> hm_get (gt_registry s) k = Some l \<longrightarrow> hm_get (gt_registry s') k = Some l)"

lemma call_ok_grows:
  assumes "call_ok g0 s c" "gate_grows s s'" "\<And>l. phase_uses l (gc_phase c) \<Longrightarrow> lock_used l s"
  shows "call_ok g0 s' c"
  using assms unfolding call_ok_def gate_grows_def by (auto split: gate_phase.splits)

lemma call_ok_frame [simp]:
  "call_ok g0 (s\<lparr>gt_permits := p\<rparr>) c = call_ok g0 s c" "call_ok g0 (s\<lparr>gt_life := lf\<rparr>) c = call_ok g0 s c"
  "call_ok g0 (put_call n d s) c = call_ok g0 s c" "call_ok g0 (gate_drop n d s) c = call_ok g0 s c"
  by (simp_all add: call_ok_def gate_drop_def split: gate_phase.split)

text \<open>One call is put in, and the gate grows with it.\<close>

lemma gate_inv_put:
  assumes inv: "gate_inv g0 s" and grows: "gate_grows s s'" and new: "call_ok g0 s' c"
    and same: "gt_max s' = gt_max s" "gt_calls s' = gt_calls s" and wf: "hm_wf (gt_registry s')"
    and dist: "locks_distinct (gt_registry s') (gt_next_lock s')"
    and p: "gt_permits s' + permits_taken (gt_max s) (hm_put n c (gt_calls s)) = gt_max s"
    and gen: "lc_generation (gt_life s') = g0 + of_nat (gt_changes s')"
    and ex: "\<And>m d l. hm_get (gt_calls s) m = Some d \<Longrightarrow> m \<noteq> n \<Longrightarrow> phase_holds l (gc_phase c) \<Longrightarrow> \<not> phase_holds l (gc_phase d)"
  shows "gate_inv g0 (put_call n c s')"
proof -
  from inv have w: "hm_wf (gt_calls s)" by (simp add: gate_inv_def)
  have "call_ok g0 s' d" if "hm_get (gt_calls s) m = Some d" for m d
  proof (rule call_ok_grows)
    show "call_ok g0 s d" "gate_grows s s'" using inv that grows by (auto simp: gate_inv_def)
    show "lock_used l s" if "phase_uses l (gc_phase d)" for l
      using \<open>hm_get (gt_calls s) m = Some d\<close> that used_iff [OF w] by blast
  qed
  moreover have "gt_mode s' = gt_mode s" using grows by (simp add: gate_grows_def)
  moreover have "locks_excl (hm_put n c (gt_calls s))"
    using inv ex by (intro locks_excl_put) (auto simp: gate_inv_def)
  ultimately show ?thesis
    using inv new same wf dist p gen by (simp add: gate_inv_def hm_simps)
qed

text \<open>The registry: a lock that is used stays the one of its key, a forgotten one is never found again.\<close>

lemma partition_lock_keeps:
  assumes inv: "gate_inv g0 s" and l: "partition_lock k s = (l, s')"
  shows "gate_grows s s'" "hm_get (gt_registry s') k = Some l" "hm_wf (gt_registry s')"
    "locks_distinct (gt_registry s') (gt_next_lock s')"
    "\<exists>r n. s' = s\<lparr>gt_registry := r, gt_next_lock := n\<rparr>"
proof -
  let ?live = "filter (\<lambda>x. lock_used (snd x) s) (gt_registry s)"
  from inv have w: "hm_wf (gt_registry s)" and d: "locks_distinct (gt_registry s) (gt_next_lock s)"
    by (simp_all add: gate_inv_def)
  have wl: "hm_wf ?live" using w by (auto simp: hm_wf_def distinct_map inj_on_def)
  have g: "hm_get ?live k' = Some v \<longleftrightarrow> hm_get (gt_registry s) k' = Some v \<and> lock_used v s" for k' v
    using get_filter [OF w, of "\<lambda>v. lock_used v s"] by (auto split: option.splits)
  have dl: "locks_distinct ?live (gt_next_lock s)" using d by (auto simp: locks_distinct_def g)
  have "gate_grows s s' \<and> hm_get (gt_registry s') k = Some l \<and> hm_wf (gt_registry s') \<and>
      locks_distinct (gt_registry s') (gt_next_lock s') \<and> (\<exists>r n. s' = s\<lparr>gt_registry := r, gt_next_lock := n\<rparr>)"
  proof (cases "hm_get ?live k")
    case None
    then have l': "l = gt_next_lock s"
      and s': "s' = s\<lparr>gt_registry := hm_put k (gt_next_lock s) ?live, gt_next_lock := gt_next_lock s + 1\<rparr>"
      using l by (auto simp: partition_lock_def Let_def)
    have "locks_distinct (gt_registry s') (gt_next_lock s')"
      using dl wl unfolding locks_distinct_def s' by (auto simp: hm_simps less_Suc_eq)
    moreover have "hm_get (gt_registry s) k = Some v \<Longrightarrow> \<not> lock_used v s" for v
      using g [of k v] None by simp
    then have "gate_grows s s'"
      using wl g unfolding gate_grows_def s' by (auto simp: hm_simps)
    ultimately show ?thesis using wl unfolding l' s' by (auto simp: hm_simps)
  next
    case (Some l0)
    then have "l0 = l" and s': "s' = s\<lparr>gt_registry := ?live\<rparr>" using l by (auto simp: partition_lock_def Let_def)
    then have r: "s' = s\<lparr>gt_registry := ?live, gt_next_lock := gt_next_lock s\<rparr>" by simp
    have "gate_grows s s'" unfolding gate_grows_def s' by (simp add: g)
    with r Some \<open>l0 = l\<close> wl dl s' show ?thesis by (metis gate.select_convs(4,5) gate.surjective gate.update_convs(4,5))
  qed
  then show "gate_grows s s'" "hm_get (gt_registry s') k = Some l" "hm_wf (gt_registry s')"
    "locks_distinct (gt_registry s') (gt_next_lock s')"
    "\<exists>r n. s' = s\<lparr>gt_registry := r, gt_next_lock := n\<rparr>" by blast+
qed

lemma gate_grows_refl [simp]: "gate_grows s s"
  by (simp add: gate_grows_def)

section \<open>Every step keeps it\<close>

lemma acquire_keeps:
  assumes inv: "gate_inv g0 s" and new: "hm_get (gt_calls s) n = None"
    and g: "case g of None \<Rightarrow> True | Some v \<Rightarrow> v = lc_generation (gt_life s)"
  shows "gate_inv g0 (gate_acquire n key g s)"
proof (cases "gt_mode s = Mode_Partitioned")
  case True
  obtain l s1 where l: "partition_lock key s = (l, s1)" by fastforce
  note keeps = partition_lock_keeps [OF inv l]
  obtain r k where s1: "s1 = s\<lparr>gt_registry := r, gt_next_lock := k\<rparr>" using keeps by blast
  show ?thesis
    unfolding gate_acquire_def Let_def l if_P [OF True] prod.case
    by (rule gate_inv_put [OF inv keeps(1)])
      (use inv new g keeps(2-4) in \<open>auto simp: s1 call_ok_def gate_inv_def taken_put_new phase_permits_def phase_holds_def
         split: option.splits\<close>)
next
  case False
  show ?thesis
    unfolding gate_acquire_def Let_def if_not_P [OF False]
    by (rule gate_inv_put [OF inv gate_grows_refl])
      (use inv new g False in \<open>auto simp: call_ok_def gate_inv_def taken_put_new phase_permits_def phase_holds_def
         split: option.splits\<close>)
qed

lemma begin_change_keeps:
  assumes inv: "gate_inv g0 s" and new: "hm_get (gt_calls s) n = None"
  shows "gate_inv g0 (gate_begin_change n s)"
  unfolding gate_begin_change_def
  by (rule gate_inv_put [OF inv])
    (use inv new in \<open>auto simp: gate_grows_def call_ok_def gate_inv_def taken_put_new phase_permits_def phase_holds_def\<close>)

text \<open>A call moves to its next phase: it keeps its lock, and the permits follow.\<close>

lemma move_keeps:
  assumes inv: "gate_inv g0 s" and c: "hm_get (gt_calls s) n = Some c"
    and ok: "call_ok g0 s (c\<lparr>gc_phase := ph, gc_admitted := a\<rparr>)"
    and p: "p + phase_permits (gt_max s) ph = gt_permits s + phase_permits (gt_max s) (gc_phase c)"
    and ex: "\<And>l. phase_holds l ph \<Longrightarrow> phase_holds l (gc_phase c) \<or> \<not> lock_held l s"
  shows "gate_inv g0 (put_call n (c\<lparr>gc_phase := ph, gc_admitted := a\<rparr>) (s\<lparr>gt_permits := p\<rparr>))"
proof (rule gate_inv_put [OF inv])
  let ?c = "c\<lparr>gc_phase := ph, gc_admitted := a\<rparr>"
  have w: "hm_wf (gt_calls s)" and lx: "locks_excl (gt_calls s)"
    and t: "gt_permits s + permits_taken (gt_max s) (gt_calls s) = gt_max s" using inv by (simp_all add: gate_inv_def)
  show "gate_grows s (s\<lparr>gt_permits := p\<rparr>)" by (simp add: gate_grows_def)
  show "call_ok g0 (s\<lparr>gt_permits := p\<rparr>) ?c" using ok by simp
  show "gt_permits (s\<lparr>gt_permits := p\<rparr>) + permits_taken (gt_max s) (hm_put n ?c (gt_calls s)) = gt_max s"
    using taken_put_old [OF c, of "gt_max s" ?c] t p by simp
  show "\<not> phase_holds l (gc_phase d)"
    if "hm_get (gt_calls s) m = Some d" "m \<noteq> n" "phase_holds l (gc_phase ?c)" for m d l
  proof -
    from that have "phase_holds l ph" by simp
    then consider "phase_holds l (gc_phase c)" | "\<not> lock_held l s" using ex by blast
    then show ?thesis
      using lx c that(1,2) held_iff [OF w, of l] unfolding locks_excl_def by cases blast+
  qed
qed (use inv in \<open>auto simp: gate_inv_def\<close>)

lemma life_keeps:
  assumes "gate_inv g0 s"
  shows "gate_inv g0 (s\<lparr>gt_life := (gt_life s)\<lparr>lc_state := st\<rparr>\<rparr>)"
  using assms by (simp add: gate_inv_def)

lemma drop_keeps:
  assumes inv: "gate_inv g0 s" and c: "hm_get (gt_calls s) n = Some c"
  shows "gate_inv g0 (gate_drop n c s)"
proof -
  have "hm_wf (gt_calls s)" using inv by (simp add: gate_inv_def)
  then show ?thesis
    using inv taken_del [OF _ c, of "gt_max s"] unfolding gate_inv_def call_ok_frame
    by (auto simp: gate_drop_def hm_simps locks_excl_del split: if_splits)
qed

lemma gate_step_keeps: "gate_step s s' \<Longrightarrow> gate_inv g0 s \<Longrightarrow> gate_inv g0 s'"
proof (induction rule: gate_step.induct)
  case (queue_event s n key)
  then show ?case by (intro acquire_keeps) simp_all
next
  case (queue_schedule s n key)
  then show ?case by (intro acquire_keeps) simp_all
next
  case (get_lock s n c l)
  then have "call_ok g0 s c" by (auto simp: gate_inv_def)
  with get_lock show ?case
    using move_keeps [where ?g0.0 = g0 and s = s and n = n and c = c and ph = "Waits_Permit (Some l)" and a = "gc_admitted c" and p = "gt_permits s"]
    by (auto simp: call_ok_def phase_permits_def phase_holds_def split: option.splits)
next
  case (get_permit s n c p)
  then have "call_ok g0 s c" by (auto simp: gate_inv_def)
  with get_permit show ?case
    using move_keeps [where ?g0.0 = g0 and s = s and n = n and c = c and ph = "Entered p" and a = "gc_admitted c" and p = "gt_permits s - 1"]
    by (auto simp: call_ok_def phase_permits_def phase_holds_def split: option.splits)
next
  case (handle s n c p)
  then have "call_ok g0 s c" "lc_generation (gt_life s) = g0 + of_nat (gt_changes s)" by (auto simp: gate_inv_def)
  with handle show ?case
    using move_keeps [where ?g0.0 = g0 and s = s and n = n and c = c and ph = "Handling p" and a = "gt_changes s" and p = "gt_permits s"]
    by (auto simp: call_ok_def phase_permits_def phase_holds_def gate_admits_def split: option.splits)
next
  case (begin_change s n)
  then show ?case by (intro begin_change_keeps)
next
  case (get_exclusive s n c)
  then have "call_ok g0 s c" by (auto simp: gate_inv_def)
  with get_exclusive show ?case
    using move_keeps [where ?g0.0 = g0 and s = s and n = n and c = c and ph = "Exclusive_Held" and a = "gc_admitted c" and p = "gt_permits s - gt_max s"]
    by (auto simp: call_ok_def phase_permits_def phase_holds_def split: option.splits)
next
  case (set_lifecycle s st)
  then show ?case by (intro life_keeps)
next
  case (drop_call s n c)
  then show ?case by (intro drop_keeps)
qed

lemma gate_reachable_inv:
  assumes "gate_reachable (new_gate m life) s"
  shows "gate_inv (lc_generation life) s"
  using assms by induction (auto intro: gate_inv_new gate_step_keeps)

section \<open>Properties\<close>

definition phase_inside :: "gate_phase \<Rightarrow> bool" where
  "phase_inside ph = (case ph of Entered _ \<Rightarrow> True | Handling _ \<Rightarrow> True | _ \<Rightarrow> False)"

definition calls_inside :: "gate \<Rightarrow> nat" where
  "calls_inside s = hm_count (\<lambda>c. phase_inside (gc_phase c)) (gt_calls s)"

definition exclusive_call :: "nat \<Rightarrow> gate \<Rightarrow> bool" where
  "exclusive_call n s \<longleftrightarrow> (case hm_get (gt_calls s) n of Some c \<Rightarrow> gc_phase c = Exclusive_Held | None \<Rightarrow> False)"

lemma inside_taken: "hm_count (\<lambda>c. phase_inside (gc_phase c)) m \<le> permits_taken all m"
  by (induction m) (auto simp: hm_count_def permits_taken_def phase_permits_def phase_inside_def split: gate_phase.splits)

lemma taken_exclusive:
  assumes "hm_wf m" "hm_get m n = Some c" "gc_phase c = Exclusive_Held" "permits_taken all m \<le> all" "0 < all"
    and "hm_get m k = Some d" "k \<noteq> n"
  shows "\<not> phase_inside (gc_phase d)" "gc_phase d \<noteq> Exclusive_Held"
proof -
  have "permits_taken all (hm_del n m) = 0"
    using taken_del [OF assms(1,2), of all] assms(3,4) by (simp add: phase_permits_def)
  moreover have "hm_get (hm_del n m) k = Some d" using assms by (simp add: hm_simps)
  then have "phase_permits all (gc_phase d) + permits_taken all (hm_del k (hm_del n m)) = permits_taken all (hm_del n m)"
    using taken_del [of "hm_del n m" k d all] assms(1) by (simp add: hm_simps)
  ultimately have "phase_permits all (gc_phase d) = 0" by simp
  with assms(5) show "\<not> phase_inside (gc_phase d)" "gc_phase d \<noteq> Exclusive_Held"
    by (auto simp: phase_permits_def phase_inside_def split: gate_phase.splits)
qed

lemma reachable_same:
  "gate_reachable s0 s \<Longrightarrow> gt_mode s = gt_mode s0 \<and> gt_max s = gt_max s0"
proof (induction rule: gate_reachable.induct)
  case (gate_next s s')
  have "gt_mode s' = gt_mode s \<and> gt_max s' = gt_max s" using gate_next.hyps(2)
    by cases (auto simp: gate_acquire_def partition_lock_def gate_begin_change_def gate_drop_def Let_def
        split: prod.splits option.splits)
  with gate_next.IH show ?case by simp
qed simp

lemma partition_distinct:
  assumes inv: "gate_inv g0 s" and mode: "gt_mode s = Mode_Partitioned" and nm: "n \<noteq> k"
    and c: "hm_get (gt_calls s) n = Some c" "phase_inside (gc_phase c)"
    and d: "hm_get (gt_calls s) k = Some d" "phase_inside (gc_phase d)"
  shows "gc_key c \<noteq> gc_key d"
proof
  assume eq: "gc_key c = gc_key d"
  have held: "\<exists>l. phase_holds l (gc_phase x) \<and> hm_get (gt_registry s) (gc_key x) = Some l"
    if "hm_get (gt_calls s) i = Some x" "phase_inside (gc_phase x)" for i x
  proof -
    from inv that have ok: "call_ok g0 s x" by (simp add: gate_inv_def)
    with that(2) mode obtain l where "gc_phase x = Entered (Some l) \<or> gc_phase x = Handling (Some l)"
      by (auto simp: call_ok_def phase_inside_def split: gate_phase.splits)
    then have "phase_uses l (gc_phase x)" "phase_holds l (gc_phase x)" by (auto simp: phase_holds_def)
    with ok show ?thesis by (auto simp: call_ok_def)
  qed
  from held [OF c] held [OF d] eq obtain l where "phase_holds l (gc_phase c)" "phase_holds l (gc_phase d)" by auto
  with inv c(1) d(1) nm show False unfolding gate_inv_def locks_excl_def by metis
qed

text \<open>[C15] The gate of a plugin whose manifest is valid, in every state it can reach: no more invocations are inside
  than the manifest allows, one for a serial plugin; in the partitioned mode no two that are inside have the same
  partition; and while a change of lifecycle has the gate, nothing else is inside and no other change has it.
\<close>

theorem gate_exclusion:
  assumes "validate_manifest L m = None" "gate_reachable (new_gate m life) s"
  shows "calls_inside s \<le> unat (rc_max_concurrency (mf_runtime m)) \<and>
    (rc_mode (mf_runtime m) = Mode_Serial \<longrightarrow> calls_inside s \<le> 1) \<and>
    (rc_mode (mf_runtime m) = Mode_Partitioned \<longrightarrow>
       (\<forall>n k c d. n \<noteq> k \<longrightarrow> hm_get (gt_calls s) n = Some c \<longrightarrow> phase_inside (gc_phase c) \<longrightarrow>
          hm_get (gt_calls s) k = Some d \<longrightarrow> phase_inside (gc_phase d) \<longrightarrow> gc_key c \<noteq> gc_key d)) \<and>
    (\<forall>n. exclusive_call n s \<longrightarrow>
       calls_inside s = 0 \<and> (\<forall>k. exclusive_call k s \<longrightarrow> k = n))"
proof -
  let ?r = "mf_runtime m"
  have pos: "0 < rc_max_concurrency ?r"
    using assms(1) by (simp add: validate_manifest_None runtime_within_limits_def)
  then have pos': "0 < unat (rc_max_concurrency ?r)" by (simp add: unat_gt_0 word_gt_0)
  note inv = gate_reachable_inv [OF assms(2)]
  from reachable_same [OF assms(2)] have mode: "gt_mode s = rc_mode ?r"
    and all: "gt_max s = (if rc_mode ?r = Mode_Serial then 1 else unat (rc_max_concurrency ?r))"
    by (simp_all add: new_gate_def Let_def)
  have le: "permits_taken (gt_max s) (gt_calls s) \<le> gt_max s" using inv by (simp add: gate_inv_def)
  have inside: "calls_inside s \<le> gt_max s"
    using inside_taken [of "gt_calls s" "gt_max s"] le by (simp add: calls_inside_def)
  have wf: "hm_wf (gt_calls s)" using inv by (simp add: gate_inv_def)
  have ex: "\<not> phase_inside (gc_phase d) \<and> (exclusive_call k s \<longrightarrow> k = n)"
    if "exclusive_call n s" "hm_get (gt_calls s) k = Some d" for n k d
  proof -
    from that(1) obtain c where c: "hm_get (gt_calls s) n = Some c" "gc_phase c = Exclusive_Held"
      by (auto simp: exclusive_call_def split: option.splits)
    have "0 < gt_max s" using pos' by (simp add: all)
    with taken_exclusive [OF wf c le _ that(2)] c that(2) show ?thesis
      by (cases "k = n") (auto simp: exclusive_call_def phase_inside_def)
  qed
  have none: "calls_inside s = 0" if "exclusive_call n s" for n
    using ex [OF that] wf
    by (auto simp: calls_inside_def hm_count_def filter_empty_conv hm_get_def hm_wf_def)
  have "exclusive_call k s \<Longrightarrow> k = n" if "exclusive_call n s" for n k
    using ex [OF that, of k] by (auto simp: exclusive_call_def split: option.splits)
  with inside none partition_distinct [OF inv] show ?thesis
    using pos' by (auto simp: all mode split: if_splits)
qed

text \<open>A run: two events of different partitions are handled by one plugin with two permits.\<close>

definition part_manifest :: plugin_manifest where
  "part_manifest = demo_manifest\<lparr>mf_runtime :=
     default_runtime_config\<lparr>rc_mode := Mode_Partitioned, rc_max_concurrency := 2\<rparr>\<rparr>"

definition part_call :: "nat \<Rightarrow> gate_phase \<Rightarrow> gate_call" where
  "part_call k ph = \<lparr>gc_key = [k], gc_generation = Some 0, gc_phase = ph, gc_queued = 0, gc_admitted = 0\<rparr>"

definition part_gate :: "nat \<Rightarrow> (ustr \<times> nat) list \<Rightarrow> (nat \<times> gate_call) list \<Rightarrow> gate" where
  "part_gate p r calls = \<lparr>gt_mode = Mode_Partitioned, gt_max = 2, gt_permits = p, gt_registry = r,
     gt_next_lock = length r, gt_life = \<lparr>lc_state = Ready_Instance, lc_generation = 0\<rparr>, gt_changes = 0, gt_calls = calls\<rparr>"

lemma part_new: "new_gate part_manifest \<lparr>lc_state = Ready_Instance, lc_generation = 0\<rparr> = part_gate 2 [] []"
  by (simp add: new_gate_def part_manifest_def part_gate_def default_runtime_config_def)

lemmas part_defs = part_gate_def part_call_def put_call_def gate_admits_def lock_held_def phase_holds_def hm_eval

definition part_pair :: "nat \<Rightarrow> gate_phase \<Rightarrow> gate_phase \<Rightarrow> gate" where
  "part_pair p a b = part_gate p [([1], 0), ([2], 1)] [(0, part_call 1 a), (1, part_call 2 b)]"

lemma part_queued:
  "gate_step (part_gate 2 [] []) (part_gate 2 [([1], 0)] [(0, part_call 1 (Waits_Lock 0))])"
  "gate_step (part_gate 2 [([1], 0)] [(0, part_call 1 (Waits_Lock 0))]) (part_pair 2 (Waits_Lock 0) (Waits_Lock 1))"
  using queue_event [of "part_gate 2 [] []" 0 "[1]"]
    queue_event [of "part_gate 2 [([1], 0)] [(0, part_call 1 (Waits_Lock 0))]" 1 "[2]"]
  by (simp_all add: part_defs part_pair_def gate_acquire_def partition_lock_def lock_used_def)

lemma part_first:
  "gate_step (part_pair 2 (Waits_Lock 0) (Waits_Lock 1)) (part_pair 2 (Waits_Permit (Some 0)) (Waits_Lock 1))"
  "gate_step (part_pair 2 (Waits_Permit (Some 0)) (Waits_Lock 1)) (part_pair 1 (Entered (Some 0)) (Waits_Lock 1))"
  "gate_step (part_pair 1 (Entered (Some 0)) (Waits_Lock 1)) (part_pair 1 (Handling (Some 0)) (Waits_Lock 1))"
  using get_lock [of "part_pair 2 (Waits_Lock 0) (Waits_Lock 1)" 0 "part_call 1 (Waits_Lock 0)" 0]
    get_permit [of "part_pair 2 (Waits_Permit (Some 0)) (Waits_Lock 1)" 0 "part_call 1 (Waits_Permit (Some 0))" "Some 0"]
    handle [of "part_pair 1 (Entered (Some 0)) (Waits_Lock 1)" 0 "part_call 1 (Entered (Some 0))" "Some 0"]
  by (simp_all add: part_defs part_pair_def)

lemma part_second:
  "gate_step (part_pair 1 (Handling (Some 0)) (Waits_Lock 1)) (part_pair 1 (Handling (Some 0)) (Waits_Permit (Some 1)))"
  "gate_step (part_pair 1 (Handling (Some 0)) (Waits_Permit (Some 1))) (part_pair 0 (Handling (Some 0)) (Entered (Some 1)))"
  "gate_step (part_pair 0 (Handling (Some 0)) (Entered (Some 1))) (part_pair 0 (Handling (Some 0)) (Handling (Some 1)))"
  using get_lock [of "part_pair 1 (Handling (Some 0)) (Waits_Lock 1)" 1 "part_call 2 (Waits_Lock 1)" 1]
    get_permit [of "part_pair 1 (Handling (Some 0)) (Waits_Permit (Some 1))" 1 "part_call 2 (Waits_Permit (Some 1))" "Some 1"]
    handle [of "part_pair 0 (Handling (Some 0)) (Entered (Some 1))" 1 "part_call 2 (Entered (Some 1))" "Some 1"]
  by (simp_all add: part_defs part_pair_def)

lemma part_waiting:
  "gate_reachable (new_gate part_manifest \<lparr>lc_state = Ready_Instance, lc_generation = 0\<rparr>)
     (part_pair 2 (Waits_Lock 0) (Waits_Lock 1))"
  unfolding part_new by (rule gate_next [OF gate_next [OF gate_initial part_queued(1)] part_queued(2)])

lemma part_both:
  "gate_reachable (new_gate part_manifest \<lparr>lc_state = Ready_Instance, lc_generation = 0\<rparr>)
     (part_pair 0 (Handling (Some 0)) (Handling (Some 1)))"
proof -
  note first = gate_next [OF gate_next [OF gate_next [OF part_waiting part_first(1)] part_first(2)] part_first(3)]
  show ?thesis
    by (rule gate_next [OF gate_next [OF gate_next [OF first part_second(1)] part_second(2)] part_second(3)])
qed

lemma part_valid: "validate_manifest demo_libs part_manifest = None"
  by code_simp

lemma gate_exclusion_witness:
  "calls_inside (part_pair 0 (Handling (Some 0)) (Handling (Some 1))) = 2 \<and>
   calls_inside (part_pair 0 (Handling (Some 0)) (Handling (Some 1))) \<le> unat (rc_max_concurrency (mf_runtime part_manifest))"
  using gate_exclusion [OF part_valid part_both]
  by (simp add: calls_inside_def hm_count_def part_pair_def part_gate_def part_call_def phase_inside_def)

text \<open>The generation is a fence: an event's invocation that is handled was queued and admitted with no change of
  lifecycle begun in between, as long as fewer than \<open>2^64\<close> changes have begun.
\<close>

theorem gate_fences:
  assumes "gate_reachable (new_gate m life) s" "gt_changes s < 2 ^ 64"
    and "hm_get (gt_calls s) n = Some c" "gc_phase c = Handling p" "gc_generation c = Some g"
  shows "gc_admitted c = gc_queued c \<and> g = lc_generation life + of_nat (gc_queued c)"
proof -
  have ok: "call_ok (lc_generation life) s c"
    using gate_reachable_inv [OF assms(1)] assms(3) by (simp add: gate_inv_def)
  then have g: "g = lc_generation life + of_nat (gc_queued c)" "g = lc_generation life + of_nat (gc_admitted c)"
    and le: "gc_queued c \<le> gc_admitted c" "gc_admitted c \<le> gt_changes s"
    using assms(4,5) unfolding call_ok_def by auto
  then have "(of_nat (gc_queued c) :: u64) = of_nat (gc_admitted c)" by (metis add_left_cancel)
  then have "unat (of_nat (gc_queued c) :: u64) = unat (of_nat (gc_admitted c) :: u64)" by simp
  then have "gc_queued c = gc_admitted c" using le assms(2) by (simp add: unat_of_nat)
  with g show ?thesis by simp
qed

lemma gate_fences_witness:
  "gc_admitted (part_call 2 (Handling (Some 1))) = gc_queued (part_call 2 (Handling (Some 1)))"
  using gate_fences [OF part_both, of 1 "part_call 2 (Handling (Some 1))" "Some 1" 0]
  by (simp add: part_pair_def part_gate_def part_call_def hm_get_def)

text \<open>The gate does not lock up: when a call waits, either some call is inside or has the gate, or a waiting call
  can go on now. The lock of a partition is taken before the permit and never the other way round.
\<close>

theorem gate_goes_on:
  assumes "validate_manifest L m = None" "gate_reachable (new_gate m life) s" "hm_get (gt_calls s) n = Some c"
  shows "(\<exists>k d. hm_get (gt_calls s) k = Some d \<and> (phase_inside (gc_phase d) \<or> gc_phase d = Exclusive_Held)) \<or>
    (\<exists>k d d' s'. gate_step s s' \<and> hm_get (gt_calls s) k = Some d \<and> hm_get (gt_calls s') k = Some d' \<and>
       ((\<exists>l. gc_phase d = Waits_Lock l \<and> gc_phase d' = Waits_Permit (Some l)) \<or>
        (\<exists>p. gc_phase d = Waits_Permit p \<and> gc_phase d' = Entered p) \<or>
        gc_phase d = Waits_Exclusive \<and> gc_phase d' = Exclusive_Held))"
  (is "?busy \<or> ?moves")
proof (cases ?busy)
  case False
  note inv = gate_reachable_inv [OF assms(2)]
  have wf: "hm_wf (gt_calls s)" using inv by (simp add: gate_inv_def)
  have "0 < rc_max_concurrency (mf_runtime m)"
    using assms(1) by (simp add: validate_manifest_None runtime_within_limits_def)
  then have pos: "0 < gt_max s"
    using reachable_same [OF assms(2)] by (simp add: new_gate_def Let_def unat_gt_0 word_gt_0)
  have "phase_permits (gt_max s) (gc_phase (snd x)) = 0" if "x \<in> set (gt_calls s)" for x
  proof -
    have "hm_get (gt_calls s) (fst x) = Some (snd x)" using that wf by (simp add: hm_get_def hm_wf_def)
    with False show ?thesis by (auto simp: phase_permits_def phase_inside_def split: gate_phase.splits)
  qed
  then have "permits_taken (gt_max s) (gt_calls s) = 0" by (auto simp: permits_taken_def)
  then have free: "gt_permits s = gt_max s" using inv by (simp add: gate_inv_def)
  have permit: ?moves if "hm_get (gt_calls s) k = Some d" "gc_phase d = Waits_Permit p" for k d p
    using get_permit [OF that] that pos free wf by (force simp: hm_simps)
  have ?moves
  proof (cases "gc_phase c")
    case (Waits_Lock l)
    show ?thesis
    proof (cases "lock_held l s")
      case True
      then obtain k d where d: "hm_get (gt_calls s) k = Some d" "phase_holds l (gc_phase d)" using held_iff [OF wf] by blast
      then have "gc_phase d = Waits_Permit (Some l)"
        using False by (cases "gc_phase d") (auto simp: phase_holds_def phase_inside_def split: gate_phase.splits)
      with permit d show ?thesis by blast
    next
      case False
      with get_lock [OF assms(3) Waits_Lock] assms(3) Waits_Lock wf show ?thesis by (force simp: hm_simps)
    qed
  next
    case Waits_Exclusive
    with get_exclusive [OF assms(3)] free assms(3) wf show ?thesis by (force simp: hm_simps)
  next
    case (Waits_Permit p)
    with permit assms(3) show ?thesis by blast
  qed (use assms(3) False in \<open>force simp: phase_inside_def\<close>)+
  then show ?thesis ..
qed simp

lemma gate_goes_on_witness:
  "\<exists>s'. gate_step (part_pair 2 (Waits_Lock 0) (Waits_Lock 1)) s'"
  using gate_goes_on [OF part_valid part_waiting, of 0 "part_call 1 (Waits_Lock 0)"]
  by (auto simp: part_pair_def part_gate_def part_call_def hm_get_def phase_inside_def split: if_splits)

end
