(* ===== verification/Json.thy ===== *)
theory Json
  imports PluginTypes "HOL-Library.Monad_Syntax"
begin

text \<open>
  JSON values as the adapters read them: the accessors of \<open>serde_json::Value\<close>, what \<open>serde\<close> derives to decode a
  field, and the canonical form of \<open>crates/adapter-onebot11/src/mapping.rs\<close> (\<open>canonicalize_json\<close>), with the
  relation that it decides. A number is kept as the text that \<open>Display\<close> gives it; an integer that fits in
  \<open>i64\<close> or \<open>u64\<close> is then a plain numeral, and every other number is not.
\<close>

section \<open>Accessors\<close>

definition json_get :: "ustr \<Rightarrow> json \<Rightarrow> json option" where
  "json_get k v = (case v of J_Object m \<Rightarrow> map_of m k | _ \<Rightarrow> None)"

definition json_str :: "json \<Rightarrow> ustr option" where
  "json_str v = (case v of J_String s \<Rightarrow> Some s | _ \<Rightarrow> None)"

definition json_int :: "json \<Rightarrow> int option" where
  "json_int v = (case v of J_Number t \<Rightarrow> text_int t | _ \<Rightarrow> None)"

definition in_range :: "int \<Rightarrow> int \<Rightarrow> int option \<Rightarrow> int option" where
  "in_range a b r = (case r of Some n \<Rightarrow> if a \<le> n \<and> n < b then Some n else None | None \<Rightarrow> None)"

definition json_i64 :: "json \<Rightarrow> int option" where
  "json_i64 v = in_range (- (2 ^ 63)) (2 ^ 63) (json_int v)"

definition json_u64 :: "json \<Rightarrow> int option" where
  "json_u64 v = in_range 0 (2 ^ 64) (json_int v)"

definition json_object :: "json \<Rightarrow> (ustr \<times> json) list option" where
  "json_object v = (case v of J_Object m \<Rightarrow> Some m | _ \<Rightarrow> None)"

section \<open>Fields\<close>

text \<open>A field that must be there, and one with a default when it is not.\<close>

definition field :: "(json \<Rightarrow> 'a option) \<Rightarrow> ustr \<Rightarrow> (ustr \<times> json) list \<Rightarrow> 'a option" where
  "field d k m = Option.bind (map_of m k) d"

definition field_or :: "'a \<Rightarrow> (json \<Rightarrow> 'a option) \<Rightarrow> ustr \<Rightarrow> (ustr \<times> json) list \<Rightarrow> 'a option" where
  "field_or x d k m = (case map_of m k of None \<Rightarrow> Some x | Some v \<Rightarrow> d v)"

definition de_option :: "(json \<Rightarrow> 'a option) \<Rightarrow> json \<Rightarrow> 'a option option" where
  "de_option d v = (if v = J_Null then Some None else map_option Some (d v))"

definition de_value :: "json \<Rightarrow> json option" where
  "de_value v = Some v"

text \<open>The rest of a flattened object: the members that no field takes, in a \<open>BTreeMap\<close>.\<close>

definition to_btmap :: "(ustr \<times> json) list \<Rightarrow> (ustr, json) btmap" where
  "to_btmap m = foldl (\<lambda>b (k, v). bt_put k v b) [] m"

definition rest_fields :: "ustr list \<Rightarrow> (ustr \<times> json) list \<Rightarrow> (ustr, json) btmap" where
  "rest_fields ks m = to_btmap (filter (\<lambda>(k, v). k \<notin> set ks) m)"

section \<open>Canonical form\<close>

lemma size_member: "(k, v) \<in> set m \<Longrightarrow> size v < size (J_Object m)"
  by (induction m) auto

lemma size_element: "v \<in> set vs \<Longrightarrow> size v < size (J_Array vs)"
  by (induction vs) auto

function canonicalize_json :: "json \<Rightarrow> json" where
  "canonicalize_json (J_Object m) = J_Object (map (\<lambda>(k, v). (k, canonicalize_json v)) (sort_key fst m))"
| "canonicalize_json (J_Array vs) = J_Array (map canonicalize_json vs)"
| "canonicalize_json J_Null = J_Null"
| "canonicalize_json (J_Bool b) = J_Bool b"
| "canonicalize_json (J_Number t) = J_Number t"
| "canonicalize_json (J_String s) = J_String s"
  by pat_completeness auto
termination
  by (relation "measure size") (auto simp del: json.size intro: size_member size_element)

text \<open>Objects have every key once, at every depth.\<close>

inductive json_ok :: "json \<Rightarrow> bool" where
  ok_null: "json_ok J_Null"
| ok_bool: "json_ok (J_Bool b)"
| ok_number: "json_ok (J_Number t)"
| ok_string: "json_ok (J_String s)"
| ok_array: "\<forall>v\<in>set vs. json_ok v \<Longrightarrow> json_ok (J_Array vs)"
| ok_object: "distinct (map fst m) \<Longrightarrow> \<forall>p\<in>set m. json_ok (snd p) \<Longrightarrow> json_ok (J_Object m)"

inductive_simps json_ok_simps [simp]:
  "json_ok J_Null" "json_ok (J_Bool b)" "json_ok (J_Number t)" "json_ok (J_String s)"
  "json_ok (J_Array vs)" "json_ok (J_Object m)"

text \<open>The same value up to the order of the members of objects.\<close>

inductive json_equiv :: "json \<Rightarrow> json \<Rightarrow> bool" where
  eq_null: "json_equiv J_Null J_Null"
| eq_bool: "json_equiv (J_Bool b) (J_Bool b)"
| eq_number: "json_equiv (J_Number t) (J_Number t)"
| eq_string: "json_equiv (J_String s) (J_String s)"
| eq_array: "length vs = length ws \<Longrightarrow> \<forall>i<length vs. json_equiv (vs ! i) (ws ! i) \<Longrightarrow>
    json_equiv (J_Array vs) (J_Array ws)"
| eq_object: "dom (map_of m) = dom (map_of n) \<Longrightarrow>
    \<forall>k v w. map_of m k = Some v \<longrightarrow> map_of n k = Some w \<longrightarrow> json_equiv v w \<Longrightarrow>
    json_equiv (J_Object m) (J_Object n)"

inductive_cases json_equivE: "json_equiv v w"

lemma map_of_canonical:
  assumes "distinct (map fst m)"
  shows "map_of (map (\<lambda>(k, v). (k, f v)) (sort_key fst m)) k = map_option f (map_of m k)"
proof -
  have "map_of (sort_key fst m) = map_of m"
    using assms by (intro map_of_inject_set [THEN iffD2]) (auto simp: distinct_map)
  then show ?thesis by (simp add: map_of_map [unfolded comp_def])
qed

lemma canonical_ext:
  assumes "distinct (map fst m)" "distinct (map fst n)"
  shows "map (\<lambda>(k, v). (k, f v)) (sort_key fst m) = map (\<lambda>(k, v). (k, f v)) (sort_key fst n) \<longleftrightarrow>
    (\<forall>k. map_option f (map_of m k) = map_option f (map_of n k))"
    (is "?l m = ?l n \<longleftrightarrow> _")
proof
  assume "?l m = ?l n"
  then show "\<forall>k. map_option f (map_of m k) = map_option f (map_of n k)"
    using map_of_canonical [OF assms(1), of f] map_of_canonical [OF assms(2), of f] by metis
next
  assume eq: "\<forall>k. map_option f (map_of m k) = map_option f (map_of n k)"
  have wf: "bt_wf (?l m')" if "distinct (map fst m')" for m'
  proof -
    have "map fst (map (\<lambda>(k, v). (k, f v)) xs) = map fst xs" for xs by (induction xs) auto
    moreover have "sorted (map fst (sort_key fst m'))" by simp
    moreover have "distinct (map fst (sort_key fst m'))" using that by (auto simp: distinct_map)
    ultimately show ?thesis unfolding bt_wf_def strict_sorted_iff by metis
  qed
  have "bt_get (?l m) = bt_get (?l n)"
    using eq map_of_canonical [OF assms(1), of f] map_of_canonical [OF assms(2), of f] by (auto simp: bt_get_def)
  with wf assms show "?l m = ?l n" by (intro bt_ext) auto
qed

text \<open>The canonical form decides equality up to the order of members: it is a complete invariant.\<close>

lemma canonical_equiv: "json_ok a \<Longrightarrow> json_ok b \<Longrightarrow> canonicalize_json a = canonicalize_json b \<Longrightarrow> json_equiv a b"
proof (induction a arbitrary: b rule: canonicalize_json.induct)
  case (1 m)
  from 1(4) obtain n where b: "b = J_Object n" by (cases b) auto
  with 1 have d: "distinct (map fst m)" "distinct (map fst n)" by auto
  from 1 b have e: "map_option canonicalize_json (map_of m k) = map_option canonicalize_json (map_of n k)" for k
    using canonical_ext [OF d, of canonicalize_json] by simp
  have "map_of m k = None \<longleftrightarrow> map_of n k = None" for k using e [of k] by (metis option.map_disc_iff)
  then have "dom (map_of m) = dom (map_of n)" unfolding dom_def by simp
  moreover have "json_equiv v w" if v: "map_of m k = Some v" and w: "map_of n k = Some w" for k v w
  proof -
    have m: "(k, v) \<in> set m" "(k, w) \<in> set n" using v w by (auto dest: map_of_SomeD)
    then have "(k, v) \<in> set (sort_key fst m)" by simp
    moreover have "canonicalize_json v = canonicalize_json w" using e [of k] v w by simp
    moreover have "json_ok v" "json_ok w" using m 1 b by force+
    ultimately show ?thesis using 1(1) by blast
  qed
  ultimately show ?case unfolding b by (intro eq_object) auto
next
  case (2 vs)
  from 2(4) obtain ws where b: "b = J_Array ws" by (cases b) auto
  with 2 have m: "map canonicalize_json vs = map canonicalize_json ws" by simp
  then have "length vs = length ws" by (metis length_map)
  moreover have "json_equiv (vs ! i) (ws ! i)" if "i < length vs" for i
  proof (rule 2(1))
    show "vs ! i \<in> set vs" "json_ok (vs ! i)" "json_ok (ws ! i)" using that 2 b \<open>length vs = length ws\<close> by auto
    show "canonicalize_json (vs ! i) = canonicalize_json (ws ! i)"
      using m that \<open>length vs = length ws\<close> by (metis nth_map)
  qed
  ultimately show ?case unfolding b by (intro eq_array) auto
next
  case 3
  then show ?case by (cases b) (auto intro: json_equiv.intros)
next
  case (4 x)
  then show ?case by (cases b) (auto intro: json_equiv.intros)
next
  case (5 t)
  then show ?case by (cases b) (auto intro: json_equiv.intros)
next
  case (6 t)
  then show ?case by (cases b) (auto intro: json_equiv.intros)
qed

lemma equiv_canonical: "json_equiv a b \<Longrightarrow> json_ok a \<Longrightarrow> json_ok b \<Longrightarrow> canonicalize_json a = canonicalize_json b"
proof (induction rule: json_equiv.induct)
  case (eq_array vs ws)
  then show ?case by (auto intro!: nth_equalityI)
next
  case (eq_object m n)
  then have "map_option canonicalize_json (map_of m k) = map_option canonicalize_json (map_of n k)" for k
  proof (cases "map_of m k")
    case None
    with eq_object have "map_of n k = None" by (metis domIff)
    with None show ?thesis by simp
  next
    case (Some v)
    with eq_object obtain w where w: "map_of n k = Some w" by (metis domD domI)
    with Some eq_object have "json_ok v" "json_ok w" by (force dest: map_of_SomeD)+
    with Some w eq_object show ?thesis by auto
  qed
  with eq_object show ?case by (simp add: canonical_ext)
qed auto

end
