(* ===== verification/OneBot.thy ===== *)
theory OneBot
  imports Json BotModel
begin

text \<open>
  The OneBot 11 protocol types (\<open>crates/onebot-protocol/src/lib.rs\<close>), the mapping of its events into the event
  model (\<open>crates/adapter-onebot11/src/mapping.rs\<close>) and of actions into its requests (\<open>action_request\<close> of
  \<open>crates/adapter-onebot11/src/lib.rs\<close>). Timestamps of \<open>chrono\<close>, the bytes that \<open>serde_json\<close> writes, SHA-256 and
  Base64 are parameters.
\<close>

record onebot_libs =
  ol_timestamp :: "int \<Rightarrow> int option"
  ol_json_bytes :: "json \<Rightarrow> bytes"
  ol_sha256 :: "bytes \<Rightarrow> bytes"
  ol_base64 :: "bytes \<Rightarrow> ustr"

section \<open>Protocol types\<close>

type_synonym onebot_id = ustr

text \<open>An identifier is a string or an integer that fits in \<open>i64\<close> or \<open>u64\<close>, kept as its text.\<close>

definition de_onebot_id :: "json \<Rightarrow> onebot_id option" where
  "de_onebot_id v =
     (case v of
        J_String s \<Rightarrow> Some s
      | J_Number t \<Rightarrow> if in_range (- (2 ^ 63)) (2 ^ 64) (text_int t) \<noteq> None then Some t else None
      | _ \<Rightarrow> None)"

record onebot_segment =
  sg_kind :: ustr
  sg_data :: "(ustr, json) btmap"

definition segment_text :: "ustr \<Rightarrow> onebot_segment" where
  "segment_text s = \<lparr>sg_kind = lit ''text'', sg_data = [(lit ''text'', J_String s)]\<rparr>"

definition segment_reply :: "onebot_id \<Rightarrow> onebot_segment" where
  "segment_reply i = \<lparr>sg_kind = lit ''reply'', sg_data = [(lit ''id'', J_String i)]\<rparr>"

definition segment_image :: "onebot_libs \<Rightarrow> bytes \<Rightarrow> onebot_segment" where
  "segment_image L d =
     \<lparr>sg_kind = lit ''image'', sg_data = [(lit ''file'', J_String (lit ''base64://'' @ ol_base64 L d))]\<rparr>"

definition segment_text_value :: "onebot_segment \<Rightarrow> ustr option" where
  "segment_text_value s =
     (if sg_kind s = lit ''text'' then Option.bind (bt_get (sg_data s) (lit ''text'')) json_str else None)"

datatype onebot_message = Message_Segments "onebot_segment list" | Message_Text ustr

definition text_content :: "onebot_message \<Rightarrow> ustr" where
  "text_content m =
     (case m of Message_Text t \<Rightarrow> t | Message_Segments ss \<Rightarrow> concat (List.map_filter segment_text_value ss))"

definition into_segments :: "onebot_message \<Rightarrow> onebot_segment list" where
  "into_segments m = (case m of Message_Segments ss \<Rightarrow> ss | Message_Text t \<Rightarrow> [segment_text t])"

record message_sender =
  os_user_id :: "onebot_id option"
  os_nickname :: "ustr option"
  os_card :: "ustr option"
  os_extensions :: "(ustr, json) btmap"

definition empty_sender :: message_sender where
  "empty_sender = \<lparr>os_user_id = None, os_nickname = None, os_card = None, os_extensions = []\<rparr>"

definition nonempty_text :: "ustr option \<Rightarrow> ustr option" where
  "nonempty_text t = (case t of Some s \<Rightarrow> if s = [] then None else Some s | None \<Rightarrow> None)"

definition sender_display_name :: "message_sender \<Rightarrow> ustr option" where
  "sender_display_name s =
     (case nonempty_text (os_card s) of Some n \<Rightarrow> Some n | None \<Rightarrow> nonempty_text (os_nickname s))"

record message_event =
  oe_time :: int
  oe_self_id :: onebot_id
  oe_message_type :: ustr
  oe_sub_type :: ustr
  oe_message_id :: onebot_id
  oe_user_id :: onebot_id
  oe_group_id :: "onebot_id option"
  oe_message :: onebot_message
  oe_raw_message :: ustr
  oe_sender :: message_sender
  oe_extensions :: "(ustr, json) btmap"

text \<open>\<open>NoticeEvent\<close>, \<open>RequestEvent\<close> and \<open>MetaEvent\<close> differ in the name of the field with their type.\<close>

record detail_event =
  de_time :: int
  de_self_id :: onebot_id
  de_type :: ustr
  de_sub_type :: ustr
  de_data :: "(ustr, json) btmap"

datatype onebot_event =
    OneBot_Message message_event
  | OneBot_Notice detail_event
  | OneBot_Request detail_event
  | OneBot_Meta detail_event
  | OneBot_Unknown ustr json

definition onebot_event_time :: "onebot_event \<Rightarrow> int option" where
  "onebot_event_time e =
     (case e of
        OneBot_Message m \<Rightarrow> Some (oe_time m)
      | OneBot_Notice d \<Rightarrow> Some (de_time d)
      | OneBot_Request d \<Rightarrow> Some (de_time d)
      | OneBot_Meta d \<Rightarrow> Some (de_time d)
      | OneBot_Unknown _ _ \<Rightarrow> None)"

section \<open>Decoding\<close>

text \<open>A structure whose fields are not flattened is also read from an array of its fields in their order.\<close>

definition de_segment_data :: "json \<Rightarrow> (ustr, json) btmap option" where
  "de_segment_data v = map_option to_btmap (json_object v)"

definition de_segment :: "json \<Rightarrow> onebot_segment option" where
  "de_segment v =
     (case v of
        J_Object m \<Rightarrow> do {
          k \<leftarrow> field json_str (lit ''type'') m;
          d \<leftarrow> field_or [] de_segment_data (lit ''data'') m;
          Some \<lparr>sg_kind = k, sg_data = d\<rparr> }
      | J_Array [k] \<Rightarrow> do { k \<leftarrow> json_str k; Some \<lparr>sg_kind = k, sg_data = []\<rparr> }
      | J_Array [k, d] \<Rightarrow> do { k \<leftarrow> json_str k; d \<leftarrow> de_segment_data d; Some \<lparr>sg_kind = k, sg_data = d\<rparr> }
      | _ \<Rightarrow> None)"

definition de_onebot_message :: "json \<Rightarrow> onebot_message option" where
  "de_onebot_message v =
     (case v of
        J_Array vs \<Rightarrow> map_option Message_Segments (those (map de_segment vs))
      | J_String s \<Rightarrow> Some (Message_Text s)
      | _ \<Rightarrow> None)"

definition de_sender :: "json \<Rightarrow> message_sender option" where
  "de_sender v = do {
     m \<leftarrow> json_object v;
     u \<leftarrow> field_or None (de_option de_onebot_id) (lit ''user_id'') m;
     n \<leftarrow> field_or None (de_option json_str) (lit ''nickname'') m;
     c \<leftarrow> field_or None (de_option json_str) (lit ''card'') m;
     Some \<lparr>os_user_id = u, os_nickname = n, os_card = c,
           os_extensions = rest_fields [lit ''user_id'', lit ''nickname'', lit ''card''] m\<rparr> }"

definition message_event_fields :: "ustr list" where
  "message_event_fields =
     [lit ''time'', lit ''self_id'', lit ''message_type'', lit ''sub_type'', lit ''message_id'', lit ''user_id'',
      lit ''group_id'', lit ''message'', lit ''raw_message'', lit ''sender'']"

definition de_message_event :: "json \<Rightarrow> message_event option" where
  "de_message_event v = do {
     m \<leftarrow> json_object v;
     time \<leftarrow> field json_i64 (lit ''time'') m;
     self_id \<leftarrow> field de_onebot_id (lit ''self_id'') m;
     message_type \<leftarrow> field json_str (lit ''message_type'') m;
     sub_type \<leftarrow> field_or [] json_str (lit ''sub_type'') m;
     message_id \<leftarrow> field de_onebot_id (lit ''message_id'') m;
     user_id \<leftarrow> field de_onebot_id (lit ''user_id'') m;
     group_id \<leftarrow> field_or None (de_option de_onebot_id) (lit ''group_id'') m;
     message \<leftarrow> field de_onebot_message (lit ''message'') m;
     raw_message \<leftarrow> field_or [] json_str (lit ''raw_message'') m;
     sender \<leftarrow> field_or empty_sender de_sender (lit ''sender'') m;
     Some \<lparr>oe_time = time, oe_self_id = self_id, oe_message_type = message_type, oe_sub_type = sub_type,
           oe_message_id = message_id, oe_user_id = user_id, oe_group_id = group_id, oe_message = message,
           oe_raw_message = raw_message, oe_sender = sender, oe_extensions = rest_fields message_event_fields m\<rparr> }"

definition de_detail_event :: "ustr \<Rightarrow> json \<Rightarrow> detail_event option" where
  "de_detail_event ty v = do {
     m \<leftarrow> json_object v;
     time \<leftarrow> field json_i64 (lit ''time'') m;
     self_id \<leftarrow> field de_onebot_id (lit ''self_id'') m;
     detail \<leftarrow> field json_str ty m;
     sub_type \<leftarrow> field_or [] json_str (lit ''sub_type'') m;
     Some \<lparr>de_time = time, de_self_id = self_id, de_type = detail, de_sub_type = sub_type,
           de_data = rest_fields [lit ''time'', lit ''self_id'', ty, lit ''sub_type''] m\<rparr> }"

datatype protocol_error = Missing_Post_Type | Event_Undecoded

definition decoded :: "'a option \<Rightarrow> protocol_error + 'a" where
  "decoded r = (case r of Some x \<Rightarrow> Inr x | None \<Rightarrow> Inl Event_Undecoded)"

definition parse_onebot_event :: "json \<Rightarrow> protocol_error + onebot_event" where
  "parse_onebot_event v =
     (case Option.bind (json_get (lit ''post_type'') v) json_str of
        None \<Rightarrow> Inl Missing_Post_Type
      | Some post_type \<Rightarrow>
          if post_type = lit ''message'' then map_sum id OneBot_Message (decoded (de_message_event v))
          else if post_type = lit ''message_sent'' then Inr (OneBot_Unknown post_type v)
          else if post_type = lit ''notice''
            then map_sum id OneBot_Notice (decoded (de_detail_event (lit ''notice_type'') v))
          else if post_type = lit ''request''
            then map_sum id OneBot_Request (decoded (de_detail_event (lit ''request_type'') v))
          else if post_type = lit ''meta_event''
            then map_sum id OneBot_Meta (decoded (de_detail_event (lit ''meta_event_type'') v))
          else Inr (OneBot_Unknown post_type v))"

section \<open>Action responses\<close>

record action_response =
  or_status :: ustr
  or_retcode :: int
  or_data :: json
  or_message :: ustr
  or_wording :: ustr
  or_echo :: json

definition de_action_response :: "json \<Rightarrow> action_response option" where
  "de_action_response v = do {
     m \<leftarrow> json_object v;
     status \<leftarrow> field json_str (lit ''status'') m;
     retcode \<leftarrow> field json_i64 (lit ''retcode'') m;
     data \<leftarrow> field_or J_Null de_value (lit ''data'') m;
     message \<leftarrow> field_or [] json_str (lit ''message'') m;
     wording \<leftarrow> field_or [] json_str (lit ''wording'') m;
     echo \<leftarrow> field de_value (lit ''echo'') m;
     Some \<lparr>or_status = status, or_retcode = retcode, or_data = data, or_message = message, or_wording = wording,
           or_echo = echo\<rparr> }"

text \<open>Any number is an identifier here, a fraction too.\<close>

definition value_as_id :: "json \<Rightarrow> ustr option" where
  "value_as_id v = (case v of J_String s \<Rightarrow> Some s | J_Number t \<Rightarrow> Some t | _ \<Rightarrow> None)"

definition echo_key :: "action_response \<Rightarrow> ustr option" where
  "echo_key r = (case or_echo r of J_String s \<Rightarrow> Some s | J_Number t \<Rightarrow> Some t | _ \<Rightarrow> None)"

definition response_succeeded :: "action_response \<Rightarrow> bool" where
  "response_succeeded r \<longleftrightarrow> or_status r = lit ''ok'' \<and> or_retcode r = 0"

definition response_message_id :: "action_response \<Rightarrow> ustr option" where
  "response_message_id r = Option.bind (json_get (lit ''message_id'') (or_data r)) value_as_id"

definition safe_error :: "action_response \<Rightarrow> ustr" where
  "safe_error r = lit ''OneBot action failed with retcode '' @ int_text (or_retcode r) @ lit '': '' @
     (if or_wording r = [] then or_message r else or_wording r)"

definition response_like :: "json \<Rightarrow> bool" where
  "response_like v \<longleftrightarrow>
     (case json_get (lit ''status'') v of Some s \<Rightarrow> json_str s \<noteq> None | None \<Rightarrow> False) \<and>
     Option.bind (json_get (lit ''retcode'') v) json_i64 \<noteq> None \<and>
     (case json_get (lit ''echo'') v of Some (J_String _) \<Rightarrow> True | Some (J_Number _) \<Rightarrow> True | _ \<Rightarrow> False)"

definition response_json :: "action_response \<Rightarrow> json" where
  "response_json r = J_Object
     [(lit ''data'', or_data r), (lit ''echo'', or_echo r), (lit ''message'', J_String (or_message r)),
      (lit ''retcode'', J_Number (int_text (or_retcode r))), (lit ''status'', J_String (or_status r)),
      (lit ''wording'', J_String (or_wording r))]"

section \<open>Mapping of events\<close>

datatype mapping_error =
    Map_Protocol protocol_error
  | Map_Unsupported_Message_Type ustr
  | Map_Missing_Group_Id

definition hex_digit :: "8 word \<Rightarrow> nat" where
  "hex_digit d = (let n = unat d in if n < 10 then 48 + n else 87 + n)"

definition hex_text :: "bytes \<Rightarrow> ustr" where
  "hex_text bs = concat (map (\<lambda>b. [hex_digit (drop_bit 4 b), hex_digit (and b 0x0f)]) bs)"

definition payload_digest :: "onebot_libs \<Rightarrow> json \<Rightarrow> ustr" where
  "payload_digest L v = hex_text (ol_sha256 L (ol_json_bytes L (canonicalize_json v)))"

definition derived_event_id :: "onebot_libs \<Rightarrow> adapter_id \<Rightarrow> ustr \<Rightarrow> int \<Rightarrow> json \<Rightarrow> ustr \<Rightarrow> event_id" where
  "derived_event_id L a kind time v detail =
     lit ''onebot11:'' @ kind @ lit '':'' @ detail @ lit '':'' @ int_text time @ lit '':'' @
       payload_digest L (J_Object [(lit ''adapter'', J_String a), (lit ''event'', v)])"

definition message_event_id :: "onebot_libs \<Rightarrow> adapter_id \<Rightarrow> message_event \<Rightarrow> event_id" where
  "message_event_id L a m =
     lit ''onebot11:message:'' @
       payload_digest L (J_Object [(lit ''adapter'', J_String a), (lit ''message_id'', J_String (oe_message_id m)),
         (lit ''self_id'', J_String (oe_self_id m))])"

definition message_target_of :: "message_event \<Rightarrow> mapping_error + message_target" where
  "message_target_of m =
     (if oe_message_type m = lit ''group''
      then (case oe_group_id m of Some g \<Rightarrow> Inr (Target_Group g) | None \<Rightarrow> Inl Map_Missing_Group_Id)
      else if oe_message_type m = lit ''private'' then Inr (Target_Private (oe_user_id m))
      else Inl (Map_Unsupported_Message_Type (oe_message_type m)))"

definition reply_of_segments :: "onebot_segment list \<Rightarrow> ustr option" where
  "reply_of_segments ss = do {
     s \<leftarrow> List.find (\<lambda>s. sg_kind s = lit ''reply'') ss;
     v \<leftarrow> bt_get (sg_data s) (lit ''id'');
     value_as_id v }"

definition core_segment :: "onebot_segment \<Rightarrow> json message_segment" where
  "core_segment s =
     (if sg_kind s = lit ''text''
      then Segment_Text (case Option.bind (bt_get (sg_data s) (lit ''text'')) json_str of Some t \<Rightarrow> t | None \<Rightarrow> [])
      else Segment_Platform (lit ''onebot11.'' @ sg_kind s) (J_Object (sg_data s)))"

definition map_message :: "message_event \<Rightarrow> mapping_error + json common_message" where
  "map_message m =
     map_sum id
       (\<lambda>t. \<lparr>message_id = oe_message_id m, target = t,
             msg_sender = \<lparr>sender_id = oe_user_id m, display_name = sender_display_name (oe_sender m)\<rparr>,
             msg_text = text_content (oe_message m),
             segments = map core_segment (into_segments (oe_message m)),
             reply_to = reply_of_segments (into_segments (oe_message m))\<rparr>)
       (message_target_of m)"

definition raw_time :: "json \<Rightarrow> int option" where
  "raw_time v = Option.bind (json_get (lit ''time'') v) json_i64"

definition mapped_event ::
    "onebot_libs \<Rightarrow> adapter_id \<Rightarrow> json \<Rightarrow> onebot_event \<Rightarrow> mapping_error + (event_id \<times> json event)" where
  "mapped_event L a v e =
     (case e of
        OneBot_Message m \<Rightarrow> map_sum id (\<lambda>c. (message_event_id L a m, Event_Message c)) (map_message m)
      | OneBot_Notice d \<Rightarrow> Inr (derived_event_id L a (lit ''notice'') (de_time d) v (de_type d), Event_Notice v)
      | OneBot_Request d \<Rightarrow> Inr (derived_event_id L a (lit ''request'') (de_time d) v (de_type d), Event_Request v)
      | OneBot_Meta d \<Rightarrow> Inr (derived_event_id L a (lit ''meta'') (de_time d) v (de_type d), Event_Lifecycle v)
      | OneBot_Unknown post_type r \<Rightarrow>
          Inr (derived_event_id L a (lit ''unknown'') (case raw_time r of Some t \<Rightarrow> t | None \<Rightarrow> 0) r post_type,
               Event_Platform (lit ''onebot11.'' @ post_type) r))"

definition map_onebot_event ::
    "onebot_libs \<Rightarrow> adapter_id \<Rightarrow> json \<Rightarrow> mapping_error + json event_envelope option" where
  "map_onebot_event L a v =
     (case parse_onebot_event v of
        Inl e \<Rightarrow> Inl (Map_Protocol e)
      | Inr e \<Rightarrow>
          map_sum id
            (\<lambda>(i, ev). Some \<lparr>env_id = i, env_adapter = a, delivery_id = None,
                             timestamp = Option.bind (raw_time v) (ol_timestamp L), env_event = ev, raw = v\<rparr>)
            (mapped_event L a v e))"

section \<open>Requests of actions\<close>

definition guild_target_error :: adapter_error where
  "guild_target_error = AE_Action (lit ''OneBot 11 does not support QQ guild targets'')"

definition max_inline_media_bytes :: nat where
  "max_inline_media_bytes = 8 * 1024 * 1024"

definition segment_json :: "onebot_segment \<Rightarrow> json" where
  "segment_json s = J_Object [(lit ''data'', J_Object (sg_data s)), (lit ''type'', J_String (sg_kind s))]"

text \<open>The request that sends segments to a target; a guild target has none.\<close>

definition send_request :: "message_target \<Rightarrow> onebot_segment list \<Rightarrow> adapter_error + (ustr \<times> json)" where
  "send_request t ss =
     (let message = (lit ''message'', J_Array (map segment_json ss))
      in case t of
           Target_Group g \<Rightarrow> Inr (lit ''send_group_msg'', J_Object [(lit ''group_id'', J_String g), message])
         | Target_Private u \<Rightarrow> Inr (lit ''send_private_msg'', J_Object [message, (lit ''user_id'', J_String u)])
         | Target_Channel _ \<Rightarrow> Inl guild_target_error
         | Target_GuildDirect _ \<Rightarrow> Inl guild_target_error)"

definition validate_onebot_image :: "media_attachment \<Rightarrow> adapter_error option" where
  "validate_onebot_image a =
     (if validated_image_mime a = None
      then Some (AE_Action
        (lit ''OneBot 11 inline media has an unsupported MIME type or mismatched image signature: `'' @ mime_type a @ lit ''`''))
      else if media_data a = [] then Some (AE_Action (lit ''OneBot 11 inline image data must not be empty''))
      else if length (media_data a) > max_inline_media_bytes
      then Some (AE_Action (lit ''OneBot 11 inline image exceeds the 8 MiB limit''))
      else None)"

definition onebot_image_segment :: "onebot_libs \<Rightarrow> media_attachment \<Rightarrow> adapter_error + onebot_segment" where
  "onebot_image_segment L a =
     (case validate_onebot_image a of Some e \<Rightarrow> Inl e | None \<Rightarrow> Inr (segment_image L (media_data a)))"

definition caption_segments :: "ustr option \<Rightarrow> onebot_segment list" where
  "caption_segments c = (case nonempty_text c of Some t \<Rightarrow> [segment_text t] | None \<Rightarrow> [])"

definition onebot_platform_actions :: "ustr list" where
  "onebot_platform_actions = map (\<lambda>n. lit ''onebot11.'' @ n)
     [lit ''send_msg'', lit ''get_login_info'', lit ''get_stranger_info'', lit ''get_group_info'',
      lit ''get_group_member_info'', lit ''get_status'', lit ''get_version_info'', lit ''send_like'',
      lit ''set_group_kick'', lit ''set_group_ban'', lit ''set_group_whole_ban'', lit ''set_group_admin'',
      lit ''set_group_card'', lit ''set_group_leave'', lit ''set_friend_add_request'', lit ''set_group_add_request'']"

definition platform_request :: "ustr \<Rightarrow> json \<Rightarrow> adapter_error + (ustr \<times> json)" where
  "platform_request name payload =
     (if name \<in> set onebot_platform_actions
      then (if json_object payload = None
            then Inl (AE_Action (lit ''OneBot platform Action `'' @ name @ lit ''` payload must be a JSON object''))
            else Inr (drop (length (lit ''onebot11.'')) name, payload))
      else Inl (AE_Action (lit ''unsupported OneBot 11 platform Action `'' @ name @ lit ''`'')))"

definition action_request :: "onebot_libs \<Rightarrow> json action \<Rightarrow> adapter_error + (ustr \<times> json)" where
  "action_request L a =
     (case a of
        Action_Reply r \<Rightarrow>
          send_request (ra_target r)
            (filter (\<lambda>s. sg_kind s \<noteq> lit ''text'' \<or> segment_text_value s \<noteq> Some [])
              [segment_reply (ra_source_message_id r), segment_text (ra_content r)])
      | Action_SendMessage m \<Rightarrow> send_request (sm_target m) [segment_text (sm_content m)]
      | Action_ReplyMedia r \<Rightarrow>
          (case onebot_image_segment L (rm_attachment r) of
             Inl e \<Rightarrow> Inl e
           | Inr s \<Rightarrow>
               send_request (rm_target r)
                 ([segment_reply (rm_source_message_id r), s] @ caption_segments (rm_caption r)))
      | Action_SendMedia m \<Rightarrow>
          (case onebot_image_segment L (sd_attachment m) of
             Inl e \<Rightarrow> Inl e
           | Inr s \<Rightarrow> send_request (sd_target m) (s # caption_segments (sd_caption m)))
      | Action_Recall t i _ \<Rightarrow>
          (case t of
             Target_Group _ \<Rightarrow> Inr (lit ''delete_msg'', J_Object [(lit ''message_id'', J_String i)])
           | Target_Private _ \<Rightarrow> Inr (lit ''delete_msg'', J_Object [(lit ''message_id'', J_String i)])
           | _ \<Rightarrow> Inl guild_target_error)
      | Action_Platform name payload \<Rightarrow> platform_request name payload)"

definition action_media_attachment :: "json action \<Rightarrow> media_attachment option" where
  "action_media_attachment a =
     (case a of
        Action_ReplyMedia r \<Rightarrow> Some (rm_attachment r)
      | Action_SendMedia m \<Rightarrow> Some (sd_attachment m)
      | _ \<Rightarrow> None)"

end
