(* ===== verification/OneBotProps.thy ===== *)
theory OneBotProps
  imports OneBot
begin

text \<open>
  Properties of the OneBot 11 mapping: what an event identifier identifies, that the requests of actions are read
  back as what was to be sent, and that a mapped message is consistent.
\<close>

section \<open>Identifiers\<close>

lemma hex_digit_inj: "unat a < 16 \<Longrightarrow> unat b < 16 \<Longrightarrow> hex_digit a = hex_digit b \<longleftrightarrow> a = b"
  by (auto simp: hex_digit_def Let_def word_unat_eq_iff split: if_splits)

lemma hex_digit_safe: "unat a < 16 \<Longrightarrow> hex_digit a \<noteq> 58"
  by (auto simp: hex_digit_def Let_def split: if_splits)

lemma nibbles: "unat (drop_bit 4 (b :: 8 word)) < 16" "unat (and b 0x0f :: 8 word) < 16"
proof -
  have "unat (drop_bit 4 b) = unat b div 16" by (simp add: drop_bit_eq_div unat_div_distrib)
  moreover have "unat b < 256" using unsigned_less [of b] by simp
  ultimately show "unat (drop_bit 4 b) < 16" by simp
  have "and b 0x0f = take_bit 4 b" by (simp add: take_bit_eq_mask mask_eq_exp_minus_1)
  then have "unat (and b 0x0f) = unat b mod 16" by (simp add: take_bit_eq_mod unat_mod_distrib)
  then show "unat (and b 0x0f :: 8 word) < 16" by simp
qed

lemma nibbles_inj: "drop_bit 4 a = drop_bit 4 b \<Longrightarrow> and a 0x0f = and b 0x0f \<Longrightarrow> a = (b :: 8 word)"
proof -
  assume "drop_bit 4 a = drop_bit 4 b" "and a 0x0f = and b 0x0f"
  then have "drop_bit 4 a = drop_bit 4 b" "take_bit 4 a = take_bit 4 b"
    by (simp_all add: take_bit_eq_mask mask_eq_exp_minus_1)
  then show "a = b" by (metis bits_ident)
qed

lemma hex_text_inj: "hex_text xs = hex_text ys \<longleftrightarrow> xs = ys"
proof (induction xs arbitrary: ys)
  case Nil
  then show ?case by (cases ys) (simp_all add: hex_text_def)
next
  case (Cons x xs)
  then show ?case
    by (cases ys) (auto simp: hex_text_def hex_digit_inj nibbles dest: nibbles_inj)
qed

lemma length_hex_text: "length (hex_text xs) = 2 * length xs"
  by (induction xs) (simp_all add: hex_text_def)

lemma hex_text_safe: "58 \<notin> set (hex_text xs)"
  by (induction xs) (auto simp: hex_text_def hex_digit_safe nibbles)

lemma int_text_safe: "58 \<notin> set (int_text n)"
  by (auto simp: int_text_def is_ascii_digit_def dest!: decimal_digits)

text \<open>Reading an identifier: the kind ends at the first colon, the digest and the time at the last two.\<close>

lemma append_sep_first:
  assumes "c \<notin> set a" "c \<notin> set b" "a @ c # x = b @ c # y"
  shows "a = b \<and> x = y"
  using assms
proof (induction a arbitrary: b)
  case Nil
  then show ?case by (cases b) auto
next
  case (Cons d a)
  then show ?case by (cases b) auto
qed

lemma append_sep_last:
  assumes "c \<notin> set x" "c \<notin> set y" "a @ c # x = b @ c # y"
  shows "a = b \<and> x = y"
proof -
  have "rev x @ c # rev a = rev y @ c # rev b" using assms(3) by (metis append_Cons append_Nil append_assoc rev.simps(2) rev_append)
  with append_sep_first [of c "rev x" "rev y"] assms(1,2) show ?thesis by auto
qed

definition sha_collision :: "onebot_libs \<Rightarrow> json \<Rightarrow> json \<Rightarrow> bool" where
  "sha_collision L v w \<longleftrightarrow>
     canonicalize_json v \<noteq> canonicalize_json w \<and>
     ol_sha256 L (ol_json_bytes L (canonicalize_json v)) = ol_sha256 L (ol_json_bytes L (canonicalize_json w))"

lemma payload_digest_eq:
  "payload_digest L v = payload_digest L w \<longleftrightarrow> canonicalize_json v = canonicalize_json w \<or> sha_collision L v w"
  by (auto simp: payload_digest_def hex_text_inj sha_collision_def)

text \<open>What a derived identifier is made of.\<close>

definition tagged_event :: "adapter_id \<Rightarrow> json \<Rightarrow> json" where
  "tagged_event a v = J_Object [(lit ''adapter'', J_String a), (lit ''event'', v)]"

lemma tagged_ok [simp]: "json_ok (tagged_event a v) \<longleftrightarrow> json_ok v"
  by (simp add: tagged_event_def)

lemma tagged_canonical:
  "canonicalize_json (tagged_event a v) = canonicalize_json (tagged_event b w) \<longleftrightarrow>
     a = b \<and> canonicalize_json v = canonicalize_json w"
proof -
  have "sort_key fst [(lit ''adapter'', x), (lit ''event'', y)] = [(lit ''adapter'', x), (lit ''event'', y)]" for x y :: json
    by simp
  then show ?thesis by (simp add: tagged_event_def)
qed


definition toy_onebot_libs :: onebot_libs where
  "toy_onebot_libs = \<lparr>ol_timestamp = (\<lambda>n. Some (1000 * n)), ol_json_bytes = (\<lambda>v. [of_nat (size v)]),
     ol_sha256 = (\<lambda>b. b), ol_base64 = (\<lambda>b. map unat b)\<rparr>"


section \<open>Requests are read back\<close>

lemma to_btmap_id: "bt_wf m \<Longrightarrow> to_btmap m = m"
proof -
  have put: "bt_wf (b @ [(k, v)]) \<Longrightarrow> bt_put k v b = b @ [(k, v)]" for b and k :: ustr and v :: json
    by (induction b) (auto simp: bt_wf_def)
  have "bt_wf (b @ m) \<Longrightarrow> foldl (\<lambda>b (k, v). bt_put k v b) b m = b @ m" for b
  proof (induction m arbitrary: b)
    case (Cons p m)
    obtain k v where p: "p = (k, v)" by fastforce
    have "bt_wf (b @ [(k, v)])" using Cons.prems by (simp add: p bt_wf_def sorted_wrt_append)
    with Cons p show ?case by (simp add: put)
  qed simp
  from this [of "[]"] show "bt_wf m \<Longrightarrow> to_btmap m = m" by (simp add: to_btmap_def)
qed

lemma de_segment_json: "bt_wf (sg_data s) \<Longrightarrow> de_segment (segment_json s) = Some s"
  by (simp add: de_segment_def segment_json_def field_def field_or_def de_segment_data_def json_object_def json_str_def
      to_btmap_id)

lemma de_segments_json:
  "\<forall>s\<in>set ss. bt_wf (sg_data s) \<Longrightarrow> de_onebot_message (J_Array (map segment_json ss)) = Some (Message_Segments ss)"
proof -
  assume "\<forall>s\<in>set ss. bt_wf (sg_data s)"
  then have "those (map de_segment (map segment_json ss)) = Some ss"
    by (induction ss) (simp_all add: de_segment_json)
  then show ?thesis by (simp add: de_onebot_message_def)
qed

text \<open>What an action is to send: target, text and the message it answers.\<close>

definition sent_message :: "json action \<Rightarrow> (message_target \<times> ustr \<times> ustr option) option" where
  "sent_message a =
     (case a of
        Action_Reply r \<Rightarrow> Some (ra_target r, ra_content r, Some (ra_source_message_id r))
      | Action_SendMessage m \<Rightarrow> Some (sm_target m, sm_content m, None)
      | Action_ReplyMedia r \<Rightarrow>
          Some (rm_target r, case rm_caption r of Some c \<Rightarrow> c | None \<Rightarrow> [], Some (rm_source_message_id r))
      | Action_SendMedia m \<Rightarrow> Some (sd_target m, case sd_caption m of Some c \<Rightarrow> c | None \<Rightarrow> [], None)
      | _ \<Rightarrow> None)"

definition request_target :: "ustr \<Rightarrow> json \<Rightarrow> message_target option" where
  "request_target name params =
     (if name = lit ''send_group_msg''
      then map_option Target_Group (Option.bind (json_get (lit ''group_id'') params) json_str)
      else if name = lit ''send_private_msg''
      then map_option Target_Private (Option.bind (json_get (lit ''user_id'') params) json_str)
      else None)"

lemma send_request_reads:
  assumes "send_request t ss = Inr (name, params)" "\<forall>s\<in>set ss. bt_wf (sg_data s)"
  shows "json_get (lit ''message'') params = Some (J_Array (map segment_json ss)) \<and>
    de_onebot_message (J_Array (map segment_json ss)) = Some (Message_Segments ss) \<and>
    request_target name params = Some t"
  using assms
  by (auto simp: send_request_def de_segments_json json_get_def request_target_def json_str_def Let_def
      split: message_target.splits)

lemmas segment_defs = segment_text_def segment_reply_def segment_image_def caption_segments_def nonempty_text_def

lemma segments_wf:
  "bt_wf (sg_data (segment_text x))" "bt_wf (sg_data (segment_reply x))" "bt_wf (sg_data (segment_image L d))"
  "\<forall>s\<in>set (caption_segments c). bt_wf (sg_data s)"
  by (auto simp: segment_defs bt_wf_def split: option.splits)

lemma caption_text: "concat (List.map_filter segment_text_value (caption_segments c)) = (case c of Some t \<Rightarrow> t | None \<Rightarrow> [])"
  by (auto simp: segment_defs segment_text_value_def bt_get_def json_str_def map_filter_simps split: option.splits)

lemma text_values [simp]:
  "segment_text_value (segment_text x) = Some x" "segment_text_value (segment_reply x) = None"
  "segment_text_value (segment_image L d) = None"
  by (simp_all add: segment_defs segment_text_value_def bt_get_def json_str_def)

lemma kinds [simp]:
  "sg_kind (segment_text x) = lit ''text''" "sg_kind (segment_reply x) = lit ''reply''"
  "sg_kind (segment_image L d) = lit ''image''"
  by (simp_all add: segment_defs)

lemma reply_reads [simp]:
  "reply_of_segments [] = None" "reply_of_segments (segment_reply x # ss) = Some x"
  "reply_of_segments (segment_text y # ss) = reply_of_segments ss"
  "reply_of_segments (segment_image L d # ss) = reply_of_segments ss"
  by (simp_all add: reply_of_segments_def segment_reply_def bt_get_def value_as_id_def)

lemma caption_reply [simp]: "reply_of_segments (caption_segments c) = None"
  by (simp add: caption_segments_def split: option.split)

text \<open>[C34] What a request sends is what the mapping reads: the request of an action that sends a message carries, as a
  OneBot message that decodes, exactly the text of the action and a reply to the message it answers, and nothing
  else of text; and it is addressed to the target of the action.\<close>

theorem request_reads_back:
  assumes "action_request L a = Inr (name, params)" "sent_message a = Some (t, text, reply)"
  shows "\<exists>v m. json_get (lit ''message'') params = Some v \<and> de_onebot_message v = Some m \<and>
    text_content m = text \<and> reply_of_segments (into_segments m) = reply \<and> request_target name params = Some t"
proof -
  have "\<exists>ss. send_request t ss = Inr (name, params) \<and> (\<forall>s\<in>set ss. bt_wf (sg_data s)) \<and>
      concat (List.map_filter segment_text_value ss) = text \<and> reply_of_segments ss = reply"
  proof (cases a)
    case (Action_Reply r)
    let ?ss = "filter (\<lambda>s. sg_kind s \<noteq> lit ''text'' \<or> segment_text_value s \<noteq> Some [])
              [segment_reply (ra_source_message_id r), segment_text (ra_content r)]"
    from assms Action_Reply have "send_request t ?ss = Inr (name, params)"
      by (auto simp: action_request_def sent_message_def)
    with assms Action_Reply show ?thesis
      by (intro exI [of _ ?ss]) (auto simp: sent_message_def segments_wf map_filter_simps str_simps)
  next
    case (Action_SendMessage m)
    with assms show ?thesis
      by (intro exI [of _ "[segment_text (sm_content m)]"])
        (auto simp: action_request_def sent_message_def segments_wf map_filter_simps)
  next
    case (Action_ReplyMedia r)
    with assms obtain s where "s = segment_image L (media_data (rm_attachment r))"
      "send_request t ([segment_reply (rm_source_message_id r), s] @ caption_segments (rm_caption r)) = Inr (name, params)"
      by (auto simp: action_request_def sent_message_def onebot_image_segment_def split: sum.splits option.splits)
    with assms Action_ReplyMedia show ?thesis
      using caption_text [of "rm_caption r"] segments_wf(4) [of "rm_caption r"]
      by (intro exI [of _ "[segment_reply (rm_source_message_id r), s] @ caption_segments (rm_caption r)"])
        (auto simp: sent_message_def segments_wf map_filter_simps)
  next
    case (Action_SendMedia m)
    with assms obtain s where "s = segment_image L (media_data (sd_attachment m))"
      "send_request t (s # caption_segments (sd_caption m)) = Inr (name, params)"
      by (auto simp: action_request_def sent_message_def onebot_image_segment_def split: sum.splits option.splits)
    with assms Action_SendMedia show ?thesis
      using caption_text [of "sd_caption m"] segments_wf(4) [of "sd_caption m"]
      by (intro exI [of _ "s # caption_segments (sd_caption m)"])
        (auto simp: sent_message_def segments_wf map_filter_simps)
  qed (use assms in \<open>auto simp: sent_message_def\<close>)
  then obtain ss where "send_request t ss = Inr (name, params)" "\<forall>s\<in>set ss. bt_wf (sg_data s)"
    "concat (List.map_filter segment_text_value ss) = text" "reply_of_segments ss = reply" by blast
  with send_request_reads [of t ss] show ?thesis by (auto simp: text_content_def into_segments_def)
qed

lemma request_reads_back_witness:
  "\<exists>v m. json_get (lit ''message'') (J_Object [(lit ''group_id'', J_String [49]),
      (lit ''message'', J_Array (map segment_json [segment_reply [50], segment_text [51]]))]) = Some v \<and>
    de_onebot_message v = Some m \<and> text_content m = [51] \<and> reply_of_segments (into_segments m) = Some [50]"
  using request_reads_back [of toy_onebot_libs
      "Action_Reply \<lparr>ra_target = Target_Group [49], ra_source_message_id = [50], ra_content = [51]\<rparr>"
      "lit ''send_group_msg''" _ "Target_Group [49]" "[51]" "Some [50]"]
  by (simp add: action_request_def send_request_def sent_message_def Let_def) blast

section \<open>Mapped messages\<close>

definition segment_plain :: "json message_segment \<Rightarrow> ustr" where
  "segment_plain s = (case s of Segment_Text t \<Rightarrow> t | Segment_Platform _ _ \<Rightarrow> [])"

lemma plain_core: "segment_plain (core_segment s) = (case segment_text_value s of Some t \<Rightarrow> t | None \<Rightarrow> [])"
  by (simp add: segment_plain_def core_segment_def segment_text_value_def split: option.split)

lemma text_of_segments: "text_content m = concat (map (segment_plain \<circ> core_segment) (into_segments m))"
proof -
  have "concat (List.map_filter segment_text_value ss) = concat (map (segment_plain \<circ> core_segment) ss)" for ss
    by (induction ss) (simp_all add: map_filter_simps plain_core split: option.split)
  then show ?thesis
    by (cases m) (simp_all add: text_content_def into_segments_def plain_core)
qed

lemma de_message_event_fields:
  assumes "de_message_event v = Some m"
  shows "Option.bind (json_get (lit ''message_type'') v) json_str = Some (oe_message_type m)"
    "Option.bind (json_get (lit ''user_id'') v) de_onebot_id = Some (oe_user_id m)"
    "Option.bind (json_get (lit ''message_id'') v) de_onebot_id = Some (oe_message_id m)"
    "oe_group_id m = Some g \<Longrightarrow> Option.bind (json_get (lit ''group_id'') v) de_onebot_id = Some g"
proof -
  from assms obtain m0 where v: "v = J_Object m0" by (cases v) (auto simp: de_message_event_def json_object_def)
  with assms have f: "field json_str (lit ''message_type'') m0 = Some (oe_message_type m)"
    "field de_onebot_id (lit ''user_id'') m0 = Some (oe_user_id m)"
    "field de_onebot_id (lit ''message_id'') m0 = Some (oe_message_id m)"
    "field_or None (de_option de_onebot_id) (lit ''group_id'') m0 = Some (oe_group_id m)"
    by (auto simp: de_message_event_def json_object_def Option.bind_eq_Some_conv simp del: lit_Cons)
  then show "Option.bind (json_get (lit ''message_type'') v) json_str = Some (oe_message_type m)"
    "Option.bind (json_get (lit ''user_id'') v) de_onebot_id = Some (oe_user_id m)"
    "Option.bind (json_get (lit ''message_id'') v) de_onebot_id = Some (oe_message_id m)"
    by (simp_all add: v json_get_def field_def del: lit_Cons)
  show "oe_group_id m = Some g \<Longrightarrow> Option.bind (json_get (lit ''group_id'') v) de_onebot_id = Some g"
    using f(4) by (auto simp: v json_get_def field_or_def de_option_def simp del: lit_Cons split: option.splits if_splits)
qed

text \<open>The message that a JSON value states, field by field.\<close>

definition message_stated :: "json \<Rightarrow> json common_message \<Rightarrow> bool" where
  "message_stated v m \<longleftrightarrow>
     Option.bind (json_get (lit ''message_id'') v) de_onebot_id = Some (message_id m) \<and>
     Option.bind (json_get (lit ''user_id'') v) de_onebot_id = Some (sender_id (msg_sender m)) \<and>
     (case target m of
        Target_Group g \<Rightarrow> Option.bind (json_get (lit ''message_type'') v) json_str = Some (lit ''group'') \<and>
          Option.bind (json_get (lit ''group_id'') v) de_onebot_id = Some g
      | Target_Private u \<Rightarrow> Option.bind (json_get (lit ''message_type'') v) json_str = Some (lit ''private'') \<and>
          u = sender_id (msg_sender m)
      | _ \<Rightarrow> False)"

lemma parse_kind:
  "parse_onebot_event v = Inr o' \<Longrightarrow>
     (\<exists>m. o' = OneBot_Message m) \<longleftrightarrow> Option.bind (json_get (lit ''post_type'') v) json_str = Some (lit ''message'')"
  by (auto simp: parse_onebot_event_def decoded_def map_sum_def str_simps simp del: lit_Cons
      split: option.splits if_splits sum.splits)

lemma mapped_kind: "mapped_event L a v o' = Inr (i, ev) \<Longrightarrow> (\<exists>m. o' = OneBot_Message m) \<longleftrightarrow> (\<exists>c. ev = Event_Message c)"
  by (cases o') (auto simp: mapped_event_def map_sum_def split: sum.splits)

text \<open>A mapped event is bound to its adapter and keeps the frame it came from; and a mapped message is
  consistent: its plain text is the concatenation of its text segments, its target, sender and identifier are those
  that the frame states, and only the post type \<open>message\<close> makes one, so that the bot's own messages
  (\<open>message_sent\<close>) never come back as messages.\<close>

theorem mapped_events_consistent:
  assumes "map_onebot_event L a v = Inr (Some e)"
  shows "env_adapter e = a \<and> raw e = v \<and>
    (case env_event e of
       Event_Message m \<Rightarrow> msg_text m = concat (map segment_plain (segments m)) \<and> message_stated v m \<and>
         Option.bind (json_get (lit ''post_type'') v) json_str = Some (lit ''message'')
     | _ \<Rightarrow> Option.bind (json_get (lit ''post_type'') v) json_str \<noteq> Some (lit ''message''))"
proof -
  from assms obtain o' i where o': "parse_onebot_event v = Inr o'" "mapped_event L a v o' = Inr (i, env_event e)"
    and e: "env_adapter e = a" "raw e = v"
    by (auto simp: map_onebot_event_def map_sum_def split: sum.splits)
  show ?thesis
  proof (cases o')
    case (OneBot_Message m)
    then have post: "Option.bind (json_get (lit ''post_type'') v) json_str = Some (lit ''message'')"
      and m: "de_message_event v = Some m"
      using o'(1) by (auto simp: parse_onebot_event_def decoded_def map_sum_def str_simps
          split: option.splits if_splits sum.splits)
    obtain c where c: "map_message m = Inr c" "env_event e = Event_Message c"
      using o'(2) OneBot_Message by (auto simp: mapped_event_def map_sum_def split: sum.splits)
    have "message_stated v c" "msg_text c = concat (map segment_plain (segments c))"
      using c(1) de_message_event_fields [OF m]
      by (auto simp: map_message_def map_sum_def message_target_of_def message_stated_def text_of_segments
          split: sum.splits if_splits option.splits)
    with e c post show ?thesis by simp
  next
    case (OneBot_Unknown post r)
    with o'(2) mapped_kind [OF o'(2)] parse_kind [OF o'(1)] e show ?thesis by (auto split: event.split)
  qed (use mapped_kind [OF o'(2)] parse_kind [OF o'(1)] e in \<open>auto split: event.split\<close>)
qed

definition demo_frame :: json where
  "demo_frame = J_Object
     [(lit ''group_id'', J_Number [51]), (lit ''message'', J_Array [segment_json (segment_text [47, 112])]),
      (lit ''message_id'', J_Number [50]), (lit ''message_type'', J_String (lit ''group'')),
      (lit ''post_type'', J_String (lit ''message'')), (lit ''self_id'', J_Number [49]),
      (lit ''time'', J_Number [49, 55]), (lit ''user_id'', J_String (lit ''u''))]"

lemma demo_frame_mapped:
  "case map_onebot_event toy_onebot_libs [97] demo_frame of Inr (Some e) \<Rightarrow> True | _ \<Rightarrow> False"
  by code_simp

lemma mapped_events_consistent_witness:
  "\<exists>e. map_onebot_event toy_onebot_libs [97] demo_frame = Inr (Some e) \<and> env_adapter e = [97] \<and> raw e = demo_frame"
  using demo_frame_mapped mapped_events_consistent [of toy_onebot_libs "[97]" demo_frame]
  by (fastforce split: sum.splits option.splits)

end
