(* ===== verification/OneBotConn.thy ===== *)
theory OneBotConn
  imports OneBotProps
begin

text \<open>
  The reverse WebSocket connection of the OneBot 11 adapter (\<open>crates/adapter-onebot11/src/lib.rs\<close>): admission of
  actions (\<open>execute\<close>), the connection loop (\<open>run_connection\<close>), the event forwarder and the teardown, as a step
  system; and the slot that lets one connection in at a time. A step is what a task does between two awaits. The
  clock, the frames of the peer, the outcome of writes, fresh UUIDs and the queue of the runtime are what the
  environment chooses.
\<close>

section \<open>State\<close>

text \<open>
  A ticket is the response channel of one call of \<open>execute\<close>. An action with media holds one slot and as many bytes of
  the media budget as the medium has.
\<close>

record outbound_action =
  oa_ticket :: nat
  oa_action :: ustr
  oa_params :: json
  oa_deadline :: nat
  oa_media :: "nat option"

record pending_action =
  pa_ticket :: nat
  pa_deadline :: nat
  pa_media :: "nat option"

datatype action_answer = Answer_Response action_response | Answer_Error adapter_error

record onebot_config =
  oc_id :: adapter_id
  oc_loopback :: bool
  oc_access_token :: ustr
  oc_allow_insecure_remote :: bool
  oc_action_timeout :: nat
  oc_max_message_bytes :: nat
  oc_max_pending_actions :: nat

text \<open>The select loop runs, it awaits the write of an action, or the loop has ended and the events are flushed.\<close>

datatype conn_phase = Ph_Idle | Ph_Running | Ph_Writing ustr | Ph_Draining

text \<open>The forwarder waits for an event, holds one while the queue of the runtime is full, or has ended.\<close>

datatype forwarder = Fw_Idle | Fw_Holding "json event_envelope" | Fw_Done | Fw_Failed adapter_error

text \<open>
  The first fields are \<open>ConnectionState\<close> and the semaphores, shared by all tasks; then what the connection and its
  forwarder own. Of the last ones the code keeps nothing: what was answered, which tickets began to be sent
  (with the time and the deadline), what was received, given to the runtime or lost with a failed forwarder.
\<close>

record onebot_conn =
  cn_now :: nat
  cn_generation :: u64
  cn_published :: bool
  cn_queue_full :: bool
  cn_producer_waiting :: bool
  cn_slots :: nat
  cn_budget :: nat
  cn_ready :: bool
  cn_phase :: conn_phase
  cn_own :: u64
  cn_outbound :: "outbound_action list"
  cn_pending :: "(ustr, pending_action) hmap"
  cn_pending_events :: "json event_envelope list"
  cn_queued :: "json event_envelope list"
  cn_forwarder :: forwarder
  cn_result :: "adapter_error option"
  cn_encoding :: "(nat, json action \<times> nat) hmap"
  cn_next :: nat
  cn_answers :: "(nat \<times> action_answer) list"
  cn_sent :: "(nat \<times> nat \<times> nat) list"
  cn_received :: "json event_envelope list"
  cn_forwarded :: "json event_envelope list"
  cn_lost :: "json event_envelope list"
  cn_failures :: nat

definition max_pending_events_per_connection :: nat where
  "max_pending_events_per_connection = 64"

definition event_queue_capacity :: nat where
  "event_queue_capacity = max_pending_events_per_connection - 3"

definition max_queued_inline_media_bytes :: nat where
  "max_queued_inline_media_bytes = 16 * 1024 * 1024"

definition max_concurrent_inline_media :: nat where
  "max_concurrent_inline_media = 8"

text \<open>The checks of \<open>bind\<close>, and the adapter it makes.\<close>

definition check_onebot_config :: "onebot_config \<Rightarrow> adapter_error option" where
  "check_onebot_config c =
     (if oc_access_token c = []
      then Some (AE_Configuration (lit ''OneBot 11 access token must not be empty''))
      else if oc_max_message_bytes c = 0 \<or> oc_max_pending_actions c = 0
      then Some (AE_Configuration (lit ''OneBot 11 message and pending Action limits must be greater than zero''))
      else if oc_action_timeout c = 0
      then Some (AE_Configuration (lit ''OneBot 11 action timeout must be greater than zero''))
      else if \<not> oc_loopback c \<and> \<not> oc_allow_insecure_remote c
      then Some (AE_Configuration
        (lit ''OneBot 11 non-loopback listener requires allow_insecure_remote because the adapter does not terminate TLS''))
      else None)"

definition new_onebot :: "nat \<Rightarrow> onebot_conn" where
  "new_onebot t =
     \<lparr>cn_now = t, cn_generation = 0, cn_published = False, cn_queue_full = False, cn_producer_waiting = False,
      cn_slots = max_concurrent_inline_media, cn_budget = max_queued_inline_media_bytes, cn_ready = False,
      cn_phase = Ph_Idle, cn_own = 0, cn_outbound = [], cn_pending = [], cn_pending_events = [], cn_queued = [],
      cn_forwarder = Fw_Done, cn_result = None, cn_encoding = [], cn_next = 0, cn_answers = [], cn_sent = [],
      cn_received = [], cn_forwarded = [],
      cn_lost = [], cn_failures = 0\<rparr>"

section \<open>Answers\<close>

text \<open>The media permits go back when the action that holds them is dropped.\<close>

definition release_media :: "nat option \<Rightarrow> onebot_conn \<Rightarrow> onebot_conn" where
  "release_media media s =
     (case media of
        None \<Rightarrow> s
      | Some n \<Rightarrow> s\<lparr>cn_slots := cn_slots s + 1, cn_budget := cn_budget s + n\<rparr>)"

definition answer :: "nat \<Rightarrow> nat option \<Rightarrow> action_answer \<Rightarrow> onebot_conn \<Rightarrow> onebot_conn" where
  "answer t media a s = release_media media (s\<lparr>cn_answers := cn_answers s @ [(t, a)]\<rparr>)"

definition not_sent :: "string \<Rightarrow> action_answer" where
  "not_sent m = Answer_Error (AE_Action (lit m))"

definition result_unknown :: "string \<Rightarrow> action_answer" where
  "result_unknown m = Answer_Error (AE_ActionUnknown (lit m))"

definition fail_unsent :: "onebot_conn \<Rightarrow> onebot_conn" where
  "fail_unsent s =
     (fold (\<lambda>a. answer (oa_ticket a) (oa_media a) (not_sent ''OneBot connection closed before Action was sent''))
        (cn_outbound s) s)\<lparr>cn_outbound := []\<rparr>"

definition fail_pending_unknown :: "onebot_conn \<Rightarrow> onebot_conn" where
  "fail_pending_unknown s =
     (fold (\<lambda>(_, p). answer (pa_ticket p) (pa_media p)
           (result_unknown ''OneBot connection closed before Action result''))
        (cn_pending s) s)\<lparr>cn_pending := []\<rparr>"

definition expire_pending :: "onebot_conn \<Rightarrow> onebot_conn" where
  "expire_pending s =
     fold (\<lambda>(k, p) s. answer (pa_ticket p) (pa_media p) (result_unknown ''OneBot Action result timed out'')
           (s\<lparr>cn_pending := hm_del k (cn_pending s)\<rparr>))
       (filter (\<lambda>(_, p). pa_deadline p \<le> cn_now s) (cn_pending s)) s"

section \<open>Admission of actions\<close>

definition media_guild_target :: "json action \<Rightarrow> bool" where
  "media_guild_target a =
     (case a of
        Action_ReplyMedia r \<Rightarrow> (case rm_target r of Target_Channel _ \<Rightarrow> True | Target_GuildDirect _ \<Rightarrow> True | _ \<Rightarrow> False)
      | Action_SendMedia m \<Rightarrow> (case sd_target m of Target_Channel _ \<Rightarrow> True | Target_GuildDirect _ \<Rightarrow> True | _ \<Rightarrow> False)
      | _ \<Rightarrow> False)"

text \<open>The critical section of \<open>execute\<close>: the connection is published, its events flow, its queue has room.\<close>

definition admit ::
    "onebot_config \<Rightarrow> ustr \<times> json \<Rightarrow> nat option \<Rightarrow> onebot_conn \<Rightarrow> (adapter_error + nat) \<times> onebot_conn" where
  "admit c req media s =
     (if \<not> cn_published s
      then (Inl (AE_Action (lit ''OneBot 11 reverse WebSocket is not connected'')), release_media media s)
      else if cn_queue_full s \<or> cn_producer_waiting s
      then (Inl (AE_Action (lit ''OneBot event queue is backpressured; Action was not sent'')), release_media media s)
      else if length (cn_outbound s) \<ge> oc_max_pending_actions c
      then (Inl (AE_Action (lit ''OneBot Action queue unavailable: no available capacity'')), release_media media s)
      else
        (Inr (cn_next s),
         s\<lparr>cn_outbound := cn_outbound s @ [\<lparr>oa_ticket = cn_next s, oa_action = fst req, oa_params = snd req,
              oa_deadline = cn_now s + oc_action_timeout c, oa_media = media\<rparr>],
           cn_next := cn_next s + 1\<rparr>))"

text \<open>\<open>execute\<close> of an action without media, up to the wait for its response.\<close>

definition execute_plain ::
    "onebot_libs \<Rightarrow> onebot_config \<Rightarrow> json action \<Rightarrow> onebot_conn \<Rightarrow> (adapter_error + nat) \<times> onebot_conn" where
  "execute_plain L c a s =
     (case action_request L a of Inl e \<Rightarrow> (Inl e, s) | Inr req \<Rightarrow> admit c req None s)"

text \<open>With media: the permits are taken before the request is encoded by a blocking task.\<close>

definition execute_media :: "json action \<Rightarrow> media_attachment \<Rightarrow> nat \<Rightarrow> onebot_conn \<Rightarrow> (adapter_error + unit) \<times> onebot_conn" where
  "execute_media a m k s =
     (if media_guild_target a then (Inl guild_target_error, s)
      else
        (case validate_onebot_image m of
           Some e \<Rightarrow> (Inl e, s)
         | None \<Rightarrow>
             if cn_slots s = 0
             then (Inl (AE_Action (lit ''OneBot inline media concurrency limit reached'')), s)
             else if cn_budget s < length (media_data m)
             then (Inl (AE_Action (lit ''OneBot inline media byte budget is exhausted'')), s)
             else
               (Inr (),
                s\<lparr>cn_slots := cn_slots s - 1, cn_budget := cn_budget s - length (media_data m),
                  cn_encoding := hm_put k (a, length (media_data m)) (cn_encoding s)\<rparr>)))"

definition execute_encoded ::
    "onebot_libs \<Rightarrow> onebot_config \<Rightarrow> nat \<Rightarrow> json action \<Rightarrow> nat \<Rightarrow> onebot_conn \<Rightarrow> (adapter_error + nat) \<times> onebot_conn" where
  "execute_encoded L c k a n s =
     (let s1 = s\<lparr>cn_encoding := hm_del k (cn_encoding s)\<rparr>
      in case action_request L a of
           Inl e \<Rightarrow> (Inl e, release_media (Some n) s1)
         | Inr req \<Rightarrow> admit c req (Some n) s1)"

text \<open>What the caller is told of an answer, of a wait that was too long, and of a channel that was dropped.\<close>

definition execute_result :: "action_answer option timed \<Rightarrow> adapter_error + json action_result" where
  "execute_result r =
     (case r of
        Elapsed \<Rightarrow> Inl (AE_ActionUnknown (lit ''OneBot Action result timed out''))
      | Completed None \<Rightarrow> Inl (AE_ActionUnknown (lit ''OneBot Action result channel closed''))
      | Completed (Some (Answer_Error e)) \<Rightarrow> Inl e
      | Completed (Some (Answer_Response p)) \<Rightarrow>
          if response_succeeded p
          then Inr \<lparr>result_message_id = response_message_id p, result_raw = response_json p\<rparr>
          else Inl (AE_Action (safe_error p)))"

section \<open>Transmission\<close>

text \<open>
  \<open>transmit_action\<close> up to the write: an action that is too late or does not fit is answered, any other is pending
  under a fresh echo while it is written. The text of an encoding error is the library's.
\<close>

definition transmit_begin :: "onebot_config \<Rightarrow> ustr \<Rightarrow> ustr option \<Rightarrow> outbound_action \<Rightarrow> onebot_conn \<Rightarrow> onebot_conn" where
  "transmit_begin c echo encoding_error a s =
     (if oa_deadline a \<le> cn_now s
      then answer (oa_ticket a) (oa_media a) (not_sent ''OneBot action expired before it was sent'') s
      else if hm_len (cn_pending s) \<ge> oc_max_pending_actions c
      then answer (oa_ticket a) (oa_media a) (not_sent ''OneBot pending Action limit reached'') s
      else
        (case encoding_error of
           Some e \<Rightarrow> answer (oa_ticket a) (oa_media a) (Answer_Error (AE_Action e)) s
         | None \<Rightarrow>
             s\<lparr>cn_pending := hm_put echo \<lparr>pa_ticket = oa_ticket a, pa_deadline = oa_deadline a, pa_media = oa_media a\<rparr>
                  (cn_pending s),
               cn_sent := cn_sent s @ [(oa_ticket a, cn_now s, oa_deadline a)],
               cn_phase := Ph_Writing echo\<rparr>))"

section \<open>The connection\<close>

definition connect :: "onebot_conn \<Rightarrow> onebot_conn" where
  "connect s =
     s\<lparr>cn_generation := cn_generation s + 1, cn_own := cn_generation s + 1, cn_published := True, cn_ready := True,
       cn_phase := Ph_Running, cn_outbound := [], cn_pending := [], cn_pending_events := [], cn_queued := [],
       cn_forwarder := Fw_Idle, cn_result := None\<rparr>"

definition unpublish :: "onebot_conn \<Rightarrow> onebot_conn" where
  "unpublish s =
     (if cn_generation s = cn_own s
      then s\<lparr>cn_published := False, cn_queue_full := False, cn_producer_waiting := False, cn_ready := False\<rparr>
      else s\<lparr>cn_ready := False\<rparr>)"

text \<open>The loop ends with a result: no action is taken or sent any more, every one is answered.\<close>

definition teardown :: "adapter_error option \<Rightarrow> onebot_conn \<Rightarrow> onebot_conn" where
  "teardown r s = (fail_pending_unknown (fail_unsent (unpublish s)))\<lparr>cn_phase := Ph_Draining, cn_result := r\<rparr>"

text \<open>The write of the pending action ends.\<close>

definition transmit_end :: "ustr \<Rightarrow> adapter_error option \<Rightarrow> onebot_conn \<Rightarrow> onebot_conn" where
  "transmit_end echo r s =
     (case r of
        None \<Rightarrow> s\<lparr>cn_phase := Ph_Running\<rparr>
      | Some e \<Rightarrow>
          teardown (Some e)
            (case hm_get (cn_pending s) echo of
               None \<Rightarrow> s
             | Some p \<Rightarrow>
                 answer (pa_ticket p) (pa_media p)
                   (result_unknown ''OneBot connection closed after Action transmission started'')
                   (s\<lparr>cn_pending := hm_del echo (cn_pending s)\<rparr>)))"

definition forwarder_alive :: "forwarder \<Rightarrow> bool" where
  "forwarder_alive f = (case f of Fw_Idle \<Rightarrow> True | Fw_Holding _ \<Rightarrow> True | _ \<Rightarrow> False)"

definition enqueue_local_event :: "json event_envelope \<Rightarrow> onebot_conn \<Rightarrow> adapter_error option \<times> onebot_conn" where
  "enqueue_local_event e s =
     (if \<not> forwarder_alive (cn_forwarder s) then (Some AE_EventQueueClosed, s)
      else if length (cn_queued s) < event_queue_capacity
      then (None, s\<lparr>cn_queued := cn_queued s @ [e], cn_received := cn_received s @ [e],
                    cn_queue_full := (length (cn_queued s) + 1 = event_queue_capacity)\<rparr>)
      else (None, s\<lparr>cn_pending_events := cn_pending_events s @ [e], cn_received := cn_received s @ [e],
                    cn_queue_full := True, cn_producer_waiting := True\<rparr>))"

text \<open>\<open>handle_text\<close>: a frame that is no JSON ends the connection, one that cannot be used is ignored.\<close>

definition handle_text :: "onebot_libs \<Rightarrow> onebot_config \<Rightarrow> ustr + json \<Rightarrow> onebot_conn \<Rightarrow> adapter_error option \<times> onebot_conn" where
  "handle_text L c frame s =
     (case frame of
        Inl e \<Rightarrow> (Some (AE_Transport (lit ''invalid OneBot JSON: '' @ e)), s)
      | Inr v \<Rightarrow>
          if response_like v then
            (case de_action_response v of
               None \<Rightarrow> (None, s)
             | Some r \<Rightarrow>
                 (case echo_key r of
                    None \<Rightarrow> (None, s)
                  | Some echo \<Rightarrow>
                      (case hm_get (cn_pending s) echo of
                         None \<Rightarrow> (None, s)
                       | Some p \<Rightarrow>
                           (None, answer (pa_ticket p) (pa_media p) (Answer_Response r)
                                    (s\<lparr>cn_pending := hm_del echo (cn_pending s)\<rparr>)))))
          else
            (case map_onebot_event L (oc_id c) v of
               Inr (Some e) \<Rightarrow> enqueue_local_event e s
             | Inr None \<Rightarrow> (None, s)
             | Inl _ \<Rightarrow> (None, s)))"

text \<open>The branch of the loop that reads: with two events waiting it will not read again, so no action may wait.\<close>

definition read_text :: "onebot_libs \<Rightarrow> onebot_config \<Rightarrow> ustr + json \<Rightarrow> onebot_conn \<Rightarrow> onebot_conn" where
  "read_text L c frame s =
     (case handle_text L c frame s of
        (Some e, s1) \<Rightarrow> teardown (Some e) s1
      | (None, s1) \<Rightarrow>
          if length (cn_pending_events s1) = 2 then fail_pending_unknown (fail_unsent s1) else s1)"

text \<open>A waiting event gets its place in the queue.\<close>

definition flush_event :: "onebot_conn \<Rightarrow> onebot_conn" where
  "flush_event s =
     (case cn_pending_events s of
        [] \<Rightarrow> s
      | e # es \<Rightarrow>
          s\<lparr>cn_queued := cn_queued s @ [e], cn_pending_events := es,
            cn_queue_full := (length (cn_queued s) + 1 = event_queue_capacity), cn_producer_waiting := (es \<noteq> [])\<rparr>)"

definition drain_event :: "onebot_conn \<Rightarrow> onebot_conn" where
  "drain_event s =
     (case cn_pending_events s of
        [] \<Rightarrow> s
      | e # es \<Rightarrow> s\<lparr>cn_queued := cn_queued s @ [e], cn_pending_events := es\<rparr>)"

text \<open>
  The forwarder takes an event. Its capacity check sees a full queue also when the place that became free is
  given to the event that waits.
\<close>

definition forward_take :: "bool \<Rightarrow> onebot_conn \<Rightarrow> onebot_conn" where
  "forward_take given s =
     (case cn_queued s of
        [] \<Rightarrow> s
      | e # es \<Rightarrow>
          s\<lparr>cn_queued := es, cn_forwarder := Fw_Holding e,
            cn_queue_full := (length es + (if given \<and> cn_pending_events s \<noteq> [] then 1 else 0) = event_queue_capacity)\<rparr>)"

definition forward_sent :: "onebot_conn \<Rightarrow> onebot_conn" where
  "forward_sent s =
     (case cn_forwarder s of
        Fw_Holding e \<Rightarrow> s\<lparr>cn_forwarder := Fw_Idle, cn_forwarded := cn_forwarded s @ [e]\<rparr>
      | _ \<Rightarrow> s)"

text \<open>The forwarder ends with an error, when the runtime takes no more events; the event it holds is gone.\<close>

definition forwarder_fail :: "adapter_error \<Rightarrow> onebot_conn \<Rightarrow> onebot_conn" where
  "forwarder_fail e s =
     s\<lparr>cn_forwarder := Fw_Failed e, cn_failures := cn_failures s + 1,
       cn_lost := cn_lost s @ (case cn_forwarder s of Fw_Holding x \<Rightarrow> [x] | _ \<Rightarrow> [])\<rparr>"

text \<open>The connection is over: what could not be flushed is dropped, and an error of the forwarder is reported.\<close>

definition finish_connection :: "onebot_conn \<Rightarrow> onebot_conn" where
  "finish_connection s =
     s\<lparr>cn_phase := Ph_Idle, cn_queued := [], cn_pending_events := [],
       cn_lost := cn_lost s @ cn_queued s @ cn_pending_events s,
       cn_result :=
         (case cn_result s of
            Some e \<Rightarrow> Some e
          | None \<Rightarrow>
              if cn_pending_events s \<noteq> [] then Some AE_EventQueueClosed
              else (case cn_forwarder s of Fw_Failed e \<Rightarrow> Some e | _ \<Rightarrow> None))\<rparr>"

section \<open>Steps\<close>

inductive onebot_step :: "onebot_libs \<Rightarrow> onebot_config \<Rightarrow> onebot_conn \<Rightarrow> onebot_conn \<Rightarrow> bool" for L c where
  tick: "onebot_step L c s (s\<lparr>cn_now := cn_now s + n\<rparr>)"
| call_plain: "action_media_attachment a = None \<Longrightarrow> onebot_step L c s (snd (execute_plain L c a s))"
| call_media: "\<lbrakk>action_media_attachment a = Some m; hm_get (cn_encoding s) k = None\<rbrakk> \<Longrightarrow>
    onebot_step L c s (snd (execute_media a m k s))"
| call_encoded: "hm_get (cn_encoding s) k = Some (a, n) \<Longrightarrow> onebot_step L c s (snd (execute_encoded L c k a n s))"
| call_dropped: "hm_get (cn_encoding s) k = Some (a, n) \<Longrightarrow>
    onebot_step L c s (release_media (Some n) (s\<lparr>cn_encoding := hm_del k (cn_encoding s)\<rparr>))"
| connected: "cn_phase s = Ph_Idle \<Longrightarrow> onebot_step L c s (connect s)"
| stops: "cn_phase s = Ph_Running \<Longrightarrow> onebot_step L c s (teardown r s)"
| expires: "cn_phase s = Ph_Running \<Longrightarrow> onebot_step L c s (expire_pending s)"
| write_begins: "\<lbrakk>cn_phase s = Ph_Running; cn_outbound s = a # rest; hm_get (cn_pending s) echo = None\<rbrakk> \<Longrightarrow>
    onebot_step L c s (transmit_begin c echo e a (s\<lparr>cn_outbound := rest\<rparr>))"
| write_ends: "cn_phase s = Ph_Writing echo \<Longrightarrow> onebot_step L c s (transmit_end echo r s)"
| reads: "\<lbrakk>cn_phase s = Ph_Running; length (cn_pending_events s) < 2\<rbrakk> \<Longrightarrow> onebot_step L c s (read_text L c frame s)"
| flushes: "\<lbrakk>cn_phase s = Ph_Running; cn_pending_events s \<noteq> []; forwarder_alive (cn_forwarder s);
    length (cn_queued s) < event_queue_capacity\<rbrakk> \<Longrightarrow> onebot_step L c s (flush_event s)"
| takes: "\<lbrakk>cn_forwarder s = Fw_Idle; cn_queued s \<noteq> []\<rbrakk> \<Longrightarrow> onebot_step L c s (forward_take given s)"
| forwards: "cn_forwarder s = Fw_Holding e \<Longrightarrow> onebot_step L c s (forward_sent s)"
| forwarder_fails: "forwarder_alive (cn_forwarder s) \<Longrightarrow> onebot_step L c s (forwarder_fail e s)"
| drains: "\<lbrakk>cn_phase s = Ph_Draining; cn_pending_events s \<noteq> []; forwarder_alive (cn_forwarder s);
    length (cn_queued s) < event_queue_capacity\<rbrakk> \<Longrightarrow> onebot_step L c s (drain_event s)"
| forwarder_ends: "\<lbrakk>cn_phase s = Ph_Draining; cn_pending_events s = []; cn_queued s = []; cn_forwarder s = Fw_Idle\<rbrakk> \<Longrightarrow>
    onebot_step L c s (s\<lparr>cn_forwarder := Fw_Done\<rparr>)"
| finishes: "\<lbrakk>cn_phase s = Ph_Draining; \<not> forwarder_alive (cn_forwarder s)\<rbrakk> \<Longrightarrow> onebot_step L c s (finish_connection s)"

inductive onebot_reachable :: "onebot_libs \<Rightarrow> onebot_config \<Rightarrow> onebot_conn \<Rightarrow> bool" for L c where
  onebot_start: "onebot_reachable L c (new_onebot t)"
| onebot_next: "onebot_reachable L c s \<Longrightarrow> onebot_step L c s s' \<Longrightarrow> onebot_reachable L c s'"

section \<open>What answering does\<close>

definition media_count :: "nat option list \<Rightarrow> nat" where
  "media_count ms = length (filter (\<lambda>m. m \<noteq> None) ms)"

definition media_total :: "nat option list \<Rightarrow> nat" where
  "media_total ms = sum_list (List.map_filter id ms)"

lemma media_simps [simp]:
  "media_count [] = 0" "media_count (None # ms) = media_count ms" "media_count (Some n # ms) = Suc (media_count ms)"
  "media_count (ms @ ns) = media_count ms + media_count ns"
  "media_total [] = 0" "media_total (None # ms) = media_total ms" "media_total (Some n # ms) = n + media_total ms"
  "media_total (ms @ ns) = media_total ms + media_total ns"
  by (simp_all add: media_count_def media_total_def map_filter_simps map_filter_def)

definition answered :: "(nat \<times> action_answer) list \<Rightarrow> nat option list \<Rightarrow> onebot_conn \<Rightarrow> onebot_conn" where
  "answered as ms s =
     s\<lparr>cn_answers := cn_answers s @ as, cn_slots := cn_slots s + media_count ms, cn_budget := cn_budget s + media_total ms\<rparr>"

lemma answered_simps [simp]:
  "cn_answers (answered as ms s) = cn_answers s @ as" "cn_slots (answered as ms s) = cn_slots s + media_count ms"
  "cn_budget (answered as ms s) = cn_budget s + media_total ms"
  "answered as ms (answered bs ns s) = answered (bs @ as) (ns @ ms) s"
  by (simp_all add: answered_def)

lemma answered_frame [simp]:
  "cn_now (answered as ms s) = cn_now s" "cn_generation (answered as ms s) = cn_generation s"
  "cn_published (answered as ms s) = cn_published s" "cn_queue_full (answered as ms s) = cn_queue_full s"
  "cn_producer_waiting (answered as ms s) = cn_producer_waiting s" "cn_phase (answered as ms s) = cn_phase s"
  "cn_own (answered as ms s) = cn_own s" "cn_outbound (answered as ms s) = cn_outbound s"
  "cn_pending (answered as ms s) = cn_pending s" "cn_pending_events (answered as ms s) = cn_pending_events s"
  "cn_queued (answered as ms s) = cn_queued s" "cn_forwarder (answered as ms s) = cn_forwarder s"
  "cn_encoding (answered as ms s) = cn_encoding s" "cn_next (answered as ms s) = cn_next s"
  "cn_sent (answered as ms s) = cn_sent s" "cn_received (answered as ms s) = cn_received s"
  "cn_forwarded (answered as ms s) = cn_forwarded s" "cn_lost (answered as ms s) = cn_lost s"
  "cn_failures (answered as ms s) = cn_failures s"
  by (simp_all add: answered_def)

lemma answer_eq: "answer t m a s = answered [(t, a)] [m] s"
  by (simp add: answer_def release_media_def answered_def split: option.split)

lemma fold_answer: "fold (\<lambda>x. answer (t x) (m x) a) xs s = answered (map (\<lambda>x. (t x, a)) xs) (map m xs) s"
proof (induction xs arbitrary: s)
  case Nil
  then show ?case by (simp add: answered_def)
next
  case (Cons x xs)
  then show ?case by (cases "m x") (simp_all add: answer_eq answered_def)
qed

lemma fail_unsent_eq:
  "fail_unsent s =
     (answered (map (\<lambda>a. (oa_ticket a, not_sent ''OneBot connection closed before Action was sent'')) (cn_outbound s))
        (map oa_media (cn_outbound s)) s)\<lparr>cn_outbound := []\<rparr>"
  by (simp add: fail_unsent_def fold_answer)

lemma fail_pending_eq:
  "fail_pending_unknown s =
     (answered (map (\<lambda>p. (pa_ticket (snd p), result_unknown ''OneBot connection closed before Action result'')) (cn_pending s))
        (map (\<lambda>p. pa_media (snd p)) (cn_pending s)) s)\<lparr>cn_pending := []\<rparr>"
  by (simp add: fail_pending_unknown_def fold_answer case_prod_unfold)

lemma expire_fold:
  "fold (\<lambda>(k, p) s. answer (pa_ticket p) (pa_media p) a (s\<lparr>cn_pending := hm_del k (cn_pending s)\<rparr>)) xs s =
     (answered (map (\<lambda>p. (pa_ticket (snd p), a)) xs) (map (\<lambda>p. pa_media (snd p)) xs) s)
       \<lparr>cn_pending := filter (\<lambda>p. fst p \<notin> fst ` set xs) (cn_pending s)\<rparr>"
proof (induction xs arbitrary: s)
  case Nil
  then show ?case by (simp add: answered_def)
next
  case (Cons x xs)
  have del: "filter P (hm_del k m) = filter (\<lambda>p. fst p \<noteq> k \<and> P p) m" for P k and m :: "(ustr, pending_action) hmap"
    by (auto simp: hm_del_def AList.delete_eq intro: filter_cong)
  show ?case
    unfolding fold_simps case_prod_unfold Cons.IH [unfolded case_prod_unfold]
    by (cases "pa_media (snd x)") (simp_all add: answer_eq answered_def del)
qed

lemma expire_eq:
  assumes "hm_wf (cn_pending s)"
  defines "xs \<equiv> filter (\<lambda>p. pa_deadline (snd p) \<le> cn_now s) (cn_pending s)"
  shows "expire_pending s =
     (answered (map (\<lambda>p. (pa_ticket (snd p), result_unknown ''OneBot Action result timed out'')) xs)
        (map (\<lambda>p. pa_media (snd p)) xs) s)
       \<lparr>cn_pending := filter (\<lambda>p. \<not> pa_deadline (snd p) \<le> cn_now s) (cn_pending s)\<rparr>"
proof -
  have "fst p \<notin> fst ` set xs \<longleftrightarrow> \<not> pa_deadline (snd p) \<le> cn_now s" if "p \<in> set (cn_pending s)" for p
    using that assms(1) unfolding xs_def hm_wf_def by (auto simp: image_iff) (metis eq_key_imp_eq_value prod.collapse)
  then have "filter (\<lambda>p. fst p \<notin> fst ` set xs) (cn_pending s) = filter (\<lambda>p. \<not> pa_deadline (snd p) \<le> cn_now s) (cn_pending s)"
    by (intro filter_cong) auto
  then show ?thesis
    unfolding expire_pending_def expire_fold by (simp add: xs_def case_prod_unfold)
qed

end
