(* ===== verification/OneBotConnProps.thy ===== *)
theory OneBotConnProps
  imports OneBotConn "HOL-Library.Multiset"
begin

text \<open>
  What the connection of the OneBot 11 adapter keeps in every reachable state: actions are answered once and a
  refused one was never sent, memory and media are bounded, no event is lost or doubled while the runtime takes
  events, back pressure holds actions off exactly while events wait; and that events can overtake each other.
\<close>

section \<open>Flow\<close>

text \<open>The limits, and what the phases of the connection mean for its queues and for the shared flags.\<close>

definition flow_inv :: "onebot_config \<Rightarrow> onebot_conn \<Rightarrow> bool" where
  "flow_inv c s \<longleftrightarrow>
     length (cn_outbound s) \<le> oc_max_pending_actions c \<and> hm_len (cn_pending s) \<le> oc_max_pending_actions c \<and>
     length (cn_queued s) \<le> event_queue_capacity \<and> length (cn_pending_events s) \<le> 2 \<and>
     cn_own s = cn_generation s \<and> hm_wf (cn_pending s) \<and>
     (cn_published s \<longleftrightarrow> cn_phase s \<noteq> Ph_Idle \<and> cn_phase s \<noteq> Ph_Draining) \<and>
     (\<not> cn_published s \<longrightarrow> cn_outbound s = [] \<and> cn_pending s = [] \<and> \<not> cn_producer_waiting s) \<and>
     (cn_published s \<longrightarrow> (cn_producer_waiting s \<longleftrightarrow> cn_pending_events s \<noteq> [])) \<and>
     (length (cn_pending_events s) = 2 \<longrightarrow> cn_outbound s = [] \<and> cn_pending s = []) \<and>
     (cn_phase s = Ph_Idle \<longrightarrow> cn_queued s = [] \<and> cn_pending_events s = [] \<and> \<not> forwarder_alive (cn_forwarder s)) \<and>
     (cn_forwarder s = Fw_Done \<longrightarrow> cn_queued s = [] \<and> cn_pending_events s = [])"

lemma flow_new: "flow_inv c (new_onebot t)"
  by (simp add: flow_inv_def new_onebot_def hm_wf_def hm_len_def event_queue_capacity_def forwarder_alive_def)

lemma hm_len_put_le: "hm_wf m \<Longrightarrow> hm_len (hm_put k v m) \<le> Suc (hm_len m)"
  using hm.len_del_le [of m k] by (simp add: hm_len_put)

lemma flow_frame [simp]:
  "flow_inv c (release_media m s) = flow_inv c s" "flow_inv c (answered as ms s) = flow_inv c s"
  "flow_inv c (s\<lparr>cn_encoding := en\<rparr>) = flow_inv c s" "flow_inv c (s\<lparr>cn_now := t\<rparr>) = flow_inv c s"
  by (simp_all add: flow_inv_def release_media_def answered_def split: option.split)

lemma flow_admit: "flow_inv c s \<Longrightarrow> flow_inv c (snd (admit c req m s))"
  by (simp add: admit_def) (auto simp: flow_inv_def)

lemma flow_media: "flow_inv c s \<Longrightarrow> flow_inv c (snd (execute_media a m k s))"
  by (simp add: execute_media_def split: option.split) (simp add: flow_inv_def)

lemma flow_unsent: "flow_inv c s \<Longrightarrow> flow_inv c (fail_unsent s)"
  by (simp add: fail_unsent_eq) (simp add: flow_inv_def)

lemma flow_pending: "flow_inv c s \<Longrightarrow> flow_inv c (fail_pending_unknown s)"
  by (simp add: fail_pending_eq) (simp add: flow_inv_def hm_wf_def hm_len_def)

lemma fail_both_eq:
  "fail_pending_unknown (fail_unsent s) =
     answered (map (\<lambda>a. (oa_ticket a, not_sent ''OneBot connection closed before Action was sent'')) (cn_outbound s) @
         map (\<lambda>p. (pa_ticket (snd p), result_unknown ''OneBot connection closed before Action result'')) (cn_pending s))
       (map oa_media (cn_outbound s) @ map (\<lambda>p. pa_media (snd p)) (cn_pending s)) (s\<lparr>cn_outbound := [], cn_pending := []\<rparr>)"
  by (simp add: fail_unsent_eq fail_pending_eq answered_def)

text \<open>The teardown needs only a part of it.\<close>

lemma flow_teardown:
  assumes "length (cn_queued s) \<le> event_queue_capacity" "length (cn_pending_events s) \<le> 2" "cn_own s = cn_generation s"
    "cn_forwarder s = Fw_Done \<longrightarrow> cn_queued s = [] \<and> cn_pending_events s = []"
  shows "flow_inv c (teardown r s)"
  using assms
  by (simp add: teardown_def fail_unsent_eq fail_pending_eq unpublish_def flow_inv_def hm_wf_def hm_len_def)

lemma flow_expire:
  assumes "flow_inv c s"
  shows "flow_inv c (expire_pending s)"
proof -
  have w: "hm_wf (cn_pending s)" using assms by (simp add: flow_inv_def)
  let ?m = "filter (\<lambda>p. \<not> pa_deadline (snd p) \<le> cn_now s) (cn_pending s)"
  have "hm_wf ?m" "hm_len ?m \<le> hm_len (cn_pending s)"
    using w by (simp_all add: hm_wf_def hm_len_def distinct_map_filter)
  then show ?thesis using assms by (auto simp: expire_eq [OF w] flow_inv_def)
qed

text \<open>A response takes its action out; an event is taken by the queue or waits.\<close>

lemma flow_removed: "flow_inv c s \<Longrightarrow> flow_inv c (s\<lparr>cn_pending := hm_del k (cn_pending s)\<rparr>)"
proof -
  assume inv: "flow_inv c s"
  then have w: "hm_wf (cn_pending s)" by (simp add: flow_inv_def)
  from hm.len_del_le [OF w] hm.wf_del [OF w] have
    "hm_len (hm_del k (cn_pending s)) \<le> hm_len (cn_pending s)" "hm_wf (hm_del k (cn_pending s))" by auto
  moreover have "cn_pending s = [] \<longrightarrow> hm_del k (cn_pending s) = []" by (simp add: hm_del_def)
  ultimately show ?thesis using inv by (auto simp: flow_inv_def)
qed

definition read_inv :: "onebot_config \<Rightarrow> onebot_conn \<Rightarrow> bool" where
  "read_inv c s \<longleftrightarrow> flow_inv c (s\<lparr>cn_outbound := [], cn_pending := []\<rparr>) \<and> (length (cn_pending_events s) < 2 \<longrightarrow> flow_inv c s)"

lemma read_inv_flow: "flow_inv c s \<Longrightarrow> read_inv c s"
  by (simp add: read_inv_def) (simp add: flow_inv_def hm_wf_def hm_len_def)

lemma read_enqueue:
  assumes "flow_inv c s" "cn_published s" "length (cn_pending_events s) < 2"
  shows "read_inv c (snd (enqueue_local_event e s))"
proof -
  from assms show ?thesis
    by (simp add: enqueue_local_event_def read_inv_flow)
      (simp add: read_inv_def flow_inv_def hm_wf_def hm_len_def forwarder_alive_def split: forwarder.split)
qed

lemma read_handle:
  assumes "flow_inv c s" "cn_published s" "length (cn_pending_events s) < 2"
  shows "read_inv c (snd (handle_text L c frame s))"
  using assms read_enqueue [OF assms] read_inv_flow flow_removed
  by (simp add: handle_text_def answer_eq split: sum.split option.split)

lemma flow_read:
  assumes "flow_inv c s" "cn_published s" "length (cn_pending_events s) < 2"
  shows "flow_inv c (read_text L c frame s)"
proof -
  obtain e s1 where h: "handle_text L c frame s = (e, s1)" by fastforce
  with read_handle [OF assms, of L frame] have r: "read_inv c s1" by simp
  then have "flow_inv c (teardown x s1)" for x
    by (intro flow_teardown) (simp_all add: read_inv_def flow_inv_def)
  moreover have "flow_inv c (fail_pending_unknown (fail_unsent s1))"
    using r by (simp add: fail_both_eq read_inv_def)
  moreover have "length (cn_pending_events s1) \<le> 2" using r by (simp add: read_inv_def flow_inv_def)
  ultimately show ?thesis using h r by (auto simp: read_text_def read_inv_def split: option.split)
qed

lemma flow_step:
  assumes "onebot_step L c s s'" "flow_inv c s"
  shows "flow_inv c s'"
  using assms
proof cases
  case (call_plain a)
  then show ?thesis using assms(2) by (simp add: execute_plain_def flow_admit split: sum.split)
next
  case (call_media a m k)
  then show ?thesis using assms(2) flow_media by simp
next
  case (call_encoded k a n)
  then show ?thesis using assms(2) by (simp add: execute_encoded_def flow_admit Let_def split: sum.split)
next
  case connected
  then show ?thesis using assms(2) by (simp add: flow_inv_def connect_def forwarder_alive_def hm_wf_def hm_len_def)
next
  case (stops r)
  have "flow_inv c (teardown r s)" using assms(2) by (intro flow_teardown) (simp_all add: flow_inv_def)
  with stops show ?thesis by simp
next
  case (write_begins a rest echo e)
  have "flow_inv c (s\<lparr>cn_outbound := rest\<rparr>)" using assms(2) write_begins by (auto simp: flow_inv_def)
  moreover have "flow_inv c (s\<lparr>cn_outbound := rest, cn_pending := hm_put echo p (cn_pending s), cn_sent := x, cn_phase := Ph_Writing echo\<rparr>)"
    if "hm_len (cn_pending s) < oc_max_pending_actions c" for p x
  proof -
    have "hm_wf (cn_pending s)" "length (cn_pending_events s) \<noteq> 2" using assms(2) write_begins by (auto simp: flow_inv_def)
    moreover from this(1) that have "hm_len (hm_put echo p (cn_pending s)) \<le> oc_max_pending_actions c"
      using hm_len_put_le [of "cn_pending s" echo p] by simp
    ultimately show ?thesis using assms(2) write_begins hm.wf_put [of "cn_pending s" echo p] by (simp add: flow_inv_def)
  qed
  ultimately show ?thesis using write_begins by (auto simp: transmit_begin_def answer_eq split: option.split)
next
  case (write_ends echo r)
  have "flow_inv c (s\<lparr>cn_phase := Ph_Running\<rparr>)" using assms(2) write_ends by (simp add: flow_inv_def)
  moreover have f: "length (cn_queued s) \<le> event_queue_capacity" "length (cn_pending_events s) \<le> 2"
    "cn_own s = cn_generation s" "cn_forwarder s = Fw_Done \<longrightarrow> cn_queued s = [] \<and> cn_pending_events s = []"
    using assms(2) by (simp_all add: flow_inv_def)
  then have "flow_inv c (teardown x s)" "flow_inv c (teardown x (answer t m a (s\<lparr>cn_pending := q\<rparr>)))" for x t m a q
    by (simp_all add: flow_teardown answer_eq)
  ultimately show ?thesis using write_ends by (simp add: transmit_end_def split: option.split)
next
  case (reads frame)
  moreover have "cn_published s" using assms(2) reads by (simp add: flow_inv_def)
  ultimately show ?thesis using flow_read [OF assms(2)] by simp
next
  case flushes
  then show ?thesis using assms(2)
    by (cases "cn_pending_events s") (auto simp: flow_inv_def flush_event_def forwarder_alive_def split: forwarder.splits)
next
  case (takes g)
  then show ?thesis using assms(2) by (cases "cn_queued s") (auto simp: flow_inv_def forward_take_def forwarder_alive_def)
next
  case (forwards e)
  then show ?thesis using assms(2) by (auto simp: flow_inv_def forward_sent_def forwarder_alive_def)
next
  case (forwarder_fails e)
  then show ?thesis using assms(2) by (auto simp: flow_inv_def forwarder_fail_def forwarder_alive_def)
next
  case drains
  then show ?thesis using assms(2)
    by (cases "cn_pending_events s") (auto simp: flow_inv_def drain_event_def forwarder_alive_def split: forwarder.splits)
next
  case forwarder_ends
  then show ?thesis using assms(2) by (auto simp: flow_inv_def)
next
  case finishes
  then show ?thesis using assms(2) by (auto simp: flow_inv_def finish_connection_def)
qed (use assms(2) flow_expire in auto)

section \<open>Tickets\<close>

definition refused :: "action_answer \<Rightarrow> bool" where
  "refused a \<longleftrightarrow> (case a of Answer_Error (AE_Action _) \<Rightarrow> True | _ \<Rightarrow> False)"

lemma refused_simps [simp]: "refused (not_sent m)" "\<not> refused (result_unknown m)" "\<not> refused (Answer_Response r)"
  "refused (Answer_Error (AE_Action t))"
  by (simp_all add: refused_def not_sent_def result_unknown_def)

definition tickets_ok ::
    "outbound_action list \<Rightarrow> (ustr, pending_action) hmap \<Rightarrow> (nat \<times> action_answer) list \<Rightarrow> (nat \<times> nat \<times> nat) list \<Rightarrow>
     nat \<Rightarrow> bool" where
  "tickets_ok out pend ans sent n \<longleftrightarrow>
     hm_wf pend \<and>
     mset (map oa_ticket out) + mset (map (\<lambda>p. pa_ticket (snd p)) pend) + mset (map fst ans) = mset [0..<n] \<and>
     distinct (map fst sent) \<and>
     (\<forall>a\<in>set out. oa_ticket a \<notin> fst ` set sent) \<and>
     (\<forall>p\<in>set pend. pa_ticket (snd p) \<in> fst ` set sent) \<and>
     (\<forall>x\<in>set ans. refused (snd x) \<longleftrightarrow> fst x \<notin> fst ` set sent) \<and>
     (\<forall>x\<in>set sent. fst x < n \<and> fst (snd x) < snd (snd x))"

definition tickets_inv :: "onebot_conn \<Rightarrow> bool" where
  "tickets_inv s \<longleftrightarrow> tickets_ok (cn_outbound s) (cn_pending s) (cn_answers s) (cn_sent s) (cn_next s)"

text \<open>Some actions are answered: those that were not sent with a refusal, the pending ones with anything else.\<close>

lemma tickets_settle:
  assumes ok: "tickets_ok out pend ans sent n"
    and split: "mset out = mset out' + mset xs" "mset pend = mset pend' + mset ps" and wf: "hm_wf pend'"
    and ab: "refused a" "\<not> refused b"
  shows "tickets_ok out' pend' (ans @ map (\<lambda>x. (oa_ticket x, a)) xs @ map (\<lambda>p. (pa_ticket (snd p), b)) ps) sent n"
proof -
  define S where "S = fst ` set sent"
  have so: "set out = set out' \<union> set xs" and sp: "set pend = set pend' \<union> set ps"
    using split by (metis set_mset_mset set_mset_union)+
  have "mset (map oa_ticket out) = mset (map oa_ticket out') + mset (map oa_ticket xs)"
    and "mset (map (\<lambda>p. pa_ticket (snd p)) pend) =
      mset (map (\<lambda>p. pa_ticket (snd p)) pend') + mset (map (\<lambda>p. pa_ticket (snd p)) ps)"
    using split by (simp_all flip: image_mset_union)
  moreover have "\<forall>x\<in>set xs. oa_ticket x \<notin> S" "\<forall>p\<in>set ps. pa_ticket (snd p) \<in> S"
    "\<forall>x\<in>set ans. refused (snd x) \<longleftrightarrow> fst x \<notin> S"
    using ok so sp by (simp_all add: tickets_ok_def S_def)
  then have "\<forall>x\<in>set (ans @ map (\<lambda>x. (oa_ticket x, a)) xs @ map (\<lambda>p. (pa_ticket (snd p), b)) ps).
      refused (snd x) \<longleftrightarrow> fst x \<notin> S" using ab by auto
  ultimately show ?thesis
    using ok wf so sp unfolding tickets_ok_def S_def [symmetric] by (simp add: comp_def ac_simps)
qed

lemmas tickets_settle_unsent = tickets_settle [where ps = "[]" and b = "result_unknown []", simplified]
lemmas tickets_settle_pending = tickets_settle [where xs = "[]" and a = "not_sent []", simplified]

lemma mset_hm_del: "hm_wf m \<Longrightarrow> hm_get m k = Some v \<Longrightarrow> mset m = mset (hm_del k m) + mset [(k, v)]"
proof (induction m)
  case (Cons x m)
  show ?case
  proof (cases "fst x = k")
    case True
    with Cons.prems have "hm_get m k = None" by (auto simp: hm_wf_def hm_get_None_iff)
    then have "hm_del k m = m" by (rule hm_del_absent)
    with Cons.prems True show ?thesis by (cases x) (simp add: hm_del_def hm_get_def)
  next
    case False
    with Cons show ?thesis by (cases x) (simp add: hm_del_def hm_get_def hm_wf_def)
  qed
qed (simp add: hm_get_def)

lemma tickets_wf: "tickets_inv s \<Longrightarrow> hm_wf (cn_pending s)"
  by (simp add: tickets_inv_def tickets_ok_def)

lemma tickets_unsent: "tickets_inv s \<Longrightarrow> tickets_inv (fail_unsent s)"
  using tickets_settle_unsent [of "cn_outbound s" "cn_pending s" "cn_answers s" "cn_sent s" "cn_next s" "[]" "cn_outbound s"
      "cn_pending s"] tickets_wf [of s]
  by (simp add: tickets_inv_def fail_unsent_eq)

lemma tickets_pending: "tickets_inv s \<Longrightarrow> tickets_inv (fail_pending_unknown s)"
  using tickets_settle_pending [of "cn_outbound s" "cn_pending s" "cn_answers s" "cn_sent s" "cn_next s" "cn_outbound s" "[]"
      "cn_pending s"]
  by (simp add: tickets_inv_def fail_pending_eq hm_wf_def)

lemma tickets_expire:
  assumes "tickets_inv s"
  shows "tickets_inv (expire_pending s)"
proof -
  let ?P = "\<lambda>p. pa_deadline (snd p) \<le> cn_now s"
  note wf = tickets_wf [OF assms]
  have "mset (cn_pending s) = mset (filter (\<lambda>p. \<not> ?P p) (cn_pending s)) + mset (filter ?P (cn_pending s))"
    by (simp add: add.commute)
  moreover have "hm_wf (filter (\<lambda>p. \<not> ?P p) (cn_pending s))" using wf by (simp add: hm_wf_def distinct_map_filter)
  ultimately show ?thesis
    using assms tickets_settle_pending [of "cn_outbound s" "cn_pending s" "cn_answers s" "cn_sent s" "cn_next s"
        "cn_outbound s" "filter (\<lambda>p. \<not> ?P p) (cn_pending s)" "filter ?P (cn_pending s)"]
    by (simp add: tickets_inv_def expire_eq [OF wf])
qed

lemma tickets_one:
  assumes "tickets_inv s" "hm_get (cn_pending s) k = Some p" "\<not> refused a"
  shows "tickets_inv (answer (pa_ticket p) (pa_media p) a (s\<lparr>cn_pending := hm_del k (cn_pending s)\<rparr>))"
  using assms tickets_settle_pending [of "cn_outbound s" "cn_pending s" "cn_answers s" "cn_sent s" "cn_next s" "cn_outbound s"
      "hm_del k (cn_pending s)" "[(k, p)]" a] mset_hm_del [OF tickets_wf assms(2)] tickets_wf [OF assms(1)]
  by (simp add: tickets_inv_def answer_eq hm_simps)

text \<open>What only changes other fields keeps the tickets.\<close>

definition same_tickets :: "onebot_conn \<Rightarrow> onebot_conn \<Rightarrow> bool" where
  "same_tickets s s' \<longleftrightarrow> cn_outbound s' = cn_outbound s \<and> cn_pending s' = cn_pending s \<and>
     cn_answers s' = cn_answers s \<and> cn_sent s' = cn_sent s \<and> cn_next s' = cn_next s"

lemma tickets_same: "same_tickets s s' \<Longrightarrow> tickets_inv s \<Longrightarrow> tickets_inv s'"
  by (simp add: same_tickets_def tickets_inv_def)

lemma same_tickets_ops:
  "same_tickets s (release_media m s)" "same_tickets s (unpublish s)" "same_tickets s (flush_event s)"
  "same_tickets s (drain_event s)" "same_tickets s (forward_take g s)" "same_tickets s (forward_sent s)"
  "same_tickets s (forwarder_fail e s)" "same_tickets s (finish_connection s)" "same_tickets s (snd (enqueue_local_event v s))"
  "same_tickets s (snd (execute_media a x k s))"
  by (auto simp: same_tickets_def release_media_def unpublish_def flush_event_def drain_event_def forward_take_def
      forward_sent_def forwarder_fail_def finish_connection_def enqueue_local_event_def execute_media_def
      split: option.split list.split forwarder.split)

lemma tickets_teardown: "tickets_inv s \<Longrightarrow> tickets_inv (teardown r s)"
proof -
  assume "tickets_inv s"
  then have "tickets_inv (fail_pending_unknown (fail_unsent (unpublish s)))"
    by (intro tickets_pending tickets_unsent tickets_same [OF same_tickets_ops(2)])
  then show ?thesis by (simp add: teardown_def tickets_inv_def)
qed

lemma tickets_admit: "tickets_inv s \<Longrightarrow> tickets_inv (snd (admit c req m s))"
proof -
  assume inv: "tickets_inv s"
  then have "cn_next s \<notin> fst ` set (cn_sent s)" by (auto simp: tickets_inv_def tickets_ok_def)
  with inv have "tickets_inv (s\<lparr>cn_outbound := cn_outbound s @ [\<lparr>oa_ticket = cn_next s, oa_action = fst req,
      oa_params = snd req, oa_deadline = cn_now s + oc_action_timeout c, oa_media = m\<rparr>], cn_next := cn_next s + 1\<rparr>)"
    by (auto simp: tickets_inv_def tickets_ok_def ac_simps)
  then show ?thesis
    using tickets_same [OF same_tickets_ops(1) inv] by (simp add: admit_def)
qed

lemma tickets_distinct:
  assumes "tickets_inv s"
  shows "distinct (map oa_ticket (cn_outbound s) @ map (\<lambda>p. pa_ticket (snd p)) (cn_pending s) @ map fst (cn_answers s))"
    "set (map oa_ticket (cn_outbound s) @ map (\<lambda>p. pa_ticket (snd p)) (cn_pending s) @ map fst (cn_answers s)) = {0..<cn_next s}"
proof -
  have m: "mset (map oa_ticket (cn_outbound s) @ map (\<lambda>p. pa_ticket (snd p)) (cn_pending s) @ map fst (cn_answers s)) =
      mset [0..<cn_next s]" using assms by (simp add: tickets_inv_def tickets_ok_def ac_simps)
  show "distinct (map oa_ticket (cn_outbound s) @ map (\<lambda>p. pa_ticket (snd p)) (cn_pending s) @ map fst (cn_answers s))"
    using mset_eq_imp_distinct_iff [OF m] by simp
  show "set (map oa_ticket (cn_outbound s) @ map (\<lambda>p. pa_ticket (snd p)) (cn_pending s) @ map fst (cn_answers s)) = {0..<cn_next s}"
    using mset_eq_setD [OF m] by simp
qed

lemma tickets_transmit:
  assumes inv: "tickets_inv s" and out: "cn_outbound s = a # rest" and fresh: "hm_get (cn_pending s) echo = None"
  shows "tickets_inv (transmit_begin c echo e a (s\<lparr>cn_outbound := rest\<rparr>))"
proof -
  have ans: "tickets_inv (answer (oa_ticket a) m r (s\<lparr>cn_outbound := rest\<rparr>))" if "refused r" for r m
    using inv that tickets_settle_unsent [of "cn_outbound s" "cn_pending s" "cn_answers s" "cn_sent s" "cn_next s" rest "[a]"
        "cn_pending s" r] tickets_wf [OF inv]
    by (simp add: tickets_inv_def answer_eq out)
  have new: "oa_ticket a \<notin> fst ` set (cn_sent s)" using inv out by (simp add: tickets_inv_def tickets_ok_def)
  have lt: "oa_ticket a < cn_next s" using tickets_distinct(2) [OF inv] out by auto
  have once: "\<forall>x\<in>set rest. oa_ticket x \<noteq> oa_ticket a" "\<forall>x\<in>set (cn_answers s). fst x \<noteq> oa_ticket a"
    using tickets_distinct(1) [OF inv] unfolding out by (force simp: image_iff)+
  have "tickets_inv (s\<lparr>cn_outbound := rest,
      cn_pending := hm_put echo \<lparr>pa_ticket = oa_ticket a, pa_deadline = oa_deadline a, pa_media = oa_media a\<rparr> (cn_pending s),
      cn_sent := cn_sent s @ [(oa_ticket a, cn_now s, oa_deadline a)], cn_phase := Ph_Writing echo\<rparr>)"
    if "cn_now s < oa_deadline a"
    using inv new lt once that out
    using fresh [unfolded hm_get_None_iff]
    by (auto simp: tickets_inv_def tickets_ok_def hm_put_fresh [OF fresh] ac_simps hm_wf_def)
  with ans show ?thesis by (auto simp: transmit_begin_def split: option.split)
qed

lemma tickets_handle: "tickets_inv s \<Longrightarrow> tickets_inv (snd (handle_text L c frame s))"
  using tickets_same [OF same_tickets_ops(9)]
  by (auto simp: handle_text_def tickets_one split: sum.split option.split)

lemma tickets_step:
  assumes "onebot_step L c s s'" "tickets_inv s" "flow_inv c s"
  shows "tickets_inv s'"
  using assms(1)
proof cases
  case (call_plain a)
  then show ?thesis using assms(2) by (simp add: execute_plain_def tickets_admit split: sum.split)
next
  case (call_media a m k)
  then show ?thesis using assms(2) tickets_same [OF same_tickets_ops(10)] by simp
next
  case (call_encoded k a n)
  have "tickets_inv (s\<lparr>cn_encoding := hm_del k (cn_encoding s)\<rparr>)" using assms(2) by (simp add: tickets_inv_def)
  then show ?thesis
    using call_encoded tickets_admit tickets_same [OF same_tickets_ops(1)]
    by (auto simp: execute_encoded_def Let_def split: sum.split)
next
  case (call_dropped k a n)
  have "tickets_inv (s\<lparr>cn_encoding := hm_del k (cn_encoding s)\<rparr>)" using assms(2) by (simp add: tickets_inv_def)
  with call_dropped show ?thesis using tickets_same [OF same_tickets_ops(1)] by simp
next
  case connected
  then show ?thesis using assms(2,3) by (simp add: connect_def tickets_inv_def flow_inv_def)
next
  case (write_ends echo r)
  then show ?thesis
    using assms(2) tickets_one tickets_teardown
    by (auto simp: transmit_end_def tickets_inv_def split: option.split)
next
  case (reads frame)
  obtain e s1 where h: "handle_text L c frame s = (e, s1)" by fastforce
  with tickets_handle [OF assms(2), of L c frame] have "tickets_inv s1" by simp
  with reads h show ?thesis
    by (simp add: read_text_def tickets_teardown tickets_pending tickets_unsent split: option.split)
qed (use assms(2) tickets_teardown tickets_expire tickets_transmit same_tickets_ops [THEN tickets_same] in
    \<open>auto simp: tickets_inv_def\<close>)

section \<open>Media permits\<close>

lemma media_split:
  assumes "mset ms = mset ns + mset rs"
  shows "media_count ms = media_count ns + media_count rs" "media_total ms = media_total ns + media_total rs"
proof -
  have c: "media_count xs = size (filter_mset (\<lambda>m. m \<noteq> None) (mset xs))" for xs
    by (simp add: media_count_def flip: mset_filter)
  have t: "media_total xs = sum_mset (image_mset (\<lambda>m. case m of None \<Rightarrow> 0 | Some n \<Rightarrow> n) (mset xs))" for xs
  proof (induction xs)
    case (Cons x xs)
    then show ?case by (cases x) simp_all
  qed simp
  show "media_count ms = media_count ns + media_count rs" by (simp add: c assms)
  show "media_total ms = media_total ns + media_total rs" by (simp add: t assms)
qed

definition media_held :: "onebot_conn \<Rightarrow> nat option list" where
  "media_held s = map oa_media (cn_outbound s) @ map (\<lambda>p. pa_media (snd p)) (cn_pending s) @
     map (\<lambda>e. Some (snd (snd e))) (cn_encoding s)"

definition media_inv :: "onebot_conn \<Rightarrow> bool" where
  "media_inv s \<longleftrightarrow>
     cn_slots s + media_count (media_held s) = max_concurrent_inline_media \<and>
     cn_budget s + media_total (media_held s) = max_queued_inline_media_bytes \<and> hm_wf (cn_encoding s)"

text \<open>What is released is no longer held.\<close>

lemma media_settle:
  assumes "media_inv s" "mset (media_held s) = mset (media_held s') + mset rs" "hm_wf (cn_encoding s')"
    "cn_slots s' = cn_slots s + media_count rs" "cn_budget s' = cn_budget s + media_total rs"
  shows "media_inv s'"
  using assms media_split [OF assms(2)] by (simp add: media_inv_def)

lemma media_unsent:
  assumes "media_inv s"
  shows "media_inv (fail_unsent s)"
  by (rule media_settle [OF assms, where rs = "map oa_media (cn_outbound s)"])
    (use assms in \<open>simp_all add: fail_unsent_eq media_held_def media_inv_def ac_simps\<close>)

lemma media_pending:
  assumes "media_inv s"
  shows "media_inv (fail_pending_unknown s)"
  by (rule media_settle [OF assms, where rs = "map (\<lambda>p. pa_media (snd p)) (cn_pending s)"])
    (use assms in \<open>simp_all add: fail_pending_eq media_held_def media_inv_def ac_simps\<close>)

lemma media_expire:
  assumes "media_inv s" "hm_wf (cn_pending s)"
  shows "media_inv (expire_pending s)"
proof -
  let ?P = "\<lambda>p. pa_deadline (snd p) \<le> cn_now s"
  have "mset (cn_pending s) = mset (filter (\<lambda>p. \<not> ?P p) (cn_pending s)) + mset (filter ?P (cn_pending s))"
    by (simp add: add.commute)
  then have "mset (map (\<lambda>p. pa_media (snd p)) (cn_pending s)) = mset (map (\<lambda>p. pa_media (snd p)) (filter (\<lambda>p. \<not> ?P p) (cn_pending s))) +
      mset (map (\<lambda>p. pa_media (snd p)) (filter ?P (cn_pending s)))" by (simp flip: image_mset_union)
  then show ?thesis
    using assms(1) by (intro media_settle [OF assms(1), where rs = "map (\<lambda>p. pa_media (snd p)) (filter ?P (cn_pending s))"])
      (simp_all add: expire_eq [OF assms(2)] media_held_def media_inv_def ac_simps)
qed

lemma media_removed:
  assumes "media_inv s" "hm_wf (cn_pending s)" "hm_get (cn_pending s) k = Some p"
  shows "media_inv (answer t (pa_media p) a (s\<lparr>cn_pending := hm_del k (cn_pending s)\<rparr>))"
proof (rule media_settle [OF assms(1), where rs = "[pa_media p]"])
  have "mset (map (\<lambda>p. pa_media (snd p)) (cn_pending s)) =
      mset (map (\<lambda>p. pa_media (snd p)) (hm_del k (cn_pending s))) + mset [pa_media p]"
    using mset_hm_del [OF assms(2,3)] by simp
  then show "mset (media_held s) =
      mset (media_held (answer t (pa_media p) a (s\<lparr>cn_pending := hm_del k (cn_pending s)\<rparr>))) + mset [pa_media p]"
    by (simp add: media_held_def answer_eq)
qed (use assms in \<open>simp_all add: answer_eq media_inv_def\<close>)

definition same_media :: "onebot_conn \<Rightarrow> onebot_conn \<Rightarrow> bool" where
  "same_media s s' \<longleftrightarrow> cn_outbound s' = cn_outbound s \<and> cn_pending s' = cn_pending s \<and>
     cn_encoding s' = cn_encoding s \<and> cn_slots s' = cn_slots s \<and> cn_budget s' = cn_budget s"

lemma media_same: "same_media s s' \<Longrightarrow> media_inv s \<Longrightarrow> media_inv s'"
  by (simp add: same_media_def media_inv_def media_held_def)

lemma same_media_ops:
  "same_media s (unpublish s)" "same_media s (flush_event s)" "same_media s (drain_event s)" "same_media s (forward_take g s)"
  "same_media s (forward_sent s)" "same_media s (forwarder_fail e s)" "same_media s (finish_connection s)"
  "same_media s (snd (enqueue_local_event v s))" "same_media s (s\<lparr>cn_phase := ph\<rparr>)" "same_media s (s\<lparr>cn_now := t\<rparr>)"
  "same_media s (s\<lparr>cn_phase := ph, cn_result := r\<rparr>)" "same_media s (s\<lparr>cn_forwarder := f\<rparr>)"
  by (auto simp: same_media_def unpublish_def flush_event_def drain_event_def forward_take_def
      forward_sent_def forwarder_fail_def finish_connection_def enqueue_local_event_def split: list.split forwarder.split)

lemma media_teardown: "media_inv s \<Longrightarrow> media_inv (teardown r s)"
  unfolding teardown_def
  by (intro media_same [OF same_media_ops(11)] media_pending media_unsent media_same [OF same_media_ops(1)])

text \<open>Permits that a call holds are given up, or move into the queue with its action.\<close>

lemma media_admit:
  assumes "cn_slots s + media_count (media_held s) + media_count [m] = max_concurrent_inline_media"
    "cn_budget s + media_total (media_held s) + media_total [m] = max_queued_inline_media_bytes" "hm_wf (cn_encoding s)"
  shows "media_inv (snd (admit c req m s))" "media_inv (release_media m s)"
  using assms
  by (cases m; simp add: admit_def release_media_def media_inv_def media_held_def)+

lemma media_encoded:
  assumes "media_inv s" "hm_get (cn_encoding s) k = Some (a, n)"
  defines "s1 \<equiv> s\<lparr>cn_encoding := hm_del k (cn_encoding s)\<rparr>"
  shows "media_inv (snd (admit c req (Some n) s1))" "media_inv (release_media (Some n) s1)"
proof -
  have w: "hm_wf (cn_encoding s)" using assms by (simp add: media_inv_def)
  have "mset (media_held s) = mset (media_held s1) + mset [Some n]"
    using mset_hm_del [OF w assms(2)] by (simp add: media_held_def s1_def)
  from media_split [OF this] assms(1) hm.wf_del [OF w, of k]
  show "media_inv (snd (admit c req (Some n) s1))" "media_inv (release_media (Some n) s1)"
    by (intro media_admit; simp add: s1_def media_inv_def)+
qed

lemma media_execute:
  assumes "media_inv s" "hm_get (cn_encoding s) k = None"
  shows "media_inv (snd (execute_media a m k s))"
  using assms
  by (auto simp: execute_media_def media_inv_def media_held_def hm_put_fresh hm_wf_def hm_get_None_iff split: option.split)

lemma media_transmit:
  assumes "media_inv s" "cn_outbound s = a # rest" "hm_get (cn_pending s) echo = None"
  shows "media_inv (transmit_begin c echo e a (s\<lparr>cn_outbound := rest\<rparr>))"
proof -
  have "media_inv (answer t (oa_media a) r (s\<lparr>cn_outbound := rest\<rparr>))" for t r
    by (rule media_settle [OF assms(1), where rs = "[oa_media a]"])
      (use assms in \<open>simp_all add: media_held_def answer_eq media_inv_def\<close>)
  moreover have "media_inv (s\<lparr>cn_outbound := rest, cn_pending := hm_put echo \<lparr>pa_ticket = oa_ticket a,
      pa_deadline = oa_deadline a, pa_media = oa_media a\<rparr> (cn_pending s), cn_sent := x, cn_phase := ph\<rparr>)" for x ph
    by (rule media_settle [OF assms(1), where rs = "[]"])
      (use assms in \<open>simp_all add: media_held_def media_inv_def hm_put_fresh\<close>)
  ultimately show ?thesis by (simp add: transmit_begin_def split: option.split)
qed

lemma media_handle: "media_inv s \<Longrightarrow> hm_wf (cn_pending s) \<Longrightarrow> media_inv (snd (handle_text L c frame s))"
  using media_same [OF same_media_ops(8)]
  by (auto simp: handle_text_def media_removed split: sum.split option.split)

lemma media_step:
  assumes "onebot_step L c s s'" "media_inv s" "flow_inv c s"
  shows "media_inv s'"
  using assms(1)
proof cases
  case (call_plain a)
  have "media_inv (snd (admit c req None s))" for req
    using assms(2) by (intro media_admit) (simp_all add: media_inv_def)
  then show ?thesis using call_plain assms(2) by (simp add: execute_plain_def split: sum.split)
next
  case (call_encoded k a n)
  with media_encoded [OF assms(2) call_encoded(2)] show ?thesis
    by (simp add: execute_encoded_def Let_def split: sum.split)
next
  case connected
  with assms(2,3) show ?thesis by (simp add: connect_def media_inv_def media_held_def flow_inv_def)
next
  case (write_ends echo r)
  have "hm_wf (cn_pending s)" using assms(3) by (simp add: flow_inv_def)
  with write_ends assms(2) show ?thesis
    using media_removed media_teardown media_same [OF same_media_ops(9)] by (simp add: transmit_end_def split: option.split)
next
  case (reads frame)
  have w: "hm_wf (cn_pending s)" using assms(3) by (simp add: flow_inv_def)
  obtain e s1 where h: "handle_text L c frame s = (e, s1)" by fastforce
  with media_handle [OF assms(2) w, of L c frame] have "media_inv s1" by simp
  with reads h show ?thesis
    by (simp add: read_text_def media_teardown media_pending media_unsent split: option.split)
qed (use assms(2,3) media_teardown media_expire media_transmit media_encoded media_execute same_media_ops [THEN media_same] in
    \<open>auto simp: flow_inv_def\<close>)

section \<open>Events\<close>

definition held_events :: "onebot_conn \<Rightarrow> json event_envelope list" where
  "held_events s = (case cn_forwarder s of Fw_Holding e \<Rightarrow> [e] | _ \<Rightarrow> []) @ cn_queued s @ cn_pending_events s"

definition events_inv :: "onebot_config \<Rightarrow> onebot_conn \<Rightarrow> bool" where
  "events_inv c s \<longleftrightarrow>
     mset (cn_received s) = mset (cn_forwarded s) + mset (cn_lost s) + mset (held_events s) \<and>
     (cn_failures s = 0 \<longrightarrow> cn_lost s = [] \<and> (cn_queue_full s \<longrightarrow> cn_queued s \<noteq> []) \<and>
        (\<forall>e. cn_forwarder s \<noteq> Fw_Failed e)) \<and>
     (\<forall>e\<in>set (cn_received s). env_adapter e = oc_id c)"

lemma events_new: "events_inv c (new_onebot t)"
  by (simp add: events_inv_def new_onebot_def held_events_def)

text \<open>The fields that matter, and what keeps them.\<close>

definition same_events :: "onebot_conn \<Rightarrow> onebot_conn \<Rightarrow> bool" where
  "same_events s s' \<longleftrightarrow> cn_received s' = cn_received s \<and> cn_forwarded s' = cn_forwarded s \<and> cn_lost s' = cn_lost s \<and>
     cn_queued s' = cn_queued s \<and> cn_pending_events s' = cn_pending_events s \<and> cn_forwarder s' = cn_forwarder s \<and>
     cn_failures s' = cn_failures s \<and> (cn_queue_full s' \<longrightarrow> cn_queue_full s)"

lemma events_same: "same_events s s' \<Longrightarrow> events_inv c s \<Longrightarrow> events_inv c s'"
  by (auto simp: same_events_def events_inv_def held_events_def)

lemma same_events_answered [simp]: "same_events s (answered as ms s)"
  by (simp add: same_events_def)

lemma same_events_trans: "same_events s s' \<Longrightarrow> same_events s' s'' \<Longrightarrow> same_events s s''"
  by (auto simp: same_events_def)

lemma same_events_ops:
  "same_events s (fail_pending_unknown (fail_unsent s))" "same_events s (teardown r s)" "same_events s (release_media m s)"
  "same_events s (snd (admit c req m s))" "same_events s (snd (execute_media a x k s))"
  "same_events s (transmit_begin c echo e oa s)" "same_events s (answer t m an (s\<lparr>cn_pending := q\<rparr>))"
  "same_events s (s\<lparr>cn_outbound := out\<rparr>)" "same_events s (s\<lparr>cn_encoding := en\<rparr>)" "same_events s (s\<lparr>cn_phase := ph\<rparr>)"
  "same_events s (s\<lparr>cn_now := tm\<rparr>)"
  by (auto simp: same_events_def fail_unsent_eq fail_pending_eq teardown_def unpublish_def release_media_def admit_def
      execute_media_def transmit_begin_def answer_eq answered_def split: option.split)

lemma same_events_expire: "hm_wf (cn_pending s) \<Longrightarrow> same_events s (expire_pending s)"
  by (simp add: expire_eq same_events_def)

lemma events_enqueue:
  assumes "events_inv c s" "env_adapter e = oc_id c"
  shows "events_inv c (snd (enqueue_local_event e s))"
  using assms
  by (auto simp: events_inv_def enqueue_local_event_def held_events_def event_queue_capacity_def
      max_pending_events_per_connection_def)

lemma events_handle:
  assumes "events_inv c s"
  shows "events_inv c (snd (handle_text L c frame s))"
  using assms events_enqueue [OF assms] mapped_events_consistent [of L "oc_id c"] events_same [OF same_events_ops(7)]
  by (auto simp: handle_text_def split: sum.split option.split)

lemma events_step:
  assumes "onebot_step L c s s'" "events_inv c s" "flow_inv c s"
  shows "events_inv c s'"
  using assms(1)
proof cases
  case (call_plain a)
  then show ?thesis using assms(2) events_same [OF same_events_ops(4)] by (simp add: execute_plain_def split: sum.split)
next
  case (call_encoded k a n)
  have "events_inv c (s\<lparr>cn_encoding := hm_del k (cn_encoding s)\<rparr>)" using assms(2) events_same [OF same_events_ops(9)] by blast
  then show ?thesis using call_encoded events_same [OF same_events_ops(3)] events_same [OF same_events_ops(4)]
    by (simp add: execute_encoded_def Let_def split: sum.split)
next
  case (call_dropped k a n)
  then show ?thesis using assms(2) events_same [OF same_events_ops(9)] events_same [OF same_events_ops(3)] by blast
next
  case connected
  with assms(2,3) show ?thesis
    by (auto simp: connect_def events_inv_def held_events_def flow_inv_def forwarder_alive_def split: forwarder.splits)
next
  case (write_begins a rest echo e)
  then show ?thesis using assms(2) events_same [OF same_events_ops(8)] events_same [OF same_events_ops(6)] by blast
next
  case (write_ends echo r)
  then show ?thesis
    using assms(2) events_same [OF same_events_ops(2)] events_same [OF same_events_ops(7)] events_same [OF same_events_ops(10)]
    by (simp add: transmit_end_def split: option.split)
next
  case (reads frame)
  obtain e s1 where h: "handle_text L c frame s = (e, s1)" by fastforce
  with events_handle [OF assms(2), of L frame] have "events_inv c s1" by simp
  with reads h show ?thesis
    using events_same [OF same_events_ops(1)] events_same [OF same_events_ops(2)]
    by (simp add: read_text_def split: option.split)
next
  case flushes
  then show ?thesis using assms(2)
    by (cases "cn_pending_events s") (auto simp: flush_event_def events_inv_def held_events_def)
next
  case (takes g)
  then show ?thesis using assms(2)
    by (cases "cn_queued s")
      (auto simp: forward_take_def events_inv_def held_events_def event_queue_capacity_def max_pending_events_per_connection_def
        split: if_splits)
next
  case (forwards e)
  then show ?thesis using assms(2) by (auto simp: forward_sent_def events_inv_def held_events_def)
next
  case (forwarder_fails e)
  then show ?thesis using assms(2)
    by (auto simp: forwarder_fail_def events_inv_def held_events_def forwarder_alive_def split: forwarder.splits)
next
  case drains
  then show ?thesis using assms(2)
    by (cases "cn_pending_events s") (auto simp: drain_event_def events_inv_def held_events_def)
next
  case forwarder_ends
  then show ?thesis using assms(2) by (simp add: events_inv_def held_events_def)
next
  case finishes
  then show ?thesis using assms(2,3)
    by (cases "cn_forwarder s")
      (auto simp: finish_connection_def events_inv_def held_events_def flow_inv_def forwarder_alive_def)
qed (use assms(2,3) same_events_ops [THEN events_same] same_events_expire [THEN events_same] in \<open>auto simp: flow_inv_def\<close>)

section \<open>Reachable states\<close>

lemma onebot_inv:
  assumes "onebot_reachable L c s"
  shows "flow_inv c s \<and> tickets_inv s \<and> media_inv s \<and> events_inv c s"
  using assms
proof induction
  case (onebot_start t)
  show ?case
    using flow_new events_new
    by (simp add: tickets_inv_def tickets_ok_def media_inv_def media_held_def new_onebot_def hm_wf_def)
next
  case (onebot_next s s')
  then show ?case using flow_step tickets_step media_step events_step by blast
qed

text \<open>A small run: the peer connects, sends an event, an action is queued, and the connection ends before it is sent.\<close>

definition demo_onebot_config :: onebot_config where
  "demo_onebot_config = \<lparr>oc_id = [97], oc_loopback = True, oc_access_token = [116], oc_allow_insecure_remote = False,
     oc_action_timeout = 15000, oc_max_message_bytes = 1048576, oc_max_pending_actions = 256\<rparr>"

definition demo_onebot_open :: onebot_conn where
  "demo_onebot_open = read_text toy_onebot_libs demo_onebot_config (Inr demo_frame) (connect (new_onebot 0))"

definition demo_onebot_queued :: onebot_conn where
  "demo_onebot_queued = snd (execute_plain toy_onebot_libs demo_onebot_config
     (Action_SendMessage \<lparr>sm_target = Target_Group [49], sm_content = [104]\<rparr>) demo_onebot_open)"

lemma demo_onebot_reachable:
  "onebot_reachable toy_onebot_libs demo_onebot_config demo_onebot_open"
  "onebot_reachable toy_onebot_libs demo_onebot_config demo_onebot_queued"
  "onebot_reachable toy_onebot_libs demo_onebot_config (teardown None demo_onebot_queued)"
proof -
  note start = onebot_start [of toy_onebot_libs demo_onebot_config 0]
  have "onebot_reachable toy_onebot_libs demo_onebot_config (connect (new_onebot 0))"
    by (rule onebot_next [OF start connected]) (simp add: new_onebot_def)
  then show o: "onebot_reachable toy_onebot_libs demo_onebot_config demo_onebot_open"
    unfolding demo_onebot_open_def by (rule onebot_next [OF _ reads]) (simp_all add: connect_def)
  show q: "onebot_reachable toy_onebot_libs demo_onebot_config demo_onebot_queued"
    unfolding demo_onebot_queued_def by (rule onebot_next [OF o call_plain]) (simp add: action_media_attachment_def)
  have "cn_phase demo_onebot_queued = Ph_Running" by code_simp
  with q show "onebot_reachable toy_onebot_libs demo_onebot_config (teardown None demo_onebot_queued)"
    by (rule onebot_next [OF _ stops])
qed

section \<open>Actions\<close>

text \<open>[C24] Every action that was accepted is answered at most once, and exactly once when the connection has ended. An
  action that the adapter refuses was never sent, not even in part; any other answer, of the peer or that the
  result is unknown, is only given to an action that began to be sent; none is sent twice or after its deadline.
  So it is safe to repeat a refused action, and only a refused one.\<close>

theorem onebot_answers_exact:
  assumes "onebot_reachable L c s"
  shows "distinct (map fst (cn_answers s)) \<and> distinct (map fst (cn_sent s)) \<and>
    (\<forall>x\<in>set (cn_answers s). refused (snd x) \<longleftrightarrow> fst x \<notin> fst ` set (cn_sent s)) \<and>
    (\<forall>x\<in>set (cn_sent s). fst (snd x) < snd (snd x)) \<and>
    fst ` set (cn_answers s) \<subseteq> {0..<cn_next s} \<and>
    (\<not> cn_published s \<longrightarrow> fst ` set (cn_answers s) = {0..<cn_next s})"
proof -
  from onebot_inv [OF assms] have f: "flow_inv c s" and t: "tickets_inv s" by simp_all
  have "distinct (map fst (cn_answers s))" using tickets_distinct(1) [OF t] by simp
  moreover have "fst ` set (cn_answers s) \<subseteq> {0..<cn_next s}" using tickets_distinct(2) [OF t] by auto
  moreover have "fst ` set (cn_answers s) = {0..<cn_next s}" if "\<not> cn_published s"
    using tickets_distinct(2) [OF t] f that by (simp add: flow_inv_def)
  ultimately show ?thesis using t by (simp add: tickets_inv_def tickets_ok_def)
qed

lemma onebot_answers_exact_witness:
  "fst ` set (cn_answers (teardown None demo_onebot_queued)) = {0..<1} \<and> cn_sent (teardown None demo_onebot_queued) = []"
proof -
  have "\<not> cn_published (teardown None demo_onebot_queued)" "cn_next (teardown None demo_onebot_queued) = 1"
    "cn_sent (teardown None demo_onebot_queued) = []" by code_simp+
  with onebot_answers_exact [OF demo_onebot_reachable(3)] show ?thesis by simp
qed

section \<open>Bounds\<close>

text \<open>[C33] Memory is bounded whatever the peer sends and however slow the runtime is: at most 64 events are held for
  a connection, the queue of actions and the actions that wait for a result never exceed the configured limit, and
  the media permits are exact: eight slots and 16 MiB, each either free or held by an action on its way, so that
  none leaks on any path.\<close>

theorem onebot_bounded:
  assumes "onebot_reachable L c s"
  shows "length (held_events s) \<le> max_pending_events_per_connection \<and>
    length (cn_outbound s) \<le> oc_max_pending_actions c \<and> hm_len (cn_pending s) \<le> oc_max_pending_actions c \<and>
    cn_slots s + media_count (media_held s) = max_concurrent_inline_media \<and>
    cn_budget s + media_total (media_held s) = max_queued_inline_media_bytes"
proof -
  from onebot_inv [OF assms] have f: "flow_inv c s" and m: "media_inv s" by simp_all
  have "length (case cn_forwarder s of Fw_Holding e \<Rightarrow> [e] | _ \<Rightarrow> []) \<le> 1" by (simp split: forwarder.split)
  then have "length (held_events s) \<le> 1 + event_queue_capacity + 2"
    using f by (simp add: held_events_def flow_inv_def)
  then show ?thesis
    using f m by (simp add: flow_inv_def media_inv_def event_queue_capacity_def max_pending_events_per_connection_def)
qed

lemma onebot_bounded_witness:
  "length (held_events demo_onebot_queued) = 1 \<and> length (cn_outbound demo_onebot_queued) = 1 \<and>
   length (held_events demo_onebot_queued) \<le> 64"
proof -
  have "length (held_events demo_onebot_queued) = 1 \<and> length (cn_outbound demo_onebot_queued) = 1" by code_simp
  with onebot_bounded [OF demo_onebot_reachable(2)] show ?thesis
    by (simp add: max_pending_events_per_connection_def)
qed

section \<open>Events and back pressure\<close>

text \<open>[C25] While the runtime takes events no event is lost and none is doubled: those given to the runtime and those
  still held are, each as often, those received; all are bound to the adapter, so that the runtime never refuses
  one as foreign.\<close>

theorem onebot_no_event_lost:
  assumes "onebot_reachable L c s" "cn_failures s = 0"
  shows "mset (cn_received s) = mset (cn_forwarded s) + mset (held_events s) \<and>
    (\<forall>e\<in>set (cn_received s). env_adapter e = oc_id c)"
  using onebot_inv [OF assms(1)] assms(2) by (simp add: events_inv_def)

lemma onebot_no_event_lost_witness:
  "mset (cn_received demo_onebot_open) = mset (cn_forwarded demo_onebot_open) + mset (held_events demo_onebot_open) \<and>
   length (cn_received demo_onebot_open) = 1"
proof -
  have "cn_failures demo_onebot_open = 0" "length (cn_received demo_onebot_open) = 1" by code_simp+
  with onebot_no_event_lost [OF demo_onebot_reachable(1)] show ?thesis by simp
qed

text \<open>Back pressure: while an event waits for its place in the queue, no action is admitted; when the connection
  stops reading, because two wait, no action is queued or waits for a response that could not be read; and when
  the events are through, actions are admitted again: nothing of the back pressure stays behind.\<close>

theorem onebot_backpressure:
  assumes "onebot_reachable L c s" "cn_failures s = 0" "cn_published s"
  shows "(cn_pending_events s \<noteq> [] \<longrightarrow> (\<exists>e. fst (admit c req m s) = Inl e)) \<and>
    (length (cn_pending_events s) = 2 \<longrightarrow> cn_outbound s = [] \<and> cn_pending s = []) \<and>
    (cn_queued s = [] \<longrightarrow> cn_pending_events s = [] \<longrightarrow> length (cn_outbound s) < oc_max_pending_actions c \<longrightarrow>
       fst (admit c req m s) = Inr (cn_next s))"
  using onebot_inv [OF assms(1)] assms(2,3) by (auto simp: admit_def flow_inv_def events_inv_def)

lemma onebot_backpressure_witness:
  "fst (admit demo_onebot_config (lit ''get_status'', J_Object []) None
     (connect (new_onebot 0))) = Inr 0"
proof -
  have "onebot_reachable toy_onebot_libs demo_onebot_config (connect (new_onebot 0))"
    by (rule onebot_next [OF onebot_start connected]) (simp add: new_onebot_def)
  from onebot_backpressure [OF this] show ?thesis
    by (simp add: connect_def new_onebot_def demo_onebot_config_def del: lit_Cons)
qed

section \<open>Events overtake each other\<close>

text \<open>A connection in which only events move.\<close>

definition busy :: "json event_envelope list \<Rightarrow> forwarder \<Rightarrow> json event_envelope list \<Rightarrow> bool \<Rightarrow>
    json event_envelope list \<Rightarrow> json event_envelope list \<Rightarrow> onebot_conn" where
  "busy q f p full rc fo =
     (connect (new_onebot 0))\<lparr>cn_queued := q, cn_forwarder := f, cn_pending_events := p, cn_queue_full := full,
        cn_producer_waiting := (p \<noteq> []), cn_received := rc, cn_forwarded := fo\<rparr>"

lemmas busy_defs = busy_def connect_def new_onebot_def event_queue_capacity_def max_pending_events_per_connection_def

lemma busy_reads:
  assumes "onebot_reachable L c (busy q f p full rc fo)" "map_onebot_event L (oc_id c) v = Inr (Some e)" "\<not> response_like v"
    and "forwarder_alive f" "length q < event_queue_capacity" "length p < 2"
  shows "onebot_reachable L c (busy (q @ [e]) f p (length q + 1 = event_queue_capacity) (rc @ [e]) fo)"
proof -
  have "read_text L c (Inr v) (busy q f p full rc fo) = busy (q @ [e]) f p (length q + 1 = event_queue_capacity) (rc @ [e]) fo"
    using assms by (simp add: read_text_def handle_text_def enqueue_local_event_def busy_defs)
  moreover have "onebot_step L c (busy q f p full rc fo) (read_text L c (Inr v) (busy q f p full rc fo))"
    using assms(6) by (intro reads) (simp_all add: busy_defs)
  ultimately show ?thesis using assms(1) onebot_next by metis
qed

lemma busy_waits:
  assumes "onebot_reachable L c (busy q f [] full rc fo)" "map_onebot_event L (oc_id c) v = Inr (Some e)" "\<not> response_like v"
    and "forwarder_alive f" "length q = event_queue_capacity"
  shows "onebot_reachable L c (busy q f [e] True (rc @ [e]) fo)"
proof -
  have "read_text L c (Inr v) (busy q f [] full rc fo) = busy q f [e] True (rc @ [e]) fo"
    using assms by (simp add: read_text_def handle_text_def enqueue_local_event_def busy_defs)
  moreover have "onebot_step L c (busy q f [] full rc fo) (read_text L c (Inr v) (busy q f [] full rc fo))"
    by (intro reads) (simp_all add: busy_defs)
  ultimately show ?thesis using assms(1) onebot_next by metis
qed

lemma busy_takes:
  assumes "onebot_reachable L c (busy (e # q) Fw_Idle p full rc fo)" "length q < event_queue_capacity"
  shows "onebot_reachable L c (busy q (Fw_Holding e) p False rc fo)"
proof -
  have "forward_take False (busy (e # q) Fw_Idle p full rc fo) = busy q (Fw_Holding e) p False rc fo"
    using assms(2) by (simp add: forward_take_def busy_defs)
  moreover have "onebot_step L c (busy (e # q) Fw_Idle p full rc fo) (forward_take False (busy (e # q) Fw_Idle p full rc fo))"
    by (intro takes) (simp_all add: busy_defs)
  ultimately show ?thesis using assms(1) onebot_next by metis
qed

lemma busy_forwards:
  assumes "onebot_reachable L c (busy q (Fw_Holding e) p full rc fo)"
  shows "onebot_reachable L c (busy q Fw_Idle p full rc (fo @ [e]))"
proof -
  have "forward_sent (busy q (Fw_Holding e) p full rc fo) = busy q Fw_Idle p full rc (fo @ [e])"
    by (simp add: forward_sent_def busy_defs)
  moreover have "onebot_step L c (busy q (Fw_Holding e) p full rc fo) (forward_sent (busy q (Fw_Holding e) p full rc fo))"
    by (intro forwards [of _ e]) (simp_all add: busy_defs)
  ultimately show ?thesis using assms(1) onebot_next by metis
qed

lemma busy_flushes:
  assumes "onebot_reachable L c (busy q f [e] full rc fo)" "forwarder_alive f" "length q < event_queue_capacity"
  shows "onebot_reachable L c (busy (q @ [e]) f [] (length q + 1 = event_queue_capacity) rc fo)"
proof -
  have "flush_event (busy q f [e] full rc fo) = busy (q @ [e]) f [] (length q + 1 = event_queue_capacity) rc fo"
    by (simp add: flush_event_def busy_defs)
  moreover have "onebot_step L c (busy q f [e] full rc fo) (flush_event (busy q f [e] full rc fo))"
    using assms(2,3) by (intro flushes) (simp_all add: busy_defs)
  ultimately show ?thesis using assms(1) onebot_next by metis
qed

lemma busy_through:
  "onebot_reachable L c (busy q Fw_Idle [] full rc fo) \<Longrightarrow> length q \<le> event_queue_capacity \<Longrightarrow>
     \<exists>full'. onebot_reachable L c (busy [] Fw_Idle [] full' rc (fo @ q))"
proof (induction q arbitrary: full fo)
  case (Cons e q)
  from busy_forwards [OF busy_takes [OF Cons.prems(1)]] Cons.prems(2)
  have "onebot_reachable L c (busy q Fw_Idle [] False rc (fo @ [e]))" by simp
  from Cons.IH [OF this] Cons.prems(2) show ?case by simp
qed auto

lemma busy_fills:
  assumes "onebot_reachable L c (busy [] f [] full rc fo)" "map_onebot_event L (oc_id c) v = Inr (Some e)" "\<not> response_like v"
    and "forwarder_alive f" "n \<le> event_queue_capacity"
  shows "\<exists>full'. onebot_reachable L c (busy (replicate n e) f [] full' (rc @ replicate n e) fo)"
  using assms(5)
proof (induction n)
  case (Suc n)
  then obtain full' where r: "onebot_reachable L c (busy (replicate n e) f [] full' (rc @ replicate n e) fo)" by auto
  from busy_reads [OF r assms(2-4)] Suc.prems obtain fb where
    "onebot_reachable L c (busy (replicate n e @ [e]) f [] fb (rc @ replicate n e @ [e]) fo)" by auto
  then show ?case by (auto simp: replicate_append_same)
qed (use assms(1) in auto)

text \<open>[C37] Two events of a connection can reach the runtime in the wrong order: when the queue of the connection is full,
  the first waits outside; if the forwarder then takes an event and the next frame is read before the waiting one
  gets its place, the second event is queued directly (\<open>enqueue_local_event\<close> does not look whether one waits)
  and overtakes it. It can happen to any two events.\<close>

theorem onebot_events_overtake:
  assumes first: "map_onebot_event L (oc_id c) v = Inr (Some e)" "\<not> response_like v"
    and second: "map_onebot_event L (oc_id c) w = Inr (Some d)" "\<not> response_like w"
  shows "\<exists>s xs. onebot_reachable L c s \<and> cn_received s = xs @ [e, d] \<and> cn_forwarded s = xs @ [d, e]"
proof -
  let ?n = event_queue_capacity
  have n: "?n = Suc 60" by (simp add: event_queue_capacity_def max_pending_events_per_connection_def)
  have "connect (new_onebot 0) = busy [] Fw_Idle [] False [] []" by (simp add: busy_defs)
  moreover have "onebot_step L c (new_onebot 0) (connect (new_onebot 0))" by (rule connected) (simp add: new_onebot_def)
  ultimately have "onebot_reachable L c (busy [] Fw_Idle [] False [] [])" by (metis onebot_next onebot_start)
  from busy_takes [OF busy_reads [OF this first, simplified]]
  have "onebot_reachable L c (busy [] (Fw_Holding e) [] False [e] [])" by (simp add: n forwarder_alive_def)
  from busy_fills [OF this first, of ?n] obtain full where
    "onebot_reachable L c (busy (replicate ?n e) (Fw_Holding e) [] full (e # replicate ?n e) [])"
    by (auto simp: forwarder_alive_def)
  from busy_waits [OF this first] have
    "onebot_reachable L c (busy (replicate ?n e) (Fw_Holding e) [e] True (e # replicate ?n e @ [e]) [])"
    by (simp add: forwarder_alive_def)
  from busy_takes [OF busy_forwards [OF this, unfolded n replicate_Suc]] have
    "onebot_reachable L c (busy (replicate 60 e) (Fw_Holding e) [e] False (e # e # replicate 60 e @ [e]) [e])"
    by (simp add: n)
  from busy_forwards [OF busy_reads [OF this second]] obtain full' where
    "onebot_reachable L c (busy (replicate 60 e @ [d]) Fw_Idle [e] full' (e # e # replicate 60 e @ [e, d]) [e, e])"
    by (auto simp: n forwarder_alive_def)
  then have "onebot_reachable L c (busy (e # (replicate 59 e @ [d])) Fw_Idle [e] full' (replicate 62 e @ [e, d]) [e, e])"
    by (simp add: numeral_eq_Suc)
  from busy_flushes [OF busy_takes [OF this]] obtain fb where
    "onebot_reachable L c (busy (replicate 59 e @ [d, e]) (Fw_Holding e) [] fb (replicate 62 e @ [e, d]) [e, e])"
    by (auto simp: n forwarder_alive_def)
  from busy_through [OF busy_forwards [OF this]] obtain fc where r:
    "onebot_reachable L c (busy [] Fw_Idle [] fc (replicate 62 e @ [e, d]) ([e, e, e] @ replicate 59 e @ [d, e]))"
    by (auto simp: n)
  have eq: "[e, e, e] @ replicate 59 e @ [d, e] = replicate 62 e @ [d, e]" by (simp add: numeral_eq_Suc)
  from r have "onebot_reachable L c (busy [] Fw_Idle [] fc (replicate 62 e @ [e, d]) (replicate 62 e @ [d, e]))" unfolding eq .
  then show ?thesis by (intro exI [of _ "busy [] Fw_Idle [] fc (replicate 62 e @ [e, d]) (replicate 62 e @ [d, e])"]
      exI [of _ "replicate 62 e"] conjI) (simp_all add: busy_defs)
qed

definition demo_heartbeat :: json where
  "demo_heartbeat = J_Object [(lit ''meta_event_type'', J_String (lit ''heartbeat'')),
     (lit ''post_type'', J_String (lit ''meta_event'')), (lit ''self_id'', J_Number [49]), (lit ''time'', J_Number [49, 55])]"

lemma onebot_events_overtake_witness:
  "\<exists>e d s xs. onebot_reachable toy_onebot_libs demo_onebot_config s \<and> e \<noteq> d \<and>
     cn_received s = xs @ [e, d] \<and> cn_forwarded s = xs @ [d, e]"
proof -
  have m: "case map_onebot_event toy_onebot_libs (oc_id demo_onebot_config) demo_frame of Inr (Some e) \<Rightarrow> raw e = demo_frame | _ \<Rightarrow> False"
    "case map_onebot_event toy_onebot_libs (oc_id demo_onebot_config) demo_heartbeat of Inr (Some e) \<Rightarrow> raw e = demo_heartbeat | _ \<Rightarrow> False"
    "\<not> response_like demo_frame" "\<not> response_like demo_heartbeat" "demo_frame \<noteq> demo_heartbeat" by code_simp+
  then obtain e d where "map_onebot_event toy_onebot_libs (oc_id demo_onebot_config) demo_frame = Inr (Some e)"
    "map_onebot_event toy_onebot_libs (oc_id demo_onebot_config) demo_heartbeat = Inr (Some d)"
    "raw e = demo_frame" "raw d = demo_heartbeat" by (auto split: sum.splits option.splits)
  with onebot_events_overtake [OF this(1) m(3) this(2) m(4)] m(5) show ?thesis by metis
qed

end
