(* ===== verification/OneBotAccept.thy ===== *)
theory OneBotAccept
  imports OneBot
begin

text \<open>
  Who may connect to the OneBot 11 adapter (\<open>accept_connection\<close>, \<open>request_authorized\<close> and the accept loop of \<open>run\<close> in
  \<open>crates/adapter-onebot11/src/lib.rs\<close>): handshakes are tasks of their own, and the one slot for a connection is
  claimed inside the handshake. A step system of the handshake tasks and the accept loop; reading headers and
  queries is the libraries' part.
\<close>

section \<open>Authorization\<close>

text \<open>The \<open>authorization\<close> header when it is text, and the decoded pairs of the query when there is one.\<close>

record upgrade_request =
  ur_authorization :: "ustr option"
  ur_query :: "(ustr \<times> ustr) list option"

definition constant_time_eq :: "(ustr \<Rightarrow> bytes) \<Rightarrow> ustr \<Rightarrow> ustr \<Rightarrow> bool" where
  "constant_time_eq digest a b \<longleftrightarrow> digest a = digest b"

definition request_authorized :: "(ustr \<Rightarrow> bytes) \<Rightarrow> upgrade_request \<Rightarrow> ustr \<Rightarrow> bool" where
  "request_authorized digest r expected \<longleftrightarrow>
     (case Option.bind (ur_authorization r) (strip_prefix (lit ''Bearer '')) of
        Some t \<Rightarrow> constant_time_eq digest t expected
      | None \<Rightarrow> False) \<or>
     (case Option.bind (ur_query r) (\<lambda>q. List.find (\<lambda>p. fst p = lit ''access_token'') q) of
        Some p \<Rightarrow> constant_time_eq digest (snd p) expected
      | None \<Rightarrow> False)"

section \<open>Handshakes and the slot\<close>

definition max_pending_handshakes :: nat where
  "max_pending_handshakes = 8"

datatype handshake =
    Hs_Waiting
  | Hs_Claimed upgrade_request
  | Hs_Accepted upgrade_request
  | Hs_Failed

record accept_state =
  as_slot :: bool
  as_handshakes :: "(nat, handshake) hmap"
  as_serving :: "upgrade_request option"

definition new_accept :: accept_state where
  "new_accept = \<lparr>as_slot = False, as_handshakes = [], as_serving = None\<rparr>"

definition put_handshake :: "nat \<Rightarrow> handshake \<Rightarrow> accept_state \<Rightarrow> accept_state" where
  "put_handshake n h s = s\<lparr>as_handshakes := hm_put n h (as_handshakes s)\<rparr>"

definition accept_stream :: "nat \<Rightarrow> accept_state \<Rightarrow> accept_state" where
  "accept_stream n s =
     (if hm_len (as_handshakes s) \<ge> max_pending_handshakes then s else put_handshake n Hs_Waiting s)"

text \<open>The callback of the handshake: the token is checked first, then the slot is claimed by compare and exchange.\<close>

definition upgrade_callback :: "(ustr \<Rightarrow> bytes) \<Rightarrow> ustr \<Rightarrow> nat \<Rightarrow> upgrade_request \<Rightarrow> accept_state \<Rightarrow> accept_state" where
  "upgrade_callback digest token n r s =
     (if \<not> request_authorized digest r token then put_handshake n Hs_Failed s
      else if as_slot s then put_handshake n Hs_Failed s
      else (put_handshake n (Hs_Claimed r) s)\<lparr>as_slot := True\<rparr>)"

text \<open>A handshake that fails or times out gives the slot back if it had claimed it.\<close>

definition handshake_fails :: "nat \<Rightarrow> handshake \<Rightarrow> accept_state \<Rightarrow> accept_state" where
  "handshake_fails n h s =
     (case h of
        Hs_Claimed _ \<Rightarrow> (put_handshake n Hs_Failed s)\<lparr>as_slot := False\<rparr>
      | _ \<Rightarrow> put_handshake n Hs_Failed s)"

definition join_handshake :: "nat \<Rightarrow> handshake \<Rightarrow> accept_state \<Rightarrow> accept_state" where
  "join_handshake n h s =
     (let s1 = s\<lparr>as_handshakes := hm_del n (as_handshakes s)\<rparr>
      in case h of Hs_Accepted r \<Rightarrow> s1\<lparr>as_serving := Some r\<rparr> | _ \<Rightarrow> s1)"

text \<open>The guard of a connection that is over is dropped.\<close>

definition connection_over :: "accept_state \<Rightarrow> accept_state" where
  "connection_over s = s\<lparr>as_serving := None, as_slot := False\<rparr>"

text \<open>While a connection is served, new streams are rejected and finished handshakes are not joined.\<close>

inductive accept_step :: "(ustr \<Rightarrow> bytes) \<Rightarrow> ustr \<Rightarrow> accept_state \<Rightarrow> accept_state \<Rightarrow> bool" for digest token where
  arrives: "\<lbrakk>as_serving s = None; hm_get (as_handshakes s) n = None\<rbrakk> \<Longrightarrow> accept_step digest token s (accept_stream n s)"
| calls_back: "hm_get (as_handshakes s) n = Some Hs_Waiting \<Longrightarrow>
    accept_step digest token s (upgrade_callback digest token n r s)"
| completes: "hm_get (as_handshakes s) n = Some (Hs_Claimed r) \<Longrightarrow>
    accept_step digest token s (put_handshake n (Hs_Accepted r) s)"
| fails: "\<lbrakk>hm_get (as_handshakes s) n = Some h; h = Hs_Waiting \<or> h = Hs_Claimed r\<rbrakk> \<Longrightarrow>
    accept_step digest token s (handshake_fails n h s)"
| joins: "\<lbrakk>as_serving s = None; hm_get (as_handshakes s) n = Some h; h = Hs_Accepted r \<or> h = Hs_Failed\<rbrakk> \<Longrightarrow>
    accept_step digest token s (join_handshake n h s)"
| ends: "as_serving s \<noteq> None \<Longrightarrow> accept_step digest token s (connection_over s)"

inductive accept_reachable :: "(ustr \<Rightarrow> bytes) \<Rightarrow> ustr \<Rightarrow> accept_state \<Rightarrow> bool" for digest token where
  accept_start: "accept_reachable digest token new_accept"
| accept_next: "accept_reachable digest token s \<Longrightarrow> accept_step digest token s s' \<Longrightarrow> accept_reachable digest token s'"

section \<open>One connection at a time\<close>

text \<open>Who has the slot: the handshakes that have claimed it, and the connection.\<close>

definition claims :: "handshake \<Rightarrow> bool" where
  "claims h = (case h of Hs_Claimed _ \<Rightarrow> True | Hs_Accepted _ \<Rightarrow> True | _ \<Rightarrow> False)"

definition slot_owners :: "accept_state \<Rightarrow> nat" where
  "slot_owners s = hm_count claims (as_handshakes s) + (if as_serving s = None then 0 else 1)"

definition claim_ok :: "(ustr \<Rightarrow> bytes) \<Rightarrow> ustr \<Rightarrow> handshake \<Rightarrow> bool" where
  "claim_ok digest token h =
     (case h of Hs_Claimed r \<Rightarrow> request_authorized digest r token | Hs_Accepted r \<Rightarrow> request_authorized digest r token | _ \<Rightarrow> True)"

definition accept_inv :: "(ustr \<Rightarrow> bytes) \<Rightarrow> ustr \<Rightarrow> accept_state \<Rightarrow> bool" where
  "accept_inv digest token s \<longleftrightarrow>
     hm_wf (as_handshakes s) \<and> hm_len (as_handshakes s) \<le> max_pending_handshakes \<and>
     slot_owners s = of_bool (as_slot s) \<and>
     (\<forall>n h. hm_get (as_handshakes s) n = Some h \<longrightarrow> claim_ok digest token h) \<and>
     (case as_serving s of Some r \<Rightarrow> request_authorized digest r token | None \<Rightarrow> True)"

lemma put_inv:
  assumes inv: "accept_inv digest token s" and h: "hm_get (as_handshakes s) n = Some h" and ok: "claim_ok digest token h'"
    and slot: "of_bool b + of_bool (claims h) = (of_bool (as_slot s) + of_bool (claims h') :: nat)"
  shows "accept_inv digest token ((put_handshake n h' s)\<lparr>as_slot := b\<rparr>)"
proof -
  have w: "hm_wf (as_handshakes s)" using inv by (simp add: accept_inv_def)
  have "hm_count claims (hm_put n h' (as_handshakes s)) + of_bool (claims h) =
      hm_count claims (as_handshakes s) + of_bool (claims h')" using hm_count_put_old [OF w h] .
  moreover have "hm_len (hm_put n h' (as_handshakes s)) = hm_len (as_handshakes s)" using hm.len_put_old [OF w h] .
  ultimately show ?thesis
    using inv ok slot w by (auto simp: accept_inv_def slot_owners_def put_handshake_def hm_simps)
qed

lemma put_inv_same:
  assumes "accept_inv digest token s" "hm_get (as_handshakes s) n = Some h" "claim_ok digest token h'" "claims h = claims h'"
  shows "accept_inv digest token (put_handshake n h' s)"
  using put_inv [OF assms(1-3), of "as_slot s"] assms(4) by (simp add: put_handshake_def)

lemma accept_step_keeps:
  assumes "accept_step digest token s s'" "accept_inv digest token s"
  shows "accept_inv digest token s'"
  using assms(1)
proof cases
  case (arrives n)
  then show ?thesis using assms(2) hm.len_put_new [of "as_handshakes s" n] hm_count_put_new [of "as_handshakes s" n claims]
    by (auto simp: accept_stream_def accept_inv_def slot_owners_def put_handshake_def hm_simps claims_def claim_ok_def)
next
  case (calls_back n r)
  have failed: "accept_inv digest token (put_handshake n Hs_Failed s)"
    using put_inv_same [OF assms(2) calls_back(2)] by (simp add: claims_def claim_ok_def)
  have "accept_inv digest token ((put_handshake n (Hs_Claimed r) s)\<lparr>as_slot := True\<rparr>)"
    if "request_authorized digest r token" "\<not> as_slot s"
    using put_inv [OF assms(2) calls_back(2), of "Hs_Claimed r" True] that by (simp add: claims_def claim_ok_def)
  with failed calls_back show ?thesis by (simp add: upgrade_callback_def)
next
  case (completes n r)
  have "claim_ok digest token (Hs_Claimed r)" using assms(2) completes by (auto simp: accept_inv_def)
  with completes show ?thesis using put_inv_same [OF assms(2)] by (simp add: claims_def claim_ok_def)
next
  case (fails n h r)
  have "as_slot s" if "h = Hs_Claimed r"
    using assms(2) fails that hm_count_pos [of "as_handshakes s" n h claims]
    by (cases "as_slot s") (auto simp: accept_inv_def slot_owners_def claims_def split: if_splits)
  then show ?thesis using fails put_inv [OF assms(2), of n h Hs_Failed False] put_inv_same [OF assms(2), of n h Hs_Failed]
    by (auto simp: handshake_fails_def claims_def claim_ok_def)
next
  case (joins n h r)
  have w: "hm_wf (as_handshakes s)" using assms(2) by (simp add: accept_inv_def)
  have "claim_ok digest token h" using assms(2) joins by (simp add: accept_inv_def)
  then have "h = Hs_Accepted r \<Longrightarrow> request_authorized digest r token" by (simp add: claim_ok_def)
  with joins show ?thesis
    using assms(2) hm_count_del [OF w joins(3), of claims] hm.len_del_le [OF w, of n]
    by (auto simp: join_handshake_def Let_def accept_inv_def slot_owners_def claims_def claim_ok_def hm_simps split: if_splits)
next
  case ends
  then show ?thesis using assms(2) by (cases "as_slot s") (auto simp: connection_over_def accept_inv_def slot_owners_def)
qed

lemma accept_reachable_inv:
  assumes "accept_reachable digest token s"
  shows "accept_inv digest token s"
  using assms
proof induction
  case accept_start
  show ?case by (simp add: accept_inv_def new_accept_def slot_owners_def hm_wf_def hm_len_def hm_simps)
qed (rule accept_step_keeps)

text \<open>[C26] One connection at a time, and only an authorized one: however handshakes interleave, fail or time out, at most
  one of them and the connection together has the slot, the slot is taken exactly when one has it, so that it is
  never left behind, a connection that is served has shown the token, and at most eight handshakes are pending.\<close>

theorem one_authorized_connection:
  assumes "accept_reachable digest token s"
  shows "slot_owners s \<le> 1 \<and> (as_slot s \<longleftrightarrow> slot_owners s = 1) \<and> hm_len (as_handshakes s) \<le> max_pending_handshakes \<and>
    (\<forall>r. as_serving s = Some r \<longrightarrow> request_authorized digest r token)"
  using accept_reachable_inv [OF assms] by (auto simp: accept_inv_def split: option.splits)

definition demo_upgrade :: upgrade_request where
  "demo_upgrade = \<lparr>ur_authorization = Some (lit ''Bearer t''), ur_query = None\<rparr>"

lemma one_authorized_connection_witness:
  "slot_owners (join_handshake 0 (Hs_Accepted demo_upgrade) (put_handshake 0 (Hs_Accepted demo_upgrade)
     (upgrade_callback (map of_nat) [116] 0 demo_upgrade (accept_stream 0 new_accept)))) \<le> 1"
proof -
  let ?d = "map of_nat :: ustr \<Rightarrow> bytes"
  let ?s1 = "accept_stream 0 new_accept"
  let ?s2 = "upgrade_callback ?d [116] 0 demo_upgrade ?s1"
  let ?s3 = "put_handshake 0 (Hs_Accepted demo_upgrade) ?s2"
  have g: "hm_get (as_handshakes ?s1) 0 = Some Hs_Waiting" "hm_get (as_handshakes ?s2) 0 = Some (Hs_Claimed demo_upgrade)"
    "hm_get (as_handshakes ?s3) 0 = Some (Hs_Accepted demo_upgrade)" "as_serving ?s3 = None" by code_simp+
  have "accept_reachable ?d [116] ?s1"
    by (rule accept_next [OF accept_start arrives]) (simp_all add: new_accept_def hm_simps)
  then have "accept_reachable ?d [116] ?s2" by (rule accept_next [OF _ calls_back [OF g(1)]])
  then have "accept_reachable ?d [116] ?s3" by (rule accept_next [OF _ completes [OF g(2)]])
  then have "accept_reachable ?d [116] (join_handshake 0 (Hs_Accepted demo_upgrade) ?s3)"
    by (rule accept_next [OF _ joins [OF g(4,3)]]) simp
  from one_authorized_connection [OF this] show ?thesis by simp
qed

end
