(* ===== verification/QqSession.thy ===== *)
theory QqSession
  imports Json EventQueue
begin

text \<open>
  The gateway session of the QQ adapter (\<open>crates/adapter-qqbot/src/websocket.rs\<close>) and the gateway payloads of
  \<open>crates/qqbot-protocol/src/gateway.rs\<close>: which dispatches were received, which of them are completed, from where
  a new connection resumes, what one dispatch does, and the waits between connections. The mapping of a dispatch to an
  event is an argument (\<open>crates/adapter-qqbot/src/mapping.rs\<close>), and so is the sender of events.
\<close>

section \<open>Payloads\<close>

type_synonym op_code = "8 word"

definition op_dispatch :: op_code where "op_dispatch = 0"
definition op_heartbeat :: op_code where "op_heartbeat = 1"
definition op_identify :: op_code where "op_identify = 2"
definition op_resume :: op_code where "op_resume = 6"
definition op_reconnect :: op_code where "op_reconnect = 7"
definition op_invalid_session :: op_code where "op_invalid_session = 9"
definition op_hello :: op_code where "op_hello = 10"
definition op_heartbeat_ack :: op_code where "op_heartbeat_ack = 11"
definition op_http_callback_ack :: op_code where "op_http_callback_ack = 12"
definition op_callback_validation :: op_code where "op_callback_validation = 13"

lemmas op_code_defs =
  op_dispatch_def op_heartbeat_def op_identify_def op_resume_def op_reconnect_def op_invalid_session_def op_hello_def
  op_heartbeat_ack_def op_http_callback_ack_def op_callback_validation_def

record gateway_payload =
  gp_id :: "ustr option"
  gp_op :: op_code
  gp_d :: json
  gp_s :: "u64 option"
  gp_t :: "ustr option"

definition json_word :: "json \<Rightarrow> 'a::len word option" where
  "json_word v = map_option of_int (in_range 0 (2 ^ LENGTH('a)) (json_int v))"

definition payload_keys :: "ustr list" where
  "payload_keys = [lit ''id'', lit ''op'', lit ''d'', lit ''s'', lit ''t'']"

text \<open>
  The derived decoder takes an object, where no field may occur twice, and also an array with the fields in order,
  where trailing ones may be absent.
\<close>

definition element_or :: "'a \<Rightarrow> (json \<Rightarrow> 'a option) \<Rightarrow> nat \<Rightarrow> json list \<Rightarrow> 'a option" where
  "element_or x d i vs = (if i < length vs then d (vs ! i) else Some x)"

definition de_gateway_payload :: "json \<Rightarrow> gateway_payload option" where
  "de_gateway_payload v =
     (case v of
        J_Object m \<Rightarrow>
          (if \<not> distinct (filter (\<lambda>k. k \<in> set payload_keys) (map fst m)) then None
           else do {
             i \<leftarrow> field_or None (de_option json_str) (lit ''id'') m;
             op \<leftarrow> field json_word (lit ''op'') m;
             d \<leftarrow> field_or J_Null de_value (lit ''d'') m;
             s \<leftarrow> field_or None (de_option json_word) (lit ''s'') m;
             t \<leftarrow> field_or None (de_option json_str) (lit ''t'') m;
             Some \<lparr>gp_id = i, gp_op = op, gp_d = d, gp_s = s, gp_t = t\<rparr>
           })
      | J_Array vs \<Rightarrow>
          (if length vs < 2 \<or> 5 < length vs then None
           else do {
             i \<leftarrow> de_option json_str (vs ! 0);
             op \<leftarrow> json_word (vs ! 1);
             d \<leftarrow> element_or J_Null de_value 2 vs;
             s \<leftarrow> element_or None (de_option json_word) 3 vs;
             t \<leftarrow> element_or None (de_option json_str) 4 vs;
             Some \<lparr>gp_id = i, gp_op = op, gp_d = d, gp_s = s, gp_t = t\<rparr>
           })
      | _ \<Rightarrow> None)"

section \<open>Errors\<close>

datatype auth_error = AuthError_Request ustr | AuthError_HttpStatus nat | AuthError_InvalidResponse ustr

text \<open>Of the sources of an error only the text is kept.\<close>

datatype api_error =
    Api_Authentication auth_error
  | Api_Request ustr
  | Api_Dns ustr
  | Api_DnsTimeout
  | Api_DnsNoAddresses
  | Api_UploadTimeout
  | Api_HttpStatus nat "int option" "ustr option" "ustr option" "nat option"
  | Api_Platform int ustr "ustr option"
  | Api_Decode ustr
  | Api_ResponseTooLarge
  | Api_InvalidUrl ustr
  | Api_InvalidRequest ustr
  | Api_InvalidMediaUploadRequest ustr
  | Api_InvalidGuildRequest ustr
  | Api_InvalidGuildResourceRequest ustr
  | Api_InvalidGuildResourceResponse ustr
  | Api_InvalidGuildControlRequest ustr
  | Api_InvalidChannelPermissionRequest ustr
  | Api_InvalidReactionRequest ustr
  | Api_InvalidInteractionRequest ustr
  | Api_InvalidMenuRequest ustr
  | Api_InvalidShareLinkRequest ustr
  | Api_InvalidPanelRequest ustr
  | Api_InvalidChannelContentRequest ustr
  | Api_InvalidAudioRequest ustr
  | Api_InvalidForumRequest ustr
  | Api_InvalidForumResponse ustr
  | Api_InvalidStreamUploadRequest ustr
  | Api_InvalidStreamUploadResponse ustr

datatype conn_error =
    Conn_Api api_error
  | Conn_WebSocket ustr
  | Conn_Json
  | Conn_HelloTimeout
  | Conn_ConnectTimeout
  | Conn_InvalidGatewayUrl ustr
  | Conn_ClosedBeforeHello
  | Conn_UnexpectedOpcode op_code op_code
  | Conn_InvalidHeartbeatInterval
  | Conn_MissingSessionId
  | Conn_HeartbeatAckMissing
  | Conn_ConnectionClosed
  | Conn_EventQueueClosed
  | Conn_EventQueueBackpressure
  | Conn_EventAdapterMismatch adapter_id adapter_id
  | Conn_UncommittedEventLimit
  | Conn_InvalidDispatchSequence u64 u64
  | Conn_FatalClose nat ustr

definition is_client_error :: "nat \<Rightarrow> bool" where
  "is_client_error status \<longleftrightarrow> 400 \<le> status \<and> status < 500"

fun is_fatal_api_error :: "api_error \<Rightarrow> bool" where
  "is_fatal_api_error (Api_InvalidUrl _) = True"
| "is_fatal_api_error (Api_InvalidRequest _) = True"
| "is_fatal_api_error (Api_InvalidMediaUploadRequest _) = True"
| "is_fatal_api_error (Api_InvalidChannelPermissionRequest _) = True"
| "is_fatal_api_error (Api_InvalidGuildControlRequest _) = True"
| "is_fatal_api_error (Api_InvalidGuildRequest _) = True"
| "is_fatal_api_error (Api_InvalidGuildResourceRequest _) = True"
| "is_fatal_api_error (Api_InvalidMenuRequest _) = True"
| "is_fatal_api_error (Api_InvalidPanelRequest _) = True"
| "is_fatal_api_error (Api_InvalidChannelContentRequest _) = True"
| "is_fatal_api_error (Api_InvalidAudioRequest _) = True"
| "is_fatal_api_error (Api_InvalidForumRequest _) = True"
| "is_fatal_api_error (Api_InvalidStreamUploadRequest _) = True"
| "is_fatal_api_error (Api_InvalidInteractionRequest _) = True"
| "is_fatal_api_error (Api_InvalidReactionRequest _) = True"
| "is_fatal_api_error (Api_InvalidShareLinkRequest _) = True"
| "is_fatal_api_error (Api_Authentication (AuthError_HttpStatus status)) = (is_client_error status \<and> status \<noteq> 429)"
| "is_fatal_api_error (Api_HttpStatus status _ _ _ _) = (is_client_error status \<and> status \<noteq> 429)"
| "is_fatal_api_error _ = False"

fun conn_error_fatal :: "conn_error \<Rightarrow> bool" where
  "conn_error_fatal (Conn_FatalClose _ _) = True"
| "conn_error_fatal (Conn_InvalidGatewayUrl _) = True"
| "conn_error_fatal (Conn_EventAdapterMismatch _ _) = True"
| "conn_error_fatal (Conn_Api e) = is_fatal_api_error e"
| "conn_error_fatal _ = False"

definition fatal_close_codes :: "nat list" where
  "fatal_close_codes = [4001, 4002, 4003, 4004, 4005, 4010, 4011, 4012, 4013, 4014, 4914, 4915]"

definition is_fatal_close_code :: "nat \<Rightarrow> bool" where
  "is_fatal_close_code code \<longleftrightarrow> code \<in> set fatal_close_codes"

section \<open>The session\<close>

record pending_dispatch =
  pd_seq :: u64
  pd_delivery_id :: "u64 option"
  pd_completed :: bool

record session_state =
  ss_session_id :: "ustr option"
  ss_last_received :: "u64 option"
  ss_last_committed :: "u64 option"
  ss_pending :: "pending_dispatch list"
  ss_next_delivery_id :: u64

datatype dispatch_record = Accepted "u64 option" | Duplicate

record resume_state =
  rs_session_id :: ustr
  rs_seq :: u64

definition max_pending_dispatches :: nat where
  "max_pending_dispatches = 1024"

definition new_session :: session_state where
  "new_session =
     \<lparr>ss_session_id = None, ss_last_received = None, ss_last_committed = None, ss_pending = [], ss_next_delivery_id = 0\<rparr>"

definition prepare_connection :: "session_state \<Rightarrow> resume_state option" where
  "prepare_connection s = do {
     sid \<leftarrow> ss_session_id s;
     seq \<leftarrow> ss_last_committed s;
     Some \<lparr>rs_session_id = sid, rs_seq = seq\<rparr>
   }"

text \<open>\<open>while\<close> the front is completed, it is popped and its sequence becomes the committed one.\<close>

fun pop_completed :: "u64 option \<Rightarrow> pending_dispatch list \<Rightarrow> u64 option \<times> pending_dispatch list" where
  "pop_completed c [] = (c, [])"
| "pop_completed c (i # is) = (if pd_completed i then pop_completed (Some (pd_seq i)) is else (c, i # is))"

definition advance_committed :: "session_state \<Rightarrow> session_state" where
  "advance_committed s =
     (case pop_completed (ss_last_committed s) (ss_pending s) of
        (c, is) \<Rightarrow> s\<lparr>ss_last_committed := c, ss_pending := is\<rparr>)"

definition next_id :: "u64 \<Rightarrow> u64" where
  "next_id n = max (n + 1) 1"

definition known_dispatch :: "u64 \<Rightarrow> session_state \<Rightarrow> bool" where
  "known_dispatch seq s \<longleftrightarrow>
     (case ss_last_committed s of Some c \<Rightarrow> seq \<le> c | None \<Rightarrow> False) \<or> list_ex (\<lambda>i. pd_seq i = seq) (ss_pending s)"

definition decreased :: "u64 \<Rightarrow> session_state \<Rightarrow> conn_error option" where
  "decreased seq s =
     (case ss_last_received s of
        Some l \<Rightarrow> if seq < l then Some (Conn_InvalidDispatchSequence l seq) else None
      | None \<Rightarrow> None)"

definition record_dispatch :: "u64 \<Rightarrow> bool \<Rightarrow> session_state \<Rightarrow> (conn_error + dispatch_record) \<times> session_state" where
  "record_dispatch seq has_event s =
     (if known_dispatch seq s then (Inr Duplicate, s)
      else
        (case decreased seq s of
           Some e \<Rightarrow> (Inl e, s)
         | None \<Rightarrow>
             if has_event \<and> max_pending_dispatches \<le> length (ss_pending s) then (Inl Conn_UncommittedEventLimit, s)
             else
               (let s1 = (if has_event then s\<lparr>ss_next_delivery_id := next_id (ss_next_delivery_id s)\<rparr> else s);
                    d = (if has_event then Some (ss_next_delivery_id s1) else None);
                    i = \<lparr>pd_seq = seq, pd_delivery_id = d, pd_completed = \<not> has_event\<rparr>
                in (Inr (Accepted d),
                    advance_committed (s1\<lparr>ss_last_received := Some seq, ss_pending := ss_pending s1 @ [i]\<rparr>)))))"

fun complete_first :: "u64 \<Rightarrow> pending_dispatch list \<Rightarrow> pending_dispatch list" where
  "complete_first d [] = []"
| "complete_first d (i # is) =
     (if pd_delivery_id i = Some d then i\<lparr>pd_completed := True\<rparr> # is else i # complete_first d is)"

definition mark_handled :: "u64 \<Rightarrow> session_state \<Rightarrow> session_state" where
  "mark_handled d s = advance_committed (s\<lparr>ss_pending := complete_first d (ss_pending s)\<rparr>)"

definition rollback_dispatch :: "u64 \<Rightarrow> session_state \<Rightarrow> session_state" where
  "rollback_dispatch seq s =
     (let is = filter (\<lambda>i. pd_seq i \<noteq> seq) (ss_pending s)
      in s\<lparr>ss_pending := is,
           ss_last_received := (if is = [] then ss_last_committed s else Some (pd_seq (last is)))\<rparr>)"

definition clear_session :: "session_state \<Rightarrow> session_state" where
  "clear_session s = new_session\<lparr>ss_next_delivery_id := ss_next_delivery_id s\<rparr>"

text \<open>\<open>Adapter::event_handled\<close>.\<close>

definition event_handled :: "json event_envelope \<Rightarrow> session_state \<Rightarrow> session_state" where
  "event_handled e s = (case delivery_id e of Some d \<Rightarrow> mark_handled d s | None \<Rightarrow> s)"

end
