(* ===== verification/QqGateway.thy ===== *)
theory QqGateway
  imports QqSession
begin

text \<open>
  The gateway connection of the QQ adapter (\<open>crates/adapter-qqbot/src/websocket.rs\<close>): what one dispatch does
  (\<open>handle_dispatch\<close>), the loop of a connection with its heartbeats, opcodes and close codes (\<open>run_connection\<close>), the
  handshake with resume or identify (\<open>connect_authenticated\<close>), and the reconnect loop with its backoff
  (\<open>run_forever\<close>). What the select loops see, the outcomes of writes and of the API are inputs.
\<close>

section \<open>Dispatches\<close>

text \<open>The sender of events that \<open>run\<close> is given: \<open>try_send\<close> and the two readiness marks.\<close>

record ('e, 'w) sink =
  sk_try_send :: "'e \<Rightarrow> 'w \<Rightarrow> (event_send_error + unit) \<times> 'w"
  sk_ready :: "bool \<Rightarrow> 'w \<Rightarrow> 'w"

definition sender_sink ::
    "(json event_envelope, 'q) channel \<Rightarrow> event_sender \<Rightarrow> nat \<Rightarrow> nat \<Rightarrow>
     (json event_envelope, 'q sender_state) sink" where
  "sender_sink ch a started now =
     \<lparr>sk_try_send = sender_try_send ch a started now,
      sk_ready = (\<lambda>b. if b then sender_mark_ready a else sender_mark_not_ready a)\<rparr>"

type_synonym dispatch_mapping = "adapter_id \<Rightarrow> gateway_payload \<Rightarrow> ustr + json event_envelope option"

definition ready_type :: ustr where "ready_type = lit ''READY''"
definition resumed_type :: ustr where "resumed_type = lit ''RESUMED''"

definition event_type_of :: "gateway_payload \<Rightarrow> ustr" where
  "event_type_of p = (case gp_t p of Some t \<Rightarrow> t | None \<Rightarrow> lit ''UNKNOWN'')"

definition is_authenticated :: "gateway_payload \<Rightarrow> bool" where
  "is_authenticated p \<longleftrightarrow> event_type_of p \<in> {ready_type, resumed_type}"

definition ready_session_id :: "gateway_payload \<Rightarrow> ustr option" where
  "ready_session_id p = Option.bind (json_get (lit ''session_id'') (gp_d p)) json_str"

fun send_conn_error :: "event_send_error \<Rightarrow> conn_error" where
  "send_conn_error ES_QueueClosed = Conn_EventQueueClosed"
| "send_conn_error ES_QueueFull = Conn_EventQueueBackpressure"
| "send_conn_error (ES_AdapterMismatch e a) = Conn_EventAdapterMismatch e a"

text \<open>Handing the event over: when the sender refuses it, a sequenced dispatch is taken back.\<close>

definition deliver_event ::
    "(json event_envelope, 'w) sink \<Rightarrow> gateway_payload \<Rightarrow> json event_envelope option \<Rightarrow>
     session_state \<times> 'w \<Rightarrow> (conn_error + bool) \<times> session_state \<times> 'w" where
  "deliver_event K p mapped x =
     (case mapped of
        None \<Rightarrow> (Inr (is_authenticated p), x)
      | Some e \<Rightarrow>
          (case sk_try_send K e (snd x) of
             (Inr _, w) \<Rightarrow> (Inr (is_authenticated p), fst x, w)
           | (Inl err, w) \<Rightarrow>
               (Inl (send_conn_error err),
                (case gp_s p of Some seq \<Rightarrow> rollback_dispatch seq (fst x) | None \<Rightarrow> fst x), w)))"

definition after_ready ::
    "(json event_envelope, 'w) sink \<Rightarrow> gateway_payload \<Rightarrow> session_state \<times> 'w \<Rightarrow> session_state \<times> 'w" where
  "after_ready K p x =
     ((if event_type_of p = ready_type then (fst x)\<lparr>ss_session_id := ready_session_id p\<rparr> else fst x),
      (if is_authenticated p then sk_ready K True (snd x) else snd x))"

definition handle_dispatch ::
    "dispatch_mapping \<Rightarrow> (json event_envelope, 'w) sink \<Rightarrow> adapter_id \<Rightarrow> gateway_payload \<Rightarrow>
     session_state \<times> 'w \<Rightarrow> (conn_error + bool) \<times> session_state \<times> 'w" where
  "handle_dispatch M K a p x =
     (if event_type_of p = ready_type \<and> ready_session_id p = None then (Inl Conn_MissingSessionId, x)
      else
        (let x1 = after_ready K p x
         in case M a p of
              Inl _ \<Rightarrow>
                (Inr (is_authenticated p),
                 (case gp_s p of Some seq \<Rightarrow> snd (record_dispatch seq False (fst x1)) | None \<Rightarrow> fst x1), snd x1)
            | Inr mapped \<Rightarrow>
                (case gp_s p of
                   None \<Rightarrow> deliver_event K p mapped x1
                 | Some seq \<Rightarrow>
                     (case record_dispatch seq (mapped \<noteq> None) (fst x1) of
                        (Inl err, s) \<Rightarrow> (Inl err, s, snd x1)
                      | (Inr Duplicate, s) \<Rightarrow> (Inr (is_authenticated p), s, snd x1)
                      | (Inr (Accepted d), s) \<Rightarrow>
                          deliver_event K p (map_option (\<lambda>e. e\<lparr>delivery_id := d\<rparr>) mapped) (s, snd x1)))))"

section \<open>Backoff\<close>

text \<open>Durations are nanoseconds.\<close>

definition duration_max :: nat where
  "duration_max = 2 ^ 64 * 1000000000 - 1"

definition min_reconnect_delay :: nat where
  "min_reconnect_delay = 100000000"

definition reconnect_delay :: "nat \<Rightarrow> nat \<Rightarrow> u32 \<Rightarrow> nat" where
  "reconnect_delay minimum maximum attempt =
     (let exponent = min (unat attempt) 10;
          multiplier = 2 ^ exponent;
          base = min (min (minimum * multiplier) duration_max) maximum;
          jitter_millis = unat ((ucast attempt :: u64) * 1103515245 + 12345) mod 251
      in min (min (base + jitter_millis * 1000000) duration_max) maximum)"

definition next_delay :: "nat \<Rightarrow> nat \<Rightarrow> u32 \<Rightarrow> nat \<times> u32" where
  "next_delay minimum maximum attempt = (reconnect_delay minimum maximum attempt, sat_add attempt 1)"

record qq_config =
  qc_adapter_id :: adapter_id
  qc_intents :: u32
  qc_shard :: "u32 \<times> u32"
  qc_log_message_content :: bool
  qc_reconnect_min_delay :: nat
  qc_reconnect_max_delay :: nat

definition new_qq_config :: "qq_config \<Rightarrow> qq_config" where
  "new_qq_config c =
     (let mn = max (qc_reconnect_min_delay c) min_reconnect_delay
      in c\<lparr>qc_reconnect_min_delay := mn, qc_reconnect_max_delay := max (qc_reconnect_max_delay c) mn\<rparr>)"

section \<open>One connection\<close>

datatype outbound_payload =
    Out_Heartbeat "u64 option"
  | Out_Resume ustr ustr u64
  | Out_Identify ustr u32 "u32 \<times> u32"
  | Out_Pong bytes
  | Out_Close

datatype connection_exit = Exit_Shutdown | Exit_Reconnect

text \<open>
  The adapter while it runs: its session, the sender, the attempts of the backoff, whether the last heartbeat was
  acknowledged (\<open>heartbeat_acknowledged\<close>, of the connection), and what was written to the socket.
\<close>

record 'w qq_run =
  qr_session :: session_state
  qr_sink :: 'w
  qr_attempt :: u32
  qr_acknowledged :: bool
  qr_written :: "outbound_payload list"

text \<open>A frame of the peer: a text or binary message is the JSON it holds, or not JSON.\<close>

datatype gateway_frame =
    Frame_Data "json option"
  | Frame_Ping bytes
  | Frame_Pong
  | Frame_Close "(nat \<times> ustr) option"

text \<open>What the select loop sees next; a write may fail, with \<open>failed\<close> its error.\<close>

datatype conn_input =
    In_Shutdown
  | In_Tick
  | In_End
  | In_Failed ustr
  | In_Frame gateway_frame

definition write_payload :: "ustr option \<Rightarrow> outbound_payload \<Rightarrow> 'w qq_run \<Rightarrow> conn_error option \<times> 'w qq_run" where
  "write_payload failed out r =
     (case failed of
        Some e \<Rightarrow> (Some (Conn_WebSocket e), r)
      | None \<Rightarrow> (None, r\<lparr>qr_written := qr_written r @ [out]\<rparr>))"

text \<open>A step of the loop gives nothing while the loop goes on.\<close>

type_synonym conn_result = "(conn_error + connection_exit) option"

definition send_heartbeat :: "ustr option \<Rightarrow> 'w qq_run \<Rightarrow> conn_result \<times> 'w qq_run" where
  "send_heartbeat failed r =
     (case write_payload failed (Out_Heartbeat (ss_last_received (qr_session r))) r of
        (Some e, r) \<Rightarrow> (Some (Inl e), r)
      | (None, r) \<Rightarrow> (None, r\<lparr>qr_acknowledged := False\<rparr>))"

definition run_dispatch ::
    "dispatch_mapping \<Rightarrow> (json event_envelope, 'w) sink \<Rightarrow> adapter_id \<Rightarrow> gateway_payload \<Rightarrow> 'w qq_run \<Rightarrow>
     conn_result \<times> 'w qq_run" where
  "run_dispatch M K a p r =
     (case handle_dispatch M K a p (qr_session r, qr_sink r) of
        (Inl e, s, w) \<Rightarrow> (Some (Inl e), r\<lparr>qr_session := s, qr_sink := w\<rparr>)
      | (Inr auth, s, w) \<Rightarrow>
          (None, r\<lparr>qr_session := s, qr_sink := w, qr_attempt := if auth then 0 else qr_attempt r\<rparr>))"

definition run_payload ::
    "dispatch_mapping \<Rightarrow> (json event_envelope, 'w) sink \<Rightarrow> adapter_id \<Rightarrow> ustr option \<Rightarrow> gateway_payload \<Rightarrow>
     'w qq_run \<Rightarrow> conn_result \<times> 'w qq_run" where
  "run_payload M K a failed p r =
     (if gp_op p = op_heartbeat_ack then (None, r\<lparr>qr_acknowledged := True\<rparr>)
      else if gp_op p = op_heartbeat then send_heartbeat failed r
      else if gp_op p = op_reconnect then (Some (Inr Exit_Reconnect), r)
      else if gp_op p = op_invalid_session
           then (Some (Inr Exit_Reconnect), r\<lparr>qr_session := clear_session (qr_session r)\<rparr>)
      else if gp_op p = op_dispatch then run_dispatch M K a p r
      else (None, r))"

definition run_frame ::
    "dispatch_mapping \<Rightarrow> (json event_envelope, 'w) sink \<Rightarrow> adapter_id \<Rightarrow> ustr option \<Rightarrow> gateway_frame \<Rightarrow>
     'w qq_run \<Rightarrow> conn_result \<times> 'w qq_run" where
  "run_frame M K a failed f r =
     (case f of
        Frame_Data v \<Rightarrow>
          (case Option.bind v de_gateway_payload of
             None \<Rightarrow> (Some (Inl Conn_Json), r)
           | Some p \<Rightarrow> run_payload M K a failed p r)
      | Frame_Ping b \<Rightarrow>
          (case write_payload failed (Out_Pong b) r of
             (Some e, r) \<Rightarrow> (Some (Inl e), r)
           | (None, r) \<Rightarrow> (None, r))
      | Frame_Pong \<Rightarrow> (None, r)
      | Frame_Close None \<Rightarrow> (Some (Inl Conn_ConnectionClosed), r)
      | Frame_Close (Some (code, reason)) \<Rightarrow>
          (if code \<in> {4006, 4007, 4009}
           then (Some (Inr Exit_Reconnect), r\<lparr>qr_session := clear_session (qr_session r)\<rparr>)
           else if is_fatal_close_code code then (Some (Inl (Conn_FatalClose code reason)), r)
           else (Some (Inl Conn_ConnectionClosed), r)))"

fun run_input ::
    "dispatch_mapping \<Rightarrow> (json event_envelope, 'w) sink \<Rightarrow> adapter_id \<Rightarrow> ustr option \<Rightarrow> conn_input \<Rightarrow>
     'w qq_run \<Rightarrow> conn_result \<times> 'w qq_run" where
  "run_input M K a failed In_Shutdown r = (Some (Inr Exit_Shutdown), r\<lparr>qr_written := qr_written r @ [Out_Close]\<rparr>)"
| "run_input M K a failed In_Tick r =
     (if \<not> qr_acknowledged r then (Some (Inl Conn_HeartbeatAckMissing), r) else send_heartbeat failed r)"
| "run_input M K a failed In_End r = (Some (Inl Conn_ConnectionClosed), r)"
| "run_input M K a failed (In_Failed e) r = (Some (Inl (Conn_WebSocket e)), r)"
| "run_input M K a failed (In_Frame f) r = run_frame M K a failed f r"

text \<open>The loop over the inputs there are; each comes with the sender at its time and the outcome of its write.\<close>

fun conn_loop ::
    "dispatch_mapping \<Rightarrow> adapter_id \<Rightarrow> ((json event_envelope, 'w) sink \<times> ustr option \<times> conn_input) list \<Rightarrow>
     'w qq_run \<Rightarrow> conn_result \<times> 'w qq_run" where
  "conn_loop M a [] r = (None, r)"
| "conn_loop M a ((K, failed, i) # is) r =
     (case run_input M K a failed i r of
        (Some res, r) \<Rightarrow> (Some res, r)
      | (None, r) \<Rightarrow> conn_loop M a is r)"

section \<open>The handshake\<close>

datatype 'a awaited = Aw_Shutdown | Aw_Done 'a

datatype hello_frame = Hello_Timeout | Hello_End | Hello_Failed ustr | Hello_Data "json option" | Hello_Other

text \<open>A parsed URL: its scheme, the text of its host, and whether that is the text of a loopback address.\<close>

record gateway_url =
  gu_scheme :: ustr
  gu_host :: "ustr option"
  gu_loopback_address :: bool

record handshake =
  hk_gateway :: "(api_error + ustr) awaited"
  hk_connected :: "conn_error option awaited"
  hk_hello :: "hello_frame awaited"
  hk_token :: "auth_error + ustr"
  hk_failed :: "ustr option"

definition on_host :: "(ustr \<Rightarrow> bool) \<Rightarrow> gateway_url \<Rightarrow> bool" where
  "on_host P u = (case gu_host u of Some h \<Rightarrow> P h | None \<Rightarrow> False)"

definition gateway_loopback :: "gateway_url \<Rightarrow> bool" where
  "gateway_loopback u = on_host (\<lambda>h. eq_ignore_ascii_case h (lit ''localhost'') \<or> gu_loopback_address u) u"

definition trusted_qq_host :: "ustr \<Rightarrow> bool" where
  "trusted_qq_host h \<longleftrightarrow>
     eq_ignore_ascii_case h (lit ''qq.com'') \<or> ends_with (lit ''.qq.com'') h \<or>
     eq_ignore_ascii_case h (lit ''sgroup.qq.com'') \<or> ends_with (lit ''.sgroup.qq.com'') h"

definition validate_gateway_url :: "(ustr \<Rightarrow> ustr + gateway_url) \<Rightarrow> ustr \<Rightarrow> conn_error option" where
  "validate_gateway_url parse value =
     (case parse value of
        Inl e \<Rightarrow> Some (Conn_InvalidGatewayUrl e)
      | Inr u \<Rightarrow>
          if gu_scheme u \<noteq> lit ''wss'' \<and> \<not> (gu_scheme u = lit ''ws'' \<and> gateway_loopback u)
          then Some (Conn_InvalidGatewayUrl (lit ''URL must use wss''))
          else if \<not> gateway_loopback u \<and> \<not> on_host trusted_qq_host u
          then Some (Conn_InvalidGatewayUrl (lit ''host is not an approved QQ Gateway domain''))
          else None)"

definition hello_interval :: "gateway_payload \<Rightarrow> nat option" where
  "hello_interval p =
     Option.bind (Option.bind (json_get (lit ''heartbeat_interval'') (gp_d p)) json_u64)
       (\<lambda>n. if 1000 \<le> n \<and> n \<le> 3600000 then Some (nat n) else None)"

fun read_hello :: "hello_frame \<Rightarrow> conn_error + nat" where
  "read_hello Hello_Timeout = Inl Conn_HelloTimeout"
| "read_hello Hello_End = Inl Conn_ClosedBeforeHello"
| "read_hello (Hello_Failed e) = Inl (Conn_WebSocket e)"
| "read_hello Hello_Other = Inl Conn_ClosedBeforeHello"
| "read_hello (Hello_Data v) =
     (case Option.bind v de_gateway_payload of
        None \<Rightarrow> Inl Conn_Json
      | Some p \<Rightarrow>
          if gp_op p \<noteq> op_hello then Inl (Conn_UnexpectedOpcode op_hello (gp_op p))
          else (case hello_interval p of None \<Rightarrow> Inl Conn_InvalidHeartbeatInterval | Some n \<Rightarrow> Inr n))"

definition first_payload :: "qq_config \<Rightarrow> ustr \<Rightarrow> session_state \<Rightarrow> outbound_payload" where
  "first_payload c token s =
     (case prepare_connection s of
        Some rs \<Rightarrow> Out_Resume (lit ''QQBot '' @ token) (rs_session_id rs) (rs_seq rs)
      | None \<Rightarrow> Out_Identify (lit ''QQBot '' @ token) (qc_intents c) (qc_shard c))"

text \<open>The heartbeat interval in milliseconds, or nothing at a shutdown.\<close>

definition connect_authenticated ::
    "(ustr \<Rightarrow> ustr + gateway_url) \<Rightarrow> qq_config \<Rightarrow> handshake \<Rightarrow> 'w qq_run \<Rightarrow> (conn_error + nat option) \<times> 'w qq_run" where
  "connect_authenticated parse c h r =
     (case hk_gateway h of
        Aw_Shutdown \<Rightarrow> (Inr None, r)
      | Aw_Done (Inl e) \<Rightarrow> (Inl (Conn_Api e), r)
      | Aw_Done (Inr url) \<Rightarrow>
     (case validate_gateway_url parse url of
        Some e \<Rightarrow> (Inl e, r)
      | None \<Rightarrow>
     (case hk_connected h of
        Aw_Shutdown \<Rightarrow> (Inr None, r)
      | Aw_Done (Some e) \<Rightarrow> (Inl e, r)
      | Aw_Done None \<Rightarrow>
     (case hk_hello h of
        Aw_Shutdown \<Rightarrow> (Inr None, r)
      | Aw_Done f \<Rightarrow>
     (case read_hello f of
        Inl e \<Rightarrow> (Inl e, r)
      | Inr interval \<Rightarrow>
     (case hk_token h of
        Inl e \<Rightarrow> (Inl (Conn_Api (Api_Authentication e)), r)
      | Inr token \<Rightarrow>
     (case write_payload (hk_failed h) (first_payload c token (qr_session r)) r of
        (Some e, r) \<Rightarrow> (Inl e, r)
      | (None, r) \<Rightarrow> (Inr (Some interval), r))))))))"

definition run_connection ::
    "dispatch_mapping \<Rightarrow> (ustr \<Rightarrow> ustr + gateway_url) \<Rightarrow> qq_config \<Rightarrow> handshake \<Rightarrow>
     ((json event_envelope, 'w) sink \<times> ustr option \<times> conn_input) list \<Rightarrow> 'w qq_run \<Rightarrow> conn_result \<times> 'w qq_run" where
  "run_connection M parse c h is r =
     (case connect_authenticated parse c h r of
        (Inl e, r) \<Rightarrow> (Some (Inl e), r)
      | (Inr None, r) \<Rightarrow> (Some (Inr Exit_Shutdown), r)
      | (Inr (Some _), r) \<Rightarrow> conn_loop M (qc_adapter_id c) is (r\<lparr>qr_acknowledged := True\<rparr>))"

section \<open>Reconnecting\<close>

text \<open>What happens to one connection: whether the shutdown came before it or in the wait after it.\<close>

record 'w connection_input =
  ci_shutdown :: bool
  ci_handshake :: handshake
  ci_inputs :: "((json event_envelope, 'w) sink \<times> ustr option \<times> conn_input) list"
  ci_ready :: "bool \<Rightarrow> 'w \<Rightarrow> 'w"
  ci_shutdown_wait :: bool

definition mark_not_ready :: "'w connection_input \<Rightarrow> 'w qq_run \<Rightarrow> 'w qq_run" where
  "mark_not_ready ci r = r\<lparr>qr_sink := ci_ready ci False (qr_sink r)\<rparr>"

text \<open>What the end of a connection means for the adapter; nothing when it reconnects.\<close>

fun connection_verdict :: "(conn_error \<Rightarrow> ustr) \<Rightarrow> conn_error + connection_exit \<Rightarrow> (adapter_error + unit) option" where
  "connection_verdict txt (Inr Exit_Shutdown) = Some (Inr ())"
| "connection_verdict txt (Inl (Conn_EventAdapterMismatch e a)) = Some (Inl (AE_EventAdapterMismatch e a))"
| "connection_verdict txt (Inl Conn_EventQueueClosed) = Some (Inl AE_EventQueueClosed)"
| "connection_verdict txt (Inl err) = (if conn_error_fatal err then Some (Inl (AE_Configuration (txt err))) else None)"
| "connection_verdict txt (Inr Exit_Reconnect) = None"

text \<open>
  The result of the loop, if it has ended, the delays it has waited and the state. \<open>txt\<close> is the text of an error.
\<close>

fun run_forever ::
    "dispatch_mapping \<Rightarrow> (ustr \<Rightarrow> ustr + gateway_url) \<Rightarrow> (conn_error \<Rightarrow> ustr) \<Rightarrow> qq_config \<Rightarrow> 'w connection_input list \<Rightarrow>
     'w qq_run \<Rightarrow> (adapter_error + unit) option \<times> nat list \<times> 'w qq_run" where
  "run_forever M parse txt c [] r = (None, [], r)"
| "run_forever M parse txt c (ci # cis) r =
     (if ci_shutdown ci then (Some (Inr ()), [], r)
      else
        (case run_connection M parse c (ci_handshake ci) (ci_inputs ci) (mark_not_ready ci r) of
           (None, r) \<Rightarrow> (None, [], r)
         | (Some res, r) \<Rightarrow>
             (case connection_verdict txt res of
                Some v \<Rightarrow> (Some v, [], mark_not_ready ci r)
              | None \<Rightarrow>
                  (case next_delay (qc_reconnect_min_delay c) (qc_reconnect_max_delay c) (qr_attempt r) of
                     (d, n) \<Rightarrow>
                       (if ci_shutdown_wait ci then (Some (Inr ()), [d], (mark_not_ready ci r)\<lparr>qr_attempt := n\<rparr>)
                        else
                          (case run_forever M parse txt c cis ((mark_not_ready ci r)\<lparr>qr_attempt := n\<rparr>) of
                             (v, ds, r) \<Rightarrow> (v, d # ds, r)))))))"

end
