(* ===== verification/QqWebhook.thy ===== *)
theory QqWebhook
  imports QqGateway
begin

text \<open>
  The HTTP callback transport of the QQ adapter (\<open>crates/adapter-qqbot/src/webhook.rs\<close>): the checks of a configuration, the
  authentication of a callback, the table of seen events, and the handling of a callback, stage by stage between its
  awaits. Ed25519, the JSON parser and the mapping of dispatches are parameters; every reading of the clock is an argument.
\<close>

section \<open>Limits and configuration\<close>

definition default_max_body_bytes :: nat where "default_max_body_bytes = 1024 * 1024"
definition max_body_bytes_limit :: nat where "max_body_bytes_limit = 16 * 1024 * 1024"
definition max_seen_events :: nat where "max_seen_events = 4096"
definition max_timestamp_tolerance :: nat where "max_timestamp_tolerance = 3600"
definition max_path_bytes :: nat where "max_path_bytes = 2048"
definition max_event_id_bytes :: nat where "max_event_id_bytes = 512"
definition max_request_concurrency :: nat where "max_request_concurrency = 1024"
definition max_request_timeout :: nat where "max_request_timeout = 60"
definition max_buffered_body_bytes :: nat where "max_buffered_body_bytes = 256 * 1024 * 1024"
definition request_memory_multiplier :: nat where "request_memory_multiplier = 4"

text \<open>Durations are nanoseconds, as in the gateway.\<close>

record webhook_config =
  wc_adapter_id :: adapter_id
  wc_port :: u16
  wc_path :: ustr
  wc_app_id :: ustr
  wc_app_secret :: bytes
  wc_timestamp_tolerance :: nat
  wc_max_body_bytes :: nat
  wc_max_request_concurrency :: nat
  wc_request_timeout :: nat
  wc_log_message_content :: bool

definition second :: nat where "second = 1000000000"

definition as_secs :: "nat \<Rightarrow> nat" where "as_secs d = d div second"

definition new_webhook_config :: "u16 \<Rightarrow> ustr \<Rightarrow> ustr \<Rightarrow> bytes \<Rightarrow> webhook_config" where
  "new_webhook_config port path app_id secret =
     \<lparr>wc_adapter_id = lit ''qq-official-webhook'', wc_port = port, wc_path = path, wc_app_id = app_id,
      wc_app_secret = secret, wc_timestamp_tolerance = 300 * second, wc_max_body_bytes = default_max_body_bytes,
      wc_max_request_concurrency = 64, wc_request_timeout = 10 * second, wc_log_message_content = False\<rparr>"

definition path_char :: "nat \<Rightarrow> bool" where
  "path_char c \<longleftrightarrow> c \<in> of_char ` set ''/-._~'' \<or> is_ascii_alphanumeric c"

definition is_literal_http_path :: "ustr \<Rightarrow> bool" where
  "is_literal_http_path path \<longleftrightarrow>
     path \<noteq> [] \<and> blen path \<le> max_path_bytes \<and> hd path = 47 \<and>
     \<not> list_ex (\<lambda>c. c = lit ''.'' \<or> c = lit ''..'') (split_char 47 path) \<and> list_all path_char path"

definition checked_mul :: "nat \<Rightarrow> nat \<Rightarrow> nat option" where
  "checked_mul a b = (if a * b \<le> usize_max then Some (a * b) else None)"

definition estimated_memory :: "webhook_config \<Rightarrow> nat option" where
  "estimated_memory c =
     Option.bind (checked_mul (wc_max_body_bytes c) (wc_max_request_concurrency c))
       (\<lambda>n. checked_mul n request_memory_multiplier)"

definition validate_webhook_config :: "webhook_config \<Rightarrow> adapter_error option" where
  "validate_webhook_config c =
     (if wc_port c = 0 then Some (AE_Configuration (lit ''QQ Webhook listener must use a non-zero port''))
      else if \<not> is_literal_http_path (wc_path c)
      then Some (AE_Configuration (lit ''QQ Webhook path must be a literal absolute HTTP path''))
      else if trim (wc_app_id c) = [] then Some (AE_Configuration (lit ''QQ Webhook app ID must not be empty''))
      else if wc_max_body_bytes c = 0 \<or> max_body_bytes_limit < wc_max_body_bytes c
      then Some (AE_Configuration (lit ''QQ Webhook body limit must be between 1 and '' @ decimal max_body_bytes_limit))
      else if wc_max_request_concurrency c = 0 \<or> max_request_concurrency < wc_max_request_concurrency c
      then Some (AE_Configuration (lit ''QQ Webhook request concurrency must be between 1 and '' @ decimal max_request_concurrency))
      else if (case estimated_memory c of None \<Rightarrow> True | Some n \<Rightarrow> max_buffered_body_bytes < n)
      then Some (AE_Configuration (lit ''QQ Webhook estimated aggregate request memory must not exceed '' @
             decimal max_buffered_body_bytes @ lit '' bytes''))
      else if wc_request_timeout c < second \<or> max_request_timeout * second < wc_request_timeout c
      then Some (AE_Configuration (lit ''QQ Webhook request timeout must be between 1 second and 1 minute''))
      else if wc_timestamp_tolerance c < second \<or> max_timestamp_tolerance * second < wc_timestamp_tolerance c
      then Some (AE_Configuration (lit ''QQ Webhook timestamp tolerance must be between 1 second and 1 hour''))
      else None)"

section \<open>Keys and signatures\<close>

text \<open>The seed repeats the secret over 32 bytes.\<close>

definition derive_seed :: "bytes \<Rightarrow> adapter_error + bytes" where
  "derive_seed secret =
     (if secret = [] then Inl (AE_Configuration (lit ''QQ Webhook app secret must not be empty''))
      else Inr (map (\<lambda>i. secret ! (i mod length secret)) [0..<32]))"

definition hex_nibble :: "nat \<Rightarrow> nat option" where
  "hex_nibble c =
     (if 48 \<le> c \<and> c \<le> 57 then Some (c - 48)
      else if 97 \<le> c \<and> c \<le> 102 then Some (c - 87)
      else if 65 \<le> c \<and> c \<le> 70 then Some (c - 55)
      else None)"

text \<open>\<open>u8::from_str_radix\<close> on two characters: a sign before one digit is a number, too.\<close>

definition hex_pair :: "nat \<Rightarrow> nat \<Rightarrow> 8 word option" where
  "hex_pair c d =
     (if c = 43 then map_option of_nat (hex_nibble d)
      else (case (hex_nibble c, hex_nibble d) of (Some m, Some n) \<Rightarrow> Some (of_nat (16 * m + n)) | _ \<Rightarrow> None))"

fun hex_pairs :: "ustr \<Rightarrow> bytes option" where
  "hex_pairs (c # d # s) = do { b \<leftarrow> hex_pair c d; bs \<leftarrow> hex_pairs s; Some (b # bs) }"
| "hex_pairs _ = Some []"

definition decode_signature :: "ustr \<Rightarrow> string + bytes" where
  "decode_signature s =
     (if length s \<noteq> 128 then Inl ''callback signature has an invalid length''
      else (case hex_pairs s of None \<Rightarrow> Inl ''callback signature is not hexadecimal'' | Some bs \<Rightarrow> Inr bs))"

definition hex_char :: "nat \<Rightarrow> nat" where
  "hex_char n = lit ''0123456789abcdef'' ! n"

definition encode_hex :: "bytes \<Rightarrow> ustr" where
  "encode_hex bs = concat (map (\<lambda>b. [hex_char (unat b div 16), hex_char (unat b mod 16)]) bs)"

section \<open>Authentication\<close>

text \<open>A header value is text when its bytes are tabs or visible ASCII.\<close>

type_synonym headers = "(string \<times> bytes) list"

definition visible_byte :: "8 word \<Rightarrow> bool" where
  "visible_byte b \<longleftrightarrow> b = 9 \<or> 32 \<le> b \<and> b < 127"

definition header_text :: "headers \<Rightarrow> string \<Rightarrow> string + ustr" where
  "header_text hs name =
     (case map snd (filter (\<lambda>h. fst h = name) hs) of
        [] \<Rightarrow> Inl ''required callback header is missing''
      | [v] \<Rightarrow> if list_all visible_byte v then Inr (map unat v) else Inl ''callback header is not valid ASCII''
      | _ \<Rightarrow> Inl ''callback header must occur exactly once'')"

definition parse_u64 :: "ustr \<Rightarrow> nat option" where
  "parse_u64 s =
     (let d = (case s of c # r \<Rightarrow> if c = 43 then r else s | [] \<Rightarrow> s)
      in if d = [] \<or> \<not> list_all is_ascii_digit d \<or> 2 ^ 64 \<le> undecimal d then None else Some (undecimal d))"

definition text_bytes :: "ustr \<Rightarrow> bytes" where
  "text_bytes s = map of_nat s"

record webhook_libs =
  wl_verify_strict :: "bytes \<Rightarrow> bytes \<Rightarrow> bytes \<Rightarrow> bool"
  wl_sign :: "bytes \<Rightarrow> bytes \<Rightarrow> bytes"
  wl_json :: "bytes \<Rightarrow> json option"
  wl_mapping :: dispatch_mapping

text \<open>What the handlers share of the adapter, besides its state; times are seconds of the Unix epoch.\<close>

record webhook_shared =
  ws_adapter_id :: adapter_id
  ws_app_id :: ustr
  ws_seed :: bytes
  ws_tolerance :: nat
  ws_timeout :: nat
  ws_max_body_bytes :: nat

definition new_webhook_adapter :: "webhook_config \<Rightarrow> adapter_error + webhook_shared" where
  "new_webhook_adapter c =
     (case validate_webhook_config c of Some e \<Rightarrow> Inl e | None \<Rightarrow>
     (case derive_seed (wc_app_secret c) of Inl e \<Rightarrow> Inl e | Inr seed \<Rightarrow>
        Inr \<lparr>ws_adapter_id = wc_adapter_id c, ws_app_id = wc_app_id c, ws_seed = seed,
          ws_tolerance = as_secs (wc_timestamp_tolerance c), ws_timeout = as_secs (wc_request_timeout c),
          ws_max_body_bytes = wc_max_body_bytes c\<rparr>))"

definition abs_diff :: "nat \<Rightarrow> nat \<Rightarrow> nat" where
  "abs_diff a b = (a - b) + (b - a)"

text \<open>The clock gives nothing before the epoch.\<close>

definition authenticate :: "webhook_libs \<Rightarrow> webhook_shared \<Rightarrow> headers \<Rightarrow> bytes \<Rightarrow> nat option \<Rightarrow> string + nat" where
  "authenticate L ws hs body clock =
     (case header_text hs ''x-bot-appid'' of Inl e \<Rightarrow> Inl e | Inr app_id \<Rightarrow>
      if app_id \<noteq> ws_app_id ws then Inl ''callback app ID does not match'' else
     (case header_text hs ''x-signature-timestamp'' of Inl e \<Rightarrow> Inl e | Inr t \<Rightarrow>
     (case parse_u64 t of None \<Rightarrow> Inl ''invalid callback timestamp'' | Some stamp \<Rightarrow>
     (case clock of None \<Rightarrow> Inl ''system clock is before Unix epoch'' | Some now \<Rightarrow>
      if ws_tolerance ws < abs_diff now stamp then Inl ''callback timestamp is outside the accepted window'' else
     (case header_text hs ''x-signature-ed25519'' of Inl e \<Rightarrow> Inl e | Inr encoded \<Rightarrow>
     (case decode_signature encoded of Inl e \<Rightarrow> Inl e | Inr sig \<Rightarrow>
      if wl_verify_strict L (ws_seed ws) (text_bytes t @ body) sig then Inr stamp
      else Inl ''invalid callback signature''))))))"

section \<open>Seen events\<close>

datatype seen_state = Seen_Pending | Seen_Accepted

record seen_record =
  sr_state :: seen_state
  sr_expires_at :: nat

datatype reservation = Rv_New | Rv_Pending | Rv_Accepted | Rv_Saturated

type_synonym seen_events = "(ustr, seen_record) hmap"

fun reservation_of :: "seen_state \<Rightarrow> reservation" where
  "reservation_of Seen_Pending = Rv_Pending"
| "reservation_of Seen_Accepted = Rv_Accepted"

definition seen_lookup :: "ustr \<Rightarrow> nat \<Rightarrow> seen_events \<Rightarrow> reservation option \<times> seen_events" where
  "seen_lookup x now m =
     (case hm_get m x of
        None \<Rightarrow> (None, m)
      | Some r \<Rightarrow>
          if sr_expires_at r < now then (None, hm_del x m) else (Some (reservation_of (sr_state r)), m))"

definition seen_retain :: "nat \<Rightarrow> seen_events \<Rightarrow> seen_events" where
  "seen_retain now m = filter (\<lambda>(_, r). now \<le> sr_expires_at r) m"

definition seen_insert :: "ustr \<Rightarrow> nat \<Rightarrow> nat \<Rightarrow> seen_events \<Rightarrow> reservation \<times> seen_events" where
  "seen_insert x expires_at now m =
     (let m1 = (if max_seen_events \<le> hm_len m then seen_retain now m else m)
      in if max_seen_events \<le> hm_len m1 then (Rv_Saturated, m1)
         else (Rv_New, hm_put x \<lparr>sr_state = Seen_Pending, sr_expires_at = expires_at\<rparr> m1))"

definition seen_reserve :: "ustr \<Rightarrow> nat \<Rightarrow> nat \<Rightarrow> seen_events \<Rightarrow> reservation \<times> seen_events" where
  "seen_reserve x expires_at now m =
     (case hm_get m x of
        Some r \<Rightarrow>
          if now \<le> sr_expires_at r then (reservation_of (sr_state r), m)
          else seen_insert x expires_at now (hm_del x m)
      | None \<Rightarrow> seen_insert x expires_at now m)"

definition seen_accept :: "ustr \<Rightarrow> seen_events \<Rightarrow> seen_events" where
  "seen_accept x m =
     (case hm_get m x of
        Some r \<Rightarrow> if sr_state r = Seen_Pending then hm_put x (r\<lparr>sr_state := Seen_Accepted\<rparr>) m else m
      | None \<Rightarrow> m)"

definition seen_release :: "ustr \<Rightarrow> seen_events \<Rightarrow> seen_events" where
  "seen_release x m = (if map_option sr_state (hm_get m x) = Some Seen_Pending then hm_del x m else m)"

section \<open>The runs of the adapter\<close>

text \<open>\<open>terminal\<close>: the channel for the error that ends the run is not used yet.\<close>

record active_run =
  ar_generation :: u64
  ar_terminal :: bool

record 'w webhook =
  wh_seen :: seen_events
  wh_next_generation :: u64
  wh_active :: "active_run option"
  wh_sink :: 'w
  wh_terminal_errors :: "(u64 \<times> adapter_error) list"

definition begin_run :: "'w webhook \<Rightarrow> (adapter_error + u64) \<times> 'w webhook" where
  "begin_run s =
     (if wh_active s \<noteq> None then (Inl (AE_Configuration (lit ''QQ Webhook adapter is already running'')), s)
      else
        (let g = wh_next_generation s + 1
         in (Inr g, s\<lparr>wh_next_generation := g, wh_active := Some \<lparr>ar_generation = g, ar_terminal = True\<rparr>\<rparr>)))"

text \<open>The drop of the \<open>WebhookRunGuard\<close>.\<close>

definition end_run :: "(json event_envelope, 'w) sink \<Rightarrow> u64 \<Rightarrow> 'w webhook \<Rightarrow> 'w webhook" where
  "end_run K g s =
     (let s1 = s\<lparr>wh_sink := sk_ready K False (wh_sink s)\<rparr>
      in case wh_active s1 of
           Some a \<Rightarrow> if ar_generation a = g then s1\<lparr>wh_active := None\<rparr> else s1
         | None \<Rightarrow> s1)"

text \<open>The listener is bound, or the run ends and its guard is dropped; then the server answers until one side ends it.\<close>

definition bind_run :: "(json event_envelope, 'w) sink \<Rightarrow> u64 \<Rightarrow> ustr + unit \<Rightarrow> 'w webhook \<Rightarrow>
    (adapter_error + unit) \<times> 'w webhook" where
  "bind_run K g bound s =
     (case bound of
        Inl m \<Rightarrow> (Inl (AE_Transport m), end_run K g s)
      | Inr _ \<Rightarrow> (Inr (), s\<lparr>wh_sink := sk_ready K True (wh_sink s)\<rparr>))"

datatype run_end = Re_Terminal adapter_error | Re_Channel_Closed | Re_Server "ustr option"

fun run_verdict :: "run_end \<Rightarrow> adapter_error option" where
  "run_verdict (Re_Terminal e) = Some e"
| "run_verdict Re_Channel_Closed = Some (AE_Transport (lit ''QQ Webhook terminal error channel closed''))"
| "run_verdict (Re_Server m) = map_option AE_Transport m"

definition router_generation :: "'w webhook \<Rightarrow> u64" where
  "router_generation s = (case wh_active s of Some a \<Rightarrow> ar_generation a | None \<Rightarrow> 0)"

section \<open>Callbacks\<close>

datatype wh_response = Rs_Ack nat | Rs_Validation ustr ustr | Rs_Error nat string

text \<open>The status and body of an answer; \<open>elapsed\<close>: a layer above the handler timed out, else it shed load.\<close>

definition response_of :: "wh_response \<Rightarrow> nat \<times> json" where
  "response_of r =
     (case r of
        Rs_Ack n \<Rightarrow> (200, J_Object [(lit ''d'', J_Number (decimal n)), (lit ''op'', J_Number (decimal (unat op_http_callback_ack)))])
      | Rs_Validation token sig \<Rightarrow>
          (200, J_Object [(lit ''plain_token'', J_String token), (lit ''signature'', J_String sig)])
      | Rs_Error status m \<Rightarrow> (status, J_Object [(lit ''error'', J_String (lit m))]))"

definition middleware_error :: "bool \<Rightarrow> wh_response" where
  "middleware_error elapsed =
     (if elapsed then Rs_Error 408 ''callback request timed out'' else Rs_Error 503 ''callback server is at capacity'')"

text \<open>
  Where a dispatch is between two awaits: before it takes the lock of the seen events with the outer identifier, with
  the identifier of the mapped event, or to hand the event over; or answered. \<open>now\<close> is the one reading of the clock,
  \<open>stamp\<close> the signed timestamp.
\<close>

datatype wh_stage =
    St_Lookup gateway_payload ustr nat nat
  | St_Lookup_Mapped "json event_envelope" ustr nat nat
  | St_Admit "json event_envelope" ustr nat nat
  | St_Done wh_response

definition invalid_event_id :: "ustr \<Rightarrow> bool" where
  "invalid_event_id x \<longleftrightarrow> trim x = [] \<or> max_event_id_bytes < blen x"

definition bad_event_id :: wh_response where
  "bad_event_id = Rs_Error 400 ''dispatch event ID is missing or invalid''"

definition duplicate_answer :: "reservation option \<Rightarrow> wh_response option" where
  "duplicate_answer r =
     (case r of
        Some Rv_Accepted \<Rightarrow> Some (Rs_Ack 0)
      | Some Rv_Pending \<Rightarrow> Some (Rs_Error 503 ''matching callback is still being accepted'')
      | _ \<Rightarrow> None)"

definition mapped_stage ::
    "webhook_libs \<Rightarrow> webhook_shared \<Rightarrow> gateway_payload \<Rightarrow> ustr option \<Rightarrow> nat \<Rightarrow> nat \<Rightarrow> wh_stage" where
  "mapped_stage L ws p outer now stamp =
     (case wl_mapping L (ws_adapter_id ws) p of
        Inl _ \<Rightarrow> St_Done (Rs_Ack 1)
      | Inr None \<Rightarrow> St_Done (Rs_Ack 0)
      | Inr (Some e) \<Rightarrow>
          (let x = (case outer of Some x \<Rightarrow> x | None \<Rightarrow> env_id e)
           in if invalid_event_id x then St_Done bad_event_id
              else if outer = None then St_Lookup_Mapped e x now stamp
              else St_Admit e x now stamp))"

definition dispatch_begin ::
    "webhook_libs \<Rightarrow> webhook_shared \<Rightarrow> gateway_payload \<Rightarrow> nat \<Rightarrow> nat option \<Rightarrow> wh_stage" where
  "dispatch_begin L ws p stamp clock =
     (let invalid = (case gp_id p of Some x \<Rightarrow> invalid_event_id x | None \<Rightarrow> False)
      in if invalid \<and> gp_t p \<noteq> Some (lit ''INTERACTION_CREATE'') then St_Done bad_event_id
         else
           (let p1 = (if invalid then p\<lparr>gp_id := None\<rparr> else p)
            in case clock of
                 None \<Rightarrow> St_Done (Rs_Error 500 ''system clock is invalid'')
               | Some now \<Rightarrow>
                   (case gp_id p1 of
                      Some x \<Rightarrow> St_Lookup p1 x now stamp
                    | None \<Rightarrow> mapped_stage L ws p1 None now stamp)))"

definition expiry :: "webhook_shared \<Rightarrow> nat \<Rightarrow> nat \<Rightarrow> nat" where
  "expiry ws now stamp =
     max (min (stamp + ws_tolerance ws) (2 ^ 64 - 1)) (min (now + ws_timeout ws) (2 ^ 64 - 1))"

text \<open>Handing an event over, under the locks of the seen events and of the lifecycle.\<close>

definition hand_over ::
    "(json event_envelope, 'w) sink \<Rightarrow> u64 \<Rightarrow> json event_envelope \<Rightarrow> ustr \<Rightarrow> 'w webhook \<Rightarrow> wh_response \<times> 'w webhook" where
  "hand_over K g e x s =
     (case wh_active s of
        Some a \<Rightarrow>
          (if ar_generation a \<noteq> g
           then (Rs_Error 503 ''runtime is not accepting events'', s\<lparr>wh_seen := seen_release x (wh_seen s)\<rparr>)
           else
             (case sk_try_send K e (wh_sink s) of
                (Inr _, w) \<Rightarrow> (Rs_Ack 0, s\<lparr>wh_sink := w, wh_seen := seen_accept x (wh_seen s)\<rparr>)
              | (Inl (ES_AdapterMismatch ex ac), w) \<Rightarrow>
                  (Rs_Error 503 ''webhook adapter identity is invalid'',
                   s\<lparr>wh_sink := w, wh_active := Some (a\<lparr>ar_terminal := False\<rparr>),
                     wh_seen := seen_release x (wh_seen s),
                     wh_terminal_errors := wh_terminal_errors s @
                       (if ar_terminal a then [(ar_generation a, AE_EventAdapterMismatch ex ac)] else [])\<rparr>)
              | (Inl _, w) \<Rightarrow>
                  (Rs_Error 503 ''runtime event queue is unavailable'',
                   s\<lparr>wh_sink := w, wh_seen := seen_release x (wh_seen s)\<rparr>)))
      | None \<Rightarrow> (Rs_Error 503 ''runtime is not accepting events'', s\<lparr>wh_seen := seen_release x (wh_seen s)\<rparr>))"

definition admit_event ::
    "webhook_shared \<Rightarrow> (json event_envelope, 'w) sink \<Rightarrow> u64 \<Rightarrow> json event_envelope \<Rightarrow> ustr \<Rightarrow> nat \<Rightarrow> nat \<Rightarrow>
     'w webhook \<Rightarrow> wh_response \<times> 'w webhook" where
  "admit_event ws K g e x now stamp s =
     (case seen_reserve x (expiry ws now stamp) now (wh_seen s) of
        (Rv_New, m) \<Rightarrow> hand_over K g e x (s\<lparr>wh_seen := m\<rparr>)
      | (Rv_Accepted, m) \<Rightarrow> (Rs_Ack 0, s\<lparr>wh_seen := m\<rparr>)
      | (Rv_Pending, m) \<Rightarrow> (Rs_Error 503 ''matching callback is still being accepted'', s\<lparr>wh_seen := m\<rparr>)
      | (Rv_Saturated, m) \<Rightarrow> (Rs_Error 503 ''callback deduplication capacity is exhausted'', s\<lparr>wh_seen := m\<rparr>))"

text \<open>What a dispatch does from one await to the next.\<close>

fun dispatch_stage ::
    "webhook_libs \<Rightarrow> webhook_shared \<Rightarrow> (json event_envelope, 'w) sink \<Rightarrow> u64 \<Rightarrow> wh_stage \<Rightarrow> 'w webhook \<Rightarrow>
     wh_stage \<times> 'w webhook" where
  "dispatch_stage L ws K g (St_Lookup p x now stamp) s =
     (case seen_lookup x now (wh_seen s) of
        (r, m) \<Rightarrow>
          ((case duplicate_answer r of
              Some a \<Rightarrow> St_Done a
            | None \<Rightarrow> mapped_stage L ws p (Some x) now stamp), s\<lparr>wh_seen := m\<rparr>))"
| "dispatch_stage L ws K g (St_Lookup_Mapped e x now stamp) s =
     (case seen_lookup x now (wh_seen s) of
        (r, m) \<Rightarrow>
          ((case duplicate_answer r of Some a \<Rightarrow> St_Done a | None \<Rightarrow> St_Admit e x now stamp), s\<lparr>wh_seen := m\<rparr>))"
| "dispatch_stage L ws K g (St_Admit e x now stamp) s =
     (case admit_event ws K g e x now stamp s of (r, s) \<Rightarrow> (St_Done r, s))"
| "dispatch_stage L ws K g (St_Done r) s = (St_Done r, s)"

section \<open>Validation and routing\<close>

definition de_validation :: "json \<Rightarrow> (ustr \<times> ustr) option" where
  "de_validation v =
     (case v of
        J_Object m \<Rightarrow> do { t \<leftarrow> field json_str (lit ''plain_token'') m; ts \<leftarrow> field json_str (lit ''event_ts'') m; Some (t, ts) }
      | J_Array [t, ts] \<Rightarrow> do { t \<leftarrow> json_str t; ts \<leftarrow> json_str ts; Some (t, ts) }
      | _ \<Rightarrow> None)"

text \<open>\<open>str::as_bytes\<close>.\<close>

definition utf8_char :: "nat \<Rightarrow> bytes" where
  "utf8_char c = map of_nat
     (if c < 0x80 then [c]
      else if c < 0x800 then [0xC0 + c div 64, 0x80 + c mod 64]
      else if c < 0x10000 then [0xE0 + c div 4096, 0x80 + c div 64 mod 64, 0x80 + c mod 64]
      else [0xF0 + c div 262144, 0x80 + c div 4096 mod 64, 0x80 + c div 64 mod 64, 0x80 + c mod 64])"

definition utf8_bytes :: "ustr \<Rightarrow> bytes" where
  "utf8_bytes s = concat (map utf8_char s)"

definition validation_response :: "webhook_libs \<Rightarrow> webhook_shared \<Rightarrow> gateway_payload \<Rightarrow> wh_response" where
  "validation_response L ws p =
     (case de_validation (gp_d p) of
        Some (token, ts) \<Rightarrow>
          if token \<noteq> [] \<and> ts \<noteq> [] then Rs_Validation token (encode_hex (wl_sign L (ws_seed ws) (utf8_bytes (ts @ token))))
          else Rs_Error 400 ''invalid validation payload''
      | None \<Rightarrow> Rs_Error 400 ''invalid validation payload'')"

text \<open>A body that is too long is not read; the clock is read for the authentication and again for a dispatch.\<close>

definition handle_callback ::
    "webhook_libs \<Rightarrow> webhook_shared \<Rightarrow> headers \<Rightarrow> bytes option \<Rightarrow> nat option \<Rightarrow> nat option \<Rightarrow> wh_stage" where
  "handle_callback L ws hs body clock clock' =
     (case body of None \<Rightarrow> St_Done (Rs_Error 413 ''request body is too large'') | Some b \<Rightarrow>
      if ws_max_body_bytes ws < length b then St_Done (Rs_Error 413 ''request body is too large'') else
     (case authenticate L ws hs b clock of Inl e \<Rightarrow> St_Done (Rs_Error 401 e) | Inr stamp \<Rightarrow>
     (case Option.bind (wl_json L b) de_gateway_payload of
        None \<Rightarrow> St_Done (Rs_Error 400 ''invalid callback JSON'')
      | Some p \<Rightarrow>
          if gp_op p = op_callback_validation then St_Done (validation_response L ws p)
          else if gp_op p = op_dispatch then dispatch_begin L ws p stamp clock'
          else St_Done (Rs_Error 400 ''unsupported callback opcode''))))"

end
