(* ===== verification/QqSessionProps.thy ===== *)
theory QqSessionProps
  imports QqGateway
begin

text \<open>
  What the gateway session keeps. A session is a function of the dispatches it recorded (sequence and delivery
  identifier) and of the identifiers that were reported as handled: \<open>session_of\<close>. Every operation is an operation
  on that history, and the composition with a server that numbers its dispatches and replays from a resume
  point then delivers each event once and in order, and resumes behind no event that is not handled.
\<close>

section \<open>The history behind a session\<close>

type_synonym history = "(u64 \<times> u64 option) list"

definition over :: "u64 set \<Rightarrow> u64 \<times> u64 option \<Rightarrow> bool" where
  "over H i = (case snd i of None \<Rightarrow> True | Some d \<Rightarrow> d \<in> H)"

definition item_of :: "u64 set \<Rightarrow> u64 \<times> u64 option \<Rightarrow> pending_dispatch" where
  "item_of H i = \<lparr>pd_seq = fst i, pd_delivery_id = snd i, pd_completed = over H i\<rparr>"

definition last_seq :: "history \<Rightarrow> u64 option" where
  "last_seq h = (if h = [] then None else Some (fst (last h)))"

definition session_of :: "history \<Rightarrow> u64 set \<Rightarrow> ustr option \<Rightarrow> u64 \<Rightarrow> session_state" where
  "session_of h H sid n =
     \<lparr>ss_session_id = sid, ss_last_received = last_seq h, ss_last_committed = last_seq (takeWhile (over H) h),
      ss_pending = map (item_of H) (dropWhile (over H) h), ss_next_delivery_id = n\<rparr>"

definition ids_of :: "history \<Rightarrow> u64 list" where
  "ids_of h = List.map_filter snd h"

definition seqs_of :: "history \<Rightarrow> u64 list" where
  "seqs_of h = map fst h"

lemma history_simps [simp]:
  "ids_of [] = []" "ids_of ((s, None) # h) = ids_of h" "ids_of ((s, Some d) # h) = d # ids_of h"
  "ids_of (h @ h') = ids_of h @ ids_of h'"
  "seqs_of [] = []" "seqs_of (i # h) = fst i # seqs_of h" "seqs_of (h @ h') = seqs_of h @ seqs_of h'"
  "over H (s, None)" "over H (s, Some d) = (d \<in> H)"
  "last_seq [] = None" "last_seq (h @ [i]) = Some (fst i)"
  by (simp_all add: ids_of_def seqs_of_def over_def last_seq_def map_filter_simps map_filter_def)

lemma session_of_simps [simp]:
  "ss_session_id (session_of h H sid n) = sid" "ss_last_received (session_of h H sid n) = last_seq h"
  "ss_last_committed (session_of h H sid n) = last_seq (takeWhile (over H) h)"
  "ss_pending (session_of h H sid n) = map (item_of H) (dropWhile (over H) h)"
  "ss_next_delivery_id (session_of h H sid n) = n"
  by (simp_all add: session_of_def)

lemma item_of_simps [simp]:
  "pd_seq (item_of H i) = fst i" "pd_delivery_id (item_of H i) = snd i" "pd_completed (item_of H i) = over H i"
  by (simp_all add: item_of_def)

lemma seqs_set: "set (seqs_of h) = fst ` set h"
  by (simp add: seqs_of_def)

lemma new_session_of: "new_session = session_of [] H None 0"
  by (simp add: new_session_def session_of_def)

lemma clear_session_of: "clear_session s = session_of [] H None (ss_next_delivery_id s)"
  by (simp add: clear_session_def new_session_def session_of_def)

lemma last_seq_append: "last_seq (h @ h') = (if h' = [] then last_seq h else last_seq h')"
  by (simp add: last_seq_def)

section \<open>Operations on the history\<close>

lemma pop_completed_items:
  "pop_completed c (map (item_of H) h) =
     (if takeWhile (over H) h = [] then c else last_seq (takeWhile (over H) h), map (item_of H) (dropWhile (over H) h))"
proof (induction h arbitrary: c)
  case Nil
  then show ?case by simp
next
  case (Cons i h)
  then show ?case by (cases "takeWhile (over H) h = []") (auto simp: last_seq_def)
qed

lemma over_mono: "H \<subseteq> H' \<Longrightarrow> over H i \<Longrightarrow> over H' i"
  by (auto simp: over_def split: option.splits)

lemma takeWhile_mono_split:
  assumes "\<And>x. P x \<Longrightarrow> Q x"
  shows "takeWhile Q xs = takeWhile P xs @ takeWhile Q (dropWhile P xs)" "dropWhile Q xs = dropWhile Q (dropWhile P xs)"
  by (induction xs) (auto simp: assms)

text \<open>Advancing over what is handled by now.\<close>

lemma advance_history:
  assumes "H \<subseteq> H'"
  shows "advance_committed (session_of h H sid n\<lparr>ss_pending := map (item_of H') (dropWhile (over H) h)\<rparr>) =
    session_of h H' sid n"
proof -
  note split = takeWhile_mono_split [of "over H" "over H'" h, OF over_mono [OF assms]]
  show ?thesis
    by (simp add: advance_committed_def pop_completed_items session_of_def split last_seq_append)
qed

lemma complete_first_items:
  "distinct (ids_of h) \<Longrightarrow> complete_first d (map (item_of H) h) = map (item_of (insert d H)) h"
proof (induction h)
  case Nil
  then show ?case by simp
next
  case (Cons i h)
  have same: "item_of H j = item_of (insert d H) j" if "snd j \<noteq> Some d" for j
    using that by (auto simp: item_of_def over_def split: option.split)
  have rest: "map (item_of H) h = map (item_of (insert d H)) h" if "snd i = Some d"
    using Cons.prems that by (cases i) (force simp: ids_of_def map_filter_def image_iff intro!: same)
  show ?case
  proof (cases "snd i = Some d")
    case True
    then show ?thesis using rest by (simp add: item_of_def over_def)
  next
    case False
    moreover have "distinct (ids_of h)"
      using Cons.prems by (cases i; cases "snd i") auto
    ultimately show ?thesis using Cons.IH same [OF False] by simp
  qed
qed

lemma ids_of_dropWhile: "distinct (ids_of h) \<Longrightarrow> distinct (ids_of (dropWhile P h))"
  by (metis takeWhile_dropWhile_id history_simps(4) distinct_append)

lemma mark_handled_history:
  "distinct (ids_of h) \<Longrightarrow> mark_handled d (session_of h H sid n) = session_of h (insert d H) sid n"
  using advance_history [of H "insert d H" h sid n]
  by (simp add: mark_handled_def complete_first_items ids_of_dropWhile subset_insertI)

lemma advance_session: "advance_committed (session_of h H sid n) = session_of h H sid n"
  using advance_history [of H H h sid n] by (simp add: session_of_def)

definition increasing :: "history \<Rightarrow> bool" where
  "increasing h \<longleftrightarrow> sorted_wrt (<) (seqs_of h)"

lemma increasing_append:
  "increasing (h @ h') \<longleftrightarrow> increasing h \<and> increasing h' \<and> (\<forall>x\<in>set h. \<forall>y\<in>set h'. fst x < fst y)"
  by (auto simp: increasing_def sorted_wrt_append seqs_set)

lemma last_seq_max: "increasing h \<Longrightarrow> last_seq h = Some l \<Longrightarrow> i \<in> set h \<Longrightarrow> fst i \<le> l"
  by (cases h rule: rev_cases) (auto simp: increasing_append)

lemma last_seq_in: "last_seq h = Some l \<Longrightarrow> \<exists>i\<in>set h. fst i = l"
  by (auto simp: last_seq_def split: if_splits intro!: bexI [of _ "last h"])

lemma known_dispatch_history:
  "known_dispatch seq (session_of h H sid n) \<longleftrightarrow>
    (\<exists>c. last_seq (takeWhile (over H) h) = Some c \<and> seq \<le> c) \<or> seq \<in> set (seqs_of (dropWhile (over H) h))"
  by (simp add: known_dispatch_def list_ex_iff seqs_set image_iff split: option.split) blast

lemma increasing_takeWhile: "increasing h \<Longrightarrow> increasing (takeWhile P h)"
  using increasing_append [of "takeWhile P h" "dropWhile P h"] by simp

lemma known_if_recorded:
  assumes "increasing h" "seq \<in> set (seqs_of h)"
  shows "known_dispatch seq (session_of h H sid n)"
proof (cases "seq \<in> set (seqs_of (dropWhile (over H) h))")
  case False
  have "seqs_of h = seqs_of (takeWhile (over H) h) @ seqs_of (dropWhile (over H) h)"
    by (simp flip: history_simps(7))
  then obtain i where i: "i \<in> set (takeWhile (over H) h)" "fst i = seq"
    using assms(2) False by (auto simp: seqs_set)
  then obtain c where c: "last_seq (takeWhile (over H) h) = Some c"
    by (cases "last_seq (takeWhile (over H) h)") (auto simp: last_seq_def split: if_splits)
  have "seq \<le> c"
    using last_seq_max [OF increasing_takeWhile [OF assms(1)] c i(1)] i(2) by simp
  then show ?thesis using c by (simp add: known_dispatch_history)
qed (simp add: known_dispatch_history)

lemma new_if_greater:
  assumes "\<forall>i\<in>set h. fst i < seq"
  shows "\<not> known_dispatch seq (session_of h H sid n)" "decreased seq (session_of h H sid n) = None"
proof -
  have c: "c < seq" if "last_seq (takeWhile (over H) h) = Some c" for c
    using last_seq_in [OF that] assms by (auto dest: set_takeWhileD)
  have l: "l < seq" if "last_seq h = Some l" for l
    using last_seq_in [OF that] assms by auto
  have p: "seq \<notin> set (seqs_of (dropWhile (over H) h))"
    using assms by (fastforce simp: seqs_set dest: set_dropWhileD)
  show "\<not> known_dispatch seq (session_of h H sid n)"
    using c p by (auto simp: known_dispatch_history dest!: c)
  show "decreased seq (session_of h H sid n) = None"
    by (auto simp: decreased_def split: option.split dest!: l)
qed

definition open_count :: "history \<Rightarrow> u64 set \<Rightarrow> nat" where
  "open_count h H = length (dropWhile (over H) h)"

lemma record_known:
  "increasing h \<Longrightarrow> seq \<in> set (seqs_of h) \<Longrightarrow>
    record_dispatch seq ev (session_of h H sid n) = (Inr Duplicate, session_of h H sid n)"
  by (simp add: record_dispatch_def known_if_recorded)

lemma while_append:
  "takeWhile P (xs @ ys) = takeWhile P xs @ takeWhile P (dropWhile P xs @ ys)"
  "dropWhile P (xs @ ys) = dropWhile P (dropWhile P xs @ ys)"
  by (induction xs) auto

lemma advance_append:
  "advance_committed
      (session_of h H sid n\<lparr>ss_last_received := l, ss_pending := map (item_of H) (dropWhile (over H) h @ [i])\<rparr>) =
    session_of (h @ [i]) H sid n\<lparr>ss_last_received := l\<rparr>"
proof -
  note split = while_append [of "over H" h "[i]"]
  show ?thesis
    by (simp add: advance_committed_def pop_completed_items session_of_def split last_seq_append del: map_append)
qed

lemma record_new:
  assumes "\<forall>i\<in>set h. fst i < seq" "ev \<Longrightarrow> open_count h H < max_pending_dispatches" "ev \<Longrightarrow> next_id n \<notin> H"
  shows "record_dispatch seq ev (session_of h H sid n) =
    (let d = (if ev then Some (next_id n) else None)
     in (Inr (Accepted d), session_of (h @ [(seq, d)]) H sid (if ev then next_id n else n)))"
proof -
  have adv: "advance_committed (session_of h H sid m\<lparr>ss_last_received := Some seq,
      ss_pending := map (item_of H) (dropWhile (over H) h) @ [\<lparr>pd_seq = seq, pd_delivery_id = d, pd_completed = over H (seq, d)\<rparr>]\<rparr>) =
    session_of (h @ [(seq, d)]) H sid m" for d m
    using advance_append [where h = h and H = H and sid = sid and n = m and l = "Some seq" and i = "(seq, d)"]
    by (simp add: item_of_def session_of_def)
  have upd: "session_of h H sid n\<lparr>ss_next_delivery_id := m\<rparr> = session_of h H sid m" for m
    by (simp add: session_of_def)
  show ?thesis
  proof (cases ev)
    case True
    then show ?thesis
      using assms(2,3) adv [where m = "next_id n" and d = "Some (next_id n)"]
      by (simp add: record_dispatch_def new_if_greater [OF assms(1)] open_count_def upd Let_def)
  next
    case False
    then show ?thesis
      using adv [where m = n and d = None] by (simp add: record_dispatch_def new_if_greater [OF assms(1)] Let_def)
  qed
qed

lemma record_full:
  assumes "\<forall>i\<in>set h. fst i < seq" "max_pending_dispatches \<le> open_count h H"
  shows "record_dispatch seq True (session_of h H sid n) = (Inl Conn_UncommittedEventLimit, session_of h H sid n)"
  using assms(2) by (simp add: record_dispatch_def new_if_greater [OF assms(1)] open_count_def)

lemma rollback_history:
  assumes "increasing (h @ [(seq, Some d)])" "d \<notin> H"
  shows "rollback_dispatch seq (session_of (h @ [(seq, Some d)]) H sid n) = session_of h H sid n"
proof -
  have less: "\<forall>i\<in>set h. fst i < seq" using assms(1) by (simp add: increasing_append)
  have t: "takeWhile (over H) (h @ [(seq, Some d)]) = takeWhile (over H) h"
    "dropWhile (over H) (h @ [(seq, Some d)]) = dropWhile (over H) h @ [(seq, Some d)]"
    using assms(2) by (induction h) auto
  have keep: "filter (\<lambda>i. pd_seq i \<noteq> seq) (map (item_of H) (dropWhile (over H) h)) = map (item_of H) (dropWhile (over H) h)"
    using less by (intro filter_True) (auto dest: set_dropWhileD)
  have last: "last_seq h = (if dropWhile (over H) h = [] then last_seq (takeWhile (over H) h) else last_seq (dropWhile (over H) h))"
    by (metis last_seq_append takeWhile_dropWhile_id)
  show ?thesis
    by (simp add: rollback_dispatch_def t keep Let_def session_of_def last)
      (simp add: last_seq_def last_map)
qed

section \<open>Dispatches on the history\<close>

definition event_for :: "dispatch_mapping \<Rightarrow> adapter_id \<Rightarrow> gateway_payload \<Rightarrow> json event_envelope option" where
  "event_for M a p = (case M a p of Inr m \<Rightarrow> m | Inl _ \<Rightarrow> None)"

definition sink_after :: "(json event_envelope, 'w) sink \<Rightarrow> gateway_payload \<Rightarrow> 'w \<Rightarrow> 'w" where
  "sink_after K p w = (if is_authenticated p then sk_ready K True w else w)"

definition session_id_after :: "gateway_payload \<Rightarrow> ustr option \<Rightarrow> ustr option" where
  "session_id_after p sid = (if event_type_of p = ready_type then ready_session_id p else sid)"

lemma after_ready_history:
  "after_ready K p (session_of h H sid n, w) = (session_of h H (session_id_after p sid) n, sink_after K p w)"
  by (simp add: after_ready_def sink_after_def session_id_after_def session_of_def)

lemma dispatch_known:
  assumes "increasing h" "gp_s p = Some seq" "seq \<in> set (seqs_of h)" "event_type_of p \<noteq> ready_type"
  shows "handle_dispatch M K a p (session_of h H sid n, w) =
    (Inr (is_authenticated p), session_of h H sid n, sink_after K p w)"
  using assms
  by (simp add: handle_dispatch_def after_ready_history record_known session_id_after_def Let_def split: sum.split)

lemma dispatch_new_plain:
  assumes "gp_s p = Some seq" "\<forall>i\<in>set h. fst i < seq" "event_type_of p = ready_type \<Longrightarrow> ready_session_id p \<noteq> None"
    "event_for M a p = None"
  shows "handle_dispatch M K a p (session_of h H sid n, w) =
    (Inr (is_authenticated p), session_of (h @ [(seq, None)]) H (session_id_after p sid) n, sink_after K p w)"
  using assms
  by (auto simp: handle_dispatch_def after_ready_history record_new deliver_event_def event_for_def Let_def
      split: sum.splits)

lemma dispatch_new_event:
  assumes "gp_s p = Some seq" "\<forall>i\<in>set h. fst i < seq" "event_type_of p = ready_type \<Longrightarrow> ready_session_id p \<noteq> None"
    "event_for M a p = Some e" "increasing h" "next_id n \<notin> H"
  shows "handle_dispatch M K a p (session_of h H sid n, w) =
    (if max_pending_dispatches \<le> open_count h H
     then (Inl Conn_UncommittedEventLimit, session_of h H (session_id_after p sid) n, sink_after K p w)
     else
       (case sk_try_send K (e\<lparr>delivery_id := Some (next_id n)\<rparr>) (sink_after K p w) of
          (Inr _, w) \<Rightarrow>
            (Inr (is_authenticated p), session_of (h @ [(seq, Some (next_id n))]) H (session_id_after p sid) (next_id n), w)
        | (Inl err, w) \<Rightarrow> (Inl (send_conn_error err), session_of h H (session_id_after p sid) (next_id n), w)))"
proof -
  have M: "M a p = Inr (Some e)" using assms(4) by (auto simp: event_for_def split: sum.splits)
  have ready: "\<not> (event_type_of p = ready_type \<and> ready_session_id p = None)" using assms(3) by auto
  show ?thesis
  proof (cases "max_pending_dispatches \<le> open_count h H")
    case True
    then show ?thesis
      by (simp add: handle_dispatch_def ready M assms(1) after_ready_history record_full [OF assms(2)])
  next
    case False
    have inc: "increasing (h @ [(seq, Some (next_id n))])"
      using assms(2,5) by (simp add: increasing_append) (simp add: increasing_def)
    show ?thesis
      using False assms(6)
      by (simp add: handle_dispatch_def ready M assms(1) after_ready_history Let_def record_new [OF assms(2)]
          deliver_event_def rollback_history [OF inc] split: prod.split sum.split)
  qed
qed

end
