(* ===== verification/QqResume.thy ===== *)
theory QqResume
  imports QqSessionProps
begin

text \<open>
  The QQ adapter against a gateway: a step system over what the adapter does with each input
  (\<open>run_input\<close>, \<open>connect_authenticated\<close>, \<open>event_handled\<close>) and a server that behaves as documented. The server numbers the
  dispatches of a session increasingly, starts a session with Ready when it is identified, and after a resume
  sends again everything behind the sequence it was given, in order. Connections may end at any point.
\<close>

section \<open>The sender\<close>

text \<open>What the adapter relies on: an event is either queued behind those it sent before, or not at all.\<close>

locale event_sink =
  fixes K :: "'t \<Rightarrow> (json event_envelope, 'w) sink"
    and sent :: "'w \<Rightarrow> json event_envelope list"
  assumes sends: "sk_try_send (K t) e w = (Inr u, w') \<Longrightarrow> sent w' = sent w @ [e]"
    and refuses: "sk_try_send (K t) e w = (Inl err, w') \<Longrightarrow> sent w' = sent w"
    and marks: "sent (sk_ready (K t) b w) = sent w"

text \<open>
  The sender of the runtime is one: over a channel with tokio's laws, what an adapter sent is what it has in the
  channel behind what was received from it.
\<close>

definition sent_events ::
    "adapter_id \<Rightarrow> ('q \<Rightarrow> json event_envelope list) \<Rightarrow> json event_envelope list \<times> 'q sender_state \<Rightarrow>
     json event_envelope list" where
  "sent_events a items w = filter (\<lambda>e. env_adapter e = a) (fst w @ items (sq_channel (snd w)))"

definition with_received :: "(json event_envelope, 'q sender_state) sink \<Rightarrow>
    (json event_envelope, json event_envelope list \<times> 'q sender_state) sink" where
  "with_received K =
     \<lparr>sk_try_send = (\<lambda>e (r, s). case sk_try_send K e s of (res, s') \<Rightarrow> (res, r, s')),
      sk_ready = (\<lambda>b (r, s). (r, sk_ready K b s))\<rparr>"

lemma sender_event_sink:
  assumes "channel_laws ch items permits"
  shows "event_sink (\<lambda>(t, t'). with_received (sender_sink ch a t t')) (sent_events a items)"
proof
  note law = channel_lawsD [OF assms]
  fix t :: "nat \<times> nat" and e w u w' err b
  show "sk_try_send (case t of (t, t') \<Rightarrow> with_received (sender_sink ch a t t')) e w = (Inr u, w') \<Longrightarrow>
      sent_events a items w' = sent_events a items w @ [e]"
    by (cases t; cases w)
      (auto simp: with_received_def sender_sink_def sender_try_send_def observed_def sent_events_def
        split: prod.splits sum.splits if_splits dest!: law)
  show "sk_try_send (case t of (t, t') \<Rightarrow> with_received (sender_sink ch a t t')) e w = (Inl err, w') \<Longrightarrow>
      sent_events a items w' = sent_events a items w"
    by (cases t; cases w)
      (auto simp: with_received_def sender_sink_def sender_try_send_def observed_def sent_events_def
        split: prod.splits sum.splits if_splits dest!: law)
  show "sent_events a items (sk_ready (case t of (t, t') \<Rightarrow> with_received (sender_sink ch a t t')) b w) = sent_events a items w"
    by (cases t; cases w)
      (simp add: with_received_def sender_sink_def sender_mark_ready_def sender_mark_not_ready_def observed_def sent_events_def)
qed

interpretation list_sink:
  event_sink "\<lambda>(t, t'). with_received (sender_sink (list_channel n) a t t')" "sent_events a fst"
  by (rule sender_event_sink [OF list_channel_laws])

section \<open>The server\<close>

definition sq :: "gateway_payload \<Rightarrow> u64" where
  "sq p = the (gp_s p)"

definition server_log :: "gateway_payload list \<Rightarrow> bool" where
  "server_log ps \<longleftrightarrow>
     ps \<noteq> [] \<and> (\<forall>p\<in>set ps. gp_op p = op_dispatch \<and> gp_s p \<noteq> None) \<and> sorted_wrt (<) (map sq ps) \<and>
     event_type_of (hd ps) = ready_type \<and> ready_session_id (hd ps) \<noteq> None \<and>
     (\<forall>p\<in>set (tl ps). event_type_of p \<noteq> ready_type)"

text \<open>
  The system: the adapter, the dispatches of the session at the server, which of them it sends next if there is a
  connection, how many events the adapter had sent when the session began, the identifiers reported as handled and
  how many there are.
\<close>

record 'w qq_system =
  qy_run :: "'w qq_run"
  qy_log :: "gateway_payload list"
  qy_cursor :: "nat option"
  qy_base :: nat
  qy_handled :: "u64 set"
  qy_count :: nat

definition dispatch_frame :: "conn_input \<Rightarrow> gateway_payload option" where
  "dispatch_frame i =
     (case i of
        In_Frame (Frame_Data v) \<Rightarrow>
          Option.bind (Option.bind v de_gateway_payload) (\<lambda>p. if gp_op p = op_dispatch then Some p else None)
      | _ \<Rightarrow> None)"

definition after_input :: "nat \<Rightarrow> conn_result \<times> 'w qq_run \<Rightarrow> 'w qq_system \<Rightarrow> 'w qq_system" where
  "after_input n res s =
     s\<lparr>qy_run := snd res, qy_cursor := (if fst res = None then Some n else None),
       qy_count := (if ss_next_delivery_id (qr_session (snd res)) = ss_next_delivery_id (qr_session (qy_run s))
                    then qy_count s else Suc (qy_count s))\<rparr>"

inductive qq_step ::
    "dispatch_mapping \<Rightarrow> (ustr \<Rightarrow> ustr + gateway_url) \<Rightarrow> qq_config \<Rightarrow> ('t \<Rightarrow> (json event_envelope, 'w) sink) \<Rightarrow>
     ('w \<Rightarrow> json event_envelope list) \<Rightarrow> 'w qq_system \<Rightarrow> 'w qq_system \<Rightarrow> bool" for M parse c K sent where
  resumes: "\<lbrakk>qy_cursor s = None; connect_authenticated parse c h (qy_run s) = (Inr (Some i), r);
    last (qr_written r) = Out_Resume tok sid seq\<rbrakk> \<Longrightarrow>
    qq_step M parse c K sent s
      (s\<lparr>qy_run := r\<lparr>qr_acknowledged := True\<rparr>, qy_cursor := Some (length (takeWhile (\<lambda>p. sq p \<le> seq) (qy_log s)))\<rparr>)"
| identifies: "\<lbrakk>qy_cursor s = None; connect_authenticated parse c h (qy_run s) = (Inr (Some i), r);
    last (qr_written r) = Out_Identify tok ints sh; server_log [p]\<rbrakk> \<Longrightarrow>
    qq_step M parse c K sent s
      (s\<lparr>qy_run := r\<lparr>qr_acknowledged := True\<rparr>, qy_log := [p], qy_cursor := Some 0, qy_base := length (sent (qr_sink r))\<rparr>)"
| handshake_ends: "\<lbrakk>qy_cursor s = None; connect_authenticated parse c h (qy_run s) = (res, r); \<forall>i. res \<noteq> Inr (Some i)\<rbrakk> \<Longrightarrow>
    qq_step M parse c K sent s (s\<lparr>qy_run := r\<rparr>)"
| appends: "\<lbrakk>qy_log s \<noteq> []; server_log (qy_log s @ [p])\<rbrakk> \<Longrightarrow>
    qq_step M parse c K sent s (s\<lparr>qy_log := qy_log s @ [p]\<rparr>)"
| dispatches: "\<lbrakk>qy_cursor s = Some n; n < length (qy_log s); de_gateway_payload v = Some (qy_log s ! n)\<rbrakk> \<Longrightarrow>
    qq_step M parse c K sent s
      (after_input (Suc n) (run_input M (K t) (qc_adapter_id c) failed (In_Frame (Frame_Data (Some v))) (qy_run s)) s)"
| inputs: "\<lbrakk>qy_cursor s = Some n; dispatch_frame i = None\<rbrakk> \<Longrightarrow>
    qq_step M parse c K sent s (after_input n (run_input M (K t) (qc_adapter_id c) failed i (qy_run s)) s)"
| waits: "\<lbrakk>qy_cursor s = None; qr_attempt (qy_run s) = n\<rbrakk> \<Longrightarrow>
    qq_step M parse c K sent s (s\<lparr>qy_run := qy_run s
      \<lparr>qr_attempt := snd (next_delay (qc_reconnect_min_delay c) (qc_reconnect_max_delay c) n)\<rparr>\<rparr>)"
| handles: "e \<in> set (sent (qr_sink (qy_run s))) \<Longrightarrow>
    qq_step M parse c K sent s (s\<lparr>qy_run := qy_run s\<lparr>qr_session := event_handled e (qr_session (qy_run s))\<rparr>,
      qy_handled := set_option (delivery_id e) \<union> qy_handled s\<rparr>)"
| others: "sent w = sent (qr_sink (qy_run s)) \<Longrightarrow>
    qq_step M parse c K sent s (s\<lparr>qy_run := qy_run s\<lparr>qr_sink := w\<rparr>\<rparr>)"

inductive qq_reachable ::
    "dispatch_mapping \<Rightarrow> (ustr \<Rightarrow> ustr + gateway_url) \<Rightarrow> qq_config \<Rightarrow> ('t \<Rightarrow> (json event_envelope, 'w) sink) \<Rightarrow>
     ('w \<Rightarrow> json event_envelope list) \<Rightarrow> 'w qq_system \<Rightarrow> bool" for M parse c K sent where
  qq_start: "\<lbrakk>qr_session (qy_run s) = new_session; sent (qr_sink (qy_run s)) = []; qy_log s = []; qy_cursor s = None;
    qy_handled s = {}; qy_count s = 0\<rbrakk> \<Longrightarrow> qq_reachable M parse c K sent s"
| qq_next: "qq_reachable M parse c K sent s \<Longrightarrow> qq_step M parse c K sent s s' \<Longrightarrow> qq_reachable M parse c K sent s'"

section \<open>The invariant\<close>

definition recorded :: "dispatch_mapping \<Rightarrow> adapter_id \<Rightarrow> gateway_payload \<Rightarrow> u64 \<times> u64 option \<Rightarrow> bool" where
  "recorded M a p i \<longleftrightarrow> fst i = sq p \<and> (snd i = None \<longleftrightarrow> event_for M a p = None)"

fun events_of :: "dispatch_mapping \<Rightarrow> adapter_id \<Rightarrow> gateway_payload list \<Rightarrow> history \<Rightarrow> json event_envelope list" where
  "events_of M a (p # ps) (i # h) =
     (case event_for M a p of
        None \<Rightarrow> events_of M a ps h
      | Some e \<Rightarrow> e\<lparr>delivery_id := snd i\<rparr> # events_of M a ps h)"
| "events_of M a _ _ = []"

definition ids_upto :: "nat \<Rightarrow> u64 set \<Rightarrow> bool" where
  "ids_upto n D \<longleftrightarrow> (\<forall>d\<in>D. unat d \<le> n)"

lemma ids_upto_mono: "ids_upto n D \<Longrightarrow> n \<le> m \<Longrightarrow> ids_upto m D"
  by (auto simp: ids_upto_def)

lemma ids_upto_subset: "ids_upto n D \<Longrightarrow> E \<subseteq> D \<Longrightarrow> ids_upto n E"
  by (auto simp: ids_upto_def)

lemma ids_upto_Un: "ids_upto n D \<Longrightarrow> ids_upto n E \<Longrightarrow> ids_upto n (D \<union> E)"
  by (auto simp: ids_upto_def)

definition sent_ids :: "json event_envelope list \<Rightarrow> u64 set" where
  "sent_ids es = {d. \<exists>e\<in>set es. delivery_id e = Some d}"

definition qq_inv_of ::
    "dispatch_mapping \<Rightarrow> adapter_id \<Rightarrow> json event_envelope list \<Rightarrow> history \<Rightarrow> ustr option \<Rightarrow> 'w qq_system \<Rightarrow> bool" where
  "qq_inv_of M a es h sid s \<longleftrightarrow>
     qr_session (qy_run s) = session_of h (qy_handled s) sid (of_nat (qy_count s)) \<and>
     (qy_log s \<noteq> [] \<longrightarrow> server_log (qy_log s)) \<and>
     list_all2 (recorded M a) (take (length h) (qy_log s)) h \<and>
     (h \<noteq> [] \<longrightarrow> sid \<noteq> None) \<and>
     (\<forall>n. qy_cursor s = Some n \<longrightarrow> n \<le> length h \<and> qy_log s \<noteq> [] \<and> (n = 0 \<longrightarrow> h = [])) \<and>
     (h \<noteq> [] \<or> qy_cursor s \<noteq> None \<longrightarrow>
        qy_base s \<le> length es \<and> drop (qy_base s) es = events_of M a (take (length h) (qy_log s)) h) \<and>
     distinct (ids_of h) \<and>
     ids_upto (qy_count s) (set (ids_of h) \<union> qy_handled s \<union> sent_ids es)"

definition qq_inv ::
    "dispatch_mapping \<Rightarrow> adapter_id \<Rightarrow> ('w \<Rightarrow> json event_envelope list) \<Rightarrow> 'w qq_system \<Rightarrow> bool" where
  "qq_inv M a sent s \<longleftrightarrow> (\<exists>h sid. qq_inv_of M a (sent (qr_sink (qy_run s))) h sid s)"

section \<open>What inputs do to the session\<close>

lemma write_payload_frame:
  "write_payload failed out r = (e, r') \<Longrightarrow> qr_session r' = qr_session r \<and> qr_sink r' = qr_sink r \<and>
    (e = None \<longrightarrow> qr_written r' = qr_written r @ [out])"
  by (auto simp: write_payload_def split: option.splits)

lemma send_heartbeat_frame:
  "send_heartbeat failed r = (e, r') \<Longrightarrow> qr_session r' = qr_session r \<and> qr_sink r' = qr_sink r"
  by (auto simp: send_heartbeat_def split: prod.splits option.splits dest!: write_payload_frame)

lemma run_input_other:
  assumes "dispatch_frame i = None" "run_input M K a failed i r = (res, r')"
  shows "qr_sink r' = qr_sink r \<and>
    (qr_session r' = qr_session r \<or> res \<noteq> None \<and> qr_session r' = clear_session (qr_session r))"
proof (cases i)
  case (In_Frame f)
  show ?thesis
  proof (cases f)
    case (Frame_Data v)
    then show ?thesis
      using assms In_Frame
      by (auto simp: run_frame_def run_payload_def dispatch_frame_def split: option.splits if_splits bind_splits
          dest: send_heartbeat_frame)
  next
    case (Frame_Ping b)
    then show ?thesis
      using assms In_Frame
      by (auto simp: run_frame_def split: option.splits prod.splits dest!: write_payload_frame)
  qed (use assms In_Frame in \<open>auto simp: run_frame_def split: option.splits prod.splits if_splits\<close>)
qed (use assms in \<open>auto split: if_splits dest: send_heartbeat_frame\<close>)

lemma run_input_dispatch:
  assumes "de_gateway_payload v = Some p" "gp_op p = op_dispatch"
  shows "run_input M K a failed (In_Frame (Frame_Data (Some v))) r = run_dispatch M K a p r"
  using assms by (simp add: run_frame_def run_payload_def op_code_defs)

lemma connect_frame:
  assumes "connect_authenticated parse c h r = (res, r')"
  shows "qr_session r' = qr_session r \<and> qr_sink r' = qr_sink r \<and>
    (res = Inr (Some i) \<longrightarrow> (\<exists>tok. last (qr_written r') = first_payload c tok (qr_session r)))"
  using assms unfolding connect_authenticated_def
  by (auto split: awaited.splits sum.splits option.splits prod.splits dest!: write_payload_frame)

lemma first_payload_cases:
  "first_payload c tok s = Out_Resume t sid seq \<Longrightarrow> prepare_connection s = Some \<lparr>rs_session_id = sid, rs_seq = seq\<rparr>"
  "first_payload c tok s = Out_Identify t ints sh \<Longrightarrow> prepare_connection s = None"
  by (auto simp: first_payload_def split: option.splits)

section \<open>Histories of a server\<close>

lemma recorded_seqs:
  "list_all2 (recorded M a) ps h \<Longrightarrow> seqs_of h = map sq ps"
  by (induction rule: list_all2_induct) (auto simp: recorded_def)

lemma server_increasing:
  assumes "server_log ps" "list_all2 (recorded M a) (take n ps) h"
  shows "increasing h"
  using assms sorted_wrt_take [of "(<)" "map sq ps" n]
  by (simp add: increasing_def recorded_seqs take_map server_log_def)

lemma server_next:
  assumes "server_log ps" "list_all2 (recorded M a) (take (length h) ps) h" "length h < length ps"
  shows "\<forall>i\<in>set h. fst i < sq (ps ! length h)"
proof
  fix i assume "i \<in> set h"
  then have "fst i \<in> set (map sq (take (length h) ps))"
    using recorded_seqs [OF assms(2)] by (metis imageI seqs_set)
  then obtain j where "j < length h" "fst i = sq (ps ! j)"
    using assms(3) by (auto simp: in_set_conv_nth)
  then show "fst i < sq (ps ! length h)"
    using assms(1,3) sorted_wrt_nth_less [of "(<)" "map sq ps" j "length h"] by (simp add: server_log_def)
qed

lemma server_not_ready:
  assumes "server_log ps" "n < length ps" "n \<noteq> 0"
  shows "event_type_of (ps ! n) \<noteq> ready_type"
  using assms by (cases ps; cases n) (auto simp: server_log_def)

lemma server_entry:
  assumes "server_log ps" "n < length ps"
  shows "gp_op (ps ! n) = op_dispatch" "gp_s (ps ! n) = Some (sq (ps ! n))"
    "event_type_of (ps ! n) = ready_type \<Longrightarrow> ready_session_id (ps ! n) \<noteq> None"
proof -
  have "ps ! n \<in> set ps" using assms(2) by simp
  then show "gp_op (ps ! n) = op_dispatch" "gp_s (ps ! n) = Some (sq (ps ! n))"
    using assms(1) by (auto simp: server_log_def sq_def)
  show "event_type_of (ps ! n) = ready_type \<Longrightarrow> ready_session_id (ps ! n) \<noteq> None"
    using server_not_ready [OF assms] assms(1) by (cases "n = 0") (auto simp: server_log_def hd_conv_nth)
qed

lemma events_of_snoc:
  "length ps = length h \<Longrightarrow>
    events_of M a (ps @ [p]) (h @ [i]) =
      events_of M a ps h @ (case event_for M a p of None \<Rightarrow> [] | Some e \<Rightarrow> [e\<lparr>delivery_id := snd i\<rparr>])"
  by (induction ps h rule: list_induct2) (auto split: option.split)

lemma sent_ids_append [simp]: "sent_ids (es @ es') = sent_ids es \<union> sent_ids es'"
  by (auto simp: sent_ids_def)

lemma next_id_of_nat:
  assumes "Suc n < 2 ^ 64"
  shows "next_id (of_nat n) = of_nat (Suc n)" "unat (next_id (of_nat n)) = Suc n"
proof -
  have u: "unat (of_nat (Suc n) :: u64) = Suc n"
    using assms by (subst unat_of_nat) simp
  then have "1 \<le> (of_nat (Suc n) :: u64)"
    by (simp only: word_le_nat_alt unat_1)
  then show "next_id (of_nat n) = of_nat (Suc n)" by (simp add: next_id_def add.commute max_def)
  then show "unat (next_id (of_nat n)) = Suc n" using u by simp
qed

section \<open>Every step keeps the invariant\<close>

lemma inv_ofD:
  assumes "qq_inv_of M a es h sid s"
  shows inv_session: "qr_session (qy_run s) = session_of h (qy_handled s) sid (of_nat (qy_count s))"
    and inv_log: "qy_log s \<noteq> [] \<Longrightarrow> server_log (qy_log s)"
    and inv_recorded: "list_all2 (recorded M a) (take (length h) (qy_log s)) h"
    and inv_sid: "h \<noteq> [] \<Longrightarrow> sid \<noteq> None"
    and inv_cursor: "qy_cursor s = Some n \<Longrightarrow> n \<le> length h \<and> qy_log s \<noteq> [] \<and> (n = 0 \<longrightarrow> h = [])"
    and inv_sent: "h \<noteq> [] \<or> qy_cursor s \<noteq> None \<Longrightarrow>
      qy_base s \<le> length es \<and> drop (qy_base s) es = events_of M a (take (length h) (qy_log s)) h"
    and inv_ids: "distinct (ids_of h)" "ids_upto (qy_count s) (set (ids_of h) \<union> qy_handled s \<union> sent_ids es)"
  using assms unfolding qq_inv_of_def by blast+

lemma after_input_simps [simp]:
  "qy_run (after_input n res s) = snd res" "qy_log (after_input n res s) = qy_log s"
  "qy_base (after_input n res s) = qy_base s" "qy_handled (after_input n res s) = qy_handled s"
  "qy_cursor (after_input n res s) = (if fst res = None then Some n else None)"
  by (simp_all add: after_input_def)

lemma after_input_count:
  "qy_count (after_input n res s) =
    (if ss_next_delivery_id (qr_session (snd res)) = ss_next_delivery_id (qr_session (qy_run s))
     then qy_count s else Suc (qy_count s))"
  by (simp add: after_input_def)

lemma inv_same_session:
  assumes "qq_inv_of M a es h sid s" "qr_session (qy_run s') = qr_session (qy_run s)" "qy_log s' = qy_log s"
    "qy_base s' = qy_base s" "qy_handled s' = qy_handled s" "qy_count s' = qy_count s"
    "\<And>n. qy_cursor s' = Some n \<Longrightarrow> n \<le> length h \<and> qy_cursor s \<noteq> None \<and> (n = 0 \<longrightarrow> h = [])"
  shows "qq_inv_of M a es h sid s'"
  using assms(1) inv_cursor [OF assms(1)] assms(7) unfolding qq_inv_of_def assms(2-6) by fastforce

lemma inv_cleared:
  assumes "qq_inv_of M a es h sid s" "qr_session (qy_run s') = clear_session (qr_session (qy_run s))"
    "qy_log s' = qy_log s" "qy_handled s' = qy_handled s" "qy_count s' = qy_count s" "qy_cursor s' = None"
  shows "qq_inv_of M a es [] None s'"
  using assms inv_session [OF assms(1)]
  by (simp add: qq_inv_of_def clear_session_of [where H = "qy_handled s"] ids_upto_def)

lemma inv_handled:
  assumes "qq_inv_of M a es h sid s" "e \<in> set es"
  shows "qq_inv_of M a es h sid (s\<lparr>qy_run := qy_run s\<lparr>qr_session := event_handled e (qr_session (qy_run s))\<rparr>,
    qy_handled := set_option (delivery_id e) \<union> qy_handled s\<rparr>)"
proof (cases "delivery_id e")
  case None
  then show ?thesis using assms(1) by (simp add: event_handled_def qq_inv_of_def)
next
  case (Some d)
  have "d \<in> sent_ids es" using assms(2) Some by (auto simp: sent_ids_def)
  then show ?thesis
    using assms(1) Some inv_session [OF assms(1)] mark_handled_history [OF inv_ids(1) [OF assms(1)]]
    by (simp add: event_handled_def qq_inv_of_def ids_upto_def)
qed

lemma inv_identified:
  assumes "qq_inv_of M a es h sid s" "prepare_connection (qr_session (qy_run s)) = None" "server_log [p]"
    "\<And>p. event_type_of p = ready_type \<Longrightarrow> event_for M a p = None"
    "qr_session r = qr_session (qy_run s)"
  shows "qq_inv_of M a es [] sid (s\<lparr>qy_run := r, qy_log := [p], qy_cursor := Some 0, qy_base := length es\<rparr>)"
proof -
  have "h = []"
  proof (rule ccontr)
    assume h: "h \<noteq> []"
    then obtain i h' where i: "h = i # h'" by (cases h) auto
    then obtain q ps where q: "qy_log s = q # ps" "recorded M a q i"
      using inv_recorded [OF assms(1)] by (cases "qy_log s") auto
    then have "event_for M a q = None"
      using inv_log [OF assms(1)] assms(4) by (simp add: server_log_def)
    then have "over (qy_handled s) i" using q(2) by (simp add: recorded_def over_def)
    then have "last_seq (takeWhile (over (qy_handled s)) h) \<noteq> None" by (simp add: i last_seq_def)
    then show False
      using assms(2) inv_session [OF assms(1)] inv_sid [OF assms(1) h] by (auto simp: prepare_connection_def)
  qed
  then show ?thesis
    using assms(1,3,5) inv_ids(2) [OF assms(1)] by (simp add: qq_inv_of_def)
qed

lemma inv_resumed:
  assumes "qq_inv_of M a es h sid s" "prepare_connection (qr_session (qy_run s)) = Some \<lparr>rs_session_id = i, rs_seq = seq\<rparr>"
    "qr_session r = qr_session (qy_run s)"
  shows "qq_inv_of M a es h sid
    (s\<lparr>qy_run := r, qy_cursor := Some (length (takeWhile (\<lambda>p. sq p \<le> seq) (qy_log s)))\<rparr>)"
proof -
  have seq: "last_seq (takeWhile (over (qy_handled s)) h) = Some seq"
    using assms(2) inv_session [OF assms(1)] by (auto simp: prepare_connection_def split: bind_splits)
  then obtain j where j: "j \<in> set h" "fst j = seq" using last_seq_in [OF seq] by (auto dest: set_takeWhileD)
  then have h: "h \<noteq> []" by auto
  then obtain q ps where log: "qy_log s = q # ps"
    using inv_recorded [OF assms(1)] by (cases "qy_log s") auto
  have srv: "server_log (qy_log s)" using inv_log [OF assms(1)] log by simp
  have inc: "increasing h" by (rule server_increasing [OF srv inv_recorded [OF assms(1)]])
  have le: "length (takeWhile (\<lambda>p. sq p \<le> seq) (qy_log s)) \<le> length h"
  proof (rule ccontr)
    assume *: "\<not> ?thesis"
    then have len: "length h < length (qy_log s)" using length_takeWhile_le [of _ "qy_log s"] by (metis not_le less_le_trans)
    have "sq (qy_log s ! length h) \<le> seq"
      using * nth_length_takeWhile set_takeWhileD [of "qy_log s ! length h" "\<lambda>p. sq p \<le> seq" "qy_log s"]
      by (metis not_le nth_mem takeWhile_nth)
    then show False using server_next [OF srv inv_recorded [OF assms(1)] len] j by fastforce
  qed
  have "sq q = fst (hd h)" "fst (hd h) \<le> seq"
    using inv_recorded [OF assms(1)] log h last_seq_max [OF increasing_takeWhile [OF inc] seq] seq
    by (cases h; auto simp: recorded_def last_seq_def split: if_splits)+
  then have "takeWhile (\<lambda>p. sq p \<le> seq) (qy_log s) \<noteq> []" by (simp add: log)
  then show ?thesis
    using assms(1,3) le h log by (simp add: qq_inv_of_def)
qed

lemma inv_recorded_next:
  assumes "qq_inv_of M a es h sid s" "length h < length (qy_log s)" "recorded M a (qy_log s ! length h) i"
  shows "list_all2 (recorded M a) (take (Suc (length h)) (qy_log s)) (h @ [i])"
    "es' = es @ (case event_for M a (qy_log s ! length h) of None \<Rightarrow> [] | Some e \<Rightarrow> [e\<lparr>delivery_id := snd i\<rparr>]) \<Longrightarrow>
      h \<noteq> [] \<or> qy_cursor s \<noteq> None \<Longrightarrow>
      qy_base s \<le> length es' \<and> drop (qy_base s) es' = events_of M a (take (Suc (length h)) (qy_log s)) (h @ [i])"
  using assms inv_recorded [OF assms(1)] inv_sent [OF assms(1)]
  by (auto simp: take_Suc_conv_app_nth events_of_snoc intro: list_all2_appendI)

text \<open>A new dispatch at the end of the history.\<close>

lemma inv_next:
  assumes inv: "qq_inv_of M a es h sid s" and cur: "qy_cursor s \<noteq> None" "length h < length (qy_log s)"
    and log: "qy_log s' = qy_log s" "qy_base s' = qy_base s" "qy_handled s' = qy_handled s"
      "qy_count s \<le> qy_count s'" "\<And>n. qy_cursor s' = Some n \<Longrightarrow> n = Suc (length h)"
    and i: "recorded M a (qy_log s ! length h) i" "set_option (snd i) \<inter> set (ids_of h) = {}"
      "ids_upto (qy_count s') (set_option (snd i))"
    and session: "qr_session (qy_run s') =
      session_of (h @ [i]) (qy_handled s) (session_id_after (qy_log s ! length h) sid) (of_nat (qy_count s'))"
    and es: "es' = es @ (case event_for M a (qy_log s ! length h) of None \<Rightarrow> [] | Some e \<Rightarrow> [e\<lparr>delivery_id := snd i\<rparr>])"
  shows "qq_inv_of M a es' (h @ [i]) (session_id_after (qy_log s ! length h) sid) s'"
proof -
  let ?p = "qy_log s ! length h"
  have srv: "server_log (qy_log s)" by (rule inv_log [OF inv]) (use cur(2) in auto)
  have sid: "session_id_after ?p sid \<noteq> None"
  proof (cases "event_type_of ?p = ready_type")
    case False
    then have "h \<noteq> []" using srv by (auto simp: server_log_def hd_conv_nth)
    then show ?thesis using inv_sid [OF inv] False by (simp add: session_id_after_def)
  qed (use server_entry(3) [OF srv cur(2)] in \<open>simp add: session_id_after_def\<close>)
  have new: "sent_ids es' \<subseteq> sent_ids es \<union> set_option (snd i)"
    by (auto simp: es sent_ids_def split: option.splits)
  have ids: "ids_of (h @ [i]) = ids_of h @ (case snd i of None \<Rightarrow> [] | Some d \<Rightarrow> [d])"
    by (cases i; cases "snd i") auto
  have "set (ids_of (h @ [i])) \<union> qy_handled s \<union> sent_ids es' \<subseteq>
      (set (ids_of h) \<union> qy_handled s \<union> sent_ids es) \<union> set_option (snd i)"
    using new unfolding ids by (cases "snd i") auto
  then have upto: "ids_upto (qy_count s') (set (ids_of (h @ [i])) \<union> qy_handled s \<union> sent_ids es')"
    using ids_upto_mono [OF inv_ids(2) [OF inv] log(4)] i(3) by (meson ids_upto_subset ids_upto_Un)
  have dist: "distinct (ids_of (h @ [i]))"
    using inv_ids(1) [OF inv] i(2) unfolding ids by (auto split: option.split)
  show ?thesis
    using inv_recorded_next [OF inv cur(2) i(1)] es cur(1) sid upto dist srv cur(2) log(5) session
    unfolding qq_inv_of_def log(1-3) by auto
qed

context event_sink
begin

lemma sent_after: "sent (sink_after (K t) p w) = sent w"
  by (simp add: sink_after_def marks)

text \<open>What holds when a dispatch arrives.\<close>

lemma dispatch_facts:
  assumes "qq_inv_of M a es h sid s" "qy_cursor s = Some n" "n < length (qy_log s)"
  shows "server_log (qy_log s)" "increasing h" "n \<le> length h" "n = 0 \<Longrightarrow> h = []"
    "gp_s (qy_log s ! n) = Some (sq (qy_log s ! n))"
    "event_type_of (qy_log s ! n) = ready_type \<Longrightarrow> ready_session_id (qy_log s ! n) \<noteq> None"
    "n = length h \<Longrightarrow> \<forall>i\<in>set h. fst i < sq (qy_log s ! n)"
proof -
  show srv: "server_log (qy_log s)"
    using inv_cursor [OF assms(1,2)] by (intro inv_log [OF assms(1)]) simp
  show "increasing h" by (rule server_increasing [OF srv inv_recorded [OF assms(1)]])
  show "n \<le> length h" "n = 0 \<Longrightarrow> h = []" using inv_cursor [OF assms(1,2)] by auto
  show "gp_s (qy_log s ! n) = Some (sq (qy_log s ! n))"
    "event_type_of (qy_log s ! n) = ready_type \<Longrightarrow> ready_session_id (qy_log s ! n) \<noteq> None"
    using server_entry [OF srv assms(3)] by auto
  show "n = length h \<Longrightarrow> \<forall>i\<in>set h. fst i < sq (qy_log s ! n)"
    using server_next [OF srv inv_recorded [OF assms(1)]] assms(3) by simp
qed

lemma run_dispatch_history:
  "qq_inv_of M a es h sid s \<Longrightarrow>
    run_dispatch M k a p (qy_run s) =
      (case handle_dispatch M k a p (session_of h (qy_handled s) sid (of_nat (qy_count s)), qr_sink (qy_run s)) of
        (Inl e, u, w) \<Rightarrow> (Some (Inl e), qy_run s\<lparr>qr_session := u, qr_sink := w\<rparr>)
      | (Inr auth, u, w) \<Rightarrow>
          (None, qy_run s\<lparr>qr_session := u, qr_sink := w, qr_attempt := if auth then 0 else qr_attempt (qy_run s)\<rparr>))"
  by (simp add: run_dispatch_def inv_session)

text \<open>A replay of a recorded dispatch changes nothing.\<close>

lemma replay_inv:
  assumes inv: "qq_inv_of M a (sent (qr_sink (qy_run s))) h sid s" and cur: "qy_cursor s = Some n" "n < length (qy_log s)"
    and run: "s' = after_input (Suc n) (run_dispatch M (K t) a (qy_log s ! n) (qy_run s)) s"
    and known: "n < length h"
  shows "qq_inv M a sent s'"
proof -
  note facts = dispatch_facts [OF inv cur]
  have "sq (qy_log s ! n) = seqs_of h ! n" "n < length (seqs_of h)"
    using recorded_seqs [OF inv_recorded [OF inv]] cur(2) known by (simp_all add: seqs_of_def)
  then have "sq (qy_log s ! n) \<in> set (seqs_of h)" by simp
  moreover have "event_type_of (qy_log s ! n) \<noteq> ready_type"
    using server_not_ready [OF facts(1) cur(2)] known facts(4) by auto
  ultimately have "qr_session (qy_run s') = qr_session (qy_run s) \<and>
      sent (qr_sink (qy_run s')) = sent (qr_sink (qy_run s)) \<and> qy_cursor s' = Some (Suc n)"
    by (simp add: run run_dispatch_history [OF inv] dispatch_known [OF facts(2,5)] sent_after inv_session [OF inv])
  then have "qq_inv_of M a (sent (qr_sink (qy_run s'))) h sid s'"
    using known cur(1) by (intro inv_same_session [OF inv, THEN back_subst [of "\<lambda>x. qq_inv_of M a x h sid s'"]])
      (auto simp: run after_input_count)
  then show ?thesis unfolding qq_inv_def by blast
qed

text \<open>A dispatch without an event is recorded as completed.\<close>

lemma plain_inv:
  assumes inv: "qq_inv_of M a (sent (qr_sink (qy_run s))) h sid s" and cur: "qy_cursor s = Some n" "n < length (qy_log s)"
    and run: "s' = after_input (Suc n) (run_dispatch M (K t) a (qy_log s ! n) (qy_run s)) s"
    and plain: "n = length h" "event_for M a (qy_log s ! n) = None"
  shows "qq_inv M a sent s'"
proof -
  note facts = dispatch_facts [OF inv cur]
  let ?p = "qy_log s ! n"
  have s': "qr_session (qy_run s') =
        session_of (h @ [(sq ?p, None)]) (qy_handled s) (session_id_after ?p sid) (of_nat (qy_count s)) \<and>
      sent (qr_sink (qy_run s')) = sent (qr_sink (qy_run s)) \<and> qy_cursor s' = Some (Suc n) \<and> qy_count s' = qy_count s"
    by (simp add: run run_dispatch_history [OF inv] dispatch_new_plain [OF facts(5) facts(7) [OF plain(1)] facts(6) plain(2)]
        sent_after after_input_count inv_session [OF inv])
  have frame: "qy_log s' = qy_log s" "qy_base s' = qy_base s" "qy_handled s' = qy_handled s"
    by (simp_all add: run)
  have "qq_inv_of M a (sent (qr_sink (qy_run s'))) (h @ [(sq ?p, None)]) (session_id_after (qy_log s ! length h) sid) s'"
    by (rule inv_next [OF inv]) (use s' plain cur frame in \<open>simp_all add: recorded_def ids_upto_def\<close>)
  then show ?thesis unfolding qq_inv_def by blast
qed

text \<open>A dispatch with an event: the limit is reached, the sender refuses the event, or it is recorded as open.\<close>

lemma event_inv:
  assumes inv: "qq_inv_of M a (sent (qr_sink (qy_run s))) h sid s" and cur: "qy_cursor s = Some n" "n < length (qy_log s)"
    and run: "s' = after_input (Suc n) (run_dispatch M (K t) a (qy_log s ! n) (qy_run s)) s"
    and event: "n = length h" "event_for M a (qy_log s ! n) = Some e"
    and notready: "session_id_after (qy_log s ! n) sid = sid" and cnt: "Suc (qy_count s) < 2 ^ 64"
  shows "qq_inv M a sent s'"
proof -
  let ?p = "qy_log s ! n" and ?H = "qy_handled s" and ?N = "of_nat (qy_count s) :: u64" and ?w = "qr_sink (qy_run s)"
  let ?e = "e\<lparr>delivery_id := Some (next_id ?N)\<rparr>" and ?i = "(sq ?p, Some (next_id ?N))"
  note facts = dispatch_facts [OF inv cur] and nid = next_id_of_nat [OF cnt]
  have frame: "qy_log s' = qy_log s" "qy_base s' = qy_base s" "qy_handled s' = qy_handled s"
    by (simp_all add: run)
  have old: "next_id ?N \<notin> set (ids_of h) \<union> ?H"
    using inv_ids(2) [OF inv] nid(2) unfolding ids_upto_def by (metis UnI1 not_less_eq_eq order_refl)
  have "unat ?N = qy_count s" using cnt by (subst unat_of_nat) simp
  then have changed: "next_id ?N \<noteq> ?N" using nid(2) by (metis n_not_Suc_n)
  note hd = dispatch_new_event [OF facts(5) facts(7) [OF event(1)] facts(6) event(2) facts(2), of ?N ?H]
  note run' = run run_dispatch_history [OF inv] hd sent_after notready after_input_count inv_session [OF inv]
  consider (full) "max_pending_dispatches \<le> open_count h ?H"
    | (refused) err w' where "\<not> max_pending_dispatches \<le> open_count h ?H"
        "sk_try_send (K t) ?e (sink_after (K t) ?p ?w) = (Inl err, w')"
    | (sent) u w' where "\<not> max_pending_dispatches \<le> open_count h ?H"
        "sk_try_send (K t) ?e (sink_after (K t) ?p ?w) = (Inr u, w')"
    by (metis sum.exhaust surj_pair)
  then show ?thesis
  proof cases
    case full
    then have "qr_session (qy_run s') = qr_session (qy_run s) \<and> sent (qr_sink (qy_run s')) = sent ?w \<and> qy_cursor s' = None"
      using old by (simp add: run')
    then have "qq_inv_of M a (sent (qr_sink (qy_run s'))) h sid s'"
      by (intro inv_same_session [OF inv, THEN back_subst [of "\<lambda>x. qq_inv_of M a x h sid s'"]])
        (auto simp: run after_input_count)
    then show ?thesis unfolding qq_inv_def by blast
  next
    case refused
    then have "qr_session (qy_run s') = session_of h ?H sid (next_id ?N) \<and> sent (qr_sink (qy_run s')) = sent ?w \<and>
        qy_cursor s' = None \<and> qy_count s' = Suc (qy_count s)"
      using old refuses [OF refused(2)] changed by (simp add: run')
    then have "qq_inv_of M a (sent (qr_sink (qy_run s'))) h sid s'"
      using inv nid(1) ids_upto_mono [OF inv_ids(2) [OF inv]] cur(1) by (simp add: qq_inv_of_def frame)
    then show ?thesis unfolding qq_inv_def by blast
  next
    case sent
    then have s': "qr_session (qy_run s') = session_of (h @ [?i]) ?H sid (next_id ?N) \<and>
        sent (qr_sink (qy_run s')) = sent ?w @ [?e] \<and> qy_cursor s' = Some (Suc n) \<and> qy_count s' = Suc (qy_count s)"
      using old sends [OF sent(2)] changed by (simp add: run')
    have "qq_inv_of M a (sent (qr_sink (qy_run s'))) (h @ [?i]) (session_id_after (qy_log s ! length h) sid) s'"
      by (rule inv_next [OF inv])
        (use s' event cur old nid notready frame in \<open>auto simp: recorded_def ids_upto_def\<close>)
    then show ?thesis unfolding qq_inv_def by blast
  qed
qed

lemma dispatch_inv:
  assumes inv: "qq_inv_of M a (sent (qr_sink (qy_run s))) h sid s" and cur: "qy_cursor s = Some n" "n < length (qy_log s)"
    and run: "s' = after_input (Suc n) (run_dispatch M (K t) a (qy_log s ! n) (qy_run s)) s"
    and ready: "\<And>p. event_type_of p = ready_type \<Longrightarrow> event_for M a p = None"
    and few: "Suc (qy_count s') < 2 ^ 64"
  shows "qq_inv M a sent s'"
proof -
  consider (known) "n < length h" | (plain) "n = length h" "event_for M a (qy_log s ! n) = None"
    | (event) e where "n = length h" "event_for M a (qy_log s ! n) = Some e"
    using dispatch_facts(3) [OF inv cur] by (cases "event_for M a (qy_log s ! n)") fastforce+
  then show ?thesis
  proof cases
    case known
    then show ?thesis by (rule replay_inv [OF inv cur run])
  next
    case plain
    then show ?thesis by (rule plain_inv [OF inv cur run])
  next
    case event
    have "session_id_after (qy_log s ! n) sid = sid"
      using ready [of "qy_log s ! n"] event(2) by (auto simp: session_id_after_def)
    moreover have "Suc (qy_count s) < 2 ^ 64"
      using few unfolding run after_input_count by (auto split: if_splits)
    ultimately show ?thesis by (rule event_inv [OF inv cur run event])
  qed
qed

lemma step_inv:
  assumes "qq_inv M (qc_adapter_id c) sent s" "qq_step M parse c K sent s s'"
    and ready: "\<And>p. event_type_of p = ready_type \<Longrightarrow> event_for M (qc_adapter_id c) p = None"
    and few: "Suc (qy_count s') < 2 ^ 64"
  shows "qq_inv M (qc_adapter_id c) sent s'"
proof -
  let ?a = "qc_adapter_id c"
  obtain h sid where inv: "qq_inv_of M ?a (sent (qr_sink (qy_run s))) h sid s"
    using assms(1) by (auto simp: qq_inv_def)
  show ?thesis
    using assms(2)
  proof cases
    case (resumes hs i r tok si seq)
    obtain t where "last (qr_written r) = first_payload c t (qr_session (qy_run s))"
      using connect_frame [OF resumes(3)] by blast
    then have "qq_inv_of M ?a (sent (qr_sink (qy_run s))) h sid s'"
      using connect_frame [OF resumes(3)] inv_resumed [OF inv, of si seq "r\<lparr>qr_acknowledged := True\<rparr>"] resumes(1,4)
        first_payload_cases(1) [of c t "qr_session (qy_run s)" tok si seq] by simp
    then show ?thesis
      using connect_frame [OF resumes(3)] resumes(1) unfolding qq_inv_def by auto
  next
    case (identifies hs i r tok ints sh p)
    obtain t where "last (qr_written r) = first_payload c t (qr_session (qy_run s))"
      using connect_frame [OF identifies(3)] by blast
    then have "qq_inv_of M ?a (sent (qr_sink (qy_run s))) [] sid s'"
      using connect_frame [OF identifies(3)] identifies(1,4,5)
        inv_identified [OF inv _ identifies(5) ready, of "r\<lparr>qr_acknowledged := True\<rparr>"]
        first_payload_cases(2) [of c t "qr_session (qy_run s)" tok ints sh] by simp
    then show ?thesis
      using connect_frame [OF identifies(3)] identifies(1) unfolding qq_inv_def by auto
  next
    case (handshake_ends hs res r)
    then have "qq_inv_of M ?a (sent (qr_sink (qy_run s))) h sid s'"
      using connect_frame [OF handshake_ends(3)] by (intro inv_same_session [OF inv]) auto
    then show ?thesis
      using connect_frame [OF handshake_ends(3)] handshake_ends(1) unfolding qq_inv_def by auto
  next
    case (appends p)
    have "length h \<le> length (qy_log s)"
      using list_all2_lengthD [OF inv_recorded [OF inv]] by simp
    then have "qq_inv_of M ?a (sent (qr_sink (qy_run s))) h sid s'"
      using inv appends by (simp add: qq_inv_of_def)
    then show ?thesis using appends(1) unfolding qq_inv_def by auto
  next
    case (dispatches n v t failed)
    have "gp_op (qy_log s ! n) = op_dispatch"
      using server_entry(1) [OF inv_log [OF inv] dispatches(3)] inv_cursor [OF inv dispatches(2)] by simp
    then have eq: "s' = after_input (Suc n) (run_dispatch M (K t) ?a (qy_log s ! n) (qy_run s)) s"
      using dispatches(1,4) by (simp add: run_input_dispatch del: run_input.simps)
    show ?thesis by (rule dispatch_inv [OF inv dispatches(2,3) eq ready few])
  next
    case (inputs n i t failed)
    obtain res r where r: "run_input M (K t) ?a failed i (qy_run s) = (res, r)" by (metis surj_pair)
    note other = run_input_other [OF inputs(3) r]
    have cnt: "qy_count s' = qy_count s"
      using other inputs(1) r by (auto simp: after_input_count clear_session_def new_session_def)
    have "\<exists>h sid. qq_inv_of M ?a (sent (qr_sink (qy_run s))) h sid s'"
      using other
    proof (elim conjE disjE)
      assume "qr_session r = qr_session (qy_run s)"
      then have "qq_inv_of M ?a (sent (qr_sink (qy_run s))) h sid s'"
        using inputs r cnt inv_cursor [OF inv inputs(2)] by (intro inv_same_session [OF inv]) (auto split: if_splits)
      then show ?thesis by blast
    next
      assume "res \<noteq> None" "qr_session r = clear_session (qr_session (qy_run s))"
      then have "qq_inv_of M ?a (sent (qr_sink (qy_run s))) [] None s'"
        using inputs(1) r cnt by (intro inv_cleared [OF inv]) auto
      then show ?thesis by blast
    qed
    then show ?thesis using other inputs(1) r by (auto simp: qq_inv_def)
  next
    case (waits n)
    then have "qq_inv_of M ?a (sent (qr_sink (qy_run s))) h sid s'"
      by (intro inv_same_session [OF inv]) auto
    then show ?thesis using waits(1) unfolding qq_inv_def by auto
  next
    case (handles e)
    then show ?thesis using inv_handled [OF inv handles(2)] unfolding qq_inv_def by auto
  next
    case (others w)
    then have "qq_inv_of M ?a (sent (qr_sink (qy_run s))) h sid s'"
      by (intro inv_same_session [OF inv]) (auto dest: inv_cursor [OF inv])
    then show ?thesis using others unfolding qq_inv_def by auto
  qed
qed

lemma count_mono: "qq_step M parse c K sent s s' \<Longrightarrow> qy_count s \<le> qy_count s'"
  by (induction rule: qq_step.induct) (simp_all add: after_input_count)

lemma reachable_inv:
  assumes "qq_reachable M parse c K sent s"
    and ready: "\<And>p. event_type_of p = ready_type \<Longrightarrow> event_for M (qc_adapter_id c) p = None"
  shows "Suc (qy_count s) < 2 ^ 64 \<Longrightarrow> qq_inv M (qc_adapter_id c) sent s"
  using assms(1)
proof (induction rule: qq_reachable.induct)
  case (qq_start s)
  then have "qq_inv_of M (qc_adapter_id c) [] [] None s"
    by (simp add: qq_inv_of_def new_session_of [where H = "{}"] ids_upto_def sent_ids_def)
  then show ?case using qq_start unfolding qq_inv_def by auto
next
  case (qq_next s s')
  then show ?case using count_mono [OF qq_next(2)] step_inv [OF _ qq_next(2) ready] by simp
qed

end

end
