(* ===== verification/QqResumeProps.thy ===== *)
theory QqResumeProps
  imports QqResume "HOL-Library.Sublist"
begin

text \<open>
  The properties of the gateway session: events once and in order over all reconnects, a resume point that only
  covers handled events, everything committed once everything is handled, what a failed event does to the adapter, the
  backoff, and the hosts a gateway may have.
\<close>

section \<open>Delivery over reconnects\<close>

text \<open>The sender that \<open>run\<close> is given, at a time when \<open>try_send\<close> starts and one when it ends.\<close>

definition sender_sinks ::
    "(json event_envelope, 'q) channel \<Rightarrow> adapter_id \<Rightarrow> nat \<times> nat \<Rightarrow>
     (json event_envelope, json event_envelope list \<times> 'q sender_state) sink" where
  "sender_sinks ch a = (\<lambda>(t, t'). with_received (sender_sink ch a t t'))"

definition mapped_events :: "dispatch_mapping \<Rightarrow> adapter_id \<Rightarrow> gateway_payload list \<Rightarrow> json event_envelope list" where
  "mapped_events M a ps = List.map_filter (event_for M a) ps"

text \<open>The dispatches of the session up to a sequence, and the events the adapter handed over since it began.\<close>

definition upto_seq :: "u64 \<Rightarrow> 'w qq_system \<Rightarrow> gateway_payload list" where
  "upto_seq l s = filter (\<lambda>p. sq p \<le> l) (qy_log s)"

definition session_events :: "('w \<Rightarrow> json event_envelope list) \<Rightarrow> 'w qq_system \<Rightarrow> json event_envelope list" where
  "session_events sent s = drop (qy_base s) (sent (qr_sink (qy_run s)))"

definition without_id :: "json event_envelope \<Rightarrow> json event_envelope" where
  "without_id e = e\<lparr>delivery_id := None\<rparr>"

lemma without_id_same [simp]: "without_id (e\<lparr>delivery_id := d\<rparr>) = without_id e"
  by (simp add: without_id_def)

lemma mapped_events_simps [simp]:
  "mapped_events M a [] = []"
  "mapped_events M a (p # ps) = (case event_for M a p of None \<Rightarrow> mapped_events M a ps | Some e \<Rightarrow> e # mapped_events M a ps)"
  by (simp_all add: mapped_events_def map_filter_simps split: option.split)

lemma events_of_mapped:
  "length ps = length h \<Longrightarrow> map without_id (events_of M a ps h) = map without_id (mapped_events M a ps)"
  by (induction ps h rule: list_induct2) (auto split: option.split)

lemma events_of_prefix:
  "list_all2 (recorded M a) ps h \<Longrightarrow> length qs = length is \<Longrightarrow> ps @ qs = ps' \<Longrightarrow>
    events_of M a (ps @ qs) (h @ is) = events_of M a ps h @ events_of M a qs is"
  by (induction arbitrary: ps' rule: list_all2_induct) (auto split: option.split)

lemma events_of_ids:
  "list_all2 (recorded M a) ps h \<Longrightarrow> map delivery_id (events_of M a ps h) = map Some (ids_of h)"
proof (induction rule: list_all2_induct)
  case (Cons p ps i h)
  then show ?case by (cases i; cases "snd i") (auto simp: recorded_def split: option.split)
qed simp

lemma sorted_filter_take:
  assumes "sorted_wrt (<) (map sq ps)" "n \<le> length ps" "n \<noteq> 0"
  shows "filter (\<lambda>p. sq p \<le> sq (ps ! (n - 1))) ps = take n ps"
proof -
  have "sq p \<le> sq (ps ! (n - 1))" if p: "p \<in> set (take n ps)" for p
  proof -
    obtain j where "j < n" "p = ps ! j" using p assms(2) by (auto simp: in_set_conv_nth)
    then show ?thesis
      using assms sorted_wrt_nth_less [OF assms(1), of j "n - 1"] by (cases "j = n - 1") (auto intro: less_imp_le)
  qed
  moreover have "\<not> sq p \<le> sq (ps ! (n - 1))" if p: "p \<in> set (drop n ps)" for p
  proof -
    obtain j where "j < length ps - n" "p = ps ! (n + j)" using p by (auto simp: in_set_conv_nth)
    then have "sq (ps ! (n - 1)) < sq p"
      using assms(3) sorted_wrt_nth_less [OF assms(1), of "n - 1" "n + j"] by simp
    then show ?thesis by simp
  qed
  ultimately have "filter (\<lambda>p. sq p \<le> sq (ps ! (n - 1))) (take n ps @ drop n ps) = take n ps"
    by (simp only: filter_append) (simp add: filter_empty_conv)
  then show ?thesis by simp
qed

text \<open>A prefix of the history covers the dispatches up to its last sequence.\<close>

lemma history_upto:
  assumes "server_log ps" "list_all2 (recorded M a) (take (length h) ps) h" "k \<le> length h" "last_seq (take k h) = Some l"
  shows "filter (\<lambda>p. sq p \<le> l) ps = take k ps" "k \<noteq> 0"
proof -
  show k: "k \<noteq> 0" using assms(4) by (cases k) auto
  have len: "length h \<le> length ps" using list_all2_lengthD [OF assms(2)] by simp
  have "l = fst (h ! (k - 1))"
    using assms(3,4) k by (auto simp: last_seq_def last_conv_nth split: if_splits)
  also have "\<dots> = sq (ps ! (k - 1))"
    using list_all2_nthD2 [OF assms(2), of "k - 1"] assms(3) k len by (simp add: recorded_def)
  finally have "l = sq (ps ! (k - 1))" .
  then show "filter (\<lambda>p. sq p \<le> l) ps = take k ps"
    using sorted_filter_take [of ps k] assms(1,3) len k by (simp add: server_log_def)
qed

lemma reachable_history:
  assumes "channel_laws ch items permits"
    and "qq_reachable M parse c (sender_sinks ch a) (sent_events a items) s"
    and "\<And>p. event_type_of p = ready_type \<Longrightarrow> event_for M (qc_adapter_id c) p = None"
    and "Suc (qy_count s) < 2 ^ 64"
  obtains h sid where "qq_inv_of M (qc_adapter_id c) (sent_events a items (qr_sink (qy_run s))) h sid s"
  using event_sink.reachable_inv [OF sender_event_sink [OF assms(1)]] assms(2-4)
  unfolding sender_sinks_def qq_inv_def by blast

lemma inv_events:
  assumes inv: "qq_inv_of M a (sent (qr_sink (qy_run s))) h sid s" and k: "k \<le> length h" "last_seq (take k h) = Some l"
  shows "map without_id (take (length (ids_of (take k h))) (session_events sent s)) =
      map without_id (mapped_events M a (upto_seq l s))"
    and "map delivery_id (take (length (ids_of (take k h))) (session_events sent s)) = map Some (ids_of (take k h))"
    and "length (mapped_events M a (upto_seq l s)) = length (ids_of (take k h))"
    and "k = length h \<Longrightarrow> length (session_events sent s) = length (ids_of h)"
    and "\<exists>p\<in>set (qy_log s). sq p = l"
proof -
  let ?ps = "take (length h) (qy_log s)"
  have h: "h \<noteq> []" using k(2) by (cases h) auto
  have rec: "list_all2 (recorded M a) ?ps h" by (rule inv_recorded [OF inv])
  have len: "length h \<le> length (qy_log s)" using list_all2_lengthD [OF rec] by simp
  then have log: "qy_log s \<noteq> []" using h by auto
  note upto = history_upto [OF inv_log [OF inv log] rec k]
  have reck: "list_all2 (recorded M a) (take k ?ps) (take k h)" by (rule list_all2_takeI [OF rec])
  have split: "session_events sent s = events_of M a (take k ?ps) (take k h) @ events_of M a (drop k ?ps) (drop k h)"
  proof -
    have "length (drop k ?ps) = length (drop k h)" using len by simp
    then show ?thesis
      using inv_sent [OF inv] h events_of_prefix [OF reck _ refl, of "drop k ?ps" "drop k h"]
      by (simp only: append_take_drop_id session_events_def simp_thms)
  qed
  have ids: "map delivery_id (events_of M a (take k ?ps) (take k h)) = map Some (ids_of (take k h))"
    by (rule events_of_ids [OF reck])
  then have n: "length (events_of M a (take k ?ps) (take k h)) = length (ids_of (take k h))"
    by (metis length_map)
  then have pre: "take (length (ids_of (take k h))) (session_events sent s) = events_of M a (take k ?ps) (take k h)"
    by (simp add: split)
  have mapped: "map without_id (events_of M a (take k ?ps) (take k h)) = map without_id (mapped_events M a (upto_seq l s))"
    using events_of_mapped [of "take k ?ps" "take k h"] k(1) len upto(1) by (simp add: upto_seq_def min_def)
  show "map without_id (take (length (ids_of (take k h))) (session_events sent s)) =
      map without_id (mapped_events M a (upto_seq l s))"
    unfolding pre by (rule mapped)
  show "map delivery_id (take (length (ids_of (take k h))) (session_events sent s)) = map Some (ids_of (take k h))"
    unfolding pre by (rule ids)
  show "length (mapped_events M a (upto_seq l s)) = length (ids_of (take k h))"
    using arg_cong [OF mapped, of length] n by simp
  show "length (session_events sent s) = length (ids_of h)" if "k = length h"
    using n that by (simp add: split)
  have "l = sq (?ps ! (k - 1))"
    using list_all2_nthD2 [OF rec, of "k - 1"] k upto(2) by (simp add: recorded_def last_seq_def last_conv_nth split: if_splits)
  then show "\<exists>p\<in>set (qy_log s). sq p = l"
    using k(1) upto(2) len by (intro bexI [of _ "qy_log s ! (k - 1)"]) auto
qed

text \<open>[C18] Over all reconnects, resumes, replays and refused sends, the events that the QQ adapter has handed to the
  runtime in a session are exactly those that the dispatches of the gateway up to the last received sequence map to:
  each once, none missing, in the order of the gateway.\<close>

theorem qq_events_exactly_once:
  assumes "channel_laws ch items permits"
    and "qq_reachable M parse c (sender_sinks ch a) (sent_events a items) s"
    and "\<And>p. event_type_of p = ready_type \<Longrightarrow> event_for M (qc_adapter_id c) p = None"
    and "Suc (qy_count s) < 2 ^ 64"
    and "ss_last_received (qr_session (qy_run s)) = Some l"
  shows "map without_id (session_events (sent_events a items) s) =
    map without_id (mapped_events M (qc_adapter_id c) (upto_seq l s))"
proof -
  obtain h sid where inv: "qq_inv_of M (qc_adapter_id c) (sent_events a items (qr_sink (qy_run s))) h sid s"
    by (rule reachable_history [OF assms(1-4)])
  have l: "last_seq (take (length h) h) = Some l" using assms(5) inv_session [OF inv] by simp
  show ?thesis
    using inv_events(1,4) [where sent = "sent_events a items", OF inv order_refl l] by simp
qed

text \<open>[C19] The sequence from which a new connection resumes covers only dispatches whose events the runtime has
  reported as handled: what the gateway does not send again was handed over before and is handled.\<close>

theorem qq_resume_point_handled:
  assumes "channel_laws ch items permits"
    and "qq_reachable M parse c (sender_sinks ch a) (sent_events a items) s"
    and "\<And>p. event_type_of p = ready_type \<Longrightarrow> event_for M (qc_adapter_id c) p = None"
    and "Suc (qy_count s) < 2 ^ 64"
    and "prepare_connection (qr_session (qy_run s)) = Some rs"
  shows "\<exists>es. prefix es (session_events (sent_events a items) s) \<and>
    map without_id es = map without_id (mapped_events M (qc_adapter_id c) (upto_seq (rs_seq rs) s)) \<and>
    (\<forall>e\<in>set es. \<exists>d\<in>qy_handled s. delivery_id e = Some d)"
proof -
  let ?H = "qy_handled s"
  obtain h sid where inv: "qq_inv_of M (qc_adapter_id c) (sent_events a items (qr_sink (qy_run s))) h sid s"
    by (rule reachable_history [OF assms(1-4)])
  define k where "k = length (takeWhile (over ?H) h)"
  have take: "take k h = takeWhile (over ?H) h" by (metis k_def takeWhile_eq_take)
  have k: "k \<le> length h" by (simp add: k_def length_takeWhile_le)
  have l: "last_seq (take k h) = Some (rs_seq rs)"
    using assms(5) inv_session [OF inv] by (auto simp: take prepare_connection_def split: bind_splits)
  have ids: "d \<in> ?H" if "d \<in> set (ids_of (take k h))" for d
    using that by (auto simp: take ids_of_def map_filter_def over_def dest!: set_takeWhileD split: option.splits)
  let ?es = "take (length (ids_of (take k h))) (session_events (sent_events a items) s)"
  have "\<exists>d\<in>?H. delivery_id e = Some d" if e: "e \<in> set ?es" for e
  proof -
    have "delivery_id e \<in> set (map delivery_id ?es)" using e by auto
    then show ?thesis unfolding inv_events(2) [where sent = "sent_events a items", OF inv k l] using ids by auto
  qed
  then show ?thesis
    using inv_events(1) [where sent = "sent_events a items", OF inv k l] by (intro exI [of _ ?es]) (auto simp: take_is_prefix)
qed

text \<open>[C20] Once every event that was handed over is handled, nothing is pending: everything received is committed.\<close>

theorem qq_all_handled_committed:
  assumes "channel_laws ch items permits"
    and "qq_reachable M parse c (sender_sinks ch a) (sent_events a items) s"
    and "\<And>p. event_type_of p = ready_type \<Longrightarrow> event_for M (qc_adapter_id c) p = None"
    and "Suc (qy_count s) < 2 ^ 64"
    and "\<forall>e\<in>set (sent_events a items (qr_sink (qy_run s))). \<forall>d. delivery_id e = Some d \<longrightarrow> d \<in> qy_handled s"
  shows "ss_pending (qr_session (qy_run s)) = [] \<and>
    ss_last_committed (qr_session (qy_run s)) = ss_last_received (qr_session (qy_run s))"
proof -
  let ?H = "qy_handled s" and ?es = "sent_events a items (qr_sink (qy_run s))"
  obtain h sid where inv: "qq_inv_of M (qc_adapter_id c) ?es h sid s"
    by (rule reachable_history [OF assms(1-4)])
  have "over ?H i" if i: "i \<in> set h" for i
  proof (cases "snd i")
    case (Some d)
    have h: "h \<noteq> []" using i by auto
    have "d \<in> set (ids_of h)" using i Some by (force simp: ids_of_def map_filter_def)
    then have "Some d \<in> set (map delivery_id (drop (qy_base s) ?es))"
      using inv_sent [OF inv] h events_of_ids [OF inv_recorded [OF inv]] by simp
    then obtain e where "e \<in> set ?es" "delivery_id e = Some d" by (auto dest: in_set_dropD)
    then show ?thesis using assms(5) Some by (simp add: over_def)
  qed (simp add: over_def)
  then have all: "takeWhile (over ?H) h = h" "dropWhile (over ?H) h = []" by simp_all
  show ?thesis unfolding inv_session [OF inv] session_of_simps all by simp
qed

section \<open>An event that is never handled\<close>

text \<open>The first open dispatch has the event \<open>d\<close>, which is not handled, and the limit of open dispatches is reached.\<close>

definition blocked :: "u64 \<Rightarrow> session_state \<Rightarrow> bool" where
  "blocked d s \<longleftrightarrow>
     (\<exists>i is. ss_pending s = i # is \<and> pd_delivery_id i = Some d \<and> \<not> pd_completed i) \<and>
     max_pending_dispatches \<le> length (ss_pending s)"

lemma length_complete_first [simp]: "length (complete_first d is) = length is"
  by (induction "is") auto

lemma blocked_advance: "blocked d s \<Longrightarrow> advance_committed s = s"
  by (cases s) (auto simp: blocked_def advance_committed_def)

lemma blocked_handled:
  assumes "blocked d s" "delivery_id e \<noteq> Some d"
  shows "blocked d (event_handled e s)"
proof (cases "delivery_id e")
  case (Some d')
  then have "blocked d (s\<lparr>ss_pending := complete_first d' (ss_pending s)\<rparr>)"
    using assms by (auto simp: blocked_def)
  then show ?thesis by (simp add: event_handled_def Some mark_handled_def blocked_advance)
qed (use assms(1) in \<open>simp add: event_handled_def\<close>)

lemma blocked_record:
  assumes "blocked d s" "record_dispatch seq ev s = (res, s')"
  shows "blocked d s' \<and> (ev \<longrightarrow> (\<forall>x. res \<noteq> Inr (Accepted x)))"
proof -
  have keep: "blocked d (s\<lparr>ss_last_received := l, ss_pending := ss_pending s @ [i]\<rparr>)" for l i
    using assms(1) by (auto simp: blocked_def)
  have limit: "max_pending_dispatches \<le> length (ss_pending s)" using assms(1) by (simp add: blocked_def)
  show ?thesis
    using assms limit
    by (auto simp: record_dispatch_def Let_def blocked_advance [OF keep] keep split: if_splits option.splits)
qed

lemma blocked_session_id: "blocked d (s\<lparr>ss_session_id := x\<rparr>) = blocked d s"
  by (simp add: blocked_def)

lemma blocked_dispatch:
  assumes "blocked d (qr_session r)" "gp_s p \<noteq> None" "event_sink K sent"
  shows "blocked d (qr_session (snd (run_dispatch M (K t) a p r))) \<and>
    sent (qr_sink (snd (run_dispatch M (K t) a p r))) = sent (qr_sink r)"
proof -
  obtain seq where seq: "gp_s p = Some seq" using assms(2) by auto
  define x where "x = after_ready (K t) p (qr_session r, qr_sink r)"
  have x: "blocked d (fst x)" "sent (snd x) = sent (qr_sink r)"
    using assms(1) by (auto simp: x_def after_ready_def blocked_session_id event_sink.marks [OF assms(3)])
  show ?thesis
  proof (cases "event_type_of p = ready_type \<and> ready_session_id p = None")
    case True
    then show ?thesis using assms(1) by (simp add: run_dispatch_def handle_dispatch_def)
  next
    case False
    show ?thesis
    proof (cases "M a p")
      case (Inl e)
      obtain res s' where "record_dispatch seq False (fst x) = (res, s')" by (metis surj_pair)
      then show ?thesis
        using False x blocked_record [OF x(1), of seq False res s']
        by (auto simp: run_dispatch_def handle_dispatch_def seq x_def [symmetric] Inl Let_def)
    next
      case (Inr mapped)
      obtain res s' where rec: "record_dispatch seq (mapped \<noteq> None) (fst x) = (res, s')" by (metis surj_pair)
      show ?thesis
        using False x blocked_record [OF x(1) rec] rec
        by (auto simp: run_dispatch_def handle_dispatch_def seq x_def [symmetric] Inr Let_def deliver_event_def
            split: sum.split dispatch_record.split option.split)
    qed
  qed
qed

lemma step_log:
  "qq_step M parse c K sent s s' \<Longrightarrow> qy_log s \<noteq> [] \<longrightarrow> server_log (qy_log s) \<Longrightarrow>
    qy_log s' \<noteq> [] \<longrightarrow> server_log (qy_log s')"
  by (induction rule: qq_step.induct) simp_all

text \<open>[C39] An event whose handlers fail is never reported as handled, so its dispatch stays open; the gateway replays it
  after a reconnect, but the adapter takes the replay for a duplicate. Once the limit of open dispatches is reached behind
  it, the adapter hands over no event any more, over any number of reconnects and whatever else is handled, until the
  gateway invalidates the session.\<close>

theorem failed_event_blocks_gateway:
  assumes "event_sink K sent"
    and "(\<lambda>s s'. qq_step M parse c K sent s s' \<and> d \<notin> qy_handled s' \<and>
            qr_session (qy_run s') \<noteq> clear_session (qr_session (qy_run s)))\<^sup>*\<^sup>* s s'"
    and "blocked d (qr_session (qy_run s))" and "qy_log s \<noteq> [] \<longrightarrow> server_log (qy_log s)"
  shows "blocked d (qr_session (qy_run s')) \<and> sent (qr_sink (qy_run s')) = sent (qr_sink (qy_run s))"
proof -
  have "blocked d (qr_session (qy_run s')) \<and> sent (qr_sink (qy_run s')) = sent (qr_sink (qy_run s)) \<and>
      (qy_log s' \<noteq> [] \<longrightarrow> server_log (qy_log s'))"
    using assms(2)
  proof (induction rule: rtranclp_induct)
    case base
    then show ?case using assms(3,4) by simp
  next
    case (step u u')
    then have u: "blocked d (qr_session (qy_run u))" "sent (qr_sink (qy_run u)) = sent (qr_sink (qy_run s))"
      "qy_log u \<noteq> [] \<longrightarrow> server_log (qy_log u)" by auto
    have "blocked d (qr_session (qy_run u')) \<and> sent (qr_sink (qy_run u')) = sent (qr_sink (qy_run u))"
      using conjunct1 [OF step(2)]
    proof cases
      case (dispatches n v t failed)
      have srv: "server_log (qy_log u)" using u(3) dispatches(3) by auto
      show ?thesis
        using server_entry [OF srv dispatches(3)] dispatches(1,4) blocked_dispatch [OF u(1) _ assms(1)]
        by (simp add: run_input_dispatch del: run_input.simps)
    next
      case (inputs n i t failed)
      obtain res r where r: "run_input M (K t) (qc_adapter_id c) failed i (qy_run u) = (res, r)" by (metis surj_pair)
      then show ?thesis using run_input_other [OF inputs(3) r] inputs(1) u(1) step(2) by auto
    next
      case (handles e)
      then show ?thesis using step(2) u(1) by (auto intro: blocked_handled)
    qed (use u(1) connect_frame in fastforce)+
    then show ?case using step_log [OF conjunct1 [OF step(2)] u(3)] u(2) by simp
  qed
  then show ?thesis by blast
qed

section \<open>Backoff\<close>

text \<open>Between two connections the adapter waits at least 100 ms and at most the configured maximum: the minimum
  doubled for each of the first ten attempts and at most 250 ms of jitter, for any configuration and any number of attempts.\<close>

theorem reconnect_delay_bounds:
  assumes "qc_reconnect_min_delay c \<le> duration_max" "qc_reconnect_max_delay c \<le> duration_max"
    and "c' = new_qq_config c"
    and "base = min (qc_reconnect_min_delay c' * 2 ^ min (unat attempt) 10) (qc_reconnect_max_delay c')"
    and "d = reconnect_delay (qc_reconnect_min_delay c') (qc_reconnect_max_delay c') attempt"
  shows "min_reconnect_delay \<le> d \<and> base \<le> d \<and> d \<le> base + 250000000 \<and> d \<le> qc_reconnect_max_delay c'"
proof -
  let ?mn = "qc_reconnect_min_delay c'" and ?mx = "qc_reconnect_max_delay c'"
  have mx: "min_reconnect_delay \<le> ?mn" "?mn \<le> ?mx" "?mx \<le> duration_max"
    using assms(1,2) by (auto simp: assms(3) new_qq_config_def Let_def min_reconnect_delay_def duration_max_def)
  define j where "j = unat ((ucast attempt :: u64) * 1103515245 + 12345) mod 251"
  have j: "j \<le> 250" unfolding j_def by (simp flip: less_Suc_eq_le)
  have cap: "min (min x duration_max) ?mx = min x ?mx" for x
    using mx(3) by (simp add: min_def)
  have d: "d = min (base + j * 1000000) ?mx"
    by (simp add: assms(4,5) reconnect_delay_def Let_def j_def cap)
  have "?mn \<le> ?mn * 2 ^ min (unat attempt) 10" by simp
  then have "?mn \<le> base" using mx(2) by (simp add: assms(4))
  moreover have "base \<le> ?mx" by (simp add: assms(4))
  ultimately show ?thesis using j mx(1) by (simp add: d)
qed

section \<open>Witnesses\<close>

definition demo_mapping :: dispatch_mapping where
  "demo_mapping a p =
     (if event_type_of p = lit ''MSG''
      then Inr (Some \<lparr>env_id = lit ''e'', env_adapter = a, delivery_id = None, timestamp = None,
             env_event = Event_Notice J_Null, raw = J_Null\<rparr>)
      else Inr None)"

definition demo_ready :: json where
  "demo_ready = J_Object [(lit ''op'', J_Number (lit ''0'')), (lit ''s'', J_Number (lit ''1'')),
     (lit ''t'', J_String ready_type), (lit ''d'', J_Object [(lit ''session_id'', J_String (lit ''x''))])]"

definition demo_message :: json where
  "demo_message = J_Object [(lit ''op'', J_Number (lit ''0'')), (lit ''s'', J_Number (lit ''2'')), (lit ''t'', J_String (lit ''MSG''))]"

definition demo_payload :: "json \<Rightarrow> gateway_payload" where
  "demo_payload v = the (de_gateway_payload v)"

definition demo_config :: qq_config where
  "demo_config = \<lparr>qc_adapter_id = lit ''qq'', qc_intents = 0, qc_shard = (0, 1), qc_log_message_content = False,
     qc_reconnect_min_delay = 0, qc_reconnect_max_delay = 0\<rparr>"

definition demo_handshake :: handshake where
  "demo_handshake = \<lparr>hk_gateway = Aw_Done (Inr []), hk_connected = Aw_Done None,
     hk_hello = Aw_Done (Hello_Data (Some (J_Object [(lit ''op'', J_Number (lit ''10'')),
       (lit ''d'', J_Object [(lit ''heartbeat_interval'', J_Number (lit ''1000''))])]))),
     hk_token = Inr [], hk_failed = None\<rparr>"

definition demo_parse :: "ustr \<Rightarrow> ustr + gateway_url" where
  "demo_parse u = Inr \<lparr>gu_scheme = lit ''wss'', gu_host = Some (lit ''api.qq.com''), gu_loopback_address = False\<rparr>"

type_synonym demo_sink = "json event_envelope list \<times> (json event_envelope list \<times> nat \<times> bool) sender_state"

abbreviation demo_sinks :: "nat \<times> nat \<Rightarrow> (json event_envelope, demo_sink) sink" where
  "demo_sinks \<equiv> sender_sinks (list_channel 2) (lit ''qq'')"

abbreviation demo_sent :: "demo_sink \<Rightarrow> json event_envelope list" where
  "demo_sent \<equiv> sent_events (lit ''qq'') fst"

definition demo_start :: "demo_sink qq_system" where
  "demo_start =
     \<lparr>qy_run = \<lparr>qr_session = new_session,
        qr_sink = ([], \<lparr>sq_channel = ([], 0, True), sq_observer = configure 2 [lit ''qq''] new_observer\<rparr>),
        qr_attempt = 0, qr_acknowledged = True, qr_written = []\<rparr>,
      qy_log = [], qy_cursor = None, qy_base = 0, qy_handled = {}, qy_count = 0\<rparr>"

definition demo_run :: "demo_sink qq_run" where
  "demo_run = snd (connect_authenticated demo_parse demo_config demo_handshake (qy_run demo_start))"

definition demo_connected :: "demo_sink qq_system" where
  "demo_connected = demo_start\<lparr>qy_run := demo_run\<lparr>qr_acknowledged := True\<rparr>, qy_log := [demo_payload demo_ready],
     qy_cursor := Some 0, qy_base := length (demo_sent (qr_sink demo_run))\<rparr>"

definition demo_dispatch :: "nat \<Rightarrow> json \<Rightarrow> demo_sink qq_system \<Rightarrow> demo_sink qq_system" where
  "demo_dispatch n v s =
     after_input (Suc n) (run_input demo_mapping (demo_sinks (0, 0)) (qc_adapter_id demo_config) None
       (In_Frame (Frame_Data (Some v))) (qy_run s)) s"

definition demo_sent_one :: "demo_sink qq_system" where
  "demo_sent_one =
     demo_dispatch 1 demo_message
       (demo_dispatch 0 demo_ready (demo_connected\<lparr>qy_log := [demo_payload demo_ready, demo_payload demo_message]\<rparr>))"

lemma demo_logs:
  "server_log [demo_payload demo_ready]" "server_log [demo_payload demo_ready, demo_payload demo_message]"
  "de_gateway_payload demo_ready = Some (demo_payload demo_ready)"
  "de_gateway_payload demo_message = Some (demo_payload demo_message)"
  by code_simp+

lemma demo_no_ready: "event_type_of p = ready_type \<Longrightarrow> event_for demo_mapping a p = None"
  by (simp add: event_for_def demo_mapping_def ready_type_def str_simps)

lemma demo_connected_reachable:
  "qq_reachable demo_mapping demo_parse demo_config demo_sinks demo_sent demo_connected"
proof -
  have start: "qq_reachable demo_mapping demo_parse demo_config demo_sinks demo_sent demo_start"
    by (rule qq_start) (simp_all add: demo_start_def sent_events_def)
  have con: "connect_authenticated demo_parse demo_config demo_handshake (qy_run demo_start) = (Inr (Some 1000), demo_run)"
    unfolding demo_run_def by (rule prod_eqI) (code_simp, simp)
  have out: "last (qr_written demo_run) = Out_Identify (lit ''QQBot '') 0 (0, 1)" by code_simp
  show ?thesis
    unfolding demo_connected_def
    by (rule qq_next [OF start identifies [OF _ con out demo_logs(1)]]) (simp add: demo_start_def)
qed

lemma demo_states:
  "qy_cursor (demo_dispatch 0 demo_ready (demo_connected\<lparr>qy_log := [demo_payload demo_ready, demo_payload demo_message]\<rparr>)) = Some 1"
  "qy_log (demo_dispatch n v s) = qy_log s" "qy_log demo_connected = [demo_payload demo_ready]"
  "qy_cursor demo_connected = Some 0"
  by (code_simp, simp_all add: demo_dispatch_def demo_connected_def)

lemma demo_sent_one_reachable:
  "qq_reachable demo_mapping demo_parse demo_config demo_sinks demo_sent demo_sent_one"
proof -
  let ?s = "demo_connected\<lparr>qy_log := [demo_payload demo_ready, demo_payload demo_message]\<rparr>"
  have one: "qq_reachable demo_mapping demo_parse demo_config demo_sinks demo_sent ?s"
    using qq_next [OF demo_connected_reachable appends, of "demo_payload demo_message"] demo_logs(2)
    by (simp add: demo_states)
  have two: "qq_reachable demo_mapping demo_parse demo_config demo_sinks demo_sent (demo_dispatch 0 demo_ready ?s)"
    unfolding demo_dispatch_def
    by (rule qq_next [OF one dispatches]) (simp_all add: demo_states demo_logs)
  show ?thesis
    unfolding demo_sent_one_def demo_dispatch_def [of 1]
    by (rule qq_next [OF two dispatches]) (simp_all add: demo_states demo_logs)
qed

lemma demo_results:
  "qy_count demo_sent_one = 1" "ss_last_received (qr_session (qy_run demo_sent_one)) = Some 2"
  by code_simp+

lemma qq_events_exactly_once_witness:
  "map without_id (session_events demo_sent demo_sent_one) =
     map without_id (mapped_events demo_mapping (lit ''qq'') (upto_seq 2 demo_sent_one)) \<and>
   length (session_events demo_sent demo_sent_one) = 1"
proof -
  have "qc_adapter_id demo_config = lit ''qq''" by (simp add: demo_config_def)
  then have "map without_id (session_events demo_sent demo_sent_one) =
     map without_id (mapped_events demo_mapping (lit ''qq'') (upto_seq 2 demo_sent_one))"
    using qq_events_exactly_once [OF list_channel_laws demo_sent_one_reachable demo_no_ready] demo_results by simp
  moreover have "length (session_events demo_sent demo_sent_one) = 1" by code_simp
  ultimately show ?thesis by simp
qed

definition demo_handled :: "demo_sink qq_system" where
  "demo_handled =
     (let e = hd (demo_sent (qr_sink (qy_run demo_sent_one)))
      in demo_sent_one\<lparr>qy_run := qy_run demo_sent_one\<lparr>qr_session := event_handled e (qr_session (qy_run demo_sent_one))\<rparr>,
           qy_handled := set_option (delivery_id e) \<union> qy_handled demo_sent_one\<rparr>)"

lemma demo_handled_reachable:
  "qq_reachable demo_mapping demo_parse demo_config demo_sinks demo_sent demo_handled"
proof -
  have "demo_sent (qr_sink (qy_run demo_sent_one)) \<noteq> []" by code_simp
  then show ?thesis
    unfolding demo_handled_def Let_def by (intro qq_next [OF demo_sent_one_reachable handles]) simp
qed

lemma demo_sent_one_results:
  "qr_session (qy_run demo_sent_one) =
     \<lparr>ss_session_id = Some (lit ''x''), ss_last_received = Some 2, ss_last_committed = Some 1,
      ss_pending = [\<lparr>pd_seq = 2, pd_delivery_id = Some 1, pd_completed = False\<rparr>], ss_next_delivery_id = 1\<rparr>"
  "map delivery_id (demo_sent (qr_sink (qy_run demo_sent_one))) = [Some 1]"
  by code_simp+

lemma demo_handled_results:
  "qy_count demo_handled = 1" "prepare_connection (qr_session (qy_run demo_handled)) = Some \<lparr>rs_session_id = lit ''x'', rs_seq = 2\<rparr>"
  "ss_last_received (qr_session (qy_run demo_handled)) = Some 2"
  "map delivery_id (demo_sent (qr_sink (qy_run demo_handled))) = [Some 1]" "1 \<in> qy_handled demo_handled"
proof -
  have "delivery_id (hd (demo_sent (qr_sink (qy_run demo_sent_one)))) = Some 1"
    using demo_sent_one_results(2) by (cases "demo_sent (qr_sink (qy_run demo_sent_one))") simp_all
  then show "qy_count demo_handled = 1"
      "prepare_connection (qr_session (qy_run demo_handled)) = Some \<lparr>rs_session_id = lit ''x'', rs_seq = 2\<rparr>"
      "ss_last_received (qr_session (qy_run demo_handled)) = Some 2"
      "map delivery_id (demo_sent (qr_sink (qy_run demo_handled))) = [Some 1]" "1 \<in> qy_handled demo_handled"
    by (simp_all add: demo_handled_def Let_def demo_results demo_sent_one_results event_handled_def mark_handled_def
        advance_committed_def prepare_connection_def del: lit_Cons lit_Nil)
qed

lemma qq_resume_point_handled_witness:
  "\<exists>es. prefix es (session_events demo_sent demo_handled) \<and>
    map without_id es = map without_id (mapped_events demo_mapping (qc_adapter_id demo_config) (upto_seq 2 demo_handled)) \<and>
    (\<forall>e\<in>set es. \<exists>d\<in>qy_handled demo_handled. delivery_id e = Some d)"
proof -
  have "Suc (qy_count demo_handled) < 2 ^ 64" by (simp add: demo_handled_results(1))
  from qq_resume_point_handled [OF list_channel_laws demo_handled_reachable demo_no_ready this demo_handled_results(2)]
  show ?thesis by (simp only: resume_state.select_convs)
qed

lemma qq_all_handled_committed_witness:
  "ss_pending (qr_session (qy_run demo_handled)) = [] \<and> ss_last_received (qr_session (qy_run demo_handled)) = Some 2"
proof -
  have "d \<in> qy_handled demo_handled"
    if "e \<in> set (demo_sent (qr_sink (qy_run demo_handled)))" "delivery_id e = Some d" for e d
  proof -
    have "Some d \<in> set (map delivery_id (demo_sent (qr_sink (qy_run demo_handled))))" using that by force
    then show ?thesis unfolding demo_handled_results(4) using demo_handled_results(5) by simp
  qed
  then show ?thesis
    using qq_all_handled_committed [OF list_channel_laws demo_handled_reachable demo_no_ready] demo_handled_results(1,3)
    by simp
qed

definition demo_blocked :: "demo_sink qq_system" where
  "demo_blocked =
     demo_sent_one\<lparr>qy_run := qy_run demo_sent_one\<lparr>qr_session := (qr_session (qy_run demo_sent_one))
       \<lparr>ss_pending := replicate 1024 \<lparr>pd_seq = 2, pd_delivery_id = Some 9, pd_completed = False\<rparr>\<rparr>\<rparr>\<rparr>"

lemma failed_event_blocks_gateway_witness:
  "\<exists>s'. qq_step demo_mapping demo_parse demo_config demo_sinks demo_sent demo_blocked s' \<and>
     qy_handled s' = {1} \<and> blocked 9 (qr_session (qy_run s')) \<and>
     demo_sent (qr_sink (qy_run s')) = demo_sent (qr_sink (qy_run demo_blocked))"
proof -
  define e where "e = hd (demo_sent (qr_sink (qy_run demo_blocked)))"
  define s' where "s' = demo_blocked\<lparr>qy_run := qy_run demo_blocked\<lparr>qr_session := event_handled e (qr_session (qy_run demo_blocked))\<rparr>,
    qy_handled := set_option (delivery_id e) \<union> qy_handled demo_blocked\<rparr>"
  have es: "map delivery_id (demo_sent (qr_sink (qy_run demo_sent_one))) = [Some 1]" "qy_handled demo_sent_one = {}" by code_simp+
  then have e: "e \<in> set (demo_sent (qr_sink (qy_run demo_blocked)))" "delivery_id e = Some 1" "qy_handled s' = {1}"
    by (auto simp: e_def s'_def demo_blocked_def)
  have step: "qq_step demo_mapping demo_parse demo_config demo_sinks demo_sent demo_blocked s'"
    unfolding s'_def by (rule handles, rule e(1))
  have start: "blocked 9 (qr_session (qy_run demo_blocked))"
    by (simp add: blocked_def demo_blocked_def max_pending_dispatches_def) (simp add: numeral_eq_Suc)
  have log: "server_log (qy_log demo_blocked)"
    using demo_logs(2) by (simp add: demo_blocked_def demo_sent_one_def demo_states)
  have keeps: "qr_session (qy_run s') \<noteq> clear_session (qr_session (qy_run demo_blocked))"
    using blocked_handled [OF start, of e] e(2) by (auto simp: s'_def blocked_def clear_session_def new_session_def)
  have sink: "event_sink demo_sinks demo_sent"
    using sender_event_sink [OF list_channel_laws] by (simp add: sender_sinks_def)
  have "(\<lambda>s s'. qq_step demo_mapping demo_parse demo_config demo_sinks demo_sent s s' \<and> 9 \<notin> qy_handled s' \<and>
      qr_session (qy_run s') \<noteq> clear_session (qr_session (qy_run s)))\<^sup>*\<^sup>* demo_blocked s'"
    by (rule r_into_rtranclp) (use step e(3) keeps in simp)
  from failed_event_blocks_gateway [OF sink this start] show ?thesis
    using step e(3) log by blast
qed

lemma reconnect_delay_bounds_witness:
  "min_reconnect_delay \<le> reconnect_delay 1000000000 30000000000 3 \<and>
   reconnect_delay 1000000000 30000000000 3 \<le> 8000000000 + 250000000"
proof -
  let ?c = "demo_config\<lparr>qc_reconnect_min_delay := 1000000000, qc_reconnect_max_delay := 30000000000\<rparr>"
  have c: "new_qq_config ?c = ?c" by (simp add: new_qq_config_def Let_def min_reconnect_delay_def)
  show ?thesis
    using reconnect_delay_bounds [of ?c ?c "8000000000" 3 "reconnect_delay 1000000000 30000000000 3"] c
    by (simp add: duration_max_def)
qed

end
