(* ===== verification/QqWebhookProps.thy ===== *)
theory QqWebhookProps
  imports QqWebhook QqResumeProps
begin

text \<open>
  The callbacks of the QQ adapter in flight at once, as a step system over the stages of \<open>QqWebhook\<close>: which events are
  handed to the runtime, what the answers mean, when an event can be handed over twice, and what it takes to be
  heard at all.
\<close>

section \<open>The table of seen events\<close>

text \<open>
  Between two awaits every record is accepted and stands for an event that was handed over, and an event that was
  handed over has its record until a callback reads a clock behind its expiry. \<open>H\<close> are the identifiers and
  expiries of what was handed over, \<open>l\<close> the latest reading of the clock.
\<close>

definition seen_inv :: "nat \<Rightarrow> (ustr \<times> nat) set \<Rightarrow> seen_events \<Rightarrow> bool" where
  "seen_inv l H m \<longleftrightarrow>
     hm_wf m \<and> hm_len m \<le> max_seen_events \<and>
     (\<forall>x r. hm_get m x = Some r \<longrightarrow> sr_state r = Seen_Accepted \<and> (x, sr_expires_at r) \<in> H) \<and>
     (\<forall>x ex. (x, ex) \<in> H \<longrightarrow> l \<le> ex \<longrightarrow> hm_get m x = Some \<lparr>sr_state = Seen_Accepted, sr_expires_at = ex\<rparr>)"

lemma seen_inv_later: "seen_inv l H m \<Longrightarrow> l \<le> l' \<Longrightarrow> seen_inv l' H m"
  unfolding seen_inv_def by (meson order_trans)

lemma seen_inv_start: "seen_inv l {} []"
  by (simp add: seen_inv_def hm_simps max_seen_events_def)

lemma seen_inv_del:
  assumes "seen_inv l H m" "hm_get m x = Some r" "sr_expires_at r < now" "now \<le> l"
  shows "seen_inv l H (hm_del x m)"
proof -
  have m: "hm_wf m" using assms(1) by (simp add: seen_inv_def)
  have "(y, ex) \<in> H \<Longrightarrow> l \<le> ex \<Longrightarrow> y \<noteq> x" for y ex
    using assms unfolding seen_inv_def by fastforce
  then show ?thesis
    using assms(1) hm.len_del_le [OF m, of x] m unfolding seen_inv_def by (auto simp: hm_simps)
qed

lemma retain_get:
  assumes "hm_wf m"
  shows "hm_get (seen_retain now m) x =
    (case hm_get m x of Some r \<Rightarrow> if now \<le> sr_expires_at r then Some r else None | None \<Rightarrow> None)"
  using assms unfolding hm_wf_def hm_get_def seen_retain_def
  by (induction m) (auto simp: map_of_eq_None_iff image_iff split: option.splits)

lemma retain_wf: "hm_wf m \<Longrightarrow> hm_wf (seen_retain now m)" "hm_len (seen_retain now m) \<le> hm_len m"
  by (auto simp: hm_wf_def hm_len_def seen_retain_def distinct_map_filter)

lemma seen_inv_retain:
  assumes "seen_inv l H m" "now \<le> l"
  shows "seen_inv l H (seen_retain now m)"
proof -
  have m: "hm_wf m" using assms(1) by (simp add: seen_inv_def)
  show ?thesis
    using assms retain_wf(1) [OF m, of now] retain_wf(2) [of now m] unfolding seen_inv_def retain_get [OF m]
    by (auto split: option.splits if_splits)
qed

lemma lookup_inv:
  assumes "seen_inv l H m" "now \<le> l" "seen_lookup x now m = (r, m')"
  shows "seen_inv l H m' \<and> (r = None \<or> r = Some Rv_Accepted \<and> (\<exists>ex. (x, ex) \<in> H))"
proof (cases "hm_get m x")
  case None
  then show ?thesis using assms by (simp add: seen_lookup_def)
next
  case (Some rec)
  then have acc: "sr_state rec = Seen_Accepted" "(x, sr_expires_at rec) \<in> H"
    using assms(1) by (auto simp: seen_inv_def)
  then show ?thesis
    using assms Some seen_inv_del [OF assms(1) Some _ assms(2)] by (auto simp: seen_lookup_def split: if_splits)
qed

lemma insert_inv:
  assumes "seen_inv l H m" "now \<le> l" "hm_get m x = None" "seen_insert x ex now m = (r, m')"
  shows "r = Rv_Saturated \<and> seen_inv l H m' \<and> hm_get m' x = None \<or>
    r = Rv_New \<and> (\<exists>m0. seen_inv l H m0 \<and> hm_get m0 x = None \<and> hm_len m0 < max_seen_events \<and>
      m' = hm_put x \<lparr>sr_state = Seen_Pending, sr_expires_at = ex\<rparr> m0)"
proof -
  define m1 where "m1 = (if max_seen_events \<le> hm_len m then seen_retain now m else m)"
  have m: "hm_wf m" using assms(1) by (simp add: seen_inv_def)
  have "seen_inv l H m1" "hm_get m1 x = None"
    using assms(1,3) seen_inv_retain [OF assms(1,2)] by (simp_all add: m1_def retain_get [OF m])
  then show ?thesis
    using assms(4) by (auto simp: seen_insert_def m1_def [symmetric] Let_def split: if_splits)
qed

text \<open>What a reservation finds: the event was handed over, the table is full, or the event is new.\<close>

lemma reserve_inv:
  assumes "seen_inv l H m" "now \<le> l" "seen_reserve x ex now m = (r, m')"
  shows "r = Rv_Accepted \<and> seen_inv l H m' \<and> (\<exists>ex. (x, ex) \<in> H) \<or>
    r = Rv_Saturated \<and> seen_inv l H m' \<and> hm_get m' x = None \<or>
    r = Rv_New \<and> (\<exists>m0. seen_inv l H m0 \<and> hm_get m0 x = None \<and> hm_len m0 < max_seen_events \<and>
      m' = hm_put x \<lparr>sr_state = Seen_Pending, sr_expires_at = ex\<rparr> m0)"
proof (cases "hm_get m x")
  case None
  then show ?thesis using insert_inv [OF assms(1,2) None] assms(3) by (auto simp: seen_reserve_def)
next
  case (Some rec)
  then have acc: "sr_state rec = Seen_Accepted" "(x, sr_expires_at rec) \<in> H" and m: "hm_wf m"
    using assms(1) by (auto simp: seen_inv_def)
  show ?thesis
  proof (cases "now \<le> sr_expires_at rec")
    case True
    then show ?thesis using assms(1,3) acc Some by (auto simp: seen_reserve_def)
  next
    case False
    then have del: "seen_inv l H (hm_del x m)" using seen_inv_del [OF assms(1) Some _ assms(2)] by simp
    have gone: "hm_get (hm_del x m) x = None" using m by (simp add: hm_simps)
    have "seen_insert x ex now (hm_del x m) = (r, m')"
      using assms(3) Some False by (simp add: seen_reserve_def)
    then show ?thesis using insert_inv [OF del assms(2) gone] by auto
  qed
qed

lemma new_not_handed: "seen_inv l H m \<Longrightarrow> hm_get m x = None \<Longrightarrow> (x, ex) \<in> H \<Longrightarrow> ex < l"
  unfolding seen_inv_def by (metis not_less option.distinct(1))

lemma handed_inv:
  assumes "seen_inv l H m" "hm_get m x = None" "hm_len m < max_seen_events"
  shows "seen_inv l (insert (x, ex) H) (seen_accept x (hm_put x \<lparr>sr_state = Seen_Pending, sr_expires_at = ex\<rparr> m))"
proof -
  have m: "hm_wf m" using assms(1) by (simp add: seen_inv_def)
  have put: "hm_wf (hm_put x r m)" "hm_len (hm_put x r m) = Suc (hm_len m)" for r
    using m assms(2) by (simp_all add: hm_simps hm.len_put_new)
  have "hm_len (hm_put x r' (hm_put x r m)) = Suc (hm_len m)" for r r'
    using hm.len_put_old [where m = "hm_put x r m" and k = x and v = r' and w = r] put m by (simp add: hm_simps)
  then show ?thesis
    using assms m put new_not_handed [OF assms(1,2)] unfolding seen_inv_def seen_accept_def
    by (auto simp: hm_simps)
qed

lemma refused_inv:
  assumes "seen_inv l H m" "hm_get m x = None"
  shows "seen_inv l H (seen_release x (hm_put x \<lparr>sr_state = Seen_Pending, sr_expires_at = ex\<rparr> m))"
    "hm_get (seen_release x (hm_put x \<lparr>sr_state = Seen_Pending, sr_expires_at = ex\<rparr> m)) x = None"
proof -
  have m: "hm_wf m" using assms(1) by (simp add: seen_inv_def)
  let ?m = "hm_del x (hm_put x \<lparr>sr_state = Seen_Pending, sr_expires_at = ex\<rparr> m)"
  have rel: "seen_release x (hm_put x \<lparr>sr_state = Seen_Pending, sr_expires_at = ex\<rparr> m) = ?m"
    using m by (simp add: seen_release_def hm_simps)
  have get: "hm_get ?m = hm_get m" using m assms(2) by (auto simp: hm_simps)
  have "hm_len ?m = hm_len m"
    using m get by (simp add: hm.len_card hm_simps)
  then show "seen_inv l H (seen_release x (hm_put x \<lparr>sr_state = Seen_Pending, sr_expires_at = ex\<rparr> m))"
    "hm_get (seen_release x (hm_put x \<lparr>sr_state = Seen_Pending, sr_expires_at = ex\<rparr> m)) x = None"
    using assms m unfolding rel seen_inv_def get by (simp_all add: hm_simps)
qed

section \<open>Callbacks in flight\<close>

text \<open>
  The state, the dispatches in flight with the generation of their router, what was handed over (event, identifier
  and expiry, in order), and the latest reading of the clock that a dispatch has used.
\<close>

record 'w wh_system =
  wy_state :: "'w webhook"
  wy_open :: "(u64 \<times> wh_stage) list"
  wy_handed :: "(json event_envelope \<times> ustr \<times> nat) list"
  wy_latest :: nat

fun stage_now :: "wh_stage \<Rightarrow> nat" where
  "stage_now (St_Lookup p x now stamp) = now"
| "stage_now (St_Lookup_Mapped e x now stamp) = now"
| "stage_now (St_Admit e x now stamp) = now"
| "stage_now (St_Done r) = 0"

fun handed_by :: "webhook_shared \<Rightarrow> wh_stage \<Rightarrow> (json event_envelope \<times> ustr \<times> nat) list" where
  "handed_by ws (St_Admit e x now stamp) = [(e, x, expiry ws now stamp)]"
| "handed_by ws _ = []"

definition after_stage ::
    "('w \<Rightarrow> json event_envelope list) \<Rightarrow> webhook_shared \<Rightarrow> wh_stage \<Rightarrow> 'w webhook \<Rightarrow> (u64 \<times> wh_stage) list \<Rightarrow>
     'w wh_system \<Rightarrow> 'w wh_system" where
  "after_stage sent ws st u os s =
     s\<lparr>wy_state := u, wy_open := os, wy_latest := max (wy_latest s) (stage_now st),
       wy_handed := wy_handed s @ (if sent (wh_sink u) = sent (wh_sink (wy_state s)) then [] else handed_by ws st)\<rparr>"

inductive wh_step ::
    "webhook_libs \<Rightarrow> webhook_shared \<Rightarrow> ('t \<Rightarrow> (json event_envelope, 'w) sink) \<Rightarrow> ('w \<Rightarrow> json event_envelope list) \<Rightarrow>
     'w wh_system \<Rightarrow> 'w wh_system \<Rightarrow> bool" for L ws K sent where
  arrives: "wh_step L ws K sent s
    (s\<lparr>wy_open := wy_open s @ [(g, handle_callback L ws hs body clock clock')]\<rparr>)"
| proceeds: "\<lbrakk>wy_open s = xs @ (g, st) # ys; dispatch_stage L ws (K t) g st (wy_state s) = (st', u)\<rbrakk> \<Longrightarrow>
    wh_step L ws K sent s (after_stage sent ws st u (xs @ (g, st') # ys) s)"
| leaves: "wy_open s = xs @ (g, st) # ys \<Longrightarrow> wh_step L ws K sent s (s\<lparr>wy_open := xs @ ys\<rparr>)"
| run_begins: "wh_step L ws K sent s (s\<lparr>wy_state := snd (begin_run (wy_state s))\<rparr>)"
| run_binds: "wh_step L ws K sent s (s\<lparr>wy_state := snd (bind_run (K t) g bound (wy_state s))\<rparr>)"
| run_ends: "wh_step L ws K sent s (s\<lparr>wy_state := end_run (K t) g (wy_state s)\<rparr>)"
| others: "sent w = sent (wh_sink (wy_state s)) \<Longrightarrow>
    wh_step L ws K sent s (s\<lparr>wy_state := wy_state s\<lparr>wh_sink := w\<rparr>\<rparr>)"

inductive wh_reachable ::
    "webhook_libs \<Rightarrow> webhook_shared \<Rightarrow> ('t \<Rightarrow> (json event_envelope, 'w) sink) \<Rightarrow> ('w \<Rightarrow> json event_envelope list) \<Rightarrow>
     'w wh_system \<Rightarrow> bool" for L ws K sent where
  wh_start: "\<lbrakk>wh_seen (wy_state s) = []; sent (wh_sink (wy_state s)) = []; wy_open s = []; wy_handed s = []\<rbrakk> \<Longrightarrow>
    wh_reachable L ws K sent s"
| wh_next: "wh_reachable L ws K sent s \<Longrightarrow> wh_step L ws K sent s s' \<Longrightarrow> wh_reachable L ws K sent s'"

definition handed_ids :: "'w wh_system \<Rightarrow> (ustr \<times> nat) set" where
  "handed_ids s = snd ` set (wy_handed s)"

text \<open>Two events with the same identifier are handed over only when the clock was read behind the first expiry.\<close>

definition once_in_window :: "nat \<Rightarrow> (json event_envelope \<times> ustr \<times> nat) list \<Rightarrow> bool" where
  "once_in_window l hs \<longleftrightarrow>
     sorted_wrt (\<lambda>a b. fst (snd a) = fst (snd b) \<longrightarrow> snd (snd a) < l) hs"

definition wh_inv :: "('w \<Rightarrow> json event_envelope list) \<Rightarrow> 'w wh_system \<Rightarrow> bool" where
  "wh_inv sent s \<longleftrightarrow>
     seen_inv (wy_latest s) (handed_ids s) (wh_seen (wy_state s)) \<and>
     map fst (wy_handed s) = sent (wh_sink (wy_state s)) \<and>
     once_in_window (wy_latest s) (wy_handed s)"

lemma once_in_window_later: "once_in_window l hs \<Longrightarrow> l \<le> l' \<Longrightarrow> once_in_window l' hs"
  unfolding once_in_window_def by (erule sorted_wrt_mono_rel [rotated]) auto

context event_sink
begin

text \<open>An admission: answered as a duplicate, handed over, or refused without a trace.\<close>

lemma admit_outcome:
  assumes inv: "seen_inv l H (wh_seen s)" and l: "now \<le> l"
    and adm: "admit_event ws (K t) g e x now stamp s = (r, s')"
  shows "r = Rs_Ack 0 \<and> (\<exists>ex. (x, ex) \<in> H) \<and> sent (wh_sink s') = sent (wh_sink s) \<and> seen_inv l H (wh_seen s') \<or>
    r = Rs_Ack 0 \<and> (\<forall>ex. (x, ex) \<in> H \<longrightarrow> ex < l) \<and> sent (wh_sink s') = sent (wh_sink s) @ [e] \<and>
      seen_inv l (insert (x, expiry ws now stamp) H) (wh_seen s') \<or>
    (\<exists>c m. r = Rs_Error c m) \<and> sent (wh_sink s') = sent (wh_sink s) \<and> seen_inv l H (wh_seen s') \<and>
      hm_get (wh_seen s') x = None"
proof -
  obtain v m where v: "seen_reserve x (expiry ws now stamp) now (wh_seen s) = (v, m)" by (metis surj_pair)
  consider (dup) "v = Rv_Accepted" "seen_inv l H m" "\<exists>ex. (x, ex) \<in> H"
    | (full) "v = Rv_Saturated" "seen_inv l H m" "hm_get m x = None"
    | (new) m0 where "v = Rv_New" "seen_inv l H m0" "hm_get m0 x = None" "hm_len m0 < max_seen_events"
        "m = hm_put x \<lparr>sr_state = Seen_Pending, sr_expires_at = expiry ws now stamp\<rparr> m0"
    using reserve_inv [OF inv l v] by (elim disjE conjE exE) auto
  then show ?thesis
  proof cases
    case dup
    then show ?thesis using adm by (auto simp: admit_event_def v)
  next
    case full
    then show ?thesis using adm by (auto simp: admit_event_def v)
  next
    case new
    have hand: "hand_over (K t) g e x (s\<lparr>wh_seen := m\<rparr>) = (r, s')" using adm by (simp add: admit_event_def v new(1))
    note rel = refused_inv [OF new(2,3), of "expiry ws now stamp", folded new(5)]
    note acc = handed_inv [OF new(2-4), of "expiry ws now stamp", folded new(5)]
    have fresh: "\<forall>ex. (x, ex) \<in> H \<longrightarrow> ex < l" using new_not_handed [OF new(2,3)] by blast
    show ?thesis
    proof (cases "\<exists>a. wh_active s = Some a \<and> ar_generation a = g")
      case False
      then show ?thesis using hand rel by (auto simp: hand_over_def split: option.splits if_splits)
    next
      case True
      then obtain a where a: "wh_active s = Some a" "ar_generation a = g" by blast
      obtain res w where res: "sk_try_send (K t) e (wh_sink s) = (res, w)" by (metis surj_pair)
      show ?thesis
      proof (cases res)
        case (Inl err)
        then show ?thesis
          using hand a rel res refuses [of t e "wh_sink s" err w] by (cases err) (auto simp: hand_over_def)
      next
        case (Inr u)
        then show ?thesis
          using hand a acc res fresh sends [of t e "wh_sink s" u w] by (auto simp: hand_over_def)
      qed
    qed
  qed
qed

lemma stage_inv:
  assumes inv: "wh_inv sent s" and st: "dispatch_stage L ws (K t) g st (wy_state s) = (st', u)"
  shows "wh_inv sent (after_stage sent ws st u os s)"
proof -
  let ?l = "max (wy_latest s) (stage_now st)"
  have seen: "seen_inv ?l (handed_ids s) (wh_seen (wy_state s))" and once: "once_in_window ?l (wy_handed s)"
    and handed: "map fst (wy_handed s) = sent (wh_sink (wy_state s))"
    using inv seen_inv_later once_in_window_later unfolding wh_inv_def by (meson max.cobounded1)+
  have look: "wh_inv sent (after_stage sent ws st u os s)"
    if "seen_lookup x (stage_now st) (wh_seen (wy_state s)) = (r, m)" "u = wy_state s\<lparr>wh_seen := m\<rparr>" for x r m
    using lookup_inv [OF seen _ that(1)] that(2) once handed
    by (simp add: wh_inv_def after_stage_def handed_ids_def)
  show ?thesis
  proof (cases st)
    case (St_Lookup p x now stamp)
    then show ?thesis using st look [of x] by (auto split: prod.splits)
  next
    case (St_Lookup_Mapped e x now stamp)
    then show ?thesis using st look [of x] by (auto split: prod.splits)
  next
    case (St_Admit e x now stamp)
    then obtain r where r: "admit_event ws (K t) g e x now stamp (wy_state s) = (r, u)"
      using st by (auto split: prod.splits)
    have "now \<le> ?l" by (simp add: St_Admit)
    from admit_outcome [OF seen this r] show ?thesis
    proof (elim disjE conjE exE)
      assume new: "\<forall>ex. (x, ex) \<in> handed_ids s \<longrightarrow> ex < ?l" "sent (wh_sink u) = sent (wh_sink (wy_state s)) @ [e]"
        "seen_inv ?l (insert (x, expiry ws now stamp) (handed_ids s)) (wh_seen u)"
      have "once_in_window ?l (wy_handed s @ [(e, x, expiry ws now stamp)])"
        using once new(1) unfolding once_in_window_def handed_ids_def by (force simp: sorted_wrt_append)
      then show ?thesis
        using new handed by (simp add: wh_inv_def after_stage_def handed_ids_def St_Admit)
    qed (use once handed in \<open>simp_all add: wh_inv_def after_stage_def handed_ids_def\<close>)
  next
    case (St_Done r)
    then show ?thesis using st seen once handed by (simp add: wh_inv_def after_stage_def handed_ids_def)
  qed
qed

lemma end_run_keeps:
  "wh_seen (end_run (K t) g s) = wh_seen s" "sent (wh_sink (end_run (K t) g s)) = sent (wh_sink s)"
  by (auto simp: end_run_def Let_def marks split: option.split)

lemma wh_step_inv:
  assumes "wh_inv sent s" "wh_step L ws K sent s s'"
  shows "wh_inv sent s'"
  using assms(2)
proof cases
  case (proceeds xs g st ys t st' u)
  then show ?thesis using stage_inv [OF assms(1) proceeds(3)] by simp
next
  case run_begins
  then show ?thesis
    using assms(1) by (auto simp: wh_inv_def begin_run_def handed_ids_def Let_def)
next
  case (run_binds t g bound)
  then show ?thesis
    using assms(1) end_run_keeps [of t g "wy_state s"]
    by (auto simp: wh_inv_def bind_run_def handed_ids_def marks split: sum.split)
next
  case (run_ends t g)
  then show ?thesis using assms(1) end_run_keeps [of t g "wy_state s"] by (simp add: wh_inv_def handed_ids_def)
qed (use assms(1) in \<open>auto simp: wh_inv_def handed_ids_def\<close>)

lemma wh_reachable_inv: "wh_reachable L ws K sent s \<Longrightarrow> wh_inv sent s"
proof (induction rule: wh_reachable.induct)
  case (wh_start s)
  then show ?case by (simp add: wh_inv_def handed_ids_def seen_inv_start once_in_window_def)
next
  case (wh_next s s')
  then show ?case using wh_step_inv by blast
qed

end

section \<open>What the answers mean\<close>

fun stage_event :: "webhook_libs \<Rightarrow> webhook_shared \<Rightarrow> wh_stage \<Rightarrow> (json event_envelope \<times> ustr) option" where
  "stage_event L ws (St_Lookup p x now stamp) =
     (case wl_mapping L (ws_adapter_id ws) p of Inr (Some e) \<Rightarrow> Some (e, x) | _ \<Rightarrow> None)"
| "stage_event L ws (St_Lookup_Mapped e x now stamp) = Some (e, x)"
| "stage_event L ws (St_Admit e x now stamp) = Some (e, x)"
| "stage_event L ws (St_Done r) = None"

lemma sender_sinks_event_sink:
  "channel_laws ch items permits \<Longrightarrow> event_sink (sender_sinks ch a) (sent_events a items)"
  using sender_event_sink [of ch items permits a] by (simp add: sender_sinks_def)

lemma mapped_stage_ack:
  "stage_event L ws (St_Lookup p x now stamp) = Some ex \<Longrightarrow> mapped_stage L ws p (Some x) now stamp \<noteq> St_Done (Rs_Ack n)"
  by (auto simp: mapped_stage_def bad_event_id_def Let_def split: sum.splits option.splits)



text \<open>The table holds at most 4096 records, none of them pending between two awaits.\<close>

theorem webhook_table_bounded:
  assumes "channel_laws ch items permits"
    and "wh_reachable L ws (sender_sinks ch a) (sent_events a items) s"
  shows "hm_len (wh_seen (wy_state s)) \<le> max_seen_events \<and>
    (\<forall>x r. hm_get (wh_seen (wy_state s)) x = Some r \<longrightarrow> sr_state r = Seen_Accepted)"
  using event_sink.wh_reachable_inv [OF sender_sinks_event_sink [OF assms(1)] assms(2)]
  by (auto simp: wh_inv_def seen_inv_def)

lemma expiry_covers_window:
  "stamp + ws_tolerance ws < 2 ^ 64 \<Longrightarrow> stamp + ws_tolerance ws \<le> expiry ws now stamp"
  by (simp add: expiry_def)

section \<open>Who is heard\<close>

text \<open>[C23] A callback is answered with the status 401 or 413, or it carries the application identifier and a timestamp
  that differs from the clock by no more than the tolerance, both exactly once, and a valid signature of the
  timestamp and the whole body.\<close>

theorem callback_authentic:
  "(\<exists>m. handle_callback L ws hs body clock clock' = St_Done (Rs_Error 401 m)) \<or>
   handle_callback L ws hs body clock clock' = St_Done (Rs_Error 413 ''request body is too large'') \<or>
   (\<exists>b now t stamp enc sig. body = Some b \<and> length b \<le> ws_max_body_bytes ws \<and> clock = Some now \<and>
      header_text hs ''x-bot-appid'' = Inr (ws_app_id ws) \<and>
      header_text hs ''x-signature-timestamp'' = Inr t \<and> parse_u64 t = Some stamp \<and>
      now \<le> stamp + ws_tolerance ws \<and> stamp \<le> now + ws_tolerance ws \<and>
      header_text hs ''x-signature-ed25519'' = Inr enc \<and> decode_signature enc = Inr sig \<and> 
      wl_verify_strict L (ws_seed ws) (text_bytes t @ b) sig)"
proof (cases body)
  case (Some b)
  show ?thesis
  proof (cases "ws_max_body_bytes ws < length b")
    case False
    show ?thesis
    proof (cases "authenticate L ws hs b clock")
      case (Inr stamp)
      have near: "\<not> ws_tolerance ws < abs_diff n m \<Longrightarrow> n \<le> m + ws_tolerance ws \<and> m \<le> n + ws_tolerance ws" for n m
        by (auto simp: abs_diff_def)
      show ?thesis
        using Inr False Some near
        by (auto simp: authenticate_def split: sum.splits if_splits option.splits)
    qed (use Some False in \<open>simp add: handle_callback_def\<close>)
  qed (use Some in \<open>simp add: handle_callback_def\<close>)
qed (simp add: handle_callback_def)

section \<open>The end of the window\<close>

text \<open>The second reading of the clock changes only the time that a dispatch goes on with.\<close>

lemma dispatch_begin_clock:
  "dispatch_begin L ws p stamp (Some now) = St_Lookup q x now' stamp' \<Longrightarrow>
    now' = now \<and> stamp' = stamp \<and> \<not> invalid_event_id x \<and> dispatch_begin L ws p stamp (Some n) = St_Lookup q x n stamp"
  by (auto simp: dispatch_begin_def mapped_stage_def Let_def split: option.splits if_splits sum.splits)

lemma handle_callback_clock:
  "handle_callback L ws hs body clock (Some now) = St_Lookup q x now' stamp \<Longrightarrow>
    now' = now \<and> \<not> invalid_event_id x \<and> handle_callback L ws hs body clock (Some n) = St_Lookup q x n stamp"
  by (auto simp: handle_callback_def split: option.splits if_splits sum.splits dest: dispatch_begin_clock)

lemma reserve_expired:
  assumes "hm_wf m" "hm_len m \<le> max_seen_events" "hm_get m x = Some r" "sr_expires_at r < now"
  shows "seen_lookup x now m = (None, hm_del x m)"
    "seen_reserve x ex now (hm_del x m) = (Rv_New, hm_put x \<lparr>sr_state = Seen_Pending, sr_expires_at = ex\<rparr> (hm_del x m))"
  using assms hm.len_del_present [OF assms(1,3)]
  by (simp_all add: seen_lookup_def seen_reserve_def seen_insert_def hm_simps Let_def)

text \<open>[C40] The same signed callback can be handed over twice: the signature is checked at one reading of the clock, the
  table of seen events is asked with a second one. In the last second of its window a replay is a duplicate, but when the
  second ends between the two readings the record counts as expired, while the signature was still good.\<close>

theorem replay_at_window_end:
  assumes heard: "handle_callback L ws hs body (Some last_second) (Some last_second) = St_Lookup p x last_second stamp"
    and window: "last_second = stamp + ws_tolerance ws"
    and event: "wl_mapping L (ws_adapter_id ws) p = Inr (Some e)"
    and table: "hm_wf (wh_seen s)" "hm_len (wh_seen s) \<le> max_seen_events"
    and seen: "hm_get (wh_seen s) x = Some \<lparr>sr_state = Seen_Accepted, sr_expires_at = last_second\<rparr>"
    and run: "wh_active s = Some r" "sk_try_send K e (wh_sink s) = (Inr u, w)"
  shows "dispatch_stage L ws K (ar_generation r) (St_Lookup p x last_second stamp) s = (St_Done (Rs_Ack 0), s) \<and>
    handle_callback L ws hs body (Some last_second) (Some (Suc last_second)) = St_Lookup p x (Suc last_second) stamp \<and>
    (let (st1, s1) = dispatch_stage L ws K (ar_generation r) (St_Lookup p x (Suc last_second) stamp) s;
         (st2, s2) = dispatch_stage L ws K (ar_generation r) st1 s1
     in st2 = St_Done (Rs_Ack 0) \<and> wh_sink s2 = w)"
proof (intro conjI)
  show "dispatch_stage L ws K (ar_generation r) (St_Lookup p x last_second stamp) s = (St_Done (Rs_Ack 0), s)"
    by (simp add: seen_lookup_def seen duplicate_answer_def)
  show "handle_callback L ws hs body (Some last_second) (Some (Suc last_second)) = St_Lookup p x (Suc last_second) stamp"
    using handle_callback_clock [OF heard] by blast
  have valid: "\<not> invalid_event_id x" using handle_callback_clock [OF heard] by blast
  note exp = reserve_expired [OF table seen, of "Suc last_second", simplified]
  show "let (st1, s1) = dispatch_stage L ws K (ar_generation r) (St_Lookup p x (Suc last_second) stamp) s;
         (st2, s2) = dispatch_stage L ws K (ar_generation r) st1 s1
     in st2 = St_Done (Rs_Ack 0) \<and> wh_sink s2 = w"
    using valid run by (simp add: exp duplicate_answer_def mapped_stage_def event admit_event_def hand_over_def)
qed

section \<open>Witnesses\<close>

definition demo_libs :: webhook_libs where
  "demo_libs =
     \<lparr>wl_verify_strict = (\<lambda>k m s. m = text_bytes (lit ''1000'')), wl_sign = (\<lambda>k m. []), wl_json = (\<lambda>b. Some
        (J_Object [(lit ''id'', J_String (lit ''i'')), (lit ''op'', J_Number (lit ''0'')), (lit ''t'', J_String (lit ''MSG''))])),
      wl_mapping = demo_mapping\<rparr>"

definition demo_shared :: webhook_shared where
  "demo_shared = \<lparr>ws_adapter_id = lit ''qq'', ws_app_id = lit ''a'', ws_seed = [], ws_tolerance = 300, ws_timeout = 10,
     ws_max_body_bytes = 100\<rparr>"

definition demo_headers :: headers where
  "demo_headers = [(''x-bot-appid'', text_bytes (lit ''a'')), (''x-signature-timestamp'', text_bytes (lit ''1000'')),
     (''x-signature-ed25519'', replicate 128 48)]"

definition demo_callback :: "nat \<Rightarrow> nat \<Rightarrow> wh_stage" where
  "demo_callback t t' = handle_callback demo_libs demo_shared demo_headers (Some []) (Some t) (Some t')"

definition demo_open :: "demo_sink wh_system" where
  "demo_open =
     \<lparr>wy_state = snd (begin_run \<lparr>wh_seen = [], wh_next_generation = 0, wh_active = None,
        wh_sink = qr_sink (qy_run demo_start), wh_terminal_errors = []\<rparr>),
      wy_open = [], wy_handed = [], wy_latest = 0\<rparr>"

text \<open>A callback arrives and goes through its stages, alone.\<close>

definition demo_arrival :: "nat \<Rightarrow> nat \<Rightarrow> demo_sink wh_system \<Rightarrow> demo_sink wh_system" where
  "demo_arrival t t' s = s\<lparr>wy_open := wy_open s @ [(1, demo_callback t t')]\<rparr>"

definition demo_next :: "demo_sink wh_system \<Rightarrow> demo_sink wh_system" where
  "demo_next s =
     (let st = snd (hd (wy_open s)); r = dispatch_stage demo_libs demo_shared (demo_sinks (0, 0)) 1 st (wy_state s)
      in after_stage demo_sent demo_shared st (snd r) [(1, fst r)] s)"

definition demo_done :: "demo_sink wh_system \<Rightarrow> demo_sink wh_system" where
  "demo_done s = s\<lparr>wy_open := []\<rparr>"

abbreviation demo_wh_reachable :: "demo_sink wh_system \<Rightarrow> bool" where
  "demo_wh_reachable \<equiv> wh_reachable demo_libs demo_shared demo_sinks demo_sent"

lemma demo_open_reachable: "demo_wh_reachable demo_open"
  by (rule wh_start) (simp_all add: demo_open_def begin_run_def demo_start_def sent_events_def)

lemma demo_arrival_reachable: "demo_wh_reachable s \<Longrightarrow> demo_wh_reachable (demo_arrival t t' s)"
  unfolding demo_arrival_def demo_callback_def by (rule wh_next [OF _ wh_step.arrives])

lemma demo_next_reachable:
  assumes "demo_wh_reachable s" "wy_open s = [(1, st)]"
  shows "demo_wh_reachable (demo_next s)"
proof -
  obtain st' u where r: "dispatch_stage demo_libs demo_shared (demo_sinks (0, 0)) 1 st (wy_state s) = (st', u)"
    by (metis surj_pair)
  have "wh_step demo_libs demo_shared demo_sinks demo_sent s (after_stage demo_sent demo_shared st u ([] @ (1, st') # []) s)"
    by (rule wh_step.proceeds) (use assms(2) r in simp_all)
  moreover have "demo_next s = after_stage demo_sent demo_shared st u ([] @ (1, st') # []) s"
    unfolding demo_next_def assms(2) list.sel snd_conv Let_def r fst_conv append_Nil by (rule refl)
  ultimately show ?thesis using wh_next [OF assms(1)] by metis
qed

lemma demo_done_reachable:
  assumes "demo_wh_reachable s" "wy_open s = [(1, st)]"
  shows "demo_wh_reachable (demo_done s)"
  using wh_next [OF assms(1) wh_step.leaves [of s "[]" 1 st "[]"]] assms(2) by (simp add: demo_done_def)

lemma demo_one_open:
  "wy_open (demo_next s) = [(1, snd (hd (wy_open (demo_next s))))]"
  "wy_open s = [] \<Longrightarrow> wy_open (demo_arrival t t' s) = [(1, demo_callback t t')]"
  "wy_open (demo_done s) = []" "wy_open demo_open = []"
  by (simp_all add: demo_next_def demo_arrival_def demo_done_def demo_open_def after_stage_def Let_def)

text \<open>The callback arrives in time and is handed over, and its replay at the end of the window is, too.\<close>

definition demo_admitting :: "demo_sink wh_system" where
  "demo_admitting = demo_next (demo_arrival 1000 1000 demo_open)"

definition demo_replayed :: "demo_sink wh_system" where
  "demo_replayed = demo_next (demo_next (demo_arrival 1300 1301 (demo_done (demo_next demo_admitting))))"

lemma demo_admitting_reachable: "demo_wh_reachable demo_admitting"
  unfolding demo_admitting_def
  by (rule demo_next_reachable [OF demo_arrival_reachable [OF demo_open_reachable] demo_one_open(2) [OF demo_one_open(4)]])

lemma demo_replayed_reachable: "demo_wh_reachable demo_replayed"
proof -
  have "demo_wh_reachable (demo_next demo_admitting)"
    unfolding demo_admitting_def
    by (rule demo_next_reachable [OF demo_admitting_reachable [unfolded demo_admitting_def] demo_one_open(1)])
  then have "demo_wh_reachable (demo_done (demo_next demo_admitting))"
    by (rule demo_done_reachable [OF _ demo_one_open(1)])
  then have "demo_wh_reachable (demo_next (demo_arrival 1300 1301 (demo_done (demo_next demo_admitting))))"
    by (rule demo_next_reachable [OF demo_arrival_reachable demo_one_open(2) [OF demo_one_open(3)]])
  then show ?thesis
    unfolding demo_replayed_def by (rule demo_next_reachable [OF _ demo_one_open(1)])
qed

definition demo_event_i :: "json event_envelope" where
  "demo_event_i = \<lparr>env_id = lit ''e'', env_adapter = lit ''qq'', delivery_id = None, timestamp = None,
     env_event = Event_Notice J_Null, raw = J_Null\<rparr>"

lemma demo_admitting_stage:
  "wy_open demo_admitting = [(1, St_Admit demo_event_i (lit ''i'') 1000 1000)]"
  "fst (dispatch_stage demo_libs demo_shared (demo_sinks (0, 0)) 1 (St_Admit demo_event_i (lit ''i'') 1000 1000)
     (wy_state demo_admitting)) = St_Done (Rs_Ack 0)"
  "wy_handed demo_admitting = []" "demo_sent (wh_sink (wy_state demo_admitting)) = []"
  by code_simp+


lemma demo_replayed_run:
  "(\<lambda>s. (map (\<lambda>h. fst (snd h)) (wy_handed s), map (\<lambda>h. snd (snd h)) (wy_handed s), wy_latest s)) demo_replayed =
     ([lit ''i'', lit ''i''], [1300, 1311], 1301)"
  by code_simp

lemma demo_replayed_results:
  "map (\<lambda>h. fst (snd h)) (wy_handed demo_replayed) = [lit ''i'', lit ''i'']"
  "map (\<lambda>h. snd (snd h)) (wy_handed demo_replayed) = [1300, 1311]" "wy_latest demo_replayed = 1301"
  using demo_replayed_run by (simp_all only: prod.inject)


lemma webhook_table_bounded_witness:
  "hm_len (wh_seen (wy_state demo_replayed)) \<le> max_seen_events"
  using webhook_table_bounded [OF list_channel_laws demo_replayed_reachable] by blast

definition demo_at_end :: "demo_sink webhook" where
  "demo_at_end = wy_state (demo_next demo_admitting)"

lemma demo_at_end_results:
  "demo_callback 1300 1300 = St_Lookup (demo_payload (the (wl_json demo_libs []))) (lit ''i'') 1300 1000"
  "wl_mapping demo_libs (ws_adapter_id demo_shared) (demo_payload (the (wl_json demo_libs []))) = Inr (Some demo_event_i)"
  "hm_wf (wh_seen demo_at_end)" "hm_len (wh_seen demo_at_end) \<le> max_seen_events"
  "hm_get (wh_seen demo_at_end) (lit ''i'') = Some \<lparr>sr_state = Seen_Accepted, sr_expires_at = 1300\<rparr>"
  "wh_active demo_at_end = Some \<lparr>ar_generation = 1, ar_terminal = True\<rparr>"
  "fst (sk_try_send (demo_sinks (0, 0)) demo_event_i (wh_sink demo_at_end)) = Inr ()"
  by code_simp+

lemma replay_at_window_end_witness:
  "demo_callback 1300 1301 = St_Lookup (demo_payload (the (wl_json demo_libs []))) (lit ''i'') 1301 1000 \<and>
   (\<exists>w. sk_try_send (demo_sinks (0, 0)) demo_event_i (wh_sink demo_at_end) = (Inr (), w) \<and>
     (let (st1, s1) = dispatch_stage demo_libs demo_shared (demo_sinks (0, 0)) 1
            (St_Lookup (demo_payload (the (wl_json demo_libs []))) (lit ''i'') 1301 1000) demo_at_end;
          (st2, s2) = dispatch_stage demo_libs demo_shared (demo_sinks (0, 0)) 1 st1 s1
      in st2 = St_Done (Rs_Ack 0) \<and> wh_sink s2 = w))"
proof -
  obtain w where w: "sk_try_send (demo_sinks (0, 0)) demo_event_i (wh_sink demo_at_end) = (Inr (), w)"
    using demo_at_end_results(7) by (metis prod.collapse)
  have "(1300 :: nat) = 1000 + ws_tolerance demo_shared" by (simp add: demo_shared_def)
  from replay_at_window_end [OF demo_at_end_results(1) [unfolded demo_callback_def] this demo_at_end_results(2-6) w]
  show ?thesis using w by (simp only: demo_callback_def active_run.select_convs) (metis Suc_numeral semiring_norm(5) semiring_norm(2) semiring_norm(8))
qed

end
