(* ===== verification/Spec2Isabelle.thy ===== *)
theory Spec2Isabelle
  imports DedupSystem CommandRouter EventRouter EventQueue RuntimeLoop Supervisor HttpExecProps AssetsProps
    PluginQueue PluginGuards PluginHostProps PluginGate OneBotConnProps OneBotAccept QqWebhookProps
begin

text \<open>
  A verification library for BroKnowMyQQBot, a chat bot framework in Rust. It models the event pipeline of
  \<open>crates/bot-core\<close>, the host side of the plugin system, \<open>crates/plugin-api\<close> and \<open>crates/plugin-host\<close>, the
  OneBot 11 adapter, \<open>crates/adapter-onebot11\<close> and \<open>crates/onebot-protocol\<close>, and the two transports of the QQ
  adapter, the gateway session of \<open>crates/adapter-qqbot/src/websocket.rs\<close> and the callbacks of \<open>webhook.rs\<close>.

  How the parts interact. Adapters hand events to \<open>EventSender\<close>s; the dispatcher of the runtime takes them from
  the queue and spawns one task per event, chained per conversation. A task claims the event in the
  deduplication store, runs the event router (command router included), commits or releases the claim and
  acknowledges the event; claims that a cancelled task leaves behind go to the recovery supervisor and, at
  shutdown, to the finalization. A plugin is described by a manifest; its handler output is committed to the
  plugin store, from which its commands run; HTTP commands go through the executor, attachments through the
  asset store.

  Theories, in the order in which they build on each other.

  \<^item> \<open>Prelude\<close>: strings as lists of scalar values, saturating machine integers, outcomes of awaited calls, the
    rule collections. \<open>Containers\<close>: \<open>HashMap\<close> and \<open>BTreeMap\<close> as association lists, with the locale \<open>kv_map\<close>
    interpreted by both. \<open>BotModel\<close>: \<open>model.rs\<close> and \<open>context.rs\<close>, events, targets, actions, contexts.
  \<^item> \<open>Dedup\<close>, \<open>DedupSystem\<close>: \<open>dedup.rs\<close>. The state is the one under the mutex plus the futures that wait; a step is
    one poll, one drop or one call. Lemmas: exclusive ownership, no lost wake-up, bounds, pinned commits.
  \<^item> \<open>EventRouter\<close>, \<open>CommandRouter\<close>: \<open>router.rs\<close>. Routes with filters and the middleware protocol, where a hook may
    panic or be cancelled; registration and parsing of commands.
  \<^item> \<open>Metrics\<close>: \<open>metrics.rs\<close>. \<open>RuntimeBuild\<close>: the builder of \<open>runtime.rs\<close>.
  \<^item> \<open>EventQueue\<close>: \<open>EventSender\<close> and \<open>EventPermit\<close> of \<open>adapter.rs\<close> over a channel given by its laws.
  \<^item> \<open>Dispatch\<close>, \<open>DispatchProps\<close>: the life of a claim in \<open>runtime.rs\<close> (\<open>dispatch_event\<close> to
    \<open>finalize_outstanding_claims\<close>). \<open>Partition\<close>: \<open>spawn_event\<close> and the chains of tasks. \<open>RuntimeLoop\<close>:
    \<open>EventDispatcher::run\<close> and the shutdown. \<open>Supervisor\<close>: \<open>run_recovery_supervisor\<close>.
  \<^item> \<open>PluginManifest\<close>, \<open>PluginManifestProps\<close>: \<open>id.rs\<close> and \<open>manifest.rs\<close>. Validation with every error, locale
    resolution, capabilities; string matching of paths and hosts against its meaning on segments.
  \<^item> \<open>HttpExec\<close>, \<open>HttpExecProps\<close>: \<open>http.rs\<close>. Credentials, authorized targets, public addresses, redirects.
  \<^item> \<open>Assets\<close>, \<open>AssetsProps\<close>: \<open>assets.rs\<close>. Records and usage counters; refinement to a store that sums.
  \<^item> \<open>PluginTypes\<close>: \<open>protocol.rs\<close>. \<open>PluginStore\<close>: \<open>storage.rs\<close>, each table a map and each method a step.
    \<open>PluginStoreProps\<close>: histories of calls and the automaton of a delivery. \<open>PluginQueue\<close>: commits and the outbox.
    \<open>PluginGuards\<close>: circuit breaker, scheduled tasks, installations.
  \<^item> \<open>PluginOutput\<close>: \<open>runtime/validation.rs\<close>. What the host lets a plugin see (redaction, extensions) and what it
    accepts from it. \<open>PluginCommands\<close>, \<open>PluginCommandsProps\<close>: \<open>runtime/command.rs\<close> and the result types of
    \<open>browser.rs\<close>. A command is a function of the asset store and the world; other tasks act at every await.
  \<^item> \<open>PluginDelivery\<close>: the deliveries of \<open>runtime/mod.rs\<close> for one plugin, with its locks as fields of the host
    state: \<open>deliver_single_with_retry\<close>, commit and commands, completions, scheduled tasks and their workers,
    recovery. \<open>PluginDeliveryProps\<close>: which operations can change which rows, that every delivery ends and every
    turn settles its row. \<open>PluginRecovery\<close>: traps, and what a restart does with what a stopped host left.
  \<^item> \<open>PluginHost\<close>, \<open>PluginHostProps\<close>: the lifecycle operations of \<open>runtime/mod.rs\<close> over all plugins, each plugin
    a cell with its own locks that is taken into the host state of its operations: \<open>register\<close>, \<open>upgrade\<close>,
    \<open>update_config\<close>, \<open>dispatch\<close>, \<open>shutdown\<close>. Lemmas: what each operation leaves of the registry and of the
    lifecycle, on every branch. \<open>PluginGate\<close>: the \<open>InvocationGate\<close> of a plugin as a step system of invocations and
    changes of lifecycle, with its limits, its fence and its freedom from deadlock.

  \<^item> \<open>Json\<close>: reading of JSON values and the canonical form that event identifiers are made from. \<open>OneBot\<close>,
    \<open>OneBotProps\<close>: \<open>onebot-protocol\<close>, \<open>mapping.rs\<close> and the requests of actions; what identifiers identify, requests
    read back, consistent messages. \<open>OneBotConn\<close>, \<open>OneBotConnProps\<close>: one connection of \<open>adapter-onebot11/src/lib.rs\<close>
    as a step system (\<open>execute\<close>, \<open>run_connection\<close>, \<open>forward_events\<close>, teardown), with ghost fields for what was
    answered, sent, received and forwarded; four invariants (flow, tickets, media permits, events) and what follows
    from them. \<open>OneBotAccept\<close>: handshakes, authorization and the slot of the one connection.

  \<^item> \<open>QqSession\<close>, \<open>QqGateway\<close>: gateway payloads, \<open>SessionState\<close> with its operations, \<open>handle_dispatch\<close>,
    \<open>run_connection\<close>, \<open>connect_authenticated\<close>, \<open>run_forever\<close>. \<open>QqSessionProps\<close>: a session is a function of the
    history of its dispatches and of what was handled (\<open>session_of\<close>), and every operation acts on that history.
    \<open>QqResume\<close>: the adapter against a gateway that numbers and replays dispatches as documented, as a step system,
    over any sender that the locale \<open>event_sink\<close> describes, which the sender of the runtime is. \<open>QqResumeProps\<close>: events
    once and in order over reconnects, what a resume point covers, and what a failed event does. Fewer than
    \<open>2 ^ 64\<close> delivery identifiers are a hypothesis there: they would be used twice after that.
  \<^item> \<open>QqWebhook\<close>, \<open>QqWebhookProps\<close>: the HTTP callbacks. Configuration, signatures, the table of seen events, runs,
    and \<open>dispatch_response\<close> cut at its awaits; callbacks in flight as a step system, over the same \<open>event_sink\<close>.
    Lemmas: what may be handed over twice, what an answer means, what a callback must carry to be heard.

  The root theory holds the properties that span components.

  Bounds and fuel. Loops of the code are structural recursions (over queues, lists of hooks, retry delays, the
  remaining redirects) or step systems, whose histories may be of any length; no property rests on fuel. The
  retries of a commit are bounded by the list of delays, a redirect chain by four requests. The loops of a
  delivery and of its completions are \<open>partial_function (option)\<close>, where \<open>None\<close> is a loop that does not end; that
  they end (three attempts an event, sixty-four completions a chain) is a theorem. Machine integers
  saturate or wrap where the code does; counters in SQLite are unbounded numbers except where the code
  saturates them.

  The environment. Handlers, hooks, adapters, the clock, channel, network, URL, SemVer and TOML libraries are
  arguments of the definitions; a law of theirs that a property needs is a hypothesis with a witness. While a
  delivery waits, other tasks change the plugin store by calls of its methods, and the lifecycle, the
  configuration and the workers in any way; a task may be dropped at an await. While an operation on one plugin
  waits, other tasks change the other plugins; a plugin that is being registered is not shared yet. In the gate
  any waiter may get a free lock or permit, so that nothing rests on the fairness of a semaphore.

  Not modelled: panics of a thread that holds a lock of the plugin host; the \<open>tokio\<close> scheduler beyond the interleavings of the step systems, SQLite beyond what each
  statement describes, WebAssembly execution and the generated bindings, the application shell (\<open>src/\<close>: command
  line, configuration files, logging, plugin development and marketplace tools), of the QQ adapter the
  actions and the mapping of dispatches (both transports take it as an argument) with the protocol types behind
  them, the HTTP server and Ed25519 (parameters of the webhook), the abort of the task of the OneBot adapter (a
  shutdown ends its connection in order), the browser
  service, package archives and the built-in plugins.
\<close>

section \<open>From the adapters to the event tasks\<close>

lemma spawn_known_tasks:
  "env_adapter ` set es \<subseteq> set ids \<Longrightarrow>
   map pt_key (ps_tasks (fold (spawn_event ids) es s)) =
     map pt_key (ps_tasks s) @ map runtime_partition_key es \<and>
   ps_observer (fold (spawn_event ids) es s) = ps_observer s"
proof (induction es arbitrary: s)
  case (Cons e es)
  then have "env_adapter e \<in> set ids" by simp
  moreover from this have "ps_observer (spawn_event ids e s) = ps_observer s"
    by (simp add: spawn_event_def Let_def)
  ultimately show ?case using Cons by (simp add: spawn_event_simps(1))
qed simp

text \<open>[C32] From the adapters to the event tasks: when every sender is bound to a configured adapter, as
  \<open>Runtime::run\<close> makes them, the dispatcher turns the events it receives, in their order and without
  dropping one, into one task each in the partition of the event; the branch that drops events of
  unknown adapters is never taken.\<close>

theorem queued_events_dispatched:
  assumes "channel_laws ch items permits" "items q0 = []" "permits q0 = 0"
    and "\<Union> (op_senders ` set ops) \<subseteq> set ids"
  shows "let received = qr_received (queue_history ch q0 (configure n ids ob) ops);
      s = fold (spawn_event ids) received (new_partitions ob')
    in map pt_key (ps_tasks s) = map runtime_partition_key received \<and> ps_observer s = ob'"
proof -
  let ?x = "queue_history ch q0 (configure n ids ob) ops"
  have "queue_inv ch items permits (set ids) ?x"
    by (rule queue_history_inv [OF assms(1-3) configure_fresh assms(4)])
  then have "set (qr_received ?x) \<subseteq> set (accepted_events (qr_results ?x))"
    and "env_adapter ` set (accepted_events (qr_results ?x)) \<subseteq> set ids"
    unfolding queue_inv_def Let_def by (metis set_append Un_upper1, blast)
  then have "env_adapter ` set (qr_received ?x) \<subseteq> set ids" by blast
  from spawn_known_tasks [OF this, of "new_partitions ob'"] show ?thesis
    by (simp add: Let_def new_partitions_def)
qed

lemma queued_events_dispatched_witness:
  "map pt_key (ps_tasks (fold (spawn_event [lit ''a'', lit ''b'']) (qr_received demo_queue_run)
      (new_partitions new_observer))) = map runtime_partition_key (qr_received demo_queue_run)"
proof -
  have "\<Union> (op_senders ` set demo_queue_ops) \<subseteq> set [lit ''a'', lit ''b'']"
    by (simp add: demo_queue_ops_def)
  from queued_events_dispatched [OF list_channel_laws [of 2], of "([], 0, True)", OF _ _ this, of 2 new_observer]
  show ?thesis by (simp add: Let_def demo_queue_run_def)
qed

end
